(* ===== verification/Vllm_Prelude.thy ===== *)
theory Vllm_Prelude
  imports Main "HOL-Library.Word" "HOL-Library.AList"
begin

text \<open>
  Shared vocabulary of the development.  Python values are modelled as follows.

  \<^item> Python's unbounded integers are \<open>int\<close>; \<open>//\<close> and \<open>%\<close> are \<open>div\<close> and \<open>mod\<close>, which round
    towards minus infinity as Python's do.
  \<^item> An exception is a value of \<open>py_error\<close>; a fallible call returns \<open>'a result\<close>, that is
    \<open>Inl\<close> of the exception or \<open>Inr\<close> of the value.  A raised exception drops the partial state:
    the callers in the modelled code do not catch it.
  \<^item> A \<open>dict\<close> is an association list in insertion order (\<open>AList.update\<close> keeps the position of
    an existing key and appends a new one, as Python does).
  \<^item> A \<open>set\<close> whose elements are enumerated is a list without repetitions.
  \<^item> \<open>bytes\<close> is a list of 8-bit words.
\<close>

section \<open>Theorem collections\<close>

named_theorems store_simps \<open>reading a store after writing it\<close>
named_theorems dict_simps \<open>reading a dictionary after updating it\<close>
named_theorems result_simps \<open>inverting fallible computations\<close>
named_theorems arith_div \<open>division and remainder on Python integers\<close>

section \<open>Exceptions and fallible results\<close>

datatype py_error =
    ValueError | RuntimeError | AssertionError | IndexError | KeyError
  | OverflowError | NotImplementedError | ZeroDivisionError | StopIteration | AttributeError | TypeError

type_synonym 'a result = "py_error + 'a"

type_synonym bytes = "8 word list"

fun and_then :: "'a result \<Rightarrow> ('a \<Rightarrow> 'b result) \<Rightarrow> 'b result" where
  "and_then (Inl e) f = Inl e"
| "and_then (Inr x) f = f x"

definition py_assert :: "bool \<Rightarrow> unit result" where
  "py_assert b = (if b then Inr () else Inl AssertionError)"

text \<open>\<^verbatim>\<open>a % b\<close>\<close>

definition py_mod :: "int \<Rightarrow> int \<Rightarrow> int result" where
  "py_mod a b = (if b = 0 then Inl ZeroDivisionError else Inr (a mod b))"

text \<open>\<^verbatim>\<open>a // b\<close>\<close>

definition py_div :: "int \<Rightarrow> int \<Rightarrow> int result" where
  "py_div a b = (if b = 0 then Inl ZeroDivisionError else Inr (a div b))"

text \<open>A \<^verbatim>\<open>for\<close> loop whose body may raise: the state after the last iteration, or the first error.\<close>

fun for_each :: "('a \<Rightarrow> 's \<Rightarrow> 's result) \<Rightarrow> 'a list \<Rightarrow> 's \<Rightarrow> 's result" where
  "for_each f [] s = Inr s"
| "for_each f (x # xs) s = and_then (f x s) (for_each f xs)"

section \<open>Python sequences\<close>

text \<open>\<^verbatim>\<open>xs[i]\<close>: a negative index counts from the end, out of range raises \<^verbatim>\<open>IndexError\<close>.\<close>

definition py_index :: "'a list \<Rightarrow> int \<Rightarrow> 'a result" where
  "py_index xs i =
     (if i < - int (length xs) \<or> int (length xs) \<le> i then Inl IndexError
      else if i < 0 then Inr (xs ! (length xs - nat (- i)))
      else Inr (xs ! nat i))"

text \<open>\<^verbatim>\<open>xs[i] = v\<close>\<close>

definition py_store :: "'a list \<Rightarrow> int \<Rightarrow> 'a \<Rightarrow> 'a list result" where
  "py_store xs i v =
     (if i < - int (length xs) \<or> int (length xs) \<le> i then Inl IndexError
      else if i < 0 then Inr (xs[length xs - nat (- i) := v])
      else Inr (xs[nat i := v]))"

text \<open>\<^verbatim>\<open>xs[i:j]\<close>: both ends are clamped into the list.\<close>

definition slice_bound :: "nat \<Rightarrow> int \<Rightarrow> nat" where
  "slice_bound n i = nat (min (int n) (max 0 (if i < 0 then int n + i else i)))"

definition py_slice :: "'a list \<Rightarrow> int \<Rightarrow> int \<Rightarrow> 'a list" where
  "py_slice xs i j = drop (slice_bound (length xs) i) (take (slice_bound (length xs) j) xs)"

definition py_slice_from :: "'a list \<Rightarrow> int \<Rightarrow> 'a list" where
  "py_slice_from xs i = drop (slice_bound (length xs) i) xs"

text \<open>\<^verbatim>\<open>range(i, j)\<close>\<close>

abbreviation py_range :: "int \<Rightarrow> int \<Rightarrow> int list" where
  "py_range i j \<equiv> [i..j - 1]"

section \<open>Python dictionaries and sets\<close>

type_synonym ('k, 'v) dict = "('k \<times> 'v) list"

abbreviation dict_get :: "('k, 'v) dict \<Rightarrow> 'k \<Rightarrow> 'v option" where
  "dict_get d k \<equiv> map_of d k"

abbreviation dict_set :: "'k \<Rightarrow> 'v \<Rightarrow> ('k, 'v) dict \<Rightarrow> ('k, 'v) dict" where
  "dict_set k v d \<equiv> AList.update k v d"

abbreviation dict_del :: "'k \<Rightarrow> ('k, 'v) dict \<Rightarrow> ('k, 'v) dict" where
  "dict_del k d \<equiv> AList.delete k d"

definition dict_ok :: "('k, 'v) dict \<Rightarrow> bool" where
  "dict_ok d = distinct (map fst d)"

text \<open>\<^verbatim>\<open>s.add(x)\<close> and \<^verbatim>\<open>s.discard(x)\<close> on a set represented by a list.\<close>

definition set_add :: "'a \<Rightarrow> 'a list \<Rightarrow> 'a list" where
  "set_add x s = (if x \<in> set s then s else s @ [x])"

definition set_discard :: "'a \<Rightarrow> 'a list \<Rightarrow> 'a list" where
  "set_discard x s = removeAll x s"

section \<open>Facts about results\<close>

lemma and_then_Inr [result_simps]:
  "and_then m f = Inr y \<longleftrightarrow> (\<exists>x. m = Inr x \<and> f x = Inr y)"
  by (cases m) auto

lemma and_then_Inl [result_simps]:
  "and_then m f = Inl e \<longleftrightarrow> m = Inl e \<or> (\<exists>x. m = Inr x \<and> f x = Inl e)"
  by (cases m) auto

lemma and_thenE: "and_then m f = Inr y \<Longrightarrow> (\<And>x. m = Inr x \<Longrightarrow> f x = Inr y \<Longrightarrow> P) \<Longrightarrow> P"
  by (auto simp: result_simps)

lemma and_thenE2:
  "and_then m (\<lambda>(a, b). f a b) = Inr y \<Longrightarrow> (\<And>a b. m = Inr (a, b) \<Longrightarrow> f a b = Inr y \<Longrightarrow> P) \<Longrightarrow> P"
  by (auto simp: result_simps)

lemma py_assert_Inr [result_simps, simp]: "py_assert b = Inr u \<longleftrightarrow> b"
  by (simp add: py_assert_def)

lemma py_assert_True [simp]: "py_assert True = Inr ()"
  by (simp add: py_assert_def)

lemma py_assert_False [simp]: "py_assert False = Inl AssertionError"
  by (simp add: py_assert_def)

lemma for_each_append:
  "for_each f (xs @ ys) s = and_then (for_each f xs s) (for_each f ys)"
proof (induction xs arbitrary: s)
  case (Cons x xs)
  then show ?case by (cases "f x s") simp_all
qed simp

text \<open>The loop rule: an invariant over the processed prefix, the body never raising.\<close>

lemma for_each_invariant:
  assumes "P [] s"
    and "\<And>done x todo s. xs = done @ x # todo \<Longrightarrow> P done s \<Longrightarrow>
           \<exists>s'. f x s = Inr s' \<and> P (done @ [x]) s'"
  shows "\<exists>s'. for_each f xs s = Inr s' \<and> P xs s'"
proof -
  have "\<exists>s'. for_each f todo s = Inr s' \<and> P xs s'"
    if "xs = done @ todo" "P done s" for "done" todo s
    using that
  proof (induction todo arbitrary: "done" s)
    case Nil
    then show ?case by simp
  next
    case (Cons x todo)
    then obtain s' where s': "f x s = Inr s'" "P (done @ [x]) s'"
      using assms(2) by blast
    with Cons.IH [of "done @ [x]" s'] Cons.prems show ?case by simp
  qed
  from this [of "[]" xs s] assms(1) show ?thesis by simp
qed

text \<open>The partial-correctness rule: whatever the body keeps, the loop keeps.\<close>

lemma for_each_preserves:
  assumes "for_each f xs s = Inr s'" and "P s"
    and "\<And>x s s'. x \<in> set xs \<Longrightarrow> P s \<Longrightarrow> f x s = Inr s' \<Longrightarrow> P s'"
  shows "P s'"
  using assms
proof (induction xs arbitrary: s)
  case (Cons x xs)
  from Cons.prems(1) obtain t where t: "f x s = Inr t" "for_each f xs t = Inr s'"
    by (auto simp: result_simps)
  show ?case
  proof (rule Cons.IH [OF t(2)])
    show "P t" using Cons.prems(2,3) t(1) by (meson list.set_intros(1))
    show "\<And>x s s'. x \<in> set xs \<Longrightarrow> P s \<Longrightarrow> f x s = Inr s' \<Longrightarrow> P s'"
      using Cons.prems(3) by (meson list.set_intros(2))
  qed
qed simp

section \<open>Facts about sequences\<close>

lemma py_index_nonneg: "0 \<le> i \<Longrightarrow> i < int (length xs) \<Longrightarrow> py_index xs i = Inr (xs ! nat i)"
  by (simp add: py_index_def)

lemma py_index_of_nat [simp]: "i < length xs \<Longrightarrow> py_index xs (int i) = Inr (xs ! i)"
  by (simp add: py_index_nonneg)

lemma py_index_last: "xs \<noteq> [] \<Longrightarrow> py_index xs (- 1) = Inr (last xs)"
  by (cases xs rule: rev_cases) (auto simp: py_index_def nth_append)

lemma slice_bound_of_nat [simp]: "slice_bound n (int i) = min n i"
  by (simp add: slice_bound_def)

lemma slice_bound_nonneg: "0 \<le> i \<Longrightarrow> slice_bound n i = min n (nat i)"
  by (simp add: slice_bound_def)

lemma py_slice_nonneg:
  "0 \<le> i \<Longrightarrow> 0 \<le> j \<Longrightarrow> py_slice xs i j = drop (nat i) (take (nat j) xs)"
  by (simp add: py_slice_def slice_bound_nonneg drop_take min_def)

lemma py_slice_of_nat: "py_slice xs (int i) (int j) = drop i (take j xs)"
  by (simp add: py_slice_nonneg)

lemma py_slice_from_nonneg: "0 \<le> i \<Longrightarrow> py_slice_from xs i = drop (nat i) xs"
  by (simp add: py_slice_from_def slice_bound_nonneg min_def)

lemma in_set_tlD: "x \<in> set (tl xs) \<Longrightarrow> x \<in> set xs"
  by (cases xs) auto

section \<open>Facts about dictionaries and sets\<close>

lemmas dict_conv [dict_simps] = update_conv' delete_conv'

lemma dict_ok_Nil [simp]: "dict_ok []"
  by (simp add: dict_ok_def)

lemma dict_ok_set [simp]: "dict_ok d \<Longrightarrow> dict_ok (dict_set k v d)"
  by (simp add: dict_ok_def distinct_update)

lemma dict_ok_del [simp]: "dict_ok d \<Longrightarrow> dict_ok (dict_del k d)"
  by (simp add: dict_ok_def distinct_delete)

lemma set_set_add [simp]: "set (set_add x s) = insert x (set s)"
  by (auto simp: set_add_def)

lemma distinct_set_add [simp]: "distinct s \<Longrightarrow> distinct (set_add x s)"
  by (simp add: set_add_def)

lemma set_set_discard [simp]: "set (set_discard x s) = set s - {x}"
  by (simp add: set_discard_def)

lemma distinct_set_discard [simp]: "distinct s \<Longrightarrow> distinct (set_discard x s)"
  by (simp add: set_discard_def distinct_removeAll)

end
