(* ===== verification/Free_Block_Queue.thy ===== *)
theory Free_Block_Queue
  imports Vllm_Prelude
begin

text \<open>
  The metadata of a KV cache block and the queue of free blocks
  (\<^verbatim>\<open>KVCacheBlock\<close> and \<^verbatim>\<open>FreeKVCacheBlockQueue\<close> of \<^verbatim>\<open>vllm/v1/core/kv_cache_utils.py\<close>).

  The queue is a doubly linked list threaded through the blocks themselves: its operations write
  the \<open>prev_free_block\<close> and \<open>next_free_block\<close> attributes of shared objects.  The model keeps
  that: blocks live in a store indexed by references, a reference is a pool block \<open>Blk i\<close> or one of
  the two sentinels, and every operation is a sequence of attribute writes on the store.  The
  lemmas relate the pointer operations to operations on an abstract list (\<open>free_list\<close>), and the
  locale \<open>eviction_queue\<close> is the contract that the block pool relies on.
\<close>

section \<open>Blocks, references and the store\<close>

datatype block_ref = FakeHead | FakeTail | Blk nat

record KVCacheBlock =
  block_id :: int
  ref_cnt :: int
  block_hash :: "bytes option"
  block_hash_num_tokens :: "int option"
  prev_free_block :: "block_ref option"
  next_free_block :: "block_ref option"
  is_null :: bool

record free_queue =
  blk :: "block_ref \<Rightarrow> KVCacheBlock"
  num_free_blocks :: int

definition KVCacheBlock_init :: "int \<Rightarrow> KVCacheBlock" where
  "KVCacheBlock_init i = \<lparr>block_id = i, ref_cnt = 0, block_hash = None,
     block_hash_num_tokens = None, prev_free_block = None, next_free_block = None,
     is_null = False\<rparr>"

definition set_block_hash ::
    "bytes \<Rightarrow> int option \<Rightarrow> KVCacheBlock \<Rightarrow> KVCacheBlock result" where
  "set_block_hash h n b =
     and_then (py_assert (block_hash b = None \<and> block_hash_num_tokens b = None))
       (\<lambda>_. Inr (b\<lparr>block_hash := Some h, block_hash_num_tokens := n\<rparr>))"

definition reset_hash :: "KVCacheBlock \<Rightarrow> KVCacheBlock" where
  "reset_hash b = b\<lparr>block_hash := None, block_hash_num_tokens := None\<rparr>"

text \<open>Attribute writes on a block of the store.\<close>

definition upd_blk ::
    "block_ref \<Rightarrow> (KVCacheBlock \<Rightarrow> KVCacheBlock) \<Rightarrow> 'a free_queue_scheme \<Rightarrow> 'a free_queue_scheme" where
  "upd_blk r f s = s\<lparr>blk := (blk s)(r := f (blk s r))\<rparr>"

definition set_next ::
    "block_ref \<Rightarrow> block_ref option \<Rightarrow> 'a free_queue_scheme \<Rightarrow> 'a free_queue_scheme" where
  "set_next r v = upd_blk r (\<lambda>b. b\<lparr>next_free_block := v\<rparr>)"

definition set_prev ::
    "block_ref \<Rightarrow> block_ref option \<Rightarrow> 'a free_queue_scheme \<Rightarrow> 'a free_queue_scheme" where
  "set_prev r v = upd_blk r (\<lambda>b. b\<lparr>prev_free_block := v\<rparr>)"

abbreviation nexts :: "'a free_queue_scheme \<Rightarrow> block_ref \<Rightarrow> block_ref option" where
  "nexts s \<equiv> \<lambda>r. next_free_block (blk s r)"

abbreviation prevs :: "'a free_queue_scheme \<Rightarrow> block_ref \<Rightarrow> block_ref option" where
  "prevs s \<equiv> \<lambda>r. prev_free_block (blk s r)"

section \<open>The operations of the queue\<close>

definition link_consecutive ::
    "block_ref list \<Rightarrow> nat \<Rightarrow> 'a free_queue_scheme \<Rightarrow> 'a free_queue_scheme" where
  "link_consecutive bs i s =
     (let s = (if 0 < i then set_prev (bs ! i) (Some (bs ! (i - 1))) s else s)
      in if i < length bs - 1 then set_next (bs ! i) (Some (bs ! (i + 1))) s else s)"

definition FreeKVCacheBlockQueue_init ::
    "block_ref list \<Rightarrow> 'a free_queue_scheme \<Rightarrow> 'a free_queue_scheme" where
  "FreeKVCacheBlockQueue_init bs s =
     (let s = s\<lparr>num_free_blocks := int (length bs)\<rparr>;
          s = fold (link_consecutive bs) [0..<length bs] s;
          s = upd_blk FakeHead (\<lambda>_. KVCacheBlock_init (-1)) s;
          s = upd_blk FakeTail (\<lambda>_. KVCacheBlock_init (-1)) s
      in if num_free_blocks s > 0 then
           let s = set_next FakeHead (Some (bs ! 0)) s;
               s = set_prev (bs ! 0) (Some FakeHead) s;
               s = set_prev FakeTail (Some (last bs)) s
           in set_next (last bs) (Some FakeTail) s
         else
           let s = set_next FakeHead (Some FakeTail) s
           in set_prev FakeTail (Some FakeHead) s)"

definition popleft :: "'a free_queue_scheme \<Rightarrow> (block_ref \<times> 'a free_queue_scheme) result" where
  "popleft s =
     (case nexts s FakeHead of
        None \<Rightarrow> and_then (py_assert (num_free_blocks s = 0)) (\<lambda>_. Inl ValueError)
      | Some FakeTail \<Rightarrow> and_then (py_assert (num_free_blocks s = 0)) (\<lambda>_. Inl ValueError)
      | Some first_block \<Rightarrow>
          (case nexts s first_block of
             None \<Rightarrow> Inl RuntimeError
           | Some second \<Rightarrow>
               let s = set_next FakeHead (Some second) s;
                   s = set_prev second (Some FakeHead) s;
                   s = set_next first_block None (set_prev first_block None s)
               in Inr (first_block, s\<lparr>num_free_blocks := num_free_blocks s - 1\<rparr>)))"

fun popleft_loop ::
    "nat \<Rightarrow> block_ref option \<Rightarrow> block_ref list \<Rightarrow> 'a free_queue_scheme
     \<Rightarrow> (block_ref list \<times> block_ref option \<times> 'a free_queue_scheme) result" where
  "popleft_loop 0 cur ret s = Inr (ret, cur, s)"
| "popleft_loop (Suc n) None ret s = Inl AssertionError"
| "popleft_loop (Suc n) (Some last_block) ret s =
     popleft_loop n (nexts s last_block) (ret @ [last_block])
       (set_next last_block None (set_prev last_block None s))"

definition popleft_n ::
    "int \<Rightarrow> 'a free_queue_scheme \<Rightarrow> (block_ref list \<times> 'a free_queue_scheme) result" where
  "popleft_n n s =
     (if n = 0 then Inr ([], s)
      else and_then (py_assert (num_free_blocks s \<ge> n)) (\<lambda>_.
        let s = s\<lparr>num_free_blocks := num_free_blocks s - n\<rparr>
        in and_then (popleft_loop (nat n) (nexts s FakeHead) [] s) (\<lambda>(ret, curr_block, s).
          case curr_block of
            None \<Rightarrow> Inr (ret, s)
          | Some c \<Rightarrow> Inr (ret, set_prev c (Some FakeHead) (set_next FakeHead (Some c) s)))))"

definition remove_q :: "block_ref \<Rightarrow> 'a free_queue_scheme \<Rightarrow> 'a free_queue_scheme result" where
  "remove_q b s =
     (case (prevs s b, nexts s b) of
        (Some p, Some n) \<Rightarrow>
          let s = set_next p (Some n) s;
              s = set_prev n (Some p) s;
              s = set_next b None (set_prev b None s)
          in Inr (s\<lparr>num_free_blocks := num_free_blocks s - 1\<rparr>)
      | _ \<Rightarrow> Inl RuntimeError)"

definition append_q :: "block_ref \<Rightarrow> 'a free_queue_scheme \<Rightarrow> 'a free_queue_scheme result" where
  "append_q b s =
     (case prevs s FakeTail of
        None \<Rightarrow> Inl RuntimeError
      | Some last_block \<Rightarrow>
          let s = set_next last_block (Some b) s;
              s = set_prev b (Some last_block) s;
              s = set_next b (Some FakeTail) s;
              s = set_prev FakeTail (Some b) s
          in Inr (s\<lparr>num_free_blocks := num_free_blocks s + 1\<rparr>))"

text \<open>The loop shared by \<^verbatim>\<open>prepend_n\<close> and \<^verbatim>\<open>append_n\<close>: chain the blocks after \<open>prev_block\<close>.\<close>

fun chain_blocks ::
    "block_ref \<Rightarrow> block_ref list \<Rightarrow> 'a free_queue_scheme \<Rightarrow> block_ref \<times> 'a free_queue_scheme" where
  "chain_blocks prev_block [] s = (prev_block, s)"
| "chain_blocks prev_block (b # bs) s =
     chain_blocks b bs (set_next prev_block (Some b) (set_prev b (Some prev_block) s))"

definition prepend_n :: "block_ref list \<Rightarrow> 'a free_queue_scheme \<Rightarrow> 'a free_queue_scheme result" where
  "prepend_n bs s =
     (if bs = [] then Inr s
      else case nexts s FakeHead of
        None \<Rightarrow> Inl AssertionError
      | Some first_block \<Rightarrow>
          let (prev_block, s) = chain_blocks FakeHead bs s;
              s = set_next prev_block (Some first_block) s;
              s = set_prev first_block (Some prev_block) s
          in Inr (s\<lparr>num_free_blocks := num_free_blocks s + int (length bs)\<rparr>))"

definition append_n :: "block_ref list \<Rightarrow> 'a free_queue_scheme \<Rightarrow> 'a free_queue_scheme result" where
  "append_n bs s =
     (if bs = [] then Inr s
      else case prevs s FakeTail of
        None \<Rightarrow> Inl AssertionError
      | Some last_block \<Rightarrow>
          let (last_block, s) = chain_blocks last_block bs s;
              s = set_next last_block (Some FakeTail) s;
              s = set_prev FakeTail (Some last_block) s
          in Inr (s\<lparr>num_free_blocks := num_free_blocks s + int (length bs)\<rparr>))"

text \<open>The two traversals follow pointers with no bound; \<open>None\<close> is a traversal that does not end.\<close>

partial_function (option) collect_free ::
    "'a free_queue_scheme \<Rightarrow> block_ref \<Rightarrow> block_ref list \<Rightarrow> block_ref list option" where
  "collect_free s cur ret =
     (case nexts s cur of
        None \<Rightarrow> Some ret
      | Some n \<Rightarrow> collect_free s n (ret @ [cur]))"

declare collect_free.simps [code]

definition get_all_free_blocks :: "'a free_queue_scheme \<Rightarrow> block_ref list option result" where
  "get_all_free_blocks s =
     (case nexts s FakeHead of
        None \<Rightarrow> Inl RuntimeError
      | Some c \<Rightarrow> Inr (collect_free s c []))"

partial_function (option) yield_until_tail ::
    "'a free_queue_scheme \<Rightarrow> block_ref option \<Rightarrow> block_ref list \<Rightarrow> block_ref list option" where
  "yield_until_tail s cur ret =
     (case cur of
        None \<Rightarrow> Some ret
      | Some c \<Rightarrow> if c = FakeTail then Some ret
                   else yield_until_tail s (nexts s c) (ret @ [c]))"

declare yield_until_tail.simps [code]

definition iter_blocks_after ::
    "block_ref option \<Rightarrow> 'a free_queue_scheme \<Rightarrow> block_ref list option" where
  "iter_blocks_after cursor s =
     yield_until_tail s
       (case cursor of None \<Rightarrow> nexts s FakeHead | Some c \<Rightarrow> nexts s c) []"

section \<open>The abstract free list\<close>

text \<open>
  \<open>linked n p rs\<close>: consecutive references of \<open>rs\<close> point to each other, forwards by \<open>n\<close> and
  backwards by \<open>p\<close>.
\<close>

fun linked :: "('r \<Rightarrow> 'r option) \<Rightarrow> ('r \<Rightarrow> 'r option) \<Rightarrow> 'r list \<Rightarrow> bool" where
  "linked n p (a # b # rs) \<longleftrightarrow> n a = Some b \<and> p b = Some a \<and> linked n p (b # rs)"
| "linked n p _ \<longleftrightarrow> True"

definition sentinels :: "nat list \<Rightarrow> block_ref list" where
  "sentinels xs = FakeHead # map Blk xs @ [FakeTail]"

text \<open>
  \<open>free_list s xs\<close>: the free list of \<open>s\<close> is exactly \<open>xs\<close>, in eviction order.  Blocks outside it have
  no links, so that removing them again is detected.
\<close>

definition free_list :: "'a free_queue_scheme \<Rightarrow> nat list \<Rightarrow> bool" where
  "free_list s xs \<longleftrightarrow>
     linked (nexts s) (prevs s) (sentinels xs) \<and>
     prevs s FakeHead = None \<and> nexts s FakeTail = None \<and>
     distinct xs \<and> num_free_blocks s = int (length xs) \<and>
     (\<forall>i. i \<notin> set xs \<longrightarrow> nexts s (Blk i) = None \<and> prevs s (Blk i) = None)"

text \<open>The queue operations touch only the links: everything else of every block is framed.\<close>

definition unlinked :: "KVCacheBlock \<Rightarrow> KVCacheBlock" where
  "unlinked b = b\<lparr>prev_free_block := None, next_free_block := None\<rparr>"

definition links_only :: "'a free_queue_scheme \<Rightarrow> 'a free_queue_scheme \<Rightarrow> bool" where
  "links_only s s' \<longleftrightarrow>
     (\<forall>r. unlinked (blk s' r) = unlinked (blk s r)) \<and> free_queue.more s' = free_queue.more s"

subsection \<open>Linked sequences\<close>

lemma linked_Cons:
  "linked n p (a # rs) \<longleftrightarrow>
     rs = [] \<or> n a = Some (hd rs) \<and> p (hd rs) = Some a \<and> linked n p rs"
  by (cases rs) auto

lemma linked_join:
  "linked n p (xs @ a # b # ys) \<longleftrightarrow>
     linked n p (xs @ [a]) \<and> n a = Some b \<and> p b = Some a \<and> linked n p (b # ys)"
  by (induction n p xs rule: linked.induct) auto

lemma linked_frame:
  assumes "\<And>r. r \<in> set (butlast rs) \<Longrightarrow> n' r = n r" and "\<And>r. r \<in> set (tl rs) \<Longrightarrow> p' r = p r"
  shows "linked n' p' rs = linked n p rs"
  using assms by (induction n p rs rule: linked.induct) (auto simp: linked_Cons)

lemma linked_appendD:
  assumes "linked n p (xs @ ys)" shows "linked n p xs" "linked n p ys"
proof -
  show "linked n p ys" using assms by (induction xs) (auto simp: linked_Cons)
  show "linked n p xs" using assms by (induction n p xs rule: linked.induct) auto
qed

lemma linked_next:
  "linked n p (xs @ a # b # ys) \<Longrightarrow> n a = Some b"
  "linked n p (xs @ a # b # ys) \<Longrightarrow> p b = Some a"
  by (simp_all add: linked_join)

subsection \<open>Reading the store after a write\<close>

lemma store_reads [store_simps, simp]:
  "next_free_block (blk (set_next r v s) x) = (if x = r then v else nexts s x)"
  "prev_free_block (blk (set_next r v s) x) = prevs s x"
  "next_free_block (blk (set_prev r v s) x) = nexts s x"
  "prev_free_block (blk (set_prev r v s) x) = (if x = r then v else prevs s x)"
  "num_free_blocks (set_next r v s) = num_free_blocks s"
  "num_free_blocks (set_prev r v s) = num_free_blocks s"
  "num_free_blocks (upd_blk r g s) = num_free_blocks s"
  by (auto simp: set_next_def set_prev_def upd_blk_def)

lemma links_only_refl [simp, intro]: "links_only s s"
  by (simp add: links_only_def)

lemma links_only_trans: "links_only s t \<Longrightarrow> links_only t u \<Longrightarrow> links_only s u"
  by (simp add: links_only_def)

lemma links_only_writes [simp]:
  "links_only s (set_next r v t) = links_only s t"
  "links_only s (set_prev r v t) = links_only s t"
  "links_only s (t\<lparr>num_free_blocks := k\<rparr>) = links_only s t"
  by (auto simp: links_only_def set_next_def set_prev_def upd_blk_def unlinked_def fun_upd_def)

lemma links_only_attributes:
  assumes "links_only s s'"
  shows "block_id (blk s' r) = block_id (blk s r)"
    and "ref_cnt (blk s' r) = ref_cnt (blk s r)"
    and "block_hash (blk s' r) = block_hash (blk s r)"
    and "block_hash_num_tokens (blk s' r) = block_hash_num_tokens (blk s r)"
    and "is_null (blk s' r) = is_null (blk s r)"
    and "free_queue.more s' = free_queue.more s"
proof -
  have *: "unlinked (blk s' r) = unlinked (blk s r)"
    using assms by (simp add: links_only_def)
  show "block_id (blk s' r) = block_id (blk s r)"
    using arg_cong [OF *, of block_id] by (simp add: unlinked_def)
  show "ref_cnt (blk s' r) = ref_cnt (blk s r)"
    using arg_cong [OF *, of ref_cnt] by (simp add: unlinked_def)
  show "block_hash (blk s' r) = block_hash (blk s r)"
    using arg_cong [OF *, of block_hash] by (simp add: unlinked_def)
  show "block_hash_num_tokens (blk s' r) = block_hash_num_tokens (blk s r)"
    using arg_cong [OF *, of block_hash_num_tokens] by (simp add: unlinked_def)
  show "is_null (blk s' r) = is_null (blk s r)"
    using arg_cong [OF *, of is_null] by (simp add: unlinked_def)
  show "free_queue.more s' = free_queue.more s"
    using assms by (simp add: links_only_def)
qed

subsection \<open>Taking blocks from the front\<close>

text \<open>The references from the first free block to the tail sentinel.\<close>

lemma tail_segment:
  obtains c cs where "map Blk ys @ [FakeTail] = c # cs"
    and "set (c # cs) = insert FakeTail (Blk ` set ys)"
    and "distinct ys \<longrightarrow> distinct (c # cs)"
    and "set (butlast (c # cs)) = Blk ` set ys"
proof -
  obtain c cs where *: "map Blk ys @ [FakeTail] = c # cs"
    by (cases "map Blk ys @ [FakeTail]") auto
  have "set (c # cs) = insert FakeTail (Blk ` set ys)"
    by (auto simp: *[symmetric])
  moreover have "distinct ys \<longrightarrow> distinct (c # cs)"
    by (auto simp: *[symmetric] distinct_map inj_on_def)
  moreover have "set (butlast (c # cs)) = Blk ` set ys"
    by (auto simp: *[symmetric])
  ultimately show ?thesis using * that by blast
qed

lemma free_list_front:
  assumes "map Blk xs @ [FakeTail] = c # cs"
  shows "free_list s xs \<longleftrightarrow>
     nexts s FakeHead = Some c \<and> prevs s c = Some FakeHead \<and>
     linked (nexts s) (prevs s) (c # cs) \<and>
     prevs s FakeHead = None \<and> nexts s FakeTail = None \<and>
     distinct xs \<and> num_free_blocks s = int (length xs) \<and>
     (\<forall>i. i \<notin> set xs \<longrightarrow> nexts s (Blk i) = None \<and> prevs s (Blk i) = None)"
  by (simp add: free_list_def sentinels_def assms)

lemma popleft_empty: "free_list s [] \<Longrightarrow> popleft s = Inl ValueError"
  by (simp add: popleft_def free_list_def sentinels_def)

lemma popleft_Cons:
  assumes "free_list s (x # ys)"
  shows "\<exists>s'. popleft s = Inr (Blk x, s') \<and> free_list s' ys \<and> links_only s s'"
proof -
  obtain c cs where c: "map Blk ys @ [FakeTail] = c # cs"
    and set_c: "set (c # cs) = insert FakeTail (Blk ` set ys)"
    and dist_c: "distinct ys \<longrightarrow> distinct (c # cs)"
    and bl: "set (butlast (c # cs)) = Blk ` set ys"
    by (rule tail_segment)
  from assms have x: "x \<notin> set ys" "distinct ys"
    and l: "linked (nexts s) (prevs s) (FakeHead # Blk x # c # cs)"
    by (auto simp: free_list_def sentinels_def c)
  let ?s = "set_next (Blk x) None (set_prev (Blk x) None
    (set_prev c (Some FakeHead) (set_next FakeHead (Some c) s)))"
  let ?t = "?s\<lparr>num_free_blocks := num_free_blocks ?s - 1\<rparr>"
  have pop: "popleft s = Inr (Blk x, ?t)"
    using l by (simp add: popleft_def Let_def)
  have notin: "Blk x \<notin> set (c # cs)" "FakeHead \<notin> set (c # cs)" "c \<notin> set cs"
    using x set_c dist_c by (auto simp: image_iff)
  have "linked (nexts ?t) (prevs ?t) (c # cs)"
    using l notin bl
    by (subst linked_frame [where n = "nexts s" and p = "prevs s"]) (auto simp: image_iff x)
  moreover have "nexts s FakeTail = None" "prevs s FakeHead = None"
    "num_free_blocks s = 1 + int (length ys)"
    "\<And>i. i \<noteq> x \<Longrightarrow> i \<notin> set ys \<Longrightarrow> nexts s (Blk i) = None \<and> prevs s (Blk i) = None"
    using assms by (simp_all add: free_list_def)
  ultimately have "free_list ?t ys"
    unfolding free_list_front [OF c] using notin x set_c
    by (simp add: image_iff) auto
  with pop show ?thesis by auto
qed

definition unlink :: "nat list \<Rightarrow> 'a free_queue_scheme \<Rightarrow> 'a free_queue_scheme" where
  "unlink us s = fold (\<lambda>u s. set_next (Blk u) None (set_prev (Blk u) None s)) us s"

lemma unlink_simps [simp]:
  "unlink [] s = s"
  "unlink (u # us) s = unlink us (set_next (Blk u) None (set_prev (Blk u) None s))"
  by (simp_all add: unlink_def)

lemma unlink_reads [store_simps]:
  "next_free_block (blk (unlink us s) r) = (if r \<in> Blk ` set us then None else nexts s r)"
  "prev_free_block (blk (unlink us s) r) = (if r \<in> Blk ` set us then None else prevs s r)"
  "num_free_blocks (unlink us s) = num_free_blocks s"
  "links_only t (unlink us s) = links_only t s"
  by (induction us arbitrary: s) (auto simp: fun_eq_iff)

lemma popleft_loop_unlink:
  assumes "linked (nexts s) q (map Blk (us @ vs) @ [FakeTail])" and "distinct (us @ vs)"
  shows "popleft_loop (length us) (Some (hd (map Blk (us @ vs) @ [FakeTail]))) ret s =
    Inr (ret @ map Blk us, Some (hd (map Blk vs @ [FakeTail])), unlink us s)"
  using assms
proof (induction us arbitrary: ret s)
  case Nil
  then show ?case by simp
next
  case (Cons u us)
  let ?s = "set_next (Blk u) None (set_prev (Blk u) None s)"
  obtain c cs where c: "map Blk (us @ vs) @ [FakeTail] = c # cs"
    and set_c: "set (c # cs) = insert FakeTail (Blk ` set (us @ vs))"
    by (rule tail_segment)
  have u: "nexts s (Blk u) = Some (hd (map Blk (us @ vs) @ [FakeTail]))"
    and l: "linked (nexts s) q (map Blk (us @ vs) @ [FakeTail])"
    using Cons.prems(1) c by (auto simp: linked_Cons)
  have "linked (nexts ?s) q (map Blk (us @ vs) @ [FakeTail])"
    using l Cons.prems(2)
    by (subst linked_frame [where n = "nexts s" and p = q])
       (auto simp: butlast_append image_iff)
  from Cons.IH [OF this] Cons.prems(2) show ?case
    by (simp add: u)
qed

lemma popleft_n_take:
  assumes "free_list s (us @ vs)" and "us \<noteq> []"
  shows "\<exists>s'. popleft_n (int (length us)) s = Inr (map Blk us, s') \<and> free_list s' vs \<and> links_only s s'"
proof -
  obtain c cs where c: "map Blk vs @ [FakeTail] = c # cs"
    and set_c: "set (c # cs) = insert FakeTail (Blk ` set vs)"
    and dist_c: "distinct vs \<longrightarrow> distinct (c # cs)"
    and bl: "set (butlast (c # cs)) = Blk ` set vs"
    by (rule tail_segment)
  let ?s = "s\<lparr>num_free_blocks := num_free_blocks s - int (length us)\<rparr>"
  let ?t = "set_prev c (Some FakeHead) (set_next FakeHead (Some c) (unlink us ?s))"
  from assms have d: "distinct (us @ vs)"
    and l: "linked (nexts s) (prevs s) (FakeHead # map Blk (us @ vs) @ [FakeTail])"
    by (auto simp: free_list_def sentinels_def)
  then have l': "linked (nexts ?s) (prevs s) (map Blk (us @ vs) @ [FakeTail])"
    and h: "nexts s FakeHead = Some (hd (map Blk (us @ vs) @ [FakeTail]))"
    by (auto simp: linked_Cons)
  have pop: "popleft_n (int (length us)) s = Inr (map Blk us, ?t)"
    using assms popleft_loop_unlink [OF l' d, of "[]"]
    by (simp add: popleft_n_def free_list_def h c)
  have lc: "linked (nexts s) (prevs s) (c # cs)"
    using linked_appendD(2) [of _ _ "map Blk us" "map Blk vs @ [FakeTail]"] l' c by simp
  have notin: "FakeHead \<notin> set (c # cs)" "c \<notin> set cs" "\<forall>u \<in> set us. Blk u \<notin> set (c # cs)"
    using d set_c dist_c by (auto simp: image_iff)
  have "linked (nexts ?t) (prevs ?t) (c # cs)"
    using lc notin d bl
    by (subst linked_frame [where n = "nexts s" and p = "prevs s"])
       (auto simp: unlink_reads image_iff)
  moreover have "nexts s FakeTail = None" "prevs s FakeHead = None"
    "num_free_blocks s = int (length us) + int (length vs)"
    "\<And>i. i \<notin> set us \<Longrightarrow> i \<notin> set vs \<Longrightarrow> nexts s (Blk i) = None \<and> prevs s (Blk i) = None"
    using assms(1) by (simp_all add: free_list_def)
  ultimately have "free_list ?t vs"
    unfolding free_list_front [OF c] using notin d set_c
    by (simp add: unlink_reads image_iff) auto
  with pop show ?thesis by (auto simp: unlink_reads)
qed

lemma popleft_n_correct:
  assumes "free_list s xs" and "n \<le> length xs"
  shows "\<exists>s'. popleft_n (int n) s = Inr (map Blk (take n xs), s') \<and>
    free_list s' (drop n xs) \<and> links_only s s'"
proof (cases "n = 0")
  case True
  with assms show ?thesis by (simp add: popleft_n_def)
next
  case False
  with assms have "take n xs \<noteq> []" by auto
  with assms popleft_n_take [of s "take n xs" "drop n xs"] show ?thesis
    by (simp add: min_absorb2)
qed

lemma popleft_n_too_many:
  "free_list s xs \<Longrightarrow> int (length xs) < n \<Longrightarrow> popleft_n n s = Inl AssertionError"
  by (simp add: popleft_n_def free_list_def)

subsection \<open>Removing a block from the middle\<close>

lemma head_segment:
  obtains ls a where "FakeHead # map Blk xs = ls @ [a]"
    and "set (ls @ [a]) = insert FakeHead (Blk ` set xs)"
    and "distinct xs \<longrightarrow> distinct (ls @ [a])"
    and "set (tl (ls @ [a])) = Blk ` set xs"
proof -
  obtain ls a where *: "FakeHead # map Blk xs = ls @ [a]"
    by (cases "FakeHead # map Blk xs" rule: rev_cases) auto
  have "set (ls @ [a]) = insert FakeHead (Blk ` set xs)"
    by (auto simp: *[symmetric])
  moreover have "distinct xs \<longrightarrow> distinct (ls @ [a])"
    by (auto simp: *[symmetric] distinct_map inj_on_def)
  moreover have "set (tl (ls @ [a])) = Blk ` set xs"
    by (auto simp: *[symmetric])
  ultimately show ?thesis using * that by blast
qed

lemma remove_q_split:
  assumes "free_list s (as @ x # bs)"
  shows "\<exists>s'. remove_q (Blk x) s = Inr s' \<and> free_list s' (as @ bs) \<and> links_only s s'"
proof -
  obtain c cs where c: "map Blk bs @ [FakeTail] = c # cs"
    and set_c: "set (c # cs) = insert FakeTail (Blk ` set bs)"
    and dist_c: "distinct bs \<longrightarrow> distinct (c # cs)"
    and bl: "set (butlast (c # cs)) = Blk ` set bs"
    by (rule tail_segment)
  obtain ls a where a: "FakeHead # map Blk as = ls @ [a]"
    and set_a: "set (ls @ [a]) = insert FakeHead (Blk ` set as)"
    and dist_a: "distinct as \<longrightarrow> distinct (ls @ [a])"
    and tl_a: "set (tl (ls @ [a])) = Blk ` set as"
    by (rule head_segment)
  have sent: "sentinels (as @ x # bs) = ls @ a # Blk x # c # cs"
    "sentinels (as @ bs) = ls @ a # c # cs"
    by (simp_all add: sentinels_def c append_Cons [symmetric] a del: append_Cons)
       (simp_all add: c)
  from assms have d: "distinct (as @ x # bs)"
    and l: "linked (nexts s) (prevs s) (ls @ a # Blk x # c # cs)"
    by (simp_all only: free_list_def sent)
  then have l': "linked (nexts s) (prevs s) (ls @ [a])" "nexts s a = Some (Blk x)"
      "prevs s (Blk x) = Some a" "nexts s (Blk x) = Some c" "prevs s c = Some (Blk x)"
      "linked (nexts s) (prevs s) (c # cs)"
    by (simp_all add: linked_join [of _ _ ls])
  let ?s = "set_next (Blk x) None (set_prev (Blk x) None
    (set_prev c (Some a) (set_next a (Some c) s)))"
  let ?t = "?s\<lparr>num_free_blocks := num_free_blocks ?s - 1\<rparr>"
  have rem: "remove_q (Blk x) s = Inr ?t"
    using l' by (simp add: remove_q_def Let_def)
  have notin: "Blk x \<notin> set (c # cs)" "Blk x \<notin> set (ls @ [a])" "c \<notin> set cs" "a \<notin> set ls"
    "c \<notin> set (ls @ [a])" "a \<notin> set (c # cs)"
    using d set_c dist_c set_a dist_a by (auto simp: image_iff)
  have "linked (nexts ?t) (prevs ?t) (c # cs)"
    using l'(6) notin by (subst linked_frame [where n = "nexts s" and p = "prevs s"])
      (auto dest: in_set_butlastD split: if_splits)
  moreover have "linked (nexts ?t) (prevs ?t) (ls @ [a])"
    using l'(1) notin by (subst linked_frame [where n = "nexts s" and p = "prevs s"])
      (auto dest!: in_set_tlD)
  moreover have "nexts s FakeTail = None" "prevs s FakeHead = None"
    "num_free_blocks s = 1 + int (length (as @ bs))"
    "\<And>i. i \<noteq> x \<Longrightarrow> i \<notin> set as \<Longrightarrow> i \<notin> set bs \<Longrightarrow> nexts s (Blk i) = None \<and> prevs s (Blk i) = None"
    using assms by (simp_all add: free_list_def)
  moreover have "a \<noteq> FakeTail" "c \<noteq> FakeHead" "\<And>i. i \<notin> set as \<Longrightarrow> a \<noteq> Blk i"
    "\<And>i. i \<notin> set bs \<Longrightarrow> c \<noteq> Blk i"
    using set_a set_c by auto
  ultimately have "free_list ?t (as @ bs)"
    unfolding free_list_def sent(2) linked_join using notin d by simp metis
  with rem show ?thesis by auto
qed

lemma remove_q_correct:
  assumes "free_list s xs" and "x \<in> set xs"
  shows "\<exists>s'. remove_q (Blk x) s = Inr s' \<and> free_list s' (remove1 x xs) \<and> links_only s s'"
proof -
  from assms(2) obtain as bs where xs: "xs = as @ x # bs" "x \<notin> set as"
    by (meson split_list_first)
  with remove_q_split [of s as x bs] assms(1) show ?thesis by (simp add: remove1_append)
qed

lemma remove_q_not_free:
  "free_list s xs \<Longrightarrow> x \<notin> set xs \<Longrightarrow> remove_q (Blk x) s = Inl RuntimeError"
  by (simp add: remove_q_def free_list_def)

subsection \<open>Putting blocks back at either end\<close>

lemma linked_append:
  "linked n p (xs @ y # zs) \<longleftrightarrow> linked n p (xs @ [y]) \<and> linked n p (y # zs)"
  by (induction n p xs rule: linked.induct) auto

lemma chain_blocks_correct:
  assumes "chain_blocks a rs s = (b, s')" and "distinct (a # rs)"
  shows "b = last (a # rs)" and "linked (nexts s') (prevs s') (a # rs)"
    and "\<And>r. r \<notin> set (butlast (a # rs)) \<Longrightarrow> nexts s' r = nexts s r"
    and "\<And>r. r \<notin> set rs \<Longrightarrow> prevs s' r = prevs s r"
    and "num_free_blocks s' = num_free_blocks s" and "links_only s s'"
proof -
  have "b = last (a # rs) \<and> linked (nexts s') (prevs s') (a # rs) \<and>
    (\<forall>r. r \<notin> set (butlast (a # rs)) \<longrightarrow> nexts s' r = nexts s r) \<and>
    (\<forall>r. r \<notin> set rs \<longrightarrow> prevs s' r = prevs s r) \<and>
    num_free_blocks s' = num_free_blocks s \<and> links_only s s'"
    using assms
  proof (induction rs arbitrary: a s)
    case (Cons r rs)
    let ?s = "set_next a (Some r) (set_prev r (Some a) s)"
    from Cons.prems have *: "chain_blocks r rs ?s = (b, s')" "distinct (r # rs)" by auto
    note IH = Cons.IH [OF this]
    have "nexts s' a = Some r" "prevs s' r = Some a"
      using IH Cons.prems(2) by (auto dest: in_set_butlastD split: if_splits)
    moreover have "links_only s s'"
      using IH links_only_trans [of s ?s s'] by simp
    ultimately show ?case using IH by (auto split: if_splits)
  qed auto
  then show "b = last (a # rs)" and "linked (nexts s') (prevs s') (a # rs)"
    and "\<And>r. r \<notin> set (butlast (a # rs)) \<Longrightarrow> nexts s' r = nexts s r"
    and "\<And>r. r \<notin> set rs \<Longrightarrow> prevs s' r = prevs s r"
    and "num_free_blocks s' = num_free_blocks s" and "links_only s s'"
    by blast+
qed

text \<open>Both ends at once: a segment \<open>rs\<close> is spliced between the neighbours \<open>a\<close> and \<open>c\<close>.\<close>

definition splice_between ::
    "block_ref \<Rightarrow> block_ref list \<Rightarrow> block_ref \<Rightarrow> 'a free_queue_scheme \<Rightarrow> 'a free_queue_scheme" where
  "splice_between a rs c s =
     (let (b, s) = chain_blocks a rs s
      in set_prev c (Some b) (set_next b (Some c) s))"

lemma splice_between_correct:
  assumes l: "linked (nexts s) (prevs s) (ls @ a # c # cs)"
    and d: "distinct (ls @ a # rs @ c # cs)" and ne: "rs \<noteq> []"
    and t: "t = splice_between a rs c s"
  shows "linked (nexts t) (prevs t) (ls @ a # rs @ c # cs)"
    and "\<And>r. r \<noteq> a \<Longrightarrow> r \<notin> set rs \<Longrightarrow> nexts t r = nexts s r"
    and "\<And>r. r \<noteq> c \<Longrightarrow> r \<notin> set rs \<Longrightarrow> prevs t r = prevs s r"
    and "num_free_blocks t = num_free_blocks s" and "links_only s t"
proof -
  obtain b s1 where cb: "chain_blocks a rs s = (b, s1)" by fastforce
  have d_a: "distinct (a # rs)" using d by auto
  note cc = chain_blocks_correct [OF cb this]
  obtain as where as: "a # rs = as @ [b]"
    using cc(1) append_butlast_last_id [of "a # rs"] by (metis list.discI)
  have t': "t = set_prev c (Some b) (set_next b (Some c) s1)"
    by (simp add: t splice_between_def cb)
  have b: "b \<in> set rs" using cc(1) ne by simp
  have b': "b \<notin> set (butlast (a # rs))"
    using d_a unfolding as by simp
  from l have l': "linked (nexts s) (prevs s) (ls @ [a])" "linked (nexts s) (prevs s) (c # cs)"
    by (simp_all add: linked_join)
  have n_frame: "nexts t r = nexts s r" if "r \<noteq> a" "r \<notin> set rs" for r
  proof -
    have "r \<notin> set (butlast (a # rs))" using that by (auto dest: in_set_butlastD split: if_splits)
    with cc(3) [of r] that b show ?thesis by (auto simp: t')
  qed
  have p_frame: "prevs t r = prevs s r" if "r \<noteq> c" "r \<notin> set rs" for r
    using that cc(4) [of r] by (simp add: t')
  have "linked (nexts t) (prevs t) (ls @ [a])"
    using l'(1) d by (subst linked_frame [where n = "nexts s" and p = "prevs s"])
      (auto intro!: n_frame p_frame dest!: in_set_tlD)
  moreover have "linked (nexts t) (prevs t) (a # rs)"
    using cc(2) d b' by (subst linked_frame [where n = "nexts s1" and p = "prevs s1"])
      (auto simp: t' simp del: butlast.simps)
  moreover have "linked (nexts t) (prevs t) (c # cs)"
    using l'(2) d by (subst linked_frame [where n = "nexts s" and p = "prevs s"])
      (auto intro!: n_frame p_frame dest: in_set_butlastD split: if_splits)
  moreover have "nexts t b = Some c" "prevs t c = Some b" by (simp_all add: t')
  ultimately show "linked (nexts t) (prevs t) (ls @ a # rs @ c # cs)"
    using linked_append [of "nexts t" "prevs t" ls a "rs @ c # cs"]
      linked_join [of "nexts t" "prevs t" as b c cs] as
    by (metis append_Cons append.assoc append_Nil)
  show "\<And>r. r \<noteq> a \<Longrightarrow> r \<notin> set rs \<Longrightarrow> nexts t r = nexts s r" by (rule n_frame)
  show "\<And>r. r \<noteq> c \<Longrightarrow> r \<notin> set rs \<Longrightarrow> prevs t r = prevs s r" by (rule p_frame)
  show "num_free_blocks t = num_free_blocks s" "links_only s t" using cc by (simp_all add: t')
qed

text \<open>Splicing fresh blocks anywhere in a free list.\<close>

lemma splice_free_list:
  assumes fl: "free_list s (us @ vs)" and ne: "ns \<noteq> []"
    and d: "distinct ns" "set ns \<inter> set (us @ vs) = {}"
    and a: "FakeHead # map Blk us = ls @ [a]" and c: "map Blk vs @ [FakeTail] = c # cs"
    and t: "t = (splice_between a (map Blk ns) c s)\<lparr>num_free_blocks := num_free_blocks s + int (length ns)\<rparr>"
  shows "free_list t (us @ ns @ vs)" and "links_only s t"
proof -
  let ?t = "splice_between a (map Blk ns) c s"
  have sent: "sentinels (us @ vs) = ls @ a # c # cs"
    "sentinels (us @ ns @ vs) = ls @ a # map Blk ns @ c # cs"
    using a c by (auto simp: sentinels_def append_Cons [symmetric] simp del: append_Cons)
  have dist: "distinct (sentinels (us @ ns @ vs))"
    using d fl by (auto simp: sentinels_def free_list_def distinct_map inj_on_def)
  then have dist': "distinct (ls @ a # map Blk ns @ c # cs)"
    unfolding sent .
  have link: "linked (nexts s) (prevs s) (ls @ a # c # cs)"
    using fl by (simp add: free_list_def sent)
  note sb = splice_between_correct [OF link dist' _ refl, simplified ne, simplified]
  have ac: "a \<noteq> FakeTail" "c \<noteq> FakeHead" "\<And>i. i \<notin> set us \<Longrightarrow> a \<noteq> Blk i" "\<And>i. i \<notin> set vs \<Longrightarrow> c \<noteq> Blk i"
    using arg_cong [OF a, of set] arg_cong [OF c, of set] by auto
  have "linked (nexts ?t) (prevs ?t) (sentinels (us @ ns @ vs))"
    using sb(1) ne by (simp add: sent)
  moreover have "prevs ?t FakeHead = None" "nexts ?t FakeTail = None"
    using sb(2) [of FakeTail] sb(3) [of FakeHead] ac ne fl by (auto simp: free_list_def)
  moreover have "nexts ?t (Blk i) = None" "prevs ?t (Blk i) = None"
    if "i \<notin> set us" "i \<notin> set ns" "i \<notin> set vs" for i
    using that sb(2) [of "Blk i"] sb(3) [of "Blk i"] ac ne fl by (auto simp: free_list_def)
  moreover have "distinct (us @ ns @ vs)" "num_free_blocks s = int (length us) + int (length vs)"
    using d fl by (auto simp: free_list_def)
  ultimately show "free_list t (us @ ns @ vs)"
    by (simp add: free_list_def t)
  show "links_only s t" using sb(5) ne by (simp add: t)
qed

lemma prepend_n_correct:
  assumes "free_list s xs" and "distinct ns" and "set ns \<inter> set xs = {}"
  shows "\<exists>s'. prepend_n (map Blk ns) s = Inr s' \<and> free_list s' (ns @ xs) \<and> links_only s s'"
proof (cases "ns = []")
  case True
  with assms show ?thesis by (simp add: prepend_n_def)
next
  case False
  obtain c cs where c: "map Blk xs @ [FakeTail] = c # cs" by (rule tail_segment)
  have "nexts s FakeHead = Some c"
    using assms(1) by (simp add: free_list_front [OF c])
  moreover obtain b s1 where cb: "chain_blocks FakeHead (map Blk ns) s = (b, s1)" by fastforce
  moreover have "num_free_blocks s1 = num_free_blocks s"
    using chain_blocks_correct(5) [OF cb] assms(2) by (auto simp: distinct_map inj_on_def)
  ultimately have "prepend_n (map Blk ns) s = Inr ((splice_between FakeHead (map Blk ns) c s)
      \<lparr>num_free_blocks := num_free_blocks s + int (length ns)\<rparr>)"
    using False by (simp add: prepend_n_def splice_between_def)
  with splice_free_list [of s "[]" xs ns "[]" FakeHead c cs] assms False c
  show ?thesis by simp
qed

lemma append_n_correct:
  assumes "free_list s xs" and "distinct ns" and "set ns \<inter> set xs = {}"
  shows "\<exists>s'. append_n (map Blk ns) s = Inr s' \<and> free_list s' (xs @ ns) \<and> links_only s s'"
proof (cases "ns = []")
  case True
  with assms show ?thesis by (simp add: append_n_def)
next
  case False
  obtain ls a where a: "FakeHead # map Blk xs = ls @ [a]"
    and set_a: "set (ls @ [a]) = insert FakeHead (Blk ` set xs)" by (rule head_segment)
  have "sentinels xs = ls @ a # [FakeTail]"
    using a by (simp add: sentinels_def append_Cons [symmetric] del: append_Cons)
  then have "prevs s FakeTail = Some a"
    using assms(1) linked_next(2) [of "nexts s" "prevs s" ls a FakeTail "[]"]
    by (simp add: free_list_def)
  moreover obtain b s1 where cb: "chain_blocks a (map Blk ns) s = (b, s1)" by fastforce
  moreover have "distinct (a # map Blk ns)"
    using assms(2,3) set_a by (auto simp: distinct_map inj_on_def)
  then have "num_free_blocks s1 = num_free_blocks s"
    using chain_blocks_correct(5) [OF cb] by simp
  ultimately have "append_n (map Blk ns) s = Inr ((splice_between a (map Blk ns) FakeTail s)
      \<lparr>num_free_blocks := num_free_blocks s + int (length ns)\<rparr>)"
    using False by (simp add: append_n_def splice_between_def)
  with splice_free_list [of s xs "[]" ns ls a FakeTail "[]"] assms False a
  show ?thesis by simp
qed

lemma set_next_set_prev: "set_next r v (set_prev r' v' s) = set_prev r' v' (set_next r v s)"
  by (rule free_queue.equality) (auto simp: set_next_def set_prev_def upd_blk_def fun_eq_iff)

lemma append_q_append_n: "prevs s FakeTail = Some l \<Longrightarrow> append_q b s = append_n [b] s"
  by (simp add: append_q_def append_n_def Let_def set_next_set_prev)

lemma append_q_correct:
  assumes "free_list s xs" and "x \<notin> set xs"
  shows "\<exists>s'. append_q (Blk x) s = Inr s' \<and> free_list s' (xs @ [x]) \<and> links_only s s'"
proof -
  obtain ls a where a: "FakeHead # map Blk xs = ls @ [a]" by (rule head_segment)
  have "sentinels xs = ls @ a # [FakeTail]"
    using a by (simp add: sentinels_def append_Cons [symmetric] del: append_Cons)
  then have "prevs s FakeTail = Some a"
    using assms(1) linked_next(2) [of "nexts s" "prevs s" ls a FakeTail "[]"]
    by (simp add: free_list_def)
  then show ?thesis
    using append_n_correct [of s xs "[x]"] assms by (simp add: append_q_append_n)
qed

subsection \<open>Traversals end and enumerate the free list\<close>

lemma collect_free_segment:
  assumes "linked (nexts s) q (map Blk ys @ [FakeTail])" and "nexts s FakeTail = None"
  shows "collect_free s (hd (map Blk ys @ [FakeTail])) ret = Some (ret @ map Blk ys)"
  using assms
proof (induction ys arbitrary: ret)
  case Nil
  then show ?case by (subst collect_free.simps) simp
next
  case (Cons y ys)
  then have "nexts s (Blk y) = Some (hd (map Blk ys @ [FakeTail]))"
    and "linked (nexts s) q (map Blk ys @ [FakeTail])"
    by (auto simp: linked_Cons)
  with Cons.IH Cons.prems(2) show ?case by (subst collect_free.simps) simp
qed

lemma yield_until_tail_segment:
  assumes "linked (nexts s) q (map Blk ys @ [FakeTail])"
  shows "yield_until_tail s (Some (hd (map Blk ys @ [FakeTail]))) ret = Some (ret @ map Blk ys)"
  using assms
proof (induction ys arbitrary: ret)
  case Nil
  then show ?case by (subst yield_until_tail.simps) simp
next
  case (Cons y ys)
  then have "nexts s (Blk y) = Some (hd (map Blk ys @ [FakeTail]))"
    and "linked (nexts s) q (map Blk ys @ [FakeTail])"
    by (auto simp: linked_Cons)
  with Cons.IH show ?case by (subst yield_until_tail.simps) simp
qed

lemma get_all_free_blocks_correct:
  assumes "free_list s xs" shows "get_all_free_blocks s = Inr (Some (map Blk xs))"
proof -
  have "linked (nexts s) (prevs s) (FakeHead # map Blk xs @ [FakeTail])" "nexts s FakeTail = None"
    using assms by (simp_all add: free_list_def sentinels_def)
  then show ?thesis
    using collect_free_segment [of s "prevs s" xs "[]"]
    by (simp add: get_all_free_blocks_def linked_Cons)
qed

lemma iter_blocks_after_correct:
  assumes "free_list s (us @ vs)"
  shows "iter_blocks_after (if us = [] then None else Some (Blk (last us))) s = Some (map Blk vs)"
proof -
  obtain ls a where a: "FakeHead # map Blk us = ls @ [a]" by (rule head_segment)
  obtain c cs where c: "map Blk vs @ [FakeTail] = c # cs" by (rule tail_segment)
  have "sentinels (us @ vs) = ls @ a # c # cs"
    using a c by (auto simp: sentinels_def append_Cons [symmetric] simp del: append_Cons)
  with assms have "linked (nexts s) (prevs s) (ls @ a # c # cs)"
    by (simp add: free_list_def)
  then have "nexts s a = Some c" "linked (nexts s) (prevs s) (map Blk vs @ [FakeTail])"
    by (simp_all add: linked_join c)
  moreover have "(if us = [] then nexts s FakeHead else nexts s (Blk (last us))) = nexts s a"
    using arg_cong [OF a, of last] by (auto simp: last_map)
  ultimately show ?thesis
    using yield_until_tail_segment [of s "prevs s" vs "[]"] c
    by (simp add: iter_blocks_after_def split: if_splits)
qed

subsection \<open>Initialisation\<close>

lemma linked_iff_nth:
  "linked n p rs \<longleftrightarrow>
     (\<forall>i. Suc i < length rs \<longrightarrow> n (rs ! i) = Some (rs ! Suc i) \<and> p (rs ! Suc i) = Some (rs ! i))"
proof (induction n p rs rule: linked.induct)
  case (1 n p a b rs)
  then show ?case by (auto simp: less_Suc_eq_0_disj)
qed auto

lemma link_consecutive_reads [store_simps]:
  "next_free_block (blk (link_consecutive bs i s) r) =
     (if Suc i < length bs \<and> r = bs ! i then Some (bs ! Suc i) else nexts s r)"
  "prev_free_block (blk (link_consecutive bs i s) r) =
     (if 0 < i \<and> r = bs ! i then Some (bs ! (i - 1)) else prevs s r)"
  "num_free_blocks (link_consecutive bs i s) = num_free_blocks s"
  "links_only u (link_consecutive bs i s) = links_only u s"
  by (auto simp: link_consecutive_def Let_def)

lemma link_consecutive_fold:
  fixes s :: "'a free_queue_scheme"
  assumes "distinct bs" and "m \<le> length bs"
  defines "t \<equiv> fold (link_consecutive bs) [0..<m] s"
  shows "\<And>j. j < m \<Longrightarrow> Suc j < length bs \<Longrightarrow> nexts t (bs ! j) = Some (bs ! Suc j)"
    and "\<And>j. Suc j < m \<Longrightarrow> prevs t (bs ! Suc j) = Some (bs ! j)"
    and "\<And>r. r \<notin> set bs \<Longrightarrow> nexts t r = nexts s r \<and> prevs t r = prevs s r"
    and "links_only s t" and "num_free_blocks t = num_free_blocks s"
proof -
  have "(\<forall>j. j < m \<and> Suc j < length bs \<longrightarrow> nexts t (bs ! j) = Some (bs ! Suc j)) \<and>
    (\<forall>j. Suc j < m \<longrightarrow> prevs t (bs ! Suc j) = Some (bs ! j)) \<and>
    (\<forall>r. r \<notin> set bs \<longrightarrow> nexts t r = nexts s r \<and> prevs t r = prevs s r) \<and>
    links_only s t \<and> num_free_blocks t = num_free_blocks s"
    using assms(2) unfolding t_def
  proof (induction m)
    case (Suc m)
    have eq: "\<And>i j. i < length bs \<Longrightarrow> j < length bs \<Longrightarrow> bs ! i = bs ! j \<longleftrightarrow> i = j"
      using assms(1) by (simp add: nth_eq_iff_index_eq)
    have m: "m < length bs" "\<And>r. r \<notin> set bs \<Longrightarrow> r \<noteq> bs ! m" using Suc.prems by auto
    note IH = Suc.IH [OF Suc_leD [OF Suc.prems]]
    show ?case
      using IH m by (auto simp: store_simps eq less_Suc_eq)
  qed simp
  then show "\<And>j. j < m \<Longrightarrow> Suc j < length bs \<Longrightarrow> nexts t (bs ! j) = Some (bs ! Suc j)"
    and "\<And>j. Suc j < m \<Longrightarrow> prevs t (bs ! Suc j) = Some (bs ! j)"
    and "\<And>r. r \<notin> set bs \<Longrightarrow> nexts t r = nexts s r \<and> prevs t r = prevs s r"
    and "links_only s t" and "num_free_blocks t = num_free_blocks s"
    by blast+
qed

lemma FreeKVCacheBlockQueue_init_correct:
  fixes s :: "'a free_queue_scheme"
  assumes d: "distinct ids" and un: "\<And>i. nexts s (Blk i) = None \<and> prevs s (Blk i) = None"
  defines "t \<equiv> FreeKVCacheBlockQueue_init (map Blk ids) s"
  shows "free_list t ids"
    and "\<And>i. unlinked (blk t (Blk i)) = unlinked (blk s (Blk i))"
    and "free_queue.more t = free_queue.more s"
proof -
  let ?bs = "map Blk ids"
  let ?s0 = "s\<lparr>num_free_blocks := int (length ?bs)\<rparr>"
  define u where "u = fold (link_consecutive ?bs) [0..<length ?bs] ?s0"
  define v where "v = upd_blk FakeTail (\<lambda>_. KVCacheBlock_init (-1)) (upd_blk FakeHead (\<lambda>_. KVCacheBlock_init (-1)) u)"
  have dbs: "distinct ?bs" using d by (simp add: distinct_map inj_on_def)
  note fold = link_consecutive_fold [OF dbs order_refl, where s = ?s0, folded u_def]
  have v: "\<And>i. blk v (Blk i) = blk u (Blk i)" "nexts v FakeHead = None" "prevs v FakeHead = None"
    "nexts v FakeTail = None" "prevs v FakeTail = None" "free_queue.more v = free_queue.more s"
    "num_free_blocks v = int (length ids)"
    using fold(4,5) by (simp_all add: v_def upd_blk_def KVCacheBlock_init_def links_only_def)
  have link: "linked (nexts v) (prevs v) ?bs"
    unfolding linked_iff_nth using fold(1,2) by (simp add: v(1))
  have out: "\<And>i. i \<notin> set ids \<Longrightarrow> nexts v (Blk i) = None \<and> prevs v (Blk i) = None"
    using fold(3) un by (force simp: v(1))
  have keep: "\<And>i. unlinked (blk v (Blk i)) = unlinked (blk s (Blk i))"
    using fold(4) by (simp add: v(1) links_only_def)
  have "free_list t ids \<and> (\<forall>i. unlinked (blk t (Blk i)) = unlinked (blk s (Blk i))) \<and>
    free_queue.more t = free_queue.more s"
  proof (cases "ids = []")
    case True
    then have t: "t = set_prev FakeTail (Some FakeHead) (set_next FakeHead (Some FakeTail) v)"
      by (simp add: t_def FreeKVCacheBlockQueue_init_def Let_def v_def u_def)
    show ?thesis
      using True out v keep
      by (simp add: t free_list_def sentinels_def) (simp add: set_next_def set_prev_def upd_blk_def)
  next
    case False
    then obtain i0 is0 where ids: "ids = i0 # is0" by (cases ids) auto
    obtain js l where js: "ids = js @ [l]" using False by (cases ids rule: rev_cases) auto
    have t: "t = set_next (Blk l) (Some FakeTail) (set_prev FakeTail (Some (Blk l))
        (set_prev (Blk i0) (Some FakeHead) (set_next FakeHead (Some (Blk i0)) v)))"
      using False v(7) ids arg_cong [OF js, of last]
      unfolding t_def FreeKVCacheBlockQueue_init_def Let_def u_def [symmetric] v_def [symmetric]
      by (auto simp: last_map split: if_splits)
    have "linked (nexts t) (prevs t) ?bs"
    proof (rule linked_frame [THEN iffD2, OF _ _ link])
      have "l \<notin> set js" "butlast ?bs = map Blk js" using d by (simp_all add: js)
      then show "\<And>r. r \<in> set (butlast ?bs) \<Longrightarrow> nexts t r = nexts v r" by (auto simp: t)
      have "i0 \<notin> set is0" "tl ?bs = map Blk is0" using d by (simp_all add: ids)
      then show "\<And>r. r \<in> set (tl ?bs) \<Longrightarrow> prevs t r = prevs v r" by (auto simp: t)
    qed
    moreover have ends: "nexts t FakeHead = Some (Blk i0)" "prevs t (Blk i0) = Some FakeHead"
      "nexts t (Blk l) = Some FakeTail" "prevs t FakeTail = Some (Blk l)"
      by (simp_all add: t)
    ultimately have "linked (nexts t) (prevs t) (map Blk js @ Blk l # [FakeTail])"
      using js by (simp add: linked_join)
    then have "linked (nexts t) (prevs t) (?bs @ [FakeTail])" by (simp add: js)
    then have "linked (nexts t) (prevs t) (sentinels ids)"
      using ends(1,2) ids by (simp add: sentinels_def)
    moreover have "prevs t FakeHead = None" "nexts t FakeTail = None" "num_free_blocks t = int (length ids)"
      "\<And>i. i \<notin> set ids \<Longrightarrow> nexts t (Blk i) = None \<and> prevs t (Blk i) = None"
    proof -
      have "i0 \<in> set ids" "l \<in> set ids" by (simp add: ids, simp add: js)
      then show "\<And>i. i \<notin> set ids \<Longrightarrow> nexts t (Blk i) = None \<and> prevs t (Blk i) = None"
        using out by (auto simp: t)
    qed (simp_all add: t v)
    ultimately have "free_list t ids" using d by (simp add: free_list_def)
    moreover have "links_only v t" by (simp add: t)
    ultimately show ?thesis using keep v(6) by (simp add: links_only_def)
  qed
  then show "free_list t ids" "\<And>i. unlinked (blk t (Blk i)) = unlinked (blk s (Blk i))"
    "free_queue.more t = free_queue.more s" by blast+
qed

section \<open>The contract of the eviction queue\<close>

text \<open>
  What the block pool relies on: a queue state represents a list of distinct block numbers; blocks
  leave at the front or from the middle and come back at either end; nothing else of the state
  changes (\<open>framed\<close>).  The lemmas inside are proved from the contract alone.
\<close>

locale eviction_queue =
  fixes repr :: "'s \<Rightarrow> nat list \<Rightarrow> bool"
    and framed :: "'s \<Rightarrow> 's \<Rightarrow> bool"
    and avail :: "'s \<Rightarrow> int"
    and take_front :: "int \<Rightarrow> 's \<Rightarrow> (block_ref list \<times> 's) result"
    and take_out :: "block_ref \<Rightarrow> 's \<Rightarrow> 's result"
    and put_front :: "block_ref list \<Rightarrow> 's \<Rightarrow> 's result"
    and put_back :: "block_ref list \<Rightarrow> 's \<Rightarrow> 's result"
  assumes avail_length: "repr s xs \<Longrightarrow> avail s = int (length xs)"
    and repr_distinct: "repr s xs \<Longrightarrow> distinct xs"
    and take_front_law: "repr s xs \<Longrightarrow> n \<le> length xs \<Longrightarrow>
      \<exists>s'. take_front (int n) s = Inr (map Blk (take n xs), s') \<and> repr s' (drop n xs) \<and> framed s s'"
    and take_out_law: "repr s xs \<Longrightarrow> x \<in> set xs \<Longrightarrow>
      \<exists>s'. take_out (Blk x) s = Inr s' \<and> repr s' (remove1 x xs) \<and> framed s s'"
    and put_front_law: "repr s xs \<Longrightarrow> distinct ns \<Longrightarrow> set ns \<inter> set xs = {} \<Longrightarrow>
      \<exists>s'. put_front (map Blk ns) s = Inr s' \<and> repr s' (ns @ xs) \<and> framed s s'"
    and put_back_law: "repr s xs \<Longrightarrow> distinct ns \<Longrightarrow> set ns \<inter> set xs = {} \<Longrightarrow>
      \<exists>s'. put_back (map Blk ns) s = Inr s' \<and> repr s' (xs @ ns) \<and> framed s s'"
    and framed_trans: "framed s t \<Longrightarrow> framed t u \<Longrightarrow> framed s u"
begin

lemma repr_unique:
  assumes "repr s xs" and "repr s ys" shows "xs = ys"
proof -
  have len: "length xs = length ys"
    using avail_length [OF assms(1)] avail_length [OF assms(2)] by simp
  obtain s1 where "take_front (int (length xs)) s = Inr (map Blk xs, s1)"
    using take_front_law [OF assms(1), of "length xs"] by auto
  moreover obtain s2 where "take_front (int (length ys)) s = Inr (map Blk ys, s2)"
    using take_front_law [OF assms(2), of "length ys"] by auto
  ultimately have "map Blk xs = map Blk ys" by (simp add: len)
  then show ?thesis by (simp add: inj_map_eq_map inj_def)
qed

text \<open>Freeing to both ends at once, as the pool does: the front group leaves first, in order.\<close>

lemma put_both_ends:
  assumes "repr s xs" and "distinct (fs @ bs)" and "set (fs @ bs) \<inter> set xs = {}"
  shows "\<exists>s1 s2. put_front (map Blk fs) s = Inr s1 \<and> put_back (map Blk bs) s1 = Inr s2 \<and>
    repr s2 (fs @ xs @ bs) \<and> framed s s2"
proof -
  have "distinct fs" "set fs \<inter> set xs = {}" using assms(2,3) by auto
  then obtain s1 where s1: "put_front (map Blk fs) s = Inr s1" "repr s1 (fs @ xs)" "framed s s1"
    using put_front_law [OF assms(1)] by blast
  have "distinct bs" "set bs \<inter> set (fs @ xs) = {}" using assms(2,3) by auto
  then obtain s2 where s2: "put_back (map Blk bs) s1 = Inr s2" "repr s2 ((fs @ xs) @ bs)" "framed s1 s2"
    using put_back_law [OF s1(2)] by blast
  from s1 s2 framed_trans [OF s1(3) s2(3)] show ?thesis by simp
qed

lemma lifo_reuse:
  assumes "repr s xs" and "distinct ns" and "set ns \<inter> set xs = {}"
  shows "\<exists>s1 s2. put_front (map Blk ns) s = Inr s1 \<and>
    take_front (int (length ns)) s1 = Inr (map Blk ns, s2) \<and> repr s2 xs"
proof -
  obtain s1 where s1: "put_front (map Blk ns) s = Inr s1" "repr s1 (ns @ xs)"
    using put_front_law [OF assms] by blast
  obtain s2 where "take_front (int (length ns)) s1 = Inr (map Blk (take (length ns) (ns @ xs)), s2)"
    "repr s2 (drop (length ns) (ns @ xs))"
    using take_front_law [OF s1(2), of "length ns"] by fastforce
  with s1(1) show ?thesis by simp
qed

lemma fifo_eviction:
  assumes "repr s xs" and "distinct ns" and "set ns \<inter> set xs = {}"
  shows "\<exists>s1 s2. put_back (map Blk ns) s = Inr s1 \<and>
    take_front (int (length xs)) s1 = Inr (map Blk xs, s2) \<and> repr s2 ns"
proof -
  obtain s1 where s1: "put_back (map Blk ns) s = Inr s1" "repr s1 (xs @ ns)"
    using put_back_law [OF assms] by blast
  obtain s2 where "take_front (int (length xs)) s1 = Inr (map Blk (take (length xs) (xs @ ns)), s2)"
    "repr s2 (drop (length xs) (xs @ ns))"
    using take_front_law [OF s1(2), of "length xs"] by fastforce
  with s1(1) show ?thesis by simp
qed

end

lemma free_list_length: "free_list s xs \<Longrightarrow> num_free_blocks s = int (length xs)"
  by (simp add: free_list_def)

lemma free_list_distinct: "free_list s xs \<Longrightarrow> distinct xs"
  by (simp add: free_list_def)

interpretation fq: eviction_queue free_list links_only num_free_blocks popleft_n remove_q prepend_n append_n
  by (rule eviction_queue.intro)
     (rule free_list_length free_list_distinct popleft_n_correct remove_q_correct
        prepend_n_correct append_n_correct links_only_trans; assumption)+

section \<open>Properties\<close>

text \<open>A queue of three blocks, for the concrete instances.\<close>

definition three_blocks :: free_queue where
  "three_blocks = FreeKVCacheBlockQueue_init (map Blk [0, 1, 2])
     \<lparr>blk = (\<lambda>r. case r of Blk i \<Rightarrow> KVCacheBlock_init (int i) | _ \<Rightarrow> KVCacheBlock_init (- 1)),
      num_free_blocks = 0\<rparr>"

lemma three_blocks: "free_list three_blocks [0, 1, 2]"
  unfolding three_blocks_def
  by (rule FreeKVCacheBlockQueue_init_correct) (simp_all add: KVCacheBlock_init_def)

text \<open>
  On a queue whose free list is \<open>xs\<close>, \<open>popleft_n n\<close> returns the first \<open>n\<close> blocks in eviction
  order, leaves the rest as the free list, and writes nothing but links; when fewer than \<open>n\<close> blocks
  are free it raises \<open>AssertionError\<close>.
\<close>

theorem queue_pop_front:
  assumes "free_list s xs"
  shows "(\<forall>n \<le> length xs. \<exists>s'. popleft_n (int n) s = Inr (map Blk (take n xs), s') \<and>
      free_list s' (drop n xs) \<and> links_only s s') \<and>
    (\<forall>n. int (length xs) < n \<longrightarrow> popleft_n n s = Inl AssertionError)"
  using popleft_n_correct [OF assms] popleft_n_too_many [OF assms] by blast

theorem queue_pop_front_witness:
  "\<exists>s'. popleft_n 2 three_blocks = Inr ([Blk 0, Blk 1], s') \<and> free_list s' [2]"
  using conjunct1 [OF queue_pop_front [OF three_blocks], rule_format, of 2]
  by (auto simp: numeral_2_eq_2)

text \<open>
  \<open>remove\<close> takes a block out of the middle of the free list and keeps the order of the others; on
  a block that is not free it raises \<open>RuntimeError\<close> and never corrupts the list.
\<close>

theorem queue_remove:
  assumes "free_list s xs"
  shows "if x \<in> set xs
    then \<exists>s'. remove_q (Blk x) s = Inr s' \<and> free_list s' (remove1 x xs) \<and> links_only s s'
    else remove_q (Blk x) s = Inl RuntimeError"
  using remove_q_correct [OF assms] remove_q_not_free [OF assms] by simp

theorem queue_remove_witness:
  "\<exists>s'. remove_q (Blk 1) three_blocks = Inr s' \<and> free_list s' [0, 2]"
  using queue_remove [OF three_blocks, of 1] by auto

text \<open>
  C29.  Blocks freed to the front and to the back: the front group is the first to be handed out again,
  in its order, the back group the last, and the blocks already free keep their place in between.
\<close>

theorem queue_free_both_ends:
  assumes "free_list s xs" and "distinct (fs @ bs)" and "set (fs @ bs) \<inter> set xs = {}"
  shows "\<exists>s1 s2. prepend_n (map Blk fs) s = Inr s1 \<and> append_n (map Blk bs) s1 = Inr s2 \<and>
    free_list s2 (fs @ xs @ bs) \<and> links_only s s2"
  by (rule fq.put_both_ends [OF assms])

theorem queue_free_both_ends_witness:
  "\<exists>s1 s2. prepend_n [Blk 4, Blk 3] three_blocks = Inr s1 \<and> append_n [Blk 5] s1 = Inr s2 \<and>
    free_list s2 [4, 3, 0, 1, 2, 5]"
  using queue_free_both_ends [OF three_blocks, of "[4, 3]" "[5]"] by auto

text \<open>
  The traversals, which follow pointers without a bound, end on every well-formed queue, and they
  yield exactly the free list, or the part of it behind the cursor.
\<close>

theorem queue_traversals:
  assumes "free_list s (us @ vs)"
  shows "get_all_free_blocks s = Inr (Some (map Blk (us @ vs))) \<and>
    iter_blocks_after (if us = [] then None else Some (Blk (last us))) s = Some (map Blk vs)"
  using get_all_free_blocks_correct [OF assms] iter_blocks_after_correct [OF assms] by blast

theorem queue_traversals_witness:
  "get_all_free_blocks three_blocks = Inr (Some [Blk 0, Blk 1, Blk 2]) \<and>
   iter_blocks_after (Some (Blk 0)) three_blocks = Some [Blk 1, Blk 2]"
  using queue_traversals [of three_blocks "[0]" "[1, 2]"] three_blocks by simp

text \<open>
  The constructor threads the given blocks into a queue that holds them in the given order, and
  leaves every other attribute of the blocks as it was.
\<close>

theorem queue_init:
  assumes "distinct ids" and "\<And>i. nexts s (Blk i) = None \<and> prevs s (Blk i) = None"
  shows "free_list (FreeKVCacheBlockQueue_init (map Blk ids) s) ids \<and>
    (\<forall>i. unlinked (blk (FreeKVCacheBlockQueue_init (map Blk ids) s) (Blk i)) = unlinked (blk s (Blk i)))"
  using FreeKVCacheBlockQueue_init_correct(1,2) [OF assms] by blast

theorem queue_init_witness:
  "free_list (FreeKVCacheBlockQueue_init (map Blk [7, 5])
     \<lparr>blk = (\<lambda>r. KVCacheBlock_init 0), num_free_blocks = 9\<rparr>) [7, 5]"
  using queue_init [of "[7, 5]" "\<lparr>blk = (\<lambda>r. KVCacheBlock_init 0), num_free_blocks = 9\<rparr>"]
  by (simp add: KVCacheBlock_init_def)

end
