(* ===== verification/Math_Utils.thy ===== *)
theory Math_Utils
  imports Vllm_Prelude
begin

unbundle bit_operations_syntax

text \<open>
  The integer helpers of \<^verbatim>\<open>vllm/utils/math_utils.py\<close>, which size every block table and buffer of
  the engine.  A zero divisor raises in Python; the lemmas assume a positive one.
\<close>

definition cdiv :: "int \<Rightarrow> int \<Rightarrow> int" where
  "cdiv a b = - (a div - b)"

text \<open>\<^verbatim>\<open>int.bit_length\<close>: the number of binary digits of the absolute value.\<close>

fun nat_bit_length :: "nat \<Rightarrow> nat" where
  "nat_bit_length n = (if n = 0 then 0 else Suc (nat_bit_length (n div 2)))"

declare nat_bit_length.simps [simp del]

definition bit_length :: "int \<Rightarrow> nat" where
  "bit_length n = nat_bit_length (nat \<bar>n\<bar>)"

definition next_power_of_2 :: "int \<Rightarrow> int" where
  "next_power_of_2 n = (if n < 1 then 1 else push_bit (bit_length (n - 1)) 1)"

definition round_up :: "int \<Rightarrow> int \<Rightarrow> int" where
  "round_up x y = ((x + y - 1) div y) * y"

definition round_down :: "int \<Rightarrow> int \<Rightarrow> int" where
  "round_down x y = (x div y) * y"

definition largest_power_of_2_divisor :: "int \<Rightarrow> int" where
  "largest_power_of_2_divisor n = n AND (- n)"

section \<open>Ceiling division\<close>

lemma cdiv_bounds:
  assumes "0 < b"
  shows "a \<le> cdiv a b * b" and "(cdiv a b - 1) * b < a"
proof -
  have "a = (a div - b) * (- b) + a mod - b" by (metis div_mult_mod_eq)
  moreover have "a mod - b \<le> 0" "- b < a mod - b" using assms by auto
  ultimately show "a \<le> cdiv a b * b" "(cdiv a b - 1) * b < a"
    by (auto simp: cdiv_def algebra_simps)
qed

lemma cdiv_le_iff [arith_div]: "0 < b \<Longrightarrow> cdiv a b \<le> k \<longleftrightarrow> a \<le> k * b"
proof
  assume b: "0 < b"
  assume "cdiv a b \<le> k"
  then have "cdiv a b * b \<le> k * b" using b by simp
  with cdiv_bounds(1) [OF b, of a] show "a \<le> k * b" by linarith
next
  assume b: "0 < b"
  assume "a \<le> k * b"
  with cdiv_bounds(2) [OF b, of a] have "(cdiv a b - 1) * b < k * b" by linarith
  with b show "cdiv a b \<le> k" by simp
qed

lemma cdiv_unique: "0 < b \<Longrightarrow> a \<le> k * b \<Longrightarrow> (k - 1) * b < a \<Longrightarrow> cdiv a b = k"
proof (rule antisym)
  assume b: "0 < b" and *: "a \<le> k * b" "(k - 1) * b < a"
  then show "cdiv a b \<le> k" by (simp add: cdiv_le_iff)
  show "k \<le> cdiv a b"
  proof (rule ccontr)
    assume "\<not> k \<le> cdiv a b"
    then have "cdiv a b \<le> k - 1" by simp
    then have "a \<le> (k - 1) * b" by (simp only: cdiv_le_iff [OF b])
    with *(2) show False by simp
  qed
qed

lemma cdiv_mult [arith_div]: "0 < b \<Longrightarrow> cdiv (k * b) b = k"
  by (rule cdiv_unique) auto

lemma cdiv_nonneg: "0 < b \<Longrightarrow> 0 \<le> a \<Longrightarrow> 0 \<le> cdiv a b"
  using cdiv_bounds(1) [of b a] by (metis mult_neg_pos not_le order.strict_trans2)

lemma cdiv_mono: "0 < b \<Longrightarrow> a \<le> a' \<Longrightarrow> cdiv a b \<le> cdiv a' b"
  using cdiv_bounds(1) [of b a'] by (simp add: cdiv_le_iff)

lemma round_up_cdiv: "0 < y \<Longrightarrow> round_up x y = cdiv x y * y"
proof -
  assume y: "0 < y"
  define q r where "q = (x + y - 1) div y" and "r = (x + y - 1) mod y"
  have "x + y - 1 = q * y + r" "0 \<le> r" "r < y"
    using y by (simp_all add: q_def r_def)
  then have "x \<le> q * y" "(q - 1) * y < x" by (auto simp: algebra_simps)
  with y have "cdiv x y = q" by (intro cdiv_unique)
  then show ?thesis by (simp add: round_up_def q_def)
qed

section \<open>Powers of two\<close>

lemma nat_bit_length_Suc: "0 < n \<Longrightarrow> nat_bit_length n = Suc (nat_bit_length n - 1)"
  by (subst (1 2) nat_bit_length.simps) simp

lemma nat_bit_length_bounds:
  "n < 2 ^ nat_bit_length n \<and> (0 < n \<longrightarrow> 2 ^ (nat_bit_length n - 1) \<le> n)"
proof (induction n rule: nat_bit_length.induct)
  case (1 n)
  show ?case
  proof (cases "n = 0")
    case True
    then show ?thesis by simp
  next
    case False
    let ?k = "nat_bit_length (n div 2)"
    have k: "nat_bit_length n = Suc ?k" using False by (subst nat_bit_length.simps) simp
    from 1 False have IH: "n div 2 < 2 ^ ?k" "0 < n div 2 \<longrightarrow> 2 ^ (?k - 1) \<le> n div 2" by auto
    have "2 ^ ?k \<le> n"
    proof (cases "n div 2 = 0")
      case True
      with False show ?thesis by (simp add: nat_bit_length.simps [of 0])
    next
      case False
      then have "?k = Suc (?k - 1)" by (simp only: nat_bit_length_Suc [symmetric])
      then have "2 ^ ?k = 2 * (2::nat) ^ (?k - 1)" by (metis power_Suc)
      with IH(2) False show ?thesis by auto
    qed
    moreover have "n < 2 ^ Suc ?k" using IH(1) by auto
    ultimately show ?thesis by (simp add: k)
  qed
qed

lemma next_power_of_2_power: "\<exists>k. next_power_of_2 n = 2 ^ k"
  by (cases "n < 1") (auto simp: next_power_of_2_def push_bit_eq_mult intro: exI [of _ 0])

lemma next_power_of_2_bounds:
  assumes "1 \<le> n"
  shows "n \<le> next_power_of_2 n" and "next_power_of_2 n < 2 * n"
proof -
  let ?m = "nat (n - 1)"
  have np: "next_power_of_2 n = 2 ^ nat_bit_length ?m"
    using assms by (simp add: next_power_of_2_def push_bit_eq_mult bit_length_def)
  have b: "?m < 2 ^ nat_bit_length ?m" "0 < ?m \<longrightarrow> 2 ^ (nat_bit_length ?m - 1) \<le> ?m"
    using nat_bit_length_bounds [of ?m] by blast+
  have "int ?m < 2 ^ nat_bit_length ?m" using b(1) by (metis of_nat_less_iff of_nat_numeral of_nat_power)
  then show "n \<le> next_power_of_2 n" using assms by (simp add: np)
  show "next_power_of_2 n < 2 * n"
  proof (cases "n = 1")
    case True
    then show ?thesis by (simp add: next_power_of_2_def bit_length_def nat_bit_length.simps)
  next
    case False
    with assms have m: "0 < ?m" by simp
    then have "nat_bit_length ?m = Suc (nat_bit_length ?m - 1)" by (rule nat_bit_length_Suc)
    then have "(2::nat) ^ nat_bit_length ?m = 2 * 2 ^ (nat_bit_length ?m - 1)" by (metis power_Suc)
    with b(2) m have "(2::nat) ^ nat_bit_length ?m \<le> 2 * ?m" by simp
    then have "int (2 ^ nat_bit_length ?m) \<le> int (2 * ?m)" by (simp only: of_nat_le_iff)
    with assms show ?thesis by (simp add: np)
  qed
qed

lemma odd_and_minus: "odd m \<Longrightarrow> m AND (- m) = (1::int)"
proof -
  assume "odd m"
  then obtain q where q: "m = 2 * q + 1" by (metis oddE)
  have "m div 2 = q" "(- m) div 2 = NOT q" using q by (simp_all add: not_int_def)
  moreover have "m AND (- m) = of_bool (odd m \<and> odd (- m)) + 2 * (m div 2 AND (- m) div 2)"
    by (rule and_rec)
  ultimately show ?thesis using \<open>odd m\<close> by simp
qed

lemma largest_power_of_2_divisor_shift:
  "odd m \<Longrightarrow> largest_power_of_2_divisor (2 ^ k * m) = 2 ^ k"
proof -
  assume m: "odd m"
  have "(2 ^ k * m) AND (- (2 ^ k * m)) = push_bit k m AND push_bit k (- m)"
    by (simp add: push_bit_eq_mult mult.commute)
  also have "\<dots> = push_bit k (m AND (- m))" by (simp add: push_bit_and)
  also have "\<dots> = 2 ^ k" by (simp add: odd_and_minus [OF m] push_bit_eq_mult)
  finally show ?thesis by (simp add: largest_power_of_2_divisor_def)
qed

end
