(* ===== verification/Request_Model.thy ===== *)
theory Request_Model
  imports Complex_Main Vllm_Prelude
begin

text \<open>
  The request object of the engine core (\<^verbatim>\<open>vllm/v1/request.py\<close>) and the multi-modal metadata it
  carries (\<^verbatim>\<open>vllm/multimodal/inputs.py\<close>): data, status machine and the attribute accessors.

  Token ids, counts and positions are \<open>int\<close>.  The arrival time, a Python float that is only
  compared, is a rational number.  A prompt-embedding tensor is the list of the raw bytes of its
  rows.  Fields that no modelled operation reads (tracing headers, statistics, transfer
  parameters of connectors) are left out of the record.
\<close>

section \<open>Multi-modal placeholders\<close>

record PlaceholderRange =
  pr_offset :: int
  pr_length :: int
  pr_is_embed :: "bool list option"

text \<open>\<^verbatim>\<open>tensor.cumsum(dim=0)\<close> of a boolean mask.\<close>

fun cumsum_from :: "int \<Rightarrow> bool list \<Rightarrow> int list" where
  "cumsum_from acc [] = []"
| "cumsum_from acc (b # bs) = (let a = acc + of_bool b in a # cumsum_from a bs)"

definition embeds_cumsum :: "PlaceholderRange \<Rightarrow> int list option" where
  "embeds_cumsum p = map_option (cumsum_from 0) (pr_is_embed p)"

definition get_num_embeds :: "PlaceholderRange \<Rightarrow> int" where
  "get_num_embeds p =
     (case embeds_cumsum p of
        None \<Rightarrow> pr_length p
      | Some cs \<Rightarrow> if cs \<noteq> [] then last cs else 0)"

definition get_embeds_indices_in_range :: "PlaceholderRange \<Rightarrow> int \<Rightarrow> int \<Rightarrow> (int \<times> int) result" where
  "get_embeds_indices_in_range p start_idx end_idx =
     (case embeds_cumsum p of
        None \<Rightarrow> Inr (start_idx, end_idx)
      | Some cs \<Rightarrow>
          and_then (if start_idx > 0 then py_index cs (start_idx - 1) else Inr 0) (\<lambda>s.
          and_then (if end_idx > 0 then py_index cs (end_idx - 1) else Inr 0) (\<lambda>e.
          Inr (s, e))))"

record MultiModalFeatureSpec =
  mm_modality :: string
  mm_identifier :: string
  mm_position :: PlaceholderRange

record LoRARequest =
  lora_name :: string
  lora_int_id :: int

section \<open>Sampling parameters\<close>

record RepetitionDetectionParams =
  max_pattern_size :: int
  min_pattern_size :: int
  min_count :: int

record SamplingParams =
  sp_max_tokens :: "int option"
  sp_min_tokens :: int
  sp_eos_token_id :: "int option"
  sp_stop_token_ids :: "int list option"
  sp_repetition_detection :: "RepetitionDetectionParams option"
  sp_skip_reading_prefix_cache :: "bool option"
  sp_structured_outputs :: bool \<comment> \<open>a structured-output constraint is present\<close>

record PoolingParams =
  pp_skip_reading_prefix_cache :: "bool option"

section \<open>Status\<close>

datatype RequestStatus =
    WAITING
  | WAITING_FOR_STRUCTURED_OUTPUT_GRAMMAR
  | WAITING_FOR_REMOTE_KVS
  | WAITING_FOR_STREAMING_REQ
  | RUNNING
  | PREEMPTED
  | FINISHED_STOPPED
  | FINISHED_LENGTH_CAPPED
  | FINISHED_ABORTED
  | FINISHED_IGNORED
  | FINISHED_ERROR
  | FINISHED_REPETITION

datatype FinishReason = FR_STOP | FR_LENGTH | FR_ABORT | FR_ERROR | FR_REPETITION

text \<open>\<^verbatim>\<open>enum.auto()\<close> numbers the statuses from 1 in source order.\<close>

fun status_value :: "RequestStatus \<Rightarrow> int" where
  "status_value WAITING = 1"
| "status_value WAITING_FOR_STRUCTURED_OUTPUT_GRAMMAR = 2"
| "status_value WAITING_FOR_REMOTE_KVS = 3"
| "status_value WAITING_FOR_STREAMING_REQ = 4"
| "status_value RUNNING = 5"
| "status_value PREEMPTED = 6"
| "status_value FINISHED_STOPPED = 7"
| "status_value FINISHED_LENGTH_CAPPED = 8"
| "status_value FINISHED_ABORTED = 9"
| "status_value FINISHED_IGNORED = 10"
| "status_value FINISHED_ERROR = 11"
| "status_value FINISHED_REPETITION = 12"

definition status_is_finished :: "RequestStatus \<Rightarrow> bool" where
  "status_is_finished st \<longleftrightarrow> status_value st > status_value PREEMPTED"

fun finished_reason_map :: "RequestStatus \<Rightarrow> FinishReason option" where
  "finished_reason_map FINISHED_STOPPED = Some FR_STOP"
| "finished_reason_map FINISHED_LENGTH_CAPPED = Some FR_LENGTH"
| "finished_reason_map FINISHED_ABORTED = Some FR_ABORT"
| "finished_reason_map FINISHED_IGNORED = Some FR_LENGTH"
| "finished_reason_map FINISHED_ERROR = Some FR_ERROR"
| "finished_reason_map WAITING_FOR_STREAMING_REQ = Some FR_STOP"
| "finished_reason_map FINISHED_REPETITION = Some FR_REPETITION"
| "finished_reason_map _ = None"

datatype stop_reason = StopToken int | StopString string

section \<open>The request\<close>

record StreamingUpdate =
  su_mm_features :: "MultiModalFeatureSpec list"
  su_prompt_token_ids :: "int list option"
  su_max_tokens :: int
  su_arrival_time :: rat
  su_sampling_params :: "SamplingParams option"

record Request =
  request_id :: string
  obj_id :: int \<comment> \<open>Python's \<^verbatim>\<open>id(self)\<close>\<close>
  priority :: int
  arrival_time :: rat
  sampling_params :: "SamplingParams option"
  pooling_params :: "PoolingParams option"
  lora_request :: "LoRARequest option"
  use_structured_output :: bool
  status :: RequestStatus
  stop_reason_of :: "stop_reason option"
  max_tokens :: int
  prompt_token_ids :: "int list option"
  prompt_embeds :: "bytes list option"
  prompt_embeds_per_block_hashes :: "(int \<times> int, bytes) dict"
  num_prompt_tokens :: int
  output_token_ids :: "int list"
  all_token_ids :: "int list"
  num_output_placeholders :: int
  num_in_flight_tokens :: int
  spec_token_ids :: "int list"
  num_computed_tokens :: int
  cache_salt :: "string option"
  mm_features :: "MultiModalFeatureSpec list"
  shared_prefix_boundary :: int
  num_preemptions :: int
  block_hashes :: "bytes list"
  skip_reading_prefix_cache :: bool
  resumable :: bool
  streaming_queue :: "StreamingUpdate option list option"
  client_index :: int
  prompt_is_token_ids :: "bool list option"
  num_stale_output_tokens :: int
  drop_stale_output :: bool
  next_decode_eligible_step :: int
  last_sched_seq :: int
  is_prefill_chunk :: bool
  num_nans_in_logits :: int
  abort_immediately :: bool

text \<open>The message a request arrives with; it carries the arguments of the constructor.\<close>

record EngineCoreRequest =
  ec_request_id :: string
  ec_client_index :: int
  ec_prompt_token_ids :: "int list option"
  ec_prompt_embeds :: "bytes list option"
  ec_prompt_is_token_ids :: "bool list option"
  ec_mm_features :: "MultiModalFeatureSpec list option"
  ec_sampling_params :: "SamplingParams option"
  ec_pooling_params :: "PoolingParams option"
  ec_arrival_time :: rat
  ec_lora_request :: "LoRARequest option"
  ec_cache_salt :: "string option"
  ec_priority :: int
  ec_resumable :: bool
  ec_abort_immediately :: bool

definition from_request :: "Request \<Rightarrow> StreamingUpdate option" where
  "from_request r =
     (if \<not> resumable r then None
      else Some \<lparr>su_mm_features = mm_features r, su_prompt_token_ids = prompt_token_ids r,
        su_max_tokens = max_tokens r, su_arrival_time = arrival_time r,
        su_sampling_params = sampling_params r\<rparr>)"

definition length_from_prompt_token_ids_or_embeds ::
    "int list option \<Rightarrow> bytes list option \<Rightarrow> int result" where
  "length_from_prompt_token_ids_or_embeds toks embeds =
     (case (map_option length toks, map_option length embeds) of
        (None, None) \<Rightarrow> Inl ValueError
      | (None, Some e) \<Rightarrow> Inr (int e)
      | (Some t, None) \<Rightarrow> Inr (int t)
      | (Some t, Some e) \<Rightarrow> if e \<noteq> t then Inl ValueError else Inr (int t))"

definition get_skip_reading_prefix_cache ::
    "SamplingParams option \<Rightarrow> PoolingParams option \<Rightarrow> bool" where
  "get_skip_reading_prefix_cache sp pp =
     (case Option.bind sp sp_skip_reading_prefix_cache of
        Some b \<Rightarrow> b
      | None \<Rightarrow> (case Option.bind pp pp_skip_reading_prefix_cache of
                   Some b \<Rightarrow> b
                 | None \<Rightarrow> False))"

text \<open>The token ids the engine works on: zeros where the prompt is given by embeddings.\<close>

definition initial_token_ids ::
    "int list option \<Rightarrow> bool list option \<Rightarrow> int \<Rightarrow> int list" where
  "initial_token_ids toks is_tok n =
     (case toks of
        None \<Rightarrow> replicate (nat n) 0
      | Some ts \<Rightarrow>
          (case is_tok of
             None \<Rightarrow> ts
           | Some ms \<Rightarrow> map (\<lambda>(t, m). if m then t else 0) (zip ts ms)))"

abbreviation num_tokens :: "Request \<Rightarrow> int" where
  "num_tokens r \<equiv> int (length (all_token_ids r))"

abbreviation num_output_tokens :: "Request \<Rightarrow> int" where
  "num_output_tokens r \<equiv> int (length (output_token_ids r))"

definition num_tokens_with_spec :: "Request \<Rightarrow> int" where
  "num_tokens_with_spec r = int (length (all_token_ids r)) + int (length (spec_token_ids r))"

definition num_encoder_inputs :: "Request \<Rightarrow> int" where
  "num_encoder_inputs r = int (length (mm_features r))"

definition has_encoder_inputs :: "Request \<Rightarrow> bool" where
  "has_encoder_inputs r \<longleftrightarrow> num_encoder_inputs r > 0"

definition is_finished :: "Request \<Rightarrow> bool" where
  "is_finished r = status_is_finished (status r)"

definition get_finished_reason :: "Request \<Rightarrow> FinishReason option" where
  "get_finished_reason r = finished_reason_map (status r)"

definition get_num_encoder_embeds :: "Request \<Rightarrow> int \<Rightarrow> int result" where
  "get_num_encoder_embeds r input_id =
     and_then (py_assert (input_id < int (length (mm_features r)))) (\<lambda>_.
     and_then (py_index (mm_features r) input_id) (\<lambda>f.
     Inr (get_num_embeds (mm_position f))))"

text \<open>
  The fields of a new request before its hashes are computed.
  \<open>now\<close> is the clock and \<open>self_id\<close> the identity of the new object.
\<close>

definition fresh_request ::
    "rat option \<Rightarrow> rat \<Rightarrow> int \<Rightarrow> EngineCoreRequest \<Rightarrow> int \<Rightarrow> RequestStatus \<Rightarrow> int \<Rightarrow> Request" where
  "fresh_request arrival now self_id a n st np =
     \<lparr>request_id = ec_request_id a, obj_id = self_id, priority = ec_priority a,
      arrival_time = (case arrival of Some t \<Rightarrow> t | None \<Rightarrow> now),
      sampling_params = ec_sampling_params a, pooling_params = ec_pooling_params a,
      lora_request = ec_lora_request a,
      use_structured_output =
        (case ec_sampling_params a of None \<Rightarrow> False | Some sp \<Rightarrow> sp_structured_outputs sp),
      status = st, stop_reason_of = None, max_tokens = n,
      prompt_token_ids = ec_prompt_token_ids a, prompt_embeds = ec_prompt_embeds a,
      prompt_embeds_per_block_hashes = [], num_prompt_tokens = np, output_token_ids = [],
      all_token_ids = initial_token_ids (ec_prompt_token_ids a) (ec_prompt_is_token_ids a) np,
      num_output_placeholders = 0, num_in_flight_tokens = 0, spec_token_ids = [],
      num_computed_tokens = 0, cache_salt = ec_cache_salt a,
      mm_features = (case ec_mm_features a of None \<Rightarrow> [] | Some fs \<Rightarrow> fs),
      shared_prefix_boundary = 0, num_preemptions = 0, block_hashes = [],
      skip_reading_prefix_cache = False, resumable = ec_resumable a, streaming_queue = None,
      client_index = ec_client_index a, prompt_is_token_ids = ec_prompt_is_token_ids a,
      num_stale_output_tokens = 0, drop_stale_output = False, next_decode_eligible_step = 0,
      last_sched_seq = 0, is_prefill_chunk = False, num_nans_in_logits = 0,
      abort_immediately = ec_abort_immediately a\<rparr>"

text \<open>The order of the priority queue: priority, then arrival time, then id.\<close>

fun string_less :: "string \<Rightarrow> string \<Rightarrow> bool" where
  "string_less _ [] = False"
| "string_less [] (_ # _) = True"
| "string_less (a # as) (b # bs) \<longleftrightarrow>
     (of_char a :: nat) < of_char b \<or> a = b \<and> string_less as bs"

definition request_lt :: "Request \<Rightarrow> Request \<Rightarrow> bool" where
  "request_lt a b =
     (if priority a \<noteq> priority b then priority a < priority b
      else if arrival_time a \<noteq> arrival_time b then arrival_time a < arrival_time b
      else if request_id a \<noteq> request_id b then string_less (request_id a) (request_id b)
      else obj_id a < obj_id b)"

section \<open>Facts\<close>

lemma cumsum_from_length [simp]: "length (cumsum_from acc bs) = length bs"
  by (induction bs arbitrary: acc) (simp_all add: Let_def)

lemma cumsum_from_eq_Nil [simp]: "cumsum_from acc bs = [] \<longleftrightarrow> bs = []"
  by (cases bs) (simp_all add: Let_def)

lemma cumsum_from_nth:
  "i < length bs \<Longrightarrow> cumsum_from acc bs ! i = acc + int (length (filter id (take (Suc i) bs)))"
proof (induction bs arbitrary: acc i)
  case (Cons b bs)
  then show ?case by (cases i) (auto simp: Let_def)
qed simp

lemma get_num_embeds_mask:
  "pr_is_embed p = Some m \<Longrightarrow> get_num_embeds p = int (length (filter id m))"
  by (cases m rule: rev_cases)
     (auto simp: get_num_embeds_def embeds_cumsum_def last_conv_nth cumsum_from_nth)

lemma get_embeds_indices_length:
  assumes "pr_is_embed p = Some m" and "0 \<le> s" "s \<le> e" "e \<le> int (length m)"
  shows "get_embeds_indices_in_range p s e =
    Inr (int (length (filter id (take (nat s) m))), int (length (filter id (take (nat e) m))))"
proof -
  have idx: "(if x > 0 then py_index (cumsum_from 0 m) (x - 1) else Inr 0) =
      Inr (int (length (filter id (take (nat x) m))))" if "0 \<le> x" "x \<le> int (length m)" for x
  proof (cases "x = 0")
    case True
    then show ?thesis by simp
  next
    case False
    with that have "nat (x - 1) < length m" "Suc (nat (x - 1)) = nat x" by linarith+
    with False that show ?thesis by (simp add: py_index_nonneg cumsum_from_nth)
  qed
  show ?thesis
    using idx [of s] idx [of e] assms
    by (simp add: get_embeds_indices_in_range_def embeds_cumsum_def)
qed

lemma string_less_irrefl: "\<not> string_less a a"
  by (induction a) auto

lemma string_less_trans: "string_less a b \<Longrightarrow> string_less b c \<Longrightarrow> string_less a c"
proof (induction a b arbitrary: c rule: string_less.induct)
  case (3 a as b bs)
  then show ?case by (cases c) auto
next
  case (2 b bs)
  then show ?case by (cases c) auto
qed simp

lemma string_less_linear: "string_less a b \<or> a = b \<or> string_less b a"
proof (induction a b rule: string_less.induct)
  case (3 a as b bs)
  then show ?case using linorder_neqE_nat [of "of_char a" "of_char b"] by auto
next
  case (1 a)
  then show ?case by (cases a) auto
qed simp

lemma finished_has_reason: "status_is_finished st \<Longrightarrow> finished_reason_map st \<noteq> None"
  by (cases st) (simp_all add: status_is_finished_def)

section \<open>Concrete requests\<close>

text \<open>A text request for the concrete instances.\<close>

definition text_message :: "int list \<Rightarrow> EngineCoreRequest" where
  "text_message toks =
     \<lparr>ec_request_id = ''r'', ec_client_index = 0, ec_prompt_token_ids = Some toks,
      ec_prompt_embeds = None, ec_prompt_is_token_ids = None, ec_mm_features = None,
      ec_sampling_params = None, ec_pooling_params = Some \<lparr>pp_skip_reading_prefix_cache = None\<rparr>,
      ec_arrival_time = 0, ec_lora_request = None, ec_cache_salt = None, ec_priority = 0,
      ec_resumable = False, ec_abort_immediately = False\<rparr>"

definition text_request :: "int list \<Rightarrow> bytes list \<Rightarrow> Request" where
  "text_request toks hs =
     (fresh_request None 0 1 (text_message toks) 1 WAITING (int (length toks)))\<lparr>block_hashes := hs\<rparr>"

lemma text_request_sel [simp]:
  "all_token_ids (text_request ts hs) = ts" "block_hashes (text_request ts hs) = hs"
  "mm_features (text_request ts hs) = []" "lora_request (text_request ts hs) = None"
  "cache_salt (text_request ts hs) = None" "prompt_embeds (text_request ts hs) = None"
  "prompt_embeds_per_block_hashes (text_request ts hs) = []"
  by (simp_all add: text_request_def fresh_request_def text_message_def initial_token_ids_def)


end
