(* ===== verification/Block_Hash.thy ===== *)
theory Block_Hash
  imports Request_Model Math_Utils
begin

unbundle bit_operations_syntax

text \<open>
  Content hashes of token blocks (\<^verbatim>\<open>vllm/v1/core/kv_cache_utils.py\<close>): the key that packs a block hash
  with a KV cache group, the extra keys of a block, the chained hash of a request's blocks, and the
  views of the hash list at a coarser block size.

  The hash function (SHA-256, xxhash, possibly over CBOR) and the digest of prompt embeddings are
  parameters \<open>hf\<close> and \<open>sha\<close>.  Soundness of prefix caching is stated under the hypothesis that
  \<open>hf\<close> has no collision on the finitely many inputs in play (\<open>collision_free\<close>).
\<close>

section \<open>Keys: a block hash with a group id\<close>

fun from_bytes_be :: "int \<Rightarrow> bytes \<Rightarrow> int" where
  "from_bytes_be acc [] = acc"
| "from_bytes_be acc (b # bs) = from_bytes_be (acc * 256 + uint b) bs"

definition to_bytes4 :: "int \<Rightarrow> bytes result" where
  "to_bytes4 n =
     (if 0 \<le> n \<and> n < 2 ^ 32
      then Inr [word_of_int (n div 2 ^ 24), word_of_int (n div 2 ^ 16), word_of_int (n div 2 ^ 8),
                word_of_int n]
      else Inl OverflowError)"

definition make_block_hash_with_group_id :: "bytes \<Rightarrow> int \<Rightarrow> bytes result" where
  "make_block_hash_with_group_id bh group_id =
     and_then (to_bytes4 group_id) (\<lambda>g. Inr (bh @ g))"

definition get_block_hash :: "bytes \<Rightarrow> bytes" where
  "get_block_hash key = py_slice key 0 (- 4)"

definition get_group_id :: "bytes \<Rightarrow> int" where
  "get_group_id key = from_bytes_be 0 (py_slice_from key (- 4))"

datatype ExternalBlockHash = HashBytes bytes | HashInt int

definition maybe_convert_block_hash :: "bool \<Rightarrow> bytes \<Rightarrow> ExternalBlockHash" where
  "maybe_convert_block_hash use_int bh =
     (if \<not> use_int then HashBytes bh
      else HashInt (from_bytes_be 0 bh AND (push_bit 64 1 - 1)))"

section \<open>The seed of the chain\<close>

definition DEFAULT_NONE_HASH_SEED :: string where
  "DEFAULT_NONE_HASH_SEED = ''vllm-none-hash''"

definition resolve_none_hash_seed :: "string option \<Rightarrow> bool \<Rightarrow> string \<Rightarrow> string" where
  "resolve_none_hash_seed hash_seed non_crypto urandom_hex =
     (case hash_seed of
        Some sd \<Rightarrow> sd
      | None \<Rightarrow> if non_crypto then urandom_hex else DEFAULT_NONE_HASH_SEED)"

definition get_none_hash_seed :: "string option \<Rightarrow> string" where
  "get_none_hash_seed none_hash_seed =
     (case none_hash_seed of None \<Rightarrow> DEFAULT_NONE_HASH_SEED | Some sd \<Rightarrow> sd)"

section \<open>Extra keys of a block\<close>

text \<open>
  An element of the extra-key tuple as Python sees it: a string (LoRA name or cache salt), a pair
  of an item identifier and its relative offset, or a digest.
\<close>

datatype extra_key = KStr string | KItem string int | KDigest bytes

function mm_scan ::
    "MultiModalFeatureSpec list \<Rightarrow> int \<Rightarrow> int \<Rightarrow> nat \<Rightarrow> extra_key list \<Rightarrow> extra_key list \<times> nat" where
  "mm_scan fs start_token_idx end_token_idx i extra_keys =
     (if i < length fs then
        let f = fs ! i; off = pr_offset (mm_position f); len = pr_length (mm_position f) in
        if end_token_idx > off then
          if start_token_idx \<ge> off + len
          then mm_scan fs start_token_idx end_token_idx (Suc i) extra_keys
          else
            let extra_keys = extra_keys @ [KItem (mm_identifier f) (off - start_token_idx)] in
            if end_token_idx \<ge> off + len
            then mm_scan fs start_token_idx end_token_idx (Suc i) extra_keys
            else (extra_keys, i)
        else (extra_keys, i)
      else (extra_keys, i))"
  by pat_completeness auto
termination
  by (relation "measure (\<lambda>(fs, s, e, i, acc). length fs - i)") auto

declare mm_scan.simps [simp del]

definition gen_mm_extra_hash_keys ::
    "Request \<Rightarrow> int \<Rightarrow> int \<Rightarrow> int \<Rightarrow> (extra_key list \<times> int) result" where
  "gen_mm_extra_hash_keys r start_token_idx end_token_idx start_mm_idx =
     (let fs = mm_features r in
      if fs = [] then Inr ([], start_mm_idx)
      else
        let last_pos = mm_position (last fs) in
        if pr_offset last_pos + pr_length last_pos \<le> start_token_idx then Inr ([], start_mm_idx)
        else
          and_then
            (if start_mm_idx < 0
             then and_then (py_assert (- start_mm_idx \<le> int (length fs)))
                    (\<lambda>_. Inr (int (length fs) + start_mm_idx))
             else Inr start_mm_idx) (\<lambda>i.
          let (ks, j) = mm_scan fs start_token_idx end_token_idx (nat i) []
          in Inr (ks, int j)))"

definition gen_lora_extra_hash_keys :: "Request \<Rightarrow> extra_key list" where
  "gen_lora_extra_hash_keys r =
     (case lora_request r of None \<Rightarrow> [] | Some l \<Rightarrow> [KStr (lora_name l)])"

definition gen_prompt_embeds_extra_hash_keys ::
    "(bytes \<Rightarrow> bytes) \<Rightarrow> Request \<Rightarrow> int \<Rightarrow> int \<Rightarrow> extra_key list \<times> Request" where
  "gen_prompt_embeds_extra_hash_keys sha r start_token_idx end_token_idx =
     (case prompt_embeds r of
        None \<Rightarrow> ([], r)
      | Some rows \<Rightarrow>
          let block_range = (start_token_idx, end_token_idx) in
          (case dict_get (prompt_embeds_per_block_hashes r) block_range of
             Some h \<Rightarrow> ([KDigest h], r)
           | None \<Rightarrow>
               let h = sha (concat (py_slice rows start_token_idx end_token_idx))
               in ([KDigest h],
                   r\<lparr>prompt_embeds_per_block_hashes :=
                       dict_set block_range h (prompt_embeds_per_block_hashes r)\<rparr>)))"

definition generate_block_hash_extra_keys ::
    "(bytes \<Rightarrow> bytes) \<Rightarrow> Request \<Rightarrow> int \<Rightarrow> int \<Rightarrow> int
     \<Rightarrow> (extra_key list option \<times> int \<times> Request) result" where
  "generate_block_hash_extra_keys sha r start_token_idx end_token_idx start_mm_idx =
     and_then (gen_mm_extra_hash_keys r start_token_idx end_token_idx start_mm_idx)
       (\<lambda>(mm_extra_keys, new_start_mm_idx).
        let lora_extra_keys = gen_lora_extra_hash_keys r;
            cache_salt_keys =
              (case cache_salt r of
                 Some salt \<Rightarrow> if start_token_idx = 0 \<and> salt \<noteq> [] then [KStr salt] else []
               | None \<Rightarrow> []);
            (prompt_embeds_keys, r) =
              gen_prompt_embeds_extra_hash_keys sha r start_token_idx end_token_idx;
            extra_keys = lora_extra_keys @ mm_extra_keys @ cache_salt_keys @ prompt_embeds_keys
        in Inr (if extra_keys = [] then None else Some extra_keys, new_start_mm_idx, r))"

section \<open>The chained hash\<close>

type_synonym hash_input = "bytes \<times> int list \<times> extra_key list option"

definition hash_block_tokens ::
    "(hash_input \<Rightarrow> bytes) \<Rightarrow> bytes \<Rightarrow> bytes option \<Rightarrow> int list \<Rightarrow> extra_key list option \<Rightarrow> bytes" where
  "hash_block_tokens hf none_hash parent_block_hash curr_block_token_ids extra_keys =
     (let parent =
        (case parent_block_hash of
           None \<Rightarrow> none_hash
         | Some p \<Rightarrow> if p = [] then none_hash else p)
      in hf (parent, curr_block_token_ids, extra_keys))"

text \<open>The \<^verbatim>\<open>while True\<close> loop of \<^verbatim>\<open>request_block_hasher\<close>; \<open>None\<close> is a loop that never ends.\<close>

partial_function (option) hash_loop ::
    "(bytes \<Rightarrow> bytes) \<Rightarrow> (hash_input \<Rightarrow> bytes) \<Rightarrow> bytes \<Rightarrow> int \<Rightarrow> Request \<Rightarrow> int \<Rightarrow> int
     \<Rightarrow> bytes option \<Rightarrow> bytes list \<Rightarrow> (bytes list \<times> Request) result option" where
  "hash_loop sha hf none_hash hash_block_size r start_token_idx curr_mm_idx prev new_block_hashes =
     (let end_token_idx = start_token_idx + hash_block_size in
      if end_token_idx > num_tokens r then Some (Inr (new_block_hashes, r))
      else
        (case generate_block_hash_extra_keys sha r start_token_idx end_token_idx curr_mm_idx of
           Inl e \<Rightarrow> Some (Inl e)
         | Inr (extra_keys, curr_mm_idx, r) \<Rightarrow>
             let block_tokens = py_slice (all_token_ids r) start_token_idx end_token_idx;
                 bh = hash_block_tokens hf none_hash prev block_tokens extra_keys
             in hash_loop sha hf none_hash hash_block_size r (start_token_idx + hash_block_size)
                  curr_mm_idx (Some bh) (new_block_hashes @ [bh])))"

declare hash_loop.simps [code]

definition request_block_hasher ::
    "(bytes \<Rightarrow> bytes) \<Rightarrow> (hash_input \<Rightarrow> bytes) \<Rightarrow> bytes \<Rightarrow> int \<Rightarrow> Request
     \<Rightarrow> (bytes list \<times> Request) result option" where
  "request_block_hasher sha hf none_hash hash_block_size r =
     (let start_token_idx = int (length (block_hashes r)) * hash_block_size in
      if start_token_idx + hash_block_size > num_tokens r then Some (Inr ([], r))
      else
        hash_loop sha hf none_hash hash_block_size r start_token_idx
          (if start_token_idx > 0 then - 1 else 0)
          (if block_hashes r \<noteq> [] then Some (last (block_hashes r)) else None) [])"

type_synonym block_hasher = "Request \<Rightarrow> (bytes list \<times> Request) result option"

definition update_block_hashes :: "block_hasher option \<Rightarrow> Request \<Rightarrow> Request result option" where
  "update_block_hashes hasher r =
     (case hasher of
        None \<Rightarrow> Some (Inr r)
      | Some h \<Rightarrow>
          map_option (\<lambda>res. and_then res (\<lambda>(hs, r). Inr (r\<lparr>block_hashes := block_hashes r @ hs\<rparr>))) (h r))"

definition append_output_token_ids ::
    "block_hasher option \<Rightarrow> int list \<Rightarrow> Request \<Rightarrow> Request result option" where
  "append_output_token_ids hasher token_ids r =
     update_block_hashes hasher
       (r\<lparr>output_token_ids := output_token_ids r @ token_ids,
          all_token_ids := all_token_ids r @ token_ids\<rparr>)"

text \<open>The constructor of a request.\<close>

definition Request_init ::
    "block_hasher option \<Rightarrow> rat option \<Rightarrow> rat \<Rightarrow> int \<Rightarrow> EngineCoreRequest \<Rightarrow> Request result option" where
  "Request_init hasher arrival now self_id a =
     (let limits =
        (if ec_pooling_params a \<noteq> None then Inr (1, WAITING)
         else
           (case ec_sampling_params a of
              Some sp \<Rightarrow>
                (case sp_max_tokens sp of
                   None \<Rightarrow> Inl AssertionError
                 | Some n \<Rightarrow>
                     Inr (n, if sp_structured_outputs sp then WAITING_FOR_STRUCTURED_OUTPUT_GRAMMAR
                             else WAITING))
            | None \<Rightarrow> Inl ValueError))
      in
        (case and_then limits (\<lambda>(n, st).
              and_then (length_from_prompt_token_ids_or_embeds (ec_prompt_token_ids a) (ec_prompt_embeds a))
                (\<lambda>np. Inr (n, st, np))) of
           Inl e \<Rightarrow> Some (Inl e)
         | Inr (n, st, np) \<Rightarrow>
             map_option (\<lambda>res. and_then res (\<lambda>r. Inr
               (r\<lparr>skip_reading_prefix_cache :=
                    get_skip_reading_prefix_cache (sampling_params r) (pooling_params r)\<rparr>)))
             (update_block_hashes hasher (fresh_request arrival now self_id a n st np))))"

definition from_engine_core_request ::
    "block_hasher option \<Rightarrow> rat \<Rightarrow> int \<Rightarrow> EngineCoreRequest \<Rightarrow> Request result option" where
  "from_engine_core_request hasher now self_id a =
     Request_init hasher (Some (ec_arrival_time a)) now self_id a"

section \<open>Views of the hash list\<close>

datatype block_hash_list = RawHashes "bytes list" | ScaledHashes "bytes list" int

definition BlockHashListWithBlockSize_init :: "bytes list \<Rightarrow> int \<Rightarrow> int \<Rightarrow> block_hash_list result" where
  "BlockHashListWithBlockSize_init hs hash_block_size target_block_size =
     (if hash_block_size = 0 then Inl ZeroDivisionError
      else and_then (py_assert (target_block_size mod hash_block_size = 0))
        (\<lambda>_. Inr (ScaledHashes hs (target_block_size div hash_block_size))))"

fun view_len :: "block_hash_list \<Rightarrow> int" where
  "view_len (RawHashes hs) = int (length hs)"
| "view_len (ScaledHashes hs scale_factor) = int (length hs) div scale_factor"

fun get_value_at :: "block_hash_list \<Rightarrow> int \<Rightarrow> bytes result" where
  "get_value_at (RawHashes hs) idx = py_index hs idx"
| "get_value_at (ScaledHashes hs scale_factor) idx = py_index hs ((idx + 1) * scale_factor - 1)"

fun collect_results :: "'a result list \<Rightarrow> 'a list result" where
  "collect_results [] = Inr []"
| "collect_results (x # xs) = and_then x (\<lambda>y. and_then (collect_results xs) (\<lambda>ys. Inr (y # ys)))"

definition view_items :: "block_hash_list \<Rightarrow> bytes list result" where
  "view_items v = collect_results (map (get_value_at v) (py_range 0 (view_len v)))"

definition view_slice_from :: "block_hash_list \<Rightarrow> int \<Rightarrow> bytes list result" where
  "view_slice_from v i =
     collect_results (map (get_value_at v) (py_range (int (slice_bound (nat (view_len v)) i)) (view_len v)))"

definition resolve_block_hashes ::
    "block_hash_list \<Rightarrow> int \<Rightarrow> int \<Rightarrow> bool \<Rightarrow> int option \<Rightarrow> block_hash_list result" where
  "resolve_block_hashes hs hash_block_size block_size fine_grained_lookup alignment_tokens =
     (if block_size = hash_block_size then Inr hs
      else
        (case hs of
           ScaledHashes raw scale_factor \<Rightarrow>
             if hash_block_size = 0 then Inl ZeroDivisionError
             else and_then (py_assert (scale_factor = block_size div hash_block_size)) (\<lambda>_. Inr hs)
         | RawHashes raw \<Rightarrow>
             and_then
               (case alignment_tokens of
                  None \<Rightarrow> Inr False
                | Some a \<Rightarrow>
                    if fine_grained_lookup \<and> a < block_size
                    then if a = 0 then Inl ZeroDivisionError else Inr (block_size mod a = 0)
                    else Inr False)
               (\<lambda>fine.
                if fine then Inr hs
                else if hash_block_size = 0 then Inl ZeroDivisionError
                else
                  and_then (py_assert (block_size mod hash_block_size = 0)) (\<lambda>_.
                  BlockHashListWithBlockSize_init raw hash_block_size block_size))))"

section \<open>Packing and unpacking keys\<close>

lemma from_bytes_be_append: "from_bytes_be acc (xs @ ys) = from_bytes_be (from_bytes_be acc xs) ys"
  by (induction xs arbitrary: acc) simp_all

lemma to_bytes4_Inr: "0 \<le> n \<Longrightarrow> n < 2 ^ 32 \<Longrightarrow> \<exists>g. to_bytes4 n = Inr g \<and> length g = 4 \<and> from_bytes_be 0 g = n"
proof -
  assume n: "0 \<le> n" "n < 2 ^ 32"
  define a b c where "a = n div 256" and "b = a div 256" and "c = b div 256"
  have eqs: "n div 2 ^ 8 = a" "n div 2 ^ 16 = b" "n div 2 ^ 24 = c"
    using n by (simp_all add: a_def b_def c_def zdiv_zmult2_eq [symmetric])
  have "0 \<le> c" "c < 256" using n by (auto simp: a_def b_def c_def)
  then have "uint (word_of_int c :: 8 word) = c" by (simp add: uint_word_of_int)
  moreover have "256 * a + n mod 256 = n" "256 * b + a mod 256 = a" "256 * c + b mod 256 = b"
    by (simp_all add: a_def b_def c_def)
  ultimately have "from_bytes_be 0 [word_of_int c, word_of_int b, word_of_int a, word_of_int n] = n"
    by (simp add: uint_word_of_int algebra_simps)
  with n show ?thesis unfolding to_bytes4_def eqs by simp
qed

lemma to_bytes4_error: "to_bytes4 n = Inl e \<longleftrightarrow> e = OverflowError \<and> \<not> (0 \<le> n \<and> n < 2 ^ 32)"
  by (auto simp: to_bytes4_def)

lemma key_split:
  assumes "length g = 4" shows "get_block_hash (bh @ g) = bh" and "py_slice_from (bh @ g) (- 4) = g"
proof -
  have "slice_bound (length (bh @ g)) (- 4) = length bh" using assms by (simp add: slice_bound_def)
  moreover have "slice_bound (length (bh @ g)) 0 = 0" by (simp add: slice_bound_def)
  ultimately show "get_block_hash (bh @ g) = bh" "py_slice_from (bh @ g) (- 4) = g"
    by (simp_all add: get_block_hash_def py_slice_def py_slice_from_def)
qed

lemma make_block_hash_with_group_id_Inr:
  assumes "make_block_hash_with_group_id bh g = Inr key"
  shows "get_block_hash key = bh" and "get_group_id key = g" and "0 \<le> g" and "g < 2 ^ 32"
proof -
  from assms obtain gb where gb: "to_bytes4 g = Inr gb" "key = bh @ gb"
    by (auto simp: make_block_hash_with_group_id_def result_simps)
  then show g: "0 \<le> g" "g < 2 ^ 32" by (auto simp: to_bytes4_def split: if_splits)
  from to_bytes4_Inr [OF this] gb have "length gb = 4" "from_bytes_be 0 gb = g" by auto
  with gb show "get_block_hash key = bh" "get_group_id key = g"
    by (simp_all add: key_split get_group_id_def)
qed

lemma make_block_hash_with_group_id_inj:
  "make_block_hash_with_group_id bh g = Inr k \<Longrightarrow> make_block_hash_with_group_id bh' g' = Inr k \<Longrightarrow>
    bh = bh' \<and> g = g'"
  using make_block_hash_with_group_id_Inr by metis

lemma make_block_hash_with_group_id_ok:
  "0 \<le> g \<Longrightarrow> g < 2 ^ 32 \<Longrightarrow> \<exists>k. make_block_hash_with_group_id bh g = Inr k"
  using to_bytes4_Inr [of g] by (auto simp: make_block_hash_with_group_id_def)

lemma maybe_convert_int: "maybe_convert_block_hash True bh = HashInt (from_bytes_be 0 bh mod 2 ^ 64)"
proof -
  have "from_bytes_be 0 bh AND (push_bit 64 1 - 1) = take_bit 64 (from_bytes_be 0 bh)"
    by (simp add: push_bit_eq_mult take_bit_eq_mask mask_eq_exp_minus_1)
  then show ?thesis by (simp add: maybe_convert_block_hash_def take_bit_eq_mod)
qed

section \<open>The multi-modal scan\<close>

text \<open>The identifiers a block \<open>[s, e)\<close> must mention: the items that overlap it, in order.\<close>

definition overlaps :: "int \<Rightarrow> int \<Rightarrow> MultiModalFeatureSpec \<Rightarrow> bool" where
  "overlaps s e f \<longleftrightarrow> pr_offset (mm_position f) < e \<and>
     s < pr_offset (mm_position f) + pr_length (mm_position f)"

definition item_key :: "int \<Rightarrow> MultiModalFeatureSpec \<Rightarrow> extra_key" where
  "item_key s f = KItem (mm_identifier f) (pr_offset (mm_position f) - s)"

text \<open>Items sorted by position and not overlapping each other, as the source assumes.\<close>

definition mm_sorted :: "MultiModalFeatureSpec list \<Rightarrow> bool" where
  "mm_sorted fs \<longleftrightarrow>
     sorted_wrt (\<lambda>f g. pr_offset (mm_position f) + pr_length (mm_position f) \<le> pr_offset (mm_position g)) fs \<and>
     (\<forall>f \<in> set fs. 0 < pr_length (mm_position f))"

lemma mm_scan_filter:
  assumes "mm_sorted fs" and "s < e"
  shows "fst (mm_scan fs s e i acc) = acc @ map (item_key s) (filter (overlaps s e) (drop i fs))"
  using assms
proof (induction fs s e i acc rule: mm_scan.induct)
  case (1 fs s e i acc)
  show ?case
  proof (cases "i < length fs")
    case False
    then show ?thesis by (subst mm_scan.simps) simp
  next
    case True
    define f where "f = fs ! i"
    define off len where "off = pr_offset (mm_position f)" and "len = pr_length (mm_position f)"
    have drop: "drop i fs = f # drop (Suc i) fs"
      using True by (simp add: f_def Cons_nth_drop_Suc)
    have later: "off + len \<le> pr_offset (mm_position g)" if "g \<in> set (drop (Suc i) fs)" for g
    proof -
      have "sorted_wrt (\<lambda>f g. pr_offset (mm_position f) + pr_length (mm_position f)
          \<le> pr_offset (mm_position g)) (drop i fs)"
        using 1(3) by (simp add: mm_sorted_def sorted_wrt_drop)
      with that show ?thesis by (simp add: drop off_def len_def)
    qed
    have len: "0 < len" using 1(3) True by (simp add: mm_sorted_def len_def f_def)
    consider (before) "e \<le> off" | (past) "off < e" "off + len \<le> s"
      | (ends) "off < e" "s < off + len" "off + len \<le> e"
      | (spans) "off < e" "s < off + len" "e < off + len" by linarith
    then show ?thesis
    proof cases
      case before
      then have "\<not> overlaps s e f" "\<And>g. g \<in> set (drop (Suc i) fs) \<Longrightarrow> \<not> overlaps s e g"
        using later len by (force simp: overlaps_def off_def)+
      then have "filter (overlaps s e) (drop i fs) = []" by (simp add: drop filter_empty_conv)
      with before True show ?thesis by (subst mm_scan.simps) (simp add: Let_def f_def off_def)
    next
      case past
      then have "\<not> overlaps s e f" by (simp add: overlaps_def off_def len_def)
      with past True 1(1) [OF True refl refl refl] 1(3,4) drop show ?thesis
        by (subst mm_scan.simps) (simp add: Let_def f_def off_def len_def)
    next
      case ends
      then have "overlaps s e f" by (simp add: overlaps_def off_def len_def)
      with ends True 1(2) [OF True refl refl refl] 1(3,4) drop show ?thesis
        by (subst mm_scan.simps) (simp add: Let_def f_def off_def len_def item_key_def)
    next
      case spans
      then have "\<And>g. g \<in> set (drop (Suc i) fs) \<Longrightarrow> \<not> overlaps s e g" "overlaps s e f"
        using later by (force simp: overlaps_def off_def len_def)+
      then have "filter (overlaps s e) (drop i fs) = [f]" by (simp add: drop filter_empty_conv)
      with spans True show ?thesis
        by (subst mm_scan.simps) (simp add: Let_def f_def off_def len_def item_key_def)
    qed
  qed
qed

lemma drop_filter_past:
  "(\<And>f. f \<in> set (take i fs) \<Longrightarrow> \<not> P f) \<Longrightarrow> filter P (drop i fs) = filter P fs"
proof -
  assume "\<And>f. f \<in> set (take i fs) \<Longrightarrow> \<not> P f"
  then have "filter P (take i fs) = []" by (simp add: filter_empty_conv)
  moreover have "filter P fs = filter P (take i fs) @ filter P (drop i fs)"
    by (metis append_take_drop_id filter_append)
  ultimately show ?thesis by simp
qed

text \<open>The early exit and the index arithmetic do not change the keys.\<close>

lemma gen_mm_keys:
  assumes "mm_sorted (mm_features r)" and "s < e" and "- int (length (mm_features r)) \<le> i"
  defines "j \<equiv> nat (if i < 0 then int (length (mm_features r)) + i else i)"
  shows "\<exists>k. gen_mm_extra_hash_keys r s e i =
    Inr (map (item_key s) (filter (overlaps s e) (drop j (mm_features r))), k)"
proof -
  let ?fs = "mm_features r" and ?last = "mm_position (last (mm_features r))"
  show ?thesis
  proof (cases "?fs = [] \<or> pr_offset ?last + pr_length ?last \<le> s")
    case True
    have "\<not> overlaps s e f" if "f \<in> set (drop j ?fs)" for f
    proof -
      from that have f: "f \<in> set ?fs" by (meson in_set_dropD)
      then have ne: "?fs \<noteq> []" by auto
      with True have l: "pr_offset ?last + pr_length ?last \<le> s" by simp
      have "pr_offset (mm_position f) + pr_length (mm_position f) \<le> pr_offset ?last + pr_length ?last"
      proof (cases "f = last ?fs")
        case False
        with f ne have "f \<in> set (butlast ?fs)" by (cases ?fs rule: rev_cases) auto
        moreover have "sorted_wrt (\<lambda>f g. pr_offset (mm_position f) + pr_length (mm_position f)
            \<le> pr_offset (mm_position g)) (butlast ?fs @ [last ?fs])"
          using assms(1) ne by (simp add: mm_sorted_def)
        ultimately have "pr_offset (mm_position f) + pr_length (mm_position f) \<le> pr_offset ?last"
          by (simp add: sorted_wrt_append)
        moreover have "0 < pr_length ?last" using assms(1) ne by (simp add: mm_sorted_def)
        ultimately show ?thesis by linarith
      qed simp
      with l show ?thesis by (simp add: overlaps_def)
    qed
    then have "filter (overlaps s e) (drop j ?fs) = []" by (simp add: filter_empty_conv)
    with True show ?thesis by (auto simp: gen_mm_extra_hash_keys_def Let_def)
  next
    case False
    with assms(3) show ?thesis
      using mm_scan_filter [OF assms(1,2), of j "[]"]
      by (auto simp: gen_mm_extra_hash_keys_def Let_def j_def split: prod.splits)
  qed
qed

text \<open>
  Hashing resumes with only the last item (\<open>start_mm_idx = - 1\<close>).  That is enough exactly when every
  earlier item ends before the block.
\<close>

lemma gen_mm_keys_resume:
  assumes "mm_sorted (mm_features r)" and "s < e"
    and "\<And>f. f \<in> set (butlast (mm_features r)) \<Longrightarrow>
           pr_offset (mm_position f) + pr_length (mm_position f) \<le> s"
  shows "map_sum id fst (gen_mm_extra_hash_keys r s e (- 1)) = map_sum id fst (gen_mm_extra_hash_keys r s e 0)"
proof (cases "mm_features r = []")
  case True
  then show ?thesis by (simp add: gen_mm_extra_hash_keys_def)
next
  case False
  let ?fs = "mm_features r"
  have len: "0 < length ?fs" using False by simp
  have "filter (overlaps s e) (drop (length ?fs - 1) ?fs) = filter (overlaps s e) ?fs"
    using assms(3) by (intro drop_filter_past) (force simp: butlast_conv_take overlaps_def)
  moreover obtain k where "gen_mm_extra_hash_keys r s e (- 1) =
      Inr (map (item_key s) (filter (overlaps s e) (drop (length ?fs - 1) ?fs)), k)"
    using gen_mm_keys [OF assms(1,2), of "- 1"] len by (auto simp: nat_diff_distrib)
  moreover obtain k' where "gen_mm_extra_hash_keys r s e 0 =
      Inr (map (item_key s) (filter (overlaps s e) ?fs), k')"
    using gen_mm_keys [OF assms(1,2), of 0] len by auto
  ultimately show ?thesis by simp
qed

section \<open>The hash chain\<close>

definition parent_of :: "bytes \<Rightarrow> bytes option \<Rightarrow> bytes" where
  "parent_of none_hash prev =
     (case prev of None \<Rightarrow> none_hash | Some p \<Rightarrow> if p = [] then none_hash else p)"

fun chain_inputs ::
    "(hash_input \<Rightarrow> bytes) \<Rightarrow> bytes \<Rightarrow> bytes option \<Rightarrow> (int list \<times> extra_key list option) list
     \<Rightarrow> hash_input list" where
  "chain_inputs hf none_hash prev [] = []"
| "chain_inputs hf none_hash prev (x # xs) =
     (parent_of none_hash prev, x)
     # chain_inputs hf none_hash (Some (hf (parent_of none_hash prev, x))) xs"

abbreviation chain_hashes ::
    "(hash_input \<Rightarrow> bytes) \<Rightarrow> bytes \<Rightarrow> bytes option \<Rightarrow> (int list \<times> extra_key list option) list
     \<Rightarrow> bytes list" where
  "chain_hashes hf none_hash prev xs \<equiv> map hf (chain_inputs hf none_hash prev xs)"

text \<open>No collision of \<open>hf\<close> on the inputs \<open>S\<close>, and no digest that is empty or equal to the seed.\<close>

definition collision_free :: "(hash_input \<Rightarrow> bytes) \<Rightarrow> bytes \<Rightarrow> hash_input set \<Rightarrow> bool" where
  "collision_free hf none_hash S \<longleftrightarrow>
     inj_on hf S \<and> (\<forall>x \<in> S. hf x \<noteq> [] \<and> hf x \<noteq> none_hash)"

lemma length_chain_inputs [simp]: "length (chain_inputs hf z prev xs) = length xs"
  by (induction xs arbitrary: prev) auto

lemma chain_inputs_eq_Nil [simp]: "chain_inputs hf z prev xs = [] \<longleftrightarrow> xs = []"
  by (cases xs) auto

lemma chain_inputs_append:
  "chain_inputs hf z prev (xs @ ys) = chain_inputs hf z prev xs @
     chain_inputs hf z (if xs = [] then prev else Some (hf (last (chain_inputs hf z prev xs)))) ys"
  by (induction xs arbitrary: prev) auto

lemma chain_inputs_take: "chain_inputs hf z prev (take n xs) = take n (chain_inputs hf z prev xs)"
  by (induction xs arbitrary: prev n) (auto simp: take_Cons split: nat.splits)

lemma chain_inputs_nth_0: "xs \<noteq> [] \<Longrightarrow> chain_inputs hf z prev xs ! 0 = (parent_of z prev, xs ! 0)"
  by (cases xs) auto

lemma chain_inputs_nth_Suc:
  "Suc i < length xs \<Longrightarrow> chain_inputs hf z prev xs ! Suc i =
     (parent_of z (Some (hf (chain_inputs hf z prev xs ! i))), xs ! Suc i)"
proof (induction xs arbitrary: prev i)
  case (Cons x xs)
  then show ?case by (cases i) (auto simp: chain_inputs_nth_0)
qed simp

lemma chain_hashes_inject:
  assumes cf: "collision_free hf z (set (chain_inputs hf z None xs) \<union> set (chain_inputs hf z None ys))"
    and "i < length xs" and "j < length ys"
    and "chain_hashes hf z None xs ! i = chain_hashes hf z None ys ! j"
  shows "i = j \<and> take (Suc i) xs = take (Suc i) ys"
  using assms(2-)
proof (induction i arbitrary: j)
  case 0
  let ?a = "chain_inputs hf z None xs ! 0" and ?b = "chain_inputs hf z None ys ! j"
  have mem: "?a \<in> set (chain_inputs hf z None xs)" "?b \<in> set (chain_inputs hf z None ys)"
    using 0 by simp_all
  have eq: "?a = ?b" using cf 0 mem by (auto simp: collision_free_def dest: inj_onD)
  show ?case
  proof (cases j)
    case 0
    with eq \<open>0 < length xs\<close> \<open>j < length ys\<close> show ?thesis
      by (cases xs; cases ys) (auto simp: chain_inputs_nth_0)
  next
    case (Suc j')
    then have "chain_inputs hf z None ys ! j' \<in> set (chain_inputs hf z None ys)"
      using \<open>j < length ys\<close> by simp
    then have "hf (chain_inputs hf z None ys ! j') \<noteq> z" "hf (chain_inputs hf z None ys ! j') \<noteq> []"
      using cf by (auto simp: collision_free_def)
    with eq Suc \<open>0 < length xs\<close> \<open>j < length ys\<close> show ?thesis
      by (auto simp: chain_inputs_nth_0 chain_inputs_nth_Suc parent_of_def)
  qed
next
  case (Suc i)
  let ?a = "chain_inputs hf z None xs ! Suc i" and ?b = "chain_inputs hf z None ys ! j"
  have mem: "?a \<in> set (chain_inputs hf z None xs)" "?b \<in> set (chain_inputs hf z None ys)"
    using Suc.prems by simp_all
  have eq: "?a = ?b" using cf Suc.prems mem by (auto simp: collision_free_def dest: inj_onD)
  have "chain_inputs hf z None xs ! i \<in> set (chain_inputs hf z None xs)"
    using Suc.prems(1) by simp
  then have x: "hf (chain_inputs hf z None xs ! i) \<noteq> z" "hf (chain_inputs hf z None xs ! i) \<noteq> []"
    using cf by (auto simp: collision_free_def)
  show ?case
  proof (cases j)
    case 0
    with eq x Suc.prems show ?thesis
      by (auto simp: chain_inputs_nth_0 chain_inputs_nth_Suc parent_of_def)
  next
    case (Suc j')
    then have "chain_inputs hf z None ys ! j' \<in> set (chain_inputs hf z None ys)"
      using Suc.prems by simp
    then have "hf (chain_inputs hf z None ys ! j') \<noteq> []" using cf by (auto simp: collision_free_def)
    with eq x Suc Suc.prems have "chain_hashes hf z None xs ! i = chain_hashes hf z None ys ! j'"
      and nth: "xs ! Suc i = ys ! Suc j'"
      by (auto simp: chain_inputs_nth_Suc parent_of_def)
    with Suc.IH [of j'] Suc Suc.prems have "i = j'" "take (Suc i) xs = take (Suc i) ys" by auto
    with nth Suc Suc.prems show ?thesis by (simp add: take_Suc_conv_app_nth)
  qed
qed


section \<open>What the hasher computes\<close>

text \<open>
  The extra keys the block \<open>[s, e)\<close> of a request should have, without the incremental scan and the
  memo table; and the hash inputs of its first \<open>n\<close> blocks of \<open>h\<close> tokens.
\<close>

definition block_extra_keys :: "(bytes \<Rightarrow> bytes) \<Rightarrow> Request \<Rightarrow> int \<Rightarrow> int \<Rightarrow> extra_key list option" where
  "block_extra_keys sha r s e =
     (let ks = gen_lora_extra_hash_keys r
               @ map (item_key s) (filter (overlaps s e) (mm_features r))
               @ (case cache_salt r of
                    Some salt \<Rightarrow> if s = 0 \<and> salt \<noteq> [] then [KStr salt] else []
                  | None \<Rightarrow> [])
               @ (case prompt_embeds r of
                    None \<Rightarrow> []
                  | Some rows \<Rightarrow> [KDigest (sha (concat (py_slice rows s e)))])
      in if ks = [] then None else Some ks)"

definition block_content :: "(bytes \<Rightarrow> bytes) \<Rightarrow> nat \<Rightarrow> Request \<Rightarrow> nat \<Rightarrow> int list \<times> extra_key list option" where
  "block_content sha h r i =
     (take h (drop (i * h) (all_token_ids r)),
      block_extra_keys sha r (int (i * h)) (int (Suc i * h)))"

definition hash_inputs ::
    "(bytes \<Rightarrow> bytes) \<Rightarrow> (hash_input \<Rightarrow> bytes) \<Rightarrow> bytes \<Rightarrow> nat \<Rightarrow> Request \<Rightarrow> nat \<Rightarrow> hash_input list" where
  "hash_inputs sha hf none_hash h r n =
     chain_inputs hf none_hash None (map (block_content sha h r) [0..<n])"

text \<open>Every full block of the request is hashed, and with its full content.\<close>

definition hashes_complete ::
    "(bytes \<Rightarrow> bytes) \<Rightarrow> (hash_input \<Rightarrow> bytes) \<Rightarrow> bytes \<Rightarrow> nat \<Rightarrow> Request \<Rightarrow> bool" where
  "hashes_complete sha hf none_hash h r \<longleftrightarrow>
     block_hashes r = map hf (hash_inputs sha hf none_hash h r (length (all_token_ids r) div h))"

text \<open>Everything of a request but the memo table of prompt-embedding digests.\<close>

definition forget :: "Request \<Rightarrow> Request" where
  "forget r = r\<lparr>prompt_embeds_per_block_hashes := []\<rparr>"

definition memo_ok :: "(bytes \<Rightarrow> bytes) \<Rightarrow> Request \<Rightarrow> bool" where
  "memo_ok sha r \<longleftrightarrow>
     (\<forall>rows s e d. prompt_embeds r = Some rows \<longrightarrow>
        dict_get (prompt_embeds_per_block_hashes r) (s, e) = Some d \<longrightarrow>
        d = sha (concat (py_slice rows s e)))"

text \<open>The items the scan will not look at again have ended.\<close>

definition mm_resume_index :: "Request \<Rightarrow> int \<Rightarrow> nat" where
  "mm_resume_index r i = nat (if i < 0 then int (length (mm_features r)) + i else i)"

definition scan_ready :: "Request \<Rightarrow> int \<Rightarrow> int \<Rightarrow> bool" where
  "scan_ready r i s \<longleftrightarrow> - 1 \<le> i \<and>
     (\<forall>f \<in> set (take (mm_resume_index r i) (mm_features r)).
        pr_offset (mm_position f) + pr_length (mm_position f) \<le> s)"

lemma forget_sel:
  "all_token_ids (forget r) = all_token_ids r" "mm_features (forget r) = mm_features r"
  "block_hashes (forget r) = block_hashes r" "prompt_embeds (forget r) = prompt_embeds r"
  "cache_salt (forget r) = cache_salt r" "lora_request (forget r) = lora_request r"
  "status (forget r) = status r" "output_token_ids (forget r) = output_token_ids r"
  by (simp_all add: forget_def)

lemma forget_same:
  assumes "forget r' = forget r"
  shows "all_token_ids r' = all_token_ids r" "mm_features r' = mm_features r"
    "block_hashes r' = block_hashes r" "prompt_embeds r' = prompt_embeds r"
    "cache_salt r' = cache_salt r" "lora_request r' = lora_request r"
    "status r' = status r" "output_token_ids r' = output_token_ids r"
  using forget_sel [of r] forget_sel [of r'] assms by metis+

lemma block_content_cong:
  assumes "all_token_ids r' = all_token_ids r" "mm_features r' = mm_features r"
    "prompt_embeds r' = prompt_embeds r" "cache_salt r' = cache_salt r" "lora_request r' = lora_request r"
  shows "block_content sha h r' = block_content sha h r"
  using assms by (simp add: fun_eq_iff block_content_def block_extra_keys_def gen_lora_extra_hash_keys_def)

lemma block_content_forget: "forget r' = forget r \<Longrightarrow> block_content sha h r' = block_content sha h r"
  by (rule block_content_cong) (rule forget_same, assumption)+

lemma mm_scan_ended:
  assumes "\<forall>f \<in> set (take i fs). pr_offset (mm_position f) + pr_length (mm_position f) \<le> e"
    and "s < e"
  shows "\<forall>f \<in> set (take (snd (mm_scan fs s e i acc)) fs).
    pr_offset (mm_position f) + pr_length (mm_position f) \<le> e"
  using assms
proof (induction fs s e i acc rule: mm_scan.induct)
  case (1 fs s e i acc)
  let ?stop = "\<lambda>f. pr_offset (mm_position f) + pr_length (mm_position f)"
  note le = 1(3)
  show ?case
  proof (cases "i < length fs")
    case False
    with le show ?thesis by (subst mm_scan.simps) simp
  next
    case True
    then have step: "set (take (Suc i) fs) = insert (fs ! i) (set (take i fs))"
      by (simp add: take_Suc_conv_app_nth)
    show ?thesis
    proof (cases "e > pr_offset (mm_position (fs ! i)) \<and> s \<ge> ?stop (fs ! i)")
      case past: True
      with 1(1) [OF True refl refl refl] 1(3,4) step True show ?thesis
        by (subst mm_scan.simps) (simp add: Let_def)
    next
      case notpast: False
      show ?thesis
      proof (cases "e > pr_offset (mm_position (fs ! i)) \<and> e \<ge> ?stop (fs ! i)")
        case ends: True
        then show ?thesis
          using 1(2) [OF True refl refl refl] 1(3,4) step True notpast le
          by (subst mm_scan.simps) (auto simp: Let_def)
      next
        case False
        with notpast le True show ?thesis by (subst mm_scan.simps) (auto simp: Let_def)
      qed
    qed
  qed
qed

lemma gen_mm_step:
  assumes "mm_sorted (mm_features r)" and "s < e" and "scan_ready r i s"
  shows "\<exists>i'. gen_mm_extra_hash_keys r s e i =
    Inr (map (item_key s) (filter (overlaps s e) (mm_features r)), i') \<and> scan_ready r i' e"
proof (cases "mm_features r = []")
  case True
  with assms(3) show ?thesis by (simp add: gen_mm_extra_hash_keys_def scan_ready_def)
next
  case ne: False
  let ?fs = "mm_features r" and ?j = "mm_resume_index r i"
  let ?stop = "\<lambda>f. pr_offset (mm_position f) + pr_length (mm_position f)"
  have i: "- 1 \<le> i" and len: "- i \<le> int (length ?fs)"
    using assms(3) ne by (auto simp: scan_ready_def neq_Nil_conv)
  have ended: "\<forall>f \<in> set (take ?j ?fs). ?stop f \<le> s" using assms(3) by (simp add: scan_ready_def)
  then have keep: "filter (overlaps s e) (drop ?j ?fs) = filter (overlaps s e) ?fs"
    by (intro drop_filter_past) (auto simp: overlaps_def)
  obtain k where k: "gen_mm_extra_hash_keys r s e i =
      Inr (map (item_key s) (filter (overlaps s e) ?fs), k)"
    using gen_mm_keys [OF assms(1,2), of i] len unfolding mm_resume_index_def [symmetric] keep by auto
  have ended_e: "\<forall>f \<in> set (take ?j ?fs). ?stop f \<le> e" using ended assms(2) by fastforce
  have "scan_ready r k e"
  proof (cases "?stop (last ?fs) \<le> s")
    case True
    then have "k = i" using k ne by (simp add: gen_mm_extra_hash_keys_def Let_def)
    with ended_e i show ?thesis by (simp add: scan_ready_def)
  next
    case False
    with k ne len have "k = int (snd (mm_scan ?fs s e ?j []))"
      by (auto simp: gen_mm_extra_hash_keys_def Let_def mm_resume_index_def split: prod.splits if_splits)
    then show ?thesis
      using mm_scan_ended [OF ended_e assms(2), of "[]"] by (simp add: scan_ready_def mm_resume_index_def)
  qed
  with k show ?thesis by blast
qed

lemma gen_prompt_embeds_step:
  assumes "memo_ok sha r"
  obtains r' where "gen_prompt_embeds_extra_hash_keys sha r s e =
      ((case prompt_embeds r of None \<Rightarrow> [] | Some rows \<Rightarrow> [KDigest (sha (concat (py_slice rows s e)))]), r')"
    and "forget r' = forget r" and "memo_ok sha r'"
proof (cases "prompt_embeds r")
  case None
  then show thesis using that [of r] assms by (simp add: gen_prompt_embeds_extra_hash_keys_def)
next
  case (Some rows)
  show thesis
  proof (cases "dict_get (prompt_embeds_per_block_hashes r) (s, e)")
    case None
    let ?r = "r\<lparr>prompt_embeds_per_block_hashes :=
      dict_set (s, e) (sha (concat (py_slice rows s e))) (prompt_embeds_per_block_hashes r)\<rparr>"
    have "memo_ok sha ?r" using assms Some by (auto simp: memo_ok_def update_conv')
    moreover have "forget ?r = forget r" by (simp add: forget_def)
    ultimately show thesis using that [of ?r] Some None
      by (simp add: gen_prompt_embeds_extra_hash_keys_def Let_def)
  next
    case (Some d)
    then show thesis using that [of r] assms \<open>prompt_embeds r = _\<close>
      by (simp add: gen_prompt_embeds_extra_hash_keys_def Let_def memo_ok_def)
  qed
qed

lemma generate_step:
  assumes "mm_sorted (mm_features r)" and "s < e" and "scan_ready r i s" and "memo_ok sha r"
  obtains i' r' where "generate_block_hash_extra_keys sha r s e i =
      Inr (block_extra_keys sha r s e, i', r')"
    and "scan_ready r i' e" and "forget r' = forget r" and "memo_ok sha r'"
proof -
  obtain i' where i': "gen_mm_extra_hash_keys r s e i =
      Inr (map (item_key s) (filter (overlaps s e) (mm_features r)), i')" "scan_ready r i' e"
    using gen_mm_step [OF assms(1-3)] by blast
  obtain r' where r': "gen_prompt_embeds_extra_hash_keys sha r s e =
      ((case prompt_embeds r of None \<Rightarrow> [] | Some rows \<Rightarrow> [KDigest (sha (concat (py_slice rows s e)))]), r')"
    "forget r' = forget r" "memo_ok sha r'"
    using gen_prompt_embeds_step [OF assms(4)] by blast
  show thesis
    using that [OF _ i'(2) r'(2,3)] i'(1) r'(1)
    by (simp add: generate_block_hash_extra_keys_def block_extra_keys_def Let_def)
qed

lemma scan_ready_forget:
  assumes "forget r' = forget r" shows "scan_ready r' i s = scan_ready r i s"
  by (simp add: scan_ready_def mm_resume_index_def forget_same [OF assms])

lemma hash_loop_correct:
  assumes "0 < h" and "mm_sorted (mm_features r)" and "scan_ready r i (int (k * h))"
    and "memo_ok sha r" and "k + m = length (all_token_ids r) div h"
  shows "\<exists>r'. hash_loop sha hf z (int h) r (int (k * h)) i prev acc =
      Some (Inr (acc @ chain_hashes hf z prev (map (block_content sha h r) [k..<k + m]), r')) \<and>
    forget r' = forget r \<and> memo_ok sha r'"
  using assms(2-)
proof (induction m arbitrary: r k i prev acc)
  case 0
  have "\<not> k * h + h \<le> length (all_token_ids r)"
  proof
    assume "k * h + h \<le> length (all_token_ids r)"
    then have "(k * h + h) div h \<le> length (all_token_ids r) div h" by (rule div_le_mono)
    with 0 assms(1) show False by simp
  qed
  then have "int (k * h) + int h > num_tokens r" by linarith
  with 0 show ?case by (subst hash_loop.simps) (simp add: Let_def)
next
  case (Suc m)
  let ?s = "int (k * h)" and ?e = "int (Suc k * h)"
  have e: "?s + int h = ?e" by (simp add: algebra_simps)
  have "Suc k * h \<le> length (all_token_ids r) div h * h" using Suc.prems(4) by (simp add: mult_le_mono1 del: mult_Suc)
  then have fits: "Suc k * h \<le> length (all_token_ids r)" by (meson div_times_less_eq_dividend le_trans)
  obtain i' r' where g: "generate_block_hash_extra_keys sha r ?s ?e i =
      Inr (block_extra_keys sha r ?s ?e, i', r')" "scan_ready r i' ?e"
    and r': "forget r' = forget r" "memo_ok sha r'"
    using generate_step [OF Suc.prems(1) _ Suc.prems(2,3), of ?e] assms(1) by auto
  have slice: "py_slice (all_token_ids r') ?s ?e = take h (drop (k * h) (all_token_ids r))"
    unfolding py_slice_of_nat forget_same [OF r'(1)] by (simp add: drop_take)
  let ?bh = "hash_block_tokens hf z prev (take h (drop (k * h) (all_token_ids r)))
    (block_extra_keys sha r ?s ?e)"
  have bh: "?bh = hf (parent_of z prev, block_content sha h r k)"
    by (simp add: hash_block_tokens_def parent_of_def block_content_def Let_def)
  have "hash_loop sha hf z (int h) r ?s i prev acc =
      hash_loop sha hf z (int h) r' ?e i' (Some ?bh) (acc @ [?bh])"
    using fits g(1) slice by (subst hash_loop.simps) (simp add: Let_def e del: of_nat_mult mult_Suc)
  moreover obtain r'' where "hash_loop sha hf z (int h) r' ?e i' (Some ?bh) (acc @ [?bh]) =
      Some (Inr ((acc @ [?bh]) @ chain_hashes hf z (Some ?bh) (map (block_content sha h r') [Suc k..<Suc k + m]), r''))"
    "forget r'' = forget r'" "memo_ok sha r''"
    using Suc.IH [of r' i' "Suc k" "Some ?bh" "acc @ [?bh]"] Suc.prems g(2) r'
    by (auto simp: forget_same [OF r'(1)] scan_ready_forget [OF r'(1)])
  moreover have "[k..<k + Suc m] = k # [Suc k..<Suc k + m]" by (simp add: upt_conv_Cons del: upt_Suc)
  ultimately show ?case
    using r' unfolding bh block_content_forget [OF r'(1)] by (auto simp del: upt_Suc)
qed

text \<open>Every earlier item ended before the tail block where hashing resumes.\<close>

definition resume_ok :: "nat \<Rightarrow> Request \<Rightarrow> bool" where
  "resume_ok h r \<longleftrightarrow> block_hashes r = [] \<or>
     (\<forall>f \<in> set (butlast (mm_features r)).
        pr_offset (mm_position f) + pr_length (mm_position f) \<le> int (length (block_hashes r) * h))"

lemma resume_ok_scan_ready:
  assumes "resume_ok h r" and "0 < h"
  shows "scan_ready r (if int (length (block_hashes r)) * int h > 0 then - 1 else 0)
    (int (length (block_hashes r) * h))"
proof (cases "block_hashes r = []")
  case True
  then show ?thesis by (simp add: scan_ready_def mm_resume_index_def)
next
  case False
  moreover have "mm_resume_index r (- 1) = length (mm_features r) - 1"
    by (simp add: mm_resume_index_def nat_diff_distrib)
  ultimately show ?thesis
    using assms by (simp add: scan_ready_def resume_ok_def butlast_conv_take)
qed

lemma hash_inputs_append:
  "hash_inputs sha hf z h r (n + m) = hash_inputs sha hf z h r n @
     chain_inputs hf z (if n = 0 then None else Some (hf (last (hash_inputs sha hf z h r n))))
       (map (block_content sha h r) [n..<n + m])"
  unfolding hash_inputs_def upt_add_eq_append [OF le0] map_append chain_inputs_append by simp

lemma length_hash_inputs [simp]: "length (hash_inputs sha hf z h r n) = n"
  by (simp add: hash_inputs_def)

lemma request_block_hasher_correct:
  assumes "0 < h" and "mm_sorted (mm_features r)" and "memo_ok sha r" and "resume_ok h r"
    and hs: "block_hashes r = map hf (hash_inputs sha hf z h r k)" and "k \<le> length (all_token_ids r) div h"
  shows "\<exists>new r'. request_block_hasher sha hf z (int h) r = Some (Inr (new, r')) \<and>
    forget r' = forget r \<and> memo_ok sha r' \<and>
    block_hashes r @ new = map hf (hash_inputs sha hf z h r (length (all_token_ids r) div h))"
proof -
  define n where "n = length (all_token_ids r) div h"
  define m where "m = n - k"
  have n: "n = k + m" using assms(6) by (simp add: m_def n_def)
  have k: "length (block_hashes r) = k" by (simp add: hs)
  let ?prev = "if block_hashes r \<noteq> [] then Some (last (block_hashes r)) else None"
  have prev: "?prev = (if k = 0 then None else Some (hf (last (hash_inputs sha hf z h r k))))"
    using k hs by (cases k) (auto simp: last_map simp flip: length_0_conv)
  obtain r' where r': "hash_loop sha hf z (int h) r (int (k * h))
      (if int (length (block_hashes r)) * int h > 0 then - 1 else 0) ?prev [] =
      Some (Inr ([] @ chain_hashes hf z ?prev (map (block_content sha h r) [k..<k + m]), r'))"
    "forget r' = forget r" "memo_ok sha r'"
    using hash_loop_correct [OF assms(1,2) resume_ok_scan_ready [OF assms(4,1), unfolded k] assms(3)
        n [unfolded n_def, symmetric], of hf z ?prev "[]"] unfolding k by blast
  have all: "block_hashes r @ chain_hashes hf z ?prev (map (block_content sha h r) [k..<k + m]) =
      map hf (hash_inputs sha hf z h r n)"
    unfolding prev n hash_inputs_append using hs by simp
  show ?thesis
  proof (cases "int (k * h) + int h > num_tokens r")
    case True
    have "m = 0"
    proof (rule ccontr)
      assume "m \<noteq> 0"
      then have "Suc k * h \<le> n * h" using n by (simp add: mult_le_mono1 del: mult_Suc)
      also have "\<dots> \<le> length (all_token_ids r)" by (simp add: n_def)
      finally show False using True by simp
    qed
    with all have "block_hashes r = map hf (hash_inputs sha hf z h r n)" by simp
    moreover have "request_block_hasher sha hf z (int h) r = Some (Inr ([], r))"
      using True by (simp add: request_block_hasher_def k)
    ultimately show ?thesis using assms(3) by (simp add: n_def)
  next
    case False
    with r' all show ?thesis by (auto simp: request_block_hasher_def Let_def k n_def [symmetric])
  qed
qed

lemma block_content_append:
  assumes "all_token_ids r' = all_token_ids r @ ts" and "i < length (all_token_ids r) div h" and "0 < h"
    and "\<And>s e. block_extra_keys sha r' s e = block_extra_keys sha r s e"
  shows "block_content sha h r' i = block_content sha h r i"
proof -
  have "Suc i * h \<le> length (all_token_ids r) div h * h" using assms(2) by (simp add: mult_le_mono1 del: mult_Suc)
  then have "Suc i * h \<le> length (all_token_ids r)" by (meson div_times_less_eq_dividend le_trans)
  then show ?thesis using assms(1,4) by (simp add: block_content_def)
qed

lemma append_output_token_ids_complete:
  assumes "0 < h" and "mm_sorted (mm_features r)" and "memo_ok sha r" and "resume_ok h r"
    and "hashes_complete sha hf z h r"
  shows "\<exists>r'. append_output_token_ids (Some (request_block_hasher sha hf z (int h))) ts r = Some (Inr r') \<and>
    hashes_complete sha hf z h r' \<and> all_token_ids r' = all_token_ids r @ ts \<and>
    output_token_ids r' = output_token_ids r @ ts \<and> mm_features r' = mm_features r \<and> memo_ok sha r' \<and>
    (\<exists>new. block_hashes r' = block_hashes r @ new)"
proof -
  define s where "s = r\<lparr>output_token_ids := output_token_ids r @ ts, all_token_ids := all_token_ids r @ ts\<rparr>"
  let ?k = "length (all_token_ids r) div h"
  have keys: "block_extra_keys sha s a b = block_extra_keys sha r a b" for a b
    by (simp add: s_def block_extra_keys_def gen_lora_extra_hash_keys_def)
  have "block_content sha h s i = block_content sha h r i" if "i < ?k" for i
    by (rule block_content_append [OF _ that assms(1) keys]) (simp add: s_def)
  then have "hash_inputs sha hf z h s ?k = hash_inputs sha hf z h r ?k"
    unfolding hash_inputs_def by (intro arg_cong [where f = "chain_inputs hf z None"] map_cong) auto
  then have hs: "block_hashes s = map hf (hash_inputs sha hf z h s ?k)"
    using assms(5) by (simp add: hashes_complete_def s_def)
  have "memo_ok sha s" "resume_ok h s" "mm_sorted (mm_features s)" "?k \<le> length (all_token_ids s) div h"
    using assms by (simp_all add: s_def memo_ok_def resume_ok_def div_le_mono)
  from request_block_hasher_correct [OF assms(1) this(3,1,2) hs this(4)] obtain new s' where
    s': "request_block_hasher sha hf z (int h) s = Some (Inr (new, s'))" "forget s' = forget s"
      "memo_ok sha s'" "block_hashes s @ new = map hf (hash_inputs sha hf z h s (length (all_token_ids s) div h))"
    by blast
  note same = forget_same [OF s'(2)]
  let ?r' = "s'\<lparr>block_hashes := block_hashes s' @ new\<rparr>"
  have content: "block_content sha h (s'\<lparr>block_hashes := b\<rparr>) = block_content sha h s" for b
    by (rule block_content_cong) (simp_all add: same)
  have "hashes_complete sha hf z h ?r'"
    using s'(4) by (simp add: hashes_complete_def hash_inputs_def same content)
  moreover have "append_output_token_ids (Some (request_block_hasher sha hf z (int h))) ts r = Some (Inr ?r')"
    using s'(1) by (simp add: append_output_token_ids_def update_block_hashes_def s_def)
  ultimately show ?thesis using s'(3) same by (auto simp: s_def memo_ok_def)
qed

text \<open>From a non-negative index of the items, the extra keys of any range can be computed; only the memo table of the request changes.\<close>

lemma gen_prompt_embeds_forget: "gen_prompt_embeds_extra_hash_keys sha r a b = (ks, r') \<Longrightarrow> forget r' = forget r"
  by (auto simp: gen_prompt_embeds_extra_hash_keys_def forget_def Let_def split: option.splits)

lemma generate_total:
  assumes "0 \<le> i"
  shows "\<exists>ks j r'. generate_block_hash_extra_keys sha r s e i = Inr (ks, j, r') \<and> 0 \<le> j \<and> forget r' = forget r"
proof -
  obtain ks r' where "gen_prompt_embeds_extra_hash_keys sha r s e = (ks, r')" by fastforce
  moreover from gen_prompt_embeds_forget [OF this] have "forget r' = forget r" .
  moreover have "\<exists>mm j. gen_mm_extra_hash_keys r s e i = Inr (mm, j) \<and> 0 \<le> j"
    using assms by (cases "mm_scan (mm_features r) s e (nat i) []") (simp add: gen_mm_extra_hash_keys_def Let_def)
  ultimately show ?thesis by (auto simp: generate_block_hash_extra_keys_def Let_def)
qed

text \<open>
  Equal hashes mean equal prefixes: if two requests share a block hash, the blocks are at the same
  position, all tokens up to the end of the block agree, and so do the extra keys of every block.
\<close>

lemma concat_blocks:
  "n * h \<le> length xs \<Longrightarrow> concat (map (\<lambda>i. take h (drop (i * h) xs)) [0..<n]) = take (n * h) xs"
proof (induction n)
  case (Suc n)
  then have "concat (map (\<lambda>i. take h (drop (i * h) xs)) [0..<n]) = take (n * h) xs" by simp
  moreover have "take (Suc n * h) xs = take (n * h) xs @ take h (drop (n * h) xs)"
    unfolding mult_Suc add.commute [of h] by (rule take_add)
  ultimately show ?case by simp
qed simp

lemma block_hash_prefix:
  assumes "hashes_complete sha hf z h r1" and "hashes_complete sha hf z h r2"
    and "collision_free hf z (set (hash_inputs sha hf z h r1 (length (all_token_ids r1) div h)) \<union>
      set (hash_inputs sha hf z h r2 (length (all_token_ids r2) div h)))"
    and "i < length (block_hashes r1)" and "j < length (block_hashes r2)"
    and "block_hashes r1 ! i = block_hashes r2 ! j"
  shows "i = j" and "take (Suc i * h) (all_token_ids r1) = take (Suc i * h) (all_token_ids r2)"
    and "\<And>b. b \<le> i \<Longrightarrow> block_extra_keys sha r1 (int (b * h)) (int (Suc b * h)) =
           block_extra_keys sha r2 (int (b * h)) (int (Suc b * h))"
proof -
  let ?n1 = "length (all_token_ids r1) div h" and ?n2 = "length (all_token_ids r2) div h"
  let ?b1 = "map (block_content sha h r1) [0..<?n1]" and ?b2 = "map (block_content sha h r2) [0..<?n2]"
  have len: "i < ?n1" "j < ?n2" using assms(1,2,4,5) by (auto simp: hashes_complete_def)
  have "chain_hashes hf z None ?b1 ! i = chain_hashes hf z None ?b2 ! j"
    using assms(1,2,6) by (simp add: hashes_complete_def hash_inputs_def)
  with chain_hashes_inject [OF assms(3) [unfolded hash_inputs_def], of i j] len
  have eq: "i = j" "take (Suc i) ?b1 = take (Suc i) ?b2" by auto
  from eq(1) show "i = j" .
  have "take (Suc i) [0..<?n1] = [0..<Suc i]" "take (Suc i) [0..<?n2] = [0..<Suc i]"
    using len eq(1) by (auto simp: take_upt simp del: upt_Suc)
  with eq(2) have "map (block_content sha h r1) [0..<Suc i] = map (block_content sha h r2) [0..<Suc i]"
    by (simp add: take_map del: upt_Suc)
  then have each: "block_content sha h r1 b = block_content sha h r2 b" if "b \<le> i" for b
    using that by (metis (no_types, lifting) atLeastLessThan_iff le_imp_less_Suc map_eq_conv set_upt zero_le)
  then show "\<And>b. b \<le> i \<Longrightarrow> block_extra_keys sha r1 (int (b * h)) (int (Suc b * h)) =
      block_extra_keys sha r2 (int (b * h)) (int (Suc b * h))"
    by (metis block_content_def prod.inject)
  have "Suc i * h \<le> ?n1 * h" "Suc i * h \<le> ?n2 * h"
    using len eq(1) by (simp_all add: mult_le_mono1 del: mult_Suc)
  then have fit: "Suc i * h \<le> length (all_token_ids r1)" "Suc i * h \<le> length (all_token_ids r2)"
    by (meson div_times_less_eq_dividend le_trans)+
  have "map (\<lambda>b. take h (drop (b * h) (all_token_ids r1))) [0..<Suc i] =
      map (\<lambda>b. take h (drop (b * h) (all_token_ids r2))) [0..<Suc i]"
    using each by (auto simp: block_content_def simp del: upt_Suc)
  then show "take (Suc i * h) (all_token_ids r1) = take (Suc i * h) (all_token_ids r2)"
    using concat_blocks [OF fit(1)] concat_blocks [OF fit(2)] by metis
qed

section \<open>Requests as they are constructed\<close>

lemma fresh_request_complete:
  assumes "0 < h" and "mm_sorted (mm_features r)" and "prompt_embeds_per_block_hashes r = []"
    and "block_hashes r = []"
  shows "\<exists>r'. update_block_hashes (Some (request_block_hasher sha hf z (int h))) r = Some (Inr r') \<and>
    hashes_complete sha hf z h r' \<and> memo_ok sha r' \<and> all_token_ids r' = all_token_ids r \<and>
    mm_features r' = mm_features r \<and> status r' = status r"
proof -
  have "memo_ok sha r" "resume_ok h r" "block_hashes r = map hf (hash_inputs sha hf z h r 0)"
    using assms(3,4) by (simp_all add: memo_ok_def resume_ok_def hash_inputs_def)
  from request_block_hasher_correct [OF assms(1,2) this] obtain new s where
    s: "request_block_hasher sha hf z (int h) r = Some (Inr (new, s))" "forget s = forget r" "memo_ok sha s"
      "new = map hf (hash_inputs sha hf z h r (length (all_token_ids r) div h))"
    using assms(4) by auto
  note same = forget_same [OF s(2)]
  let ?r = "s\<lparr>block_hashes := block_hashes s @ new\<rparr>"
  have content: "block_content sha h (s\<lparr>block_hashes := b\<rparr>) = block_content sha h r" for b
    by (rule block_content_cong) (simp_all add: same)
  have "hashes_complete sha hf z h ?r"
    using s(4) assms(4) by (simp add: hashes_complete_def hash_inputs_def same content)
  moreover have "update_block_hashes (Some (request_block_hasher sha hf z (int h))) r = Some (Inr ?r)"
    using s(1) by (simp add: update_block_hashes_def)
  ultimately show ?thesis using s(3) same by (auto simp: memo_ok_def)
qed

lemma hashes_complete_skip:
  "hashes_complete sha hf z h (r\<lparr>skip_reading_prefix_cache := b\<rparr>) = hashes_complete sha hf z h r"
proof -
  have "block_content sha h (r\<lparr>skip_reading_prefix_cache := b\<rparr>) = block_content sha h r"
    by (rule block_content_cong) simp_all
  then show ?thesis by (simp add: hashes_complete_def hash_inputs_def)
qed

lemma Request_init_eq:
  assumes "(\<exists>pp. ec_pooling_params a = Some pp) \<or>
      (\<exists>sp n. ec_sampling_params a = Some sp \<and> sp_max_tokens sp = Some n)"
    and "length_from_prompt_token_ids_or_embeds (ec_prompt_token_ids a) (ec_prompt_embeds a) = Inr np"
  shows "\<exists>n st. (st = WAITING \<or> st = WAITING_FOR_STRUCTURED_OUTPUT_GRAMMAR) \<and>
    Request_init hasher arr now i a = map_option (\<lambda>res. and_then res (\<lambda>r. Inr
      (r\<lparr>skip_reading_prefix_cache := get_skip_reading_prefix_cache (sampling_params r) (pooling_params r)\<rparr>)))
      (update_block_hashes hasher (fresh_request arr now i a n st np))"
proof (cases "ec_pooling_params a")
  case None
  with assms obtain sp n where "ec_sampling_params a = Some sp" "sp_max_tokens sp = Some n" by auto
  with None assms(2) show ?thesis
    by (intro exI [of _ n]) (auto simp: Request_init_def Let_def)
next
  case (Some pp)
  with assms(2) show ?thesis
    by (intro exI [of _ 1] exI [of _ WAITING]) (simp add: Request_init_def)
qed

lemma Request_init_complete:
  assumes "0 < h" and "mm_sorted (case ec_mm_features a of None \<Rightarrow> [] | Some fs \<Rightarrow> fs)"
    and "(\<exists>pp. ec_pooling_params a = Some pp) \<or>
         (\<exists>sp n. ec_sampling_params a = Some sp \<and> sp_max_tokens sp = Some n)"
    and "length_from_prompt_token_ids_or_embeds (ec_prompt_token_ids a) (ec_prompt_embeds a) = Inr np"
  shows "\<exists>r. Request_init (Some (request_block_hasher sha hf z (int h))) arr now i a = Some (Inr r) \<and>
    hashes_complete sha hf z h r \<and> memo_ok sha r \<and> \<not> is_finished r \<and>
    all_token_ids r = initial_token_ids (ec_prompt_token_ids a) (ec_prompt_is_token_ids a) np \<and>
    mm_features r = (case ec_mm_features a of None \<Rightarrow> [] | Some fs \<Rightarrow> fs)"
proof -
  let ?toks = "initial_token_ids (ec_prompt_token_ids a) (ec_prompt_is_token_ids a) np"
  let ?hasher = "request_block_hasher sha hf z (int h)"
  obtain n st where n: "st = WAITING \<or> st = WAITING_FOR_STRUCTURED_OUTPUT_GRAMMAR" and
    eq: "Request_init (Some ?hasher) arr now i a = map_option (\<lambda>res. and_then res (\<lambda>r. Inr
        (r\<lparr>skip_reading_prefix_cache := get_skip_reading_prefix_cache (sampling_params r) (pooling_params r)\<rparr>)))
      (update_block_hashes (Some ?hasher) (fresh_request arr now i a n st np))"
    using Request_init_eq [OF assms(3,4), of "Some ?hasher" arr now i] by (elim exE conjE) (rule that)
  let ?r = "fresh_request arr now i a n st np"
  have "mm_sorted (mm_features ?r)" "prompt_embeds_per_block_hashes ?r = []" "block_hashes ?r = []"
    "all_token_ids ?r = ?toks" "status ?r = st" "mm_features ?r = (case ec_mm_features a of None \<Rightarrow> [] | Some fs \<Rightarrow> fs)"
    using assms(2) by (simp_all add: fresh_request_def)
  moreover from fresh_request_complete [OF assms(1) this(1-3), of sha hf z] obtain r' where
    "update_block_hashes (Some ?hasher) ?r = Some (Inr r')" "hashes_complete sha hf z h r'" "memo_ok sha r'"
    "all_token_ids r' = all_token_ids ?r" "status r' = status ?r" "mm_features r' = mm_features ?r" by blast
  ultimately obtain r' where r': "update_block_hashes (Some ?hasher) ?r = Some (Inr r')"
    "hashes_complete sha hf z h r'" "memo_ok sha r'" "all_token_ids r' = ?toks" "status r' = st"
    "mm_features r' = (case ec_mm_features a of None \<Rightarrow> [] | Some fs \<Rightarrow> fs)" by auto
  let ?r' = "r'\<lparr>skip_reading_prefix_cache :=
    get_skip_reading_prefix_cache (sampling_params r') (pooling_params r')\<rparr>"
  have "Request_init (Some ?hasher) arr now i a = Some (Inr ?r')" unfolding eq r'(1) by simp
  moreover have "hashes_complete sha hf z h ?r'" using r'(2) by (simp only: hashes_complete_skip)
  moreover have "memo_ok sha ?r'" using r'(3) by (simp add: memo_ok_def)
  moreover have "\<not> is_finished ?r'" using n r'(5) by (auto simp: is_finished_def status_is_finished_def)
  ultimately show ?thesis using r'(4,6) by (intro exI [of _ ?r']) simp
qed

text \<open>
  The requests that the source hashes: constructed from a message of the engine, then extended by output tokens.  The items of a request do not
  overlap, and no item but the last reaches into the block where hashing resumes.
\<close>

inductive hashed_request :: "(bytes \<Rightarrow> bytes) \<Rightarrow> (hash_input \<Rightarrow> bytes) \<Rightarrow> bytes \<Rightarrow> nat \<Rightarrow> Request \<Rightarrow> bool" for sha hf z h where
  hashed_new: "from_engine_core_request (Some (request_block_hasher sha hf z (int h))) now i a = Some (Inr r) \<Longrightarrow>
     mm_sorted (case ec_mm_features a of None \<Rightarrow> [] | Some fs \<Rightarrow> fs) \<Longrightarrow> hashed_request sha hf z h r"
| hashed_append: "hashed_request sha hf z h r \<Longrightarrow> resume_ok h r \<Longrightarrow>
     append_output_token_ids (Some (request_block_hasher sha hf z (int h))) ts r = Some (Inr r') \<Longrightarrow> hashed_request sha hf z h r'"

lemma Request_init_Inr:
  assumes "Request_init hasher arr now i a = Some (Inr r)"
  shows "(\<exists>pp. ec_pooling_params a = Some pp) \<or> (\<exists>sp n. ec_sampling_params a = Some sp \<and> sp_max_tokens sp = Some n)"
    and "\<exists>np. length_from_prompt_token_ids_or_embeds (ec_prompt_token_ids a) (ec_prompt_embeds a) = Inr np"
  using assms by (auto simp: Request_init_def Let_def split: option.splits if_splits sum.splits elim!: and_thenE)

lemma Request_init_hashed:
  assumes "0 < h" and "mm_sorted (case ec_mm_features a of None \<Rightarrow> [] | Some fs \<Rightarrow> fs)"
    and "Request_init (Some (request_block_hasher sha hf z (int h))) arr now i a = Some (Inr r)"
  shows "hashes_complete sha hf z h r \<and> memo_ok sha r \<and> mm_sorted (mm_features r)"
proof -
  obtain np where "length_from_prompt_token_ids_or_embeds (ec_prompt_token_ids a) (ec_prompt_embeds a) = Inr np"
    using Request_init_Inr(2) [OF assms(3)] by blast
  from Request_init_complete [OF assms(1,2) Request_init_Inr(1) [OF assms(3)] this, of sha hf z arr now i] assms(2,3) show ?thesis by auto
qed

lemma hashed_request_complete:
  assumes "hashed_request sha hf z h r" and "0 < h"
  shows "hashes_complete sha hf z h r \<and> memo_ok sha r \<and> mm_sorted (mm_features r)"
  using assms(1)
proof (induction rule: hashed_request.induct)
  case (hashed_new now i a r)
  then show ?case using Request_init_hashed [OF assms(2)] by (simp add: from_engine_core_request_def)
next
  case (hashed_append r ts r')
  from append_output_token_ids_complete [OF assms(2) _ _ hashed_append(2), of sha hf z ts] hashed_append(3,4)
  show ?case by auto
qed

text \<open>The items of a block can be read off its extra keys.\<close>

fun is_item_key :: "extra_key \<Rightarrow> bool" where
  "is_item_key (KItem _ _) = True"
| "is_item_key _ = False"

lemma item_keys_of_block:
  "map (item_key s) (filter (overlaps s e) (mm_features r)) =
     filter is_item_key (case block_extra_keys sha r s e of None \<Rightarrow> [] | Some ks \<Rightarrow> ks)"
  by (auto simp: block_extra_keys_def gen_lora_extra_hash_keys_def item_key_def filter_id_conv split: option.splits)

section \<open>Coarser views\<close>

lemma resolve_coarser:
  assumes "0 < h" and "0 < c"
  shows "\<exists>v. resolve_block_hashes (RawHashes hs) (int h) (int (c * h)) False al = Inr v \<and>
    view_len v = int (length hs div c) \<and>
    (\<forall>i < length hs div c. get_value_at v (int i) = Inr (hs ! (Suc i * c - 1)))"
proof -
  have idx: "Suc i * c - 1 < length hs" "(int i + 1) * int c - 1 = int (Suc i * c - 1)"
    if "i < length hs div c" for i
  proof -
    have "Suc i * c \<le> length hs div c * c" using that by (intro mult_le_mono1) simp
    then have "Suc i * c \<le> length hs" by (meson div_times_less_eq_dividend le_trans)
    moreover have pos: "0 < Suc i * c" using assms(2) by simp
    ultimately show "Suc i * c - 1 < length hs" by linarith
    have "int (Suc i * c) = (int i + 1) * int c" by (simp add: algebra_simps)
    with pos show "(int i + 1) * int c - 1 = int (Suc i * c - 1)" by linarith
  qed
  show ?thesis
  proof (cases "c = 1")
    case True
    then show ?thesis by (auto simp: resolve_block_hashes_def)
  next
    case False
    have "resolve_block_hashes (RawHashes hs) (int h) (int (c * h)) False al = Inr (ScaledHashes hs (int c))"
      using assms False
      by (auto simp: resolve_block_hashes_def BlockHashListWithBlockSize_init_def split: option.splits)
    then show ?thesis using idx by (auto simp: zdiv_int simp del: mult_Suc)
  qed
qed

section \<open>Where distinct content shares a key\<close>

text \<open>
  A LoRA name and a cache salt enter the key tuple as plain strings, so the first block under the
  adapter \<open>x\<close> and the first block of the base model under the salt \<open>x\<close> have one hash input.
\<close>

lemma lora_salt_first_block:
  assumes "lora_request r1 = Some l" and "cache_salt r1 = None"
    and "lora_request r2 = None" and "cache_salt r2 = Some (lora_name l)" and "lora_name l \<noteq> []"
    and "mm_features r1 = []" "mm_features r2 = []" "prompt_embeds r1 = None" "prompt_embeds r2 = None"
    and "take h (all_token_ids r1) = take h (all_token_ids r2)"
  shows "block_content sha h r1 0 = block_content sha h r2 0"
  using assms
  by (simp add: block_content_def block_extra_keys_def gen_lora_extra_hash_keys_def)

section \<open>Properties\<close>

text \<open>A hash function without collisions on small inputs, for the concrete instances.\<close>

fun concat_hash :: "hash_input \<Rightarrow> bytes" where
  "concat_hash (p, ts, ks) = p @ map word_of_int ts"

lemma text_request_keys [simp]: "block_extra_keys sha (text_request ts hs) s e = None"
  by (simp add: block_extra_keys_def gen_lora_extra_hash_keys_def)

lemma text_request_content: "block_content sha h (text_request ts hs) i = (take h (drop (i * h) ts), None)"
  by (simp add: block_content_def)

lemma text_hash_inputs_2: "hash_inputs sha hf z h (text_request ts hs) (Suc (Suc 0)) =
  [(z, take h ts, None), (parent_of z (Some (hf (z, take h ts, None))), take h (drop h ts), None)]"
  by (simp add: hash_inputs_def text_request_content parent_of_def)


definition hashed_text :: "int list \<Rightarrow> Request" where
  "hashed_text ts = (case from_engine_core_request (Some (request_block_hasher id concat_hash [0] 2)) 0 1 (text_message ts) of
     Some (Inr r) \<Rightarrow> r | _ \<Rightarrow> text_request ts [])"

lemma hashed_text_eval:
  "case from_engine_core_request (Some (request_block_hasher id concat_hash [0] 2)) 0 1 (text_message [1, 2, 3, 4]) of
     Some (Inr r) \<Rightarrow> all_token_ids r = [1, 2, 3, 4] \<and> mm_features r = [] \<and> lora_request r = None \<and> cache_salt r = None \<and> prompt_embeds r = None
   | _ \<Rightarrow> False"
  "case from_engine_core_request (Some (request_block_hasher id concat_hash [0] 2)) 0 1 (text_message [1, 2, 5, 6]) of
     Some (Inr r) \<Rightarrow> all_token_ids r = [1, 2, 5, 6] \<and> mm_features r = [] \<and> lora_request r = None \<and> cache_salt r = None \<and> prompt_embeds r = None
   | _ \<Rightarrow> False"
  by code_simp+

lemma hashed_text:
  assumes "ts = [1, 2, 3, 4] \<or> ts = [1, 2, 5, 6]"
  shows "hashed_request id concat_hash [0] 2 (hashed_text ts)" and "all_token_ids (hashed_text ts) = ts"
    and "block_content id 2 (hashed_text ts) i = (take 2 (drop (i * 2) ts), None)"
proof -
  obtain r where r: "from_engine_core_request (Some (request_block_hasher id concat_hash [0] 2)) 0 1 (text_message ts) = Some (Inr r)"
    and sel: "all_token_ids r = ts" "mm_features r = []" "lora_request r = None" "cache_salt r = None" "prompt_embeds r = None"
    using assms hashed_text_eval by (auto split: option.splits sum.splits)
  have e: "hashed_text ts = r" using r by (simp add: hashed_text_def)
  have "mm_sorted []" by (simp add: mm_sorted_def)
  then show "hashed_request id concat_hash [0] 2 (hashed_text ts)" unfolding e
    by (intro hashed_new [of _ _ _ _ 0 1 "text_message ts"]) (use r in \<open>simp_all add: text_message_def\<close>)
  show "all_token_ids (hashed_text ts) = ts" unfolding e by (rule sel)
  have "block_content id 2 r = block_content id 2 (text_request ts [])" by (rule block_content_cong) (simp_all add: sel)
  then show "block_content id 2 (hashed_text ts) i = (take 2 (drop (i * 2) ts), None)" unfolding e by (simp add: text_request_content)
qed


text \<open>
  C30.  Appending output tokens keeps a request fully hashed: the hasher's loop returns, the hashes of
  earlier blocks are kept, and every newly completed block is hashed with its full content, provided
  that the multi-modal items are in order, the memo of embedding digests is right, and no item but the
  last reaches into the block where hashing resumes.
\<close>

theorem append_keeps_hashes_complete:
  assumes "0 < h" and "mm_sorted (mm_features r)" and "memo_ok sha r" and "resume_ok h r"
    and "hashes_complete sha hf z h r"
  shows "\<exists>r'. append_output_token_ids (Some (request_block_hasher sha hf z (int h))) ts r = Some (Inr r') \<and>
    hashes_complete sha hf z h r' \<and> all_token_ids r' = all_token_ids r @ ts \<and>
    output_token_ids r' = output_token_ids r @ ts \<and> memo_ok sha r' \<and>
    (\<exists>new. block_hashes r' = block_hashes r @ new)"
  using append_output_token_ids_complete [OF assms] by blast

theorem append_keeps_hashes_complete_witness:
  "\<exists>r'. append_output_token_ids (Some (request_block_hasher id concat_hash [0] 2)) [4, 5]
      (text_request [1, 2, 3] [[0, 1, 2]]) = Some (Inr r') \<and>
    hashes_complete id concat_hash [0] 2 r' \<and> all_token_ids r' = [1, 2, 3, 4, 5]"
  using append_keeps_hashes_complete [of 2 "text_request [1, 2, 3] [[0, 1, 2]]" id concat_hash "[0]" "[4, 5]"]
  by (auto simp: mm_sorted_def memo_ok_def resume_ok_def hashes_complete_def hash_inputs_def
      text_request_content parent_of_def)

text \<open>
  The constructor of a request returns, gives a request that is not finished and that is fully
  hashed, with the token ids it was sent (zeros where the prompt is embeddings).
\<close>

theorem new_request_hashed:
  assumes "0 < h" and "mm_sorted (case ec_mm_features a of None \<Rightarrow> [] | Some fs \<Rightarrow> fs)"
    and "(\<exists>pp. ec_pooling_params a = Some pp) \<or>
         (\<exists>sp n. ec_sampling_params a = Some sp \<and> sp_max_tokens sp = Some n)"
    and "length_from_prompt_token_ids_or_embeds (ec_prompt_token_ids a) (ec_prompt_embeds a) = Inr np"
  shows "\<exists>r. from_engine_core_request (Some (request_block_hasher sha hf z (int h))) now i a = Some (Inr r) \<and>
    hashes_complete sha hf z h r \<and> memo_ok sha r \<and> \<not> is_finished r \<and>
    all_token_ids r = initial_token_ids (ec_prompt_token_ids a) (ec_prompt_is_token_ids a) np"
  unfolding from_engine_core_request_def using Request_init_complete [OF assms] by blast

theorem new_request_hashed_witness:
  "\<exists>r. from_engine_core_request (Some (request_block_hasher id concat_hash [0] 2)) 0 1
      (text_message [1, 2, 3]) = Some (Inr r) \<and> all_token_ids r = [1, 2, 3]"
proof -
  have "mm_sorted []" by (simp add: mm_sorted_def)
  moreover have "length_from_prompt_token_ids_or_embeds (Some [1, 2, 3]) None = Inr 3"
    by (simp add: length_from_prompt_token_ids_or_embeds_def)
  ultimately show ?thesis
    using new_request_hashed [of 2 "text_message [1, 2, 3]" 3 id concat_hash "[0]" 0 1]
    by (auto simp: text_message_def initial_token_ids_def)
qed

text \<open>
  C31.  Packing a block hash with a group id is invertible on the 32-bit group ids, distinct pairs get
  distinct keys, and any other group id raises \<open>OverflowError\<close>.
\<close>

theorem group_key_roundtrip:
  "(case make_block_hash_with_group_id bh g of
      Inr key \<Rightarrow> 0 \<le> g \<and> g < 2 ^ 32 \<and> get_block_hash key = bh \<and> get_group_id key = g
    | Inl e \<Rightarrow> e = OverflowError \<and> \<not> (0 \<le> g \<and> g < 2 ^ 32))"
proof (cases "make_block_hash_with_group_id bh g")
  case (Inl e)
  then have "to_bytes4 g = Inl e" by (auto simp: make_block_hash_with_group_id_def result_simps)
  with Inl show ?thesis by (simp add: to_bytes4_error)
next
  case (Inr key)
  with make_block_hash_with_group_id_Inr [OF Inr] show ?thesis by simp
qed

text \<open>
  C32.  A group whose block size is \<open>c\<close> times the hashing granularity sees one hash per block, the one
  at the end of the block, and it fingerprints the whole prefix: under the hypothesis of C6, equal
  view entries of two requests are at the same index and cover equal tokens.
\<close>

theorem coarse_view_sound:
  assumes "0 < h" and "0 < c" and "hashes_complete sha hf z h r1" and "hashes_complete sha hf z h r2"
    and "collision_free hf z (set (hash_inputs sha hf z h r1 (length (all_token_ids r1) div h)) \<union>
      set (hash_inputs sha hf z h r2 (length (all_token_ids r2) div h)))"
    and "resolve_block_hashes (RawHashes (block_hashes r1)) (int h) (int (c * h)) False al = Inr v1"
    and "resolve_block_hashes (RawHashes (block_hashes r2)) (int h) (int (c * h)) False al = Inr v2"
    and "int i < view_len v1" and "int j < view_len v2" and "get_value_at v1 (int i) = get_value_at v2 (int j)"
  shows "i = j \<and> take (Suc i * (c * h)) (all_token_ids r1) = take (Suc i * (c * h)) (all_token_ids r2)"
proof -
  have v: "view_len v = int (length (block_hashes r) div c)"
    "\<And>i. i < length (block_hashes r) div c \<Longrightarrow> get_value_at v (int i) = Inr (block_hashes r ! (Suc i * c - 1))"
    if "resolve_block_hashes (RawHashes (block_hashes r)) (int h) (int (c * h)) False al = Inr v" for r v
    using resolve_coarser [OF assms(1,2), of "block_hashes r" al] that by auto
  have i: "i < length (block_hashes r1) div c" and j: "j < length (block_hashes r2) div c"
    using assms(8,9) v(1) [OF assms(6)] v(1) [OF assms(7)] by simp_all
  have eq: "block_hashes r1 ! (Suc i * c - 1) = block_hashes r2 ! (Suc j * c - 1)"
    using assms(10) v(2) [OF assms(6) i] v(2) [OF assms(7) j] by simp
  have pos: "0 < Suc k * c" for k using assms(2) by simp
  have bound: "Suc k * c - 1 < length (block_hashes r)" if "k < length (block_hashes r) div c" for k and r
  proof -
    have "Suc k * c \<le> length (block_hashes r) div c * c" using that by (intro mult_le_mono1) simp
    then show ?thesis using pos [of k] div_times_less_eq_dividend [of "length (block_hashes r)" c] by linarith
  qed
  note p = block_hash_prefix [OF assms(3-5) bound [OF i] bound [OF j] eq]
  have "Suc i * c = Suc j * c" using p(1) pos [of i] pos [of j] by linarith
  then have "i = j" using assms(2) by simp
  moreover have "Suc (Suc i * c - 1) * h = Suc i * (c * h)" using pos [of i] by (simp add: mult.assoc del: mult_Suc)
  ultimately show ?thesis using p(2) by simp
qed

theorem coarse_view_sound_witness:
  "\<exists>v. resolve_block_hashes (RawHashes [[0, 1], [0, 1, 2]]) 1 2 False None = Inr v \<and>
    take 2 [1, 2 :: int] = take 2 [1, 2, 5] \<and> get_value_at v 0 = Inr [0, 1, 2]"
proof -
  let ?a = "text_request [1, 2] [[0, 1], [0, 1, 2]]"
    and ?b = "text_request [1, 2, 5] [[0, 1], [0, 1, 2], [0, 1, 2, 5]]"
  have inputs: "hash_inputs id concat_hash [0] (Suc 0) ?a (Suc (Suc 0)) = [([0], [1], None), ([0, 1], [2], None)]"
    "hash_inputs id concat_hash [0] (Suc 0) ?b (Suc (Suc (Suc 0))) = [([0], [1], None), ([0, 1], [2], None), ([0, 1, 2], [5], None)]"
    by (simp_all add: hash_inputs_def text_request_content parent_of_def)
  have "hashes_complete id concat_hash [0] 1 ?a" "hashes_complete id concat_hash [0] 1 ?b"
    using inputs by (simp_all add: hashes_complete_def)
  moreover have "collision_free concat_hash [0]
    (set (hash_inputs id concat_hash [0] 1 ?a (length (all_token_ids ?a) div 1)) \<union>
     set (hash_inputs id concat_hash [0] 1 ?b (length (all_token_ids ?b) div 1)))"
    using inputs by (auto simp: collision_free_def inj_on_def)
  moreover have "resolve_block_hashes (RawHashes (block_hashes ?a)) 1 2 False None =
      Inr (ScaledHashes (block_hashes ?a) 2)"
    "resolve_block_hashes (RawHashes (block_hashes ?b)) 1 2 False None = Inr (ScaledHashes (block_hashes ?b) 2)"
    by (simp_all add: resolve_block_hashes_def BlockHashListWithBlockSize_init_def)
  ultimately show ?thesis
    using coarse_view_sound [of 1 2 id concat_hash "[0]" ?a ?b None
      "ScaledHashes (block_hashes ?a) 2" "ScaledHashes (block_hashes ?b) 2" 0 0]
    by (simp add: py_index_def)
qed

text \<open>
  C33.  Hashing that resumes after the first block looks at the last multi-modal item only.  When two
  items lie in the block that generated tokens complete, the first one is left out of the key: two
  requests that differ in that item get the same hashes, for every hash function.
\<close>

definition two_items :: "string \<Rightarrow> MultiModalFeatureSpec list" where
  "two_items ident =
     [\<lparr>mm_modality = ''image'', mm_identifier = ident,
       mm_position = \<lparr>pr_offset = 4, pr_length = 1, pr_is_embed = None\<rparr>\<rparr>,
      \<lparr>mm_modality = ''image'', mm_identifier = ''last'',
       mm_position = \<lparr>pr_offset = 5, pr_length = 1, pr_is_embed = None\<rparr>\<rparr>]"

definition two_item_message :: "string \<Rightarrow> EngineCoreRequest" where
  "two_item_message ident = (text_message [5, 6, 7, 8, 0, 0])\<lparr>ec_mm_features := Some (two_items ident)\<rparr>"

lemma hash_loop_done:
  "start + hbs > num_tokens r \<Longrightarrow> hash_loop sha hf z hbs r start i prev acc = Some (Inr (acc, r))"
  by (subst hash_loop.simps) simp

definition two_item_request :: "string \<Rightarrow> (hash_input \<Rightarrow> bytes) \<Rightarrow> bytes \<Rightarrow> Request" where
  "two_item_request ident hf z =
     (fresh_request None 0 1 (two_item_message ident) 1 WAITING 6)\<lparr>block_hashes := [hf (z, [5, 6, 7, 8], None)]\<rparr>"

lemma two_item_sel [simp]:
  "all_token_ids (two_item_request x hf z) = [5, 6, 7, 8, 0, 0]" "mm_features (two_item_request x hf z) = two_items x"
  "block_hashes (two_item_request x hf z) = [hf (z, [5, 6, 7, 8], None)]"
  "lora_request (two_item_request x hf z) = None" "cache_salt (two_item_request x hf z) = None"
  "prompt_embeds (two_item_request x hf z) = None"
  by (simp_all add: two_item_request_def fresh_request_def two_item_message_def text_message_def
      initial_token_ids_def)

lemma two_item_scan: "mm_scan (two_items x) 4 8 1 [] = ([KItem ''last'' 1], 2)"
  by (subst mm_scan.simps, subst mm_scan.simps) (simp add: two_items_def)

lemma two_item_resume:
  assumes "r = (two_item_request x hf z)\<lparr>output_token_ids := o1, all_token_ids := [5, 6, 7, 8, 0, 0, a, b]\<rparr>"
  shows "request_block_hasher sha hf z 4 r =
     Some (Inr ([hf (parent_of z (Some (hf (z, [5, 6, 7, 8], None))), [0, 0, a, b], Some [KItem ''last'' 1])], r))"
proof -
  have r: "all_token_ids r = [5, 6, 7, 8, 0, 0, a, b]" "mm_features r = two_items x" "lora_request r = None"
    "cache_salt r = None" "prompt_embeds r = None" "block_hashes r = [hf (z, [5, 6, 7, 8], None)]"
    using assms by simp_all
  have "generate_block_hash_extra_keys sha r 4 8 (- 1) = Inr (Some [KItem ''last'' 1], 2, r)"
    using two_item_scan [of x]
    by (simp add: generate_block_hash_extra_keys_def gen_mm_extra_hash_keys_def r
        gen_lora_extra_hash_keys_def gen_prompt_embeds_extra_hash_keys_def two_items_def)
  then have "hash_loop sha hf z 4 r 4 (- 1) prev [] =
      Some (Inr ([hf (parent_of z prev, [0, 0, a, b], Some [KItem ''last'' 1])], r))" for prev
    by (subst hash_loop.simps)
       (simp add: Let_def hash_loop_done hash_block_tokens_def parent_of_def py_slice_def slice_bound_def r)
  then show ?thesis by (simp add: request_block_hasher_def r)
qed

theorem resumed_hash_drops_item:
  "mm_sorted (two_items x) \<and> hashes_complete sha hf z 4 (two_item_request x hf z) \<and>
   (\<exists>rx ry.
      append_output_token_ids (Some (request_block_hasher sha hf z 4)) [a, b] (two_item_request x hf z) = Some (Inr rx) \<and>
      append_output_token_ids (Some (request_block_hasher sha hf z 4)) [a, b] (two_item_request y hf z) = Some (Inr ry) \<and>
      length (block_hashes rx) = 2 \<and> block_hashes rx = block_hashes ry \<and>
      map mm_identifier (mm_features rx) = [x, ''last''] \<and> map mm_identifier (mm_features ry) = [y, ''last''] \<and>
      block_extra_keys sha rx 4 8 = Some [KItem x 0, KItem ''last'' 1])"
proof -
  have "mm_sorted (two_items x)" by (simp add: two_items_def mm_sorted_def)
  moreover have "hashes_complete sha hf z 4 (two_item_request x hf z)"
    by (simp add: hashes_complete_def hash_inputs_def block_content_def block_extra_keys_def parent_of_def
        gen_lora_extra_hash_keys_def overlaps_def two_items_def)
  ultimately show ?thesis
    by (simp add: append_output_token_ids_def update_block_hashes_def two_item_resume [OF refl])
       (simp add: two_items_def block_extra_keys_def gen_lora_extra_hash_keys_def overlaps_def item_key_def)
qed

text \<open>
  C34.  The adapter name and the cache salt share one namespace: the first block of a request under the
  LoRA adapter \<open>x\<close> has the same hash input as the first block of a base-model request with the same
  tokens and the salt \<open>x\<close>, so the cache serves one to the other.
\<close>

theorem lora_name_collides_with_salt:
  "let base = text_request (t # ts) [];
       lora = base\<lparr>lora_request := Some \<lparr>lora_name = c # x, lora_int_id = k\<rparr>\<rparr>;
       salted = base\<lparr>cache_salt := Some (c # x)\<rparr>
   in hash_inputs sha hf z h lora 1 = hash_inputs sha hf z h salted 1 \<and>
      generate_block_hash_extra_keys sha lora 0 (int h) 0 = Inr (Some [KStr (c # x)], 0, lora) \<and>
      generate_block_hash_extra_keys sha salted 0 (int h) 0 = Inr (Some [KStr (c # x)], 0, salted)"
proof -
  let ?base = "text_request (t # ts) []"
  let ?l = "?base\<lparr>lora_request := Some \<lparr>lora_name = c # x, lora_int_id = k\<rparr>\<rparr>"
    and ?s = "?base\<lparr>cache_salt := Some (c # x)\<rparr>"
  have "block_content sha h ?l 0 = block_content sha h ?s 0"
    by (rule lora_salt_first_block [where l = "\<lparr>lora_name = c # x, lora_int_id = k\<rparr>"]) simp_all
  then show ?thesis
    by (simp add: Let_def hash_inputs_def generate_block_hash_extra_keys_def gen_mm_extra_hash_keys_def
        gen_lora_extra_hash_keys_def gen_prompt_embeds_extra_hash_keys_def)
qed

end
