(* ===== verification/Block_Map.thy ===== *)
theory Block_Map
  imports Vllm_Prelude
begin

text \<open>
  The index from block hashes to cached blocks (\<^verbatim>\<open>BlockHashToBlockMap\<close> of
  \<^verbatim>\<open>vllm/v1/core/block_pool.py\<close>).  An entry is a single block or, when several blocks carry the
  same hash, a dictionary by block id.

  Blocks are values of any type \<open>'b\<close>; \<open>bid\<close> reads their \<^verbatim>\<open>block_id\<close> attribute.  The locale
  \<open>block_index\<close> is what the block pool relies on: the relation \<open>has key i\<close> between keys and ids, and
  how each operation changes it.
\<close>

section \<open>Operations\<close>

datatype 'b map_entry = OneBlock 'b | ManyBlocks "(int, 'b) dict"

type_synonym ('k, 'b) block_map = "('k, 'b map_entry) dict"

definition get_one_block :: "('k, 'b) block_map \<Rightarrow> 'k \<Rightarrow> 'b option result" where
  "get_one_block m key =
     (case dict_get m key of
        None \<Rightarrow> Inr None
      | Some (OneBlock b) \<Rightarrow> Inr (Some b)
      | Some (ManyBlocks d) \<Rightarrow>
          (case d of [] \<Rightarrow> Inl StopIteration | (i, b) # _ \<Rightarrow> Inr (Some b)))"

definition contain :: "('b \<Rightarrow> int) \<Rightarrow> ('k, 'b) block_map \<Rightarrow> 'k \<Rightarrow> int \<Rightarrow> bool" where
  "contain bid m key block_id =
     (case dict_get m key of
        None \<Rightarrow> False
      | Some (OneBlock b) \<Rightarrow> bid b = block_id
      | Some (ManyBlocks d) \<Rightarrow> dict_get d block_id \<noteq> None)"

definition insert_block :: "('b \<Rightarrow> int) \<Rightarrow> 'k \<Rightarrow> 'b \<Rightarrow> ('k, 'b) block_map \<Rightarrow> ('k, 'b) block_map" where
  "insert_block bid key b m =
     (case dict_get m key of
        None \<Rightarrow> dict_set key (OneBlock b) m
      | Some (OneBlock b0) \<Rightarrow> dict_set key (ManyBlocks (dict_set (bid b) b [(bid b0, b0)])) m
      | Some (ManyBlocks d) \<Rightarrow> dict_set key (ManyBlocks (dict_set (bid b) b d)) m)"

definition pop_block ::
    "('b \<Rightarrow> int) \<Rightarrow> 'k \<Rightarrow> int \<Rightarrow> ('k, 'b) block_map \<Rightarrow> 'b option \<times> ('k, 'b) block_map" where
  "pop_block bid key block_id m =
     (case dict_get m key of
        None \<Rightarrow> (None, m)
      | Some (OneBlock b) \<Rightarrow>
          let m = dict_del key m in
          if bid b = block_id then (Some b, m) else (None, dict_set key (OneBlock b) m)
      | Some (ManyBlocks d) \<Rightarrow>
          let m = dict_del key m; block = dict_get d block_id; d = dict_del block_id d in
          (block, if d \<noteq> [] then dict_set key (ManyBlocks d) m else m))"

definition map_len :: "('k, 'b) block_map \<Rightarrow> int" where
  "map_len m = int (length m)"

section \<open>Well-formedness\<close>

fun entry_ok :: "('b \<Rightarrow> int) \<Rightarrow> 'b map_entry \<Rightarrow> bool" where
  "entry_ok bid (OneBlock b) = True"
| "entry_ok bid (ManyBlocks d) = (d \<noteq> [] \<and> dict_ok d \<and> (\<forall>(i, b) \<in> set d. bid b = i))"

definition map_ok :: "('b \<Rightarrow> int) \<Rightarrow> ('k, 'b) block_map \<Rightarrow> bool" where
  "map_ok bid m \<longleftrightarrow> dict_ok m \<and> (\<forall>(k, e) \<in> set m. entry_ok bid e)"

lemma map_ok_Nil [simp]: "map_ok bid []"
  by (simp add: map_ok_def)

lemma contain_Nil [simp]: "\<not> contain bid [] k i"
  by (simp add: contain_def)

lemma map_ok_entry: "map_ok bid m \<Longrightarrow> dict_get m k = Some e \<Longrightarrow> entry_ok bid e"
  by (auto simp: map_ok_def dest: map_of_SomeD)

lemma set_dict_set: "x \<in> set (dict_set k v d) \<Longrightarrow> x = (k, v) \<or> x \<in> set d"
  by (induction d) (auto split: if_splits)

lemma set_dict_del: "x \<in> set (dict_del k d) \<Longrightarrow> x \<in> set d"
  by (auto simp: AList.delete_eq)

lemma map_ok_set: "map_ok bid m \<Longrightarrow> entry_ok bid e \<Longrightarrow> map_ok bid (dict_set k e m)"
  by (auto simp: map_ok_def dest!: set_dict_set)

lemma map_ok_del: "map_ok bid m \<Longrightarrow> map_ok bid (dict_del k m)"
  by (auto simp: map_ok_def dest: set_dict_del)

lemma entry_ok_set: "entry_ok bid (ManyBlocks d) \<Longrightarrow> entry_ok bid (ManyBlocks (dict_set (bid b) b d))"
proof -
  assume "entry_ok bid (ManyBlocks d)"
  moreover have "dict_set (bid b) b d \<noteq> []" by (cases d) auto
  ultimately show ?thesis by (auto dest!: set_dict_set)
qed

lemma entry_ok_del: "entry_ok bid (ManyBlocks d) \<Longrightarrow> dict_del i d \<noteq> [] \<Longrightarrow> entry_ok bid (ManyBlocks (dict_del i d))"
  by (auto dest: set_dict_del)

lemma contain_set:
  "contain bid (dict_set k e m) k' i =
     (if k' = k then contain bid [(k, e)] k i else contain bid m k' i)"
  by (simp add: contain_def update_conv')

lemma contain_del: "contain bid (dict_del k m) k' i \<longleftrightarrow> k' \<noteq> k \<and> contain bid m k' i"
  by (simp add: contain_def delete_conv')

lemma insert_block_ok: "map_ok bid m \<Longrightarrow> map_ok bid (insert_block bid key b m)"
proof -
  assume ok: "map_ok bid m"
  show ?thesis
  proof (cases "dict_get m key")
    case None
    with ok show ?thesis by (simp add: insert_block_def map_ok_set)
  next
    case (Some e)
    show ?thesis
    proof (cases e)
      case (OneBlock b0)
      have "entry_ok bid (ManyBlocks [(bid b0, b0)])" by (simp add: dict_ok_def)
      from entry_ok_set [OF this, of b] show ?thesis
        using ok Some OneBlock by (simp add: insert_block_def map_ok_set)
    next
      case (ManyBlocks d)
      with entry_ok_set [of bid d b] show ?thesis
        using ok Some map_ok_entry [OF ok Some] by (simp add: insert_block_def map_ok_set)
    qed
  qed
qed

lemma insert_block_contain:
  "contain bid (insert_block bid key b m) k i \<longleftrightarrow> contain bid m k i \<or> k = key \<and> i = bid b"
  by (auto simp: insert_block_def contain_set contain_def update_conv' split: option.splits map_entry.splits)

lemma pop_block_ok: "map_ok bid m \<Longrightarrow> map_ok bid (snd (pop_block bid key i m))"
proof -
  assume ok: "map_ok bid m"
  show ?thesis
  proof (cases "dict_get m key")
    case None
    with ok show ?thesis by (simp add: pop_block_def)
  next
    case (Some e)
    then show ?thesis
      using ok map_ok_entry [OF ok Some] entry_ok_del [of bid _ i]
      by (cases e) (simp_all add: pop_block_def Let_def map_ok_set map_ok_del)
  qed
qed

lemma dict_del_neq_Nil: "dict_get d k' \<noteq> None \<Longrightarrow> k' \<noteq> k \<Longrightarrow> dict_del k d \<noteq> []"
  by (metis delete_conv' fun_upd_other map_of.simps(1))

lemma pop_block_contain:
  "contain bid (snd (pop_block bid key i m)) k j \<longleftrightarrow> contain bid m k j \<and> \<not> (k = key \<and> j = i)"
proof (cases "dict_get m key")
  case None
  then show ?thesis by (auto simp: pop_block_def contain_def)
next
  case (Some e)
  show ?thesis
  proof (cases e)
    case (OneBlock b)
    with Some show ?thesis
      by (auto simp: pop_block_def Let_def contain_set contain_del contain_def delete_conv' update_conv')
  next
    case (ManyBlocks d)
    show ?thesis
    proof (cases "dict_del i d = []")
      case True
      then have "dict_get d j = None" if "j \<noteq> i" for j using dict_del_neq_Nil [of d j i] that by blast
      with Some ManyBlocks True show ?thesis
        by (auto simp: pop_block_def Let_def contain_del contain_def delete_conv')
    next
      case False
      with Some ManyBlocks show ?thesis
        by (auto simp: pop_block_def Let_def contain_set contain_del contain_def delete_conv' update_conv')
    qed
  qed
qed

lemma pop_block_found: "map_ok bid m \<Longrightarrow> fst (pop_block bid key i m) \<noteq> None \<longleftrightarrow> contain bid m key i"
  by (auto simp: pop_block_def contain_def Let_def split: option.splits map_entry.splits)

lemma get_one_block_total: "map_ok bid m \<Longrightarrow> \<exists>x. get_one_block m key = Inr x"
  by (auto simp: get_one_block_def split: option.splits map_entry.splits list.splits dest!: map_ok_entry)

lemma get_one_block_Some: "map_ok bid m \<Longrightarrow> get_one_block m key = Inr (Some b) \<Longrightarrow> contain bid m key (bid b)"
  by (auto simp: get_one_block_def contain_def split: option.splits map_entry.splits list.splits dest!: map_ok_entry)

lemma get_one_block_None: "map_ok bid m \<Longrightarrow> get_one_block m key = Inr None \<Longrightarrow> \<not> contain bid m key i"
  by (auto simp: get_one_block_def contain_def split: option.splits map_entry.splits list.splits)

section \<open>The contract\<close>

locale block_index =
  fixes ok :: "'m \<Rightarrow> bool"
    and empty :: 'm
    and has :: "'m \<Rightarrow> 'k \<Rightarrow> int \<Rightarrow> bool"
    and ident :: "'b \<Rightarrow> int"
    and look_up :: "'m \<Rightarrow> 'k \<Rightarrow> 'b option result"
    and add :: "'k \<Rightarrow> 'b \<Rightarrow> 'm \<Rightarrow> 'm"
    and drop_out :: "'k \<Rightarrow> int \<Rightarrow> 'm \<Rightarrow> 'b option \<times> 'm"
  assumes ok_empty: "ok empty" and has_empty: "\<not> has empty k i"
    and ok_add: "ok m \<Longrightarrow> ok (add k b m)"
    and has_add: "has (add k b m) k' i \<longleftrightarrow> has m k' i \<or> k' = k \<and> i = ident b"
    and ok_drop: "ok m \<Longrightarrow> ok (snd (drop_out k i m))"
    and has_drop: "has (snd (drop_out k i m)) k' j \<longleftrightarrow> has m k' j \<and> \<not> (k' = k \<and> j = i)"
    and dropped: "ok m \<Longrightarrow> fst (drop_out k i m) \<noteq> None \<longleftrightarrow> has m k i"
    and look_up_total: "ok m \<Longrightarrow> \<exists>x. look_up m k = Inr x"
    and look_up_Some: "ok m \<Longrightarrow> look_up m k = Inr (Some b) \<Longrightarrow> has m k (ident b)"
    and look_up_None: "ok m \<Longrightarrow> look_up m k = Inr None \<Longrightarrow> \<not> has m k i"
begin

lemma look_up_iff:
  assumes "ok m" shows "(\<exists>b. look_up m k = Inr (Some b)) \<longleftrightarrow> (\<exists>i. has m k i)"
proof -
  obtain x where x: "look_up m k = Inr x" using look_up_total [OF assms] by blast
  show ?thesis
  proof (cases x)
    case None
    with x look_up_None [OF assms] show ?thesis by auto
  next
    case (Some b)
    with x look_up_Some [OF assms] show ?thesis by auto
  qed
qed

lemma look_up_add: "ok m \<Longrightarrow> \<exists>c. look_up (add k b m) k = Inr (Some c)"
  using look_up_iff [OF ok_add] has_add by blast

text \<open>Removing the last block of a key makes the key a miss.\<close>

lemma look_up_drop_last:
  assumes "ok m" and "\<And>j. has m k j \<Longrightarrow> j = i"
  shows "look_up (snd (drop_out k i m)) k = Inr None"
proof -
  have "\<not> has (snd (drop_out k i m)) k j" for j using assms(2) by (auto simp: has_drop)
  then show ?thesis
    using look_up_total [OF ok_drop [OF assms(1)], of k i k] look_up_iff [OF ok_drop [OF assms(1)], of k i k]
    by (metis option.exhaust)
qed

text \<open>Dropping a list of keys of one block, as eviction does.\<close>

lemma has_fold_drop:
  "has (fold (\<lambda>k m. snd (drop_out k i m)) ks m) k' j \<longleftrightarrow> has m k' j \<and> \<not> (k' \<in> set ks \<and> j = i)"
  by (induction ks arbitrary: m) (auto simp: has_drop)

lemma ok_fold_drop: "ok m \<Longrightarrow> ok (fold (\<lambda>k m. snd (drop_out k i m)) ks m)"
  by (induction ks arbitrary: m) (auto simp: ok_drop)

end

interpretation bi: block_index "map_ok bid" "[]" "contain bid" bid get_one_block "insert_block bid" "pop_block bid"
  for bid :: "'b \<Rightarrow> int"
  by (rule block_index.intro)
     (rule map_ok_Nil contain_Nil insert_block_ok insert_block_contain pop_block_ok pop_block_contain
        pop_block_found get_one_block_total get_one_block_Some get_one_block_None; assumption)+

section \<open>Properties\<close>

text \<open>
  The index finds a block for a key exactly when some block was inserted under it and not popped
  since: insertion adds one pair, a pop removes one pair and reports whether it was there, and a
  lookup never fails on the dictionaries the operations build.
\<close>

theorem block_map_contract:
  assumes "map_ok bid m"
  shows "map_ok bid (insert_block bid k b m) \<and> map_ok bid (snd (pop_block bid k i m)) \<and>
    (\<forall>k' j. contain bid (insert_block bid k b m) k' j \<longleftrightarrow> contain bid m k' j \<or> k' = k \<and> j = bid b) \<and>
    (\<forall>k' j. contain bid (snd (pop_block bid k i m)) k' j \<longleftrightarrow> contain bid m k' j \<and> \<not> (k' = k \<and> j = i)) \<and>
    (fst (pop_block bid k i m) \<noteq> None \<longleftrightarrow> contain bid m k i) \<and>
    (\<exists>x. get_one_block m k = Inr x) \<and>
    ((\<exists>c. get_one_block m k = Inr (Some c)) \<longleftrightarrow> (\<exists>j. contain bid m k j))"
  by (intro conjI allI bi.ok_add [OF assms] bi.ok_drop [OF assms] bi.has_add bi.has_drop
      bi.dropped [OF assms] bi.look_up_total [OF assms] bi.look_up_iff [OF assms])

theorem block_map_contract_witness:
  "contain id (snd (pop_block id ''k'' 3 (insert_block id ''k'' 3 (insert_block id ''k'' 5 [])))) ''k'' 5 \<and>
   \<not> contain id (snd (pop_block id ''k'' 3 (insert_block id ''k'' 3 (insert_block id ''k'' 5 [])))) ''k'' 3"
proof -
  have "map_ok id (insert_block id ''k'' 3 (insert_block id ''k'' 5 []))" by (simp add: insert_block_ok)
  note c = block_map_contract [OF this, of "''k''" 3 3]
  have "contain id (insert_block id ''k'' 3 (insert_block id ''k'' 5 [])) ''k'' 5"
    by (simp add: insert_block_contain)
  with c show ?thesis by auto
qed

end
