(* ===== verification/Kv_Metrics.thy ===== *)
theory Kv_Metrics
  imports Complex_Main Vllm_Prelude
begin

text \<open>
  Residency metrics of KV cache blocks (\<^verbatim>\<open>vllm/v1/core/kv_cache_metrics.py\<close>).

  The clock \<^verbatim>\<open>time.monotonic_ns\<close> and the generator \<^verbatim>\<open>random.random\<close> are streams in the collector's
  record: each reading takes the next element.  Seconds, Python floats, are rational numbers.
\<close>

record BlockMetricsState =
  birth_time_ns :: int
  last_access_ns :: int
  access_history :: "int list"

record KVCacheEvictionEvent =
  lifetime_seconds :: rat
  idle_seconds :: rat
  reuse_gaps_seconds :: "rat list"

record KVCacheMetricsCollector =
  sample_rate :: rat
  block_metrics :: "(int, BlockMetricsState) dict"
  eviction_events :: "KVCacheEvictionEvent list"
  clock :: "nat \<Rightarrow> int"
  clock_reads :: nat
  random_stream :: "nat \<Rightarrow> rat"
  random_draws :: nat

section \<open>Operations\<close>

definition monotonic_ns :: "KVCacheMetricsCollector \<Rightarrow> int \<times> KVCacheMetricsCollector" where
  "monotonic_ns c = (clock c (clock_reads c), c\<lparr>clock_reads := Suc (clock_reads c)\<rparr>)"

definition BlockMetricsState_init :: "int \<Rightarrow> BlockMetricsState" where
  "BlockMetricsState_init now_ns =
     \<lparr>birth_time_ns = now_ns, last_access_ns = now_ns, access_history = []\<rparr>"

text \<open>\<^verbatim>\<open>deque(maxlen=4).append\<close> drops the oldest element when the deque is full.\<close>

definition history_append :: "int \<Rightarrow> int list \<Rightarrow> int list" where
  "history_append x h = (let h = h @ [x] in drop (length h - 4) h)"

definition record_access :: "int \<Rightarrow> BlockMetricsState \<Rightarrow> BlockMetricsState" where
  "record_access now_ns m =
     m\<lparr>last_access_ns := now_ns, access_history := history_append now_ns (access_history m)\<rparr>"

definition ns_to_seconds :: "int \<Rightarrow> rat" where
  "ns_to_seconds n = of_int n / 1000000000"

definition get_lifetime_seconds :: "int \<Rightarrow> BlockMetricsState \<Rightarrow> rat" where
  "get_lifetime_seconds now_ns m = ns_to_seconds (now_ns - birth_time_ns m)"

definition get_idle_time_seconds :: "int \<Rightarrow> BlockMetricsState \<Rightarrow> rat" where
  "get_idle_time_seconds now_ns m = ns_to_seconds (now_ns - last_access_ns m)"

definition get_reuse_gaps_seconds :: "BlockMetricsState \<Rightarrow> rat list" where
  "get_reuse_gaps_seconds m =
     (let history = access_history m in
      if length history < 2 then []
      else map (\<lambda>i. ns_to_seconds (history ! i - history ! (i - 1))) [1..<length history])"

definition KVCacheMetricsCollector_init ::
    "rat \<Rightarrow> (nat \<Rightarrow> int) \<Rightarrow> (nat \<Rightarrow> rat) \<Rightarrow> KVCacheMetricsCollector result" where
  "KVCacheMetricsCollector_init rate ck rnd =
     and_then (py_assert (0 < rate \<and> rate \<le> 1)) (\<lambda>_. Inr
       \<lparr>sample_rate = rate, block_metrics = [], eviction_events = [],
        clock = ck, clock_reads = 0, random_stream = rnd, random_draws = 0\<rparr>)"

definition should_sample_block :: "KVCacheMetricsCollector \<Rightarrow> bool \<times> KVCacheMetricsCollector" where
  "should_sample_block c =
     (random_stream c (random_draws c) < sample_rate c, c\<lparr>random_draws := Suc (random_draws c)\<rparr>)"

definition on_block_allocated :: "int \<Rightarrow> KVCacheMetricsCollector \<Rightarrow> KVCacheMetricsCollector" where
  "on_block_allocated block_id c =
     (let (b, c) = should_sample_block c in
      if b then
        let (now_ns, c) = monotonic_ns c
        in c\<lparr>block_metrics := dict_set block_id (BlockMetricsState_init now_ns) (block_metrics c)\<rparr>
      else c)"

definition on_block_accessed :: "int \<Rightarrow> KVCacheMetricsCollector \<Rightarrow> KVCacheMetricsCollector" where
  "on_block_accessed block_id c =
     (case dict_get (block_metrics c) block_id of
        None \<Rightarrow> c
      | Some m \<Rightarrow>
          let (now_ns, c) = monotonic_ns c
          in c\<lparr>block_metrics := dict_set block_id (record_access now_ns m) (block_metrics c)\<rparr>)"

definition on_block_evicted :: "int \<Rightarrow> KVCacheMetricsCollector \<Rightarrow> KVCacheMetricsCollector" where
  "on_block_evicted block_id c =
     (case dict_get (block_metrics c) block_id of
        None \<Rightarrow> c
      | Some m \<Rightarrow>
          let c = c\<lparr>block_metrics := dict_del block_id (block_metrics c)\<rparr>;
              (t1, c) = monotonic_ns c;
              (t2, c) = monotonic_ns c
          in c\<lparr>eviction_events := eviction_events c @
                 [\<lparr>lifetime_seconds = get_lifetime_seconds t1 m,
                   idle_seconds = get_idle_time_seconds t2 m,
                   reuse_gaps_seconds = get_reuse_gaps_seconds m\<rparr>]\<rparr>)"

definition reset_metrics :: "KVCacheMetricsCollector \<Rightarrow> KVCacheMetricsCollector" where
  "reset_metrics c = c\<lparr>block_metrics := [], eviction_events := []\<rparr>"

definition drain_events ::
    "KVCacheMetricsCollector \<Rightarrow> KVCacheEvictionEvent list \<times> KVCacheMetricsCollector" where
  "drain_events c = (eviction_events c, c\<lparr>eviction_events := []\<rparr>)"

section \<open>What the metrics mean\<close>

text \<open>The times recorded for a block, the last reading of the clock being at most \<open>now\<close>.\<close>

definition metrics_ok :: "int \<Rightarrow> BlockMetricsState \<Rightarrow> bool" where
  "metrics_ok now m \<longleftrightarrow>
     birth_time_ns m \<le> last_access_ns m \<and> last_access_ns m \<le> now \<and>
     sorted (access_history m) \<and> (\<forall>t \<in> set (access_history m). t \<le> last_access_ns m) \<and>
     length (access_history m) \<le> 4"

definition event_ok :: "KVCacheEvictionEvent \<Rightarrow> bool" where
  "event_ok ev \<longleftrightarrow> 0 \<le> lifetime_seconds ev \<and> 0 \<le> idle_seconds ev \<and>
     (\<forall>g \<in> set (reuse_gaps_seconds ev). 0 \<le> g) \<and> length (reuse_gaps_seconds ev) \<le> 3"

definition collector_ok :: "KVCacheMetricsCollector \<Rightarrow> bool" where
  "collector_ok c \<longleftrightarrow> dict_ok (block_metrics c) \<and>
     (\<forall>i m. dict_get (block_metrics c) i = Some m \<longrightarrow> (\<forall>k \<ge> clock_reads c. metrics_ok (clock c k) m)) \<and>
     (\<forall>ev \<in> set (eviction_events c). event_ok ev)"

lemma ns_to_seconds_nonneg: "0 \<le> n \<Longrightarrow> 0 \<le> ns_to_seconds n"
  by (simp add: ns_to_seconds_def)

lemma history_append_subset: "set (history_append x h) \<subseteq> insert x (set h)"
  by (auto simp: history_append_def Let_def dest: in_set_dropD)

lemma history_append_length: "length (history_append x h) \<le> 4"
  by (simp add: history_append_def Let_def)

lemma history_append_sorted:
  "sorted h \<Longrightarrow> (\<And>t. t \<in> set h \<Longrightarrow> t \<le> x) \<Longrightarrow> sorted (history_append x h)"
  unfolding history_append_def Let_def by (intro sorted_wrt_drop) (simp add: sorted_append)

lemma record_access_ok:
  assumes "metrics_ok now m" and "now \<le> later" shows "metrics_ok later (record_access now m)"
proof -
  have "t \<le> now" if "t \<in> set (access_history m)" for t using assms(1) that by (force simp: metrics_ok_def)
  then show ?thesis
    using assms history_append_subset [of now "access_history m"] history_append_length
    by (auto simp: metrics_ok_def record_access_def history_append_sorted)
qed

lemma gaps_nonneg: "sorted (access_history m) \<Longrightarrow> g \<in> set (get_reuse_gaps_seconds m) \<Longrightarrow> 0 \<le> g"
  by (auto simp: get_reuse_gaps_seconds_def Let_def sorted_nth_mono intro!: ns_to_seconds_nonneg split: if_splits)

lemma eviction_event_ok:
  assumes "metrics_ok t1 m" and "metrics_ok t2 m"
  shows "event_ok \<lparr>lifetime_seconds = get_lifetime_seconds t1 m, idle_seconds = get_idle_time_seconds t2 m,
    reuse_gaps_seconds = get_reuse_gaps_seconds m\<rparr>"
proof -
  have "length (get_reuse_gaps_seconds m) \<le> 3"
    using assms(1) by (auto simp: get_reuse_gaps_seconds_def Let_def metrics_ok_def)
  moreover have "sorted (access_history m)" using assms(1) by (simp add: metrics_ok_def)
  ultimately show ?thesis
    using assms gaps_nonneg
    by (auto simp: event_ok_def metrics_ok_def get_lifetime_seconds_def get_idle_time_seconds_def
        intro!: ns_to_seconds_nonneg)
qed

lemma on_block_allocated_ok:
  assumes "mono (clock c)" and "collector_ok c" shows "collector_ok (on_block_allocated i c)"
proof -
  have "metrics_ok (clock c k) (BlockMetricsState_init (clock c (clock_reads c)))" if "clock_reads c < k" for k
    using monoD [OF assms(1), of "clock_reads c" k] that by (simp add: metrics_ok_def BlockMetricsState_init_def)
  then show ?thesis
    using assms(2)
    by (auto simp: collector_ok_def on_block_allocated_def should_sample_block_def monotonic_ns_def
        update_conv' split: if_splits)
qed

lemma on_block_accessed_ok:
  assumes "mono (clock c)" and "collector_ok c" shows "collector_ok (on_block_accessed i c)"
proof (cases "dict_get (block_metrics c) i")
  case None
  with assms(2) show ?thesis by (simp add: on_block_accessed_def)
next
  case (Some m)
  have "metrics_ok (clock c k) (record_access (clock c (clock_reads c)) m)" if "clock_reads c < k" for k
    using monoD [OF assms(1), of "clock_reads c" k] that Some assms(2)
    by (intro record_access_ok) (auto simp: collector_ok_def)
  then show ?thesis
    using assms(2) Some
    by (auto simp: collector_ok_def on_block_accessed_def monotonic_ns_def update_conv' split: if_splits)
qed

lemma on_block_evicted_ok:
  assumes "collector_ok c" shows "collector_ok (on_block_evicted i c)"
proof (cases "dict_get (block_metrics c) i")
  case None
  with assms show ?thesis by (simp add: on_block_evicted_def)
next
  case (Some m)
  then have "metrics_ok (clock c k) m" if "clock_reads c \<le> k" for k
    using assms that by (auto simp: collector_ok_def)
  then have "event_ok \<lparr>lifetime_seconds = get_lifetime_seconds (clock c (clock_reads c)) m,
      idle_seconds = get_idle_time_seconds (clock c (Suc (clock_reads c))) m,
      reuse_gaps_seconds = get_reuse_gaps_seconds m\<rparr>"
    by (intro eviction_event_ok) auto
  then show ?thesis
    using assms Some
    by (auto simp: collector_ok_def on_block_evicted_def monotonic_ns_def delete_conv' split: if_splits)
qed

lemma on_block_evicted_untracked: "dict_get (block_metrics (on_block_evicted i c)) i = None"
  by (auto simp: on_block_evicted_def monotonic_ns_def delete_conv' split: option.splits)

lemma drain_events_ok: "collector_ok c \<Longrightarrow> collector_ok (snd (drain_events c))"
  by (auto simp: drain_events_def collector_ok_def)

lemma reset_metrics_ok: "collector_ok c \<Longrightarrow> collector_ok (reset_metrics c)"
  by (auto simp: reset_metrics_def collector_ok_def)

section \<open>Properties\<close>

datatype metrics_call = Allocated int | Accessed int | Evicted int | Drained | MetricsReset

fun metrics_step :: "metrics_call \<Rightarrow> KVCacheMetricsCollector \<Rightarrow> KVCacheMetricsCollector" where
  "metrics_step (Allocated i) c = on_block_allocated i c"
| "metrics_step (Accessed i) c = on_block_accessed i c"
| "metrics_step (Evicted i) c = on_block_evicted i c"
| "metrics_step Drained c = snd (drain_events c)"
| "metrics_step MetricsReset c = reset_metrics c"

lemma metrics_step_clock: "clock (metrics_step call c) = clock c"
  by (cases call) (auto simp: on_block_allocated_def should_sample_block_def on_block_accessed_def
      on_block_evicted_def monotonic_ns_def drain_events_def reset_metrics_def split: option.splits)

lemma metrics_step_ok: "mono (clock c) \<Longrightarrow> collector_ok c \<Longrightarrow> collector_ok (metrics_step call c)"
  by (cases call) (simp_all add: on_block_allocated_ok on_block_accessed_ok on_block_evicted_ok
      drain_events_ok reset_metrics_ok)

lemma metrics_fold_ok:
  "mono (clock c) \<Longrightarrow> collector_ok c \<Longrightarrow> collector_ok (fold metrics_step calls c)"
  by (induction calls arbitrary: c) (simp_all add: metrics_step_ok metrics_step_clock)

text \<open>
  With a clock that never goes back, every sequence of callbacks keeps the collector consistent: a
  tracked block was last accessed between its birth and now, its history is sorted and has at most
  four entries, and every eviction event reports a non-negative lifetime, idle time and gaps, at most
  three gaps.
\<close>

theorem metrics_consistent:
  assumes "mono ck" and "KVCacheMetricsCollector_init rate ck rnd = Inr c"
  shows "collector_ok (fold metrics_step calls c)"
  using assms by (intro metrics_fold_ok) (auto simp: KVCacheMetricsCollector_init_def result_simps collector_ok_def)

theorem metrics_consistent_witness:
  "\<exists>c. KVCacheMetricsCollector_init 1 int (\<lambda>_. 0) = Inr c \<and>
     collector_ok (fold metrics_step [Allocated 1, Accessed 1, Evicted 1] c)"
proof -
  obtain c where "KVCacheMetricsCollector_init 1 int (\<lambda>_. 0) = Inr c"
    by (simp add: KVCacheMetricsCollector_init_def)
  with metrics_consistent [of int 1 "\<lambda>_. 0" c "[Allocated 1, Accessed 1, Evicted 1]"] show ?thesis
    by (auto simp: mono_def)
qed

end
