(* ===== verification/Block_Pool.thy ===== *)
theory Block_Pool
  imports "HOL-Library.Multiset" Free_Block_Queue Block_Hash Block_Map Kv_Metrics
begin

text \<open>
  The block pool (\<^verbatim>\<open>BlockPool\<close> of \<^verbatim>\<open>vllm/v1/core/block_pool.py\<close>): allocation, reference counts,
  prefix-cache registration and eviction, and the KV cache events it publishes.

  The state extends the free queue, whose store holds the block objects.  \<open>Blk i\<close> is the \<open>i\<close>-th
  element of \<^verbatim>\<open>self.blocks\<close>.  A Python set of hash keys is a list in insertion order.  The digest of
  prompt embeddings \<open>sha\<close> and the switch \<open>use_int\<close> for integer hashes in events are parameters.
\<close>

section \<open>State\<close>

record BlockStored =
  bs_block_hashes :: "ExternalBlockHash list"
  bs_parent_block_hash :: "ExternalBlockHash option"
  bs_token_ids :: "int list"
  bs_block_size :: int
  bs_lora_id :: "int option"
  bs_lora_name :: "string option"
  bs_extra_keys :: "extra_key list option list option"
  bs_group_idx :: int

datatype KVCacheEvent =
    EvStored BlockStored
  | EvRemoved "ExternalBlockHash list" int
  | AllBlocksCleared

record block_pool = free_queue +
  num_gpu_blocks :: int
  enable_caching :: bool
  hash_block_size :: int
  cached_block_hash_to_block :: "(bytes, block_ref) block_map"
  cached_block_hashes_by_block :: "(int, bytes list) dict"
  null_block :: block_ref
  enable_kv_cache_events :: bool
  kv_event_queue :: "KVCacheEvent list"
  metrics_collector :: "KVCacheMetricsCollector option"

abbreviation bid :: "block_pool \<Rightarrow> block_ref \<Rightarrow> int" where
  "bid s \<equiv> \<lambda>r. block_id (blk s r)"

text \<open>\<^verbatim>\<open>self.blocks\<close>\<close>

definition blocks_of :: "block_pool \<Rightarrow> block_ref list" where
  "blocks_of s = map Blk [0..<nat (num_gpu_blocks s)]"

definition with_metrics ::
    "(int \<Rightarrow> KVCacheMetricsCollector \<Rightarrow> KVCacheMetricsCollector) \<Rightarrow> block_ref \<Rightarrow> block_pool \<Rightarrow> block_pool" where
  "with_metrics f b s =
     (case metrics_collector s of
        None \<Rightarrow> s
      | Some c \<Rightarrow> s\<lparr>metrics_collector := Some (f (bid s b) c)\<rparr>)"

definition push_event :: "KVCacheEvent \<Rightarrow> block_pool \<Rightarrow> block_pool" where
  "push_event e s = s\<lparr>kv_event_queue := kv_event_queue s @ [e]\<rparr>"

section \<open>Construction\<close>

definition BlockPool_init ::
    "int \<Rightarrow> bool \<Rightarrow> int \<Rightarrow> bool \<Rightarrow> KVCacheMetricsCollector option \<Rightarrow> block_pool result" where
  "BlockPool_init num_blocks caching hash_bs events metrics =
     and_then (py_assert (num_blocks > 0)) (\<lambda>_.
     let s = \<lparr>blk = (\<lambda>r. case r of Blk i \<Rightarrow> KVCacheBlock_init (int i) | _ \<Rightarrow> KVCacheBlock_init (- 1)),
              num_free_blocks = 0, num_gpu_blocks = num_blocks, enable_caching = caching,
              hash_block_size = hash_bs, cached_block_hash_to_block = [],
              cached_block_hashes_by_block = [], null_block = FakeHead,
              enable_kv_cache_events = events, kv_event_queue = [], metrics_collector = metrics\<rparr>;
         s = FreeKVCacheBlockQueue_init (blocks_of s) s
     in and_then (popleft s) (\<lambda>(nb, s).
        Inr (upd_blk nb (\<lambda>b. b\<lparr>is_null := True\<rparr>) (s\<lparr>null_block := nb\<rparr>))))"

section \<open>Lookup\<close>

fun get_cached_blocks ::
    "bytes \<Rightarrow> int list \<Rightarrow> block_ref list \<Rightarrow> block_pool \<Rightarrow> block_ref list option result" where
  "get_cached_blocks bh [] cached_blocks s = Inr (Some cached_blocks)"
| "get_cached_blocks bh (group_id # gs) cached_blocks s =
     and_then (make_block_hash_with_group_id bh group_id) (\<lambda>key.
     and_then (get_one_block (cached_block_hash_to_block s) key) (\<lambda>block.
     case block of
       None \<Rightarrow> Inr None
     | Some b \<Rightarrow> get_cached_blocks bh gs (cached_blocks @ [b]) s))"

definition get_cached_block ::
    "bytes \<Rightarrow> int list \<Rightarrow> block_pool \<Rightarrow> block_ref list option result" where
  "get_cached_block bh kv_cache_group_ids s = get_cached_blocks bh kv_cache_group_ids [] s"

section \<open>Adding and removing hash keys\<close>

definition pop_key :: "block_ref \<Rightarrow> bytes \<Rightarrow> bytes list \<times> block_pool \<Rightarrow> bytes list \<times> block_pool" where
  "pop_key b key acc =
     (let (removed, s) = acc;
          (found, m) = pop_block (bid s) key (bid s b) (cached_block_hash_to_block s);
          s = s\<lparr>cached_block_hash_to_block := m\<rparr>
      in (if found \<noteq> None then removed @ [key] else removed, s))"

definition remove_cached_block_hashes :: "block_ref \<Rightarrow> block_pool \<Rightarrow> bytes list \<times> block_pool" where
  "remove_cached_block_hashes b s =
     (let first = (case block_hash (blk s b) of None \<Rightarrow> [] | Some h \<Rightarrow> [h]);
          rest = (case dict_get (cached_block_hashes_by_block s) (bid s b) of None \<Rightarrow> [] | Some hs \<Rightarrow> hs);
          s = s\<lparr>cached_block_hashes_by_block := dict_del (bid s b) (cached_block_hashes_by_block s)\<rparr>;
          keys = first @ rest
      in if keys = [] then ([], s)
         else
           let (removed, s) = fold (pop_key b) keys ([], s)
           in (removed, upd_blk b reset_hash s))"

definition removed_event :: "bool \<Rightarrow> bytes \<Rightarrow> KVCacheEvent" where
  "removed_event use_int key =
     EvRemoved [maybe_convert_block_hash use_int (get_block_hash key)] (get_group_id key)"

definition emit_block_removed_events :: "bool \<Rightarrow> bytes list \<Rightarrow> block_pool \<Rightarrow> block_pool" where
  "emit_block_removed_events use_int keys s =
     (if \<not> enable_kv_cache_events s then s
      else fold (\<lambda>key. push_event (removed_event use_int key)) keys s)"

definition insert_block_hash :: "bytes \<Rightarrow> block_ref \<Rightarrow> int option \<Rightarrow> block_pool \<Rightarrow> block_pool result" where
  "insert_block_hash key b n_tokens s =
     (if block_hash (blk s b) = Some key then Inr s
      else if contain (bid s) (cached_block_hash_to_block s) key (bid s b) then Inr s
      else
        and_then
          (if block_hash (blk s b) = None
           then and_then (set_block_hash key n_tokens (blk s b)) (\<lambda>nb. Inr (upd_blk b (\<lambda>_. nb) s))
           else
             let d = cached_block_hashes_by_block s;
                 old = (case dict_get d (bid s b) of None \<Rightarrow> [] | Some hs \<Rightarrow> hs)
             in Inr (s\<lparr>cached_block_hashes_by_block := dict_set (bid s b) (set_add key old) d\<rparr>))
          (\<lambda>s. Inr (s\<lparr>cached_block_hash_to_block :=
                        insert_block (bid s) key b (cached_block_hash_to_block s)\<rparr>)))"

definition move_block_hashes :: "block_ref \<Rightarrow> block_ref \<Rightarrow> block_pool \<Rightarrow> block_pool result" where
  "move_block_hashes src_block dst_block s =
     and_then (py_assert (block_hash (blk s dst_block) = None)) (\<lambda>_.
     and_then (py_assert (dict_get (cached_block_hashes_by_block s) (bid s dst_block) = None)) (\<lambda>_.
     let n_tokens = block_hash_num_tokens (blk s src_block);
         (removed, s) = remove_cached_block_hashes src_block s
     in for_each (\<lambda>key. insert_block_hash key dst_block n_tokens) removed s))"

section \<open>Caching blocks\<close>

definition build_block_stored_event ::
    "Request \<Rightarrow> ExternalBlockHash list \<Rightarrow> ExternalBlockHash option \<Rightarrow> int \<Rightarrow> int \<Rightarrow> int \<Rightarrow> int
     \<Rightarrow> extra_key list option list \<Rightarrow> BlockStored" where
  "build_block_stored_event r hashes parent start_token_idx end_token_idx block_size group_id extra_keys_list =
     \<lparr>bs_block_hashes = hashes, bs_parent_block_hash = parent,
      bs_token_ids = py_slice (all_token_ids r) start_token_idx end_token_idx,
      bs_block_size = block_size, bs_lora_id = map_option lora_int_id (lora_request r),
      bs_lora_name = map_option lora_name (lora_request r),
      bs_extra_keys = (if extra_keys_list = [] then None else Some extra_keys_list),
      bs_group_idx = group_id\<rparr>"

definition masked_out :: "bool list option \<Rightarrow> nat \<Rightarrow> bool" where
  "masked_out block_mask i = (case block_mask of None \<Rightarrow> False | Some m \<Rightarrow> \<not> m ! i)"

definition cache_one_full_block ::
    "bool \<Rightarrow> int \<Rightarrow> int \<Rightarrow> int \<Rightarrow> bool list option \<Rightarrow> bytes list \<Rightarrow> nat \<times> block_ref
     \<Rightarrow> block_pool \<times> ExternalBlockHash list \<Rightarrow> (block_pool \<times> ExternalBlockHash list) result" where
  "cache_one_full_block use_int num_cached_blocks block_size group_id block_mask new_block_hashes = (\<lambda>(i, b) (s, new_hashes).
     if is_null (blk s b) \<or> masked_out block_mask i then Inr (s, new_hashes)
     else
       and_then (py_index new_block_hashes (int i)) (\<lambda>bh.
       let num_hash_tokens = (num_cached_blocks + int i + 1) * block_size in
       and_then (make_block_hash_with_group_id bh group_id) (\<lambda>key.
       and_then
         (if block_hash (blk s b) \<noteq> None then
            and_then (py_assert
              (case block_hash_num_tokens (blk s b) of None \<Rightarrow> False | Some n \<Rightarrow> n < num_hash_tokens)) (\<lambda>_.
            let (removed, s) = remove_cached_block_hashes b s
            in Inr (emit_block_removed_events use_int removed s))
          else Inr s) (\<lambda>s.
       and_then (insert_block_hash key b (Some num_hash_tokens) s) (\<lambda>s.
       Inr (s, if enable_kv_cache_events s
               then new_hashes @ [maybe_convert_block_hash use_int bh] else new_hashes))))))"

definition event_extra_keys ::
    "(bytes \<Rightarrow> bytes) \<Rightarrow> block_ref list \<Rightarrow> int \<Rightarrow> int \<Rightarrow> bool list option \<Rightarrow> block_pool \<Rightarrow> int
     \<Rightarrow> Request \<times> int \<times> extra_key list option list \<Rightarrow> (Request \<times> int \<times> extra_key list option list) result" where
  "event_extra_keys sha blocks num_cached_blocks block_size block_mask s i = (\<lambda>(r, curr_mm_idx, acc).
     and_then (py_index blocks i) (\<lambda>b.
     if is_null (blk s b) \<or> masked_out block_mask (nat (i - num_cached_blocks)) then Inr (r, curr_mm_idx, acc)
     else
       and_then (generate_block_hash_extra_keys sha r (i * block_size) (i * block_size + block_size) curr_mm_idx)
         (\<lambda>(extra_keys, curr_mm_idx, r). Inr (r, curr_mm_idx, acc @ [extra_keys]))))"

text \<open>The last part of \<^verbatim>\<open>cache_full_blocks\<close>: the event for the blocks just cached.\<close>

definition push_stored_event ::
    "(bytes \<Rightarrow> bytes) \<Rightarrow> bool \<Rightarrow> Request \<Rightarrow> block_ref list \<Rightarrow> int \<Rightarrow> int \<Rightarrow> int \<Rightarrow> int \<Rightarrow> bool list option
     \<Rightarrow> block_hash_list \<Rightarrow> ExternalBlockHash list \<Rightarrow> block_pool \<Rightarrow> (Request \<times> block_pool) result" where
  "push_stored_event sha use_int r blocks num_cached_blocks num_full_blocks block_size group_id block_mask hs new_hashes s =
     and_then (if num_cached_blocks = 0 then Inr None
               else and_then (get_value_at hs (num_cached_blocks - 1))
                      (\<lambda>p. Inr (Some (maybe_convert_block_hash use_int p)))) (\<lambda>parent.
     and_then (for_each (event_extra_keys sha blocks num_cached_blocks block_size block_mask s)
                 (py_range num_cached_blocks num_full_blocks) (r, 0, [])) (\<lambda>(r, _, extra_keys_list).
     Inr (r, push_event (EvStored (build_block_stored_event r new_hashes parent
                (num_cached_blocks * block_size) (num_full_blocks * block_size) block_size group_id
                extra_keys_list)) s)))"

definition cache_full_blocks ::
    "(bytes \<Rightarrow> bytes) \<Rightarrow> bool \<Rightarrow> Request \<Rightarrow> block_ref list \<Rightarrow> int \<Rightarrow> int \<Rightarrow> int \<Rightarrow> int \<Rightarrow> bool list option
     \<Rightarrow> block_pool \<Rightarrow> (Request \<times> block_pool) result" where
  "cache_full_blocks sha use_int r blocks num_cached_blocks num_full_blocks block_size group_id block_mask s =
     (if num_cached_blocks \<ge> num_full_blocks then Inr (r, s)
      else
        let new_full_blocks = py_slice blocks num_cached_blocks num_full_blocks in
        and_then (py_assert (case block_mask of None \<Rightarrow> True | Some m \<Rightarrow> length m = length new_full_blocks)) (\<lambda>_.
        and_then (resolve_block_hashes (RawHashes (block_hashes r)) (hash_block_size s) block_size False None) (\<lambda>hs.
        and_then (view_slice_from hs num_cached_blocks) (\<lambda>new_block_hashes.
        and_then (for_each (cache_one_full_block use_int num_cached_blocks block_size group_id block_mask new_block_hashes)
                    (enumerate 0 new_full_blocks) (s, [])) (\<lambda>(s, new_hashes).
        if \<not> enable_kv_cache_events s then Inr (r, s)
        else push_stored_event sha use_int r blocks num_cached_blocks num_full_blocks block_size group_id
               block_mask hs new_hashes s)))))"

definition cached_block_keys ::
    "(bytes \<Rightarrow> bytes) \<Rightarrow> bool \<Rightarrow> int \<Rightarrow> block_hash_list \<Rightarrow> int
     \<Rightarrow> Request \<times> int \<times> ExternalBlockHash list \<times> extra_key list option list
     \<Rightarrow> (Request \<times> int \<times> ExternalBlockHash list \<times> extra_key list option list) result" where
  "cached_block_keys sha use_int block_size hs i = (\<lambda>(r, curr_mm_idx, hashes, acc).
     and_then (get_value_at hs i) (\<lambda>bh.
     and_then (generate_block_hash_extra_keys sha r (i * block_size) (i * block_size + block_size) curr_mm_idx)
       (\<lambda>(extra_keys, curr_mm_idx, r).
        Inr (r, curr_mm_idx, hashes @ [maybe_convert_block_hash use_int bh], acc @ [extra_keys]))))"

definition emit_cached_block_events ::
    "(bytes \<Rightarrow> bytes) \<Rightarrow> bool \<Rightarrow> Request \<Rightarrow> int \<Rightarrow> int \<Rightarrow> int \<Rightarrow> block_pool \<Rightarrow> (Request \<times> block_pool) result" where
  "emit_cached_block_events sha use_int r num_cached_blocks block_size group_id s =
     (if \<not> enable_kv_cache_events s \<or> num_cached_blocks = 0 then Inr (r, s)
      else
        and_then (resolve_block_hashes (RawHashes (block_hashes r)) (hash_block_size s) block_size False None) (\<lambda>hs.
        and_then (for_each (cached_block_keys sha use_int block_size hs)
                    (py_range 0 num_cached_blocks) (r, 0, [], [])) (\<lambda>(r, _, cached_hashes, extra_keys_list).
        if cached_hashes = [] then Inr (r, s)
        else Inr (r, push_event (EvStored (build_block_stored_event r cached_hashes None 0
               (num_cached_blocks * block_size) block_size group_id extra_keys_list)) s))))"

definition get_partial_block_hash :: "Request \<Rightarrow> int \<Rightarrow> block_pool \<Rightarrow> bytes result" where
  "get_partial_block_hash r n_tokens s =
     and_then (and_then (py_mod n_tokens (hash_block_size s)) (\<lambda>m. py_assert (m = 0))) (\<lambda>_.
     let num_hash_blocks = n_tokens div hash_block_size s in
     and_then (py_assert (0 < num_hash_blocks \<and> num_hash_blocks \<le> int (length (block_hashes r)))) (\<lambda>_.
     py_index (block_hashes r) (num_hash_blocks - 1)))"

definition get_partial_block_parent_hash_and_start ::
    "Request \<Rightarrow> int \<Rightarrow> block_pool \<Rightarrow> (bytes option \<times> int) result" where
  "get_partial_block_parent_hash_and_start r n_tokens s =
     (let num_hash_blocks = n_tokens div hash_block_size s in
      and_then (if num_hash_blocks > 1
                then and_then (py_index (block_hashes r) (num_hash_blocks - 2)) (\<lambda>h. Inr (Some h))
                else Inr None) (\<lambda>parent_hash.
      Inr (parent_hash, (num_hash_blocks - 1) * hash_block_size s)))"

definition cache_partial_block ::
    "(bytes \<Rightarrow> bytes) \<Rightarrow> bool \<Rightarrow> Request \<Rightarrow> block_ref \<Rightarrow> int \<Rightarrow> int \<Rightarrow> int \<Rightarrow> block_pool
     \<Rightarrow> (bytes option \<times> Request \<times> block_pool) result" where
  "cache_partial_block sha use_int r b n_tokens group_id block_size s =
     (if is_null (blk s b) then Inr (None, r, s)
      else
        and_then (py_assert (block_size > hash_block_size s)) (\<lambda>_.
        and_then (and_then (py_mod block_size (hash_block_size s)) (\<lambda>m. py_assert (m = 0))) (\<lambda>_.
        and_then (and_then (py_mod n_tokens block_size) (\<lambda>m. py_assert (m \<noteq> 0))) (\<lambda>_.
        and_then (get_partial_block_hash r n_tokens s) (\<lambda>bh.
        let num_hash_blocks = n_tokens div hash_block_size s in
        and_then (make_block_hash_with_group_id bh group_id) (\<lambda>key.
        let already_cached = (block_hash (blk s b) = Some key \<or>
              contain (bid s) (cached_block_hash_to_block s) key (bid s b));
            s = (if \<not> already_cached \<and> block_hash (blk s b) \<noteq> None \<and>
                    (case block_hash_num_tokens (blk s b) of
                       None \<Rightarrow> False | Some n \<Rightarrow> n < num_hash_blocks * hash_block_size s)
                 then let (removed, s) = remove_cached_block_hashes b s
                      in emit_block_removed_events use_int removed s
                 else s)
        in
        and_then (insert_block_hash key b (Some (num_hash_blocks * hash_block_size s)) s) (\<lambda>s.
        if enable_kv_cache_events s \<and> \<not> already_cached then
          and_then (get_partial_block_parent_hash_and_start r n_tokens s) (\<lambda>(parent_hash, block_start).
          and_then (generate_block_hash_extra_keys sha r block_start n_tokens (if block_start > 0 then - 1 else 0))
            (\<lambda>(extra_keys, _, r).
             Inr (Some key, r, push_event (EvStored
               \<lparr>bs_block_hashes = [maybe_convert_block_hash use_int bh],
                bs_parent_block_hash = map_option (maybe_convert_block_hash use_int) parent_hash,
                bs_token_ids = py_slice (all_token_ids r) block_start n_tokens,
                bs_block_size = n_tokens - block_start,
                bs_lora_id = map_option lora_int_id (lora_request r),
                bs_lora_name = map_option lora_name (lora_request r),
                bs_extra_keys = Some [extra_keys], bs_group_idx = group_id\<rparr>) s)))
        else Inr (Some key, r, s))))))))"

section \<open>Allocation, reference counts and eviction\<close>

definition get_num_free_blocks :: "block_pool \<Rightarrow> int" where
  "get_num_free_blocks s = num_free_blocks s"

definition maybe_evict_cached_block :: "bool \<Rightarrow> block_ref \<Rightarrow> block_pool \<Rightarrow> bool \<times> block_pool" where
  "maybe_evict_cached_block use_int b s =
     (let s = with_metrics on_block_evicted b s;
          (evicted_hashes, s) = remove_cached_block_hashes b s
      in if evicted_hashes = [] then (False, s)
         else (True, emit_block_removed_events use_int evicted_hashes s))"

definition add_ref :: "int \<Rightarrow> block_ref \<Rightarrow> block_pool \<Rightarrow> block_pool" where
  "add_ref n b = upd_blk b (\<lambda>x. x\<lparr>ref_cnt := ref_cnt x + n\<rparr>)"

definition hand_out :: "bool \<Rightarrow> block_ref \<Rightarrow> block_pool \<Rightarrow> block_pool result" where
  "hand_out use_int b s =
     (let s = (if enable_caching s then snd (maybe_evict_cached_block use_int b s) else s)
      in and_then (py_assert (ref_cnt (blk s b) = 0)) (\<lambda>_.
         Inr (with_metrics on_block_allocated b (add_ref 1 b s))))"

definition get_new_blocks :: "bool \<Rightarrow> int \<Rightarrow> block_pool \<Rightarrow> (block_ref list \<times> block_pool) result" where
  "get_new_blocks use_int num_blocks s =
     (if num_blocks > get_num_free_blocks s then Inl ValueError
      else
        and_then (popleft_n num_blocks s) (\<lambda>(ret, s).
        and_then (for_each (hand_out use_int) ret s) (\<lambda>s. Inr (ret, s))))"

definition touch_one :: "block_ref \<Rightarrow> block_pool \<Rightarrow> block_pool result" where
  "touch_one b s =
     and_then (if ref_cnt (blk s b) = 0 \<and> \<not> is_null (blk s b) then remove_q b s else Inr s) (\<lambda>s.
     Inr (with_metrics on_block_accessed b (add_ref 1 b s)))"

definition touch :: "block_ref list \<Rightarrow> block_pool \<Rightarrow> block_pool result" where
  "touch blocks s = for_each touch_one blocks s"

definition release_one ::
    "block_ref \<Rightarrow> block_ref list \<times> block_ref list \<times> block_pool
     \<Rightarrow> block_ref list \<times> block_ref list \<times> block_pool" where
  "release_one b = (\<lambda>(evict_first, evict_last, s).
     let s = add_ref (- 1) b s in
     if ref_cnt (blk s b) = 0 \<and> \<not> is_null (blk s b) then
       if block_hash (blk s b) = None \<or> \<not> enable_caching s
       then (evict_first @ [b], evict_last, s)
       else (evict_first, evict_last @ [b], s)
     else (evict_first, evict_last, s))"

definition free_blocks :: "block_ref list \<Rightarrow> block_pool \<Rightarrow> block_pool result" where
  "free_blocks ordered_blocks s =
     (let (evict_first, evict_last, s) = fold release_one ordered_blocks ([], [], s)
      in and_then (prepend_n evict_first s) (append_n evict_last))"

definition evict_one :: "bool \<Rightarrow> int \<Rightarrow> block_pool \<Rightarrow> block_pool result" where
  "evict_one use_int i s =
     and_then (py_assert (i < int (length (blocks_of s)))) (\<lambda>_.
     and_then (py_index (blocks_of s) i) (\<lambda>b.
     Inr (snd (maybe_evict_cached_block use_int b s))))"

definition evict_blocks :: "bool \<Rightarrow> int list \<Rightarrow> block_pool \<Rightarrow> block_pool result" where
  "evict_blocks use_int block_ids s = for_each (evict_one use_int) block_ids s"

definition reset_prefix_cache :: "block_pool \<Rightarrow> bool \<times> block_pool" where
  "reset_prefix_cache s =
     (if num_gpu_blocks s - get_num_free_blocks s \<noteq> 1 then (False, s)
      else
        let s = s\<lparr>cached_block_hash_to_block := [], cached_block_hashes_by_block := []\<rparr>;
            s = fold (\<lambda>b. upd_blk b reset_hash) (blocks_of s) s;
            s = s\<lparr>metrics_collector := map_option reset_metrics (metrics_collector s)\<rparr>;
            s = (if enable_kv_cache_events s then push_event AllBlocksCleared s else s)
        in (True, s))"

definition get_usage :: "block_pool \<Rightarrow> rat" where
  "get_usage s =
     (let total_gpu_blocks = num_gpu_blocks s - 1 in
      if total_gpu_blocks = 0 then 0
      else 1 - of_int (get_num_free_blocks s) / of_int total_gpu_blocks)"

definition take_events :: "block_pool \<Rightarrow> KVCacheEvent list \<times> block_pool" where
  "take_events s =
     (if \<not> enable_kv_cache_events s then ([], s)
      else (kv_event_queue s, s\<lparr>kv_event_queue := []\<rparr>))"

section \<open>Invariants\<close>

text \<open>The hash keys a block owns: its primary hash and the further ones of the side table.\<close>

definition side_keys :: "block_pool \<Rightarrow> int \<Rightarrow> bytes list" where
  "side_keys s i = (case dict_get (cached_block_hashes_by_block s) i of None \<Rightarrow> [] | Some hs \<Rightarrow> hs)"

definition owned :: "block_pool \<Rightarrow> nat \<Rightarrow> bytes set" where
  "owned s i = set_option (block_hash (blk s (Blk i))) \<union> set (side_keys s (int i))"

text \<open>
  The index and the blocks agree in both directions, and no block outside the pool and not the
  null block is ever indexed.
\<close>

definition hash_inv :: "block_pool \<Rightarrow> bool" where
  "hash_inv s \<longleftrightarrow>
     (\<forall>i. bid s (Blk i) = int i) \<and> bid s FakeHead = - 1 \<and> bid s FakeTail = - 1 \<and>
     map_ok (bid s) (cached_block_hash_to_block s) \<and>
     (\<forall>key j. contain (bid s) (cached_block_hash_to_block s) key j \<longleftrightarrow> (\<exists>i. j = int i \<and> key \<in> owned s i)) \<and>
     (\<forall>i. block_hash (blk s (Blk i)) = None \<longrightarrow>
        block_hash_num_tokens (blk s (Blk i)) = None \<and> dict_get (cached_block_hashes_by_block s) (int i) = None) \<and>
     (\<forall>i. i = 0 \<or> num_gpu_blocks s \<le> int i \<longrightarrow> owned s i = {})"

text \<open>
  The free list holds exactly the blocks without references, the null block apart.
\<close>

definition free_inv :: "block_pool \<Rightarrow> bool" where
  "free_inv s \<longleftrightarrow>
     (\<exists>xs. free_list s xs \<and>
        set xs = {i. 0 < i \<and> int i < num_gpu_blocks s \<and> ref_cnt (blk s (Blk i)) = 0}) \<and>
     (\<forall>i > 0. 0 \<le> ref_cnt (blk s (Blk i))) \<and>
     (\<forall>i. is_null (blk s (Blk i)) \<longleftrightarrow> i = 0) \<and> 0 < num_gpu_blocks s \<and> null_block s = Blk 0"

definition pool_inv :: "block_pool \<Rightarrow> bool" where
  "pool_inv s \<longleftrightarrow> hash_inv s \<and> free_inv s"

subsection \<open>Frames\<close>

definition same_config :: "block_pool \<Rightarrow> block_pool \<Rightarrow> bool" where
  "same_config s s' \<longleftrightarrow>
     num_gpu_blocks s' = num_gpu_blocks s \<and> enable_caching s' = enable_caching s \<and>
     hash_block_size s' = hash_block_size s \<and> null_block s' = null_block s \<and>
     enable_kv_cache_events s' = enable_kv_cache_events s"

text \<open>Nothing the free list and the reference counts rest on has changed.\<close>

definition same_links :: "block_pool \<Rightarrow> block_pool \<Rightarrow> bool" where
  "same_links s s' \<longleftrightarrow> same_config s s' \<and> num_free_blocks s' = num_free_blocks s \<and>
     (\<forall>r. nexts s' r = nexts s r \<and> prevs s' r = prevs s r \<and>
          is_null (blk s' r) = is_null (blk s r) \<and> bid s' r = bid s r)"

definition same_refs :: "block_pool \<Rightarrow> block_pool \<Rightarrow> bool" where
  "same_refs s s' \<longleftrightarrow> same_links s s' \<and> (\<forall>r. ref_cnt (blk s' r) = ref_cnt (blk s r))"

text \<open>Nothing the prefix cache rests on has changed.\<close>

definition same_hashes :: "block_pool \<Rightarrow> block_pool \<Rightarrow> bool" where
  "same_hashes s s' \<longleftrightarrow> same_config s s' \<and>
     cached_block_hash_to_block s' = cached_block_hash_to_block s \<and>
     cached_block_hashes_by_block s' = cached_block_hashes_by_block s \<and>
     (\<forall>r. block_hash (blk s' r) = block_hash (blk s r) \<and>
          block_hash_num_tokens (blk s' r) = block_hash_num_tokens (blk s r) \<and> bid s' r = bid s r)"

named_theorems frame_simps \<open>what a write leaves alone\<close>

lemma same_config_refl [simp]: "same_config s s"
  by (simp add: same_config_def)

lemma same_links_refl [simp]: "same_links s s"
  by (simp add: same_links_def)

lemma same_refs_refl [simp]: "same_refs s s"
  by (simp add: same_refs_def)

lemma same_hashes_refl [simp]: "same_hashes s s"
  by (simp add: same_hashes_def)

lemma same_links_trans: "same_links s t \<Longrightarrow> same_links t u \<Longrightarrow> same_links s u"
  by (simp add: same_links_def same_config_def)

lemma same_refs_links: "same_refs s s' \<Longrightarrow> same_links s s'"
  by (simp add: same_refs_def)

lemma same_refs_trans: "same_refs s t \<Longrightarrow> same_refs t u \<Longrightarrow> same_refs s u"
  using same_links_trans by (simp add: same_refs_def) blast

lemma same_hashes_trans: "same_hashes s t \<Longrightarrow> same_hashes t u \<Longrightarrow> same_hashes s u"
  by (simp add: same_hashes_def same_config_def)

lemma same_links_config: "same_links s s' \<Longrightarrow> same_config s s'"
  by (simp add: same_links_def)

lemma same_refs_config: "same_refs s s' \<Longrightarrow> same_config s s'"
  by (simp add: same_refs_def same_links_def)

lemma same_hashes_config: "same_hashes s s' \<Longrightarrow> same_config s s'"
  by (simp add: same_hashes_def)

lemma same_config_trans: "same_config s t \<Longrightarrow> same_config t u \<Longrightarrow> same_config s u"
  by (simp add: same_config_def)

lemma free_list_frame:
  assumes "\<And>r. nexts s' r = nexts s r" "\<And>r. prevs s' r = prevs s r" "num_free_blocks s' = num_free_blocks s"
  shows "free_list s' xs = free_list s xs"
proof -
  have "nexts s' = nexts s" "prevs s' = prevs s" using assms(1,2) by blast+
  then show ?thesis unfolding free_list_def using assms(3) by metis
qed

lemma same_links_free_list: "same_links s s' \<Longrightarrow> free_list s' xs = free_list s xs"
  by (rule free_list_frame) (simp_all add: same_links_def)

lemma free_inv_frame: "same_refs s s' \<Longrightarrow> free_inv s' = free_inv s"
  using same_links_free_list [of s s'] by (simp add: free_inv_def same_refs_def same_links_def same_config_def)

lemma owned_frame: "same_hashes s s' \<Longrightarrow> owned s' = owned s"
  by (simp add: fun_eq_iff owned_def side_keys_def same_hashes_def)

lemma hash_inv_frame:
  assumes "same_hashes s s'" shows "hash_inv s' = hash_inv s"
proof -
  have "bid s' = bid s" "cached_block_hash_to_block s' = cached_block_hash_to_block s"
    "cached_block_hashes_by_block s' = cached_block_hashes_by_block s" "num_gpu_blocks s' = num_gpu_blocks s"
    "\<And>r. block_hash (blk s' r) = block_hash (blk s r)"
    "\<And>r. block_hash_num_tokens (blk s' r) = block_hash_num_tokens (blk s r)" "\<And>r. bid s' r = bid s r"
    using assms by (auto simp: same_hashes_def same_config_def)
  then show ?thesis unfolding hash_inv_def owned_frame [OF assms] by simp
qed

lemma links_only_hashes: "links_only s s' \<Longrightarrow> same_hashes s s'"
proof -
  assume l: "links_only s s'"
  from links_only_attributes(6) [OF l] have "same_config s s' \<and>
      cached_block_hash_to_block s' = cached_block_hash_to_block s \<and>
      cached_block_hashes_by_block s' = cached_block_hashes_by_block s"
    unfolding same_config_def by (cases s, cases s') simp
  with links_only_attributes(1,3,4) [OF l] show ?thesis by (simp add: same_hashes_def)
qed

lemma with_metrics_frame [frame_simps]:
  "same_refs t (with_metrics f b s) = same_refs t s" "same_hashes t (with_metrics f b s) = same_hashes t s"
  by (auto simp: with_metrics_def same_refs_def same_links_def same_hashes_def same_config_def split: option.splits)

lemma push_event_frame [frame_simps]:
  "same_refs t (push_event e s) = same_refs t s" "same_hashes t (push_event e s) = same_hashes t s"
  by (auto simp: push_event_def same_refs_def same_links_def same_hashes_def same_config_def)

lemma emit_frame [frame_simps]:
  "same_refs t (emit_block_removed_events u ks s) = same_refs t s"
  "same_hashes t (emit_block_removed_events u ks s) = same_hashes t s"
proof -
  have "same_refs t (fold (\<lambda>key. push_event (removed_event u key)) ks s) = same_refs t s \<and>
    same_hashes t (fold (\<lambda>key. push_event (removed_event u key)) ks s) = same_hashes t s"
    by (induction ks arbitrary: s) (auto simp: frame_simps)
  then show "same_refs t (emit_block_removed_events u ks s) = same_refs t s"
    "same_hashes t (emit_block_removed_events u ks s) = same_hashes t s"
    by (simp_all add: emit_block_removed_events_def)
qed

lemma add_ref_links [frame_simps]: "same_links t (add_ref n b s) = same_links t s"
  by (auto simp: add_ref_def upd_blk_def same_links_def same_config_def)

lemma add_ref_count: "ref_cnt (blk (add_ref n b s) r) = ref_cnt (blk s r) + (if r = b then n else 0)"
  by (simp add: add_ref_def upd_blk_def)

lemma with_metrics_blk [simp]: "blk (with_metrics f b s) = blk s"
  by (auto simp: with_metrics_def split: option.splits)

lemma add_ref_hashes [frame_simps]: "same_hashes t (add_ref n b s) = same_hashes t s"
  by (auto simp: add_ref_def upd_blk_def same_hashes_def same_config_def)

subsection \<open>Removing and adding keys\<close>

lemma hash_invD:
  assumes "hash_inv s"
  shows "bid s (Blk i) = int i" and "map_ok (bid s) (cached_block_hash_to_block s)"
    and "contain (bid s) (cached_block_hash_to_block s) key j \<longleftrightarrow> (\<exists>i. j = int i \<and> key \<in> owned s i)"
    and "block_hash (blk s (Blk i)) = None \<Longrightarrow> block_hash_num_tokens (blk s (Blk i)) = None"
    and "block_hash (blk s (Blk i)) = None \<Longrightarrow> dict_get (cached_block_hashes_by_block s) (int i) = None"
    and "i = 0 \<or> num_gpu_blocks s \<le> int i \<Longrightarrow> owned s i = {}"
    and "bid s FakeHead = - 1" and "bid s FakeTail = - 1"
  using assms unfolding hash_inv_def by blast+

lemma fold_pop_key:
  assumes "map_ok (bid s) (cached_block_hash_to_block s)"
  shows "\<exists>removed. fold (pop_key b) ks (acc, s) =
      (acc @ removed, s\<lparr>cached_block_hash_to_block :=
        fold (\<lambda>k m. snd (pop_block (bid s) k (bid s b) m)) ks (cached_block_hash_to_block s)\<rparr>) \<and>
    set removed = {k \<in> set ks. contain (bid s) (cached_block_hash_to_block s) k (bid s b)}"
  using assms
proof (induction ks arbitrary: acc s)
  case Nil
  then show ?case by simp
next
  case (Cons k ks)
  let ?m = "cached_block_hash_to_block s"
  obtain found m where m: "pop_block (bid s) k (bid s b) ?m = (found, m)" by fastforce
  let ?s = "s\<lparr>cached_block_hash_to_block := m\<rparr>"
  have ok: "map_ok (bid ?s) (cached_block_hash_to_block ?s)"
    using bi.ok_drop [OF Cons.prems, of k "bid s b"] m by simp
  have found: "found \<noteq> None \<longleftrightarrow> contain (bid s) ?m k (bid s b)"
    using bi.dropped [OF Cons.prems, of k "bid s b"] m by simp
  have has: "contain (bid s) m k' (bid s b) \<longleftrightarrow> contain (bid s) ?m k' (bid s b) \<and> k' \<noteq> k" for k'
    using bi.has_drop [of "bid s" k "bid s b" ?m k' "bid s b"] m by auto
  have step: "pop_key b k (acc, s) = (acc @ (if found \<noteq> None then [k] else []), ?s)"
    using m by (auto simp: pop_key_def Let_def)
  obtain removed where r: "fold (pop_key b) ks (acc @ (if found \<noteq> None then [k] else []), ?s) =
      ((acc @ (if found \<noteq> None then [k] else [])) @ removed, ?s\<lparr>cached_block_hash_to_block :=
        fold (\<lambda>k m. snd (pop_block (bid ?s) k (bid ?s b) m)) ks (cached_block_hash_to_block ?s)\<rparr>)"
    "set removed = {k \<in> set ks. contain (bid ?s) (cached_block_hash_to_block ?s) k (bid ?s b)}"
    using Cons.IH [OF ok] by blast
  have "set ((if found \<noteq> None then [k] else []) @ removed) =
      {k' \<in> set (k # ks). contain (bid s) ?m k' (bid s b)}"
    using r(2) found by (auto simp: has)
  with r(1) step m show ?case
    by (intro exI [of _ "(if found \<noteq> None then [k] else []) @ removed"]) simp
qed

text \<open>Where a block's keys go when its primary hash and its side-table entry are removed.\<close>

lemma remove_cached_block_hashes_correct:
  assumes inv: "hash_inv s" and eq: "remove_cached_block_hashes (Blk i) s = (removed, s')"
  shows "hash_inv s'" and "same_refs s s'" and "set removed = owned s i" and "owned s' i = {}"
    and "\<And>j. j \<noteq> i \<Longrightarrow> owned s' j = owned s j" and "block_hash (blk s' (Blk i)) = None"
proof -
  let ?first = "case block_hash (blk s (Blk i)) of None \<Rightarrow> [] | Some h \<Rightarrow> [h]"
  let ?keys = "?first @ side_keys s (int i)"
  let ?t = "s\<lparr>cached_block_hashes_by_block := dict_del (int i) (cached_block_hashes_by_block s)\<rparr>"
  note b [simp] = hash_invD(1) [OF inv]
  have keys: "set ?keys = owned s i" by (auto simp: owned_def split: option.splits)
  obtain ks m where fold: "fold (pop_key (Blk i)) ?keys ([], ?t) = (ks, ?t\<lparr>cached_block_hash_to_block := m\<rparr>)"
    and ks: "set ks = {k \<in> set ?keys. contain (bid s) (cached_block_hash_to_block s) k (int i)}"
    and m: "m = fold (\<lambda>k m. snd (pop_block (bid s) k (int i) m)) ?keys (cached_block_hash_to_block s)"
    using fold_pop_key [of ?t "Blk i" ?keys "[]"] hash_invD(2) [OF inv] by auto
  have in_index: "contain (bid s) (cached_block_hash_to_block s) k (int i)" if "k \<in> owned s i" for k
    using that hash_invD(3) [OF inv] by blast
  have set_ks: "set ks = owned s i" using ks keys in_index by auto
  let ?u = "upd_blk (Blk i) reset_hash (?t\<lparr>cached_block_hash_to_block := m\<rparr>)"
  have unf: "remove_cached_block_hashes (Blk i) s = (if ?keys = [] then ([], ?t)
      else case fold (pop_key (Blk i)) ?keys ([], ?t) of (removed, s) \<Rightarrow> (removed, upd_blk (Blk i) reset_hash s))"
    unfolding remove_cached_block_hashes_def side_keys_def Let_def b ..
  have res: "removed = ks \<and> (s' = ?u \<or> s' = ?t \<and> ?keys = [])"
  proof (cases "?keys = []")
    case True
    then have "ks = []" using set_ks keys by simp
    with True eq show ?thesis unfolding unf if_P [OF True] by simp
  next
    case False
    from eq show ?thesis unfolding unf if_not_P [OF False] fold prod.case by simp
  qed
  have hash: "block_hash (blk s' r) = (if r = Blk i then None else block_hash (blk s r))"
    "block_hash_num_tokens (blk s' r) = (if r = Blk i then None else block_hash_num_tokens (blk s r))" for r
    using res hash_invD(4) [OF inv, of i]
    by (auto simp: upd_blk_def reset_hash_def split: option.splits)
  have side: "cached_block_hashes_by_block s' = dict_del (int i) (cached_block_hashes_by_block s)"
    and map': "cached_block_hash_to_block s' = m" and bid: "bid s' = bid s"
    using res m by (auto simp: upd_blk_def reset_hash_def fun_eq_iff)
  show refs: "same_refs s s'"
    using res by (auto simp: same_refs_def same_links_def same_config_def upd_blk_def reset_hash_def split: if_splits)
  show "set removed = owned s i" using res set_ks by simp
  show "block_hash (blk s' (Blk i)) = None" using hash by simp
  show own_i: "owned s' i = {}" by (simp add: owned_def hash side side_keys_def delete_conv')
  show own_j: "owned s' j = owned s j" if "j \<noteq> i" for j
    using that by (simp add: owned_def hash side side_keys_def delete_conv')
  have "contain (bid s) m key j \<longleftrightarrow> (\<exists>k. j = int k \<and> key \<in> owned s' k)" for key j
    unfolding m bi.has_fold_drop keys hash_invD(3) [OF inv]
    using own_i own_j by (metis empty_iff of_nat_eq_iff)
  moreover have "map_ok (bid s) m" unfolding m by (rule bi.ok_fold_drop [OF hash_invD(2) [OF inv]])
  moreover have "block_hash (blk s' (Blk j)) = None \<Longrightarrow>
      block_hash_num_tokens (blk s' (Blk j)) = None \<and> dict_get (cached_block_hashes_by_block s') (int j) = None" for j
    using hash_invD(4,5) [OF inv, of j] by (auto simp: hash side delete_conv' split: if_splits)
  moreover have "j = 0 \<or> num_gpu_blocks s' \<le> int j \<Longrightarrow> owned s' j = {}" for j
    using hash_invD(6) [OF inv, of j] own_i own_j refs
    by (cases "j = i") (auto simp: same_refs_def same_links_def same_config_def)
  ultimately show "hash_inv s'"
    unfolding hash_inv_def map' bid by (auto simp: bid [THEN fun_cong] hash_invD(7,8) [OF inv])
qed

lemma insert_block_hash_correct:
  assumes inv: "hash_inv s" and i: "0 < i" "int i < num_gpu_blocks s"
  obtains s' where "insert_block_hash key (Blk i) n s = Inr s'" and "hash_inv s'" and "same_refs s s'"
    and "owned s' i = insert key (owned s i)" and "\<And>j. j \<noteq> i \<Longrightarrow> owned s' j = owned s j"
proof -
  let ?d = "cached_block_hashes_by_block s" and ?b = "blk s (Blk i)"
  note b [simp] = hash_invD(1) [OF inv]
  show thesis
  proof (cases "key \<in> owned s i")
    case True
    then have "contain (bid s) (cached_block_hash_to_block s) key (int i)" using hash_invD(3) [OF inv] by blast
    then have "insert_block_hash key (Blk i) n s = Inr s" by (simp add: insert_block_hash_def)
    with that inv True show thesis by (simp add: insert_absorb)
  next
    case False
    then have new: "\<not> contain (bid s) (cached_block_hash_to_block s) key (int i)" "block_hash ?b \<noteq> Some key"
      using hash_invD(3) [OF inv] by (auto simp: owned_def)
    let ?t = "if block_hash ?b = None then upd_blk (Blk i) (\<lambda>_. ?b\<lparr>block_hash := Some key, block_hash_num_tokens := n\<rparr>) s
      else s\<lparr>cached_block_hashes_by_block := dict_set (int i) (set_add key (side_keys s (int i))) ?d\<rparr>"
    let ?s = "?t\<lparr>cached_block_hash_to_block := insert_block (bid s) key (Blk i) (cached_block_hash_to_block s)\<rparr>"
    define u where "u = ?s"
    have bid: "bid u = bid s" by (auto simp: u_def upd_blk_def fun_eq_iff)
    have "bid ?t = bid s" "cached_block_hash_to_block ?t = cached_block_hash_to_block s"
      by (auto simp: upd_blk_def fun_eq_iff)
    then have eq: "insert_block_hash key (Blk i) n s = Inr u" unfolding u_def
      using new hash_invD(4) [OF inv, of i]
      by (auto simp: insert_block_hash_def set_block_hash_def side_keys_def Let_def py_assert_def upd_blk_def fun_upd_def)
    have hash: "block_hash (blk u r) = (if r = Blk i \<and> block_hash ?b = None then Some key else block_hash (blk s r))"
      "block_hash_num_tokens (blk u r) =
         (if r = Blk i \<and> block_hash ?b = None then n else block_hash_num_tokens (blk s r))" for r
      by (auto simp: u_def upd_blk_def)
    have side: "cached_block_hashes_by_block u =
        (if block_hash ?b = None then ?d else dict_set (int i) (set_add key (side_keys s (int i))) ?d)"
      by (simp add: u_def upd_blk_def)
    have map': "cached_block_hash_to_block u = insert_block (bid s) key (Blk i) (cached_block_hash_to_block s)"
      by (simp add: u_def)
    have refs: "same_refs s u" by (auto simp: u_def same_refs_def same_links_def same_config_def upd_blk_def)
    have own_i: "owned u i = insert key (owned s i)"
      using hash_invD(5) [OF inv, of i] 
      by (auto simp: owned_def hash side side_keys_def update_conv' split: option.splits)
    have own_j: "owned u j = owned s j" if "j \<noteq> i" for j
      using that by (simp add: owned_def hash side side_keys_def update_conv')
    have "contain (bid s) (insert_block (bid s) key (Blk i) (cached_block_hash_to_block s)) k j \<longleftrightarrow>
        (\<exists>x. j = int x \<and> k \<in> owned u x)" for k j
    proof -
      have "(\<exists>x. j = int x \<and> k \<in> owned u x) \<longleftrightarrow> (\<exists>x. j = int x \<and> k \<in> owned s x) \<or> k = key \<and> j = int i"
        using own_i own_j by (metis insert_iff)
      then show ?thesis unfolding bi.has_add hash_invD(3) [OF inv] by simp
    qed
    moreover have "map_ok (bid s) (insert_block (bid s) key (Blk i) (cached_block_hash_to_block s))"
      by (rule bi.ok_add [OF hash_invD(2) [OF inv]])
    moreover have "block_hash (blk u (Blk j)) = None \<Longrightarrow>
        block_hash_num_tokens (blk u (Blk j)) = None \<and> dict_get (cached_block_hashes_by_block u) (int j) = None" for j
      using hash_invD(4,5) [OF inv, of j] unfolding hash side by (auto simp: update_conv' split: if_splits)
    moreover have "j = 0 \<or> num_gpu_blocks u \<le> int j \<Longrightarrow> owned u j = {}" for j
      using hash_invD(6) [OF inv, of j] own_j [of j] i refs by (auto simp: same_refs_def same_links_def same_config_def)
    ultimately have "hash_inv u"
      unfolding hash_inv_def bid map' by (simp add: bid [THEN fun_cong] hash_invD(7,8) [OF inv])
    with that [OF eq _ refs own_i own_j] show thesis .
  qed
qed

subsection \<open>Eviction\<close>

lemma maybe_evict_correct:
  assumes "hash_inv s" and "snd (maybe_evict_cached_block u (Blk i) s) = s'"
  shows "hash_inv s'" and "same_refs s s'" and "owned s' i = {}" and "\<And>j. j \<noteq> i \<Longrightarrow> owned s' j = owned s j"
proof -
  let ?t = "with_metrics on_block_evicted (Blk i) s"
  have t: "same_refs s ?t" "same_hashes s ?t" by (simp_all add: frame_simps)
  have inv_t: "hash_inv ?t" using hash_inv_frame [OF t(2)] assms(1) by simp
  obtain ks w where w: "remove_cached_block_hashes (Blk i) ?t = (ks, w)" by fastforce
  note r = remove_cached_block_hashes_correct [OF inv_t w]
  have s': "s' = w \<or> s' = emit_block_removed_events u ks w"
    using assms(2) w by (auto simp: maybe_evict_cached_block_def Let_def split: if_splits)
  have f: "same_hashes w s'" "same_refs w s'" using s' by (auto simp: frame_simps)
  show "hash_inv s'" using hash_inv_frame [OF f(1)] r(1) by simp
  show "same_refs s s'" using same_refs_trans [OF t(1) same_refs_trans [OF r(2) f(2)]] .
  show "owned s' i = {}" using owned_frame [OF f(1)] r(4) by simp
  show "owned s' j = owned s j" if "j \<noteq> i" for j
    using owned_frame [OF f(1)] owned_frame [OF t(2)] r(5) [OF that] by simp
qed

lemma evict_blocks_correct:
  assumes "hash_inv s" and "set ids \<subseteq> int ` {i. int i < num_gpu_blocks s}"
  shows "\<exists>s'. evict_blocks u ids s = Inr s' \<and> hash_inv s' \<and> same_refs s s' \<and>
    (\<forall>i. owned s' i = (if int i \<in> set ids then {} else owned s i))"
  using assms
proof (induction ids arbitrary: s)
  case Nil
  then show ?case by (simp add: evict_blocks_def)
next
  case (Cons x ids)
  then obtain k where k: "x = int k" "int k < num_gpu_blocks s" by auto
  let ?t = "snd (maybe_evict_cached_block u (Blk k) s)"
  note e = maybe_evict_correct [OF Cons.prems(1) refl, where u = u and i = k]
  have one: "evict_one u x s = Inr ?t"
    using k by (simp add: evict_one_def blocks_of_def)
  have "num_gpu_blocks ?t = num_gpu_blocks s" using e(2) by (simp add: same_refs_def same_links_def same_config_def)
  then obtain s' where s': "evict_blocks u ids ?t = Inr s'" "hash_inv s'" "same_refs ?t s'"
    "\<forall>i. owned s' i = (if int i \<in> set ids then {} else owned ?t i)"
    using Cons.IH [OF e(1)] Cons.prems(2) by auto
  have "owned s' i = (if int i \<in> set (x # ids) then {} else owned s i)" for i
    using s'(4) e(3,4) k by (cases "i = k") auto
  with one s'(1,2) same_refs_trans [OF e(2) s'(3)] show ?case by (auto simp: evict_blocks_def)
qed

subsection \<open>Allocation\<close>

lemma hand_out_correct:
  assumes "hash_inv s" and "ref_cnt (blk s (Blk i)) = 0"
  shows "\<exists>s'. hand_out u (Blk i) s = Inr s' \<and> hash_inv s' \<and> same_links s s' \<and>
    (\<forall>j. ref_cnt (blk s' (Blk j)) = (if j = i then 1 else ref_cnt (blk s (Blk j)))) \<and>
    (\<forall>j. owned s' j = (if j = i \<and> enable_caching s then {} else owned s j))"
proof -
  define t where "t = (if enable_caching s then snd (maybe_evict_cached_block u (Blk i) s) else s)"
  have t: "hash_inv t" "same_refs s t" "\<And>j. owned t j = (if j = i \<and> enable_caching s then {} else owned s j)"
    using maybe_evict_correct [OF assms(1) refl, where u = u and i = i] assms(1) by (auto simp: t_def)
  let ?w = "with_metrics on_block_allocated (Blk i) (add_ref 1 (Blk i) t)"
  have w: "same_hashes t ?w" "same_links t ?w"
    by (simp_all add: frame_simps) (simp add: with_metrics_def same_links_def same_config_def add_ref_def
        upd_blk_def split: option.splits)
  have ref: "ref_cnt (blk t r) = ref_cnt (blk s r)" for r using t(2) by (simp add: same_refs_def)
  have "hand_out u (Blk i) s = Inr ?w"
    using assms(2) ref by (simp add: hand_out_def t_def [symmetric] Let_def)
  moreover have "ref_cnt (blk ?w (Blk j)) = (if j = i then 1 else ref_cnt (blk s (Blk j)))" for j
    using assms(2) ref by (simp add: add_ref_count)
  ultimately show ?thesis
    using hash_inv_frame [OF w(1)] t(1,3) owned_frame [OF w(1)]
      same_links_trans [OF same_refs_links [OF t(2)] w(2)] by auto
qed

lemma hand_out_all:
  assumes "hash_inv s" and "distinct js" and "\<And>j. j \<in> set js \<Longrightarrow> ref_cnt (blk s (Blk j)) = 0"
  shows "\<exists>s'. for_each (hand_out u) (map Blk js) s = Inr s' \<and> hash_inv s' \<and> same_links s s' \<and>
    (\<forall>j. ref_cnt (blk s' (Blk j)) = (if j \<in> set js then 1 else ref_cnt (blk s (Blk j)))) \<and>
    (\<forall>j. owned s' j = (if j \<in> set js \<and> enable_caching s then {} else owned s j))"
  using assms
proof (induction js arbitrary: s)
  case Nil
  then show ?case by simp
next
  case (Cons x js)
  then obtain t where t: "hand_out u (Blk x) s = Inr t" "hash_inv t" "same_links s t"
    "\<forall>j. ref_cnt (blk t (Blk j)) = (if j = x then 1 else ref_cnt (blk s (Blk j)))"
    "\<forall>j. owned t j = (if j = x \<and> enable_caching s then {} else owned s j)"
    using hand_out_correct [of s x u] by auto
  have "ref_cnt (blk t (Blk j)) = 0" if "j \<in> set js" for j using that Cons.prems t(4) by auto
  then obtain s' where s': "for_each (hand_out u) (map Blk js) t = Inr s'" "hash_inv s'" "same_links t s'"
    "\<forall>j. ref_cnt (blk s' (Blk j)) = (if j \<in> set js then 1 else ref_cnt (blk t (Blk j)))"
    "\<forall>j. owned s' j = (if j \<in> set js \<and> enable_caching t then {} else owned t j)"
    using Cons.IH [OF t(2)] Cons.prems(2) by auto
  have "enable_caching t = enable_caching s" using t(3) by (simp add: same_links_def same_config_def)
  with s' t show ?case using same_links_trans [OF t(3) s'(3)] by auto
qed

lemma free_invD:
  assumes "free_inv s"
  shows "\<exists>xs. free_list s xs \<and> set xs = {i. 0 < i \<and> int i < num_gpu_blocks s \<and> ref_cnt (blk s (Blk i)) = 0}"
    and "0 < i \<Longrightarrow> 0 \<le> ref_cnt (blk s (Blk i))" and "is_null (blk s (Blk i)) \<longleftrightarrow> i = 0"
    and "0 < num_gpu_blocks s" and "null_block s = Blk 0"
  using assms unfolding free_inv_def by blast+

lemma free_inv_list:
  "free_inv s \<Longrightarrow> free_list s xs \<Longrightarrow>
    set xs = {i. 0 < i \<and> int i < num_gpu_blocks s \<and> ref_cnt (blk s (Blk i)) = 0}"
  using free_invD(1) fq.repr_unique by blast

lemma free_inv_mem:
  "free_inv s \<Longrightarrow> free_list s xs \<Longrightarrow>
    j \<in> set xs \<longleftrightarrow> 0 < j \<and> int j < num_gpu_blocks s \<and> ref_cnt (blk s (Blk j)) = 0"
  by (simp add: free_inv_list)

lemma free_invI:
  assumes "free_list s xs"
    and "\<And>j. j \<in> set xs \<longleftrightarrow> 0 < j \<and> int j < num_gpu_blocks s \<and> ref_cnt (blk s (Blk j)) = 0"
    and "\<And>i. 0 < i \<Longrightarrow> 0 \<le> ref_cnt (blk s (Blk i))" and "\<And>i. is_null (blk s (Blk i)) \<longleftrightarrow> i = 0"
    and "0 < num_gpu_blocks s" and "null_block s = Blk 0"
  shows "free_inv s"
proof -
  have "set xs = {i. 0 < i \<and> int i < num_gpu_blocks s \<and> ref_cnt (blk s (Blk i)) = 0}"
    using assms(2) by blast
  with assms(1,3-6) show ?thesis unfolding free_inv_def by blast
qed

lemma links_only_blk:
  assumes "links_only s s'"
  shows "ref_cnt (blk s' r) = ref_cnt (blk s r)" and "is_null (blk s' r) = is_null (blk s r)"
  using links_only_attributes(2,5) [OF assms] by simp_all

lemma same_linksD:
  assumes "same_links s s'"
  shows "is_null (blk s' r) = is_null (blk s r)" and "num_gpu_blocks s' = num_gpu_blocks s"
    and "null_block s' = null_block s" and "enable_caching s' = enable_caching s"
  using assms by (simp_all add: same_links_def same_config_def)

lemma same_hashesD:
  assumes "same_hashes s s'"
  shows "num_gpu_blocks s' = num_gpu_blocks s"
    and "null_block s' = null_block s" and "enable_caching s' = enable_caching s"
    and "block_hash (blk s' r) = block_hash (blk s r)"
  using assms by (simp_all add: same_hashes_def same_config_def)

lemma get_new_blocks_correct:
  assumes inv: "pool_inv s" and xs: "free_list s xs" and n: "n \<le> length xs"
  shows "\<exists>s'. get_new_blocks u (int n) s = Inr (map Blk (take n xs), s') \<and> pool_inv s' \<and>
    free_list s' (drop n xs) \<and> same_config s s' \<and>
    (\<forall>j. ref_cnt (blk s' (Blk j)) = (if j \<in> set (take n xs) then 1 else ref_cnt (blk s (Blk j)))) \<and>
    (\<forall>j. owned s' j = (if j \<in> set (take n xs) \<and> enable_caching s then {} else owned s j))"
proof -
  have hinv: "hash_inv s" and finv: "free_inv s" using inv by (simp_all add: pool_inv_def)
  note set_xs = free_inv_list [OF finv xs]
  obtain t where t: "popleft_n (int n) s = Inr (map Blk (take n xs), t)" "free_list t (drop n xs)" "links_only s t"
    using fq.take_front_law [OF xs n] by blast
  note h = links_only_hashes [OF t(3)] and l = links_only_blk [OF t(3)]
  have ref0: "ref_cnt (blk t (Blk j)) = 0" if "j \<in> set (take n xs)" for j
    using that set_xs l by (auto dest: in_set_takeD)
  have "hash_inv t" "distinct (take n xs)"
    using hash_inv_frame [OF h] hinv fq.repr_distinct [OF xs] by simp_all
  from hand_out_all [OF this ref0, where u = u] obtain s' where
    s': "for_each (hand_out u) (map Blk (take n xs)) t = Inr s'" "hash_inv s'" "same_links t s'"
    "\<And>j. ref_cnt (blk s' (Blk j)) = (if j \<in> set (take n xs) then 1 else ref_cnt (blk t (Blk j)))"
    "\<And>j. owned s' j = (if j \<in> set (take n xs) \<and> enable_caching t then {} else owned t j)"
    by blast
  note d = same_linksD [OF s'(3)] and hd = same_hashesD [OF h]
  have disj: "set (take n xs) \<inter> set (drop n xs) = {}" "set xs = set (take n xs) \<union> set (drop n xs)"
    using fq.repr_distinct [OF xs] by (metis append_take_drop_id distinct_append)
      (metis append_take_drop_id set_append)
  have fl: "free_list s' (drop n xs)" using same_links_free_list [OF s'(3)] t(2) by simp
  have refs: "ref_cnt (blk s' (Blk j)) = (if j \<in> set (take n xs) then 1 else ref_cnt (blk s (Blk j)))" for j
    using s'(4) l by simp
  have "set (drop n xs) = {i. 0 < i \<and> int i < num_gpu_blocks s' \<and> ref_cnt (blk s' (Blk i)) = 0}"
    using disj set_xs by (auto simp: refs d hd split: if_splits)
  then have "free_inv s'"
    unfolding free_inv_def using fl free_invD(2-5) [OF finv] by (auto simp: refs d hd l)
  moreover have "same_config s s'"
    using same_config_trans [OF same_hashes_config [OF h] same_links_config [OF s'(3)]] .
  moreover have "get_new_blocks u (int n) s = Inr (map Blk (take n xs), s')"
    using t(1) s'(1) n free_list_length [OF xs] by (simp add: get_new_blocks_def get_num_free_blocks_def)
  ultimately show ?thesis
    using s'(2,5) fl refs owned_frame [OF h] by (auto simp: pool_inv_def hd)
qed

lemma get_new_blocks_too_many:
  "free_list s xs \<Longrightarrow> int (length xs) < n \<Longrightarrow> get_new_blocks u n s = Inl ValueError"
  by (simp add: get_new_blocks_def get_num_free_blocks_def free_list_length)

subsection \<open>References\<close>

lemma touch_one_correct:
  assumes inv: "pool_inv s" and xs: "free_list s xs" and i: "int i < num_gpu_blocks s"
  shows "\<exists>s'. touch_one (Blk i) s = Inr s' \<and> pool_inv s' \<and> same_hashes s s' \<and>
    free_list s' (filter (\<lambda>j. j \<noteq> i) xs) \<and>
    (\<forall>j. ref_cnt (blk s' (Blk j)) = ref_cnt (blk s (Blk j)) + (if j = i then 1 else 0))"
proof -
  have hinv: "hash_inv s" and finv: "free_inv s" using inv by (simp_all add: pool_inv_def)
  note set_xs = free_inv_list [OF finv xs] and dist = fq.repr_distinct [OF xs]
  let ?ys = "filter (\<lambda>j. j \<noteq> i) xs"
  have "\<exists>t. (if ref_cnt (blk s (Blk i)) = 0 \<and> \<not> is_null (blk s (Blk i)) then remove_q (Blk i) s else Inr s) = Inr t \<and>
      free_list t ?ys \<and> links_only s t"
  proof (cases "i \<in> set xs")
    case True
    then have "ref_cnt (blk s (Blk i)) = 0 \<and> \<not> is_null (blk s (Blk i))"
      using set_xs free_invD(3) [OF finv] by auto
    moreover have "remove1 i xs = ?ys" using dist by (simp add: distinct_remove1_removeAll removeAll_filter_not_eq neq_commute)
    ultimately show ?thesis using fq.take_out_law [OF xs True] by auto
  next
    case False
    then have "\<not> (ref_cnt (blk s (Blk i)) = 0 \<and> \<not> is_null (blk s (Blk i)))"
      using set_xs free_invD(3) [OF finv, of i] i by auto
    moreover have "?ys = xs" using False by (auto simp: filter_id_conv)
    ultimately show ?thesis using xs by auto
  qed
  then obtain t where t: "(if ref_cnt (blk s (Blk i)) = 0 \<and> \<not> is_null (blk s (Blk i)) then remove_q (Blk i) s else Inr s) = Inr t"
    "free_list t ?ys" "links_only s t" by blast
  let ?s = "with_metrics on_block_accessed (Blk i) (add_ref 1 (Blk i) t)"
  note h = links_only_hashes [OF t(3)] and l = links_only_blk [OF t(3)]
  have h': "same_hashes s ?s" using h by (simp add: frame_simps)
  note hd = same_hashesD [OF h']
  have "same_links t ?s"
    by (auto simp: with_metrics_def same_links_def same_config_def add_ref_def upd_blk_def split: option.splits)
  then have fl: "free_list ?s ?ys" and null: "is_null (blk ?s r) = is_null (blk s r)" for r
    using same_links_free_list t(2) same_linksD(1) l by blast+
  have refs: "ref_cnt (blk ?s (Blk j)) = ref_cnt (blk s (Blk j)) + (if j = i then 1 else 0)" for j
    by (simp add: add_ref_count l)
  have "free_inv ?s"
  proof (rule free_invI [OF fl])
    show "j \<in> set ?ys \<longleftrightarrow> 0 < j \<and> int j < num_gpu_blocks ?s \<and> ref_cnt (blk ?s (Blk j)) = 0" for j
      using free_inv_mem [OF finv xs, of j] free_invD(2) [OF finv, of j] hd(1) refs [of j]
      by (cases "j = i") auto
    show "0 \<le> ref_cnt (blk ?s (Blk j))" if "0 < j" for j
      using free_invD(2) [OF finv that] refs [of j] by simp
  qed (simp_all only: null hd free_invD(3-5) [OF finv])
  then have "pool_inv ?s" using hinv hash_inv_frame [OF h'] by (simp add: pool_inv_def)
  moreover have "touch_one (Blk i) s = Inr ?s" unfolding touch_one_def t(1) by simp
  ultimately show ?thesis
    by (intro exI [of _ ?s] conjI allI h' fl refs)
qed

lemma touch_correct:
  assumes "pool_inv s" and "free_list s xs" and "\<And>i. i \<in> set js \<Longrightarrow> int i < num_gpu_blocks s"
  shows "\<exists>s'. touch (map Blk js) s = Inr s' \<and> pool_inv s' \<and> same_hashes s s' \<and>
    free_list s' (filter (\<lambda>j. j \<notin> set js) xs) \<and>
    (\<forall>j. ref_cnt (blk s' (Blk j)) = ref_cnt (blk s (Blk j)) + int (count_list js j))"
  using assms
proof (induction js arbitrary: s xs)
  case Nil
  then show ?case by (simp add: touch_def)
next
  case (Cons i js)
  obtain t where t: "touch_one (Blk i) s = Inr t" "pool_inv t" "same_hashes s t"
    "free_list t (filter (\<lambda>j. j \<noteq> i) xs)"
    "\<And>j. ref_cnt (blk t (Blk j)) = ref_cnt (blk s (Blk j)) + (if j = i then 1 else 0)"
    using touch_one_correct [OF Cons.prems(1,2), of i] Cons.prems(3) by auto
  obtain s' where s': "touch (map Blk js) t = Inr s'" "pool_inv s'" "same_hashes t s'"
    "free_list s' (filter (\<lambda>j. j \<notin> set js) (filter (\<lambda>j. j \<noteq> i) xs))"
    "\<And>j. ref_cnt (blk s' (Blk j)) = ref_cnt (blk t (Blk j)) + int (count_list js j)"
    using Cons.IH [OF t(2,4)] Cons.prems(3) same_hashesD(1) [OF t(3)] by auto
  have "filter (\<lambda>j. j \<notin> set js) (filter (\<lambda>j. j \<noteq> i) xs) = filter (\<lambda>j. j \<notin> set (i # js)) xs"
    by (auto intro: filter_cong)
  with s' t same_hashes_trans [OF t(3) s'(3)] show ?case
    by (auto simp: touch_def)
qed

text \<open>
  The blocks that a release brings to zero, in the order in which they reach it: the last occurrence
  of each, since a block may be listed more than once.
\<close>

definition released :: "block_pool \<Rightarrow> nat list \<Rightarrow> nat list" where
  "released s js = filter (\<lambda>j. j \<noteq> 0 \<and> ref_cnt (blk s (Blk j)) = int (count_list js j)) (remdups js)"

definition reuse_first :: "block_pool \<Rightarrow> nat \<Rightarrow> bool" where
  "reuse_first s j \<longleftrightarrow> block_hash (blk s (Blk j)) = None \<or> \<not> enable_caching s"

lemma release_fold:
  assumes "\<And>j. is_null (blk s (Blk j)) \<longleftrightarrow> j = 0"
    and "\<And>j. j \<noteq> 0 \<Longrightarrow> int (count_list js j) \<le> ref_cnt (blk s (Blk j))"
  shows "\<exists>s'. fold release_one (map Blk js) (ef, el, s) =
      (ef @ map Blk (filter (reuse_first s) (released s js)),
       el @ map Blk (filter (\<lambda>j. \<not> reuse_first s j) (released s js)), s') \<and>
    same_links s s' \<and> same_hashes s s' \<and>
    (\<forall>j. ref_cnt (blk s' (Blk j)) = ref_cnt (blk s (Blk j)) - int (count_list js j))"
  using assms
proof (induction js arbitrary: s ef el)
  case Nil
  then show ?case by (simp add: released_def)
next
  case (Cons x js)
  let ?t = "add_ref (- 1) (Blk x) s"
  have t: "same_links s ?t" "same_hashes s ?t" by (simp_all add: frame_simps)
  have ref: "ref_cnt (blk ?t (Blk j)) = ref_cnt (blk s (Blk j)) - (if j = x then 1 else 0)" for j
    by (simp add: add_ref_count)
  have null: "is_null (blk ?t (Blk j)) \<longleftrightarrow> j = 0" for j using Cons.prems(1) same_linksD(1) [OF t(1)] by simp
  have cnt: "int (count_list js j) \<le> ref_cnt (blk ?t (Blk j))" if "j \<noteq> 0" for j
    using Cons.prems(2) [OF that] ref by auto
  have reuse: "reuse_first ?t = reuse_first s"
    using same_hashesD(3,4) [OF t(2)] by (simp add: fun_eq_iff reuse_first_def)
  have zero: "ref_cnt (blk ?t (Blk x)) = 0 \<and> \<not> is_null (blk ?t (Blk x)) \<longleftrightarrow>
      x \<noteq> 0 \<and> x \<notin> set js \<and> ref_cnt (blk s (Blk x)) = 1"
    using cnt [of x] ref [of x] null [of x] by (auto simp: count_list_0_iff [symmetric] simp del: count_list_0_iff)
  have rel: "released s (x # js) = (if ref_cnt (blk ?t (Blk x)) = 0 \<and> \<not> is_null (blk ?t (Blk x))
      then [x] else []) @ released ?t js"
  proof -
    have "released ?t js = filter (\<lambda>j. j \<noteq> 0 \<and> ref_cnt (blk s (Blk j)) = int (count_list (x # js) j)) (remdups js)"
      unfolding released_def ref by (rule filter_cong) auto
    then show ?thesis unfolding zero by (auto simp: released_def count_list_0_iff)
  qed
  let ?ef = "if ref_cnt (blk ?t (Blk x)) = 0 \<and> \<not> is_null (blk ?t (Blk x)) \<and> reuse_first s x then ef @ [Blk x] else ef"
    and ?el = "if ref_cnt (blk ?t (Blk x)) = 0 \<and> \<not> is_null (blk ?t (Blk x)) \<and> \<not> reuse_first s x then el @ [Blk x] else el"
  have step: "release_one (Blk x) (ef, el, s) = (?ef, ?el, ?t)"
    unfolding reuse [THEN fun_cong, symmetric] by (simp add: release_one_def Let_def reuse_first_def)
  obtain s' where s': "fold release_one (map Blk js) (?ef, ?el, ?t) =
      (?ef @ map Blk (filter (reuse_first s) (released ?t js)),
       ?el @ map Blk (filter (\<lambda>j. \<not> reuse_first s j) (released ?t js)), s')"
    "same_links ?t s'" "same_hashes ?t s'"
    "\<forall>j. ref_cnt (blk s' (Blk j)) = ref_cnt (blk ?t (Blk j)) - int (count_list js j)"
    using Cons.IH [OF null cnt, of ?ef ?el] unfolding reuse by blast
  have "fold release_one (map Blk (x # js)) (ef, el, s) =
      (ef @ map Blk (filter (reuse_first s) (released s (x # js))),
       el @ map Blk (filter (\<lambda>j. \<not> reuse_first s j) (released s (x # js))), s')"
    using s'(1) unfolding rel list.map fold_simps step by simp
  with same_links_trans [OF t(1) s'(2)] same_hashes_trans [OF t(2) s'(3)] s'(4) show ?case
    by (intro exI [of _ s']) (simp add: ref)
qed

lemma mem_released:
  "j \<in> set (released s js) \<longleftrightarrow> j \<in> set js \<and> j \<noteq> 0 \<and> ref_cnt (blk s (Blk j)) = int (count_list js j)"
  by (auto simp: released_def)

lemma free_blocks_correct:
  assumes inv: "pool_inv s" and xs: "free_list s xs" and lt: "\<And>j. j \<in> set js \<Longrightarrow> int j < num_gpu_blocks s"
    and cnt: "\<And>j. j \<noteq> 0 \<Longrightarrow> int (count_list js j) \<le> ref_cnt (blk s (Blk j))"
  shows "\<exists>s'. free_blocks (map Blk js) s = Inr s' \<and> pool_inv s' \<and> same_hashes s s' \<and>
    free_list s' (filter (reuse_first s) (released s js) @ xs @ filter (\<lambda>j. \<not> reuse_first s j) (released s js)) \<and>
    (\<forall>j. ref_cnt (blk s' (Blk j)) = ref_cnt (blk s (Blk j)) - int (count_list js j))"
proof -
  have hinv: "hash_inv s" and finv: "free_inv s" using inv by (simp_all add: pool_inv_def)
  note set_xs = free_inv_list [OF finv xs]
  let ?fs = "filter (reuse_first s) (released s js)" and ?ls = "filter (\<lambda>j. \<not> reuse_first s j) (released s js)"
  obtain t where t: "fold release_one (map Blk js) ([], [], s) = (map Blk ?fs, map Blk ?ls, t)"
    "same_links s t" "same_hashes s t"
    "\<And>j. ref_cnt (blk t (Blk j)) = ref_cnt (blk s (Blk j)) - int (count_list js j)"
    using release_fold [of s js "[]" "[]"] free_invD(3) [OF finv] cnt by auto
  have xt: "free_list t xs" using same_links_free_list [OF t(2)] xs by simp
  have pos: "0 < ref_cnt (blk s (Blk j))" if "j \<in> set (released s js)" for j
    using that count_list_0_iff [of js j] by (auto simp: released_def)
  have d: "distinct (?fs @ ?ls)" by (auto simp: released_def)
  have disj: "set (?fs @ ?ls) \<inter> set xs = {}" using pos set_xs by fastforce
  obtain w s' where w: "prepend_n (map Blk ?fs) t = Inr w" "append_n (map Blk ?ls) w = Inr s'"
    and fl: "free_list s' (?fs @ xs @ ?ls)" and lo: "links_only t s'"
    using fq.put_both_ends [OF xt d disj] by blast
  note l = links_only_blk [OF lo] and h = same_hashes_trans [OF t(3) links_only_hashes [OF lo]]
  note hd = same_hashesD [OF h]
  have refs: "ref_cnt (blk s' (Blk j)) = ref_cnt (blk s (Blk j)) - int (count_list js j)" for j
    using t(4) l by simp
  have "free_inv s'"
  proof (rule free_invI [OF fl])
    show "j \<in> set (?fs @ xs @ ?ls) \<longleftrightarrow> 0 < j \<and> int j < num_gpu_blocks s' \<and> ref_cnt (blk s' (Blk j)) = 0" for j
    proof -
      have "j \<in> set (?fs @ xs @ ?ls) \<longleftrightarrow> j \<in> set xs \<or> j \<in> set (released s js)" by auto
      then show ?thesis
        using free_inv_mem [OF finv xs, of j] lt [of j] cnt [of j] refs [of j] hd(1) count_list_0_iff [of js j]
        by (auto simp: mem_released)
    qed
    show "0 \<le> ref_cnt (blk s' (Blk j))" if "0 < j" for j using cnt [of j] refs [of j] that by simp
  qed (simp_all only: l same_linksD(1) [OF t(2)] hd free_invD(3-5) [OF finv])
  then have "pool_inv s'" using hinv hash_inv_frame [OF h] by (simp add: pool_inv_def)
  moreover have "free_blocks (map Blk js) s = Inr s'" unfolding free_blocks_def t(1) using w by simp
  ultimately show ?thesis by (intro exI [of _ s'] conjI allI h fl refs)
qed

subsection \<open>Construction and reset\<close>

lemma queue_init_sentinel_ids:
  "block_id (blk (FreeKVCacheBlockQueue_init bs s) FakeHead) = - 1"
  "block_id (blk (FreeKVCacheBlockQueue_init bs s) FakeTail) = - 1"
proof -
  have id: "block_id (blk (set_next r v t) x) = block_id (blk t x)"
    "block_id (blk (set_prev r v t) x) = block_id (blk t x)"
    "block_id (blk (upd_blk FakeHead (\<lambda>_. c) t) x) = (if x = FakeHead then block_id c else block_id (blk t x))"
    "block_id (blk (upd_blk FakeTail (\<lambda>_. c) t) x) = (if x = FakeTail then block_id c else block_id (blk t x))"
    for r v x c and t :: "'a free_queue_scheme"
    by (auto simp: set_next_def set_prev_def upd_blk_def)
  show "block_id (blk (FreeKVCacheBlockQueue_init bs s) FakeHead) = - 1"
    "block_id (blk (FreeKVCacheBlockQueue_init bs s) FakeTail) = - 1"
    by (simp_all add: FreeKVCacheBlockQueue_init_def Let_def id KVCacheBlock_init_def)
qed

lemma BlockPool_init_correct:
  assumes "0 < n"
  shows "\<exists>s. BlockPool_init n caching h events mc = Inr s \<and> pool_inv s \<and> free_list s [1..<nat n] \<and>
    num_gpu_blocks s = n \<and> enable_caching s = caching \<and> hash_block_size s = h \<and>
    enable_kv_cache_events s = events \<and> (\<forall>i. ref_cnt (blk s (Blk i)) = 0) \<and> (\<forall>i. owned s i = {})"
proof -
  define s0 where "s0 = \<lparr>blk = (\<lambda>r. case r of Blk i \<Rightarrow> KVCacheBlock_init (int i) | _ \<Rightarrow> KVCacheBlock_init (- 1)),
    num_free_blocks = 0, num_gpu_blocks = n, enable_caching = caching, hash_block_size = h,
    cached_block_hash_to_block = [], cached_block_hashes_by_block = [], null_block = FakeHead,
    enable_kv_cache_events = events, kv_event_queue = [], metrics_collector = mc\<rparr>"
  let ?ids = "[0..<nat n]"
  define s1 where "s1 = FreeKVCacheBlockQueue_init (map Blk ?ids) s0"
  have links0: "nexts s0 (Blk i) = None \<and> prevs s0 (Blk i) = None" for i
    by (simp add: s0_def KVCacheBlock_init_def)
  note q = FreeKVCacheBlockQueue_init_correct [OF distinct_upt links0, of 0 "nat n", folded s1_def]
  have ids: "?ids = 0 # [1..<nat n]" using assms by (simp add: upt_conv_Cons)
  obtain s2 where s2: "popleft s1 = Inr (Blk 0, s2)" "free_list s2 [1..<nat n]" "links_only s1 s2"
    using popleft_Cons [of s1 0 "[1..<nat n]"] q(1) ids by auto
  define s where "s = upd_blk (Blk 0) (\<lambda>b. b\<lparr>is_null := True\<rparr>) (s2\<lparr>null_block := Blk 0\<rparr>)"
  have eq: "BlockPool_init n caching h events mc = Inr s"
    using assms s2(1) by (simp add: BlockPool_init_def blocks_of_def s_def s1_def s0_def Let_def)
  have same: "unlinked (blk s2 (Blk i)) = unlinked (KVCacheBlock_init (int i))" for i
    using q(2) s2(3) by (simp add: links_only_def s0_def)
  have attr: "block_id (blk s2 (Blk i)) = int i" "ref_cnt (blk s2 (Blk i)) = 0" "block_hash (blk s2 (Blk i)) = None"
    "block_hash_num_tokens (blk s2 (Blk i)) = None" "is_null (blk s2 (Blk i)) = False" for i
    using arg_cong [OF same, of block_id] arg_cong [OF same, of ref_cnt] arg_cong [OF same, of block_hash]
      arg_cong [OF same, of block_hash_num_tokens] arg_cong [OF same, of is_null]
    by (simp_all add: unlinked_def KVCacheBlock_init_def)
  have more: "free_queue.more s2 = free_queue.more s0" using q(3) s2(3) by (simp add: links_only_def)
  then have conf: "num_gpu_blocks s2 = n" "enable_caching s2 = caching" "hash_block_size s2 = h"
    "cached_block_hash_to_block s2 = []" "cached_block_hashes_by_block s2 = []" "enable_kv_cache_events s2 = events"
    unfolding s0_def by (cases s2; simp)+
  have ends: "block_id (blk s2 FakeHead) = - 1" "block_id (blk s2 FakeTail) = - 1"
    using links_only_attributes(1) [OF s2(3)] queue_init_sentinel_ids by (simp_all add: s1_def)
  have fl: "free_list s [1..<nat n]"
    using s2(2) by (subst free_list_frame [of s s2]) (auto simp: s_def upd_blk_def)
  have "hash_inv s"
    using attr ends conf by (auto simp: hash_inv_def s_def upd_blk_def owned_def side_keys_def)
  moreover have "free_inv s"
    by (rule free_invI [OF fl]) (use attr conf assms in \<open>auto simp: s_def upd_blk_def\<close>)
  moreover have "ref_cnt (blk s (Blk i)) = 0" "owned s i = {}" for i
    using attr conf by (simp_all add: s_def upd_blk_def owned_def side_keys_def)
  ultimately show ?thesis using eq fl conf by (auto simp: pool_inv_def s_def upd_blk_def)
qed

lemma fold_reset_hash:
  "fold (\<lambda>b. upd_blk b reset_hash) bs s = s\<lparr>blk := (\<lambda>r. if r \<in> set bs then reset_hash (blk s r) else blk s r)\<rparr>"
  by (induction bs arbitrary: s) (auto simp: upd_blk_def fun_eq_iff reset_hash_def)

text \<open>The null block apart, every block is free exactly when the free list has length \<open>n - 1\<close>.\<close>

lemma all_free_iff:
  assumes "free_inv s" and "free_list s xs"
  shows "num_gpu_blocks s - num_free_blocks s = 1 \<longleftrightarrow>
    (\<forall>i. 0 < i \<and> int i < num_gpu_blocks s \<longrightarrow> ref_cnt (blk s (Blk i)) = 0)"
proof -
  let ?all = "{i. 0 < i \<and> int i < num_gpu_blocks s}"
  have "?all = {1..<nat (num_gpu_blocks s)}" by auto
  then have fin: "finite ?all" and card: "card ?all = nat (num_gpu_blocks s) - 1" by simp_all
  have sub: "set xs \<subseteq> ?all" using free_inv_mem [OF assms] by auto
  have "num_gpu_blocks s - num_free_blocks s = 1 \<longleftrightarrow> card (set xs) = card ?all"
    using free_list_length [OF assms(2)] distinct_card [OF fq.repr_distinct [OF assms(2)]] card
      free_invD(4) [OF assms(1)] by auto
  also have "\<dots> \<longleftrightarrow> set xs = ?all" using card_subset_eq [OF fin sub] by metis
  also have "\<dots> \<longleftrightarrow> (\<forall>i. 0 < i \<and> int i < num_gpu_blocks s \<longrightarrow> ref_cnt (blk s (Blk i)) = 0)"
    unfolding set_eq_iff free_inv_mem [OF assms] by auto
  finally show ?thesis .
qed

lemma reset_prefix_cache_correct:
  assumes inv: "pool_inv s" and eq: "reset_prefix_cache s = (ok, s')"
  shows "pool_inv s'" and "ok \<longleftrightarrow> (\<forall>i. 0 < i \<and> int i < num_gpu_blocks s \<longrightarrow> ref_cnt (blk s (Blk i)) = 0)"
    and "same_refs s s'" and "owned s' i = (if ok then {} else owned s i)" and "\<not> ok \<Longrightarrow> s' = s"
proof -
  have hinv: "hash_inv s" and finv: "free_inv s" using inv by (simp_all add: pool_inv_def)
  obtain xs where xs: "free_list s xs" using free_invD(1) [OF finv] by blast
  show ok: "ok \<longleftrightarrow> (\<forall>i. 0 < i \<and> int i < num_gpu_blocks s \<longrightarrow> ref_cnt (blk s (Blk i)) = 0)"
    unfolding all_free_iff [OF finv xs, symmetric]
    using eq by (auto simp: reset_prefix_cache_def get_num_free_blocks_def Let_def split: if_splits)
  show keep: "\<not> ok \<Longrightarrow> s' = s"
    using eq by (auto simp: reset_prefix_cache_def Let_def split: if_splits)
  let ?blk = "\<lambda>r. if r \<in> set (blocks_of s) then reset_hash (blk s r) else blk s r"
  have new: "blk s' = ?blk \<and> cached_block_hash_to_block s' = [] \<and> cached_block_hashes_by_block s' = [] \<and>
      same_config s s' \<and> num_free_blocks s' = num_free_blocks s" if ok
    using eq that
    by (auto simp: reset_prefix_cache_def Let_def fold_reset_hash blocks_of_def push_event_def same_config_def
        split: if_splits)
  show refs: "same_refs s s'"
    using keep new by (cases ok) (auto simp: same_refs_def same_links_def same_config_def reset_hash_def)
  have none: "block_hash (blk s' (Blk i)) = None \<and> block_hash_num_tokens (blk s' (Blk i)) = None" if ok for i
  proof (cases "int i < num_gpu_blocks s")
    case True
    then have "Blk i \<in> set (blocks_of s)" by (auto simp: blocks_of_def)
    then show ?thesis using new [OF that] by (simp add: reset_hash_def)
  next
    case False
    then have "block_hash (blk s (Blk i)) = None" using hash_invD(6) [OF hinv, of i] by (auto simp: owned_def)
    then show ?thesis using new [OF that] hash_invD(4) [OF hinv, of i] False
      by (simp add: blocks_of_def reset_hash_def)
  qed
  show own: "owned s' i = (if ok then {} else owned s i)" for i
    using none new keep by (cases ok) (auto simp: owned_def side_keys_def)
  have "hash_inv s'"
  proof (cases ok)
    case True
    have "bid s' r = bid s r" for r using refs by (simp add: same_refs_def same_links_def)
    then show ?thesis
      using True own none new [OF True] hash_invD(1,7,8) [OF hinv]
      by (auto simp: hash_inv_def)
  qed (use keep hinv in simp)
  then show "pool_inv s'" using free_inv_frame [OF refs] finv by (simp add: pool_inv_def)
qed

subsection \<open>Lookup\<close>

lemma bid_Blk:
  assumes "hash_inv s" and "bid s r = int i" shows "r = Blk i"
  using assms hash_invD(1,7,8) [OF assms(1)] by (cases r) auto

lemma get_one_block_owner:
  assumes "hash_inv s"
  shows "\<exists>x. get_one_block (cached_block_hash_to_block s) key = Inr x \<and>
    (case x of None \<Rightarrow> \<forall>i. key \<notin> owned s i
     | Some b \<Rightarrow> \<exists>i. b = Blk i \<and> key \<in> owned s i \<and> 0 < i \<and> int i < num_gpu_blocks s)"
proof -
  note ok = hash_invD(2) [OF assms]
  obtain x where x: "get_one_block (cached_block_hash_to_block s) key = Inr x"
    using bi.look_up_total [OF ok] by blast
  show ?thesis
  proof (cases x)
    case None
    with bi.look_up_None [OF ok, of key] x have "key \<notin> owned s i" for i
      using hash_invD(3) [OF assms] by blast
    with x None show ?thesis by simp
  next
    case (Some b)
    with bi.look_up_Some [OF ok, of key b] x obtain i where i: "bid s b = int i" "key \<in> owned s i"
      using hash_invD(3) [OF assms] by blast
    then have "0 < i" "int i < num_gpu_blocks s" using hash_invD(6) [OF assms, of i] by force+
    with x Some i bid_Blk [OF assms i(1)] show ?thesis by auto
  qed
qed

text \<open>The key under which a hash is stored for a group; used only for 32-bit group ids.\<close>

definition group_key :: "bytes \<Rightarrow> int \<Rightarrow> bytes" where
  "group_key bh g = (case make_block_hash_with_group_id bh g of Inr k \<Rightarrow> k | Inl _ \<Rightarrow> [])"

lemma make_key: "0 \<le> g \<Longrightarrow> g < 2 ^ 32 \<Longrightarrow> make_block_hash_with_group_id bh g = Inr (group_key bh g)"
  using make_block_hash_with_group_id_ok [of g bh] by (auto simp: group_key_def)

lemma get_cached_block_correct:
  assumes "hash_inv s" and "\<And>g. g \<in> set gs \<Longrightarrow> 0 \<le> g \<and> g < 2 ^ 32"
  shows "\<exists>x. get_cached_blocks bh gs acc s = Inr x \<and>
    (case x of
       None \<Rightarrow> \<exists>g \<in> set gs. \<forall>i. group_key bh g \<notin> owned s i
     | Some bs \<Rightarrow> \<exists>js. bs = acc @ map Blk js \<and>
         list_all2 (\<lambda>g i. group_key bh g \<in> owned s i \<and> 0 < i \<and> int i < num_gpu_blocks s) gs js)"
  using assms(2)
proof (induction gs arbitrary: acc)
  case Nil
  then show ?case by simp
next
  case (Cons g gs)
  have key: "make_block_hash_with_group_id bh g = Inr (group_key bh g)" using Cons.prems by (simp add: make_key)
  obtain x where x: "get_one_block (cached_block_hash_to_block s) (group_key bh g) = Inr x"
    and own: "case x of None \<Rightarrow> \<forall>i. group_key bh g \<notin> owned s i
     | Some b \<Rightarrow> \<exists>i. b = Blk i \<and> group_key bh g \<in> owned s i \<and> 0 < i \<and> int i < num_gpu_blocks s"
    using get_one_block_owner [OF assms(1)] by blast
  show ?case
  proof (cases x)
    case None
    with key x own show ?thesis by auto
  next
    case (Some b)
    with own obtain i where i: "b = Blk i" "group_key bh g \<in> owned s i" "0 < i" "int i < num_gpu_blocks s" by auto
    obtain y where y: "get_cached_blocks bh gs (acc @ [b]) s = Inr y"
      and res: "case y of None \<Rightarrow> \<exists>g \<in> set gs. \<forall>i. group_key bh g \<notin> owned s i
       | Some bs \<Rightarrow> \<exists>js. bs = (acc @ [b]) @ map Blk js \<and>
         list_all2 (\<lambda>g i. group_key bh g \<in> owned s i \<and> 0 < i \<and> int i < num_gpu_blocks s) gs js"
      using Cons.IH [of "acc @ [b]"] Cons.prems by (meson list.set_intros(2))
    have "get_cached_blocks bh (g # gs) acc s = Inr y" using key x Some y by simp
    moreover have "case y of None \<Rightarrow> \<exists>g \<in> set (g # gs). \<forall>i. group_key bh g \<notin> owned s i
       | Some bs \<Rightarrow> \<exists>js. bs = acc @ map Blk js \<and>
         list_all2 (\<lambda>g i. group_key bh g \<in> owned s i \<and> 0 < i \<and> int i < num_gpu_blocks s) (g # gs) js"
    proof (cases y)
      case None
      with res show ?thesis by simp
    next
      case (Some bs)
      with res obtain js where "bs = (acc @ [b]) @ map Blk js"
        "list_all2 (\<lambda>g i. group_key bh g \<in> owned s i \<and> 0 < i \<and> int i < num_gpu_blocks s) gs js" by auto
      with i Some show ?thesis by (simp, intro exI [of _ "i # js"]) simp
    qed
    ultimately show ?thesis by blast
  qed
qed

subsection \<open>Caching\<close>

lemma insert_all_correct:
  assumes "hash_inv s" and "0 < j" and "int j < num_gpu_blocks s"
  shows "\<exists>s'. for_each (\<lambda>key. insert_block_hash key (Blk j) n) ks s = Inr s' \<and> hash_inv s' \<and> same_refs s s' \<and>
    owned s' j = set ks \<union> owned s j \<and> (\<forall>x. x \<noteq> j \<longrightarrow> owned s' x = owned s x)"
  using assms
proof (induction ks arbitrary: s)
  case Nil
  then show ?case by simp
next
  case (Cons k ks)
  obtain t where t: "insert_block_hash k (Blk j) n s = Inr t" "hash_inv t" "same_refs s t"
    "owned t j = insert k (owned s j)" "\<And>x. x \<noteq> j \<Longrightarrow> owned t x = owned s x"
    using insert_block_hash_correct [OF Cons.prems] by blast
  have "int j < num_gpu_blocks t" using Cons.prems(3) same_linksD(2) [OF same_refs_links [OF t(3)]] by simp
  then obtain s' where s': "for_each (\<lambda>key. insert_block_hash key (Blk j) n) ks t = Inr s'" "hash_inv s'"
    "same_refs t s'" "owned s' j = set ks \<union> owned t j" "\<forall>x. x \<noteq> j \<longrightarrow> owned s' x = owned t x"
    using Cons.IH [OF t(2) Cons.prems(2)] by blast
  then show ?case using t same_refs_trans [OF t(3) s'(3)] by (intro exI [of _ s']) auto
qed

lemma move_block_hashes_correct:
  assumes inv: "hash_inv s" and j: "0 < j" "int j < num_gpu_blocks s" and ne: "i \<noteq> j" and fresh: "owned s j = {}"
  shows "\<exists>s'. move_block_hashes (Blk i) (Blk j) s = Inr s' \<and> hash_inv s' \<and> same_refs s s' \<and>
    owned s' i = {} \<and> owned s' j = owned s i \<and> (\<forall>x. x \<noteq> i \<and> x \<noteq> j \<longrightarrow> owned s' x = owned s x)"
proof -
  have none: "block_hash (blk s (Blk j)) = None" using fresh by (auto simp: owned_def)
  obtain ks t where t: "remove_cached_block_hashes (Blk i) s = (ks, t)" by fastforce
  note r = remove_cached_block_hashes_correct [OF inv t]
  have "int j < num_gpu_blocks t" using j(2) same_linksD(2) [OF same_refs_links [OF r(2)]] by simp
  then obtain s' where s': "for_each (\<lambda>key. insert_block_hash key (Blk j) (block_hash_num_tokens (blk s (Blk i)))) ks t = Inr s'"
    "hash_inv s'" "same_refs t s'" "owned s' j = set ks \<union> owned t j" "\<forall>x. x \<noteq> j \<longrightarrow> owned s' x = owned t x"
    using insert_all_correct [OF r(1) j(1)] by blast
  have "move_block_hashes (Blk i) (Blk j) s = Inr s'"
    using none hash_invD(1,5) [OF inv, of j] t s'(1) by (simp add: move_block_hashes_def)
  then show ?thesis
    using s' r ne fresh same_refs_trans [OF r(2) s'(3)] by (intro exI [of _ s']) auto
qed

lemma cache_one_full_block_inv:
  assumes inv: "hash_inv s" and null: "is_null (blk s (Blk i)) \<longleftrightarrow> i = 0" and i: "int i < num_gpu_blocks s"
    and eq: "cache_one_full_block u ncb bs g bm nbh (k, Blk i) (s, hs) = Inr (s', hs')"
  shows "hash_inv s'" and "same_refs s s'" and "\<And>j. j \<noteq> i \<Longrightarrow> owned s' j = owned s j"
    and "i \<noteq> 0 \<Longrightarrow> \<not> masked_out bm k \<Longrightarrow> \<exists>bh key. py_index nbh (int k) = Inr bh \<and>
      make_block_hash_with_group_id bh g = Inr key \<and> key \<in> owned s' i"
proof -
  have "hash_inv s' \<and> same_refs s s' \<and> (\<forall>j. j \<noteq> i \<longrightarrow> owned s' j = owned s j) \<and>
    (i \<noteq> 0 \<longrightarrow> \<not> masked_out bm k \<longrightarrow> (\<exists>bh key. py_index nbh (int k) = Inr bh \<and>
      make_block_hash_with_group_id bh g = Inr key \<and> key \<in> owned s' i))"
  proof (cases "i = 0 \<or> masked_out bm k")
    case True
    with eq null inv show ?thesis by (auto simp: cache_one_full_block_def)
  next
    case False
    then obtain bh key t where bh: "py_index nbh (int k) = Inr bh"
      and key: "make_block_hash_with_group_id bh g = Inr key"
      and t: "(if block_hash (blk s (Blk i)) \<noteq> None then
            and_then (py_assert (case block_hash_num_tokens (blk s (Blk i)) of None \<Rightarrow> False
                | Some n \<Rightarrow> n < (ncb + int k + 1) * bs)) (\<lambda>_.
            let (removed, s) = remove_cached_block_hashes (Blk i) s
            in Inr (emit_block_removed_events u removed s))
          else Inr s) = Inr t"
      and ins: "insert_block_hash key (Blk i) (Some ((ncb + int k + 1) * bs)) t = Inr s'"
      using eq null by (auto simp: cache_one_full_block_def Let_def result_simps)
    have t': "hash_inv t" "same_refs s t" "\<And>j. j \<noteq> i \<Longrightarrow> owned t j = owned s j"
    proof -
      have "hash_inv t \<and> same_refs s t \<and> (\<forall>j. j \<noteq> i \<longrightarrow> owned t j = owned s j)"
      proof (cases "block_hash (blk s (Blk i)) = None")
        case True
        with t inv show ?thesis by simp
      next
        case False
        obtain ks w where w: "remove_cached_block_hashes (Blk i) s = (ks, w)" by fastforce
        note r = remove_cached_block_hashes_correct [OF inv w]
        have te: "t = emit_block_removed_events u ks w" using t False w by (auto simp: result_simps)
        have f: "same_hashes w t" "same_refs w t" by (simp_all add: te frame_simps)
        show ?thesis
          using r hash_inv_frame [OF f(1)] owned_frame [OF f(1)] same_refs_trans [OF r(2) f(2)] by simp
      qed
      then show "hash_inv t" "same_refs s t" "\<And>j. j \<noteq> i \<Longrightarrow> owned t j = owned s j" by blast+
    qed
    have "0 < i" "int i < num_gpu_blocks t"
      using False i same_linksD(2) [OF same_refs_links [OF t'(2)]] by simp_all
    from insert_block_hash_correct [OF t'(1) this, of key "Some ((ncb + int k + 1) * bs)"] ins
    have "hash_inv s'" "same_refs t s'" "owned s' i = insert key (owned t i)" "\<And>j. j \<noteq> i \<Longrightarrow> owned s' j = owned t j"
      by (metis sum.inject(2))+
    then show ?thesis using t' bh key same_refs_trans [OF t'(2)] by auto
  qed
  then show "hash_inv s'" "same_refs s s'" "\<And>j. j \<noteq> i \<Longrightarrow> owned s' j = owned s j"
    "i \<noteq> 0 \<Longrightarrow> \<not> masked_out bm k \<Longrightarrow> \<exists>bh key. py_index nbh (int k) = Inr bh \<and>
      make_block_hash_with_group_id bh g = Inr key \<and> key \<in> owned s' i" by blast+
qed

lemma py_slice_subset: "set (py_slice xs a b) \<subseteq> set xs"
  by (auto simp: py_slice_def dest: in_set_dropD in_set_takeD)

lemma cache_loop_inv:
  assumes "for_each (cache_one_full_block u ncb bs g bm nbh) (enumerate 0 bl) (s, hs) = Inr (s', hs')"
    and inv: "pool_inv s" and bl: "set bl \<subseteq> Blk ` {i. int i < num_gpu_blocks s}"
  shows "pool_inv s' \<and> same_refs s s'"
proof -
  have finv: "free_inv s" and hinv: "hash_inv s" using inv by (simp_all add: pool_inv_def)
  let ?P = "\<lambda>(t, _). hash_inv t \<and> same_refs s t"
  have "?P (s', hs')"
  proof (rule for_each_preserves [OF assms(1)])
    show "?P (s, hs)" using hinv by simp
    fix x w w' assume x: "x \<in> set (enumerate 0 bl)" and P: "?P w"
      and step: "cache_one_full_block u ncb bs g bm nbh x w = Inr w'"
    obtain k b where kb: "x = (k, b)" by fastforce
    with x have "b \<in> set bl" by (auto simp: enumerate_eq_zip dest: set_zip_rightD)
    with kb bl obtain i where k: "x = (k, Blk i)" "int i < num_gpu_blocks s" by auto
    obtain t ts t' ts' where w: "w = (t, ts)" "w' = (t', ts')" by fastforce
    have "is_null (blk t (Blk i)) \<longleftrightarrow> i = 0" "int i < num_gpu_blocks t"
      using P w k free_invD(3) [OF finv] same_linksD(1,2) [OF same_refs_links] by auto
    from cache_one_full_block_inv(1,2) [OF _ this, of u ncb bs g bm nbh k ts t' ts'] P w step k
    show "?P w'" using same_refs_trans by auto
  qed
  then show ?thesis using free_inv_frame finv by (auto simp: pool_inv_def)
qed

lemma push_stored_event_push:
  "push_stored_event sha u r bl ncb nfb bs g bm v hs s = Inr (r', s') \<Longrightarrow> \<exists>e. s' = push_event e s"
  unfolding push_stored_event_def by (elim and_thenE) auto

lemma cache_full_blocks_inv:
  assumes eq: "cache_full_blocks sha u r bl ncb nfb bs g bm s = Inr (r', s')"
    and inv: "pool_inv s" and bl: "set bl \<subseteq> Blk ` {i. int i < num_gpu_blocks s}"
  shows "pool_inv s'" and "same_refs s s'"
proof -
  have "pool_inv s' \<and> same_refs s s'"
  proof (cases "ncb \<ge> nfb")
    case True
    with eq inv show ?thesis by (simp add: cache_full_blocks_def)
  next
    case False
    with eq obtain v nbh t hs where
      loop: "for_each (cache_one_full_block u ncb bs g bm nbh) (enumerate 0 (py_slice bl ncb nfb)) (s, []) = Inr (t, hs)"
      and out: "(if \<not> enable_kv_cache_events t then Inr (r, t)
        else push_stored_event sha u r bl ncb nfb bs g bm v hs t) = Inr (r', s')"
      unfolding cache_full_blocks_def Let_def if_not_P [OF False]
      by (elim and_thenE2 and_thenE) (rule that)
    then have t: "s' = t \<or> (\<exists>e. s' = push_event e t)" using push_stored_event_push by (auto split: if_splits)
    have "set (py_slice bl ncb nfb) \<subseteq> Blk ` {i. int i < num_gpu_blocks s}"
      by (rule subset_trans [OF py_slice_subset bl])
    note t_inv = cache_loop_inv [OF loop inv this]
    have f: "same_hashes t s'" "same_refs t s'" using t by (auto simp: frame_simps)
    show ?thesis
      using t_inv hash_inv_frame [OF f(1)] free_inv_frame [OF f(2)] same_refs_trans [OF _ f(2)]
      by (auto simp: pool_inv_def)
  qed
  then show "pool_inv s'" "same_refs s s'" by blast+
qed

lemma emit_cached_block_events_frame:
  assumes "emit_cached_block_events sha u r ncb bs g s = Inr (r', s')"
  shows "same_hashes s s'" and "same_refs s s'"
proof -
  have "s' = s \<or> (\<exists>e. s' = push_event e s)"
    using assms by (auto simp: emit_cached_block_events_def result_simps split: if_splits)
  then show "same_hashes s s'" "same_refs s s'" by (auto simp: frame_simps)
qed

lemma cache_partial_block_inv:
  assumes eq: "cache_partial_block sha u r (Blk i) n g bs s = Inr (key, r', s')"
    and inv: "pool_inv s" and i: "int i < num_gpu_blocks s"
  shows "pool_inv s'" and "same_refs s s'" and "\<And>j. j \<noteq> i \<Longrightarrow> owned s' j = owned s j"
    and "case key of None \<Rightarrow> i = 0 \<and> s' = s | Some k \<Rightarrow> k \<in> owned s' i"
proof -
  have finv: "free_inv s" and hinv: "hash_inv s" using inv by (simp_all add: pool_inv_def)
  have "pool_inv s' \<and> same_refs s s' \<and> (\<forall>j. j \<noteq> i \<longrightarrow> owned s' j = owned s j) \<and>
    (case key of None \<Rightarrow> i = 0 \<and> s' = s | Some k \<Rightarrow> k \<in> owned s' i)"
  proof (cases "i = 0")
    case True
    with eq inv free_invD(3) [OF finv] show ?thesis by (auto simp: cache_partial_block_def)
  next
    case False
    obtain ks w where w: "remove_cached_block_hashes (Blk i) s = (ks, w)" by fastforce
    note rm = remove_cached_block_hashes_correct [OF hinv w]
    let ?e = "emit_block_removed_events u ks w"
    have null: "\<not> is_null (blk s (Blk i))" using False free_invD(3) [OF finv] by simp
    have e: "same_hashes w ?e" "same_refs w ?e" by (simp_all add: frame_simps)
    obtain k t v m where t: "t = s \<or> t = ?e" and ins: "insert_block_hash k (Blk i) m t = Inr v"
      and key: "key = Some k" and s': "s' = v \<or> (\<exists>e. s' = push_event e v)"
      using eq False free_invD(3) [OF finv] w
      unfolding cache_partial_block_def Let_def
      by (simp add: null) (elim and_thenE, clarsimp split: if_splits elim!: and_thenE, blast+)
    have t': "hash_inv t" "same_refs s t" "\<And>j. j \<noteq> i \<Longrightarrow> owned t j = owned s j"
      using t rm hinv hash_inv_frame [OF e(1)] owned_frame [OF e(1)] same_refs_trans [OF rm(2) e(2)] by auto
    have "0 < i" "int i < num_gpu_blocks t"
      using False i same_linksD(2) [OF same_refs_links [OF t'(2)]] by simp_all
    from insert_block_hash_correct [OF t'(1) this, of k m] ins
    have v: "hash_inv v" "same_refs t v" "owned v i = insert k (owned t i)" "\<And>j. j \<noteq> i \<Longrightarrow> owned v j = owned t j"
      by (metis sum.inject(2))+
    have f: "same_hashes v s'" "same_refs v s'" using s' by (auto simp: frame_simps)
    note refs = same_refs_trans [OF t'(2) same_refs_trans [OF v(2) f(2)]]
    show ?thesis
      using v t' key refs finv hash_inv_frame [OF f(1)] owned_frame [OF f(1)] free_inv_frame [OF refs]
      by (simp add: pool_inv_def)
  qed
  then show "pool_inv s'" "same_refs s s'" "\<And>j. j \<noteq> i \<Longrightarrow> owned s' j = owned s j"
    "case key of None \<Rightarrow> i = 0 \<and> s' = s | Some k \<Rightarrow> k \<in> owned s' i" by blast+
qed

text \<open>Caching blocks that are not cached yet never fails, and registers each under its hash.\<close>

lemma cache_one_fresh:
  assumes "hash_inv s" and "\<not> is_null (blk s (Blk i)) \<Longrightarrow> 0 < i \<and> int i < num_gpu_blocks s"
    and "owned s i = {}" and "k < length nbh" and "0 \<le> g" "g < 2 ^ 32"
  shows "\<exists>s' hs'. cache_one_full_block u ncb bs g bm nbh (k, Blk i) (s, hs) = Inr (s', hs')"
proof (cases "is_null (blk s (Blk i)) \<or> masked_out bm k")
  case True
  then show ?thesis by (simp add: cache_one_full_block_def)
next
  case False
  then have "block_hash (blk s (Blk i)) = None" using assms(3) by (auto simp: owned_def)
  moreover have "0 < i" "int i < num_gpu_blocks s" using assms(2) False by auto
  then obtain s' where "insert_block_hash (group_key (nbh ! k) g) (Blk i) (Some ((ncb + int k + 1) * bs)) s = Inr s'"
    by (rule insert_block_hash_correct [OF assms(1)])
  ultimately show ?thesis
    using False assms(4) make_key [OF assms(5,6)] by (simp add: cache_one_full_block_def)
qed

lemma cache_loop_fresh:
  assumes "hash_inv s" and "\<And>j. is_null (blk s (Blk j)) \<longleftrightarrow> j = 0"
    and "\<And>j. j \<in> set js \<Longrightarrow> int j < num_gpu_blocks s \<and> owned s j = {}"
    and "distinct (filter (\<lambda>j. j \<noteq> 0) js)" and "m + length js \<le> length nbh" and g: "0 \<le> g" "g < 2 ^ 32"
  shows "\<exists>s' hs'. for_each (cache_one_full_block u ncb bs g bm nbh) (enumerate m (map Blk js)) (s, hs) = Inr (s', hs') \<and>
    hash_inv s' \<and> same_refs s s' \<and> (\<forall>j. j \<notin> set js \<longrightarrow> owned s' j = owned s j) \<and>
    (\<forall>k < length js. js ! k \<noteq> 0 \<and> \<not> masked_out bm (m + k) \<longrightarrow> group_key (nbh ! (m + k)) g \<in> owned s' (js ! k))"
  using assms(1-5)
proof (induction js arbitrary: s hs m)
  case Nil
  then show ?case by simp
next
  case (Cons i js)
  obtain t ts where t: "cache_one_full_block u ncb bs g bm nbh (m, Blk i) (s, hs) = Inr (t, ts)"
    using cache_one_fresh [OF Cons.prems(1) _ _ _ g, of i m nbh u ncb bs bm hs] Cons.prems by auto
  have lt: "int i < num_gpu_blocks s" using Cons.prems(3) by simp
  note c = cache_one_full_block_inv [OF Cons.prems(1,2) lt t]
  note links = same_linksD [OF same_refs_links [OF c(2)]]
  have own: "owned t j = {}" if "j \<in> set js" for j
  proof (cases "j = i")
    case True
    show ?thesis
    proof (cases "i = 0")
      case True
      with t Cons.prems(2) have "t = s" by (simp add: cache_one_full_block_def)
      with Cons.prems(3) that show ?thesis by simp
    next
      case False
      with that \<open>j = i\<close> Cons.prems(4) show ?thesis by simp
    qed
  qed (use c(3) Cons.prems(3) that in simp)
  have key: "i \<noteq> 0 \<Longrightarrow> \<not> masked_out bm m \<Longrightarrow> group_key (nbh ! m) g \<in> owned t i"
    using c(4) Cons.prems(5) py_index_of_nat [of m nbh] make_key [OF g, of "nbh ! m"] by fastforce
  have "\<exists>s' hs'. for_each (cache_one_full_block u ncb bs g bm nbh) (enumerate (Suc m) (map Blk js)) (t, ts) = Inr (s', hs') \<and>
    hash_inv s' \<and> same_refs t s' \<and> (\<forall>j. j \<notin> set js \<longrightarrow> owned s' j = owned t j) \<and>
    (\<forall>k < length js. js ! k \<noteq> 0 \<and> \<not> masked_out bm (Suc m + k) \<longrightarrow> group_key (nbh ! (Suc m + k)) g \<in> owned s' (js ! k))"
  proof (rule Cons.IH [OF c(1)])
    show "is_null (blk t (Blk j)) \<longleftrightarrow> j = 0" for j using links(1) Cons.prems(2) by simp
    show "int j < num_gpu_blocks t \<and> owned t j = {}" if "j \<in> set js" for j
      using links(2) own [OF that] Cons.prems(3) that by simp
    show "distinct (filter (\<lambda>j. j \<noteq> 0) js)" using Cons.prems(4) by (simp split: if_splits)
    show "Suc m + length js \<le> length nbh" using Cons.prems(5) by simp
  qed
  then obtain s' hs' where s': "for_each (cache_one_full_block u ncb bs g bm nbh) (enumerate (Suc m) (map Blk js)) (t, ts) = Inr (s', hs')"
    "hash_inv s'" "same_refs t s'" "\<And>j. j \<notin> set js \<Longrightarrow> owned s' j = owned t j"
    "\<And>k. k < length js \<Longrightarrow> js ! k \<noteq> 0 \<Longrightarrow> \<not> masked_out bm (Suc m + k) \<Longrightarrow> group_key (nbh ! (Suc m + k)) g \<in> owned s' (js ! k)"
    by blast
  have "group_key (nbh ! (m + k)) g \<in> owned s' ((i # js) ! k)"
    if "k < length (i # js)" "(i # js) ! k \<noteq> 0" "\<not> masked_out bm (m + k)" for k
  proof (cases k)
    case 0
    with that have "i \<noteq> 0" "\<not> masked_out bm m" by simp_all
    moreover from this have "i \<notin> set js" using Cons.prems(4) by auto
    ultimately show ?thesis using key s'(4) 0 by simp
  next
    case (Suc l)
    with that s'(5) [of l] show ?thesis by simp
  qed
  then show ?case
    using s'(1-4) t c(3) same_refs_trans [OF c(2) s'(3)]
    by (intro exI [of _ s'] exI [of _ hs']) (auto simp: enumerate_simps)
qed

text \<open>The stored event for blocks that have hashes can always be built.\<close>

lemma collect_results_length: "collect_results rs = Inr ys \<Longrightarrow> length ys = length rs"
  by (induction rs arbitrary: ys) (auto simp: result_simps)

lemma view_before:
  assumes "view_slice_from v (int n) = Inr nbh" and "nbh \<noteq> []" and "0 < n"
  shows "\<exists>h. get_value_at v (int n - 1) = Inr h"
proof -
  have "0 < length nbh" using assms(2) by simp
  then have lt: "int n < view_len v" using collect_results_length [OF assms(1) [unfolded view_slice_from_def]] by auto
  show ?thesis
  proof (cases v)
    case (RawHashes hs)
    then show ?thesis using lt assms(3) by (simp add: py_index_nonneg)
  next
    case (ScaledHashes hs c)
    have n: "int n < int (length hs) div c" using lt ScaledHashes by simp
    then have c: "0 < c" by (metis div_by_0 div_nonneg_neg_le0 linorder_cases not_less of_nat_0_le_iff order.strict_trans2)
    have "(int n + 1) * c \<le> int (length hs) div c * c" using n c by (intro mult_right_mono) auto
    also have "\<dots> \<le> int (length hs)" using c by (simp add: minus_mod_eq_div_mult [symmetric])
    finally have "int n * c - 1 < int (length hs)" using c by (simp add: distrib_right)
    moreover have "0 < int n * c" using assms(3) c by simp
    ultimately show ?thesis using ScaledHashes by (simp add: py_index_nonneg)
  qed
qed

lemma event_keys_total:
  assumes "\<forall>k \<in> set ks. 0 \<le> k \<and> k < int (length bl)" and "0 \<le> i"
  shows "\<exists>r' j acc'. for_each (event_extra_keys sha bl ncb bs bm s) ks (r, i, acc) = Inr (r', j, acc') \<and> forget r' = forget r"
  using assms
proof (induction ks arbitrary: r i acc)
  case (Cons k ks)
  have k: "py_index bl k = Inr (bl ! nat k)" using Cons.prems(1) by (simp add: py_index_nonneg)
  obtain q j acc1 where step: "event_extra_keys sha bl ncb bs bm s k (r, i, acc) = Inr (q, j, acc1)" "0 \<le> j" "forget q = forget r"
    using k Cons.prems(2) generate_total [OF Cons.prems(2), of sha r "k * bs" "k * bs + bs"]
    by (cases "is_null (blk s (bl ! nat k)) \<or> masked_out bm (nat (k - ncb))") (auto simp: event_extra_keys_def)
  then show ?case using Cons.IH [of j q acc1] Cons.prems(1) by (auto simp: step)
qed simp

lemma push_stored_event_total:
  assumes "view_slice_from v (int ncb) = Inr nbh" and "nbh \<noteq> []" and "nfb \<le> length bl"
  shows "\<exists>r' s'. push_stored_event sha u r bl (int ncb) (int nfb) bs g bm v hs s = Inr (r', s') \<and> forget r' = forget r"
proof -
  obtain parent where "(if int ncb = 0 then Inr None
      else and_then (get_value_at v (int ncb - 1)) (\<lambda>p. Inr (Some (maybe_convert_block_hash u p)))) = Inr parent"
    using view_before [OF assms(1,2)] by (cases "ncb = 0") auto
  moreover obtain r' j acc where "for_each (event_extra_keys sha bl (int ncb) bs bm s) (py_range (int ncb) (int nfb)) (r, 0, []) = Inr (r', j, acc)"
    "forget r' = forget r"
    using event_keys_total [of "py_range (int ncb) (int nfb)" bl 0 sha "int ncb" bs bm s r "[]"] assms(3) by auto
  ultimately show ?thesis by (simp add: push_stored_event_def)
qed

lemma cache_full_blocks_total:
  assumes inv: "pool_inv s" and n: "ncb < nfb" "nfb \<le> length js"
    and v: "resolve_block_hashes (RawHashes (block_hashes r)) (hash_block_size s) bs False None = Inr v"
      "view_slice_from v (int ncb) = Inr nbh" "nfb - ncb \<le> length nbh"
    and g: "0 \<le> g" "g < 2 ^ 32"
    and bm: "case bm of None \<Rightarrow> True | Some m \<Rightarrow> length m = nfb - ncb"
    and new: "\<And>j. j \<in> set (drop ncb (take nfb js)) \<Longrightarrow> int j < num_gpu_blocks s \<and> owned s j = {}"
      "distinct (filter (\<lambda>j. j \<noteq> 0) (drop ncb (take nfb js)))"
  shows "\<exists>r' s'. cache_full_blocks sha u r (map Blk js) (int ncb) (int nfb) bs g bm s = Inr (r', s') \<and> forget r' = forget r \<and>
    pool_inv s' \<and> same_refs s s' \<and> (\<forall>j. j \<notin> set (drop ncb (take nfb js)) \<longrightarrow> owned s' j = owned s j) \<and>
    (\<forall>k. ncb \<le> k \<and> k < nfb \<and> js ! k \<noteq> 0 \<and> \<not> masked_out bm (k - ncb) \<longrightarrow>
       group_key (nbh ! (k - ncb)) g \<in> owned s' (js ! k))"
proof -
  have hinv: "hash_inv s" and finv: "free_inv s" using inv by (simp_all add: pool_inv_def)
  let ?new = "drop ncb (take nfb js)"
  have len: "length ?new = nfb - ncb" using n by simp
  have slice: "py_slice (map Blk js) (int ncb) (int nfb) = map Blk ?new"
    by (simp add: py_slice_of_nat take_map drop_map)
  obtain t hs' where loop: "for_each (cache_one_full_block u (int ncb) bs g bm nbh) (enumerate 0 (map Blk ?new)) (s, []) = Inr (t, hs')"
    and t: "hash_inv t" "same_refs s t" "\<And>j. j \<notin> set ?new \<Longrightarrow> owned t j = owned s j"
      "\<And>k. k < length ?new \<Longrightarrow> ?new ! k \<noteq> 0 \<Longrightarrow> \<not> masked_out bm k \<Longrightarrow> group_key (nbh ! k) g \<in> owned t (?new ! k)"
    using cache_loop_fresh [OF hinv free_invD(3) [OF finv] new(1) new(2) _ g, of 0 nbh u "int ncb" bs bm "[]"] v(3) len
    by auto
  have "nbh \<noteq> []" using v(3) n(1) by auto
  from push_stored_event_total [OF v(2) this, of nfb "map Blk js" sha u r bs g bm hs' t] n(2) obtain r1 s1 where
    push: "push_stored_event sha u r (map Blk js) (int ncb) (int nfb) bs g bm v hs' t = Inr (r1, s1)" "forget r1 = forget r" by auto
  define r' s' where "r' = (if enable_kv_cache_events t then r1 else r)" and "s' = (if enable_kv_cache_events t then s1 else t)"
  have eq: "cache_full_blocks sha u r (map Blk js) (int ncb) (int nfb) bs g bm s = Inr (r', s')"
    using n(1) v(1,2) bm len loop push(1) by (simp add: cache_full_blocks_def slice r'_def s'_def split: option.splits)
  have f: "same_hashes t s'" "same_refs t s'" using push_stored_event_push [OF push(1)] by (auto simp: s'_def frame_simps)
  have own: "owned s' j = owned t j" for j using f(1) by (simp add: owned_def side_keys_def same_hashes_def)
  have "group_key (nbh ! (k - ncb)) g \<in> owned s' (js ! k)"
    if "ncb \<le> k" "k < nfb" "js ! k \<noteq> 0" "\<not> masked_out bm (k - ncb)" for k
    using t(4) [of "k - ncb"] that n by (simp add: own)
  moreover have "pool_inv s'" "same_refs s s'"
    using hash_inv_frame [OF f(1)] t(1) free_inv_frame [OF same_refs_trans [OF t(2) f(2)]] finv same_refs_trans [OF t(2) f(2)]
    by (auto simp: pool_inv_def)
  ultimately show ?thesis using eq push(2) t(3) own by (intro exI [of _ r'] exI [of _ s']) (simp add: r'_def)
qed

lemma cache_full_blocks_fresh:
  assumes inv: "pool_inv s" and ev: "\<not> enable_kv_cache_events s"
    and n: "ncb < nfb" "nfb \<le> length js"
    and v: "resolve_block_hashes (RawHashes (block_hashes r)) (hash_block_size s) bs False None = Inr v"
      "view_slice_from v (int ncb) = Inr nbh" "nfb - ncb \<le> length nbh"
    and g: "0 \<le> g" "g < 2 ^ 32"
    and bm: "case bm of None \<Rightarrow> True | Some m \<Rightarrow> length m = nfb - ncb"
    and new: "\<And>j. j \<in> set (drop ncb (take nfb js)) \<Longrightarrow> int j < num_gpu_blocks s \<and> owned s j = {}"
      "distinct (filter (\<lambda>j. j \<noteq> 0) (drop ncb (take nfb js)))"
  shows "\<exists>s'. cache_full_blocks sha u r (map Blk js) (int ncb) (int nfb) bs g bm s = Inr (r, s') \<and>
    pool_inv s' \<and> same_refs s s' \<and> (\<forall>j. j \<notin> set (drop ncb (take nfb js)) \<longrightarrow> owned s' j = owned s j) \<and>
    (\<forall>k. ncb \<le> k \<and> k < nfb \<and> js ! k \<noteq> 0 \<and> \<not> masked_out bm (k - ncb) \<longrightarrow>
       group_key (nbh ! (k - ncb)) g \<in> owned s' (js ! k))"
proof -
  obtain r' s' where s': "cache_full_blocks sha u r (map Blk js) (int ncb) (int nfb) bs g bm s = Inr (r', s')" "pool_inv s'" "same_refs s s'"
    "\<forall>j. j \<notin> set (drop ncb (take nfb js)) \<longrightarrow> owned s' j = owned s j"
    "\<forall>k. ncb \<le> k \<and> k < nfb \<and> js ! k \<noteq> 0 \<and> \<not> masked_out bm (k - ncb) \<longrightarrow> group_key (nbh ! (k - ncb)) g \<in> owned s' (js ! k)"
    using cache_full_blocks_total [OF inv n v g bm new] by blast
  obtain t hs v' where out: "(if \<not> enable_kv_cache_events t then Inr (r, t)
      else push_stored_event sha u r (map Blk js) (int ncb) (int nfb) bs g bm v' hs t) = Inr (r', s')"
    using s'(1) n(1) unfolding cache_full_blocks_def Let_def by (simp split del: if_split) (elim and_thenE2 and_thenE, blast)
  have "\<not> enable_kv_cache_events s'" using ev same_refs_config [OF s'(3)] by (simp add: same_config_def)
  then have "r' = r" using out push_stored_event_push by (fastforce simp: push_event_def split: if_splits)
  with s' show ?thesis by blast
qed

section \<open>The pool and its clients\<close>

text \<open>
  A state is the pool with the multiset of references its clients hold.  Clients allocate, touch
  what a lookup returned, free what they hold, and register or drop hashes, in any order.
\<close>

inductive pool_step :: "block_pool \<times> nat multiset \<Rightarrow> block_pool \<times> nat multiset \<Rightarrow> bool" where
  step_new: "0 \<le> n \<Longrightarrow> get_new_blocks u n s = Inr (map Blk js, s') \<Longrightarrow> pool_step (s, held) (s', held + mset js)"
| step_touch: "(\<And>j. j \<in> set js \<Longrightarrow> int j < num_gpu_blocks s) \<Longrightarrow> touch (map Blk js) s = Inr s' \<Longrightarrow>
    pool_step (s, held) (s', held + mset js)"
| step_free: "mset js \<subseteq># held \<Longrightarrow> free_blocks (map Blk js) s = Inr s' \<Longrightarrow> pool_step (s, held) (s', held - mset js)"
| step_cache: "set bl \<subseteq> Blk ` {i. int i < num_gpu_blocks s} \<Longrightarrow>
    cache_full_blocks sha u r bl ncb nfb bs g bm s = Inr (r', s') \<Longrightarrow> pool_step (s, held) (s', held)"
| step_partial: "int i < num_gpu_blocks s \<Longrightarrow> cache_partial_block sha u r (Blk i) n g bs s = Inr (key, r', s') \<Longrightarrow>
    pool_step (s, held) (s', held)"
| step_emit: "emit_cached_block_events sha u r n bs g s = Inr (r', s') \<Longrightarrow> pool_step (s, held) (s', held)"
| step_move: "0 < j \<Longrightarrow> int j < num_gpu_blocks s \<Longrightarrow> i \<noteq> j \<Longrightarrow> owned s j = {} \<Longrightarrow>
    move_block_hashes (Blk i) (Blk j) s = Inr s' \<Longrightarrow> pool_step (s, held) (s', held)"
| step_evict: "set ids \<subseteq> int ` {i. int i < num_gpu_blocks s} \<Longrightarrow> evict_blocks u ids s = Inr s' \<Longrightarrow>
    pool_step (s, held) (s', held)"
| step_reset: "reset_prefix_cache s = (ok, s') \<Longrightarrow> pool_step (s, held) (s', held)"
| step_events: "take_events s = (evs, s') \<Longrightarrow> pool_step (s, held) (s', held)"

inductive pool_reachable :: "block_pool \<times> nat multiset \<Rightarrow> bool" where
  reach_init: "BlockPool_init n caching h events mc = Inr s \<Longrightarrow> pool_reachable (s, {#})"
| reach_step: "pool_reachable w \<Longrightarrow> pool_step w w' \<Longrightarrow> pool_reachable w'"

text \<open>Reference counts count the references held; only pool blocks are held.\<close>

definition client_inv :: "block_pool \<times> nat multiset \<Rightarrow> bool" where
  "client_inv = (\<lambda>(s, held). pool_inv s \<and>
     (\<forall>i > 0. ref_cnt (blk s (Blk i)) = int (count held i)) \<and>
     (\<forall>i \<in># held. int i < num_gpu_blocks s))"

lemma client_inv_refs:
  assumes "client_inv (s, held)" and "same_refs s s'" and "pool_inv s'" shows "client_inv (s', held)"
  using assms same_linksD(2) [OF same_refs_links [OF assms(2)]]
  by (auto simp: client_inv_def same_refs_def)

lemma take_events_frame: "take_events s = (evs, s') \<Longrightarrow> same_refs s s' \<and> same_hashes s s'"
  by (auto simp: take_events_def same_refs_def same_links_def same_hashes_def same_config_def split: if_splits)

lemma free_list_exists: "pool_inv s \<Longrightarrow> \<exists>xs. free_list s xs"
  using free_invD(1) by (auto simp: pool_inv_def)

lemma count_mset_list: "int (count (mset js) i) = int (count_list js i)"
  by (simp add: count_mset count_list_eq_length_filter)

lemma get_new_blocks_returns:
  assumes "pool_inv s" and "0 \<le> n" and "get_new_blocks u n s = Inr (bs, s')"
  obtains xs where "free_list s xs" and "nat n \<le> length xs" and "bs = map Blk (take (nat n) xs)"
    and "pool_inv s'" and "same_config s s'"
    and "\<And>j. ref_cnt (blk s' (Blk j)) = (if j \<in> set (take (nat n) xs) then 1 else ref_cnt (blk s (Blk j)))"
proof -
  obtain xs where xs: "free_list s xs" using free_list_exists [OF assms(1)] by blast
  have le: "nat n \<le> length xs"
    using get_new_blocks_too_many [OF xs, of n u] assms(2,3) by fastforce
  show thesis
    using get_new_blocks_correct [OF assms(1) xs le, of u] assms(2,3) that [OF xs le] by auto
qed

lemma pool_step_inv:
  assumes "pool_step w w'" and "client_inv w" shows "client_inv w'"
  using assms
proof (induction rule: pool_step.induct)
  case (step_new n u s js s' held)
  then have inv: "pool_inv s" by (simp add: client_inv_def)
  from get_new_blocks_returns [OF inv step_new(1,2)] obtain xs where
    xs: "free_list s xs" "nat n \<le> length xs" "map Blk js = map Blk (take (nat n) xs)" "pool_inv s'" "same_config s s'"
    "\<And>j. ref_cnt (blk s' (Blk j)) = (if j \<in> set (take (nat n) xs) then 1 else ref_cnt (blk s (Blk j)))" by blast
  have js: "js = take (nat n) xs" using xs(3) by (simp add: inj_map_eq_map inj_def)
  have free: "0 < j \<and> int j < num_gpu_blocks s \<and> ref_cnt (blk s (Blk j)) = 0" if "j \<in> set js" for j
    using that js free_inv_mem [OF _ xs(1)] inv by (auto simp: pool_inv_def dest: in_set_takeD)
  have cnt: "count (mset js) i = (if i \<in> set js then 1 else 0)" for i
    using fq.repr_distinct [OF xs(1)] js by (simp add: distinct_count_atmost_1 [THEN iffD1])
  have "ref_cnt (blk s' (Blk i)) = int (count (held + mset js) i)" if "0 < i" for i
    using step_new(3) free [of i] xs(6) [of i] js cnt [of i] that by (auto simp: client_inv_def)
  then show ?case
    using step_new(3) xs(4,5) free by (auto simp: client_inv_def same_config_def)
next
  case (step_touch js s s' held)
  then have inv: "pool_inv s" by (simp add: client_inv_def)
  obtain xs where xs: "free_list s xs" using free_list_exists [OF inv] by blast
  from touch_correct [OF inv xs, of js] step_touch(1,2)
  have s': "pool_inv s'" "same_hashes s s'"
    "\<And>j. ref_cnt (blk s' (Blk j)) = ref_cnt (blk s (Blk j)) + int (count_list js j)" by auto
  show ?case
    using step_touch(1,3) s'(1,3) same_hashesD(1) [OF s'(2)] count_mset_list [of js] by (auto simp: client_inv_def)
next
  case (step_free js held s s')
  then have inv: "pool_inv s" by (simp add: client_inv_def)
  obtain xs where xs: "free_list s xs" using free_list_exists [OF inv] by blast
  have le: "count_list js j \<le> count held j" for j
    using mset_subset_eq_count [OF step_free(1), of j] count_mset_list [of js j] by simp
  have lt: "int j < num_gpu_blocks s" if "j \<in> set js" for j
    using step_free(1,3) that by (auto simp: client_inv_def dest: mset_subset_eqD)
  have cnt: "int (count_list js j) \<le> ref_cnt (blk s (Blk j))" if "j \<noteq> 0" for j
    using le [of j] that step_free(3) by (auto simp: client_inv_def)
  from free_blocks_correct [OF inv xs lt cnt] step_free(2)
  have s': "pool_inv s'" "same_hashes s s'"
    "\<And>j. ref_cnt (blk s' (Blk j)) = ref_cnt (blk s (Blk j)) - int (count_list js j)" by auto
  have "ref_cnt (blk s' (Blk i)) = int (count (held - mset js) i)" if "0 < i" for i
    using step_free(3) that s'(3) [of i] le [of i] count_mset_list [of js i] by (auto simp: client_inv_def)
  then show ?case
    using step_free(3) s'(1) same_hashesD(1) [OF s'(2)] by (auto simp: client_inv_def dest: in_diffD)
next
  case (step_cache bl s sha u r ncb nfb bs g bm r' s' held)
  then have inv: "pool_inv s" by (simp add: client_inv_def)
  show ?case
    by (rule client_inv_refs [OF step_cache(3) cache_full_blocks_inv(2,1) [OF step_cache(2) inv step_cache(1)]])
next
  case (step_partial i s sha u r n g bs key r' s' held)
  then have inv: "pool_inv s" by (simp add: client_inv_def)
  show ?case
    by (rule client_inv_refs [OF step_partial(3) cache_partial_block_inv(2,1) [OF step_partial(2) inv step_partial(1)]])
next
  case (step_emit sha u r n bs g s r' s' held)
  note f = emit_cached_block_events_frame [OF step_emit(1)]
  then show ?case
    using step_emit(2) client_inv_refs [OF _ f(2)] hash_inv_frame [OF f(1)] free_inv_frame [OF f(2)]
    by (auto simp: client_inv_def pool_inv_def)
next
  case (step_move j s i s' held)
  then have inv: "pool_inv s" by (simp add: client_inv_def)
  from move_block_hashes_correct [of s j i] step_move inv have "hash_inv s'" "same_refs s s'"
    by (auto simp: pool_inv_def)
  then show ?case
    using inv client_inv_refs [OF step_move(6)] free_inv_frame [of s s'] by (auto simp: pool_inv_def)
next
  case (step_evict ids s u s' held)
  then have inv: "pool_inv s" by (simp add: client_inv_def)
  from evict_blocks_correct [OF _ step_evict(1), of u] step_evict(2) inv have "hash_inv s'" "same_refs s s'"
    by (auto simp: pool_inv_def)
  then show ?case
    using inv client_inv_refs [OF step_evict(3)] free_inv_frame [of s s'] by (auto simp: pool_inv_def)
next
  case (step_reset s ok s' held)
  then have inv: "pool_inv s" by (simp add: client_inv_def)
  show ?case
    by (rule client_inv_refs [OF step_reset(2) reset_prefix_cache_correct(3,1) [OF inv step_reset(1)]])
next
  case (step_events s evs s' held)
  have inv: "pool_inv s" using step_events(2) by (simp add: client_inv_def)
  from take_events_frame [OF step_events(1)] have f: "same_refs s s'" "same_hashes s s'" by blast+
  then have "pool_inv s'" using inv hash_inv_frame free_inv_frame by (simp add: pool_inv_def)
  then show ?case by (rule client_inv_refs [OF step_events(2) f(1)])
qed

lemma pool_reachable_inv: "pool_reachable w \<Longrightarrow> client_inv w"
proof (induction rule: pool_reachable.induct)
  case (reach_init n caching h events mc s)
  then have n: "0 < n" by (auto simp: BlockPool_init_def result_simps)
  from BlockPool_init_correct [OF n, of caching h events mc] reach_init show ?case
    by (auto simp: client_inv_def)
next
  case (reach_step w w')
  then show ?case using pool_step_inv by blast
qed

section \<open>Properties\<close>

text \<open>Four blocks, caching on, no events, for the concrete instances.\<close>

definition small_pool :: block_pool where
  "small_pool = (case BlockPool_init 4 True 2 False None of Inr s \<Rightarrow> s)"

lemma small_pool:
  shows "BlockPool_init 4 True 2 False None = Inr small_pool" and "pool_inv small_pool"
    and "free_list small_pool [1, 2, 3]" and "num_gpu_blocks small_pool = 4" and "hash_block_size small_pool = 2"
    and "ref_cnt (blk small_pool (Blk i)) = 0" and "owned small_pool i = {}" and "\<not> enable_kv_cache_events small_pool"
proof -
  obtain s where s: "BlockPool_init 4 True 2 False None = Inr s" "pool_inv s" "free_list s [1..<nat 4]"
    "num_gpu_blocks s = 4" "hash_block_size s = 2" "\<not> enable_kv_cache_events s"
    "\<forall>i. ref_cnt (blk s (Blk i)) = 0" "\<forall>i. owned s i = {}"
    using BlockPool_init_correct [of 4 True 2 False None] by auto
  then have eq: "small_pool = s" by (simp add: small_pool_def)
  have "[1..<nat 4] = [1, 2, 3]" by (simp add: upt_rec)
  with s eq show "BlockPool_init 4 True 2 False None = Inr small_pool" "pool_inv small_pool"
    "free_list small_pool [1, 2, 3]" "num_gpu_blocks small_pool = 4" "hash_block_size small_pool = 2"
    "ref_cnt (blk small_pool (Blk i)) = 0" "owned small_pool i = {}" "\<not> enable_kv_cache_events small_pool"
    by simp_all
qed

text \<open>
  C7.  In every state reachable from a fresh pool by any sequence of client calls: the free list holds
  exactly the unreferenced blocks, each reference count is the number of references held, the hash
  index and the blocks' own hashes agree in both directions, the null block is never free and never
  cached; and an allocation hands out distinct blocks that nobody holds.
\<close>

theorem pool_reachable_safe:
  assumes "pool_reachable (s, held)"
  shows "pool_inv s \<and> (\<forall>i > 0. ref_cnt (blk s (Blk i)) = int (count held i)) \<and>
    (\<forall>xs. free_list s xs \<longrightarrow> (\<forall>i. i \<in> set xs \<longleftrightarrow> 0 < i \<and> int i < num_gpu_blocks s \<and> i \<notin># held)) \<and>
    (\<forall>u n bs s'. 0 \<le> n \<longrightarrow> get_new_blocks u n s = Inr (bs, s') \<longrightarrow>
       (\<exists>js. bs = map Blk js \<and> int (length js) = n \<and> distinct js \<and> 0 \<notin> set js \<and> set js \<inter> set_mset held = {}))"
proof -
  have inv: "pool_inv s" and cnt: "\<And>i. 0 < i \<Longrightarrow> ref_cnt (blk s (Blk i)) = int (count held i)"
    using pool_reachable_inv [OF assms] by (simp_all add: client_inv_def)
  have free: "i \<in> set xs \<longleftrightarrow> 0 < i \<and> int i < num_gpu_blocks s \<and> i \<notin># held" if "free_list s xs" for xs i
    using free_inv_mem [OF _ that, of i] inv cnt [of i] by (auto simp: pool_inv_def count_eq_zero_iff)
  have "\<exists>js. bs = map Blk js \<and> int (length js) = n \<and> distinct js \<and> 0 \<notin> set js \<and> set js \<inter> set_mset held = {}"
    if new: "0 \<le> n" "get_new_blocks u n s = Inr (bs, s')" for u n bs s'
  proof -
    obtain xs where xs: "free_list s xs" "nat n \<le> length xs" "bs = map Blk (take (nat n) xs)"
      using get_new_blocks_returns [OF inv new] by blast
    have "distinct (take (nat n) xs)" using fq.repr_distinct [OF xs(1)] by simp
    moreover have "0 \<notin> set (take (nat n) xs)" "set (take (nat n) xs) \<inter> set_mset held = {}"
      using free [OF xs(1)] by (auto dest: in_set_takeD)
    ultimately show ?thesis using xs new(1) by (intro exI [of _ "take (nat n) xs"]) simp
  qed
  with inv cnt free show ?thesis by blast
qed

theorem pool_reachable_safe_witness:
  "pool_inv small_pool \<and> (\<exists>xs. free_list small_pool xs \<and> 3 \<in> set xs \<and> 0 \<notin> set xs)"
  using pool_reachable_safe [OF reach_init [OF small_pool(1)]] small_pool(3) by fastforce

text \<open>
  C20.  With \<open>n\<close> or more free blocks, \<open>get_new_blocks n\<close> returns the first \<open>n\<close> of the eviction order with one
  reference each, evicts them from the prefix cache, and changes no other block; with fewer it raises
  \<open>ValueError\<close>.
\<close>

theorem allocation_functional:
  assumes "pool_inv s" and "free_list s xs"
  shows "(\<forall>n \<le> length xs. \<exists>s'. get_new_blocks u (int n) s = Inr (map Blk (take n xs), s') \<and> pool_inv s' \<and>
      free_list s' (drop n xs) \<and>
      (\<forall>j. ref_cnt (blk s' (Blk j)) = (if j \<in> set (take n xs) then 1 else ref_cnt (blk s (Blk j)))) \<and>
      (\<forall>j. owned s' j = (if j \<in> set (take n xs) \<and> enable_caching s then {} else owned s j))) \<and>
    (\<forall>n. int (length xs) < n \<longrightarrow> get_new_blocks u n s = Inl ValueError)"
  using get_new_blocks_correct [OF assms] get_new_blocks_too_many [OF assms(2)] by blast

theorem allocation_functional_witness:
  "\<exists>s'. get_new_blocks False 2 small_pool = Inr ([Blk 1, Blk 2], s') \<and> free_list s' [3]"
  using conjunct1 [OF allocation_functional [OF small_pool(2,3)], rule_format, of 2 False]
  by (auto simp: numeral_2_eq_2)

text \<open>
  C11.  Freeing a list of references decrements every count; the blocks that reach zero join the free
  list in the order of the list, those without a hash in front of it (first to be reused) and cached
  ones behind it (last to be evicted), so that a cached block outlives every uncached one.
\<close>

theorem free_blocks_order:
  assumes "pool_inv s" and "free_list s xs" and "\<forall>j \<in> set js. int j < num_gpu_blocks s"
    and "\<forall>j. j \<noteq> 0 \<longrightarrow> int (count_list js j) \<le> ref_cnt (blk s (Blk j))"
  shows "\<exists>s'. free_blocks (map Blk js) s = Inr s' \<and> pool_inv s' \<and> same_hashes s s' \<and>
    free_list s' (filter (reuse_first s) (released s js) @ xs @ filter (\<lambda>j. \<not> reuse_first s j) (released s js)) \<and>
    (\<forall>j. ref_cnt (blk s' (Blk j)) = ref_cnt (blk s (Blk j)) - int (count_list js j))"
  by (rule free_blocks_correct [OF assms(1,2)]) (use assms(3,4) in blast)+

theorem free_blocks_order_witness:
  "\<exists>s s'. get_new_blocks False 2 small_pool = Inr ([Blk 1, Blk 2], s) \<and>
     free_blocks [Blk 2, Blk 1] s = Inr s' \<and> pool_inv s' \<and> (\<exists>ys. free_list s' ys \<and> 3 \<in> set ys)"
proof -
  obtain s where s: "get_new_blocks False 2 small_pool = Inr ([Blk 1, Blk 2], s)" "pool_inv s" "free_list s [3]"
    "\<And>j. ref_cnt (blk s (Blk j)) = (if j \<in> {1, 2} then 1 else 0)" "num_gpu_blocks s = 4"
    using get_new_blocks_correct [OF small_pool(2,3), of 2 False] small_pool(4,6)
    by (auto simp: numeral_2_eq_2 same_config_def)
  have "\<exists>s'. free_blocks (map Blk [2, 1]) s = Inr s' \<and> pool_inv s' \<and> same_hashes s s' \<and>
    free_list s' (filter (reuse_first s) (released s [2, 1]) @ [3] @ filter (\<lambda>j. \<not> reuse_first s j) (released s [2, 1])) \<and>
    (\<forall>j. ref_cnt (blk s' (Blk j)) = ref_cnt (blk s (Blk j)) - int (count_list [2, 1] j))"
    by (rule free_blocks_order [OF s(2,3)]) (use s(4,5) in auto)
  with s(1) show ?thesis by fastforce
qed

text \<open>
  C10.  \<open>touch\<close> adds one reference per listed block and takes the ones that were free out of the free
  list, so that a prefix-cache hit cannot be evicted under its user; hashes are untouched.
\<close>

theorem touch_protects:
  assumes "pool_inv s" and "free_list s xs" and "\<forall>j \<in> set js. int j < num_gpu_blocks s"
  shows "\<exists>s'. touch (map Blk js) s = Inr s' \<and> pool_inv s' \<and> same_hashes s s' \<and>
    free_list s' (filter (\<lambda>j. j \<notin> set js) xs) \<and>
    (\<forall>j. ref_cnt (blk s' (Blk j)) = ref_cnt (blk s (Blk j)) + int (count_list js j))"
  by (rule touch_correct [OF assms(1,2)]) (use assms(3) in blast)

theorem touch_protects_witness:
  "\<exists>s'. touch [Blk 2, Blk 2] small_pool = Inr s' \<and> free_list s' [1, 3] \<and> ref_cnt (blk s' (Blk 2)) = 2"
  using touch_protects [OF small_pool(2,3), of "[2, 2]"] small_pool(4,6) by auto

text \<open>
  C21.  A prefix-cache lookup never fails.  It returns one block per group, each a pool block other than
  the null block that really carries the hash, and it misses only when some group has no such block.
\<close>

theorem cached_lookup_sound:
  assumes "pool_inv s" and "\<forall>g \<in> set gs. 0 \<le> g \<and> g < 2 ^ 32"
  shows "\<exists>x. get_cached_block bh gs s = Inr x \<and>
    (case x of
       None \<Rightarrow> \<exists>g \<in> set gs. \<forall>i. group_key bh g \<notin> owned s i
     | Some bs \<Rightarrow> \<exists>js. bs = map Blk js \<and>
         list_all2 (\<lambda>g i. group_key bh g \<in> owned s i \<and> 0 < i \<and> int i < num_gpu_blocks s) gs js)"
  unfolding get_cached_block_def using assms
  by (intro get_cached_block_correct [of s gs bh "[]", unfolded append_Nil]) (auto simp: pool_inv_def)

theorem cached_lookup_sound_witness: "get_cached_block [7] [0] small_pool = Inr None"
  using cached_lookup_sound [OF small_pool(2), of "[0]" "[7]"] small_pool(7)
  by (auto split: option.splits simp: list_all2_Cons1)



text \<open>
  Evicting block ids removes every hash of those blocks and nothing else; a reset succeeds
  exactly when no block but the null block is in use, and then the cache is empty; a failed reset
  changes nothing.
\<close>

theorem eviction_and_reset:
  assumes "pool_inv s"
  shows "(\<forall>ids. set ids \<subseteq> int ` {i. int i < num_gpu_blocks s} \<longrightarrow> (\<exists>s'. evict_blocks u ids s = Inr s' \<and> pool_inv s' \<and>
      same_refs s s' \<and> (\<forall>i. owned s' i = (if int i \<in> set ids then {} else owned s i)))) \<and>
    (case reset_prefix_cache s of (ok, s') \<Rightarrow> pool_inv s' \<and>
      (ok \<longleftrightarrow> (\<forall>i. 0 < i \<and> int i < num_gpu_blocks s \<longrightarrow> ref_cnt (blk s (Blk i)) = 0)) \<and>
      (if ok then \<forall>i. owned s' i = {} else s' = s))"
proof -
  have "\<exists>s'. evict_blocks u ids s = Inr s' \<and> pool_inv s' \<and>
      same_refs s s' \<and> (\<forall>i. owned s' i = (if int i \<in> set ids then {} else owned s i))"
    if ids: "set ids \<subseteq> int ` {i. int i < num_gpu_blocks s}" for ids
  proof -
    obtain s' where s': "evict_blocks u ids s = Inr s'" "hash_inv s'" "same_refs s s'"
      "\<forall>i. owned s' i = (if int i \<in> set ids then {} else owned s i)"
      using evict_blocks_correct [OF _ ids, of u] assms by (auto simp: pool_inv_def)
    then have "pool_inv s'" using free_inv_frame assms by (simp add: pool_inv_def)
    with s' show ?thesis by blast
  qed
  moreover obtain ok s' where r: "reset_prefix_cache s = (ok, s')" by fastforce
  note reset_prefix_cache_correct [OF assms r]
  ultimately show ?thesis unfolding r prod.case by (cases ok) (simp_all only: if_True if_False, blast+)
qed

theorem eviction_and_reset_witness:
  "(\<exists>s'. evict_blocks False [2] small_pool = Inr s' \<and> pool_inv s') \<and> fst (reset_prefix_cache small_pool)"
proof -
  have "set [2] \<subseteq> int ` {i. int i < num_gpu_blocks small_pool}"
    using small_pool(4) by (auto simp: image_iff intro!: exI [of _ 2])
  moreover note e = eviction_and_reset [OF small_pool(2), of False]
  ultimately have "\<exists>s'. evict_blocks False [2] small_pool = Inr s' \<and> pool_inv s'" by blast
  moreover have "fst (reset_prefix_cache small_pool)"
    using conjunct2 [OF e] small_pool(6) by (simp split: prod.splits)
  ultimately show ?thesis by blast
qed

text \<open>
  Moving hashes to a private copy re-points every key of the source block to the copy: the source
  owns none afterwards, the copy owns exactly what the source owned, and nothing else moves.
\<close>

theorem move_hashes:
  assumes "pool_inv s" and "0 < j" and "int j < num_gpu_blocks s" and "i \<noteq> j" and "owned s j = {}"
  shows "\<exists>s'. move_block_hashes (Blk i) (Blk j) s = Inr s' \<and> pool_inv s' \<and> same_refs s s' \<and>
    owned s' i = {} \<and> owned s' j = owned s i \<and> (\<forall>x. x \<noteq> i \<and> x \<noteq> j \<longrightarrow> owned s' x = owned s x)"
proof -
  obtain s' where s': "move_block_hashes (Blk i) (Blk j) s = Inr s'" "hash_inv s'" "same_refs s s'"
    "owned s' i = {}" "owned s' j = owned s i" "\<forall>x. x \<noteq> i \<and> x \<noteq> j \<longrightarrow> owned s' x = owned s x"
    using move_block_hashes_correct [OF _ assms(2-5)] assms(1) by (auto simp: pool_inv_def)
  then have "pool_inv s'" using free_inv_frame assms(1) by (simp add: pool_inv_def)
  with s' show ?thesis by blast
qed

theorem move_hashes_witness: "\<exists>s'. move_block_hashes (Blk 1) (Blk 2) small_pool = Inr s' \<and> pool_inv s'"
  using move_hashes [OF small_pool(2), of 2 1] small_pool(4,7) by auto

text \<open>
  The reported usage is between 0 and 1: 0 exactly when every block but the null block is free (or
  there is no other block), and it counts the blocks in use.
\<close>

theorem usage_bounds:
  assumes "pool_inv s"
  shows "0 \<le> get_usage s \<and> get_usage s \<le> 1 \<and>
    get_usage s * of_int (num_gpu_blocks s - 1) = of_int (num_gpu_blocks s - 1 - get_num_free_blocks s)"
proof -
  obtain xs where xs: "free_list s xs" using free_list_exists [OF assms] by blast
  have finv: "free_inv s" using assms by (simp add: pool_inv_def)
  have sub: "set xs \<subseteq> {1..<nat (num_gpu_blocks s)}"
  proof
    fix j assume "j \<in> set xs"
    with free_inv_mem [OF finv xs, of j] show "j \<in> {1..<nat (num_gpu_blocks s)}" by auto
  qed
  have "length xs \<le> nat (num_gpu_blocks s) - 1"
    using card_mono [OF _ sub] distinct_card [OF fq.repr_distinct [OF xs]] by simp
  then have le: "0 \<le> num_free_blocks s" "num_free_blocks s \<le> num_gpu_blocks s - 1"
    using free_list_length [OF xs] free_invD(4) [OF finv] by linarith+
  show ?thesis
  proof (cases "num_gpu_blocks s = 1")
    case True
    with le show ?thesis by (simp add: get_usage_def get_num_free_blocks_def)
  next
    case False
    with free_invD(4) [OF finv] have pos: "0 < num_gpu_blocks s - 1" by linarith
    define t f where "t = (of_int (num_gpu_blocks s - 1) :: rat)" and "f = (of_int (num_free_blocks s) :: rat)"
    have tf: "0 < t" "0 \<le> f" "f \<le> t" using pos le by (simp_all only: t_def f_def of_int_0_less_iff of_int_0_le_iff of_int_le_iff)
    have "get_usage s = 1 - f / t"
      using False by (simp add: get_usage_def get_num_free_blocks_def t_def f_def)
    moreover have "0 \<le> 1 - f / t" "1 - f / t \<le> 1" "(1 - f / t) * t = t - f" using tf by (simp_all add: field_simps)
    moreover have "(of_int (num_gpu_blocks s - 1 - get_num_free_blocks s) :: rat) = t - f"
      by (simp add: t_def f_def get_num_free_blocks_def)
    ultimately show ?thesis by (simp only: t_def)
  qed
qed

theorem usage_bounds_witness: "0 \<le> get_usage small_pool \<and> get_usage small_pool \<le> 1"
  using usage_bounds [OF small_pool(2)] by blast

end
