(* ===== verification/Encoder_Cache.thy ===== *)
theory Encoder_Cache
  imports Request_Model
begin

text \<open>
  The encoder cache managers (\<^verbatim>\<open>vllm/v1/core/encoder_cache_manager.py\<close>): bookkeeping of the space that
  encoder outputs of multi-modal items take, shared between requests by content hash.

  \<^verbatim>\<open>cached\<close> maps a hash to the set of request ids that reference it; \<^verbatim>\<open>freeable\<close>, an ordered
  dictionary, holds the entries without references, oldest first.
\<close>

section \<open>State and operations\<close>

record EncoderCacheManager =
  cache_size :: int
  num_free_slots :: int
  num_freeable_slots :: int
  cached :: "(string, string list) dict"
  request_cached_ids :: "(string, int list) dict"
  freeable :: "(string, int) dict"
  freed :: "string list"

definition EncoderCacheManager_init :: "int \<Rightarrow> EncoderCacheManager" where
  "EncoderCacheManager_init sz =
     \<lparr>cache_size = sz, num_free_slots = sz, num_freeable_slots = sz, cached = [],
      request_cached_ids = [], freeable = [], freed = []\<rparr>"

definition reset_encoder_cache :: "EncoderCacheManager \<Rightarrow> EncoderCacheManager" where
  "reset_encoder_cache m =
     m\<lparr>cached := [], request_cached_ids := [], freeable := [], freed := [],
       num_free_slots := cache_size m, num_freeable_slots := cache_size m\<rparr>"

definition mm_hash_of :: "Request \<Rightarrow> int \<Rightarrow> string result" where
  "mm_hash_of r input_id = and_then (py_index (mm_features r) input_id) (\<lambda>f. Inr (mm_identifier f))"

text \<open>\<^verbatim>\<open>self.request_cached_ids.setdefault(request_id, set()).add(input_id)\<close>\<close>

definition note_cached_id :: "string \<Rightarrow> int \<Rightarrow> EncoderCacheManager \<Rightarrow> EncoderCacheManager" where
  "note_cached_id rid input_id m =
     (let old = (case dict_get (request_cached_ids m) rid of None \<Rightarrow> [] | Some ids \<Rightarrow> ids)
      in m\<lparr>request_cached_ids := dict_set rid (set_add input_id old) (request_cached_ids m)\<rparr>)"

definition check_and_update_cache ::
    "Request \<Rightarrow> int \<Rightarrow> EncoderCacheManager \<Rightarrow> (bool \<times> EncoderCacheManager) result" where
  "check_and_update_cache r input_id m =
     and_then (mm_hash_of r input_id) (\<lambda>mm_hash.
     case dict_get (cached m) mm_hash of
       None \<Rightarrow> Inr (False, m)
     | Some refs \<Rightarrow>
         and_then
           (if refs = [] then
              (case dict_get (freeable m) mm_hash of
                 None \<Rightarrow> Inl KeyError
               | Some n \<Rightarrow> Inr (m\<lparr>freeable := dict_del mm_hash (freeable m),
                                 num_freeable_slots := num_freeable_slots m - n\<rparr>))
            else Inr m) (\<lambda>m.
         Inr (True, note_cached_id (request_id r) input_id
           (m\<lparr>cached := dict_set mm_hash (set_add (request_id r) refs) (cached m)\<rparr>))))"

fun evict_until ::
    "int \<Rightarrow> (string, int) dict \<Rightarrow> EncoderCacheManager \<Rightarrow> EncoderCacheManager result" where
  "evict_until num_embeds q m =
     (if num_embeds > num_free_slots m then
        (case q of
           [] \<Rightarrow> Inl KeyError
         | (mm_hash, n) # rest \<Rightarrow>
             (case dict_get (cached m) mm_hash of
                None \<Rightarrow> Inl KeyError
              | Some _ \<Rightarrow>
                  evict_until num_embeds rest
                    (m\<lparr>freeable := rest, cached := dict_del mm_hash (cached m),
                       freed := freed m @ [mm_hash], num_free_slots := num_free_slots m + n\<rparr>)))
      else Inr m)"

declare evict_until.simps [simp del]

definition can_allocate ::
    "Request \<Rightarrow> int \<Rightarrow> int \<Rightarrow> int \<Rightarrow> EncoderCacheManager \<Rightarrow> (bool \<times> EncoderCacheManager) result" where
  "can_allocate r input_id encoder_compute_budget num_embeds_to_schedule m =
     and_then (get_num_encoder_embeds r input_id) (\<lambda>num_embeds.
     if num_embeds > encoder_compute_budget then Inr (False, m)
     else
       let num_embeds = num_embeds + num_embeds_to_schedule in
       if num_embeds \<le> num_free_slots m then Inr (True, m)
       else if num_embeds > num_freeable_slots m then Inr (False, m)
       else and_then (evict_until num_embeds (freeable m) m) (\<lambda>m. Inr (True, m)))"

definition allocate :: "Request \<Rightarrow> int \<Rightarrow> EncoderCacheManager \<Rightarrow> EncoderCacheManager result" where
  "allocate r input_id m =
     and_then (mm_hash_of r input_id) (\<lambda>mm_hash.
     let refs = (case dict_get (cached m) mm_hash of None \<Rightarrow> [] | Some rs \<Rightarrow> rs) in
     and_then (get_num_encoder_embeds r input_id) (\<lambda>n.
     and_then (py_assert (num_free_slots m \<ge> n)) (\<lambda>_.
     and_then (py_assert (num_freeable_slots m \<ge> n)) (\<lambda>_.
     let m = note_cached_id (request_id r) input_id
               (m\<lparr>cached := dict_set mm_hash (set_add (request_id r) refs) (cached m)\<rparr>)
     in Inr (m\<lparr>num_free_slots := num_free_slots m - n,
               num_freeable_slots := num_freeable_slots m - n\<rparr>)))))"

definition get_cached_input_ids :: "Request \<Rightarrow> EncoderCacheManager \<Rightarrow> int list" where
  "get_cached_input_ids r m =
     (case dict_get (request_cached_ids m) (request_id r) of None \<Rightarrow> [] | Some ids \<Rightarrow> ids)"

definition forget_cached_id :: "string \<Rightarrow> int \<Rightarrow> EncoderCacheManager \<Rightarrow> EncoderCacheManager" where
  "forget_cached_id rid input_id m =
     (case dict_get (request_cached_ids m) rid of
        None \<Rightarrow> m
      | Some ids \<Rightarrow>
          let ids = set_discard input_id ids in
          m\<lparr>request_cached_ids :=
              (if ids = [] then dict_del rid (request_cached_ids m)
               else dict_set rid ids (request_cached_ids m))\<rparr>)"

definition free_encoder_input :: "Request \<Rightarrow> int \<Rightarrow> EncoderCacheManager \<Rightarrow> EncoderCacheManager result" where
  "free_encoder_input r input_id m =
     and_then (mm_hash_of r input_id) (\<lambda>mm_hash.
     let m = forget_cached_id (request_id r) input_id m in
     case dict_get (cached m) mm_hash of
       None \<Rightarrow> Inr m
     | Some refs \<Rightarrow>
         if refs = [] then Inr m
         else
           let refs = set_discard (request_id r) refs;
               m = m\<lparr>cached := dict_set mm_hash refs (cached m)\<rparr>
           in if refs = [] then
                and_then (get_num_encoder_embeds r input_id) (\<lambda>n.
                Inr (m\<lparr>freeable := dict_set mm_hash n (freeable m),
                       num_freeable_slots := num_freeable_slots m + n\<rparr>))
              else Inr m)"

definition free_encoder_cache :: "Request \<Rightarrow> EncoderCacheManager \<Rightarrow> EncoderCacheManager result" where
  "free_encoder_cache r m = for_each (free_encoder_input r) (get_cached_input_ids r m) m"

definition get_freed_mm_hashes :: "EncoderCacheManager \<Rightarrow> string list \<times> EncoderCacheManager" where
  "get_freed_mm_hashes m =
     (filter (\<lambda>h. dict_get (cached m) h = None) (freed m), m\<lparr>freed := []\<rparr>)"

section \<open>Budget\<close>

record MmSchedulerConfig =
  disable_chunked_mm_input :: bool
  mm_max_num_batched_tokens :: int
  max_num_encoder_input_tokens :: int
  encoder_cache_size :: int

definition compute_mm_encoder_budget ::
    "MmSchedulerConfig \<Rightarrow> (string, int) dict \<Rightarrow> (int \<times> int) result" where
  "compute_mm_encoder_budget cfg mm_max_toks_per_item =
     (if mm_max_toks_per_item = [] then Inr (0, 0)
      else
        let max_tokens_per_mm_item = Max (set (map snd mm_max_toks_per_item)) in
        if disable_chunked_mm_input cfg \<and> max_tokens_per_mm_item > mm_max_num_batched_tokens cfg
        then Inl ValueError
        else Inr (max (max_num_encoder_input_tokens cfg) max_tokens_per_mm_item,
                  max (encoder_cache_size cfg) max_tokens_per_mm_item))"

section \<open>Encoder-decoder models\<close>

record EncoderDecoderCacheManager =
  ed_cache_size :: int
  ed_num_free_slots :: int
  ed_allocated :: "string list"
  ed_to_free :: "string list"

definition EncoderDecoderCacheManager_init :: "int \<Rightarrow> EncoderDecoderCacheManager" where
  "EncoderDecoderCacheManager_init sz =
     \<lparr>ed_cache_size = sz, ed_num_free_slots = sz, ed_allocated = [], ed_to_free = []\<rparr>"

definition ed_reset :: "EncoderDecoderCacheManager \<Rightarrow> EncoderDecoderCacheManager" where
  "ed_reset m = m\<lparr>ed_num_free_slots := ed_cache_size m, ed_allocated := [], ed_to_free := []\<rparr>"

definition ed_can_allocate ::
    "Request \<Rightarrow> int \<Rightarrow> int \<Rightarrow> int \<Rightarrow> EncoderDecoderCacheManager \<Rightarrow> bool result" where
  "ed_can_allocate r input_id encoder_compute_budget num_embeds_to_schedule m =
     and_then (get_num_encoder_embeds r input_id) (\<lambda>n.
     if n > encoder_compute_budget then Inr False
     else Inr (n + num_embeds_to_schedule \<le> ed_num_free_slots m))"

definition ed_allocate :: "Request \<Rightarrow> int \<Rightarrow> EncoderDecoderCacheManager \<Rightarrow> EncoderDecoderCacheManager result" where
  "ed_allocate r input_id m =
     and_then (get_num_encoder_embeds r input_id) (\<lambda>n.
     and_then (mm_hash_of r input_id) (\<lambda>mm_hash.
     Inr (m\<lparr>ed_num_free_slots := ed_num_free_slots m - n, ed_allocated := ed_allocated m @ [mm_hash]\<rparr>)))"

definition ed_free_encoder_input ::
    "Request \<Rightarrow> int \<Rightarrow> EncoderDecoderCacheManager \<Rightarrow> EncoderDecoderCacheManager result" where
  "ed_free_encoder_input r input_id m =
     and_then (get_num_encoder_embeds r input_id) (\<lambda>n.
     Inr (m\<lparr>ed_num_free_slots := ed_num_free_slots m + n\<rparr>))"

definition ed_free :: "Request \<Rightarrow> EncoderDecoderCacheManager \<Rightarrow> EncoderDecoderCacheManager result" where
  "ed_free r m = for_each (ed_free_encoder_input r) (py_range 0 (int (length (mm_features r)))) m"

definition ed_get_cached_input_ids :: "Request \<Rightarrow> int list" where
  "ed_get_cached_input_ids r = py_range 0 (int (length (mm_features r)))"

definition ed_get_freed_mm_hashes ::
    "EncoderDecoderCacheManager \<Rightarrow> string list \<times> EncoderDecoderCacheManager" where
  "ed_get_freed_mm_hashes m = (ed_to_free m, m\<lparr>ed_to_free := ed_allocated m, ed_allocated := []\<rparr>)"

section \<open>The accounting invariant\<close>

text \<open>
  \<open>sz h\<close> is the number of embeddings of the item with hash \<open>h\<close>: the hash identifies the content.
\<close>

definition space :: "(string \<Rightarrow> int) \<Rightarrow> (string, 'v) dict \<Rightarrow> int" where
  "space sz d = (\<Sum>h \<in> dom (map_of d). sz h)"

definition enc_inv :: "(string \<Rightarrow> int) \<Rightarrow> EncoderCacheManager \<Rightarrow> bool" where
  "enc_inv sz m \<longleftrightarrow>
     dict_ok (freeable m) \<and> (\<forall>h. 0 \<le> sz h) \<and>
     (\<forall>h. dict_get (freeable m) h = (if dict_get (cached m) h = Some [] then Some (sz h) else None)) \<and>
     num_free_slots m = cache_size m - space sz (cached m) \<and>
     num_freeable_slots m = num_free_slots m + space sz (freeable m) \<and>
     0 \<le> num_free_slots m"

definition sized :: "(string \<Rightarrow> int) \<Rightarrow> Request \<Rightarrow> bool" where
  "sized sz r \<longleftrightarrow> (\<forall>f \<in> set (mm_features r). get_num_embeds (mm_position f) = sz (mm_identifier f))"

lemma space_Nil [simp]: "space sz [] = 0"
  by (simp add: space_def)

lemma space_set_new: "dict_get d h = None \<Longrightarrow> space sz (dict_set h v d) = space sz d + sz h"
  by (simp add: space_def update_conv' domIff finite_dom_map_of)

lemma space_set_old: "dict_get d h \<noteq> None \<Longrightarrow> space sz (dict_set h v d) = space sz d"
  by (simp add: space_def update_conv' insert_absorb domIff)

lemma space_del: "dict_get d h \<noteq> None \<Longrightarrow> space sz (dict_del h d) = space sz d - sz h"
proof -
  assume "dict_get d h \<noteq> None"
  moreover have "dom (map_of (dict_del h d)) = dom (map_of d) - {h}" by (auto simp: delete_conv' split: if_splits)
  ultimately show ?thesis unfolding space_def by (simp add: sum_diff1 finite_dom_map_of domIff)
qed

lemma space_nonneg: "(\<And>h. 0 \<le> sz h) \<Longrightarrow> 0 \<le> space sz d"
  by (simp add: space_def sum_nonneg)

lemma enc_invD:
  assumes "enc_inv sz m"
  shows "dict_ok (freeable m)" and "0 \<le> sz h"
    and "dict_get (freeable m) h = (if dict_get (cached m) h = Some [] then Some (sz h) else None)"
    and "num_free_slots m = cache_size m - space sz (cached m)"
    and "num_freeable_slots m = num_free_slots m + space sz (freeable m)"
    and "0 \<le> num_free_slots m"
  using assms unfolding enc_inv_def by blast+

lemma enc_inv_ids: "enc_inv sz (m\<lparr>request_cached_ids := d\<rparr>) = enc_inv sz m"
  by (simp add: enc_inv_def)

lemma note_cached_id_inv [simp]: "enc_inv sz (note_cached_id rid i m) = enc_inv sz m"
  by (simp add: note_cached_id_def enc_inv_ids)

lemma forget_cached_id_inv [simp]: "enc_inv sz (forget_cached_id rid i m) = enc_inv sz m"
  by (simp add: forget_cached_id_def enc_inv_ids Let_def split: option.splits)

lemma forget_cached_id_sel [simp]:
  "cached (forget_cached_id rid i m) = cached m" "freeable (forget_cached_id rid i m) = freeable m"
  by (simp_all add: forget_cached_id_def Let_def split: option.splits)

lemma item_Inr:
  assumes "sized sz r" and "0 \<le> i" "i < int (length (mm_features r))"
  obtains h where "mm_hash_of r i = Inr h" and "get_num_encoder_embeds r i = Inr (sz h)"
    and "h = mm_identifier (mm_features r ! nat i)"
  using assms
  by (simp add: mm_hash_of_def get_num_encoder_embeds_def py_index_nonneg sized_def)

text \<open>A free dictionary is consumed from the front without touching the rest.\<close>

lemma evict_until_correct:
  assumes "enc_inv sz m" and "n \<le> num_freeable_slots m"
  shows "\<exists>m'. evict_until n (freeable m) m = Inr m' \<and> enc_inv sz m' \<and> n \<le> num_free_slots m' \<and>
    num_freeable_slots m' = num_freeable_slots m \<and> cache_size m' = cache_size m \<and>
    (\<forall>h. dict_get (cached m') h = (if h \<in> set (drop (length (freed m)) (freed m')) then None else dict_get (cached m) h)) \<and>
    (\<exists>k. drop (length (freed m)) (freed m') = map fst (take k (freeable m)) \<and> freeable m' = drop k (freeable m)) \<and>
    take (length (freed m)) (freed m') = freed m"
  using assms
proof (induction "freeable m" arbitrary: m)
  case Nil
  then have "space sz (freeable m) = 0" by simp
  with Nil enc_invD(5) [OF Nil(2)] have "\<not> n > num_free_slots m" by simp
  then have "evict_until n (freeable m) m = Inr m" by (subst evict_until.simps) simp
  with Nil \<open>\<not> n > num_free_slots m\<close> show ?case by (intro exI [of _ m]) (auto intro: exI [of _ 0])
next
  case (Cons x rest)
  obtain h k where x: "x = (h, k)" by fastforce
  show ?case
  proof (cases "n > num_free_slots m")
    case False
    then have "evict_until n (freeable m) m = Inr m" by (subst evict_until.simps) simp
    with Cons False show ?thesis by (intro exI [of _ m]) (auto intro: exI [of _ 0])
  next
    case True
    note inv = enc_invD [OF Cons.prems(1)]
    have "dict_get (freeable m) h = Some k" using Cons.hyps(2) x by (metis map_of_Cons_code(2) option.inject)
    then have c: "dict_get (cached m) h = Some []" and k: "k = sz h" using inv(3) [of h] by (auto split: if_splits)
    let ?m = "m\<lparr>freeable := rest, cached := dict_del h (cached m), freed := freed m @ [h],
      num_free_slots := num_free_slots m + k\<rparr>"
    have notin: "dict_get rest h = None"
      using inv(1) unfolding Cons.hyps(2) [symmetric] x by (auto simp: dict_ok_def map_of_eq_None_iff)
    have del: "dict_del h (freeable m) = rest"
      using notin unfolding Cons.hyps(2) [symmetric] x
      by (force simp: AList.delete_eq filter_id_conv map_of_eq_None_iff)
    have rest: "dict_get rest g = (if dict_get (dict_del h (cached m)) g = Some [] then Some (sz g) else None)" for g
      using inv(3) [of g] notin unfolding Cons.hyps(2) [symmetric] x by (auto simp: delete_conv' split: if_splits)
    have "space sz (freeable m) = space sz rest + sz h"
      using space_del [of "freeable m" h sz] del c inv(3) [of h] by simp
    moreover have "dict_ok rest" using inv(1) unfolding Cons.hyps(2) [symmetric] by (simp add: dict_ok_def)
    ultimately have inv': "enc_inv sz ?m"
      using inv rest space_del [of "cached m" h sz] c k by (simp add: enc_inv_def)
    have step: "evict_until n (freeable m) m = evict_until n (freeable ?m) ?m"
      unfolding Cons.hyps(2) [symmetric] x using True c by (subst evict_until.simps) simp
    obtain m' where m': "evict_until n (freeable ?m) ?m = Inr m'" "enc_inv sz m'" "n \<le> num_free_slots m'"
      "num_freeable_slots m' = num_freeable_slots m" "cache_size m' = cache_size m"
      "\<And>g. dict_get (cached m') g = (if g \<in> set (drop (length (freed ?m)) (freed m')) then None else dict_get (cached ?m) g)"
      "take (length (freed ?m)) (freed m') = freed ?m"
      and ex: "\<exists>k. drop (length (freed ?m)) (freed m') = map fst (take k rest) \<and> freeable m' = drop k rest"
      using Cons.hyps(1) [of ?m] inv' Cons.prems(2) by auto
    have app: "freed m' = freed m @ h # drop (length (freed ?m)) (freed m')"
    proof -
      have "freed m' = freed ?m @ drop (length (freed ?m)) (freed m')"
        using append_take_drop_id [of "length (freed ?m)" "freed m'", unfolded m'(7)] by (rule sym)
      then show ?thesis by simp
    qed
    obtain j where j: "drop (length (freed ?m)) (freed m') = map fst (take j rest)" "freeable m' = drop j rest"
      using ex by blast
    have "\<exists>k. drop (length (freed m)) (freed m') = map fst (take k (freeable m)) \<and> freeable m' = drop k (freeable m)"
      by (rule exI [of _ "Suc j"], subst app) (use j Cons.hyps(2) x in \<open>auto simp flip: Cons.hyps(2)\<close>)
    moreover have "dict_get (cached m') g = (if g \<in> set (drop (length (freed m)) (freed m')) then None else dict_get (cached m) g)" for g
      unfolding m'(6) by (subst (2) app) (simp add: delete_conv')
    moreover have "take (length (freed m)) (freed m') = freed m" by (subst app) simp
    ultimately show ?thesis using step m'(1-5) by (intro exI [of _ m']) simp
  qed
qed

lemma check_and_update_cache_correct:
  assumes inv: "enc_inv sz m" and r: "sized sz r" "0 \<le> i" "i < int (length (mm_features r))"
  defines "h \<equiv> mm_identifier (mm_features r ! nat i)"
  shows "\<exists>b m'. check_and_update_cache r i m = Inr (b, m') \<and> enc_inv sz m' \<and>
    (b \<longleftrightarrow> dict_get (cached m) h \<noteq> None) \<and> (\<not> b \<longrightarrow> m' = m) \<and>
    (b \<longrightarrow> dict_get (cached m') h \<noteq> Some [] \<and> num_free_slots m' = num_free_slots m)"
proof -
  note I = enc_invD [OF inv]
  have mh: "mm_hash_of r i = Inr h" using item_Inr [OF r] by (auto simp: h_def)
  show ?thesis
  proof (cases "dict_get (cached m) h")
    case None
    with mh inv show ?thesis by (intro exI [of _ False] exI [of _ m]) (simp add: check_and_update_cache_def)
  next
    case (Some refs)
    have add: "set_add x ys \<noteq> []" for x and ys :: "string list" by (auto simp: set_add_def)
    show ?thesis
    proof (cases "refs = []")
      case True
      with Some I(3) [of h] have f: "dict_get (freeable m) h = Some (sz h)" by simp
      let ?m = "m\<lparr>freeable := dict_del h (freeable m), num_freeable_slots := num_freeable_slots m - sz h,
        cached := dict_set h (set_add (request_id r) refs) (cached m)\<rparr>"
      have "enc_inv sz ?m"
        using I Some True f add space_del [of "freeable m" h sz] space_set_old [of "cached m" h sz]
        by (auto simp: enc_inv_def delete_conv' update_conv')
      then show ?thesis
        using mh Some True f add
        by (intro exI [of _ True] exI [of _ "note_cached_id (request_id r) i ?m"])
           (simp add: check_and_update_cache_def note_cached_id_def update_conv' enc_inv_ids Let_def)
    next
      case False
      let ?m = "m\<lparr>cached := dict_set h (set_add (request_id r) refs) (cached m)\<rparr>"
      have "enc_inv sz ?m"
        using I Some False add space_set_old [of "cached m" h sz] by (auto simp: enc_inv_def update_conv')
      then show ?thesis
        using mh Some False add
        by (intro exI [of _ True] exI [of _ "note_cached_id (request_id r) i ?m"])
           (simp add: check_and_update_cache_def note_cached_id_def update_conv' enc_inv_ids Let_def)
    qed
  qed
qed

lemma can_allocate_correct:
  assumes inv: "enc_inv sz m" and r: "sized sz r" "0 \<le> i" "i < int (length (mm_features r))"
  defines "n \<equiv> sz (mm_identifier (mm_features r ! nat i))"
  shows "\<exists>b m'. can_allocate r i budget sched m = Inr (b, m') \<and> enc_inv sz m' \<and>
    (b \<longleftrightarrow> n \<le> budget \<and> n + sched \<le> num_freeable_slots m) \<and> (\<not> b \<longrightarrow> m' = m) \<and>
    (b \<longrightarrow> n + sched \<le> num_free_slots m') \<and>
    (\<forall>h. dict_get (cached m) h \<noteq> Some [] \<longrightarrow> dict_get (cached m') h = dict_get (cached m) h)"
proof -
  have n: "get_num_encoder_embeds r i = Inr n" using item_Inr [OF r] by (auto simp: n_def)
  have le: "num_free_slots m \<le> num_freeable_slots m"
    using enc_invD(5) [OF inv] space_nonneg [of sz "freeable m"] enc_invD(2) [OF inv] by simp
  show ?thesis
  proof (cases "n \<le> budget \<and> num_free_slots m < n + sched \<and> n + sched \<le> num_freeable_slots m")
    case True
    obtain m' k where m': "evict_until (n + sched) (freeable m) m = Inr m'" "enc_inv sz m'" "n + sched \<le> num_free_slots m'"
      "\<And>h. dict_get (cached m') h = (if h \<in> set (drop (length (freed m)) (freed m')) then None else dict_get (cached m) h)"
      "drop (length (freed m)) (freed m') = map fst (take k (freeable m))"
      using evict_until_correct [OF inv, of "n + sched"] True by blast
    have "dict_get (cached m') h = dict_get (cached m) h" if ne: "dict_get (cached m) h \<noteq> Some []" for h
    proof -
      have "dict_get (freeable m) h = None" using enc_invD(3) [OF inv, of h] ne by simp
      then have "h \<notin> set (map fst (take k (freeable m)))" by (auto simp: map_of_eq_None_iff dest!: in_set_takeD)
      then show ?thesis using m'(4,5) by simp
    qed
    with True n m'(1-3) show ?thesis by (intro exI [of _ True] exI [of _ m']) (simp add: can_allocate_def)
  next
    case False
    with n inv le show ?thesis
      by (intro exI [of _ "n \<le> budget \<and> n + sched \<le> num_freeable_slots m"] exI [of _ m])
         (auto simp: can_allocate_def Let_def)
  qed
qed

lemma allocate_correct:
  assumes inv: "enc_inv sz m" and r: "sized sz r" "0 \<le> i" "i < int (length (mm_features r))"
  defines "h \<equiv> mm_identifier (mm_features r ! nat i)"
  assumes new: "dict_get (cached m) h = None" and room: "sz h \<le> num_free_slots m"
  shows "\<exists>m'. allocate r i m = Inr m' \<and> enc_inv sz m' \<and> dict_get (cached m') h = Some [request_id r] \<and>
    num_free_slots m' = num_free_slots m - sz h"
proof -
  note I = enc_invD [OF inv]
  have mh: "mm_hash_of r i = Inr h" "get_num_encoder_embeds r i = Inr (sz h)" using item_Inr [OF r] by (auto simp: h_def)
  have le: "num_free_slots m \<le> num_freeable_slots m"
    using I(5) space_nonneg [of sz "freeable m"] I(2) by simp
  let ?m = "m\<lparr>cached := dict_set h [request_id r] (cached m), num_free_slots := num_free_slots m - sz h,
    num_freeable_slots := num_freeable_slots m - sz h\<rparr>"
  have "enc_inv sz ?m"
    using I new room space_set_new [OF new, of sz] by (auto simp: enc_inv_def update_conv')
  then show ?thesis
    using mh new room le
    by (simp add: allocate_def Let_def note_cached_id_def set_add_def update_conv' enc_inv_ids enc_inv_def)
qed

lemma free_encoder_input_correct:
  assumes inv: "enc_inv sz m" and r: "sized sz r" "0 \<le> i" "i < int (length (mm_features r))"
  shows "\<exists>m'. free_encoder_input r i m = Inr m' \<and> enc_inv sz m' \<and> num_free_slots m' = num_free_slots m \<and>
    (\<forall>h. dict_get (cached m') h = (if h = mm_identifier (mm_features r ! nat i)
       then map_option (removeAll (request_id r)) (dict_get (cached m) h) else dict_get (cached m) h))"
proof -
  let ?m = "forget_cached_id (request_id r) i m"
  have inv': "enc_inv sz ?m" using inv by simp
  note I = enc_invD [OF inv', simplified]
  obtain h where mh: "mm_hash_of r i = Inr h" "get_num_encoder_embeds r i = Inr (sz h)"
    and h: "h = mm_identifier (mm_features r ! nat i)" using item_Inr [OF r] by blast
  have sel: "num_free_slots ?m = num_free_slots m"
    by (simp add: forget_cached_id_def Let_def split: option.splits)
  show ?thesis
  proof (cases "dict_get (cached m) h")
    case None
    with mh inv' sel h show ?thesis by (auto simp: free_encoder_input_def Let_def)
  next
    case (Some refs)
    let ?refs = "removeAll (request_id r) refs"
    let ?c = "?m\<lparr>cached := dict_set h ?refs (cached m)\<rparr>"
    consider (idle) "refs = []" | (last) "refs \<noteq> []" "?refs = []" | (shared) "refs \<noteq> []" "?refs \<noteq> []" by blast
    then show ?thesis
    proof cases
      case idle
      with Some mh inv' sel h show ?thesis by (auto simp: free_encoder_input_def Let_def)
    next
      case last
      let ?f = "?c\<lparr>freeable := dict_set h (sz h) (freeable m), num_freeable_slots := num_freeable_slots ?m + sz h\<rparr>"
      have new: "dict_get (freeable m) h = None" using I(3) [of h] Some last by simp
      have "enc_inv sz ?f"
        using I Some last space_set_new [OF new, of sz] space_set_old [of "cached m" h sz]
        by (auto simp: enc_inv_def update_conv')
      then show ?thesis
        using Some last mh sel h by (intro exI [of _ ?f]) (auto simp: free_encoder_input_def Let_def set_discard_def update_conv')
    next
      case shared
      have "enc_inv sz ?c"
        using I Some shared space_set_old [of "cached m" h sz] by (auto simp: enc_inv_def update_conv')
      then show ?thesis
        using Some shared mh sel h by (intro exI [of _ ?c]) (auto simp: free_encoder_input_def Let_def set_discard_def update_conv')
    qed
  qed
qed

section \<open>The protocol\<close>

text \<open>
  The scheduler's use of the manager: look an item up, and if it is not cached, allocate it after
  \<open>can_allocate\<close> said yes; drop references; collect the evicted hashes; reset.
\<close>

abbreviation item_of :: "Request \<Rightarrow> int \<Rightarrow> string" where
  "item_of r i \<equiv> mm_identifier (mm_features r ! nat i)"

inductive enc_step :: "(string \<Rightarrow> int) \<Rightarrow> EncoderCacheManager \<Rightarrow> EncoderCacheManager \<Rightarrow> bool"
  for sz :: "string \<Rightarrow> int" where
  enc_check: "sized sz r \<Longrightarrow> 0 \<le> i \<Longrightarrow> i < int (length (mm_features r)) \<Longrightarrow>
    check_and_update_cache r i m = Inr (b, m') \<Longrightarrow> enc_step sz m m'"
| enc_allocate: "sized sz r \<Longrightarrow> 0 \<le> i \<Longrightarrow> i < int (length (mm_features r)) \<Longrightarrow>
    dict_get (cached m) (item_of r i) = None \<Longrightarrow> 0 \<le> sched \<Longrightarrow>
    can_allocate r i budget sched m = Inr (True, m1) \<Longrightarrow> allocate r i m1 = Inr m' \<Longrightarrow> enc_step sz m m'"
| enc_refuse: "sized sz r \<Longrightarrow> 0 \<le> i \<Longrightarrow> i < int (length (mm_features r)) \<Longrightarrow>
    can_allocate r i budget sched m = Inr (b, m') \<Longrightarrow> enc_step sz m m'"
| enc_free: "sized sz r \<Longrightarrow> 0 \<le> i \<Longrightarrow> i < int (length (mm_features r)) \<Longrightarrow>
    free_encoder_input r i m = Inr m' \<Longrightarrow> enc_step sz m m'"
| enc_freed: "get_freed_mm_hashes m = (hs, m') \<Longrightarrow> enc_step sz m m'"
| enc_reset: "enc_step sz m (reset_encoder_cache m)"

inductive enc_reachable :: "(string \<Rightarrow> int) \<Rightarrow> int \<Rightarrow> EncoderCacheManager \<Rightarrow> bool" for sz n where
  enc_start: "enc_reachable sz n (EncoderCacheManager_init n)"
| enc_next: "enc_reachable sz n m \<Longrightarrow> enc_step sz m m' \<Longrightarrow> enc_reachable sz n m'"

lemma allocate_after_can_allocate:
  assumes inv: "enc_inv sz m" and r: "sized sz r" "0 \<le> i" "i < int (length (mm_features r))"
    and new: "dict_get (cached m) (item_of r i) = None" and "0 \<le> sched"
    and yes: "can_allocate r i budget sched m = Inr (True, m1)"
  shows "\<exists>m'. allocate r i m1 = Inr m' \<and> enc_inv sz m' \<and> dict_get (cached m') (item_of r i) = Some [request_id r]"
proof -
  from can_allocate_correct [OF inv r, of budget sched] yes new
  have "enc_inv sz m1" "sz (item_of r i) + sched \<le> num_free_slots m1" "dict_get (cached m1) (item_of r i) = None"
    by auto
  with allocate_correct [OF this(1) r] \<open>0 \<le> sched\<close> show ?thesis by auto
qed

lemma evict_until_cache_size: "evict_until n q m = Inr m' \<Longrightarrow> cache_size m' = cache_size m"
proof (induction q arbitrary: m)
  case Nil
  then show ?case by (auto simp: evict_until.simps [of n "[]"] split: if_splits)
next
  case (Cons x q)
  show ?case
  proof (cases "n > num_free_slots m")
    case True
    then show ?thesis
      using Cons.prems by (cases x) (auto simp: evict_until.simps [of n "_ # q"] split: option.splits dest!: Cons.IH)
  next
    case False
    then show ?thesis using Cons.prems by (simp add: evict_until.simps [of n "_ # q"])
  qed
qed

lemma allocate_cache_size:
  "can_allocate r i budget sched m = Inr (b, m1) \<Longrightarrow> cache_size m1 = cache_size m"
  "allocate r i m = Inr m2 \<Longrightarrow> cache_size m2 = cache_size m"
  "check_and_update_cache r i m = Inr (b, m1) \<Longrightarrow> cache_size m1 = cache_size m"
  "free_encoder_input r i m = Inr m2 \<Longrightarrow> cache_size m2 = cache_size m"
proof -
  have note_id: "cache_size (note_cached_id a b m) = cache_size m" for a b m by (simp add: note_cached_id_def Let_def)
  have forget: "cache_size (forget_cached_id a b m) = cache_size m" for a b m
    by (simp add: forget_cached_id_def Let_def split: option.splits)
  show "allocate r i m = Inr m2 \<Longrightarrow> cache_size m2 = cache_size m"
    unfolding allocate_def Let_def by (elim and_thenE) (auto simp: note_id)
  show "check_and_update_cache r i m = Inr (b, m1) \<Longrightarrow> cache_size m1 = cache_size m"
    unfolding check_and_update_cache_def
    by (elim and_thenE) (auto simp: note_id split: option.splits if_splits elim!: and_thenE)
  show "free_encoder_input r i m = Inr m2 \<Longrightarrow> cache_size m2 = cache_size m"
    unfolding free_encoder_input_def Let_def
    by (elim and_thenE) (auto simp: forget split: option.splits if_splits elim!: and_thenE)
  show "can_allocate r i budget sched m = Inr (b, m1) \<Longrightarrow> cache_size m1 = cache_size m"
    unfolding can_allocate_def Let_def
    by (elim and_thenE) (auto simp: evict_until_cache_size split: if_splits elim!: and_thenE)
qed

lemma enc_step_inv: "enc_step sz m m' \<Longrightarrow> enc_inv sz m \<and> 0 \<le> cache_size m \<Longrightarrow> enc_inv sz m' \<and> cache_size m' = cache_size m"
proof (induction rule: enc_step.induct)
  case (enc_check r i m b m')
  then show ?case using check_and_update_cache_correct [of sz m r i] allocate_cache_size(3) by auto
next
  case (enc_allocate r i m sched budget m1 m')
  then show ?case
    using allocate_after_can_allocate [of sz m r i sched budget m1] allocate_cache_size(1,2) by auto
next
  case (enc_refuse r i budget sched m b m')
  then show ?case using can_allocate_correct [of sz m r i budget sched] allocate_cache_size(1) by auto
next
  case (enc_free r i m m')
  then show ?case using free_encoder_input_correct [of sz m r i] allocate_cache_size(4) by auto
next
  case (enc_freed m hs m')
  then show ?case by (auto simp: get_freed_mm_hashes_def enc_inv_def)
next
  case (enc_reset m)
  then show ?case by (auto simp: reset_encoder_cache_def enc_inv_def)
qed

lemma enc_reachable_inv:
  "enc_reachable sz n m \<Longrightarrow> 0 \<le> n \<Longrightarrow> (\<And>h. 0 \<le> sz h) \<Longrightarrow> enc_inv sz m \<and> cache_size m = n"
proof (induction rule: enc_reachable.induct)
  case enc_start
  then show ?case by (simp add: EncoderCacheManager_init_def enc_inv_def)
next
  case (enc_next m m')
  then show ?case using enc_step_inv by auto
qed

section \<open>Properties\<close>

text \<open>
  C26.  In every reachable state of the encoder cache the bookkeeping is exact: the free slots are the
  capacity less the sizes of the cached items, the freeable slots add the items without references,
  which are exactly the entries of \<open>freeable\<close>, and the cached items never exceed the capacity.
\<close>

theorem encoder_space_exact:
  assumes "enc_reachable sz n m" and "0 \<le> n" and "\<forall>h. 0 \<le> sz h"
  shows "num_free_slots m = n - space sz (cached m) \<and>
    num_freeable_slots m = num_free_slots m + space sz (freeable m) \<and>
    0 \<le> num_free_slots m \<and> num_free_slots m \<le> num_freeable_slots m \<and> space sz (cached m) \<le> n \<and>
    (\<forall>h. dict_get (freeable m) h \<noteq> None \<longleftrightarrow> dict_get (cached m) h = Some [])"
proof -
  have inv: "enc_inv sz m" "cache_size m = n" using enc_reachable_inv [OF assms(1,2)] assms(3) by auto
  note I = enc_invD [OF inv(1)]
  have "0 \<le> space sz (freeable m)" using assms(3) by (simp add: space_nonneg)
  with I inv(2) show ?thesis by (auto split: if_splits)
qed

definition image_request :: "string list \<Rightarrow> Request" where
  "image_request ids = (text_request [] [])\<lparr>mm_features :=
     map (\<lambda>ident. \<lparr>mm_modality = ''image'', mm_identifier = ident,
       mm_position = \<lparr>pr_offset = 0, pr_length = 3, pr_is_embed = None\<rparr>\<rparr>) ids\<rparr>"

lemma image_request [simp]:
  "sized (\<lambda>_. 3) (image_request ids)" "length (mm_features (image_request ids)) = length ids"
  "i < length ids \<Longrightarrow> mm_identifier (mm_features (image_request ids) ! i) = ids ! i"
  by (auto simp: image_request_def sized_def get_num_embeds_def embeds_cumsum_def)

theorem encoder_space_exact_witness:
  "\<exists>m. enc_reachable (\<lambda>_. 3) 5 m \<and> num_free_slots m = 2 \<and> space (\<lambda>_. 3) (cached m) \<le> 5"
proof -
  let ?m0 = "EncoderCacheManager_init 5" and ?r = "image_request [''a'']"
  have inv: "enc_inv (\<lambda>_. 3) ?m0" by (simp add: EncoderCacheManager_init_def enc_inv_def)
  have m1: "can_allocate ?r 0 9 0 ?m0 = Inr (True, ?m0)"
    by (simp add: EncoderCacheManager_init_def can_allocate_def get_num_encoder_embeds_def image_request_def
        py_index_def get_num_embeds_def embeds_cumsum_def)
  obtain m2 where m2: "allocate ?r 0 ?m0 = Inr m2" "num_free_slots m2 = 2"
    using allocate_correct [OF inv, of ?r 0] by (auto simp: EncoderCacheManager_init_def)
  have "enc_reachable (\<lambda>_. 3) 5 m2"
    by (rule enc_next [OF enc_start enc_allocate [of _ ?r 0 _ 0 9 ?m0]])
       (use m1 m2 in \<open>simp_all add: EncoderCacheManager_init_def\<close>)
  with encoder_space_exact [OF this] m2(2) show ?thesis by auto
qed

text \<open>
  \<open>can_allocate\<close> never fails.  It says yes exactly when the item fits the compute budget and the
  capacity not referenced by any request; then there really is room, made by evicting items without
  references only, and an allocation of a new item succeeds.
\<close>

theorem encoder_admission:
  assumes "enc_inv sz m" and "sized sz r" and "0 \<le> i" and "i < int (length (mm_features r))" and "0 \<le> sched"
  shows "\<exists>yes m'. can_allocate r i budget sched m = Inr (yes, m') \<and> enc_inv sz m' \<and>
    (yes \<longleftrightarrow> sz (item_of r i) \<le> budget \<and> sz (item_of r i) + sched \<le> num_freeable_slots m) \<and>
    (\<not> yes \<longrightarrow> m' = m) \<and>
    (\<forall>h. dict_get (cached m) h \<noteq> Some [] \<longrightarrow> dict_get (cached m') h = dict_get (cached m) h) \<and>
    (yes \<and> dict_get (cached m) (item_of r i) = None \<longrightarrow>
       (\<exists>m''. allocate r i m' = Inr m'' \<and> enc_inv sz m'' \<and> dict_get (cached m'') (item_of r i) = Some [request_id r]))"
proof -
  obtain yes m' where m': "can_allocate r i budget sched m = Inr (yes, m')" "enc_inv sz m'"
    "yes \<longleftrightarrow> sz (item_of r i) \<le> budget \<and> sz (item_of r i) + sched \<le> num_freeable_slots m" "\<not> yes \<longrightarrow> m' = m"
    "\<forall>h. dict_get (cached m) h \<noteq> Some [] \<longrightarrow> dict_get (cached m') h = dict_get (cached m) h"
    using can_allocate_correct [OF assms(1-4), of budget sched] by blast
  moreover have "\<exists>m''. allocate r i m' = Inr m'' \<and> enc_inv sz m'' \<and>
      dict_get (cached m'') (item_of r i) = Some [request_id r]"
    if "yes" "dict_get (cached m) (item_of r i) = None"
    using allocate_after_can_allocate [OF assms(1-4) that(2) assms(5), of budget m'] m'(1) that(1) by simp
  ultimately show ?thesis by (intro exI [of _ yes] exI [of _ m']) simp
qed

theorem encoder_admission_witness:
  "\<exists>yes m'. can_allocate (image_request [''a'']) 0 9 0 (EncoderCacheManager_init 5) = Inr (yes, m') \<and> yes"
proof -
  have "enc_inv (\<lambda>_. 3) (EncoderCacheManager_init 5)" by (simp add: EncoderCacheManager_init_def enc_inv_def)
  from encoder_admission [OF this, of "image_request [''a'']" 0 0 9] show ?thesis
    by (auto simp: EncoderCacheManager_init_def)
qed

text \<open>
  The encoder budget is large enough for every item: both the compute budget and the cache size
  are at least the configured values and at least the largest item of any modality; the only error is
  the documented one.
\<close>

theorem encoder_budget_covers_items:
  "case compute_mm_encoder_budget cfg d of
     Inl e \<Rightarrow> e = ValueError \<and> disable_chunked_mm_input cfg \<and> (\<exists>n \<in> set (map snd d). n > mm_max_num_batched_tokens cfg)
   | Inr (c, s) \<Rightarrow> d = [] \<and> c = 0 \<and> s = 0 \<or>
       (\<forall>n \<in> set (map snd d). n \<le> c \<and> n \<le> s) \<and> max_num_encoder_input_tokens cfg \<le> c \<and> encoder_cache_size cfg \<le> s"
proof (cases "d = []")
  case False
  define mx where "mx = Max (set (map snd d))"
  have "mx \<in> set (map snd d)" unfolding mx_def using False by (intro Max_in) simp_all
  moreover have "\<forall>n \<in> set (map snd d). n \<le> mx" by (simp add: mx_def)
  ultimately show ?thesis
    using False unfolding compute_mm_encoder_budget_def Let_def mx_def [symmetric]
    by (auto simp del: set_map)
qed (simp add: compute_mm_encoder_budget_def)

theorem encoder_budget_covers_items_witness:
  "compute_mm_encoder_budget \<lparr>disable_chunked_mm_input = False, mm_max_num_batched_tokens = 8,
     max_num_encoder_input_tokens = 4, encoder_cache_size = 4\<rparr> [(''image'', 6)] = Inr (6, 6)"
  using encoder_budget_covers_items [of "\<lparr>disable_chunked_mm_input = False, mm_max_num_batched_tokens = 8,
     max_num_encoder_input_tokens = 4, encoder_cache_size = 4\<rparr>" "[(''image'', 6)]"]
  by (simp add: compute_mm_encoder_budget_def)

end
