(* ===== verification/Stop_Check.thy ===== *)
theory Stop_Check
  imports Request_Model
begin

text \<open>
  The stop conditions of a request and the list helper of the scheduler
  (\<^verbatim>\<open>vllm/v1/core/sched/utils.py\<close>).
\<close>

section \<open>Operations\<close>

text \<open>The two nested loops, each with its early return.\<close>

fun repeats_token :: "int list \<Rightarrow> int \<Rightarrow> int \<Rightarrow> int \<Rightarrow> int list \<Rightarrow> bool result" where
  "repeats_token token_ids pattern_len n target_token [] = Inr True"
| "repeats_token token_ids pattern_len n target_token (m # ms) =
     and_then (py_index token_ids (- (pattern_len * m + n))) (\<lambda>t.
     if t \<noteq> target_token then Inr False
     else repeats_token token_ids pattern_len n target_token ms)"

fun repeats_all :: "int list \<Rightarrow> int \<Rightarrow> int \<Rightarrow> int list \<Rightarrow> bool result" where
  "repeats_all token_ids pattern_len repetition_min_count [] = Inr True"
| "repeats_all token_ids pattern_len repetition_min_count (n # ns) =
     and_then (py_index token_ids (- n)) (\<lambda>target_token.
     and_then (repeats_token token_ids pattern_len n target_token (py_range 1 repetition_min_count)) (\<lambda>same.
     if \<not> same then Inr False
     else repeats_all token_ids pattern_len repetition_min_count ns))"

definition has_repeating_pattern :: "int list \<Rightarrow> int \<Rightarrow> int \<Rightarrow> bool result" where
  "has_repeating_pattern token_ids pattern_len repetition_min_count =
     repeats_all token_ids pattern_len repetition_min_count (py_range 1 (pattern_len + 1))"

fun search_pattern :: "int list \<Rightarrow> int \<Rightarrow> int list \<Rightarrow> bool result" where
  "search_pattern token_ids count [] = Inr False"
| "search_pattern token_ids count (pattern_len # ps) =
     (if pattern_len * count > int (length token_ids) then Inr False
      else
        and_then (has_repeating_pattern token_ids pattern_len count) (\<lambda>found.
        if found then Inr True else search_pattern token_ids count ps))"

definition check_sequence_repetition :: "int list \<Rightarrow> RepetitionDetectionParams \<Rightarrow> bool result" where
  "check_sequence_repetition token_ids params =
     (let max_p = max_pattern_size params;
          min_p = (if min_pattern_size params \<le> 0 then 1 else min_pattern_size params);
          count = min_count params
      in if max_p \<le> 0 \<or> count < 2 \<or> min_p > max_p then Inr False
         else search_pattern token_ids count (py_range min_p (max_p + 1)))"

text \<open>\<^verbatim>\<open>items_to_remove\<close> is a set: a list without repetitions.\<close>

definition remove_all :: "'a list \<Rightarrow> 'a list \<Rightarrow> 'a list" where
  "remove_all lst items_to_remove =
     (case items_to_remove of
        [] \<Rightarrow> lst
      | [item] \<Rightarrow> remove1 item lst
      | _ \<Rightarrow> filter (\<lambda>x. x \<notin> set items_to_remove) lst)"

definition check_stop :: "Request \<Rightarrow> int \<Rightarrow> (bool \<times> Request) result" where
  "check_stop r max_model_len =
     and_then (py_assert (pooling_params r = None)) (\<lambda>_.
     case sampling_params r of
       None \<Rightarrow> Inl AssertionError
     | Some sp \<Rightarrow>
         if num_output_tokens r < sp_min_tokens sp then Inr (False, r)
         else
           and_then (py_index (output_token_ids r) (- 1)) (\<lambda>last_token_id.
           if Some last_token_id = sp_eos_token_id sp
           then Inr (True, r\<lparr>status := FINISHED_STOPPED\<rparr>)
           else if last_token_id \<in> set (case sp_stop_token_ids sp of None \<Rightarrow> [] | Some ts \<Rightarrow> ts)
           then Inr (True, r\<lparr>status := FINISHED_STOPPED, stop_reason_of := Some (StopToken last_token_id)\<rparr>)
           else if num_tokens r \<ge> max_model_len \<or> num_output_tokens r \<ge> max_tokens r
           then Inr (True, r\<lparr>status := FINISHED_LENGTH_CAPPED\<rparr>)
           else
             (case sp_repetition_detection sp of
                None \<Rightarrow> Inr (False, r)
              | Some params \<Rightarrow>
                  and_then (check_sequence_repetition (output_token_ids r) params) (\<lambda>rep.
                  if rep
                  then Inr (True, r\<lparr>status := FINISHED_REPETITION,
                                   stop_reason_of := Some (StopString ''repetition_detected'')\<rparr>)
                  else Inr (False, r)))))"

section \<open>What a repetition is\<close>

text \<open>The last \<open>p * c\<close> tokens are \<open>c\<close> copies of one block of \<open>p\<close> tokens.\<close>

definition periodic_tail :: "int list \<Rightarrow> nat \<Rightarrow> nat \<Rightarrow> bool" where
  "periodic_tail xs p c \<longleftrightarrow>
     p * c \<le> length xs \<and> drop (length xs - p * c) xs = concat (replicate c (drop (length xs - p) xs))"

lemma py_index_from_end: "0 < k \<Longrightarrow> k \<le> length xs \<Longrightarrow> py_index xs (- int k) = Inr (rev xs ! (k - 1))"
  by (auto simp: py_index_def rev_nth Suc_diff_Suc)

lemma repeats_token_iff:
  assumes "\<And>m. m \<in> set ms \<Longrightarrow> 1 \<le> m \<and> p * m + n \<le> int (length xs)" and "0 \<le> p" and "1 \<le> n"
  shows "repeats_token xs p n t ms = Inr (\<forall>m \<in> set ms. rev xs ! nat (p * m + n - 1) = t)"
  using assms(1)
proof (induction ms)
  case Nil
  then show ?case by simp
next
  case (Cons m ms)
  have "0 \<le> p * m" using Cons.prems [of m] assms(2) by simp
  then have k: "0 < nat (p * m + n)" "nat (p * m + n) \<le> length xs"
    and e: "p * m + n = int (nat (p * m + n))" "nat (p * m + n) - 1 = nat (p * m + n - 1)"
    using Cons.prems [of m] assms(3) by auto
  have "py_index xs (- (p * m + n)) = Inr (rev xs ! nat (p * m + n - 1))"
    using py_index_from_end [OF k] e by simp
  with Cons show ?case by simp
qed

lemma repeats_all_iff:
  assumes "\<And>n. n \<in> set ns \<Longrightarrow> 1 \<le> n \<and> n \<le> p" and "p * c \<le> int (length xs)" and "1 \<le> c"
  shows "repeats_all xs p c ns =
    Inr (\<forall>n \<in> set ns. \<forall>m \<in> {1..<c}. rev xs ! nat (p * m + n - 1) = rev xs ! nat (n - 1))"
  using assms(1)
proof (induction ns)
  case Nil
  then show ?case by simp
next
  case (Cons n ns)
  have n: "1 \<le> n" "n \<le> p" using Cons.prems by simp_all
  have fits: "1 \<le> m \<and> p * m + n \<le> int (length xs)" if "m \<in> set (py_range 1 c)" for m
  proof -
    have "p * m + n \<le> p * (m + 1)" using n by (simp add: distrib_left)
    also have "\<dots> \<le> p * c" using that n by (intro mult_left_mono) auto
    finally show ?thesis using that assms(2) by simp
  qed
  have "p * 1 \<le> p * c" using n assms(3) by (intro mult_left_mono) auto
  then have "nat n \<le> length xs" using n assms(2) by linarith
  then have "py_index xs (- n) = Inr (rev xs ! nat (n - 1))"
    using py_index_from_end [of "nat n" xs] n by (simp add: nat_diff_distrib)
  moreover have "repeats_token xs p n (rev xs ! nat (n - 1)) (py_range 1 c) =
      Inr (\<forall>m \<in> {1..<c}. rev xs ! nat (p * m + n - 1) = rev xs ! nat (n - 1))"
    by (subst repeats_token_iff) (use fits n in \<open>auto simp: atLeastLessThan_iff\<close>)
  ultimately show ?case using Cons by auto
qed

lemma nth_concat_replicate:
  "i < c * length b \<Longrightarrow> concat (replicate c b) ! i = b ! (i mod length b)"
proof (induction c arbitrary: i)
  case (Suc c)
  show ?case
  proof (cases "i < length b")
    case True
    then show ?thesis by (simp add: nth_append)
  next
    case False
    then have "i - length b < c * length b" using Suc.prems by simp
    with False Suc.IH [of "i - length b"] show ?thesis by (simp add: nth_append le_mod_geq)
  qed
qed simp

lemma length_concat_replicate: "length (concat (replicate c b)) = c * length b"
  by (induction c) simp_all

lemma periodic_iff:
  assumes "0 < p" and "p * c \<le> length xs"
  shows "periodic_tail xs p c \<longleftrightarrow> (\<forall>i < p * c. rev xs ! i = rev xs ! (i mod p))"
proof (cases "c = 0")
  case True
  then show ?thesis by (simp add: periodic_tail_def)
next
  case False
  then have p: "p \<le> p * c" by simp
  let ?L = "length xs" and ?b = "drop (length xs - p) xs"
  have lb: "length ?b = p" using le_trans [OF p assms(2)] by simp
  have r: "rev xs ! i = xs ! (?L - Suc i)" if "i < p * c" for i using that assms(2) by (simp add: rev_nth)
  have "periodic_tail xs p c \<longleftrightarrow> (\<forall>j < p * c. drop (?L - p * c) xs ! j = concat (replicate c ?b) ! j)"
    unfolding periodic_tail_def using assms(2) lb
    by (auto simp: list_eq_iff_nth_eq length_concat_replicate mult.commute)
  also have "\<dots> \<longleftrightarrow> (\<forall>j < p * c. xs ! (?L - p * c + j) = xs ! (?L - p + j mod p))"
    using assms lb p by (auto simp: nth_concat_replicate mult.commute)
  also have "\<dots> \<longleftrightarrow> (\<forall>i < p * c. xs ! (?L - Suc i) = xs ! (?L - Suc (i mod p)))"
  proof -
    have flip: "?L - p * c + j = ?L - Suc (p * c - Suc j)" "?L - p + j mod p = ?L - Suc ((p * c - Suc j) mod p)"
      if "j < p * c" for j
    proof -
      show "?L - p * c + j = ?L - Suc (p * c - Suc j)" using that assms(2) by simp
      have "j mod p + (p * c - Suc j) mod p = p - 1"
      proof -
        have j: "j = p * (j div p) + j mod p" by simp
        have lt: "j div p < c" using that by (simp add: less_mult_imp_div_less mult.commute)
        have "p * (j div p) + p \<le> p * c" using mult_le_mono2 [OF Suc_leI [OF lt], of p] by simp
        then have "p * c - Suc j = p * (c - 1 - j div p) + (p - 1 - j mod p)"
          using j mod_less_divisor [OF assms(1), of j] lt by (simp add: diff_mult_distrib2 algebra_simps)
        moreover have "p - 1 - j mod p < p" using assms(1) by simp
        ultimately have "(p * c - Suc j) mod p = p - 1 - j mod p" by simp
        then show ?thesis using mod_less_divisor [OF assms(1), of j] by linarith
      qed
      then show "?L - p + j mod p = ?L - Suc ((p * c - Suc j) mod p)" using assms p by linarith
    qed
    show ?thesis
    proof (intro iffI allI impI)
      fix i assume "\<forall>j < p * c. xs ! (?L - p * c + j) = xs ! (?L - p + j mod p)" and i: "i < p * c"
      then show "xs ! (?L - Suc i) = xs ! (?L - Suc (i mod p))"
        using flip [of "p * c - Suc i"] by (metis Suc_diff_Suc diff_Suc_less diff_diff_cancel gr_implies_not0
          less_imp_le_nat neq0_conv)
    next
      fix j assume *: "\<forall>i < p * c. xs ! (?L - Suc i) = xs ! (?L - Suc (i mod p))" and j: "j < p * c"
      then have "p * c - Suc j < p * c" by simp
      with * have "xs ! (?L - Suc (p * c - Suc j)) = xs ! (?L - Suc ((p * c - Suc j) mod p))" by blast
      then show "xs ! (?L - p * c + j) = xs ! (?L - p + j mod p)" unfolding flip [OF j] .
    qed
  qed
  also have "\<dots> \<longleftrightarrow> (\<forall>i < p * c. rev xs ! i = rev xs ! (i mod p))"
    using r by (metis (no_types, lifting) assms(1) mod_less_eq_dividend order_le_less_trans)
  finally show ?thesis .
qed

lemma has_repeating_pattern_iff:
  assumes "0 < p" and "1 \<le> c" and "p * c \<le> length xs"
  shows "has_repeating_pattern xs (int p) (int c) = Inr (periodic_tail xs p c)"
proof -
  have "has_repeating_pattern xs (int p) (int c) =
      Inr (\<forall>n \<in> set (py_range 1 (int p + 1)). \<forall>m \<in> {1..<int c}.
        rev xs ! nat (int p * m + n - 1) = rev xs ! nat (n - 1))"
    unfolding has_repeating_pattern_def
    by (rule repeats_all_iff) (use assms in \<open>auto simp flip: of_nat_mult\<close>)
  also have "(\<forall>n \<in> set (py_range 1 (int p + 1)). \<forall>m \<in> {1..<int c}.
        rev xs ! nat (int p * m + n - 1) = rev xs ! nat (n - 1)) \<longleftrightarrow>
      (\<forall>a < p. \<forall>q. 1 \<le> q \<and> q < c \<longrightarrow> rev xs ! (p * q + a) = rev xs ! a)"
  proof (intro iffI allI impI ballI)
    fix a q assume *: "\<forall>n \<in> set (py_range 1 (int p + 1)). \<forall>m \<in> {1..<int c}.
        rev xs ! nat (int p * m + n - 1) = rev xs ! nat (n - 1)" and a: "a < p" and q: "1 \<le> q \<and> q < c"
    have "int a + 1 \<in> set (py_range 1 (int p + 1))" "int q \<in> {1..<int c}" using a q by auto
    with * have "rev xs ! nat (int p * int q + (int a + 1) - 1) = rev xs ! nat (int a + 1 - 1)" by blast
    moreover have "nat (int p * int q + (int a + 1) - 1) = p * q + a" by (simp add: nat_int_add flip: of_nat_mult)
    ultimately show "rev xs ! (p * q + a) = rev xs ! a" by simp
  next
    fix n m assume *: "\<forall>a < p. \<forall>q. 1 \<le> q \<and> q < c \<longrightarrow> rev xs ! (p * q + a) = rev xs ! a"
      and n: "n \<in> set (py_range 1 (int p + 1))" and m: "m \<in> {1..<int c}"
    have "nat (n - 1) < p" "1 \<le> nat m \<and> nat m < c" using n m by auto
    with * have "rev xs ! (p * nat m + nat (n - 1)) = rev xs ! nat (n - 1)" by blast
    moreover have "nat (int p * m + n - 1) = p * nat m + nat (n - 1)"
      using n m by (simp add: nat_add_distrib nat_mult_distrib add_diff_eq [symmetric])
    ultimately show "rev xs ! nat (int p * m + n - 1) = rev xs ! nat (n - 1)" by simp
  qed
  also have "\<dots> \<longleftrightarrow> (\<forall>i < p * c. rev xs ! i = rev xs ! (i mod p))"
  proof (intro iffI allI impI)
    fix i assume *: "\<forall>a < p. \<forall>q. 1 \<le> q \<and> q < c \<longrightarrow> rev xs ! (p * q + a) = rev xs ! a" and i: "i < p * c"
    show "rev xs ! i = rev xs ! (i mod p)"
    proof (cases "i div p = 0")
      case True
      then show ?thesis using assms(1) by (simp add: div_eq_0_iff)
    next
      case False
      have "i div p < c" using i by (simp add: less_mult_imp_div_less mult.commute)
      moreover have "1 \<le> i div p" "i mod p < p" using False assms(1) by simp_all
      ultimately have "rev xs ! (p * (i div p) + i mod p) = rev xs ! (i mod p)" using * by blast
      then show ?thesis by simp
    qed
  next
    fix a q assume *: "\<forall>i < p * c. rev xs ! i = rev xs ! (i mod p)" and a: "a < p" and q: "1 \<le> q \<and> q < c"
    have "p * q + a < p * c" using a q mult_le_mono2 [of "Suc q" c p] by simp
    with * have "rev xs ! (p * q + a) = rev xs ! ((p * q + a) mod p)" by blast
    moreover have "(p * q + a) mod p = a" using a by simp
    ultimately show "rev xs ! (p * q + a) = rev xs ! a" by metis
  qed
  also have "\<dots> \<longleftrightarrow> periodic_tail xs p c" using periodic_iff [OF assms(1,3)] by simp
  finally show ?thesis .
qed

lemma search_pattern_iff:
  assumes "1 \<le> c" and "sorted ps" and "\<And>p. p \<in> set ps \<Longrightarrow> 1 \<le> p"
  shows "search_pattern xs (int c) ps = Inr (\<exists>p \<in> set ps. periodic_tail xs (nat p) c)"
  using assms(2,3)
proof (induction ps)
  case Nil
  then show ?case by simp
next
  case (Cons p ps)
  show ?case
  proof (cases "p * int c > int (length xs)")
    case True
    have "\<not> periodic_tail xs (nat q) c" if "q \<in> set (p # ps)" for q
    proof -
      have "p \<le> q" "1 \<le> p" using that Cons.prems by auto
      then have "p * int c \<le> q * int c" by (intro mult_right_mono) auto
      with True have "int (length xs) < q * int c" by linarith
      also have "q * int c = int (nat q * c)" using \<open>p \<le> q\<close> \<open>1 \<le> p\<close> by simp
      finally have "length xs < nat q * c" by linarith
      then show ?thesis by (simp add: periodic_tail_def)
    qed
    with True show ?thesis by auto
  next
    case False
    have p: "0 < nat p" "p = int (nat p)" using Cons.prems(2) by force+
    have "nat p * c \<le> length xs" using False p by (metis linorder_not_less of_nat_le_iff of_nat_mult)
    with has_repeating_pattern_iff [OF p(1) assms(1), of xs] p(2)
    have "has_repeating_pattern xs p (int c) = Inr (periodic_tail xs (nat p) c)" by simp
    with False Cons show ?thesis by auto
  qed
qed

lemma check_sequence_repetition_iff:
  defines "min_p \<equiv> \<lambda>ps. max 1 (min_pattern_size ps)"
  shows "check_sequence_repetition xs ps =
    Inr (2 \<le> min_count ps \<and>
      (\<exists>p. min_p ps \<le> p \<and> p \<le> max_pattern_size ps \<and> periodic_tail xs (nat p) (nat (min_count ps))))"
proof -
  let ?lo = "if min_pattern_size ps \<le> 0 then 1 else min_pattern_size ps"
  have lo: "?lo = min_p ps" by (simp add: min_p_def)
  show ?thesis
  proof (cases "max_pattern_size ps \<le> 0 \<or> min_count ps < 2 \<or> ?lo > max_pattern_size ps")
    case True
    then show ?thesis unfolding check_sequence_repetition_def Let_def lo by (auto simp: min_p_def)
  next
    case False
    then have c: "min_count ps = int (nat (min_count ps))" "1 \<le> nat (min_count ps)" by auto
    have "search_pattern xs (int (nat (min_count ps))) (py_range ?lo (max_pattern_size ps + 1)) =
        Inr (\<exists>p \<in> set (py_range ?lo (max_pattern_size ps + 1)). periodic_tail xs (nat p) (nat (min_count ps)))"
      by (rule search_pattern_iff [OF c(2)]) (auto split: if_splits)
    with False c show ?thesis
      unfolding check_sequence_repetition_def Let_def lo by (auto simp: min_p_def)
  qed
qed

section \<open>Properties\<close>

text \<open>
  C28.  Repetition detection is exact: it reports a repetition if and only if, for some pattern length
  in the configured range, the tail of the output is \<open>min_count\<close> copies of its last block of that
  length.  It never reads outside the output.
\<close>

theorem repetition_detection_exact:
  "check_sequence_repetition xs ps =
    Inr (2 \<le> min_count ps \<and>
      (\<exists>p. max 1 (min_pattern_size ps) \<le> p \<and> p \<le> max_pattern_size ps \<and>
         periodic_tail xs (nat p) (nat (min_count ps))))"
  by (rule check_sequence_repetition_iff)

text \<open>What a stop check decides: the status and, where the source sets one, the stop reason.\<close>

definition stop_outcome :: "Request \<Rightarrow> SamplingParams \<Rightarrow> int \<Rightarrow> (RequestStatus \<times> stop_reason option) option" where
  "stop_outcome r sp max_model_len =
     (let t = last (output_token_ids r) in
      if num_output_tokens r < sp_min_tokens sp then None
      else if sp_eos_token_id sp = Some t then Some (FINISHED_STOPPED, None)
      else if \<exists>ts. sp_stop_token_ids sp = Some ts \<and> t \<in> set ts then Some (FINISHED_STOPPED, Some (StopToken t))
      else if max_model_len \<le> num_tokens r \<or> max_tokens r \<le> num_output_tokens r then Some (FINISHED_LENGTH_CAPPED, None)
      else if \<exists>ps. sp_repetition_detection sp = Some ps \<and> 2 \<le> min_count ps \<and>
          (\<exists>p. max 1 (min_pattern_size ps) \<le> p \<and> p \<le> max_pattern_size ps \<and>
             periodic_tail (output_token_ids r) (nat p) (nat (min_count ps)))
        then Some (FINISHED_REPETITION, Some (StopString ''repetition_detected''))
      else None)"

definition stopped_as :: "RequestStatus \<times> stop_reason option \<Rightarrow> Request \<Rightarrow> Request" where
  "stopped_as outcome r = r\<lparr>status := fst outcome, stop_reason_of := (if snd outcome = None then stop_reason_of r else snd outcome)\<rparr>"

text \<open>
  C27.  The stop check.  On a generative request with at least one output token it returns, and its
  answer follows the documented order: nothing stops before \<open>min_tokens\<close>; then the end-of-sequence
  token, the stop tokens, the length limits and the repetition detector, the first that applies
  deciding the finish status.  The stop reason becomes the token for a stop token and
  \<^verbatim>\<open>repetition_detected\<close> for a repetition, and stays as it was otherwise; nothing else of the request
  changes.  The answer is yes exactly when the returned request is finished.
\<close>

theorem check_stop_exact:
  assumes "pooling_params r = None" and "sampling_params r = Some sp" and "output_token_ids r \<noteq> []"
    and "\<not> is_finished r"
  shows "check_stop r max_model_len =
      Inr (case stop_outcome r sp max_model_len of None \<Rightarrow> (False, r) | Some outcome \<Rightarrow> (True, stopped_as outcome r)) \<and>
    (\<forall>outcome. stop_outcome r sp max_model_len = Some outcome \<longrightarrow> is_finished (stopped_as outcome r))"
proof -
  have idx: "py_index (output_token_ids r) (- 1) = Inr (last (output_token_ids r))"
    by (rule py_index_last [OF assms(3)])
  have "check_stop r max_model_len =
      Inr (case stop_outcome r sp max_model_len of None \<Rightarrow> (False, r) | Some outcome \<Rightarrow> (True, stopped_as outcome r))"
    using assms(1,2) idx
    by (cases "sp_stop_token_ids sp"; cases "sp_repetition_detection sp")
      (simp_all add: check_stop_def stop_outcome_def stopped_as_def Let_def check_sequence_repetition_iff
        eq_commute [of "Some _" "sp_eos_token_id sp"], blast+)
  moreover have "is_finished (stopped_as outcome r)" if "stop_outcome r sp max_model_len = Some outcome" for outcome
    using that by (auto simp: stop_outcome_def stopped_as_def Let_def is_finished_def status_is_finished_def split: if_splits)
  ultimately show ?thesis by blast
qed

definition sampled_request :: "int list \<Rightarrow> int list \<Rightarrow> SamplingParams \<Rightarrow> Request" where
  "sampled_request prompt out sp = (text_request (prompt @ out) [])
     \<lparr>output_token_ids := out, pooling_params := None, sampling_params := Some sp, max_tokens := 100\<rparr>"

definition plain_sampling :: SamplingParams where
  "plain_sampling = \<lparr>sp_max_tokens = Some 100, sp_min_tokens = 0, sp_eos_token_id = Some 2, sp_stop_token_ids = None,
     sp_repetition_detection = None, sp_skip_reading_prefix_cache = None, sp_structured_outputs = False\<rparr>"

theorem check_stop_exact_witness:
  "check_stop (sampled_request [1] [5, 7] (plain_sampling\<lparr>sp_stop_token_ids := Some [7]\<rparr>)) 50 =
     Inr (True, (sampled_request [1] [5, 7] (plain_sampling\<lparr>sp_stop_token_ids := Some [7]\<rparr>))
       \<lparr>status := FINISHED_STOPPED, stop_reason_of := Some (StopToken 7)\<rparr>)"
proof -
  let ?sp = "plain_sampling\<lparr>sp_stop_token_ids := Some [7]\<rparr>"
  let ?r = "sampled_request [1] [5, 7] ?sp"
  have "pooling_params ?r = None" "sampling_params ?r = Some ?sp" "output_token_ids ?r \<noteq> []"
    by (simp_all add: sampled_request_def)
  moreover have "\<not> is_finished ?r"
    by (simp add: sampled_request_def text_request_def fresh_request_def is_finished_def status_is_finished_def)
  moreover have "stop_outcome ?r ?sp 50 = Some (FINISHED_STOPPED, Some (StopToken 7))"
    by (simp add: stop_outcome_def sampled_request_def plain_sampling_def)
  ultimately show ?thesis using check_stop_exact [of ?r ?sp 50] by (simp add: stopped_as_def)
qed

text \<open>
  \<open>remove_all\<close> removes every listed item when the list has no duplicates, as the scheduler's running
  list does.  On a list with duplicates and a single item to remove, one copy stays.
\<close>

theorem remove_all_distinct:
  "(distinct lst \<longrightarrow> remove_all lst items = filter (\<lambda>x. x \<notin> set items) lst) \<and>
   remove_all [a, a] [a] = [a]"
proof -
  have "remove_all lst items = filter (\<lambda>x. x \<notin> set items) lst" if "distinct lst"
  proof (cases items rule: remdups_adj.cases)
    case (2 x)
    have "remove1 x lst = filter (\<lambda>y. y \<noteq> x) lst"
      using that by (simp add: distinct_remove1_removeAll removeAll_filter_not_eq neq_commute)
    with 2 show ?thesis by (simp add: remove_all_def)
  qed (simp_all add: remove_all_def)
  then show ?thesis by (simp add: remove_all_def)
qed

theorem remove_all_distinct_witness: "remove_all [3, 1, 2 :: int] [1] = [3, 2]"
  using conjunct1 [OF remove_all_distinct [of "[3, 1, 2 :: int]" "[1]" 0]] by simp

end
