(* ===== verification/Binary_Heap.thy ===== *)
theory Binary_Heap
  imports Vllm_Prelude "HOL-Library.Multiset"
begin

text \<open>
  The part of Python's \<^verbatim>\<open>heapq\<close> that the priority queue of the scheduler uses: the array heap with
  \<^verbatim>\<open>_siftdown\<close>, \<^verbatim>\<open>_siftup\<close>, \<^verbatim>\<open>heappush\<close>, \<^verbatim>\<open>heappop\<close> and \<^verbatim>\<open>heapify\<close>, over any comparison \<open>lt\<close>.  The locale
  \<open>weak_order\<close> is what the algorithms need of it.
\<close>

section \<open>Operations\<close>

function siftdown_loop :: "('a \<Rightarrow> 'a \<Rightarrow> bool) \<Rightarrow> 'a \<Rightarrow> nat \<Rightarrow> nat \<Rightarrow> 'a list \<Rightarrow> 'a list" where
  "siftdown_loop lt newitem startpos pos heap =
     (if pos > startpos then
        let parentpos = (pos - 1) div 2; parent = heap ! parentpos in
        if lt newitem parent then siftdown_loop lt newitem startpos parentpos (heap[pos := parent])
        else heap[pos := newitem]
      else heap[pos := newitem])"
  by pat_completeness auto
termination
  by (relation "measure (\<lambda>(lt, x, s, pos, h). pos)") auto

declare siftdown_loop.simps [simp del]

definition siftdown :: "('a \<Rightarrow> 'a \<Rightarrow> bool) \<Rightarrow> nat \<Rightarrow> nat \<Rightarrow> 'a list \<Rightarrow> 'a list" where
  "siftdown lt startpos pos heap = siftdown_loop lt (heap ! pos) startpos pos heap"

function siftup_loop :: "('a \<Rightarrow> 'a \<Rightarrow> bool) \<Rightarrow> nat \<Rightarrow> 'a list \<Rightarrow> nat \<times> 'a list" where
  "siftup_loop lt pos heap =
     (let childpos = 2 * pos + 1 in
      if childpos < length heap then
        let rightpos = childpos + 1;
            childpos = (if rightpos < length heap \<and> \<not> lt (heap ! childpos) (heap ! rightpos)
                        then rightpos else childpos)
        in siftup_loop lt childpos (heap[pos := heap ! childpos])
      else (pos, heap))"
  by pat_completeness auto
termination
  by (relation "measure (\<lambda>(lt, pos, h). length h - pos)") (auto simp: Let_def)

declare siftup_loop.simps [simp del]

definition siftup :: "('a \<Rightarrow> 'a \<Rightarrow> bool) \<Rightarrow> nat \<Rightarrow> 'a list \<Rightarrow> 'a list" where
  "siftup lt pos heap =
     (let newitem = heap ! pos; (p, heap) = siftup_loop lt pos heap
      in siftdown lt pos p (heap[p := newitem]))"

definition heappush :: "('a \<Rightarrow> 'a \<Rightarrow> bool) \<Rightarrow> 'a \<Rightarrow> 'a list \<Rightarrow> 'a list" where
  "heappush lt item heap = siftdown lt 0 (length heap) (heap @ [item])"

definition heappop :: "('a \<Rightarrow> 'a \<Rightarrow> bool) \<Rightarrow> 'a list \<Rightarrow> ('a \<times> 'a list) result" where
  "heappop lt heap =
     (if heap = [] then Inl IndexError
      else
        let lastelt = last heap; heap = butlast heap in
        if heap \<noteq> [] then Inr (heap ! 0, siftup lt 0 (heap[0 := lastelt]))
        else Inr (lastelt, heap))"

definition heapify :: "('a \<Rightarrow> 'a \<Rightarrow> bool) \<Rightarrow> 'a list \<Rightarrow> 'a list" where
  "heapify lt heap = fold (siftup lt) (rev [0..<length heap div 2]) heap"

lemma siftdown_loop_length [simp]: "length (siftdown_loop lt x s pos h) = length h"
proof (induction pos arbitrary: h rule: less_induct)
  case (less pos)
  show ?case by (subst siftdown_loop.simps) (simp add: Let_def less.IH)
qed

lemma siftup_loop_length [simp]: "length (snd (siftup_loop lt pos h)) = length h"
proof (induction "length h - pos" arbitrary: pos h rule: less_induct)
  case less
  show ?case by (subst siftup_loop.simps) (auto simp: Let_def less)
qed

lemma siftup_length [simp]: "length (siftup lt pos h) = length h"
  by (simp add: siftup_def siftdown_def Let_def split_beta)

lemma heappop_length: "heappop lt h = Inr (x, h') \<Longrightarrow> Suc (length h') = length h"
  by (cases h rule: rev_cases) (auto simp: heappop_def Let_def split: if_splits)

section \<open>Positions\<close>

definition parent :: "nat \<Rightarrow> nat" where
  "parent j = (j - 1) div 2"

text \<open>\<open>pos\<close> lies in the subtree of \<open>s\<close>.\<close>

inductive below :: "nat \<Rightarrow> nat \<Rightarrow> bool" where
  below_refl: "below s s"
| below_child: "below s (parent j) \<Longrightarrow> 0 < j \<Longrightarrow> below s j"

lemma parent_less: "0 < j \<Longrightarrow> parent j < j"
  by (simp add: parent_def)

lemma below_ge: "below s j \<Longrightarrow> s \<le> j"
  by (induction rule: below.induct) (auto dest: parent_less)

lemma below_parent: "below s j \<Longrightarrow> s < j \<Longrightarrow> below s (parent j)"
  by (cases rule: below.cases) auto

lemma below_0: "below 0 j"
proof (induction j rule: less_induct)
  case (less j)
  then show ?case by (cases "j = 0") (auto intro: below.intros parent_less)
qed

lemma parent_iff: "0 < j \<Longrightarrow> parent j = p \<longleftrightarrow> j = 2 * p + 1 \<or> j = 2 * p + 2"
  by (auto simp: parent_def)

lemma parent_mono: "i \<le> j \<Longrightarrow> parent i \<le> parent j"
  by (simp add: parent_def div_le_mono)

section \<open>The heap order\<close>

text \<open>Every node whose parent is at \<open>s\<close> or later is not smaller than its parent.\<close>

definition heap_from :: "('a \<Rightarrow> 'a \<Rightarrow> bool) \<Rightarrow> nat \<Rightarrow> 'a list \<Rightarrow> bool" where
  "heap_from lt s xs \<longleftrightarrow> (\<forall>j. 0 < j \<and> j < length xs \<and> s \<le> parent j \<longrightarrow> \<not> lt (xs ! j) (xs ! parent j))"

abbreviation is_heap :: "('a \<Rightarrow> 'a \<Rightarrow> bool) \<Rightarrow> 'a list \<Rightarrow> bool" where
  "is_heap lt xs \<equiv> heap_from lt 0 xs"

text \<open>
  The order outside a hole at \<open>pos\<close>: its parent and its children are not compared with it, but the
  children are not smaller than the parent.
\<close>

definition heap_hole :: "('a \<Rightarrow> 'a \<Rightarrow> bool) \<Rightarrow> nat \<Rightarrow> nat \<Rightarrow> 'a list \<Rightarrow> bool" where
  "heap_hole lt s pos xs \<longleftrightarrow>
     (\<forall>j. 0 < j \<and> j < length xs \<and> s \<le> parent j \<and> j \<noteq> pos \<and> parent j \<noteq> pos \<longrightarrow> \<not> lt (xs ! j) (xs ! parent j)) \<and>
     (\<forall>j. 0 < j \<and> j < length xs \<and> parent j = pos \<and> s < pos \<longrightarrow> \<not> lt (xs ! j) (xs ! parent pos))"

lemma mset_swap_up: "pos < length h \<Longrightarrow> p < length h \<Longrightarrow> p \<noteq> pos \<Longrightarrow>
  mset (h[pos := h ! p, p := x]) = mset (h[pos := x])"
proof -
  assume h: "pos < length h" "p < length h" "p \<noteq> pos"
  have "h[pos := h ! p, p := x] = (h[pos := x])[pos := h[pos := x] ! p, p := h[pos := x] ! pos]" using h by simp
  also have "mset \<dots> = mset (h[pos := x])" using h by (intro mset_swap) auto
  finally show ?thesis .
qed

locale weak_order =
  fixes lt :: "'a \<Rightarrow> 'a \<Rightarrow> bool"
  assumes lt_irrefl: "\<not> lt a a"
    and lt_trans: "lt a b \<Longrightarrow> lt b c \<Longrightarrow> lt a c"
    and not_lt_trans: "\<not> lt a b \<Longrightarrow> \<not> lt b c \<Longrightarrow> \<not> lt a c"
begin

lemma lt_asym: "lt a b \<Longrightarrow> \<not> lt b a"
  using lt_irrefl lt_trans by blast

text \<open>One step of each sift moves the hole and keeps the order outside it.\<close>

lemma hole_up:
  assumes hole: "heap_hole lt s pos h" and b: "below s pos" and pos: "s < pos" "pos < length h"
  shows "heap_hole lt s (parent pos) (h[pos := h ! parent pos])"
proof -
  have p: "parent pos < pos" "s \<le> parent pos" using pos parent_less [of pos] below_ge [OF below_parent [OF b]] by auto
  have 1: "\<not> lt (h ! j) (h ! parent j)" if "0 < j" "j < length h" "s \<le> parent j" "j \<noteq> pos" "parent j \<noteq> pos" for j
    using hole that unfolding heap_hole_def by blast
  have 2: "\<not> lt (h ! j) (h ! parent pos)" if "0 < j" "j < length h" "parent j = pos" for j
    using hole that pos unfolding heap_hole_def by blast
  have 3: "\<not> lt (h ! parent pos) (h ! parent (parent pos))" if "s < parent pos"
    using 1 [of "parent pos"] that p pos below_ge [OF below_parent [OF below_parent [OF b]]]
      parent_less [of "parent pos"] by auto
  have 4: "\<not> lt (h ! j) (h ! parent (parent pos))" if "s < parent pos" "0 < j" "j < length h" "parent j = parent pos" "j \<noteq> pos" for j
    using not_lt_trans [of "h ! j" "h ! parent pos"] 1 [of j] 3 that p by simp
  have pp: "parent (parent pos) \<noteq> pos" using p parent_mono [of "parent pos" pos] by linarith
  show ?thesis unfolding heap_hole_def
  proof (intro conjI allI impI; elim conjE)
    fix j assume "0 < j" "j < length (h[pos := h ! parent pos])" "s \<le> parent j" "j \<noteq> parent pos" "parent j \<noteq> parent pos"
    then show "\<not> lt (h[pos := h ! parent pos] ! j) (h[pos := h ! parent pos] ! parent j)"
      using 1 [of j] 2 [of j] parent_less [of j] pos by (cases "parent j = pos"; cases "j = pos") auto
  next
    fix j assume "0 < j" "j < length (h[pos := h ! parent pos])" "parent j = parent pos" "s < parent pos"
    then show "\<not> lt (h[pos := h ! parent pos] ! j) (h[pos := h ! parent pos] ! parent (parent pos))"
      using 3 4 [of j] pp pos by (cases "j = pos") auto
  qed
qed

lemma hole_filled:
  assumes hole: "heap_hole lt s pos h" and b: "below s pos" and pos: "pos < length h"
    and kids: "\<And>j. 0 < j \<Longrightarrow> j < length h \<Longrightarrow> parent j = pos \<Longrightarrow> \<not> lt (h ! j) x"
    and up: "s < pos \<Longrightarrow> \<not> lt x (h ! parent pos)"
  shows "heap_from lt s (h[pos := x])"
  unfolding heap_from_def
proof (intro allI impI; elim conjE)
  fix j assume j: "0 < j" "j < length (h[pos := x])" "s \<le> parent j"
  have ne: "parent j \<noteq> j" using parent_less [OF j(1)] by simp
  show "\<not> lt (h[pos := x] ! j) (h[pos := x] ! parent j)"
  proof (cases "j = pos \<or> parent j = pos")
    case True
    then show ?thesis using j ne kids [of j] up parent_less [OF j(1)] pos by (auto simp: nth_list_update)
  next
    case False
    then show ?thesis using hole j unfolding heap_hole_def by auto
  qed
qed

lemma siftdown_loop_correct:
  assumes "heap_hole lt s pos h" and "below s pos" and "pos < length h"
    and "\<And>j. 0 < j \<Longrightarrow> j < length h \<Longrightarrow> parent j = pos \<Longrightarrow> \<not> lt (h ! j) x"
  shows "heap_from lt s (siftdown_loop lt x s pos h) \<and> mset (siftdown_loop lt x s pos h) = mset (h[pos := x])"
  using assms
proof (induction pos arbitrary: h rule: less_induct)
  case (less pos)
  note hole = less.prems(1) and b = less.prems(2) and pos = less.prems(3) and kids = less.prems(4)
  have e: "siftdown_loop lt x s pos h =
    (if s < pos \<and> lt x (h ! parent pos) then siftdown_loop lt x s (parent pos) (h[pos := h ! parent pos]) else h[pos := x])"
    by (subst siftdown_loop.simps) (simp add: Let_def parent_def)
  show ?case
  proof (cases "s < pos \<and> lt x (h ! parent pos)")
    case True
    let ?h = "h[pos := h ! parent pos]"
    have p: "parent pos < pos" "s \<le> parent pos" using True parent_less [of pos] below_ge [OF below_parent [OF b]] by auto
    have k: "\<not> lt (?h ! j) x" if j: "0 < j" "j < length ?h" "parent j = parent pos" for j
    proof (cases "j = pos")
      case False
      then have "\<not> lt (h ! j) (h ! parent pos)" using hole j p unfolding heap_hole_def by force
      then show ?thesis using False True not_lt_trans [of "h ! j" "h ! parent pos" x] lt_asym by auto
    qed (use True lt_asym pos in auto)
    have "heap_from lt s (siftdown_loop lt x s (parent pos) ?h) \<and> mset (siftdown_loop lt x s (parent pos) ?h) = mset (?h[parent pos := x])"
    proof (rule less.IH [OF p(1)])
      show "heap_hole lt s (parent pos) ?h" using hole_up [OF hole b] True pos by blast
      show "below s (parent pos)" using below_parent [OF b] True by blast
      show "parent pos < length ?h" using p pos by simp
    qed (rule k)
    then show ?thesis using True mset_swap_up [of pos h "parent pos" x] p pos unfolding e by simp
  next
    case False
    have "heap_from lt s (h[pos := x])" by (rule hole_filled [OF hole b pos]) (use kids False in blast)+
    moreover have "siftdown_loop lt x s pos h = h[pos := x]" unfolding e by (rule if_not_P [OF False])
    ultimately show ?thesis by simp
  qed
qed

lemma hole_down:
  assumes hole: "heap_hole lt s pos h" and b: "below s pos" and c: "0 < c" "c < length h" "parent c = pos"
    and least: "\<And>j. 0 < j \<Longrightarrow> j < length h \<Longrightarrow> parent j = pos \<Longrightarrow> \<not> lt (h ! j) (h ! c)"
  shows "heap_hole lt s c (h[pos := h ! c])"
proof -
  have pos: "pos < c" "pos < length h" using parent_less [of c] c by auto
  have 1: "\<not> lt (h ! j) (h ! parent j)" if "0 < j" "j < length h" "s \<le> parent j" "j \<noteq> pos" "parent j \<noteq> pos" for j
    using hole that unfolding heap_hole_def by blast
  have 2: "\<not> lt (h ! c) (h ! parent pos)" if "s < pos"
    using hole that c unfolding heap_hole_def by blast
  show ?thesis unfolding heap_hole_def
  proof (intro conjI allI impI; elim conjE)
    fix j assume j: "0 < j" "j < length (h[pos := h ! c])" "s \<le> parent j" "j \<noteq> c" "parent j \<noteq> c"
    show "\<not> lt (h[pos := h ! c] ! j) (h[pos := h ! c] ! parent j)"
      using 1 [of j] 2 least [of j] parent_less [of j] j pos by (auto simp: nth_list_update)
  next
    fix j assume j: "0 < j" "j < length (h[pos := h ! c])" "parent j = c" "s < c"
    show "\<not> lt (h[pos := h ! c] ! j) (h[pos := h ! c] ! parent c)"
      using 1 [of j] parent_less [of j] j pos c(3) below_ge [OF b] by (auto simp: nth_list_update)
  qed
qed

lemma siftup_loop_correct:
  assumes "heap_hole lt s pos h" and "below s pos" and "pos < length h" and "siftup_loop lt pos h = (p, h')"
  shows "heap_hole lt s p h' \<and> below s p \<and> p < length h' \<and> length h' = length h \<and> length h \<le> 2 * p + 1 \<and>
    mset (h'[p := x]) = mset (h[pos := x])"
  using assms
proof (induction "length h - pos" arbitrary: pos h rule: less_induct)
  case less
  note hole = less.prems(1) and b = less.prems(2) and pos = less.prems(3) and r = less.prems(4)
  define c where "c = (if 2 * pos + 2 < length h \<and> \<not> lt (h ! (2 * pos + 1)) (h ! (2 * pos + 2)) then 2 * pos + 2 else 2 * pos + 1)"
  have e: "siftup_loop lt pos h = (if 2 * pos + 1 < length h then siftup_loop lt c (h[pos := h ! c]) else (pos, h))"
    by (subst siftup_loop.simps) (simp add: Let_def c_def)
  show ?case
  proof (cases "2 * pos + 1 < length h")
    case True
    have c: "0 < c" "c < length h" "parent c = pos" "pos < c" using True by (auto simp: c_def parent_def)
    have least: "\<not> lt (h ! j) (h ! c)" if "0 < j" "j < length h" "parent j = pos" for j
      using that lt_irrefl lt_asym by (auto simp: parent_iff c_def)
    have "heap_hole lt s p h' \<and> below s p \<and> p < length h' \<and> length h' = length (h[pos := h ! c]) \<and>
      length (h[pos := h ! c]) \<le> 2 * p + 1 \<and> mset (h'[p := x]) = mset ((h[pos := h ! c])[c := x])"
    proof (rule less.hyps)
      show "length (h[pos := h ! c]) - c < length h - pos" using c pos by simp
      show "heap_hole lt s c (h[pos := h ! c])" by (rule hole_down [OF hole b c(1-3) least])
      show "below s c" using below_child [of s c] b c by simp
      show "c < length (h[pos := h ! c])" using c by simp
      show "siftup_loop lt c (h[pos := h ! c]) = (p, h')" using e r True by simp
    qed
    then show ?thesis using mset_swap_up [of pos h c x] c pos by auto
  qed (use e r hole b pos in auto)
qed

lemma heap_hole_update [simp]: "heap_hole lt s p (h[p := x]) = heap_hole lt s p h"
proof -
  have "h[p := x] ! parent p = h ! parent p" if "s < p"
    using that parent_less [of p] by simp
  moreover have "h[p := x] ! j = h ! j" if "0 < j" "parent j = p" for j
    using that parent_less [of j] by simp
  ultimately show ?thesis unfolding heap_hole_def by auto
qed

lemma siftdown_correct:
  assumes "heap_hole lt s p h" and "below s p" and "p < length h" and "length h \<le> 2 * p + 1"
  shows "heap_from lt s (siftdown lt s p h)" and "mset (siftdown lt s p h) = mset h"
  using siftdown_loop_correct [OF assms(1-3), of "h ! p"] assms(4) by (auto simp: siftdown_def parent_iff)

lemma siftup_correct:
  assumes h: "heap_from lt (Suc s) h" and s: "s < length h"
  shows "heap_from lt s (siftup lt s h)" and "mset (siftup lt s h) = mset h"
proof -
  obtain p h' where r: "siftup_loop lt s h = (p, h')" by (cases "siftup_loop lt s h")
  have "s \<noteq> parent j \<Longrightarrow> s \<le> parent j \<Longrightarrow> Suc s \<le> parent j" for j by simp
  then have "heap_hole lt s s h" using h unfolding heap_hole_def heap_from_def by fastforce
  note c = siftup_loop_correct [OF this below_refl s r, of "h ! s"]
  then show "heap_from lt s (siftup lt s h)" and "mset (siftup lt s h) = mset h"
    using siftdown_correct [of s p "h'[p := h ! s]"] r by (auto simp: siftup_def Let_def)
qed

theorem heappush_correct:
  assumes h: "is_heap lt h"
  shows "is_heap lt (heappush lt x h)" and "mset (heappush lt x h) = add_mset x (mset h)"
proof -
  have "heap_hole lt 0 (length h) (h @ [x])"
    unfolding heap_hole_def
  proof (intro conjI allI impI; elim conjE)
    fix j assume j: "0 < j" "j < length (h @ [x])" "j \<noteq> length h"
    then have "j < length h" "parent j < length h" using parent_less [of j] by auto
    then show "\<not> lt ((h @ [x]) ! j) ((h @ [x]) ! parent j)"
      using h j unfolding heap_from_def by (simp add: nth_append)
  next
    fix j assume "0 < j" "j < length (h @ [x])" "parent j = length h"
    then show "\<not> lt ((h @ [x]) ! j) ((h @ [x]) ! parent (length h))" using parent_less [of j] by simp
  qed
  then show "is_heap lt (heappush lt x h)" and "mset (heappush lt x h) = add_mset x (mset h)"
    using siftdown_correct [OF _ below_0, of "length h" "h @ [x]"] by (auto simp: heappush_def)
qed

lemma root_least: "is_heap lt h \<Longrightarrow> j < length h \<Longrightarrow> \<not> lt (h ! j) (h ! 0)"
proof (induction j rule: less_induct)
  case (less j)
  show ?case
  proof (cases "j = 0")
    case False
    then have "\<not> lt (h ! j) (h ! parent j)" using less.prems unfolding heap_from_def by auto
    moreover have "\<not> lt (h ! parent j) (h ! 0)" using less False parent_less [of j] by auto
    ultimately show ?thesis by (rule not_lt_trans)
  qed (simp add: lt_irrefl)
qed

theorem heappop_correct:
  assumes h: "is_heap lt h" and ne: "h \<noteq> []"
  shows "\<exists>h'. heappop lt h = Inr (h ! 0, h') \<and> is_heap lt h' \<and> mset h = add_mset (h ! 0) (mset h')"
proof -
  obtain ys y where e: "h = ys @ [y]" using ne by (cases h rule: rev_cases) auto
  show ?thesis
  proof (cases ys)
    case Nil
    then show ?thesis using e by (auto simp: heappop_def heap_from_def)
  next
    case (Cons z zs)
    have "heap_from lt (Suc 0) (ys[0 := y])"
      unfolding heap_from_def
    proof (intro allI impI; elim conjE)
      fix j assume j: "0 < j" "j < length (ys[0 := y])" "Suc 0 \<le> parent j"
      then have "\<not> lt (h ! j) (h ! parent j)" using h e unfolding heap_from_def by auto
      then show "\<not> lt (ys[0 := y] ! j) (ys[0 := y] ! parent j)"
        using j parent_less [OF j(1)] e by (simp add: nth_append)
    qed
    note c = siftup_correct [OF this]
    have "mset (ys[0 := y]) = add_mset y (mset zs)" using Cons by simp
    then show ?thesis using c Cons e by (auto simp: heappop_def)
  qed
qed

theorem heapify_correct:
  shows "is_heap lt (heapify lt h)" and "mset (heapify lt h) = mset h"
proof -
  have "heap_from lt 0 (fold (siftup lt) (rev [0..<n]) h) \<and> mset (fold (siftup lt) (rev [0..<n]) h) = mset h"
    if "heap_from lt n h" "n \<le> length h" for n h
    using that
  proof (induction n arbitrary: h)
    case (Suc n)
    then have c: "heap_from lt n (siftup lt n h)" "mset (siftup lt n h) = mset h"
      using siftup_correct [of n h] by auto
    have "length (siftup lt n h) = length h" using c(2) by (metis size_mset)
    then show ?case using Suc.IH [OF c(1)] Suc.prems c(2) by simp
  qed simp
  moreover have "heap_from lt (length h div 2) h" by (auto simp: heap_from_def parent_def)
  ultimately show "is_heap lt (heapify lt h)" and "mset (heapify lt h) = mset h"
    by (auto simp: heapify_def)
qed

end

end
