(* ===== verification/Request_Queue.thy ===== *)
theory Request_Queue
  imports Request_Model Binary_Heap
begin

text \<open>
  The waiting queues of the scheduler (\<^verbatim>\<open>vllm/v1/core/sched/request_queue.py\<close>): the first-come-first-served
  queue, a deque, and the priority queue, a \<^verbatim>\<open>heapq\<close> heap over \<open>request_lt\<close>.  Requests compare by object
  identity, which is \<open>obj_id\<close>.  The locale \<open>request_queue\<close> is the contract of the abstract base class; it is
  interpreted on both classes and on the dispatching operations.
\<close>

section \<open>Operations\<close>

text \<open>\<^verbatim>\<open>list.remove\<close> and \<^verbatim>\<open>deque.remove\<close>: the first element that is the object, \<^verbatim>\<open>ValueError\<close> without one.\<close>

fun remove_object :: "Request list \<Rightarrow> Request \<Rightarrow> Request list result" where
  "remove_object [] request = Inl ValueError"
| "remove_object (x # xs) request =
     (if obj_id x = obj_id request then Inr xs
      else and_then (remove_object xs request) (\<lambda>ys. Inr (x # ys)))"

definition without_objects :: "Request list \<Rightarrow> Request list \<Rightarrow> Request list" where
  "without_objects xs requests = filter (\<lambda>x. obj_id x \<notin> obj_id ` set requests) xs"

subsection \<open>\<^verbatim>\<open>FCFSRequestQueue\<close>\<close>

definition fcfs_add_request :: "Request list \<Rightarrow> Request \<Rightarrow> Request list" where
  "fcfs_add_request q request = q @ [request]"

definition fcfs_pop_request :: "Request list \<Rightarrow> (Request \<times> Request list) result" where
  "fcfs_pop_request q = (case q of [] \<Rightarrow> Inl IndexError | x # xs \<Rightarrow> Inr (x, xs))"

definition fcfs_peek_request :: "Request list \<Rightarrow> Request result" where
  "fcfs_peek_request q = (if q = [] then Inl IndexError else Inr (q ! 0))"

definition fcfs_prepend_request :: "Request list \<Rightarrow> Request \<Rightarrow> Request list" where
  "fcfs_prepend_request q request = request # q"

definition fcfs_prepend_requests :: "Request list \<Rightarrow> Request list \<Rightarrow> Request list" where
  "fcfs_prepend_requests q requests = fold (\<lambda>request q. request # q) requests q"

definition fcfs_remove_request :: "Request list \<Rightarrow> Request \<Rightarrow> Request list result" where
  "fcfs_remove_request q request = remove_object q request"

definition fcfs_remove_requests :: "Request list \<Rightarrow> Request list \<Rightarrow> Request list" where
  "fcfs_remove_requests q requests = without_objects q requests"

definition fcfs_iter :: "Request list \<Rightarrow> Request list" where
  "fcfs_iter q = q"

subsection \<open>\<^verbatim>\<open>PriorityRequestQueue\<close>\<close>

definition pq_add_request :: "Request list \<Rightarrow> Request \<Rightarrow> Request list" where
  "pq_add_request heap request = heappush request_lt request heap"

definition pq_pop_request :: "Request list \<Rightarrow> (Request \<times> Request list) result" where
  "pq_pop_request heap = (if heap = [] then Inl IndexError else heappop request_lt heap)"

definition pq_peek_request :: "Request list \<Rightarrow> Request result" where
  "pq_peek_request heap = (if heap = [] then Inl IndexError else Inr (heap ! 0))"

definition pq_prepend_request :: "Request list \<Rightarrow> Request \<Rightarrow> Request list" where
  "pq_prepend_request heap request = pq_add_request heap request"

definition pq_prepend_requests :: "Request list \<Rightarrow> Request list \<Rightarrow> Request list" where
  "pq_prepend_requests heap requests = foldl pq_add_request heap requests"

definition pq_remove_request :: "Request list \<Rightarrow> Request \<Rightarrow> Request list result" where
  "pq_remove_request heap request =
     and_then (remove_object heap request) (\<lambda>heap. Inr (heapify request_lt heap))"

definition pq_remove_requests :: "Request list \<Rightarrow> Request list \<Rightarrow> Request list" where
  "pq_remove_requests heap requests = heapify request_lt (without_objects heap requests)"

text \<open>The iterator pops a copy of the heap until it is empty.\<close>

function pq_iter :: "Request list \<Rightarrow> Request list" where
  "pq_iter heap = (case heappop request_lt heap of Inl _ \<Rightarrow> [] | Inr (r, heap) \<Rightarrow> r # pq_iter heap)"
  by pat_completeness auto
termination
  by (relation "measure length") (auto dest!: heappop_length)

declare pq_iter.simps [simp del]

subsection \<open>The queue of a policy\<close>

datatype SchedulingPolicy = FCFS | PRIORITY

datatype RequestQueue = FCFSRequestQueue "Request list" | PriorityRequestQueue "Request list"

fun create_request_queue :: "SchedulingPolicy \<Rightarrow> RequestQueue" where
  "create_request_queue PRIORITY = PriorityRequestQueue []"
| "create_request_queue FCFS = FCFSRequestQueue []"

fun add_request :: "RequestQueue \<Rightarrow> Request \<Rightarrow> RequestQueue" where
  "add_request (FCFSRequestQueue q) request = FCFSRequestQueue (fcfs_add_request q request)"
| "add_request (PriorityRequestQueue h) request = PriorityRequestQueue (pq_add_request h request)"

fun pop_request :: "RequestQueue \<Rightarrow> (Request \<times> RequestQueue) result" where
  "pop_request (FCFSRequestQueue q) = and_then (fcfs_pop_request q) (\<lambda>(r, q). Inr (r, FCFSRequestQueue q))"
| "pop_request (PriorityRequestQueue h) = and_then (pq_pop_request h) (\<lambda>(r, h). Inr (r, PriorityRequestQueue h))"

fun peek_request :: "RequestQueue \<Rightarrow> Request result" where
  "peek_request (FCFSRequestQueue q) = fcfs_peek_request q"
| "peek_request (PriorityRequestQueue h) = pq_peek_request h"

fun prepend_request :: "RequestQueue \<Rightarrow> Request \<Rightarrow> RequestQueue" where
  "prepend_request (FCFSRequestQueue q) request = FCFSRequestQueue (fcfs_prepend_request q request)"
| "prepend_request (PriorityRequestQueue h) request = PriorityRequestQueue (pq_prepend_request h request)"

fun queue_iter :: "RequestQueue \<Rightarrow> Request list" where
  "queue_iter (FCFSRequestQueue q) = fcfs_iter q"
| "queue_iter (PriorityRequestQueue h) = pq_iter h"

fun prepend_list :: "RequestQueue \<Rightarrow> Request list \<Rightarrow> RequestQueue" where
  "prepend_list (FCFSRequestQueue q) requests = FCFSRequestQueue (fcfs_prepend_requests q requests)"
| "prepend_list (PriorityRequestQueue h) requests = PriorityRequestQueue (pq_prepend_requests h requests)"

definition prepend_requests :: "RequestQueue \<Rightarrow> RequestQueue \<Rightarrow> RequestQueue" where
  "prepend_requests q requests = prepend_list q (queue_iter requests)"

fun remove_request :: "RequestQueue \<Rightarrow> Request \<Rightarrow> RequestQueue result" where
  "remove_request (FCFSRequestQueue q) request = and_then (fcfs_remove_request q request) (\<lambda>q. Inr (FCFSRequestQueue q))"
| "remove_request (PriorityRequestQueue h) request =
     and_then (pq_remove_request h request) (\<lambda>h. Inr (PriorityRequestQueue h))"

fun remove_requests :: "RequestQueue \<Rightarrow> Request list \<Rightarrow> RequestQueue" where
  "remove_requests (FCFSRequestQueue q) requests = FCFSRequestQueue (fcfs_remove_requests q requests)"
| "remove_requests (PriorityRequestQueue h) requests = PriorityRequestQueue (pq_remove_requests h requests)"

fun queue_len :: "RequestQueue \<Rightarrow> int" where
  "queue_len (FCFSRequestQueue q) = int (length q)"
| "queue_len (PriorityRequestQueue h) = int (length h)"

fun queue_bool :: "RequestQueue \<Rightarrow> bool" where
  "queue_bool (FCFSRequestQueue q) = (length q > 0)"
| "queue_bool (PriorityRequestQueue h) = (h \<noteq> [])"

text \<open>What the scheduler does with a queue: pop \<open>n\<close> requests in turn.\<close>

fun pop_many :: "('q \<Rightarrow> (Request \<times> 'q) result) \<Rightarrow> nat \<Rightarrow> 'q \<Rightarrow> (Request list \<times> 'q) result" where
  "pop_many pop 0 q = Inr ([], q)"
| "pop_many pop (Suc n) q =
     and_then (pop q) (\<lambda>(r, q). and_then (pop_many pop n q) (\<lambda>(rs, q). Inr (r # rs, q)))"

section \<open>The contract of \<^verbatim>\<open>RequestQueue\<close>\<close>

locale request_queue =
  fixes wf :: "'q \<Rightarrow> bool"
    and contents :: "'q \<Rightarrow> Request multiset"
    and add :: "'q \<Rightarrow> Request \<Rightarrow> 'q"
    and pop :: "'q \<Rightarrow> (Request \<times> 'q) result"
    and peek :: "'q \<Rightarrow> Request result"
    and prepend :: "'q \<Rightarrow> Request \<Rightarrow> 'q"
    and prepend_all :: "'q \<Rightarrow> Request list \<Rightarrow> 'q"
    and remove :: "'q \<Rightarrow> Request \<Rightarrow> 'q result"
    and removes :: "'q \<Rightarrow> Request list \<Rightarrow> 'q"
    and iter :: "'q \<Rightarrow> Request list"
  assumes add_law: "wf q \<Longrightarrow> wf (add q r) \<and> contents (add q r) = add_mset r (contents q)"
    and prepend_law: "wf q \<Longrightarrow> wf (prepend q r) \<and> contents (prepend q r) = add_mset r (contents q)"
    and prepend_all_law: "wf q \<Longrightarrow> wf (prepend_all q rs) \<and> contents (prepend_all q rs) = mset rs + contents q"
    and pop_empty: "wf q \<Longrightarrow> contents q = {#} \<Longrightarrow> pop q = Inl IndexError \<and> peek q = Inl IndexError \<and> iter q = []"
    and pop_some: "wf q \<Longrightarrow> contents q \<noteq> {#} \<Longrightarrow>
      \<exists>r q'. pop q = Inr (r, q') \<and> peek q = Inr r \<and> wf q' \<and> contents q = add_mset r (contents q') \<and> iter q = r # iter q'"
    and remove_law: "wf q \<Longrightarrow> case remove q r of
        Inl e \<Rightarrow> e = ValueError \<and> (\<forall>x \<in># contents q. obj_id x \<noteq> obj_id r)
      | Inr q' \<Rightarrow> wf q' \<and> (\<exists>x. obj_id x = obj_id r \<and> contents q = add_mset x (contents q'))"
    and removes_law: "wf q \<Longrightarrow> wf (removes q rs) \<and>
      contents (removes q rs) = filter_mset (\<lambda>x. obj_id x \<notin> obj_id ` set rs) (contents q)"
begin

lemma iter_contents: "wf q \<Longrightarrow> mset (iter q) = contents q"
proof (induction "size (contents q)" arbitrary: q)
  case 0
  then show ?case using pop_empty [of q] by simp
next
  case (Suc n)
  then obtain r q' where "wf q'" "contents q = add_mset r (contents q')" "iter q = r # iter q'"
    using pop_some [of q] by force
  then show ?case using Suc.hyps by simp
qed

lemma pop_many_iter:
  "wf q \<Longrightarrow> n \<le> size (contents q) \<Longrightarrow>
   \<exists>q'. pop_many pop n q = Inr (take n (iter q), q') \<and> wf q' \<and> iter q' = drop n (iter q)"
proof (induction n arbitrary: q)
  case (Suc n)
  then obtain r q' where r: "pop q = Inr (r, q')" "wf q'" "contents q = add_mset r (contents q')" "iter q = r # iter q'"
    using pop_some [of q] by force
  then obtain q'' where "pop_many pop n q' = Inr (take n (iter q'), q'')" "wf q''" "iter q'' = drop n (iter q')"
    using Suc.IH [of q'] Suc.prems by auto
  then show ?case using r by auto
qed simp

end

section \<open>The two classes keep the contract\<close>

lemma remove_object_result:
  "case remove_object xs r of
     Inl e \<Rightarrow> e = ValueError \<and> (\<forall>x \<in> set xs. obj_id x \<noteq> obj_id r)
   | Inr ys \<Rightarrow> \<exists>x. obj_id x = obj_id r \<and> mset xs = add_mset x (mset ys)"
proof (induction xs)
  case (Cons a xs)
  then show ?case by (cases "remove_object xs r") auto
qed simp

lemma fold_Cons_rev: "fold (\<lambda>x xs. x # xs) ys xs = rev ys @ xs"
  by (induction ys arbitrary: xs) auto

interpretation fcfs: request_queue "\<lambda>q. True" mset fcfs_add_request fcfs_pop_request fcfs_peek_request
  fcfs_prepend_request fcfs_prepend_requests fcfs_remove_request fcfs_remove_requests fcfs_iter
proof unfold_locales
  fix q :: "Request list" and r
  assume "mset q \<noteq> {#}"
  then show "\<exists>r q'. fcfs_pop_request q = Inr (r, q') \<and> fcfs_peek_request q = Inr r \<and> True \<and>
    mset q = add_mset r (mset q') \<and> fcfs_iter q = r # fcfs_iter q'"
    by (cases q) (simp_all add: fcfs_pop_request_def fcfs_peek_request_def fcfs_iter_def)
next
  fix q :: "Request list" and r
  show "case fcfs_remove_request q r of
        Inl e \<Rightarrow> e = ValueError \<and> (\<forall>x \<in># mset q. obj_id x \<noteq> obj_id r)
      | Inr q' \<Rightarrow> True \<and> (\<exists>x. obj_id x = obj_id r \<and> mset q = add_mset x (mset q'))"
    using remove_object_result [of q r] by (simp add: fcfs_remove_request_def split: sum.splits)
qed (simp_all add: fcfs_add_request_def fcfs_prepend_request_def fcfs_prepend_requests_def fcfs_pop_request_def
  fcfs_peek_request_def fcfs_iter_def fcfs_remove_requests_def without_objects_def fold_Cons_rev)

lemma request_lt_linear: "request_lt a b \<or> request_lt b a \<or> obj_id a = obj_id b"
  using string_less_linear [of "request_id a" "request_id b"] by (auto simp: request_lt_def)

lemma request_lt_irrefl: "\<not> request_lt a a"
  by (simp add: request_lt_def)

lemma request_lt_trans: "request_lt a b \<Longrightarrow> request_lt b c \<Longrightarrow> request_lt a c"
  using string_less_trans [of "request_id a" "request_id b" "request_id c"] string_less_irrefl
    string_less_trans [of "request_id a" "request_id b" "request_id a"]
  by (auto simp: request_lt_def split: if_splits)

text \<open>Two requests are incomparable when all four keys agree.\<close>

lemma request_lt_incomparable:
  "\<not> request_lt a b \<and> \<not> request_lt b a \<longleftrightarrow>
   priority a = priority b \<and> arrival_time a = arrival_time b \<and> request_id a = request_id b \<and> obj_id a = obj_id b"
  using string_less_linear [of "request_id a" "request_id b"] by (auto simp: request_lt_def)

lemma request_lt_not_trans: "\<not> request_lt a b \<Longrightarrow> \<not> request_lt b c \<Longrightarrow> \<not> request_lt a c"
proof
  assume n: "\<not> request_lt a b" "\<not> request_lt b c" and l: "request_lt a c"
  show False
  proof (cases "request_lt b a")
    case True
    then show False using request_lt_trans [OF True l] n by simp
  next
    case False
    then have "priority a = priority b" "arrival_time a = arrival_time b" "request_id a = request_id b" "obj_id a = obj_id b"
      using n(1) request_lt_incomparable [of a b] by simp_all
    then have "request_lt a c = request_lt b c" by (simp add: request_lt_def)
    then show False using n l by simp
  qed
qed

interpretation request_heap: weak_order request_lt
  using request_lt_irrefl request_lt_trans request_lt_not_trans by unfold_locales

lemma pq_prepend_requests_heap:
  "is_heap request_lt h \<Longrightarrow>
   is_heap request_lt (pq_prepend_requests h rs) \<and> mset (pq_prepend_requests h rs) = mset rs + mset h"
proof (induction rs arbitrary: h)
  case (Cons r rs)
  then show ?case
    using request_heap.heappush_correct [of h r] Cons.IH [of "pq_add_request h r"]
    by (simp add: pq_prepend_requests_def pq_add_request_def)
qed (simp add: pq_prepend_requests_def)

interpretation pq: request_queue "is_heap request_lt" mset pq_add_request pq_pop_request pq_peek_request
  pq_prepend_request pq_prepend_requests pq_remove_request pq_remove_requests pq_iter
proof unfold_locales
  fix h :: "Request list" and r
  assume h: "is_heap request_lt h" and ne: "mset h \<noteq> {#}"
  obtain h' where p: "heappop request_lt h = Inr (h ! 0, h')" "is_heap request_lt h'" "mset h = add_mset (h ! 0) (mset h')"
    using request_heap.heappop_correct [OF h] ne by auto
  then have "pq_iter h = h ! 0 # pq_iter h'" by (subst pq_iter.simps) simp
  then show "\<exists>r q'. pq_pop_request h = Inr (r, q') \<and> pq_peek_request h = Inr r \<and> is_heap request_lt q' \<and>
    mset h = add_mset r (mset q') \<and> pq_iter h = r # pq_iter q'"
    using p ne by (auto simp: pq_pop_request_def pq_peek_request_def)
next
  fix h :: "Request list" and r
  show "case pq_remove_request h r of
        Inl e \<Rightarrow> e = ValueError \<and> (\<forall>x \<in># mset h. obj_id x \<noteq> obj_id r)
      | Inr q' \<Rightarrow> is_heap request_lt q' \<and> (\<exists>x. obj_id x = obj_id r \<and> mset h = add_mset x (mset q'))"
    using remove_object_result [of h r] request_heap.heapify_correct
    by (cases "remove_object h r") (simp_all add: pq_remove_request_def)
next
  fix h :: "Request list"
  assume "mset h = {#}"
  then show "pq_pop_request h = Inl IndexError \<and> pq_peek_request h = Inl IndexError \<and> pq_iter h = []"
    by (simp add: pq_pop_request_def pq_peek_request_def pq_iter.simps [of "[]"] heappop_def)
qed (use request_heap.heappush_correct request_heap.heapify_correct pq_prepend_requests_heap in
  \<open>auto simp: pq_add_request_def pq_prepend_request_def pq_remove_requests_def without_objects_def\<close>)

text \<open>The order of a drained heap.\<close>

lemma pq_iter_sorted:
  "is_heap request_lt h \<Longrightarrow> sorted_wrt (\<lambda>a b. \<not> request_lt b a) (pq_iter h)"
proof (induction "length h" arbitrary: h)
  case 0
  then show ?case by (simp add: pq_iter.simps [of "[]"] heappop_def)
next
  case (Suc n)
  then obtain h' where p: "heappop request_lt h = Inr (h ! 0, h')" "is_heap request_lt h'" "mset h = add_mset (h ! 0) (mset h')"
    using request_heap.heappop_correct [of h] by fastforce
  have "\<not> request_lt b (h ! 0)" if "b \<in> set (pq_iter h')" for b
  proof -
    have "b \<in># mset h" using that pq.iter_contents [OF p(2)] p(3) by (metis insert_iff set_mset_add_mset_insert set_mset_mset)
    then show ?thesis using request_heap.root_least [OF Suc.prems] by (auto simp: in_set_conv_nth)
  qed
  moreover have "length h = Suc (length h')" using p(3) by (metis size_add_mset size_mset)
  then have "sorted_wrt (\<lambda>a b. \<not> request_lt b a) (pq_iter h')" using Suc.hyps p(2) by simp
  moreover have "pq_iter h = h ! 0 # pq_iter h'" by (subst pq_iter.simps) (simp add: p(1))
  ultimately show ?case by simp
qed

section \<open>The dispatching operations\<close>

fun queue_wf :: "RequestQueue \<Rightarrow> bool" where
  "queue_wf (FCFSRequestQueue q) = True"
| "queue_wf (PriorityRequestQueue h) = is_heap request_lt h"

fun queue_contents :: "RequestQueue \<Rightarrow> Request multiset" where
  "queue_contents (FCFSRequestQueue q) = mset q"
| "queue_contents (PriorityRequestQueue h) = mset h"

lemma created_wf [simp]: "queue_wf (create_request_queue p)" "queue_contents (create_request_queue p) = {#}"
  by (cases p; simp add: heap_from_def)+

interpretation rq: request_queue queue_wf queue_contents add_request pop_request peek_request
  prepend_request prepend_list remove_request remove_requests queue_iter
proof unfold_locales
  fix q r
  assume "queue_wf q" "queue_contents q \<noteq> {#}"
  then show "\<exists>r q'. pop_request q = Inr (r, q') \<and> peek_request q = Inr r \<and> queue_wf q' \<and>
    queue_contents q = add_mset r (queue_contents q') \<and> queue_iter q = r # queue_iter q'"
    using fcfs.pop_some pq.pop_some by (cases q) fastforce+
next
  fix q r
  assume "queue_wf q"
  then show "case remove_request q r of
        Inl e \<Rightarrow> e = ValueError \<and> (\<forall>x \<in># queue_contents q. obj_id x \<noteq> obj_id r)
      | Inr q' \<Rightarrow> queue_wf q' \<and> (\<exists>x. obj_id x = obj_id r \<and> queue_contents q = add_mset x (queue_contents q'))"
  proof (cases q)
    case (FCFSRequestQueue xs)
    then show ?thesis using fcfs.remove_law [of xs r] by (cases "fcfs_remove_request xs r") auto
  next
    case (PriorityRequestQueue h)
    then show ?thesis using pq.remove_law [of h r] \<open>queue_wf q\<close> by (cases "pq_remove_request h r") auto
  qed
next
  fix q
  assume "queue_wf q" "queue_contents q = {#}"
  then show "pop_request q = Inl IndexError \<and> peek_request q = Inl IndexError \<and> queue_iter q = []"
    using fcfs.pop_empty pq.pop_empty by (cases q) auto
next
  fix q r assume "queue_wf q"
  then show "queue_wf (add_request q r) \<and> queue_contents (add_request q r) = add_mset r (queue_contents q)"
    using fcfs.add_law pq.add_law by (cases q) auto
next
  fix q r assume "queue_wf q"
  then show "queue_wf (prepend_request q r) \<and> queue_contents (prepend_request q r) = add_mset r (queue_contents q)"
    using fcfs.prepend_law pq.prepend_law by (cases q) auto
next
  fix q rs assume "queue_wf q"
  then show "queue_wf (prepend_list q rs) \<and> queue_contents (prepend_list q rs) = mset rs + queue_contents q"
    using fcfs.prepend_all_law pq.prepend_all_law by (cases q) auto
next
  fix q rs assume "queue_wf q"
  then show "queue_wf (remove_requests q rs) \<and>
      queue_contents (remove_requests q rs) = filter_mset (\<lambda>x. obj_id x \<notin> obj_id ` set rs) (queue_contents q)"
    using fcfs.removes_law pq.removes_law by (cases q) auto
qed

section \<open>Queues in use\<close>

text \<open>The queues that the operations build.\<close>

inductive queue_reachable :: "RequestQueue \<Rightarrow> bool" where
  reach_create: "queue_reachable (create_request_queue p)"
| reach_add: "queue_reachable q \<Longrightarrow> queue_reachable (add_request q r)"
| reach_pop: "queue_reachable q \<Longrightarrow> pop_request q = Inr (r, q') \<Longrightarrow> queue_reachable q'"
| reach_prepend: "queue_reachable q \<Longrightarrow> queue_reachable (prepend_request q r)"
| reach_prepend_all: "queue_reachable q \<Longrightarrow> queue_reachable p \<Longrightarrow> queue_reachable (prepend_requests q p)"
| reach_remove: "queue_reachable q \<Longrightarrow> remove_request q r = Inr q' \<Longrightarrow> queue_reachable q'"
| reach_removes: "queue_reachable q \<Longrightarrow> queue_reachable (remove_requests q rs)"

lemma queue_reachable_wf: "queue_reachable q \<Longrightarrow> queue_wf q"
proof (induction rule: queue_reachable.induct)
  case (reach_pop q r q')
  then have "queue_contents q \<noteq> {#}" using rq.pop_empty [of q] by auto
  then show ?case using rq.pop_some [of q] reach_pop by auto
next
  case (reach_remove q r q')
  then show ?case using rq.remove_law [of q r] by simp
qed (use rq.add_law rq.prepend_law rq.prepend_all_law rq.removes_law in \<open>auto simp: prepend_requests_def\<close>)

lemma queue_peek: "queue_wf q \<Longrightarrow> peek_request q = (case queue_iter q of [] \<Rightarrow> Inl IndexError | r # rs \<Rightarrow> Inr r)"
  using rq.pop_empty [of q] rq.pop_some [of q] by (cases "queue_contents q = {#}") auto

lemma queue_len_contents: "queue_len q = int (size (queue_contents q))" "queue_bool q \<longleftrightarrow> queue_contents q \<noteq> {#}"
  by (cases q; simp)+

text \<open>A small queue for the concrete instances.\<close>

definition queued :: "int \<Rightarrow> rat \<Rightarrow> int \<Rightarrow> Request" where
  "queued p t i = (text_request [] [])\<lparr>priority := p, arrival_time := t, obj_id := i\<rparr>"

lemma queued_sel [simp]:
  "priority (queued p t i) = p" "arrival_time (queued p t i) = t" "obj_id (queued p t i) = i"
  "request_id (queued p t i) = ''r''"
  by (simp_all add: queued_def text_request_def fresh_request_def text_message_def)

lemma queued_lt [simp]: "request_lt (queued p t i) (queued p' t' i') \<longleftrightarrow>
  p < p' \<or> p = p' \<and> (t < t' \<or> t = t' \<and> i < i')"
  by (auto simp: request_lt_def)

definition small_queue :: RequestQueue where
  "small_queue = add_request (add_request (create_request_queue PRIORITY) (queued 5 0 1)) (queued 2 1 2)"

lemma small_queue_reachable: "queue_reachable small_queue"
  unfolding small_queue_def by (intro queue_reachable.intros)

lemma small_queue_eq: "small_queue = PriorityRequestQueue [queued 2 1 2, queued 5 0 1]"
  by (simp add: small_queue_def pq_add_request_def heappush_def siftdown_def siftdown_loop.simps Let_def)

section \<open>Properties\<close>

text \<open>
  C24.  However a queue of either policy was built, popping \<open>n\<close> of its requests returns the first \<open>n\<close> of the
  iteration order and leaves the rest; the iteration lists exactly the queued requests, the length and the
  truth value agree with it, and an empty queue raises \<^verbatim>\<open>IndexError\<close> on pop and peek.
\<close>

theorem queue_pops_in_iteration_order:
  assumes "queue_reachable q"
  shows "mset (queue_iter q) = queue_contents q \<and>
    queue_len q = int (length (queue_iter q)) \<and>
    (queue_bool q \<longleftrightarrow> queue_iter q \<noteq> []) \<and>
    (\<forall>n \<le> length (queue_iter q). \<exists>q'. pop_many pop_request n q = Inr (take n (queue_iter q), q') \<and>
       queue_iter q' = drop n (queue_iter q)) \<and>
    peek_request q = (case queue_iter q of [] \<Rightarrow> Inl IndexError | r # rs \<Rightarrow> Inr r) \<and>
    (queue_iter q = [] \<longrightarrow> pop_request q = Inl IndexError)"
proof -
  have wf: "queue_wf q" by (rule queue_reachable_wf [OF assms])
  have c: "mset (queue_iter q) = queue_contents q" by (rule rq.iter_contents [OF wf])
  then have sz: "size (queue_contents q) = length (queue_iter q)" by (metis size_mset)
  have e: "queue_contents q = {#} \<longleftrightarrow> queue_iter q = []" using c by auto
  show ?thesis
    using c sz e rq.pop_many_iter [OF wf] queue_peek [OF wf] rq.pop_empty [OF wf]
    by (auto simp: queue_len_contents)
qed

theorem queue_pops_in_iteration_order_witness:
  "mset (queue_iter small_queue) = {#queued 2 1 2, queued 5 0 1#} \<and> queue_len small_queue = 2 \<and>
   peek_request small_queue = Inr (queued 2 1 2)"
  using queue_pops_in_iteration_order [OF small_queue_reachable]
  by (simp add: small_queue_eq pq_peek_request_def)

text \<open>
  C25.  The priority queue hands its requests out by smaller priority value first and, at equal priority, by
  earlier arrival; the request it pops has the least \<open>(priority, arrival_time)\<close> of all queued ones.  The
  first-come-first-served queue hands out in the order of arrival, what is prepended before the rest, and a
  prepended queue in reverse.
\<close>

theorem queue_policy_order:
  assumes "queue_reachable (PriorityRequestQueue h)"
  shows "sorted_wrt (\<lambda>a b. priority a < priority b \<or> priority a = priority b \<and> arrival_time a \<le> arrival_time b)
      (queue_iter (PriorityRequestQueue h)) \<and>
    (\<forall>r q' x. pop_request (PriorityRequestQueue h) = Inr (r, q') \<longrightarrow> x \<in># queue_contents (PriorityRequestQueue h) \<longrightarrow>
      priority r < priority x \<or> priority r = priority x \<and> arrival_time r \<le> arrival_time x) \<and>
    queue_iter (add_request (FCFSRequestQueue xs) r) = queue_iter (FCFSRequestQueue xs) @ [r] \<and>
    queue_iter (prepend_request (FCFSRequestQueue xs) r) = r # queue_iter (FCFSRequestQueue xs) \<and>
    queue_iter (prepend_requests (FCFSRequestQueue xs) p) = rev (queue_iter p) @ queue_iter (FCFSRequestQueue xs)"
proof -
  have h: "is_heap request_lt h" using queue_reachable_wf [OF assms] by simp
  have le: "priority a < priority b \<or> priority a = priority b \<and> arrival_time a \<le> arrival_time b"
    if "\<not> request_lt b a" for a b using that by (auto simp: request_lt_def split: if_splits)
  have "sorted_wrt (\<lambda>a b. priority a < priority b \<or> priority a = priority b \<and> arrival_time a \<le> arrival_time b)
    (queue_iter (PriorityRequestQueue h))"
    using sorted_wrt_mono_rel [OF _ pq_iter_sorted [OF h]] le by simp
  moreover have "priority r < priority x \<or> priority r = priority x \<and> arrival_time r \<le> arrival_time x"
    if p: "pop_request (PriorityRequestQueue h) = Inr (r, q')" and x: "x \<in># queue_contents (PriorityRequestQueue h)"
    for r q' x
  proof -
    have "h \<noteq> []" using x by auto
    then have "r = h ! 0" using request_heap.heappop_correct [OF h] p by (auto simp: pq_pop_request_def)
    then show ?thesis using le request_heap.root_least [OF h] x by (auto simp: in_set_conv_nth)
  qed
  ultimately show ?thesis
    by (simp add: fcfs_iter_def fcfs_add_request_def fcfs_prepend_request_def prepend_requests_def
      fcfs_prepend_requests_def fold_Cons_rev)
qed

theorem queue_policy_order_witness:
  "sorted_wrt (\<lambda>a b. priority a < priority b \<or> priority a = priority b \<and> arrival_time a \<le> arrival_time b)
     (queue_iter (PriorityRequestQueue [queued 2 1 2, queued 5 0 1])) \<and>
   pop_request (PriorityRequestQueue [queued 2 1 2, queued 5 0 1]) =
     Inr (queued 2 1 2, PriorityRequestQueue [queued 5 0 1]) \<and>
   priority (queued 2 1 2) < priority (queued 5 0 1)"
proof -
  have r: "queue_reachable (PriorityRequestQueue [queued 2 1 2, queued 5 0 1])"
    using small_queue_reachable by (simp add: small_queue_eq)
  have p: "pop_request (PriorityRequestQueue [queued 2 1 2, queued 5 0 1]) =
     Inr (queued 2 1 2, PriorityRequestQueue [queued 5 0 1])"
    by (simp add: pq_pop_request_def heappop_def siftup_def siftup_loop.simps siftdown_def siftdown_loop.simps Let_def)
  show ?thesis
    using queue_policy_order [OF r] p by auto
qed

text \<open>
  Removal is exact.  \<open>remove_request\<close> raises \<^verbatim>\<open>ValueError\<close> exactly when the object is not queued and
  otherwise takes out one occurrence of it; \<open>remove_requests\<close> takes out the named objects and nothing else,
  whether they are queued or not.  Both leave a queue that still pops in order.
\<close>

theorem queue_removal_exact:
  assumes "queue_reachable q"
  shows "(case remove_request q r of
      Inl e \<Rightarrow> e = ValueError \<and> (\<forall>x \<in># queue_contents q. obj_id x \<noteq> obj_id r)
    | Inr q' \<Rightarrow> queue_wf q' \<and> (\<exists>x. obj_id x = obj_id r \<and> queue_contents q = add_mset x (queue_contents q'))) \<and>
    queue_wf (remove_requests q rs) \<and>
    queue_contents (remove_requests q rs) = filter_mset (\<lambda>x. obj_id x \<notin> obj_id ` set rs) (queue_contents q)"
  using rq.remove_law rq.removes_law queue_reachable_wf [OF assms] by blast

theorem queue_removal_exact_witness:
  "queue_contents (remove_requests small_queue [queued 9 9 2]) = {#queued 5 0 1#}"
  using queue_removal_exact [OF small_queue_reachable, of "queued 5 0 1" "[queued 9 9 2]"]
  by (simp add: small_queue_eq)

end
