(* ===== verification/Kv_Spec.thy ===== *)
theory Kv_Spec
  imports Math_Utils Complex_Main
begin

text \<open>
  The KV cache specifications of a layer (\<^verbatim>\<open>vllm/v1/kv_cache_interface.py\<close>) and their registry
  (\<^verbatim>\<open>vllm/v1/kv_cache_spec_registry.py\<close>): the data classes, page sizes, per-request bounds, merging, and the
  manager class of a specification.  The size of a \<^verbatim>\<open>torch.dtype\<close> is the parameter \<open>dtype_size\<close>.
\<close>

section \<open>Data\<close>

record AttentionSpec =
  att_block_size :: int
  num_kv_heads :: int
  head_size :: int
  att_dtype :: string
  head_size_v :: int
  kv_quant_mode :: int
  att_page_size_padded :: "int option"
  num_head_slots :: "int option"
  state_content_bytes :: "int option"
  tokens_per_state :: rat

text \<open>
  The fields that \<^verbatim>\<open>FullAttentionSpec\<close>, \<^verbatim>\<open>MLAAttentionSpec\<close> and \<^verbatim>\<open>MambaSpec\<close> add.  \<^verbatim>\<open>SlidingWindowMLASpec\<close> has the first three fields of
  \<open>MlaFields\<close>; the fourth, which that class lacks, is read for no \<^verbatim>\<open>SlidingWindowMLASpec\<close> and cleared wherever one is merged or promoted.
\<close>

record FullFields =
  full_sliding_window :: "int option"
  full_attention_chunk_size :: "int option"
  non_causal :: bool

record MlaFields =
  cache_dtype_str :: "string option"
  mla_alignment :: "int option"
  model_version :: "string option"
  non_causal_multi_token_decode :: bool

record MambaFields =
  mamba_block_size :: int
  shapes :: "int list list"
  dtypes :: "string list"
  mamba_page_size_padded :: "int option"
  mamba_type :: string
  mamba_cache_mode :: string
  num_speculative_blocks :: int
  num_prefill_checkpoint_blocks :: int

datatype KVCacheSpec =
    FullAttentionSpec AttentionSpec FullFields
  | MLAAttentionSpec AttentionSpec FullFields MlaFields
  | HiddenStateCacheSpec AttentionSpec FullFields MlaFields
  | RSWASpec AttentionSpec FullFields int
  | SinkFullAttentionSpec AttentionSpec FullFields "int option"
  | ChunkedLocalAttentionSpec AttentionSpec int
  | SlidingWindowSpec AttentionSpec int int
  | SlidingWindowMLASpec AttentionSpec int int MlaFields
  | MambaSpec MambaFields
  | EncoderOnlyAttentionSpec AttentionSpec
  | CrossAttentionSpec AttentionSpec
  | UniformTypeKVCacheSpecs int "(string \<times> KVCacheSpec) list"

datatype spec_class =
    cls_KVCacheSpec | cls_AttentionSpec | cls_FullAttentionSpec | cls_MLAAttentionSpec
  | cls_HiddenStateCacheSpec | cls_RSWASpec | cls_SinkFullAttentionSpec | cls_ChunkedLocalAttentionSpec
  | cls_SlidingWindowSpec | cls_SlidingWindowMLASpec | cls_MambaSpec | cls_EncoderOnlyAttentionSpec
  | cls_CrossAttentionSpec | cls_UniformTypeKVCacheSpecs

fun class_of :: "KVCacheSpec \<Rightarrow> spec_class" where
  "class_of (FullAttentionSpec _ _) = cls_FullAttentionSpec"
| "class_of (MLAAttentionSpec _ _ _) = cls_MLAAttentionSpec"
| "class_of (HiddenStateCacheSpec _ _ _) = cls_HiddenStateCacheSpec"
| "class_of (RSWASpec _ _ _) = cls_RSWASpec"
| "class_of (SinkFullAttentionSpec _ _ _) = cls_SinkFullAttentionSpec"
| "class_of (ChunkedLocalAttentionSpec _ _) = cls_ChunkedLocalAttentionSpec"
| "class_of (SlidingWindowSpec _ _ _) = cls_SlidingWindowSpec"
| "class_of (SlidingWindowMLASpec _ _ _ _) = cls_SlidingWindowMLASpec"
| "class_of (MambaSpec _) = cls_MambaSpec"
| "class_of (EncoderOnlyAttentionSpec _) = cls_EncoderOnlyAttentionSpec"
| "class_of (CrossAttentionSpec _) = cls_CrossAttentionSpec"
| "class_of (UniformTypeKVCacheSpecs _ _) = cls_UniformTypeKVCacheSpecs"

text \<open>The base class of each class; \<open>mro\<close> walks up to \<^verbatim>\<open>KVCacheSpec\<close>.\<close>

fun mro :: "spec_class \<Rightarrow> spec_class list" where
  "mro cls_KVCacheSpec = [cls_KVCacheSpec]"
| "mro cls_AttentionSpec = [cls_AttentionSpec, cls_KVCacheSpec]"
| "mro cls_FullAttentionSpec = [cls_FullAttentionSpec, cls_AttentionSpec, cls_KVCacheSpec]"
| "mro cls_MLAAttentionSpec = [cls_MLAAttentionSpec, cls_FullAttentionSpec, cls_AttentionSpec, cls_KVCacheSpec]"
| "mro cls_HiddenStateCacheSpec =
     [cls_HiddenStateCacheSpec, cls_MLAAttentionSpec, cls_FullAttentionSpec, cls_AttentionSpec, cls_KVCacheSpec]"
| "mro cls_RSWASpec = [cls_RSWASpec, cls_FullAttentionSpec, cls_AttentionSpec, cls_KVCacheSpec]"
| "mro cls_SinkFullAttentionSpec = [cls_SinkFullAttentionSpec, cls_FullAttentionSpec, cls_AttentionSpec, cls_KVCacheSpec]"
| "mro cls_ChunkedLocalAttentionSpec = [cls_ChunkedLocalAttentionSpec, cls_AttentionSpec, cls_KVCacheSpec]"
| "mro cls_SlidingWindowSpec = [cls_SlidingWindowSpec, cls_AttentionSpec, cls_KVCacheSpec]"
| "mro cls_SlidingWindowMLASpec = [cls_SlidingWindowMLASpec, cls_SlidingWindowSpec, cls_AttentionSpec, cls_KVCacheSpec]"
| "mro cls_MambaSpec = [cls_MambaSpec, cls_KVCacheSpec]"
| "mro cls_EncoderOnlyAttentionSpec = [cls_EncoderOnlyAttentionSpec, cls_AttentionSpec, cls_KVCacheSpec]"
| "mro cls_CrossAttentionSpec = [cls_CrossAttentionSpec, cls_AttentionSpec, cls_KVCacheSpec]"
| "mro cls_UniformTypeKVCacheSpecs = [cls_UniformTypeKVCacheSpecs, cls_KVCacheSpec]"

definition isinstance :: "KVCacheSpec \<Rightarrow> spec_class \<Rightarrow> bool" where
  "isinstance kv_cache_spec c = (c \<in> set (mro (class_of kv_cache_spec)))"

fun attention_part :: "KVCacheSpec \<Rightarrow> AttentionSpec option" where
  "attention_part (FullAttentionSpec a _) = Some a"
| "attention_part (MLAAttentionSpec a _ _) = Some a"
| "attention_part (HiddenStateCacheSpec a _ _) = Some a"
| "attention_part (RSWASpec a _ _) = Some a"
| "attention_part (SinkFullAttentionSpec a _ _) = Some a"
| "attention_part (ChunkedLocalAttentionSpec a _) = Some a"
| "attention_part (SlidingWindowSpec a _ _) = Some a"
| "attention_part (SlidingWindowMLASpec a _ _ _) = Some a"
| "attention_part (EncoderOnlyAttentionSpec a) = Some a"
| "attention_part (CrossAttentionSpec a) = Some a"
| "attention_part (MambaSpec _) = None"
| "attention_part (UniformTypeKVCacheSpecs _ _) = None"

fun spec_block_size :: "KVCacheSpec \<Rightarrow> int" where
  "spec_block_size (MambaSpec m) = mamba_block_size m"
| "spec_block_size (UniformTypeKVCacheSpecs bs _) = bs"
| "spec_block_size s = (case attention_part s of Some a \<Rightarrow> att_block_size a | None \<Rightarrow> 0)"

section \<open>The registry\<close>

datatype manager_class =
    FullAttentionManager | RSWAManager | SlidingWindowManager | ChunkedLocalAttentionManager | MambaManager
  | CrossAttentionManager | SinkFullAttentionManager

text \<open>A registered class with its manager and grouping base.\<close>

type_synonym registry = "(spec_class, manager_class \<times> spec_class) dict"

definition register_spec ::
    "spec_class \<Rightarrow> manager_class \<Rightarrow> spec_class \<Rightarrow> registry \<Rightarrow> registry result" where
  "register_spec c manager base reg =
     and_then (py_assert (base \<in> set (mro c))) (\<lambda>_.
     and_then (case dict_get reg c of
         None \<Rightarrow> Inr ()
       | Some registered \<Rightarrow> py_assert (registered = (manager, base))) (\<lambda>_.
     Inr (dict_set c (manager, base) reg)))"

definition register_all_kvcache_specs :: "registry \<Rightarrow> registry result" where
  "register_all_kvcache_specs reg =
     for_each (\<lambda>(c, manager, base). register_spec c manager base)
       [(cls_FullAttentionSpec, FullAttentionManager, cls_FullAttentionSpec),
        (cls_SlidingWindowSpec, SlidingWindowManager, cls_SlidingWindowSpec),
        (cls_SlidingWindowMLASpec, SlidingWindowManager, cls_SlidingWindowMLASpec),
        (cls_MambaSpec, MambaManager, cls_MambaSpec),
        (cls_ChunkedLocalAttentionSpec, ChunkedLocalAttentionManager, cls_ChunkedLocalAttentionSpec),
        (cls_CrossAttentionSpec, CrossAttentionManager, cls_CrossAttentionSpec),
        (cls_MLAAttentionSpec, FullAttentionManager, cls_FullAttentionSpec),
        (cls_RSWASpec, RSWAManager, cls_FullAttentionSpec),
        (cls_HiddenStateCacheSpec, FullAttentionManager, cls_FullAttentionSpec),
        (cls_SinkFullAttentionSpec, SinkFullAttentionManager, cls_FullAttentionSpec)] reg"

text \<open>The first registered class on the way up.\<close>

fun first_registered :: "registry \<Rightarrow> spec_class list \<Rightarrow> (manager_class \<times> spec_class) option" where
  "first_registered reg [] = None"
| "first_registered reg (c # cs) =
     (case dict_get reg c of Some m \<Rightarrow> Some m | None \<Rightarrow> first_registered reg cs)"

definition get_manager_class :: "registry \<Rightarrow> KVCacheSpec \<Rightarrow> manager_class option" where
  "get_manager_class reg s = map_option fst (first_registered reg (mro (class_of s)))"

definition get_uniform_type_base_spec :: "registry \<Rightarrow> KVCacheSpec \<Rightarrow> spec_class option" where
  "get_uniform_type_base_spec reg s = map_option snd (first_registered reg (mro (class_of s)))"

definition check_kv_cache_spec_registry :: "registry \<Rightarrow> (string \<times> KVCacheSpec) list \<Rightarrow> unit result" where
  "check_kv_cache_spec_registry reg specs =
     for_each (\<lambda>(layer_name, s) _.
       if get_uniform_type_base_spec reg s = None then Inl ValueError
       else if get_manager_class reg s = None then Inl ValueError
       else Inr ()) specs ()"

section \<open>Page sizes\<close>

text \<open>
  \<^verbatim>\<open>tokens_per_state\<close> is an int or a \<^verbatim>\<open>Fraction\<close>; \<^verbatim>\<open>//\<close> with a fraction rounds down.
\<close>

definition get_num_kernel_states :: "AttentionSpec \<Rightarrow> int \<Rightarrow> int" where
  "get_num_kernel_states a kernel_block_size =
     (if tokens_per_state a > 0 then \<lfloor>of_int kernel_block_size / tokens_per_state a\<rfloor> else 1)"

definition num_states :: "AttentionSpec \<Rightarrow> int" where
  "num_states a = get_num_kernel_states a (att_block_size a)"

definition num_heads :: "AttentionSpec \<Rightarrow> int" where
  "num_heads a = (case num_head_slots a of Some n \<Rightarrow> n | None \<Rightarrow> num_kv_heads a)"

definition state_content_size_bytes :: "(string \<Rightarrow> int) \<Rightarrow> AttentionSpec \<Rightarrow> int" where
  "state_content_size_bytes dtype_size a =
     (case state_content_bytes a of
        Some n \<Rightarrow> n
      | None \<Rightarrow> (head_size a + head_size_v a) * dtype_size (att_dtype a))"

definition unpadded_page_size_bytes :: "(string \<Rightarrow> int) \<Rightarrow> AttentionSpec \<Rightarrow> int" where
  "unpadded_page_size_bytes dtype_size a = num_heads a * num_states a * state_content_size_bytes dtype_size a"

definition attention_page_size_bytes :: "(string \<Rightarrow> int) \<Rightarrow> AttentionSpec \<Rightarrow> int result" where
  "attention_page_size_bytes dtype_size a =
     (case att_page_size_padded a of
        Some n \<Rightarrow> and_then (py_assert (n \<ge> unpadded_page_size_bytes dtype_size a)) (\<lambda>_. Inr n)
      | None \<Rightarrow> Inr (unpadded_page_size_bytes dtype_size a))"

definition apply_alignment_padding :: "(string \<Rightarrow> int) \<Rightarrow> MlaFields \<Rightarrow> AttentionSpec \<Rightarrow> AttentionSpec" where
  "apply_alignment_padding dtype_size m a =
     (case mla_alignment m of
        None \<Rightarrow> a
      | Some alignment \<Rightarrow>
          let actual_page_size = unpadded_page_size_bytes dtype_size a;
              padded_page_size = round_up actual_page_size alignment
          in if padded_page_size \<noteq> actual_page_size
             then a\<lparr>att_page_size_padded := Some padded_page_size\<rparr> else a)"

definition mamba_state_bytes :: "(string \<Rightarrow> int) \<Rightarrow> MambaFields \<Rightarrow> int" where
  "mamba_state_bytes dtype_size m =
     sum_list (map2 (\<lambda>shape d. prod_list shape * dtype_size d) (shapes m) (dtypes m))"

definition mamba_page_size_bytes :: "(string \<Rightarrow> int) \<Rightarrow> MambaFields \<Rightarrow> int result" where
  "mamba_page_size_bytes dtype_size m =
     (case mamba_page_size_padded m of
        Some n \<Rightarrow> and_then (py_assert (n \<ge> mamba_state_bytes dtype_size m)) (\<lambda>_. Inr n)
      | None \<Rightarrow> Inr (mamba_state_bytes dtype_size m))"

fun sum_results :: "int result list \<Rightarrow> int result" where
  "sum_results [] = Inr 0"
| "sum_results (r # rs) = and_then r (\<lambda>n. and_then (sum_results rs) (\<lambda>m. Inr (n + m)))"

fun page_size_bytes :: "(string \<Rightarrow> int) \<Rightarrow> KVCacheSpec \<Rightarrow> int result" where
  "page_size_bytes dtype_size (MambaSpec m) = mamba_page_size_bytes dtype_size m"
| "page_size_bytes dtype_size (UniformTypeKVCacheSpecs _ specs) =
     sum_results (map (\<lambda>(_, s). page_size_bytes dtype_size s) specs)"
| "page_size_bytes dtype_size s =
     (case attention_part s of Some a \<Rightarrow> attention_page_size_bytes dtype_size a | None \<Rightarrow> Inl NotImplementedError)"

section \<open>Per-request bounds\<close>

text \<open>
  The configuration values that the bounds and the planning of the cache read.  The layout (\<^verbatim>\<open>vllm/v1/kv_cache_layout.py\<close>)
  names the physical order of the axes layer, block, head, state and content.
\<close>

datatype KVCacheLayout = LBHNC | LBNHC | LHBNC | BLHNC | BLNHC | BHLNC

record SpeculativeConfig =
  num_speculative_tokens :: int
  spec_use_eagle :: bool
  spec_multi_module_mtp :: bool

record VllmConfig =
  max_model_len :: int
  original_max_model_len :: int
  decode_context_parallel_size :: int
  max_in_flight_tokens :: int
  cache_mamba_mode :: string
  max_num_encoder_input_tokens :: int
  disable_hybrid_kv_cache_manager :: bool
  num_gpu_blocks_override :: "int option"
  cache_retention_interval :: "int option"
  speculative_config :: "SpeculativeConfig option"
  cache_layout :: "KVCacheLayout option"

definition chunked_max_admission_blocks :: "AttentionSpec \<Rightarrow> int \<Rightarrow> int \<Rightarrow> int \<Rightarrow> int" where
  "chunked_max_admission_blocks a attention_chunk_size in_flight model_len =
     cdiv (min (attention_chunk_size + in_flight) model_len) (att_block_size a)"

definition swa_max_admission_blocks :: "AttentionSpec \<Rightarrow> int \<Rightarrow> int \<Rightarrow> int \<Rightarrow> int \<Rightarrow> int" where
  "swa_max_admission_blocks a sliding_window extra_retained_tokens in_flight model_len =
     cdiv (min (sliding_window - 1 + extra_retained_tokens + in_flight) model_len) (att_block_size a) + 1"

definition times_page :: "int \<Rightarrow> int result \<Rightarrow> int result" where
  "times_page n page = and_then page (\<lambda>p. Inr (n * p))"

definition full_max_blocks :: "VllmConfig \<Rightarrow> AttentionSpec \<Rightarrow> int" where
  "full_max_blocks c a =
     cdiv (if decode_context_parallel_size c > 1
           then cdiv (max_model_len c) (decode_context_parallel_size c) else max_model_len c) (att_block_size a)"

definition mamba_max_blocks :: "VllmConfig \<Rightarrow> MambaFields \<Rightarrow> int" where
  "mamba_max_blocks c m =
     (if cache_mamba_mode c = ''all'' then cdiv (max_model_len c) (mamba_block_size m) + num_speculative_blocks m
      else if cache_mamba_mode c = ''align'' then 2 + num_speculative_blocks m + num_prefill_checkpoint_blocks m
      else 1 + num_speculative_blocks m)"

text \<open>\<^verbatim>\<open>max(...)\<close> over a generator: \<^verbatim>\<open>ValueError\<close> when it is empty.\<close>

fun max_results :: "int result list \<Rightarrow> int result" where
  "max_results [] = Inl ValueError"
| "max_results [r] = r"
| "max_results (r # rs) = and_then r (\<lambda>n. and_then (max_results rs) (\<lambda>m. Inr (max n m)))"

fun max_memory_usage_bytes :: "(string \<Rightarrow> int) \<Rightarrow> VllmConfig \<Rightarrow> KVCacheSpec \<Rightarrow> int result" where
  "max_memory_usage_bytes dz c (FullAttentionSpec a f) = times_page (full_max_blocks c a) (attention_page_size_bytes dz a)"
| "max_memory_usage_bytes dz c (MLAAttentionSpec a f m) = times_page (full_max_blocks c a) (attention_page_size_bytes dz a)"
| "max_memory_usage_bytes dz c (HiddenStateCacheSpec a f m) = times_page (full_max_blocks c a) (attention_page_size_bytes dz a)"
| "max_memory_usage_bytes dz c (RSWASpec a f w) = times_page (full_max_blocks c a) (attention_page_size_bytes dz a)"
| "max_memory_usage_bytes dz c (SinkFullAttentionSpec a f n) = times_page (full_max_blocks c a) (attention_page_size_bytes dz a)"
| "max_memory_usage_bytes dz c (ChunkedLocalAttentionSpec a n) =
     times_page (chunked_max_admission_blocks a n (max_in_flight_tokens c) (max_model_len c)) (attention_page_size_bytes dz a)"
| "max_memory_usage_bytes dz c (SlidingWindowSpec a w e) =
     and_then (py_assert (decode_context_parallel_size c = 1)) (\<lambda>_.
     times_page (swa_max_admission_blocks a w e (max_in_flight_tokens c) (max_model_len c)) (attention_page_size_bytes dz a))"
| "max_memory_usage_bytes dz c (SlidingWindowMLASpec a w e m) =
     and_then (py_assert (decode_context_parallel_size c = 1)) (\<lambda>_.
     times_page (swa_max_admission_blocks a w e (max_in_flight_tokens c) (max_model_len c)) (attention_page_size_bytes dz a))"
| "max_memory_usage_bytes dz c (MambaSpec m) = times_page (mamba_max_blocks c m) (mamba_page_size_bytes dz m)"
| "max_memory_usage_bytes dz c (EncoderOnlyAttentionSpec a) = Inr 0"
| "max_memory_usage_bytes dz c (CrossAttentionSpec a) =
     times_page (cdiv (max_num_encoder_input_tokens c) (att_block_size a)) (attention_page_size_bytes dz a)"
| "max_memory_usage_bytes dz c (UniformTypeKVCacheSpecs bs specs) =
     and_then (max_results (map (\<lambda>(_, s).
        and_then (max_memory_usage_bytes dz c s) (\<lambda>used.
        and_then (page_size_bytes dz s) (\<lambda>page. Inr (cdiv used page)))) specs)) (\<lambda>max_num_pages.
     times_page max_num_pages (page_size_bytes dz (UniformTypeKVCacheSpecs bs specs)))"

definition attention_max_num_blocks_per_req :: "VllmConfig \<Rightarrow> int \<Rightarrow> AttentionSpec \<Rightarrow> int" where
  "attention_max_num_blocks_per_req c max_len a = cdiv max_len (att_block_size a * decode_context_parallel_size c)"

definition mamba_max_num_blocks_per_req :: "(string \<Rightarrow> int) \<Rightarrow> VllmConfig \<Rightarrow> int \<Rightarrow> MambaFields \<Rightarrow> int result" where
  "mamba_max_num_blocks_per_req dz c max_len m =
     (if cache_mamba_mode c = ''align'' then Inr (cdiv max_len (mamba_block_size m) + num_speculative_blocks m)
      else
        and_then (max_memory_usage_bytes dz c (MambaSpec m)) (\<lambda>used.
        and_then (mamba_page_size_bytes dz m) (\<lambda>page. Inr (cdiv used page))))"

section \<open>Grouping\<close>

definition is_uniform_with_collection :: "registry \<Rightarrow> KVCacheSpec \<Rightarrow> (string \<times> KVCacheSpec) list \<Rightarrow> bool result" where
  "is_uniform_with_collection reg s specs =
     (case s of
        ChunkedLocalAttentionSpec _ n \<Rightarrow>
          Inr (list_all (\<lambda>(_, t). case t of ChunkedLocalAttentionSpec _ n' \<Rightarrow> n' = n | _ \<Rightarrow> False) specs)
      | SlidingWindowSpec _ w _ \<Rightarrow>
          Inr (list_all (\<lambda>(_, t). case t of SlidingWindowSpec _ w' _ \<Rightarrow> w' = w
                                          | SlidingWindowMLASpec _ w' _ _ \<Rightarrow> w' = w | _ \<Rightarrow> False) specs)
      | SlidingWindowMLASpec _ w _ _ \<Rightarrow>
          Inr (list_all (\<lambda>(_, t). case t of SlidingWindowMLASpec _ w' _ _ \<Rightarrow> w' = w | _ \<Rightarrow> False) specs)
      | MambaSpec m \<Rightarrow>
          Inr (list_all (\<lambda>(_, t). case t of
                 MambaSpec m' \<Rightarrow> num_speculative_blocks m' = num_speculative_blocks m \<and>
                                  num_prefill_checkpoint_blocks m' = num_prefill_checkpoint_blocks m
               | _ \<Rightarrow> False) specs)
      | _ \<Rightarrow>
          (case get_uniform_type_base_spec reg s of
             None \<Rightarrow> Inl AssertionError
           | Some base \<Rightarrow> Inr (list_all (\<lambda>(_, t). isinstance t base) specs)))"

definition is_uniform_type :: "registry \<Rightarrow> (string \<times> KVCacheSpec) list \<Rightarrow> bool result" where
  "is_uniform_type reg specs =
     (if length (remdups (map (\<lambda>(_, s). spec_block_size s) specs)) > 1 then Inr False
      else case specs of
        [] \<Rightarrow> Inl StopIteration
      | (_, first_spec) # _ \<Rightarrow> is_uniform_with_collection reg first_spec specs)"

definition from_specs :: "registry \<Rightarrow> (string \<times> KVCacheSpec) list \<Rightarrow> KVCacheSpec option result" where
  "from_specs reg specs =
     and_then (is_uniform_type reg specs) (\<lambda>uniform.
     if uniform then
       (case specs of
          [] \<Rightarrow> Inl StopIteration
        | (_, s) # _ \<Rightarrow> Inr (Some (UniformTypeKVCacheSpecs (spec_block_size s) specs)))
     else Inr None)"

text \<open>\<^verbatim>\<open>FullAttentionSpec.merge\<close>\<close>

fun full_part :: "KVCacheSpec \<Rightarrow> (AttentionSpec \<times> FullFields) option" where
  "full_part (FullAttentionSpec a f) = Some (a, f)"
| "full_part (MLAAttentionSpec a f _) = Some (a, f)"
| "full_part (HiddenStateCacheSpec a f _) = Some (a, f)"
| "full_part (RSWASpec a f _) = Some (a, f)"
| "full_part (SinkFullAttentionSpec a f _) = Some (a, f)"
| "full_part _ = None"

definition merge_window_sizes :: "int list \<Rightarrow> int option result" where
  "merge_window_sizes window_sizes =
     (case remdups window_sizes of
        [] \<Rightarrow> Inr None
      | [w] \<Rightarrow> Inr (Some w)
      | _ \<Rightarrow> Inl ValueError)"

definition somes :: "'a option list \<Rightarrow> 'a list" where
  "somes xs = List.map_filter id xs"

definition merge_full_specs :: "KVCacheSpec list \<Rightarrow> KVCacheSpec result" where
  "merge_full_specs specs =
     and_then (py_assert (list_all (\<lambda>s. isinstance s cls_FullAttentionSpec) specs)) (\<lambda>_.
     let parts = List.map_filter full_part specs in
     and_then (py_assert (\<not> list_ex (\<lambda>s. isinstance s cls_MLAAttentionSpec) specs)) (\<lambda>_.
     case parts of
       [] \<Rightarrow> Inl IndexError
     | (first, _) # _ \<Rightarrow>
         and_then (merge_window_sizes (somes (map (full_sliding_window \<circ> snd) parts))) (\<lambda>sliding_window.
         and_then (merge_window_sizes (somes (map (full_attention_chunk_size \<circ> snd) parts))) (\<lambda>attention_chunk_size.
         and_then (py_assert (list_all (\<lambda>(a, _). a = first) parts)) (\<lambda>_.
         and_then (py_assert (sliding_window = None \<or> attention_chunk_size = None)) (\<lambda>_.
         Inr (FullAttentionSpec first
               \<lparr>full_sliding_window = sliding_window, full_attention_chunk_size = attention_chunk_size,
                non_causal = list_ex (\<lambda>(_, f). non_causal f) parts\<rparr>)))))))"

text \<open>\<^verbatim>\<open>get_kv_cache_spec_kind\<close> and the window of a specification.\<close>

datatype KVCacheSpecKind =
    FULL_ATTENTION | MLA_ATTENTION | SLIDING_WINDOW | SLIDING_WINDOW_MLA | MAMBA | CHUNKED_LOCAL_ATTENTION
  | SINK_FULL_ATTENTION | ENCODER_ONLY_ATTENTION | CROSS_ATTENTION | UNKNOWN

fun get_kv_cache_spec_kind :: "registry \<Rightarrow> KVCacheSpec \<Rightarrow> KVCacheSpecKind" where
  "get_kv_cache_spec_kind reg (UniformTypeKVCacheSpecs _ specs) =
     (case remdups (map (\<lambda>(_, s). get_kv_cache_spec_kind reg s) specs) of
        [k] \<Rightarrow> k
      | _ \<Rightarrow>
          (case remdups (map (\<lambda>(_, s). get_uniform_type_base_spec reg s) specs) of
             [b] \<Rightarrow> if b = Some cls_FullAttentionSpec then FULL_ATTENTION else UNKNOWN
           | _ \<Rightarrow> UNKNOWN))"
| "get_kv_cache_spec_kind reg s =
     (if isinstance s cls_SlidingWindowMLASpec then SLIDING_WINDOW_MLA
      else if isinstance s cls_MLAAttentionSpec then MLA_ATTENTION
      else if isinstance s cls_SinkFullAttentionSpec then SINK_FULL_ATTENTION
      else if isinstance s cls_FullAttentionSpec then FULL_ATTENTION
      else if isinstance s cls_ChunkedLocalAttentionSpec then CHUNKED_LOCAL_ATTENTION
      else if isinstance s cls_SlidingWindowSpec then SLIDING_WINDOW
      else if isinstance s cls_MambaSpec then MAMBA
      else if isinstance s cls_EncoderOnlyAttentionSpec then ENCODER_ONLY_ATTENTION
      else if isinstance s cls_CrossAttentionSpec then CROSS_ATTENTION
      else UNKNOWN)"

fun get_kv_cache_spec_sliding_window :: "KVCacheSpec \<Rightarrow> int option" where
  "get_kv_cache_spec_sliding_window (UniformTypeKVCacheSpecs _ specs) =
     (case remdups (map (\<lambda>(_, s). get_kv_cache_spec_sliding_window s) specs) of [w] \<Rightarrow> w | _ \<Rightarrow> None)"
| "get_kv_cache_spec_sliding_window (SlidingWindowSpec _ w _) = Some w"
| "get_kv_cache_spec_sliding_window (SlidingWindowMLASpec _ w _ _) = Some w"
| "get_kv_cache_spec_sliding_window _ = None"

section \<open>Facts\<close>

lemma sum_results_Inr:
  "sum_results rs = Inr n \<longleftrightarrow> (\<exists>ns. rs = map Inr ns \<and> n = sum_list ns)"
proof (induction rs arbitrary: n)
  case (Cons r rs)
  show ?case
  proof
    assume "sum_results (r # rs) = Inr n"
    then obtain m k where "r = Inr m" "sum_results rs = Inr k" "n = m + k" by (auto simp: result_simps)
    then show "\<exists>ns. r # rs = map Inr ns \<and> n = sum_list ns"
      using Cons.IH [of k] by (metis list.simps(9) sum_list.Cons)
  next
    assume "\<exists>ns. r # rs = map Inr ns \<and> n = sum_list ns"
    then obtain m ns where "r = Inr m" "rs = map Inr ns" "n = m + sum_list ns" by auto
    then show "sum_results (r # rs) = Inr n" using Cons.IH [of "sum_list ns"] by auto
  qed
qed auto

lemma max_results_ge: "max_results rs = Inr n \<Longrightarrow> r \<in> set rs \<Longrightarrow> \<exists>m. r = Inr m \<and> m \<le> n"
proof (induction rs arbitrary: n rule: max_results.induct)
  case (3 a b rs)
  from 3(2) obtain m k where mk: "a = Inr m" "max_results (b # rs) = Inr k" "n = max m k"
    by (auto simp: result_simps)
  show ?case
  proof (cases "r = a")
    case False
    then show ?thesis using 3(1) [OF mk(2)] 3(3) mk(3) by force
  qed (use mk in auto)
qed auto

text \<open>The memory one layer may use, as a number of whole pages.\<close>

lemma used_le_pages: "0 < page \<Longrightarrow> cdiv used page \<le> n \<Longrightarrow> used \<le> n * page" for used page n :: int
  by (simp add: cdiv_le_iff)

definition layer_usage :: "(string \<Rightarrow> int) \<Rightarrow> VllmConfig \<Rightarrow> KVCacheSpec \<Rightarrow> int" where
  "layer_usage dz c s = (case max_memory_usage_bytes dz c s of Inr n \<Rightarrow> n | Inl _ \<Rightarrow> 0)"

definition layer_page :: "(string \<Rightarrow> int) \<Rightarrow> KVCacheSpec \<Rightarrow> int" where
  "layer_page dz s = (case page_size_bytes dz s of Inr n \<Rightarrow> n | Inl _ \<Rightarrow> 0)"

lemma uniform_usage_eq:
  assumes "max_memory_usage_bytes dz c (UniformTypeKVCacheSpecs bs specs) = Inr n"
  shows "\<exists>k. n = k * (\<Sum>(_, s)\<leftarrow>specs. layer_page dz s) \<and>
    (\<forall>(l, s) \<in> set specs. cdiv (layer_usage dz c s) (layer_page dz s) \<le> k)"
proof -
  let ?need = "\<lambda>(_ :: string, s). and_then (max_memory_usage_bytes dz c s) (\<lambda>used.
    and_then (page_size_bytes dz s) (\<lambda>page. Inr (cdiv used page)))"
  from assms obtain k p where k: "max_results (map ?need specs) = Inr k"
    and p: "page_size_bytes dz (UniformTypeKVCacheSpecs bs specs) = Inr p" and n: "n = k * p"
    by (auto simp: result_simps times_page_def)
  from p obtain ns where ns: "map (\<lambda>(_, s). page_size_bytes dz s) specs = map Inr ns" "p = sum_list ns"
    by (auto simp: sum_results_Inr)
  have "map (\<lambda>(_, s). layer_page dz s) specs = map (case_sum (\<lambda>_. 0) id) (map (\<lambda>(_, s). page_size_bytes dz s) specs)"
    by (auto simp: layer_page_def split: sum.splits)
  then have "map (\<lambda>(_, s). layer_page dz s) specs = ns" by (simp add: ns(1) o_def)
  moreover have "cdiv (layer_usage dz c s) (layer_page dz s) \<le> k" if "(l, s) \<in> set specs" for l s
    using max_results_ge [OF k, of "?need (l, s)"] that
    by (force simp: layer_usage_def layer_page_def result_simps split: sum.splits)
  ultimately show ?thesis using n ns(2) by (intro exI [of _ k]) auto
qed

lemma map_filter_in: "x \<in> set xs \<Longrightarrow> f x = Some y \<Longrightarrow> y \<in> set (List.map_filter f xs)"
  by (force simp: List.map_filter_def)

lemma merge_window_agree: "merge_window_sizes ws = Inr r \<Longrightarrow> w \<in> set ws \<Longrightarrow> r = Some w"
proof (cases "remdups ws" rule: remdups_adj.cases)
  case (2 x)
  assume "merge_window_sizes ws = Inr r" and w: "w \<in> set ws"
  moreover have "set ws = {x}" using set_remdups [of ws] 2 by simp
  ultimately show ?thesis using 2 by (simp add: merge_window_sizes_def)
qed (auto simp: merge_window_sizes_def)

lemma isinstance_full: "isinstance s cls_FullAttentionSpec \<longleftrightarrow> (\<exists>a f. full_part s = Some (a, f))"
  by (cases s) (auto simp: isinstance_def)

lemma full_part_attention: "full_part s = Some (a, f) \<Longrightarrow> attention_part s = Some a"
  by (cases s) auto

lemma merge_full_specs_agree:
  assumes m: "merge_full_specs specs = Inr (FullAttentionSpec a f)" and s: "s \<in> set specs"
  shows "\<exists>g. full_part s = Some (a, g) \<and>
    (full_sliding_window g \<noteq> None \<longrightarrow> full_sliding_window g = full_sliding_window f) \<and>
    (full_attention_chunk_size g \<noteq> None \<longrightarrow> full_attention_chunk_size g = full_attention_chunk_size f) \<and>
    (non_causal g \<longrightarrow> non_causal f)"
proof -
  obtain b g where g: "full_part s = Some (b, g)"
    using m s by (auto simp: merge_full_specs_def Let_def result_simps list_all_iff isinstance_full split: list.splits)
  let ?ps = "List.map_filter full_part specs"
  have i: "(b, g) \<in> set ?ps" using map_filter_in [of s specs full_part "(b, g)"] s g by simp
  have c: "list_all (\<lambda>(x, _). x = a) ?ps"
    "merge_window_sizes (somes (map (full_sliding_window \<circ> snd) ?ps)) = Inr (full_sliding_window f)"
    "merge_window_sizes (somes (map (full_attention_chunk_size \<circ> snd) ?ps)) = Inr (full_attention_chunk_size f)"
    "non_causal f = list_ex (\<lambda>(_, f). non_causal f) ?ps"
    using m by (auto simp: merge_full_specs_def Let_def result_simps split: list.splits)
  have w: "h g = r" if ne: "h g \<noteq> None" and "merge_window_sizes (somes (map (h \<circ> snd) ?ps)) = Inr r"
    for h :: "FullFields \<Rightarrow> int option" and r
  proof -
    obtain y where y: "h g = Some y" using ne by auto
    have "h g \<in> set (map (h \<circ> snd) ?ps)" using i by force
    then have "y \<in> set (somes (map (h \<circ> snd) ?ps))"
      unfolding somes_def by (rule map_filter_in) (simp add: y)
    then show ?thesis using merge_window_agree [OF that(2)] y by simp
  qed
  have "b = a" using c(1) i by (auto simp: list_all_iff)
  moreover have "non_causal g \<longrightarrow> non_causal f" using c(4) i by (auto simp: list_ex_iff)
  ultimately show ?thesis using g w [OF _ c(2)] w [OF _ c(3)] by auto
qed

text \<open>The registry that the engine starts with.\<close>

definition builtin_registry :: registry where
  "builtin_registry = (case register_all_kvcache_specs [] of Inr reg \<Rightarrow> reg | Inl _ \<Rightarrow> [])"

lemmas registry_defs = builtin_registry_def register_all_kvcache_specs_def register_spec_def

lemma builtin_registry_eq: "register_all_kvcache_specs [] = Inr builtin_registry"
  by (simp add: registry_defs)

lemma builtin_get [simp]:
  "dict_get builtin_registry cls_FullAttentionSpec = Some (FullAttentionManager, cls_FullAttentionSpec)"
  "dict_get builtin_registry cls_MLAAttentionSpec = Some (FullAttentionManager, cls_FullAttentionSpec)"
  "dict_get builtin_registry cls_HiddenStateCacheSpec = Some (FullAttentionManager, cls_FullAttentionSpec)"
  "dict_get builtin_registry cls_RSWASpec = Some (RSWAManager, cls_FullAttentionSpec)"
  "dict_get builtin_registry cls_SinkFullAttentionSpec = Some (SinkFullAttentionManager, cls_FullAttentionSpec)"
  "dict_get builtin_registry cls_ChunkedLocalAttentionSpec = Some (ChunkedLocalAttentionManager, cls_ChunkedLocalAttentionSpec)"
  "dict_get builtin_registry cls_SlidingWindowSpec = Some (SlidingWindowManager, cls_SlidingWindowSpec)"
  "dict_get builtin_registry cls_SlidingWindowMLASpec = Some (SlidingWindowManager, cls_SlidingWindowMLASpec)"
  "dict_get builtin_registry cls_MambaSpec = Some (MambaManager, cls_MambaSpec)"
  "dict_get builtin_registry cls_CrossAttentionSpec = Some (CrossAttentionManager, cls_CrossAttentionSpec)"
  "dict_get builtin_registry cls_EncoderOnlyAttentionSpec = None"
  "dict_get builtin_registry cls_UniformTypeKVCacheSpecs = None"
  "dict_get builtin_registry cls_AttentionSpec = None"
  "dict_get builtin_registry cls_KVCacheSpec = None"
  by (simp_all add: registry_defs)

section \<open>Properties\<close>

text \<open>
  A merged specification speaks for every layer of its group: each layer has the same attention shape, so
  the same block size and page size, and a layer's own window, chunk size or non-causal flag is the
  merged one.
\<close>

theorem merge_full_sound:
  assumes "merge_full_specs specs = Inr m" and "s \<in> set specs"
  shows "\<exists>a f g. m = FullAttentionSpec a f \<and> full_part s = Some (a, g) \<and>
    spec_block_size s = spec_block_size m \<and> page_size_bytes dz s = page_size_bytes dz m \<and>
    (full_sliding_window g \<noteq> None \<longrightarrow> full_sliding_window g = full_sliding_window f) \<and>
    (full_attention_chunk_size g \<noteq> None \<longrightarrow> full_attention_chunk_size g = full_attention_chunk_size f) \<and>
    (non_causal g \<longrightarrow> non_causal f)"
proof -
  obtain a f where m: "m = FullAttentionSpec a f"
    using assms(1) by (auto simp: merge_full_specs_def Let_def result_simps split: list.splits)
  obtain g where g: "full_part s = Some (a, g)"
    "full_sliding_window g \<noteq> None \<longrightarrow> full_sliding_window g = full_sliding_window f"
    "full_attention_chunk_size g \<noteq> None \<longrightarrow> full_attention_chunk_size g = full_attention_chunk_size f"
    "non_causal g \<longrightarrow> non_causal f"
    using merge_full_specs_agree [of specs a f s] assms m by blast
  have "spec_block_size s = att_block_size a \<and> page_size_bytes dz s = attention_page_size_bytes dz a"
    using g(1) by (cases s) auto
  with g m show ?thesis by auto
qed

definition plain_attention :: AttentionSpec where
  "plain_attention = \<lparr>att_block_size = 16, num_kv_heads = 2, head_size = 8, att_dtype = ''bf16'', head_size_v = 8,
     kv_quant_mode = 0, att_page_size_padded = None, num_head_slots = None, state_content_bytes = None,
     tokens_per_state = 1\<rparr>"

definition plain_full :: "int option \<Rightarrow> KVCacheSpec" where
  "plain_full w = FullAttentionSpec plain_attention
     \<lparr>full_sliding_window = w, full_attention_chunk_size = None, non_causal = False\<rparr>"

theorem merge_full_sound_witness:
  "\<exists>m. merge_full_specs [plain_full None, plain_full (Some 4)] = Inr m \<and> spec_block_size m = 16"
proof -
  have "merge_full_specs [plain_full None, plain_full (Some 4)] = Inr (plain_full (Some 4))"
    by (simp add: merge_full_specs_def plain_full_def isinstance_def List.map_filter_simps somes_def merge_window_sizes_def)
  then show ?thesis
    using merge_full_sound [of "[plain_full None, plain_full (Some 4)]" "plain_full (Some 4)" "plain_full None" "\<lambda>_. 2"]
    by (auto simp: plain_full_def plain_attention_def)
qed

text \<open>
  The memory reserved for a group of layers of one type covers what its layers may use together, with
  different page sizes too: no layer's share is cut by rounding.
\<close>

theorem uniform_reservation_covers:
  assumes "max_memory_usage_bytes dz c (UniformTypeKVCacheSpecs bs specs) = Inr n"
    and "\<forall>(l, s) \<in> set specs. 0 < layer_page dz s"
  shows "(\<Sum>(l, s)\<leftarrow>specs. layer_usage dz c s) \<le> n"
proof -
  obtain k where k: "n = k * (\<Sum>(_, s)\<leftarrow>specs. layer_page dz s)"
    "\<forall>(l, s) \<in> set specs. cdiv (layer_usage dz c s) (layer_page dz s) \<le> k"
    using uniform_usage_eq [OF assms(1)] by blast
  have "(\<Sum>(l, s)\<leftarrow>specs. layer_usage dz c s) \<le> (\<Sum>(l, s)\<leftarrow>specs. k * layer_page dz s)"
    using used_le_pages k(2) assms(2) by (intro sum_list_mono) fastforce
  also have "\<dots> = n" unfolding k(1) by (induction specs) (auto simp: algebra_simps)
  finally show ?thesis .
qed

definition small_config :: VllmConfig where
  "small_config = \<lparr>max_model_len = 100, original_max_model_len = 100, decode_context_parallel_size = 1, max_in_flight_tokens = 32,
     cache_mamba_mode = ''none'', max_num_encoder_input_tokens = 0, disable_hybrid_kv_cache_manager = False,
     num_gpu_blocks_override = None, cache_retention_interval = None, speculative_config = None, cache_layout = Some LBNHC\<rparr>"

theorem uniform_reservation_covers_witness:
  "layer_usage (\<lambda>_. 2) small_config (plain_full None) = 7168 \<and>
   (\<Sum>(l, s)\<leftarrow>[(''a'', plain_full None), (''b'', plain_full None)]. layer_usage (\<lambda>_. 2) small_config s) \<le> 14336"
proof -
  note d = small_config_def plain_full_def plain_attention_def times_page_def full_max_blocks_def cdiv_def
    attention_page_size_bytes_def unpadded_page_size_bytes_def num_heads_def num_states_def get_num_kernel_states_def
    state_content_size_bytes_def
  have "max_memory_usage_bytes (\<lambda>_. 2) small_config
      (UniformTypeKVCacheSpecs 16 [(''a'', plain_full None), (''b'', plain_full None)]) = Inr 14336"
    by (simp add: d)
  moreover have "layer_page (\<lambda>_. 2) (plain_full None) = 1024" by (simp add: layer_page_def d)
  moreover have "layer_usage (\<lambda>_. 2) small_config (plain_full None) = 7168" by (simp add: layer_usage_def d)
  ultimately show ?thesis
    using uniform_reservation_covers [of "\<lambda>_. 2" small_config 16 "[(''a'', plain_full None), (''b'', plain_full None)]" 14336]
    by simp
qed

end
