(* ===== verification/Cache_Hit.thy ===== *)
theory Cache_Hit
  imports Block_Pool Kv_Spec
begin

text \<open>
  Prefix-cache lookup by attention type: \<^verbatim>\<open>find_longest_cache_hit\<close> and \<^verbatim>\<open>reachable_block_mask\<close> of the managers in
  \<^verbatim>\<open>vllm/v1/core/single_type_kv_cache_manager.py\<close>.  The loops take the lookup of one hash as an argument, which
  is \<^verbatim>\<open>block_pool.get_cached_block\<close> with the groups of the manager.
\<close>

section \<open>Operations\<close>

text \<open>The truth value of a lookup: a missing and an empty result are both false.\<close>

definition truthy :: "'a list option \<Rightarrow> 'a list option" where
  "truthy x = (case x of Some (b # bs) \<Rightarrow> Some (b # bs) | _ \<Rightarrow> None)"

definition append_each :: "'a list list \<Rightarrow> 'a list \<Rightarrow> 'a list list" where
  "append_each computed_blocks cached_block = map2 (\<lambda>computed cached. computed @ [cached]) computed_blocks cached_block"

definition set_each :: "int \<Rightarrow> 'a list list \<Rightarrow> 'a list \<Rightarrow> 'a list list" where
  "set_each i computed_blocks cached_block = map2 (\<lambda>computed cached. computed[nat i := cached]) computed_blocks cached_block"

text \<open>\<^verbatim>\<open>del computed[n:]\<close> and \<^verbatim>\<open>computed.pop()\<close>\<close>

definition trim_each :: "int \<Rightarrow> 'a list list \<Rightarrow> 'a list list" where
  "trim_each n computed_blocks = map (\<lambda>c. take (slice_bound (length c) n) c) computed_blocks"

definition pop_each :: "'a list list \<Rightarrow> 'a list list result" where
  "pop_each computed_blocks = (if [] \<in> set computed_blocks then Inl IndexError else Inr (map butlast computed_blocks))"

definition hit_blocks :: "'a list list \<Rightarrow> int result" where
  "hit_blocks computed_blocks = and_then (py_index computed_blocks 0) (\<lambda>c. Inr (int (length c)))"

text \<open>The run of hits from the front, up to the first miss.\<close>

fun leading_hits ::
    "(bytes \<Rightarrow> block_ref list option result) \<Rightarrow> block_hash_list \<Rightarrow> int list \<Rightarrow> block_ref list list \<Rightarrow>
     block_ref list list result" where
  "leading_hits get v [] computed_blocks = Inr computed_blocks"
| "leading_hits get v (i # rest) computed_blocks =
     and_then (get_value_at v i) (\<lambda>bh.
     and_then (get bh) (\<lambda>cached_block.
     case truthy cached_block of
       None \<Rightarrow> Inr computed_blocks
     | Some cached \<Rightarrow> leading_hits get v rest (append_each computed_blocks cached)))"

text \<open>The first index of the list that hits and passes the test \<open>ok\<close>.\<close>

fun first_hit ::
    "(bytes \<Rightarrow> block_ref list option result) \<Rightarrow> (int \<Rightarrow> bool result) \<Rightarrow> block_hash_list \<Rightarrow> int list \<Rightarrow>
     (int \<times> block_ref list) option result" where
  "first_hit get ok v [] = Inr None"
| "first_hit get ok v (i # rest) =
     and_then (get_value_at v i) (\<lambda>bh.
     and_then (get bh) (\<lambda>cached_block.
     case truthy cached_block of
       None \<Rightarrow> first_hit get ok v rest
     | Some cached \<Rightarrow>
         and_then (ok i) (\<lambda>pass. if pass then Inr (Some (i, cached)) else first_hit get ok v rest)))"

definition is_fine_grained :: "int \<Rightarrow> int \<Rightarrow> bool result" where
  "is_fine_grained alignment_tokens block_size =
     (if alignment_tokens < block_size
      then and_then (py_mod block_size alignment_tokens) (\<lambda>m. Inr (m = 0)) else Inr False)"

text \<open>\<^verbatim>\<open>isinstance(block_hashes, Sequence)\<close>: a block-size view is none.\<close>

definition sequence_of :: "block_hash_list \<Rightarrow> bytes list result" where
  "sequence_of v = (case v of RawHashes hs \<Rightarrow> Inr hs | ScaledHashes _ _ \<Rightarrow> Inl AssertionError)"

subsection \<open>Full attention\<close>

definition full_partial_hit ::
    "(bytes \<Rightarrow> block_ref list option result) \<Rightarrow> bytes list \<Rightarrow> int \<Rightarrow> int \<Rightarrow> int \<Rightarrow>
     block_ref list list \<times> int \<Rightarrow> (block_ref list list \<times> int) result" where
  "full_partial_hit get hs max_length block_size alignment_tokens acc =
     (let (computed_blocks, hit_length) = acc in
      and_then (py_div block_size alignment_tokens) (\<lambda>scale_factor.
      and_then (hit_blocks computed_blocks) (\<lambda>n.
      let first_partial_idx = n * scale_factor;
          max_partial_idx = min (min (first_partial_idx + scale_factor - 1) (max_length div alignment_tokens)) (int (length hs))
      in and_then (first_hit get (\<lambda>_. Inr True) (RawHashes hs) (rev (py_range first_partial_idx max_partial_idx))) (\<lambda>tail.
      case tail of
        None \<Rightarrow> Inr (computed_blocks, hit_length)
      | Some (fine_idx, cached_tail) \<Rightarrow>
          Inr (append_each computed_blocks cached_tail, (fine_idx + 1) * alignment_tokens)))))"

definition full_find_longest_cache_hit ::
    "block_hash_list \<Rightarrow> int \<Rightarrow> int list \<Rightarrow> block_pool \<Rightarrow> KVCacheSpec \<Rightarrow> bool \<Rightarrow> int \<Rightarrow> int \<Rightarrow>
     (block_ref list list \<times> int) result" where
  "full_find_longest_cache_hit hs max_length kv_cache_group_ids pool kv_cache_spec drop_eagle_block
       alignment_tokens dcp_world_size =
     and_then (py_assert (isinstance kv_cache_spec cls_FullAttentionSpec \<or>
                          isinstance kv_cache_spec cls_ChunkedLocalAttentionSpec)) (\<lambda>_.
     let get = (\<lambda>bh. get_cached_block bh kv_cache_group_ids pool);
         block_size = (if dcp_world_size > 1 then spec_block_size kv_cache_spec * dcp_world_size
                       else spec_block_size kv_cache_spec)
     in
     and_then (resolve_block_hashes hs (hash_block_size pool) block_size True (Some alignment_tokens)) (\<lambda>hs.
     and_then (is_fine_grained alignment_tokens block_size) (\<lambda>fine_grained.
     and_then (if fine_grained
               then and_then (sequence_of hs) (\<lambda>raw. BlockHashListWithBlockSize_init raw alignment_tokens block_size)
               else Inr hs) (\<lambda>full_block_hashes.
     and_then (py_div max_length block_size) (\<lambda>max_blocks.
     if max_blocks < 0 then Inl ValueError
     else
     and_then (leading_hits get full_block_hashes (py_range 0 (min max_blocks (view_len full_block_hashes)))
                 (map (\<lambda>_. []) kv_cache_group_ids)) (\<lambda>computed_blocks.
     and_then (hit_blocks computed_blocks) (\<lambda>n.
     and_then (if fine_grained
               then and_then (sequence_of hs) (\<lambda>raw.
                 full_partial_hit get raw max_length block_size alignment_tokens (computed_blocks, n * block_size))
               else Inr (computed_blocks, n * block_size)) (\<lambda>(computed_blocks, hit_length).
     let hit_length = (if drop_eagle_block \<and> hit_length > 0 then hit_length - min alignment_tokens block_size else hit_length)
     in
     and_then (py_mod hit_length alignment_tokens) (\<lambda>m.
     let hit_length = hit_length - m; num_blocks = cdiv hit_length block_size
     in Inr (trim_each num_blocks computed_blocks, hit_length))))))))))"

subsection \<open>Sliding window\<close>

definition contiguous_blocks_for_hit :: "int \<Rightarrow> int \<Rightarrow> bool \<Rightarrow> int" where
  "contiguous_blocks_for_hit window_size block_size use_eagle =
     (let blocks = cdiv (window_size - 1) block_size in if use_eagle then blocks + 1 else blocks)"

text \<open>The scan from right to left: the blocks found, the length of the current run, whether it is long enough.\<close>

fun swa_scan ::
    "(bytes \<Rightarrow> block_ref list option result) \<Rightarrow> block_hash_list \<Rightarrow> int \<Rightarrow> int \<Rightarrow> bool \<Rightarrow> int \<Rightarrow> int list \<Rightarrow>
     block_ref list list \<Rightarrow> int \<Rightarrow> (block_ref list list \<times> int \<times> bool) result" where
  "swa_scan get v block_size alignment_tokens drop_eagle_block contiguous [] computed_blocks num_contiguous_blocks =
     Inr (computed_blocks, num_contiguous_blocks, False)"
| "swa_scan get v block_size alignment_tokens drop_eagle_block contiguous (i # rest) computed_blocks num_contiguous_blocks =
     and_then (get_value_at v i) (\<lambda>bh.
     and_then (get bh) (\<lambda>cached_block.
     case truthy cached_block of
       None \<Rightarrow> swa_scan get v block_size alignment_tokens drop_eagle_block contiguous rest computed_blocks 0
     | Some cached \<Rightarrow>
         and_then (if num_contiguous_blocks = 0 \<and> block_size \<noteq> alignment_tokens
                   then py_mod ((if drop_eagle_block then i else i + 1) * block_size) alignment_tokens else Inr 0) (\<lambda>m.
         if m \<noteq> 0
         then swa_scan get v block_size alignment_tokens drop_eagle_block contiguous rest computed_blocks num_contiguous_blocks
         else
           let computed_blocks = set_each i computed_blocks cached; n = num_contiguous_blocks + 1
           in if n \<ge> contiguous then Inr (trim_each (i + n) computed_blocks, n, True)
              else swa_scan get v block_size alignment_tokens drop_eagle_block contiguous rest computed_blocks n)))"

text \<open>Dropping blocks until the length is aligned.\<close>

function realign :: "int \<Rightarrow> int \<Rightarrow> 'a list list \<Rightarrow> 'a list list result" where
  "realign block_size alignment_tokens computed_blocks =
     (if block_size = alignment_tokens then Inr computed_blocks
      else
        case computed_blocks of
          [] \<Rightarrow> Inl IndexError
        | c # cs \<Rightarrow>
            if alignment_tokens = 0 then Inl ZeroDivisionError
            else if int (length c) * block_size mod alignment_tokens \<noteq> 0
            then if [] \<in> set (c # cs) then Inl IndexError
                 else realign block_size alignment_tokens (map butlast (c # cs))
            else Inr (c # cs))"
  by pat_completeness auto
termination
  by (relation "measure (\<lambda>(_, _, cs). length (hd cs))") auto

declare realign.simps [simp del]

definition swa_find_longest_cache_hit ::
    "block_hash_list \<Rightarrow> int \<Rightarrow> int list \<Rightarrow> block_pool \<Rightarrow> KVCacheSpec \<Rightarrow> bool \<Rightarrow> int \<Rightarrow> int \<Rightarrow> int \<Rightarrow>
     (block_ref list list \<times> int) result" where
  "swa_find_longest_cache_hit hs max_length kv_cache_group_ids pool kv_cache_spec drop_eagle_block
       alignment_tokens dcp_world_size pcp_world_size =
     and_then (case get_kv_cache_spec_sliding_window kv_cache_spec of
         Some w \<Rightarrow> if isinstance kv_cache_spec cls_SlidingWindowSpec then Inr w else Inl AssertionError
       | None \<Rightarrow> Inl AssertionError) (\<lambda>sliding_window.
     and_then (py_assert (dcp_world_size = 1)) (\<lambda>_.
     and_then (py_assert (pcp_world_size = 1)) (\<lambda>_.
     let get = (\<lambda>bh. get_cached_block bh kv_cache_group_ids pool); block_size = spec_block_size kv_cache_spec in
     and_then (py_mod alignment_tokens block_size) (\<lambda>m.
     and_then (py_assert (m = 0)) (\<lambda>_.
     and_then (resolve_block_hashes hs (hash_block_size pool) block_size False (Some alignment_tokens)) (\<lambda>v.
     let contiguous = contiguous_blocks_for_hit sliding_window block_size drop_eagle_block;
         max_num_blocks = max_length div block_size;
         computed_blocks = map (\<lambda>_. replicate (nat max_num_blocks) (null_block pool)) kv_cache_group_ids
     in
     and_then (swa_scan get v block_size alignment_tokens drop_eagle_block contiguous
                 (rev (py_range 0 max_num_blocks)) computed_blocks 0) (\<lambda>(computed_blocks, num_contiguous_blocks, match_found).
     and_then (if match_found then Inr computed_blocks
               else realign block_size alignment_tokens (trim_each num_contiguous_blocks computed_blocks)) (\<lambda>computed_blocks.
     and_then (hit_blocks computed_blocks) (\<lambda>n.
     and_then (if drop_eagle_block \<and> n \<noteq> 0
               then and_then (pop_each computed_blocks) (realign block_size alignment_tokens)
               else Inr computed_blocks) (\<lambda>computed_blocks.
     and_then (hit_blocks computed_blocks) (\<lambda>n. Inr (computed_blocks, n * block_size))))))))))))"

text \<open>Which blocks of \<open>[start_block, end_block)\<close> a later hit can use.\<close>

definition swa_reachable_block_mask ::
    "int \<Rightarrow> int \<Rightarrow> int option \<Rightarrow> KVCacheSpec \<Rightarrow> bool \<Rightarrow> int option \<Rightarrow> int list \<Rightarrow> bool list option result" where
  "swa_reachable_block_mask start_block end_block alignment kv_cache_spec use_eagle retention_interval
       reachable_boundaries =
     and_then (case get_kv_cache_spec_sliding_window kv_cache_spec of
         Some w \<Rightarrow> if isinstance kv_cache_spec cls_SlidingWindowSpec then Inr w else Inl AssertionError
       | None \<Rightarrow> Inl AssertionError) (\<lambda>sliding_window.
     case alignment of
       None \<Rightarrow> Inr None
     | Some alignment_tokens \<Rightarrow>
         let block_size = spec_block_size kv_cache_spec in
         and_then (py_mod alignment_tokens block_size) (\<lambda>m.
         and_then (py_assert (m = 0)) (\<lambda>_.
         let need = contiguous_blocks_for_hit sliding_window block_size use_eagle;
             shift = (if use_eagle then 1 else 0);
             segment_tokens = (case retention_interval of
                 None \<Rightarrow> Some alignment_tokens | Some k \<Rightarrow> if k = 0 then None else Some k);
             in_segment_tail = (\<lambda>i. case segment_tokens of
                 None \<Rightarrow> False
               | Some t \<Rightarrow> i \<ge> shift \<and> (i - shift) mod (t div block_size) \<ge> t div block_size - need);
             at_boundary = (\<lambda>i. retention_interval \<noteq> None \<and>
               list_ex (\<lambda>boundary_tokens.
                 let boundary_end = (boundary_tokens div alignment_tokens * alignment_tokens) div block_size + shift
                 in boundary_end - need \<le> i \<and> i < boundary_end) reachable_boundaries);
             marks = (if alignment_tokens = 0 \<and> retention_interval \<noteq> None \<and> reachable_boundaries \<noteq> []
                     then Inl ZeroDivisionError
                     else Inr (Some (map (\<lambda>i. in_segment_tail i \<or> at_boundary i) (py_range start_block end_block))))
         in
         case segment_tokens of
           Some t \<Rightarrow> if need \<ge> t div block_size then Inr None else marks
         | None \<Rightarrow> marks)))"

definition swa_num_skipped_tokens :: "int \<Rightarrow> int \<Rightarrow> int \<Rightarrow> int" where
  "swa_num_skipped_tokens sliding_window extra_retained_tokens computed_tokens =
     max 0 (computed_tokens - sliding_window + 1 - extra_retained_tokens)"

subsection \<open>Chunked local attention\<close>

definition chunked_find_longest_cache_hit ::
    "block_hash_list \<Rightarrow> int \<Rightarrow> int list \<Rightarrow> block_pool \<Rightarrow> KVCacheSpec \<Rightarrow> bool \<Rightarrow> int \<Rightarrow> int \<Rightarrow> int \<Rightarrow>
     (block_ref list list \<times> int) result" where
  "chunked_find_longest_cache_hit hs max_length kv_cache_group_ids pool kv_cache_spec drop_eagle_block
       alignment_tokens dcp_world_size pcp_world_size =
     (case kv_cache_spec of
        ChunkedLocalAttentionSpec a attention_chunk_size \<Rightarrow>
          and_then (py_assert (\<not> drop_eagle_block)) (\<lambda>_.
          and_then (py_assert (dcp_world_size = 1)) (\<lambda>_.
          and_then (py_assert (pcp_world_size = 1)) (\<lambda>_.
          and_then (py_assert (att_block_size a = alignment_tokens)) (\<lambda>_.
          and_then (resolve_block_hashes hs (hash_block_size pool) (att_block_size a) False (Some alignment_tokens)) (\<lambda>v.
          and_then (py_div max_length (att_block_size a)) (\<lambda>max_num_blocks.
          and_then (if max_length > 0 then and_then (py_div max_length attention_chunk_size) (\<lambda>n. Inr (n * attention_chunk_size))
                    else Inr 0) (\<lambda>local_attention_start_idx.
          let start_block = local_attention_start_idx div att_block_size a in
          and_then (leading_hits (\<lambda>bh. get_cached_block bh kv_cache_group_ids pool) v (py_range start_block max_num_blocks)
             (map (\<lambda>_. replicate (nat start_block) (null_block pool)) kv_cache_group_ids)) (\<lambda>computed_blocks.
          and_then (hit_blocks computed_blocks) (\<lambda>n. Inr (computed_blocks, n * att_block_size a))))))))))
      | _ \<Rightarrow> Inl AssertionError)"

definition chunked_num_skipped_tokens :: "int \<Rightarrow> int \<Rightarrow> int" where
  "chunked_num_skipped_tokens attention_chunk_size computed_tokens =
     (computed_tokens div attention_chunk_size) * attention_chunk_size"

subsection \<open>Mamba\<close>

text \<open>The blocks before the state block are null.\<close>

definition state_hit ::
    "block_pool \<Rightarrow> int list \<Rightarrow> (int \<times> block_ref list) option \<Rightarrow> (int \<Rightarrow> int) \<Rightarrow> (int \<Rightarrow> int) \<Rightarrow>
     block_ref list list \<times> int" where
  "state_hit pool kv_cache_group_ids found block_idx hit_tokens =
     (case found of
        None \<Rightarrow> (map (\<lambda>_. []) kv_cache_group_ids, 0)
      | Some (i, cached_block) \<Rightarrow>
          (map2 (\<lambda>computed cached. computed @ replicate (nat (block_idx i)) (null_block pool) @ [cached])
             (map (\<lambda>_. []) kv_cache_group_ids) cached_block, hit_tokens i))"

definition mamba_find_longest_cache_hit ::
    "block_hash_list \<Rightarrow> int \<Rightarrow> int list \<Rightarrow> block_pool \<Rightarrow> KVCacheSpec \<Rightarrow> bool \<Rightarrow> int \<Rightarrow> int \<Rightarrow> int \<Rightarrow>
     (block_ref list list \<times> int) result" where
  "mamba_find_longest_cache_hit hs max_length kv_cache_group_ids pool kv_cache_spec drop_eagle_block
       alignment_tokens dcp_world_size pcp_world_size =
     and_then (py_assert (isinstance kv_cache_spec cls_MambaSpec)) (\<lambda>_.
     and_then (py_assert (dcp_world_size = 1)) (\<lambda>_.
     and_then (py_assert (pcp_world_size = 1)) (\<lambda>_.
     let get = (\<lambda>bh. get_cached_block bh kv_cache_group_ids pool); block_size = spec_block_size kv_cache_spec in
     and_then (resolve_block_hashes hs (hash_block_size pool) block_size True (Some alignment_tokens)) (\<lambda>v.
     and_then (is_fine_grained alignment_tokens block_size) (\<lambda>fine_grained.
     if fine_grained then
       and_then (sequence_of v) (\<lambda>raw.
       let scale_factor = block_size div alignment_tokens;
           max_num_partial_units = min (max_length div alignment_tokens) (int (length raw))
       in
       and_then (first_hit get (\<lambda>_. Inr True) v (rev (py_range 0 max_num_partial_units))) (\<lambda>found.
       Inr (state_hit pool kv_cache_group_ids found (\<lambda>i. i div scale_factor) (\<lambda>i. (i + 1) * alignment_tokens))))
     else
       and_then (py_div max_length block_size) (\<lambda>max_num_blocks.
       and_then (first_hit get
          (\<lambda>i. if block_size = alignment_tokens then Inr True
                else and_then (py_mod ((i + 1) * block_size) alignment_tokens) (\<lambda>m. Inr (m = 0)))
          v (rev (py_range 0 max_num_blocks))) (\<lambda>found.
       Inr (state_hit pool kv_cache_group_ids found (\<lambda>i. i) (\<lambda>i. (i + 1) * block_size)))))))))"

text \<open>\<^verbatim>\<open>range(i, j, step)\<close> with a positive step.\<close>

definition in_step_range :: "int \<Rightarrow> int \<Rightarrow> int \<Rightarrow> bool" where
  "in_step_range first step i \<longleftrightarrow> first \<le> i \<and> (i - first) mod step = 0"

definition mamba_reachable_block_mask ::
    "int \<Rightarrow> int \<Rightarrow> int option \<Rightarrow> KVCacheSpec \<Rightarrow> bool \<Rightarrow> int option \<Rightarrow> int list \<Rightarrow> bool list option result" where
  "mamba_reachable_block_mask start_block end_block alignment kv_cache_spec use_eagle retention_interval
       reachable_boundaries =
     (case (retention_interval, alignment) of
        (Some interval, Some alignment_tokens) \<Rightarrow>
          and_then (py_assert (isinstance kv_cache_spec cls_MambaSpec)) (\<lambda>_.
          let block_size = spec_block_size kv_cache_spec;
              segment_tokens = (if interval = 0 then None else Some interval)
          in
          and_then (case segment_tokens of None \<Rightarrow> Inr 0 | Some t \<Rightarrow> py_div t block_size) (\<lambda>per_segment.
          if segment_tokens \<noteq> None \<and> per_segment \<le> 1 then Inr None
          else if alignment_tokens = 0 \<and> reachable_boundaries \<noteq> [] then Inl ZeroDivisionError
          else if block_size = 0 \<and> reachable_boundaries \<noteq> [] then Inl ZeroDivisionError
          else
            let first_boundary = (start_block + per_segment) div per_segment * per_segment - 1;
                in_segment = (\<lambda>i. segment_tokens \<noteq> None \<and> in_step_range first_boundary per_segment i);
                at_boundary = (\<lambda>i. list_ex (\<lambda>boundary_tokens.
                  (boundary_tokens div alignment_tokens * alignment_tokens) div block_size - 1 = i) reachable_boundaries)
            in Inr (Some (map (\<lambda>i. in_segment i \<or> at_boundary i) (py_range start_block end_block)))))
      | _ \<Rightarrow> Inr None)"

definition mamba_num_skipped_tokens :: "int \<Rightarrow> int" where
  "mamba_num_skipped_tokens computed_tokens = computed_tokens - 1"

section \<open>The interface to the prefix cache\<close>

definition found :: "'a option result \<Rightarrow> 'a option" where
  "found r = (case r of Inr x \<Rightarrow> x | Inl _ \<Rightarrow> None)"

lemma append_each_eq:
  "length cs = n \<Longrightarrow> length xs = n \<Longrightarrow> append_each cs xs = map (\<lambda>k. cs ! k @ [xs ! k]) [0..<n]"
  by (auto simp: append_each_def intro!: nth_equalityI)

lemma set_each_eq:
  "length cs = n \<Longrightarrow> length xs = n \<Longrightarrow> set_each (int i) cs xs = map (\<lambda>k. (cs ! k)[i := xs ! k]) [0..<n]"
  by (auto simp: set_each_def intro!: nth_equalityI)

text \<open>What the lookups rely on: a valid cache answers every query, one block per group.\<close>

locale prefix_index =
  fixes inv :: "'p \<Rightarrow> bool"
    and groups_ok :: "int list \<Rightarrow> bool"
    and get :: "bytes \<Rightarrow> int list \<Rightarrow> 'p \<Rightarrow> block_ref list option result"
  assumes get_total: "inv p \<Longrightarrow> groups_ok gs \<Longrightarrow> \<exists>x. get h gs p = Inr x \<and> (\<forall>bs. x = Some bs \<longrightarrow> length bs = length gs)"
    and groups_ne: "groups_ok gs \<Longrightarrow> gs \<noteq> []"
begin

lemma get_found: "inv p \<Longrightarrow> groups_ok gs \<Longrightarrow> get h gs p = Inr (found (get h gs p))"
  using get_total [of p gs h] by (auto simp: found_def)

lemma found_len: "inv p \<Longrightarrow> groups_ok gs \<Longrightarrow> found (get h gs p) = Some bs \<Longrightarrow> length bs = length gs"
  using get_total [of p gs h] by (auto simp: found_def)

lemma found_truthy: "inv p \<Longrightarrow> groups_ok gs \<Longrightarrow> truthy (found (get h gs p)) = found (get h gs p)"
  using found_len [of p gs h] groups_ne [of gs]
  by (cases "found (get h gs p)") (auto simp: truthy_def split: list.splits)

lemma leading_hits_eq:
  assumes p: "inv p" "groups_ok gs"
  shows "\<forall>i \<in> set idx. get_value_at v i = Inr (hv i) \<Longrightarrow> length cs = length gs \<Longrightarrow>
    leading_hits (\<lambda>h. get h gs p) v idx cs =
    Inr (map (\<lambda>k. cs ! k @ map (\<lambda>i. the (found (get (hv i) gs p)) ! k)
                  (takeWhile (\<lambda>i. found (get (hv i) gs p) \<noteq> None) idx)) [0..<length gs])"
proof (induction idx arbitrary: cs)
  case Nil
  then show ?case by (auto intro: nth_equalityI)
next
  case (Cons i idx)
  show ?case
  proof (cases "found (get (hv i) gs p)")
    case None
    then have "leading_hits (\<lambda>h. get h gs p) v (i # idx) cs = Inr cs"
      using Cons.prems get_found [OF p, of "hv i"] by (simp add: truthy_def)
    then show ?thesis using None Cons.prems by (auto intro: nth_equalityI)
  next
    case (Some bs)
    have "leading_hits (\<lambda>h. get h gs p) v (i # idx) cs = leading_hits (\<lambda>h. get h gs p) v idx (append_each cs bs)"
      using Cons.prems get_found [OF p, of "hv i"] found_truthy [OF p, of "hv i"] Some by simp
    also have "\<dots> = Inr (map (\<lambda>k. append_each cs bs ! k @ map (\<lambda>i. the (found (get (hv i) gs p)) ! k)
                  (takeWhile (\<lambda>i. found (get (hv i) gs p) \<noteq> None) idx)) [0..<length gs])"
      using Cons.prems found_len [OF p Some] by (intro Cons.IH) (auto simp: append_each_def)
    finally show ?thesis
      using Some Cons.prems append_each_eq [of cs "length gs" bs] found_len [OF p Some] by simp
  qed
qed

text \<open>\<open>first_hit\<close> returns the first index that hits and passes, and skips only those that do not.\<close>

lemma first_hit_eq:
  assumes p: "inv p" "groups_ok gs"
  shows "\<forall>i \<in> set idx. get_value_at v i = Inr (hv i) \<and> ok i = Inr (pass i) \<Longrightarrow>
    first_hit (\<lambda>h. get h gs p) ok v idx =
    Inr (map_option (\<lambda>i. (i, the (found (get (hv i) gs p)))) (find (\<lambda>i. found (get (hv i) gs p) \<noteq> None \<and> pass i) idx))"
proof (induction idx)
  case (Cons i idx)
  then show ?case
    using get_found [OF p, of "hv i"] found_truthy [OF p, of "hv i"]
    by (cases "found (get (hv i) gs p)") (auto simp: truthy_def)
qed simp

end

definition groups_valid :: "int list \<Rightarrow> bool" where
  "groups_valid gs \<longleftrightarrow> gs \<noteq> [] \<and> (\<forall>g \<in> set gs. 0 \<le> g \<and> g < 2 ^ 32)"

interpretation pool_lookup: prefix_index pool_inv groups_valid get_cached_block
proof unfold_locales
  fix p gs h assume "pool_inv p" "groups_valid gs"
  then obtain x where "get_cached_block h gs p = Inr x" "\<And>bs. x = Some bs \<Longrightarrow> \<exists>js. bs = map Blk js \<and>
      list_all2 (\<lambda>g i. group_key h g \<in> owned p i \<and> 0 < i \<and> int i < num_gpu_blocks p) gs js"
    using get_cached_block_correct [of p gs h "[]"]
    by (fastforce simp: get_cached_block_def pool_inv_def groups_valid_def split: option.splits)
  then show "\<exists>x. get_cached_block h gs p = Inr x \<and> (\<forall>bs. x = Some bs \<longrightarrow> length bs = length gs)"
    by (auto dest!: list_all2_lengthD)
qed (simp add: groups_valid_def)

text \<open>Every group has a block with this hash; and the block found for each group is such a block.\<close>

definition cached_in :: "block_pool \<Rightarrow> int list \<Rightarrow> bytes \<Rightarrow> bool" where
  "cached_in s gs h \<longleftrightarrow> (\<forall>g \<in> set gs. \<exists>i. group_key h g \<in> owned s i)"

definition carries :: "block_pool \<Rightarrow> block_ref \<Rightarrow> bytes \<Rightarrow> int \<Rightarrow> bool" where
  "carries s b h g \<longleftrightarrow> (\<exists>i. b = Blk i \<and> 0 < i \<and> int i < num_gpu_blocks s \<and> group_key h g \<in> owned s i)"

lemma found_cached:
  assumes "pool_inv s" and "groups_valid gs"
  shows "found (get_cached_block h gs s) \<noteq> None \<longleftrightarrow> cached_in s gs h"
    and "k < length gs \<Longrightarrow> found (get_cached_block h gs s) = Some bs \<Longrightarrow> carries s (bs ! k) h (gs ! k)"
proof -
  obtain x where x: "get_cached_block h gs s = Inr x" "case x of
      None \<Rightarrow> \<exists>g \<in> set gs. \<forall>i. group_key h g \<notin> owned s i
    | Some bs \<Rightarrow> \<exists>js. bs = map Blk js \<and>
      list_all2 (\<lambda>g i. group_key h g \<in> owned s i \<and> 0 < i \<and> int i < num_gpu_blocks s) gs js"
    using get_cached_block_correct [of s gs h "[]"] assms
    by (force simp: get_cached_block_def pool_inv_def groups_valid_def split: option.splits)
  show "found (get_cached_block h gs s) \<noteq> None \<longleftrightarrow> cached_in s gs h"
    using x by (auto simp: found_def cached_in_def list_all2_conv_all_nth in_set_conv_nth split: option.splits) metis
  show "carries s (bs ! k) h (gs ! k)" if "k < length gs" "found (get_cached_block h gs s) = Some bs"
    using x that by (auto simp: found_def carries_def list_all2_conv_all_nth)
qed

section \<open>Full attention\<close>

lemma resolve_not_fine:
  "\<not> al < bs \<Longrightarrow> resolve_block_hashes (RawHashes hs) h bs True (Some al) = resolve_block_hashes (RawHashes hs) h bs False (Some al)"
  by (simp add: resolve_block_hashes_def)

lemma py_range_nat: "py_range 0 (int n) = map int [0..<n]"
  by (rule nth_equalityI) simp_all

lemma takeWhile_map_int: "takeWhile P (map int xs) = map int (takeWhile (P \<circ> int) xs)"
  by (induction xs) auto

text \<open>The hash of block \<open>i\<close> of \<open>c\<close> hash units, and the length of the cached run from the start.\<close>

definition block_hash_at :: "bytes list \<Rightarrow> nat \<Rightarrow> nat \<Rightarrow> bytes" where
  "block_hash_at hs c i = hs ! (Suc i * c - 1)"

definition cached_run :: "block_pool \<Rightarrow> int list \<Rightarrow> bytes list \<Rightarrow> nat \<Rightarrow> nat \<Rightarrow> nat" where
  "cached_run s gs hs c n = length (takeWhile (\<lambda>i. cached_in s gs (block_hash_at hs c i)) [0..<n])"

lemma cached_run_le: "cached_run s gs hs c n \<le> n"
  unfolding cached_run_def by (metis diff_zero length_takeWhile_le length_upt)

lemma cached_run_hit: "i < cached_run s gs hs c n \<Longrightarrow> cached_in s gs (block_hash_at hs c i)"
proof -
  assume i: "i < cached_run s gs hs c n"
  then have "i < n" using cached_run_le [of s gs hs c n] by linarith
  then show ?thesis using nth_mem [of i "takeWhile (\<lambda>i. cached_in s gs (block_hash_at hs c i)) [0..<n]"] i
    by (auto simp: cached_run_def takeWhile_nth dest: set_takeWhileD)
qed

lemma cached_run_stop: "cached_run s gs hs c n < n \<Longrightarrow> \<not> cached_in s gs (block_hash_at hs c (cached_run s gs hs c n))"
  using nth_length_takeWhile [of "\<lambda>i. cached_in s gs (block_hash_at hs c i)" "[0..<n]"]
  by (auto simp: cached_run_def)

lemma takeWhile_upt: "takeWhile P [0..<n] = [0..<length (takeWhile P [0..<n])]"
proof -
  have "length (takeWhile P [0..<n]) \<le> n" using length_takeWhile_le [of P "[0..<n]"] by simp
  then have "take (length (takeWhile P [0..<n])) [0..<n] = [0..<length (takeWhile P [0..<n])]" by (simp add: take_upt)
  then show ?thesis using takeWhile_eq_take [of P "[0..<n]"] by simp
qed

text \<open>The first phase of the search, at any view whose hashes are known.\<close>

lemma full_run:
  assumes s: "pool_inv s" "groups_valid gs"
    and v: "\<forall>i < n. get_value_at v (int i) = Inr (block_hash_at hs c i)"
  shows "\<exists>cs. leading_hits (\<lambda>h. get_cached_block h gs s) v (py_range 0 (int n)) (map (\<lambda>_. []) gs) = Inr cs \<and>
    length cs = length gs \<and>
    (\<forall>k < length gs. length (cs ! k) = cached_run s gs hs c n \<and>
       (\<forall>i < cached_run s gs hs c n. carries s (cs ! k ! i) (block_hash_at hs c i) (gs ! k)))"
proof -
  let ?f = "\<lambda>i. found (get_cached_block (block_hash_at hs c i) gs s)"
  have "leading_hits (\<lambda>h. get_cached_block h gs s) v (map int [0..<n]) (map (\<lambda>_. []) gs) =
    Inr (map (\<lambda>k. map (\<lambda>_. []) gs ! k @ map (\<lambda>i. the (?f (nat i)) ! k)
                  (takeWhile (\<lambda>i. ?f (nat i) \<noteq> None) (map int [0..<n]))) [0..<length gs])"
    using v by (intro pool_lookup.leading_hits_eq [OF s]) auto
  then have e: "leading_hits (\<lambda>h. get_cached_block h gs s) v (py_range 0 (int n)) (map (\<lambda>_. []) gs) =
    Inr (map (\<lambda>k. map (\<lambda>i. the (?f i) ! k) [0..<cached_run s gs hs c n]) [0..<length gs])"
    using takeWhile_upt [of "\<lambda>i. cached_in s gs (block_hash_at hs c i)" n]
    by (simp add: py_range_nat takeWhile_map_int o_def found_cached(1) [OF s] cached_run_def del: not_None_eq)
  have "carries s (the (?f i) ! k) (block_hash_at hs c i) (gs ! k)" if k: "k < length gs" and i: "i < cached_run s gs hs c n" for i k
  proof -
    obtain bs where "?f i = Some bs" using cached_run_hit [OF i] found_cached(1) [OF s] by blast
    then show ?thesis using found_cached(2) [OF s k] by simp
  qed
  with e show ?thesis by auto
qed

lemma hit_blocks_eq: "gs \<noteq> [] \<Longrightarrow> length cs = length gs \<Longrightarrow> \<forall>k < length gs. length (cs ! k) = n \<Longrightarrow> hit_blocks cs = Inr (int n)"
  by (cases cs) (auto simp: hit_blocks_def py_index_def)

lemma trim_each_nth: "k < length cs \<Longrightarrow> trim_each (int n) cs ! k = take n (cs ! k)"
  by (simp add: trim_each_def min_def)

lemma blocks_within: "ml div h \<le> length hs \<Longrightarrow> ml div (c * h) \<le> length hs div c" for ml h c :: nat
proof -
  assume "ml div h \<le> length hs"
  then have "ml div h div c \<le> length hs div c" by (rule div_le_mono)
  then show ?thesis by (metis div_mult2_eq mult.commute)
qed

text \<open>Hits at whole blocks: \<open>alignment_tokens\<close> is a multiple of the block size.\<close>

lemma full_hit_coarse:
  fixes eagle :: bool
  assumes s: "pool_inv s" "groups_valid gs" and h: "hash_block_size s = int h" "0 < h" "0 < c" "0 < a"
    and spec: "isinstance spec cls_FullAttentionSpec" "spec_block_size spec = int (c * h)"
    and len: "ml div h \<le> length hs"
  defines "run \<equiv> cached_run s gs hs c (ml div (c * h))"
  defines "n \<equiv> (if eagle then run - 1 else run) div a * a"
  shows "\<exists>blocks. full_find_longest_cache_hit (RawHashes hs) (int ml) gs s spec eagle (int (a * (c * h))) 1 =
      Inr (blocks, int (n * (c * h))) \<and> length blocks = length gs \<and>
    (\<forall>k < length gs. length (blocks ! k) = n \<and>
       (\<forall>i < n. carries s (blocks ! k ! i) (block_hash_at hs c i) (gs ! k)))"
proof -
  let ?b = "int (c * h)" and ?N = "ml div (c * h)"
  have b: "0 < ?b" "0 < c * h" using h by auto
  have nf: "\<not> int (a * (c * h)) < ?b" using h(4) mult_le_mono1 [of 1 a "c * h"] by (simp only: not_less of_nat_le_iff) simp
  obtain v where v: "resolve_block_hashes (RawHashes hs) (int h) ?b True (Some (int (a * (c * h)))) = Inr v"
    "view_len v = int (length hs div c)" "\<forall>i < length hs div c. get_value_at v (int i) = Inr (hs ! (Suc i * c - 1))"
    using resolve_coarser [OF h(2,3), of hs "Some (int (a * (c * h)))"] resolve_not_fine [OF nf] by auto
  have N: "?N \<le> length hs div c" by (rule blocks_within [OF len])
  have fine: "is_fine_grained (int (a * (c * h))) ?b = Inr False" using nf by (simp add: is_fine_grained_def)
  have q: "int ml div ?b = int ?N" by (simp only: zdiv_int)
  have "min (int ?N) (view_len v) = int ?N" unfolding v(2) using N by (simp only: min_def of_nat_le_iff if_True)
  moreover obtain cs where cs: "leading_hits (\<lambda>h. get_cached_block h gs s) v (py_range 0 (int ?N)) (map (\<lambda>_. []) gs) = Inr cs"
    "length cs = length gs" "\<forall>k < length gs. length (cs ! k) = run \<and>
       (\<forall>i < run. carries s (cs ! k ! i) (block_hash_at hs c i) (gs ! k))"
    using full_run [OF s, of ?N v hs c] v(3) N unfolding run_def by (auto simp: block_hash_at_def)
  moreover have "hit_blocks cs = Inr (int run)"
    by (rule hit_blocks_eq [of gs]) (use s(2) cs in \<open>auto simp: groups_valid_def\<close>)
  moreover have m: "min (int (a * (c * h))) ?b = ?b" using nf by simp
  define m where "m = (if eagle then run - 1 else run)"
  have hl: "(if eagle \<and> int run * ?b > 0 then int run * ?b - min (int (a * (c * h))) ?b else int run * ?b) = int (m * (c * h))"
  proof -
    have "int run * ?b > 0 \<longleftrightarrow> run \<noteq> 0" using b by (simp add: zero_less_mult_iff)
    then show ?thesis unfolding m by (cases run) (auto simp: m_def algebra_simps)
  qed
  have md: "int (m * (c * h)) mod int (a * (c * h)) = int (m mod a * (c * h))"
    by (metis mult_mod_left of_nat_mod)
  have nm: "m div a * a = m - m mod a" by (metis minus_mod_eq_div_mult)
  have sub: "int (m * (c * h)) - int (m mod a * (c * h)) = int n * ?b"
    unfolding n_def m_def [symmetric] nm by (simp add: of_nat_diff algebra_simps)
  have al: "int (a * (c * h)) \<noteq> 0" using h by simp
  have "full_find_longest_cache_hit (RawHashes hs) (int ml) gs s spec eagle (int (a * (c * h))) 1 =
      Inr (trim_each (int n) cs, int n * ?b)"
    unfolding full_find_longest_cache_hit_def
    using spec h(1) v(1) fine calculation b al
    by (simp add: py_div_def py_mod_def q hl md sub cdiv_mult m Let_def del: of_nat_mult of_nat_div split del: if_split)
  moreover have "n \<le> run" unfolding n_def by (cases eagle) (auto intro: le_trans [OF div_times_less_eq_dividend])
  ultimately show ?thesis using cs by (auto simp: trim_each_nth trim_each_def)
qed

text \<open>
  Hits inside a block: \<open>alignment_tokens\<close> is the hash granularity \<open>h\<close>, a block has \<open>c > 1\<close> hash units.
  \<open>probe_end\<close> is the end of the units probed after the run of full blocks.
\<close>

definition probe_end :: "nat \<Rightarrow> nat \<Rightarrow> nat \<Rightarrow> bytes list \<Rightarrow> nat" where
  "probe_end run c units hs = min (min (run * c + c - 1) units) (length hs)"

lemma find_rev_range:
  fixes lo hi :: nat
  shows "(find P (rev (py_range (int lo) (int hi))) = None \<and> (\<forall>t. lo \<le> t \<and> t < hi \<longrightarrow> \<not> P (int t))) \<or>
   (\<exists>t. find P (rev (py_range (int lo) (int hi))) = Some (int t) \<and> lo \<le> t \<and> t < hi \<and> P (int t) \<and>
      (\<forall>u. t < u \<and> u < hi \<longrightarrow> \<not> P (int u)))"
proof (induction hi)
  case (Suc hi)
  show ?case
  proof (cases "lo \<le> hi")
    case True
    then have e: "rev (py_range (int lo) (int (Suc hi))) = int hi # rev (py_range (int lo) (int hi))"
      by (simp add: upto_rec2)
    show ?thesis
    proof (cases "P (int hi)")
      case True
      then have "find P (rev (py_range (int lo) (int (Suc hi)))) = Some (int hi)" unfolding e by simp
      then show ?thesis using True \<open>lo \<le> hi\<close> by (intro disjI2 exI [of _ hi]) auto
    next
      case False
      then have f: "find P (rev (py_range (int lo) (int (Suc hi)))) = find P (rev (py_range (int lo) (int hi)))"
        unfolding e by simp
      show ?thesis using Suc.IH False unfolding f by (auto simp: less_Suc_eq)
    qed
  qed auto
qed auto

lemma full_partial_hit_eq:
  assumes s: "pool_inv s" "groups_valid gs" and h: "0 < h" "0 < c"
    and cs: "length cs = length gs" "\<forall>k < length gs. length (cs ! k) = run"
  shows "\<exists>cs' u. full_partial_hit (\<lambda>x. get_cached_block x gs s) hs (int ml) (int (c * h)) (int h) (cs, int run * int (c * h)) =
      Inr (cs', int (u * h)) \<and>
    (u = run * c \<and> cs' = cs \<and> (\<forall>t. run * c \<le> t \<and> t < probe_end run c (ml div h) hs \<longrightarrow> \<not> cached_in s gs (hs ! t)) \<or>
     (\<exists>t. u = Suc t \<and> run * c \<le> t \<and> t < probe_end run c (ml div h) hs \<and> length cs' = length gs \<and>
        (\<forall>k < length gs. \<exists>b. cs' ! k = cs ! k @ [b] \<and> carries s b (hs ! t) (gs ! k)) \<and>
        (\<forall>u. t < u \<and> u < probe_end run c (ml div h) hs \<longrightarrow> \<not> cached_in s gs (hs ! u))))"
proof -
  let ?get = "\<lambda>x. get_cached_block x gs s" and ?e = "probe_end run c (ml div h) hs"
  define P where "P i \<longleftrightarrow> found (get_cached_block (hs ! nat i) gs s) \<noteq> None \<and> True" for i
  have PP: "(\<lambda>i. found (get_cached_block (hs ! nat i) gs s) \<noteq> None \<and> True) = P" by (simp add: P_def fun_eq_iff)
  have Pi: "P (int t) \<longleftrightarrow> cached_in s gs (hs ! t)" for t using found_cached(1) [OF s] by (simp add: P_def)
  let ?idx = "rev (py_range (int (run * c)) (int ?e))"
  have hb: "hit_blocks cs = Inr (int run)"
    by (rule hit_blocks_eq [of gs]) (use s(2) cs in \<open>auto simp: groups_valid_def\<close>)
  have d: "int (c * h) div int h = int c" using h by simp
  have "min (min (int run * int c + int c - 1) (int ml div int h)) (int (length hs)) = int ?e"
  proof -
    have "int run * int c + int c - 1 = int (run * c + c - 1)" using h(2) by (simp add: of_nat_diff)
    then show ?thesis by (simp only: probe_end_def of_nat_min zdiv_int)
  qed
  then have e: "full_partial_hit ?get hs (int ml) (int (c * h)) (int h) (cs, int run * int (c * h)) =
    and_then (first_hit ?get (\<lambda>_. Inr True) (RawHashes hs) ?idx) (\<lambda>tail.
      case tail of None \<Rightarrow> Inr (cs, int run * int (c * h))
      | Some (i, x) \<Rightarrow> Inr (append_each cs x, (i + 1) * int h))"
    using h d hb by (simp add: full_partial_hit_def py_div_def Let_def)
  have f: "first_hit ?get (\<lambda>_. Inr True) (RawHashes hs) ?idx =
    Inr (map_option (\<lambda>i. (i, the (found (get_cached_block (hs ! nat i) gs s)))) (find P ?idx))"
    unfolding PP [symmetric]
  proof (rule pool_lookup.first_hit_eq [OF s], intro ballI conjI refl)
    fix i assume "i \<in> set ?idx"
    then have "int (run * c) \<le> i" "i < int ?e" by (simp_all only: set_rev set_upto atLeastAtMost_iff) simp
    moreover have "?e \<le> length hs" by (simp add: probe_end_def)
    ultimately have "0 \<le> i" "i < int (length hs)" by linarith+
    then show "get_value_at (RawHashes hs) i = Inr (hs ! nat i)" by (simp add: py_index_nonneg)
  qed
  from find_rev_range [of P "run * c" ?e] show ?thesis
  proof (elim disjE exE conjE)
    assume none: "find P ?idx = None" "\<forall>t. run * c \<le> t \<and> t < ?e \<longrightarrow> \<not> P (int t)"
    then show ?thesis
      unfolding e f using Pi by (intro exI [of _ cs] exI [of _ "run * c"]) (simp add: algebra_simps)
  next
    fix t assume some: "find P ?idx = Some (int t)" "run * c \<le> t" "t < ?e" "P (int t)" "\<forall>u. t < u \<and> u < ?e \<longrightarrow> \<not> P (int u)"
    obtain x where x: "found (get_cached_block (hs ! t) gs s) = Some x" using some(4) by (auto simp: P_def)
    have l: "length x = length gs" by (rule pool_lookup.found_len [OF s x])
    have "append_each cs x = map (\<lambda>k. cs ! k @ [x ! k]) [0..<length gs]" using append_each_eq [OF cs(1) l] .
    then have "\<forall>k < length gs. \<exists>b. append_each cs x ! k = cs ! k @ [b] \<and> carries s b (hs ! t) (gs ! k)"
      using found_cached(2) [OF s _ x] by simp
    moreover have "length (append_each cs x) = length gs" using cs l by (simp add: append_each_def)
    moreover have "\<forall>u. t < u \<and> u < ?e \<longrightarrow> \<not> cached_in s gs (hs ! u)" using some(5) Pi by simp
    ultimately show ?thesis
      unfolding e f some(1) using some(2,3) x
      by (intro exI [of _ "append_each cs x"] exI [of _ "Suc t"]) (auto simp: algebra_simps)
  qed
qed

text \<open>Arithmetic of hash units: \<open>u\<close> units fill \<open>u div c\<close> blocks and reach into block \<open>u div c\<close>.\<close>

lemma units_blocks:
  assumes c: "0 < (c :: nat)"
  shows "u \<le> r * c \<Longrightarrow> (u + c - 1) div c \<le> r"
    and "u mod c \<noteq> 0 \<Longrightarrow> u div c < (u + c - 1) div c"
    and "u div c \<le> (u + c - 1) div c"
    and "u \<le> Suc (Suc (u div c) * c - 1)"
    and "(Suc (u div c) * c - 1) div c = u div c"
proof -
  have u: "u = u div c * c + u mod c" "u mod c < c" using c by simp_all
  show "(u + c - 1) div c \<le> r" if "u \<le> r * c"
  proof -
    have "u + c - 1 < Suc r * c" using that c by simp
    then have "(u + c - 1) div c < Suc r" by (rule less_mult_imp_div_less)
    then show ?thesis by simp
  qed
  show "u div c < (u + c - 1) div c" if "u mod c \<noteq> 0"
  proof -
    have "u div c * c + 1 \<le> u" using u(1) that by linarith
    then have "Suc (u div c) * c \<le> u + c - 1" using c by simp
    then show ?thesis using c by (metis Suc_le_lessD div_le_mono nonzero_mult_div_cancel_right neq0_conv)
  qed
  show "u div c \<le> (u + c - 1) div c" using c by (intro div_le_mono) simp
  show "u \<le> Suc (Suc (u div c) * c - 1)" using dividend_less_div_times [OF c, of u] by simp
  show "(Suc (u div c) * c - 1) div c = u div c" using c by (intro div_nat_eqI) (simp_all add: algebra_simps)
qed

lemma cdiv_units: "0 < h \<Longrightarrow> 0 < c \<Longrightarrow> cdiv (int (u * h)) (int (c * h)) = int ((u + c - 1) div c)"
proof (rule cdiv_unique)
  assume h: "0 < h" "0 < c"
  let ?q = "(u + c - 1) div c"
  have "u + c - 1 < ?q * c + c" using h by (metis add.commute div_mult_mod_eq mod_less_divisor nat_add_left_cancel_less)
  then have "u \<le> ?q * c" using h by linarith
  then have "u * h \<le> ?q * (c * h)" using mult_le_mono1 [of u "?q * c" h] by (simp add: mult.assoc)
  then show "int (u * h) \<le> int ?q * int (c * h)" by (simp only: of_nat_le_iff flip: of_nat_mult)
  have "?q * c < u + c" using h div_times_less_eq_dividend [of "u + c - 1" c] by linarith
  then have "?q * c * h < (u + c) * h" using h by simp
  then have "int (?q * c * h) < int ((u + c) * h)" by (simp only: of_nat_less_iff)
  then show "(int ?q - 1) * int (c * h) < int (u * h)" by (simp add: algebra_simps)
  show "0 < int (c * h)" using h by simp
qed

lemma full_hit_fine:
  fixes eagle :: bool
  assumes s: "pool_inv s" "groups_valid gs" and h: "hash_block_size s = int h" "0 < h" "1 < c"
    and spec: "isinstance spec cls_FullAttentionSpec" "spec_block_size spec = int (c * h)"
    and len: "ml div h \<le> length hs"
  defines "run \<equiv> cached_run s gs hs c (ml div (c * h))"
  shows "\<exists>blocks u u0. full_find_longest_cache_hit (RawHashes hs) (int ml) gs s spec eagle (int h) 1 =
      Inr (blocks, int (u * h)) \<and> u = (if eagle then u0 - 1 else u0) \<and> length blocks = length gs \<and>
    run * c \<le> u0 \<and> (u0 = run * c \<or> u0 \<le> probe_end run c (ml div h) hs \<and> cached_in s gs (hs ! (u0 - 1))) \<and>
    (\<forall>t. u0 \<le> t \<and> t < probe_end run c (ml div h) hs \<longrightarrow> \<not> cached_in s gs (hs ! t)) \<and>
    (\<forall>k < length gs. length (blocks ! k) = (u + c - 1) div c \<and>
       (\<forall>i < u div c. carries s (blocks ! k ! i) (block_hash_at hs c i) (gs ! k)) \<and>
       (u mod c \<noteq> 0 \<longrightarrow> (\<exists>t. u \<le> Suc t \<and> t div c = u div c \<and> carries s (blocks ! k ! (u div c)) (hs ! t) (gs ! k))))"
proof -
  let ?b = "int (c * h)" and ?N = "ml div (c * h)" and ?e = "probe_end run c (ml div h) hs"
  have b: "0 < ?b" "0 < c" using h by auto
  have lt: "int h < ?b" using h(2,3) by simp
  have v: "resolve_block_hashes (RawHashes hs) (int h) ?b True (Some (int h)) = Inr (RawHashes hs)"
    using h lt by (simp add: resolve_block_hashes_def)
  have fine: "is_fine_grained (int h) ?b = Inr True" using lt h(2) by (simp add: is_fine_grained_def py_mod_def)
  have full: "BlockHashListWithBlockSize_init hs (int h) ?b = Inr (ScaledHashes hs (int c))"
    using h by (simp add: BlockHashListWithBlockSize_init_def)
  have "resolve_block_hashes (RawHashes hs) (int h) ?b False None = Inr (ScaledHashes hs (int c))"
    using h full by (simp add: resolve_block_hashes_def)
  then have vw: "view_len (ScaledHashes hs (int c)) = int (length hs div c)"
    "\<forall>i < length hs div c. get_value_at (ScaledHashes hs (int c)) (int i) = Inr (block_hash_at hs c i)"
    using resolve_coarser [OF h(2) b(2), of hs None] by (auto simp: block_hash_at_def)
  have N: "?N \<le> length hs div c" by (rule blocks_within [OF len])
  have q: "int ml div ?b = int ?N" by (simp only: zdiv_int)
  have mn: "min (int ?N) (view_len (ScaledHashes hs (int c))) = int ?N"
    unfolding vw(1) using N by (simp only: min_def of_nat_le_iff if_True)
  obtain cs where cs: "leading_hits (\<lambda>h. get_cached_block h gs s) (ScaledHashes hs (int c)) (py_range 0 (int ?N)) (map (\<lambda>_. []) gs) = Inr cs"
    "length cs = length gs" "\<forall>k < length gs. length (cs ! k) = run \<and>
       (\<forall>i < run. carries s (cs ! k ! i) (block_hash_at hs c i) (gs ! k))"
    using full_run [OF s, of ?N "ScaledHashes hs (int c)" hs c] vw(2) N unfolding run_def by auto
  have hb: "hit_blocks cs = Inr (int run)"
    by (rule hit_blocks_eq [of gs]) (use s(2) cs in \<open>auto simp: groups_valid_def\<close>)
  obtain cs' u0 where p: "full_partial_hit (\<lambda>x. get_cached_block x gs s) hs (int ml) ?b (int h) (cs, int run * ?b) = Inr (cs', int (u0 * h))"
    and u0: "u0 = run * c \<and> cs' = cs \<and> (\<forall>t. run * c \<le> t \<and> t < ?e \<longrightarrow> \<not> cached_in s gs (hs ! t)) \<or>
     (\<exists>t. u0 = Suc t \<and> run * c \<le> t \<and> t < ?e \<and> length cs' = length gs \<and>
        (\<forall>k < length gs. \<exists>b. cs' ! k = cs ! k @ [b] \<and> carries s b (hs ! t) (gs ! k)) \<and>
        (\<forall>u. t < u \<and> u < ?e \<longrightarrow> \<not> cached_in s gs (hs ! u)))"
    using full_partial_hit_eq [OF s h(2) b(2) cs(2), of run hs ml] cs(3) by blast
  define u where "u = (if eagle then u0 - 1 else u0)"
  have md: "int (u * h) mod int h = 0" by simp
  have hl: "(if eagle \<and> 0 < u0 then int (u0 * h) - min (int h) ?b else int (u0 * h)) = int (u * h)"
    using lt h(2) by (cases u0) (auto simp: u_def algebra_simps intro: add_pos_nonneg)
  have cd: "cdiv (int (u * h)) ?b = int ((u + c - 1) div c)" by (rule cdiv_units [OF h(2) b(2)])
  have find: "full_find_longest_cache_hit (RawHashes hs) (int ml) gs s spec eagle (int h) 1 =
      Inr (trim_each (int ((u + c - 1) div c)) cs', int (u * h))"
    unfolding full_find_longest_cache_hit_def
    using spec h v fine full cs(1) hb p mn
    by (simp add: py_div_def py_mod_def q hl cd md sequence_of_def Let_def del: of_nat_mult of_nat_div split del: if_split)
  have tail: "\<forall>k < length gs. length (trim_each (int ((u + c - 1) div c)) cs' ! k) = (u + c - 1) div c \<and>
       (\<forall>i < u div c. carries s (trim_each (int ((u + c - 1) div c)) cs' ! k ! i) (block_hash_at hs c i) (gs ! k)) \<and>
       (u mod c \<noteq> 0 \<longrightarrow> (\<exists>t. u \<le> Suc t \<and> t div c = u div c \<and>
          carries s (trim_each (int ((u + c - 1) div c)) cs' ! k ! (u div c)) (hs ! t) (gs ! k)))"
  proof (intro allI impI)
    fix k assume k: "k < length gs"
    let ?q = "(u + c - 1) div c"
    have c0: "\<forall>i < run. carries s (cs ! k ! i) (block_hash_at hs c i) (gs ! k)" "length (cs ! k) = run" using cs(3) k by auto
    note ub = units_blocks [OF b(2), of u]
    consider (full) "u0 = run * c" "cs' = cs"
      | (tail) t x where "u0 = Suc t" "run * c \<le> t" "t < run * c + c - 1" "length cs' = length gs"
          "cs' ! k = cs ! k @ [x]" "carries s x (hs ! t) (gs ! k)"
      using u0 k by (auto simp: probe_end_def)
    then show "length (trim_each (int ?q) cs' ! k) = ?q \<and>
       (\<forall>i < u div c. carries s (trim_each (int ?q) cs' ! k ! i) (block_hash_at hs c i) (gs ! k)) \<and>
       (u mod c \<noteq> 0 \<longrightarrow> (\<exists>t. u \<le> Suc t \<and> t div c = u div c \<and>
          carries s (trim_each (int ?q) cs' ! k ! (u div c)) (hs ! t) (gs ! k)))"
    proof cases
      case full
      have "u \<le> run * c" using full(1) by (simp add: u_def)
      then have q: "?q \<le> run" by (rule ub(1))
      have "carries s (trim_each (int ?q) cs' ! k ! i) (block_hash_at hs c i) (gs ! k)" if "i < ?q" for i
        using c0 q k cs(2) full(2) that by (simp add: trim_each_nth)
      moreover have "length (trim_each (int ?q) cs' ! k) = ?q" using c0 q k cs(2) full(2) by (simp add: trim_each_nth)
      ultimately show ?thesis using ub(2-5) by (auto simp: block_hash_at_def)
    next
      case tail
      have u: "run * c \<le> u" "u \<le> run * c + c - 1" "u \<le> Suc t" using tail(1-3) by (auto simp: u_def)
      have r: "u div c = run" "t div c = run" using u(1,2) tail(2,3) b(2) by (auto intro!: div_nat_eqI simp: algebra_simps)
      have q: "?q \<le> Suc run" by (rule ub(1)) (use u(2) in simp)
      have n: "trim_each (int ?q) cs' ! k = take ?q (cs ! k @ [x])" using tail(4,5) k by (simp add: trim_each_nth)
      have "\<forall>i < run. carries s (trim_each (int ?q) cs' ! k ! i) (block_hash_at hs c i) (gs ! k)"
        unfolding n using c0 ub(3) r by (auto simp: nth_append)
      moreover have "carries s (trim_each (int ?q) cs' ! k ! run) (hs ! t) (gs ! k)" if "u mod c \<noteq> 0"
        unfolding n using ub(2) [OF that] r c0 tail(6) by (simp add: nth_append)
      moreover have "length (trim_each (int ?q) cs' ! k) = ?q" unfolding n using c0 q by simp
      ultimately show ?thesis using r u(3) by auto
    qed
  qed
  show ?thesis
  proof (intro exI conjI)
    show "u = (if eagle then u0 - 1 else u0)" by (rule u_def)
    show "length (trim_each (int ((u + c - 1) div c)) cs') = length gs" using u0 cs(2) by (auto simp: trim_each_def)
    show "run * c \<le> u0" using u0 by auto
    show "u0 = run * c \<or> u0 \<le> ?e \<and> cached_in s gs (hs ! (u0 - 1))"
      using u0 by (auto simp: cached_in_def carries_def in_set_conv_nth) blast
    show "\<forall>t. u0 \<le> t \<and> t < ?e \<longrightarrow> \<not> cached_in s gs (hs ! t)" using u0 by (auto simp: Suc_le_eq)
  qed (use find tail in auto)
qed

section \<open>Sliding window\<close>

text \<open>
  A hit may end after block \<open>e - 1\<close> when the length it leaves is aligned.  Ending there needs the last \<open>need\<close>
  blocks before \<open>e\<close>; \<open>no_later_hit\<close> says that no end behind \<open>r\<close> has them.
\<close>

definition edge_ok :: "int \<Rightarrow> int \<Rightarrow> bool \<Rightarrow> nat \<Rightarrow> bool" where
  "edge_ok bs al eagle e \<longleftrightarrow> bs = al \<or> (if eagle then int e - 1 else int e) * bs mod al = 0"

definition no_later_hit ::
    "block_pool \<Rightarrow> int list \<Rightarrow> (nat \<Rightarrow> bytes) \<Rightarrow> (nat \<Rightarrow> bool) \<Rightarrow> nat \<Rightarrow> nat \<Rightarrow> nat \<Rightarrow> bool" where
  "no_later_hit s gs hv ok need n r \<longleftrightarrow>
     (\<forall>e. r < e \<and> e \<le> n \<and> ok e \<longrightarrow> (\<exists>j. e \<le> j + need \<and> j < e \<and> \<not> cached_in s gs (hv j)))"

text \<open>The blocks of each group: null, then hits from \<open>lo\<close> to \<open>hi\<close>, in a list of length \<open>m\<close>.\<close>

definition window_blocks ::
    "block_pool \<Rightarrow> int list \<Rightarrow> (nat \<Rightarrow> bytes) \<Rightarrow> block_ref list list \<Rightarrow> nat \<Rightarrow> nat \<Rightarrow> nat \<Rightarrow> bool" where
  "window_blocks s gs hv cs lo hi m \<longleftrightarrow> length cs = length gs \<and>
     (\<forall>k < length gs. length (cs ! k) = m \<and> (\<forall>j < lo. cs ! k ! j = null_block s) \<and>
        (\<forall>j. lo \<le> j \<and> j < hi \<longrightarrow> carries s (cs ! k ! j) (hv j) (gs ! k)))"

lemma window_blocks_extend:
  assumes w: "window_blocks s gs hv cs (Suc i) hi m" and i: "Suc i \<le> m" and s: "pool_inv s" "groups_valid gs"
    and x: "found (get_cached_block (hv i) gs s) = Some x"
  shows "window_blocks s gs hv (set_each (int i) cs x) i hi m"
proof -
  have l: "length x = length gs" by (rule pool_lookup.found_len [OF s x])
  have e: "set_each (int i) cs x = map (\<lambda>k. (cs ! k)[i := x ! k]) [0..<length gs]"
    using set_each_eq [OF _ l] w by (simp add: window_blocks_def)
  show ?thesis
    unfolding window_blocks_def
  proof (intro conjI allI impI)
    show "length (set_each (int i) cs x) = length gs" by (simp add: e)
  next
    fix k assume k: "k < length gs"
    show "length (set_each (int i) cs x ! k) = m" using w k by (simp add: e window_blocks_def)
  next
    fix k j assume "k < length gs" "j < i"
    then show "set_each (int i) cs x ! k ! j = null_block s" using w by (simp add: e window_blocks_def)
  next
    fix k j assume k: "k < length gs" and j: "i \<le> j \<and> j < hi"
    then show "carries s (set_each (int i) cs x ! k ! j) (hv j) (gs ! k)"
      using w i found_cached(2) [OF s k x] by (cases "j = i") (auto simp: e window_blocks_def)
  qed
qed

lemma window_blocks_trim: "window_blocks s gs hv cs lo hi m \<Longrightarrow> hi \<le> m \<Longrightarrow> lo \<le> hi \<Longrightarrow> window_blocks s gs hv (trim_each (int hi) cs) lo hi hi"
  by (auto simp: window_blocks_def trim_each_def)

lemma window_blocks_take: "window_blocks s gs hv cs lo hi m \<Longrightarrow> r \<le> hi \<Longrightarrow> r \<le> m \<Longrightarrow> lo \<le> r \<Longrightarrow>
  window_blocks s gs hv (map (take r) cs) lo r r"
  by (auto simp: window_blocks_def)

lemma window_blocks_less: "window_blocks s gs hv cs (Suc i) hi m \<Longrightarrow> window_blocks s gs hv cs i i m"
  by (auto simp: window_blocks_def)

text \<open>The scan below index \<open>i\<close>, with a run of \<open>n\<close> hits from \<open>i\<close> on.\<close>

lemma swa_scan_correct:
  assumes s: "pool_inv s" "groups_valid gs" and al: "al \<noteq> 0" and need: "0 < need"
    and v: "\<forall>i < m. get_value_at v (int i) = Inr (hv i)"
  shows "i + n \<le> m \<Longrightarrow> n < need \<Longrightarrow> (0 < n \<longrightarrow> edge_ok bs al eagle (i + n)) \<Longrightarrow>
    no_later_hit s gs hv (edge_ok bs al eagle) need m (i + n) \<Longrightarrow> window_blocks s gs hv cs i (i + n) m \<Longrightarrow>
    \<exists>cs' n' f. swa_scan (\<lambda>h. get_cached_block h gs s) v bs al eagle (int need) (rev (map int [0..<i])) cs (int n) =
        Inr (cs', int n', f) \<and>
      (if f then \<exists>r. need \<le> r \<and> r \<le> m \<and> edge_ok bs al eagle r \<and> no_later_hit s gs hv (edge_ok bs al eagle) need m r \<and>
              window_blocks s gs hv cs' (r - need) r r
       else n' < need \<and> n' \<le> m \<and> (0 < n' \<longrightarrow> edge_ok bs al eagle n') \<and>
            no_later_hit s gs hv (edge_ok bs al eagle) need m n' \<and> window_blocks s gs hv cs' 0 n' m)"
proof (induction i arbitrary: n cs)
  case 0
  then show ?case by (intro exI [of _ cs] exI [of _ n] exI [of _ False]) simp
next
  case (Suc i)
  let ?ok = "edge_ok bs al eagle" and ?scan = "swa_scan (\<lambda>h. get_cached_block h gs s) v bs al eagle (int need)"
  have i: "i < m" using Suc.prems(1) by simp
  have hv: "get_value_at v (int i) = Inr (hv i)" using v i by simp
  note g = pool_lookup.get_found [OF s, of "hv i"] pool_lookup.found_truthy [OF s, of "hv i"]
  have r: "rev (map int [0..<Suc i]) = int i # rev (map int [0..<i])" by simp
  show ?case
  proof (cases "found (get_cached_block (hv i) gs s)")
    case None
    have miss: "\<not> cached_in s gs (hv i)" using found_cached(1) [OF s] None by blast
    have "no_later_hit s gs hv ?ok need m (i + 0)"
      unfolding no_later_hit_def
    proof (intro allI impI)
      fix e assume e: "i + 0 < e \<and> e \<le> m \<and> ?ok e"
      show "\<exists>j. e \<le> j + need \<and> j < e \<and> \<not> cached_in s gs (hv j)"
      proof (cases "Suc i + n < e")
        case True
        then show ?thesis using Suc.prems(4) e unfolding no_later_hit_def by blast
      next
        case False
        then show ?thesis using miss e Suc.prems(2) by (intro exI [of _ i]) auto
      qed
    qed
    moreover have "window_blocks s gs hv cs i (i + 0) m" using window_blocks_less [OF Suc.prems(5)] by simp
    moreover have "?scan (rev (map int [0..<Suc i])) cs (int n) = ?scan (rev (map int [0..<i])) cs (int 0)"
      unfolding r using hv g None by simp
    ultimately show ?thesis using Suc.IH [of 0 cs] i need by simp
  next
    case (Some x)
    show ?thesis
    proof (cases "n = 0 \<and> \<not> ?ok (Suc i)")
      case True
      have "no_later_hit s gs hv ?ok need m (i + 0)"
        using Suc.prems(4) True unfolding no_later_hit_def by (metis Suc_lessI add.right_neutral)
      moreover have "window_blocks s gs hv cs i (i + 0) m" using window_blocks_less [OF Suc.prems(5)] by simp
      moreover have "?scan (rev (map int [0..<Suc i])) cs (int n) = ?scan (rev (map int [0..<i])) cs (int 0)"
        unfolding r using hv g Some True al by (auto simp: edge_ok_def py_mod_def add.commute)
      ultimately show ?thesis using Suc.IH [of 0 cs] i need by simp
    next
      case False
      define cs1 where "cs1 = set_each (int i) cs x"
      have w: "window_blocks s gs hv cs1 i (i + Suc n) m"
        unfolding cs1_def using window_blocks_extend [of s gs hv cs i "Suc i + n" m x] Suc.prems(1,5) s Some by simp
      have ok: "?ok (i + Suc n)" using Suc.prems(3) False by (cases n) auto
      have nl: "no_later_hit s gs hv ?ok need m (i + Suc n)" using Suc.prems(4) by simp
      have e: "?scan (rev (map int [0..<Suc i])) cs (int n) =
        (if int (Suc n) \<ge> int need then Inr (trim_each (int (i + Suc n)) cs1, int (Suc n), True)
         else ?scan (rev (map int [0..<i])) cs1 (int (Suc n)))"
        unfolding r using hv g Some False al
        by (auto simp: edge_ok_def py_mod_def add.commute add.left_commute cs1_def Let_def)
      show ?thesis
      proof (cases "need \<le> Suc n")
        case True
        then have "Suc n = need" using Suc.prems(2) by simp
        moreover have "window_blocks s gs hv (trim_each (int (i + Suc n)) cs1) i (i + Suc n) (i + Suc n)"
          using window_blocks_trim [OF w] Suc.prems(1) by simp
        ultimately show ?thesis
          using e ok nl Suc.prems(1)
          by (intro exI [of _ "trim_each (int (i + Suc n)) cs1"] exI [of _ "Suc n"] exI [of _ True])
             (auto intro!: exI [of _ "i + Suc n"])
      next
        case False
        then have "?scan (rev (map int [0..<Suc i])) cs (int n) = ?scan (rev (map int [0..<i])) cs1 (int (Suc n))"
          using e by simp
        then show ?thesis using Suc.IH [of "Suc n" cs1] Suc.prems(1) False ok nl w by simp
      qed
    qed
  qed
qed

lemma realign_take:
  assumes al: "al \<noteq> 0" and ne: "cs \<noteq> []"
  shows "\<forall>c \<in> set cs. length c = m \<Longrightarrow>
    \<exists>r \<le> m. realign bs al cs = Inr (map (take r) cs) \<and> (bs = al \<or> int r * bs mod al = 0) \<and>
      (bs = al \<or> int m * bs mod al = 0 \<longrightarrow> r = m)"
  using ne
proof (induction m arbitrary: cs)
  case 0
  then have "map (take 0) cs = cs" by (intro map_idI) auto
  moreover have "realign bs al cs = Inr cs"
    using 0 al by (subst realign.simps) (auto split: list.splits)
  ultimately show ?case by (intro exI [of _ 0]) simp
next
  case (Suc m)
  show ?case
  proof (cases "bs = al \<or> int (Suc m) * bs mod al = 0")
    case True
    have "realign bs al cs = Inr cs" using True Suc.prems al by (subst realign.simps) (auto split: list.splits)
    moreover have "map (take (Suc m)) cs = cs" using Suc.prems by (intro map_idI) simp
    ultimately show ?thesis using True by (intro exI [of _ "Suc m"]) simp
  next
    case False
    have "[] \<notin> set cs" using Suc.prems(1) by force
    then have "realign bs al cs = realign bs al (map butlast cs)"
      using False Suc.prems al by (subst realign.simps) (auto split: list.splits)
    moreover have "\<exists>r \<le> m. realign bs al (map butlast cs) = Inr (map (take r) (map butlast cs)) \<and>
        (bs = al \<or> int r * bs mod al = 0) \<and> (bs = al \<or> int m * bs mod al = 0 \<longrightarrow> r = m)"
      by (rule Suc.IH) (use Suc.prems in auto)
    then obtain r where r: "r \<le> m" "realign bs al (map butlast cs) = Inr (map (take r) (map butlast cs))"
      "bs = al \<or> int r * bs mod al = 0" by (elim exE conjE)
    moreover have "map (take r) (map butlast cs) = map (take r) cs" using Suc.prems r(1) by (auto simp: take_butlast)
    ultimately show ?thesis using False by (intro exI [of _ r]) auto
  qed
qed

lemma pop_each_eq: "\<forall>c \<in> set cs. length c = m \<Longrightarrow> 0 < m \<Longrightarrow> pop_each cs = Inr (map (take (m - 1)) cs)"
  by (auto simp: pop_each_def butlast_conv_take)

lemma window_blocks_set: "window_blocks s gs hv cs lo hi m \<Longrightarrow> \<forall>c \<in> set cs. length c = m"
  by (auto simp: window_blocks_def in_set_conv_nth)

lemma window_blocks_len: "window_blocks s gs hv cs lo hi m \<Longrightarrow> groups_valid gs \<Longrightarrow> hit_blocks cs = Inr (int m)"
  by (rule hit_blocks_eq [of gs]) (auto simp: window_blocks_def groups_valid_def)

lemma window_blocks_ne: "window_blocks s gs hv cs lo hi m \<Longrightarrow> groups_valid gs \<Longrightarrow> cs \<noteq> []"
  by (auto simp: window_blocks_def groups_valid_def)

text \<open>The run after the scan: its end \<open>r\<close>, aligned for the length that remains after the EAGLE drop.\<close>

lemma swa_run:
  assumes s: "pool_inv s" "groups_valid gs" and al: "al \<noteq> 0" and need: "0 < need"
    and v: "\<forall>i < m. get_value_at v (int i) = Inr (hv i)"
  shows "\<exists>cs n f r lo. swa_scan (\<lambda>h. get_cached_block h gs s) v bs al eagle (int need) (rev (py_range 0 (int m)))
        (map (\<lambda>_. replicate m (null_block s)) gs) 0 = Inr (cs, int n, f) \<and>
    r \<le> m \<and> (0 < r \<longrightarrow> edge_ok bs al eagle r) \<and> no_later_hit s gs hv (edge_ok bs al eagle) need m r \<and> lo \<le> r - need \<and>
    (f \<longrightarrow> need \<le> r) \<and> (\<not> f \<longrightarrow> lo = 0) \<and>
    window_blocks s gs hv (if f then cs else trim_each (int n) cs) lo r r"
proof -
  have w: "window_blocks s gs hv (map (\<lambda>_. replicate m (null_block s)) gs) m (m + 0) m"
    by (auto simp: window_blocks_def)
  have nl: "no_later_hit s gs hv (edge_ok bs al eagle) need m (m + 0)" by (auto simp: no_later_hit_def)
  have z: "0 < (0 :: nat) \<longrightarrow> edge_ok bs al eagle (m + 0)" by simp
  obtain cs n f where scan: "swa_scan (\<lambda>h. get_cached_block h gs s) v bs al eagle (int need) (rev (map int [0..<m]))
        (map (\<lambda>_. replicate m (null_block s)) gs) (int 0) = Inr (cs, int n, f)"
    and res: "if f then \<exists>r. need \<le> r \<and> r \<le> m \<and> edge_ok bs al eagle r \<and> no_later_hit s gs hv (edge_ok bs al eagle) need m r \<and>
              window_blocks s gs hv cs (r - need) r r
       else n < need \<and> n \<le> m \<and> (0 < n \<longrightarrow> edge_ok bs al eagle n) \<and>
            no_later_hit s gs hv (edge_ok bs al eagle) need m n \<and> window_blocks s gs hv cs 0 n m"
    using swa_scan_correct [OF s al need v _ need z nl w] by auto
  have e: "swa_scan (\<lambda>h. get_cached_block h gs s) v bs al eagle (int need) (rev (py_range 0 (int m)))
        (map (\<lambda>_. replicate m (null_block s)) gs) 0 = Inr (cs, int n, f)"
    using scan by (simp add: py_range_nat)
  show ?thesis
  proof (cases f)
    case True
    then obtain r where "need \<le> r" "r \<le> m" "edge_ok bs al eagle r" "no_later_hit s gs hv (edge_ok bs al eagle) need m r"
      "window_blocks s gs hv cs (r - need) r r" using res by auto
    with e True show ?thesis
      by (intro exI [of _ cs] exI [of _ n] exI [of _ f] exI [of _ r] exI [of _ "r - need"]) simp
  next
    case False
    then have "n \<le> m" "0 < n \<longrightarrow> edge_ok bs al eagle n" "no_later_hit s gs hv (edge_ok bs al eagle) need m n"
      "window_blocks s gs hv (trim_each (int n) cs) 0 n n"
      using res window_blocks_trim [of s gs hv cs 0 n m] by auto
    with e False show ?thesis
      by (intro exI [of _ cs] exI [of _ n] exI [of _ f] exI [of _ n] exI [of _ 0]) simp
  qed
qed

text \<open>What the length of a sliding window hit has to satisfy, at block granularity.\<close>

definition swa_hit_ok ::
    "block_pool \<Rightarrow> int list \<Rightarrow> (nat \<Rightarrow> bytes) \<Rightarrow> nat \<Rightarrow> nat \<Rightarrow> nat \<Rightarrow> block_ref list list \<Rightarrow> nat \<Rightarrow> bool" where
  "swa_hit_ok s gs hv a win n blocks r \<longleftrightarrow> r \<le> n \<and> a dvd r \<and>
     (\<exists>lo. window_blocks s gs hv blocks lo r r \<and> lo \<le> r - win)"

lemma edge_ok_units: "0 < h \<Longrightarrow> 0 < c \<Longrightarrow> edge_ok (int (c * h)) (int (a * (c * h))) False e \<longleftrightarrow> a dvd e"
proof -
  assume h: "0 < h" "0 < c"
  have "int e * int (c * h) mod int (a * (c * h)) = int (e mod a * (c * h))"
    by (metis mult_mod_left of_nat_mod of_nat_mult)
  moreover have "int (c * h) = int (a * (c * h)) \<longleftrightarrow> a = 1" using h by (simp only: of_nat_eq_iff) auto
  ultimately show ?thesis using h by (auto simp: edge_ok_def mod_eq_0_iff_dvd)
qed

lemma edge_ok_eagle: "0 < e \<Longrightarrow> edge_ok bs al True e = edge_ok bs al False (e - 1)"
  by (simp add: edge_ok_def of_nat_diff)

lemma swa_spec:
  assumes "spec = SlidingWindowSpec att w x \<or> spec = SlidingWindowMLASpec att w x mla"
  shows "get_kv_cache_spec_sliding_window spec = Some w" "isinstance spec cls_SlidingWindowSpec"
    "spec_block_size spec = att_block_size att"
  using assms by (auto simp: isinstance_def)

lemma swa_hit_core:
  fixes eagle :: bool
  assumes s: "pool_inv s" "groups_valid gs" and h: "hash_block_size s = int h" "0 < h" "0 < c" "0 < a"
    and spec: "get_kv_cache_spec_sliding_window spec = Some w" "isinstance spec cls_SlidingWindowSpec"
      "spec_block_size spec = int (c * h)"
    and len: "ml div h \<le> length hs" and w: "2 \<le> w"
  defines "n \<equiv> ml div (c * h)" and "win \<equiv> nat (cdiv (w - 1) (int (c * h)))"
  shows "\<exists>blocks r. swa_find_longest_cache_hit (RawHashes hs) (int ml) gs s spec eagle (int (a * (c * h))) 1 1 =
      Inr (blocks, int (r * (c * h))) \<and> swa_hit_ok s gs (block_hash_at hs c) a win n blocks r \<and>
    (\<not> eagle \<longrightarrow> no_later_hit s gs (block_hash_at hs c) (\<lambda>e. a dvd e) win n r)"
proof -
  let ?b = "int (c * h)" and ?al = "int (a * (c * h))" and ?hv = "block_hash_at hs c"
  define need where "need = (if eagle then win + 1 else win)"
  have b: "0 < ?b" "?al \<noteq> 0" "?al mod ?b = 0" using h by auto
  have pos: "0 < cdiv (w - 1) ?b" using b(1) w cdiv_le_iff [of ?b "w - 1" 0] by auto
  have iw: "int win = cdiv (w - 1) ?b" unfolding win_def by (rule nat_0_le [OF less_imp_le [OF pos]])
  have win: "0 < win" using pos unfolding iw [symmetric] by simp
  have np: "0 < need" using win by (simp add: need_def)
  have cont: "contiguous_blocks_for_hit w ?b eagle = int need" by (simp add: contiguous_blocks_for_hit_def need_def iw [symmetric] del: of_nat_mult)
  obtain v where v: "resolve_block_hashes (RawHashes hs) (int h) ?b False (Some ?al) = Inr v"
    "\<forall>i < length hs div c. get_value_at v (int i) = Inr (?hv i)"
    using resolve_coarser [OF h(2,3), of hs "Some ?al"] by (auto simp: block_hash_at_def)
  have v': "\<forall>i < n. get_value_at v (int i) = Inr (?hv i)" using v(2) blocks_within [OF len, of c] by (auto simp: n_def)
  have q: "int ml div ?b = int n" by (simp only: n_def zdiv_int)
  obtain cs k f r lo where scan: "swa_scan (\<lambda>h. get_cached_block h gs s) v ?b ?al eagle (int need) (rev (py_range 0 (int n)))
        (map (\<lambda>_. replicate n (null_block s)) gs) 0 = Inr (cs, int k, f)"
    and r: "r \<le> n" "0 < r \<longrightarrow> edge_ok ?b ?al eagle r" "no_later_hit s gs ?hv (edge_ok ?b ?al eagle) need n r" "lo \<le> r - need"
    and f: "f \<longrightarrow> need \<le> r" "\<not> f \<longrightarrow> lo = 0"
    and wb: "window_blocks s gs ?hv (if f then cs else trim_each (int k) cs) lo r r"
    using swa_run [OF s b(2) np v', of ?b eagle] by blast
  define cs0 where "cs0 = (if f then cs else trim_each (int k) cs)"
  note w0 = wb [folded cs0_def]
  have ok: "edge_ok ?b ?al False e \<longleftrightarrow> a dvd e" for e by (rule edge_ok_units [OF h(2,3)])
  have take: "window_blocks s gs ?hv (map (take r') cs0) lo r' r'" if "lo \<le> r'" "r' \<le> r" for r'
    using window_blocks_take [OF w0] that by simp
  have full: "map (take r) cs0 = cs0" using window_blocks_set [OF w0] by (intro map_idI) simp
  obtain r1 where r1: "r1 \<le> r" "lo \<le> r1" "(if f then Inr cs else realign ?b ?al (trim_each (int k) cs)) = Inr (map (take r1) cs0)"
    "\<not> eagle \<longrightarrow> r1 = r" "f \<longrightarrow> r1 = r"
  proof (cases f)
    case True
    then show ?thesis using that [of r] full r(4) by (simp add: cs0_def)
  next
    case False
    obtain r1 where r1: "r1 \<le> r" "realign ?b ?al cs0 = Inr (map (take r1) cs0)"
      "?b = ?al \<or> int r * ?b mod ?al = 0 \<longrightarrow> r1 = r"
      using realign_take [OF b(2) window_blocks_ne [OF w0 s(2)] window_blocks_set [OF w0], of ?b] by auto
    have "r1 = r" if "\<not> eagle" using r(2) r1(1,3) that by (cases "r = 0") (auto simp: edge_ok_def)
    then show ?thesis using that [of r1] False r1 f(2) by (simp add: cs0_def)
  qed
  have w1: "window_blocks s gs ?hv (map (take r1) cs0) lo r1 r1" by (rule take [OF r1(2,1)])
  obtain r2 where r2: "(if eagle \<and> r1 \<noteq> 0 then and_then (pop_each (map (take r1) cs0)) (realign ?b ?al) else Inr (map (take r1) cs0)) =
      Inr (map (take r2) cs0)" "r2 \<le> r1" "a dvd r2" "lo \<le> r2 - win" "\<not> eagle \<longrightarrow> r2 = r"
  proof (cases "eagle \<and> r1 \<noteq> 0")
    case True
    have p: "pop_each (map (take r1) cs0) = Inr (map (take (r1 - 1)) cs0)"
      using pop_each_eq [OF window_blocks_set [OF w1]] True r1(1) window_blocks_set [OF w0] by (simp add: min_def)
    have l: "\<forall>c \<in> set (map (take (r1 - 1)) cs0). length c = r1 - 1" using window_blocks_set [OF w0] r1(1) by auto
    have ne: "map (take (r1 - 1)) cs0 \<noteq> []" using window_blocks_ne [OF w0 s(2)] by simp
    obtain r2 where r2: "r2 \<le> r1 - 1" "realign ?b ?al (map (take (r1 - 1)) cs0) = Inr (map (take r2) (map (take (r1 - 1)) cs0))"
      "?b = ?al \<or> int r2 * ?b mod ?al = 0" "?b = ?al \<or> int (r1 - 1) * ?b mod ?al = 0 \<longrightarrow> r2 = r1 - 1"
      by (rule exE [OF realign_take [OF b(2) ne l, of ?b]]) (elim conjE, rule that)
    have "map (take r2) (map (take (r1 - 1)) cs0) = map (take r2) cs0" using r2(1) by (simp add: min_def)
    moreover have "a dvd r2" using ok r2(3) by (simp add: edge_ok_def)
    moreover have "lo \<le> r2 - win"
    proof (cases f)
      case True
      then have "edge_ok ?b ?al False (r1 - 1)" using r(2) r1(5) \<open>eagle \<and> r1 \<noteq> 0\<close> edge_ok_eagle [of r1 ?b ?al] by auto
      then have "r2 = r1 - 1" using r2(4) by (simp add: edge_ok_def)
      then show ?thesis using True r1(5) r(4) \<open>eagle \<and> r1 \<noteq> 0\<close> by (simp add: need_def)
    qed (use f(2) in simp)
    ultimately show ?thesis using that [of r2] True p r2(1,2) by simp
  next
    case False
    have "a dvd r1"
      using False ok [of r] r(2) r1(4) by (cases "eagle") (auto intro: dvd_0_right)
    moreover have "lo \<le> r1 - win" using False r(4) r1(4,5) f(2) by (cases f) (auto simp: need_def)
    ultimately show ?thesis using that [of r1] False r1(4) by auto
  qed
  have "window_blocks s gs ?hv (map (take r2) cs0) lo r2 r2" using take [of r2] r2(2,4) r1(1) by simp
  moreover from this have "hit_blocks (map (take r2) cs0) = Inr (int r2)" by (rule window_blocks_len [OF _ s(2)])
  moreover have "hit_blocks (map (take r1) cs0) = Inr (int r1)" by (rule window_blocks_len [OF w1 s(2)])
  moreover from calculation have "swa_find_longest_cache_hit (RawHashes hs) (int ml) gs s spec eagle ?al 1 1 =
      Inr (map (take r2) cs0, int r2 * ?b)"
    unfolding swa_find_longest_cache_hit_def
    using spec b h(1) v(1) scan r1(3) r2(1)
    by (simp add: py_mod_def q cont Let_def del: of_nat_mult split del: if_split)
  moreover have "no_later_hit s gs ?hv (\<lambda>e. a dvd e) win n r2" if "\<not> eagle"
    using r(3) r2(5) that ok by (simp add: need_def no_later_hit_def)
  ultimately show ?thesis
    using r(1) r1(1) r2(2-4)
    by (intro exI [of _ "map (take r2) cs0"] exI [of _ r2]) (auto simp: swa_hit_ok_def intro!: exI [of _ lo])
qed

text \<open>
  Block \<open>i\<close> lies in the tail that a hit at the boundary after \<open>e\<close> blocks reads: the last \<open>need\<close> blocks, moved
  by one when the EAGLE block behind the boundary is read too.
\<close>

definition in_tail :: "int \<Rightarrow> int \<Rightarrow> int \<Rightarrow> int \<Rightarrow> bool" where
  "in_tail need shift e i \<longleftrightarrow> e + shift - need \<le> i \<and> i < e + shift"

lemma segment_tail:
  assumes need: "0 < need" "need < per" and shift: "0 \<le> (shift :: int)"
  shows "(i \<ge> shift \<and> (i - shift) mod per \<ge> per - need) \<longleftrightarrow> (\<exists>e > 0. per dvd e \<and> in_tail need shift e i)"
proof
  assume i: "i \<ge> shift \<and> (i - shift) mod per \<ge> per - need"
  let ?x = "i - shift" and ?e = "((i - shift) div per + 1) * per"
  have x: "?x = ?x div per * per + ?x mod per" by simp
  have e: "?e = ?x div per * per + per" by (simp add: algebra_simps)
  have b: "?x mod per < per" "0 \<le> ?x div per" using need i by (simp_all add: pos_imp_zdiv_nonneg_iff)
  have "in_tail need shift ?e i"
    unfolding in_tail_def using x b(1) i e by linarith
  moreover have "0 < ?e" using b(2) need by simp
  ultimately show "\<exists>e > 0. per dvd e \<and> in_tail need shift e i" by (intro exI [of _ ?e]) auto
next
  assume "\<exists>e > 0. per dvd e \<and> in_tail need shift e i"
  then obtain q where q: "0 < per * q" "in_tail need shift (per * q) i" by (auto elim: dvdE)
  have "0 < q" using q(1) need by (simp add: zero_less_mult_iff)
  have "(i - shift) div per = q - 1"
    by (rule int_div_pos_eq [of _ _ _ "i - shift - (q - 1) * per"]) (use q(2) need in \<open>auto simp: in_tail_def algebra_simps\<close>)
  moreover have "i - shift = (i - shift) div per * per + (i - shift) mod per" by simp
  ultimately have "(i - shift) mod per = i - shift - (q - 1) * per" by simp
  moreover have "per \<le> per * q" using \<open>0 < q\<close> need by simp
  moreover have "(q - 1) * per = per * q - per" by (simp add: algebra_simps)
  ultimately show "i \<ge> shift \<and> (i - shift) mod per \<ge> per - need"
    using q(2) need unfolding in_tail_def by linarith
qed

section \<open>Mamba and chunked local attention\<close>

lemma state_hit_some: "length x = length gs \<Longrightarrow>
  state_hit s gs (Some (i, x)) f t = (map (\<lambda>k. replicate (nat (f i)) (null_block s) @ [x ! k]) [0..<length gs], t i)"
  by (auto simp: state_hit_def intro!: nth_equalityI)

lemma mamba_hit_coarse:
  assumes s: "pool_inv s" "groups_valid gs" and h: "hash_block_size s = int h" "0 < h" "0 < c" "0 < a"
    and spec: "spec = MambaSpec m" "mamba_block_size m = int (c * h)" and len: "ml div h \<le> length hs"
  defines "n \<equiv> ml div (c * h)"
  shows "\<exists>blocks r. mamba_find_longest_cache_hit (RawHashes hs) (int ml) gs s spec eagle (int (a * (c * h))) 1 1 =
      Inr (blocks, int (r * (c * h))) \<and> r \<le> n \<and> a dvd r \<and> window_blocks s gs (block_hash_at hs c) blocks (r - 1) r r \<and>
    (\<forall>e. r < e \<and> e \<le> n \<and> a dvd e \<longrightarrow> \<not> cached_in s gs (block_hash_at hs c (e - 1)))"
proof -
  let ?b = "int (c * h)" and ?al = "int (a * (c * h))" and ?hv = "block_hash_at hs c"
  have b: "0 < ?b" "?al \<noteq> 0" using h by auto
  have "c * h \<le> a * (c * h)" using h(4) mult_le_mono1 [of 1 a "c * h"] by simp
  then have nf: "\<not> ?al < ?b" by (simp only: not_less of_nat_le_iff)
  obtain v where v: "resolve_block_hashes (RawHashes hs) (int h) ?b True (Some ?al) = Inr v"
    "\<forall>i < length hs div c. get_value_at v (int i) = Inr (?hv i)"
    using resolve_coarser [OF h(2,3), of hs "Some ?al"] resolve_not_fine [OF nf] by (auto simp: block_hash_at_def)
  have v': "\<forall>i < n. get_value_at v (int i) = Inr (?hv i)" using v(2) blocks_within [OF len, of c] by (auto simp: n_def)
  have fine: "is_fine_grained ?al ?b = Inr False" using nf by (simp add: is_fine_grained_def)
  have q: "int ml div ?b = int n" by (simp only: n_def zdiv_int)
  let ?ok = "\<lambda>i. if ?b = ?al then Inr True else and_then (py_mod ((i + 1) * ?b) ?al) (\<lambda>m. Inr (m = 0))"
  define P where "P i \<longleftrightarrow> found (get_cached_block (?hv (nat i)) gs s) \<noteq> None \<and> edge_ok ?b ?al False (Suc (nat i))" for i
  have Pi: "P (int t) \<longleftrightarrow> cached_in s gs (?hv t) \<and> a dvd Suc t" for t
    using found_cached(1) [OF s] edge_ok_units [OF h(2,3)] by (simp add: P_def del: not_None_eq of_nat_mult)
  have "first_hit (\<lambda>x. get_cached_block x gs s) ?ok v (rev (py_range 0 (int n))) =
    Inr (map_option (\<lambda>i. (i, the (found (get_cached_block (?hv (nat i)) gs s))))
      (find (\<lambda>i. found (get_cached_block (?hv (nat i)) gs s) \<noteq> None \<and> edge_ok ?b ?al False (Suc (nat i))) (rev (py_range 0 (int n)))))"
    by (rule pool_lookup.first_hit_eq [OF s])
       (use v' b in \<open>auto simp: edge_ok_def py_mod_def py_range_nat add.commute simp del: of_nat_mult\<close>)
  then have f: "first_hit (\<lambda>x. get_cached_block x gs s) ?ok v (rev (py_range 0 (int n))) =
    Inr (map_option (\<lambda>i. (i, the (found (get_cached_block (?hv (nat i)) gs s)))) (find P (rev (py_range 0 (int n)))))"
    by (simp only: P_def [abs_def])
  let ?r = "map_option (\<lambda>i. (i, the (found (get_cached_block (?hv (nat i)) gs s)))) (find P (rev (py_range 0 (int n))))"
  have e: "mamba_find_longest_cache_hit (RawHashes hs) (int ml) gs s spec eagle ?al 1 1 =
    Inr (state_hit s gs ?r (\<lambda>i. i) (\<lambda>i. (i + 1) * ?b))"
    unfolding mamba_find_longest_cache_hit_def
    using spec h(1) v(1) fine f b by (simp add: isinstance_def py_div_def q Let_def del: of_nat_mult)
  from find_rev_range [of P 0 n, simplified] show ?thesis
  proof (elim disjE exE conjE)
    assume "find P (rev (py_range 0 (int n))) = None" and none: "\<forall>t < n. \<not> P (int t)"
    then show ?thesis unfolding e using Pi
      by (intro exI [of _ "map (\<lambda>_. []) gs"] exI [of _ 0])
         (auto simp: state_hit_def window_blocks_def gr0_conv_Suc)
  next
    fix t assume t: "find P (rev (py_range 0 (int n))) = Some (int t)" "t < n" "P (int t)" "\<forall>u. t < u \<and> u < n \<longrightarrow> \<not> P (int u)"
    obtain x where x: "found (get_cached_block (?hv t) gs s) = Some x" using t(3) by (auto simp: P_def)
    have l: "length x = length gs" by (rule pool_lookup.found_len [OF s x])
    have "window_blocks s gs ?hv (map (\<lambda>k. replicate t (null_block s) @ [x ! k]) [0..<length gs]) t (Suc t) (Suc t)"
      using found_cached(2) [OF s _ x] by (auto simp: window_blocks_def nth_append le_less_Suc_eq)
    moreover have "\<not> cached_in s gs (?hv (e - 1))" if "Suc t < e \<and> e \<le> n \<and> a dvd e" for e
      using t(4) that Pi by (cases e) auto
    moreover have "state_hit s gs (Some (int t, x)) (\<lambda>i. i) (\<lambda>i. (i + 1) * ?b) =
      (map (\<lambda>k. replicate t (null_block s) @ [x ! k]) [0..<length gs], int (Suc t * (c * h)))"
      using state_hit_some [OF l] by (simp add: algebra_simps)
    ultimately show ?thesis unfolding e using t x Pi
      by (intro exI [of _ "map (\<lambda>k. replicate t (null_block s) @ [x ! k]) [0..<length gs]"] exI [of _ "Suc t"]) auto
  qed
qed

section \<open>A small cache\<close>

text \<open>Three cached blocks of two tokens, for the concrete instances.\<close>

definition three_hashes :: "bytes list" where
  "three_hashes = [[9], [8], [7]]"

definition hit_pool :: block_pool where
  "hit_pool = (case cache_full_blocks id False (text_request [1, 2, 3, 4, 5, 6] three_hashes) (map Blk [1, 2, 3]) (int 0) (int 3)
     2 0 None small_pool of Inr (_, s) \<Rightarrow> s | Inl _ \<Rightarrow> small_pool)"

lemma hit_pool:
  shows "pool_inv hit_pool" and "hash_block_size hit_pool = 2" and "num_gpu_blocks hit_pool = 4"
    and "\<forall>i < 3. cached_in hit_pool [0] (three_hashes ! i)" and "null_block hit_pool = Blk 0"
proof -
  let ?r = "text_request [1, 2, 3, 4, 5, 6] three_hashes"
  have v: "resolve_block_hashes (RawHashes (block_hashes ?r)) (hash_block_size small_pool) 2 False None = Inr (RawHashes three_hashes)"
    by (simp add: resolve_block_hashes_def small_pool(5))
  have sl: "view_slice_from (RawHashes three_hashes) (int 0) = Inr three_hashes"
    by (simp add: view_slice_from_def slice_bound_def py_index_def three_hashes_def upto_rec1)
  have new: "int j < num_gpu_blocks small_pool \<and> owned small_pool j = {}" if "j \<in> set (drop 0 (take 3 [1, 2, 3]))" for j
    using that small_pool(4,7) by auto
  have "\<exists>s'. cache_full_blocks id False ?r (map Blk [1, 2, 3]) (int 0) (int 3) 2 0 None small_pool = Inr (?r, s') \<and>
    pool_inv s' \<and> same_refs small_pool s' \<and> (\<forall>j. j \<notin> set (drop 0 (take 3 [1, 2, 3])) \<longrightarrow> owned s' j = owned small_pool j) \<and>
    (\<forall>k. 0 \<le> k \<and> k < 3 \<and> [1, 2, 3 :: nat] ! k \<noteq> 0 \<and> \<not> masked_out None (k - 0) \<longrightarrow>
       group_key (three_hashes ! (k - 0)) 0 \<in> owned s' ([1, 2, 3] ! k))"
    by (rule cache_full_blocks_fresh [OF small_pool(2,8) _ _ v sl]) (use new in \<open>auto simp: three_hashes_def\<close>)
  then obtain s where s: "cache_full_blocks id False ?r (map Blk [1, 2, 3]) (int 0) (int 3) 2 0 None small_pool = Inr (?r, s)"
    "pool_inv s" "same_refs small_pool s" "\<forall>k. 0 \<le> k \<and> k < 3 \<and> [1, 2, 3 :: nat] ! k \<noteq> 0 \<and> \<not> masked_out None (k - 0) \<longrightarrow>
       group_key (three_hashes ! (k - 0)) 0 \<in> owned s ([1, 2, 3 :: nat] ! k)"
    by (elim exE conjE) (rule that)
  have e: "hit_pool = s" using s(1) by (simp add: hit_pool_def)
  have "[1, 2, 3 :: nat] ! k \<noteq> 0" if "k < 3" for k using that by (auto simp: less_Suc_eq numeral_3_eq_3)
  then have "group_key (three_hashes ! k) 0 \<in> owned s ([1, 2, 3] ! k)" if "k < 3" for k
    using s(4) that by (auto simp: masked_out_def)
  then show "\<forall>i < 3. cached_in hit_pool [0] (three_hashes ! i)" unfolding e by (auto simp: cached_in_def)
  show "pool_inv hit_pool" using s(2) e by simp
  show "hash_block_size hit_pool = 2" "num_gpu_blocks hit_pool = 4"
    using s(3) small_pool(4,5) e by (simp_all add: same_refs_def same_links_def same_config_def)
  show "null_block hit_pool = Blk 0" using s(2) e by (simp add: pool_inv_def free_inv_def)
qed

definition small_attention :: AttentionSpec where
  "small_attention = plain_attention\<lparr>att_block_size := 2\<rparr>"

definition small_full :: "int \<Rightarrow> KVCacheSpec" where
  "small_full bs = FullAttentionSpec (plain_attention\<lparr>att_block_size := bs\<rparr>)
     \<lparr>full_sliding_window = None, full_attention_chunk_size = None, non_causal = False\<rparr>"

lemma small_full [simp]: "isinstance (small_full bs) cls_FullAttentionSpec" "spec_block_size (small_full bs) = bs"
  by (simp_all add: small_full_def isinstance_def)

lemma groups_valid_0 [simp]: "groups_valid [0]"
  by (simp add: groups_valid_def)

lemma three_run: "n \<le> 3 \<Longrightarrow> cached_run hit_pool [0] three_hashes 1 n = n"
  using hit_pool(4) by (simp add: cached_run_def block_hash_at_def takeWhile_eq_all_conv [THEN iffD2])

section \<open>Properties\<close>

text \<open>
  C12.  Full attention, whole blocks.  The lookup never fails and returns the longest cached run of blocks from
  the start within \<open>max_length\<close>, less one block when EAGLE drops it, cut to the alignment: every returned
  block of every group carries the hash of its position, and the run could not be longer.
\<close>

theorem full_hit_longest:
  assumes "pool_inv s" and "groups_valid gs" and "hash_block_size s = int h" and "0 < h" and "0 < c" and "0 < a"
    and "isinstance spec cls_FullAttentionSpec" and "spec_block_size spec = int (c * h)" and "ml div h \<le> length hs"
  shows "\<exists>blocks run n. full_find_longest_cache_hit (RawHashes hs) (int ml) gs s spec eagle (int (a * (c * h))) 1 =
      Inr (blocks, int (n * (c * h))) \<and> n = (if eagle then run - 1 else run) div a * a \<and>
    (\<forall>i < run. cached_in s gs (block_hash_at hs c i)) \<and> run \<le> ml div (c * h) \<and>
    (run < ml div (c * h) \<longrightarrow> \<not> cached_in s gs (block_hash_at hs c run)) \<and> length blocks = length gs \<and>
    (\<forall>k < length gs. length (blocks ! k) = n \<and>
       (\<forall>i < n. carries s (blocks ! k ! i) (block_hash_at hs c i) (gs ! k)))"
proof -
  let ?run = "cached_run s gs hs c (ml div (c * h))"
  obtain blocks where "full_find_longest_cache_hit (RawHashes hs) (int ml) gs s spec eagle (int (a * (c * h))) 1 =
      Inr (blocks, int ((if eagle then ?run - 1 else ?run) div a * a * (c * h)))" "length blocks = length gs"
    "\<forall>k < length gs. length (blocks ! k) = (if eagle then ?run - 1 else ?run) div a * a \<and>
       (\<forall>i < (if eagle then ?run - 1 else ?run) div a * a. carries s (blocks ! k ! i) (block_hash_at hs c i) (gs ! k))"
    using full_hit_coarse [OF assms, of eagle] by auto
  then show ?thesis
    using cached_run_hit [of _ s gs hs c] cached_run_stop [of s gs hs c] cached_run_le [of s gs hs c]
    by (intro exI [of _ blocks] exI [of _ ?run] exI [of _ "(if eagle then ?run - 1 else ?run) div a * a"]) simp
qed

theorem full_hit_longest_witness:
  "\<exists>blocks. full_find_longest_cache_hit (RawHashes three_hashes) 6 [0] hit_pool (small_full 2) False 4 1 = Inr ([blocks], 4) \<and>
     length blocks = 2"
proof -
  have l: "6 div 2 \<le> length three_hashes" by (simp add: three_hashes_def)
  from full_hit_longest [OF hit_pool(1) groups_valid_0 _ _ _ _ _ _ l, of 1 2 "small_full 2" False]
  obtain blocks run n where b: "full_find_longest_cache_hit (RawHashes three_hashes) 6 [0] hit_pool (small_full 2) False 4 1 = Inr (blocks, int (n * 2))"
    "n = run div 2 * 2" "run \<le> 3" "run < 3 \<longrightarrow> \<not> cached_in hit_pool [0] (block_hash_at three_hashes 1 run)"
    "length blocks = 1" "length (blocks ! 0) = n"
    by (auto simp: hit_pool(2))
  have "run = 3" using b(3,4) hit_pool(4) by (cases "run < 3") (auto simp: block_hash_at_def)
  with b show ?thesis by (cases blocks) auto
qed

text \<open>
  C22.  Full attention, hits inside a block.  With \<open>c\<close> hash units per block and alignment at the hash unit, the lookup finds the longest run of
  cached full blocks within \<open>max_length\<close>, and extends it to the last cached unit boundary of the next block, less one unit under EAGLE.
  The run could not be longer, and no later unit boundary of the next block is cached.  Full blocks carry the hash of their position,
  and a block that the hit ends inside carries the hash of a boundary at or behind the end, in the same block.
\<close>

theorem full_partial_hit_sound:
  assumes "pool_inv s" and "groups_valid gs" and "hash_block_size s = int h" and "0 < h" and "1 < c"
    and "isinstance spec cls_FullAttentionSpec" and "spec_block_size spec = int (c * h)" and "ml div h \<le> length hs"
  shows "\<exists>blocks run u u0. full_find_longest_cache_hit (RawHashes hs) (int ml) gs s spec eagle (int h) 1 =
      Inr (blocks, int (u * h)) \<and> u = (if eagle then u0 - 1 else u0) \<and> u0 * h \<le> ml \<and> length blocks = length gs \<and>
    (\<forall>i < run. cached_in s gs (block_hash_at hs c i)) \<and> run \<le> ml div (c * h) \<and>
    (run < ml div (c * h) \<longrightarrow> \<not> cached_in s gs (block_hash_at hs c run)) \<and>
    run * c \<le> u0 \<and> u0 < Suc run * c \<and> (run * c < u0 \<longrightarrow> cached_in s gs (hs ! (u0 - 1))) \<and>
    (\<forall>t. u0 \<le> t \<and> t < Suc run * c \<and> t < ml div h \<longrightarrow> \<not> cached_in s gs (hs ! t)) \<and>
    (\<forall>k < length gs. length (blocks ! k) = (u + c - 1) div c \<and>
       (\<forall>i < u div c. carries s (blocks ! k ! i) (block_hash_at hs c i) (gs ! k)) \<and>
       (u mod c \<noteq> 0 \<longrightarrow> (\<exists>t. u \<le> Suc t \<and> t div c = u div c \<and> carries s (blocks ! k ! (u div c)) (hs ! t) (gs ! k))))"
proof -
  define run where "run = cached_run s gs hs c (ml div (c * h))"
  note run = cached_run_hit [of _ s gs hs c "ml div (c * h)", folded run_def] cached_run_stop [of s gs hs c "ml div (c * h)", folded run_def]
    cached_run_le [of s gs hs c "ml div (c * h)", folded run_def]
  obtain blocks u u0 where b: "full_find_longest_cache_hit (RawHashes hs) (int ml) gs s spec eagle (int h) 1 =
      Inr (blocks, int (u * h))" "u = (if eagle then u0 - 1 else u0)" "length blocks = length gs"
    and u0: "run * c \<le> u0" "u0 = run * c \<or> u0 \<le> probe_end run c (ml div h) hs \<and> cached_in s gs (hs ! (u0 - 1))"
    and nl: "\<forall>t. u0 \<le> t \<and> t < probe_end run c (ml div h) hs \<longrightarrow> \<not> cached_in s gs (hs ! t)"
    and k: "\<forall>k < length gs. length (blocks ! k) = (u + c - 1) div c \<and>
       (\<forall>i < u div c. carries s (blocks ! k ! i) (block_hash_at hs c i) (gs ! k)) \<and>
       (u mod c \<noteq> 0 \<longrightarrow> (\<exists>t. u \<le> Suc t \<and> t div c = u div c \<and> carries s (blocks ! k ! (u div c)) (hs ! t) (gs ! k)))"
    using full_hit_fine [OF assms, of eagle, folded run_def] by blast
  have lt: "u0 < Suc run * c" using u0(2) assms(5) by (auto simp: probe_end_def)
  have cut: "run * c * h \<le> ml"
    using le_trans [OF mult_le_mono1 [OF run(3)] div_times_less_eq_dividend] by (simp only: mult.assoc)
  moreover have "u0 * h \<le> ml" if "u0 \<le> ml div h"
    using mult_le_mono1 [OF that, of h] div_times_less_eq_dividend [of ml h] by linarith
  ultimately have ml: "u0 * h \<le> ml" using u0(2) by (auto simp: probe_end_def)
  have after: "\<not> cached_in s gs (hs ! t)" if t: "u0 \<le> t" "t < Suc run * c" "t < ml div h" for t
  proof (cases "t < run * c + c - 1")
    case True
    then show ?thesis using nl t assms(8) by (simp add: probe_end_def)
  next
    case False
    then have e: "t = Suc run * c - 1" using t(2) by simp
    then have "Suc run * c \<le> ml div h" using t(3) by linarith
    then have "Suc run \<le> ml div h div c" using assms(5) by (simp add: less_eq_div_iff_mult_less_eq)
    then have "run < ml div (h * c)" by (simp add: div_mult2_eq)
    then have "run < ml div (c * h)" by (simp only: mult.commute)
    then show ?thesis using run(2) e by (simp add: block_hash_at_def)
  qed
  have hit: "run * c < u0 \<longrightarrow> cached_in s gs (hs ! (u0 - 1))" using u0(2) by auto
  have "\<forall>i < run. cached_in s gs (block_hash_at hs c i)" "run < ml div (c * h) \<longrightarrow> \<not> cached_in s gs (block_hash_at hs c run)"
    "\<forall>t. u0 \<le> t \<and> t < Suc run * c \<and> t < ml div h \<longrightarrow> \<not> cached_in s gs (hs ! t)" using run(1,2) after by blast+
  then show ?thesis
    using b ml u0(1) lt hit k run(3)
    by - (rule exI [of _ blocks], rule exI [of _ run], rule exI [of _ u], rule exI [of _ u0], intro conjI, assumption+)
qed

theorem full_partial_hit_sound_witness:
  "\<exists>blocks. full_find_longest_cache_hit (RawHashes three_hashes) 6 [0] hit_pool (small_full 4) False 2 1 = Inr ([blocks], 6) \<and> length blocks = 2"
proof -
  have l: "6 div 2 \<le> length three_hashes" by (simp add: three_hashes_def)
  obtain blocks run u where b: "full_find_longest_cache_hit (RawHashes three_hashes) 6 [0] hit_pool (small_full 4) False 2 1 = Inr (blocks, int (u * 2))"
    "u \<le> 3" "run \<le> 1" "run < 1 \<longrightarrow> \<not> cached_in hit_pool [0] (block_hash_at three_hashes 2 run)" "length blocks = 1" "run * 2 \<le> u"
    "\<forall>t. u \<le> t \<and> t < Suc run * 2 \<and> t < 3 \<longrightarrow> \<not> cached_in hit_pool [0] (three_hashes ! t)" "length (blocks ! 0) = Suc u div 2"
    using full_partial_hit_sound [OF hit_pool(1) groups_valid_0 _ _ _ _ _ l, of 2 "small_full 4" False] hit_pool(2)
    by (auto simp: small_full_def isinstance_def)
  have "run = 1" using b(3,4) hit_pool(4) by (cases "run < 1") (auto simp: block_hash_at_def)
  then have "u = 3" using b(2,6,7) hit_pool(4) by (cases "u < 3") (auto dest: spec [of _ 2])
  with b show ?thesis by (cases blocks) auto
qed

text \<open>
  C13.  Sliding window.  The lookup never fails.  It returns an aligned length of \<open>r\<close> blocks whose window, the
  last \<open>win\<close> blocks, is cached in every group, with null blocks in front of it; without EAGLE no longer
  aligned length within \<open>max_length\<close> has a cached window.
\<close>

theorem swa_hit_longest:
  assumes "pool_inv s" and "groups_valid gs" and "hash_block_size s = int h" and "0 < h" and "0 < c" and "0 < a"
    and "get_kv_cache_spec_sliding_window spec = Some w" and "isinstance spec cls_SlidingWindowSpec"
    and "spec_block_size spec = int (c * h)" and "ml div h \<le> length hs" and "2 \<le> w"
  shows "\<exists>blocks r. swa_find_longest_cache_hit (RawHashes hs) (int ml) gs s spec eagle (int (a * (c * h))) 1 1 =
      Inr (blocks, int (r * (c * h))) \<and>
    swa_hit_ok s gs (block_hash_at hs c) a (nat (cdiv (w - 1) (int (c * h)))) (ml div (c * h)) blocks r \<and>
    (\<not> eagle \<longrightarrow> no_later_hit s gs (block_hash_at hs c) (\<lambda>e. a dvd e) (nat (cdiv (w - 1) (int (c * h)))) (ml div (c * h)) r)"
  using swa_hit_core [OF assms] .

definition small_swa :: "int \<Rightarrow> KVCacheSpec" where
  "small_swa w = SlidingWindowSpec small_attention w 0"

lemma small_swa [simp]: "get_kv_cache_spec_sliding_window (small_swa w) = Some w"
  "isinstance (small_swa w) cls_SlidingWindowSpec" "spec_block_size (small_swa w) = 2"
  by (simp_all add: small_swa_def isinstance_def small_attention_def)

theorem swa_hit_longest_witness:
  "\<exists>blocks. swa_find_longest_cache_hit (RawHashes three_hashes) 6 [0] hit_pool (small_swa 3) False 2 1 1 = Inr (blocks, 6)"
proof -
  have l: "6 div 2 \<le> length three_hashes" by (simp add: three_hashes_def)
  obtain blocks r where r: "swa_find_longest_cache_hit (RawHashes three_hashes) 6 [0] hit_pool (small_swa 3) False 2 1 1 =
      Inr (blocks, int (r * 2))" "r \<le> 3"
    and nl: "no_later_hit hit_pool [0] (block_hash_at three_hashes 1) (\<lambda>e. 1 dvd e) (nat (cdiv (3 - 1) 2)) 3 r"
    using swa_hit_longest [OF hit_pool(1) groups_valid_0 _ _ _ _ _ _ _ l, of 1 1 "small_swa 3" 3 False] hit_pool(2)
    by (auto simp: swa_hit_ok_def)
  have "cached_in hit_pool [0] (block_hash_at three_hashes 1 j)" if "j < 3" for j
    using hit_pool(4) that by (simp add: block_hash_at_def)
  then have "r = 3" using nl r(2) by (cases "r < 3") (auto simp: no_later_hit_def dest: spec [of _ 3])
  with r show ?thesis by auto
qed

text \<open>
  C14.  The sliding window cache keeps exactly the blocks a later hit can read.  Under the dense policy a block is
  kept exactly when it lies in the tail that a hit at some aligned boundary reads (all blocks, when the tail
  is as long as the segment); a sparse policy keeps the tails of its coarser segments and those of the
  requested boundaries.
\<close>

theorem swa_mask_exact:
  fixes bs al w :: int and ri :: "int option" and eagle :: bool
  assumes "get_kv_cache_spec_sliding_window spec = Some w" and "isinstance spec cls_SlidingWindowSpec"
    and "spec_block_size spec = bs" and "0 < bs" and "0 < al" and "bs dvd al" and "2 \<le> w"
  defines "need \<equiv> contiguous_blocks_for_hit w bs eagle" and "shift \<equiv> (if eagle then 1 else 0 :: int)"
    and "seg \<equiv> (case ri of None \<Rightarrow> Some (al div bs) | Some k \<Rightarrow> if k = 0 then None else Some (k div bs))"
  shows "\<exists>m. swa_reachable_block_mask st en (Some al) spec eagle ri bd = Inr m \<and>
    (m = None \<longleftrightarrow> (\<exists>per. seg = Some per \<and> per \<le> need)) \<and>
    (\<forall>marks. m = Some marks \<longrightarrow> int (length marks) = max 0 (en - st) \<and>
       (\<forall>i. st \<le> i \<and> i < en \<longrightarrow>
         (marks ! nat (i - st) \<longleftrightarrow>
            (\<exists>per e. seg = Some per \<and> 0 < e \<and> per dvd e \<and> in_tail need shift e i) \<or>
            ri \<noteq> None \<and> (\<exists>t \<in> set bd. in_tail need shift (t div al * al div bs) i))))"
proof -
  have mod: "al mod bs = 0" using assms(6) by simp
  have need: "0 < need"
  proof -
    have "0 < cdiv (w - 1) bs" using cdiv_le_iff [OF assms(4), of "w - 1" 0] assms(7) by auto
    then show ?thesis by (auto simp: need_def contiguous_blocks_for_hit_def Let_def)
  qed
  define toks where "toks = (case ri of None \<Rightarrow> Some al | Some k \<Rightarrow> if k = 0 then None else Some k)"
  have seg: "seg = map_option (\<lambda>t. t div bs) toks" by (auto simp: seg_def toks_def split: option.splits)
  define mark where "mark i \<longleftrightarrow> (case toks of None \<Rightarrow> False
      | Some t \<Rightarrow> i \<ge> shift \<and> (i - shift) mod (t div bs) \<ge> t div bs - need) \<or>
    (ri \<noteq> None \<and> list_ex (\<lambda>t. in_tail need shift (t div al * al div bs) i) bd)" for i
  have e: "swa_reachable_block_mask st en (Some al) spec eagle ri bd =
    (case toks of Some t \<Rightarrow> if need \<ge> t div bs then Inr None else Inr (Some (map mark (py_range st en)))
     | None \<Rightarrow> Inr (Some (map mark (py_range st en))))"
    using assms(1-5) mod
    by (auto simp: swa_reachable_block_mask_def py_mod_def Let_def need_def shift_def mark_def toks_def in_tail_def
      split: option.splits)
  have mk: "mark i \<longleftrightarrow> (\<exists>per e. seg = Some per \<and> 0 < e \<and> per dvd e \<and> in_tail need shift e i) \<or>
            ri \<noteq> None \<and> (\<exists>t \<in> set bd. in_tail need shift (t div al * al div bs) i)"
    if "\<not> (\<exists>per. seg = Some per \<and> per \<le> need)" for i
  proof (cases toks)
    case (Some t)
    have "need < t div bs" using that Some by (simp add: seg)
    then show ?thesis
      using segment_tail [OF need, of "t div bs" shift i] Some
      by (auto simp: mark_def seg list_ex_iff shift_def)
  qed (simp add: mark_def seg list_ex_iff)
  have nth: "map mark (py_range st en) ! nat (i - st) = mark i" if "st \<le> i" "i < en" for i
    using that by (simp add: nth_upto)
  show ?thesis
  proof (cases "\<exists>per. seg = Some per \<and> per \<le> need")
    case True
    then show ?thesis using e by (auto simp: seg)
  next
    case False
    then have "swa_reachable_block_mask st en (Some al) spec eagle ri bd = Inr (Some (map mark (py_range st en)))"
      using e by (auto simp: seg split: option.splits)
    then show ?thesis using mk [OF False] nth False by auto
  qed
qed

theorem swa_mask_exact_witness:
  "\<exists>marks. swa_reachable_block_mask 0 4 (Some 8) (small_swa 3) False None [] = Inr (Some marks) \<and> marks ! 3 \<and> \<not> marks ! 0"
proof -
  have n: "contiguous_blocks_for_hit 3 2 False = 1" by (simp add: contiguous_blocks_for_hit_def cdiv_def)
  obtain m where m: "swa_reachable_block_mask 0 4 (Some 8) (small_swa 3) False None [] = Inr m"
    "m = None \<longleftrightarrow> (4 :: int) \<le> 1"
    "\<forall>marks. m = Some marks \<longrightarrow> (\<forall>i. 0 \<le> i \<and> i < 4 \<longrightarrow> (marks ! nat i \<longleftrightarrow> (\<exists>e. 0 < e \<and> 4 dvd e \<and> in_tail 1 0 e i)))"
    using swa_mask_exact [where spec = "small_swa 3" and w = 3 and bs = 2 and al = 8 and eagle = False and ri = None
      and st = 0 and en = 4 and bd = "[]"] by (auto simp: n)
  then obtain marks where k: "m = Some marks" by auto
  have "marks ! nat 3 \<longleftrightarrow> (\<exists>e > 0. 4 dvd e \<and> in_tail 1 0 e 3)"
    using m(3) k by (auto dest: spec [of _ "3 :: int"])
  then have "marks ! nat 3" by (simp only:) (intro exI [of _ 4], simp add: in_tail_def)
  moreover have "\<not> marks ! nat 0"
  proof -
    have "\<not> in_tail 1 0 e 0" if "0 < e" "4 dvd e" for e using that zdvd_imp_le [of 4 e] by (auto simp: in_tail_def)
    then show ?thesis using m(3) k by force
  qed
  ultimately show ?thesis using m(1) k by auto
qed

text \<open>
  C23.  Mamba.  The lookup never fails and returns the latest aligned cached state within \<open>max_length\<close>: a list
  of null blocks closed by the one block per group that carries the state's hash, or no block when no aligned
  state is cached.
\<close>

theorem mamba_hit_latest:
  assumes "pool_inv s" and "groups_valid gs" and "hash_block_size s = int h" and "0 < h" and "0 < c" and "0 < a"
    and "spec = MambaSpec m" and "mamba_block_size m = int (c * h)" and "ml div h \<le> length hs"
  shows "\<exists>blocks r. mamba_find_longest_cache_hit (RawHashes hs) (int ml) gs s spec eagle (int (a * (c * h))) 1 1 =
      Inr (blocks, int (r * (c * h))) \<and> r \<le> ml div (c * h) \<and> a dvd r \<and>
    window_blocks s gs (block_hash_at hs c) blocks (r - 1) r r \<and>
    (\<forall>e. r < e \<and> e \<le> ml div (c * h) \<and> a dvd e \<longrightarrow> \<not> cached_in s gs (block_hash_at hs c (e - 1)))"
  by (rule mamba_hit_coarse [OF assms])

definition small_mamba :: "string \<Rightarrow> MambaFields" where
  "small_mamba mode = \<lparr>mamba_block_size = 2, shapes = [], dtypes = [], mamba_page_size_padded = None, mamba_type = ''mamba2'',
     mamba_cache_mode = mode, num_speculative_blocks = 0, num_prefill_checkpoint_blocks = 0\<rparr>"

theorem mamba_hit_latest_witness:
  "\<exists>b. mamba_find_longest_cache_hit (RawHashes three_hashes) 6 [0] hit_pool (MambaSpec (small_mamba ''all'')) False 2 1 1 =
     Inr ([[Blk 0, Blk 0, b]], 6)"
proof -
  have l: "6 div 2 \<le> length three_hashes" by (simp add: three_hashes_def)
  obtain blocks r where r: "mamba_find_longest_cache_hit (RawHashes three_hashes) 6 [0] hit_pool (MambaSpec (small_mamba ''all'')) False 2 1 1 =
      Inr (blocks, int (r * 2))" "r \<le> 3" "window_blocks hit_pool [0] (block_hash_at three_hashes 1) blocks (r - 1) r r"
    "\<forall>e. r < e \<and> e \<le> 3 \<longrightarrow> \<not> cached_in hit_pool [0] (block_hash_at three_hashes 1 (e - 1))"
    using mamba_hit_latest [OF hit_pool(1) groups_valid_0 _ _ _ _ refl _ l, of 1 1 "small_mamba ''all''" False] hit_pool(2)
    by (auto simp: small_mamba_def)
  have r3: "r = 3" using r(2,4) hit_pool(4) by (cases "r < 3") (auto simp: block_hash_at_def dest: spec [of _ 3])
  then obtain bs where "blocks = [bs]" "length bs = 3" "\<forall>j < 2. bs ! j = Blk 0"
    using r(3) hit_pool(5) by (cases blocks) (auto simp: window_blocks_def)
  then have "\<exists>b. blocks = [[Blk 0, Blk 0, b]]"
    by (cases bs; cases "tl bs"; cases "tl (tl bs)") (auto simp: numeral_2_eq_2 numeral_3_eq_3 less_Suc_eq)
  then show ?thesis using r(1) r3 by auto
qed

text \<open>
  C35.  A short prefix is lost under EAGLE when the alignment exceeds the block size.  Three cached blocks of two
  tokens, alignment 4: without EAGLE the hit is the aligned 4 tokens; with EAGLE, which needs only the third
  block besides, the code aligns, drops a block and aligns again, and returns no hit.
\<close>

theorem swa_eagle_loses_short_prefix:
  "\<exists>b. swa_find_longest_cache_hit (RawHashes three_hashes) 6 [0] hit_pool (small_swa 20) False 4 1 1 = Inr ([b], 4) \<and>
     swa_find_longest_cache_hit (RawHashes three_hashes) 6 [0] hit_pool (small_swa 20) True 4 1 1 = Inr ([[]], 0)"
proof -
  have "\<exists>x. get_cached_block h [0] hit_pool = Inr (Some [x])" if c: "cached_in hit_pool [0] h" for h
  proof -
    obtain bs where bs: "found (get_cached_block h [0] hit_pool) = Some bs"
      using c found_cached(1) [OF hit_pool(1) groups_valid_0, of h] by blast
    then have "length bs = 1" using pool_lookup.found_len [OF hit_pool(1) groups_valid_0 bs] by simp
    then show ?thesis
      using bs pool_lookup.get_found [OF hit_pool(1) groups_valid_0, of h] by (cases bs) auto
  qed
  moreover have "cached_in hit_pool [0] [9]" "cached_in hit_pool [0] [8]" "cached_in hit_pool [0] [7]"
    using hit_pool(4) by (auto simp: three_hashes_def dest: spec [of _ 0] spec [of _ 1] spec [of _ 2])
  ultimately obtain x y z where g: "get_cached_block [9] [0] hit_pool = Inr (Some [x])"
    "get_cached_block [8] [0] hit_pool = Inr (Some [y])" "get_cached_block [7] [0] hit_pool = Inr (Some [z])" by metis
  have idx: "rev [0..2] = [2, 1, 0 :: int]" by (simp add: upto_rec1)
  note d = g truthy_def py_index_def set_each_def py_mod_def numeral_2_eq_2
  have f: "swa_scan (\<lambda>h. get_cached_block h [0] hit_pool) (RawHashes [[9], [8], [7]]) 2 4 False 10 [2, 1, 0] [[Blk 0, Blk 0, Blk 0]] 0 =
      Inr ([[x, y, Blk 0]], 2, False)" by (simp add: d)
  have t: "swa_scan (\<lambda>h. get_cached_block h [0] hit_pool) (RawHashes [[9], [8], [7]]) 2 4 True 11 [2, 1, 0] [[Blk 0, Blk 0, Blk 0]] 0 =
      Inr ([[x, y, z]], 3, False)" by (simp add: d)
  have r: "realign 2 4 [[]] = Inr [[] :: block_ref list]" "realign 2 4 [[x, y]] = Inr [[x, y]]"
    by (subst realign.simps, simp)+
  have r1: "realign 2 4 [[x]] = Inr [[]]" "realign 2 4 [[x, y, z]] = Inr [[x, y]]"
    by (subst realign.simps, simp add: r)+
  have three: "[Blk 0, Blk 0, Blk 0] = replicate 3 (Blk 0)" by (simp add: numeral_3_eq_3)
  have c: "contiguous_blocks_for_hit 20 2 False = 10" "contiguous_blocks_for_hit 20 2 True = 11"
    by (simp_all add: contiguous_blocks_for_hit_def cdiv_def)
  note e = swa_find_longest_cache_hit_def py_mod_def resolve_block_hashes_def hit_pool(2,5) three_hashes_def idx c
    three [symmetric] trim_each_def slice_bound_def hit_blocks_def pop_each_def py_index_def
  have "swa_find_longest_cache_hit (RawHashes three_hashes) 6 [0] hit_pool (small_swa 20) False 4 1 1 = Inr ([[x, y]], 4)"
    by (simp add: e f r Let_def del: swa_scan.simps)
  moreover have "swa_find_longest_cache_hit (RawHashes three_hashes) 6 [0] hit_pool (small_swa 20) True 4 1 1 = Inr ([[]], 0)"
    by (simp add: e t r r1 Let_def del: swa_scan.simps)
  ultimately show ?thesis by blast
qed

end
