(* ===== verification/Single_Type_Manager.thy ===== *)
theory Single_Type_Manager
  imports Cache_Hit
begin

text \<open>
  The per-group block managers (\<^verbatim>\<open>vllm/v1/core/single_type_kv_cache_manager.py\<close>): one manager per KV cache group
  keeps the block table of every request and allocates, caches and frees its blocks in the shared pool.

  A manager is a record; a method takes the manager and the pool and returns both updated.  A method that a subclass
  overrides dispatches on the class of the manager.  The fields after \<open>pending_partial_tail_offloads\<close> belong to the
  subclasses: the window sizes, the Mamba state and the sink blocks.  \<^verbatim>\<open>req_to_blocks\<close> is a \<^verbatim>\<open>defaultdict\<close>: reading a
  missing key inserts the empty list (\<open>open_req\<close>), which \<^verbatim>\<open>len(self.req_to_blocks)\<close> then counts.  Block sizes are
  positive: the configuration rejects others.
\<close>

section \<open>State\<close>

record manager =
  mgr_class :: manager_class
  mgr_spec :: KVCacheSpec
  mgr_block_size :: int
  mgr_scheduler_block_size :: int
  mgr_caching :: bool
  max_admission_blocks_per_request :: "int option"
  records_new_block_ids :: bool
  new_block_ids :: "int list"
  req_to_blocks :: "(string, block_ref list) dict"
  num_cached_block :: "(string, int) dict"
  kv_cache_group_id :: int
  mgr_null_block :: block_ref
  mgr_use_eagle :: bool
  partial_hit_reqs :: "(string, int \<times> block_ref) dict"
  pending_cow_copies :: "(block_ref \<times> block_ref) list"
  pending_partial_tail_offloads :: "(string \<times> int \<times> block_ref \<times> int) list"
  mgr_sliding_window :: int
  mgr_extra_retained_tokens :: int
  mgr_attention_chunk_size :: int
  mgr_rswa_window :: int
  mgr_mamba_cache_mode :: string
  mgr_num_speculative_blocks :: int
  cached_blocks_this_step :: "bytes list"
  last_state_block_idx :: "(string, int) dict"
  allocated_block_reqs :: "string list"
  num_checkpoint_blocks :: "(string, int) dict"
  producer_partial_tail_reqs :: "(string, int) dict"
  sink_blocks :: "block_ref list"

definition req_blocks :: "manager \<Rightarrow> string \<Rightarrow> block_ref list" where
  "req_blocks m rid = (case dict_get (req_to_blocks m) rid of None \<Rightarrow> [] | Some bl \<Rightarrow> bl)"

definition put_blocks :: "string \<Rightarrow> block_ref list \<Rightarrow> manager \<Rightarrow> manager" where
  "put_blocks rid bl m = m\<lparr>req_to_blocks := dict_set rid bl (req_to_blocks m)\<rparr>"

definition open_req :: "string \<Rightarrow> manager \<Rightarrow> manager" where
  "open_req rid m = (if dict_get (req_to_blocks m) rid = None then put_blocks rid [] m else m)"

section \<open>Construction\<close>

definition base_manager_init ::
    "manager_class \<Rightarrow> KVCacheSpec \<Rightarrow> block_pool \<Rightarrow> bool \<Rightarrow> int \<Rightarrow> int \<Rightarrow> int \<Rightarrow> bool \<Rightarrow> int option \<Rightarrow> manager" where
  "base_manager_init cls kv_cache_spec pool caching group_id scheduler_block_size dcp_world_size zeroing cap =
     \<lparr>mgr_class = cls, mgr_spec = kv_cache_spec,
      mgr_block_size = (if dcp_world_size > 1 then spec_block_size kv_cache_spec * dcp_world_size
                        else spec_block_size kv_cache_spec),
      mgr_scheduler_block_size = scheduler_block_size, mgr_caching = caching,
      max_admission_blocks_per_request = cap,
      records_new_block_ids = (zeroing \<and> isinstance kv_cache_spec cls_AttentionSpec),
      new_block_ids = [], req_to_blocks = [], num_cached_block = [], kv_cache_group_id = group_id,
      mgr_null_block = null_block pool, mgr_use_eagle = False, partial_hit_reqs = [], pending_cow_copies = [],
      pending_partial_tail_offloads = [], mgr_sliding_window = 0, mgr_extra_retained_tokens = 0,
      mgr_attention_chunk_size = 0, mgr_rswa_window = 0, mgr_mamba_cache_mode = [], mgr_num_speculative_blocks = 0,
      cached_blocks_this_step = [], last_state_block_idx = [], allocated_block_reqs = [], num_checkpoint_blocks = [],
      producer_partial_tail_reqs = [], sink_blocks = []\<rparr>"

text \<open>The fields a subclass constructor reads off the specification.\<close>

fun subclass_init :: "manager_class \<Rightarrow> KVCacheSpec \<Rightarrow> manager \<Rightarrow> manager result" where
  "subclass_init FullAttentionManager _ m = Inr m"
| "subclass_init CrossAttentionManager _ m = Inr m"
| "subclass_init SinkFullAttentionManager _ m = Inr m"
| "subclass_init RSWAManager (RSWASpec _ _ w) m = Inr (m\<lparr>mgr_rswa_window := w\<rparr>)"
| "subclass_init SlidingWindowManager (SlidingWindowSpec _ w e) m =
     Inr (m\<lparr>mgr_sliding_window := w, mgr_extra_retained_tokens := e\<rparr>)"
| "subclass_init SlidingWindowManager (SlidingWindowMLASpec _ w e _) m =
     Inr (m\<lparr>mgr_sliding_window := w, mgr_extra_retained_tokens := e\<rparr>)"
| "subclass_init ChunkedLocalAttentionManager (ChunkedLocalAttentionSpec _ n) m =
     Inr (m\<lparr>mgr_attention_chunk_size := n\<rparr>)"
| "subclass_init MambaManager (MambaSpec f) m =
     Inr (m\<lparr>mgr_block_size := mamba_block_size f, mgr_mamba_cache_mode := mamba_cache_mode f,
            mgr_num_speculative_blocks := num_speculative_blocks f\<rparr>)"
| "subclass_init _ _ m = Inl AttributeError"

text \<open>
  The sink manager takes its blocks off the free queue.  Its constructor has no parameter
  \<^verbatim>\<open>needs_kv_cache_zeroing\<close>, so a call that passes it (\<open>Some\<close>) raises \<^verbatim>\<open>TypeError\<close>.
\<close>

definition manager_init ::
    "manager_class \<Rightarrow> KVCacheSpec \<Rightarrow> bool \<Rightarrow> int \<Rightarrow> int \<Rightarrow> int \<Rightarrow> bool option \<Rightarrow> int option \<Rightarrow> block_pool
     \<Rightarrow> (manager \<times> block_pool) result" where
  "manager_init cls kv_cache_spec caching group_id scheduler_block_size dcp_world_size zeroing cap pool =
     (if cls = SinkFullAttentionManager \<and> (zeroing \<noteq> None \<or> cap \<noteq> None) then Inl TypeError
      else
        and_then (subclass_init cls kv_cache_spec
          (base_manager_init cls kv_cache_spec pool caching group_id scheduler_block_size dcp_world_size
             (case zeroing of None \<Rightarrow> False | Some z \<Rightarrow> z) cap)) (\<lambda>m.
        case (cls, kv_cache_spec) of
          (SinkFullAttentionManager, SinkFullAttentionSpec _ _ sink_len) \<Rightarrow>
            and_then (py_assert (case sink_len of None \<Rightarrow> False
                                 | Some n \<Rightarrow> n > 0 \<and> n mod mgr_block_size m = 0)) (\<lambda>_.
            and_then (popleft_n (the sink_len div mgr_block_size m) pool) (\<lambda>(bl, pool).
            Inr (m\<lparr>sink_blocks := bl\<rparr>, pool)))
        | (SinkFullAttentionManager, _) \<Rightarrow> Inl AttributeError
        | _ \<Rightarrow> Inr (m, pool)))"

definition get_manager_for_kv_cache_spec ::
    "registry \<Rightarrow> KVCacheSpec \<Rightarrow> int \<Rightarrow> int \<Rightarrow> bool \<Rightarrow> int \<Rightarrow> int \<Rightarrow> int \<Rightarrow> bool option \<Rightarrow> block_pool
     \<Rightarrow> (manager \<times> block_pool) result" where
  "get_manager_for_kv_cache_spec reg kv_cache_spec in_flight model_len caching group_id scheduler_block_size
       dcp_world_size zeroing pool =
     (case get_manager_class reg kv_cache_spec of
        None \<Rightarrow> Inl AssertionError
      | Some cls \<Rightarrow>
          let cap = (case kv_cache_spec of
              SlidingWindowSpec a w e \<Rightarrow> Some (swa_max_admission_blocks a w e in_flight model_len)
            | SlidingWindowMLASpec a w e _ \<Rightarrow> Some (swa_max_admission_blocks a w e in_flight model_len)
            | ChunkedLocalAttentionSpec a n \<Rightarrow> Some (chunked_max_admission_blocks a n in_flight model_len)
            | _ \<Rightarrow> None)
          in manager_init cls kv_cache_spec caching group_id scheduler_block_size dcp_world_size zeroing cap pool)"

section \<open>Methods of the classes\<close>

text \<open>\<^verbatim>\<open>supports_fine_grained_hash_lookup\<close>\<close>

fun supports_fine_grained_hash_lookup :: "manager_class \<Rightarrow> bool" where
  "supports_fine_grained_hash_lookup FullAttentionManager = True"
| "supports_fine_grained_hash_lookup RSWAManager = True"
| "supports_fine_grained_hash_lookup SinkFullAttentionManager = True"
| "supports_fine_grained_hash_lookup MambaManager = True"
| "supports_fine_grained_hash_lookup _ = False"

definition find_longest_cache_hit ::
    "manager_class \<Rightarrow> block_hash_list \<Rightarrow> int \<Rightarrow> int list \<Rightarrow> block_pool \<Rightarrow> KVCacheSpec \<Rightarrow> bool \<Rightarrow> int \<Rightarrow> int \<Rightarrow> int
     \<Rightarrow> (block_ref list list \<times> int) result" where
  "find_longest_cache_hit cls hs max_length group_ids pool kv_cache_spec drop_eagle_block alignment_tokens dcp pcp =
     (case cls of
        SlidingWindowManager \<Rightarrow>
          swa_find_longest_cache_hit hs max_length group_ids pool kv_cache_spec drop_eagle_block alignment_tokens dcp pcp
      | ChunkedLocalAttentionManager \<Rightarrow>
          chunked_find_longest_cache_hit hs max_length group_ids pool kv_cache_spec drop_eagle_block alignment_tokens dcp pcp
      | MambaManager \<Rightarrow>
          mamba_find_longest_cache_hit hs max_length group_ids pool kv_cache_spec drop_eagle_block alignment_tokens dcp pcp
      | CrossAttentionManager \<Rightarrow>
          and_then (py_assert (isinstance kv_cache_spec cls_CrossAttentionSpec)) (\<lambda>_. Inl NotImplementedError)
      | _ \<Rightarrow>
          full_find_longest_cache_hit hs max_length group_ids pool kv_cache_spec drop_eagle_block alignment_tokens dcp)"

definition reachable_block_mask ::
    "manager_class \<Rightarrow> int \<Rightarrow> int \<Rightarrow> int option \<Rightarrow> KVCacheSpec \<Rightarrow> bool \<Rightarrow> int option \<Rightarrow> int list
     \<Rightarrow> bool list option result" where
  "reachable_block_mask cls start_block end_block alignment kv_cache_spec use_eagle retention_interval boundaries =
     (case cls of
        SlidingWindowManager \<Rightarrow>
          swa_reachable_block_mask start_block end_block alignment kv_cache_spec use_eagle retention_interval boundaries
      | MambaManager \<Rightarrow>
          mamba_reachable_block_mask start_block end_block alignment kv_cache_spec use_eagle retention_interval boundaries
      | _ \<Rightarrow> Inr None)"

definition get_num_skipped_tokens :: "manager \<Rightarrow> int \<Rightarrow> int" where
  "get_num_skipped_tokens m computed_tokens =
     (case mgr_class m of
        SlidingWindowManager \<Rightarrow>
          swa_num_skipped_tokens (mgr_sliding_window m) (mgr_extra_retained_tokens m) computed_tokens
      | ChunkedLocalAttentionManager \<Rightarrow> chunked_num_skipped_tokens (mgr_attention_chunk_size m) computed_tokens
      | MambaManager \<Rightarrow> mamba_num_skipped_tokens computed_tokens
      | _ \<Rightarrow> 0)"

definition get_num_evictable_blocks :: "block_pool \<Rightarrow> block_ref list \<Rightarrow> int" where
  "get_num_evictable_blocks s blocks =
     int (length (filter (\<lambda>b. ref_cnt (blk s b) = 0 \<and> \<not> is_null (blk s b)) blocks))"

definition has_partial_local_hit :: "manager \<Rightarrow> block_ref list \<Rightarrow> int \<Rightarrow> bool" where
  "has_partial_local_hit m new_computed_blocks local_tokens =
     (new_computed_blocks \<noteq> [] \<and> local_tokens mod mgr_block_size m \<noteq> 0)"

section \<open>Methods of the base class\<close>

definition base_get_num_blocks_to_allocate ::
    "manager \<Rightarrow> block_pool \<Rightarrow> string \<Rightarrow> int \<Rightarrow> block_ref list \<Rightarrow> int \<Rightarrow> int \<Rightarrow> bool \<Rightarrow> int result" where
  "base_get_num_blocks_to_allocate m s rid n_tokens new_computed_blocks total_computed_tokens local_tokens apply_cap =
     (let num_required_blocks = cdiv n_tokens (mgr_block_size m);
          num_required_blocks = (case max_admission_blocks_per_request m of
              Some cap \<Rightarrow> if apply_cap then min num_required_blocks cap else num_required_blocks
            | None \<Rightarrow> num_required_blocks);
          num_req_blocks = int (length (req_blocks m rid))
      in
      if dict_get (num_cached_block m) rid \<noteq> None then
        and_then (py_assert (new_computed_blocks = [])) (\<lambda>_.
        Inr (max (num_required_blocks - num_req_blocks) 0))
      else
        let num_skipped_tokens = get_num_skipped_tokens m total_computed_tokens;
            num_local_computed_blocks = int (length new_computed_blocks) + num_req_blocks;
            num_skipped_blocks = num_skipped_tokens div mgr_block_size m;
            num_new_blocks = max (num_required_blocks - max num_skipped_blocks num_local_computed_blocks) 0;
            num_skipped_new_computed_blocks = max 0 (num_skipped_blocks - num_req_blocks);
            num_evictable_blocks =
              get_num_evictable_blocks s (py_slice_from new_computed_blocks num_skipped_new_computed_blocks);
            num_new_blocks = (if has_partial_local_hit m new_computed_blocks local_tokens
                              then num_new_blocks + 1 else num_new_blocks)
        in Inr (num_new_blocks + num_evictable_blocks))"

text \<open>The bookkeeping at the end of \<^verbatim>\<open>add_local_computed_blocks\<close>; a hit that ends inside a block is remembered.\<close>

definition note_local_hit :: "string \<Rightarrow> block_ref list \<Rightarrow> block_ref list \<Rightarrow> int \<Rightarrow> manager \<Rightarrow> manager" where
  "note_local_hit rid bl new_computed_blocks local_tokens m =
     (let m = put_blocks rid bl m;
          m = m\<lparr>num_cached_block := dict_set rid (int (length bl)) (num_cached_block m)\<rparr>
      in
      if has_partial_local_hit m new_computed_blocks local_tokens then
        let block_idx = local_tokens div mgr_block_size m in
        m\<lparr>partial_hit_reqs := dict_set rid (block_idx, last new_computed_blocks) (partial_hit_reqs m),
          num_cached_block := dict_set rid block_idx (num_cached_block m)\<rparr>
      else m)"

definition base_add_local_computed_blocks ::
    "string \<Rightarrow> block_ref list \<Rightarrow> int \<Rightarrow> int \<Rightarrow> manager \<Rightarrow> block_pool \<Rightarrow> (manager \<times> block_pool) result" where
  "base_add_local_computed_blocks rid new_computed_blocks local_tokens external_tokens m s =
     and_then (py_assert (req_blocks m rid = [])) (\<lambda>_.
     let num_skipped_blocks = get_num_skipped_tokens m (local_tokens + external_tokens) div mgr_block_size m;
         new_computed_blocks = (if num_skipped_blocks > 0 then py_slice_from new_computed_blocks num_skipped_blocks
                                else new_computed_blocks)
     in
     and_then (if mgr_caching m then touch new_computed_blocks s
               else and_then (py_assert (new_computed_blocks = [])) (\<lambda>_. Inr s)) (\<lambda>s.
     Inr (note_local_hit rid (replicate (nat num_skipped_blocks) (mgr_null_block m) @ new_computed_blocks)
            new_computed_blocks local_tokens m, s)))"

definition record_new :: "bool \<Rightarrow> block_ref list \<Rightarrow> block_pool \<Rightarrow> manager \<Rightarrow> manager" where
  "record_new recording bl s m =
     (if recording then m\<lparr>new_block_ids := new_block_ids m @ map (bid s) bl\<rparr> else m)"

definition base_allocate_external_computed_blocks ::
    "bool \<Rightarrow> string \<Rightarrow> int \<Rightarrow> int \<Rightarrow> manager \<Rightarrow> block_pool \<Rightarrow> (manager \<times> block_pool) result" where
  "base_allocate_external_computed_blocks u rid local_tokens external_tokens m s =
     (let num_total_computed_tokens = local_tokens + external_tokens;
          num_skipped_tokens = get_num_skipped_tokens m num_total_computed_tokens;
          external_tokens = (if num_skipped_tokens > 0
            then min (num_total_computed_tokens - num_skipped_tokens) external_tokens else external_tokens)
      in
      if external_tokens \<le> 0 then Inr (m, s)
      else
        and_then (get_new_blocks u
            (cdiv num_total_computed_tokens (mgr_block_size m) - int (length (req_blocks m rid))) s)
          (\<lambda>(allocated_blocks, s).
           Inr (record_new (records_new_block_ids m) allocated_blocks s
                  (put_blocks rid (req_blocks m rid @ allocated_blocks) m), s)))"

definition apply_cow ::
    "string \<Rightarrow> int \<Rightarrow> block_ref \<Rightarrow> block_ref \<Rightarrow> manager \<Rightarrow> block_pool \<Rightarrow> (manager \<times> block_pool) result" where
  "apply_cow rid block_idx source_block cow_block m s =
     and_then (py_assert (block_idx < int (length (req_blocks m rid)))) (\<lambda>_.
     and_then (py_index (req_blocks m rid) block_idx) (\<lambda>b.
     and_then (py_assert (b = source_block)) (\<lambda>_.
     and_then (py_assert (\<not> is_null (blk s source_block) \<and> ref_cnt (blk s source_block) > 0)) (\<lambda>_.
     and_then (py_store (req_blocks m rid) block_idx cow_block) (\<lambda>bl.
     Inr ((put_blocks rid bl m)\<lparr>pending_cow_copies := pending_cow_copies m @ [(source_block, cow_block)]\<rparr>,
          add_ref 1 cow_block s))))))"

text \<open>The redirect of a partial hit, first part of \<^verbatim>\<open>allocate_new_blocks\<close>.\<close>

definition redirect_partial_hit ::
    "bool \<Rightarrow> string \<Rightarrow> manager \<Rightarrow> block_pool \<Rightarrow> (block_ref list \<times> manager \<times> block_pool) result" where
  "redirect_partial_hit u rid m s =
     (case dict_get (partial_hit_reqs m) rid of
        None \<Rightarrow> Inr ([], m, s)
      | Some (block_idx, source_block) \<Rightarrow>
          let m = m\<lparr>partial_hit_reqs := dict_del rid (partial_hit_reqs m)\<rparr> in
          and_then (get_new_blocks u 1 s) (\<lambda>(bl, s).
          and_then (py_index bl 0) (\<lambda>cow_block.
          and_then (apply_cow rid block_idx source_block cow_block m s) (\<lambda>(m, s).
          Inr ([cow_block], record_new True [cow_block] s m, s)))))"

definition base_allocate_new_blocks ::
    "bool \<Rightarrow> string \<Rightarrow> int \<Rightarrow> manager \<Rightarrow> block_pool \<Rightarrow> (block_ref list \<times> manager \<times> block_pool) result" where
  "base_allocate_new_blocks u rid n_tokens m s =
     and_then (redirect_partial_hit u rid m s) (\<lambda>(cow_blocks, m, s).
     let m = open_req rid m;
         num_new_blocks = cdiv n_tokens (mgr_block_size m) - int (length (req_blocks m rid))
     in
     if num_new_blocks \<le> 0 then Inr (cow_blocks, m, s)
     else
       and_then (get_new_blocks u num_new_blocks s) (\<lambda>(new_blocks, s).
       Inr (cow_blocks @ new_blocks,
            record_new (records_new_block_ids m) new_blocks s
              (put_blocks rid (req_blocks m rid @ new_blocks) m), s)))"

definition take_new_block_ids :: "manager \<Rightarrow> int list \<times> manager" where
  "take_new_block_ids m = (new_block_ids m, m\<lparr>new_block_ids := []\<rparr>)"

definition take_pending_cow_copies :: "manager \<Rightarrow> (block_ref \<times> block_ref) list \<times> manager" where
  "take_pending_cow_copies m = (pending_cow_copies m, m\<lparr>pending_cow_copies := []\<rparr>)"

definition take_pending_partial_tail_offloads ::
    "manager \<Rightarrow> (string \<times> int \<times> block_ref \<times> int) list \<times> manager" where
  "take_pending_partial_tail_offloads m =
     (pending_partial_tail_offloads m, m\<lparr>pending_partial_tail_offloads := []\<rparr>)"

definition reachable_boundaries :: "Request \<Rightarrow> int list" where
  "reachable_boundaries r =
     (num_prompt_tokens r - 1) # (if shared_prefix_boundary r \<noteq> 0 then [shared_prefix_boundary r] else [])"

definition base_cache_blocks ::
    "(bytes \<Rightarrow> bytes) \<Rightarrow> bool \<Rightarrow> Request \<Rightarrow> int \<Rightarrow> int option \<Rightarrow> manager \<Rightarrow> block_pool
     \<Rightarrow> (Request \<times> manager \<times> block_pool) result" where
  "base_cache_blocks sha u r n_tokens retention_interval m s =
     (let rid = request_id r;
          num_cached_blocks = (case dict_get (num_cached_block m) rid of None \<Rightarrow> 0 | Some n \<Rightarrow> n);
          num_full_blocks = n_tokens div mgr_block_size m
      in
      if num_cached_blocks \<ge> num_full_blocks then Inr (r, m, s)
      else
        and_then (reachable_block_mask (mgr_class m) num_cached_blocks num_full_blocks
            (Some (mgr_scheduler_block_size m)) (mgr_spec m) (mgr_use_eagle m) retention_interval
            (reachable_boundaries r)) (\<lambda>block_mask.
        and_then (cache_full_blocks sha u r (req_blocks m rid) num_cached_blocks num_full_blocks
            (mgr_block_size m) (kv_cache_group_id m) block_mask s) (\<lambda>(r, s).
        let m = open_req rid m in
        Inr (r, m\<lparr>num_cached_block := dict_set rid num_full_blocks (num_cached_block m)\<rparr>, s))))"

definition base_pop_blocks_for_free :: "string \<Rightarrow> manager \<Rightarrow> block_ref list \<times> manager" where
  "base_pop_blocks_for_free rid m =
     (req_blocks m rid,
      m\<lparr>req_to_blocks := dict_del rid (req_to_blocks m), num_cached_block := dict_del rid (num_cached_block m),
        partial_hit_reqs := dict_del rid (partial_hit_reqs m)\<rparr>)"

text \<open>The backward loop of \<^verbatim>\<open>_remove_blocks_in_range\<close>: it stops at the first null block.\<close>

fun null_out :: "block_ref \<Rightarrow> int list \<Rightarrow> block_ref list \<Rightarrow> block_ref list \<Rightarrow> (block_ref list \<times> block_ref list) result" where
  "null_out nb [] blocks freed = Inr (blocks, freed)"
| "null_out nb (i # js) blocks freed =
     and_then (py_index blocks i) (\<lambda>b.
     if b = nb then Inr (blocks, freed)
     else and_then (py_store blocks i nb) (\<lambda>blocks. null_out nb js blocks (freed @ [b])))"

definition remove_blocks_in_range ::
    "string \<Rightarrow> int \<Rightarrow> int \<Rightarrow> manager \<Rightarrow> block_pool \<Rightarrow> (manager \<times> block_pool) result" where
  "remove_blocks_in_range rid first_block last_block m s =
     (if dict_get (req_to_blocks m) rid = None then Inr (m, s)
      else if first_block \<ge> last_block then Inr (m, s)
      else
        let blocks = req_blocks m rid; last_block = min last_block (int (length blocks)) in
        and_then (null_out (mgr_null_block m) (rev (py_range first_block last_block)) blocks []) (\<lambda>(blocks, freed).
        let m = put_blocks rid blocks m in
        if freed \<noteq> [] then and_then (free_blocks freed s) (\<lambda>s. Inr (m, s)) else Inr (m, s)))"

definition base_remove_skipped_blocks ::
    "string \<Rightarrow> int \<Rightarrow> manager \<Rightarrow> block_pool \<Rightarrow> (manager \<times> block_pool) result" where
  "base_remove_skipped_blocks rid processed_computed_tokens m s =
     (let num_skipped_tokens = get_num_skipped_tokens m processed_computed_tokens in
      if num_skipped_tokens \<le> 0 then Inr (m, s)
      else
        let m = open_req rid m;
            num_skipped_blocks = min (num_skipped_tokens div mgr_block_size m) (int (length (req_blocks m rid)))
        in remove_blocks_in_range rid 0 num_skipped_blocks m s)"

section \<open>Full attention and R-SWA\<close>

definition full_cache_partial_tail_block ::
    "(bytes \<Rightarrow> bytes) \<Rightarrow> bool \<Rightarrow> Request \<Rightarrow> int \<Rightarrow> manager \<Rightarrow> block_pool \<Rightarrow> (Request \<times> manager \<times> block_pool) result" where
  "full_cache_partial_tail_block sha u r n_tokens m s =
     (let hbs = hash_block_size s;
          boundary_tokens = num_prompt_tokens r div hbs * hbs
      in
      if boundary_tokens = 0 \<or> boundary_tokens > n_tokens then Inr (r, m, s)
      else if boundary_tokens mod mgr_block_size m = 0 then Inr (r, m, s)
      else
        let m = open_req (request_id r) m;
            blocks = req_blocks m (request_id r);
            block_idx = boundary_tokens div mgr_block_size m
        in
        if block_idx \<ge> int (length blocks) then Inr (r, m, s)
        else
          and_then (py_index blocks block_idx) (\<lambda>b.
          and_then (cache_partial_block sha u r b boundary_tokens (kv_cache_group_id m) (mgr_block_size m) s)
            (\<lambda>(_, r, s). Inr (r, m, s))))"

definition full_cache_blocks ::
    "(bytes \<Rightarrow> bytes) \<Rightarrow> bool \<Rightarrow> Request \<Rightarrow> int \<Rightarrow> int option \<Rightarrow> manager \<Rightarrow> block_pool
     \<Rightarrow> (Request \<times> manager \<times> block_pool) result" where
  "full_cache_blocks sha u r n_tokens retention_interval m s =
     and_then (base_cache_blocks sha u r n_tokens retention_interval m s) (\<lambda>(r, m, s).
     if mgr_block_size m = hash_block_size s then Inr (r, m, s)
     else full_cache_partial_tail_block sha u r n_tokens m s)"

fun count_common :: "(block_ref \<Rightarrow> bool) \<Rightarrow> block_ref list \<Rightarrow> int" where
  "count_common p [] = 0"
| "count_common p (b # bl) = (if p b then 1 + count_common p bl else 0)"

definition full_get_num_common_prefix_blocks :: "string \<Rightarrow> manager \<Rightarrow> block_pool \<Rightarrow> int \<times> manager" where
  "full_get_num_common_prefix_blocks rid m s =
     (let m = open_req rid m in
      (count_common (\<lambda>b. ref_cnt (blk s b) = int (length (req_to_blocks m))) (req_blocks m rid), m))"

definition rswa_remove_skipped_blocks ::
    "string \<Rightarrow> int \<Rightarrow> int option \<Rightarrow> manager \<Rightarrow> block_pool \<Rightarrow> (manager \<times> block_pool) result" where
  "rswa_remove_skipped_blocks rid processed_computed_tokens prompt_tokens m s =
     (case prompt_tokens of
        None \<Rightarrow> base_remove_skipped_blocks rid processed_computed_tokens m s
      | Some n \<Rightarrow>
          let first_gap_block = cdiv n (mgr_block_size m);
              window_start = max n (processed_computed_tokens - mgr_rswa_window m);
              last_gap_block = window_start div mgr_block_size m
          in remove_blocks_in_range rid first_gap_block last_gap_block m s)"

section \<open>Mamba\<close>

definition needs_internal_checkpoint :: "MambaFields \<Rightarrow> manager \<Rightarrow> block_pool \<Rightarrow> string \<Rightarrow> int \<Rightarrow> int \<Rightarrow> bool result" where
  "needs_internal_checkpoint f m s rid n_tokens computed_tokens =
     (let checkpoint_idx = cdiv n_tokens (mgr_block_size m) - 2;
          blocks = req_blocks m rid
      in
      if num_prefill_checkpoint_blocks f > 0 \<and> n_tokens mod mgr_block_size m \<noteq> 0 \<and>
         computed_tokens mod mgr_block_size m = 0 \<and> checkpoint_idx \<ge> 0
      then if checkpoint_idx \<ge> int (length blocks) then Inr True
           else and_then (py_index blocks checkpoint_idx) (\<lambda>b. Inr (is_null (blk s b)))
      else Inr False)"

definition hash_cached_this_step :: "manager \<Rightarrow> block_pool \<Rightarrow> block_ref \<Rightarrow> bool" where
  "hash_cached_this_step m s b =
     (case block_hash (blk s b) of None \<Rightarrow> False | Some h \<Rightarrow> h \<in> set (cached_blocks_this_step m))"

text \<open>The branch of \<^verbatim>\<open>get_num_blocks_to_allocate\<close> for the cache mode \<^verbatim>\<open>align\<close>; \<^verbatim>\<open>int(b)\<close> of a boolean is \<^verbatim>\<open>of_bool\<close>.\<close>

definition align_get_num_blocks_to_allocate ::
    "MambaFields \<Rightarrow> string \<Rightarrow> int \<Rightarrow> block_ref list \<Rightarrow> int \<Rightarrow> int \<Rightarrow> bool \<Rightarrow> manager \<Rightarrow> block_pool \<Rightarrow> (int \<times> manager) result" where
  "align_get_num_blocks_to_allocate f rid n_tokens new_computed_blocks total_computed_tokens local_tokens apply_cap m s =
     (let num_required_blocks = cdiv n_tokens (mgr_block_size m) + mgr_num_speculative_blocks m;
          m = open_req rid m;
          num_new_blocks = num_required_blocks - int (length new_computed_blocks) - int (length (req_blocks m rid));
          has_partial_hit = (has_partial_local_hit m new_computed_blocks local_tokens \<or>
                             dict_get (partial_hit_reqs m) rid \<noteq> None);
          num_new_blocks = (if has_partial_hit then max num_new_blocks 0 + 1 else num_new_blocks)
      in
      and_then (needs_internal_checkpoint f m s rid n_tokens total_computed_tokens) (\<lambda>needed.
      let checkpoint_block = of_bool needed;
          m = (if apply_cap then m
               else m\<lparr>num_checkpoint_blocks := dict_set rid checkpoint_block (num_checkpoint_blocks m)\<rparr>);
          num_new_blocks = (if num_new_blocks > 0
            then 1 + of_bool has_partial_hit + checkpoint_block +
                 (if rid \<notin> set (allocated_block_reqs m) then mgr_num_speculative_blocks m else 0)
            else num_new_blocks)
      in Inr (num_new_blocks + get_num_evictable_blocks s new_computed_blocks, m)))"

definition mamba_get_num_blocks_to_allocate ::
    "string \<Rightarrow> int \<Rightarrow> block_ref list \<Rightarrow> int \<Rightarrow> int \<Rightarrow> int \<Rightarrow> bool \<Rightarrow> manager \<Rightarrow> block_pool \<Rightarrow> (int \<times> manager) result" where
  "mamba_get_num_blocks_to_allocate rid n_tokens new_computed_blocks total_computed_tokens local_tokens
       tokens_main_model apply_cap m s =
     (case mgr_spec m of
        MambaSpec f \<Rightarrow>
          if new_computed_blocks \<noteq> [] \<and> hash_cached_this_step m s (last new_computed_blocks)
          then Inr (num_gpu_blocks s + 1, m)
          else if mgr_mamba_cache_mode m \<noteq> ''align'' then
            let n_tokens = (if mgr_num_speculative_blocks m > 0
                            then n_tokens + mamba_block_size f * mgr_num_speculative_blocks m else n_tokens)
            in and_then (base_get_num_blocks_to_allocate m s rid n_tokens new_computed_blocks total_computed_tokens
                           local_tokens apply_cap) (\<lambda>n. Inr (n, m))
          else align_get_num_blocks_to_allocate f rid tokens_main_model new_computed_blocks total_computed_tokens
                 local_tokens apply_cap m s
      | _ \<Rightarrow> Inl AssertionError)"

text \<open>
  \<^verbatim>\<open>allocate_new_blocks\<close> in the cache mode \<^verbatim>\<open>align\<close>: the speculative blocks of the previous step are moved to the end of
  the table and their old entries nulled, up to the first one that is not skipped.
\<close>

fun reuse_speculative :: "block_ref \<Rightarrow> int \<Rightarrow> int list \<Rightarrow> block_ref list \<Rightarrow> block_ref list result" where
  "reuse_speculative nb num_skipped_blocks [] bl = Inr bl"
| "reuse_speculative nb num_skipped_blocks (i # js) bl =
     (if i < num_skipped_blocks then
        and_then (py_index bl i) (\<lambda>b.
        and_then (py_store (bl @ [b]) i nb) (reuse_speculative nb num_skipped_blocks js))
      else Inr bl)"

text \<open>The block that receives a partial hit: a running request keeps its table, a new one is redirected.\<close>

definition align_copy_on_write ::
    "string \<Rightarrow> int \<Rightarrow> block_ref \<Rightarrow> block_ref \<Rightarrow> bool \<Rightarrow> manager \<Rightarrow> block_pool \<Rightarrow> (manager \<times> block_pool) result" where
  "align_copy_on_write rid block_idx source_block cow_block blocks_allocated m s =
     (if blocks_allocated then
        and_then (py_index (req_blocks m rid) block_idx) (\<lambda>b.
        and_then (py_assert (b = source_block)) (\<lambda>_.
        and_then (move_block_hashes source_block cow_block s) (\<lambda>s.
        let m = m\<lparr>pending_cow_copies := pending_cow_copies m @ [(source_block, cow_block)]\<rparr>;
            s = add_ref 1 source_block s;
            m = (case dict_get (producer_partial_tail_reqs m) rid of
                   None \<Rightarrow> m
                 | Some boundary_tokens \<Rightarrow>
                     m\<lparr>producer_partial_tail_reqs := dict_del rid (producer_partial_tail_reqs m),
                       pending_partial_tail_offloads := pending_partial_tail_offloads m @
                         [(rid, kv_cache_group_id m, cow_block, boundary_tokens)]\<rparr>);
            m = (case block_hash (blk s cow_block) of
                   None \<Rightarrow> m
                 | Some h \<Rightarrow> m\<lparr>cached_blocks_this_step := set_add h (cached_blocks_this_step m)\<rparr>)
        in Inr (m, s))))
      else apply_cow rid block_idx source_block cow_block m s)"

text \<open>The block that holds the state of the last step.\<close>

definition note_last_state :: "string \<Rightarrow> int \<Rightarrow> bool \<Rightarrow> manager \<Rightarrow> manager" where
  "note_last_state rid prev_block_len blocks_allocated m =
     (if blocks_allocated
      then m\<lparr>last_state_block_idx :=
             dict_set rid (prev_block_len - 1 - mgr_num_speculative_blocks m) (last_state_block_idx m)\<rparr>
      else if prev_block_len > 0
      then m\<lparr>last_state_block_idx := dict_set rid (prev_block_len - 1) (last_state_block_idx m)\<rparr>
      else m)"

text \<open>The table before new blocks are added: skipped positions are null, speculative blocks are reused.\<close>

definition align_table :: "string \<Rightarrow> int \<Rightarrow> int \<Rightarrow> bool \<Rightarrow> manager \<Rightarrow> block_ref list result" where
  "align_table rid num_required_blocks checkpoint_block blocks_allocated m =
     (let prev_block_len = int (length (req_blocks m rid));
          num_skipped_blocks = num_required_blocks - mgr_num_speculative_blocks m - 1;
          bl = req_blocks m rid @
            (if prev_block_len < num_skipped_blocks
             then replicate (nat (num_skipped_blocks - checkpoint_block - prev_block_len)) (mgr_null_block m) else [])
      in if blocks_allocated
         then reuse_speculative (mgr_null_block m) num_skipped_blocks
                (py_range (prev_block_len - mgr_num_speculative_blocks m) prev_block_len) bl
         else Inr bl)"

text \<open>The first new block serves a partial hit; the rest go to the table.\<close>

definition align_take_cow ::
    "string \<Rightarrow> (int \<times> block_ref) option \<Rightarrow> bool \<Rightarrow> block_ref list \<Rightarrow> block_ref list \<Rightarrow> manager \<Rightarrow> block_pool
     \<Rightarrow> (block_ref list \<times> block_ref list \<times> manager \<times> block_pool) result" where
  "align_take_cow rid partial_hit blocks_allocated returned_blocks new_blocks m s =
     (case partial_hit of
        None \<Rightarrow> Inr (returned_blocks, new_blocks, m, s)
      | Some (block_idx, source_block) \<Rightarrow>
          and_then (py_index new_blocks 0) (\<lambda>cow_block.
          and_then (align_copy_on_write rid block_idx source_block cow_block blocks_allocated m s) (\<lambda>(m, s).
          Inr (if blocks_allocated then returned_blocks else cow_block # returned_blocks,
               py_slice_from new_blocks 1, m, s))))"

definition align_allocate_new_blocks ::
    "bool \<Rightarrow> string \<Rightarrow> int \<Rightarrow> manager \<Rightarrow> block_pool \<Rightarrow> (block_ref list \<times> manager \<times> block_pool) result" where
  "align_allocate_new_blocks u rid n_tokens m s =
     (let m = open_req rid m;
          prev_block_len = int (length (req_blocks m rid));
          num_required_blocks = cdiv n_tokens (mgr_block_size m) + mgr_num_speculative_blocks m;
          checkpoint_block = (case dict_get (num_checkpoint_blocks m) rid of None \<Rightarrow> 0 | Some n \<Rightarrow> n);
          partial_hit = dict_get (partial_hit_reqs m) rid;
          has_partial_hit = (partial_hit \<noteq> None)
      in
      if num_required_blocks \<le> prev_block_len \<and> \<not> has_partial_hit
      then Inr ([], m\<lparr>allocated_block_reqs := set_add rid (allocated_block_reqs m)\<rparr>, s)
      else
        let blocks_allocated = (rid \<in> set (allocated_block_reqs m));
            m = note_last_state rid prev_block_len blocks_allocated m
        in
        and_then (align_table rid num_required_blocks checkpoint_block blocks_allocated m) (\<lambda>bl.
        let num_new_blocks = num_required_blocks - int (length bl);
            num_new_blocks = (if has_partial_hit then max num_new_blocks 0 + 1 else num_new_blocks);
            max_new_blocks = 1 + of_bool has_partial_hit + checkpoint_block +
              (if blocks_allocated then 0 else mgr_num_speculative_blocks m)
        in
        and_then (py_assert (num_new_blocks \<le> max_new_blocks)) (\<lambda>_.
        and_then (get_new_blocks u num_new_blocks s) (\<lambda>(new_blocks, s).
        and_then (align_take_cow rid partial_hit blocks_allocated (py_slice_from bl prev_block_len) new_blocks
            (put_blocks rid bl m) s) (\<lambda>(returned_blocks, new_blocks, m, s).
        Inr (returned_blocks @ new_blocks,
             (put_blocks rid (req_blocks m rid @ new_blocks) m)
               \<lparr>allocated_block_reqs := set_add rid (allocated_block_reqs m),
                partial_hit_reqs := dict_del rid (partial_hit_reqs m)\<rparr>, s))))))"

definition mamba_allocate_new_blocks ::
    "bool \<Rightarrow> string \<Rightarrow> int \<Rightarrow> int \<Rightarrow> manager \<Rightarrow> block_pool \<Rightarrow> (block_ref list \<times> manager \<times> block_pool) result" where
  "mamba_allocate_new_blocks u rid n_tokens tokens_main_model m s =
     and_then (py_assert (isinstance (mgr_spec m) cls_MambaSpec)) (\<lambda>_.
     if mgr_mamba_cache_mode m \<noteq> ''align'' then
       base_allocate_new_blocks u rid
         (if mgr_num_speculative_blocks m > 0
          then n_tokens + mgr_block_size m * mgr_num_speculative_blocks m else n_tokens) m s
     else align_allocate_new_blocks u rid tokens_main_model m s)"

definition mamba_remove_skipped_blocks ::
    "string \<Rightarrow> int \<Rightarrow> manager \<Rightarrow> block_pool \<Rightarrow> (manager \<times> block_pool) result" where
  "mamba_remove_skipped_blocks rid processed_computed_tokens m s =
     and_then (py_assert (isinstance (mgr_spec m) cls_MambaSpec)) (\<lambda>_.
     and_then (base_remove_skipped_blocks rid processed_computed_tokens m s) (\<lambda>(m, s).
     if mgr_mamba_cache_mode m = ''align'' then
       case dict_get (last_state_block_idx m) rid of
         None \<Rightarrow> Inr (m, s)
       | Some idx \<Rightarrow>
           if idx < cdiv processed_computed_tokens (mgr_block_size m) - 1 then
             let m = open_req rid m; blocks = req_blocks m rid in
             and_then (py_index blocks idx) (\<lambda>b.
             if b \<noteq> mgr_null_block m then
               and_then (free_blocks [b] s) (\<lambda>s.
               and_then (py_store blocks idx (mgr_null_block m)) (\<lambda>blocks. Inr (put_blocks rid blocks m, s)))
             else Inr (m, s))
           else Inr (m, s)
     else Inr (m, s)))"

definition mamba_pop_blocks_for_free :: "string \<Rightarrow> manager \<Rightarrow> block_ref list \<times> manager" where
  "mamba_pop_blocks_for_free rid m =
     base_pop_blocks_for_free rid
       (if mgr_mamba_cache_mode m = ''align'' then
          m\<lparr>allocated_block_reqs := set_discard rid (allocated_block_reqs m),
            last_state_block_idx := dict_del rid (last_state_block_idx m),
            num_checkpoint_blocks := dict_del rid (num_checkpoint_blocks m),
            producer_partial_tail_reqs := dict_del rid (producer_partial_tail_reqs m),
            pending_partial_tail_offloads := filter (\<lambda>(r, _). r \<noteq> rid) (pending_partial_tail_offloads m)\<rparr>
        else m)"

definition mamba_cache_partial_tail_block ::
    "(bytes \<Rightarrow> bytes) \<Rightarrow> bool \<Rightarrow> Request \<Rightarrow> int \<Rightarrow> manager \<Rightarrow> block_pool
     \<Rightarrow> (bytes option \<times> Request \<times> manager \<times> block_pool) result" where
  "mamba_cache_partial_tail_block sha u r n_tokens m s =
     (let hbs = hash_block_size s; rid = request_id r in
      if mgr_block_size m = hbs \<or> n_tokens mod mgr_block_size m = 0 \<or> n_tokens mod hbs \<noteq> 0 \<or>
         n_tokens \<noteq> num_prompt_tokens r div hbs * hbs
      then Inr (None, r, m, s)
      else
        let block_idx = n_tokens div mgr_block_size m;
            m = open_req rid m;
            blocks = req_blocks m rid
        in
        if block_idx \<ge> int (length blocks) then Inr (None, r, m, s)
        else
          and_then (py_index blocks block_idx) (\<lambda>source_block.
          if is_null (blk s source_block) then Inr (None, r, m, s)
          else
            and_then (cache_partial_block sha u r source_block n_tokens (kv_cache_group_id m) (mgr_block_size m) s)
              (\<lambda>(partial_hash, r, s).
               case partial_hash of
                 None \<Rightarrow> Inr (None, r, m, s)
               | Some h \<Rightarrow> Inr (Some h, r,
                   m\<lparr>partial_hit_reqs := dict_set rid (block_idx, source_block) (partial_hit_reqs m),
                     num_cached_block := dict_set rid block_idx (num_cached_block m),
                     producer_partial_tail_reqs := dict_set rid n_tokens (producer_partial_tail_reqs m)\<rparr>, s))))"

definition note_cached_block :: "block_pool \<Rightarrow> block_ref \<Rightarrow> manager \<Rightarrow> manager" where
  "note_cached_block s b m =
     (if is_null (blk s b) then m
      else case block_hash (blk s b) of
        None \<Rightarrow> m
      | Some h \<Rightarrow> m\<lparr>cached_blocks_this_step := set_add h (cached_blocks_this_step m)\<rparr>)"

definition mamba_cache_blocks ::
    "(bytes \<Rightarrow> bytes) \<Rightarrow> bool \<Rightarrow> Request \<Rightarrow> int \<Rightarrow> int option \<Rightarrow> manager \<Rightarrow> block_pool
     \<Rightarrow> (Request \<times> manager \<times> block_pool) result" where
  "mamba_cache_blocks sha u r n_tokens retention_interval m s =
     (let rid = request_id r;
          num_cached_blocks_before = (case dict_get (num_cached_block m) rid of None \<Rightarrow> 0 | Some n \<Rightarrow> n)
      in
      and_then (base_cache_blocks sha u r n_tokens retention_interval m s) (\<lambda>(r, m, s).
      let num_cached_blocks_after = (case dict_get (num_cached_block m) rid of None \<Rightarrow> 0 | Some n \<Rightarrow> n) in
      and_then (if mgr_mamba_cache_mode m = ''align''
                then and_then (mamba_cache_partial_tail_block sha u r n_tokens m s) (\<lambda>(partial_hash, r, m, s).
                       Inr (r, (case partial_hash of
                                  None \<Rightarrow> m
                                | Some h \<Rightarrow> m\<lparr>cached_blocks_this_step := set_add h (cached_blocks_this_step m)\<rparr>), s))
                else Inr (r, m, s)) (\<lambda>(r, m, s).
      if num_cached_blocks_after > num_cached_blocks_before
      then let m = open_req rid m
           in Inr (r, fold (note_cached_block s) (py_slice (req_blocks m rid) num_cached_blocks_before num_cached_blocks_after) m, s)
      else Inr (r, m, s))))"

section \<open>Dispatch\<close>

definition get_num_blocks_to_allocate ::
    "string \<Rightarrow> int \<Rightarrow> block_ref list \<Rightarrow> int \<Rightarrow> int \<Rightarrow> int \<Rightarrow> bool \<Rightarrow> manager \<Rightarrow> block_pool \<Rightarrow> (int \<times> manager) result" where
  "get_num_blocks_to_allocate rid n_tokens new_computed_blocks total_computed_tokens local_tokens tokens_main_model
       apply_cap m s =
     (case mgr_class m of
        MambaManager \<Rightarrow> mamba_get_num_blocks_to_allocate rid n_tokens new_computed_blocks total_computed_tokens
          local_tokens tokens_main_model apply_cap m s
      | _ \<Rightarrow> and_then (base_get_num_blocks_to_allocate m s rid n_tokens new_computed_blocks total_computed_tokens
          local_tokens apply_cap) (\<lambda>n. Inr (n, m)))"

definition add_local_computed_blocks ::
    "string \<Rightarrow> block_ref list \<Rightarrow> int \<Rightarrow> int \<Rightarrow> manager \<Rightarrow> block_pool \<Rightarrow> (manager \<times> block_pool) result" where
  "add_local_computed_blocks rid new_computed_blocks local_tokens external_tokens m s =
     (case mgr_class m of
        CrossAttentionManager \<Rightarrow> and_then (py_assert (new_computed_blocks = [])) (\<lambda>_. Inr (m, s))
      | _ \<Rightarrow> base_add_local_computed_blocks rid new_computed_blocks local_tokens external_tokens m s)"

definition allocate_external_computed_blocks ::
    "bool \<Rightarrow> string \<Rightarrow> int \<Rightarrow> int \<Rightarrow> manager \<Rightarrow> block_pool \<Rightarrow> (manager \<times> block_pool) result" where
  "allocate_external_computed_blocks u rid local_tokens external_tokens m s =
     (case mgr_class m of
        CrossAttentionManager \<Rightarrow> Inr (m, s)
      | _ \<Rightarrow> base_allocate_external_computed_blocks u rid local_tokens external_tokens m s)"

definition allocate_new_blocks ::
    "bool \<Rightarrow> string \<Rightarrow> int \<Rightarrow> int \<Rightarrow> manager \<Rightarrow> block_pool \<Rightarrow> (block_ref list \<times> manager \<times> block_pool) result" where
  "allocate_new_blocks u rid n_tokens tokens_main_model m s =
     (case mgr_class m of
        MambaManager \<Rightarrow> mamba_allocate_new_blocks u rid n_tokens tokens_main_model m s
      | _ \<Rightarrow> base_allocate_new_blocks u rid n_tokens m s)"

definition cache_blocks ::
    "(bytes \<Rightarrow> bytes) \<Rightarrow> bool \<Rightarrow> Request \<Rightarrow> int \<Rightarrow> int option \<Rightarrow> manager \<Rightarrow> block_pool
     \<Rightarrow> (Request \<times> manager \<times> block_pool) result" where
  "cache_blocks sha u r n_tokens retention_interval m s =
     (case mgr_class m of
        MambaManager \<Rightarrow> mamba_cache_blocks sha u r n_tokens retention_interval m s
      | CrossAttentionManager \<Rightarrow> Inl ValueError
      | SlidingWindowManager \<Rightarrow> base_cache_blocks sha u r n_tokens retention_interval m s
      | ChunkedLocalAttentionManager \<Rightarrow> base_cache_blocks sha u r n_tokens retention_interval m s
      | _ \<Rightarrow> full_cache_blocks sha u r n_tokens retention_interval m s)"

definition pop_blocks_for_free :: "string \<Rightarrow> manager \<Rightarrow> block_ref list \<times> manager" where
  "pop_blocks_for_free rid m =
     (case mgr_class m of
        MambaManager \<Rightarrow> mamba_pop_blocks_for_free rid m
      | _ \<Rightarrow> base_pop_blocks_for_free rid m)"

definition free_req :: "string \<Rightarrow> manager \<Rightarrow> block_pool \<Rightarrow> (manager \<times> block_pool) result" where
  "free_req rid m s =
     (let (bl, m) = pop_blocks_for_free rid m
      in and_then (free_blocks (rev bl) s) (\<lambda>s. Inr (m, s)))"

definition remove_skipped_blocks ::
    "string \<Rightarrow> int \<Rightarrow> int option \<Rightarrow> manager \<Rightarrow> block_pool \<Rightarrow> (manager \<times> block_pool) result" where
  "remove_skipped_blocks rid processed_computed_tokens prompt_tokens m s =
     (case mgr_class m of
        RSWAManager \<Rightarrow> rswa_remove_skipped_blocks rid processed_computed_tokens prompt_tokens m s
      | MambaManager \<Rightarrow> mamba_remove_skipped_blocks rid processed_computed_tokens m s
      | _ \<Rightarrow> base_remove_skipped_blocks rid processed_computed_tokens m s)"

definition get_num_common_prefix_blocks :: "string \<Rightarrow> manager \<Rightarrow> block_pool \<Rightarrow> int \<times> manager" where
  "get_num_common_prefix_blocks rid m s =
     (case mgr_class m of
        SlidingWindowManager \<Rightarrow> (0, m)
      | ChunkedLocalAttentionManager \<Rightarrow> (0, m)
      | MambaManager \<Rightarrow> (0, m)
      | CrossAttentionManager \<Rightarrow> (0, m)
      | _ \<Rightarrow> full_get_num_common_prefix_blocks rid m s)"

definition new_step_starts :: "manager \<Rightarrow> manager" where
  "new_step_starts m =
     (case mgr_class m of MambaManager \<Rightarrow> m\<lparr>cached_blocks_this_step := []\<rparr> | _ \<Rightarrow> m)"

end
