(* ===== verification/Manager_Refs.thy ===== *)
theory Manager_Refs
  imports Single_Type_Manager
begin

text \<open>
  Who holds which block.  A manager holds one reference for every entry of a block table and one for each end of a
  pending copy; everything else (another manager, the scheduler keeping the ends of a copy until it has run) is a
  multiset \<open>X\<close> of references held outside.  Every operation keeps the reference counts of the pool equal to the sum.
  The null block is not counted.
\<close>

section \<open>References\<close>

definition bidx :: "block_ref \<Rightarrow> nat" where
  "bidx b = (case b of Blk i \<Rightarrow> i | _ \<Rightarrow> 0)"

definition refs_of :: "block_ref list \<Rightarrow> nat multiset" where
  "refs_of bl = mset (map bidx bl)"

definition table_refs :: "(string, block_ref list) dict \<Rightarrow> nat multiset" where
  "table_refs d = (\<Sum>e \<leftarrow> d. refs_of (snd e))"

definition pair_refs :: "(block_ref \<times> block_ref) list \<Rightarrow> nat multiset" where
  "pair_refs ps = (\<Sum>p \<leftarrow> ps. refs_of [fst p, snd p])"

definition mgr_refs :: "manager \<Rightarrow> nat multiset" where
  "mgr_refs m = table_refs (req_to_blocks m) + pair_refs (pending_cow_copies m)"

definition pool_block :: "block_pool \<Rightarrow> block_ref \<Rightarrow> bool" where
  "pool_block s b = (case b of Blk i \<Rightarrow> int i < num_gpu_blocks s | _ \<Rightarrow> False)"

definition in_pool :: "block_pool \<Rightarrow> block_ref list \<Rightarrow> bool" where
  "in_pool s bl = list_all (pool_block s) bl"

definition mgr_ok :: "block_pool \<Rightarrow> manager \<Rightarrow> bool" where
  "mgr_ok s m \<longleftrightarrow> dict_ok (req_to_blocks m) \<and> (\<forall>e \<in> set (req_to_blocks m). in_pool s (snd e)) \<and>
     (\<forall>p \<in> set (pending_cow_copies m). in_pool s [fst p, snd p]) \<and>
     (\<forall>(r, g, b, n) \<in> set (pending_partial_tail_offloads m). pool_block s b) \<and> mgr_null_block m = Blk 0 \<and>
     0 \<le> mgr_num_speculative_blocks m"

text \<open>The manager, the pool and the references outside agree.\<close>

definition holds_refs :: "manager \<times> block_pool \<times> nat multiset \<Rightarrow> bool" where
  "holds_refs = (\<lambda>(m, s, X). mgr_ok s m \<and> client_inv (s, mgr_refs m + X))"

text \<open>A loop over the managers of a coordinator, each with an argument and a result, threading a state.\<close>

fun for_managers ::
    "('a \<Rightarrow> 'm \<Rightarrow> 's \<Rightarrow> ('b \<times> 'm \<times> 's) result) \<Rightarrow> 'a list \<Rightarrow> 'm list \<Rightarrow> 's \<Rightarrow> ('b list \<times> 'm list \<times> 's) result" where
  "for_managers f xs [] s = Inr ([], [], s)"
| "for_managers f [] (m # ms) s = Inl IndexError"
| "for_managers f (x # xs) (m # ms) s =
     and_then (f x m s) (\<lambda>(b, m, s).
     and_then (for_managers f xs ms s) (\<lambda>(bs, ms, s). Inr (b # bs, m # ms, s)))"

section \<open>Facts about references\<close>

lemma bidx_Blk [simp]: "bidx (Blk i) = i"
  by (simp add: bidx_def)

lemma refs_of_simps [simp]:
  "refs_of [] = {#}" "refs_of (b # bl) = add_mset (bidx b) (refs_of bl)" "refs_of (xs @ ys) = refs_of xs + refs_of ys"
  "refs_of (rev bl) = refs_of bl" "refs_of (map Blk js) = mset js" "refs_of (replicate n (Blk 0)) = replicate_mset n 0"
  by (simp_all add: refs_of_def comp_def)

lemma pool_blockE: "pool_block s b \<Longrightarrow> (\<And>i. b = Blk i \<Longrightarrow> int i < num_gpu_blocks s \<Longrightarrow> P) \<Longrightarrow> P"
  by (auto simp: pool_block_def split: block_ref.splits)

lemma pool_block_Blk [simp]: "pool_block s (Blk i) \<longleftrightarrow> int i < num_gpu_blocks s"
  by (simp add: pool_block_def)

lemma in_pool_simps [simp]:
  "in_pool s []" "in_pool s (b # bl) \<longleftrightarrow> pool_block s b \<and> in_pool s bl"
  "in_pool s (xs @ ys) \<longleftrightarrow> in_pool s xs \<and> in_pool s ys" "in_pool s (rev bl) \<longleftrightarrow> in_pool s bl"
  by (simp_all add: in_pool_def)

lemma in_pool_all: "in_pool s bl \<longleftrightarrow> (\<forall>b \<in> set bl. pool_block s b)"
  by (simp add: in_pool_def list_all_iff)

lemma in_pool_image: "in_pool s bl \<longleftrightarrow> set bl \<subseteq> Blk ` {i. int i < num_gpu_blocks s}"
  by (auto simp: in_pool_all elim: pool_blockE)

lemma in_pool_sub: "in_pool s bl \<Longrightarrow> set bl' \<subseteq> set bl \<Longrightarrow> in_pool s bl'"
  by (auto simp: in_pool_all)

lemma in_poolE:
  assumes "in_pool s bl"
  obtains js where "bl = map Blk js" and "\<And>j. j \<in> set js \<Longrightarrow> int j < num_gpu_blocks s"
proof
  show "bl = map Blk (map bidx bl)" using assms by (induction bl) (auto elim: pool_blockE)
  show "int j < num_gpu_blocks s" if "j \<in> set (map bidx bl)" for j
    using assms that by (auto simp: in_pool_all elim!: pool_blockE)
qed

lemma pool_block_frame: "same_config s s' \<Longrightarrow> pool_block s' b = pool_block s b"
  by (simp add: pool_block_def same_config_def split: block_ref.split)

lemma in_pool_frame: "same_config s s' \<Longrightarrow> in_pool s' bl = in_pool s bl"
  by (simp add: in_pool_image same_config_def)

lemma mgr_ok_frame: "same_config s s' \<Longrightarrow> mgr_ok s' m = mgr_ok s m"
  by (simp add: mgr_ok_def in_pool_frame pool_block_frame)

text \<open>A dictionary split at a key.\<close>

lemma table_refs_Cons: "table_refs (e # d) = refs_of (snd e) + table_refs d"
  by (simp add: table_refs_def)

lemma dict_del_Cons: "dict_ok ((a, v) # d) \<Longrightarrow> dict_del k ((a, v) # d) = (if a = k then d else (a, v) # dict_del k d)"
  by (auto simp: dict_ok_def delete_id)

lemma table_refs_get:
  assumes "dict_ok d"
  shows "table_refs d = refs_of (case dict_get d k of None \<Rightarrow> [] | Some bl \<Rightarrow> bl) + table_refs (dict_del k d)"
  using assms
proof (induction d)
  case (Cons e d)
  obtain a bl where e: "e = (a, bl)" by fastforce
  have "dict_ok d" using Cons.prems by (simp add: dict_ok_def)
  then show ?case
    using Cons.IH dict_del_Cons [of a bl d k] Cons.prems e by (cases "a = k") (simp_all add: table_refs_Cons)
qed simp

lemma table_refs_set:
  assumes "dict_ok d" shows "table_refs (dict_set k bl d) = refs_of bl + table_refs (dict_del k d)"
  using assms
proof (induction d)
  case (Cons e d)
  obtain a cl where e: "e = (a, cl)" by fastforce
  have "dict_ok d" using Cons.prems by (simp add: dict_ok_def)
  then show ?case
    using Cons.IH dict_del_Cons [of a cl d k] Cons.prems e by (cases "a = k") (simp_all add: table_refs_Cons)
qed (simp add: table_refs_def)

lemma dict_set_subset: "set (dict_set k v d) \<subseteq> insert (k, v) (set d)"
  by (induction d) auto

lemma dict_del_subset: "set (dict_del k d) \<subseteq> set d"
  by (auto simp: AList.delete_eq)

lemma pair_refs_simps [simp]:
  "pair_refs [] = {#}" "pair_refs (ps @ qs) = pair_refs ps + pair_refs qs" "pair_refs [(a, b)] = {#bidx a, bidx b#}"
  by (simp_all add: pair_refs_def)

section \<open>The pool's operations in terms of references\<close>

lemma own_new:
  assumes inv: "client_inv (s, H)" and n: "0 \<le> n" and eq: "get_new_blocks u n s = Inr (bl, s')"
  shows "client_inv (s', H + refs_of bl)" and "in_pool s bl" and "same_config s s'"
    and "\<forall>b \<in> set bl. 0 < bidx b \<and> bidx b \<notin># H" and "int (length bl) = n"
proof -
  have p: "pool_inv s" using inv by (simp add: client_inv_def)
  from get_new_blocks_returns [OF p n eq] obtain xs where xs: "free_list s xs" "nat n \<le> length xs"
    "bl = map Blk (take (nat n) xs)" "same_config s s'" by blast
  have "pool_step (s, H) (s', H + mset (take (nat n) xs))"
    by (rule step_new [OF n]) (use eq xs(3) in simp)
  then show "client_inv (s', H + refs_of bl)" using pool_step_inv inv xs(3) by fastforce
  have fr: "0 < j \<and> int j < num_gpu_blocks s \<and> ref_cnt (blk s (Blk j)) = 0" if "j \<in> set (take (nat n) xs)" for j
    using that free_inv_mem [OF _ xs(1)] p by (auto simp: pool_inv_def dest: in_set_takeD)
  then show "in_pool s bl" using xs(3) by (auto simp: in_pool_all)
  have cnt: "ref_cnt (blk s (Blk j)) = int (count H j)" if "0 < j" for j
    using inv that by (simp add: client_inv_def)
  then have "0 < j \<and> j \<notin># H" if "j \<in> set (take (nat n) xs)" for j
    using fr [OF that] cnt [of j] by (simp add: not_in_iff)
  then show "\<forall>b \<in> set bl. 0 < bidx b \<and> bidx b \<notin># H" using xs(3) by auto
  show "same_config s s'" by (rule xs(4))
  show "int (length bl) = n" using xs(2,3) n by simp
qed

lemma own_touch:
  assumes inv: "client_inv (s, H)" and "in_pool s bl" and eq: "touch bl s = Inr s'"
  shows "client_inv (s', H + refs_of bl)" and "same_config s s'"
proof -
  have p: "pool_inv s" using inv by (simp add: client_inv_def)
  obtain js where js: "bl = map Blk js" "\<And>j. j \<in> set js \<Longrightarrow> int j < num_gpu_blocks s"
    using in_poolE [OF assms(2)] by blast
  have "pool_step (s, H) (s', H + mset js)" using step_touch [OF js(2)] eq js(1) by simp
  then show "client_inv (s', H + refs_of bl)" using pool_step_inv inv js(1) by fastforce
  obtain xs where xs: "free_list s xs" using free_list_exists [OF p] by blast
  show "same_config s s'"
    using touch_correct [OF p xs, of js] js eq by (auto dest: same_hashes_config)
qed

lemma own_free:
  assumes inv: "client_inv (s, H + refs_of bl)" and "in_pool s bl" and eq: "free_blocks bl s = Inr s'"
  shows "client_inv (s', H)" and "same_config s s'"
proof -
  have p: "pool_inv s" using inv by (simp add: client_inv_def)
  obtain js where js: "bl = map Blk js" and lt: "\<And>j. j \<in> set js \<Longrightarrow> int j < num_gpu_blocks s"
    using in_poolE [OF assms(2)] by blast
  then have refs: "refs_of bl = mset js" by simp
  have "pool_step (s, H + mset js) (s', H + mset js - mset js)"
    by (rule step_free) (use eq js in auto)
  then show "client_inv (s', H)" using pool_step_inv inv refs by fastforce
  obtain xs where xs: "free_list s xs" using free_list_exists [OF p] by blast
  have cnt: "int (count_list js j) \<le> ref_cnt (blk s (Blk j))" if "j \<noteq> 0" for j
    using inv that refs count_mset_list [of js j] by (auto simp: client_inv_def)
  show "same_config s s'"
    using free_blocks_correct [OF p xs lt cnt] eq js by (auto dest: same_hashes_config)
qed

text \<open>One more reference to a block that is held already: the free list does not change.\<close>

lemma own_add_ref:
  assumes inv: "client_inv (s, H)" and i: "i \<in># H"
  shows "client_inv (add_ref 1 (Blk i) s, add_mset i H)" and "same_config s (add_ref 1 (Blk i) s)"
proof -
  let ?s = "add_ref 1 (Blk i) s"
  have fr: "same_links s ?s" "same_hashes s ?s" by (simp_all add: frame_simps)
  then show sc: "same_config s ?s" by (simp add: same_hashes_config)
  have p: "pool_inv s" and cnt: "\<And>j. 0 < j \<Longrightarrow> ref_cnt (blk s (Blk j)) = int (count H j)"
    and lt: "\<And>j. j \<in># H \<Longrightarrow> int j < num_gpu_blocks s"
    using inv by (auto simp: client_inv_def)
  have h: "hash_inv ?s" using hash_inv_frame [OF fr(2)] p by (simp add: pool_inv_def)
  have f: "free_inv s" using p by (simp add: pool_inv_def)
  obtain xs where xs: "free_list s xs" using free_list_exists [OF p] by blast
  have rc: "ref_cnt (blk ?s (Blk j)) = ref_cnt (blk s (Blk j)) + (if j = i then 1 else 0)" for j
    by (simp add: add_ref_count)
  have nz: "0 < j \<Longrightarrow> ref_cnt (blk ?s (Blk j)) = 0 \<longleftrightarrow> ref_cnt (blk s (Blk j)) = 0" for j
    using rc [of j] cnt [of j] i by (auto simp: not_in_iff)
  have "free_inv ?s"
  proof (rule free_invI)
    show "free_list ?s xs" using xs same_links_free_list [OF fr(1)] by simp
    show "j \<in> set xs \<longleftrightarrow> 0 < j \<and> int j < num_gpu_blocks ?s \<and> ref_cnt (blk ?s (Blk j)) = 0" for j
      using free_inv_mem [OF f xs] nz [of j] same_linksD(2) [OF fr(1)] by auto
    show "0 \<le> ref_cnt (blk ?s (Blk j))" if "0 < j" for j
      using rc [of j] cnt [OF that] by simp
    show "is_null (blk ?s (Blk j)) \<longleftrightarrow> j = 0" for j
      using free_invD(3) [OF f] same_linksD(1) [OF fr(1)] by simp
    show "0 < num_gpu_blocks ?s" "null_block ?s = Blk 0"
      using free_invD(4,5) [OF f] same_linksD(2,3) [OF fr(1)] by simp_all
  qed
  then show "client_inv (?s, add_mset i H)"
    using h rc cnt lt i same_linksD(2) [OF fr(1)] by (auto simp: client_inv_def pool_inv_def)
qed

text \<open>The null block is not counted.\<close>

lemma own_nulls: "client_inv (s, replicate_mset n 0 + H) \<longleftrightarrow> client_inv (s, H)"
proof -
  have "0 < num_gpu_blocks s" if "pool_inv s" using that free_invD(4) by (simp add: pool_inv_def)
  then show ?thesis by (auto simp: client_inv_def split: if_splits)
qed

lemma own_null: "client_inv (s, add_mset 0 H) \<longleftrightarrow> client_inv (s, H)"
  using own_nulls [of s 1 H] by simp

section \<open>Block tables\<close>

text \<open>The references besides the table of one request.\<close>

definition rest_refs :: "string \<Rightarrow> manager \<Rightarrow> nat multiset" where
  "rest_refs rid m = table_refs (dict_del rid (req_to_blocks m)) + pair_refs (pending_cow_copies m)"

named_theorems mgr_frame \<open>fields outside the block tables\<close>

lemma mgr_refs_frame [mgr_frame]:
  "mgr_refs (m\<lparr>num_cached_block := a\<rparr>) = mgr_refs m" "mgr_refs (m\<lparr>partial_hit_reqs := b\<rparr>) = mgr_refs m"
  "mgr_refs (m\<lparr>new_block_ids := c\<rparr>) = mgr_refs m" "mgr_refs (m\<lparr>num_checkpoint_blocks := d\<rparr>) = mgr_refs m"
  "mgr_refs (m\<lparr>allocated_block_reqs := e\<rparr>) = mgr_refs m" "mgr_refs (m\<lparr>last_state_block_idx := f\<rparr>) = mgr_refs m"
  "mgr_refs (m\<lparr>producer_partial_tail_reqs := g\<rparr>) = mgr_refs m"
  "mgr_refs (m\<lparr>pending_partial_tail_offloads := h\<rparr>) = mgr_refs m"
  "mgr_refs (m\<lparr>cached_blocks_this_step := i\<rparr>) = mgr_refs m"
  by (simp_all add: mgr_refs_def)

lemma mgr_ok_fields [mgr_frame]:
  "mgr_ok s (m\<lparr>num_cached_block := a\<rparr>) = mgr_ok s m" "mgr_ok s (m\<lparr>partial_hit_reqs := b\<rparr>) = mgr_ok s m"
  "mgr_ok s (m\<lparr>new_block_ids := c\<rparr>) = mgr_ok s m" "mgr_ok s (m\<lparr>num_checkpoint_blocks := d\<rparr>) = mgr_ok s m"
  "mgr_ok s (m\<lparr>allocated_block_reqs := e\<rparr>) = mgr_ok s m" "mgr_ok s (m\<lparr>last_state_block_idx := f\<rparr>) = mgr_ok s m"
  "mgr_ok s (m\<lparr>producer_partial_tail_reqs := g\<rparr>) = mgr_ok s m"
  "mgr_ok s (m\<lparr>cached_blocks_this_step := i\<rparr>) = mgr_ok s m"
  by (simp_all add: mgr_ok_def)

lemma req_blocks_fields [mgr_frame]:
  "req_blocks (m\<lparr>num_cached_block := a\<rparr>) = req_blocks m" "req_blocks (m\<lparr>partial_hit_reqs := b\<rparr>) = req_blocks m"
  "req_blocks (m\<lparr>new_block_ids := c\<rparr>) = req_blocks m" "req_blocks (m\<lparr>num_checkpoint_blocks := d\<rparr>) = req_blocks m"
  "req_blocks (m\<lparr>allocated_block_reqs := e\<rparr>) = req_blocks m" "req_blocks (m\<lparr>last_state_block_idx := f\<rparr>) = req_blocks m"
  "req_blocks (m\<lparr>producer_partial_tail_reqs := g\<rparr>) = req_blocks m"
  "req_blocks (m\<lparr>pending_partial_tail_offloads := h\<rparr>) = req_blocks m"
  "req_blocks (m\<lparr>cached_blocks_this_step := i\<rparr>) = req_blocks m"
  "req_blocks (m\<lparr>pending_cow_copies := j\<rparr>) = req_blocks m"
  by (simp_all add: req_blocks_def fun_eq_iff)

lemma holds_refs_fields [mgr_frame]:
  "holds_refs (m\<lparr>num_cached_block := a\<rparr>, s, X) = holds_refs (m, s, X)"
  "holds_refs (m\<lparr>partial_hit_reqs := b\<rparr>, s, X) = holds_refs (m, s, X)"
  "holds_refs (m\<lparr>new_block_ids := c\<rparr>, s, X) = holds_refs (m, s, X)"
  "holds_refs (m\<lparr>num_checkpoint_blocks := d\<rparr>, s, X) = holds_refs (m, s, X)"
  "holds_refs (m\<lparr>allocated_block_reqs := e\<rparr>, s, X) = holds_refs (m, s, X)"
  "holds_refs (m\<lparr>last_state_block_idx := f\<rparr>, s, X) = holds_refs (m, s, X)"
  "holds_refs (m\<lparr>producer_partial_tail_reqs := g\<rparr>, s, X) = holds_refs (m, s, X)"
  "holds_refs (m\<lparr>cached_blocks_this_step := i\<rparr>, s, X) = holds_refs (m, s, X)"
  by (simp_all add: holds_refs_def mgr_frame)

lemma holds_refs_offloads:
  assumes "holds_refs (m, s, X)" and "set h \<subseteq> set (pending_partial_tail_offloads m)"
  shows "holds_refs (m\<lparr>pending_partial_tail_offloads := h\<rparr>, s, X)"
  using assms by (auto simp: holds_refs_def mgr_ok_def mgr_frame)

lemma mgr_refs_split: "mgr_ok s m \<Longrightarrow> mgr_refs m = refs_of (req_blocks m rid) + rest_refs rid m"
  using table_refs_get [of "req_to_blocks m" rid]
  by (simp add: mgr_refs_def rest_refs_def req_blocks_def mgr_ok_def)

lemma mgr_refs_put: "mgr_ok s m \<Longrightarrow> mgr_refs (put_blocks rid bl m) = refs_of bl + rest_refs rid m"
  using table_refs_set [of "req_to_blocks m" rid bl]
  by (simp add: mgr_refs_def rest_refs_def put_blocks_def mgr_ok_def)

lemma req_blocks_put [simp]: "req_blocks (put_blocks rid bl m) k = (if k = rid then bl else req_blocks m k)"
  by (simp add: req_blocks_def put_blocks_def update_conv')

lemma put_blocks_put [simp]: "put_blocks rid bl (put_blocks rid cl m) = put_blocks rid bl m"
  by (simp add: put_blocks_def)

lemma put_blocks_sel [simp]:
  "mgr_null_block (put_blocks rid bl m) = mgr_null_block m" "mgr_block_size (put_blocks rid bl m) = mgr_block_size m"
  "mgr_class (put_blocks rid bl m) = mgr_class m" "mgr_spec (put_blocks rid bl m) = mgr_spec m"
  "mgr_caching (put_blocks rid bl m) = mgr_caching m"
  "partial_hit_reqs (put_blocks rid bl m) = partial_hit_reqs m"
  "num_cached_block (put_blocks rid bl m) = num_cached_block m"
  "records_new_block_ids (put_blocks rid bl m) = records_new_block_ids m"
  "pending_cow_copies (put_blocks rid bl m) = pending_cow_copies m"
  "kv_cache_group_id (put_blocks rid bl m) = kv_cache_group_id m"
  "mgr_num_speculative_blocks (put_blocks rid bl m) = mgr_num_speculative_blocks m"
  "mgr_mamba_cache_mode (put_blocks rid bl m) = mgr_mamba_cache_mode m"
  by (simp_all add: put_blocks_def)

lemma mgr_ok_put: "mgr_ok s m \<Longrightarrow> in_pool s bl \<Longrightarrow> mgr_ok s (put_blocks rid bl m)"
  using dict_set_subset [of rid bl "req_to_blocks m"] by (auto simp: mgr_ok_def put_blocks_def)

lemma mgr_ok_blocks: "mgr_ok s m \<Longrightarrow> in_pool s (req_blocks m rid)"
  by (auto simp: mgr_ok_def req_blocks_def dest!: map_of_SomeD split: option.splits)

lemma open_req_put: "mgr_ok s m \<Longrightarrow> open_req rid m = (if dict_get (req_to_blocks m) rid = None then put_blocks rid (req_blocks m rid) m else m)"
  by (simp add: open_req_def req_blocks_def)

lemma req_blocks_open [simp]: "req_blocks (open_req rid m) k = req_blocks m k"
  by (simp add: open_req_def req_blocks_def put_blocks_def update_conv')

lemma open_req_sel [simp]:
  "mgr_null_block (open_req rid m) = mgr_null_block m" "mgr_block_size (open_req rid m) = mgr_block_size m"
  "partial_hit_reqs (open_req rid m) = partial_hit_reqs m" "num_cached_block (open_req rid m) = num_cached_block m"
  "records_new_block_ids (open_req rid m) = records_new_block_ids m" "mgr_class (open_req rid m) = mgr_class m"
  "kv_cache_group_id (open_req rid m) = kv_cache_group_id m"
  "mgr_num_speculative_blocks (open_req rid m) = mgr_num_speculative_blocks m"
  "mgr_mamba_cache_mode (open_req rid m) = mgr_mamba_cache_mode m"
  by (simp_all add: open_req_def)

lemma mgr_ok_open: "mgr_ok s m \<Longrightarrow> mgr_ok s (open_req rid m)"
  by (simp add: open_req_def mgr_ok_put)

lemma mgr_refs_open: "mgr_ok s m \<Longrightarrow> mgr_refs (open_req rid m) = mgr_refs m"
  using mgr_refs_split [of s m rid] mgr_refs_put [of s m rid "[]"] by (auto simp: open_req_def req_blocks_def)

lemma holds_refs_open: "holds_refs (m, s, X) \<Longrightarrow> holds_refs (open_req rid m, s, X)"
  using mgr_refs_open [of s m rid] by (simp add: holds_refs_def mgr_ok_open)

text \<open>Replacing the table of a request: the references of the old table are exchanged for those of the new one.\<close>

lemma holds_refs_put:
  assumes "holds_refs (m, s, X)" and "in_pool s' bl" and "same_config s s'"
    and "client_inv (s', refs_of bl + rest_refs rid m + X)"
  shows "holds_refs (put_blocks rid bl m, s', X)"
  using assms mgr_refs_put [of s' m rid bl] mgr_ok_put [of s' m bl rid] by (simp add: holds_refs_def mgr_ok_frame)

lemma holds_refsD:
  assumes "holds_refs (m, s, X)"
  shows "mgr_ok s m" and "client_inv (s, mgr_refs m + X)" and "in_pool s (req_blocks m rid)"
    and "mgr_null_block m = Blk 0" and "client_inv (s, refs_of (req_blocks m rid) + rest_refs rid m + X)"
    and "0 < num_gpu_blocks s"
  using assms mgr_refs_split [of s m rid] mgr_ok_blocks [of s m rid] free_invD(4) [of s]
  by (simp_all add: holds_refs_def mgr_ok_def client_inv_def pool_inv_def)

section \<open>Every operation keeps the count\<close>

lemma record_new_holds [mgr_frame]: "holds_refs (record_new rec bl s' m, s, X) = holds_refs (m, s, X)"
  by (simp add: record_new_def mgr_frame)

lemma note_local_hit_holds [mgr_frame]:
  "holds_refs (note_local_hit rid bl nb l m, s, X) = holds_refs (put_blocks rid bl m, s, X)"
  by (simp add: note_local_hit_def Let_def mgr_frame)

lemma own_local:
  assumes h: "holds_refs (m, s, X)" and ncb: "in_pool s ncb"
    and eq: "base_add_local_computed_blocks rid ncb l e m s = Inr (m', s')"
  shows "holds_refs (m', s', X)" and "same_config s s'"
proof -
  define k where "k = get_num_skipped_tokens m (l + e) div mgr_block_size m"
  define nb where "nb = (if k > 0 then py_slice_from ncb k else ncb)"
  have nb: "in_pool s nb"
    using ncb set_drop_subset [of "slice_bound (length ncb) k" ncb]
    by (auto simp: nb_def py_slice_from_def intro: in_pool_sub)
  from eq obtain s1 where emp: "req_blocks m rid = []"
    and s1: "(if mgr_caching m then touch nb s else and_then (py_assert (nb = [])) (\<lambda>_. Inr s)) = Inr s1"
    and m': "m' = note_local_hit rid (replicate (nat k) (mgr_null_block m) @ nb) nb l m" and s': "s' = s1"
    unfolding base_add_local_computed_blocks_def k_def [symmetric] Let_def nb_def [symmetric]
    by (elim and_thenE) simp
  have inv: "client_inv (s, rest_refs rid m + X)" using holds_refsD(5) [OF h, of rid] emp by simp
  have "client_inv (s1, rest_refs rid m + X + refs_of nb) \<and> same_config s s1"
    using s1 own_touch [OF inv nb] inv by (auto simp: result_simps split: if_splits)
  then have c: "client_inv (s1, refs_of nb + rest_refs rid m + X)" and sc: "same_config s s1" by (simp_all add: ac_simps)
  have pool: "in_pool s1 (replicate (nat k) (mgr_null_block m) @ nb)"
    using nb holds_refsD(4,6) [OF h] sc by (auto simp: in_pool_frame in_pool_all pool_block_frame)
  have "holds_refs (put_blocks rid (replicate (nat k) (mgr_null_block m) @ nb) m, s1, X)"
    using c own_nulls [of s1 "nat k" "refs_of nb + rest_refs rid m + X"] holds_refsD(4) [OF h]
    by (intro holds_refs_put [OF h pool sc]) (simp add: add.assoc)
  then show "holds_refs (m', s', X)" using m' s' by (simp add: mgr_frame)
  show "same_config s s'" using sc s' by simp
qed

lemma own_get_new:
  assumes h: "holds_refs (m, s, X)" and n: "0 \<le> n" and eq: "get_new_blocks u n s = Inr (bl, s')"
  shows "holds_refs (put_blocks rid (req_blocks m rid @ bl) m, s', X)" and "same_config s s'"
proof -
  note new = own_new [OF holds_refsD(2) [OF h] n eq]
  show "same_config s s'" by (rule new(3))
  show "holds_refs (put_blocks rid (req_blocks m rid @ bl) m, s', X)"
    using new holds_refsD(3) [OF h, of rid] mgr_refs_split [OF holds_refsD(1) [OF h], of rid]
    by (intro holds_refs_put [OF h _ new(3)]) (simp_all add: in_pool_frame ac_simps)
qed

lemma own_external:
  assumes h: "holds_refs (m, s, X)" and n: "int (length (req_blocks m rid)) \<le> cdiv (l + e) (mgr_block_size m)"
    and eq: "base_allocate_external_computed_blocks u rid l e m s = Inr (m', s')"
  shows "holds_refs (m', s', X)" and "same_config s s'"
proof -
  have "(m' = m \<and> s' = s) \<or> (\<exists>bl. get_new_blocks u (cdiv (l + e) (mgr_block_size m) - int (length (req_blocks m rid))) s = Inr (bl, s') \<and>
      m' = record_new (records_new_block_ids m) bl s' (put_blocks rid (req_blocks m rid @ bl) m))"
    using eq by (auto simp: base_allocate_external_computed_blocks_def Let_def result_simps split: if_splits)
  then show "holds_refs (m', s', X)" and "same_config s s'"
    using h n own_get_new [OF h, of "cdiv (l + e) (mgr_block_size m) - int (length (req_blocks m rid))" u _ s']
    by (auto simp: mgr_frame)
qed

text \<open>Replacing one entry of a list.\<close>

lemma py_index_store:
  assumes "py_index xs i = Inr b" and "py_store xs i v = Inr ys"
  shows "add_mset (bidx b) (refs_of ys) = add_mset (bidx v) (refs_of xs)" and "b \<in> set xs"
    and "set ys \<subseteq> insert v (set xs)" and "length ys = length xs"
proof -
  define j where "j = (if i < 0 then length xs - nat (- i) else nat i)"
  have j: "j < length xs" "b = xs ! j" "ys = xs[j := v]"
    using assms by (auto simp: j_def py_index_def py_store_def split: if_splits)
  then show "b \<in> set xs" "set ys \<subseteq> insert v (set xs)" "length ys = length xs"
    by (simp_all add: set_update_subset_insert)
  have "bidx b \<in># refs_of xs" using j(1,2) by (auto simp: refs_of_def)
  then show "add_mset (bidx b) (refs_of ys) = add_mset (bidx v) (refs_of xs)"
    using j by (simp add: refs_of_def map_update mset_update)
qed

lemma py_index_mem: "py_index xs i = Inr b \<Longrightarrow> b \<in> set xs"
  by (auto simp: py_index_def split: if_splits)

lemma own_cow:
  assumes h: "holds_refs (m, s, add_mset (bidx cow) X)" and cow: "pool_block s cow"
    and eq: "apply_cow rid i src cow m s = Inr (m', s')"
  shows "holds_refs (m', s', X)" and "same_config s s'"
proof -
  from eq obtain bl where idx: "py_index (req_blocks m rid) i = Inr src"
    and st: "py_store (req_blocks m rid) i cow = Inr bl"
    and m': "m' = (put_blocks rid bl m)\<lparr>pending_cow_copies := pending_cow_copies m @ [(src, cow)]\<rparr>"
    and s': "s' = add_ref 1 cow s"
    by (auto simp: apply_cow_def result_simps)
  obtain c where c: "cow = Blk c" "int c < num_gpu_blocks s" using cow by (rule pool_blockE)
  have add: "client_inv (s', add_mset c (mgr_refs m + add_mset c X))" "same_config s s'"
    using own_add_ref [OF holds_refsD(2) [OF h], of c] c(1) s' by simp_all
  then show "same_config s s'" by simp
  note e = py_index_store [OF idx st]
  have "mgr_refs m' = refs_of bl + rest_refs rid m + {#bidx src, c#}"
    using mgr_refs_put [OF holds_refsD(1) [OF h], of rid bl] m' c(1) by (simp add: mgr_refs_def rest_refs_def)
  also have "\<dots> = add_mset c (add_mset c (mgr_refs m))"
    using e(1) mgr_refs_split [OF holds_refsD(1) [OF h], of rid] c(1) by (simp add: ac_simps)
  finally have refs: "mgr_refs m' = \<dots>" .
  have "in_pool s bl" using e(3) cow holds_refsD(3) [OF h, of rid] by (auto simp: in_pool_all)
  moreover have "pool_block s src" using e(2) holds_refsD(3) [OF h, of rid] by (simp add: in_pool_all)
  ultimately have "mgr_ok s m'"
    using mgr_ok_put [OF holds_refsD(1) [OF h], of bl rid] cow m' by (auto simp: mgr_ok_def)
  then show "holds_refs (m', s', X)"
    using add refs by (simp add: holds_refs_def mgr_ok_frame ac_simps)
qed

lemma own_redirect:
  assumes h: "holds_refs (m, s, X)" and eq: "redirect_partial_hit u rid m s = Inr (cb, m', s')"
  shows "holds_refs (m', s', X)" and "same_config s s'"
proof -
  have "holds_refs (m', s', X) \<and> same_config s s'"
  proof (cases "dict_get (partial_hit_reqs m) rid")
    case None
    then show ?thesis using eq h by (simp add: redirect_partial_hit_def)
  next
    case (Some p)
    then obtain bl s1 c m2 where new: "get_new_blocks u 1 s = Inr (bl, s1)" and c: "py_index bl 0 = Inr c"
      and cow: "apply_cow rid (fst p) (snd p) c (m\<lparr>partial_hit_reqs := dict_del rid (partial_hit_reqs m)\<rparr>) s1 = Inr (m2, s')"
      and m': "m' = record_new True [c] s' m2"
      using eq by (auto simp: redirect_partial_hit_def Let_def result_simps split: prod.splits)
    note n = own_new [OF holds_refsD(2) [OF h] _ new]
    have bl: "bl = [c]" using n(5) py_index_mem [OF c] by (cases bl) auto
    have h1: "holds_refs (m\<lparr>partial_hit_reqs := dict_del rid (partial_hit_reqs m)\<rparr>, s1, add_mset (bidx c) X)"
      using n(1,3) bl holds_refsD(1) [OF h] by (simp add: holds_refs_def mgr_frame mgr_ok_frame)
    have "pool_block s1 c" using n(2,3) bl by (simp add: pool_block_frame)
    from own_cow [OF h1 this cow] show ?thesis
      using n(3) m' by (auto simp: mgr_frame intro: same_config_trans)
  qed
  then show "holds_refs (m', s', X)" and "same_config s s'" by simp_all
qed

lemma own_alloc:
  assumes h: "holds_refs (m, s, X)" and eq: "base_allocate_new_blocks u rid n m s = Inr (bl, m', s')"
  shows "holds_refs (m', s', X)" and "same_config s s'"
proof -
  from eq obtain cb m1 s1 where red: "redirect_partial_hit u rid m s = Inr (cb, m1, s1)"
    and rest: "(let m = open_req rid m1; k = cdiv n (mgr_block_size m) - int (length (req_blocks m rid))
      in if k \<le> 0 then Inr (cb, m, s1)
         else and_then (get_new_blocks u k s1) (\<lambda>(nb, s). Inr (cb @ nb,
            record_new (records_new_block_ids m) nb s (put_blocks rid (req_blocks m rid @ nb) m), s))) = Inr (bl, m', s')"
    by (auto simp: base_allocate_new_blocks_def elim!: and_thenE)
  note r = own_redirect [OF h red]
  note o = holds_refs_open [OF r(1), of rid]
  have "holds_refs (m', s', X) \<and> same_config s1 s'"
    using rest o own_get_new [OF o, of "cdiv n (mgr_block_size (open_req rid m1)) - int (length (req_blocks (open_req rid m1) rid))"]
    by (auto simp: Let_def result_simps mgr_frame split: if_splits)
  then show "holds_refs (m', s', X)" and "same_config s s'"
    using r(2) by (auto intro: same_config_trans)
qed

lemma holds_same_refs:
  assumes "holds_refs (m, s, X)" and "same_refs s s'" and "pool_inv s'"
  shows "holds_refs (m, s', X)" and "same_config s s'"
  using assms client_inv_refs [OF _ assms(2,3), of "mgr_refs m + X"]
  by (auto simp: holds_refs_def mgr_ok_frame dest: same_refs_config)

lemma holds_pool: "holds_refs (m, s, X) \<Longrightarrow> pool_inv s"
  by (simp add: holds_refs_def client_inv_def)

lemma own_cache_base:
  assumes h: "holds_refs (m, s, X)" and eq: "base_cache_blocks sha u r n ri m s = Inr (r', m', s')"
  shows "holds_refs (m', s', X)" and "same_config s s'"
proof -
  have "holds_refs (m', s', X) \<and> same_config s s'"
  proof (cases "m' = m \<and> s' = s")
    case False
    define rid a b where "rid = request_id r"
      and "a = (case dict_get (num_cached_block m) rid of None \<Rightarrow> 0 | Some n \<Rightarrow> n)" and "b = n div mgr_block_size m"
    have "\<not> a \<ge> b" using eq False by (auto simp: base_cache_blocks_def Let_def a_def b_def rid_def)
    then obtain bm where
      c: "cache_full_blocks sha u r (req_blocks m (request_id r)) a b (mgr_block_size m) (kv_cache_group_id m) bm s = Inr (r', s')"
      and m': "m' = (open_req rid m)\<lparr>num_cached_block := dict_set rid b (num_cached_block (open_req rid m))\<rparr>"
      using eq unfolding base_cache_blocks_def Let_def rid_def [symmetric] a_def [symmetric] b_def [symmetric]
      by (auto elim!: and_thenE)
    have bl: "set (req_blocks m (request_id r)) \<subseteq> Blk ` {i. int i < num_gpu_blocks s}"
      using holds_refsD(3) [OF h] by (simp add: in_pool_image)
    show ?thesis
      using holds_same_refs [OF h cache_full_blocks_inv(2,1) [OF c holds_pool [OF h] bl]] m'
      by (auto simp: mgr_frame intro: holds_refs_open)
  qed (use h in simp)
  then show "holds_refs (m', s', X)" and "same_config s s'" by simp_all
qed

text \<open>Caching a partial block of a table.\<close>

lemma own_partial:
  assumes h: "holds_refs (m, s, X)" and i: "py_index (req_blocks m rid) i = Inr b"
    and eq: "cache_partial_block sha u r b n g bs s = Inr (key, r', s')"
  shows "holds_refs (m, s', X)" and "same_config s s'"
proof -
  have "pool_block s b" using py_index_mem [OF i] holds_refsD(3) [OF h, of rid] by (simp add: in_pool_all)
  then obtain j where j: "b = Blk j" "int j < num_gpu_blocks s" by (rule pool_blockE)
  note p = cache_partial_block_inv [OF eq [unfolded j(1)] holds_pool [OF h] j(2)]
  show "holds_refs (m, s', X)" and "same_config s s'"
    using holds_same_refs [OF h p(2,1)] by simp_all
qed

lemma own_cache_full:
  assumes h: "holds_refs (m, s, X)" and eq: "full_cache_blocks sha u r n ri m s = Inr (r', m', s')"
  shows "holds_refs (m', s', X)" and "same_config s s'"
proof -
  from eq obtain r1 m1 s1 where b: "base_cache_blocks sha u r n ri m s = Inr (r1, m1, s1)"
    and t: "(r', m', s') = (r1, m1, s1) \<or> full_cache_partial_tail_block sha u r1 n m1 s1 = Inr (r', m', s')"
    by (auto simp: full_cache_blocks_def result_simps split: if_splits)
  note h1 = own_cache_base [OF h b]
  note h2 = holds_refs_open [OF h1(1), of "request_id r1"]
  have "holds_refs (m', s', X) \<and> same_config s1 s'"
    using t h1(1) h2 own_partial [OF h2]
    by (auto simp: full_cache_partial_tail_block_def Let_def result_simps split: if_splits)
  then show "holds_refs (m', s', X)" and "same_config s s'"
    using h1(2) by (auto intro: same_config_trans)
qed

lemma own_pop_base:
  assumes h: "holds_refs (m, s, X)" and eq: "base_pop_blocks_for_free rid m = (bl, m')"
  shows "holds_refs (m', s, X + refs_of bl)" and "in_pool s bl"
proof -
  have bl: "bl = req_blocks m rid" and m': "mgr_refs m' = rest_refs rid m" and ok: "mgr_ok s m'"
    using eq holds_refsD(1) [OF h] dict_del_subset [of rid "req_to_blocks m"]
    by (auto simp: base_pop_blocks_for_free_def mgr_refs_def rest_refs_def mgr_ok_def)
  show "in_pool s bl" using holds_refsD(3) [OF h] bl by simp
  show "holds_refs (m', s, X + refs_of bl)"
    using holds_refsD(5) [OF h, of rid] bl m' ok by (simp add: holds_refs_def ac_simps)
qed

lemma own_null_out:
  assumes "null_out nb js bl freed = Inr (bl', freed')"
  shows "(\<exists>k. refs_of bl' + refs_of freed' = refs_of bl + refs_of freed + replicate_mset k (bidx nb)) \<and>
    set bl' \<subseteq> insert nb (set bl) \<and> set freed' \<subseteq> set freed \<union> insert nb (set bl) \<and> length bl' = length bl"
  using assms
proof (induction js arbitrary: bl freed)
  case Nil
  then show ?case by (auto intro: exI [of _ 0])
next
  case (Cons i js)
  from Cons.prems obtain b where b: "py_index bl i = Inr b" by (auto simp: result_simps)
  show ?case
  proof (cases "b = nb")
    case True
    then show ?thesis using Cons.prems b by (auto intro: exI [of _ 0])
  next
    case False
    with Cons.prems b obtain cl where cl: "py_store bl i nb = Inr cl" "null_out nb js cl (freed @ [b]) = Inr (bl', freed')"
      by (auto simp: result_simps)
    note e = py_index_store [OF b cl(1)]
    from Cons.IH [OF cl(2)] obtain k where
      k: "refs_of bl' + refs_of freed' = refs_of cl + refs_of (freed @ [b]) + replicate_mset k (bidx nb)" by blast
    have "refs_of cl + refs_of (freed @ [b]) = add_mset (bidx b) (refs_of cl) + refs_of freed" by (simp add: ac_simps)
    then have "refs_of bl' + refs_of freed' = refs_of bl + refs_of freed + replicate_mset (Suc k) (bidx nb)"
      using k e(1) by (simp add: ac_simps)
    then show ?thesis using Cons.IH [OF cl(2)] e by (intro conjI exI [of _ "Suc k"]) auto
  qed
qed

lemma own_remove:
  assumes h: "holds_refs (m, s, X)" and eq: "remove_blocks_in_range rid a b m s = Inr (m', s')"
  shows "holds_refs (m', s', X)" and "same_config s s'"
proof -
  have "holds_refs (m', s', X) \<and> same_config s s'"
  proof (cases "m' = m \<and> s' = s")
    case False
    define js where "js = rev (py_range a (min b (int (length (req_blocks m rid)))))"
    obtain bl freed where n: "null_out (mgr_null_block m) js (req_blocks m rid) [] = Inr (bl, freed)"
      and r: "(if freed \<noteq> [] then and_then (free_blocks freed s) (\<lambda>s. Inr (put_blocks rid bl m, s))
          else Inr (put_blocks rid bl m, s)) = Inr (m', s')"
      using eq False unfolding remove_blocks_in_range_def Let_def js_def [symmetric]
      by (auto elim!: and_thenE2 split: if_split_asm)
    then have m': "m' = put_blocks rid bl m" and s': "if freed \<noteq> [] then free_blocks freed s = Inr s' else s' = s"
      by (auto simp: result_simps split: if_split_asm)
    note o = own_null_out [OF n]
    then obtain k where k: "refs_of bl + refs_of freed = refs_of (req_blocks m rid) + replicate_mset k 0"
      using holds_refsD(4) [OF h] by auto
    have pool: "in_pool s bl" "in_pool s freed"
      using o holds_refsD(3,4,6) [OF h] by (auto simp: in_pool_all)
    have "client_inv (s, replicate_mset k 0 + (refs_of (req_blocks m rid) + rest_refs rid m + X))"
      using holds_refsD(5) [OF h] by (simp only: own_nulls)
    then have c: "client_inv (s, refs_of bl + rest_refs rid m + X + refs_of freed)"
      using k by (metis (no_types, lifting) add.assoc add.commute)
    have "client_inv (s', refs_of bl + rest_refs rid m + X) \<and> same_config s s'"
      using own_free [OF c pool(2)] c s' by (auto split: if_splits)
    then show ?thesis
      using holds_refs_put [OF h] pool(1) m' by (auto simp: in_pool_frame)
  qed (use h in simp)
  then show "holds_refs (m', s', X)" and "same_config s s'" by simp_all
qed

lemma own_skip_base:
  assumes h: "holds_refs (m, s, X)" and eq: "base_remove_skipped_blocks rid n m s = Inr (m', s')"
  shows "holds_refs (m', s', X)" and "same_config s s'"
  using eq h own_remove [OF holds_refs_open [OF h, of rid]]
  by (auto simp: base_remove_skipped_blocks_def Let_def split: if_splits)

subsection \<open>Mamba\<close>

text \<open>Blocks held outside move into a table.\<close>

lemma own_adopt:
  assumes h: "holds_refs (m, s, refs_of bl + X)" and "in_pool s bl"
  shows "holds_refs (put_blocks rid (req_blocks m rid @ bl) m, s, X)"
  using assms holds_refsD(1) [OF h] holds_refsD(3,5) [OF h, of rid]
    mgr_refs_put [OF holds_refsD(1) [OF h], of rid] mgr_ok_put [OF holds_refsD(1) [OF h]]
  by (simp add: holds_refs_def ac_simps)

lemma holds_align_fields [mgr_frame]:
  "holds_refs (note_cached_block t b m, s, X) = holds_refs (m, s, X)"
  by (simp add: note_cached_block_def mgr_frame split: option.splits)

lemma holds_note_all [mgr_frame]: "holds_refs (fold (note_cached_block t) bl m, s, X) = holds_refs (m, s, X)"
  by (induction bl arbitrary: m) (simp_all add: mgr_frame)

lemma own_move:
  assumes inv: "client_inv (s, H)" and j: "0 < j" "int j < num_gpu_blocks s" "i \<noteq> j"
    and eq: "move_block_hashes (Blk i) (Blk j) s = Inr s'"
  shows "client_inv (s', H)" and "same_config s s'"
proof -
  have h: "hash_inv s" using inv by (simp add: client_inv_def pool_inv_def)
  have "block_hash (blk s (Blk j)) = None"
    using eq by (auto simp: move_block_hashes_def result_simps)
  then have fresh: "owned s j = {}" using hash_invD(5) [OF h] by (simp add: owned_def side_keys_def)
  show "client_inv (s', H)"
    by (rule pool_step_inv [OF step_move [OF j(1,2,3) fresh eq] inv])
  show "same_config s s'"
    using move_block_hashes_correct [OF h j fresh] eq by (auto dest: same_refs_config)
qed

lemma own_align_cow:
  assumes h: "holds_refs (m, s, add_mset (bidx cow) X)" and cow: "pool_block s cow" "0 < bidx cow" "bidx cow \<notin># mgr_refs m"
    and eq: "align_copy_on_write rid i src cow alloc m s = Inr (m', s')"
  shows "holds_refs (m', s', X)" and "same_config s s'"
proof -
  have "holds_refs (m', s', X) \<and> same_config s s'"
  proof (cases alloc)
    case False
    then show ?thesis using eq own_cow [OF h cow(1)] by (simp add: align_copy_on_write_def)
  next
    case True
    with eq obtain s1 where idx: "py_index (req_blocks m rid) i = Inr src"
      and mv: "move_block_hashes src cow s = Inr s1" and s': "s' = add_ref 1 src s1"
      and m': "mgr_refs m' = mgr_refs (m\<lparr>pending_cow_copies := pending_cow_copies m @ [(src, cow)]\<rparr>)"
        "pool_block s' cow \<Longrightarrow> mgr_ok s' (m\<lparr>pending_cow_copies := pending_cow_copies m @ [(src, cow)]\<rparr>) \<Longrightarrow> mgr_ok s' m'"
      by (auto simp: align_copy_on_write_def Let_def result_simps mgr_frame mgr_ok_def split: option.splits)
    obtain c where c: "cow = Blk c" "int c < num_gpu_blocks s" using cow(1) by (rule pool_blockE)
    have src: "src \<in> set (req_blocks m rid)" by (rule py_index_mem [OF idx])
    then have "pool_block s src" using holds_refsD(3) [OF h, of rid] by (simp add: in_pool_all)
    then obtain k where k: "src = Blk k" by (auto elim: pool_blockE)
    have km: "k \<in># mgr_refs m"
      using src k mgr_refs_split [OF holds_refsD(1) [OF h], of rid] by (force simp: refs_of_def)
    then have "k \<noteq> c" using cow(3) c(1) by auto
    from own_move [OF holds_refsD(2) [OF h] _ c(2) this] mv c(1) k cow(2)
    have mv': "client_inv (s1, mgr_refs m + add_mset c X)" "same_config s s1" by simp_all
    have ar: "client_inv (s', add_mset k (mgr_refs m + add_mset c X))" "same_config s1 s'"
      using own_add_ref [OF mv'(1), of k] km s' k by simp_all
    have sc: "same_config s s'" using mv'(2) ar(2) by (rule same_config_trans)
    have "mgr_ok s' (m\<lparr>pending_cow_copies := pending_cow_copies m @ [(src, cow)]\<rparr>)"
      using holds_refsD(1) [OF h] cow(1) \<open>pool_block s src\<close>
      by (auto simp: mgr_ok_def in_pool_frame [OF sc] pool_block_frame [OF sc])
    with cow(1) have "mgr_ok s' m'" by (intro m'(2)) (simp_all add: pool_block_frame [OF sc])
    moreover have "mgr_refs m' = mgr_refs m + {#k, c#}" using m'(1) k c(1) by (simp add: mgr_refs_def)
    ultimately show ?thesis using ar(1) sc by (simp add: holds_refs_def ac_simps)
  qed
  then show "holds_refs (m', s', X)" and "same_config s s'" by simp_all
qed

text \<open>Moving the speculative blocks to the end of the table.\<close>

lemma own_reuse:
  assumes "reuse_speculative nb k js bl = Inr bl'" and "\<forall>i \<in> set js. 0 \<le> i"
  shows "\<exists>n. refs_of bl' = refs_of bl + replicate_mset n (bidx nb) \<and> set bl' \<subseteq> insert nb (set bl) \<and>
    length bl' = length bl + n \<and> n \<le> length (filter (\<lambda>i. i < k) js)"
  using assms
proof (induction js arbitrary: bl)
  case Nil
  then show ?case by (intro exI [of _ 0]) auto
next
  case (Cons i js)
  show ?case
  proof (cases "i < k")
    case False
    then show ?thesis using Cons.prems by (intro exI [of _ 0]) auto
  next
    case True
    with Cons.prems obtain b cl where b: "py_index bl i = Inr b" and cl: "py_store (bl @ [b]) i nb = Inr cl"
      and r: "reuse_speculative nb k js cl = Inr bl'" by (auto simp: result_simps)
    have "py_index (bl @ [b]) i = Inr b"
      using b Cons.prems(2) by (auto simp: py_index_def nth_append split: if_splits)
    note e = py_index_store [OF this cl]
    from Cons.IH [OF r] Cons.prems(2) obtain n where n: "refs_of bl' = refs_of cl + replicate_mset n (bidx nb)"
      "set bl' \<subseteq> insert nb (set cl)" "length bl' = length cl + n" "n \<le> length (filter (\<lambda>i. i < k) js)" by auto
    have "refs_of cl = add_mset (bidx nb) (refs_of bl)" using e(1) by simp
    then show ?thesis
      using n e(3,4) py_index_mem [OF b] True by (intro exI [of _ "Suc n"]) auto
  qed
qed

text \<open>A request that has blocks in the mode \<^verbatim>\<open>align\<close> has at least the speculative ones.\<close>

definition align_mode :: "manager \<Rightarrow> bool" where
  "align_mode m \<longleftrightarrow> mgr_class m = MambaManager \<and> mgr_mamba_cache_mode m = ''align''"

definition spec_ok :: "manager \<Rightarrow> bool" where
  "spec_ok m \<longleftrightarrow> 0 < mgr_block_size m \<and> (align_mode m \<or> allocated_block_reqs m = []) \<and> (\<forall>e \<in> set (num_checkpoint_blocks m). 0 \<le> snd e) \<and>
     (\<forall>rid \<in> set (allocated_block_reqs m). mgr_num_speculative_blocks m \<le> int (length (req_blocks m rid)))"

lemma count_below: "int (length (filter (\<lambda>i. i < k) [a..b])) = max 0 (min b (k - 1) - a + 1)"
proof -
  have "filter (\<lambda>i. i < k) [a..b] = [a..min b (k - 1)]"
    by (rule sorted_distinct_set_unique) (auto simp: sorted_wrt_filter)
  then show ?thesis by simp
qed

text \<open>The table is never longer than required, so the number of blocks asked for is not negative.\<close>

lemma align_room:
  assumes r: "reuse_speculative nb (req - spec - 1) (py_range (p - spec) p) bl = Inr bl'"
    and spec: "0 \<le> spec" "spec \<le> p" and cp: "0 \<le> cp" and lt: "p < req"
    and bl: "int (length bl) = (if p < req - spec - 1 then p + max 0 (req - spec - 1 - cp - p) else p)"
  shows "int (length bl') \<le> req"
proof -
  have "\<forall>i \<in> set (py_range (p - spec) p). 0 \<le> i" using spec by simp
  from own_reuse [OF r this] obtain n where n: "length bl' = length bl + n"
    "n \<le> length (filter (\<lambda>i. i < req - spec - 1) (py_range (p - spec) p))" by blast
  have "int n \<le> max 0 (min (p - 1) (req - spec - 2) - (p - spec) + 1)"
    using n(2) count_below [of "req - spec - 1" "p - spec" "p - 1"] by linarith
  then show ?thesis using n(1) bl spec cp lt by (auto split: if_splits)
qed

lemma align_table_facts:
  assumes h: "holds_refs (m, s, X)" and sp: "alloc \<Longrightarrow> mgr_num_speculative_blocks m \<le> int (length (req_blocks m rid))"
    and cp: "0 \<le> cp" and eq: "align_table rid req cp alloc m = Inr bl"
  shows "holds_refs (put_blocks rid bl m, s, X)" and "int (length (req_blocks m rid)) \<le> int (length bl)"
    and "int (length (req_blocks m rid)) < req \<Longrightarrow> int (length bl) \<le> req"
proof -
  define p spec where "p = int (length (req_blocks m rid))" and "spec = mgr_num_speculative_blocks m"
  define n where "n = (if p < req - spec - 1 then nat (req - spec - 1 - cp - p) else 0)"
  define b0 where "b0 = req_blocks m rid @ replicate n (mgr_null_block m)"
  have nb: "mgr_null_block m = Blk 0" by (rule holds_refsD(4) [OF h])
  have b0: "int (length b0) = (if p < req - spec - 1 then p + max 0 (req - spec - 1 - cp - p) else p)"
    by (auto simp: b0_def n_def p_def)
  have eq': "(if alloc then reuse_speculative (mgr_null_block m) (req - spec - 1) (py_range (p - spec) p) b0
      else Inr b0) = Inr bl"
    using eq by (simp add: align_table_def Let_def p_def spec_def b0_def n_def split: if_splits)
  have nonneg: "alloc \<Longrightarrow> \<forall>i \<in> set (py_range (p - spec) p). 0 \<le> i" using sp by (simp add: p_def spec_def)
  have "\<exists>k. refs_of bl = refs_of b0 + replicate_mset k 0 \<and> set bl \<subseteq> insert (Blk 0) (set b0) \<and> length bl = length b0 + k"
  proof (cases alloc)
    case True
    then show ?thesis using eq' own_reuse [OF _ nonneg] nb by fastforce
  next
    case False
    then show ?thesis using eq' by (intro exI [of _ 0]) auto
  qed
  then obtain k where k: "refs_of bl = refs_of b0 + replicate_mset k 0" "set bl \<subseteq> insert (Blk 0) (set b0)"
    "length bl = length b0 + k" by blast
  have pool: "in_pool s bl"
    using k(2) holds_refsD(3,6) [OF h] nb by (auto simp: in_pool_all b0_def split: if_splits)
  have "refs_of bl = replicate_mset k 0 + (replicate_mset n 0 + refs_of (req_blocks m rid))"
    using k(1) nb by (simp add: b0_def ac_simps)
  then have "refs_of bl + rest_refs rid m + X =
      replicate_mset k 0 + (replicate_mset n 0 + (refs_of (req_blocks m rid) + rest_refs rid m + X))"
    by (simp add: add.assoc)
  then have "client_inv (s, refs_of bl + rest_refs rid m + X)"
    using holds_refsD(5) [OF h, of rid] by (simp only: own_nulls)
  then show "holds_refs (put_blocks rid bl m, s, X)" by (rule holds_refs_put [OF h pool same_config_refl])
  show "int (length (req_blocks m rid)) \<le> int (length bl)" using k(3) by (simp add: b0_def)
  have spec: "0 \<le> spec" using holds_refsD(1) [OF h] by (simp add: mgr_ok_def spec_def)
  show "int (length bl) \<le> req" if "int (length (req_blocks m rid)) < req"
  proof (cases alloc)
    case True
    then have "reuse_speculative (mgr_null_block m) (req - spec - 1) (py_range (p - spec) p) b0 = Inr bl" "spec \<le> p"
      using eq' sp by (simp_all add: p_def spec_def)
    then show ?thesis using align_room [OF _ spec _ cp _ b0] that by (simp add: p_def)
  next
    case False
    then show ?thesis using eq' b0 that spec cp by (auto simp: p_def split: if_splits)
  qed
qed

lemma own_take_cow:
  assumes h: "holds_refs (m, s, refs_of nb + X)" and nb: "in_pool s nb" "\<forall>b \<in> set nb. 0 < bidx b \<and> bidx b \<notin># mgr_refs m"
    and eq: "align_take_cow rid ph alloc rb nb m s = Inr (rb', nb', m', s')"
  shows "holds_refs (m', s', refs_of nb' + X)" and "in_pool s' nb'" and "same_config s s'"
    and "(ph = None \<longrightarrow> nb' = nb) \<and> (ph \<noteq> None \<longrightarrow> nb \<noteq> [] \<and> nb' = tl nb)"
proof -
  have "holds_refs (m', s', refs_of nb' + X) \<and> in_pool s' nb' \<and> same_config s s' \<and>
    ((ph = None \<longrightarrow> nb' = nb) \<and> (ph \<noteq> None \<longrightarrow> nb \<noteq> [] \<and> nb' = tl nb))"
  proof (cases ph)
    case None
    then show ?thesis using eq h nb(1) by (simp add: align_take_cow_def)
  next
    case (Some q)
    with eq obtain c where c: "py_index nb 0 = Inr c"
      and cow: "align_copy_on_write rid (fst q) (snd q) c alloc m s = Inr (m', s')" and nb': "nb' = py_slice_from nb 1"
      by (auto simp: align_take_cow_def result_simps split: prod.splits)
    then have ne: "nb = c # tl nb" "nb' = tl nb"
      by (auto simp: py_index_def py_slice_from_nonneg drop_Suc split: if_splits intro: nth_equalityI)
         (cases nb; simp add: drop_Suc)+
    have h': "holds_refs (m, s, add_mset (bidx c) (refs_of (tl nb) + X))"
      using h ne(1) by (metis refs_of_simps(2) add_mset_add_mset_same_iff union_mset_add_mset_left)
    from own_align_cow [OF h' _ _ _ cow] ne nb show ?thesis
      using Some by (metis in_pool_frame in_pool_simps(2) list.distinct(1) list.set_intros(1) option.distinct(1))
  qed
  then show "holds_refs (m', s', refs_of nb' + X)" and "in_pool s' nb'" and "same_config s s'"
    and "(ph = None \<longrightarrow> nb' = nb) \<and> (ph \<noteq> None \<longrightarrow> nb \<noteq> [] \<and> nb' = tl nb)" by simp_all
qed

lemma note_last_state_frame [mgr_frame]:
  "holds_refs (note_last_state rid p a m, s, X) = holds_refs (m, s, X)"
  "req_blocks (note_last_state rid p a m) = req_blocks m"
  "mgr_num_speculative_blocks (note_last_state rid p a m) = mgr_num_speculative_blocks m"
  "mgr_block_size (note_last_state rid p a m) = mgr_block_size m"
  "num_checkpoint_blocks (note_last_state rid p a m) = num_checkpoint_blocks m"
  "allocated_block_reqs (note_last_state rid p a m) = allocated_block_reqs m"
  "mgr_class (note_last_state rid p a m) = mgr_class m"
  "mgr_mamba_cache_mode (note_last_state rid p a m) = mgr_mamba_cache_mode m"
  by (simp_all add: note_last_state_def mgr_frame)

lemma own_mamba_skip:
  assumes h: "holds_refs (m, s, X)" and eq: "mamba_remove_skipped_blocks rid n m s = Inr (m', s')"
  shows "holds_refs (m', s', X)" and "same_config s s'"
proof -
  from eq obtain m1 s1 where b: "base_remove_skipped_blocks rid n m s = Inr (m1, s1)"
    and r: "m' = m1 \<and> s' = s1 \<or> m' = open_req rid m1 \<and> s' = s1 \<or> (\<exists>i b bl. py_index (req_blocks m1 rid) i = Inr b \<and>
      free_blocks [b] s1 = Inr s' \<and> py_store (req_blocks m1 rid) i (mgr_null_block m1) = Inr bl \<and>
      m' = put_blocks rid bl (open_req rid m1))"
    by (auto simp: mamba_remove_skipped_blocks_def Let_def result_simps split: if_splits option.splits) blast
  note h1 = own_skip_base [OF h b]
  note h2 = holds_refs_open [OF h1(1), of rid]
  have "holds_refs (m', s', X) \<and> same_config s1 s'"
  proof -
    consider (same) "m' = m1" "s' = s1" | (opened) "m' = open_req rid m1" "s' = s1"
      | (freed) i b bl where "py_index (req_blocks m1 rid) i = Inr b" "free_blocks [b] s1 = Inr s'"
        "py_store (req_blocks m1 rid) i (mgr_null_block m1) = Inr bl" "m' = put_blocks rid bl (open_req rid m1)"
      using r by blast
    then show ?thesis
    proof cases
      case freed
      note e = py_index_store [OF freed(1,3)]
      let ?m = "open_req rid m1"
      have nb: "mgr_null_block m1 = Blk 0" by (rule holds_refsD(4) [OF h1(1)])
      have pool: "in_pool s1 bl" "in_pool s1 [b]"
        using e(2,3) holds_refsD(3) [OF h1(1), of rid] holds_refsD(6) [OF h1(1)] nb by (auto simp: in_pool_all)
      have eq: "add_mset 0 (refs_of (req_blocks m1 rid) + rest_refs rid ?m + X) = refs_of bl + rest_refs rid ?m + X + refs_of [b]"
        using e(1) nb by (simp add: ac_simps)
      have "client_inv (s1, add_mset 0 (refs_of (req_blocks m1 rid) + rest_refs rid ?m + X))"
        using holds_refsD(5) [OF h2, of rid] by (simp add: own_null)
      then have "client_inv (s1, refs_of bl + rest_refs rid ?m + X + refs_of [b])" unfolding eq .
      from own_free [OF this pool(2) freed(2)] show ?thesis
        using holds_refs_put [OF h2] pool(1) freed(4) by (auto simp: in_pool_frame)
    qed (use h1(1) h2 in simp_all)
  qed
  then show "holds_refs (m', s', X)" and "same_config s s'"
    using h1(2) by (auto intro: same_config_trans)
qed

lemma own_mamba_cache:
  assumes h: "holds_refs (m, s, X)" and eq: "mamba_cache_blocks sha u r n ri m s = Inr (r', m', s')"
  shows "holds_refs (m', s', X)" and "same_config s s'"
proof -
  define rid where "rid = request_id r"
  from eq obtain r1 m1 s1 r2 m2 where b: "base_cache_blocks sha u r n ri m s = Inr (r1, m1, s1)"
    and t: "(if mgr_mamba_cache_mode m1 = ''align''
        then and_then (mamba_cache_partial_tail_block sha u r1 n m1 s1) (\<lambda>(ph, r, m, s).
               Inr (r, (case ph of None \<Rightarrow> m
                        | Some h \<Rightarrow> m\<lparr>cached_blocks_this_step := set_add h (cached_blocks_this_step m)\<rparr>), s))
        else Inr (r1, m1, s1)) = Inr (r2, m2, s')"
    and m': "holds_refs (m', s', X) = holds_refs (m2, s', X) \<or> holds_refs (m', s', X) = holds_refs (open_req rid m2, s', X)"
    unfolding mamba_cache_blocks_def Let_def rid_def [symmetric]
    by (elim and_thenE) (auto simp: mgr_frame elim!: and_thenE split: if_split_asm)
  note h1 = own_cache_base [OF h b]
  note h2 = holds_refs_open [OF h1(1), of "request_id r1"]
  have "holds_refs (m2, s', X) \<and> same_config s1 s'"
    using t h1(1) h2 own_partial [OF h2]
    by (auto simp: mamba_cache_partial_tail_block_def Let_def result_simps mgr_frame split: if_splits option.splits)
  then show "holds_refs (m', s', X)" and "same_config s s'"
    using m' h1(2) holds_refs_open [of m2 s' X rid] by (auto intro: same_config_trans)
qed

subsection \<open>The speculative blocks\<close>

text \<open>A table only grows, apart from being popped as a whole.\<close>

definition grows :: "manager \<Rightarrow> manager \<Rightarrow> bool" where
  "grows m m' \<longleftrightarrow> (\<forall>rid. length (req_blocks m rid) \<le> length (req_blocks m' rid)) \<and>
     allocated_block_reqs m' = allocated_block_reqs m \<and> num_checkpoint_blocks m' = num_checkpoint_blocks m \<and>
     mgr_num_speculative_blocks m' = mgr_num_speculative_blocks m \<and> mgr_block_size m' = mgr_block_size m \<and>
     mgr_class m' = mgr_class m \<and> mgr_mamba_cache_mode m' = mgr_mamba_cache_mode m"

lemma grows_refl [simp]: "grows m m"
  by (simp add: grows_def)

lemma grows_trans: "grows a b \<Longrightarrow> grows b c \<Longrightarrow> grows a c"
  by (force simp: grows_def intro: order_trans)

lemma spec_ok_grows:
  assumes g: "grows m m'" and sp: "spec_ok m" shows "spec_ok m'"
proof -
  have "mgr_num_speculative_blocks m \<le> int (length (req_blocks m' rid))" if "rid \<in> set (allocated_block_reqs m)" for rid
  proof -
    have "int (length (req_blocks m rid)) \<le> int (length (req_blocks m' rid))" using g by (simp add: grows_def)
    then show ?thesis using sp that by (force simp: spec_ok_def)
  qed
  then show ?thesis using g sp by (simp add: grows_def spec_ok_def align_mode_def)
qed

lemma grows_fields [mgr_frame]:
  "grows k (m\<lparr>num_cached_block := a\<rparr>) = grows k m" "grows k (m\<lparr>partial_hit_reqs := b\<rparr>) = grows k m"
  "grows k (m\<lparr>new_block_ids := c\<rparr>) = grows k m" "grows k (m\<lparr>last_state_block_idx := d\<rparr>) = grows k m"
  "grows k (m\<lparr>producer_partial_tail_reqs := e\<rparr>) = grows k m"
  "grows k (m\<lparr>pending_partial_tail_offloads := f\<rparr>) = grows k m"
  "grows k (m\<lparr>cached_blocks_this_step := g\<rparr>) = grows k m" "grows k (m\<lparr>pending_cow_copies := h\<rparr>) = grows k m"
  by (simp_all add: grows_def mgr_frame)

lemma grows_put [simp]: "length (req_blocks m rid) \<le> length bl \<Longrightarrow> grows m (put_blocks rid bl m)"
  by (simp add: grows_def) (simp add: put_blocks_def)

lemma grows_open [simp]: "grows m (open_req rid m)"
  using grows_put [of m rid "[]"] by (simp add: open_req_def req_blocks_def)

lemma grows_record [mgr_frame]: "grows k (record_new r bl s m) = grows k m"
  by (simp add: record_new_def mgr_frame)

lemma grows_note_cached [mgr_frame]: "grows k (fold (note_cached_block t) bl m) = grows k m"
  by (induction bl arbitrary: m) (simp_all add: note_cached_block_def mgr_frame split: option.splits)

lemma grows_put_open [simp]: "length (req_blocks m rid) \<le> length bl \<Longrightarrow> grows m (put_blocks rid bl (open_req rid m))"
  by (simp add: open_req_def)

lemma grows_into_open: "grows m k \<Longrightarrow> grows m (open_req rid k)"
  by (rule grows_trans [OF _ grows_open])

lemma grows_local: "base_add_local_computed_blocks rid ncb l e m s = Inr (m', s') \<Longrightarrow> grows m m'"
  by (auto simp: base_add_local_computed_blocks_def Let_def result_simps note_local_hit_def mgr_frame split: if_splits)

lemma grows_external: "base_allocate_external_computed_blocks u rid l e m s = Inr (m', s') \<Longrightarrow> grows m m'"
  by (auto simp: base_allocate_external_computed_blocks_def Let_def result_simps mgr_frame split: if_splits)

lemma grows_cow: "apply_cow rid i src cow m s = Inr (m', s') \<Longrightarrow> grows m m'"
  by (auto simp: apply_cow_def result_simps mgr_frame py_index_store(4))

lemma grows_redirect:
  assumes "redirect_partial_hit u rid m s = Inr (cb, m', s')" shows "grows m m'"
proof (cases "dict_get (partial_hit_reqs m) rid")
  case (Some p)
  let ?m = "m\<lparr>partial_hit_reqs := dict_del rid (partial_hit_reqs m)\<rparr>"
  from assms Some obtain c s1 m1 where "apply_cow rid (fst p) (snd p) c ?m s1 = Inr (m1, s')" "m' = record_new True [c] s' m1"
    by (auto simp: redirect_partial_hit_def Let_def result_simps split: prod.splits)
  then have "grows ?m m'" using grows_cow by (auto simp: mgr_frame)
  moreover have "grows m ?m" by (simp add: mgr_frame)
  ultimately show ?thesis by (meson grows_trans)
qed (use assms in \<open>simp add: redirect_partial_hit_def\<close>)

lemma grows_alloc:
  assumes "base_allocate_new_blocks u rid n m s = Inr (bl, m', s')" shows "grows m m'"
proof -
  from assms obtain cb m1 s1 where red: "redirect_partial_hit u rid m s = Inr (cb, m1, s1)"
    and r: "(let m = open_req rid m1; k = cdiv n (mgr_block_size m) - int (length (req_blocks m rid))
      in if k \<le> 0 then Inr (cb, m, s1)
         else and_then (get_new_blocks u k s1) (\<lambda>(nb, s). Inr (cb @ nb,
            record_new (records_new_block_ids m) nb s (put_blocks rid (req_blocks m rid @ nb) m), s))) = Inr (bl, m', s')"
    by (auto simp: base_allocate_new_blocks_def elim!: and_thenE)
  have "grows m1 m'" using r by (auto simp: Let_def result_simps mgr_frame split: if_splits)
  with grows_redirect [OF red] show ?thesis by (rule grows_trans)
qed

lemma grows_cache: "base_cache_blocks sha u r n ri m s = Inr (r', m', s') \<Longrightarrow> grows m m'"
  by (auto simp: base_cache_blocks_def Let_def result_simps mgr_frame split: if_splits)

lemma grows_full_tail: "full_cache_partial_tail_block sha u r n m s = Inr (r', m', s') \<Longrightarrow> grows m m'"
  by (auto simp: full_cache_partial_tail_block_def Let_def elim!: and_thenE split: if_split_asm)

lemma grows_full_cache:
  assumes "full_cache_blocks sha u r n ri m s = Inr (r', m', s')" shows "grows m m'"
proof -
  from assms obtain r1 m1 s1 where b: "base_cache_blocks sha u r n ri m s = Inr (r1, m1, s1)"
    and t: "(r', m', s') = (r1, m1, s1) \<or> full_cache_partial_tail_block sha u r1 n m1 s1 = Inr (r', m', s')"
    by (auto simp: full_cache_blocks_def result_simps split: if_splits)
  have "grows m1 m'"
    using t by (elim disjE) (simp, rule grows_full_tail)
  with grows_cache [OF b] show ?thesis by (rule grows_trans)
qed

lemma grows_mamba_tail:
  "mamba_cache_partial_tail_block sha u r n m s = Inr (ph, r', m', s') \<Longrightarrow> grows m m'"
  by (auto simp: mamba_cache_partial_tail_block_def Let_def mgr_frame elim!: and_thenE split: if_split_asm option.split_asm)

lemma grows_mamba_cache:
  assumes "mamba_cache_blocks sha u r n ri m s = Inr (r', m', s')" shows "grows m m'"
proof -
  define rid where "rid = request_id r"
  from assms obtain r1 m1 s1 r2 m2 where b: "base_cache_blocks sha u r n ri m s = Inr (r1, m1, s1)"
    and t: "(if mgr_mamba_cache_mode m1 = ''align''
        then and_then (mamba_cache_partial_tail_block sha u r1 n m1 s1) (\<lambda>(ph, r, m, s).
               Inr (r, (case ph of None \<Rightarrow> m
                        | Some h \<Rightarrow> m\<lparr>cached_blocks_this_step := set_add h (cached_blocks_this_step m)\<rparr>), s))
        else Inr (r1, m1, s1)) = Inr (r2, m2, s')" and m': "grows m2 m'"
    unfolding mamba_cache_blocks_def Let_def rid_def [symmetric]
    by (elim and_thenE) (auto simp: mgr_frame elim!: and_thenE split: if_split_asm)
  have "grows m1 m2" using t by (auto simp: result_simps mgr_frame dest!: grows_mamba_tail split: if_splits option.splits)
  then show ?thesis using grows_cache [OF b] m' by (meson grows_trans)
qed

lemma grows_remove:
  assumes "remove_blocks_in_range rid a b m s = Inr (m', s')" shows "grows m m'"
proof (cases "m' = m")
  case False
  define js where "js = rev (py_range a (min b (int (length (req_blocks m rid)))))"
  obtain bl freed where n: "null_out (mgr_null_block m) js (req_blocks m rid) [] = Inr (bl, freed)"
    and r: "(if freed \<noteq> [] then and_then (free_blocks freed s) (\<lambda>s. Inr (put_blocks rid bl m, s))
        else Inr (put_blocks rid bl m, s)) = Inr (m', s')"
    using assms False unfolding remove_blocks_in_range_def Let_def js_def [symmetric]
    by (auto elim!: and_thenE2 split: if_split_asm)
  then show ?thesis using own_null_out [OF n] by (auto simp: result_simps split: if_split_asm)
qed simp

lemma grows_skip: "base_remove_skipped_blocks rid n m s = Inr (m', s') \<Longrightarrow> grows m m'"
  by (auto simp: base_remove_skipped_blocks_def Let_def dest!: grows_remove intro: grows_trans [OF grows_open] split: if_splits)

lemma grows_mamba_skip:
  assumes "mamba_remove_skipped_blocks rid n m s = Inr (m', s')" shows "grows m m'"
proof -
  from assms obtain m1 s1 where b: "base_remove_skipped_blocks rid n m s = Inr (m1, s1)"
    and r: "m' = m1 \<or> m' = open_req rid m1 \<or> (\<exists>i b bl. py_index (req_blocks m1 rid) i = Inr b \<and>
      py_store (req_blocks m1 rid) i (mgr_null_block m1) = Inr bl \<and> m' = put_blocks rid bl (open_req rid m1))"
    by (auto simp: mamba_remove_skipped_blocks_def Let_def result_simps split: if_splits option.splits)
  have "grows m1 m'" using r py_index_store(4) by auto
  with grows_skip [OF b] show ?thesis by (rule grows_trans)
qed

lemma grows_align_cow:
  "align_copy_on_write rid i src cow al m s = Inr (m', s') \<Longrightarrow> grows m m'"
  by (auto simp: align_copy_on_write_def Let_def mgr_frame elim!: and_thenE dest: grows_cow split: if_split_asm option.split)

lemma grows_take_cow:
  "align_take_cow rid ph al rb nb m s = Inr (rb', nb', m', s') \<Longrightarrow> grows m m'"
  by (auto simp: align_take_cow_def elim!: and_thenE dest: grows_align_cow split: option.split_asm)

text \<open>A request joins the allocated ones once its table covers the speculative blocks.\<close>

lemma spec_ok_join:
  assumes "spec_ok m" and "grows m k" and "mgr_num_speculative_blocks m \<le> int (length (req_blocks k rid))"
    and "A = allocated_block_reqs k" and "align_mode m"
  shows "spec_ok (k\<lparr>allocated_block_reqs := set_add rid A\<rparr>)"
    and "spec_ok (k\<lparr>allocated_block_reqs := set_add rid A, partial_hit_reqs := B\<rparr>)"
  using spec_ok_grows [OF assms(2,1)] assms(2-5) by (auto simp: spec_ok_def mgr_frame grows_def align_mode_def)

lemma align_allocateE:
  fixes u rid n m s
  defines "m1 \<equiv> open_req rid m"
  defines "p \<equiv> int (length (req_blocks m1 rid))"
    and "req \<equiv> cdiv n (mgr_block_size m1) + mgr_num_speculative_blocks m1"
    and "cp \<equiv> (case dict_get (num_checkpoint_blocks m1) rid of None \<Rightarrow> 0 | Some n \<Rightarrow> n)"
    and "ph \<equiv> dict_get (partial_hit_reqs m1) rid" and "al \<equiv> (rid \<in> set (allocated_block_reqs m1))"
  defines "m2 \<equiv> note_last_state rid p al m1"
    and "k \<equiv> (\<lambda>bl. if ph \<noteq> None then max (req - int (length bl)) 0 + 1 else req - int (length (bl :: block_ref list)))"
  assumes eq: "align_allocate_new_blocks u rid n m s = Inr (rb, m', s')"
  obtains (kept) "req \<le> p" and "m' = m1\<lparr>allocated_block_reqs := set_add rid (allocated_block_reqs m1)\<rparr>" and "s' = s"
  | (grown) bl nb s1 rb1 nb1 m3 where "req \<le> p \<longrightarrow> ph \<noteq> None" and "align_table rid req cp al m2 = Inr bl"
      and "get_new_blocks u (k bl) s = Inr (nb, s1)"
      and "align_take_cow rid ph al (py_slice_from bl p) nb (put_blocks rid bl m2) s1 = Inr (rb1, nb1, m3, s')"
      and "m' = (put_blocks rid (req_blocks m3 rid @ nb1) m3)
               \<lparr>allocated_block_reqs := set_add rid (allocated_block_reqs m3),
                partial_hit_reqs := dict_del rid (partial_hit_reqs m3)\<rparr>"
proof -
  have eq': "(if req \<le> p \<and> \<not> ph \<noteq> None
      then Inr ([], m1\<lparr>allocated_block_reqs := set_add rid (allocated_block_reqs m1)\<rparr>, s)
      else and_then (align_table rid req cp al m2) (\<lambda>bl.
        and_then (py_assert (k bl \<le> 1 + of_bool (ph \<noteq> None) + cp + (if al then 0 else mgr_num_speculative_blocks m2))) (\<lambda>_.
        and_then (get_new_blocks u (k bl) s) (\<lambda>(nb, s).
        and_then (align_take_cow rid ph al (py_slice_from bl p) nb (put_blocks rid bl m2) s) (\<lambda>(rb, nb, m, s).
        Inr (rb @ nb, (put_blocks rid (req_blocks m rid @ nb) m)
               \<lparr>allocated_block_reqs := set_add rid (allocated_block_reqs m),
                partial_hit_reqs := dict_del rid (partial_hit_reqs m)\<rparr>, s)))))) = Inr (rb, m', s')"
    using eq unfolding align_allocate_new_blocks_def Let_def assms by argo
  show thesis
  proof (cases "req \<le> p \<and> \<not> ph \<noteq> None")
    case True
    then show thesis using eq' kept by simp
  next
    case False
    note eq'' = eq' [unfolded if_not_P [OF False]]
    show thesis by (insert eq'', elim and_thenE) (use False grown in \<open>auto elim!: and_thenE\<close>)
  qed
qed

lemma own_align:
  assumes h: "holds_refs (m, s, X)" and sp: "spec_ok m" and n: "0 \<le> n" and md: "align_mode m"
    and eq: "align_allocate_new_blocks u rid n m s = Inr (rb, m', s')"
  shows "holds_refs (m', s', X) \<and> same_config s s' \<and> spec_ok m'"
proof -
  define m1 where "m1 = open_req rid m"
  have g1: "grows m m1" and h1: "holds_refs (m1, s, X)" using holds_refs_open [OF h] by (simp_all add: m1_def)
  have sp1: "spec_ok m1" by (rule spec_ok_grows [OF g1 sp])
  define p req cp al ph where "p = int (length (req_blocks m1 rid))"
    and "req = cdiv n (mgr_block_size m1) + mgr_num_speculative_blocks m1"
    and "cp = (case dict_get (num_checkpoint_blocks m1) rid of None \<Rightarrow> 0 | Some n \<Rightarrow> n)"
    and "al = (rid \<in> set (allocated_block_reqs m1))" and "ph = dict_get (partial_hit_reqs m1) rid"
  define m2 where "m2 = note_last_state rid p al m1"
  have h2: "holds_refs (m2, s, X)" using h1 by (simp add: m2_def mgr_frame)
  have g2: "grows m m2" using g1 by (simp add: m2_def grows_def mgr_frame)
  have cp: "0 \<le> cp" using sp1 by (auto simp: cp_def spec_ok_def dest!: map_of_SomeD split: option.splits)
  have al: "al \<Longrightarrow> mgr_num_speculative_blocks m2 \<le> int (length (req_blocks m2 rid))"
    using sp1 by (simp add: al_def m2_def spec_ok_def mgr_frame)
  have req: "mgr_num_speculative_blocks m \<le> req"
    using sp cdiv_nonneg [OF _ n, of "mgr_block_size m"] by (simp add: req_def m1_def spec_ok_def)
  show ?thesis
  proof (rule align_allocateE [OF eq, folded m1_def, folded p_def, folded req_def cp_def ph_def al_def, folded m2_def], goal_cases)
    case 1
    then show ?case using h1 spec_ok_join(1) [OF sp g1, of rid] md req by (simp add: mgr_frame p_def)
  next
    case (2 bl nb s1 rb1 nb1 m3)
    note t = align_table_facts [OF h2 al cp 2(2)]
    have "0 \<le> (if ph \<noteq> None then max (req - int (length bl)) 0 + 1 else req - int (length bl))"
      using t(3) 2(1) by (auto simp: p_def m2_def mgr_frame)
    note g = own_new [OF holds_refsD(2) [OF t(1)] this 2(3)]
    have h3: "holds_refs (put_blocks rid bl m2, s1, refs_of nb + X)"
      using t(1) g(1,3) by (simp add: holds_refs_def mgr_ok_frame ac_simps)
    have nb: "in_pool s1 nb" "\<forall>b \<in> set nb. 0 < bidx b \<and> bidx b \<notin># mgr_refs (put_blocks rid bl m2)"
      using g(2,3,4) by (auto simp: in_pool_frame)
    note c = own_take_cow [OF h3 nb 2(4)]
    have g3: "grows (put_blocks rid bl m2) m3" by (rule grows_take_cow [OF 2(4)])
    then have "length bl \<le> length (req_blocks m3 rid)" by (auto simp: grows_def dest: spec [of _ rid])
    then have len: "req \<le> int (length (req_blocks m3 rid @ nb1))"
      using c(4) g(5) by (cases nb) (auto split: if_splits)
    let ?k = "put_blocks rid (req_blocks m3 rid @ nb1) m3"
    have "grows m2 (put_blocks rid bl m2)" using t(2) by simp
    from grows_trans [OF grows_trans [OF g2 this] g3] have "grows m ?k" by (rule grows_trans) simp
    then have "spec_ok m'"
      using spec_ok_join(2) [OF sp, of ?k rid] len req md 2(5) by (simp add: put_blocks_def req_blocks_def update_conv')
    then show ?case
      using own_adopt [OF c(1,2), of rid] g(3) c(3) 2(5) by (auto simp: mgr_frame intro: same_config_trans)
  qed
qed

section \<open>Reachable managers\<close>

text \<open>
  What the classes override.  The popped blocks leave the manager: they are held by the caller until it frees them.
\<close>

lemma own_pop:
  assumes "holds_refs (m, s, X)" and "spec_ok m" and "pop_blocks_for_free rid m = (bl, m')"
  shows "holds_refs (m', s, X + refs_of bl)" and "in_pool s bl" and "spec_ok m'"
proof -
  define k where "k = (if mgr_class m = MambaManager \<and> mgr_mamba_cache_mode m = ''align'' then
      m\<lparr>allocated_block_reqs := set_discard rid (allocated_block_reqs m),
        last_state_block_idx := dict_del rid (last_state_block_idx m),
        num_checkpoint_blocks := dict_del rid (num_checkpoint_blocks m),
        producer_partial_tail_reqs := dict_del rid (producer_partial_tail_reqs m),
        pending_partial_tail_offloads := filter (\<lambda>(r, _). r \<noteq> rid) (pending_partial_tail_offloads m)\<rparr> else m)"
  have eq: "base_pop_blocks_for_free rid k = (bl, m')"
    using assms(3) by (auto simp: pop_blocks_for_free_def mamba_pop_blocks_for_free_def k_def split: manager_class.splits)
  have "holds_refs (k, s, X)" using assms(1) by (auto simp: k_def mgr_frame intro!: holds_refs_offloads)
  then show "holds_refs (m', s, X + refs_of bl)" and "in_pool s bl"
    using own_pop_base eq by blast+
  have "rid \<notin> set (allocated_block_reqs k)" "spec_ok k"
    using assms(2) dict_del_subset [of rid "num_checkpoint_blocks m"] by (auto simp: k_def spec_ok_def align_mode_def mgr_frame)
  then show "spec_ok m'"
    using eq by (auto simp: base_pop_blocks_for_free_def spec_ok_def align_mode_def req_blocks_def delete_conv')
qed

lemma own_free_req:
  assumes h: "holds_refs (m, s, X)" and sp: "spec_ok m" and eq: "free_req rid m s = Inr (m', s')"
  shows "holds_refs (m', s', X) \<and> same_config s s' \<and> spec_ok m'"
proof -
  obtain bl k where pop: "pop_blocks_for_free rid m = (bl, k)" by fastforce
  with eq have fr: "free_blocks (rev bl) s = Inr s'" "m' = k" by (auto simp: free_req_def result_simps)
  note o = own_pop [OF h sp pop]
  have "client_inv (s, mgr_refs k + X + refs_of (rev bl))" "in_pool s (rev bl)"
    using o(1,2) by (simp_all add: holds_refs_def ac_simps)
  from own_free [OF this fr(1)] show ?thesis
    using o(1,3) fr(2) by (auto simp: holds_refs_def mgr_ok_frame)
qed

text \<open>The state of a manager with the pool it shares and the references held outside.\<close>

type_synonym mgr_state = "manager \<times> block_pool \<times> nat multiset"

inductive mgr_step :: "mgr_state \<Rightarrow> mgr_state \<Rightarrow> bool" where
  ms_admit: "get_num_blocks_to_allocate rid n ncb tot l nm cap m s = Inr (k, m') \<Longrightarrow> mgr_step (m, s, X) (m', s, X)"
| ms_local: "in_pool s ncb \<Longrightarrow> add_local_computed_blocks rid ncb l e m s = Inr (m', s') \<Longrightarrow>
    mgr_step (m, s, X) (m', s', X)"
| ms_external: "int (length (req_blocks m rid)) \<le> cdiv (l + e) (mgr_block_size m) \<Longrightarrow>
    allocate_external_computed_blocks u rid l e m s = Inr (m', s') \<Longrightarrow> mgr_step (m, s, X) (m', s', X)"
| ms_new: "0 \<le> nm \<Longrightarrow> allocate_new_blocks u rid n nm m s = Inr (bl, m', s') \<Longrightarrow> mgr_step (m, s, X) (m', s', X)"
| ms_cache: "cache_blocks sha u r n ri m s = Inr (r', m', s') \<Longrightarrow> mgr_step (m, s, X) (m', s', X)"
| ms_skip: "remove_skipped_blocks rid n np m s = Inr (m', s') \<Longrightarrow> mgr_step (m, s, X) (m', s', X)"
| ms_free: "free_req rid m s = Inr (m', s') \<Longrightarrow> mgr_step (m, s, X) (m', s', X)"
| ms_pop: "pop_blocks_for_free rid m = (bl, m') \<Longrightarrow> mgr_step (m, s, X) (m', s, X + refs_of bl)"
| ms_copies: "take_pending_cow_copies m = (ps, m') \<Longrightarrow> mgr_step (m, s, X) (m', s, X + pair_refs ps)"
| ms_ids: "take_new_block_ids m = (ids, m') \<Longrightarrow> mgr_step (m, s, X) (m', s, X)"
| ms_read: "mgr_step (m, s, X) ((open_req rid m)\<lparr>new_block_ids := ids\<rparr>, s, X)"
| ms_offloads: "take_pending_partial_tail_offloads m = (os, m') \<Longrightarrow> mgr_step (m, s, X) (m', s, X)"
| ms_common: "get_num_common_prefix_blocks rid m s = (k, m') \<Longrightarrow> mgr_step (m, s, X) (m', s, X)"
| ms_start: "mgr_step (m, s, X) (new_step_starts m, s, X)"
| ms_pool: "pool_step (s, mgr_refs m + X) (s', mgr_refs m + X') \<Longrightarrow> same_config s s' \<Longrightarrow> mgr_step (m, s, X) (m, s', X')"

lemma align_admit:
  assumes "align_get_num_blocks_to_allocate f rid n ncb tot l cap m s = Inr (k, m')"
  shows "m' = open_req rid m \<or> (\<exists>b. m' = (open_req rid m)\<lparr>num_checkpoint_blocks :=
    dict_set rid (of_bool b) (num_checkpoint_blocks (open_req rid m))\<rparr>)"
proof -
  obtain b x where "(x, if cap then open_req rid m else (open_req rid m)\<lparr>num_checkpoint_blocks :=
      dict_set rid (of_bool b) (num_checkpoint_blocks (open_req rid m))\<rparr>) = (k, m')"
    using assms unfolding align_get_num_blocks_to_allocate_def Let_def by (elim and_thenE) (drule Inr_inject, rule that)
  then have "m' = (if cap then open_req rid m else (open_req rid m)\<lparr>num_checkpoint_blocks :=
      dict_set rid (of_bool b) (num_checkpoint_blocks (open_req rid m))\<rparr>)" by (rule Pair_inject) (rule sym)
  then show ?thesis by metis
qed

lemma own_admit:
  assumes h: "holds_refs (m, s, X)" and sp: "spec_ok m"
    and eq: "get_num_blocks_to_allocate rid n ncb tot l nm cap m s = Inr (k, m')"
  shows "holds_refs (m', s, X) \<and> spec_ok m'"
proof -
  have "m' = m \<or> m' = open_req rid m \<or>
      (\<exists>b. m' = (open_req rid m)\<lparr>num_checkpoint_blocks := dict_set rid (of_bool b) (num_checkpoint_blocks (open_req rid m))\<rparr>)"
  proof (cases "\<exists>f c. align_get_num_blocks_to_allocate f rid nm ncb tot l c m s = Inr (k, m')")
    case True
    then show ?thesis using align_admit by blast
  next
    case False
    then have "m' = m"
      using eq by (auto simp: get_num_blocks_to_allocate_def mamba_get_num_blocks_to_allocate_def Let_def result_simps
        split: manager_class.splits KVCacheSpec.splits if_split_asm)
    then show ?thesis by simp
  qed
  moreover have "spec_ok ((open_req rid m)\<lparr>num_checkpoint_blocks := dict_set rid (of_bool b) (num_checkpoint_blocks (open_req rid m))\<rparr>)" for b
    using spec_ok_grows [OF grows_open sp, of rid] dict_set_subset [of rid "of_bool b" "num_checkpoint_blocks (open_req rid m)"]
    by (auto simp: spec_ok_def align_mode_def mgr_frame)
  ultimately show ?thesis
    using h sp holds_refs_open [OF h, of rid] spec_ok_grows [OF grows_open sp, of rid] by (auto simp: mgr_frame)
qed

lemma own_common: "get_num_common_prefix_blocks rid m s = (k, m') \<Longrightarrow> m' = m \<or> m' = open_req rid m"
  by (auto simp: get_num_common_prefix_blocks_def full_get_num_common_prefix_blocks_def Let_def split: manager_class.splits)

lemma spec_ok_fields [mgr_frame]:
  "spec_ok (m\<lparr>cached_blocks_this_step := a\<rparr>) = spec_ok m" "spec_ok (m\<lparr>new_block_ids := b\<rparr>) = spec_ok m"
  "spec_ok (m\<lparr>pending_cow_copies := c\<rparr>) = spec_ok m" "spec_ok (m\<lparr>pending_partial_tail_offloads := d\<rparr>) = spec_ok m"
  by (simp_all add: spec_ok_def align_mode_def mgr_frame)

text \<open>The dispatching methods.\<close>

lemma own_dispatch_local:
  assumes "holds_refs (m, s, X)" and "spec_ok m" and "in_pool s ncb"
    and "add_local_computed_blocks rid ncb l e m s = Inr (m', s')"
  shows "holds_refs (m', s', X) \<and> same_config s s' \<and> spec_ok m'"
  using assms own_local [OF assms(1,3)] spec_ok_grows [OF grows_local _]
  by (auto simp: add_local_computed_blocks_def result_simps split: manager_class.splits)

lemma own_dispatch_external:
  assumes "holds_refs (m, s, X)" and "spec_ok m" and "int (length (req_blocks m rid)) \<le> cdiv (l + e) (mgr_block_size m)"
    and "allocate_external_computed_blocks u rid l e m s = Inr (m', s')"
  shows "holds_refs (m', s', X) \<and> same_config s s' \<and> spec_ok m'"
  using assms own_external [OF assms(1,3)] spec_ok_grows [OF grows_external _]
  by (auto simp: allocate_external_computed_blocks_def split: manager_class.splits)

lemma own_dispatch_new:
  assumes h: "holds_refs (m, s, X)" "spec_ok m" and "0 \<le> nm" and eq: "allocate_new_blocks u rid n nm m s = Inr (bl, m', s')"
  shows "holds_refs (m', s', X) \<and> same_config s s' \<and> spec_ok m'"
proof -
  have "(\<exists>k. base_allocate_new_blocks u rid k m s = Inr (bl, m', s')) \<or>
      (align_mode m \<and> align_allocate_new_blocks u rid nm m s = Inr (bl, m', s'))"
    using eq by (auto simp: allocate_new_blocks_def mamba_allocate_new_blocks_def align_mode_def result_simps
        split: manager_class.splits if_splits)
  then show ?thesis
    using own_alloc [OF h(1)] own_align [OF h assms(3)] spec_ok_grows [OF grows_alloc h(2)] by metis
qed

lemma own_dispatch_cache:
  assumes h: "holds_refs (m, s, X)" "spec_ok m" and eq: "cache_blocks sha u r n ri m s = Inr (r', m', s')"
  shows "holds_refs (m', s', X) \<and> same_config s s' \<and> spec_ok m'"
proof -
  have "base_cache_blocks sha u r n ri m s = Inr (r', m', s') \<or> full_cache_blocks sha u r n ri m s = Inr (r', m', s') \<or>
      mamba_cache_blocks sha u r n ri m s = Inr (r', m', s')"
    using eq by (auto simp: cache_blocks_def split: manager_class.splits)
  then show ?thesis
    using own_cache_base [OF h(1)] own_cache_full [OF h(1)] own_mamba_cache [OF h(1)]
      spec_ok_grows [OF grows_cache h(2)] spec_ok_grows [OF grows_full_cache h(2)] spec_ok_grows [OF grows_mamba_cache h(2)]
    by metis
qed

lemma own_dispatch_skip:
  assumes h: "holds_refs (m, s, X)" "spec_ok m" and eq: "remove_skipped_blocks rid n np m s = Inr (m', s')"
  shows "holds_refs (m', s', X) \<and> same_config s s' \<and> spec_ok m'"
proof -
  have "base_remove_skipped_blocks rid n m s = Inr (m', s') \<or> (\<exists>a b. remove_blocks_in_range rid a b m s = Inr (m', s')) \<or>
      mamba_remove_skipped_blocks rid n m s = Inr (m', s')"
    using eq by (auto simp: remove_skipped_blocks_def rswa_remove_skipped_blocks_def Let_def
        split: manager_class.splits option.splits)
  then show ?thesis
    using own_skip_base [OF h(1)] own_remove [OF h(1)] own_mamba_skip [OF h(1)]
      spec_ok_grows [OF grows_skip h(2)] spec_ok_grows [OF grows_remove h(2)] spec_ok_grows [OF grows_mamba_skip h(2)]
    by metis
qed

lemma mgr_step_keeps:
  assumes "mgr_step (m, s, X) (m', s', X')" and h: "holds_refs (m, s, X)" "spec_ok m"
  shows "holds_refs (m', s', X') \<and> same_config s s' \<and> spec_ok m'"
  using assms(1)
proof cases
  case (ms_admit rid n ncb tot l nm cap k)
  then show ?thesis using own_admit [OF h] by auto
next
  case (ms_local ncb rid l e)
  then show ?thesis using own_dispatch_local [OF h] by blast
next
  case (ms_external rid l e u)
  then show ?thesis using own_dispatch_external [OF h] by blast
next
  case (ms_new nm u rid n bl)
  then show ?thesis using own_dispatch_new [OF h] by blast
next
  case (ms_cache sha u r n ri r')
  then show ?thesis using own_dispatch_cache [OF h] by blast
next
  case (ms_skip rid n np)
  then show ?thesis using own_dispatch_skip [OF h] by blast
next
  case (ms_free rid)
  then show ?thesis using own_free_req [OF h] by blast
next
  case (ms_pop rid bl)
  then show ?thesis using own_pop [OF h, of rid bl m'] by simp
next
  case (ms_copies ps)
  then show ?thesis
    using h by (auto simp: take_pending_cow_copies_def holds_refs_def mgr_refs_def mgr_ok_def mgr_frame ac_simps)
next
  case (ms_ids ids)
  then show ?thesis using h by (auto simp: take_new_block_ids_def mgr_frame)
next
  case (ms_read ids rid)
  then show ?thesis using h holds_refs_open [OF h(1), of rid] spec_ok_grows [OF grows_open h(2), of rid] by (simp add: mgr_frame)
next
  case (ms_offloads os)
  then show ?thesis using h by (auto simp: take_pending_partial_tail_offloads_def mgr_frame intro: holds_refs_offloads)
next
  case (ms_common rid k)
  then show ?thesis
    using h own_common [of rid m s k m'] holds_refs_open [OF h(1), of rid] spec_ok_grows [OF grows_open h(2), of rid] by auto
next
  case ms_start
  then show ?thesis using h by (auto simp: new_step_starts_def mgr_frame split: manager_class.splits)
next
  case ms_pool
  then show ?thesis using h pool_step_inv by (auto simp: holds_refs_def mgr_ok_frame)
qed

section \<open>Holders of references side by side\<close>

text \<open>
  What a holder of references promises: a step keeps the count when everybody else holds \<open>X\<close>, and it does not touch the
  configuration of the pool.  Several holders that share one pool then keep the count together.
\<close>

locale ref_holder =
  fixes refs :: "'m \<Rightarrow> nat multiset"
    and ok :: "block_pool \<Rightarrow> 'm \<Rightarrow> bool"
    and step :: "'m \<times> block_pool \<times> nat multiset \<Rightarrow> 'm \<times> block_pool \<times> nat multiset \<Rightarrow> bool"
  assumes keeps: "step (m, s, X) (m', s', X') \<Longrightarrow> ok s m \<Longrightarrow> client_inv (s, refs m + X) \<Longrightarrow>
      ok s' m' \<and> client_inv (s', refs m' + X') \<and> same_config s s'"
    and frame: "same_config s s' \<Longrightarrow> ok s m \<Longrightarrow> ok s' m"
begin

lemma loop_keeps:
  assumes "for_managers f xs ms s = Inr (bs, ms', s')"
    and "\<And>x m s1 b m' s2 X. (x, m) \<in> set (zip xs ms) \<Longrightarrow> same_config (pool s) (pool s1) \<Longrightarrow>
      f x m s1 = Inr (b, m', s2) \<Longrightarrow> step (m, pool s1, X) (m', pool s2, X)"
    and "\<forall>m \<in> set ms. ok (pool s) m" and "client_inv (pool s, sum_list (map refs ms) + X)"
  shows "(\<forall>m \<in> set ms'. ok (pool s') m) \<and> client_inv (pool s', sum_list (map refs ms') + X) \<and>
    same_config (pool s) (pool s') \<and> length ms' = length ms"
  using assms
proof (induction f xs ms s arbitrary: bs ms' s' X rule: for_managers.induct)
  case (3 f x xs m ms s)
  from "3.prems"(1) obtain b m1 s1 bs1 ms1 where f: "f x m s = Inr (b, m1, s1)"
    and rest: "for_managers f xs ms s1 = Inr (bs1, ms1, s')" and res: "bs = b # bs1" "ms' = m1 # ms1"
    by (auto simp: result_simps)
  let ?Y = "sum_list (map refs ms) + X"
  have "step (m, pool s, ?Y) (m1, pool s1, ?Y)" by (rule "3.prems"(2)) (use f in simp_all)
  from keeps [OF this] "3.prems"(3,4) have k: "ok (pool s1) m1" "client_inv (pool s1, refs m1 + ?Y)"
    "same_config (pool s) (pool s1)" by (simp_all add: ac_simps)
  have "(\<forall>m \<in> set ms1. ok (pool s') m) \<and> client_inv (pool s', sum_list (map refs ms1) + (refs m1 + X)) \<and>
      same_config (pool s1) (pool s') \<and> length ms1 = length ms"
  proof (rule "3.IH" [OF rest])
    show "step (m, pool s2, X) (m', pool s3, X)"
      if "(x, m) \<in> set (zip xs ms)" "same_config (pool s1) (pool s2)" "f x m s2 = Inr (b, m', s3)" for x m s2 b m' s3 X
      by (rule "3.prems"(2) [OF _ same_config_trans [OF k(3) that(2)] that(3)]) (use that(1) in simp)
    show "\<forall>m \<in> set ms. ok (pool s1) m" using "3.prems"(3) frame [OF k(3)] by simp
    show "client_inv (pool s1, sum_list (map refs ms) + (refs m1 + X))" using k(2) by (simp add: ac_simps)
  qed
  then show ?case
    using k frame [of "pool s1" "pool s'" m1] res by (auto simp: ac_simps intro: same_config_trans)
qed simp_all

end

interpretation mgr: ref_holder mgr_refs "\<lambda>s m. mgr_ok s m \<and> spec_ok m" mgr_step
proof unfold_locales
  show "(mgr_ok s' m' \<and> spec_ok m') \<and> client_inv (s', mgr_refs m' + X') \<and> same_config s s'"
    if "mgr_step (m, s, X) (m', s', X')" "mgr_ok s m \<and> spec_ok m" "client_inv (s, mgr_refs m + X)" for m s X m' s' X'
    using mgr_step_keeps [OF that(1)] that(2,3) by (simp add: holds_refs_def)
  show "mgr_ok s' m \<and> spec_ok m" if "same_config s s'" "mgr_ok s m \<and> spec_ok m" for s s' m
    using that by (simp add: mgr_ok_frame)
qed

section \<open>Properties\<close>

text \<open>
  A manager starts empty on a fresh pool.  The sink manager is left out: it takes blocks off the free queue without
  counting a reference.
\<close>

inductive mgr_reachable :: "mgr_state \<Rightarrow> bool" where
  mr_init: "BlockPool_init n caching h events mc = Inr s \<Longrightarrow>
    manager_init cls spec c g sbs dcp z cap s = Inr (m, s) \<Longrightarrow> cls \<noteq> SinkFullAttentionManager \<Longrightarrow>
    0 < mgr_block_size m \<Longrightarrow> 0 \<le> mgr_num_speculative_blocks m \<Longrightarrow> mgr_reachable (m, s, {#})"
| mr_step: "mgr_reachable w \<Longrightarrow> mgr_step w w' \<Longrightarrow> mgr_reachable w'"

lemma subclass_init_tables:
  "subclass_init cls spec m = Inr m' \<Longrightarrow> req_to_blocks m' = req_to_blocks m \<and> pending_cow_copies m' = pending_cow_copies m \<and>
    mgr_null_block m' = mgr_null_block m \<and> allocated_block_reqs m' = allocated_block_reqs m \<and>
    num_checkpoint_blocks m' = num_checkpoint_blocks m \<and> pending_partial_tail_offloads m' = pending_partial_tail_offloads m"
  by (induction cls spec m rule: subclass_init.induct) auto

lemma manager_init_tables:
  assumes "manager_init cls spec c g sbs dcp z cap s = Inr (m, s')" and "cls \<noteq> SinkFullAttentionManager"
  shows "req_to_blocks m = [] \<and> pending_cow_copies m = [] \<and> mgr_null_block m = null_block s \<and>
    allocated_block_reqs m = [] \<and> num_checkpoint_blocks m = [] \<and> pending_partial_tail_offloads m = [] \<and> s' = s"
proof -
  let ?m = "base_manager_init cls spec s c g sbs dcp (case z of None \<Rightarrow> False | Some z \<Rightarrow> z) cap"
  have "and_then (subclass_init cls spec ?m) (\<lambda>m. Inr (m, s)) = Inr (m, s')"
    using assms by (cases cls) (auto simp: manager_init_def)
  then have "subclass_init cls spec ?m = Inr m" and "s' = s" by (auto simp: result_simps)
  then show ?thesis using subclass_init_tables [of cls spec ?m m] by (simp add: base_manager_init_def)
qed

lemma mgr_reachable_holds: "mgr_reachable (m, s, X) \<Longrightarrow> holds_refs (m, s, X) \<and> spec_ok m"
proof (induction "(m, s, X)" arbitrary: m s X rule: mgr_reachable.induct)
  case (mr_init n caching h events mc s cls spec c g sbs dcp z cap m)
  have inv: "client_inv (s, {#})" by (rule pool_reachable_inv [OF reach_init [OF mr_init(1)]])
  then have "null_block s = Blk 0" using free_invD(5) by (simp add: client_inv_def pool_inv_def)
  then show ?case
    using manager_init_tables [OF mr_init(2,3)] mr_init(4,5) inv
    by (simp add: holds_refs_def mgr_refs_def table_refs_def mgr_ok_def spec_ok_def)
next
  case (mr_step w m s X)
  obtain m0 s0 X0 where w: "w = (m0, s0, X0)" using prod_cases3 by blast
  then show ?case using mgr_step_keeps [of m0 s0 X0] mr_step by blast
qed

text \<open>Enough free blocks: the pool hands out the number asked for.\<close>

lemma own_new_total:
  assumes inv: "client_inv (s, H)" and n: "0 \<le> n" "n \<le> num_free_blocks s"
  shows "\<exists>bl s'. get_new_blocks u n s = Inr (bl, s') \<and> num_free_blocks s' = num_free_blocks s - n"
proof -
  have p: "pool_inv s" using inv by (simp add: client_inv_def)
  obtain xs where xs: "free_list s xs" using free_list_exists [OF p] by blast
  have len: "num_free_blocks s = int (length xs)" using xs by (simp add: free_list_def)
  then have "nat n \<le> length xs" using n by simp
  from get_new_blocks_correct [OF p xs this, of u] n(1) obtain s' where
    s': "get_new_blocks u n s = Inr (map Blk (take (nat n) xs), s')" "free_list s' (drop (nat n) xs)" by auto
  then have "num_free_blocks s' = int (length xs - nat n)" by (simp add: free_list_def)
  then show ?thesis using s'(1) len n by auto
qed

text \<open>A full-attention manager with blocks of two tokens on a pool of four blocks.\<close>

definition demo_manager :: manager where
  "demo_manager = base_manager_init FullAttentionManager (small_full 2) small_pool True 0 2 1 False None"

lemma demo_reachable: "mgr_reachable (demo_manager, small_pool, {#})"
  by (rule mr_init [OF small_pool(1), of FullAttentionManager "small_full 2" True 0 2 1 "Some False" None])
    (simp_all add: manager_init_def demo_manager_def base_manager_init_def small_full_def small_attention_def)

lemma demo_alloc:
  "\<exists>bl m s. allocate_new_blocks False rid 3 3 demo_manager small_pool = Inr (bl, m, s) \<and> length bl = 2 \<and> req_blocks m rid = bl"
proof -
  have inv: "client_inv (small_pool, {#})"
    using mgr_reachable_holds [OF demo_reachable] by (simp add: holds_refs_def demo_manager_def base_manager_init_def mgr_refs_def table_refs_def)
  have "num_free_blocks small_pool = 3" using small_pool(3) by (simp add: free_list_def)
  with own_new_total [OF inv, of 2 False] obtain bl s where bl: "get_new_blocks False 2 small_pool = Inr (bl, s)" by auto
  have "length bl = 2" using own_new(5) [OF inv _ bl] by simp
  then show ?thesis
    using bl by (auto simp: allocate_new_blocks_def base_allocate_new_blocks_def redirect_partial_hit_def demo_manager_def
        base_manager_init_def open_req_def record_new_def cdiv_def small_full_def small_attention_def)
qed

text \<open>
  No block of a live table is ever reused.  In every state that a manager reaches by its operations, in any order and
  with any interleaving of others on the shared pool, the reference count of a block is the number of its occurrences in the
  block tables and pending copies plus the references held outside; a block in a table is not in the free queue, and no
  allocation hands it out.
\<close>

theorem table_blocks_not_reused:
  assumes "mgr_reachable (m, s, X)"
  shows "pool_inv s \<and> (\<forall>i > 0. ref_cnt (blk s (Blk i)) = int (count (mgr_refs m) i + count X i)) \<and>
    (\<forall>rid i xs. Blk i \<in> set (req_blocks m rid) \<and> 0 < i \<and> free_list s xs \<longrightarrow> i \<notin> set xs) \<and>
    (\<forall>u n bl s' rid b. 0 \<le> n \<and> get_new_blocks u n s = Inr (bl, s') \<and> b \<in> set bl \<longrightarrow> b \<notin> set (req_blocks m rid))"
proof -
  have h: "holds_refs (m, s, X)" using mgr_reachable_holds [OF assms] by simp
  note inv = holds_refsD(2) [OF h]
  have mem: "i \<in># mgr_refs m + X" if "Blk i \<in> set (req_blocks m rid)" for i rid
    using that mgr_refs_split [OF holds_refsD(1) [OF h], of rid] by (force simp: refs_of_def)
  have p: "pool_inv s" and rc: "\<And>i. 0 < i \<Longrightarrow> ref_cnt (blk s (Blk i)) = int (count (mgr_refs m) i + count X i)"
    using inv by (simp_all add: client_inv_def)
  have free: "i \<notin> set xs" if bl: "Blk i \<in> set (req_blocks m rid)" and i: "0 < i" and xs: "free_list s xs" for rid i xs
  proof -
    have "count (mgr_refs m) i + count X i \<noteq> 0" using mem [OF bl] by (metis count_eq_zero_iff count_union)
    then have "ref_cnt (blk s (Blk i)) \<noteq> 0" using rc [OF i] by (metis of_nat_eq_0_iff)
    then show ?thesis using free_inv_mem [OF _ xs, of i] p by (auto simp: pool_inv_def)
  qed
  have new: "b \<notin> set (req_blocks m rid)" if n: "0 \<le> n" and g: "get_new_blocks u n s = Inr (bl, s')" and b: "b \<in> set bl"
    for u n bl s' rid b
  proof
    assume t: "b \<in> set (req_blocks m rid)"
    obtain i where i: "b = Blk i" using own_new(2) [OF inv n g] b by (auto simp: in_pool_all elim: pool_blockE)
    then show False using mem [of i rid] own_new(4) [OF inv n g] b t by fastforce
  qed
  show ?thesis
    by (intro conjI allI impI; (elim conjE)?) (fact p, erule rc, erule (2) free, erule (2) new)
qed

theorem table_blocks_not_reused_witness:
  "\<exists>bl m s. allocate_new_blocks False ''r'' 3 3 demo_manager small_pool = Inr (bl, m, s) \<and> length bl = 2 \<and>
     req_blocks m ''r'' = bl \<and>
     (\<forall>u n cl s' b. 0 \<le> n \<and> get_new_blocks u n s = Inr (cl, s') \<and> b \<in> set cl \<longrightarrow> b \<notin> set bl)"
proof -
  from demo_alloc [of "''r''"] obtain bl m s where a: "allocate_new_blocks False ''r'' 3 3 demo_manager small_pool = Inr (bl, m, s)"
    "length bl = 2" "req_blocks m ''r'' = bl" by blast
  have "mgr_reachable (m, s, {#})" by (rule mr_step [OF demo_reachable ms_new [OF _ a(1)]]) simp
  from table_blocks_not_reused [OF this] a show ?thesis by metis
qed

end
