(* ===== verification/Manager_Admission.thy ===== *)
theory Manager_Admission
  imports Manager_Refs
begin

text \<open>
  Admission.  \<^verbatim>\<open>get_num_blocks_to_allocate\<close> predicts how many free blocks a request takes: when that many are free, adding
  the cached blocks, allocating for externally computed tokens and allocating for the tokens to compute all succeed.
  The three phases are treated one by one, because a coordinator runs each phase over all its managers before the next.
\<close>

section \<open>What a request still takes\<close>

text \<open>The blocks that \<^verbatim>\<open>allocate_new_blocks\<close> takes: the missing part of the table and the copy of a partial hit.\<close>

definition owed :: "manager \<Rightarrow> string \<Rightarrow> int \<Rightarrow> int" where
  "owed m rid n = max (cdiv n (mgr_block_size m) - int (length (req_blocks m rid))) 0 +
     (if dict_get (partial_hit_reqs m) rid = None then 0 else 1)"

text \<open>The remembered partial hit is in the table and held.\<close>

definition cow_ready :: "manager \<Rightarrow> block_pool \<Rightarrow> string \<Rightarrow> bool" where
  "cow_ready m s rid \<longleftrightarrow>
     (case dict_get (partial_hit_reqs m) rid of
        None \<Rightarrow> True
      | Some (i, src) \<Rightarrow> 0 \<le> i \<and> i < int (length (req_blocks m rid)) \<and> req_blocks m rid ! nat i = src \<and>
          \<not> is_null (blk s src) \<and> 0 < ref_cnt (blk s src))"

text \<open>Blocks in use stay in use.\<close>

definition refs_kept :: "block_pool \<Rightarrow> block_pool \<Rightarrow> bool" where
  "refs_kept s s' \<longleftrightarrow> (\<forall>i. is_null (blk s' (Blk i)) = is_null (blk s (Blk i)) \<and>
     (0 < ref_cnt (blk s (Blk i)) \<longrightarrow> 0 < ref_cnt (blk s' (Blk i))))"

lemma refs_kept_refl [simp]: "refs_kept s s"
  by (simp add: refs_kept_def)

lemma refs_kept_trans: "refs_kept a b \<Longrightarrow> refs_kept b c \<Longrightarrow> refs_kept a c"
  by (simp add: refs_kept_def)

lemma cow_ready_kept:
  assumes "cow_ready m s rid" and "refs_kept s s'" and "in_pool s (req_blocks m rid)"
  shows "cow_ready m s' rid"
proof (cases "dict_get (partial_hit_reqs m) rid")
  case (Some p)
  have "pool_block s (req_blocks m rid ! nat (fst p))"
    using assms(1,3) Some by (auto simp: cow_ready_def in_pool_all split: prod.splits)
  then show ?thesis using assms(1,2) Some by (auto simp: cow_ready_def refs_kept_def elim!: pool_blockE split: prod.splits)
qed (simp add: cow_ready_def)

lemma evictable_kept:
  assumes "pool_inv s" and "refs_kept s s'" and "in_pool s bl"
  shows "get_num_evictable_blocks s' bl \<le> get_num_evictable_blocks s bl"
proof -
  have "ref_cnt (blk s b) = 0 \<and> \<not> is_null (blk s b)" if "b \<in> set bl" "ref_cnt (blk s' b) = 0" "\<not> is_null (blk s' b)" for b
  proof -
    obtain i where b: "b = Blk i" using assms(3) \<open>b \<in> set bl\<close> by (auto simp: in_pool_all elim: pool_blockE)
    have "\<not> is_null (blk s (Blk i))" using assms(2) that(3) b by (simp add: refs_kept_def)
    then have "0 < i" using free_invD(3) [of s i] assms(1) by (auto simp: pool_inv_def)
    then have "0 \<le> ref_cnt (blk s (Blk i))" using free_invD(2) [of s i] assms(1) by (simp add: pool_inv_def)
    moreover have "\<not> 0 < ref_cnt (blk s (Blk i))" using assms(2) that(2) b by (auto simp: refs_kept_def)
    ultimately show ?thesis using b \<open>\<not> is_null (blk s (Blk i))\<close> by simp
  qed
  then have "length (filter (\<lambda>b. ref_cnt (blk s' b) = 0 \<and> \<not> is_null (blk s' b)) bl) \<le>
      length (filter (\<lambda>b. ref_cnt (blk s b) = 0 \<and> \<not> is_null (blk s b)) bl)"
    by (induction bl) auto
  then show ?thesis by (simp add: get_num_evictable_blocks_def)
qed

section \<open>The pool's operations succeed\<close>

lemma new_succeeds:
  assumes inv: "client_inv (s, H)" and n: "0 \<le> n" "n \<le> num_free_blocks s"
  shows "\<exists>bl s'. get_new_blocks u n s = Inr (bl, s') \<and> num_free_blocks s' = num_free_blocks s - n \<and> refs_kept s s'"
proof -
  from own_new_total [OF inv n, of u] obtain bl s' where g: "get_new_blocks u n s = Inr (bl, s')"
    "num_free_blocks s' = num_free_blocks s - n" by blast
  have p: "pool_inv s" using inv by (simp add: client_inv_def)
  from get_new_blocks_returns [OF p n(1) g(1)] obtain xs where xs: "pool_inv s'"
    "\<And>j. ref_cnt (blk s' (Blk j)) = (if j \<in> set (take (nat n) xs) then 1 else ref_cnt (blk s (Blk j)))" by blast
  have "refs_kept s s'"
    using xs p free_invD(3) by (auto simp: refs_kept_def pool_inv_def)
  then show ?thesis using g by blast
qed

lemma touch_succeeds:
  assumes inv: "client_inv (s, H)" and bl: "in_pool s bl"
  shows "\<exists>s'. touch bl s = Inr s' \<and> num_free_blocks s - get_num_evictable_blocks s bl \<le> num_free_blocks s' \<and>
    refs_kept s s' \<and> (\<forall>b \<in> set bl. \<not> is_null (blk s b) \<longrightarrow> 0 < ref_cnt (blk s' b))"
proof -
  have p: "pool_inv s" using inv by (simp add: client_inv_def)
  then have f: "free_inv s" by (simp add: pool_inv_def)
  obtain xs where xs: "free_list s xs" using free_list_exists [OF p] by blast
  obtain js where js: "bl = map Blk js" and lt: "\<And>j. j \<in> set js \<Longrightarrow> int j < num_gpu_blocks s"
    using in_poolE [OF bl] by blast
  from touch_correct [OF p xs lt] js obtain s' where s': "touch bl s = Inr s'" "pool_inv s'"
    "free_list s' (filter (\<lambda>j. j \<notin> set js) xs)"
    "\<And>j. ref_cnt (blk s' (Blk j)) = ref_cnt (blk s (Blk j)) + int (count_list js j)" by blast
  have nz: "0 \<le> ref_cnt (blk s (Blk j))" if "0 < j" for j using free_invD(2) [OF f that] .
  have null: "is_null (blk s (Blk j)) \<longleftrightarrow> j = 0" "is_null (blk s' (Blk j)) \<longleftrightarrow> j = 0" for j
    using free_invD(3) f s'(2) by (auto simp: pool_inv_def)
  have "length (filter (\<lambda>j. j \<in> set js) xs) \<le> length (filter (\<lambda>b. ref_cnt (blk s b) = 0 \<and> \<not> is_null (blk s b)) bl)"
  proof -
    have "distinct xs" using xs by (simp add: free_list_def)
    then have "length (filter (\<lambda>j. j \<in> set js) xs) = card (set xs \<inter> set js)"
      by (metis distinct_card distinct_filter set_filter Collect_conj_eq Int_def mem_Collect_eq)
    also have "\<dots> \<le> card (set (filter (\<lambda>j. ref_cnt (blk s (Blk j)) = 0 \<and> \<not> is_null (blk s (Blk j))) js))"
      using free_inv_mem [OF f xs] null(1) by (intro card_mono) auto
    also have "\<dots> \<le> length (filter (\<lambda>j. ref_cnt (blk s (Blk j)) = 0 \<and> \<not> is_null (blk s (Blk j))) js)"
      by (rule card_length)
    also have "\<dots> = length (filter (\<lambda>b. ref_cnt (blk s b) = 0 \<and> \<not> is_null (blk s b)) bl)"
      by (simp add: js filter_map comp_def)
    finally show ?thesis .
  qed
  moreover have "length (filter (\<lambda>j. j \<notin> set js) xs) + length (filter (\<lambda>j. j \<in> set js) xs) = length xs"
    using sum_length_filter_compl [of "\<lambda>j. j \<in> set js" xs] by simp
  moreover have "num_free_blocks s' = int (length (filter (\<lambda>j. j \<notin> set js) xs))" "num_free_blocks s = int (length xs)"
    using s'(3) xs by (simp_all add: free_list_def)
  ultimately have "num_free_blocks s - get_num_evictable_blocks s bl \<le> num_free_blocks s'"
    by (simp add: get_num_evictable_blocks_def)
  moreover have "refs_kept s s'"
    using s'(4) null by (auto simp: refs_kept_def)
  moreover have "0 < ref_cnt (blk s' b)" if b: "b \<in> set bl" and nn: "\<not> is_null (blk s b)" for b
  proof -
    obtain j where j: "b = Blk j" "j \<in> set js" using b js by auto
    then have "0 < j" using nn null(1) [of j] by auto
    moreover have "0 < count_list js j" using j(2) by (meson count_list_0_iff gr0I)
    ultimately show ?thesis using s'(4) [of j] nz [of j] j(1) by simp
  qed
  ultimately show ?thesis using s'(1) by blast
qed

section \<open>The three phases\<close>

text \<open>Adding the cached blocks of a request that has none yet.\<close>

lemma py_drop: "(if k > 0 then py_slice_from bl k else bl) = drop (nat k) bl"
  by (simp add: py_slice_from_nonneg)

definition skipped_blocks :: "manager \<Rightarrow> int \<Rightarrow> int" where
  "skipped_blocks m tot = get_num_skipped_tokens m tot div mgr_block_size m"

text \<open>The hit covers the local tokens, and its last block is a real one when it ends inside a block.\<close>

definition hit_ok :: "manager \<Rightarrow> block_pool \<Rightarrow> block_ref list \<Rightarrow> int \<Rightarrow> bool" where
  "hit_ok m s ncb l \<longleftrightarrow> in_pool s ncb \<and> (mgr_caching m \<or> ncb = []) \<and> 0 \<le> l \<and>
     (ncb \<noteq> [] \<longrightarrow> int (length ncb) = cdiv l (mgr_block_size m) \<and>
        (l mod mgr_block_size m \<noteq> 0 \<longrightarrow> \<not> is_null (blk s (last ncb))))"

lemma cdiv_inexact:
  fixes a b :: int assumes "0 < b" and "a mod b \<noteq> 0" shows "cdiv a b = a div b + 1"
proof (rule cdiv_unique)
  have a: "a = a div b * b + a mod b" by simp
  have m: "0 < a mod b" "a mod b < b"
    using assms pos_mod_sign [of b a] pos_mod_bound [of b a] by linarith+
  show "a \<le> (a div b + 1) * b" using a m unfolding distrib_right by linarith
  have "(a div b + 1 - 1) * b = a div b * b" by simp
  then show "(a div b + 1 - 1) * b < a" using a m by linarith
qed (fact assms(1))

lemma local_succeeds:
  fixes e :: int
  assumes h: "holds_refs (m, s, X)" and bs: "0 < mgr_block_size m" and new: "req_blocks m rid = []"
    and np: "dict_get (partial_hit_reqs m) rid = None" and hit: "hit_ok m s ncb l"
  defines "k \<equiv> skipped_blocks m (l + e)"
  shows "\<exists>m' s'. base_add_local_computed_blocks rid ncb l e m s = Inr (m', s') \<and>
    num_free_blocks s - get_num_evictable_blocks s (drop (nat k) ncb) \<le> num_free_blocks s' \<and> refs_kept s s' \<and>
    cow_ready m' s' rid \<and> length (req_blocks m' rid) = max (nat k) (length ncb) \<and>
    (dict_get (partial_hit_reqs m') rid \<noteq> None \<longrightarrow> has_partial_local_hit m ncb l)"
proof -
  define nb where "nb = drop (nat k) ncb"
  have pool: "in_pool s ncb" and c: "mgr_caching m \<or> ncb = []" using hit by (simp_all add: hit_ok_def)
  have pn: "in_pool s nb" by (rule in_pool_sub [OF pool]) (simp add: nb_def set_drop_subset)
  from touch_succeeds [OF holds_refsD(2) [OF h] pn] obtain s1 where s1: "touch nb s = Inr s1"
    "num_free_blocks s - get_num_evictable_blocks s nb \<le> num_free_blocks s1" "refs_kept s s1"
    "\<forall>b \<in> set nb. \<not> is_null (blk s b) \<longrightarrow> 0 < ref_cnt (blk s1 b)" by blast
  define s' where "s' = (if mgr_caching m then s1 else s)"
  have s': "num_free_blocks s - get_num_evictable_blocks s nb \<le> num_free_blocks s'" "refs_kept s s'"
    "\<forall>b \<in> set nb. \<not> is_null (blk s b) \<longrightarrow> 0 < ref_cnt (blk s' b)"
    using s1(2-4) c by (auto simp: s'_def nb_def get_num_evictable_blocks_def)
  let ?bl = "replicate (nat k) (mgr_null_block m) @ nb"
  let ?m = "note_local_hit rid ?bl nb l m"
  have eq: "base_add_local_computed_blocks rid ncb l e m s = Inr (?m, s')"
    using s1(1) c new unfolding base_add_local_computed_blocks_def Let_def py_drop k_def [unfolded skipped_blocks_def, symmetric] nb_def [symmetric]
    by (auto simp: s'_def nb_def)
  have bl: "req_blocks ?m rid = ?bl" "length ?bl = max (nat k) (length ncb)"
    by (simp_all add: note_local_hit_def Let_def mgr_frame nb_def)
  have ph: "dict_get (partial_hit_reqs ?m) rid = (if has_partial_local_hit m nb l then Some (l div mgr_block_size m, last nb) else None)"
    using np by (simp add: note_local_hit_def Let_def has_partial_local_hit_def update_conv')
  have cow: "cow_ready ?m s' rid"
  proof (cases "has_partial_local_hit m nb l")
    case True
    then have nb: "nb \<noteq> []" and md: "l mod mgr_block_size m \<noteq> 0" by (simp_all add: has_partial_local_hit_def)
    then have ne: "ncb \<noteq> []" "nat k < length ncb" by (auto simp: nb_def)
    have L: "int (length ncb) = l div mgr_block_size m + 1" and nn: "\<not> is_null (blk s (last ncb))"
      using hit ne(1) md cdiv_inexact [OF bs md] by (simp_all add: hit_ok_def)
    have last: "last nb = last ncb" using ne(2) by (simp add: nb_def last_drop)
    obtain i where i: "last nb = Blk i" using pn nb by (metis in_pool_all last_in_set pool_blockE)
    have idx: "nat (l div mgr_block_size m) = length ?bl - 1" "0 \<le> l div mgr_block_size m"
      "l div mgr_block_size m < int (length ?bl)"
      using L ne(2) bl(2) hit bs by (auto simp: hit_ok_def pos_imp_zdiv_nonneg_iff)
    have "?bl ! (length ?bl - 1) = last nb" using nb by (metis last_appendR last_conv_nth append_is_Nil_conv)
    moreover have "\<not> is_null (blk s' (last nb)) \<and> 0 < ref_cnt (blk s' (last nb))"
    proof -
      have "last nb \<in> set nb" using nb by simp
      then have "0 < ref_cnt (blk s' (last nb))" using s'(3) nn last by metis
      moreover have "is_null (blk s' (Blk i)) = is_null (blk s (Blk i))" using s'(2) by (simp add: refs_kept_def)
      ultimately show ?thesis using nn last i by simp
    qed
    ultimately show ?thesis
      using ph True bl(1) idx by (simp add: cow_ready_def del: length_append)
  qed (use ph in \<open>simp add: cow_ready_def\<close>)
  have "dict_get (partial_hit_reqs ?m) rid \<noteq> None \<longrightarrow> has_partial_local_hit m ncb l"
    using ph by (auto simp: has_partial_local_hit_def nb_def)
  then show ?thesis using eq s'(1,2) bl cow unfolding nb_def [symmetric] by auto
qed

text \<open>Allocating for tokens computed elsewhere: what is taken now is no longer owed.\<close>

lemma external_succeeds:
  assumes h: "holds_refs (m, s, X)" and bs: "0 < mgr_block_size m" and cow: "cow_ready m s rid"
    and len: "int (length (req_blocks m rid)) \<le> cdiv (l + e) (mgr_block_size m)"
    and n: "l + e \<le> n" and free: "owed m rid n \<le> num_free_blocks s"
  shows "\<exists>m' s'. base_allocate_external_computed_blocks u rid l e m s = Inr (m', s') \<and>
    num_free_blocks s' - owed m' rid n = num_free_blocks s - owed m rid n \<and> refs_kept s s' \<and> cow_ready m' s' rid"
proof (cases "(if get_num_skipped_tokens m (l + e) > 0 then min (l + e - get_num_skipped_tokens m (l + e)) e else e) \<le> 0")
  case True
  then show ?thesis using cow by (auto simp: base_allocate_external_computed_blocks_def Let_def)
next
  case False
  let ?k = "cdiv (l + e) (mgr_block_size m) - int (length (req_blocks m rid))"
  have mono: "cdiv (l + e) (mgr_block_size m) \<le> cdiv n (mgr_block_size m)" by (rule cdiv_mono [OF bs n])
  have "?k \<le> num_free_blocks s" using mono free by (simp add: owed_def split: if_splits)
  then obtain bl s' where g: "get_new_blocks u ?k s = Inr (bl, s')" "num_free_blocks s' = num_free_blocks s - ?k" "refs_kept s s'"
    using new_succeeds [OF holds_refsD(2) [OF h], of ?k u] len by auto
  let ?m = "record_new (records_new_block_ids m) bl s' (put_blocks rid (req_blocks m rid @ bl) m)"
  have lb: "int (length bl) = ?k" using own_new(5) [OF holds_refsD(2) [OF h] _ g(1)] len by simp
  have "base_allocate_external_computed_blocks u rid l e m s = Inr (?m, s')"
    using False g(1) by (simp add: base_allocate_external_computed_blocks_def Let_def)
  moreover have "num_free_blocks s' - owed ?m rid n = num_free_blocks s - owed m rid n"
    using g(2) lb mono len by (simp add: owed_def record_new_def mgr_frame)
  moreover have "cow_ready ?m s' rid"
    using cow_ready_kept [OF cow g(3) holds_refsD(3) [OF h]]
    by (auto simp: cow_ready_def record_new_def mgr_frame nth_append nat_less_iff split: option.splits prod.splits)
  ultimately show ?thesis using g(3) by blast
qed

lemma cow_succeeds:
  assumes h: "holds_refs (m, s, X)" and cow: "cow_ready m s rid"
    and free: "dict_get (partial_hit_reqs m) rid \<noteq> None \<Longrightarrow> 1 \<le> num_free_blocks s"
  shows "\<exists>cb m' s'. redirect_partial_hit u rid m s = Inr (cb, m', s') \<and> refs_kept s s' \<and>
    num_free_blocks s' = num_free_blocks s - (if dict_get (partial_hit_reqs m) rid = None then 0 else 1) \<and>
    length (req_blocks m' rid) = length (req_blocks m rid) \<and> dict_get (partial_hit_reqs m') rid = None \<and>
    length cb = (if dict_get (partial_hit_reqs m) rid = None then 0 else 1)"
proof (cases "dict_get (partial_hit_reqs m) rid")
  case None
  then show ?thesis by (simp add: redirect_partial_hit_def)
next
  case (Some p)
  obtain i src where p: "p = (i, src)" by fastforce
  have src: "0 \<le> i" "i < int (length (req_blocks m rid))" "req_blocks m rid ! nat i = src" "\<not> is_null (blk s src)" "0 < ref_cnt (blk s src)"
    using cow Some p by (simp_all add: cow_ready_def)
  from new_succeeds [OF holds_refsD(2) [OF h], of 1 u] free Some obtain bl s1 where
    g: "get_new_blocks u 1 s = Inr (bl, s1)" "num_free_blocks s1 = num_free_blocks s - 1" "refs_kept s s1" by auto
  obtain c where bl: "bl = [c]" using own_new(5) [OF holds_refsD(2) [OF h] _ g(1)] by (cases bl) auto
  have "pool_block s src" using holds_refsD(3) [OF h, of rid] src(1-3) by (auto simp: in_pool_all)
  then have src1: "\<not> is_null (blk s1 src)" "0 < ref_cnt (blk s1 src)"
    using g(3) src(4,5) by (auto simp: refs_kept_def elim!: pool_blockE)
  let ?m = "m\<lparr>partial_hit_reqs := dict_del rid (partial_hit_reqs m)\<rparr>"
  let ?m2 = "(put_blocks rid ((req_blocks m rid)[nat i := c]) ?m)\<lparr>pending_cow_copies := pending_cow_copies m @ [(src, c)]\<rparr>"
  have cow: "apply_cow rid i src c ?m s1 = Inr (?m2, add_ref 1 c s1)"
    using src src1 by (simp add: apply_cow_def mgr_frame py_index_nonneg py_store_def)
  have "redirect_partial_hit u rid m s = Inr ([c], record_new True [c] (add_ref 1 c s1) ?m2, add_ref 1 c s1)"
    using Some p g(1) bl cow by (simp add: redirect_partial_hit_def py_index_def)
  moreover have "refs_kept s (add_ref 1 c s1)"
    using g(3) by (auto simp: refs_kept_def add_ref_def upd_blk_def)
  moreover have "num_free_blocks (add_ref 1 c s1) = num_free_blocks s - 1"
    using g(2) by (simp add: add_ref_def upd_blk_def)
  ultimately show ?thesis
    using Some by (auto simp: record_new_def mgr_frame delete_conv')
qed

text \<open>Allocating for the tokens to compute: exactly what is owed is taken, and the table covers the tokens.\<close>

lemma alloc_succeeds:
  assumes h: "holds_refs (m, s, X)" and cow: "cow_ready m s rid" and free: "owed m rid n \<le> num_free_blocks s"
  shows "\<exists>bl m' s'. base_allocate_new_blocks u rid n m s = Inr (bl, m', s') \<and>
    num_free_blocks s' = num_free_blocks s - owed m rid n \<and> refs_kept s s' \<and> int (length bl) = owed m rid n \<and>
    int (length (req_blocks m' rid)) = max (int (length (req_blocks m rid))) (cdiv n (mgr_block_size m)) \<and>
    dict_get (partial_hit_reqs m') rid = None"
proof -
  define q where "q = (if dict_get (partial_hit_reqs m) rid = None then 0 else 1 :: int)"
  have "1 \<le> num_free_blocks s" if "dict_get (partial_hit_reqs m) rid \<noteq> None" using free that by (simp add: owed_def)
  from cow_succeeds [OF h cow this, of u] obtain cb m1 s1 where c: "redirect_partial_hit u rid m s = Inr (cb, m1, s1)"
    "refs_kept s s1" "num_free_blocks s1 = num_free_blocks s - q" "length (req_blocks m1 rid) = length (req_blocks m rid)"
    "dict_get (partial_hit_reqs m1) rid = None" "int (length cb) = q"
    by (auto simp: q_def split: if_splits)
  have bs: "mgr_block_size m1 = mgr_block_size m" using grows_redirect [OF c(1)] by (simp add: grows_def)
  note h1 = own_redirect [OF h c(1)]
  let ?k = "cdiv n (mgr_block_size m) - int (length (req_blocks m rid))"
  show ?thesis
  proof (cases "?k \<le> 0")
    case True
    then show ?thesis
      using c bs by (auto simp: base_allocate_new_blocks_def owed_def q_def)
  next
    case False
    then have "?k \<le> num_free_blocks s1" using free c(3) by (simp add: owed_def q_def)
    with new_succeeds [OF holds_refsD(2) [OF h1(1)], of ?k u] False obtain nb s2 where
      g: "get_new_blocks u ?k s1 = Inr (nb, s2)" "num_free_blocks s2 = num_free_blocks s1 - ?k" "refs_kept s1 s2" by auto
    have "int (length nb) = ?k" using own_new(5) [OF holds_refsD(2) [OF h1(1)] _ g(1)] False by simp
    moreover have "base_allocate_new_blocks u rid n m s = Inr (cb @ nb, record_new (records_new_block_ids m1) nb s2
        (put_blocks rid (req_blocks m1 rid @ nb) (open_req rid m1)), s2)"
      using c(1,4) g(1) False bs by (simp add: base_allocate_new_blocks_def)
    ultimately show ?thesis
      using c(3-6) g(2) False refs_kept_trans [OF c(2) g(3)] by (simp add: owed_def q_def record_new_def mgr_frame)
  qed
qed

section \<open>The prediction\<close>

lemma predict_new:
  assumes "req_blocks m rid = []" and "dict_get (num_cached_block m) rid = None"
  shows "base_get_num_blocks_to_allocate m s rid n ncb tot l False =
    Inr (max (cdiv n (mgr_block_size m) - max (skipped_blocks m tot) (int (length ncb))) 0 +
         (if has_partial_local_hit m ncb l then 1 else 0) +
         get_num_evictable_blocks s (drop (nat (skipped_blocks m tot)) ncb))"
proof -
  have "py_slice_from ncb (max 0 (skipped_blocks m tot)) = drop (nat (skipped_blocks m tot)) ncb"
    by (simp add: py_slice_from_nonneg max_def)
  then show ?thesis
    using assms by (simp add: base_get_num_blocks_to_allocate_def Let_def skipped_blocks_def split: option.split)
qed

text \<open>A request that has blocks already and no pending partial hit.\<close>

lemma predict_running:
  assumes "dict_get (partial_hit_reqs m) rid = None"
    and "dict_get (num_cached_block m) rid = None \<Longrightarrow> skipped_blocks m tot \<le> int (length (req_blocks m rid))"
  shows "base_get_num_blocks_to_allocate m s rid n [] tot l False = Inr (owed m rid n)"
  using assms by (auto simp: base_get_num_blocks_to_allocate_def Let_def owed_def skipped_blocks_def has_partial_local_hit_def
      get_num_evictable_blocks_def py_slice_from_def max_def split: option.split)

lemma skipped_le:
  assumes bs: "0 < mgr_block_size m" and "get_num_skipped_tokens m tot \<le> tot"
  shows "skipped_blocks m tot \<le> cdiv tot (mgr_block_size m)"
proof -
  have "get_num_skipped_tokens m tot div mgr_block_size m \<le> tot div mgr_block_size m" by (rule zdiv_mono1 [OF assms(2) bs])
  also have "\<dots> \<le> cdiv tot (mgr_block_size m)"
  proof (cases "tot mod mgr_block_size m = 0")
    case True
    then have "tot = tot div mgr_block_size m * mgr_block_size m" using div_mult_mod_eq [of tot "mgr_block_size m"] by simp
    then show ?thesis using cdiv_mult [OF bs, of "tot div mgr_block_size m"] by simp
  qed (use cdiv_inexact [OF bs] in simp)
  finally show ?thesis by (simp add: skipped_blocks_def)
qed

text \<open>After the first phase of a predicted request.\<close>

lemma phase1:
  fixes e :: int
  assumes h: "holds_refs (m, s, X)" and bs: "0 < mgr_block_size m" and new: "req_blocks m rid = []"
    and nc: "dict_get (num_cached_block m) rid = None"
    and np: "dict_get (partial_hit_reqs m) rid = None" and hit: "hit_ok m s ncb l" and e: "0 \<le> e"
    and sk: "get_num_skipped_tokens m (l + e) \<le> l + e"
    and c: "base_get_num_blocks_to_allocate m s rid n ncb (l + e) l False = Inr c"
  shows "\<exists>m' s'. base_add_local_computed_blocks rid ncb l e m s = Inr (m', s') \<and>
    num_free_blocks s - c \<le> num_free_blocks s' - owed m' rid n \<and> refs_kept s s' \<and> cow_ready m' s' rid \<and>
    int (length (req_blocks m' rid)) \<le> cdiv (l + e) (mgr_block_size m') \<and> mgr_block_size m' = mgr_block_size m"
proof -
  let ?k = "skipped_blocks m (l + e)"
  from local_succeeds [OF h bs new np hit, of e] obtain m' s' where
    eq: "base_add_local_computed_blocks rid ncb l e m s = Inr (m', s')"
    and f: "num_free_blocks s - get_num_evictable_blocks s (drop (nat ?k) ncb) \<le> num_free_blocks s'"
    and r: "refs_kept s s'" "cow_ready m' s' rid" and len: "length (req_blocks m' rid) = max (nat ?k) (length ncb)"
    and ph: "dict_get (partial_hit_reqs m') rid \<noteq> None \<longrightarrow> has_partial_local_hit m ncb l" by blast
  have bs': "mgr_block_size m' = mgr_block_size m" using grows_local [OF eq] by (simp add: grows_def)
  have l: "0 \<le> l" using hit by (simp add: hit_ok_def)
  have "int (length ncb) \<le> cdiv (l + e) (mgr_block_size m)"
  proof (cases "ncb = []")
    case True
    then show ?thesis using cdiv_nonneg [OF bs, of "l + e"] l e by simp
  next
    case False
    then show ?thesis using hit cdiv_mono [OF bs, of l "l + e"] e by (simp add: hit_ok_def)
  qed
  then have le: "int (length (req_blocks m' rid)) \<le> cdiv (l + e) (mgr_block_size m)"
    using len skipped_le [OF bs sk] cdiv_nonneg [OF bs, of "l + e"] l e by (simp add: max_def)
  have "owed m' rid n + get_num_evictable_blocks s (drop (nat ?k) ncb) \<le> c"
    using c predict_new [OF new nc, of s n ncb "l + e" l] len ph bs' by (auto simp: owed_def max_def split: if_splits)
  then show ?thesis using eq f r le bs' by auto
qed

section \<open>Leaving the window\<close>

text \<open>A table whose null blocks are a prefix, as windowed managers keep it.\<close>

definition null_prefix :: "block_ref list \<Rightarrow> nat \<Rightarrow> bool" where
  "null_prefix bl j \<longleftrightarrow> j \<le> length bl \<and> (\<forall>i < length bl. bl ! i = Blk 0 \<longleftrightarrow> i < j)"

lemma null_prefix_append:
  assumes "null_prefix bl j" and "Blk 0 \<notin> set nb" shows "null_prefix (bl @ nb) j"
proof -
  have "nb ! i \<noteq> Blk 0" if "i < length nb" for i using nth_mem [OF that] assms(2) by auto
  then show ?thesis using assms(1) by (auto simp: null_prefix_def nth_append)
qed

lemma null_prefix_count:
  assumes "null_prefix bl j" shows "length (filter (\<lambda>b. b \<noteq> Blk 0) bl) = length bl - j"
proof -
  have j: "j \<le> length bl" using assms by (simp add: null_prefix_def)
  have "filter (\<lambda>b. b \<noteq> Blk 0) (take j bl) = []"
    using assms by (auto simp: null_prefix_def filter_empty_conv in_set_conv_nth)
  moreover have "filter (\<lambda>b. b \<noteq> Blk 0) (drop j bl) = drop j bl"
    using assms by (auto simp: null_prefix_def filter_id_conv in_set_conv_nth)
  ultimately show ?thesis
    using filter_append [of "\<lambda>b. b \<noteq> Blk 0" "take j bl" "drop j bl"] j by simp
qed

text \<open>The backward loop over the first \<open>k\<close> entries nulls what is not null yet and frees it from the back.\<close>

lemma null_out_prefix:
  assumes "k \<le> length bl" and "\<forall>i < k. bl ! i = Blk 0 \<longleftrightarrow> i < j"
  shows "null_out (Blk 0) (rev [0..int k - 1]) bl fr =
    Inr (take (min j k) bl @ replicate (k - j) (Blk 0) @ drop k bl, fr @ rev (drop j (take k bl)))"
  using assms
proof (induction k arbitrary: bl fr)
  case (Suc k)
  have r: "rev [0..int (Suc k) - 1] = int k # rev [0..int k - 1]"
    using upto_rec2 [of 0 "int k"] by simp
  have pk: "py_index bl (int k) = Inr (bl ! k)" using Suc.prems(1) by simp
  show ?case
  proof (cases "k < j")
    case True
    then show ?thesis using Suc.prems pk r by simp
  next
    case False
    let ?bl = "bl[k := Blk 0]"
    have st: "py_store bl (int k) (Blk 0) = Inr ?bl" using Suc.prems(1) by (simp add: py_store_def)
    have nn: "bl ! k \<noteq> Blk 0" using Suc.prems False by simp
    have "null_out (Blk 0) (rev [0..int k - 1]) ?bl (fr @ [bl ! k]) =
        Inr (take (min j k) ?bl @ replicate (k - j) (Blk 0) @ drop k ?bl, (fr @ [bl ! k]) @ rev (drop j (take k ?bl)))"
      by (rule Suc.IH) (use Suc.prems in auto)
    moreover have "drop k ?bl = Blk 0 # drop (Suc k) bl"
      using Suc.prems(1) by (simp add: Cons_nth_drop_Suc [symmetric])
    moreover have "replicate (k - j) (Blk 0) @ Blk 0 # drop (Suc k) bl = replicate (Suc k - j) (Blk 0) @ drop (Suc k) bl"
      using False by (simp add: Suc_diff_le replicate_app_Cons_same)
    moreover have "drop j (take (Suc k) bl) = drop j (take k bl) @ [bl ! k]"
      using False Suc.prems(1) by (simp add: take_Suc_conv_app_nth)
    ultimately show ?thesis
      using False pk st nn r by (simp add: min_def)
  qed
qed simp

lemma null_prefix_take: "null_prefix bl j \<Longrightarrow> i \<le> j \<Longrightarrow> take i bl = replicate i (Blk 0)"
  by (intro nth_equalityI) (auto simp: null_prefix_def)

text \<open>The whole of \<^verbatim>\<open>remove_skipped_blocks\<close> on such a table.\<close>

lemma free_succeeds:
  assumes inv: "client_inv (s, H + refs_of bl)" and "in_pool s bl"
  shows "\<exists>s'. free_blocks bl s = Inr s'"
proof -
  have p: "pool_inv s" using inv by (simp add: client_inv_def)
  obtain js where js: "bl = map Blk js" and lt: "\<And>j. j \<in> set js \<Longrightarrow> int j < num_gpu_blocks s"
    using in_poolE [OF assms(2)] by blast
  obtain xs where xs: "free_list s xs" using free_list_exists [OF p] by blast
  have "int (count_list js j) \<le> ref_cnt (blk s (Blk j))" if "j \<noteq> 0" for j
    using inv that js count_mset_list [of js j] by (auto simp: client_inv_def)
  from free_blocks_correct [OF p xs lt this] js show ?thesis by blast
qed

lemma skip_prefix:
  fixes n :: int
  assumes h: "holds_refs (m, s, X)" and bs: "0 < mgr_block_size m" and np: "null_prefix (req_blocks m rid) j"
  defines "k \<equiv> min (nat (skipped_blocks m n)) (length (req_blocks m rid))"
  shows "\<exists>m' s'. base_remove_skipped_blocks rid n m s = Inr (m', s') \<and> holds_refs (m', s', X) \<and>
    req_blocks m' rid = replicate (max j k) (Blk 0) @ drop (max j k) (req_blocks m rid) \<and>
    (if k \<le> j then s' = s else free_blocks (rev (drop j (take k (req_blocks m rid)))) s = Inr s')"
proof -
  define bl where "bl = req_blocks m rid"
  have j: "j \<le> length bl" using np by (simp add: null_prefix_def bl_def)
  have same: "replicate j (Blk 0) @ drop j bl = bl"
    using null_prefix_take [OF np [folded bl_def], of j] by (metis append_take_drop_id order_refl)
  have nb: "mgr_null_block m = Blk 0" by (rule holds_refsD(4) [OF h])
  have sk: "0 < skipped_blocks m n \<Longrightarrow> 0 < get_num_skipped_tokens m n"
    using bs by (auto simp: skipped_blocks_def pos_imp_zdiv_pos_iff)
  have "\<exists>m' s'. base_remove_skipped_blocks rid n m s = Inr (m', s') \<and>
    req_blocks m' rid = replicate (max j k) (Blk 0) @ drop (max j k) bl \<and>
    (if k \<le> j then s' = s else free_blocks (rev (drop j (take k bl))) s = Inr s')"
  proof (cases "k = 0")
    case True
    then have "\<exists>m'. base_remove_skipped_blocks rid n m s = Inr (m', s) \<and> req_blocks m' rid = bl"
      using sk by (auto simp: base_remove_skipped_blocks_def remove_blocks_in_range_def Let_def skipped_blocks_def k_def bl_def)
    then show ?thesis using True same by auto
  next
    case False
    then have pos: "0 < skipped_blocks m n" and kl: "k \<le> length bl" by (auto simp: k_def bl_def)
    have ik: "min (skipped_blocks m n) (int (length bl)) = int k" using pos by (simp add: k_def bl_def)
    have prem: "\<forall>i < k. bl ! i = Blk 0 \<longleftrightarrow> i < j" using np kl by (simp add: null_prefix_def bl_def)
    let ?tab = "take (min j k) bl @ replicate (k - j) (Blk 0) @ drop k bl"
    have tab: "?tab = replicate (max j k) (Blk 0) @ drop (max j k) bl"
    proof (cases "k \<le> j")
      case True
      then have "take k bl @ drop k bl = replicate j (Blk 0) @ drop j bl" using same by simp
      then show ?thesis using True by (simp add: max_def min_def)
    next
      case False
      then show ?thesis using null_prefix_take [OF np [folded bl_def], of j]
        by (simp add: replicate_add [symmetric] max_def min_def flip: append_assoc)
    qed
    let ?fr = "rev (drop j (take k bl))"
    have pool: "in_pool s ?fr"
      by (rule in_pool_sub [OF holds_refsD(3) [OF h, of rid]]) (auto simp: bl_def dest: in_set_dropD in_set_takeD)
    have fr: "\<exists>s'. (if ?fr \<noteq> [] then free_blocks ?fr s = Inr s' else s' = s)"
    proof -
      have "bl = take j bl @ drop j (take k bl) @ drop (max j k) bl"
        using append_take_drop_id [of j bl] drop_take [of j k bl] append_take_drop_id [of "k - j" "drop j bl"] kl j
        by (cases "k \<le> j") (simp_all add: max_def add.commute)
      then have "refs_of bl = refs_of (take j bl) + refs_of (drop (max j k) bl) + refs_of ?fr"
        by (metis (no_types, lifting) refs_of_simps(3,4) add.assoc add.commute)
      then have "client_inv (s, (refs_of (take j bl) + refs_of (drop (max j k) bl) + rest_refs rid m + X) + refs_of ?fr)"
        using holds_refsD(5) [OF h, of rid] by (simp add: bl_def ac_simps)
      from free_succeeds [OF this pool] show ?thesis by auto
    qed
    then obtain s' where s': "if ?fr \<noteq> [] then free_blocks ?fr s = Inr s' else s' = s" by blast
    have "base_remove_skipped_blocks rid n m s = remove_blocks_in_range rid 0 (int k) (open_req rid m) s"
      using sk [OF pos] ik by (simp add: base_remove_skipped_blocks_def Let_def skipped_blocks_def bl_def)
    also have "\<dots> = Inr (put_blocks rid ?tab (open_req rid m), s')"
    proof -
      have n: "null_out (Blk 0) (rev (py_range 0 (int k))) bl [] = Inr (?tab, ?fr)"
        using null_out_prefix [OF kl prem, of "[]"] by simp
      obtain y where "dict_get (req_to_blocks (open_req rid m)) rid = Some y"
        by (cases "dict_get (req_to_blocks m) rid") (simp_all add: open_req_def put_blocks_def update_conv')
      moreover have "min (int k) (int (length bl)) = int k" using kl by simp
      ultimately show ?thesis
        using n s' False nb unfolding remove_blocks_in_range_def Let_def req_blocks_open bl_def [symmetric] open_req_sel
        by (cases "?fr = []") simp_all
    qed
    finally show ?thesis using tab s' False kl by (auto split: if_splits)
  qed
  then show ?thesis using own_skip_base [OF h] unfolding bl_def by blast
qed

lemma remove_partial:
  assumes "remove_blocks_in_range rid a b m s = Inr (m', s')" shows "partial_hit_reqs m' = partial_hit_reqs m"
proof (cases "m' = m")
  case False
  define js where "js = rev (py_range a (min b (int (length (req_blocks m rid)))))"
  obtain bl freed where "(if freed \<noteq> [] then and_then (free_blocks freed s) (\<lambda>s. Inr (put_blocks rid bl m, s))
        else Inr (put_blocks rid bl m, s)) = Inr (m', s')"
    using assms False unfolding remove_blocks_in_range_def Let_def js_def [symmetric]
    by (auto elim!: and_thenE2 split: if_split_asm)
  then show ?thesis by (auto simp: result_simps split: if_split_asm)
qed simp

lemma skip_partial: "base_remove_skipped_blocks rid n m s = Inr (m', s') \<Longrightarrow> partial_hit_reqs m' = partial_hit_reqs m"
  by (auto simp: base_remove_skipped_blocks_def Let_def dest!: remove_partial split: if_splits)

lemma alloc_extends:
  assumes h: "holds_refs (m, s, X)" and np: "dict_get (partial_hit_reqs m) rid = None"
    and eq: "base_allocate_new_blocks u rid n m s = Inr (bl, m', s')"
  shows "req_blocks m' rid = req_blocks m rid @ bl \<and> Blk 0 \<notin> set bl \<and>
    int (length (req_blocks m' rid)) = max (int (length (req_blocks m rid))) (cdiv n (mgr_block_size m))"
proof -
  let ?k = "cdiv n (mgr_block_size m) - int (length (req_blocks m rid))"
  show ?thesis
  proof (cases "?k \<le> 0")
    case True
    then show ?thesis using eq np by (auto simp: base_allocate_new_blocks_def redirect_partial_hit_def)
  next
    case False
    then have g: "get_new_blocks u ?k s = Inr (bl, s')" and m': "req_blocks m' rid = req_blocks m rid @ bl"
      using eq np by (auto simp: base_allocate_new_blocks_def redirect_partial_hit_def Let_def result_simps record_new_def mgr_frame)
    have "Blk 0 \<notin> set bl" using own_new(4) [OF holds_refsD(2) [OF h] _ g] False by force
    then show ?thesis using own_new(5) [OF holds_refsD(2) [OF h] _ g] m' False by simp
  qed
qed

section \<open>The admission cap\<close>

lemma cdiv_add_le:
  assumes "0 < b" shows "cdiv (x + y) b \<le> x div b + 1 + cdiv y b"
proof -
  have "x \<le> (x div b + 1) * b"
    using div_mult_mod_eq [of x b] pos_mod_bound [OF assms, of x] unfolding distrib_right by linarith
  moreover have "y \<le> cdiv y b * b" using cdiv_le_iff [OF assms, of y "cdiv y b"] by simp
  ultimately have "x + y \<le> (x div b + 1 + cdiv y b) * b" by (simp add: distrib_right)
  then show ?thesis by (simp add: cdiv_le_iff [OF assms])
qed

lemma cdiv_add_mult: "0 < b \<Longrightarrow> cdiv (k * b + y) b = k + cdiv y b"
  by (rule cdiv_unique) (use cdiv_le_iff [of b y "cdiv y b"] cdiv_le_iff [of b y "cdiv y b - 1"] in \<open>simp_all add: algebra_simps\<close>)

text \<open>The blocks of \<open>n\<close> tokens behind a window that starts after \<open>p\<close> processed ones.\<close>

lemma swa_cap_covers:
  assumes bs: "0 < att_block_size a" and "1 \<le> w" "0 \<le> e" "0 \<le> p" "n \<le> p + in_flight" "n \<le> model_len" "0 \<le> in_flight"
  shows "cdiv n (att_block_size a) - swa_num_skipped_tokens w e p div att_block_size a \<le> swa_max_admission_blocks a w e in_flight model_len"
proof -
  define x where "x = swa_num_skipped_tokens w e p"
  have x: "0 \<le> x" "n - x \<le> min (w - 1 + e + in_flight) model_len"
    using assms(2-7) by (auto simp: x_def swa_num_skipped_tokens_def)
  have "cdiv n (att_block_size a) \<le> cdiv (x + min (w - 1 + e + in_flight) model_len) (att_block_size a)"
    by (rule cdiv_mono [OF bs]) (use x in linarith)
  also have "\<dots> \<le> x div att_block_size a + 1 + cdiv (min (w - 1 + e + in_flight) model_len) (att_block_size a)"
    by (rule cdiv_add_le [OF bs])
  finally show ?thesis by (simp add: swa_max_admission_blocks_def x_def)
qed

lemma chunked_cap_covers:
  assumes bs: "0 < att_block_size a" and c: "0 < c" "att_block_size a dvd c" and "0 \<le> p" "n \<le> p + in_flight" "n \<le> model_len"
  shows "cdiv n (att_block_size a) - chunked_num_skipped_tokens c p div att_block_size a \<le> chunked_max_admission_blocks a c in_flight model_len"
proof -
  define x where "x = chunked_num_skipped_tokens c p"
  have xp: "x = p - p mod c" by (simp add: x_def chunked_num_skipped_tokens_def minus_mod_eq_div_mult)
  have "0 \<le> p div c" using assms(4) c(1) by (simp add: pos_imp_zdiv_nonneg_iff)
  then have "0 \<le> x" using c(1) by (simp add: x_def chunked_num_skipped_tokens_def)
  then have x: "n - x \<le> min (c + in_flight) model_len"
    using xp assms(5,6) pos_mod_bound [OF c(1), of p] by linarith
  have d: "x = x div att_block_size a * att_block_size a"
    using c(2) by (simp add: x_def chunked_num_skipped_tokens_def dvd_mult)
  have "cdiv n (att_block_size a) = x div att_block_size a + cdiv (n - x) (att_block_size a)"
    using cdiv_add_mult [OF bs, of "x div att_block_size a" "n - x"] d by simp
  also have "cdiv (n - x) (att_block_size a) \<le> cdiv (min (c + in_flight) model_len) (att_block_size a)"
    by (rule cdiv_mono [OF bs x])
  finally show ?thesis by (simp add: chunked_max_admission_blocks_def x_def)
qed

section \<open>Properties\<close>



text \<open>
  The specifications whose blocks are recycled, and the tokens behind the window after \<open>p\<close> processed ones.  Chunks are whole blocks.
\<close>

fun recycling_spec :: "KVCacheSpec \<Rightarrow> bool" where
  "recycling_spec (SlidingWindowSpec a w e) \<longleftrightarrow> 0 < att_block_size a \<and> 1 \<le> w \<and> 0 \<le> e"
| "recycling_spec (SlidingWindowMLASpec a w e _) \<longleftrightarrow> 0 < att_block_size a \<and> 1 \<le> w \<and> 0 \<le> e"
| "recycling_spec (ChunkedLocalAttentionSpec a n) \<longleftrightarrow> 0 < att_block_size a \<and> 0 < n \<and> att_block_size a dvd n"
| "recycling_spec _ \<longleftrightarrow> False"

text \<open>What construction sets and no operation changes.\<close>

definition same_setup :: "manager \<Rightarrow> manager \<Rightarrow> bool" where
  "same_setup m m' \<longleftrightarrow> mgr_class m = mgr_class m' \<and> mgr_block_size m = mgr_block_size m' \<and> mgr_sliding_window m = mgr_sliding_window m' \<and>
     mgr_extra_retained_tokens m = mgr_extra_retained_tokens m' \<and> mgr_attention_chunk_size m = mgr_attention_chunk_size m' \<and>
     max_admission_blocks_per_request m = max_admission_blocks_per_request m'"

text \<open>The table of a request is null blocks, then at most \<open>g\<close> real ones, for no more than \<open>full\<close> tokens.\<close>

definition within_reservation :: "manager \<Rightarrow> string \<Rightarrow> int \<Rightarrow> int \<Rightarrow> bool" where
  "within_reservation m rid full g \<longleftrightarrow>
     (\<exists>j. null_prefix (req_blocks m rid) j) \<and> int (length (req_blocks m rid)) \<le> cdiv full (mgr_block_size m) \<and>
     int (length (filter (\<lambda>b. b \<noteq> Blk 0) (req_blocks m rid))) \<le> g"

lemma recycling_manager:
  assumes "get_manager_for_kv_cache_spec builtin_registry spec in_flight model_len caching gid sbs 1 z pool = Inr (m0, s0)"
    and "recycling_spec spec" and "0 \<le> in_flight" and "same_setup m m0"
  obtains cap where "max_admission_blocks_per_request m = Some cap" and "0 < mgr_block_size m"
    and "mgr_class m = SlidingWindowManager \<or> mgr_class m = ChunkedLocalAttentionManager"
    and "\<And>p. 0 \<le> p \<Longrightarrow> get_num_skipped_tokens m p \<le> p"
    and "\<And>p n. 0 \<le> p \<Longrightarrow> n \<le> p + in_flight \<Longrightarrow> n \<le> model_len \<Longrightarrow> cdiv n (mgr_block_size m) - skipped_blocks m p \<le> cap"
    and "req_blocks m0 rid = []" and "num_cached_block m0 = []"
proof (cases spec)
  case (SlidingWindowSpec a w e)
  then show thesis using assms that [of "swa_max_admission_blocks a w e in_flight model_len"] swa_cap_covers [of a w e _ _ in_flight model_len]
    by (auto simp: get_manager_for_kv_cache_spec_def get_manager_class_def manager_init_def base_manager_init_def same_setup_def
        skipped_blocks_def get_num_skipped_tokens_def swa_num_skipped_tokens_def req_blocks_def)
next
  case (SlidingWindowMLASpec a w e f)
  then show thesis using assms that [of "swa_max_admission_blocks a w e in_flight model_len"] swa_cap_covers [of a w e _ _ in_flight model_len]
    by (auto simp: get_manager_for_kv_cache_spec_def get_manager_class_def manager_init_def base_manager_init_def same_setup_def
        skipped_blocks_def get_num_skipped_tokens_def swa_num_skipped_tokens_def req_blocks_def)
next
  case (ChunkedLocalAttentionSpec a n)
  have "chunked_num_skipped_tokens n p \<le> p" if "0 < n" for p
    using that by (simp add: chunked_num_skipped_tokens_def minus_mod_eq_div_mult [symmetric])
  then show thesis using ChunkedLocalAttentionSpec assms that [of "chunked_max_admission_blocks a n in_flight model_len"]
      chunked_cap_covers [of a n _ _ in_flight model_len]
    by (auto simp: get_manager_for_kv_cache_spec_def get_manager_class_def manager_init_def base_manager_init_def same_setup_def
        skipped_blocks_def get_num_skipped_tokens_def req_blocks_def)
qed (use assms(2) in simp_all)

lemma recycle_and_extend:
  assumes h: "holds_refs (m, s, X)" and bs: "0 < mgr_block_size m" and j: "null_prefix (req_blocks m rid) j"
    and np: "dict_get (partial_hit_reqs m) rid = None"
    and eq1: "base_remove_skipped_blocks rid p m s = Inr (m1, s1)" and eq2: "base_allocate_new_blocks u rid n m1 s1 = Inr (bl, m2, s2)"
  defines "k \<equiv> max j (min (nat (skipped_blocks m p)) (length (req_blocks m rid)))"
  shows "null_prefix (req_blocks m2 rid) k" and "mgr_block_size m2 = mgr_block_size m"
    and "int (length (req_blocks m2 rid)) = max (int (length (req_blocks m rid))) (cdiv n (mgr_block_size m))"
proof -
  from skip_prefix [OF h bs j, of p, folded k_def] eq1 have h1: "holds_refs (m1, s1, X)"
    and tab: "req_blocks m1 rid = replicate k (Blk 0) @ drop k (req_blocks m rid)" by auto
  have g1: "mgr_block_size m1 = mgr_block_size m" using grows_skip [OF eq1] by (simp add: grows_def)
  have "dict_get (partial_hit_reqs m1) rid = None" using skip_partial [OF eq1] np by simp
  note al = alloc_extends [OF h1 this eq2]
  have kl: "j \<le> k" "k \<le> length (req_blocks m rid)" using j by (simp_all add: null_prefix_def k_def)
  then have "null_prefix (req_blocks m1 rid) k" using j by (auto simp: tab null_prefix_def nth_append)
  then show "null_prefix (req_blocks m2 rid) k" using al null_prefix_append by simp
  show "mgr_block_size m2 = mgr_block_size m" using grows_alloc [OF eq2] g1 by (simp add: grows_def)
  show "int (length (req_blocks m2 rid)) = max (int (length (req_blocks m rid))) (cdiv n (mgr_block_size m))"
    using al [THEN conjunct2, THEN conjunct2] tab kl(2) g1 by simp
qed

text \<open>
  C17.  The admission cap is enough.  A manager of sliding-window or chunked-local attention is made for a specification, and the admission
  gate counts \<open>g\<close> blocks for a request of \<open>full\<close> tokens that it does not know: no more than \<^verbatim>\<open>max_admission_blocks_per_request\<close>.  In every later state
  of such a manager, a request whose table covers its \<open>p\<close> processed tokens and holds at most \<open>g\<close> real blocks drops the blocks behind the window and
  gets slots for \<open>n\<close> tokens, at most \<open>in_flight\<close> beyond the processed ones; then it still holds at most \<open>g\<close> real blocks.  Context parallelism is off.
\<close>

theorem window_cap_enough:
  assumes "get_manager_for_kv_cache_spec builtin_registry spec in_flight model_len caching gid sbs 1 z pool = Inr (m0, s0)"
    and "recycling_spec spec" and "0 \<le> in_flight"
    and "base_get_num_blocks_to_allocate m0 s0 rid full [] 0 0 True = Inr g"
    and "mgr_reachable (m, s, X)" and "same_setup m m0" and "dict_get (partial_hit_reqs m) rid = None"
    and "within_reservation m rid full g" and "0 \<le> p" and "p \<le> int (length (req_blocks m rid)) * mgr_block_size m"
    and "n \<le> p + in_flight" and "n \<le> model_len" and "n \<le> full"
    and "remove_skipped_blocks rid p np m s = Inr (m1, s1)" and "allocate_new_blocks u rid n nm m1 s1 = Inr (bl, m2, s2)"
  shows "within_reservation m2 rid full g \<and> (\<exists>cap. max_admission_blocks_per_request m = Some cap \<and> g \<le> max cap 0)"
proof -
  obtain cap where cap: "max_admission_blocks_per_request m = Some cap" and bs: "0 < mgr_block_size m"
    and cls: "mgr_class m = SlidingWindowManager \<or> mgr_class m = ChunkedLocalAttentionManager" and behind: "get_num_skipped_tokens m p \<le> p"
    and none: "get_num_skipped_tokens m 0 \<le> 0" and covers: "cdiv n (mgr_block_size m) - skipped_blocks m p \<le> cap"
    and new: "req_blocks m0 rid = []" "num_cached_block m0 = []"
    using recycling_manager [OF assms(1,2,3,6)] assms(9,11,12) by (metis order_refl)
  have "get_num_skipped_tokens m0 0 = get_num_skipped_tokens m 0" "mgr_block_size m0 = mgr_block_size m"
    "max_admission_blocks_per_request m0 = Some cap" using assms(6) cap
    by (simp_all add: same_setup_def get_num_skipped_tokens_def cong: manager_class.case_cong)
  then have g: "g = max (min (cdiv full (mgr_block_size m)) cap - max (get_num_skipped_tokens m 0 div mgr_block_size m) 0) 0"
    using assms(4) new
    by (simp add: base_get_num_blocks_to_allocate_def Let_def has_partial_local_hit_def get_num_evictable_blocks_def py_slice_from_def)
  then have g: "g = max (min (cdiv full (mgr_block_size m)) cap) 0"
    using none bs by (simp add: div_nonpos_pos_le0)
  let ?len = "length (req_blocks m rid)"
  obtain j where j: "null_prefix (req_blocks m rid) j" and len: "int ?len \<le> cdiv full (mgr_block_size m)"
    and real: "int (length (filter (\<lambda>b. b \<noteq> Blk 0) (req_blocks m rid))) \<le> g" using assms(8) by (auto simp: within_reservation_def)
  define k where "k = max j (min (nat (skipped_blocks m p)) ?len)"
  have h: "holds_refs (m, s, X)" using mgr_reachable_holds [OF assms(5)] by simp
  have eq1: "base_remove_skipped_blocks rid p m s = Inr (m1, s1)" using cls assms(14) by (auto simp: remove_skipped_blocks_def)
  have eq2: "base_allocate_new_blocks u rid n m1 s1 = Inr (bl, m2, s2)"
    using cls assms(15) grows_skip [OF eq1] by (auto simp: allocate_new_blocks_def grows_def)
  note t = recycle_and_extend [OF h bs j assms(7) eq1 eq2, folded k_def]
  have cnt: "int (length (filter (\<lambda>b. b \<noteq> Blk 0) (req_blocks m2 rid))) = int (length (req_blocks m2 rid)) - int k"
    using null_prefix_count [OF t(1)] t(1) by (simp add: null_prefix_def of_nat_diff)
  have cnt0: "int (length (filter (\<lambda>b. b \<noteq> Blk 0) (req_blocks m rid))) = int ?len - int j" "j \<le> k"
    using null_prefix_count [OF j] j by (simp_all add: null_prefix_def of_nat_diff k_def)
  have n: "cdiv n (mgr_block_size m) \<le> cdiv full (mgr_block_size m)" by (rule cdiv_mono [OF bs assms(13)])
  have "skipped_blocks m p \<le> int ?len * mgr_block_size m div mgr_block_size m"
    unfolding skipped_blocks_def by (rule zdiv_mono1 [OF _ bs]) (use behind assms(10) in linarith)
  then have k: "skipped_blocks m p \<le> int k" using bs by (simp add: k_def)
  have "int (length (filter (\<lambda>b. b \<noteq> Blk 0) (req_blocks m2 rid))) \<le> g"
  proof (cases "cdiv n (mgr_block_size m) \<le> int ?len")
    case True
    then show ?thesis using cnt cnt0 t(3) real by linarith
  next
    case False
    then show ?thesis using cnt t(3) covers k n g by linarith
  qed
  then show ?thesis using t len n cap g by (auto simp: within_reservation_def)
qed

definition demo_window :: manager where
  "demo_window = (base_manager_init SlidingWindowManager (small_swa 2) small_pool True 0 2 1 False (Some 4))
     \<lparr>mgr_sliding_window := 2, mgr_extra_retained_tokens := 0\<rparr>"

lemma demo_window_reachable: "mgr_reachable (demo_window, small_pool, {#})"
  by (rule mr_init [OF small_pool(1), of SlidingWindowManager "small_swa 2" True 0 2 1 "Some False" "Some 4"])
    (simp_all add: manager_init_def demo_window_def base_manager_init_def small_swa_def small_attention_def)

lemma demo_window_made:
  "get_manager_for_kv_cache_spec builtin_registry (small_swa 2) 4 8 True 0 2 1 (Some False) small_pool = Inr (demo_window, small_pool)"
  by (simp add: get_manager_for_kv_cache_spec_def get_manager_class_def manager_init_def demo_window_def small_swa_def small_attention_def
      swa_max_admission_blocks_def cdiv_def base_manager_init_def)

theorem window_cap_enough_witness:
  "\<exists>bl m s. base_get_num_blocks_to_allocate demo_window small_pool ''r'' 8 [] 0 0 True = Inr 4 \<and>
     allocate_new_blocks False ''r'' 3 3 demo_window small_pool = Inr (bl, m, s) \<and> within_reservation m ''r'' 8 4"
proof -
  have w: "mgr_class demo_window = SlidingWindowManager" "mgr_block_size demo_window = 2"
    "mgr_sliding_window demo_window = 2" "mgr_extra_retained_tokens demo_window = 0" "req_blocks demo_window ''r'' = []"
    "dict_get (partial_hit_reqs demo_window) ''r'' = None"
    by (simp_all add: demo_window_def base_manager_init_def req_blocks_def small_swa_def small_attention_def)
  have spec: "recycling_spec (small_swa 2)" by (simp add: small_swa_def small_attention_def)
  have g: "base_get_num_blocks_to_allocate demo_window small_pool ''r'' 8 [] 0 0 True = Inr 4"
    using w by (simp add: base_get_num_blocks_to_allocate_def Let_def has_partial_local_hit_def get_num_evictable_blocks_def get_num_skipped_tokens_def
        swa_num_skipped_tokens_def demo_window_def base_manager_init_def cdiv_def req_blocks_def py_slice_from_def)
  have "num_free_blocks small_pool = 3" using small_pool(3) by (simp add: free_list_def)
  moreover have "owed demo_window ''r'' 3 = 2" using w by (simp add: owed_def cdiv_def)
  moreover have "holds_refs (demo_window, small_pool, {#})" using mgr_reachable_holds [OF demo_window_reachable] by simp
  ultimately obtain bl m s where a: "base_allocate_new_blocks False ''r'' 3 demo_window small_pool = Inr (bl, m, s)"
    using alloc_succeeds [of demo_window small_pool "{#}" "''r''" 3 False] w(6) by (auto simp: cow_ready_def)
  then have al: "allocate_new_blocks False ''r'' 3 3 demo_window small_pool = Inr (bl, m, s)"
    using w(1) by (simp add: allocate_new_blocks_def)
  have sk: "remove_skipped_blocks ''r'' 0 None demo_window small_pool = Inr (demo_window, small_pool)"
    using w by (simp add: remove_skipped_blocks_def base_remove_skipped_blocks_def get_num_skipped_tokens_def swa_num_skipped_tokens_def)
  have "same_setup demo_window demo_window" "within_reservation demo_window ''r'' 8 4"
    using w by (simp_all add: same_setup_def within_reservation_def null_prefix_def cdiv_def)
  with window_cap_enough [OF demo_window_made spec _ g demo_window_reachable _ w(6) _ _ _ _ _ _ sk al] w
  have "within_reservation m ''r'' 8 4" by simp
  with g al show ?thesis by blast
qed

end
