(* ===== verification/Kv_Coordinator.thy ===== *)
theory Kv_Coordinator
  imports Manager_Admission
begin

text \<open>
  The coordinator (\<^verbatim>\<open>vllm/v1/core/kv_cache_coordinator.py\<close>): one manager per KV cache group over one block pool.  The three
  coordinator classes are the constructors of \<open>coordinator_class\<close>; a method that a class overrides dispatches on it.
  The KV cache configuration (\<^verbatim>\<open>vllm/v1/kv_cache_interface.py\<close>) is a record.  A Python set of group indices is a list.
\<close>

section \<open>The configuration\<close>

record KVCacheTensor =
  tensor_size :: int
  tensor_layers :: "string list"
  layer_stride :: int
  block_stride :: int
  tensor_offset :: int

record KVCacheGroupSpec =
  layer_names :: "string list"
  group_spec :: KVCacheSpec
  is_eagle_group :: bool

record KVCacheConfig =
  num_blocks :: int
  kv_cache_tensors :: "KVCacheTensor list"
  kv_cache_groups :: "KVCacheGroupSpec list"
  prefix_cache_retention_interval :: "int option"
  kv_cache_layout :: "string option"

fun iter_layer_specs :: "KVCacheSpec \<Rightarrow> KVCacheSpec list" where
  "iter_layer_specs (UniformTypeKVCacheSpecs bs specs) = map snd specs"
| "iter_layer_specs s = [s]"

definition has_mamba_layers :: "KVCacheConfig \<Rightarrow> bool" where
  "has_mamba_layers cfg = list_ex (\<lambda>g. isinstance (group_spec g) cls_MambaSpec) (kv_cache_groups cfg)"

definition has_mixed_precision_kv_cache :: "KVCacheConfig \<Rightarrow> bool" where
  "has_mixed_precision_kv_cache cfg =
     (length (remdups (concat (map (\<lambda>g.
        List.map_filter (\<lambda>s. map_option (\<lambda>a. (att_dtype a, kv_quant_mode a)) (attention_part s))
          (iter_layer_specs (group_spec g))) (kv_cache_groups cfg)))) > 1)"

definition needs_kv_cache_zeroing :: "KVCacheConfig \<Rightarrow> bool" where
  "needs_kv_cache_zeroing cfg = (has_mamba_layers cfg \<or> has_mixed_precision_kv_cache cfg)"

section \<open>State\<close>

datatype coordinator_class =
    KVCacheCoordinatorNoPrefixCache | UnitaryKVCacheCoordinator | HybridKVCacheCoordinator

record SpecGroup =
  sg_spec :: KVCacheSpec
  sg_group_ids :: "int list"
  sg_manager_cls :: manager_class
  sg_use_eagle :: bool

record coordinator =
  co_class :: coordinator_class
  co_config :: KVCacheConfig
  co_caching :: bool
  co_scheduler_block_size :: int
  num_reprefillable_tokens :: int
  co_pool :: block_pool
  eagle_group_ids :: "int list"
  single_type_managers :: "manager list"
  retention_interval :: "int option"
  co_dcp_world_size :: int
  co_pcp_world_size :: int
  co_block_size :: int
  co_hash_block_size :: int
  enable_partial_hash_hits :: bool
  attention_groups :: "SpecGroup list"
  full_attention_group_id :: "int option"

section \<open>Construction\<close>

definition validate_prefix_cache_retention_interval :: "int option \<Rightarrow> int \<Rightarrow> KVCacheConfig \<Rightarrow> unit result" where
  "validate_prefix_cache_retention_interval interval scheduler_block_size cfg =
     (case interval of
        None \<Rightarrow> Inr ()
      | Some r \<Rightarrow>
          if \<not> list_ex (\<lambda>g. isinstance (group_spec g) cls_SlidingWindowSpec \<or> isinstance (group_spec g) cls_MambaSpec)
               (kv_cache_groups cfg)
          then (if r = 0 then Inr () else Inl ValueError)
          else if r < 0 then Inl ValueError
          else and_then (py_mod r scheduler_block_size) (\<lambda>k. if k \<noteq> 0 then Inl ValueError else Inr ()))"

text \<open>The managers are built in order over the one pool.\<close>

fun build_managers ::
    "registry \<Rightarrow> int \<Rightarrow> int \<Rightarrow> bool \<Rightarrow> int \<Rightarrow> int \<Rightarrow> bool \<Rightarrow> int \<Rightarrow> KVCacheGroupSpec list \<Rightarrow> block_pool
     \<Rightarrow> (manager list \<times> block_pool) result" where
  "build_managers reg in_flight model_len caching scheduler_block_size dcp zeroing i [] pool = Inr ([], pool)"
| "build_managers reg in_flight model_len caching scheduler_block_size dcp zeroing i (g # gs) pool =
     and_then (get_manager_for_kv_cache_spec reg (group_spec g) in_flight model_len caching i scheduler_block_size dcp
        (Some zeroing) pool) (\<lambda>(m, pool).
     and_then (build_managers reg in_flight model_len caching scheduler_block_size dcp zeroing (i + 1) gs pool)
       (\<lambda>(ms, pool). Inr (m # ms, pool)))"

definition block_sizes_divide :: "int \<Rightarrow> int \<Rightarrow> KVCacheConfig \<Rightarrow> unit result" where
  "block_sizes_divide scheduler_block_size hash_bs cfg =
     and_then (py_mod scheduler_block_size hash_bs) (\<lambda>r.
     and_then (py_assert (r = 0)) (\<lambda>_.
     for_each (\<lambda>g _. and_then (py_mod scheduler_block_size (spec_block_size (group_spec g))) (\<lambda>r. py_assert (r = 0)))
       (kv_cache_groups cfg) ()))"

definition initial_eagle_group_ids :: "bool \<Rightarrow> KVCacheConfig \<Rightarrow> int list" where
  "initial_eagle_group_ids use_eagle cfg =
     (let flagged = map (\<lambda>(i, g). int i) (filter (\<lambda>(i, g). is_eagle_group g) (enumerate 0 (kv_cache_groups cfg)))
      in if use_eagle \<and> flagged = [] then map int [0..<length (kv_cache_groups cfg)] else flagged)"

definition coordinator_base_init ::
    "registry \<Rightarrow> coordinator_class \<Rightarrow> KVCacheConfig \<Rightarrow> int \<Rightarrow> int \<Rightarrow> bool \<Rightarrow> bool \<Rightarrow> bool \<Rightarrow> int \<Rightarrow> int \<Rightarrow> int \<Rightarrow> int
     \<Rightarrow> KVCacheMetricsCollector option \<Rightarrow> int \<Rightarrow> coordinator result" where
  "coordinator_base_init reg cls cfg model_len in_flight use_eagle caching events dcp pcp scheduler_block_size hash_bs
       metrics num_prefill_lookahead =
     and_then (block_sizes_divide scheduler_block_size hash_bs cfg) (\<lambda>_.
     and_then (BlockPool_init (num_blocks cfg) caching hash_bs events metrics) (\<lambda>pool.
     let eagle_ids = initial_eagle_group_ids use_eagle cfg in
     if caching \<and> eagle_ids \<noteq> [] \<and> scheduler_block_size < num_prefill_lookahead then Inl ValueError
     else
       and_then (build_managers reg in_flight model_len caching scheduler_block_size dcp (needs_kv_cache_zeroing cfg) 0
          (kv_cache_groups cfg) pool) (\<lambda>(ms, pool).
       and_then (validate_prefix_cache_retention_interval (prefix_cache_retention_interval cfg) scheduler_block_size cfg) (\<lambda>_.
       Inr \<lparr>co_class = cls, co_config = cfg, co_caching = caching, co_scheduler_block_size = scheduler_block_size,
            num_reprefillable_tokens = max 0 (num_prefill_lookahead - 1), co_pool = pool, eagle_group_ids = eagle_ids,
            single_type_managers = ms, retention_interval = prefix_cache_retention_interval cfg,
            co_dcp_world_size = dcp, co_pcp_world_size = pcp, co_block_size = 0, co_hash_block_size = hash_bs,
            enable_partial_hash_hits = False, attention_groups = [], full_attention_group_id = None\<rparr>))))"

definition unitary_init :: "coordinator \<Rightarrow> coordinator result" where
  "unitary_init c =
     and_then (py_index (kv_cache_groups (co_config c)) 0) (\<lambda>g.
     let bs = spec_block_size (group_spec g);
         bs = (if co_dcp_world_size c > 1 then bs * co_dcp_world_size c else bs)
     in
     and_then (py_assert (\<not> co_caching c \<or> co_hash_block_size c = bs)) (\<lambda>_.
     and_then (py_assert (length (kv_cache_groups (co_config c)) = 1)) (\<lambda>_.
     and_then (py_index (single_type_managers c) 0) (\<lambda>m.
     Inr (c\<lparr>co_block_size := bs,
            single_type_managers := (single_type_managers c)[0 := m\<lparr>mgr_use_eagle := 0 \<in> set (eagle_group_ids c)\<rparr>]\<rparr>)))))"

text \<open>\<^verbatim>\<open>verify_and_split_kv_cache_groups\<close>: groups with the same specification are looked up together, full attention first.\<close>

fun add_to_spec_groups :: "int \<Rightarrow> KVCacheSpec \<Rightarrow> manager_class \<Rightarrow> bool \<Rightarrow> SpecGroup list \<Rightarrow> SpecGroup list result" where
  "add_to_spec_groups i spec cls use_eagle [] =
     Inr [\<lparr>sg_spec = spec, sg_group_ids = [i], sg_manager_cls = cls, sg_use_eagle = use_eagle\<rparr>]"
| "add_to_spec_groups i spec cls use_eagle (g # gs) =
     (if sg_spec g = spec then
        and_then (py_assert (cls = sg_manager_cls g)) (\<lambda>_.
        Inr (g\<lparr>sg_group_ids := sg_group_ids g @ [i], sg_use_eagle := sg_use_eagle g \<or> use_eagle\<rparr> # gs))
      else and_then (add_to_spec_groups i spec cls use_eagle gs) (\<lambda>gs. Inr (g # gs)))"

definition is_full_group :: "SpecGroup \<Rightarrow> bool" where
  "is_full_group g = isinstance (sg_spec g) cls_FullAttentionSpec"

definition mark_eagle :: "SpecGroup list \<Rightarrow> manager list \<Rightarrow> manager list" where
  "mark_eagle gs ms =
     map (\<lambda>(i, m). if list_ex (\<lambda>g. sg_use_eagle g \<and> int i \<in> set (sg_group_ids g)) gs then m\<lparr>mgr_use_eagle := True\<rparr> else m)
       (enumerate 0 ms)"

definition verify_and_split_kv_cache_groups :: "coordinator \<Rightarrow> coordinator result" where
  "verify_and_split_kv_cache_groups c =
     and_then (for_each (\<lambda>(i, g) groups.
        and_then (py_index (single_type_managers c) (int i)) (\<lambda>m.
        add_to_spec_groups (int i) (group_spec g) (mgr_class m) (int i \<in> set (eagle_group_ids c)) groups))
        (enumerate 0 (kv_cache_groups (co_config c))) []) (\<lambda>groups.
     and_then (py_assert (length groups > 1)) (\<lambda>_.
     let groups = filter is_full_group groups @ filter (\<lambda>g. \<not> is_full_group g) groups;
         first = hd groups
     in
     and_then (if is_full_group first then and_then (py_index (sg_group_ids first) 0) (\<lambda>i. Inr (Some i)) else Inr None)
       (\<lambda>full_id.
     Inr (c\<lparr>attention_groups := groups, full_attention_group_id := full_id,
            single_type_managers := mark_eagle groups (single_type_managers c)\<rparr>))))"

definition has_partial_mamba_group :: "coordinator \<Rightarrow> bool" where
  "has_partial_mamba_group c =
     list_ex (\<lambda>g. case group_spec g of
        MambaSpec f \<Rightarrow> mamba_cache_mode f = ''align'' \<and>
          ((co_dcp_world_size c = 1 \<and> mamba_block_size f > co_hash_block_size c) \<or>
           (co_dcp_world_size c > 1 \<and> mamba_block_size f \<ge> co_hash_block_size c))
      | _ \<Rightarrow> False) (kv_cache_groups (co_config c))"

definition hybrid_init :: "coordinator \<Rightarrow> coordinator result" where
  "hybrid_init c =
     and_then (for_each (\<lambda>m _. and_then (py_mod (mgr_block_size m) (co_hash_block_size c)) (\<lambda>r. py_assert (r = 0)))
        (single_type_managers c) ()) (\<lambda>_.
     and_then (py_assert (co_pcp_world_size c = 1)) (\<lambda>_.
     and_then (py_assert (co_dcp_world_size c > 1 \<longrightarrow>
        list_all (\<lambda>g. isinstance (group_spec g) cls_FullAttentionSpec \<or> isinstance (group_spec g) cls_MambaSpec)
          (kv_cache_groups (co_config c)))) (\<lambda>_.
     let unsupported = list_ex (\<lambda>m. \<not> supports_fine_grained_hash_lookup (mgr_class m) \<and> mgr_block_size m \<noteq> co_hash_block_size c)
           (single_type_managers c)
     in verify_and_split_kv_cache_groups (c\<lparr>enable_partial_hash_hits := has_partial_mamba_group c \<and> \<not> unsupported\<rparr>))))"

definition get_kv_cache_coordinator ::
    "registry \<Rightarrow> KVCacheConfig \<Rightarrow> int \<Rightarrow> int \<Rightarrow> bool \<Rightarrow> bool \<Rightarrow> bool \<Rightarrow> int \<Rightarrow> int \<Rightarrow> int \<Rightarrow> int
     \<Rightarrow> KVCacheMetricsCollector option \<Rightarrow> int \<Rightarrow> coordinator result" where
  "get_kv_cache_coordinator reg cfg model_len in_flight use_eagle caching events dcp pcp scheduler_block_size hash_bs
       metrics num_prefill_lookahead =
     (let base = (\<lambda>cls caching. coordinator_base_init reg cls cfg model_len in_flight use_eagle caching events dcp pcp
            scheduler_block_size hash_bs metrics num_prefill_lookahead)
      in
      if \<not> caching then base KVCacheCoordinatorNoPrefixCache False
      else if length (kv_cache_groups cfg) = 1 then and_then (base UnitaryKVCacheCoordinator caching) unitary_init
      else and_then (base HybridKVCacheCoordinator caching) hybrid_init)"

section \<open>Allocation and freeing\<close>

text \<open>A loop over the managers, with the argument at the index of the manager.\<close>

definition with_managers ::
    "('a \<Rightarrow> manager \<Rightarrow> block_pool \<Rightarrow> ('b \<times> manager \<times> block_pool) result) \<Rightarrow> 'a list \<Rightarrow> coordinator
     \<Rightarrow> ('b list \<times> coordinator) result" where
  "with_managers f xs c =
     and_then (for_managers f xs (single_type_managers c) (co_pool c)) (\<lambda>(bs, ms, pool).
     Inr (bs, c\<lparr>single_type_managers := ms, co_pool := pool\<rparr>))"

definition all_managers ::
    "(manager \<Rightarrow> block_pool \<Rightarrow> (manager \<times> block_pool) result) \<Rightarrow> coordinator \<Rightarrow> coordinator result" where
  "all_managers f c =
     and_then (with_managers (\<lambda>_ m s. and_then (f m s) (\<lambda>(m, s). Inr ((), m, s)))
       (map (\<lambda>_. ()) (single_type_managers c)) c) (\<lambda>(_, c). Inr c)"

text \<open>Cross attention gets one static allocation, sized by the encoder tokens.\<close>

definition predict_one ::
    "string \<Rightarrow> int \<Rightarrow> int \<Rightarrow> int \<Rightarrow> int \<Rightarrow> int \<Rightarrow> bool \<Rightarrow> block_ref list \<Rightarrow> manager \<Rightarrow> block_pool
     \<Rightarrow> (int \<times> manager \<times> block_pool) result" where
  "predict_one rid n_tokens encoder_tokens total_computed_tokens local_tokens tokens_main_model apply_cap blocks m s =
     and_then (if mgr_class m = CrossAttentionManager
               then get_num_blocks_to_allocate rid encoder_tokens [] 0 0 encoder_tokens apply_cap m s
               else get_num_blocks_to_allocate rid n_tokens blocks total_computed_tokens local_tokens tokens_main_model
                      apply_cap m s) (\<lambda>(n, m). Inr (n, m, s))"

definition co_get_num_blocks_to_allocate ::
    "string \<Rightarrow> int \<Rightarrow> block_ref list list \<Rightarrow> int \<Rightarrow> int \<Rightarrow> int \<Rightarrow> int \<Rightarrow> bool \<Rightarrow> coordinator \<Rightarrow> (int \<times> coordinator) result" where
  "co_get_num_blocks_to_allocate rid n_tokens new_computed_blocks encoder_tokens total_computed_tokens local_tokens
       tokens_main_model apply_cap c =
     and_then (with_managers (predict_one rid n_tokens encoder_tokens total_computed_tokens local_tokens tokens_main_model
        apply_cap) new_computed_blocks c) (\<lambda>(ns, c). Inr (sum_list ns, c))"

text \<open>Two phases: the hits of every group are touched before any group allocates.\<close>

definition co_allocate_new_computed_blocks ::
    "bool \<Rightarrow> string \<Rightarrow> block_ref list list \<Rightarrow> int \<Rightarrow> int \<Rightarrow> coordinator \<Rightarrow> coordinator result" where
  "co_allocate_new_computed_blocks u rid new_computed_blocks local_tokens external_tokens c =
     (if list_ex (\<lambda>m. dict_get (num_cached_block m) rid \<noteq> None) (single_type_managers c)
      then and_then (py_assert (list_all (\<lambda>bl. bl = []) new_computed_blocks)) (\<lambda>_. Inr c)
      else
        and_then (with_managers (\<lambda>bl m s. and_then (add_local_computed_blocks rid bl local_tokens external_tokens m s)
           (\<lambda>(m, s). Inr ((), m, s))) new_computed_blocks c) (\<lambda>(_, c).
        if external_tokens > 0
        then all_managers (allocate_external_computed_blocks u rid local_tokens external_tokens) c
        else Inr c))"

definition allocate_one ::
    "bool \<Rightarrow> string \<Rightarrow> int \<Rightarrow> int \<Rightarrow> int \<Rightarrow> unit \<Rightarrow> manager \<Rightarrow> block_pool \<Rightarrow> (block_ref list \<times> manager \<times> block_pool) result" where
  "allocate_one u rid n_tokens tokens_main_model encoder_tokens = (\<lambda>_ m s.
     allocate_new_blocks u rid (if mgr_class m = CrossAttentionManager then encoder_tokens else n_tokens)
       tokens_main_model m s)"

definition co_allocate_new_blocks ::
    "bool \<Rightarrow> string \<Rightarrow> int \<Rightarrow> int \<Rightarrow> int \<Rightarrow> coordinator \<Rightarrow> (block_ref list list \<times> coordinator) result" where
  "co_allocate_new_blocks u rid n_tokens tokens_main_model encoder_tokens c =
     with_managers (allocate_one u rid n_tokens tokens_main_model encoder_tokens) (map (\<lambda>_. ()) (single_type_managers c)) c"

definition align_cacheable :: "coordinator \<Rightarrow> int \<Rightarrow> int" where
  "align_cacheable c n_tokens =
     (if enable_partial_hash_hits c then n_tokens else round_down n_tokens (co_scheduler_block_size c))"

text \<open>How many tokens a manager caches: a hybrid coordinator aligns, and looks one block ahead for EAGLE groups.\<close>

definition tokens_to_cache :: "coordinator \<Rightarrow> int \<Rightarrow> manager \<Rightarrow> int" where
  "tokens_to_cache c computed_tokens m =
     (let finalized = max 0 (computed_tokens - num_reprefillable_tokens c) in
      case co_class c of
        HybridKVCacheCoordinator \<Rightarrow>
          let cached = align_cacheable c computed_tokens in
          if mgr_use_eagle m \<and> cached > 0
          then min finalized (align_cacheable c finalized + mgr_block_size m)
          else cached
      | _ \<Rightarrow> finalized)"

fun cache_all ::
    "(bytes \<Rightarrow> bytes) \<Rightarrow> bool \<Rightarrow> int option \<Rightarrow> (manager \<Rightarrow> int) \<Rightarrow> Request \<Rightarrow> manager list \<Rightarrow> block_pool
     \<Rightarrow> (Request \<times> manager list \<times> block_pool) result" where
  "cache_all sha u interval n r [] s = Inr (r, [], s)"
| "cache_all sha u interval n r (m # ms) s =
     and_then (cache_blocks sha u r (n m) interval m s) (\<lambda>(r, m, s).
     and_then (cache_all sha u interval n r ms s) (\<lambda>(r, ms, s). Inr (r, m # ms, s)))"

definition co_cache_blocks :: "(bytes \<Rightarrow> bytes) \<Rightarrow> bool \<Rightarrow> Request \<Rightarrow> int \<Rightarrow> coordinator \<Rightarrow> (Request \<times> coordinator) result" where
  "co_cache_blocks sha u r computed_tokens c =
     and_then (cache_all sha u (retention_interval c) (tokens_to_cache c computed_tokens) r (single_type_managers c) (co_pool c))
       (\<lambda>(r, ms, s). Inr (r, c\<lparr>single_type_managers := ms, co_pool := s\<rparr>))"

definition co_free :: "string \<Rightarrow> coordinator \<Rightarrow> coordinator result" where
  "co_free rid = all_managers (free_req rid)"

definition co_pop_blocks_for_free :: "string \<Rightarrow> coordinator \<Rightarrow> block_ref list \<times> coordinator" where
  "co_pop_blocks_for_free rid c =
     (let popped = map (pop_blocks_for_free rid) (single_type_managers c)
      in (concat (map fst popped), c\<lparr>single_type_managers := map snd popped\<rparr>))"

definition co_remove_skipped_blocks :: "string \<Rightarrow> int \<Rightarrow> int option \<Rightarrow> coordinator \<Rightarrow> coordinator result" where
  "co_remove_skipped_blocks rid processed_computed_tokens prompt_tokens =
     all_managers (remove_skipped_blocks rid processed_computed_tokens prompt_tokens)"

definition co_get_num_common_prefix_blocks :: "string \<Rightarrow> coordinator \<Rightarrow> int list \<times> coordinator" where
  "co_get_num_common_prefix_blocks rid c =
     (case co_class c of
        KVCacheCoordinatorNoPrefixCache \<Rightarrow> (map (\<lambda>_. 0) (single_type_managers c), c)
      | _ \<Rightarrow>
          let counted = map (\<lambda>m. get_num_common_prefix_blocks rid m (co_pool c)) (single_type_managers c)
          in (map fst counted, c\<lparr>single_type_managers := map snd counted\<rparr>))"

text \<open>A missing table and an empty one both give \<^verbatim>\<open>[]\<close>.\<close>

definition co_get_blocks :: "string \<Rightarrow> coordinator \<Rightarrow> block_ref list list" where
  "co_get_blocks rid c = map (\<lambda>m. req_blocks m rid) (single_type_managers c)"

definition co_new_step_starts :: "coordinator \<Rightarrow> coordinator" where
  "co_new_step_starts c = c\<lparr>single_type_managers := map new_step_starts (single_type_managers c)\<rparr>"

section \<open>Prefix-cache lookup\<close>

definition cache_hit_alignment_tokens :: "coordinator \<Rightarrow> int" where
  "cache_hit_alignment_tokens c =
     (if enable_partial_hash_hits c then co_hash_block_size c else co_scheduler_block_size c)"

definition unitary_find_longest_cache_hit ::
    "bytes list \<Rightarrow> int \<Rightarrow> coordinator \<Rightarrow> (block_ref list list \<times> int \<times> int) result" where
  "unitary_find_longest_cache_hit hashes max_length c =
     and_then (py_index (single_type_managers c) 0) (\<lambda>m.
     and_then (py_index (kv_cache_groups (co_config c)) 0) (\<lambda>g.
     and_then (find_longest_cache_hit (mgr_class m) (RawHashes hashes) max_length [0] (co_pool c) (group_spec g)
        (0 \<in> set (eagle_group_ids c)) (co_block_size c) (co_dcp_world_size c) (co_pcp_world_size c)) (\<lambda>(blocks, n).
     Inr (blocks, n, 0))))"

text \<open>The local variables of the hybrid loop.\<close>

record hit_state =
  curr_hit_length :: int
  longest_hit_length :: int
  hit_blocks_by_group :: "block_ref list option list"
  hit_length_by_group :: "int list"
  eagle_verified :: "int list"

definition record_hit :: "int list \<Rightarrow> block_ref list list \<Rightarrow> int \<Rightarrow> hit_state \<Rightarrow> hit_state" where
  "record_hit group_ids blocks new_hit_length st =
     fold (\<lambda>(g, bl) st. st\<lparr>hit_blocks_by_group := (hit_blocks_by_group st)[nat g := Some bl],
                           hit_length_by_group := (hit_length_by_group st)[nat g := new_hit_length]\<rparr>)
       (zip group_ids blocks) st"

definition eagle_max_length :: "coordinator \<Rightarrow> SpecGroup \<Rightarrow> int \<Rightarrow> bool \<Rightarrow> int \<Rightarrow> int \<Rightarrow> int" where
  "eagle_max_length c g group_block_size drop_eagle_block curr_length max_length =
     (if drop_eagle_block \<and> \<not> isinstance (sg_spec g) cls_MambaSpec
      then min (curr_length + (if enable_partial_hash_hits c \<and> supports_fine_grained_hash_lookup (sg_manager_cls g) \<and>
                           group_block_size > co_hash_block_size c
                        then co_hash_block_size c else group_block_size)) max_length
      else curr_length)"

text \<open>One group of the inner loop.\<close>

definition hybrid_group_step ::
    "coordinator \<Rightarrow> bytes list \<Rightarrow> int \<Rightarrow> nat \<times> SpecGroup \<Rightarrow> hit_state \<Rightarrow> hit_state result" where
  "hybrid_group_step c hashes max_length = (\<lambda>(idx, g) st.
     and_then (py_index (sg_group_ids g) 0) (\<lambda>first_group_id.
     and_then (py_index (single_type_managers c) first_group_id) (\<lambda>m.
     and_then (py_index (hit_blocks_by_group st) first_group_id) (\<lambda>cached_blocks.
     and_then (py_index (hit_length_by_group st) first_group_id) (\<lambda>cached_length.
     if is_full_group g \<and> cached_blocks \<noteq> None
     then Inr (st\<lparr>curr_hit_length := min (curr_hit_length st) cached_length\<rparr>)
     else
       let drop_eagle_block = (sg_use_eagle g \<and> int idx \<notin> set (eagle_verified st));
           limit = eagle_max_length c g (mgr_block_size m) drop_eagle_block (curr_hit_length st) max_length
       in
       and_then (find_longest_cache_hit (sg_manager_cls g) (RawHashes hashes) limit (sg_group_ids g) (co_pool c) (sg_spec g)
          drop_eagle_block (cache_hit_alignment_tokens c)
          (if is_full_group g then co_dcp_world_size c else 1) 1) (\<lambda>(blocks, new_hit_length).
       let st = (if drop_eagle_block then st\<lparr>eagle_verified := set_add (int idx) (eagle_verified st)\<rparr>
                 else if new_hit_length < curr_hit_length st then st\<lparr>eagle_verified := []\<rparr> else st);
           st = record_hit (sg_group_ids g) blocks new_hit_length (st\<lparr>curr_hit_length := new_hit_length\<rparr>)
       in Inr (st\<lparr>longest_hit_length := max (longest_hit_length st) new_hit_length\<rparr>)))))))"

partial_function (option) hybrid_loop ::
    "coordinator \<Rightarrow> bytes list \<Rightarrow> int \<Rightarrow> bool \<Rightarrow> int \<Rightarrow> hit_state \<Rightarrow> (int \<times> hit_state) result option" where
  "hybrid_loop c hashes max_length is_simple_hybrid hit_length st =
     (case for_each (hybrid_group_step c hashes max_length) (enumerate 0 (attention_groups c))
         (st\<lparr>curr_hit_length := hit_length\<rparr>) of
        Inl e \<Rightarrow> Some (Inl e)
      | Inr st \<Rightarrow>
          if curr_hit_length st \<ge> hit_length then Some (Inr (hit_length, st))
          else if is_simple_hybrid then Some (Inr (curr_hit_length st, st))
          else hybrid_loop c hashes max_length is_simple_hybrid (curr_hit_length st) st)"

declare hybrid_loop.simps [code]

definition trim_full :: "coordinator \<Rightarrow> int \<Rightarrow> block_ref list option list \<Rightarrow> block_ref list option list result" where
  "trim_full c hit_length blocks =
     and_then (py_index (attention_groups c) 0) (\<lambda>first.
     if is_full_group first then
       and_then (py_index (sg_group_ids first) 0) (\<lambda>first_id.
       and_then (py_index (single_type_managers c) first_id) (\<lambda>m.
       let n = cdiv hit_length (mgr_block_size m) in
       Inr (map (\<lambda>(i, b). if int i \<in> set (sg_group_ids first)
                          then map_option (\<lambda>bl. take (slice_bound (length bl) n) bl) b else b) (enumerate 0 blocks))))
     else Inr blocks)"

definition hybrid_find_longest_cache_hit ::
    "bytes list \<Rightarrow> int \<Rightarrow> coordinator \<Rightarrow> (block_ref list list \<times> int \<times> int) result option" where
  "hybrid_find_longest_cache_hit hashes max_length c =
     (let num_groups = length (kv_cache_groups (co_config c));
          is_simple_hybrid = (length (attention_groups c) = 2 \<and> is_full_group (hd (attention_groups c)));
          st = \<lparr>curr_hit_length = max_length, longest_hit_length = 0, hit_blocks_by_group = replicate num_groups None,
                hit_length_by_group = replicate num_groups 0, eagle_verified = []\<rparr>
      in
      map_option (\<lambda>r. and_then r (\<lambda>(hit_length, st).
        and_then (trim_full c hit_length (hit_blocks_by_group st)) (\<lambda>blocks.
        Inr (map (\<lambda>b. case b of None \<Rightarrow> [] | Some bl \<Rightarrow> bl) blocks, hit_length, longest_hit_length st - hit_length))))
        (hybrid_loop c hashes max_length is_simple_hybrid max_length st))"

definition co_find_longest_cache_hit ::
    "bytes list \<Rightarrow> int \<Rightarrow> coordinator \<Rightarrow> (block_ref list list \<times> int \<times> int) result option" where
  "co_find_longest_cache_hit hashes max_length c =
     (case co_class c of
        KVCacheCoordinatorNoPrefixCache \<Rightarrow> Some (Inr (map (\<lambda>_. []) (single_type_managers c), 0, 0))
      | UnitaryKVCacheCoordinator \<Rightarrow> Some (unitary_find_longest_cache_hit hashes max_length c)
      | HybridKVCacheCoordinator \<Rightarrow> hybrid_find_longest_cache_hit hashes max_length c)"

text \<open>Each group on its own; this lookup passes no context-parallel sizes.\<close>

definition find_longest_cache_hit_per_group ::
    "bytes list \<Rightarrow> int \<Rightarrow> coordinator \<Rightarrow> (block_ref list list \<times> int list) result" where
  "find_longest_cache_hit_per_group hashes max_length c =
     (let num_groups = length (kv_cache_groups (co_config c)) in
      for_each (\<lambda>g (hit_blocks, hit_lengths).
        and_then (find_longest_cache_hit (sg_manager_cls g) (RawHashes hashes) max_length (sg_group_ids g) (co_pool c)
           (sg_spec g) (sg_use_eagle g) (cache_hit_alignment_tokens c) 1 1) (\<lambda>(blocks, group_hit).
        Inr (fold (\<lambda>(i, bl) hits. hits[nat i := bl]) (zip (sg_group_ids g) blocks) hit_blocks,
             fold (\<lambda>(i, _) lens. lens[nat i := group_hit]) (zip (sg_group_ids g) blocks) hit_lengths)))
        (attention_groups c) (replicate num_groups [], replicate num_groups 0))"

end
