(* ===== verification/Hybrid_Lookup.thy ===== *)
theory Hybrid_Lookup
  imports Kv_Coordinator
begin

text \<open>
  The prefix-cache lookup of the hybrid coordinator (\<^verbatim>\<open>HybridKVCacheCoordinator.find_longest_cache_hit\<close>).  The loop over the
  groups ends for every configuration.  Without EAGLE and at the scheduler's granularity it computes the greatest length
  that every group can serve: each group's lookup is a greatest-element search (locale \<open>finder\<close>), and the fixed-point loop
  over such searches reaches the greatest common element.
\<close>

section \<open>The loop ends\<close>

lemma first_hit_mem: "first_hit get ok v is' = Inr (Some (i, x)) \<Longrightarrow> i \<in> set is'"
proof (induction is')
  case (Cons j js)
  then show ?case by (auto elim!: and_thenE split: option.split_asm if_split_asm)
qed simp

lemma if_raiseE: "(if b then Inl e else m) = Inr y \<Longrightarrow> (\<not> b \<Longrightarrow> m = Inr y \<Longrightarrow> P) \<Longrightarrow> P"
  by (simp split: if_split_asm)

lemma hit_blocks_nonneg: "hit_blocks cs = Inr n \<Longrightarrow> 0 \<le> n"
  by (auto simp: hit_blocks_def result_simps)

lemma whole_blocks: "0 < b \<Longrightarrow> 0 \<le> n \<Longrightarrow> 0 \<le> n * b \<and> (0 < n * b \<longrightarrow> min a b \<le> n * b)" for n b a :: int
proof (cases "n = 0")
  case False
  assume "0 < b" "0 \<le> n"
  with False have "1 * b \<le> n * b" by (intro mult_right_mono) auto
  then show ?thesis using \<open>0 < b\<close> by linarith
qed simp

lemma full_partial_nonneg:
  assumes "full_partial_hit get hs ml bs al (cb, n * bs) = Inr (cb', k)" and "0 < al" "0 < bs" "0 \<le> n"
  shows "0 \<le> k \<and> (0 < k \<longrightarrow> min al bs \<le> k)"
proof -
  from assms obtain m tail where m: "hit_blocks cb = Inr m"
    and t: "first_hit get (\<lambda>_. Inr True) (RawHashes hs) (rev (py_range (m * (bs div al))
      (min (min (m * (bs div al) + bs div al - 1) (ml div al)) (int (length hs))))) = Inr tail"
    and k: "k = (case tail of None \<Rightarrow> n * bs | Some (i, _) \<Rightarrow> (i + 1) * al)"
    unfolding full_partial_hit_def Let_def prod.case py_div_def
    by (elim and_thenE) (auto split: option.split_asm if_split_asm)
  show ?thesis
  proof (cases tail)
    case None
    then show ?thesis using k whole_blocks [OF assms(3,4), of al] by simp
  next
    case (Some p)
    obtain i x where p: "p = (i, x)" by fastforce
    from first_hit_mem [OF t [unfolded Some p]] have "m * (bs div al) \<le> i" by simp
    moreover have "0 \<le> m * (bs div al)"
      using hit_blocks_nonneg [OF m] assms(2,3) by (simp add: pos_imp_zdiv_nonneg_iff)
    ultimately have "0 \<le> i" by linarith
    then have "al \<le> (i + 1) * al" using assms(2) by (simp add: distrib_right)
    then show ?thesis unfolding k Some p option.case prod.case using assms(2) by linarith
  qed
qed

lemma full_find_nonneg:
  assumes "full_find_longest_cache_hit hs ml gs s spec eagle al dcp = Inr (bl, n)"
    and "0 < spec_block_size spec" and al: "0 < al"
  shows "0 \<le> n"
proof -
  define bs where "bs = (if dcp > 1 then spec_block_size spec * dcp else spec_block_size spec)"
  have bs: "0 < bs" using assms(2) by (simp add: bs_def)
  from assms(1) obtain hs' fine cb m cb' k where m: "hit_blocks cb = Inr m"
    and p: "(if fine then and_then (sequence_of hs') (\<lambda>raw.
        full_partial_hit (\<lambda>bh. get_cached_block bh gs s) raw ml bs al (cb, m * bs)) else Inr (cb, m * bs)) = Inr (cb', k)"
    and n: "n = (let k = (if eagle \<and> k > 0 then k - min al bs else k) in k - k mod al)"
    unfolding full_find_longest_cache_hit_def Let_def bs_def [symmetric] py_mod_def
    by (elim and_thenE2 and_thenE if_raiseE) (auto split: if_split_asm)
  have k: "0 \<le> k \<and> (0 < k \<longrightarrow> min al bs \<le> k)"
  proof (cases fine)
    case True
    then show ?thesis using p full_partial_nonneg [OF _ al bs hit_blocks_nonneg [OF m]] by (auto elim!: and_thenE)
  next
    case False
    then show ?thesis using p whole_blocks [OF bs hit_blocks_nonneg [OF m], of al] by simp
  qed
  define k' where "k' = (if eagle \<and> k > 0 then k - min al bs else k)"
  have "0 \<le> k'" using k by (auto simp: k'_def)
  then show ?thesis using n al by (simp add: k'_def [symmetric] Let_def minus_mod_eq_div_mult pos_imp_zdiv_nonneg_iff)
qed

lemma finder_nonneg:
  assumes "find_longest_cache_hit cls hs ml gs s spec eagle al dcp pcp = Inr (bl, n)"
    and bs: "0 < spec_block_size spec" and al: "0 < al"
  shows "0 \<le> n"
proof -
  have swa: "0 \<le> n" if "swa_find_longest_cache_hit hs ml gs s spec eagle al dcp pcp = Inr (bl, n)"
    using that bs unfolding swa_find_longest_cache_hit_def Let_def
    by (elim and_thenE2 and_thenE) (auto elim!: and_thenE dest!: hit_blocks_nonneg)
  have chunked: "0 \<le> n" if "chunked_find_longest_cache_hit hs ml gs s spec eagle al dcp pcp = Inr (bl, n)"
  proof (cases spec)
    case (ChunkedLocalAttentionSpec a c)
    show ?thesis
      using that bs unfolding chunked_find_longest_cache_hit_def Let_def ChunkedLocalAttentionSpec KVCacheSpec.case
      by (elim and_thenE) (auto dest!: hit_blocks_nonneg)
  qed (use that in \<open>simp_all add: chunked_find_longest_cache_hit_def\<close>)
  have state: "0 \<le> n" if "first_hit get ok v (rev (py_range 0 k)) = Inr fd" "0 < x"
    "state_hit s gs fd f (\<lambda>i. (i + 1) * x) = (bl, n)" for get ok v k fd x f
    using that first_hit_mem [of get ok v "rev (py_range 0 k)"]
    by (cases fd) (auto simp: state_hit_def)
  have mamba: "0 \<le> n" if "mamba_find_longest_cache_hit hs ml gs s spec eagle al dcp pcp = Inr (bl, n)"
    using that unfolding mamba_find_longest_cache_hit_def Let_def
    by (elim and_thenE) (auto elim!: and_thenE intro: state bs al split: if_split_asm)
  show ?thesis
    using assms(1) swa chunked mamba full_find_nonneg [OF _ bs al]
    by (cases cls) (auto simp: find_longest_cache_hit_def result_simps)
qed

text \<open>One round over the groups leaves the current length alone or at a length that a lookup returned.\<close>

definition lookup_ready :: "coordinator \<Rightarrow> bool" where
  "lookup_ready c \<longleftrightarrow> 0 < cache_hit_alignment_tokens c \<and> (\<forall>g \<in> set (attention_groups c). 0 < spec_block_size (sg_spec g))"

text \<open>Recording a hit writes one entry per group.\<close>

definition write_all :: "('v \<Rightarrow> 'a) \<Rightarrow> int list \<Rightarrow> 'v list \<Rightarrow> 'a list \<Rightarrow> 'a list" where
  "write_all f ks vs xs = fold (\<lambda>(k, v) xs. xs[nat k := f v]) (zip ks vs) xs"

lemma record_hit_eq:
  "record_hit gs bl n st = st\<lparr>hit_blocks_by_group := write_all Some gs bl (hit_blocks_by_group st),
     hit_length_by_group := write_all (\<lambda>_. n) gs bl (hit_length_by_group st)\<rparr>"
proof -
  have "fold (\<lambda>(g, bl) st. st\<lparr>hit_blocks_by_group := (hit_blocks_by_group st)[nat g := Some bl],
      hit_length_by_group := (hit_length_by_group st)[nat g := n]\<rparr>) ps st =
    st\<lparr>hit_blocks_by_group := fold (\<lambda>(k, v) xs. xs[nat k := Some v]) ps (hit_blocks_by_group st),
      hit_length_by_group := fold (\<lambda>(k, v) xs. xs[nat k := n]) ps (hit_length_by_group st)\<rparr>" for ps
    by (induction ps arbitrary: st) auto
  then show ?thesis by (simp add: record_hit_def write_all_def)
qed

lemma record_hit_sel [simp]:
  "curr_hit_length (record_hit gs bl n st) = curr_hit_length st"
  "longest_hit_length (record_hit gs bl n st) = longest_hit_length st"
  "eagle_verified (record_hit gs bl n st) = eagle_verified st"
  "hit_blocks_by_group (record_hit gs bl n st) = write_all Some gs bl (hit_blocks_by_group st)"
  "hit_length_by_group (record_hit gs bl n st) = write_all (\<lambda>_. n) gs bl (hit_length_by_group st)"
  by (simp_all add: record_hit_eq)

lemma write_all_length [simp]: "length (write_all f ks vs xs) = length xs"
proof -
  have "length (fold (\<lambda>(k, v) xs. xs[nat k := f v]) ps xs) = length xs" for ps
    by (induction ps arbitrary: xs) auto
  then show ?thesis by (simp add: write_all_def)
qed

lemma write_all_Cons: "write_all f (k # ks) (v # vs) xs = write_all f ks vs (xs[nat k := f v])"
  by (simp add: write_all_def)

lemma write_all_other: "i \<notin> nat ` set ks \<Longrightarrow> write_all f ks vs xs ! i = xs ! i"
proof (induction ks arbitrary: vs xs)
  case (Cons k ks)
  then show ?case by (cases vs) (auto simp: write_all_Cons, simp add: write_all_def)
qed (simp add: write_all_def)

lemma write_all_nth:
  assumes "j < length ks" and "length vs = length ks" and "distinct (map nat ks)" and "nat (ks ! j) < length xs"
  shows "write_all f ks vs xs ! nat (ks ! j) = f (vs ! j)"
  using assms
proof (induction ks arbitrary: j vs xs)
  case (Cons k ks)
  then obtain v ws where vs: "vs = v # ws" by (cases vs) auto
  show ?case
  proof (cases j)
    case 0
    have "nat k \<notin> nat ` set ks" using Cons.prems(3) by auto
    then show ?thesis using vs 0 Cons.prems(4) by (simp add: write_all_Cons write_all_other)
  next
    case (Suc i)
    then show ?thesis using Cons vs by (simp add: write_all_Cons)
  qed
qed simp

lemma write_all_set: "set (write_all f ks vs xs) \<subseteq> set xs \<union> f ` set vs"
proof (induction ks arbitrary: vs xs)
  case (Cons k ks)
  show ?case
  proof (cases vs)
    case (Cons v ws)
    have "set (xs[nat k := f v]) \<subseteq> insert (f v) (set xs)" by (rule set_update_subset_insert)
    then show ?thesis using Cons.IH [of ws "xs[nat k := f v]"] Cons by (auto simp: write_all_Cons)
  qed (simp add: write_all_def)
qed (simp add: write_all_def)

text \<open>Lengths stay non-negative through a round.\<close>

definition lengths_ok :: "hit_state \<Rightarrow> bool" where
  "lengths_ok st \<longleftrightarrow> 0 \<le> curr_hit_length st \<and> (\<forall>x \<in> set (hit_length_by_group st). 0 \<le> x)"

lemma group_stepE:
  assumes "hybrid_group_step c hs ml (i, g) st = Inr st'"
  obtains (seen) n where "n \<in> set (hit_length_by_group st)" "st' = st\<lparr>curr_hit_length := min (curr_hit_length st) n\<rparr>"
  | (looked) limit eagle dcp bl k v lg where
      "find_longest_cache_hit (sg_manager_cls g) (RawHashes hs) limit (sg_group_ids g) (co_pool c) (sg_spec g) eagle
         (cache_hit_alignment_tokens c) dcp 1 = Inr (bl, k)"
      "st' = (record_hit (sg_group_ids g) bl k (st\<lparr>eagle_verified := v, curr_hit_length := k\<rparr>))\<lparr>longest_hit_length := lg\<rparr>"
proof -
  from assms obtain m cached n where n: "py_index (hit_length_by_group st) m = Inr n"
    and c: "(is_full_group g \<and> cached \<noteq> None \<and> Inr (st\<lparr>curr_hit_length := min (curr_hit_length st) n\<rparr>) = Inr st') \<or>
      (\<exists>limit eagle dcp. and_then (find_longest_cache_hit (sg_manager_cls g) (RawHashes hs) limit (sg_group_ids g) (co_pool c)
         (sg_spec g) eagle (cache_hit_alignment_tokens c) dcp 1) (\<lambda>(blocks, k).
         let st = (if eagle then st\<lparr>eagle_verified := set_add (int i) (eagle_verified st)\<rparr>
                   else if k < curr_hit_length st then st\<lparr>eagle_verified := []\<rparr> else st);
             st = record_hit (sg_group_ids g) blocks k (st\<lparr>curr_hit_length := k\<rparr>)
         in Inr (st\<lparr>longest_hit_length := max (longest_hit_length st) k\<rparr>)) = Inr st')"
    unfolding hybrid_group_step_def prod.case Let_def
    by (elim and_thenE) (simp only: split: if_split_asm, blast+)
  show thesis
  proof (cases "is_full_group g \<and> cached \<noteq> None \<and> Inr (st\<lparr>curr_hit_length := min (curr_hit_length st) n\<rparr>) = (Inr st' :: hit_state result)")
    case True
    then show thesis using seen py_index_mem [OF n] by auto
  next
    case False
    with c obtain limit eagle dcp bl k where f: "find_longest_cache_hit (sg_manager_cls g) (RawHashes hs) limit (sg_group_ids g)
        (co_pool c) (sg_spec g) eagle (cache_hit_alignment_tokens c) dcp 1 = Inr (bl, k)"
      and st': "(let st = (if eagle then st\<lparr>eagle_verified := set_add (int i) (eagle_verified st)\<rparr>
                   else if k < curr_hit_length st then st\<lparr>eagle_verified := []\<rparr> else st);
             st = record_hit (sg_group_ids g) bl k (st\<lparr>curr_hit_length := k\<rparr>)
         in Inr (st\<lparr>longest_hit_length := max (longest_hit_length st) k\<rparr>)) = (Inr st' :: hit_state result)"
      by (auto elim!: and_thenE2)
    define v where "v = (if eagle then set_add (int i) (eagle_verified st) else if k < curr_hit_length st then [] else eagle_verified st)"
    have "st' = (record_hit (sg_group_ids g) bl k (st\<lparr>eagle_verified := v, curr_hit_length := k\<rparr>))\<lparr>longest_hit_length := max (longest_hit_length st) k\<rparr>"
      using st' by (auto simp: v_def Let_def)
    with f show thesis by (rule looked)
  qed
qed

lemma group_step_lengths:
  assumes "lookup_ready c" and "g \<in> set (attention_groups c)" and "lengths_ok st"
    and "hybrid_group_step c hs ml (i, g) st = Inr st'"
  shows "lengths_ok st'"
  using assms(4)
proof (cases rule: group_stepE)
  case (seen n)
  then show ?thesis using assms(3) by (simp add: lengths_ok_def)
next
  case (looked limit eagle dcp bl k v lg)
  have "0 \<le> k" using finder_nonneg [OF looked(1)] assms(1,2) by (simp add: lookup_ready_def)
  then show ?thesis
    using looked(2) assms(3) write_all_set [of "\<lambda>_. k" "sg_group_ids g" bl "hit_length_by_group st"] by (auto simp: lengths_ok_def)
qed

lemma round_lengths:
  assumes "lookup_ready c" and "lengths_ok st"
    and "for_each (hybrid_group_step c hs ml) (enumerate 0 (attention_groups c)) st = Inr st'"
  shows "lengths_ok st'"
proof (rule for_each_preserves [where P = lengths_ok, OF assms(3,2)])
  show "lengths_ok s'" if x: "x \<in> set (enumerate 0 (attention_groups c))" and "lengths_ok s" and "hybrid_group_step c hs ml x s = Inr s'" for x s s'
  proof -
    obtain i g where "x = (i, g)" by fastforce
    moreover from this x have "g \<in> set (attention_groups c)" by (auto simp: in_set_enumerate_eq)
    ultimately show ?thesis using group_step_lengths [OF assms(1)] that by blast
  qed
qed

lemma hybrid_loop_ends:
  assumes "lookup_ready c" and "lengths_ok st" and "0 \<le> n"
  shows "\<exists>r. hybrid_loop c hs ml simple n st = Some r"
  using assms(2,3)
proof (induction "nat n" arbitrary: n st rule: less_induct)
  case less
  let ?r = "for_each (hybrid_group_step c hs ml) (enumerate 0 (attention_groups c)) (st\<lparr>curr_hit_length := n\<rparr>)"
  show ?case
  proof (cases ?r)
    case (Inl e)
    then show ?thesis by (subst hybrid_loop.simps) simp
  next
    case (Inr st')
    have "lengths_ok (st\<lparr>curr_hit_length := n\<rparr>)" using less.prems by (simp add: lengths_ok_def)
    from round_lengths [OF assms(1) this Inr] have ok: "lengths_ok st'" .
    then have "\<exists>r. hybrid_loop c hs ml simple (curr_hit_length st') st' = Some r" if "curr_hit_length st' < n"
      by (intro less.hyps) (use that ok in \<open>auto simp: lengths_ok_def\<close>)
    then show ?thesis using Inr by (subst hybrid_loop.simps) (auto simp: not_le)
  qed
qed

section \<open>The fixed point of greatest-element searches\<close>

text \<open>
  A search returns the greatest served element up to a bound.  \<open>top\<close> bounds what may be asked.
\<close>

locale finder =
  fixes ready :: "'s \<Rightarrow> 'g \<Rightarrow> bool" and find :: "'s \<Rightarrow> 'g \<Rightarrow> nat \<Rightarrow> nat" and serve :: "'s \<Rightarrow> 'g \<Rightarrow> nat \<Rightarrow> bool" and top :: "'s \<Rightarrow> nat"
  assumes find_le: "ready s g \<Longrightarrow> n \<le> top s \<Longrightarrow> find s g n \<le> n"
    and find_served: "ready s g \<Longrightarrow> n \<le> top s \<Longrightarrow> serve s g (find s g n)"
    and find_last: "ready s g \<Longrightarrow> n \<le> top s \<Longrightarrow> find s g n < m \<Longrightarrow> m \<le> n \<Longrightarrow> \<not> serve s g m"
begin

definition round :: "'s \<Rightarrow> 'g list \<Rightarrow> nat \<Rightarrow> nat" where
  "round s gs n = fold (find s) gs n"

lemma round_snoc: "round s (gs @ [g]) n = find s g (round s gs n)"
  by (simp add: round_def)

lemma find_unique:
  assumes "ready s g" "n \<le> top s" "t \<le> n" "serve s g t" "\<And>m. t < m \<Longrightarrow> m \<le> n \<Longrightarrow> \<not> serve s g m"
  shows "t = find s g n"
  using assms find_le find_served find_last by (metis linorder_neqE_nat)

lemma round_le: "\<forall>g \<in> set gs. ready s g \<Longrightarrow> n \<le> top s \<Longrightarrow> round s gs n \<le> n"
proof (induction gs rule: rev_induct)
  case (snoc g gs)
  then show ?case using find_le [of s g "round s gs n"] by (simp add: round_snoc)
qed (simp add: round_def)

lemma round_bound:
  assumes "\<forall>g \<in> set gs. ready s g" "n \<le> top s" "m \<le> n" "\<forall>g \<in> set gs. serve s g m"
  shows "m \<le> round s gs n"
  using assms
proof (induction gs rule: rev_induct)
  case (snoc g gs)
  then have "m \<le> round s gs n" "round s gs n \<le> top s" using round_le [of gs s n] by auto
  then show ?case using find_last [of s g "round s gs n" m] snoc.prems by (auto simp: round_snoc not_less [symmetric])
qed (simp add: round_def)

lemma round_fixed:
  assumes "\<forall>g \<in> set gs. ready s g" "n \<le> top s" "round s gs n = n" and "gs = xs @ g # ys"
  shows "find s g (round s xs n) = n \<and> serve s g n"
proof -
  have r: "\<forall>g \<in> set xs. ready s g" "ready s g" "\<forall>g \<in> set ys. ready s g" using assms(1,4) by auto
  have le: "round s xs n \<le> n" by (rule round_le [OF r(1) assms(2)])
  have "n = round s ys (find s g (round s xs n))" using assms(3,4) by (simp add: round_def)
  moreover have "find s g (round s xs n) \<le> round s xs n" using find_le [OF r(2)] le assms(2) by simp
  moreover from this have "round s ys (find s g (round s xs n)) \<le> find s g (round s xs n)"
    using round_le [OF r(3)] le assms(2) by simp
  ultimately have eq: "find s g (round s xs n) = n" using le by linarith
  then show ?thesis using find_served [OF r(2), of "round s xs n"] le assms(2) by simp
qed

end

text \<open>A dense search: with an element all smaller ones are served, so a search below an earlier bound needs no lookup.\<close>

locale dense_finder = finder +
  fixes dense :: "'b \<Rightarrow> bool"
  assumes down: "ready s g \<Longrightarrow> dense g \<Longrightarrow> serve s g n \<Longrightarrow> m \<le> n \<Longrightarrow> serve s g m"
begin

lemma find_below:
  assumes "ready s g" "dense g" "n \<le> top s" "m \<le> n"
  shows "find s g m = min m (find s g n)"
proof (rule find_unique [symmetric])
  show "serve s g (min m (find s g n))" by (rule down [OF assms(1,2) find_served [OF assms(1,3)]]) simp
  show "\<not> serve s g k" if "min m (find s g n) < k" "k \<le> m" for k
    using find_last [OF assms(1,3), of k] that assms(4) by auto
qed (use assms in auto)

end

section \<open>The groups' lookups are such searches\<close>

text \<open>
  \<open>AL\<close> is the granularity of hits in tokens.  A group that serves \<open>t\<close> units has a block for every position that its
  attention type reads at that length: all of them, those of the window, or the last state.
\<close>

definition block_tokens :: "SpecGroup \<Rightarrow> nat" where
  "block_tokens g = nat (spec_block_size (sg_spec g))"

definition tail_need :: "SpecGroup \<Rightarrow> nat \<Rightarrow> nat" where
  "tail_need g e =
     (case sg_manager_cls g of
        SlidingWindowManager \<Rightarrow> (case get_kv_cache_spec_sliding_window (sg_spec g) of
            Some w \<Rightarrow> nat (cdiv (w - 1) (spec_block_size (sg_spec g))) | None \<Rightarrow> e)
      | MambaManager \<Rightarrow> 1
      | _ \<Rightarrow> e)"

definition position_hash :: "block_pool \<Rightarrow> bytes list \<Rightarrow> SpecGroup \<Rightarrow> nat \<Rightarrow> bytes" where
  "position_hash s hs g = block_hash_at hs (block_tokens g div nat (hash_block_size s))"

definition serves :: "block_pool \<Rightarrow> bytes list \<Rightarrow> nat \<Rightarrow> SpecGroup \<Rightarrow> nat \<Rightarrow> bool" where
  "serves s hs AL g t \<longleftrightarrow> (let e = t * (AL div block_tokens g) in
     \<forall>j < e. e \<le> j + tail_need g e \<longrightarrow> cached_in s (sg_group_ids g) (position_hash s hs g j))"

definition serving_blocks :: "block_pool \<Rightarrow> bytes list \<Rightarrow> nat \<Rightarrow> SpecGroup \<Rightarrow> nat \<Rightarrow> block_ref list list \<Rightarrow> bool" where
  "serving_blocks s hs AL g t bl \<longleftrightarrow> (let e = t * (AL div block_tokens g) in
     \<exists>lo. window_blocks s (sg_group_ids g) (position_hash s hs g) bl lo e e \<and> lo \<le> e - tail_need g e)"

definition group_ok :: "SpecGroup \<Rightarrow> bool" where
  "group_ok g \<longleftrightarrow> groups_valid (sg_group_ids g) \<and>
     ((sg_manager_cls g = FullAttentionManager \<and> is_full_group g) \<or>
      (sg_manager_cls g = SlidingWindowManager \<and> \<not> is_full_group g \<and> isinstance (sg_spec g) cls_SlidingWindowSpec \<and>
        (\<exists>w \<ge> 2. get_kv_cache_spec_sliding_window (sg_spec g) = Some w)) \<or>
      (sg_manager_cls g = MambaManager \<and> \<not> is_full_group g \<and> (\<exists>m. sg_spec g = MambaSpec m)))"

text \<open>The pool hashes at \<open>h\<close> tokens; blocks are whole hash units and hits are whole blocks.\<close>

definition sizes_ok :: "block_pool \<Rightarrow> nat \<Rightarrow> SpecGroup \<Rightarrow> bool" where
  "sizes_ok s AL g \<longleftrightarrow> 0 < hash_block_size s \<and> 0 < spec_block_size (sg_spec g) \<and> 0 < AL \<and>
     nat (hash_block_size s) dvd block_tokens g \<and> block_tokens g dvd AL"

lemma covered_units: "x \<le> n * h \<Longrightarrow> x div h \<le> n" for x n h :: nat
  by (cases "h = 0") (auto dest: div_le_mono [of _ _ h])

lemma units_covered:
  assumes "sizes_ok s AL g" and "ml div nat (hash_block_size s) \<le> n"
  shows "ml div AL * AL \<le> n * nat (hash_block_size s)"
proof -
  let ?h = "nat (hash_block_size s)"
  have h: "0 < ?h" and "?h dvd AL" using assms(1) by (auto simp: sizes_ok_def)
  then obtain q where q: "ml div AL * AL = q * ?h" by (metis dvd_mult dvdE mult.commute)
  then have "q * ?h \<le> ml" using div_times_less_eq_dividend [of ml AL] by simp
  then have "q \<le> ml div ?h" using h by (simp add: less_eq_div_iff_mult_less_eq)
  then show ?thesis using q assms(2) by simp
qed

lemma group_find:
  assumes s: "pool_inv s" and g: "group_ok g" "sizes_ok s AL g" and len: "ml div nat (hash_block_size s) \<le> length hs"
  shows "\<exists>blocks t. find_longest_cache_hit (sg_manager_cls g) (RawHashes hs) (int ml) (sg_group_ids g) s (sg_spec g) False (int AL) 1 1 =
      Inr (blocks, int (t * AL)) \<and> t \<le> ml div AL \<and> serving_blocks s hs AL g t blocks \<and>
    (\<forall>u. t < u \<and> u \<le> ml div AL \<longrightarrow> \<not> serves s hs AL g u)"
proof -
  define h where "h = nat (hash_block_size s)"
  have h: "hash_block_size s = int h" "0 < h" using g(2) by (simp_all add: h_def sizes_ok_def)
  obtain c where c: "block_tokens g = c * h" using g(2) by (auto simp: sizes_ok_def h_def mult.commute)
  have "spec_block_size (sg_spec g) = int (block_tokens g)" "0 < block_tokens g"
    using g(2) by (simp_all add: block_tokens_def sizes_ok_def)
  then have bs: "spec_block_size (sg_spec g) = int (c * h)" "0 < c * h" using c by auto
  then have c0: "0 < c" by simp
  obtain a where a: "AL = a * (c * h)" using g(2) c by (auto simp: sizes_ok_def mult.commute)
  have a0: "0 < a" using g(2) a by (auto simp: sizes_ok_def)
  have ad: "AL div block_tokens g = a" using a c bs(2) by simp
  have hv: "position_hash s hs g = block_hash_at hs c" using c h by (simp add: position_hash_def)
  have len': "ml div h \<le> length hs" using len by (simp add: h_def)
  have unit: "t * a \<le> ml div (c * h) \<longleftrightarrow> t \<le> ml div AL" for t
    using bs(2) a0 by (simp add: a less_eq_div_iff_mult_less_eq mult.assoc)
  let ?find = "find_longest_cache_hit (sg_manager_cls g) (RawHashes hs) (int ml) (sg_group_ids g) s (sg_spec g) False (int AL) 1 1"
  let ?cached = "\<lambda>j. cached_in s (sg_group_ids g) (block_hash_at hs c j)"
  have finish: ?thesis if f: "?find = Inr (blocks, int (r * (c * h)))" and r: "r \<le> ml div (c * h)" "a dvd r"
    and w: "window_blocks s (sg_group_ids g) (block_hash_at hs c) blocks lo r r" "lo \<le> r - tail_need g r"
    and last: "\<And>e. r < e \<Longrightarrow> e \<le> ml div (c * h) \<Longrightarrow> a dvd e \<Longrightarrow> \<exists>j < e. e \<le> j + tail_need g e \<and> \<not> ?cached j"
    for blocks r lo
  proof -
    obtain t where t: "r = t * a" using r(2) by (metis dvd_div_mult_self)
    have "\<not> serves s hs AL g u" if "t < u" "u \<le> ml div AL" for u
      using last [of "u * a"] that unit [of u] a0 t by (auto simp: serves_def ad hv Let_def)
    moreover have "serving_blocks s hs AL g t blocks" using w t by (auto simp: serving_blocks_def ad hv Let_def)
    moreover have "r * (c * h) = t * AL" by (simp add: t a mult.assoc)
    moreover have "t \<le> ml div AL" using r(1) t unit [of t] by simp
    ultimately show ?thesis using f by metis
  qed
  from g(1) consider (full) "sg_manager_cls g = FullAttentionManager" "isinstance (sg_spec g) cls_FullAttentionSpec"
    | (swa) w where "sg_manager_cls g = SlidingWindowManager" "isinstance (sg_spec g) cls_SlidingWindowSpec" "2 \<le> w"
        "get_kv_cache_spec_sliding_window (sg_spec g) = Some w"
    | (mamba) m where "sg_manager_cls g = MambaManager" "sg_spec g = MambaSpec m"
    by (auto simp: group_ok_def is_full_group_def)
  then show ?thesis
  proof cases
    case full
    let ?run = "cached_run s (sg_group_ids g) hs c (ml div (c * h))"
    from full_hit_coarse [OF s _ h c0 a0 full(2) bs(1) len', of "sg_group_ids g" False] g(1) obtain blocks where
      b: "full_find_longest_cache_hit (RawHashes hs) (int ml) (sg_group_ids g) s (sg_spec g) False (int (a * (c * h))) 1 =
        Inr (blocks, int (?run div a * a * (c * h)))" "length blocks = length (sg_group_ids g)"
      "\<forall>k < length (sg_group_ids g). length (blocks ! k) = ?run div a * a \<and>
        (\<forall>i < ?run div a * a. carries s (blocks ! k ! i) (block_hash_at hs c i) (sg_group_ids g ! k))"
      by (auto simp: group_ok_def)
    have le: "?run div a * a \<le> ml div (c * h)"
      by (rule order_trans [OF div_times_less_eq_dividend cached_run_le])
    show ?thesis
    proof (rule finish [of blocks "?run div a * a" 0])
      show "\<exists>j < e. e \<le> j + tail_need g e \<and> \<not> ?cached j" if "?run div a * a < e" "e \<le> ml div (c * h)" "a dvd e" for e
      proof -
        have "?run < e" using that(1,3) by (metis dvd_div_mult_self div_le_mono leD mult_le_mono1 not_le)
        then show ?thesis using that(2) cached_run_stop [of s "sg_group_ids g" hs c "ml div (c * h)"] full(1)
          by (auto simp: tail_need_def)
      qed
    qed (use b le full(1) a in
        \<open>auto simp: window_blocks_def find_longest_cache_hit_def\<close>)
  next
    case (swa w)
    have need: "tail_need g e = nat (cdiv (w - 1) (int (c * h)))" for e using swa bs(1) by (simp add: tail_need_def)
    from swa_hit_core [OF s _ h c0 a0 swa(4,2) bs(1) len' swa(3), of "sg_group_ids g" False] g(1) obtain blocks r lo where
      "swa_find_longest_cache_hit (RawHashes hs) (int ml) (sg_group_ids g) s (sg_spec g) False (int (a * (c * h))) 1 1 =
        Inr (blocks, int (r * (c * h)))" "r \<le> ml div (c * h)" "a dvd r"
      "window_blocks s (sg_group_ids g) (block_hash_at hs c) blocks lo r r" "lo \<le> r - nat (cdiv (w - 1) (int (c * h)))"
      "no_later_hit s (sg_group_ids g) (block_hash_at hs c) (\<lambda>e. a dvd e) (nat (cdiv (w - 1) (int (c * h)))) (ml div (c * h)) r"
      by (auto simp: group_ok_def swa_hit_ok_def)
    then show ?thesis
      by (intro finish [of blocks r lo]) (auto simp: find_longest_cache_hit_def swa(1) a need no_later_hit_def)
  next
    case (mamba m)
    have need: "tail_need g e = 1" for e using mamba by (simp add: tail_need_def)
    from mamba_hit_coarse [OF s _ h c0 a0 mamba(2) _ len', of "sg_group_ids g" False] g(1) bs(1) mamba(2) obtain blocks r where
      "mamba_find_longest_cache_hit (RawHashes hs) (int ml) (sg_group_ids g) s (sg_spec g) False (int (a * (c * h))) 1 1 =
        Inr (blocks, int (r * (c * h)))" "r \<le> ml div (c * h)" "a dvd r"
      "window_blocks s (sg_group_ids g) (block_hash_at hs c) blocks (r - 1) r r"
      "\<forall>e. r < e \<and> e \<le> ml div (c * h) \<and> a dvd e \<longrightarrow> \<not> ?cached (e - 1)"
      by (auto simp: group_ok_def)
    then show ?thesis
      by (intro finish [of blocks r "r - 1"]) (auto simp: find_longest_cache_hit_def mamba(1) a need intro!: exI [of _ "_ - 1"])
  qed
qed

lemma serving_serves:
  assumes "serving_blocks s hs AL g t bl" shows "serves s hs AL g t"
proof -
  define e where "e = t * (AL div block_tokens g)"
  from assms obtain lo where w: "window_blocks s (sg_group_ids g) (position_hash s hs g) bl lo e e" "lo \<le> e - tail_need g e"
    by (auto simp: serving_blocks_def e_def Let_def)
  have "cached_in s (sg_group_ids g) (position_hash s hs g j)" if "j < e" "e \<le> j + tail_need g e" for j
  proof -
    have "lo \<le> j" using w(2) that by linarith
    then have "\<forall>k < length (sg_group_ids g). carries s (bl ! k ! j) (position_hash s hs g j) (sg_group_ids g ! k)"
      using w(1) that(1) by (auto simp: window_blocks_def)
    then show ?thesis by (auto simp: cached_in_def carries_def in_set_conv_nth) blast
  qed
  then show ?thesis by (simp add: serves_def e_def Let_def)
qed

text \<open>The lookup of a group in units of the granularity.\<close>

definition lookup_units :: "block_pool \<times> bytes list \<times> nat \<Rightarrow> SpecGroup \<Rightarrow> nat \<Rightarrow> nat" where
  "lookup_units = (\<lambda>(s, hs, AL) g n.
     case find_longest_cache_hit (sg_manager_cls g) (RawHashes hs) (int (n * AL)) (sg_group_ids g) s (sg_spec g) False (int AL) 1 1 of
       Inr (_, k) \<Rightarrow> nat k div AL
     | Inl _ \<Rightarrow> 0)"

definition lookup_ok :: "block_pool \<times> bytes list \<times> nat \<Rightarrow> SpecGroup \<Rightarrow> bool" where
  "lookup_ok = (\<lambda>(s, hs, AL) g. pool_inv s \<and> group_ok g \<and> sizes_ok s AL g)"

definition lookup_top :: "block_pool \<times> bytes list \<times> nat \<Rightarrow> nat" where
  "lookup_top = (\<lambda>(s, hs, AL). length hs * nat (hash_block_size s) div AL)"

lemma lookup_units_find:
  assumes "lookup_ok (s, hs, AL) g" and "n \<le> lookup_top (s, hs, AL)"
  shows "\<exists>bl. serving_blocks s hs AL g (lookup_units (s, hs, AL) g n) bl"
    and "lookup_units (s, hs, AL) g n \<le> n"
    and "lookup_units (s, hs, AL) g n < u \<Longrightarrow> u \<le> n \<Longrightarrow> \<not> serves s hs AL g u"
proof -
  have AL: "0 < AL" using assms(1) by (simp add: lookup_ok_def sizes_ok_def)
  have "n * AL \<le> length hs * nat (hash_block_size s)"
    using assms(2) AL by (simp add: lookup_top_def less_eq_div_iff_mult_less_eq)
  from group_find [OF _ _ _ covered_units [OF this], of g AL] assms(1) AL obtain bl t where
    t: "find_longest_cache_hit (sg_manager_cls g) (RawHashes hs) (int (n * AL)) (sg_group_ids g) s (sg_spec g) False (int AL) 1 1 =
      Inr (bl, int (t * AL))" "t \<le> n" "serving_blocks s hs AL g t bl" "\<forall>u. t < u \<and> u \<le> n \<longrightarrow> \<not> serves s hs AL g u"
    by (auto simp: lookup_ok_def)
  have "lookup_units (s, hs, AL) g n = t"
    unfolding lookup_units_def prod.case t(1) sum.case using AL by (simp only: nat_int) simp
  with t show "\<exists>bl. serving_blocks s hs AL g (lookup_units (s, hs, AL) g n) bl" "lookup_units (s, hs, AL) g n \<le> n"
    "lookup_units (s, hs, AL) g n < u \<Longrightarrow> u \<le> n \<Longrightarrow> \<not> serves s hs AL g u" by auto
qed

interpretation gl: dense_finder lookup_ok lookup_units "\<lambda>(s, hs, AL). serves s hs AL" lookup_top is_full_group
proof unfold_locales
  fix w :: "block_pool \<times> bytes list \<times> nat" and g n m
  obtain s hs AL where w: "w = (s, hs, AL)" by (cases w) auto
  assume ok: "lookup_ok w g"
  show "lookup_units w g n \<le> n" if "n \<le> lookup_top w" using lookup_units_find(2) ok that w by blast
  show "(case w of (s, hs, AL) \<Rightarrow> serves s hs AL) g (lookup_units w g n)" if "n \<le> lookup_top w"
    using lookup_units_find(1) [of s hs AL g n] serving_serves ok that w by auto
  show "\<not> (case w of (s, hs, AL) \<Rightarrow> serves s hs AL) g m" if "n \<le> lookup_top w" "lookup_units w g n < m" "m \<le> n"
    using lookup_units_find(3) [of s hs AL g n m] ok that w by auto
  show "(case w of (s, hs, AL) \<Rightarrow> serves s hs AL) g m"
    if f: "is_full_group g" and sv: "(case w of (s, hs, AL) \<Rightarrow> serves s hs AL) g n" and le: "m \<le> n"
  proof -
    have "sg_manager_cls g = FullAttentionManager" using ok f w by (auto simp: lookup_ok_def group_ok_def)
    then have need: "tail_need g e = e" for e by (simp add: tail_need_def)
    have "j < n * (AL div block_tokens g)" if "j < m * (AL div block_tokens g)" for j
      using that mult_le_mono1 [OF le, of "AL div block_tokens g"] by linarith
    then show ?thesis using sv w by (simp add: serves_def need Let_def)
  qed
qed

section \<open>One round and the loop\<close>

text \<open>
  A coordinator for which the loop is exact: full-attention, sliding-window and Mamba groups, no EAGLE, no context parallelism, at most one
  full-attention specification, hits in whole blocks.
\<close>

definition hybrid_ok :: "coordinator \<Rightarrow> nat \<Rightarrow> bool" where
  "hybrid_ok c AL \<longleftrightarrow> cache_hit_alignment_tokens c = int AL \<and> co_dcp_world_size c = 1 \<and> attention_groups c \<noteq> [] \<and>
     (\<forall>g \<in> set (attention_groups c). lookup_ok (co_pool c, [], AL) g \<and> \<not> sg_use_eagle g \<and>
        (\<forall>i \<in> set (sg_group_ids g). nat i < length (single_type_managers c) \<and> nat i < length (kv_cache_groups (co_config c)) \<and>
           mgr_block_size (single_type_managers c ! nat i) = spec_block_size (sg_spec g))) \<and>
     distinct (concat (map (\<lambda>g. map nat (sg_group_ids g)) (attention_groups c))) \<and>
     (\<forall>g \<in> set (tl (attention_groups c)). \<not> is_full_group g)"

text \<open>The blocks and the length found for a group are recorded under all its indices.\<close>

definition recorded :: "block_pool \<Rightarrow> bytes list \<Rightarrow> nat \<Rightarrow> SpecGroup \<Rightarrow> nat \<Rightarrow> hit_state \<Rightarrow> bool" where
  "recorded s hs AL g t st \<longleftrightarrow> (\<exists>bl. serving_blocks s hs AL g t bl \<and> (\<forall>k < length (sg_group_ids g).
     hit_blocks_by_group st ! nat (sg_group_ids g ! k) = Some (bl ! k) \<and>
     hit_length_by_group st ! nat (sg_group_ids g ! k) = int (t * AL)))"

definition unseen :: "SpecGroup \<Rightarrow> hit_state \<Rightarrow> bool" where
  "unseen g st \<longleftrightarrow> hit_blocks_by_group st ! nat (hd (sg_group_ids g)) = None"

definition sized :: "coordinator \<Rightarrow> hit_state \<Rightarrow> bool" where
  "sized c st \<longleftrightarrow> length (hit_blocks_by_group st) = length (kv_cache_groups (co_config c)) \<and>
     length (hit_length_by_group st) = length (kv_cache_groups (co_config c))"

lemma group_first:
  assumes "hybrid_ok c AL" and "g \<in> set (attention_groups c)"
  obtains i ids where "sg_group_ids g = int i # ids" "i < length (single_type_managers c)"
    "i < length (kv_cache_groups (co_config c))"
proof -
  have v: "groups_valid (sg_group_ids g)" using assms by (simp add: hybrid_ok_def lookup_ok_def group_ok_def)
  then obtain x ids where x: "sg_group_ids g = x # ids" by (cases "sg_group_ids g") (auto simp: groups_valid_def)
  have "x = int (nat x)" using v x by (simp add: groups_valid_def)
  moreover have "nat x < length (single_type_managers c)" "nat x < length (kv_cache_groups (co_config c))"
    using assms x by (auto simp: hybrid_ok_def)
  ultimately show thesis using that x by metis
qed

lemma group_disjoint:
  assumes ok: "hybrid_ok c AL" and split: "attention_groups c = xs @ g # zs" and g': "g' \<in> set xs \<union> set zs"
  shows "nat ` set (sg_group_ids g') \<inter> nat ` set (sg_group_ids g) = {}"
proof -
  have "distinct (concat (map (\<lambda>g. map nat (sg_group_ids g)) (attention_groups c)))" using ok by (simp only: hybrid_ok_def)
  then have "distinct (concat (map (\<lambda>g. map nat (sg_group_ids g)) xs) @ map nat (sg_group_ids g) @
      concat (map (\<lambda>g. map nat (sg_group_ids g)) zs))" unfolding split by simp
  then have "set (map nat (sg_group_ids g)) \<inter> (set (concat (map (\<lambda>g. map nat (sg_group_ids g)) xs)) \<union>
      set (concat (map (\<lambda>g. map nat (sg_group_ids g)) zs))) = {}"
    by (simp only: distinct_append set_append) blast
  moreover have "nat ` set (sg_group_ids g') \<subseteq> set (concat (map (\<lambda>g. map nat (sg_group_ids g)) xs)) \<union>
      set (concat (map (\<lambda>g. map nat (sg_group_ids g)) zs))" using g' by auto
  ultimately show ?thesis by (simp only: set_map) blast
qed

lemma group_once:
  assumes ok: "hybrid_ok c AL" and split: "attention_groups c = xs @ g # zs" shows "g \<notin> set xs \<union> set zs"
proof
  assume "g \<in> set xs \<union> set zs"
  from group_disjoint [OF ok split this] have "sg_group_ids g = []" by auto
  moreover have "g \<in> set (attention_groups c)" using split by simp
  ultimately show False using group_first [OF ok] by (metis list.distinct(1))
qed

lemma groups_disjoint:
  assumes "hybrid_ok c AL" and "g' \<in> set (attention_groups c)" and "g \<in> set (attention_groups c)" and "g' \<noteq> g"
  shows "nat ` set (sg_group_ids g') \<inter> nat ` set (sg_group_ids g) = {}"
proof -
  obtain xs zs where split: "attention_groups c = xs @ g # zs" using split_list [OF assms(3)] by blast
  show ?thesis by (rule group_disjoint [OF assms(1) split]) (use assms(2,4) split in auto)
qed

text \<open>A lookup of a group.\<close>

lemma group_looks:
  assumes ok: "hybrid_ok c AL" and g: "g \<in> set (attention_groups c)" and st: "sized c st" "curr_hit_length st = int lm"
    and look: "\<not> is_full_group g \<or> unseen g st" and len: "lm div nat (hash_block_size (co_pool c)) \<le> length hs"
  shows "\<exists>st'. hybrid_group_step c hs ml (i, g) st = Inr st' \<and>
    curr_hit_length st' = int (lookup_units (co_pool c, hs, AL) g (lm div AL) * AL) \<and>
    recorded (co_pool c) hs AL g (lookup_units (co_pool c, hs, AL) g (lm div AL)) st' \<and>
    (\<forall>g' \<in> set (attention_groups c). \<forall>t. g' \<noteq> g \<longrightarrow> recorded (co_pool c) hs AL g' t st' = recorded (co_pool c) hs AL g' t st) \<and>
    sized c st' \<and> curr_hit_length st' \<le> longest_hit_length st' \<and> longest_hit_length st \<le> longest_hit_length st'"
proof -
  from group_first [OF ok g] obtain i0 ids where i0: "sg_group_ids g = int i0 # ids" "i0 < length (single_type_managers c)"
    "i0 < length (kv_cache_groups (co_config c))" by blast
  let ?t = "lookup_units (co_pool c, hs, AL) g (lm div AL)"
  have lk: "lookup_ok (co_pool c, hs, AL) g" and ne: "\<not> sg_use_eagle g"
    and al: "cache_hit_alignment_tokens c = int AL" "co_dcp_world_size c = 1"
    using ok g by (auto simp: hybrid_ok_def lookup_ok_def)
  from group_find [OF _ _ _ len, of g AL] lk obtain bl t where
    f: "find_longest_cache_hit (sg_manager_cls g) (RawHashes hs) (int lm) (sg_group_ids g) (co_pool c) (sg_spec g) False (int AL) 1 1 =
      Inr (bl, int (t * AL))" "t \<le> lm div AL" "serving_blocks (co_pool c) hs AL g t bl"
      "\<forall>u. t < u \<and> u \<le> lm div AL \<longrightarrow> \<not> serves (co_pool c) hs AL g u"
    by (auto simp: lookup_ok_def)
  have "lm div AL * AL \<le> length hs * nat (hash_block_size (co_pool c))" by (rule units_covered [of _ _ g, OF _ len]) (use lk in \<open>simp add: lookup_ok_def\<close>)
  then have "lm div AL \<le> lookup_top (co_pool c, hs, AL)"
    using lk by (simp add: lookup_top_def less_eq_div_iff_mult_less_eq lookup_ok_def sizes_ok_def)
  from gl.find_unique [OF lk this f(2)] serving_serves [OF f(3)] f(4) have t: "t = ?t" by simp
  define k where "k = int (t * AL)"
  define st1 where "st1 = (if k < curr_hit_length st then st\<lparr>eagle_verified := []\<rparr> else st)\<lparr>curr_hit_length := k\<rparr>"
  define st' where "st' = (record_hit (sg_group_ids g) bl (k) st1)\<lparr>longest_hit_length := max (longest_hit_length st) (k)\<rparr>"
  have sel: "hit_blocks_by_group st1 = hit_blocks_by_group st" "hit_length_by_group st1 = hit_length_by_group st"
    "longest_hit_length st1 = longest_hit_length st" by (simp_all add: st1_def)
  have step: "hybrid_group_step c hs ml (i, g) st = Inr st'"
  proof -
    have idx: "py_index (sg_group_ids g) 0 = Inr (int i0)"
      "py_index (single_type_managers c) (int i0) = Inr (single_type_managers c ! i0)"
      "py_index (hit_blocks_by_group st) (int i0) = Inr (hit_blocks_by_group st ! i0)"
      "py_index (hit_length_by_group st) (int i0) = Inr (hit_length_by_group st ! i0)"
      using i0 st(1) by (simp_all add: py_index_def sized_def)
    have "\<not> (is_full_group g \<and> hit_blocks_by_group st ! i0 \<noteq> None)" using look i0(1) by (auto simp: unseen_def)
    then show ?thesis
      using f(1) [folded k_def] unfolding hybrid_group_step_def prod.case idx and_then.simps Let_def st(2) [symmetric]
      by (simp add: ne al eagle_max_length_def st'_def st1_def del: if_not_P)
  qed
  have bl: "length bl = length (sg_group_ids g)" using f(3) by (auto simp: serving_blocks_def window_blocks_def Let_def)
  have dis: "distinct (map nat (sg_group_ids g))"
    and inb: "\<forall>x \<in> set (sg_group_ids g). nat x < length (kv_cache_groups (co_config c))"
    using ok g by (auto simp: hybrid_ok_def distinct_concat_iff)
  have rec: "recorded (co_pool c) hs AL g t st'"
  proof -
    have "nat (sg_group_ids g ! j) < length (hit_blocks_by_group st)" "nat (sg_group_ids g ! j) < length (hit_length_by_group st)"
      if "j < length (sg_group_ids g)" for j using inb nth_mem [OF that] st(1) by (auto simp: sized_def)
    then show ?thesis
      using f(3) by (auto simp: recorded_def st'_def sel k_def write_all_nth [OF _ bl dis] intro!: exI [of _ bl])
  qed
  have other: "recorded (co_pool c) hs AL g' u st' = recorded (co_pool c) hs AL g' u st"
    if g': "g' \<in> set (attention_groups c)" "g' \<noteq> g" for g' u
  proof -
    have "nat (sg_group_ids g' ! k) \<notin> nat ` set (sg_group_ids g)" if "k < length (sg_group_ids g')" for k
      using groups_disjoint [OF ok g'(1) g g'(2)] that by force
    then show ?thesis by (auto simp: recorded_def st'_def sel write_all_other)
  qed
  show ?thesis
    using step rec other st(1) t by (auto simp: sized_def st'_def sel st1_def k_def)
qed

text \<open>The full-attention group, once looked up, only bounds the length.\<close>

lemma group_seen:
  assumes ok: "hybrid_ok c AL" and g: "g \<in> set (attention_groups c)" and st: "sized c st"
    and f: "is_full_group g" and r: "recorded (co_pool c) hs AL g t st"
  shows "hybrid_group_step c hs ml (i, g) st = Inr (st\<lparr>curr_hit_length := min (curr_hit_length st) (int (t * AL))\<rparr>)"
proof -
  from group_first [OF ok g] obtain i0 ids where i0: "sg_group_ids g = int i0 # ids" "i0 < length (single_type_managers c)"
    "i0 < length (kv_cache_groups (co_config c))" by blast
  have idx: "py_index (sg_group_ids g) 0 = Inr (int i0)"
      "py_index (single_type_managers c) (int i0) = Inr (single_type_managers c ! i0)"
      "py_index (hit_blocks_by_group st) (int i0) = Inr (hit_blocks_by_group st ! i0)"
      "py_index (hit_length_by_group st) (int i0) = Inr (hit_length_by_group st ! i0)"
    using i0 st(1) by (simp_all add: py_index_def sized_def)
  have "hit_blocks_by_group st ! i0 \<noteq> None" "hit_length_by_group st ! i0 = int (t * AL)"
    using r i0(1) by (auto simp: recorded_def)
  then show ?thesis
    using f unfolding hybrid_group_step_def prod.case idx and_then.simps by simp
qed

text \<open>
  A round from length \<open>n\<close> (in units): the full-attention group keeps the blocks of its first lookup at \<open>T\<close>, every other
  group has the blocks of the length it was asked for in this round.
\<close>

definition round_state :: "coordinator \<Rightarrow> bytes list \<Rightarrow> nat \<Rightarrow> nat \<Rightarrow> nat \<Rightarrow> SpecGroup list \<Rightarrow> hit_state \<Rightarrow> bool" where
  "round_state c hs AL T n xs st \<longleftrightarrow> sized c st \<and>
     curr_hit_length st = int (gl.round (co_pool c, hs, AL) xs n * AL) \<and>
     (\<forall>ys g zs. xs = ys @ g # zs \<longrightarrow> recorded (co_pool c) hs AL g
        (lookup_units (co_pool c, hs, AL) g (if is_full_group g then T else gl.round (co_pool c, hs, AL) ys n)) st) \<and>
     curr_hit_length st \<le> longest_hit_length st"

lemma recorded_curr [simp]: "recorded s hs AL g t (st\<lparr>curr_hit_length := k\<rparr>) = recorded s hs AL g t st"
  by (simp add: recorded_def)

lemma recorded_seen:
  assumes "hybrid_ok c AL" and "g \<in> set (attention_groups c)" and "recorded s hs AL g t st" shows "\<not> unseen g st"
proof -
  from group_first [OF assms(1,2)] obtain i ids where "sg_group_ids g = int i # ids" by blast
  then show ?thesis using assms(3) by (auto simp: recorded_def unseen_def)
qed

lemma sized_curr [simp]: "sized c (st\<lparr>curr_hit_length := k\<rparr>) = sized c st"
  by (simp add: sized_def)

lemma round_top:
  assumes "hybrid_ok c AL" and "n * AL \<le> length hs * nat (hash_block_size (co_pool c))"
  shows "n \<le> lookup_top (co_pool c, hs, AL)" and "0 < AL"
proof -
  have "hd (attention_groups c) \<in> set (attention_groups c)" using assms(1) by (simp add: hybrid_ok_def)
  then have "lookup_ok (co_pool c, [], AL) (hd (attention_groups c))" using assms(1) unfolding hybrid_ok_def by blast
  then show "0 < AL" by (simp add: lookup_ok_def sizes_ok_def)
  then show "n \<le> lookup_top (co_pool c, hs, AL)" using assms(2) by (simp add: lookup_top_def less_eq_div_iff_mult_less_eq)
qed

lemma hybrid_lookup_ok: "hybrid_ok c AL \<Longrightarrow> g \<in> set (attention_groups c) \<Longrightarrow> lookup_ok (co_pool c, hs, AL) g"
  by (simp add: hybrid_ok_def lookup_ok_def)

lemma hybrid_covered:
  assumes "hybrid_ok c AL" and "ml div nat (hash_block_size (co_pool c)) \<le> n"
  shows "ml div AL * AL \<le> n * nat (hash_block_size (co_pool c))"
proof -
  have "hd (attention_groups c) \<in> set (attention_groups c)" using assms(1) by (simp add: hybrid_ok_def)
  from hybrid_lookup_ok [OF assms(1) this, of "[]"] show ?thesis by (intro units_covered [of _ _ "hd (attention_groups c)", OF _ assms(2)]) (simp add: lookup_ok_def)
qed

lemma round_step:
  assumes ok: "hybrid_ok c AL" and rs: "round_state c hs AL T n xs st"
    and n: "n * AL \<le> length hs * nat (hash_block_size (co_pool c))"
    and split: "attention_groups c = xs @ g # zs" and xs: "xs \<noteq> []"
  shows "\<exists>st'. hybrid_group_step c hs ml (i, g) st = Inr st' \<and> round_state c hs AL T n (xs @ [g]) st'"
proof -
  let ?r = "gl.round (co_pool c, hs, AL) xs n"
  have g: "g \<in> set (attention_groups c)" using split by simp
  have nf: "\<not> is_full_group g" using ok split xs by (auto simp: hybrid_ok_def)
  have "?r \<le> n"
    by (rule gl.round_le [OF _ round_top(1) [OF ok n]]) (use hybrid_lookup_ok [OF ok] split in auto)
  then have "?r * AL \<le> length hs * nat (hash_block_size (co_pool c))"
    using n mult_le_mono1 [of ?r n AL] by linarith
  from group_looks [OF ok g _ _ _ covered_units [OF this], of st ml i] rs nf round_top(2) [OF ok n] obtain st' where
    st': "hybrid_group_step c hs ml (i, g) st = Inr st'"
    "curr_hit_length st' = int (lookup_units (co_pool c, hs, AL) g ?r * AL)"
    "recorded (co_pool c) hs AL g (lookup_units (co_pool c, hs, AL) g ?r) st'"
    "\<forall>g' \<in> set (attention_groups c). \<forall>t. g' \<noteq> g \<longrightarrow> recorded (co_pool c) hs AL g' t st' = recorded (co_pool c) hs AL g' t st"
    "sized c st'" "curr_hit_length st' \<le> longest_hit_length st'"
    by (auto simp: round_state_def)
  have ne: "g' \<noteq> g" if "g' \<in> set xs" for g' using group_once [OF ok split] that by auto
  have R: "recorded (co_pool c) hs AL g' (lookup_units (co_pool c, hs, AL) g'
      (if is_full_group g' then T else gl.round (co_pool c, hs, AL) ys n)) st'" if sp: "xs @ [g] = ys @ g' # ws" for ys g' ws
  proof (cases ws rule: rev_cases)
    case Nil
    then show ?thesis using st'(3) sp nf by simp
  next
    case (snoc us u)
    then have eq: "xs = ys @ g' # us" using sp by simp
    then have "g' \<in> set xs" by simp
    moreover from this have "g' \<in> set (attention_groups c)" using split by simp
    ultimately show ?thesis using rs eq st'(4) ne by (auto simp: round_state_def)
  qed
  have "round_state c hs AL T n (xs @ [g]) st'"
    unfolding round_state_def gl.round_snoc
    by (intro conjI allI impI) (fact st'(5), fact st'(2), erule R, fact st'(6))
  then show ?thesis using st'(1) by blast
qed

text \<open>The first group of a round: in the first round it is looked up, later a full-attention group is not.\<close>

definition loop_entry :: "coordinator \<Rightarrow> bytes list \<Rightarrow> nat \<Rightarrow> nat \<Rightarrow> nat \<Rightarrow> hit_state \<Rightarrow> bool" where
  "loop_entry c hs AL T lm st \<longleftrightarrow> sized c st \<and> lm div AL \<le> T \<and>
     (is_full_group (hd (attention_groups c)) \<longrightarrow>
        (unseen (hd (attention_groups c)) st \<and> T = lm div AL) \<or>
        (recorded (co_pool c) hs AL (hd (attention_groups c)) (lookup_units (co_pool c, hs, AL) (hd (attention_groups c)) T) st \<and>
         AL dvd lm \<and> int lm \<le> longest_hit_length st))"

lemma round_head:
  assumes ok: "hybrid_ok c AL" and e: "loop_entry c hs AL T lm st" and lm: "lm div nat (hash_block_size (co_pool c)) \<le> length hs"
    and T: "T * AL \<le> length hs * nat (hash_block_size (co_pool c))" and split: "attention_groups c = g # zs"
  shows "\<exists>st'. hybrid_group_step c hs ml (i, g) (st\<lparr>curr_hit_length := int lm\<rparr>) = Inr st' \<and> round_state c hs AL T (lm div AL) [g] st'"
proof -
  have g: "g \<in> set (attention_groups c)" using split by simp
  show ?thesis
  proof (cases "is_full_group g \<and> \<not> unseen g st")
    case True
    let ?w = "(co_pool c, hs, AL)"
    have r: "recorded (co_pool c) hs AL g (lookup_units ?w g T) st" and d: "AL dvd lm" "int lm \<le> longest_hit_length st"
      using e split True by (auto simp: loop_entry_def)
    have "lookup_units ?w g (lm div AL) = min (lm div AL) (lookup_units ?w g T)"
      by (rule gl.find_below [OF hybrid_lookup_ok [OF ok g] _ round_top(1) [OF ok T]]) (use True e in \<open>auto simp: loop_entry_def\<close>)
    then have m: "min (int lm) (int (lookup_units ?w g T * AL)) = int (lookup_units ?w g (lm div AL) * AL)"
      using d(1) by (simp add: min_def) (metis dvd_div_mult_self mult_le_cancel2 of_nat_le_iff of_nat_mult round_top(2) [OF ok T])
    show ?thesis
      using group_seen [OF ok g _ _, of "st\<lparr>curr_hit_length := int lm\<rparr>" hs "lookup_units ?w g T" ml i] True e r d m
      by (auto simp: loop_entry_def round_state_def gl.round_def Cons_eq_append_conv)
  next
    case False
    from group_looks [OF ok g _ _ _ lm, of "st\<lparr>curr_hit_length := int lm\<rparr>" ml i] False e obtain st' where
      "hybrid_group_step c hs ml (i, g) (st\<lparr>curr_hit_length := int lm\<rparr>) = Inr st'"
      "curr_hit_length st' = int (lookup_units (co_pool c, hs, AL) g (lm div AL) * AL)"
      "recorded (co_pool c) hs AL g (lookup_units (co_pool c, hs, AL) g (lm div AL)) st'"
      "sized c st'" "curr_hit_length st' \<le> longest_hit_length st'"
      by (auto simp: loop_entry_def unseen_def)
    moreover have "is_full_group g \<longrightarrow> T = lm div AL"
      using e split False recorded_seen [OF ok g] by (auto simp: loop_entry_def)
    ultimately show ?thesis by (auto simp: round_state_def gl.round_def Cons_eq_append_conv)
  qed
qed

lemma whole_round:
  assumes ok: "hybrid_ok c AL" and e: "loop_entry c hs AL T lm st" and lm: "lm div nat (hash_block_size (co_pool c)) \<le> length hs"
    and T: "T * AL \<le> length hs * nat (hash_block_size (co_pool c))"
  shows "\<exists>st'. for_each (hybrid_group_step c hs ml) (enumerate 0 (attention_groups c)) (st\<lparr>curr_hit_length := int lm\<rparr>) = Inr st' \<and>
    round_state c hs AL T (lm div AL) (attention_groups c) st'"
proof -
  obtain g zs where split: "attention_groups c = g # zs" using ok by (auto simp: hybrid_ok_def neq_Nil_conv)
  let ?es = "enumerate 0 (attention_groups c)" and ?st = "st\<lparr>curr_hit_length := int lm\<rparr>"
  have n: "lm div AL * AL \<le> length hs * nat (hash_block_size (co_pool c))"
    by (rule hybrid_covered [OF ok lm])
  have "\<exists>st'. for_each (hybrid_group_step c hs ml) ?es ?st = Inr st' \<and>
      (if ?es = [] then st' = ?st else round_state c hs AL T (lm div AL) (map snd ?es) st')"
  proof (rule for_each_invariant [where P = "\<lambda>xs st'. if xs = [] then st' = ?st else round_state c hs AL T (lm div AL) (map snd xs) st'"])
    fix "done" x todo st1
    assume sp: "?es = done @ x # todo" and P: "if done = [] then st1 = ?st else round_state c hs AL T (lm div AL) (map snd done) st1"
    obtain i g' where x: "x = (i, g')" by fastforce
    have "map snd ?es = map snd done @ g' # map snd todo" using sp x by simp
    then have sp': "attention_groups c = map snd done @ g' # map snd todo" by simp
    show "\<exists>s'. hybrid_group_step c hs ml x st1 = Inr s' \<and>
        (if done @ [x] = [] then s' = ?st else round_state c hs AL T (lm div AL) (map snd (done @ [x])) s')"
    proof (cases "done = []")
      case True
      then have "g' = g" using sp' split by simp
      then show ?thesis using round_head [OF ok e lm T split, of ml i] True P x by simp
    next
      case False
      then show ?thesis using round_step [OF ok _ n sp', of T st1 ml i] P x by simp
    qed
  qed simp
  then show ?thesis using split by simp
qed

text \<open>What the loop returns: the greatest length that all groups serve, with the blocks of each group.\<close>

definition common_hit :: "coordinator \<Rightarrow> bytes list \<Rightarrow> nat \<Rightarrow> nat \<Rightarrow> nat \<Rightarrow> bool" where
  "common_hit c hs AL n t \<longleftrightarrow> t \<le> n \<and> (\<forall>g \<in> set (attention_groups c). serves (co_pool c) hs AL g t) \<and>
     (\<forall>u. t < u \<and> u \<le> n \<longrightarrow> (\<exists>g \<in> set (attention_groups c). \<not> serves (co_pool c) hs AL g u))"

definition loop_exit :: "coordinator \<Rightarrow> bytes list \<Rightarrow> nat \<Rightarrow> nat \<Rightarrow> nat \<Rightarrow> hit_state \<Rightarrow> bool" where
  "loop_exit c hs AL T t st \<longleftrightarrow> sized c st \<and> int (t * AL) \<le> longest_hit_length st \<and>
     (\<forall>g \<in> set (attention_groups c). recorded (co_pool c) hs AL g
        (if is_full_group g then lookup_units (co_pool c, hs, AL) g T else t) st)"

lemma hybrid_loop_correct:
  assumes ok: "hybrid_ok c AL" and T: "T * AL \<le> length hs * nat (hash_block_size (co_pool c))"
    and simple: "simple \<longrightarrow> length (attention_groups c) = 2 \<and> is_full_group (hd (attention_groups c))"
    and "loop_entry c hs AL T lm st" "lm div nat (hash_block_size (co_pool c)) \<le> length hs"
  shows "\<exists>t st'. hybrid_loop c hs ml simple (int lm) st = Some (Inr (int (t * AL), st')) \<and>
    common_hit c hs AL (lm div AL) t \<and> loop_exit c hs AL T t st'"
  using assms(4,5)
proof (induction lm arbitrary: st rule: less_induct)
  case (less lm)
  let ?w = "(co_pool c, hs, AL)" and ?n = "lm div AL" and ?gs = "attention_groups c"
  have rdy: "\<forall>g \<in> set ?gs. lookup_ok ?w g" using hybrid_lookup_ok [OF ok] by blast
  have n: "?n * AL \<le> length hs * nat (hash_block_size (co_pool c))"
    by (rule hybrid_covered [OF ok less.prems(2)])
  note top = round_top [OF ok n]
  from whole_round [OF ok less.prems T, of ml] obtain st1 where
    st1: "for_each (hybrid_group_step c hs ml) (enumerate 0 ?gs) (st\<lparr>curr_hit_length := int lm\<rparr>) = Inr st1"
    and rs: "round_state c hs AL T ?n ?gs st1" by blast
  define r where "r = gl.round ?w ?gs ?n"
  have curr: "curr_hit_length st1 = int (r * AL)" using rs by (simp add: round_state_def r_def)
  have rn: "r \<le> ?n" unfolding r_def by (rule gl.round_le [OF rdy top(1)])
  have bound: "\<exists>g \<in> set ?gs. \<not> serves (co_pool c) hs AL g u" if "r < u" "u \<le> ?n" for u
    using gl.round_bound [OF rdy top(1) that(2)] that(1) by (auto simp: r_def)
  have rec: "recorded (co_pool c) hs AL g (lookup_units ?w g (if is_full_group g then T else gl.round ?w ys ?n)) st1"
    if "?gs = ys @ g # zs" for ys g zs using rs that by (auto simp: round_state_def)
  show ?case
  proof (cases "r * AL \<ge> lm")
    case True
    have lr: "lm = r * AL" using True mult_le_mono1 [OF rn, of AL] div_times_less_eq_dividend [of lm AL] by linarith
    then have nr: "?n = r" using top(2) by simp
    have fixed: "gl.round ?w ?gs ?n = ?n" unfolding r_def [symmetric] by (rule nr [symmetric])
    have "serves (co_pool c) hs AL g ?n \<and> recorded (co_pool c) hs AL g (if is_full_group g then lookup_units ?w g T else ?n) st1"
      if gm: "g \<in> set ?gs" for g
    proof -
      obtain ys zs where sp: "?gs = ys @ g # zs" using split_list [OF gm] by blast
      from gl.round_fixed [OF rdy top(1) fixed sp] rec [OF sp] show ?thesis by (auto split: if_splits)
    qed
    then have "common_hit c hs AL ?n ?n \<and> loop_exit c hs AL T ?n st1"
      using rs fixed by (auto simp: common_hit_def loop_exit_def round_state_def)
    moreover have "hybrid_loop c hs ml simple (int lm) st = Some (Inr (int lm, st1))"
      using st1 curr True by (subst hybrid_loop.simps) (simp add: of_nat_mult [symmetric] del: of_nat_mult)
    moreover have "int lm = int (?n * AL)" unfolding nr by (rule arg_cong [OF lr])
    ultimately show ?thesis by metis
  next
    case nle: False
    show ?thesis
    proof (cases simple)
      case True
      then obtain g0 g1 where gs: "?gs = [g0, g1]" "is_full_group g0"
        using simple by (auto simp: length_Suc_conv numeral_2_eq_2)
      have nf: "\<not> is_full_group g1" using ok gs by (simp add: hybrid_ok_def)
      define m where "m = lookup_units ?w g0 ?n"
      have m: "m \<le> ?n" using gl.find_le [of ?w g0 ?n] rdy gs top by (simp add: m_def)
      have r: "r = lookup_units ?w g1 m" by (simp add: r_def gl.round_def gs m_def)
      have "r \<le> m" using gl.find_le [of ?w g1 m] rdy gs top m by (simp add: r)
      moreover have "serves (co_pool c) hs AL g0 m" using gl.find_served [of ?w g0 ?n] rdy gs top by (simp add: m_def)
      ultimately have "serves (co_pool c) hs AL g0 r" using gl.down [of ?w g0 m r] rdy gs by simp
      moreover have "serves (co_pool c) hs AL g1 r" using gl.find_served [of ?w g1 m] rdy gs top m by (simp add: r)
      ultimately have "common_hit c hs AL ?n r" using rn bound gs by (auto simp: common_hit_def)
      moreover have "loop_exit c hs AL T r st1"
        using rs rec [of "[]" g0 "[g1]"] rec [of "[g0]" g1 "[]"] gs nf r
        by (simp add: loop_exit_def round_state_def gl.round_def m_def)
      moreover have "hybrid_loop c hs ml simple (int lm) st = Some (Inr (int (r * AL), st1))"
        using st1 curr nle True by (subst hybrid_loop.simps) (simp add: of_nat_mult [symmetric] del: of_nat_mult)
      ultimately show ?thesis by blast
    next
      case False
      have "loop_entry c hs AL T (r * AL) st1"
        using rs rec [of "[]" "hd ?gs" "tl ?gs"] less.prems(1) rn top(2) curr ok
        by (auto simp: loop_entry_def round_state_def hybrid_ok_def)
      moreover have lt: "r * AL < lm" using nle by simp
      moreover have "r * AL div nat (hash_block_size (co_pool c)) \<le> length hs"
        by (rule order_trans [OF div_le_mono less.prems(2)]) (use lt in simp)
      ultimately obtain t st2 where "hybrid_loop c hs ml simple (int (r * AL)) st1 = Some (Inr (int (t * AL), st2))"
        "common_hit c hs AL r t" "loop_exit c hs AL T t st2"
        using less.IH [of "r * AL" st1] less.prems(2) top(2) by auto
      moreover from this have "common_hit c hs AL ?n t" using bound rn unfolding common_hit_def by (metis le_less_linear order_trans)
      moreover have "hybrid_loop c hs ml simple (int lm) st = hybrid_loop c hs ml simple (int (r * AL)) st1"
        using st1 curr nle False by (subst hybrid_loop.simps) (simp add: of_nat_mult [symmetric] del: of_nat_mult)
      ultimately show ?thesis by auto
    qed
  qed
qed

section \<open>The blocks returned\<close>

text \<open>
  The lists of a group at \<open>t\<close> units: one block per position, the hash of the position on every block that the group reads,
  and null blocks elsewhere.
\<close>

definition usable_hit :: "block_pool \<Rightarrow> bytes list \<Rightarrow> nat \<Rightarrow> SpecGroup \<Rightarrow> nat \<Rightarrow> block_ref list list \<Rightarrow> bool" where
  "usable_hit s hs AL g t bls \<longleftrightarrow> (let e = t * (AL div block_tokens g) in
     \<forall>k < length (sg_group_ids g). let bl = bls ! nat (sg_group_ids g ! k) in length bl = e \<and>
       (\<forall>j < e. bl ! j = null_block s \<and> j + tail_need g e < e \<or> carries s (bl ! j) (position_hash s hs g j) (sg_group_ids g ! k)))"

lemma recorded_usable:
  assumes "recorded s hs AL g t0 st" and "t \<le> t0" and "t = t0 \<or> sg_manager_cls g = FullAttentionManager"
    and "\<And>k bl. k < length (sg_group_ids g) \<Longrightarrow> hit_blocks_by_group st ! nat (sg_group_ids g ! k) = Some bl \<Longrightarrow>
      bls ! nat (sg_group_ids g ! k) = take (t * (AL div block_tokens g)) bl"
  shows "usable_hit s hs AL g t bls"
proof -
  define e0 e where "e0 = t0 * (AL div block_tokens g)" and "e = t * (AL div block_tokens g)"
  from assms(1) obtain bl lo where w: "window_blocks s (sg_group_ids g) (position_hash s hs g) bl lo e0 e0" "lo \<le> e0 - tail_need g e0"
    and b: "\<forall>k < length (sg_group_ids g). hit_blocks_by_group st ! nat (sg_group_ids g ! k) = Some (bl ! k)"
    by (auto simp: recorded_def serving_blocks_def e0_def Let_def)
  have e: "e \<le> e0" using assms(2) by (simp add: e_def e0_def)
  have lo: "lo \<le> e - tail_need g e"
    using w(2) assms(3) by (auto simp: e_def e0_def tail_need_def)
  have "length (bls ! nat (sg_group_ids g ! k)) = e \<and>
      (\<forall>j < e. bls ! nat (sg_group_ids g ! k) ! j = null_block s \<and> j + tail_need g e < e \<or>
        carries s (bls ! nat (sg_group_ids g ! k) ! j) (position_hash s hs g j) (sg_group_ids g ! k))"
    if k: "k < length (sg_group_ids g)" for k
  proof -
    have eq: "bls ! nat (sg_group_ids g ! k) = take e (bl ! k)" using assms(4) [OF k] b k by (simp add: e_def)
    have "length (bl ! k) = e0" "\<And>j. j < lo \<Longrightarrow> bl ! k ! j = null_block s"
      "\<And>j. lo \<le> j \<Longrightarrow> j < e0 \<Longrightarrow> carries s (bl ! k ! j) (position_hash s hs g j) (sg_group_ids g ! k)"
      using w(1) k by (auto simp: window_blocks_def)
    then show ?thesis using e lo eq by (metis (no_types, lifting) less_diff_conv length_take min.absorb2 not_le nth_take order_less_le_trans)
  qed
  then show ?thesis by (simp add: usable_hit_def e_def Let_def)
qed

lemma trim_first:
  assumes ok: "hybrid_ok c AL" and st: "sized c st"
  shows "\<exists>bls. trim_full c (int (t * AL)) (hit_blocks_by_group st) = Inr bls \<and> length bls = length (kv_cache_groups (co_config c)) \<and>
    (\<forall>g \<in> set (attention_groups c). \<forall>i \<in> set (sg_group_ids g). bls ! nat i =
       (if is_full_group g then map_option (take (t * (AL div block_tokens g))) (hit_blocks_by_group st ! nat i)
        else hit_blocks_by_group st ! nat i))"
proof -
  obtain f zs where split: "attention_groups c = f # zs" using ok by (auto simp: hybrid_ok_def neq_Nil_conv)
  then have f: "f \<in> set (attention_groups c)" by simp
  from group_first [OF ok f] obtain i0 ids where i0: "sg_group_ids f = int i0 # ids" "i0 < length (single_type_managers c)"
    by blast
  have nf: "\<not> is_full_group g" if "g \<in> set (attention_groups c)" "g \<noteq> f" for g using ok split that by (auto simp: hybrid_ok_def)
  have inb: "nat i < length (hit_blocks_by_group st)" "0 \<le> i" if "g \<in> set (attention_groups c)" "i \<in> set (sg_group_ids g)" for g i
    using ok st that by (auto simp: hybrid_ok_def sized_def lookup_ok_def group_ok_def groups_valid_def)
  show ?thesis
  proof (cases "is_full_group f")
    case False
    then have "\<not> is_full_group g" if "g \<in> set (attention_groups c)" for g using nf that by (cases "g = f") auto
    then show ?thesis
      using False split st by (auto simp: trim_full_def py_index_def sized_def)
  next
    case True
    have bs: "mgr_block_size (single_type_managers c ! i0) = int (block_tokens f)" "0 < block_tokens f" "block_tokens f dvd AL"
      using ok f i0 by (auto simp: hybrid_ok_def lookup_ok_def sizes_ok_def block_tokens_def)
    define e where "e = t * (AL div block_tokens f)"
    have "int (t * AL) = int e * int (block_tokens f)" using bs(3) by (simp add: e_def mult.assoc [symmetric] of_nat_mult [symmetric] del: of_nat_mult)
    then have cd: "cdiv (int (t * AL)) (int (block_tokens f)) = int e" using cdiv_mult [of "int (block_tokens f)" "int e"] bs(2) by simp
    let ?bls = "map (\<lambda>(i, b). if int i \<in> set (sg_group_ids f) then map_option (\<lambda>bl. take (slice_bound (length bl) (int e)) bl) b else b)
      (enumerate 0 (hit_blocks_by_group st))"
    have tr: "trim_full c (int (t * AL)) (hit_blocks_by_group st) = Inr ?bls"
    proof -
      have idx: "py_index (attention_groups c) 0 = Inr f" "py_index (sg_group_ids f) 0 = Inr (int i0)"
        "py_index (single_type_managers c) (int i0) = Inr (single_type_managers c ! i0)"
        using split i0 by (simp_all add: py_index_def)
      show ?thesis unfolding trim_full_def idx and_then.simps Let_def bs(1) cd by (simp add: True)
    qed
    have nth: "?bls ! nat i = (if i \<in> set (sg_group_ids f) then map_option (take e) (hit_blocks_by_group st ! nat i) else hit_blocks_by_group st ! nat i)"
      if "g \<in> set (attention_groups c)" "i \<in> set (sg_group_ids g)" for g i
    proof -
      have "(\<lambda>bl :: block_ref list. take (slice_bound (length bl) (int e)) bl) = take e" by (auto simp: fun_eq_iff min_def)
      then show ?thesis using inb [OF that] by (simp add: nth_enumerate_eq)
    qed
    have "?bls ! nat i = (if is_full_group g then map_option (take (t * (AL div block_tokens g))) (hit_blocks_by_group st ! nat i)
        else hit_blocks_by_group st ! nat i)" if g: "g \<in> set (attention_groups c)" "i \<in> set (sg_group_ids g)" for g i
    proof (cases "g = f")
      case False
      have "i \<notin> set (sg_group_ids f)" using groups_disjoint [OF ok g(1) f False] g(2) by blast
      then show ?thesis using nth [OF g] nf [OF g(1) False] by simp
    qed (use nth [OF g] g(2) True in \<open>simp add: e_def\<close>)
    then show ?thesis using tr st by (intro exI [of _ ?bls]) (simp add: sized_def)
  qed
qed

section \<open>A small hybrid cache\<close>

text \<open>Two cached blocks of two tokens for a full-attention group and the state at their end for a Mamba group.\<close>

definition two_hashes :: "bytes list" where
  "two_hashes = [[9], [8]]"

definition cached_pool :: "block_pool \<Rightarrow> nat list \<Rightarrow> nat \<Rightarrow> int \<Rightarrow> block_pool" where
  "cached_pool s js ncb g = (case cache_full_blocks id False (text_request [1, 2, 3, 4] two_hashes) (map Blk js) (int ncb) 2 2 g None s of
     Inr (_, s) \<Rightarrow> s | Inl _ \<Rightarrow> s)"

definition hybrid_pool :: block_pool where
  "hybrid_pool = cached_pool (cached_pool small_pool [1, 2] 0 0) [0, 3] 1 1"

lemma cached_pool:
  assumes "pool_inv s" and "\<not> enable_kv_cache_events s" and "hash_block_size s = 2" and "num_gpu_blocks s = 4"
    and "length js = 2" "ncb < 2" "0 \<le> g" "g < 2 ^ 32" "distinct js" "\<forall>j \<in> set (drop ncb js). 0 < j \<and> j < 4 \<and> owned s j = {}"
  shows "pool_inv (cached_pool s js ncb g) \<and> \<not> enable_kv_cache_events (cached_pool s js ncb g) \<and>
    hash_block_size (cached_pool s js ncb g) = 2 \<and> num_gpu_blocks (cached_pool s js ncb g) = 4 \<and>
    (\<forall>j. j \<notin> set (drop ncb js) \<longrightarrow> owned (cached_pool s js ncb g) j = owned s j) \<and>
    (\<forall>k. ncb \<le> k \<and> k < 2 \<longrightarrow> group_key (two_hashes ! k) g \<in> owned (cached_pool s js ncb g) (js ! k))"
proof -
  let ?r = "text_request [1, 2, 3, 4] two_hashes"
  have v: "resolve_block_hashes (RawHashes (block_hashes ?r)) (hash_block_size s) 2 False None = Inr (RawHashes two_hashes)"
    using assms(3) by (simp add: resolve_block_hashes_def)
  have ncb: "ncb = 0 \<or> ncb = 1" using assms(6) by auto
  then have sl: "view_slice_from (RawHashes two_hashes) (int ncb) = Inr (drop ncb two_hashes)"
    by (auto simp: view_slice_from_def slice_bound_def py_index_def two_hashes_def upto_rec1)
  have "\<exists>s'. cache_full_blocks id False ?r (map Blk js) (int ncb) (int 2) 2 g None s = Inr (?r, s') \<and>
    pool_inv s' \<and> same_refs s s' \<and> (\<forall>j. j \<notin> set (drop ncb (take 2 js)) \<longrightarrow> owned s' j = owned s j) \<and>
    (\<forall>k. ncb \<le> k \<and> k < 2 \<and> js ! k \<noteq> 0 \<and> \<not> masked_out None (k - ncb) \<longrightarrow>
       group_key (drop ncb two_hashes ! (k - ncb)) g \<in> owned s' (js ! k))"
    by (rule cache_full_blocks_fresh [OF assms(1,2) _ _ v sl])
      (use assms in \<open>auto simp: two_hashes_def distinct_filter\<close>)
  then obtain s' where s': "cache_full_blocks id False ?r (map Blk js) (int ncb) 2 2 g None s = Inr (?r, s')" "pool_inv s'" "same_refs s s'"
    "\<forall>j. j \<notin> set (drop ncb js) \<longrightarrow> owned s' j = owned s j"
    "\<And>k. ncb \<le> k \<Longrightarrow> k < 2 \<Longrightarrow> js ! k \<noteq> 0 \<Longrightarrow> group_key (drop ncb two_hashes ! (k - ncb)) g \<in> owned s' (js ! k)"
    using assms(5) by (auto simp: masked_out_def)
  have e: "cached_pool s js ncb g = s'" by (simp add: cached_pool_def s'(1))
  have "group_key (two_hashes ! k) g \<in> owned s' (js ! k)" if k: "ncb \<le> k" "k < 2" for k
  proof -
    have "drop ncb js ! (k - ncb) = js ! k" using k assms(5) by simp
    then have "js ! k \<in> set (drop ncb js)" using k assms(5) by (metis diff_less_mono in_set_conv_nth length_drop)
    then have "js ! k \<noteq> 0" using assms(10) by auto
    moreover have "drop ncb two_hashes ! (k - ncb) = two_hashes ! k" using k by (simp add: two_hashes_def)
    ultimately show ?thesis using s'(5) [OF k] by simp
  qed
  then show ?thesis
    using s'(2-4) assms(2,3,4) by (simp add: e same_refs_def same_links_def same_config_def)
qed

lemma hybrid_pool:
  shows "pool_inv hybrid_pool" and "hash_block_size hybrid_pool = 2"
    and "k < 2 \<Longrightarrow> cached_in hybrid_pool [0] (two_hashes ! k)" and "cached_in hybrid_pool [1] (two_hashes ! 1)"
proof -
  let ?s = "cached_pool small_pool [1, 2] 0 0"
  have 1: "pool_inv ?s \<and> \<not> enable_kv_cache_events ?s \<and> hash_block_size ?s = 2 \<and> num_gpu_blocks ?s = 4 \<and>
      (\<forall>j. j \<notin> set (drop 0 [1, 2]) \<longrightarrow> owned ?s j = owned small_pool j) \<and>
      (\<forall>k. 0 \<le> k \<and> k < 2 \<longrightarrow> group_key (two_hashes ! k) 0 \<in> owned ?s ([1, 2] ! k))"
    by (rule cached_pool) (use small_pool in auto)
  have 2: "pool_inv hybrid_pool \<and> \<not> enable_kv_cache_events hybrid_pool \<and> hash_block_size hybrid_pool = 2 \<and> num_gpu_blocks hybrid_pool = 4 \<and>
      (\<forall>j. j \<notin> set (drop 1 [0, 3]) \<longrightarrow> owned hybrid_pool j = owned ?s j) \<and>
      (\<forall>k. 1 \<le> k \<and> k < 2 \<longrightarrow> group_key (two_hashes ! k) 1 \<in> owned hybrid_pool ([0, 3] ! k))"
    unfolding hybrid_pool_def by (rule cached_pool) (use 1 small_pool in auto)
  show "pool_inv hybrid_pool" "hash_block_size hybrid_pool = 2" using 2 by blast+
  show "cached_in hybrid_pool [0] (two_hashes ! k)" if "k < 2"
  proof -
    have "group_key (two_hashes ! k) 0 \<in> owned ?s ([1, 2] ! k)" using 1 that by simp
    moreover have "[1, 2 :: nat] ! k \<notin> set (drop 1 [0, 3])" using that by (auto simp: less_Suc_eq numeral_2_eq_2)
    ultimately show ?thesis using 2 by (auto simp: cached_in_def)
  qed
  have "group_key (two_hashes ! 1) 1 \<in> owned hybrid_pool ([0, 3] ! 1)" using 2 by auto
  then show "cached_in hybrid_pool [1] (two_hashes ! 1)" by (auto simp: cached_in_def)
qed

definition demo_hybrid :: coordinator where
  "demo_hybrid = (let full = small_full 2; mamba = MambaSpec (small_mamba ''none'') in
     \<lparr>co_class = HybridKVCacheCoordinator,
      co_config = \<lparr>num_blocks = 4, kv_cache_tensors = [],
        kv_cache_groups = [\<lparr>layer_names = [], group_spec = full, is_eagle_group = False\<rparr>,
          \<lparr>layer_names = [], group_spec = mamba, is_eagle_group = False\<rparr>],
        prefix_cache_retention_interval = None, kv_cache_layout = None\<rparr>,
      co_caching = True, co_scheduler_block_size = 2, num_reprefillable_tokens = 0, co_pool = hybrid_pool, eagle_group_ids = [],
      single_type_managers = [base_manager_init FullAttentionManager full hybrid_pool True 0 2 1 False None,
        base_manager_init MambaManager mamba hybrid_pool True 1 2 1 False None],
      retention_interval = None, co_dcp_world_size = 1, co_pcp_world_size = 1, co_block_size = 0, co_hash_block_size = 2,
      enable_partial_hash_hits = False,
      attention_groups = [\<lparr>sg_spec = full, sg_group_ids = [0], sg_manager_cls = FullAttentionManager, sg_use_eagle = False\<rparr>,
        \<lparr>sg_spec = mamba, sg_group_ids = [1], sg_manager_cls = MambaManager, sg_use_eagle = False\<rparr>],
      full_attention_group_id = Some 0\<rparr>)"

lemma demo_hybrid:
  "co_pool demo_hybrid = hybrid_pool" "kv_cache_groups (co_config demo_hybrid) \<noteq> []"
  "attention_groups demo_hybrid = [\<lparr>sg_spec = small_full 2, sg_group_ids = [0], sg_manager_cls = FullAttentionManager, sg_use_eagle = False\<rparr>,
     \<lparr>sg_spec = MambaSpec (small_mamba ''none''), sg_group_ids = [1], sg_manager_cls = MambaManager, sg_use_eagle = False\<rparr>]"
  by (simp_all add: demo_hybrid_def Let_def)

lemma demo_hybrid_ok: "hybrid_ok demo_hybrid 2"
  using hybrid_pool(1,2)
  by (simp add: hybrid_ok_def lookup_ok_def group_ok_def sizes_ok_def is_full_group_def block_tokens_def groups_valid_def
      demo_hybrid_def cache_hit_alignment_tokens_def base_manager_init_def small_mamba_def isinstance_def small_full_def plain_attention_def Let_def)

section \<open>Properties\<close>

text \<open>
  C16.  The hybrid lookup always returns.  Whatever the groups, the cached blocks and the EAGLE groups are, the
  \<^verbatim>\<open>while True\<close> loop of \<^verbatim>\<open>HybridKVCacheCoordinator.find_longest_cache_hit\<close> ends with a hit or an exception, if block sizes and
  the granularity are positive and the bound is not negative.
\<close>

theorem hybrid_lookup_terminates:
  assumes "lookup_ready c" and "0 \<le> max_length"
  shows "\<exists>r. hybrid_find_longest_cache_hit hs max_length c = Some r"
proof -
  let ?st = "\<lparr>curr_hit_length = max_length, longest_hit_length = 0,
    hit_blocks_by_group = replicate (length (kv_cache_groups (co_config c))) None,
    hit_length_by_group = replicate (length (kv_cache_groups (co_config c))) 0, eagle_verified = []\<rparr>"
  have "lengths_ok ?st" using assms(2) by (simp add: lengths_ok_def)
  from hybrid_loop_ends [OF assms(1) this assms(2)] show ?thesis by (auto simp: hybrid_find_longest_cache_hit_def Let_def)
qed

theorem hybrid_lookup_terminates_witness:
  "\<exists>r. hybrid_find_longest_cache_hit two_hashes 3 (demo_hybrid\<lparr>attention_groups := map (\<lambda>g. g\<lparr>sg_use_eagle := True\<rparr>) (attention_groups demo_hybrid)\<rparr>) = Some r"
  by (rule hybrid_lookup_terminates)
    (simp_all add: lookup_ready_def demo_hybrid cache_hit_alignment_tokens_def, simp_all add: demo_hybrid_def small_mamba_def Let_def)

lemma hybrid_hit_core:
  assumes "hybrid_ok c AL" and "max_length div nat (hash_block_size (co_pool c)) \<le> length hs"
  shows "\<exists>bls t unc. hybrid_find_longest_cache_hit hs (int max_length) c = Some (Inr (bls, int (t * AL), unc)) \<and>
    common_hit c hs AL (max_length div AL) t \<and> length bls = length (kv_cache_groups (co_config c)) \<and>
    (\<forall>g \<in> set (attention_groups c). usable_hit (co_pool c) hs AL g t bls) \<and> 0 \<le> unc"
proof -
  let ?T = "max_length div AL" and ?G = "length (kv_cache_groups (co_config c))"
  define st where "st = \<lparr>curr_hit_length = int max_length, longest_hit_length = 0, hit_blocks_by_group = replicate ?G None,
    hit_length_by_group = replicate ?G 0, eagle_verified = []\<rparr>"
  define simple where "simple \<longleftrightarrow> length (attention_groups c) = 2 \<and> is_full_group (hd (attention_groups c))"
  have T: "?T * AL \<le> length hs * nat (hash_block_size (co_pool c))"
    by (rule hybrid_covered [OF assms])
  have hd: "hd (attention_groups c) \<in> set (attention_groups c)" using assms(1) by (simp add: hybrid_ok_def)
  obtain i ids where "sg_group_ids (hd (attention_groups c)) = int i # ids" "i < ?G" using group_first [OF assms(1) hd] by blast
  then have "unseen (hd (attention_groups c)) st" by (simp add: unseen_def st_def)
  then have "loop_entry c hs AL ?T max_length st" by (simp add: loop_entry_def sized_def st_def)
  from hybrid_loop_correct [OF assms(1) T _ this assms(2), of simple "int max_length"] obtain t st' where
    l: "hybrid_loop c hs (int max_length) simple (int max_length) st = Some (Inr (int (t * AL), st'))"
    and h: "common_hit c hs AL ?T t" and x: "loop_exit c hs AL ?T t st'" by (auto simp: simple_def)
  from trim_first [OF assms(1), of st' t] x obtain obs where tr: "trim_full c (int (t * AL)) (hit_blocks_by_group st') = Inr obs"
    "length obs = ?G" "\<forall>g \<in> set (attention_groups c). \<forall>i \<in> set (sg_group_ids g). obs ! nat i =
       (if is_full_group g then map_option (take (t * (AL div block_tokens g))) (hit_blocks_by_group st' ! nat i)
        else hit_blocks_by_group st' ! nat i)" by (auto simp: loop_exit_def)
  define bls where "bls = map (\<lambda>b. case b of None \<Rightarrow> [] | Some bl \<Rightarrow> bl) obs"
  have eq: "hybrid_find_longest_cache_hit hs (int max_length) c = Some (Inr (bls, int (t * AL), longest_hit_length st' - int (t * AL)))"
    unfolding hybrid_find_longest_cache_hit_def Let_def simple_def [symmetric] st_def [symmetric] l
    by (simp only: option.map and_then.simps prod.case tr(1) bls_def)
  have "usable_hit (co_pool c) hs AL g t bls" if g: "g \<in> set (attention_groups c)" for g
  proof (rule recorded_usable)
    let ?t = "if is_full_group g then lookup_units (co_pool c, hs, AL) g ?T else t"
    show rec: "recorded (co_pool c) hs AL g ?t st'" using x g by (simp add: loop_exit_def)
    have "group_ok g" using assms(1) g by (simp add: hybrid_ok_def lookup_ok_def)
    then show "t = ?t \<or> sg_manager_cls g = FullAttentionManager" by (auto simp: group_ok_def)
    show "t \<le> ?t"
      using h g gl.find_last [OF hybrid_lookup_ok [OF assms(1) g] round_top(1) [OF assms(1) T], of t]
      by (auto simp: common_hit_def not_le)
    fix k bl assume k: "k < length (sg_group_ids g)" and bl: "hit_blocks_by_group st' ! nat (sg_group_ids g ! k) = Some bl"
    have i: "sg_group_ids g ! k \<in> set (sg_group_ids g)" using k by simp
    have "nat (sg_group_ids g ! k) < length obs" using assms(1) g i tr(2) by (simp add: hybrid_ok_def)
    moreover have "length bl = t * (AL div block_tokens g)" if "\<not> is_full_group g"
      using rec that bl k by (auto simp: recorded_def serving_blocks_def window_blocks_def Let_def)
    ultimately show "bls ! nat (sg_group_ids g ! k) = take (t * (AL div block_tokens g)) bl"
      using tr(3) g i bl by (auto simp: bls_def)
  qed
  then show ?thesis using eq h tr(2) x by (auto simp: bls_def loop_exit_def)
qed

text \<open>
  C9.  The hybrid lookup returns the longest common hit.  For full-attention groups of one specification at most, sliding-window and Mamba
  groups, without EAGLE and context parallelism and with hits in whole blocks (\<open>hybrid_ok\<close>), the reconciled length is the greatest multiple of the granularity within the bound that every group
  can serve; each group gets one block per position, carrying the hash of the position wherever the group reads it and the
  null block elsewhere; and the reported uncached shared prefix is not negative.
\<close>

theorem hybrid_hit_longest:
  assumes "hybrid_ok c AL" and "max_length div nat (hash_block_size (co_pool c)) \<le> length hs"
  shows "\<exists>bls t unc. hybrid_find_longest_cache_hit hs (int max_length) c = Some (Inr (bls, int (t * AL), unc)) \<and>
    common_hit c hs AL (max_length div AL) t \<and> length bls = length (kv_cache_groups (co_config c)) \<and>
    (\<forall>g \<in> set (attention_groups c). usable_hit (co_pool c) hs AL g t bls) \<and> 0 \<le> unc"
  by (rule hybrid_hit_core [OF assms])

theorem hybrid_hit_longest_witness:
  "\<exists>bls unc. hybrid_find_longest_cache_hit two_hashes 4 demo_hybrid = Some (Inr (bls, 4, unc)) \<and>
     length (bls ! 0) = 2 \<and> length (bls ! 1) = 2 \<and> carries hybrid_pool (bls ! 1 ! 1) [8] 1"
proof -
  obtain f m where gs: "attention_groups demo_hybrid = [f, m]" and f: "f = \<lparr>sg_spec = small_full 2, sg_group_ids = [0],
      sg_manager_cls = FullAttentionManager, sg_use_eagle = False\<rparr>"
    and m: "m = \<lparr>sg_spec = MambaSpec (small_mamba ''none''), sg_group_ids = [1], sg_manager_cls = MambaManager, sg_use_eagle = False\<rparr>"
    by (simp add: demo_hybrid)
  have bt: "block_tokens f = 2" "block_tokens m = 2" by (simp_all add: f m block_tokens_def small_mamba_def)
  have hv: "position_hash hybrid_pool two_hashes f k = two_hashes ! k" "position_hash hybrid_pool two_hashes m k = two_hashes ! k" for k
    by (simp_all add: position_hash_def bt hybrid_pool(2) block_hash_at_def)
  have "serves hybrid_pool two_hashes 2 f 2" "serves hybrid_pool two_hashes 2 m 2"
    using hybrid_pool(3,4) by (auto simp: serves_def bt hv) (auto simp: f m tail_need_def less_Suc_eq numeral_2_eq_2 le_Suc_eq)
  moreover obtain bls t unc where r: "hybrid_find_longest_cache_hit two_hashes 4 demo_hybrid = Some (Inr (bls, int (t * 2), unc))"
    "common_hit demo_hybrid two_hashes 2 2 t" "\<forall>g \<in> set (attention_groups demo_hybrid). usable_hit hybrid_pool two_hashes 2 g t bls"
    using hybrid_hit_longest [OF demo_hybrid_ok, of 4 two_hashes] by (auto simp: demo_hybrid(1) hybrid_pool(2) two_hashes_def)
  ultimately have t: "t = 2" by (auto simp: common_hit_def gs demo_hybrid(1) le_less)
  have sel: "sg_group_ids f = [0]" "sg_group_ids m = [1]" "tail_need m e = 1" for e by (simp_all add: f m tail_need_def)
  have "usable_hit hybrid_pool two_hashes 2 f 2 bls" "usable_hit hybrid_pool two_hashes 2 m 2 bls" using r(3) t gs by simp_all
  then have "length (bls ! 0) = 2" "length (bls ! 1) = 2"
    "\<forall>j < 2. bls ! 1 ! j = null_block hybrid_pool \<and> j + 1 < 2 \<or> carries hybrid_pool (bls ! 1 ! j) (two_hashes ! j) 1"
    by (simp_all add: usable_hit_def bt hv sel Let_def)
  then show ?thesis using r(1) t by (auto simp: two_hashes_def dest!: spec [of _ "1 :: nat"])
qed

end
