(* ===== verification/Coordinator_Refs.thy ===== *)
theory Coordinator_Refs
  imports Kv_Coordinator
begin

text \<open>
  The managers of a coordinator share one pool.  The reference count of every block is the number of references that all
  managers hold together, plus those held outside; every operation of the coordinator keeps this.  The loops over the
  managers are instances of the loop lemma of the locale \<open>ref_holder\<close>.
\<close>

section \<open>The invariant of a coordinator\<close>

definition co_refs :: "coordinator \<Rightarrow> nat multiset" where
  "co_refs c = sum_list (map mgr_refs (single_type_managers c))"

definition co_ok :: "coordinator \<times> nat multiset \<Rightarrow> bool" where
  "co_ok = (\<lambda>(c, X). (\<forall>m \<in> set (single_type_managers c). mgr_ok (co_pool c) m \<and> spec_ok m) \<and>
     client_inv (co_pool c, co_refs c + X))"

text \<open>What no operation changes: the configuration of the coordinator and of its pool, and the shape of the managers.\<close>

definition co_frame :: "coordinator \<Rightarrow> coordinator \<Rightarrow> bool" where
  "co_frame c c' \<longleftrightarrow> same_config (co_pool c) (co_pool c') \<and> co_config c' = co_config c \<and> co_class c' = co_class c \<and>
     co_caching c' = co_caching c \<and> length (single_type_managers c') = length (single_type_managers c)"

lemma co_frame_refl [simp]: "co_frame c c"
  by (simp add: co_frame_def)

lemma co_frame_trans: "co_frame a b \<Longrightarrow> co_frame b c \<Longrightarrow> co_frame a c"
  by (auto simp: co_frame_def intro: same_config_trans)

section \<open>Loops\<close>

text \<open>What relates a manager before and after its turn holds pointwise after the loop.\<close>

lemma for_managers_rel:
  assumes "for_managers f xs ms s = Inr (bs, ms', s')"
    and "\<And>x m s b m' s'. (x, m) \<in> set (zip xs ms) \<Longrightarrow> f x m s = Inr (b, m', s') \<Longrightarrow> R x m b m'"
  shows "length ms' = length ms \<and> length bs = length ms \<and> length ms \<le> length xs \<and>
    (\<forall>i < length ms. R (xs ! i) (ms ! i) (bs ! i) (ms' ! i))"
  using assms
proof (induction f xs ms s arbitrary: bs ms' s' rule: for_managers.induct)
  case (3 f x xs m ms s)
  from "3.prems"(1) obtain b m1 s1 bs1 ms1 where f: "f x m s = Inr (b, m1, s1)"
    and rest: "for_managers f xs ms s1 = Inr (bs1, ms1, s')" and res: "bs = b # bs1" "ms' = m1 # ms1"
    by (auto simp: result_simps)
  have "R x m b m1" by (rule "3.prems"(2) [OF _ f]) simp
  moreover have "length ms1 = length ms \<and> length bs1 = length ms \<and> length ms \<le> length xs \<and>
      (\<forall>i < length ms. R (xs ! i) (ms ! i) (bs1 ! i) (ms1 ! i))"
    by (rule "3.IH" [OF rest]) (use f "3.prems"(2) in auto)
  ultimately show ?case using res by (auto simp: nth_Cons split: nat.split)
qed auto

lemma with_managers_keeps:
  assumes ok: "co_ok (c, X)" and eq: "with_managers f xs c = Inr (bs, c')"
    and step: "\<And>x m s b m' s' X. (x, m) \<in> set (zip xs (single_type_managers c)) \<Longrightarrow> same_config (co_pool c) s \<Longrightarrow>
      f x m s = Inr (b, m', s') \<Longrightarrow> mgr_step (m, s, X) (m', s', X)"
  shows "co_ok (c', X) \<and> co_frame c c'"
proof -
  from eq obtain ms s where l: "for_managers f xs (single_type_managers c) (co_pool c) = Inr (bs, ms, s)"
    and c': "c' = c\<lparr>single_type_managers := ms, co_pool := s\<rparr>"
    by (auto simp: with_managers_def result_simps)
  have "(\<forall>m \<in> set ms. mgr_ok s m \<and> spec_ok m) \<and> client_inv (s, sum_list (map mgr_refs ms) + X) \<and>
      same_config (co_pool c) s \<and> length ms = length (single_type_managers c)"
    by (rule mgr.loop_keeps [where pool = "\<lambda>s. s", OF l]) (use ok step in \<open>auto simp: co_ok_def co_refs_def\<close>)
  then show ?thesis using c' by (simp add: co_ok_def co_refs_def co_frame_def)
qed

lemma all_managers_keeps:
  assumes "co_ok (c, X)" and "all_managers f c = Inr c'"
    and "\<And>m s m' s' X. m \<in> set (single_type_managers c) \<Longrightarrow> same_config (co_pool c) s \<Longrightarrow> f m s = Inr (m', s') \<Longrightarrow>
      mgr_step (m, s, X) (m', s', X)"
  shows "co_ok (c', X) \<and> co_frame c c'"
proof -
  from assms(2) obtain bs where l: "with_managers (\<lambda>_ m s. and_then (f m s) (\<lambda>(m, s). Inr ((), m, s)))
      (map (\<lambda>_. ()) (single_type_managers c)) c = Inr (bs, c')"
    by (auto simp: all_managers_def result_simps)
  show ?thesis
    by (rule with_managers_keeps [OF assms(1) l]) (use assms(3) in \<open>auto simp: result_simps dest: set_zip_rightD\<close>)
qed

section \<open>The operations\<close>

lemma co_predict_keeps:
  assumes "co_ok (c, X)" and "co_get_num_blocks_to_allocate rid n ncbs enc tot l nm cap c = Inr (k, c')"
  shows "co_ok (c', X) \<and> co_frame c c'"
proof -
  from assms(2) obtain ns where "with_managers (predict_one rid n enc tot l nm cap) ncbs c = Inr (ns, c')"
    by (auto simp: co_get_num_blocks_to_allocate_def result_simps)
  then show ?thesis
    by (rule with_managers_keeps [OF assms(1)]) (auto simp: predict_one_def result_simps split: if_split_asm intro: ms_admit)
qed

lemma local_length:
  assumes "add_local_computed_blocks rid ncb l e m s = Inr (m', s')" and "0 < mgr_block_size m"
    and "mgr_class m \<noteq> CrossAttentionManager" and "int (length ncb) \<le> cdiv (l + e) (mgr_block_size m)"
    and "get_num_skipped_tokens m (l + e) \<le> l + e" "0 \<le> l + e"
  shows "int (length (req_blocks m' rid)) \<le> cdiv (l + e) (mgr_block_size m') \<and> mgr_block_size m' = mgr_block_size m \<and> mgr_class m' = mgr_class m"
proof -
  define k where "k = skipped_blocks m (l + e)"
  have eq: "base_add_local_computed_blocks rid ncb l e m s = Inr (m', s')"
    using assms(1,3) by (auto simp: add_local_computed_blocks_def split: manager_class.split_asm)
  then have "req_blocks m' rid = replicate (nat k) (mgr_null_block m) @ drop (nat k) ncb"
    unfolding base_add_local_computed_blocks_def Let_def py_drop k_def skipped_blocks_def
    by (auto simp: note_local_hit_def Let_def mgr_frame elim!: and_thenE)
  moreover have "mgr_block_size m' = mgr_block_size m" "mgr_class m' = mgr_class m"
    using grows_local [OF eq] by (simp_all add: grows_def)
  ultimately show ?thesis
    using assms(4) skipped_le [OF assms(2,5)] cdiv_nonneg [OF assms(2,6)] by (simp add: k_def) arith
qed

text \<open>The hits that a caller passes: blocks of the pool that reach no further than the computed tokens.\<close>

definition hits_fit :: "coordinator \<Rightarrow> block_ref list list \<Rightarrow> int \<Rightarrow> int \<Rightarrow> bool" where
  "hits_fit c ncbs l e \<longleftrightarrow> 0 \<le> l \<and> 0 \<le> e \<and> (\<forall>(bl, m) \<in> set (zip ncbs (single_type_managers c)). in_pool (co_pool c) bl \<and>
     int (length bl) \<le> cdiv (l + e) (mgr_block_size m) \<and> get_num_skipped_tokens m (l + e) \<le> l + e)"

lemma co_computed_keeps:
  assumes ok: "co_ok (c, X)" and fit: "hits_fit c ncbs l e"
    and eq: "co_allocate_new_computed_blocks u rid ncbs l e c = Inr c'"
  shows "co_ok (c', X) \<and> co_frame c c'"
proof (cases "list_ex (\<lambda>m. dict_get (num_cached_block m) rid \<noteq> None) (single_type_managers c)")
  case True
  then show ?thesis using eq ok by (auto simp: co_allocate_new_computed_blocks_def result_simps)
next
  case False
  let ?f = "\<lambda>bl m s. and_then (add_local_computed_blocks rid bl l e m s) (\<lambda>(m, s). Inr ((), m, s))"
  from False eq obtain us c1 where l1: "with_managers ?f ncbs c = Inr (us, c1)"
    and r: "(if e > 0 then all_managers (allocate_external_computed_blocks u rid l e) c1 else Inr c1) = Inr c'"
    unfolding co_allocate_new_computed_blocks_def by (auto elim!: and_thenE)
  have in_s: "in_pool s bl" if "(bl, m) \<in> set (zip ncbs (single_type_managers c))" "same_config (co_pool c) s" for bl m s
    using fit that in_pool_frame by (auto simp: hits_fit_def)
  have 1: "co_ok (c1, X) \<and> co_frame c c1"
    by (rule with_managers_keeps [OF ok l1]) (auto simp: result_simps intro: ms_local in_s)
  have len: "mgr_class m = CrossAttentionManager \<or> int (length (req_blocks m rid)) \<le> cdiv (l + e) (mgr_block_size m)"
    if m: "m \<in> set (single_type_managers c1)" for m
  proof -
    from l1 obtain s where "for_managers ?f ncbs (single_type_managers c) (co_pool c) = Inr (us, single_type_managers c1, s)"
      by (auto simp: with_managers_def result_simps)
    then have "length (single_type_managers c1) = length (single_type_managers c) \<and> length us = length (single_type_managers c) \<and>
        length (single_type_managers c) \<le> length ncbs \<and> (\<forall>i < length (single_type_managers c).
        (\<lambda>bl m b m'. mgr_class m' = CrossAttentionManager \<or> int (length (req_blocks m' rid)) \<le> cdiv (l + e) (mgr_block_size m'))
          (ncbs ! i) (single_type_managers c ! i) (us ! i) (single_type_managers c1 ! i))"
    proof (rule for_managers_rel)
      fix bl m s b m' s'
      assume z: "(bl, m) \<in> set (zip ncbs (single_type_managers c))" and f: "?f bl m s = Inr (b, m', s')"
      have a: "add_local_computed_blocks rid bl l e m s = Inr (m', s')" using f by (auto simp: result_simps)
      have "0 < mgr_block_size m" using ok set_zip_rightD [OF z] by (auto simp: co_ok_def spec_ok_def)
      then show "mgr_class m' = CrossAttentionManager \<or> int (length (req_blocks m' rid)) \<le> cdiv (l + e) (mgr_block_size m')"
        using local_length [OF a] fit z a by (cases "mgr_class m = CrossAttentionManager")
          (auto simp: hits_fit_def add_local_computed_blocks_def result_simps)
    qed
    then show ?thesis using m by (auto simp: in_set_conv_nth)
  qed
  show ?thesis
  proof (cases "e > 0")
    case True
    then have "all_managers (allocate_external_computed_blocks u rid l e) c1 = Inr c'" using r by simp
    then have "co_ok (c', X) \<and> co_frame c1 c'"
    proof (rule all_managers_keeps [OF conjunct1 [OF 1]])
      fix m s m' s' X
      assume m: "m \<in> set (single_type_managers c1)" and f: "allocate_external_computed_blocks u rid l e m s = Inr (m', s')"
      show "mgr_step (m, s, X) (m', s', X)"
      proof (cases "mgr_class m = CrossAttentionManager")
        case True
        then have "new_step_starts m = m" by (simp add: new_step_starts_def)
        then show ?thesis using ms_start [of m s X] f True by (simp add: allocate_external_computed_blocks_def)
      next
        case False
        then show ?thesis using len [OF m] f ms_external by blast
      qed
    qed
    then show ?thesis using 1 co_frame_trans by blast
  qed (use r 1 in simp)
qed

lemma co_new_keeps:
  assumes "co_ok (c, X)" and "0 \<le> nm" and "co_allocate_new_blocks u rid n nm enc c = Inr (bls, c')"
  shows "co_ok (c', X) \<and> co_frame c c'"
  using assms(3) unfolding co_allocate_new_blocks_def
  by (rule with_managers_keeps [OF assms(1)]) (auto simp: allocate_one_def intro: ms_new [OF assms(2)])

lemma cache_all_loop:
  "cache_all sha u i n r ms s = and_then (for_managers (\<lambda>_ m (r, s). and_then (cache_blocks sha u r (n m) i m s)
     (\<lambda>(r, m, s). Inr ((), m, (r, s)))) (map (\<lambda>_. ()) ms) ms (r, s)) (\<lambda>(_, ms, (r, s)). Inr (r, ms, s))"
proof (induction ms arbitrary: r s)
  case (Cons m ms)
  show ?case
  proof (cases "cache_blocks sha u r (n m) i m s")
    case (Inr x)
    obtain r1 m1 s1 where x: "x = (r1, m1, s1)" by (cases x) auto
    let ?l = "for_managers (\<lambda>_ m (r, s). and_then (cache_blocks sha u r (n m) i m s)
     (\<lambda>(r, m, s). Inr ((), m, (r, s)))) (map (\<lambda>_. ()) ms) ms (r1, s1)"
    show ?thesis using Inr x Cons.IH [of r1 s1] by (cases ?l) auto
  qed simp
qed simp

lemma co_cache_keeps:
  assumes ok: "co_ok (c, X)" and eq: "co_cache_blocks sha u r n c = Inr (r', c')"
  shows "co_ok (c', X) \<and> co_frame c c'"
proof -
  let ?f = "\<lambda>_ m (r, s). and_then (cache_blocks sha u r (tokens_to_cache c n m) (retention_interval c) m s) (\<lambda>(r, m, s). Inr ((), m, (r, s)))"
  let ?ms = "single_type_managers c"
  from eq obtain us ms s where l: "for_managers ?f (map (\<lambda>_. ()) ?ms) ?ms (r, co_pool c) = Inr (us, ms, (r', s))"
    and c': "c' = c\<lparr>single_type_managers := ms, co_pool := s\<rparr>"
    unfolding co_cache_blocks_def cache_all_loop by (auto elim!: and_thenE)
  have "(\<forall>m \<in> set ms. mgr_ok (snd (r', s)) m \<and> spec_ok m) \<and> client_inv (snd (r', s), sum_list (map mgr_refs ms) + X) \<and>
      same_config (snd (r, co_pool c)) (snd (r', s)) \<and> length ms = length ?ms"
    by (rule mgr.loop_keeps [where pool = snd, OF l])
      (use ok in \<open>auto simp: co_ok_def co_refs_def result_simps intro: ms_cache\<close>)
  then show ?thesis using c' by (simp add: co_ok_def co_refs_def co_frame_def)
qed

lemma co_free_keeps: "co_ok (c, X) \<Longrightarrow> co_free rid c = Inr c' \<Longrightarrow> co_ok (c', X) \<and> co_frame c c'"
  unfolding co_free_def by (erule (1) all_managers_keeps) (rule ms_free)

lemma co_skip_keeps: "co_ok (c, X) \<Longrightarrow> co_remove_skipped_blocks rid n np c = Inr c' \<Longrightarrow> co_ok (c', X) \<and> co_frame c c'"
  unfolding co_remove_skipped_blocks_def by (erule (1) all_managers_keeps) (rule ms_skip)

text \<open>Operations that touch the managers only, one after the other; \<open>out\<close> are the references that leave a manager.\<close>

lemma co_map_keeps:
  assumes ok: "co_ok (c, X)" and step: "\<And>m X. m \<in> set (single_type_managers c) \<Longrightarrow> mgr_step (m, co_pool c, X) (f m, co_pool c, X + out m)"
  shows "co_ok (c\<lparr>single_type_managers := map f (single_type_managers c)\<rparr>, X + sum_list (map out (single_type_managers c)))"
proof -
  have "(\<forall>m \<in> set (map f ms). mgr_ok (co_pool c) m \<and> spec_ok m) \<and>
      client_inv (co_pool c, sum_list (map mgr_refs (map f ms)) + (X + sum_list (map out ms)))"
    if "\<forall>m \<in> set ms. mgr_ok (co_pool c) m \<and> spec_ok m" "client_inv (co_pool c, sum_list (map mgr_refs ms) + X)"
      "set ms \<subseteq> set (single_type_managers c)" for ms X
    using that
  proof (induction ms arbitrary: X)
    case (Cons m ms)
    let ?Y = "sum_list (map mgr_refs ms) + X"
    have "mgr_step (m, co_pool c, ?Y) (f m, co_pool c, ?Y + out m)" using step Cons.prems(3) by simp
    from mgr.keeps [OF this] Cons.prems(1,2) have k: "mgr_ok (co_pool c) (f m) \<and> spec_ok (f m)"
      "client_inv (co_pool c, mgr_refs (f m) + (?Y + out m))" by (simp_all add: ac_simps)
    have "(\<forall>m \<in> set (map f ms). mgr_ok (co_pool c) m \<and> spec_ok m) \<and>
      client_inv (co_pool c, sum_list (map mgr_refs (map f ms)) + ((X + mgr_refs (f m) + out m) + sum_list (map out ms)))"
      by (rule Cons.IH) (use Cons.prems k in \<open>auto simp: ac_simps\<close>)
    then show ?case using k(1) by (simp add: ac_simps)
  qed simp
  from this [of "single_type_managers c" X] ok show ?thesis by (simp add: co_ok_def co_refs_def)
qed

lemma refs_of_concat: "refs_of (concat xss) = sum_list (map refs_of xss)"
  by (induction xss) simp_all

lemma co_pop_keeps:
  assumes "co_ok (c, X)" and "co_pop_blocks_for_free rid c = (bl, c')"
  shows "co_ok (c', X + refs_of bl) \<and> co_frame c c'"
proof -
  have "co_ok (c\<lparr>single_type_managers := map (snd \<circ> pop_blocks_for_free rid) (single_type_managers c)\<rparr>,
      X + sum_list (map (refs_of \<circ> fst \<circ> pop_blocks_for_free rid) (single_type_managers c)))"
    by (rule co_map_keeps [OF assms(1)]) (use ms_pop in \<open>auto simp: surjective_pairing\<close>)
  then show ?thesis using assms(2) by (auto simp: co_pop_blocks_for_free_def Let_def refs_of_concat co_frame_def comp_def)
qed

lemma co_common_keeps:
  assumes "co_ok (c, X)" and "co_get_num_common_prefix_blocks rid c = (ns, c')"
  shows "co_ok (c', X) \<and> co_frame c c'"
proof -
  have "co_ok (c\<lparr>single_type_managers := map (\<lambda>m. snd (get_num_common_prefix_blocks rid m (co_pool c))) (single_type_managers c)\<rparr>,
      X + sum_list (map (\<lambda>_. {#}) (single_type_managers c)))"
    by (rule co_map_keeps [OF assms(1)]) (auto intro!: ms_common surjective_pairing)
  then show ?thesis using assms
    by (auto simp: co_get_num_common_prefix_blocks_def Let_def co_frame_def comp_def split: coordinator_class.split_asm)
qed

lemma co_start_keeps: "co_ok (c, X) \<Longrightarrow> co_ok (co_new_step_starts c, X) \<and> co_frame c (co_new_step_starts c)"
  using co_map_keeps [of c X new_step_starts "\<lambda>_. {#}"] ms_start by (simp add: co_new_step_starts_def co_frame_def)

text \<open>An operation on the pool alone.\<close>

lemma co_pool_keeps:
  assumes ok: "co_ok (c, X)" and "pool_step (co_pool c, co_refs c + X) (s', co_refs c + X')" and "same_config (co_pool c) s'"
  shows "co_ok (c\<lparr>co_pool := s'\<rparr>, X') \<and> co_frame c (c\<lparr>co_pool := s'\<rparr>)"
  using ok pool_step_inv [OF assms(2)] assms(3) by (auto simp: co_ok_def co_refs_def co_frame_def mgr_ok_frame)

section \<open>Construction\<close>

text \<open>Sizes that a configuration must have: positive blocks, a non-negative number of speculative blocks.\<close>

definition spec_sizes_ok :: "KVCacheSpec \<Rightarrow> bool" where
  "spec_sizes_ok s \<longleftrightarrow> 0 < spec_block_size s \<and> (case s of MambaSpec f \<Rightarrow> 0 \<le> num_speculative_blocks f | _ \<Rightarrow> True)"

lemma subclass_init_sizes:
  assumes "subclass_init cls spec m = Inr m'" and "spec_sizes_ok spec" and "0 < mgr_block_size m" "0 \<le> mgr_num_speculative_blocks m"
  shows "0 < mgr_block_size m' \<and> 0 \<le> mgr_num_speculative_blocks m'"
  using assms by (induction cls spec m rule: subclass_init.induct) (auto simp: spec_sizes_ok_def)

lemma new_manager:
  assumes "get_manager_for_kv_cache_spec reg spec in_flight model_len caching i sbs dcp (Some z) pool = Inr (m, pool')"
    and "spec_sizes_ok spec" and "null_block pool = Blk 0"
  shows "pool' = pool \<and> mgr_refs m = {#} \<and> mgr_ok s m \<and> spec_ok m"
proof -
  from assms(1) obtain cls cap where mi: "manager_init cls spec caching i sbs dcp (Some z) cap pool = Inr (m, pool')"
    unfolding get_manager_for_kv_cache_spec_def Let_def by (auto split: option.split_asm)
  then have ns: "cls \<noteq> SinkFullAttentionManager" by (auto simp: manager_init_def)
  let ?b = "base_manager_init cls spec pool caching i sbs dcp z cap"
  have "subclass_init cls spec ?b = Inr m" using mi ns by (cases cls) (auto simp: manager_init_def result_simps)
  then have "0 < mgr_block_size m \<and> 0 \<le> mgr_num_speculative_blocks m"
    by (rule subclass_init_sizes) (use assms(2) in \<open>auto simp: base_manager_init_def spec_sizes_ok_def\<close>)
  then show ?thesis
    using manager_init_tables [OF mi ns] assms(3) by (simp add: mgr_refs_def table_refs_def mgr_ok_def spec_ok_def)
qed

lemma new_managers:
  assumes "build_managers reg in_flight model_len caching sbs dcp z i gs pool = Inr (ms, pool')"
    and "\<forall>g \<in> set gs. spec_sizes_ok (group_spec g)" and "null_block pool = Blk 0"
  shows "pool' = pool \<and> length ms = length gs \<and> (\<forall>m \<in> set ms. mgr_refs m = {#} \<and> mgr_ok s m \<and> spec_ok m)"
  using assms
proof (induction gs arbitrary: i ms pool')
  case (Cons g gs)
  from Cons.prems(1) obtain m p1 ms1 where
    m: "get_manager_for_kv_cache_spec reg (group_spec g) in_flight model_len caching i sbs dcp (Some z) pool = Inr (m, p1)"
    and r: "build_managers reg in_flight model_len caching sbs dcp z (i + 1) gs p1 = Inr (ms1, pool')" and ms: "ms = m # ms1"
    by (auto simp: result_simps)
  have "p1 = pool \<and> mgr_refs m = {#} \<and> mgr_ok s m \<and> spec_ok m"
    by (rule new_manager [OF m]) (use Cons.prems in auto)
  then show ?case using Cons.IH [of "i + 1" ms1 pool'] Cons.prems(2,3) r ms by auto
qed simp

lemma sum_list_empty: "\<forall>m \<in> set ms. f m = {#} \<Longrightarrow> sum_list (map f ms) = {#}"
  by (induction ms) auto

lemma co_base_init_ok:
  assumes "coordinator_base_init reg cls cfg ml ifl eagle caching events dcp pcp sbs hbs mc la = Inr c"
    and "\<forall>g \<in> set (kv_cache_groups cfg). spec_sizes_ok (group_spec g)"
  shows "co_ok (c, {#})" and "length (single_type_managers c) = length (kv_cache_groups (co_config c))" and "co_config c = cfg"
proof -
  from assms(1) obtain pool ms pool' where p: "BlockPool_init (num_blocks cfg) caching hbs events mc = Inr pool"
    and b: "build_managers reg ifl ml caching sbs dcp (needs_kv_cache_zeroing cfg) 0 (kv_cache_groups cfg) pool = Inr (ms, pool')"
    and c: "single_type_managers c = ms" "co_pool c = pool'" "co_config c = cfg"
    unfolding coordinator_base_init_def Let_def by (elim and_thenE) (auto elim!: and_thenE split: if_split_asm)
  have inv: "client_inv (pool, {#})" by (rule pool_reachable_inv [OF reach_init [OF p]])
  then have nb: "null_block pool = Blk 0" using free_invD(5) by (simp add: client_inv_def pool_inv_def)
  have ms: "pool' = pool \<and> length ms = length (kv_cache_groups cfg) \<and> (\<forall>m \<in> set ms. mgr_refs m = {#} \<and> mgr_ok pool m \<and> spec_ok m)"
    by (rule new_managers [OF b assms(2) nb])
  then have "co_refs c = {#}" using c(1) sum_list_empty [of ms mgr_refs] by (simp add: co_refs_def)
  then show "co_ok (c, {#})" using ms c inv by (simp add: co_ok_def)
  show "length (single_type_managers c) = length (kv_cache_groups (co_config c))" "co_config c = cfg" using ms c by simp_all
qed

lemma co_ok_eagle:
  assumes ok: "co_ok (c, X)" and p: "co_pool c' = co_pool c"
    and ms: "list_all2 (\<lambda>m m'. m' = m \<or> (\<exists>b. m' = m\<lparr>mgr_use_eagle := b\<rparr>)) (single_type_managers c) (single_type_managers c')"
  shows "co_ok (c', X)"
proof -
  let ?P = "\<lambda>m m'. mgr_refs m' = mgr_refs m \<and> mgr_ok (co_pool c) m' = mgr_ok (co_pool c) m \<and> spec_ok m' = spec_ok m"
  have "list_all2 ?P (single_type_managers c) (single_type_managers c')"
    by (rule list_all2_mono [OF ms]) (auto simp: mgr_refs_def mgr_ok_def spec_ok_def align_mode_def req_blocks_def)
  then have "map mgr_refs (single_type_managers c') = map mgr_refs (single_type_managers c)"
    and "(\<forall>m \<in> set (single_type_managers c'). mgr_ok (co_pool c) m \<and> spec_ok m) =
      (\<forall>m \<in> set (single_type_managers c). mgr_ok (co_pool c) m \<and> spec_ok m)"
    by (induction rule: list_all2_induct) auto
  then show ?thesis using ok p by (simp add: co_ok_def co_refs_def)
qed

lemma unitary_init_ok:
  assumes "unitary_init c = Inr c'" and "co_ok (c, X)"
  shows "co_ok (c', X)" and "length (single_type_managers c') = length (single_type_managers c)" and "co_config c' = co_config c"
proof -
  obtain m where i: "py_index (single_type_managers c) 0 = Inr m" and g: "\<exists>g. py_index (kv_cache_groups (co_config c)) 0 = Inr g"
    using assms(1) by (auto simp: unitary_init_def Let_def result_simps)
  have c': "co_pool c' = co_pool c" "co_config c' = co_config c"
    "single_type_managers c' = (single_type_managers c)[0 := m\<lparr>mgr_use_eagle := 0 \<in> set (eagle_group_ids c)\<rparr>]"
    using assms(1) i g by (auto simp: unitary_init_def Let_def py_assert_def split: if_split_asm)
  have "list_all2 (\<lambda>m m'. m' = m \<or> (\<exists>b. m' = m\<lparr>mgr_use_eagle := b\<rparr>)) (single_type_managers c) (single_type_managers c')"
  proof -
    obtain ms where "single_type_managers c = m # ms" using i by (cases "single_type_managers c") (auto simp: py_index_def)
    then show ?thesis using c'(3) by (auto simp: list.rel_refl)
  qed
  then show "co_ok (c', X)" by (intro co_ok_eagle [OF assms(2)]) (use c' in auto)
  show "length (single_type_managers c') = length (single_type_managers c)" "co_config c' = co_config c" using c' by simp_all
qed

lemma hybrid_init_ok:
  assumes "hybrid_init c = Inr c'" and "co_ok (c, X)"
  shows "co_ok (c', X)" and "length (single_type_managers c') = length (single_type_managers c)" and "co_config c' = co_config c"
proof -
  from assms(1) obtain b gs i where c': "c' = c\<lparr>enable_partial_hash_hits := b, attention_groups := gs, full_attention_group_id := i,
      single_type_managers := mark_eagle gs (single_type_managers c)\<rparr>"
    unfolding hybrid_init_def verify_and_split_kv_cache_groups_def Let_def by (elim and_thenE) auto
  have "list_all2 (\<lambda>m m'. m' = m \<or> (\<exists>b. m' = m\<lparr>mgr_use_eagle := b\<rparr>)) (single_type_managers c) (single_type_managers c')"
    using c' by (auto simp: list_all2_conv_all_nth mark_eagle_def nth_enumerate_eq)
  then show "co_ok (c', X)" by (intro co_ok_eagle [OF assms(2)]) (use c' in auto)
  show "length (single_type_managers c') = length (single_type_managers c)" "co_config c' = co_config c"
    using c' by (simp_all add: mark_eagle_def)
qed

lemma co_init_ok:
  assumes "get_kv_cache_coordinator reg cfg ml ifl eagle caching events dcp pcp sbs hbs mc la = Inr c"
    and "\<forall>g \<in> set (kv_cache_groups cfg). spec_sizes_ok (group_spec g)"
  shows "co_ok (c, {#})" and "length (single_type_managers c) = length (kv_cache_groups cfg)" and "co_config c = cfg"
proof -
  from assms(1) obtain cls b c0 where b: "coordinator_base_init reg cls cfg ml ifl eagle b events dcp pcp sbs hbs mc la = Inr c0"
    and c: "c = c0 \<or> unitary_init c0 = Inr c \<or> hybrid_init c0 = Inr c"
    unfolding get_kv_cache_coordinator_def Let_def by (auto elim!: and_thenE split: if_split_asm)
  note o = co_base_init_ok [OF b assms(2)]
  show "co_ok (c, {#})" using c o(1) unitary_init_ok(1) hybrid_init_ok(1) by metis
  show "co_config c = cfg" using c o(1,3) unitary_init_ok(3) hybrid_init_ok(3) by metis
  show "length (single_type_managers c) = length (kv_cache_groups cfg)"
    using c o unitary_init_ok(2) hybrid_init_ok(2) by metis
qed

section \<open>Properties\<close>

lemma sink_manager_raises:
  assumes "get_manager_class reg spec = Some SinkFullAttentionManager"
  shows "get_manager_for_kv_cache_spec reg spec ifl ml caching i sbs dcp (Some z) pool = Inl TypeError"
  using assms by (simp add: get_manager_for_kv_cache_spec_def manager_init_def Let_def)

lemma sink_group_fails:
  assumes "\<exists>g \<in> set gs. get_manager_class reg (group_spec g) = Some SinkFullAttentionManager"
  shows "\<exists>e. build_managers reg ifl ml caching sbs dcp z i gs pool = Inl e"
  using assms
proof (induction gs arbitrary: i pool)
  case (Cons g gs)
  show ?case
  proof (cases "get_manager_for_kv_cache_spec reg (group_spec g) ifl ml caching i sbs dcp (Some z) pool")
    case (Inr x)
    then have "get_manager_class reg (group_spec g) \<noteq> Some SinkFullAttentionManager"
      using sink_manager_raises [of reg "group_spec g"] by auto
    then obtain e where "build_managers reg ifl ml caching sbs dcp z (i + 1) gs (snd x) = Inl e" using Cons by fastforce
    then show ?thesis using Inr by (cases x) simp
  qed simp
qed simp

text \<open>
  C18.  No coordinator over a sink-attention group.  With the built-in registry, constructing a coordinator for a
  configuration that has a \<^verbatim>\<open>SinkFullAttentionSpec\<close> group raises an exception, whatever the other arguments are: the constructor
  of \<^verbatim>\<open>SinkFullAttentionManager\<close> does not accept the argument \<^verbatim>\<open>needs_kv_cache_zeroing\<close> that the coordinator passes.
\<close>

theorem sink_group_rejected:
  assumes "g \<in> set (kv_cache_groups cfg)" and "group_spec g = SinkFullAttentionSpec a f n"
  shows "\<exists>e. get_kv_cache_coordinator builtin_registry cfg ml ifl eagle caching events dcp pcp sbs hbs mc la = Inl e"
proof -
  have "get_manager_class builtin_registry (group_spec g) = Some SinkFullAttentionManager"
    using assms(2) by (simp add: get_manager_class_def)
  then have bm: "build_managers builtin_registry ifl ml b sbs dcp (needs_kv_cache_zeroing cfg) 0 (kv_cache_groups cfg) pool \<noteq> Inr x" for b pool x
    using sink_group_fails [of "kv_cache_groups cfg" builtin_registry ifl ml b sbs dcp "needs_kv_cache_zeroing cfg" 0 pool] assms(1)
    by force
  have base: "coordinator_base_init builtin_registry cls cfg ml ifl eagle b events dcp pcp sbs hbs mc la \<noteq> Inr c" for cls b c
  proof
    assume "coordinator_base_init builtin_registry cls cfg ml ifl eagle b events dcp pcp sbs hbs mc la = Inr c"
    then show False
      unfolding coordinator_base_init_def Let_def by (elim and_thenE) (auto elim!: and_thenE simp: bm split: if_split_asm)
  qed
  have "get_kv_cache_coordinator builtin_registry cfg ml ifl eagle caching events dcp pcp sbs hbs mc la \<noteq> Inr c" for c
    using base unfolding get_kv_cache_coordinator_def Let_def by (auto simp: result_simps)
  then show ?thesis by (meson sumE)
qed

theorem sink_group_rejected_witness:
  "\<exists>e. get_kv_cache_coordinator builtin_registry
     \<lparr>num_blocks = 4, kv_cache_tensors = [], kv_cache_groups = [\<lparr>layer_names = [], group_spec = SinkFullAttentionSpec small_attention
        \<lparr>full_sliding_window = None, full_attention_chunk_size = None, non_causal = False\<rparr> (Some 2), is_eagle_group = False\<rparr>],
      prefix_cache_retention_interval = None, kv_cache_layout = None\<rparr> 8 8 False True False 1 1 2 2 None 0 = Inl e"
  by (rule sink_group_rejected) (simp, rule KVCacheGroupSpec.select_convs)

end
