(* ===== verification/Coordinator_Admission.thy ===== *)
theory Coordinator_Admission
  imports Coordinator_Refs
begin

text \<open>
  Admission over all groups.  The coordinator predicts the sum of what its managers predict; when that many blocks are free,
  the three phases of an allocation (touching the cached blocks of all groups, allocating for externally computed tokens,
  allocating for the tokens to compute) succeed for every group.  The loops over the managers share one budget argument, the
  locale \<open>budgeted_loop\<close>.
\<close>

section \<open>Loops with a budget of free blocks\<close>

text \<open>
  A body that succeeds when \<open>cost\<close> blocks are free, takes at most \<open>cost\<close> less what it leaves to be taken later (\<open>left\<close>), and
  keeps blocks in use in use.  The cost of a manager does not grow while the others have their turn.
\<close>

locale budgeted_loop =
  fixes f :: "'x \<Rightarrow> manager \<Rightarrow> block_pool \<Rightarrow> ('b \<times> manager \<times> block_pool) result"
    and pre :: "'x \<Rightarrow> manager \<Rightarrow> block_pool \<Rightarrow> bool"
    and cost :: "'x \<Rightarrow> manager \<Rightarrow> block_pool \<Rightarrow> int"
    and left :: "manager \<Rightarrow> int"
    and post :: "'x \<Rightarrow> manager \<Rightarrow> manager \<Rightarrow> block_pool \<Rightarrow> bool"
  assumes step: "pre x m s \<Longrightarrow> holds_refs (m, s, X) \<Longrightarrow> cost x m s \<le> num_free_blocks s \<Longrightarrow>
      \<exists>b m' s'. f x m s = Inr (b, m', s') \<and> num_free_blocks s - cost x m s \<le> num_free_blocks s' - left m' \<and>
        refs_kept s s' \<and> post x m m' s' \<and> holds_refs (m', s', X) \<and> same_config s s'"
    and kept: "pre x m s \<Longrightarrow> refs_kept s s' \<Longrightarrow> same_config s s' \<Longrightarrow> pool_inv s \<Longrightarrow> mgr_ok s m \<Longrightarrow>
      pre x m s' \<and> cost x m s' \<le> cost x m s"
    and post_kept: "post x m m' s \<Longrightarrow> refs_kept s s' \<Longrightarrow> same_config s s' \<Longrightarrow> mgr_ok s m' \<Longrightarrow> post x m m' s'"
    and cost_nonneg: "pre x m s \<Longrightarrow> 0 \<le> cost x m s"
    and left_nonneg: "0 \<le> left m"
begin

lemma costs_nonneg:
  "\<forall>(x, m) \<in> set (zip xs ms). pre x m s \<Longrightarrow> 0 \<le> (\<Sum>(x, m) \<leftarrow> zip xs ms. cost x m s)"
  by (rule sum_list_nonneg) (auto dest: cost_nonneg)

lemma costs_kept:
  assumes "\<forall>(x, m) \<in> set (zip xs ms). pre x m s \<and> mgr_ok s m" and "refs_kept s s'" "same_config s s'" "pool_inv s"
  shows "(\<Sum>(x, m) \<leftarrow> zip xs ms. cost x m s') \<le> (\<Sum>(x, m) \<leftarrow> zip xs ms. cost x m s)"
  by (rule sum_list_mono) (use assms kept in auto)

lemma loop_succeeds:
  assumes "length ms \<le> length xs" and "\<forall>(x, m) \<in> set (zip xs ms). pre x m s" and "\<forall>m \<in> set ms. mgr_ok s m"
    and "client_inv (s, sum_list (map mgr_refs ms) + X)"
    and "(\<Sum>(x, m) \<leftarrow> zip xs ms. cost x m s) \<le> num_free_blocks s"
  shows "\<exists>bs ms' s'. for_managers f xs ms s = Inr (bs, ms', s') \<and>
    num_free_blocks s - (\<Sum>(x, m) \<leftarrow> zip xs ms. cost x m s) \<le> num_free_blocks s' - sum_list (map left ms') \<and>
    refs_kept s s' \<and> same_config s s' \<and> length ms' = length ms \<and> (\<forall>i < length ms. post (xs ! i) (ms ! i) (ms' ! i) s')"
  using assms
proof (induction ms arbitrary: xs s X)
  case (Cons m ms)
  then obtain x ys where xs: "xs = x # ys" by (cases xs) auto
  let ?Y = "sum_list (map mgr_refs ms) + X"
  let ?c = "\<lambda>s. \<Sum>(x, m) \<leftarrow> zip ys ms. cost x m s"
  have pm: "pre x m s" and pr: "\<forall>(x, m) \<in> set (zip ys ms). pre x m s" using Cons.prems(2) xs by auto
  have h: "holds_refs (m, s, ?Y)" using Cons.prems(3,4) by (simp add: holds_refs_def ac_simps)
  have pi: "pool_inv s" using Cons.prems(4) by (simp add: client_inv_def)
  have budget: "cost x m s + ?c s \<le> num_free_blocks s" using Cons.prems(5) xs by simp
  then have "cost x m s \<le> num_free_blocks s" using costs_nonneg [OF pr] by linarith
  from step [OF pm h this] obtain b m1 s1 where f: "f x m s = Inr (b, m1, s1)"
    and b1: "num_free_blocks s - cost x m s \<le> num_free_blocks s1 - left m1"
    and k1: "refs_kept s s1" "post x m m1 s1" "holds_refs (m1, s1, ?Y)" "same_config s s1" by blast
  have zm: "\<forall>(x, m) \<in> set (zip ys ms). pre x m s \<and> mgr_ok s m" using pr Cons.prems(3) by (auto dest: set_zip_rightD)
  have mono: "?c s1 \<le> ?c s" by (rule costs_kept [OF zm k1(1,4) pi])
  have "\<exists>bs ms' s'. for_managers f ys ms s1 = Inr (bs, ms', s') \<and>
    num_free_blocks s1 - ?c s1 \<le> num_free_blocks s' - sum_list (map left ms') \<and>
    refs_kept s1 s' \<and> same_config s1 s' \<and> length ms' = length ms \<and> (\<forall>i < length ms. post (ys ! i) (ms ! i) (ms' ! i) s')"
  proof (rule Cons.IH [where X = "mgr_refs m1 + X"])
    show "\<forall>(x, m) \<in> set (zip ys ms). pre x m s1" using zm kept k1(1,4) pi by fastforce
    show "\<forall>m \<in> set ms. mgr_ok s1 m" using Cons.prems(3) mgr_ok_frame [OF k1(4)] by simp
    show "client_inv (s1, sum_list (map mgr_refs ms) + (mgr_refs m1 + X))" using k1(3) by (simp add: holds_refs_def ac_simps)
    show "?c s1 \<le> num_free_blocks s1" using b1 budget mono left_nonneg [of m1] by linarith
  qed (use Cons.prems(1) xs in auto)
  then obtain bs ms' s' where r: "for_managers f ys ms s1 = Inr (bs, ms', s')"
    "num_free_blocks s1 - ?c s1 \<le> num_free_blocks s' - sum_list (map left ms')" "refs_kept s1 s'" "same_config s1 s'"
    "length ms' = length ms" "\<forall>i < length ms. post (ys ! i) (ms ! i) (ms' ! i) s'" by blast
  have "post x m m1 s'" by (rule post_kept [OF k1(2) r(3,4)]) (use k1(3) in \<open>simp add: holds_refs_def\<close>)
  then have "\<forall>i < length (m # ms). post (xs ! i) ((m # ms) ! i) ((m1 # ms') ! i) s'"
    using r(6) xs by (auto simp: nth_Cons split: nat.split)
  moreover have "for_managers f xs (m # ms) s = Inr (b # bs, m1 # ms', s')" using f r(1) xs by simp
  ultimately show ?case
    using b1 r(2,5) mono xs refs_kept_trans [OF k1(1) r(3)] same_config_trans [OF k1(4) r(4)]
    by (intro exI [of _ "b # bs"] exI [of _ "m1 # ms'"] exI [of _ s']) simp
qed simp

end

section \<open>The phases\<close>

text \<open>The managers of attention layers: neither Mamba nor cross attention.\<close>

definition plain_mgr :: "manager \<Rightarrow> bool" where
  "plain_mgr m \<longleftrightarrow> mgr_class m \<noteq> MambaManager \<and> mgr_class m \<noteq> CrossAttentionManager"

lemma plain_dispatch:
  assumes "plain_mgr m"
  shows "get_num_blocks_to_allocate rid n bl tot l nm cap m s = and_then (base_get_num_blocks_to_allocate m s rid n bl tot l cap) (\<lambda>k. Inr (k, m))"
    and "add_local_computed_blocks rid bl l e m s = base_add_local_computed_blocks rid bl l e m s"
    and "allocate_external_computed_blocks u rid l e m s = base_allocate_external_computed_blocks u rid l e m s"
    and "allocate_new_blocks u rid n nm m s = base_allocate_new_blocks u rid n m s"
  using assms by (auto simp: plain_mgr_def get_num_blocks_to_allocate_def add_local_computed_blocks_def
      allocate_external_computed_blocks_def allocate_new_blocks_def split: manager_class.split)

lemma plain_grows: "grows m m' \<Longrightarrow> plain_mgr m' = plain_mgr m"
  by (simp add: grows_def plain_mgr_def)

text \<open>A request the manager has not seen.\<close>

definition fresh_in :: "string \<Rightarrow> manager \<Rightarrow> bool" where
  "fresh_in rid m \<longleftrightarrow> req_blocks m rid = [] \<and> dict_get (num_cached_block m) rid = None \<and> dict_get (partial_hit_reqs m) rid = None"

definition new_cost :: "string \<Rightarrow> int \<Rightarrow> int \<Rightarrow> int \<Rightarrow> block_ref list \<Rightarrow> manager \<Rightarrow> block_pool \<Rightarrow> int" where
  "new_cost rid n l e ncb m s = max (cdiv n (mgr_block_size m) - max (skipped_blocks m (l + e)) (int (length ncb))) 0 +
     (if has_partial_local_hit m ncb l then 1 else 0) + get_num_evictable_blocks s (drop (nat (skipped_blocks m (l + e))) ncb)"

lemma new_cost: "fresh_in rid m \<Longrightarrow> base_get_num_blocks_to_allocate m s rid n ncb (l + e) l False = Inr (new_cost rid n l e ncb m s)"
  by (simp add: fresh_in_def new_cost_def predict_new)

lemma new_cost_nonneg: "0 \<le> new_cost rid n l e ncb m s"
  by (simp add: new_cost_def get_num_evictable_blocks_def)

lemma owed_nonneg: "0 \<le> owed m rid n"
  by (simp add: owed_def)

definition touch_pre :: "string \<Rightarrow> int \<Rightarrow> int \<Rightarrow> block_ref list \<Rightarrow> manager \<Rightarrow> block_pool \<Rightarrow> bool" where
  "touch_pre rid l e ncb m s \<longleftrightarrow> plain_mgr m \<and> fresh_in rid m \<and> 0 < mgr_block_size m \<and> hit_ok m s ncb l \<and> 0 \<le> e \<and>
     get_num_skipped_tokens m (l + e) \<le> l + e"

definition ready_pre :: "string \<Rightarrow> int \<Rightarrow> int \<Rightarrow> manager \<Rightarrow> block_pool \<Rightarrow> bool" where
  "ready_pre rid l e m s \<longleftrightarrow> plain_mgr m \<and> 0 < mgr_block_size m \<and> cow_ready m s rid \<and>
     int (length (req_blocks m rid)) \<le> cdiv (l + e) (mgr_block_size m)"

lemma hit_ok_kept:
  assumes "hit_ok m s ncb l" and "refs_kept s s'" "same_config s s'"
  shows "hit_ok m s' ncb l"
proof -
  have "is_null (blk s' (last ncb)) = is_null (blk s (last ncb))" if "ncb \<noteq> []"
  proof -
    have "pool_block s (last ncb)" using assms(1) that by (auto simp: hit_ok_def in_pool_all)
    then show ?thesis using assms(2) by (auto simp: refs_kept_def elim!: pool_blockE)
  qed
  then show ?thesis using assms in_pool_frame [OF assms(3)] by (auto simp: hit_ok_def)
qed

lemma ready_kept:
  assumes "ready_pre rid l e m s" and "refs_kept s s'" and "mgr_ok s m"
  shows "ready_pre rid l e m s'"
  using assms cow_ready_kept [OF _ assms(2) mgr_ok_blocks [OF assms(3)]] by (auto simp: ready_pre_def)

interpretation touch_phase: budgeted_loop
  "\<lambda>bl m s. and_then (add_local_computed_blocks rid bl l e m s) (\<lambda>(m, s). Inr ((), m, s))"
  "touch_pre rid l e" "new_cost rid n l e" "\<lambda>m. owed m rid n" "\<lambda>_ m m' s. ready_pre rid l e m' s \<and> grows m m'"
  for rid l e n
proof unfold_locales
  fix bl m s X assume pre: "touch_pre rid l e bl m s" and h: "holds_refs (m, s, X)"
  have p: "plain_mgr m" "fresh_in rid m" "0 < mgr_block_size m" "hit_ok m s bl l" "0 \<le> e" "get_num_skipped_tokens m (l + e) \<le> l + e"
    using pre by (simp_all add: touch_pre_def)
  from phase1 [OF h p(3) _ _ _ p(4-6) new_cost [OF p(2)], of n] p(2) obtain m' s' where
    l: "base_add_local_computed_blocks rid bl l e m s = Inr (m', s')"
    "num_free_blocks s - new_cost rid n l e bl m s \<le> num_free_blocks s' - owed m' rid n" "refs_kept s s'" "cow_ready m' s' rid"
    "int (length (req_blocks m' rid)) \<le> cdiv (l + e) (mgr_block_size m')" "mgr_block_size m' = mgr_block_size m"
    by (auto simp: fresh_in_def)
  have "in_pool s bl" using p(4) by (simp add: hit_ok_def)
  note o = own_local [OF h this l(1)] and g = grows_local [OF l(1)]
  show "\<exists>b m' s'. and_then (add_local_computed_blocks rid bl l e m s) (\<lambda>(m, s). Inr ((), m, s)) = Inr (b, m', s') \<and>
      num_free_blocks s - new_cost rid n l e bl m s \<le> num_free_blocks s' - owed m' rid n \<and>
      refs_kept s s' \<and> (ready_pre rid l e m' s' \<and> grows m m') \<and> holds_refs (m', s', X) \<and> same_config s s'"
    using l o g p(1,3) plain_grows [OF g] by (auto simp: plain_dispatch ready_pre_def)
next
  fix bl m s s' assume pre: "touch_pre rid l e bl m s" and k: "refs_kept s s'" "same_config s s'" and pi: "pool_inv s"
  have "in_pool s (drop (nat (skipped_blocks m (l + e))) bl)"
    by (rule in_pool_sub [of s bl]) (use pre in \<open>auto simp: touch_pre_def hit_ok_def dest: in_set_dropD\<close>)
  from evictable_kept [OF pi k(1) this] show "touch_pre rid l e bl m s' \<and> new_cost rid n l e bl m s' \<le> new_cost rid n l e bl m s"
    using pre hit_ok_kept [OF _ k] by (auto simp: touch_pre_def new_cost_def)
next
  fix bl m m' s s' assume "ready_pre rid l e m' s \<and> grows m m'" "refs_kept s s'" "mgr_ok s m'"
  then show "ready_pre rid l e m' s' \<and> grows m m'" using ready_kept by blast
qed (rule new_cost_nonneg owed_nonneg)+

interpretation external_phase: budgeted_loop
  "\<lambda>(_ :: unit) m s. and_then (allocate_external_computed_blocks u rid l e m s) (\<lambda>(m, s). Inr ((), m, s))"
  "\<lambda>_ m s. ready_pre rid l e m s \<and> l + e \<le> n" "\<lambda>_ m _. owed m rid n" "\<lambda>m. owed m rid n"
  "\<lambda>_ m m' s. plain_mgr m' \<and> cow_ready m' s rid \<and> grows m m'"
  for u rid l e n
proof unfold_locales
  fix m s X assume pre: "ready_pre rid l e m s \<and> l + e \<le> n" and h: "holds_refs (m, s, X)" and b: "owed m rid n \<le> num_free_blocks s"
  have p: "plain_mgr m" "0 < mgr_block_size m" "cow_ready m s rid" "int (length (req_blocks m rid)) \<le> cdiv (l + e) (mgr_block_size m)" "l + e \<le> n"
    using pre by (simp_all add: ready_pre_def)
  from external_succeeds [OF h p(2-5) b, of u] obtain m' s' where x: "base_allocate_external_computed_blocks u rid l e m s = Inr (m', s')"
    "num_free_blocks s' - owed m' rid n = num_free_blocks s - owed m rid n" "refs_kept s s'" "cow_ready m' s' rid" by blast
  note o = own_external [OF h p(4) x(1)] and g = grows_external [OF x(1)]
  show "\<exists>b m' s'. and_then (allocate_external_computed_blocks u rid l e m s) (\<lambda>(m, s). Inr ((), m, s)) = Inr (b, m', s') \<and>
      num_free_blocks s - owed m rid n \<le> num_free_blocks s' - owed m' rid n \<and> refs_kept s s' \<and>
      (plain_mgr m' \<and> cow_ready m' s' rid \<and> grows m m') \<and> holds_refs (m', s', X) \<and> same_config s s'"
    using x o g p(1) plain_grows [OF g] by (auto simp: plain_dispatch)
next
  fix m s s' assume "ready_pre rid l e m s \<and> l + e \<le> n" "refs_kept s s'" "mgr_ok s m"
  then show "(ready_pre rid l e m s' \<and> l + e \<le> n) \<and> owed m rid n \<le> owed m rid n" using ready_kept by blast
next
  fix m m' s s' assume "plain_mgr m' \<and> cow_ready m' s rid \<and> grows m m'" "refs_kept s s'" "mgr_ok s m'"
  then show "plain_mgr m' \<and> cow_ready m' s' rid \<and> grows m m'" using cow_ready_kept mgr_ok_blocks by blast
qed (rule owed_nonneg)+

text \<open>After the last phase the table covers the tokens and no partial hit is pending.\<close>

definition covers :: "string \<Rightarrow> int \<Rightarrow> manager \<Rightarrow> bool" where
  "covers rid n m \<longleftrightarrow> n \<le> int (length (req_blocks m rid)) * mgr_block_size m \<and> dict_get (partial_hit_reqs m) rid = None"

interpretation alloc_phase: budgeted_loop "allocate_one u rid n nm enc"
  "\<lambda>_ m s. plain_mgr m \<and> cow_ready m s rid \<and> 0 < mgr_block_size m" "\<lambda>_ m _. owed m rid n" "\<lambda>m. 0"
  "\<lambda>_ m m' s. plain_mgr m' \<and> covers rid n m' \<and> grows m m'"
  for u rid n nm enc
proof unfold_locales
  fix x m s X assume p: "plain_mgr m \<and> cow_ready m s rid \<and> 0 < mgr_block_size m" and h: "holds_refs (m, s, X)" and b: "owed m rid n \<le> num_free_blocks s"
  from alloc_succeeds [OF h _ b, of u] p obtain bl m' s' where x: "base_allocate_new_blocks u rid n m s = Inr (bl, m', s')"
    "num_free_blocks s' = num_free_blocks s - owed m rid n" "refs_kept s s'"
    "int (length (req_blocks m' rid)) = max (int (length (req_blocks m rid))) (cdiv n (mgr_block_size m))"
    "dict_get (partial_hit_reqs m') rid = None" by blast
  note o = own_alloc [OF h x(1)] and g = grows_alloc [OF x(1)]
  have bs: "mgr_block_size m' = mgr_block_size m" using g by (simp add: grows_def)
  have "cdiv n (mgr_block_size m') \<le> int (length (req_blocks m' rid))" using x(4) bs by simp
  then have "covers rid n m'" using cdiv_le_iff [of "mgr_block_size m'"] p bs x(5) by (simp add: covers_def)
  then show "\<exists>b m' s'. allocate_one u rid n nm enc x m s = Inr (b, m', s') \<and>
      num_free_blocks s - owed m rid n \<le> num_free_blocks s' - 0 \<and> refs_kept s s' \<and>
      (plain_mgr m' \<and> covers rid n m' \<and> grows m m') \<and> holds_refs (m', s', X) \<and> same_config s s'"
    using x o g p plain_grows [OF g] by (auto simp: allocate_one_def plain_dispatch) (simp add: plain_mgr_def)
next
  fix m s s' assume "plain_mgr m \<and> cow_ready m s rid \<and> 0 < mgr_block_size m" "refs_kept s s'" "mgr_ok s m"
  then show "(plain_mgr m \<and> cow_ready m s' rid \<and> 0 < mgr_block_size m) \<and> owed m rid n \<le> owed m rid n"
    using cow_ready_kept mgr_ok_blocks by blast
qed (simp_all add: owed_nonneg)

section \<open>The prediction\<close>

lemma predict_all:
  assumes "length ms \<le> length xs"
    and "\<forall>(bl, m) \<in> set (zip xs ms). plain_mgr m \<and> base_get_num_blocks_to_allocate m s rid n bl tot l cap = Inr (cost bl m)"
  shows "for_managers (predict_one rid n enc tot l nm cap) xs ms s = Inr (map (\<lambda>(bl, m). cost bl m) (zip xs ms), ms, s)"
  using assms
proof (induction ms arbitrary: xs)
  case (Cons m ms)
  then obtain x ys where xs: "xs = x # ys" by (cases xs) auto
  have p: "plain_mgr m" "base_get_num_blocks_to_allocate m s rid n x tot l cap = Inr (cost x m)" using Cons.prems(2) xs by auto
  then have "predict_one rid n enc tot l nm cap x m s = Inr (cost x m, m, s)"
    by (simp add: predict_one_def plain_dispatch) (simp add: plain_mgr_def)
  moreover have "for_managers (predict_one rid n enc tot l nm cap) ys ms s = Inr (map (\<lambda>(bl, m). cost bl m) (zip ys ms), ms, s)"
    by (rule Cons.IH) (use Cons.prems xs in auto)
  ultimately show ?case using xs by simp
qed simp

lemma co_predict:
  assumes "length (single_type_managers c) \<le> length ncbs"
    and "\<forall>(bl, m) \<in> set (zip ncbs (single_type_managers c)). plain_mgr m \<and>
      base_get_num_blocks_to_allocate m (co_pool c) rid n bl tot l cap = Inr (cost bl m)"
  shows "co_get_num_blocks_to_allocate rid n ncbs enc tot l nm cap c = Inr (\<Sum>(bl, m) \<leftarrow> zip ncbs (single_type_managers c). cost bl m, c)"
  using predict_all [OF assms, of enc nm] by (simp add: co_get_num_blocks_to_allocate_def with_managers_def)

section \<open>The phases over all managers\<close>

lemma co_okD:
  assumes "co_ok (c, X)"
  shows "\<forall>m \<in> set (single_type_managers c). mgr_ok (co_pool c) m" and "\<forall>m \<in> set (single_type_managers c). 0 < mgr_block_size m"
    and "client_inv (co_pool c, sum_list (map mgr_refs (single_type_managers c)) + X)" and "pool_inv (co_pool c)"
  using assms by (auto simp: co_ok_def co_refs_def spec_ok_def client_inv_def)

lemma zip_units: "zip (map (\<lambda>_. ()) ms) ms = map (\<lambda>m. ((), m)) ms"
  by (induction ms) auto

lemma co_alloc_succeeds:
  assumes ok: "co_ok (c, X)" and ms: "\<forall>m \<in> set (single_type_managers c). plain_mgr m \<and> cow_ready m (co_pool c) rid"
    and b: "(\<Sum>m \<leftarrow> single_type_managers c. owed m rid n) \<le> num_free_blocks (co_pool c)"
  shows "\<exists>bls c'. co_allocate_new_blocks u rid n nm enc c = Inr (bls, c') \<and>
    num_free_blocks (co_pool c) - (\<Sum>m \<leftarrow> single_type_managers c. owed m rid n) \<le> num_free_blocks (co_pool c') \<and>
    (\<forall>m \<in> set (single_type_managers c'). plain_mgr m \<and> covers rid n m)"
proof -
  let ?ms = "single_type_managers c"
  have "\<exists>bs ms' s'. for_managers (allocate_one u rid n nm enc) (map (\<lambda>_. ()) ?ms) ?ms (co_pool c) = Inr (bs, ms', s') \<and>
    num_free_blocks (co_pool c) - (\<Sum>(x, m) \<leftarrow> zip (map (\<lambda>_. ()) ?ms) ?ms. owed m rid n) \<le> num_free_blocks s' - sum_list (map (\<lambda>_. 0) ms') \<and>
    refs_kept (co_pool c) s' \<and> same_config (co_pool c) s' \<and> length ms' = length ?ms \<and>
    (\<forall>i < length ?ms. plain_mgr (ms' ! i) \<and> covers rid n (ms' ! i) \<and> grows (?ms ! i) (ms' ! i))"
    by (rule alloc_phase.loop_succeeds [OF _ _ co_okD(1,3) [OF ok]])
      (use ms b co_okD(2) [OF ok] in \<open>auto simp: zip_units comp_def\<close>)
  then show ?thesis
    unfolding co_allocate_new_blocks_def with_managers_def zip_units
    by (fastforce simp: comp_def sum_list_triv in_set_conv_nth)
qed

lemma co_computed_succeeds:
  assumes ok: "co_ok (c, X)" and len: "length (single_type_managers c) \<le> length ncbs"
    and pre: "\<forall>(bl, m) \<in> set (zip ncbs (single_type_managers c)). touch_pre rid l e bl m (co_pool c)" and n: "l + e \<le> n"
    and b: "(\<Sum>(bl, m) \<leftarrow> zip ncbs (single_type_managers c). new_cost rid n l e bl m (co_pool c)) \<le> num_free_blocks (co_pool c)"
  shows "\<exists>c'. co_allocate_new_computed_blocks u rid ncbs l e c = Inr c' \<and>
    num_free_blocks (co_pool c) - (\<Sum>(bl, m) \<leftarrow> zip ncbs (single_type_managers c). new_cost rid n l e bl m (co_pool c)) \<le>
      num_free_blocks (co_pool c') - (\<Sum>m \<leftarrow> single_type_managers c'. owed m rid n) \<and>
    (\<forall>m \<in> set (single_type_managers c'). plain_mgr m \<and> cow_ready m (co_pool c') rid) \<and> co_ok (c', X)"
proof -
  let ?ms = "single_type_managers c" and ?C = "\<Sum>(bl, m) \<leftarrow> zip ncbs (single_type_managers c). new_cost rid n l e bl m (co_pool c)"
  let ?f = "\<lambda>bl m s. and_then (add_local_computed_blocks rid bl l e m s) (\<lambda>(m, s). Inr ((), m, s))"
  have mem: "\<exists>bl. (bl, m) \<in> set (zip ncbs ?ms)" if "m \<in> set ?ms" for m
    using that len by (auto simp: in_set_conv_nth set_zip)
  have "\<not> list_ex (\<lambda>m. dict_get (num_cached_block m) rid \<noteq> None) ?ms"
    using mem pre by (fastforce simp: list_ex_iff touch_pre_def fresh_in_def)
  then have eq: "co_allocate_new_computed_blocks u rid ncbs l e c = and_then (with_managers ?f ncbs c) (\<lambda>(_, c).
      if e > 0 then all_managers (allocate_external_computed_blocks u rid l e) c else Inr c)"
    unfolding co_allocate_new_computed_blocks_def by simp
  from touch_phase.loop_succeeds [OF len pre co_okD(1,3) [OF ok] b] obtain us ms1 s1 where
    l1: "for_managers ?f ncbs ?ms (co_pool c) = Inr (us, ms1, s1)"
    and b1: "num_free_blocks (co_pool c) - ?C \<le> num_free_blocks s1 - (\<Sum>m \<leftarrow> ms1. owed m rid n)" and sc: "same_config (co_pool c) s1"
    and len1: "length ms1 = length ?ms" and r1: "\<forall>i < length ?ms. ready_pre rid l e (ms1 ! i) s1 \<and> grows (?ms ! i) (ms1 ! i)" by blast
  define c1 where "c1 = c\<lparr>single_type_managers := ms1, co_pool := s1\<rparr>"
  have w1: "with_managers ?f ncbs c = Inr (us, c1)" using l1 by (simp add: with_managers_def c1_def)
  have in_s: "in_pool s bl" if "(bl, m) \<in> set (zip ncbs ?ms)" "same_config (co_pool c) s" for bl m s
    using pre that in_pool_frame by (auto simp: touch_pre_def hit_ok_def)
  have ok1: "co_ok (c1, X) \<and> co_frame c c1"
    by (rule with_managers_keeps [OF ok w1]) (auto simp: result_simps intro: ms_local in_s)
  have rd: "\<forall>m \<in> set ms1. ready_pre rid l e m s1" using r1 len1 by (auto simp: in_set_conv_nth)
  show ?thesis
  proof (cases "e > 0")
    case False
    then show ?thesis using eq w1 b1 ok1 rd by (auto simp: c1_def ready_pre_def)
  next
    case True
    let ?g = "\<lambda>(_ :: unit) m s. and_then (allocate_external_computed_blocks u rid l e m s) (\<lambda>(m, s). Inr ((), m, s))"
    have "\<exists>bs ms' s'. for_managers ?g (map (\<lambda>_. ()) ms1) ms1 s1 = Inr (bs, ms', s') \<and>
      num_free_blocks s1 - (\<Sum>(x, m) \<leftarrow> zip (map (\<lambda>_. ()) ms1) ms1. owed m rid n) \<le> num_free_blocks s' - (\<Sum>m \<leftarrow> ms'. owed m rid n) \<and>
      refs_kept s1 s' \<and> same_config s1 s' \<and> length ms' = length ms1 \<and>
      (\<forall>i < length ms1. plain_mgr (ms' ! i) \<and> cow_ready (ms' ! i) s' rid \<and> grows (ms1 ! i) (ms' ! i))"
      by (rule external_phase.loop_succeeds [where X = X])
        (use ok1 rd n b b1 co_okD(1,3) [of c1 X] in \<open>auto simp: zip_units comp_def c1_def\<close>)
    then obtain vs ms2 s2 where l2: "for_managers ?g (map (\<lambda>_. ()) ms1) ms1 s1 = Inr (vs, ms2, s2)"
      "num_free_blocks s1 - (\<Sum>m \<leftarrow> ms1. owed m rid n) \<le> num_free_blocks s2 - (\<Sum>m \<leftarrow> ms2. owed m rid n)" "length ms2 = length ms1"
      "\<forall>i < length ms1. plain_mgr (ms2 ! i) \<and> cow_ready (ms2 ! i) s2 rid" by (auto simp: zip_units comp_def)
    define c2 where "c2 = c1\<lparr>single_type_managers := ms2, co_pool := s2\<rparr>"
    have a2: "all_managers (allocate_external_computed_blocks u rid l e) c1 = Inr c2"
      using l2(1) by (simp add: all_managers_def with_managers_def c1_def c2_def)
    have st: "mgr_step (m, s, Y) (m', s', Y)" if "m \<in> set (single_type_managers c1)" "allocate_external_computed_blocks u rid l e m s = Inr (m', s')" for m s m' s' Y
      using rd that by (intro ms_external) (auto simp: c1_def ready_pre_def)
    have "co_ok (c2, X) \<and> co_frame c1 c2"
      by (rule all_managers_keeps [OF conjunct1 [OF ok1] a2]) (erule (1) st)
    moreover have "\<forall>m \<in> set ms2. plain_mgr m \<and> cow_ready m s2 rid" using l2(3,4) by (auto simp: in_set_conv_nth)
    ultimately show ?thesis using eq w1 a2 True b1 l2(2) by (auto simp: c2_def)
  qed
qed

section \<open>Leaving the window\<close>

text \<open>A loop over managers whose body always succeeds.\<close>

lemma all_managers_succeeds:
  assumes ok: "co_ok (c, X)"
    and step: "\<And>m s Y. m \<in> set (single_type_managers c) \<Longrightarrow> holds_refs (m, s, Y) \<Longrightarrow>
      \<exists>m' s'. f m s = Inr (m', s') \<and> (\<forall>Y. mgr_step (m, s, Y) (m', s', Y)) \<and> R m m'"
  shows "\<exists>c'. all_managers f c = Inr c' \<and> co_ok (c', X) \<and> co_frame c c' \<and>
    c' = c\<lparr>single_type_managers := single_type_managers c', co_pool := co_pool c'\<rparr> \<and>
    list_all2 R (single_type_managers c) (single_type_managers c')"
proof -
  define g where "g = (\<lambda>(_ :: unit) m s. and_then (f m s) (\<lambda>(m, s). Inr ((), m, s)))"
  let ?ms = "single_type_managers c"
  have "\<exists>us ms' s'. for_managers g (map (\<lambda>_. ()) ms) ms s = Inr (us, ms', s') \<and> list_all2 R ms ms' \<and>
      (\<forall>m \<in> set ms'. mgr_ok s' m \<and> spec_ok m) \<and> client_inv (s', sum_list (map mgr_refs ms') + Y) \<and> same_config s s'"
    if "set ms \<subseteq> set ?ms" "\<forall>m \<in> set ms. mgr_ok s m \<and> spec_ok m" "client_inv (s, sum_list (map mgr_refs ms) + Y)" for ms s Y
    using that
  proof (induction ms arbitrary: s Y)
    case (Cons m ms)
    let ?Y = "sum_list (map mgr_refs ms) + Y"
    have h: "holds_refs (m, s, ?Y)" using Cons.prems(2,3) by (simp add: holds_refs_def ac_simps)
    obtain m1 s1 where 1: "f m s = Inr (m1, s1)" "mgr_step (m, s, ?Y) (m1, s1, ?Y)" "R m m1"
      using step [OF _ h] Cons.prems(1) by auto
    from mgr.keeps [OF 1(2)] Cons.prems(2) h have k: "mgr_ok s1 m1 \<and> spec_ok m1" "client_inv (s1, mgr_refs m1 + ?Y)" "same_config s s1"
      by (auto simp: holds_refs_def)
    have "\<exists>us ms' s'. for_managers g (map (\<lambda>_. ()) ms) ms s1 = Inr (us, ms', s') \<and> list_all2 R ms ms' \<and>
        (\<forall>m \<in> set ms'. mgr_ok s' m \<and> spec_ok m) \<and> client_inv (s', sum_list (map mgr_refs ms') + (mgr_refs m1 + Y)) \<and> same_config s1 s'"
      by (rule Cons.IH) (use Cons.prems k mgr_ok_frame [OF k(3)] in \<open>auto simp: ac_simps\<close>)
    then obtain us ms' s' where r: "for_managers g (map (\<lambda>_. ()) ms) ms s1 = Inr (us, ms', s')" "list_all2 R ms ms'"
      "\<forall>m \<in> set ms'. mgr_ok s' m \<and> spec_ok m" "client_inv (s', sum_list (map mgr_refs ms') + (mgr_refs m1 + Y))" "same_config s1 s'" by blast
    have "g () m s = Inr ((), m1, s1)" by (simp add: g_def 1(1))
    then have "for_managers g (map (\<lambda>_. ()) (m # ms)) (m # ms) s = Inr (() # us, m1 # ms', s')" using r(1) by simp
    moreover have "mgr_ok s' m1 \<and> spec_ok m1" using k(1) mgr_ok_frame [OF r(5)] by simp
    ultimately show ?case
      using r 1(3) same_config_trans [OF k(3) r(5)] by (intro exI [of _ "() # us"] exI [of _ "m1 # ms'"] exI [of _ s']) (simp add: ac_simps)
  qed simp
  from this [of ?ms "co_pool c" X] ok obtain us ms' s' where
    l: "for_managers g (map (\<lambda>_. ()) ?ms) ?ms (co_pool c) = Inr (us, ms', s')" "list_all2 R ?ms ms'"
      "\<forall>m \<in> set ms'. mgr_ok s' m \<and> spec_ok m" "client_inv (s', sum_list (map mgr_refs ms') + X)" "same_config (co_pool c) s'"
    by (auto simp: co_ok_def co_refs_def)
  have "all_managers f c = Inr (c\<lparr>single_type_managers := ms', co_pool := s'\<rparr>)"
    using l(1) by (simp add: all_managers_def with_managers_def g_def)
  then show ?thesis using l list_all2_lengthD [OF l(2)] by (auto simp: co_ok_def co_refs_def co_frame_def)
qed

text \<open>Dropping the blocks of a range of positions always succeeds: what is dropped is held.\<close>

lemma null_out_succeeds:
  assumes "\<forall>i \<in> set js. 0 \<le> i \<and> i < int (length bl)"
  shows "\<exists>bl' freed'. null_out nb js bl freed = Inr (bl', freed')"
  using assms
proof (induction js arbitrary: bl freed)
  case (Cons i js)
  then have i: "py_index bl i = Inr (bl ! nat i)" "py_store bl i nb = Inr (bl[nat i := nb])"
    by (simp_all add: py_index_nonneg py_store_def)
  have "\<exists>bl' freed'. null_out nb js (bl[nat i := nb]) (freed @ [bl ! nat i]) = Inr (bl', freed')"
    by (rule Cons.IH) (use Cons.prems in auto)
  then show ?case using i by simp
qed simp

lemma remove_succeeds:
  assumes h: "holds_refs (m, s, X)" and a: "0 \<le> a"
  shows "\<exists>m' s'. remove_blocks_in_range rid a b m s = Inr (m', s')"
proof -
  define k where "k = min b (int (length (req_blocks m rid)))"
  obtain bl fr where n: "null_out (mgr_null_block m) (rev (py_range a k)) (req_blocks m rid) [] = Inr (bl, fr)"
    using null_out_succeeds [of "rev (py_range a k)" "req_blocks m rid" "mgr_null_block m" "[]"] a by (auto simp: k_def)
  note o = own_null_out [OF n]
  then obtain j where j: "refs_of bl + refs_of fr = refs_of (req_blocks m rid) + replicate_mset j 0"
    using holds_refsD(4) [OF h] by auto
  have pool: "in_pool s fr" using o holds_refsD(3,4,6) [OF h] by (auto simp: in_pool_all)
  have "client_inv (s, replicate_mset j 0 + (refs_of (req_blocks m rid) + rest_refs rid m + X))"
    using holds_refsD(5) [OF h] by (simp only: own_nulls)
  then have "client_inv (s, (refs_of bl + rest_refs rid m + X) + refs_of fr)" using j by (metis (no_types, lifting) add.assoc add.commute)
  then obtain s' where "free_blocks fr s = Inr s'" using free_succeeds [OF _ pool] by blast
  then show ?thesis using n unfolding remove_blocks_in_range_def Let_def k_def [symmetric] by auto
qed

text \<open>What dropping keeps of the bookkeeping of requests.\<close>

definition drops :: "manager \<Rightarrow> manager \<Rightarrow> bool" where
  "drops m m' \<longleftrightarrow> grows m m' \<and> (\<forall>rid. length (req_blocks m' rid) = length (req_blocks m rid)) \<and>
     num_cached_block m' = num_cached_block m \<and> partial_hit_reqs m' = partial_hit_reqs m \<and> mgr_caching m' = mgr_caching m \<and>
     (\<forall>n. get_num_skipped_tokens m' n = get_num_skipped_tokens m n)"

lemma drops_refl [simp]: "drops m m"
  by (simp add: drops_def)

lemma drops_trans: "drops a b \<Longrightarrow> drops b c \<Longrightarrow> drops a c"
  by (auto simp: drops_def intro: grows_trans)

lemma drops_put: "length bl = length (req_blocks m rid) \<Longrightarrow> drops m (put_blocks rid bl m)"
  by (simp add: drops_def) (simp add: get_num_skipped_tokens_def put_blocks_def split: manager_class.split)

lemma drops_open: "drops m (open_req rid m)"
  by (auto simp: open_req_def req_blocks_def intro!: drops_put)

lemma drops_remove:
  assumes "remove_blocks_in_range rid a b m s = Inr (m', s')" shows "drops m m'"
proof (cases "m' = m")
  case False
  define js where "js = rev (py_range a (min b (int (length (req_blocks m rid)))))"
  obtain bl freed where n: "null_out (mgr_null_block m) js (req_blocks m rid) [] = Inr (bl, freed)"
    and r: "(if freed \<noteq> [] then and_then (free_blocks freed s) (\<lambda>s. Inr (put_blocks rid bl m, s))
        else Inr (put_blocks rid bl m, s)) = Inr (m', s')"
    using assms False unfolding remove_blocks_in_range_def Let_def js_def [symmetric]
    by (auto elim!: and_thenE2 split: if_split_asm)
  then show ?thesis using own_null_out [OF n] drops_put by (auto simp: result_simps split: if_split_asm)
qed simp

lemma skip_succeeds:
  assumes h: "holds_refs (m, s, X)" and p: "plain_mgr m" and bs: "0 < mgr_block_size m" and np: "case np of None \<Rightarrow> True | Some k \<Rightarrow> 0 \<le> k"
  shows "\<exists>m' s'. remove_skipped_blocks rid n np m s = Inr (m', s') \<and> drops m m'"
proof -
  have base: "\<exists>m' s'. base_remove_skipped_blocks rid n m s = Inr (m', s') \<and> drops m m'"
  proof (cases "get_num_skipped_tokens m n \<le> 0")
    case False
    define k where "k = min (get_num_skipped_tokens m n div mgr_block_size (open_req rid m)) (int (length (req_blocks (open_req rid m) rid)))"
    obtain m' s' where r: "remove_blocks_in_range rid 0 k (open_req rid m) s = Inr (m', s')"
      using remove_succeeds [OF holds_refs_open [OF h, of rid], of 0 rid k] by auto
    have "drops m m'" by (rule drops_trans [OF drops_open drops_remove [OF r]])
    then show ?thesis using r False unfolding base_remove_skipped_blocks_def Let_def k_def by auto
  qed (simp add: base_remove_skipped_blocks_def)
  have rswa: "\<exists>m' s'. rswa_remove_skipped_blocks rid n np m s = Inr (m', s') \<and> drops m m'"
  proof (cases np)
    case (Some k)
    then have "0 \<le> cdiv k (mgr_block_size m)" using np cdiv_nonneg [OF bs] by simp
    from remove_succeeds [OF h this] show ?thesis
      unfolding rswa_remove_skipped_blocks_def Some option.case Let_def using drops_remove by blast
  qed (use base in \<open>simp add: rswa_remove_skipped_blocks_def\<close>)
  show ?thesis using base rswa p by (auto simp: remove_skipped_blocks_def plain_mgr_def split: manager_class.split)
qed

end
