(* ===== verification/Kv_Cache_Manager.thy ===== *)
theory Kv_Cache_Manager
  imports Coordinator_Admission Hybrid_Lookup
begin

text \<open>
  \<^verbatim>\<open>KVCacheManager\<close> (\<^verbatim>\<open>vllm/v1/core/kv_cache_manager.py\<close>), the interface of the scheduler to the KV cache: a coordinator with
  statistics, the free-block watermark and the pins of off-table blocks.  The object \<^verbatim>\<open>self.block_pool\<close> is the pool of the
  coordinator.  A result \<open>None\<close> of an option around a \<open>result\<close> is a call that does not return.
\<close>

section \<open>Blocks handed to the scheduler\<close>

text \<open>\<open>kb_shared\<close> marks the preconstructed empty object, which the code compares by identity.\<close>

record KVCacheBlocks =
  kb_blocks :: "block_ref list list"
  kb_shared :: bool

definition add_blocks :: "KVCacheBlocks \<Rightarrow> KVCacheBlocks \<Rightarrow> KVCacheBlocks" where
  "add_blocks a b = \<lparr>kb_blocks = map2 (\<lambda>blk1 blk2. blk1 @ blk2) (kb_blocks a) (kb_blocks b), kb_shared = False\<rparr>"

definition kb_get_block_ids :: "block_pool \<Rightarrow> bool \<Rightarrow> KVCacheBlocks \<Rightarrow> int list list option" where
  "kb_get_block_ids s allow_none kb =
     (if allow_none \<and> list_all (\<lambda>g. g = []) (kb_blocks kb) then None
      else Some (map (map (bid s)) (kb_blocks kb)))"

definition get_unhashed_block_ids :: "block_pool \<Rightarrow> KVCacheBlocks \<Rightarrow> int list result" where
  "get_unhashed_block_ids s kb =
     and_then (py_assert (length (kb_blocks kb) = 1)) (\<lambda>_.
     and_then (py_index (kb_blocks kb) 0) (\<lambda>g.
     Inr (map (bid s) (filter (\<lambda>b. block_hash (blk s b) = None) g))))"

definition get_unhashed_block_ids_all_groups :: "block_pool \<Rightarrow> KVCacheBlocks \<Rightarrow> int list list" where
  "get_unhashed_block_ids_all_groups s kb =
     map (\<lambda>g. map (bid s) (filter (\<lambda>b. block_hash (blk s b) = None \<and> \<not> is_null (blk s b)) g)) (kb_blocks kb)"

definition new_empty :: "KVCacheBlocks \<Rightarrow> KVCacheBlocks" where
  "new_empty kb = \<lparr>kb_blocks = map (\<lambda>_. []) (kb_blocks kb), kb_shared = False\<rparr>"

section \<open>State\<close>

record PrefixCacheStats =
  st_reset :: bool
  st_requests :: int
  st_queries :: int
  st_hits :: int
  preempted_requests :: int
  preempted_queries :: int
  preempted_hits :: int

definition PrefixCacheStats_init :: PrefixCacheStats where
  "PrefixCacheStats_init = \<lparr>st_reset = False, st_requests = 0, st_queries = 0, st_hits = 0, preempted_requests = 0,
     preempted_queries = 0, preempted_hits = 0\<rparr>"

definition record_stats :: "int \<Rightarrow> int \<Rightarrow> bool \<Rightarrow> PrefixCacheStats \<Rightarrow> PrefixCacheStats" where
  "record_stats n_tokens n_hits preempted st =
     (if preempted
      then st\<lparr>preempted_requests := preempted_requests st + 1, preempted_queries := preempted_queries st + n_tokens,
              preempted_hits := preempted_hits st + n_hits\<rparr>
      else st\<lparr>st_requests := st_requests st + 1, st_queries := st_queries st + n_tokens, st_hits := st_hits st + n_hits\<rparr>)"

record kv_cache_manager =
  max_model_len :: int
  km_caching :: bool
  km_events :: bool
  km_use_eagle :: bool
  km_log_stats :: bool
  prefix_cache_stats :: "PrefixCacheStats option"
  km_coordinator :: coordinator
  num_kv_cache_groups :: nat
  watermark_blocks :: int
  kv_cache_event_metadata :: "(string \<times> int option) list"
  partial_tail_pins :: "(string, block_ref list) dict"

abbreviation km_pool :: "kv_cache_manager \<Rightarrow> block_pool" where
  "km_pool km \<equiv> co_pool (km_coordinator km)"

definition set_km_pool :: "block_pool \<Rightarrow> kv_cache_manager \<Rightarrow> kv_cache_manager" where
  "set_km_pool s km = km\<lparr>km_coordinator := (km_coordinator km)\<lparr>co_pool := s\<rparr>\<rparr>"

fun kind_value :: "KVCacheSpecKind \<Rightarrow> string" where
  "kind_value FULL_ATTENTION = ''full_attention''"
| "kind_value MLA_ATTENTION = ''mla_attention''"
| "kind_value SLIDING_WINDOW = ''sliding_window''"
| "kind_value SLIDING_WINDOW_MLA = ''sliding_window_mla''"
| "kind_value MAMBA = ''mamba''"
| "kind_value CHUNKED_LOCAL_ATTENTION = ''chunked_local_attention''"
| "kind_value SINK_FULL_ATTENTION = ''sink_full_attention''"
| "kind_value ENCODER_ONLY_ATTENTION = ''encoder_only_attention''"
| "kind_value CROSS_ATTENTION = ''cross_attention''"
| "kind_value UNKNOWN = ''unknown''"

text \<open>The watermark is a fraction of the blocks; the product is taken exactly.\<close>

definition KVCacheManager_init ::
    "registry \<Rightarrow> KVCacheConfig \<Rightarrow> int \<Rightarrow> int \<Rightarrow> int \<Rightarrow> int option \<Rightarrow> bool \<Rightarrow> bool \<Rightarrow> int \<Rightarrow> bool \<Rightarrow> bool \<Rightarrow> int \<Rightarrow> int
     \<Rightarrow> KVCacheMetricsCollector option \<Rightarrow> rat \<Rightarrow> kv_cache_manager result" where
  "KVCacheManager_init reg cfg model_len scheduler_block_size hash_bs in_flight caching use_eagle num_prefill_lookahead
       log_stats events dcp pcp metrics watermark =
     (let in_flight = (case in_flight of None \<Rightarrow> model_len | Some k \<Rightarrow> k) in
      and_then (get_kv_cache_coordinator reg cfg model_len in_flight use_eagle caching events dcp pcp scheduler_block_size
         hash_bs metrics num_prefill_lookahead) (\<lambda>c.
      and_then (py_assert (watermark \<ge> 0)) (\<lambda>_.
      Inr \<lparr>max_model_len = model_len, km_caching = caching, km_events = events, km_use_eagle = use_eagle,
           km_log_stats = log_stats, prefix_cache_stats = (if log_stats then Some PrefixCacheStats_init else None),
           km_coordinator = c, num_kv_cache_groups = length (kv_cache_groups cfg),
           watermark_blocks = \<lfloor>watermark * of_int (num_blocks cfg)\<rfloor>,
           kv_cache_event_metadata = map (\<lambda>g. (kind_value (get_kv_cache_spec_kind reg (group_spec g)),
             get_kv_cache_spec_sliding_window (group_spec g))) (kv_cache_groups cfg),
           partial_tail_pins = []\<rparr>)))"

definition empty_kv_cache_blocks :: "kv_cache_manager \<Rightarrow> KVCacheBlocks" where
  "empty_kv_cache_blocks km = \<lparr>kb_blocks = replicate (num_kv_cache_groups km) [], kb_shared = True\<rparr>"

definition create_kv_cache_blocks :: "block_ref list list \<Rightarrow> kv_cache_manager \<Rightarrow> KVCacheBlocks" where
  "create_kv_cache_blocks blocks km =
     (if list_ex (\<lambda>g. g \<noteq> []) blocks then \<lparr>kb_blocks = blocks, kb_shared = False\<rparr> else empty_kv_cache_blocks km)"

section \<open>Statistics\<close>

definition usage :: "kv_cache_manager \<Rightarrow> rat" where
  "usage km = get_usage (km_pool km)"

definition make_prefix_cache_stats :: "kv_cache_manager \<Rightarrow> PrefixCacheStats option \<times> kv_cache_manager" where
  "make_prefix_cache_stats km =
     (if \<not> km_log_stats km then (None, km)
      else (prefix_cache_stats km, km\<lparr>prefix_cache_stats := Some PrefixCacheStats_init\<rparr>))"

definition prefix_cache_lookup_enabled :: "Request \<Rightarrow> kv_cache_manager \<Rightarrow> bool" where
  "prefix_cache_lookup_enabled r km \<longleftrightarrow> km_caching km \<and> \<not> skip_reading_prefix_cache r"

definition record_prefix_cache_stats :: "Request \<Rightarrow> int \<Rightarrow> kv_cache_manager \<Rightarrow> kv_cache_manager result" where
  "record_prefix_cache_stats r n_hits km =
     (if \<not> km_log_stats km \<or> \<not> prefix_cache_lookup_enabled r km then Inr km
      else case prefix_cache_stats km of
             None \<Rightarrow> Inl AssertionError
           | Some st \<Rightarrow> Inr (km\<lparr>prefix_cache_stats := Some (record_stats (num_tokens r) n_hits (num_preemptions r > 0) st)\<rparr>))"

section \<open>Prefix-cache lookup\<close>

text \<open>\<open>report_full\<close> says whether the request's \<^verbatim>\<open>kv_cache_report_mode\<close> is \<^verbatim>\<open>full\<close>.\<close>

definition emit_reused ::
    "(bytes \<Rightarrow> bytes) \<Rightarrow> bool \<Rightarrow> KVCacheConfig \<Rightarrow> block_ref list list \<Rightarrow> Request \<times> block_pool \<Rightarrow> (Request \<times> block_pool) result" where
  "emit_reused sha u cfg computed_blocks =
     for_each (\<lambda>(idx, group_blocks) (r, s).
       if group_blocks = [] then Inr (r, s)
       else and_then (py_index (kv_cache_groups cfg) (int idx)) (\<lambda>g.
            emit_cached_block_events sha u r (int (length group_blocks)) (spec_block_size (group_spec g)) (int idx) s))
       (enumerate 0 computed_blocks)"

definition get_computed_blocks ::
    "(bytes \<Rightarrow> bytes) \<Rightarrow> bool \<Rightarrow> bool \<Rightarrow> Request \<Rightarrow> kv_cache_manager
     \<Rightarrow> ((KVCacheBlocks \<times> int \<times> int) \<times> Request \<times> kv_cache_manager) result option" where
  "get_computed_blocks sha u report_full r km =
     (if \<not> prefix_cache_lookup_enabled r km then Some (Inr ((empty_kv_cache_blocks km, 0, 0), r, km))
      else
        map_option (\<lambda>found. and_then found (\<lambda>(computed_blocks, new_tokens, num_uncached).
          and_then (if new_tokens > 0 \<and> km_events km \<and> report_full
                    then emit_reused sha u (co_config (km_coordinator km)) computed_blocks (r, km_pool km)
                    else Inr (r, km_pool km)) (\<lambda>(r, s).
          Inr ((create_kv_cache_blocks computed_blocks km, new_tokens, if num_uncached \<noteq> 0 then new_tokens + num_uncached else 0),
               r, set_km_pool s km))))
          (co_find_longest_cache_hit (block_hashes r) (num_tokens r - 1) (km_coordinator km)))"

definition get_computed_blocks_for_connector ::
    "(bytes \<Rightarrow> bytes) \<Rightarrow> bool \<Rightarrow> bool \<Rightarrow> Request \<Rightarrow> kv_cache_manager
     \<Rightarrow> ((KVCacheBlocks \<times> int \<times> int \<times> bool) \<times> Request \<times> kv_cache_manager) result option" where
  "get_computed_blocks_for_connector sha u report_full r km =
     (let c = km_coordinator km;
          reconciled = map_option (\<lambda>res. and_then res (\<lambda>((kb, n, b), r, km). Inr ((kb, n, b, False), r, km)))
            (get_computed_blocks sha u report_full r km)
      in
      case full_attention_group_id c of
        None \<Rightarrow> reconciled
      | Some fa_group_id \<Rightarrow>
          if \<not> (has_mamba_layers (co_config c) \<and> co_class c = HybridKVCacheCoordinator) then reconciled
          else if \<not> prefix_cache_lookup_enabled r km then Some (Inr ((empty_kv_cache_blocks km, 0, 0, False), r, km))
          else
            case find_longest_cache_hit_per_group (block_hashes r) (num_tokens r - 1) c of
              Inl e \<Rightarrow> Some (Inl e)
            | Inr (computed, per_group_hits) \<Rightarrow>
                (case py_index per_group_hits fa_group_id of
                   Inl e \<Rightarrow> Some (Inl e)
                 | Inr num_local \<Rightarrow>
                     if list_ex (\<lambda>hit. hit > num_local) per_group_hits then reconciled
                     else Some (Inr ((create_kv_cache_blocks computed km, num_local, 0, Min (set per_group_hits) < num_local), r, km))))"

section \<open>Allocation\<close>

definition allocate_slots ::
    "(bytes \<Rightarrow> bytes) \<Rightarrow> bool \<Rightarrow> Request \<Rightarrow> int \<Rightarrow> int \<Rightarrow> KVCacheBlocks option \<Rightarrow> int \<Rightarrow> int \<Rightarrow> bool \<Rightarrow> int \<Rightarrow> bool \<Rightarrow> int \<Rightarrow> bool
     \<Rightarrow> kv_cache_manager \<Rightarrow> (KVCacheBlocks option \<times> Request \<times> kv_cache_manager) result" where
  "allocate_slots sha u r num_new_tokens num_new_computed_tokens new_computed_blocks num_lookahead_tokens
       num_external_computed_tokens delay_cache_blocks num_encoder_tokens full_sequence_must_fit reserved_blocks
       has_scheduled_reqs km =
     (if num_new_tokens = 0 \<and> num_external_computed_tokens = 0 then Inl ValueError
      else
      let rid = request_id r;
          kb = (case new_computed_blocks of Some kb \<Rightarrow> kb | None \<Rightarrow> empty_kv_cache_blocks km);
          num_local_computed_tokens = num_computed_tokens r + num_new_computed_tokens;
          total_computed_tokens = min (num_local_computed_tokens + num_external_computed_tokens) (max_model_len km);
          watermark = (if has_scheduled_reqs \<and> (status r = WAITING \<or> status r = PREEMPTED) then watermark_blocks km else 0);
          full_num_tokens = min (num_tokens r) (max_model_len km)
      in
      and_then (if full_sequence_must_fit
                then and_then (co_get_num_blocks_to_allocate rid full_num_tokens (kb_blocks kb) num_encoder_tokens
                       total_computed_tokens num_local_computed_tokens full_num_tokens True (km_coordinator km)) (\<lambda>(k, c).
                     Inr (k + watermark \<le> get_num_free_blocks (co_pool c), km\<lparr>km_coordinator := c\<rparr>))
                else Inr (True, km)) (\<lambda>(fits, km).
      if \<not> fits then Inr (None, r, km)
      else
      let num_tokens_main_model = total_computed_tokens + num_new_tokens;
          num_tokens_need_slot = min (num_tokens_main_model + num_lookahead_tokens) (max_model_len km)
      in
      and_then (co_remove_skipped_blocks rid (max 0 (total_computed_tokens - num_in_flight_tokens r))
         (Some (num_prompt_tokens r)) (km_coordinator km)) (\<lambda>c.
      and_then (co_get_num_blocks_to_allocate rid num_tokens_need_slot (kb_blocks kb) num_encoder_tokens
         (num_local_computed_tokens + num_external_computed_tokens) num_local_computed_tokens num_tokens_main_model False c)
         (\<lambda>(num_blocks_to_allocate, c).
      let available_blocks = get_num_free_blocks (co_pool c) - reserved_blocks in
      if num_blocks_to_allocate + watermark > available_blocks then Inr (None, r, km\<lparr>km_coordinator := c\<rparr>)
      else
      and_then (if \<not> kb_shared kb \<or> num_external_computed_tokens > 0
                then co_allocate_new_computed_blocks u rid (kb_blocks kb) num_local_computed_tokens num_external_computed_tokens c
                else Inr c) (\<lambda>c.
      and_then (co_allocate_new_blocks u rid num_tokens_need_slot num_tokens_main_model num_encoder_tokens c) (\<lambda>(new_blocks, c).
      if \<not> km_caching km \<or> delay_cache_blocks
      then Inr (Some (create_kv_cache_blocks new_blocks km), r, km\<lparr>km_coordinator := c\<rparr>)
      else
      and_then (co_cache_blocks sha u r (min (total_computed_tokens + num_new_tokens) (num_tokens r)) c) (\<lambda>(r, c).
      Inr (Some (create_kv_cache_blocks new_blocks km), r, km\<lparr>km_coordinator := c\<rparr>))))))))"

section \<open>Freeing and maintenance\<close>

definition pins_of :: "string \<Rightarrow> kv_cache_manager \<Rightarrow> block_ref list" where
  "pins_of rid km = (case dict_get (partial_tail_pins km) rid of None \<Rightarrow> [] | Some pins \<Rightarrow> pins)"

definition km_free :: "Request \<Rightarrow> kv_cache_manager \<Rightarrow> kv_cache_manager result" where
  "km_free r km =
     (let rid = request_id r; pins = pins_of rid km;
          km = km\<lparr>partial_tail_pins := dict_del rid (partial_tail_pins km)\<rparr>
      in
      and_then (if pins \<noteq> [] then free_blocks pins (km_pool km) else Inr (km_pool km)) (\<lambda>s.
      and_then (co_free rid ((km_coordinator km)\<lparr>co_pool := s\<rparr>)) (\<lambda>c. Inr (km\<lparr>km_coordinator := c\<rparr>))))"

definition km_remove_skipped_blocks :: "string \<Rightarrow> int \<Rightarrow> int option \<Rightarrow> kv_cache_manager \<Rightarrow> kv_cache_manager result" where
  "km_remove_skipped_blocks rid processed_computed_tokens prompt_tokens km =
     and_then (co_remove_skipped_blocks rid processed_computed_tokens prompt_tokens (km_coordinator km)) (\<lambda>c.
     Inr (km\<lparr>km_coordinator := c\<rparr>))"

definition km_pop_blocks_for_free :: "Request \<Rightarrow> kv_cache_manager \<Rightarrow> block_ref list \<times> kv_cache_manager" where
  "km_pop_blocks_for_free r km =
     (let (blocks, c) = co_pop_blocks_for_free (request_id r) (km_coordinator km);
          pins = pins_of (request_id r) km
      in (pins @ blocks, km\<lparr>km_coordinator := c, partial_tail_pins := dict_del (request_id r) (partial_tail_pins km)\<rparr>))"

definition km_evict_blocks :: "bool \<Rightarrow> int list \<Rightarrow> kv_cache_manager \<Rightarrow> kv_cache_manager result" where
  "km_evict_blocks u block_ids km = and_then (evict_blocks u block_ids (km_pool km)) (\<lambda>s. Inr (set_km_pool s km))"

definition km_reset_prefix_cache :: "kv_cache_manager \<Rightarrow> (bool \<times> kv_cache_manager) result" where
  "km_reset_prefix_cache km =
     (let (done, s) = Block_Pool.reset_prefix_cache (km_pool km); km = set_km_pool s km in
      if \<not> done then Inr (False, km)
      else if km_log_stats km
      then (case prefix_cache_stats km of
              None \<Rightarrow> Inl AssertionError
            | Some st \<Rightarrow> Inr (True, km\<lparr>prefix_cache_stats := Some (st\<lparr>st_reset := True\<rparr>)\<rparr>))
      else Inr (True, km))"

definition km_get_num_common_prefix_blocks :: "string \<Rightarrow> kv_cache_manager \<Rightarrow> int list \<times> kv_cache_manager" where
  "km_get_num_common_prefix_blocks rid km =
     (let (ns, c) = co_get_num_common_prefix_blocks rid (km_coordinator km) in (ns, km\<lparr>km_coordinator := c\<rparr>))"

text \<open>The annotation that \<^verbatim>\<open>take_events\<close> writes into a stored event, beside the event.\<close>

definition annotation :: "kv_cache_manager \<Rightarrow> KVCacheEvent \<Rightarrow> (string \<times> int option) option" where
  "annotation km event =
     (case event of
        EvStored e \<Rightarrow>
          if bs_group_idx e < 0 \<or> bs_group_idx e \<ge> int (length (kv_cache_event_metadata km)) then None
          else Some (kv_cache_event_metadata km ! nat (bs_group_idx e))
      | _ \<Rightarrow> None)"

definition km_take_events :: "kv_cache_manager \<Rightarrow> (KVCacheEvent \<times> (string \<times> int option) option) list \<times> kv_cache_manager" where
  "km_take_events km =
     (let (events, s) = Block_Pool.take_events (km_pool km) in (map (\<lambda>e. (e, annotation km e)) events, set_km_pool s km))"

definition km_cache_blocks :: "(bytes \<Rightarrow> bytes) \<Rightarrow> bool \<Rightarrow> Request \<Rightarrow> int \<Rightarrow> kv_cache_manager \<Rightarrow> (Request \<times> kv_cache_manager) result" where
  "km_cache_blocks sha u r computed_tokens km =
     (if km_caching km
      then and_then (co_cache_blocks sha u r computed_tokens (km_coordinator km)) (\<lambda>(r, c). Inr (r, km\<lparr>km_coordinator := c\<rparr>))
      else Inr (r, km))"

definition km_new_step_starts :: "kv_cache_manager \<Rightarrow> kv_cache_manager" where
  "km_new_step_starts km = km\<lparr>km_coordinator := co_new_step_starts (km_coordinator km)\<rparr>"

section \<open>Queries\<close>

definition km_get_blocks :: "string \<Rightarrow> kv_cache_manager \<Rightarrow> KVCacheBlocks" where
  "km_get_blocks rid km = create_kv_cache_blocks (co_get_blocks rid (km_coordinator km)) km"

definition km_get_block_ids :: "string \<Rightarrow> kv_cache_manager \<Rightarrow> int list list" where
  "km_get_block_ids rid km = map (map (bid (km_pool km))) (kb_blocks (km_get_blocks rid km))"

definition get_block_ids_for_computed_tokens :: "string \<Rightarrow> int \<Rightarrow> kv_cache_manager \<Rightarrow> int list list" where
  "get_block_ids_for_computed_tokens rid computed_tokens km =
     map2 (\<lambda>g ids.
        let spec = group_spec g in
        if \<not> isinstance spec cls_AttentionSpec \<or> isinstance spec cls_CrossAttentionSpec \<or> isinstance spec cls_EncoderOnlyAttentionSpec
        then ids
        else take (slice_bound (length ids) (cdiv computed_tokens (spec_block_size spec))) ids)
       (kv_cache_groups (co_config (km_coordinator km))) (km_get_block_ids rid km)"

definition estimate_cached_tokens :: "Request \<Rightarrow> kv_cache_manager \<Rightarrow> int" where
  "estimate_cached_tokens r km =
     (let s = km_pool km;
          cached = fold (\<lambda>(g, bl) cached.
            if isinstance (group_spec g) cls_CrossAttentionSpec \<or> isinstance (group_spec g) cls_EncoderOnlyAttentionSpec then cached
            else
              let k = fold (\<lambda>b k. max k (case block_hash_num_tokens (blk s b) of None \<Rightarrow> 0 | Some n \<Rightarrow> n)) bl 0
              in Some (case cached of None \<Rightarrow> k | Some c \<Rightarrow> min c k))
            (zip (kv_cache_groups (co_config (km_coordinator km))) (kb_blocks (km_get_blocks (request_id r) km))) None
      in case cached of None \<Rightarrow> 0 | Some k \<Rightarrow> k)"

definition truncate_computed_blocks :: "KVCacheBlocks \<Rightarrow> int \<Rightarrow> kv_cache_manager \<Rightarrow> KVCacheBlocks result" where
  "truncate_computed_blocks kb computed_tokens km =
     (let ms = single_type_managers (km_coordinator km); gs = kv_cache_groups (co_config (km_coordinator km)) in
      and_then (for_each (\<lambda>(bl, m, g) truncated.
        and_then (py_mod computed_tokens (mgr_block_size m)) (\<lambda>k.
        and_then (py_assert (k = 0)) (\<lambda>_.
        let n = computed_tokens div mgr_block_size m in
        and_then (if isinstance (group_spec g) cls_MambaSpec then Inr (min n (int (length bl)))
                  else and_then (py_assert (n \<le> int (length bl))) (\<lambda>_. Inr n)) (\<lambda>n.
        Inr (truncated @ [take (slice_bound (length bl) n) bl])))))
        (zip (kb_blocks kb) (zip ms gs)) []) (\<lambda>truncated.
      if length (kb_blocks kb) = length ms \<and> length ms = length gs then Inr (create_kv_cache_blocks truncated km)
      else Inl ValueError))"

section \<open>Hand-over to the worker\<close>

definition km_take_new_block_ids :: "kv_cache_manager \<Rightarrow> int list \<times> kv_cache_manager" where
  "km_take_new_block_ids km =
     (let c = km_coordinator km; taken = map take_new_block_ids (single_type_managers c)
      in (concat (map fst taken), km\<lparr>km_coordinator := c\<lparr>single_type_managers := map snd taken\<rparr>\<rparr>))"

definition get_zeroing_block_ids_in_range :: "string \<Rightarrow> int \<Rightarrow> int \<Rightarrow> kv_cache_manager \<Rightarrow> int list \<times> kv_cache_manager" where
  "get_zeroing_block_ids_in_range rid start_token end_token km =
     (let c = km_coordinator km;
          one = (\<lambda>m. if records_new_block_ids m
                     then let m = open_req rid m in
                          (map (bid (co_pool c)) (py_slice (req_blocks m rid) (start_token div mgr_block_size m)
                             (cdiv end_token (mgr_block_size m))), m)
                     else ([], m));
          found = map one (single_type_managers c)
      in (concat (map fst found), km\<lparr>km_coordinator := c\<lparr>single_type_managers := map snd found\<rparr>\<rparr>))"

definition record_zeroing :: "string \<Rightarrow> int \<Rightarrow> manager \<Rightarrow> block_pool \<Rightarrow> (manager \<times> block_pool) result" where
  "record_zeroing rid start_token m s =
     (if records_new_block_ids m
      then and_then (py_mod start_token (mgr_block_size m)) (\<lambda>k.
           and_then (py_assert (k = 0)) (\<lambda>_.
           let m = open_req rid m in
           Inr (m\<lparr>new_block_ids := new_block_ids m @
                  map (bid s) (py_slice_from (req_blocks m rid) (start_token div mgr_block_size m))\<rparr>, s)))
      else Inr (m, s))"

definition record_blocks_for_zeroing :: "string \<Rightarrow> int \<Rightarrow> kv_cache_manager \<Rightarrow> kv_cache_manager result" where
  "record_blocks_for_zeroing rid start_token km =
     and_then (all_managers (record_zeroing rid start_token) (km_coordinator km)) (\<lambda>c. Inr (km\<lparr>km_coordinator := c\<rparr>))"

definition take_kv_cache_block_copies :: "kv_cache_manager \<Rightarrow> ((int \<times> int) list \<times> block_ref list) \<times> kv_cache_manager" where
  "take_kv_cache_block_copies km =
     (let c = km_coordinator km; taken = map take_pending_cow_copies (single_type_managers c);
          pending_copies = concat (map fst taken)
      in ((map (\<lambda>(src, cow). (bid (co_pool c) src, bid (co_pool c) cow)) pending_copies,
           concat (map (\<lambda>(src, cow). [src, cow]) pending_copies)),
          km\<lparr>km_coordinator := c\<lparr>single_type_managers := map snd taken\<rparr>\<rparr>))"

definition pin_offload ::
    "string \<times> int \<times> block_ref \<times> int \<Rightarrow> (string, (int \<times> int \<times> int) list) dict \<times> (string, block_ref list) dict \<times> block_pool
     \<Rightarrow> ((string, (int \<times> int \<times> int) list) dict \<times> (string, block_ref list) dict \<times> block_pool) result" where
  "pin_offload = (\<lambda>(rid, group_id, b, boundary_tokens) (offloads, pins, s).
     and_then (touch [b] s) (\<lambda>s.
     let pinned = (case dict_get pins rid of None \<Rightarrow> [] | Some p \<Rightarrow> p);
         handed = (case dict_get offloads rid of None \<Rightarrow> [] | Some p \<Rightarrow> p)
     in Inr (dict_set rid (handed @ [(group_id, bid s b, boundary_tokens)]) offloads, dict_set rid (pinned @ [b]) pins, s)))"

definition take_partial_tail_offloads ::
    "kv_cache_manager \<Rightarrow> ((string, (int \<times> int \<times> int) list) dict \<times> kv_cache_manager) result" where
  "take_partial_tail_offloads km =
     (let c = km_coordinator km; taken = map take_pending_partial_tail_offloads (single_type_managers c) in
      and_then (for_each pin_offload (concat (map fst taken)) ([], partial_tail_pins km, co_pool c)) (\<lambda>(offloads, pins, s).
      Inr (offloads, km\<lparr>km_coordinator := c\<lparr>single_type_managers := map snd taken, co_pool := s\<rparr>, partial_tail_pins := pins\<rparr>)))"

end
