(* ===== verification/Kv_Manager_Refs.thy ===== *)
theory Kv_Manager_Refs
  imports Kv_Cache_Manager
begin

text \<open>
  Ownership of blocks over the whole manager.  The references to a block are those of the tables and pending copies of all
  groups, the pins of partial tails, and what was handed out to the scheduler, the worker or a connector.  Every operation of
  \<^verbatim>\<open>KVCacheManager\<close> keeps the reference counts equal to these references; the safety property follows by rule induction over
  the runs of the manager.
\<close>

section \<open>The invariant of the manager\<close>

definition km_refs :: "kv_cache_manager \<Rightarrow> nat multiset" where
  "km_refs km = co_refs (km_coordinator km) + table_refs (partial_tail_pins km)"

definition km_ok :: "kv_cache_manager \<times> nat multiset \<Rightarrow> bool" where
  "km_ok = (\<lambda>(km, X). co_ok (km_coordinator km, table_refs (partial_tail_pins km) + X) \<and> dict_ok (partial_tail_pins km) \<and>
     (\<forall>e \<in> set (partial_tail_pins km). in_pool (km_pool km) (snd e)) \<and>
     num_kv_cache_groups km = length (single_type_managers (km_coordinator km)) \<and> 0 \<le> watermark_blocks km)"

lemma km_okD:
  assumes "km_ok (km, X)"
  shows "co_ok (km_coordinator km, table_refs (partial_tail_pins km) + X)" and "client_inv (km_pool km, km_refs km + X)"
    and "dict_ok (partial_tail_pins km)" and "\<forall>e \<in> set (partial_tail_pins km). in_pool (km_pool km) (snd e)"
    and "num_kv_cache_groups km = length (single_type_managers (km_coordinator km))" and "0 \<le> watermark_blocks km"
  using assms by (simp_all add: km_ok_def co_ok_def km_refs_def ac_simps)

text \<open>A step of the coordinator is a step of the manager.\<close>

lemma km_ok_co:
  assumes "km_ok (km, X)" and "co_ok (c, table_refs (partial_tail_pins km) + X')" and "co_frame (km_coordinator km) c"
  shows "km_ok (km\<lparr>km_coordinator := c\<rparr>, X')"
  using assms in_pool_frame by (fastforce simp: km_ok_def co_frame_def)

text \<open>A change of the pool that keeps its invariant, its configuration and the references of the coordinator.\<close>

lemma co_ok_pool:
  assumes "co_ok (c, X)" and "client_inv (s, co_refs c + X')" and "same_config (co_pool c) s"
  shows "co_ok (c\<lparr>co_pool := s\<rparr>, X') \<and> co_frame c (c\<lparr>co_pool := s\<rparr>)"
  using assms by (auto simp: co_ok_def co_refs_def co_frame_def mgr_ok_frame)

lemma km_ok_pool:
  assumes ok: "km_ok (km, X)" and inv: "client_inv (s, km_refs km + X')" and sc: "same_config (km_pool km) s"
  shows "km_ok (set_km_pool s km, X')"
proof -
  have "client_inv (s, co_refs (km_coordinator km) + (table_refs (partial_tail_pins km) + X'))"
    using inv by (simp add: km_refs_def ac_simps)
  from co_ok_pool [OF km_okD(1) [OF ok] this sc] show ?thesis unfolding set_km_pool_def by (blast intro: km_ok_co [OF ok])
qed

section \<open>Pool operations\<close>

lemma emit_reused_keeps:
  assumes "emit_reused sha u cfg bls (r, s) = Inr (r', s')" and "client_inv (s, H)"
  shows "client_inv (s', H) \<and> same_config s s'"
proof -
  have "client_inv (snd (r', s'), H) \<and> same_config s (snd (r', s'))"
  proof (rule for_each_preserves [where P = "\<lambda>st. client_inv (snd st, H) \<and> same_config s (snd st)", OF assms(1) [unfolded emit_reused_def]])
    show "client_inv (snd (r, s), H) \<and> same_config s (snd (r, s))" using assms(2) by simp
  next
    fix x st st'
    assume st: "client_inv (snd st, H) \<and> same_config s (snd st)"
      and f: "(\<lambda>(idx, bl) (r, s). if bl = [] then Inr (r, s) else and_then (py_index (kv_cache_groups cfg) (int idx)) (\<lambda>g.
        emit_cached_block_events sha u r (int (length bl)) (spec_block_size (group_spec g)) (int idx) s)) x st = Inr st'"
    obtain idx bl where x: "x = (idx, bl)" by fastforce
    obtain r0 s0 r1 s1 where r0: "st = (r0, s0)" "st' = (r1, s1)" by fastforce
    have "st' = st \<or> (\<exists>n bs g. emit_cached_block_events sha u r0 n bs g s0 = Inr (r1, s1))"
      using f unfolding x r0 by (auto elim!: and_thenE split: if_split_asm)
    then show "client_inv (snd st', H) \<and> same_config s (snd st')"
      using st pool_step_inv [OF step_emit] emit_cached_block_events_frame(1) same_config_trans unfolding r0 by (fastforce dest: same_hashes_config)
  qed
  then show ?thesis by simp
qed

lemma km_lookup_keeps:
  assumes ok: "km_ok (km, X)" and eq: "get_computed_blocks sha u full r km = Some (Inr (res, r', km'))"
  shows "km_ok (km', X)"
proof -
  have "km' = km \<or> (\<exists>cfg bls r1 s. emit_reused sha u cfg bls (r, km_pool km) = Inr (r1, s) \<and> km' = set_km_pool s km)"
    using eq by (auto simp: get_computed_blocks_def set_km_pool_def result_simps split: if_split_asm)
  then show ?thesis using ok emit_reused_keeps km_ok_pool [OF ok] km_okD(2) [OF ok] by blast
qed

lemma km_connector_keeps:
  assumes ok: "km_ok (km, X)" and eq: "get_computed_blocks_for_connector sha u full r km = Some (Inr (res, r', km'))"
  shows "km_ok (km', X)"
proof -
  have "km' = km \<or> (\<exists>res. get_computed_blocks sha u full r km = Some (Inr (res, r', km')))"
    using eq unfolding get_computed_blocks_for_connector_def Let_def
    by (auto simp: result_simps split: if_split_asm option.split_asm sum.split_asm)
  then show ?thesis using ok km_lookup_keeps by blast
qed

lemma km_evict_keeps:
  assumes ok: "km_ok (km, X)" and ids: "set ids \<subseteq> int ` {i. int i < num_gpu_blocks (km_pool km)}"
    and eq: "km_evict_blocks u ids km = Inr km'"
  shows "km_ok (km', X)"
proof -
  from eq obtain s where e: "evict_blocks u ids (km_pool km) = Inr s" and km': "km' = set_km_pool s km"
    by (auto simp: km_evict_blocks_def result_simps)
  have inv: "client_inv (s, km_refs km + X)" by (rule pool_step_inv [OF step_evict [OF ids e] km_okD(2) [OF ok]])
  have "hash_inv (km_pool km)" using km_okD(2) [OF ok] by (simp add: client_inv_def pool_inv_def)
  from evict_blocks_correct [OF this ids, of u] e have "same_config (km_pool km) s" by (auto simp: same_refs_def same_links_def)
  with inv show ?thesis unfolding km' by (rule km_ok_pool [OF ok])
qed

lemma km_reset_keeps:
  assumes ok: "km_ok (km, X)" and eq: "km_reset_prefix_cache km = Inr (b, km')"
  shows "km_ok (km', X)"
proof -
  obtain ok' s where r: "Block_Pool.reset_prefix_cache (km_pool km) = (ok', s)" by fastforce
  have inv: "client_inv (s, km_refs km + X)" by (rule pool_step_inv [OF step_reset [OF r] km_okD(2) [OF ok]])
  have "pool_inv (km_pool km)" using km_okD(2) [OF ok] by (simp add: client_inv_def)
  from reset_prefix_cache_correct(3) [OF this r] have "same_config (km_pool km) s" by (simp add: same_refs_def same_links_def)
  with inv have "km_ok (set_km_pool s km, X)" by (rule km_ok_pool [OF ok])
  moreover have "km' = set_km_pool s km \<or> (\<exists>st. km' = (set_km_pool s km)\<lparr>prefix_cache_stats := st\<rparr>)"
    using eq r by (cases "prefix_cache_stats (set_km_pool s km)") (auto simp: km_reset_prefix_cache_def Let_def split: if_split_asm)
  ultimately show ?thesis by (elim disjE exE) (simp_all add: km_ok_def)
qed

lemma km_events_keeps:
  assumes ok: "km_ok (km, X)" and eq: "km_take_events km = (evs, km')"
  shows "km_ok (km', X)"
proof -
  obtain es s where t: "Block_Pool.take_events (km_pool km) = (es, s)" by fastforce
  have "client_inv (s, km_refs km + X)" by (rule pool_step_inv [OF step_events [OF t] km_okD(2) [OF ok]])
  moreover have "same_config (km_pool km) s" using take_events_frame [OF t] by (simp add: same_hashes_config)
  ultimately have "km_ok (set_km_pool s km, X)" by (rule km_ok_pool [OF ok])
  then show ?thesis using eq t by (simp add: km_take_events_def)
qed

section \<open>Operations of the coordinator\<close>

lemma km_skip_keeps: "km_ok (km, X) \<Longrightarrow> km_remove_skipped_blocks rid n np km = Inr km' \<Longrightarrow> km_ok (km', X)"
  by (auto simp: km_remove_skipped_blocks_def result_simps dest: co_skip_keeps [OF km_okD(1)] intro: km_ok_co)

lemma km_cache_keeps: "km_ok (km, X) \<Longrightarrow> km_cache_blocks sha u r n km = Inr (r', km') \<Longrightarrow> km_ok (km', X)"
  by (auto simp: km_cache_blocks_def result_simps dest: co_cache_keeps [OF km_okD(1)] intro: km_ok_co split: if_split_asm)

lemma km_common_keeps: "km_ok (km, X) \<Longrightarrow> km_get_num_common_prefix_blocks rid km = (ns, km') \<Longrightarrow> km_ok (km', X)"
  by (auto simp: km_get_num_common_prefix_blocks_def dest: co_common_keeps [OF km_okD(1)] intro: km_ok_co split: prod.split_asm)

lemma km_start_keeps: "km_ok (km, X) \<Longrightarrow> km_ok (km_new_step_starts km, X)"
  using co_start_keeps [OF km_okD(1)] by (auto simp: km_new_step_starts_def intro: km_ok_co)

text \<open>Operations that visit the managers one after the other and touch no block.\<close>

lemma km_map_keeps:
  assumes ok: "km_ok (km, X)"
    and step: "\<And>m Y. m \<in> set (single_type_managers (km_coordinator km)) \<Longrightarrow> mgr_step (m, km_pool km, Y) (f m, km_pool km, Y + out m)"
    and km': "km' = km\<lparr>km_coordinator := (km_coordinator km)\<lparr>single_type_managers := map f (single_type_managers (km_coordinator km))\<rparr>\<rparr>"
  shows "km_ok (km', X + sum_list (map out (single_type_managers (km_coordinator km))))"
  unfolding km' by (rule km_ok_co [OF ok]) (use co_map_keeps [OF km_okD(1) [OF ok] step] in \<open>auto simp: co_frame_def ac_simps\<close>)

lemma sum_list_nothing: "sum_list (map (\<lambda>_. {#}) ms) = {#}"
  by (induction ms) auto

lemma km_ids_keeps:
  assumes ok: "km_ok (km, X)" and eq: "km_take_new_block_ids km = (ids, km')"
  shows "km_ok (km', X)"
proof -
  have "km_ok (km', X + sum_list (map (\<lambda>_. {#}) (single_type_managers (km_coordinator km))))"
    by (rule km_map_keeps [OF ok, where f = "\<lambda>m. snd (take_new_block_ids m)"])
      (use eq in \<open>auto simp: km_take_new_block_ids_def Let_def comp_def intro: ms_ids surjective_pairing\<close>)
  then show ?thesis by (simp add: sum_list_nothing)
qed

lemma mgr_stutter: "mgr_step (m, s, X) (m, s, X)"
  by (rule ms_pool) (use step_touch [of "[]" s s "mgr_refs m + X"] in \<open>simp_all add: touch_def\<close>)

lemma mgr_read: "mgr_step (m, s, X) (open_req rid m, s, X)"
  using ms_read [of m s X "new_block_ids (open_req rid m)" rid] by simp

lemma km_range_keeps:
  assumes ok: "km_ok (km, X)" and eq: "get_zeroing_block_ids_in_range rid a b km = (ids, km')"
  shows "km_ok (km', X)"
proof -
  define f where "f = (\<lambda>m. if records_new_block_ids m then open_req rid m else m)"
  have "km_ok (km', X + sum_list (map (\<lambda>_. {#}) (single_type_managers (km_coordinator km))))"
    by (rule km_map_keeps [OF ok, where f = f])
      (use eq in \<open>auto simp: get_zeroing_block_ids_in_range_def Let_def comp_def f_def if_distrib mgr_read mgr_stutter\<close>)
  then show ?thesis by (simp add: sum_list_nothing)
qed

lemma km_zeroing_keeps:
  assumes ok: "km_ok (km, X)" and eq: "record_blocks_for_zeroing rid n km = Inr km'"
  shows "km_ok (km', X)"
proof -
  from eq obtain c where a: "all_managers (record_zeroing rid n) (km_coordinator km) = Inr c" and km': "km' = km\<lparr>km_coordinator := c\<rparr>"
    by (auto simp: record_blocks_for_zeroing_def result_simps)
  have "mgr_step (m, s, Y) (m', s', Y)" if "record_zeroing rid n m s = Inr (m', s')" for m s m' s' Y
    using that by (auto simp: record_zeroing_def Let_def mgr_stutter result_simps intro: ms_read split: if_split_asm)
  then have "co_ok (c, table_refs (partial_tail_pins km) + X) \<and> co_frame (km_coordinator km) c"
    by (intro all_managers_keeps [OF km_okD(1) [OF ok] a])
  then show ?thesis unfolding km' by (blast intro: km_ok_co [OF ok])
qed

section \<open>References handed out and back\<close>

lemma km_copies_keeps:
  assumes ok: "km_ok (km, X)" and eq: "take_kv_cache_block_copies km = ((cs, retained), km')"
  shows "km_ok (km', X + refs_of retained)"
proof -
  let ?ms = "single_type_managers (km_coordinator km)"
  have "pair_refs ps = refs_of (concat (map (\<lambda>(a, b). [a, b]) ps))" for ps
    by (induction ps) (auto simp: pair_refs_def)
  then have "refs_of retained = pair_refs (concat (map (\<lambda>m. fst (take_pending_cow_copies m)) ?ms))"
    using eq by (auto simp: take_kv_cache_block_copies_def Let_def comp_def)
  moreover have "pair_refs (concat pss) = sum_list (map pair_refs pss)" for pss by (induction pss) auto
  ultimately have r: "refs_of retained = sum_list (map (\<lambda>m. pair_refs (fst (take_pending_cow_copies m))) ?ms)" by (simp add: comp_def)
  show ?thesis unfolding r
    by (rule km_map_keeps [OF ok, where f = "\<lambda>m. snd (take_pending_cow_copies m)"])
      (use eq in \<open>auto simp: take_kv_cache_block_copies_def Let_def comp_def intro: ms_copies surjective_pairing\<close>)
qed

lemma pins_refs:
  assumes "dict_ok (partial_tail_pins km)"
  shows "table_refs (partial_tail_pins km) = refs_of (pins_of rid km) + table_refs (dict_del rid (partial_tail_pins km))"
  using table_refs_get [OF assms, of rid] by (simp add: pins_of_def)

lemma pins_in_pool: "km_ok (km, X) \<Longrightarrow> in_pool (km_pool km) (pins_of rid km)"
  by (auto simp: km_ok_def pins_of_def dest!: map_of_SomeD split: option.split)

lemma km_ok_unpin:
  assumes ok: "km_ok (km, X)"
  shows "km_ok (km\<lparr>partial_tail_pins := dict_del rid (partial_tail_pins km)\<rparr>, X + refs_of (pins_of rid km))"
  using km_okD(1,3-6) [OF ok] pins_refs [OF km_okD(3) [OF ok], of rid] dict_del_subset [of rid "partial_tail_pins km"]
  by (auto simp: km_ok_def dict_ok_del ac_simps)

lemma km_pop_keeps:
  assumes ok: "km_ok (km, X)" and eq: "km_pop_blocks_for_free r km = (bl, km')"
  shows "km_ok (km', X + refs_of bl)"
proof -
  let ?km = "km\<lparr>partial_tail_pins := dict_del (request_id r) (partial_tail_pins km)\<rparr>"
  note u = km_ok_unpin [OF ok, of "request_id r"]
  obtain cl c where p: "co_pop_blocks_for_free (request_id r) (km_coordinator km) = (cl, c)" by fastforce
  from co_pop_keeps [OF km_okD(1) [OF u], of "request_id r"] p
  have "co_ok (c, table_refs (partial_tail_pins ?km) + (X + refs_of (pins_of (request_id r) km) + refs_of cl))" "co_frame (km_coordinator ?km) c"
    by (simp_all add: ac_simps)
  from km_ok_co [OF u this] have "km_ok (?km\<lparr>km_coordinator := c\<rparr>, X + refs_of bl)"
    using eq p by (auto simp: km_pop_blocks_for_free_def Let_def ac_simps)
  moreover have "km' = ?km\<lparr>km_coordinator := c\<rparr>" using eq p by (auto simp: km_pop_blocks_for_free_def Let_def)
  ultimately show ?thesis by simp
qed

lemma km_free_keeps:
  assumes ok: "km_ok (km, X)" and eq: "km_free r km = Inr km'"
  shows "km_ok (km', X)"
proof -
  let ?rid = "request_id r"
  let ?km = "km\<lparr>partial_tail_pins := dict_del ?rid (partial_tail_pins km)\<rparr>"
  note u = km_ok_unpin [OF ok, of ?rid]
  from eq obtain s c where f: "(if pins_of ?rid km \<noteq> [] then free_blocks (pins_of ?rid km) (km_pool km) else Inr (km_pool km)) = Inr s"
    and c: "co_free ?rid ((km_coordinator km)\<lparr>co_pool := s\<rparr>) = Inr c" and km': "km' = ?km\<lparr>km_coordinator := c\<rparr>"
    by (auto simp: km_free_def Let_def elim!: and_thenE cong: if_cong)
  have "client_inv (s, km_refs ?km + X) \<and> same_config (km_pool km) s"
  proof (cases "pins_of ?rid km = []")
    case True
    then show ?thesis using f km_okD(2) [OF u] by simp
  next
    case False
    have "client_inv (km_pool km, (km_refs ?km + X) + refs_of (pins_of ?rid km))" using km_okD(2) [OF u] by (simp add: ac_simps)
    from own_free [OF this pins_in_pool [OF ok]] f False show ?thesis by simp
  qed
  then have s: "km_ok (set_km_pool s ?km, X)" by (intro km_ok_pool [OF u]) simp_all
  have "co_ok (c, table_refs (partial_tail_pins ?km) + X) \<and> co_frame (km_coordinator (set_km_pool s ?km)) c"
    by (rule co_free_keeps [where rid = ?rid]) (use km_okD(1) [OF s] c in \<open>simp_all add: set_km_pool_def\<close>)
  then have "km_ok ((set_km_pool s ?km)\<lparr>km_coordinator := c\<rparr>, X)" by (intro km_ok_co [OF s]) (simp_all add: set_km_pool_def)
  then show ?thesis using km' by (simp add: set_km_pool_def)
qed

lemma pin_offload_keeps:
  assumes inv: "client_inv (s, H + table_refs pins)" and b: "pool_block s b" and d: "dict_ok pins"
    and p: "\<forall>e \<in> set pins. in_pool s (snd e)" and eq: "pin_offload (rid, g, b, n) (offs, pins, s) = Inr (offs', pins', s')"
  shows "client_inv (s', H + table_refs pins')" and "same_config s s'" and "dict_ok pins'" and "\<forall>e \<in> set pins'. in_pool s' (snd e)"
proof -
  define old where "old = (case dict_get pins rid of None \<Rightarrow> [] | Some p \<Rightarrow> p)"
  from eq have t: "touch [b] s = Inr s'" and pins': "pins' = dict_set rid (old @ [b]) pins"
    by (auto simp: pin_offload_def Let_def old_def result_simps)
  have pb: "in_pool s [b]" using b by simp
  have refs: "table_refs pins' = table_refs pins + refs_of [b]"
    using table_refs_set [OF d, of rid "old @ [b]"] table_refs_get [OF d, of rid] by (simp add: pins' old_def ac_simps)
  note o = own_touch [OF inv pb t]
  show "client_inv (s', H + table_refs pins')" using o(1) by (simp add: refs ac_simps)
  show sc: "same_config s s'" by (rule o(2))
  show "dict_ok pins'" using d by (simp add: pins' dict_ok_set)
  have "in_pool s old" using p by (auto simp: old_def dest!: map_of_SomeD split: option.split)
  then show "\<forall>e \<in> set pins'. in_pool s' (snd e)"
    using p b dict_set_subset [of rid "old @ [b]" pins] by (auto simp: pins' in_pool_frame [OF sc] pool_block_frame [OF sc])
qed

lemma km_offloads_keeps:
  assumes ok: "km_ok (km, X)" and eq: "take_partial_tail_offloads km = Inr (offs, km')"
  shows "km_ok (km', X)"
proof -
  let ?c = "km_coordinator km"
  let ?ms = "single_type_managers ?c"
  define c1 where "c1 = ?c\<lparr>single_type_managers := map (\<lambda>m. snd (take_pending_partial_tail_offloads m)) ?ms\<rparr>"
  define os where "os = concat (map (\<lambda>m. fst (take_pending_partial_tail_offloads m)) ?ms)"
  from eq obtain pins s where l: "for_each pin_offload os ([], partial_tail_pins km, co_pool ?c) = Inr (offs, pins, s)"
    and km': "km' = km\<lparr>km_coordinator := c1\<lparr>co_pool := s\<rparr>, partial_tail_pins := pins\<rparr>"
    by (auto simp: take_partial_tail_offloads_def Let_def os_def c1_def comp_def elim!: and_thenE)
  have k1: "km_ok (km\<lparr>km_coordinator := c1\<rparr>, X + sum_list (map (\<lambda>_. {#}) ?ms))"
    by (rule km_map_keeps [OF ok]) (auto simp: c1_def intro: ms_offloads surjective_pairing)
  have os: "\<forall>(rid, g, b, n) \<in> set os. pool_block (co_pool ?c) b"
    using km_okD(1) [OF ok] by (auto simp: os_def take_pending_partial_tail_offloads_def co_ok_def mgr_ok_def)
  let ?P = "\<lambda>(offs, pins, s). client_inv (s, co_refs c1 + X + table_refs pins) \<and> same_config (co_pool ?c) s \<and> dict_ok pins \<and>
    (\<forall>e \<in> set pins. in_pool s (snd e))"
  have "?P (offs, pins, s)"
  proof (rule for_each_preserves [OF l])
    show "?P ([], partial_tail_pins km, co_pool ?c)"
      using km_okD [OF k1] by (simp add: km_refs_def c1_def sum_list_nothing ac_simps)
    fix x st st' assume x: "x \<in> set os" and P: "?P st" and f: "pin_offload x st = Inr st'"
    obtain rid g b n offs pins s offs' pins' s' where d: "x = (rid, g, b, n)" "st = (offs, pins, s)" "st' = (offs', pins', s')"
      by (metis prod_cases3 prod_cases4)
    have "pool_block s b" using os x P d by (auto simp: pool_block_frame)
    with P f d show "?P st'" using pin_offload_keeps [of s "co_refs c1 + X" pins b rid g n offs offs' pins' s'] same_config_trans by auto
  qed
  then have P: "client_inv (s, co_refs c1 + (table_refs pins + X))" "same_config (co_pool c1) s" "dict_ok pins" "\<forall>e \<in> set pins. in_pool s (snd e)"
    by (simp_all add: ac_simps c1_def)
  have "co_ok (c1\<lparr>co_pool := s\<rparr>, table_refs pins + X)"
    using co_ok_pool [OF km_okD(1) [OF k1], of s] P(1,2) by simp
  then show ?thesis using P(3,4) km_okD(5,6) [OF ok] by (simp add: km_ok_def km' c1_def)
qed

section \<open>Allocation\<close>

text \<open>Predicting and leaving the window change neither the block size nor the window of a manager.\<close>

definition same_shape :: "manager \<Rightarrow> manager \<Rightarrow> bool" where
  "same_shape m m' \<longleftrightarrow> mgr_block_size m' = mgr_block_size m \<and> (\<forall>n. get_num_skipped_tokens m' n = get_num_skipped_tokens m n)"

lemma same_shape_refl [simp]: "same_shape m m"
  by (simp add: same_shape_def)

lemma same_shape_trans: "same_shape a b \<Longrightarrow> same_shape b c \<Longrightarrow> same_shape a c"
  by (simp add: same_shape_def)

lemma drops_shape: "drops m m' \<Longrightarrow> same_shape m m'"
  by (simp add: drops_def grows_def same_shape_def)

lemma shape_put: "same_shape m (put_blocks rid bl m)"
  by (simp add: same_shape_def) (simp add: get_num_skipped_tokens_def put_blocks_def split: manager_class.split)

lemma shape_open: "same_shape m (open_req rid m)"
  by (rule drops_shape [OF drops_open])

lemma shape_checkpoint: "same_shape m (m\<lparr>num_checkpoint_blocks := d\<rparr>)"
  by (simp add: same_shape_def get_num_skipped_tokens_def split: manager_class.split)

lemma shape_admit:
  assumes "get_num_blocks_to_allocate rid n ncb tot l nm cap m s = Inr (k, m')" shows "same_shape m m'"
proof (cases "\<exists>f c. align_get_num_blocks_to_allocate f rid nm ncb tot l c m s = Inr (k, m')")
  case True
  then obtain f c where "align_get_num_blocks_to_allocate f rid nm ncb tot l c m s = Inr (k, m')" by blast
  from align_admit [OF this] show ?thesis by (auto intro: shape_open same_shape_trans [OF shape_open shape_checkpoint])
next
  case False
  then have "m' = m"
    using assms by (auto simp: get_num_blocks_to_allocate_def mamba_get_num_blocks_to_allocate_def Let_def result_simps
        split: manager_class.splits KVCacheSpec.splits if_split_asm)
  then show ?thesis by simp
qed

lemma shape_skip:
  assumes "remove_skipped_blocks rid n np m s = Inr (m', s')" shows "same_shape m m'"
proof -
  have base: "same_shape m m'" if "base_remove_skipped_blocks rid n m s = Inr (m', s')" for m m' s s'
    using that unfolding base_remove_skipped_blocks_def Let_def
    by (auto intro!: drops_shape intro: drops_trans [OF drops_open] dest!: drops_remove split: if_split_asm)
  have rswa: "same_shape m m'" if "rswa_remove_skipped_blocks rid n np m s = Inr (m', s')"
    using that base unfolding rswa_remove_skipped_blocks_def Let_def by (cases np) (auto intro!: drops_shape dest!: drops_remove)
  have mamba: "same_shape m m'" if eq: "mamba_remove_skipped_blocks rid n m s = Inr (m', s')"
  proof -
    from eq obtain m1 s1 where b: "base_remove_skipped_blocks rid n m s = Inr (m1, s1)"
      and r: "m' = m1 \<or> m' = open_req rid m1 \<or> (\<exists>bl. m' = put_blocks rid bl (open_req rid m1))"
      by (auto simp: mamba_remove_skipped_blocks_def Let_def result_simps split: if_splits option.splits)
    have "same_shape m1 m'" using r shape_open shape_put same_shape_trans same_shape_refl by metis
    with base [OF b] show ?thesis by (rule same_shape_trans)
  qed
  show ?thesis using assms base rswa mamba by (auto simp: remove_skipped_blocks_def split: manager_class.split_asm)
qed

lemma hits_fit_shape:
  assumes fit: "hits_fit c ncbs l e" and sh: "list_all2 same_shape (single_type_managers c) (single_type_managers c')"
    and sc: "same_config (co_pool c) (co_pool c')"
  shows "hits_fit c' ncbs l e"
proof -
  have "in_pool (co_pool c') (ncbs ! i) \<and> int (length (ncbs ! i)) \<le> cdiv (l + e) (mgr_block_size (single_type_managers c' ! i)) \<and>
      get_num_skipped_tokens (single_type_managers c' ! i) (l + e) \<le> l + e"
    if "i < length ncbs" "i < length (single_type_managers c')" for i
  proof -
    have i: "i < length (single_type_managers c)" and s: "same_shape (single_type_managers c ! i) (single_type_managers c' ! i)"
      using sh that by (auto simp: list_all2_conv_all_nth)
    have "(ncbs ! i, single_type_managers c ! i) \<in> set (zip ncbs (single_type_managers c))" using that i by (auto simp: set_zip)
    then show ?thesis using fit s in_pool_frame [OF sc] by (auto simp: hits_fit_def same_shape_def)
  qed
  then show ?thesis using fit by (auto simp: hits_fit_def set_zip)
qed

lemma co_predict_shape:
  assumes "co_get_num_blocks_to_allocate rid n ncbs enc tot l nm cap c = Inr (k, c')"
  shows "list_all2 same_shape (single_type_managers c) (single_type_managers c')"
proof -
  from assms obtain ns s where "for_managers (predict_one rid n enc tot l nm cap) ncbs (single_type_managers c) (co_pool c) = Inr (ns, single_type_managers c', s)"
    by (auto simp: co_get_num_blocks_to_allocate_def with_managers_def result_simps)
  moreover have "same_shape m m'" if "predict_one rid n enc tot l nm cap x m s = Inr (b, m', s')" for x m s b m' s'
    using that by (auto simp: predict_one_def result_simps dest: shape_admit split: if_split_asm)
  ultimately show ?thesis using for_managers_rel [where R = "\<lambda>_ m _ m'. same_shape m m'"] unfolding list_all2_conv_all_nth by metis
qed

lemma co_skip_shape:
  assumes "co_remove_skipped_blocks rid n np c = Inr c'"
  shows "list_all2 same_shape (single_type_managers c) (single_type_managers c')"
proof -
  define g where "g = (\<lambda>(_ :: unit) m s. and_then (remove_skipped_blocks rid n np m s) (\<lambda>(m, s). Inr ((), m, s)))"
  from assms obtain us s where "for_managers g (map (\<lambda>_. ()) (single_type_managers c)) (single_type_managers c) (co_pool c) =
      Inr (us, single_type_managers c', s)"
    unfolding co_remove_skipped_blocks_def all_managers_def with_managers_def g_def by (auto elim!: and_thenE)
  moreover have "same_shape m m'" if "g x m s = Inr (b, m', s')" for x m s b m' s'
    using that by (auto simp: g_def result_simps dest: shape_skip)
  ultimately show ?thesis using for_managers_rel [where R = "\<lambda>_ m _ m'. same_shape m m'"] unfolding list_all2_conv_all_nth by metis
qed

text \<open>
  What the caller of \<^verbatim>\<open>allocate_slots\<close> passes: cached blocks of the pool within the computed tokens, and a non-negative
  number of tokens for the main model.
\<close>

definition slots_fit :: "Request \<Rightarrow> int \<Rightarrow> int \<Rightarrow> KVCacheBlocks option \<Rightarrow> int \<Rightarrow> kv_cache_manager \<Rightarrow> bool" where
  "slots_fit r new new_comp kbo ext km \<longleftrightarrow>
     hits_fit (km_coordinator km) (kb_blocks (case kbo of Some kb \<Rightarrow> kb | None \<Rightarrow> empty_kv_cache_blocks km)) (num_computed_tokens r + new_comp) ext \<and>
     0 \<le> min (num_computed_tokens r + new_comp + ext) (max_model_len km) + new"

text \<open>The steps of an allocation, in order.\<close>

lemma allocate_slotsE:
  fixes km r new new_comp kbo look ext enc fit res has
  defines "kb \<equiv> (case kbo of Some kb \<Rightarrow> kb | None \<Rightarrow> empty_kv_cache_blocks km)"
    and "l \<equiv> num_computed_tokens r + new_comp"
  defines "tot \<equiv> min (l + ext) (max_model_len km)"
  assumes eq: "allocate_slots sha u r new new_comp kbo look ext delay enc fit res has km = Inr (out, r', km')"
  obtains (gate) n nm k c where "co_get_num_blocks_to_allocate (request_id r) n (kb_blocks kb) enc tot l nm True (km_coordinator km) = Inr (k, c)"
      and "out = None" "km' = km\<lparr>km_coordinator := c\<rparr>"
  | (full) c0 c1 c2 n k where
      "c0 = km_coordinator km \<or> (\<exists>n nm k. co_get_num_blocks_to_allocate (request_id r) n (kb_blocks kb) enc tot l nm True (km_coordinator km) = Inr (k, c0))"
      and "co_remove_skipped_blocks (request_id r) (max 0 (tot - num_in_flight_tokens r)) (Some (num_prompt_tokens r)) c0 = Inr c1"
      and "co_get_num_blocks_to_allocate (request_id r) n (kb_blocks kb) enc (l + ext) l (tot + new) False c1 = Inr (k, c2)"
      and "out = None" "km' = km\<lparr>km_coordinator := c2\<rparr>"
  | (granted) c0 c1 c2 c3 c4 c5 bls n k where
      "c0 = km_coordinator km \<or> (\<exists>n nm k. co_get_num_blocks_to_allocate (request_id r) n (kb_blocks kb) enc tot l nm True (km_coordinator km) = Inr (k, c0))"
      and "co_remove_skipped_blocks (request_id r) (max 0 (tot - num_in_flight_tokens r)) (Some (num_prompt_tokens r)) c0 = Inr c1"
      and "co_get_num_blocks_to_allocate (request_id r) n (kb_blocks kb) enc (l + ext) l (tot + new) False c1 = Inr (k, c2)"
      and "c3 = c2 \<or> co_allocate_new_computed_blocks u (request_id r) (kb_blocks kb) l ext c2 = Inr c3"
      and "co_allocate_new_blocks u (request_id r) n (tot + new) enc c3 = Inr (bls, c4)"
      and "c5 = c4 \<or> (\<exists>n. co_cache_blocks sha u r n c4 = Inr (r', c5))"
      and "out = Some (create_kv_cache_blocks bls km)" "km' = km\<lparr>km_coordinator := c5\<rparr>"
proof -
  let ?rid = "request_id r" and ?wm = "if has \<and> (status r = WAITING \<or> status r = PREEMPTED) then watermark_blocks km else 0"
  define n where "n = (\<lambda>km :: kv_cache_manager. min (tot + new + look) (max_model_len km))"
  define gate where "gate = (if fit then and_then (co_get_num_blocks_to_allocate ?rid (min (num_tokens r) (max_model_len km)) (kb_blocks kb) enc
      tot l (min (num_tokens r) (max_model_len km)) True (km_coordinator km)) (\<lambda>(k, c).
        Inr (k + ?wm \<le> get_num_free_blocks (co_pool c), km\<lparr>km_coordinator := c\<rparr>)) else Inr (True, km))"
  from eq obtain fits km0 where g: "gate = Inr (fits, km0)"
    and rest: "(if \<not> fits then Inr (None, r, km0) else
      and_then (co_remove_skipped_blocks ?rid (max 0 (tot - num_in_flight_tokens r)) (Some (num_prompt_tokens r)) (km_coordinator km0)) (\<lambda>c.
      and_then (co_get_num_blocks_to_allocate ?rid (n km0) (kb_blocks kb) enc (l + ext) l (tot + new) False c) (\<lambda>(k, c).
      if k + ?wm > get_num_free_blocks (co_pool c) - res then Inr (None, r, km0\<lparr>km_coordinator := c\<rparr>)
      else
      and_then (if \<not> kb_shared kb \<or> ext > 0 then co_allocate_new_computed_blocks u ?rid (kb_blocks kb) l ext c else Inr c) (\<lambda>c.
      and_then (co_allocate_new_blocks u ?rid (n km0) (tot + new) enc c) (\<lambda>(bls, c).
      if \<not> km_caching km0 \<or> delay then Inr (Some (create_kv_cache_blocks bls km0), r, km0\<lparr>km_coordinator := c\<rparr>)
      else and_then (co_cache_blocks sha u r (min (tot + new) (num_tokens r)) c) (\<lambda>(r, c).
        Inr (Some (create_kv_cache_blocks bls km0), r, km0\<lparr>km_coordinator := c\<rparr>))))))) = Inr (out, r', km')"
    unfolding allocate_slots_def Let_def kb_def [symmetric] l_def [symmetric] tot_def [symmetric] gate_def n_def
    by (elim if_raiseE and_thenE2)
  define c0 where "c0 = km_coordinator km0"
  from g have km0: "km0 = km\<lparr>km_coordinator := c0\<rparr>"
    and c0: "c0 = km_coordinator km \<or> (\<exists>n nm k. co_get_num_blocks_to_allocate ?rid n (kb_blocks kb) enc tot l nm True (km_coordinator km) = Inr (k, c0))"
    and nf: "\<not> fits \<Longrightarrow> \<exists>n nm k. co_get_num_blocks_to_allocate ?rid n (kb_blocks kb) enc tot l nm True (km_coordinator km) = Inr (k, c0)"
    unfolding gate_def c0_def by (cases fit; auto simp: result_simps)+
  have cr: "create_kv_cache_blocks bls km0 = create_kv_cache_blocks bls km" for bls
    by (simp add: km0 create_kv_cache_blocks_def empty_kv_cache_blocks_def)
  have k0: "km0\<lparr>km_coordinator := c\<rparr> = km\<lparr>km_coordinator := c\<rparr>" "km_caching km0 = km_caching km" for c by (simp_all add: km0)
  show thesis
  proof (cases fits)
    case False
    then show thesis using rest nf km0 gate by auto
  next
    case True
    from rest True obtain c1 k c2 where
      1: "co_remove_skipped_blocks ?rid (max 0 (tot - num_in_flight_tokens r)) (Some (num_prompt_tokens r)) c0 = Inr c1"
      and 2: "co_get_num_blocks_to_allocate ?rid (n km0) (kb_blocks kb) enc (l + ext) l (tot + new) False c1 = Inr (k, c2)"
      and 3: "(if k + ?wm > get_num_free_blocks (co_pool c2) - res then Inr (None, r, km\<lparr>km_coordinator := c2\<rparr>)
      else
      and_then (if \<not> kb_shared kb \<or> ext > 0 then co_allocate_new_computed_blocks u ?rid (kb_blocks kb) l ext c2 else Inr c2) (\<lambda>c.
      and_then (co_allocate_new_blocks u ?rid (n km0) (tot + new) enc c) (\<lambda>(bls, c).
      if \<not> km_caching km \<or> delay then Inr (Some (create_kv_cache_blocks bls km), r, km\<lparr>km_coordinator := c\<rparr>)
      else and_then (co_cache_blocks sha u r (min (tot + new) (num_tokens r)) c) (\<lambda>(r, c).
        Inr (Some (create_kv_cache_blocks bls km), r, km\<lparr>km_coordinator := c\<rparr>))))) = Inr (out, r', km')"
      unfolding cr k0 c0_def [symmetric] if_not_P [OF not_not [THEN iffD2, OF True]] by (elim and_thenE2 and_thenE)
    show thesis
    proof (cases "k + ?wm > get_num_free_blocks (co_pool c2) - res")
      case True
      with 3 have "out = None" "km' = km\<lparr>km_coordinator := c2\<rparr>" by auto
      then show thesis by (rule full [OF c0 1 2])
    next
      case False
      from 3 [unfolded if_not_P [OF False]] obtain c3 bls c4 where
        4: "(if \<not> kb_shared kb \<or> ext > 0 then co_allocate_new_computed_blocks u ?rid (kb_blocks kb) l ext c2 else Inr c2) = Inr c3"
        and 5: "co_allocate_new_blocks u ?rid (n km0) (tot + new) enc c3 = Inr (bls, c4)"
        and 6: "(if \<not> km_caching km \<or> delay then Inr (Some (create_kv_cache_blocks bls km), r, km\<lparr>km_coordinator := c4\<rparr>)
      else and_then (co_cache_blocks sha u r (min (tot + new) (num_tokens r)) c4) (\<lambda>(r, c).
        Inr (Some (create_kv_cache_blocks bls km), r, km\<lparr>km_coordinator := c\<rparr>))) = Inr (out, r', km')"
        by (elim and_thenE2 and_thenE)
      have "c3 = c2 \<or> co_allocate_new_computed_blocks u ?rid (kb_blocks kb) l ext c2 = Inr c3" using 4 by (auto split: if_split_asm)
      moreover from 6 obtain c5 where "c5 = c4 \<or> (\<exists>n. co_cache_blocks sha u r n c4 = Inr (r', c5))"
        "out = Some (create_kv_cache_blocks bls km)" "km' = km\<lparr>km_coordinator := c5\<rparr>"
        by (auto elim!: and_thenE2 split: if_split_asm)
      ultimately show thesis using granted [OF c0 1 2 _ 5] by blast
    qed
  qed
qed

lemma km_slots_keeps:
  assumes ok: "km_ok (km, X)" and fit: "slots_fit r new new_comp kbo ext km"
    and eq: "allocate_slots sha u r new new_comp kbo look ext delay enc full_fit res has km = Inr (out, r', km')"
  shows "km_ok (km', X)"
proof -
  let ?Y = "table_refs (partial_tail_pins km) + X" and ?c = "km_coordinator km" and ?l = "num_computed_tokens r + new_comp"
  let ?ncbs = "kb_blocks (case kbo of Some kb \<Rightarrow> kb | None \<Rightarrow> empty_kv_cache_blocks km)"
  define Q where "Q = (\<lambda>c. co_ok (c, ?Y) \<and> co_frame ?c c \<and> hits_fit c ?ncbs ?l ext)"
  have start: "Q ?c" and nm: "0 \<le> min (?l + ext) (max_model_len km) + new"
    using km_okD(1) [OF ok] fit by (simp_all add: slots_fit_def Q_def)
  have step: "Q c'" if "Q c" "co_ok (c', ?Y) \<and> co_frame c c'" "list_all2 same_shape (single_type_managers c) (single_type_managers c')" for c c'
    using that co_frame_trans hits_fit_shape [OF _ that(3)] unfolding Q_def by (metis co_frame_def)
  have predict: "Q c'" if "Q c" "co_get_num_blocks_to_allocate rid n ncbs en tot l nm cap c = Inr (k, c')" for c rid n ncbs en tot l nm cap k c'
    by (rule step [OF that(1) co_predict_keeps [OF _ that(2)] co_predict_shape [OF that(2)]]) (use that(1) in \<open>simp add: Q_def\<close>)
  have skip: "Q c'" if "Q c" "co_remove_skipped_blocks rid n np c = Inr c'" for c rid n np c'
    by (rule step [OF that(1) co_skip_keeps [OF _ that(2)] co_skip_shape [OF that(2)]]) (use that(1) in \<open>simp add: Q_def\<close>)
  have fin: "km_ok (km\<lparr>km_coordinator := c\<rparr>, X)" if "co_ok (c, ?Y) \<and> co_frame ?c c" for c
    using that by (blast intro: km_ok_co [OF ok])
  from eq show ?thesis
  proof (cases rule: allocate_slotsE)
    case (gate n nm k c)
    have "Q c" by (rule predict [OF start gate(1)])
    then show ?thesis unfolding gate(3) by (intro fin) (simp add: Q_def)
  next
    case (full c0 c1 c2 n k)
    have "Q c0" using full(1) start predict by blast
    then have "Q c2" using skip [OF _ full(2)] predict [OF _ full(3)] by blast
    then show ?thesis unfolding full(5) by (intro fin) (simp add: Q_def)
  next
    case (granted c0 c1 c2 c3 c4 c5 bls n k)
    have "Q c0" using granted(1) start predict by blast
    then have "Q c2" using skip [OF _ granted(2)] predict [OF _ granted(3)] by blast
    then have 3: "co_ok (c3, ?Y) \<and> co_frame ?c c3" using granted(4) co_computed_keeps co_frame_trans unfolding Q_def by blast
    have 4: "co_ok (c4, ?Y) \<and> co_frame ?c c4" using co_new_keeps [OF _ nm granted(5)] 3 co_frame_trans by blast
    then have "co_ok (c5, ?Y) \<and> co_frame ?c c5" using granted(6) co_cache_keeps co_frame_trans by blast
    then show ?thesis unfolding granted(8) by (rule fin)
  qed
qed

section \<open>Runs of the manager\<close>

type_synonym km_state = "kv_cache_manager \<times> nat multiset"

text \<open>
  One step is one call.  \<open>X\<close> holds the references that the scheduler, the worker or a connector got from the manager; with
  those they may use the pool directly (\<open>ks_pool\<close>), as the scheduler does to free blocks it popped.
\<close>

inductive km_step :: "km_state \<Rightarrow> km_state \<Rightarrow> bool" where
  ks_lookup: "get_computed_blocks sha u full r km = Some (Inr (res, r', km')) \<Longrightarrow> km_step (km, X) (km', X)"
| ks_connector: "get_computed_blocks_for_connector sha u full r km = Some (Inr (res, r', km')) \<Longrightarrow> km_step (km, X) (km', X)"
| ks_slots: "slots_fit r new new_comp kbo ext km \<Longrightarrow>
    allocate_slots sha u r new new_comp kbo look ext delay enc fit res has km = Inr (out, r', km') \<Longrightarrow> km_step (km, X) (km', X)"
| ks_free: "km_free r km = Inr km' \<Longrightarrow> km_step (km, X) (km', X)"
| ks_skip: "km_remove_skipped_blocks rid n np km = Inr km' \<Longrightarrow> km_step (km, X) (km', X)"
| ks_pop: "km_pop_blocks_for_free r km = (bl, km') \<Longrightarrow> km_step (km, X) (km', X + refs_of bl)"
| ks_evict: "set ids \<subseteq> int ` {i. int i < num_gpu_blocks (km_pool km)} \<Longrightarrow> km_evict_blocks u ids km = Inr km' \<Longrightarrow> km_step (km, X) (km', X)"
| ks_reset: "km_reset_prefix_cache km = Inr (b, km') \<Longrightarrow> km_step (km, X) (km', X)"
| ks_common: "km_get_num_common_prefix_blocks rid km = (ns, km') \<Longrightarrow> km_step (km, X) (km', X)"
| ks_events: "km_take_events km = (evs, km') \<Longrightarrow> km_step (km, X) (km', X)"
| ks_cache: "km_cache_blocks sha u r n km = Inr (r', km') \<Longrightarrow> km_step (km, X) (km', X)"
| ks_start: "km_step (km, X) (km_new_step_starts km, X)"
| ks_ids: "km_take_new_block_ids km = (ids, km') \<Longrightarrow> km_step (km, X) (km', X)"
| ks_range: "get_zeroing_block_ids_in_range rid a b km = (ids, km') \<Longrightarrow> km_step (km, X) (km', X)"
| ks_zeroing: "record_blocks_for_zeroing rid n km = Inr km' \<Longrightarrow> km_step (km, X) (km', X)"
| ks_copies: "take_kv_cache_block_copies km = ((cs, retained), km') \<Longrightarrow> km_step (km, X) (km', X + refs_of retained)"
| ks_offloads: "take_partial_tail_offloads km = Inr (offs, km') \<Longrightarrow> km_step (km, X) (km', X)"
| ks_stats: "make_prefix_cache_stats km = (st, km') \<Longrightarrow> km_step (km, X) (km', X)"
| ks_record: "record_prefix_cache_stats r n km = Inr km' \<Longrightarrow> km_step (km, X) (km', X)"
| ks_pool: "pool_step (km_pool km, km_refs km + X) (s, km_refs km + X') \<Longrightarrow> same_config (km_pool km) s \<Longrightarrow>
    km_step (km, X) (set_km_pool s km, X')"

lemma km_step_keeps: "km_step w w' \<Longrightarrow> km_ok w \<Longrightarrow> km_ok w'"
proof (induction rule: km_step.induct)
  case (ks_stats km st km' X)
  then show ?case by (fastforce simp: make_prefix_cache_stats_def km_ok_def split: if_split_asm)
next
  case (ks_record r n km km' X)
  then show ?case by (fastforce simp: record_prefix_cache_stats_def km_ok_def split: if_split_asm option.split_asm)
next
  case (ks_pool km X s X')
  then show ?case using km_ok_pool pool_step_inv [OF ks_pool(1)] km_okD(2) by blast
qed (erule (1) km_lookup_keeps [rotated] km_connector_keeps [rotated] km_free_keeps [rotated] km_skip_keeps [rotated] km_pop_keeps [rotated]
    km_reset_keeps [rotated] km_common_keeps [rotated] km_events_keeps [rotated] km_cache_keeps [rotated] km_ids_keeps [rotated]
    km_range_keeps [rotated] km_zeroing_keeps [rotated] km_copies_keeps [rotated] km_offloads_keeps [rotated] |
    (auto intro: km_slots_keeps km_evict_keeps km_start_keeps; fail))+

inductive km_reachable :: "km_state \<Rightarrow> bool" where
  kr_init: "KVCacheManager_init reg cfg ml sbs hbs ifl caching eagle la stats events dcp pcp mc wm = Inr km \<Longrightarrow>
    \<forall>g \<in> set (kv_cache_groups cfg). spec_sizes_ok (group_spec g) \<Longrightarrow> km_reachable (km, {#})"
| kr_step: "km_reachable w \<Longrightarrow> km_step w w' \<Longrightarrow> km_reachable w'"

lemma co_init_blocks:
  assumes "get_kv_cache_coordinator reg cfg ml ifl eagle caching events dcp pcp sbs hbs mc la = Inr c"
  shows "0 < num_blocks cfg"
proof -
  from assms obtain cls b c0 where "coordinator_base_init reg cls cfg ml ifl eagle b events dcp pcp sbs hbs mc la = Inr c0"
    unfolding get_kv_cache_coordinator_def Let_def by (auto elim!: and_thenE split: if_split_asm)
  then obtain pool where "BlockPool_init (num_blocks cfg) b hbs events mc = Inr pool"
    unfolding coordinator_base_init_def Let_def by (elim and_thenE) auto
  then show ?thesis unfolding BlockPool_init_def by (elim and_thenE) (simp add: py_assert_def split: if_split_asm)
qed

lemma km_init_ok:
  assumes "KVCacheManager_init reg cfg ml sbs hbs ifl caching eagle la stats events dcp pcp mc wm = Inr km"
    and "\<forall>g \<in> set (kv_cache_groups cfg). spec_sizes_ok (group_spec g)"
  shows "km_ok (km, {#})"
proof -
  from assms(1) obtain k where c: "get_kv_cache_coordinator reg cfg ml k eagle caching events dcp pcp sbs hbs mc la = Inr (km_coordinator km)"
    and p: "partial_tail_pins km = []"
    unfolding KVCacheManager_init_def Let_def by (elim and_thenE) auto
  have "num_kv_cache_groups km = length (kv_cache_groups cfg)" "0 \<le> wm" "watermark_blocks km = \<lfloor>wm * of_int (num_blocks cfg)\<rfloor>"
    using assms(1) unfolding KVCacheManager_init_def Let_def by (elim and_thenE; auto)+
  moreover have "0 < num_blocks cfg" by (rule co_init_blocks [OF c])
  ultimately show ?thesis
    using co_init_ok(1,2) [OF c assms(2)] p by (simp add: km_ok_def table_refs_def dict_ok_def)
qed

lemma km_reachable_ok: "km_reachable w \<Longrightarrow> km_ok w"
proof (induction rule: km_reachable.induct)
  case (kr_init reg cfg ml sbs hbs ifl caching eagle la stats events dcp pcp mc wm km)
  then show ?case by (rule km_init_ok)
next
  case (kr_step w w')
  show ?case by (rule km_step_keeps [OF kr_step(2) kr_step.IH])
qed

section \<open>Properties\<close>

lemma sum_list_member: "x \<in># f m \<Longrightarrow> m \<in> set ms \<Longrightarrow> x \<in># sum_list (map f ms)"
  by (induction ms) auto

text \<open>A block in a table or under a pin is referenced.\<close>

lemma table_block_held:
  assumes ok: "co_ok (c, Y)" and g: "bl \<in> set (co_get_blocks rid c)" and b: "b \<in> set bl"
  shows "bidx b \<in># co_refs c"
proof -
  obtain m where m: "m \<in> set (single_type_managers c)" "bl = req_blocks m rid" using g by (auto simp: co_get_blocks_def)
  have "mgr_ok (co_pool c) m" using ok m(1) by (simp add: co_ok_def)
  from mgr_refs_split [OF this, of rid] b m(2) have "bidx b \<in># mgr_refs m" by (force simp: refs_of_def)
  from sum_list_member [of _ mgr_refs, OF this m(1)] show ?thesis by (simp add: co_refs_def)
qed

lemma pinned_block_held:
  assumes "b \<in> set (pins_of rid km)" and "dict_ok (partial_tail_pins km)"
  shows "bidx b \<in># table_refs (partial_tail_pins km)"
  using assms(1) by (subst pins_refs [OF assms(2), of rid]) (force simp: refs_of_def)

text \<open>A model with one full-attention group: blocks of two tokens, four blocks, at most eight tokens.\<close>

definition demo_config :: KVCacheConfig where
  "demo_config = \<lparr>num_blocks = 4, kv_cache_tensors = [],
     kv_cache_groups = [\<lparr>layer_names = [''l0''], group_spec = small_full 2, is_eagle_group = False\<rparr>],
     prefix_cache_retention_interval = None, kv_cache_layout = None\<rparr>"

definition demo_km :: kv_cache_manager where
  "demo_km = (case KVCacheManager_init builtin_registry demo_config 8 2 2 None True False 0 False False 1 1 None 0 of Inr km \<Rightarrow> km)"

lemma demo_km: "KVCacheManager_init builtin_registry demo_config 8 2 2 None True False 0 False False 1 1 None 0 = Inr demo_km"
  "single_type_managers (km_coordinator demo_km) = [demo_manager]" "km_pool demo_km = small_pool" "max_model_len demo_km = 8"
  "km_caching demo_km" "num_kv_cache_groups demo_km = 1" "watermark_blocks demo_km = 0" "partial_tail_pins demo_km = []"
proof -
  have "\<exists>km. KVCacheManager_init builtin_registry demo_config 8 2 2 None True False 0 False False 1 1 None 0 = Inr km \<and>
    single_type_managers (km_coordinator km) = [demo_manager] \<and> km_pool km = small_pool \<and> max_model_len km = 8 \<and>
    km_caching km \<and> num_kv_cache_groups km = 1 \<and> watermark_blocks km = 0 \<and> partial_tail_pins km = []"
    using small_pool(1)
    by (simp add: KVCacheManager_init_def get_kv_cache_coordinator_def coordinator_base_init_def demo_config_def block_sizes_divide_def
      py_mod_def small_full_def small_attention_def get_manager_for_kv_cache_spec_def get_manager_class_def Let_def manager_init_def
      unitary_init_def py_index_def validate_prefix_cache_retention_interval_def initial_eagle_group_ids_def base_manager_init_def demo_manager_def
      needs_kv_cache_zeroing_def has_mamba_layers_def has_mixed_precision_kv_cache_def isinstance_def map_filter_def)
  then obtain km where km: "KVCacheManager_init builtin_registry demo_config 8 2 2 None True False 0 False False 1 1 None 0 = Inr km"
    "single_type_managers (km_coordinator km) = [demo_manager]" "km_pool km = small_pool" "max_model_len km = 8"
    "km_caching km" "num_kv_cache_groups km = 1" "watermark_blocks km = 0" "partial_tail_pins km = []" by blast
  then have "demo_km = km" by (simp add: demo_km_def)
  with km show "KVCacheManager_init builtin_registry demo_config 8 2 2 None True False 0 False False 1 1 None 0 = Inr demo_km"
    "single_type_managers (km_coordinator demo_km) = [demo_manager]" "km_pool demo_km = small_pool" "max_model_len demo_km = 8"
    "km_caching demo_km" "num_kv_cache_groups demo_km = 1" "watermark_blocks demo_km = 0" "partial_tail_pins demo_km = []" by simp_all
qed

lemma demo_km_reachable: "km_reachable (demo_km, {#})"
  by (rule kr_init [OF demo_km(1)]) (simp add: demo_config_def spec_sizes_ok_def small_full_def)

text \<open>
  C1.  No block in use is ever reused.  In every state that a \<^verbatim>\<open>KVCacheManager\<close> reaches by its operations in any order, with any
  mix of attention types, the reference count of a block is the number of its occurrences in the block tables, the pending
  copies and the pins, plus the references handed out.  A block in the table of a request or pinned for it is not in the free
  queue, and no allocation returns it.
\<close>

theorem kv_blocks_not_reused:
  assumes "km_reachable (km, X)"
  shows "pool_inv (km_pool km) \<and>
    (\<forall>i > 0. ref_cnt (blk (km_pool km) (Blk i)) = int (count (km_refs km) i + count X i)) \<and>
    (\<forall>rid b bl. b \<noteq> Blk 0 \<and> (bl \<in> set (co_get_blocks rid (km_coordinator km)) \<or> bl = pins_of rid km) \<and> b \<in> set bl \<longrightarrow>
      0 < ref_cnt (blk (km_pool km) b) \<and> (\<forall>xs. free_list (km_pool km) xs \<longrightarrow> b \<notin> Blk ` set xs) \<and>
      (\<forall>u n new s'. 0 \<le> n \<and> get_new_blocks u n (km_pool km) = Inr (new, s') \<longrightarrow> b \<notin> set new))"
proof -
  have ok: "km_ok (km, X)" by (rule km_reachable_ok [OF assms])
  note inv = km_okD(2) [OF ok]
  have p: "pool_inv (km_pool km)" and rc: "\<forall>i > 0. ref_cnt (blk (km_pool km) (Blk i)) = int (count (km_refs km) i + count X i)"
    using inv by (simp_all add: client_inv_def)
  have held: "bidx b \<in># km_refs km" and real: "b = Blk (bidx b)" "0 < bidx b"
    if b: "b \<noteq> Blk 0" "bl \<in> set (co_get_blocks rid (km_coordinator km)) \<or> bl = pins_of rid km" "b \<in> set bl" for rid b bl
  proof -
    show "bidx b \<in># km_refs km"
      using b table_block_held [OF km_okD(1) [OF ok]] pinned_block_held [OF _ km_okD(3) [OF ok]] by (auto simp: km_refs_def)
    have "in_pool (km_pool km) bl"
      using b(2) pins_in_pool [OF ok] km_okD(1) [OF ok] mgr_ok_blocks by (auto simp: co_get_blocks_def co_ok_def)
    then have "pool_block (km_pool km) b" using b(3) by (simp add: in_pool_all)
    then show "b = Blk (bidx b)" "0 < bidx b" using b(1) by (auto elim!: pool_blockE)
  qed
  have pos: "0 < ref_cnt (blk (km_pool km) (Blk i))" if "i \<in># km_refs km" "0 < i" for i
  proof -
    have "0 < int (count (km_refs km) i)" using that(1) by simp
    then show ?thesis unfolding rc [rule_format, OF that(2)] by linarith
  qed
  have free: "i \<notin> set xs" if "i \<in># km_refs km" "0 < i" "free_list (km_pool km) xs" for i xs
    using pos [OF that(1,2)] free_inv_mem [OF _ that(3), of i] p by (auto simp: pool_inv_def)
  have new: "b \<notin> set new" if "bidx b \<in># km_refs km" "0 \<le> n" "get_new_blocks u n (km_pool km) = Inr (new, s')" for b u n new s'
    using own_new(4) [OF inv that(2,3)] that(1) by auto
  show ?thesis
    using p rc held real pos free new by (intro conjI allI impI) (metis image_iff block_ref.inject(1))+
qed

lemma demo_slots:
  fixes r defines "r \<equiv> text_request [5, 6, 7] []"
  shows "\<exists>bl km. allocate_slots sha False r 3 0 None 0 0 True 0 False 0 True demo_km = Inr (Some \<lparr>kb_blocks = [bl], kb_shared = False\<rparr>, r, km) \<and>
    length bl = 2 \<and> co_get_blocks (request_id r) (km_coordinator km) = [bl]"
proof -
  have r: "num_computed_tokens r = 0" "num_in_flight_tokens r = 0" by (simp_all add: r_def text_request_def fresh_request_def)
  obtain bl m s where a: "allocate_new_blocks False (request_id r) 3 3 demo_manager small_pool = Inr (bl, m, s)" "length bl = 2" "req_blocks m (request_id r) = bl"
    using demo_alloc by blast
  have ne: "bl \<noteq> []" using a(2) by auto
  have m: "mgr_class demo_manager = FullAttentionManager" "mgr_block_size demo_manager = 2" "req_blocks demo_manager rid = []"
    "dict_get (num_cached_block demo_manager) rid = None" "dict_get (partial_hit_reqs demo_manager) rid = None" "get_num_skipped_tokens demo_manager n = 0" for rid n
    by (simp_all add: demo_manager_def base_manager_init_def small_full_def req_blocks_def get_num_skipped_tokens_def)
  have f: "num_free_blocks small_pool = 3" using small_pool(3) by (simp add: free_list_def)
  have "base_get_num_blocks_to_allocate demo_manager small_pool (request_id r) 3 [] 0 0 False = Inr 2"
    using predict_new [OF m(3,4) [of "request_id r"], of small_pool 3 "[]" 0 0] m
    by (simp add: skipped_blocks_def has_partial_local_hit_def get_num_evictable_blocks_def cdiv_def)
  then show ?thesis
    using a m f r ne demo_km
    by (simp add: allocate_slots_def Let_def co_remove_skipped_blocks_def all_managers_def with_managers_def remove_skipped_blocks_def
       base_remove_skipped_blocks_def co_get_num_blocks_to_allocate_def predict_one_def get_num_blocks_to_allocate_def empty_kv_cache_blocks_def
       get_num_free_blocks_def co_allocate_new_blocks_def allocate_one_def create_kv_cache_blocks_def co_get_blocks_def)
qed

theorem kv_blocks_not_reused_witness:
  "\<exists>bl r km. allocate_slots (\<lambda>x. x) False (text_request [5, 6, 7] []) 3 0 None 0 0 True 0 False 0 True demo_km =
      Inr (Some \<lparr>kb_blocks = [bl], kb_shared = False\<rparr>, r, km) \<and> length bl = 2 \<and>
    (\<forall>b u n new s'. b \<in> set bl \<and> b \<noteq> Blk 0 \<and> 0 \<le> n \<and> get_new_blocks u n (km_pool km) = Inr (new, s') \<longrightarrow> b \<notin> set new)"
proof -
  let ?r = "text_request [5, 6, 7] []"
  obtain bl km where a: "allocate_slots (\<lambda>x. x) False ?r 3 0 None 0 0 True 0 False 0 True demo_km = Inr (Some \<lparr>kb_blocks = [bl], kb_shared = False\<rparr>, ?r, km)"
    "length bl = 2" "co_get_blocks (request_id ?r) (km_coordinator km) = [bl]" using demo_slots by blast
  have "slots_fit ?r 3 0 None 0 demo_km"
    using demo_km by (auto simp: slots_fit_def hits_fit_def empty_kv_cache_blocks_def text_request_def fresh_request_def demo_manager_def
        base_manager_init_def get_num_skipped_tokens_def cdiv_def)
  then have "km_reachable (km, {#})" by (rule kr_step [OF demo_km_reachable ks_slots [OF _ a(1)]])
  from kv_blocks_not_reused [OF this] a show ?thesis by (metis list.set_intros(1))
qed

end
