(* ===== verification/Kv_Manager_Admission.thy ===== *)
theory Kv_Manager_Admission
  imports Kv_Manager_Refs
begin

text \<open>
  When \<^verbatim>\<open>KVCacheManager.allocate_slots\<close> refuses.  For models whose groups are attention groups (no Mamba, no cross attention), a
  call for a new or a running request returns \<^verbatim>\<open>None\<close> exactly when the full-sequence gate or the count of the blocks to take
  exceeds what is free, and otherwise gives every group a table that covers the tokens: the number it checks against the free
  blocks is enough for all the blocks it then takes.  The last step of a call, caching the full blocks, is kept as the code
  calls it: when caching is on and not delayed, the outcome of the call is the outcome of that step.
\<close>

section \<open>Evaluation of a call\<close>

text \<open>The tail of the call, after the blocks are taken: caching, unless it is off or delayed.\<close>

definition finish_slots ::
    "(bytes \<Rightarrow> bytes) \<Rightarrow> bool \<Rightarrow> Request \<Rightarrow> int \<Rightarrow> bool \<Rightarrow> block_ref list list \<Rightarrow> coordinator \<Rightarrow> kv_cache_manager
     \<Rightarrow> (KVCacheBlocks option \<times> Request \<times> kv_cache_manager) result" where
  "finish_slots sha u r tokens delay bls c km =
     (if \<not> km_caching km \<or> delay then Inr (Some (create_kv_cache_blocks bls km), r, km\<lparr>km_coordinator := c\<rparr>)
      else and_then (co_cache_blocks sha u r (min tokens (num_tokens r)) c) (\<lambda>(r, c).
        Inr (Some (create_kv_cache_blocks bls km), r, km\<lparr>km_coordinator := c\<rparr>)))"

lemma slots_eval:
  fixes km r new new_comp kbo look ext enc fit res has
  defines "kb \<equiv> (case kbo of Some kb \<Rightarrow> kb | None \<Rightarrow> empty_kv_cache_blocks km)"
    and "l \<equiv> num_computed_tokens r + new_comp" and "c0 \<equiv> km_coordinator km"
    and "wm \<equiv> (if has \<and> (status r = WAITING \<or> status r = PREEMPTED) then watermark_blocks km else 0)"
  defines "tot \<equiv> min (l + ext) (max_model_len km)"
  defines "n \<equiv> min (tot + new + look) (max_model_len km)"
  assumes arg: "new \<noteq> 0 \<or> ext \<noteq> 0"
    and gate: "co_get_num_blocks_to_allocate (request_id r) (min (num_tokens r) (max_model_len km)) (kb_blocks kb) enc tot l
      (min (num_tokens r) (max_model_len km)) True c0 = Inr (g, c0)"
    and skip: "co_remove_skipped_blocks (request_id r) (max 0 (tot - num_in_flight_tokens r)) (Some (num_prompt_tokens r)) c0 = Inr c1"
    and predict: "co_get_num_blocks_to_allocate (request_id r) n (kb_blocks kb) enc (l + ext) l (tot + new) False c1 = Inr (cost, c1)"
    and take: "cost + wm \<le> get_num_free_blocks (co_pool c1) - res \<Longrightarrow> \<exists>c3 bls c4.
      (if \<not> kb_shared kb \<or> ext > 0 then co_allocate_new_computed_blocks u (request_id r) (kb_blocks kb) l ext c1 else Inr c1) = Inr c3 \<and>
      co_allocate_new_blocks u (request_id r) n (tot + new) enc c3 = Inr (bls, c4) \<and> P bls c4"
  shows "if fit \<and> get_num_free_blocks (co_pool c0) < g + wm
      then allocate_slots sha u r new new_comp kbo look ext delay enc fit res has km = Inr (None, r, km)
      else if get_num_free_blocks (co_pool c1) - res < cost + wm
      then allocate_slots sha u r new new_comp kbo look ext delay enc fit res has km = Inr (None, r, km\<lparr>km_coordinator := c1\<rparr>)
      else \<exists>bls c. P bls c \<and>
        allocate_slots sha u r new new_comp kbo look ext delay enc fit res has km = finish_slots sha u r (tot + new) delay bls c km"
proof -
  define f where "f = min (num_tokens r) (max_model_len km)"
  define body where "body = and_then (co_remove_skipped_blocks (request_id r) (max 0 (tot - num_in_flight_tokens r)) (Some (num_prompt_tokens r)) c0) (\<lambda>c.
      and_then (co_get_num_blocks_to_allocate (request_id r) n (kb_blocks kb) enc (l + ext) l (tot + new) False c) (\<lambda>(k, c).
      if k + wm > get_num_free_blocks (co_pool c) - res then Inr (None, r, km\<lparr>km_coordinator := c\<rparr>)
      else
      and_then (if \<not> kb_shared kb \<or> ext > 0 then co_allocate_new_computed_blocks u (request_id r) (kb_blocks kb) l ext c else Inr c) (\<lambda>c.
      and_then (co_allocate_new_blocks u (request_id r) n (tot + new) enc c) (\<lambda>(bls, c).
      finish_slots sha u r (tot + new) delay bls c km))))"
  note g = gate [folded f_def]
  have km: "km\<lparr>km_coordinator := c0\<rparr> = km" by (simp add: c0_def)
  have na: "\<not> (new = 0 \<and> ext = 0)" using arg by simp
  have eval: "allocate_slots sha u r new new_comp kbo look ext delay enc fit res has km =
      (if fit \<and> \<not> g + wm \<le> get_num_free_blocks (co_pool c0) then Inr (None, r, km) else body)"
  proof (cases fit)
    case True
    show ?thesis
      unfolding allocate_slots_def Let_def kb_def [symmetric] l_def [symmetric] tot_def [symmetric] wm_def [symmetric] f_def [symmetric]
        c0_def [symmetric] body_def finish_slots_def if_not_P [OF na] if_P [OF True] g and_then.simps prod.case km n_def [symmetric]
      using True by (cases "g + wm \<le> get_num_free_blocks (co_pool c0)") simp_all
  next
    case False
    show ?thesis
      unfolding allocate_slots_def Let_def kb_def [symmetric] l_def [symmetric] tot_def [symmetric] wm_def [symmetric] f_def [symmetric]
        body_def finish_slots_def if_not_P [OF na] if_not_P [OF False] and_then.simps prod.case n_def [symmetric] c0_def [symmetric]
      using False by simp
  qed
  have refused: "body = Inr (None, r, km\<lparr>km_coordinator := c1\<rparr>)" if "\<not> cost + wm \<le> get_num_free_blocks (co_pool c1) - res"
    using that skip predict unfolding body_def by simp
  have taken: "\<exists>bls c. P bls c \<and> body = finish_slots sha u r (tot + new) delay bls c km"
    if le: "cost + wm \<le> get_num_free_blocks (co_pool c1) - res"
  proof -
    from take [OF le] obtain c3 bls c4 where t: "(if \<not> kb_shared kb \<or> ext > 0 then co_allocate_new_computed_blocks u (request_id r) (kb_blocks kb) l ext c1 else Inr c1) = Inr c3"
      "co_allocate_new_blocks u (request_id r) n (tot + new) enc c3 = Inr (bls, c4)" "P bls c4" by blast
    then have "body = finish_slots sha u r (tot + new) delay bls c4 km"
      using le skip predict unfolding body_def by (simp only: and_then.simps case_prod_conv) simp
    with t(3) show ?thesis by blast
  qed
  from eval refused taken show ?thesis by (auto simp: not_le)
qed

section \<open>Leaving the window first\<close>

lemma null_index: "pool_inv s \<Longrightarrow> is_null (blk s (Blk i)) \<longleftrightarrow> i = 0"
  using free_invD(3) by (simp add: pool_inv_def)

lemma touch_pre_drops:
  assumes pre: "touch_pre rid l e bl m s" and d: "drops m m'" and inv: "pool_inv s" "pool_inv s'" and sc: "same_config s s'"
  shows "touch_pre rid l e bl m' s'"
proof -
  have "req_blocks m' rid = [] \<longleftrightarrow> req_blocks m rid = []" using d by (metis drops_def length_0_conv)
  then have m': "plain_mgr m' = plain_mgr m" "fresh_in rid m' = fresh_in rid m" "mgr_block_size m' = mgr_block_size m" "mgr_caching m' = mgr_caching m"
    "get_num_skipped_tokens m' n = get_num_skipped_tokens m n" for n
    using d by (auto simp: drops_def grows_def plain_mgr_def fresh_in_def)
  have hit: "hit_ok m s bl l" using pre by (simp add: touch_pre_def)
  have "is_null (blk s' (last bl)) = is_null (blk s (last bl))" if "bl \<noteq> []"
  proof -
    have "pool_block s (last bl)" using hit that by (simp add: hit_ok_def in_pool_all)
    then show ?thesis using null_index inv by (auto elim!: pool_blockE)
  qed
  then have "hit_ok m' s' bl l" using hit in_pool_frame [OF sc] by (auto simp: hit_ok_def m')
  then show ?thesis using pre by (simp add: touch_pre_def m')
qed

lemma co_skip_succeeds:
  assumes ok: "co_ok (c, X)" and p: "\<forall>m \<in> set (single_type_managers c). plain_mgr m" and np: "0 \<le> np"
  shows "\<exists>c'. co_remove_skipped_blocks rid n (Some np) c = Inr c' \<and> co_ok (c', X) \<and> co_frame c c' \<and>
    list_all2 drops (single_type_managers c) (single_type_managers c')"
proof -
  have "\<exists>c'. all_managers (remove_skipped_blocks rid n (Some np)) c = Inr c' \<and> co_ok (c', X) \<and> co_frame c c' \<and>
    c' = c\<lparr>single_type_managers := single_type_managers c', co_pool := co_pool c'\<rparr> \<and>
    list_all2 drops (single_type_managers c) (single_type_managers c')"
  proof (rule all_managers_succeeds [OF ok])
    fix m s Y assume m: "m \<in> set (single_type_managers c)" and h: "holds_refs (m, s, Y)"
    have "0 < mgr_block_size m" using co_okD(2) [OF ok] m by simp
    from skip_succeeds [OF h _ this, of "Some np" rid n] p m np obtain m' s' where
      "remove_skipped_blocks rid n (Some np) m s = Inr (m', s')" "drops m m'" by auto
    then show "\<exists>m' s'. remove_skipped_blocks rid n (Some np) m s = Inr (m', s') \<and> (\<forall>Y. mgr_step (m, s, Y) (m', s', Y)) \<and> drops m m'"
      using ms_skip by blast
  qed
  then show ?thesis unfolding co_remove_skipped_blocks_def by blast
qed

text \<open>
  What the full-sequence gate charges a group for \<open>n\<close> tokens.  Groups that recycle blocks are charged their admission cap at most;
  a new request pays for the blocks it will evict from the free list by touching them, and for the copy of a partial block.
\<close>

definition capped_blocks :: "manager \<Rightarrow> int \<Rightarrow> int" where
  "capped_blocks m n = (case max_admission_blocks_per_request m of
      Some cap \<Rightarrow> min (cdiv n (mgr_block_size m)) cap | None \<Rightarrow> cdiv n (mgr_block_size m))"

definition gate_cost :: "int \<Rightarrow> int \<Rightarrow> int \<Rightarrow> block_ref list \<Rightarrow> manager \<Rightarrow> block_pool \<Rightarrow> int" where
  "gate_cost n l e ncb m s = max (capped_blocks m n - max (skipped_blocks m (l + e)) (int (length ncb))) 0 +
     (if has_partial_local_hit m ncb l then 1 else 0) + get_num_evictable_blocks s (drop (nat (skipped_blocks m (l + e))) ncb)"

lemma gate_new:
  assumes "fresh_in rid m"
  shows "base_get_num_blocks_to_allocate m s rid n ncb (l + e) l True = Inr (gate_cost n l e ncb m s)"
proof -
  have "py_slice_from ncb (max 0 (skipped_blocks m (l + e))) = drop (nat (skipped_blocks m (l + e))) ncb"
    by (simp add: py_slice_from_nonneg max_def)
  then show ?thesis
    using assms by (simp add: fresh_in_def gate_cost_def capped_blocks_def base_get_num_blocks_to_allocate_def Let_def skipped_blocks_def
        split: option.split)
qed

text \<open>A running request is charged the blocks that its table lacks.\<close>

definition gate_owed :: "manager \<Rightarrow> string \<Rightarrow> int \<Rightarrow> int" where
  "gate_owed m rid n = max (capped_blocks m n - int (length (req_blocks m rid))) 0"

lemma gate_running:
  assumes "dict_get (num_cached_block m) rid = None \<Longrightarrow> skipped_blocks m tot \<le> int (length (req_blocks m rid))"
  shows "base_get_num_blocks_to_allocate m s rid n [] tot l True = Inr (gate_owed m rid n)"
  using assms by (auto simp: base_get_num_blocks_to_allocate_def Let_def gate_owed_def capped_blocks_def skipped_blocks_def
      has_partial_local_hit_def get_num_evictable_blocks_def py_slice_from_def max_def split: option.split)

section \<open>New requests\<close>

text \<open>
  The arguments of a call for a new request: every group gets the blocks that its cache hit left, within the model length; no
  cached blocks means no computed tokens.
\<close>

definition new_request_args :: "Request \<Rightarrow> int \<Rightarrow> int \<Rightarrow> KVCacheBlocks option \<Rightarrow> int \<Rightarrow> int \<Rightarrow> kv_cache_manager \<Rightarrow> bool" where
  "new_request_args r new new_comp kbo look ext km \<longleftrightarrow>
     (let kb = (case kbo of Some kb \<Rightarrow> kb | None \<Rightarrow> empty_kv_cache_blocks km); l = num_computed_tokens r + new_comp;
          ms = single_type_managers (km_coordinator km)
      in length (kb_blocks kb) = length ms \<and> (\<forall>(bl, m) \<in> set (zip (kb_blocks kb) ms). touch_pre (request_id r) l ext bl m (km_pool km)) \<and>
         (kb_shared kb \<longrightarrow> list_all (\<lambda>bl. bl = []) (kb_blocks kb)) \<and> (kb_shared kb \<and> ext = 0 \<longrightarrow> l = 0) \<and>
         0 \<le> new \<and> (new \<noteq> 0 \<or> ext \<noteq> 0) \<and> 0 \<le> look \<and> 0 \<le> ext \<and> l + ext \<le> max_model_len km \<and> 0 \<le> num_prompt_tokens r)"

text \<open>The blocks that the call counts, after the window was left.\<close>

definition slots_cost :: "Request \<Rightarrow> int \<Rightarrow> int \<Rightarrow> int \<Rightarrow> block_ref list list \<Rightarrow> coordinator \<Rightarrow> int" where
  "slots_cost r n l e ncbs c = (\<Sum>(bl, m) \<leftarrow> zip ncbs (single_type_managers c). new_cost (request_id r) n l e bl m (co_pool c))"

text \<open>The blocks that the gate counts for all tokens of the request.\<close>

definition gate_total :: "Request \<Rightarrow> int \<Rightarrow> int \<Rightarrow> block_ref list list \<Rightarrow> kv_cache_manager \<Rightarrow> int" where
  "gate_total r l e ncbs km = (\<Sum>(bl, m) \<leftarrow> zip ncbs (single_type_managers (km_coordinator km)).
     gate_cost (min (num_tokens r) (max_model_len km)) l e bl m (km_pool km))"

lemma fresh_owed:
  assumes "fresh_in rid m" and "get_num_skipped_tokens m 0 \<le> 0" and "0 < mgr_block_size m"
  shows "owed m rid n = new_cost rid n 0 0 [] m s"
proof -
  have "skipped_blocks m 0 \<le> 0" using assms(2,3) by (simp add: skipped_blocks_def div_nonpos_pos_le0)
  then show ?thesis using assms(1) by (simp add: owed_def new_cost_def fresh_in_def has_partial_local_hit_def get_num_evictable_blocks_def)
qed

lemma new_slots_taken:
  assumes ok: "co_ok (c, Y)" and len: "length ncbs = length (single_type_managers c)"
    and pre: "\<forall>(bl, m) \<in> set (zip ncbs (single_type_managers c)). touch_pre rid l e bl m (co_pool c)"
    and sh: "shared \<and> e = 0 \<longrightarrow> l = 0" "shared \<longrightarrow> list_all (\<lambda>bl. bl = []) ncbs" and n: "l + e \<le> n" "0 \<le> e"
    and b: "(\<Sum>(bl, m) \<leftarrow> zip ncbs (single_type_managers c). new_cost rid n l e bl m (co_pool c)) \<le> num_free_blocks (co_pool c)"
  shows "\<exists>c3 bls c4. (if \<not> shared \<or> e > 0 then co_allocate_new_computed_blocks u rid ncbs l e c else Inr c) = Inr c3 \<and>
    co_allocate_new_blocks u rid n nm enc c3 = Inr (bls, c4) \<and> (\<forall>m \<in> set (single_type_managers c4). covers rid n m)"
proof (cases "\<not> shared \<or> e > 0")
  case True
  from co_computed_succeeds [OF ok _ pre n(1) b, of u] len obtain c3 where c3: "co_allocate_new_computed_blocks u rid ncbs l e c = Inr c3"
    "(\<Sum>m \<leftarrow> single_type_managers c3. owed m rid n) \<le> num_free_blocks (co_pool c3)"
    "\<forall>m \<in> set (single_type_managers c3). plain_mgr m \<and> cow_ready m (co_pool c3) rid" "co_ok (c3, Y)" using b by fastforce
  from co_alloc_succeeds [OF c3(4,3,2), of u nm enc] show ?thesis using c3(1) True by auto
next
  case False
  let ?ms = "single_type_managers c"
  have l: "l = 0" "e = 0" and ne: "list_all (\<lambda>bl. bl = []) ncbs" using False sh n(2) by auto
  have m: "touch_pre rid 0 0 [] m (co_pool c)" if m: "m \<in> set ?ms" for m
  proof -
    obtain i where i: "i < length ?ms" "m = ?ms ! i" using m by (auto simp: in_set_conv_nth)
    then have "(ncbs ! i, m) \<in> set (zip ncbs ?ms)" using len by (auto simp: set_zip)
    moreover have "ncbs ! i = []" using ne i len by (simp add: list_all_length)
    ultimately show ?thesis using pre l by fastforce
  qed
  have "(\<Sum>m \<leftarrow> ?ms. owed m rid n) = (\<Sum>(bl, m) \<leftarrow> zip ncbs ?ms. new_cost rid n l e bl m (co_pool c))"
  proof -
    have "map (\<lambda>m. owed m rid n) ?ms = map (\<lambda>(bl, m). new_cost rid n l e bl m (co_pool c)) (zip ncbs ?ms)"
    proof (rule nth_equalityI)
      fix i assume "i < length (map (\<lambda>m. owed m rid n) ?ms)"
      then have i: "i < length ?ms" "i < length ncbs" using len by simp_all
      have "touch_pre rid 0 0 [] (?ms ! i) (co_pool c)" by (rule m) (use i in simp)
      then show "map (\<lambda>m. owed m rid n) ?ms ! i = map (\<lambda>(bl, m). new_cost rid n l e bl m (co_pool c)) (zip ncbs ?ms) ! i"
        using i ne fresh_owed [of rid "?ms ! i" n "co_pool c"] by (simp add: touch_pre_def l list_all_length)
    qed (use len in simp)
    then show ?thesis by simp
  qed
  then have b': "(\<Sum>m \<leftarrow> ?ms. owed m rid n) \<le> num_free_blocks (co_pool c)" using b by simp
  have "\<forall>m \<in> set ?ms. plain_mgr m \<and> cow_ready m (co_pool c) rid" using m by (auto simp: touch_pre_def fresh_in_def cow_ready_def)
  from co_alloc_succeeds [OF ok this b', of u nm enc] show ?thesis using False by auto
qed

lemma new_request_slots:
  fixes has
  assumes ok: "km_ok (km, X)" and args: "new_request_args r new new_comp kbo look ext km" and res: "0 \<le> res"
  defines "kb \<equiv> (case kbo of Some kb \<Rightarrow> kb | None \<Rightarrow> empty_kv_cache_blocks km)" and "l \<equiv> num_computed_tokens r + new_comp"
    and "w \<equiv> (if has \<and> (status r = WAITING \<or> status r = PREEMPTED) then watermark_blocks km else 0)"
  defines "n \<equiv> min (l + ext + new + look) (max_model_len km)"
  shows "\<exists>c1. co_remove_skipped_blocks (request_id r) (max 0 (l + ext - num_in_flight_tokens r)) (Some (num_prompt_tokens r)) (km_coordinator km) = Inr c1 \<and>
    list_all2 drops (single_type_managers (km_coordinator km)) (single_type_managers c1) \<and>
    (if fit \<and> get_num_free_blocks (km_pool km) < gate_total r l ext (kb_blocks kb) km + w
     then allocate_slots sha u r new new_comp kbo look ext delay enc fit res has km = Inr (None, r, km)
     else if get_num_free_blocks (co_pool c1) - res < slots_cost r n l ext (kb_blocks kb) c1 + w
     then allocate_slots sha u r new new_comp kbo look ext delay enc fit res has km = Inr (None, r, km\<lparr>km_coordinator := c1\<rparr>)
     else \<exists>bls c. (\<forall>m \<in> set (single_type_managers c). covers (request_id r) n m) \<and>
       allocate_slots sha u r new new_comp kbo look ext delay enc fit res has km = finish_slots sha u r (l + ext + new) delay bls c km)"
proof -
  let ?c0 = "km_coordinator km" and ?rid = "request_id r" and ?Y = "table_refs (partial_tail_pins km) + X"
  let ?ms = "single_type_managers ?c0" and ?ncbs = "kb_blocks kb"
  have a: "length ?ncbs = length ?ms" "\<forall>(bl, m) \<in> set (zip ?ncbs ?ms). touch_pre ?rid l ext bl m (co_pool ?c0)"
    "kb_shared kb \<longrightarrow> list_all (\<lambda>bl. bl = []) ?ncbs" "kb_shared kb \<and> ext = 0 \<longrightarrow> l = 0" "0 \<le> new" "new \<noteq> 0 \<or> ext \<noteq> 0" "0 \<le> look" "0 \<le> ext"
    "l + ext \<le> max_model_len km" "0 \<le> num_prompt_tokens r"
    using args by (simp_all add: new_request_args_def Let_def kb_def l_def)
  have tot: "min (l + ext) (max_model_len km) = l + ext" using a(9) by simp
  have c0: "co_ok (?c0, ?Y)" by (rule km_okD(1) [OF ok])
  have plain: "\<forall>m \<in> set ?ms. plain_mgr m" using a(1,2) by (fastforce simp: in_set_conv_nth set_zip touch_pre_def)
  from co_skip_succeeds [OF c0 plain a(10), of ?rid "max 0 (l + ext - num_in_flight_tokens r)"] obtain c1 where
    skip: "co_remove_skipped_blocks ?rid (max 0 (l + ext - num_in_flight_tokens r)) (Some (num_prompt_tokens r)) ?c0 = Inr c1"
    and c1: "co_ok (c1, ?Y)" "co_frame ?c0 c1" and d: "list_all2 drops ?ms (single_type_managers c1)" by blast
  have len1: "length ?ncbs = length (single_type_managers c1)" using a(1) list_all2_lengthD [OF d] by simp
  have pre1: "\<forall>(bl, m) \<in> set (zip ?ncbs (single_type_managers c1)). touch_pre ?rid l ext bl m (co_pool c1)"
  proof -
    have "touch_pre ?rid l ext (?ncbs ! i) (single_type_managers c1 ! i) (co_pool c1)" if i: "i < length ?ncbs" for i
    proof (rule touch_pre_drops)
      show "touch_pre ?rid l ext (?ncbs ! i) (?ms ! i) (co_pool ?c0)" using a(1,2) i by (auto simp: set_zip)
      show "drops (?ms ! i) (single_type_managers c1 ! i)" using d i a(1) by (simp add: list_all2_nthD)
    qed (use co_okD(4) [OF c0] co_okD(4) [OF c1(1)] c1(2) in \<open>simp_all add: co_frame_def\<close>)
    then show ?thesis by (auto simp: set_zip)
  qed
  have gate: "co_get_num_blocks_to_allocate ?rid (min (num_tokens r) (max_model_len km)) ?ncbs enc (l + ext) l
      (min (num_tokens r) (max_model_len km)) True ?c0 = Inr (gate_total r l ext ?ncbs km, ?c0)"
    unfolding gate_total_def by (rule co_predict) (use a(1,2) gate_new in \<open>auto simp: touch_pre_def\<close>)
  have predict: "co_get_num_blocks_to_allocate ?rid n ?ncbs enc (l + ext) l (l + ext + new) False c1 = Inr (slots_cost r n l ext ?ncbs c1, c1)"
    unfolding slots_cost_def by (rule co_predict) (use len1 pre1 new_cost in \<open>auto simp: touch_pre_def\<close>)
  have n: "l + ext \<le> n" using a(5,7,9) by (simp add: n_def)
  have w: "0 \<le> w" using km_okD(6) [OF ok] by (simp add: w_def)
  have take: "\<exists>c3 bls c4. (if \<not> kb_shared kb \<or> ext > 0 then co_allocate_new_computed_blocks u ?rid ?ncbs l ext c1 else Inr c1) = Inr c3 \<and>
      co_allocate_new_blocks u ?rid n (l + ext + new) enc c3 = Inr (bls, c4) \<and> (\<forall>m \<in> set (single_type_managers c4). covers ?rid n m)"
    if "slots_cost r n l ext ?ncbs c1 + w \<le> get_num_free_blocks (co_pool c1) - res"
    by (rule new_slots_taken [OF c1(1) len1 pre1 a(4,3) n a(8)]) (use that w res in \<open>simp add: slots_cost_def get_num_free_blocks_def\<close>)
  from slots_eval [where P = "\<lambda>bls c. \<forall>m \<in> set (single_type_managers c). covers ?rid n m" and km = km and r = r and new = new and
      new_comp = new_comp and kbo = kbo and look = look and ext = ext and has = has and ?c1.0 = c1 and res = res and fit = fit and
      enc = enc and u = u and sha = sha and delay = delay, folded kb_def l_def, folded w_def,
      unfolded tot, folded n_def, OF a(6) gate skip predict take]
  show ?thesis using d skip by blast
qed

section \<open>Running requests\<close>

text \<open>
  A call for a request that runs already, as the scheduler makes it: no cached blocks and no external tokens.  Its table reaches
  the window, or caching has started for it.
\<close>

definition running_request_args :: "Request \<Rightarrow> int \<Rightarrow> int \<Rightarrow> kv_cache_manager \<Rightarrow> bool" where
  "running_request_args r new look km \<longleftrightarrow>
     (\<forall>m \<in> set (single_type_managers (km_coordinator km)). plain_mgr m \<and> dict_get (partial_hit_reqs m) (request_id r) = None \<and>
        (dict_get (num_cached_block m) (request_id r) = None \<longrightarrow>
           skipped_blocks m (num_computed_tokens r) \<le> int (length (req_blocks m (request_id r))))) \<and>
     0 < new \<and> 0 \<le> look \<and> num_computed_tokens r \<le> max_model_len km \<and> 0 \<le> num_prompt_tokens r"

lemma running_request_slots:
  fixes has
  assumes ok: "km_ok (km, X)" and args: "running_request_args r new look km" and res: "0 \<le> res"
  defines "l \<equiv> num_computed_tokens r"
    and "w \<equiv> (if has \<and> (status r = WAITING \<or> status r = PREEMPTED) then watermark_blocks km else 0)"
  defines "n \<equiv> min (l + new + look) (max_model_len km)"
  shows "\<exists>c1. co_remove_skipped_blocks (request_id r) (max 0 (l - num_in_flight_tokens r)) (Some (num_prompt_tokens r)) (km_coordinator km) = Inr c1 \<and>
    list_all2 drops (single_type_managers (km_coordinator km)) (single_type_managers c1) \<and>
    (if fit \<and> get_num_free_blocks (km_pool km) <
         (\<Sum>m \<leftarrow> single_type_managers (km_coordinator km). gate_owed m (request_id r) (min (num_tokens r) (max_model_len km))) + w
     then allocate_slots sha u r new 0 None look 0 delay enc fit res has km = Inr (None, r, km)
     else if get_num_free_blocks (co_pool c1) - res < (\<Sum>m \<leftarrow> single_type_managers c1. owed m (request_id r) n) + w
     then allocate_slots sha u r new 0 None look 0 delay enc fit res has km = Inr (None, r, km\<lparr>km_coordinator := c1\<rparr>)
     else \<exists>bls c. (\<forall>m \<in> set (single_type_managers c). covers (request_id r) n m) \<and>
       allocate_slots sha u r new 0 None look 0 delay enc fit res has km = finish_slots sha u r (l + new) delay bls c km)"
proof -
  let ?c0 = "km_coordinator km" and ?rid = "request_id r" and ?Y = "table_refs (partial_tail_pins km) + X"
  let ?ms = "single_type_managers ?c0" and ?kb = "empty_kv_cache_blocks km"
  let ?ncbs = "kb_blocks ?kb"
  have a: "\<forall>m \<in> set ?ms. plain_mgr m" "\<forall>m \<in> set ?ms. dict_get (partial_hit_reqs m) ?rid = None \<and>
        (dict_get (num_cached_block m) ?rid = None \<longrightarrow> skipped_blocks m l \<le> int (length (req_blocks m ?rid)))"
    "0 < new" "0 \<le> look" "l \<le> max_model_len km" "0 \<le> num_prompt_tokens r"
    using args by (simp_all add: running_request_args_def l_def)
  have ncbs: "?ncbs = replicate (length ?ms) []" using km_okD(5) [OF ok] by (simp add: empty_kv_cache_blocks_def)
  have sh: "kb_shared ?kb" by (simp add: empty_kv_cache_blocks_def)
  have tot: "min (l + 0) (max_model_len km) = l" using a(5) by simp
  have c0: "co_ok (?c0, ?Y)" by (rule km_okD(1) [OF ok])
  from co_skip_succeeds [OF c0 a(1,6), of ?rid "max 0 (l - num_in_flight_tokens r)"] obtain c1 where
    skip: "co_remove_skipped_blocks ?rid (max 0 (l - num_in_flight_tokens r)) (Some (num_prompt_tokens r)) ?c0 = Inr c1"
    and c1: "co_ok (c1, ?Y)" "co_frame ?c0 c1" and d: "list_all2 drops ?ms (single_type_managers c1)" by blast
  have m1: "plain_mgr m \<and> dict_get (partial_hit_reqs m) ?rid = None \<and>
      (dict_get (num_cached_block m) ?rid = None \<longrightarrow> skipped_blocks m l \<le> int (length (req_blocks m ?rid)))"
    if mm: "m \<in> set (single_type_managers c1)" for m
  proof -
    obtain i where i: "i < length ?ms" "m = single_type_managers c1 ! i" using mm list_all2_lengthD [OF d] by (auto simp: in_set_conv_nth)
    have "drops (?ms ! i) m" using d i by (simp add: list_all2_nthD)
    then show ?thesis using a(1,2) nth_mem [OF i(1)] by (auto simp: drops_def grows_def plain_mgr_def skipped_blocks_def)
  qed
  have zip0: "(\<Sum>(bl, m) \<leftarrow> zip (replicate (length ms) ([] :: block_ref list)) ms. f m) = (\<Sum>m \<leftarrow> ms. f m)" for f :: "manager \<Rightarrow> int" and ms
    by (induction ms) simp_all
  have len1: "length ?ms = length (single_type_managers c1)" using list_all2_lengthD [OF d] .
  have "co_get_num_blocks_to_allocate ?rid f ?ncbs enc l l f True ?c0 = Inr (\<Sum>(bl, m) \<leftarrow> zip ?ncbs ?ms. gate_owed m ?rid f, ?c0)" for f
    by (rule co_predict) (use a(1,2) gate_running in \<open>auto simp: ncbs set_zip\<close>)
  then have gate: "co_get_num_blocks_to_allocate ?rid f ?ncbs enc l l f True ?c0 = Inr (\<Sum>m \<leftarrow> ?ms. gate_owed m ?rid f, ?c0)" for f
    by (simp add: ncbs zip0)
  have "co_get_num_blocks_to_allocate ?rid n ?ncbs enc l l (l + new) False c1 = Inr (\<Sum>(bl, m) \<leftarrow> zip ?ncbs (single_type_managers c1). owed m ?rid n, c1)"
    by (rule co_predict) (use m1 predict_running in \<open>auto simp: ncbs len1 set_zip\<close>)
  then have predict: "co_get_num_blocks_to_allocate ?rid n ?ncbs enc (l + 0) l (l + new) False c1 = Inr (\<Sum>m \<leftarrow> single_type_managers c1. owed m ?rid n, c1)"
    by (simp add: ncbs len1 zip0)
  have w: "0 \<le> w" using km_okD(6) [OF ok] by (simp add: w_def)
  have take: "\<exists>c3 bls c4. (if \<not> kb_shared ?kb \<or> (0 :: int) < 0 then co_allocate_new_computed_blocks u ?rid ?ncbs l 0 c1 else Inr c1) = Inr c3 \<and>
      co_allocate_new_blocks u ?rid n (l + new) enc c3 = Inr (bls, c4) \<and> (\<forall>m \<in> set (single_type_managers c4). covers ?rid n m)"
    if "(\<Sum>m \<leftarrow> single_type_managers c1. owed m ?rid n) + w \<le> get_num_free_blocks (co_pool c1) - res"
  proof -
    have "\<forall>m \<in> set (single_type_managers c1). plain_mgr m \<and> cow_ready m (co_pool c1) ?rid" using m1 by (simp add: cow_ready_def)
    moreover have "(\<Sum>m \<leftarrow> single_type_managers c1. owed m ?rid n) \<le> num_free_blocks (co_pool c1)"
      using that w res by (simp add: get_num_free_blocks_def)
    ultimately show ?thesis using co_alloc_succeeds [OF c1(1), of ?rid n u "l + new" enc] sh by auto
  qed
  have arg: "new \<noteq> 0 \<or> (0 :: int) \<noteq> 0" using a(3) by simp
  from slots_eval [where P = "\<lambda>bls c. \<forall>m \<in> set (single_type_managers c). covers ?rid n m" and km = km and r = r and new = new and
      new_comp = 0 and kbo = None and look = look and ext = 0 and has = has and ?c1.0 = c1 and res = res and fit = fit and
      enc = enc and u = u and sha = sha and delay = delay, unfolded option.case add_0_right, folded l_def, folded w_def,
      unfolded tot [unfolded add_0_right], folded n_def, OF arg gate skip predict [unfolded add_0_right] take]
  show ?thesis using d skip by blast
qed

section \<open>Properties\<close>

definition given_blocks :: "KVCacheBlocks option \<Rightarrow> kv_cache_manager \<Rightarrow> KVCacheBlocks" where
  "given_blocks kbo km = (case kbo of Some kb \<Rightarrow> kb | None \<Rightarrow> empty_kv_cache_blocks km)"

text \<open>The tokens that need a slot, and the blocks that must stay free.\<close>

definition slots_needed :: "Request \<Rightarrow> int \<Rightarrow> int \<Rightarrow> int \<Rightarrow> int \<Rightarrow> kv_cache_manager \<Rightarrow> int" where
  "slots_needed r new new_comp look ext km = min (num_computed_tokens r + new_comp + ext + new + look) (max_model_len km)"

definition slots_watermark :: "Request \<Rightarrow> bool \<Rightarrow> kv_cache_manager \<Rightarrow> int" where
  "slots_watermark r has km = (if has \<and> (status r = WAITING \<or> status r = PREEMPTED) then watermark_blocks km else 0)"

lemma demo_new_args: "new_request_args (text_request [5, 6, 7] []) 3 0 None 0 0 demo_km"
  using demo_km by (auto simp: new_request_args_def Let_def empty_kv_cache_blocks_def touch_pre_def fresh_in_def hit_ok_def plain_mgr_def
      demo_manager_def base_manager_init_def req_blocks_def get_num_skipped_tokens_def text_request_def fresh_request_def small_full_def)

lemma demo_running_args: "running_request_args (text_request [5, 6, 7] []) 3 1 demo_km"
  using demo_km by (auto simp: running_request_args_def plain_mgr_def skipped_blocks_def demo_manager_def base_manager_init_def
      get_num_skipped_tokens_def text_request_def fresh_request_def small_full_def)

lemma demo_skip: "co_remove_skipped_blocks rid n p (km_coordinator demo_km) = Inr (km_coordinator demo_km)"
proof -
  have "(km_coordinator demo_km)\<lparr>single_type_managers := [demo_manager], co_pool := small_pool\<rparr> = km_coordinator demo_km"
    using demo_km(2,3) by (cases "km_coordinator demo_km") simp
  then show ?thesis
    using demo_km(2,3) by (simp add: co_remove_skipped_blocks_def all_managers_def with_managers_def remove_skipped_blocks_def
        base_remove_skipped_blocks_def demo_manager_def base_manager_init_def get_num_skipped_tokens_def)
qed

lemma demo_counts:
  fixes r defines "r \<equiv> text_request [5, 6, 7] []"
  shows "get_num_free_blocks (km_pool demo_km) = 3" "num_tokens r = 3" "num_computed_tokens r = 0" "slots_watermark r has demo_km = 0"
    "gate_total r 0 0 (kb_blocks (given_blocks None demo_km)) demo_km = 2"
    "slots_cost r 3 0 0 (kb_blocks (given_blocks None demo_km)) (km_coordinator demo_km) = 2" "owed demo_manager (request_id r) 4 = 2"
proof -
  have m: "mgr_block_size demo_manager = 2" "req_blocks demo_manager rid = []" "max_admission_blocks_per_request demo_manager = None"
    "dict_get (partial_hit_reqs demo_manager) rid = None" "skipped_blocks demo_manager n = 0" for rid n
    by (simp_all add: demo_manager_def base_manager_init_def small_full_def req_blocks_def get_num_skipped_tokens_def skipped_blocks_def)
  show "get_num_free_blocks (km_pool demo_km) = 3" using small_pool(3) demo_km(3) by (simp add: free_list_def get_num_free_blocks_def)
  show n: "num_tokens r = 3" "num_computed_tokens r = 0" "slots_watermark r has demo_km = 0"
    using demo_km by (simp_all add: r_def text_request_def fresh_request_def text_message_def initial_token_ids_def slots_watermark_def)
  show "gate_total r 0 0 (kb_blocks (given_blocks None demo_km)) demo_km = 2"
    "slots_cost r 3 0 0 (kb_blocks (given_blocks None demo_km)) (km_coordinator demo_km) = 2"
    using m n demo_km by (simp_all add: gate_total_def slots_cost_def given_blocks_def empty_kv_cache_blocks_def gate_cost_def new_cost_def
        capped_blocks_def cdiv_def has_partial_local_hit_def get_num_evictable_blocks_def)
  show "owed demo_manager (request_id r) 4 = 2" using m by (simp add: owed_def cdiv_def)
qed

text \<open>
  C5.  When a call for a new request is refused, exactly.  In every reachable state, for any mix of attention groups (no Mamba and no
  cross-attention group) with their cache hits, \<^verbatim>\<open>allocate_slots\<close> first drops blocks behind the window.  It returns \<^verbatim>\<open>None\<close> with the
  manager unchanged when the full-sequence gate is asked for and its charge for all tokens of the request plus the watermark exceeds the
  free blocks, and \<^verbatim>\<open>None\<close> after the dropping when the counted blocks plus the watermark exceed the free blocks less the
  reserved ones.  In every other case it is not refused and no allocation fails: all groups get their blocks, every table covers the tokens
  that need a slot, and the call returns the new blocks, after the caching of full blocks when caching is on and not delayed.
\<close>

theorem new_request_admitted:
  assumes "km_reachable (km, X)" and "new_request_args r new new_comp kbo look ext km" and "0 \<le> res"
  shows "\<exists>c1. co_remove_skipped_blocks (request_id r) (max 0 (num_computed_tokens r + new_comp + ext - num_in_flight_tokens r))
      (Some (num_prompt_tokens r)) (km_coordinator km) = Inr c1 \<and>
    list_all2 drops (single_type_managers (km_coordinator km)) (single_type_managers c1) \<and>
    (if fit \<and> get_num_free_blocks (km_pool km) <
         gate_total r (num_computed_tokens r + new_comp) ext (kb_blocks (given_blocks kbo km)) km + slots_watermark r has km
     then allocate_slots sha u r new new_comp kbo look ext delay enc fit res has km = Inr (None, r, km)
     else if get_num_free_blocks (co_pool c1) - res <
         slots_cost r (slots_needed r new new_comp look ext km) (num_computed_tokens r + new_comp) ext (kb_blocks (given_blocks kbo km)) c1 +
         slots_watermark r has km
     then allocate_slots sha u r new new_comp kbo look ext delay enc fit res has km = Inr (None, r, km\<lparr>km_coordinator := c1\<rparr>)
     else \<exists>bls c. (\<forall>m \<in> set (single_type_managers c). covers (request_id r) (slots_needed r new new_comp look ext km) m) \<and>
       allocate_slots sha u r new new_comp kbo look ext delay enc fit res has km =
         (if \<not> km_caching km \<or> delay then Inr (Some (create_kv_cache_blocks bls km), r, km\<lparr>km_coordinator := c\<rparr>)
          else and_then (co_cache_blocks sha u r (min (num_computed_tokens r + new_comp + ext + new) (num_tokens r)) c) (\<lambda>(r, c).
            Inr (Some (create_kv_cache_blocks bls km), r, km\<lparr>km_coordinator := c\<rparr>))))"
  unfolding given_blocks_def slots_needed_def slots_watermark_def finish_slots_def [symmetric]
  by (rule new_request_slots [OF km_reachable_ok [OF assms(1)] assms(2,3)])

theorem new_request_admitted_witness:
  "new_request_args (text_request [5, 6, 7] []) 3 0 None 0 0 demo_km \<and>
   get_num_free_blocks (km_pool demo_km) = 3 \<and> gate_total (text_request [5, 6, 7] []) 0 0 (kb_blocks (given_blocks None demo_km)) demo_km = 2 \<and>
   (\<exists>bls c. (\<forall>m \<in> set (single_type_managers c). covers (request_id (text_request [5, 6, 7] [])) 3 m) \<and>
     allocate_slots (\<lambda>x. x) False (text_request [5, 6, 7] []) 3 0 None 0 0 True 0 True 0 True demo_km =
       Inr (Some (create_kv_cache_blocks bls demo_km), text_request [5, 6, 7] [], demo_km\<lparr>km_coordinator := c\<rparr>)) \<and>
   allocate_slots (\<lambda>x. x) False (text_request [5, 6, 7] []) 3 0 None 0 0 True 0 True 2 True demo_km =
     Inr (None, text_request [5, 6, 7] [], demo_km)"
proof -
  let ?r = "text_request [5, 6, 7] []"
  have km: "demo_km\<lparr>km_coordinator := km_coordinator demo_km\<rparr> = demo_km" by simp
  note d = demo_skip demo_counts slots_needed_def demo_km(4)
  note ok = new_request_admitted [OF demo_km_reachable demo_new_args, where fit = True and has = True and u = False and enc = 0
      and sha = "\<lambda>x. x" and delay = True]
  have "\<exists>bls c. (\<forall>m \<in> set (single_type_managers c). covers (request_id ?r) 3 m) \<and>
      allocate_slots (\<lambda>x. x) False ?r 3 0 None 0 0 True 0 True 0 True demo_km =
        Inr (Some (create_kv_cache_blocks bls demo_km), ?r, demo_km\<lparr>km_coordinator := c\<rparr>)"
    using ok [of 0] by (simp add: d)
  moreover have "allocate_slots (\<lambda>x. x) False ?r 3 0 None 0 0 True 0 True 2 True demo_km = Inr (None, ?r, demo_km)"
    using ok [of 2] by (simp add: d)
  ultimately show ?thesis using demo_new_args demo_counts by blast
qed

text \<open>
  C6.  The same for a running request of a model of attention groups: a decode step or a further chunk of its prompt is refused with
  \<^verbatim>\<open>None\<close> exactly when the gate is asked for and closed (the scheduler does not ask for it here) or the blocks its tables lack, with
  the watermark where it applies, exceed the free blocks less the reserved ones; otherwise all groups get them and every table covers the tokens
  that need a slot.
\<close>

theorem running_request_admitted:
  assumes "km_reachable (km, X)" and "running_request_args r new look km" and "0 \<le> res"
  shows "\<exists>c1. co_remove_skipped_blocks (request_id r) (max 0 (num_computed_tokens r - num_in_flight_tokens r))
      (Some (num_prompt_tokens r)) (km_coordinator km) = Inr c1 \<and>
    list_all2 drops (single_type_managers (km_coordinator km)) (single_type_managers c1) \<and>
    (if fit \<and> get_num_free_blocks (km_pool km) <
         (\<Sum>m \<leftarrow> single_type_managers (km_coordinator km). gate_owed m (request_id r) (min (num_tokens r) (max_model_len km))) +
         slots_watermark r has km
     then allocate_slots sha u r new 0 None look 0 delay enc fit res has km = Inr (None, r, km)
     else if get_num_free_blocks (co_pool c1) - res <
         (\<Sum>m \<leftarrow> single_type_managers c1. owed m (request_id r) (slots_needed r new 0 look 0 km)) + slots_watermark r has km
     then allocate_slots sha u r new 0 None look 0 delay enc fit res has km = Inr (None, r, km\<lparr>km_coordinator := c1\<rparr>)
     else \<exists>bls c. (\<forall>m \<in> set (single_type_managers c). covers (request_id r) (slots_needed r new 0 look 0 km) m) \<and>
       allocate_slots sha u r new 0 None look 0 delay enc fit res has km =
         (if \<not> km_caching km \<or> delay then Inr (Some (create_kv_cache_blocks bls km), r, km\<lparr>km_coordinator := c\<rparr>)
          else and_then (co_cache_blocks sha u r (min (num_computed_tokens r + new) (num_tokens r)) c) (\<lambda>(r, c).
            Inr (Some (create_kv_cache_blocks bls km), r, km\<lparr>km_coordinator := c\<rparr>))))"
  using running_request_slots [OF km_reachable_ok [OF assms(1)] assms(2,3), of fit has sha u delay enc]
  unfolding slots_needed_def slots_watermark_def finish_slots_def by (simp only: add_0_right)

theorem running_request_admitted_witness:
  "running_request_args (text_request [5, 6, 7] []) 3 1 demo_km \<and>
   (\<exists>bls c. (\<forall>m \<in> set (single_type_managers c). covers (request_id (text_request [5, 6, 7] [])) 4 m) \<and>
     allocate_slots (\<lambda>x. x) False (text_request [5, 6, 7] []) 3 0 None 1 0 True 0 False 1 True demo_km =
       Inr (Some (create_kv_cache_blocks bls demo_km), text_request [5, 6, 7] [], demo_km\<lparr>km_coordinator := c\<rparr>)) \<and>
   allocate_slots (\<lambda>x. x) False (text_request [5, 6, 7] []) 3 0 None 1 0 True 0 False 2 True demo_km =
     Inr (None, text_request [5, 6, 7] [], demo_km)"
proof -
  note d = demo_skip demo_counts slots_needed_def demo_km(2,4)
  note ok = running_request_admitted [OF demo_km_reachable demo_running_args, where fit = False and has = True and u = False and enc = 0
      and sha = "\<lambda>x. x" and delay = True]
  show ?thesis using demo_running_args ok [of 1] ok [of 2] by (auto simp: d)
qed

end
