(* ===== verification/Prefix_Admission.thy ===== *)
theory Prefix_Admission
  imports Kv_Manager_Admission
begin

text \<open>
  A request arrives: the prefix-cache lookup and the allocation together.  What \<^verbatim>\<open>get_computed_blocks\<close> returns is what
  \<^verbatim>\<open>allocate_slots\<close> relies on, so an arriving request is refused exactly for lack of blocks and otherwise gets them.  This is for a
  hybrid coordinator of full-attention and sliding-window groups with hits of whole blocks, without EAGLE and context parallelism.
\<close>

section \<open>The lookup of a request\<close>

text \<open>The managers belong to the groups of the lookup; windows are at least one token.\<close>

definition groups_match :: "coordinator \<Rightarrow> bool" where
  "groups_match c \<longleftrightarrow> length (single_type_managers c) = length (kv_cache_groups (co_config c)) \<and>
     (\<forall>i < length (single_type_managers c). mgr_caching (single_type_managers c ! i) \<and>
        (mgr_class (single_type_managers c ! i) = FullAttentionManager \<or>
         mgr_class (single_type_managers c ! i) = SlidingWindowManager \<and> 1 \<le> mgr_sliding_window (single_type_managers c ! i) \<and>
           0 \<le> mgr_extra_retained_tokens (single_type_managers c ! i)) \<and>
        (\<exists>g \<in> set (attention_groups c). int i \<in> set (sg_group_ids g)))"

text \<open>A request that arrives: its tokens are hashed in whole units, it fits the model and no group knows it.\<close>

definition arrives :: "Request \<Rightarrow> kv_cache_manager \<Rightarrow> bool" where
  "arrives r km \<longleftrightarrow> prefix_cache_lookup_enabled r km \<and> num_computed_tokens r = 0 \<and> 0 < num_tokens r \<and> num_tokens r \<le> max_model_len km \<and>
     0 \<le> num_prompt_tokens r \<and> nat (num_tokens r - 1) div nat (hash_block_size (km_pool km)) \<le> length (block_hashes r) \<and>
     (\<forall>m \<in> set (single_type_managers (km_coordinator km)). fresh_in (request_id r) m)"

lemma created_blocks:
  assumes "length bls = num_kv_cache_groups km"
  shows "kb_blocks (create_kv_cache_blocks bls km) = bls"
    and "kb_shared (create_kv_cache_blocks bls km) \<longleftrightarrow> list_all (\<lambda>bl. bl = []) bls"
proof -
  have "bls = replicate (length bls) []" if "\<not> list_ex (\<lambda>g. g \<noteq> []) bls"
    using that by (induction bls) auto
  then show "kb_blocks (create_kv_cache_blocks bls km) = bls"
    using assms by (auto simp: create_kv_cache_blocks_def empty_kv_cache_blocks_def)
  show "kb_shared (create_kv_cache_blocks bls km) \<longleftrightarrow> list_all (\<lambda>bl. bl = []) bls"
    by (auto simp: create_kv_cache_blocks_def empty_kv_cache_blocks_def list_ex_iff list_all_iff)
qed

text \<open>The list that the lookup returns for a manager is what the allocation expects of a hit.\<close>

lemma usable_hit_ok:
  assumes ok: "hybrid_ok c AL" and inv: "pool_inv (co_pool c)" and m: "i < length (single_type_managers c)" "mgr_caching (single_type_managers c ! i)"
    and g: "g \<in> set (attention_groups c)" "int i \<in> set (sg_group_ids g)" and u: "usable_hit (co_pool c) hs AL g t bls"
  shows "hit_ok (single_type_managers c ! i) (co_pool c) (bls ! i) (int (t * AL))"
    and "length (bls ! i) = t * (AL div block_tokens g)" and "0 < AL div block_tokens g" and "0 < mgr_block_size (single_type_managers c ! i)"
proof -
  let ?m = "single_type_managers c ! i" and ?e = "t * (AL div block_tokens g)"
  obtain k where k: "k < length (sg_group_ids g)" "sg_group_ids g ! k = int i" using g(2) by (auto simp: in_set_conv_nth)
  have bl: "length (bls ! i) = ?e" "\<forall>j < ?e. bls ! i ! j = null_block (co_pool c) \<or> (\<exists>h. carries (co_pool c) (bls ! i ! j) h (int i))"
    using u [unfolded usable_hit_def Let_def, rule_format, OF k(1)] by (auto simp: k(2))
  then show "length (bls ! i) = ?e" by simp
  have sz: "sizes_ok (co_pool c) AL g" using ok g(1) by (simp add: hybrid_ok_def lookup_ok_def)
  have "\<forall>j \<in> set (sg_group_ids g). mgr_block_size (single_type_managers c ! nat j) = spec_block_size (sg_spec g)"
    using ok g(1) by (simp add: hybrid_ok_def)
  from bspec [OF this g(2)] have bs: "mgr_block_size ?m = int (block_tokens g)" using sz by (simp add: sizes_ok_def block_tokens_def)
  from sz have d: "block_tokens g dvd AL" "0 < block_tokens g" "0 < AL" by (auto simp: sizes_ok_def block_tokens_def)
  then show pos: "0 < AL div block_tokens g" by (simp add: div_greater_zero_iff dvd_imp_le)
  show bs0: "0 < mgr_block_size ?m" using bs d(2) by simp
  have "t * AL = ?e * block_tokens g" using d(1) by simp
  then have l: "int (t * AL) = int ?e * mgr_block_size ?m" unfolding bs by (metis of_nat_mult)
  have nb: "null_block (co_pool c) = Blk 0" "0 < num_gpu_blocks (co_pool c)" using free_invD(4,5) inv by (simp_all add: pool_inv_def)
  have "pool_block (co_pool c) x" if x: "x \<in> set (bls ! i)" for x
  proof -
    obtain j where "j < ?e" "x = bls ! i ! j" using x bl(1) by (auto simp: in_set_conv_nth)
    then show ?thesis using bl(2) nb by (auto simp: carries_def)
  qed
  then have "in_pool (co_pool c) (bls ! i)" by (simp add: in_pool_all)
  then show "hit_ok ?m (co_pool c) (bls ! i) (int (t * AL))"
    using m(2) bl(1) bs0 unfolding hit_ok_def l by (simp add: cdiv_mult)
qed

lemma window_skips: "groups_match c \<Longrightarrow> i < length (single_type_managers c) \<Longrightarrow> 0 \<le> n \<Longrightarrow> get_num_skipped_tokens (single_type_managers c ! i) n \<le> n"
  by (auto simp: groups_match_def get_num_skipped_tokens_def swa_num_skipped_tokens_def)

lemma arrival_args:
  assumes ok: "km_ok (km, X)" and h: "hybrid_ok (km_coordinator km) AL" and gm: "groups_match (km_coordinator km)" and ar: "arrives r km"
    and len: "length bls = num_kv_cache_groups km" and t: "int (t * AL) \<le> num_tokens r - 1" and new: "0 < new" "0 \<le> look"
    and u: "\<forall>g \<in> set (attention_groups (km_coordinator km)). usable_hit (km_pool km) hs AL g t bls"
  shows "new_request_args r new (int (t * AL)) (Some (create_kv_cache_blocks bls km)) look 0 km"
proof -
  let ?c = "km_coordinator km" and ?rid = "request_id r" and ?l = "int (t * AL)"
  let ?ms = "single_type_managers ?c"
  have inv: "pool_inv (km_pool km)" using km_okD(2) [OF ok] by (simp add: client_inv_def)
  have lm: "length bls = length ?ms" using len km_okD(5) [OF ok] by simp
  have grp: "\<exists>g \<in> set (attention_groups ?c). int i \<in> set (sg_group_ids g)" "mgr_caching (?ms ! i)" if "i < length ?ms" for i
    using gm that by (auto simp: groups_match_def)
  have touch: "touch_pre ?rid ?l 0 (bls ! i) (?ms ! i) (km_pool km)" if i: "i < length ?ms" for i
  proof -
    obtain g where g: "g \<in> set (attention_groups ?c)" "int i \<in> set (sg_group_ids g)" using grp [OF i] by blast
    note uh = usable_hit_ok [OF h inv i grp(2) [OF i] g u [rule_format, OF g(1)]]
    have "plain_mgr (?ms ! i)" using gm i by (auto simp: groups_match_def plain_mgr_def)
    then show ?thesis
      using uh(1,4) window_skips [OF gm i, of ?l] ar i by (simp add: touch_pre_def arrives_def)
  qed
  have l0: "?l = 0" if e: "list_all (\<lambda>bl. bl = []) bls"
  proof -
    obtain g where g: "g \<in> set (attention_groups ?c)" using h by (cases "attention_groups ?c") (auto simp: hybrid_ok_def)
    obtain i ids where "sg_group_ids g = int i # ids" "i < length ?ms" using group_first [OF h g] by blast
    then have i: "int i \<in> set (sg_group_ids g)" "i < length ?ms" by simp_all
    note uh = usable_hit_ok(2,3) [OF h inv i(2) grp(2) [OF i(2)] g i(1) u [rule_format, OF g]]
    then have "t * (AL div block_tokens g) = 0" using e i(2) lm by (auto simp: list_all_length)
    then show ?thesis using uh(2) by auto
  qed
  show ?thesis
    using ar lm touch l0 t new created_blocks [OF len]
    by (auto simp: new_request_args_def Let_def arrives_def set_zip)
qed

lemma arrival_lookup:
  assumes h: "hybrid_ok (km_coordinator km) AL" and ar: "arrives r km" and cl: "co_class (km_coordinator km) = HybridKVCacheCoordinator"
    and ev: "\<not> (km_events km \<and> full)"
  shows "\<exists>bls t b. get_computed_blocks sha u full r km = Some (Inr ((create_kv_cache_blocks bls km, int (t * AL), b), r, km)) \<and>
    common_hit (km_coordinator km) (block_hashes r) AL (nat (num_tokens r - 1) div AL) t \<and>
    length bls = length (kv_cache_groups (co_config (km_coordinator km))) \<and>
    (\<forall>g \<in> set (attention_groups (km_coordinator km)). usable_hit (km_pool km) (block_hashes r) AL g t bls)"
proof -
  let ?c = "km_coordinator km"
  have a: "prefix_cache_lookup_enabled r km" "0 \<le> num_tokens r - 1"
    "nat (num_tokens r - 1) div nat (hash_block_size (co_pool ?c)) \<le> length (block_hashes r)" using ar by (simp_all add: arrives_def)
  from hybrid_hit_core [OF h a(3)] obtain bls t unc where
    hit: "hybrid_find_longest_cache_hit (block_hashes r) (num_tokens r - 1) ?c = Some (Inr (bls, int (t * AL), unc))"
    "common_hit ?c (block_hashes r) AL (nat (num_tokens r - 1) div AL) t" "length bls = length (kv_cache_groups (co_config ?c))"
    "\<forall>g \<in> set (attention_groups ?c). usable_hit (co_pool ?c) (block_hashes r) AL g t bls" using a(2) by auto
  have "co_find_longest_cache_hit (block_hashes r) (num_tokens r - 1) ?c = Some (Inr (bls, int (t * AL), unc))"
    using hit(1) cl by (simp add: co_find_longest_cache_hit_def)
  moreover have "set_km_pool (km_pool km) km = km" by (simp add: set_km_pool_def)
  ultimately have "get_computed_blocks sha u full r km =
      Some (Inr ((create_kv_cache_blocks bls km, int (t * AL), if unc \<noteq> 0 then int (t * AL) + unc else 0), r, km))"
    using a(1) ev unfolding get_computed_blocks_def by auto
  then show ?thesis using hit(2-4) by blast
qed

section \<open>A small model\<close>

text \<open>A model with a full-attention group and a sliding-window group.\<close>

definition duo_config :: KVCacheConfig where
  "duo_config = \<lparr>num_blocks = 4, kv_cache_tensors = [],
     kv_cache_groups = [\<lparr>layer_names = [''l0''], group_spec = small_full 2, is_eagle_group = False\<rparr>,
       \<lparr>layer_names = [''l1''], group_spec = small_swa 3, is_eagle_group = False\<rparr>],
     prefix_cache_retention_interval = None, kv_cache_layout = None\<rparr>"

definition duo_km :: kv_cache_manager where
  "duo_km = (case KVCacheManager_init builtin_registry duo_config 8 2 2 None True False 0 False False 1 1 None 0 of Inr km \<Rightarrow> km)"

lemma duo_km_eval:
  "\<exists>km. KVCacheManager_init builtin_registry duo_config 8 2 2 None True False 0 False False 1 1 None 0 = Inr km \<and>
    km_pool km = small_pool \<and> max_model_len km = 8 \<and> km_caching km \<and> \<not> km_events km \<and>
    co_class (km_coordinator km) = HybridKVCacheCoordinator \<and> co_config (km_coordinator km) = duo_config \<and>
    co_dcp_world_size (km_coordinator km) = 1 \<and> cache_hit_alignment_tokens (km_coordinator km) = 2 \<and>
    attention_groups (km_coordinator km) = [\<lparr>sg_spec = small_full 2, sg_group_ids = [0], sg_manager_cls = FullAttentionManager, sg_use_eagle = False\<rparr>,
      \<lparr>sg_spec = small_swa 3, sg_group_ids = [1], sg_manager_cls = SlidingWindowManager, sg_use_eagle = False\<rparr>] \<and>
    map (\<lambda>m. (mgr_class m, mgr_block_size m, mgr_caching m, mgr_sliding_window m, mgr_extra_retained_tokens m,
        req_to_blocks m, num_cached_block m, partial_hit_reqs m)) (single_type_managers (km_coordinator km)) =
      [(FullAttentionManager, 2, True, 0, 0, [], [], []), (SlidingWindowManager, 2, True, 3, 0, [], [], [])]"
  using small_pool(1)
  by (simp add: KVCacheManager_init_def get_kv_cache_coordinator_def coordinator_base_init_def duo_config_def block_sizes_divide_def
      py_mod_def small_full_def small_swa_def small_attention_def get_manager_for_kv_cache_spec_def get_manager_class_def Let_def manager_init_def
      hybrid_init_def verify_and_split_kv_cache_groups_def py_index_def validate_prefix_cache_retention_interval_def initial_eagle_group_ids_def
      base_manager_init_def needs_kv_cache_zeroing_def has_mamba_layers_def has_mixed_precision_kv_cache_def isinstance_def map_filter_def
      has_partial_mamba_group_def is_full_group_def mark_eagle_def cache_hit_alignment_tokens_def)

lemma duo_reachable: "km_reachable (duo_km, {#})"
proof -
  have "KVCacheManager_init builtin_registry duo_config 8 2 2 None True False 0 False False 1 1 None 0 = Inr duo_km"
    using duo_km_eval by (auto simp: duo_km_def)
  then show ?thesis by (rule kr_init) (simp add: duo_config_def spec_sizes_ok_def small_full_def small_swa_def small_attention_def)
qed

lemma duo_shape:
  "co_class (km_coordinator duo_km) = HybridKVCacheCoordinator" "\<not> km_events duo_km" "hybrid_ok (km_coordinator duo_km) 2"
  "groups_match (km_coordinator duo_km)" "arrives (text_request [5, 6, 7] [[9]]) duo_km"
proof -
  let ?c = "km_coordinator duo_km"
  obtain m0 m1 where d: "km_pool duo_km = small_pool" "max_model_len duo_km = 8" "km_caching duo_km" "co_config ?c = duo_config"
    "co_dcp_world_size ?c = 1" "cache_hit_alignment_tokens ?c = 2"
    "attention_groups ?c = [\<lparr>sg_spec = small_full 2, sg_group_ids = [0], sg_manager_cls = FullAttentionManager, sg_use_eagle = False\<rparr>,
      \<lparr>sg_spec = small_swa 3, sg_group_ids = [1], sg_manager_cls = SlidingWindowManager, sg_use_eagle = False\<rparr>]"
    "single_type_managers ?c = [m0, m1]" "mgr_class m0 = FullAttentionManager" "mgr_class m1 = SlidingWindowManager"
    "mgr_block_size m0 = 2" "mgr_block_size m1 = 2" "mgr_caching m0" "mgr_caching m1" "mgr_sliding_window m1 = 3" "mgr_extra_retained_tokens m1 = 0"
    and n: "req_to_blocks m0 = []" "num_cached_block m0 = []" "partial_hit_reqs m0 = []" "req_to_blocks m1 = []" "num_cached_block m1 = []" "partial_hit_reqs m1 = []"
    and "co_class ?c = HybridKVCacheCoordinator" "\<not> km_events duo_km"
    using duo_km_eval by (auto simp: duo_km_def)
  then show "co_class ?c = HybridKVCacheCoordinator" "\<not> km_events duo_km" by simp_all
  show "hybrid_ok ?c 2"
    using d small_pool by (simp add: hybrid_ok_def lookup_ok_def group_ok_def sizes_ok_def is_full_group_def block_tokens_def groups_valid_def
        duo_config_def isinstance_def small_full_def small_swa_def small_attention_def plain_attention_def)
  show "groups_match ?c" using d by (auto simp: groups_match_def duo_config_def less_Suc_eq)
  show "arrives (text_request [5, 6, 7] [[9]]) duo_km"
    using d n small_pool by (auto simp: arrives_def prefix_cache_lookup_enabled_def text_request_def fresh_request_def fresh_in_def
        req_blocks_def text_message_def initial_token_ids_def)
qed

lemma duo_skip:
  "co_remove_skipped_blocks rid 0 p (km_coordinator duo_km) = Inr (km_coordinator duo_km)"
proof -
  let ?c = "km_coordinator duo_km"
  obtain m0 m1 where d: "single_type_managers ?c = [m0, m1]" "mgr_class m0 = FullAttentionManager" "mgr_class m1 = SlidingWindowManager"
    "mgr_sliding_window m1 = 3" "mgr_extra_retained_tokens m1 = 0"
    using duo_km_eval by (auto simp: duo_km_def)
  have "?c\<lparr>single_type_managers := [m0, m1], co_pool := co_pool ?c\<rparr> = ?c" using d(1) by (cases ?c) simp
  then show ?thesis
    using d by (simp add: co_remove_skipped_blocks_def all_managers_def with_managers_def remove_skipped_blocks_def
        base_remove_skipped_blocks_def get_num_skipped_tokens_def swa_num_skipped_tokens_def)
qed

text \<open>Nothing is cached in a new pool, so the common prefix is empty, and each group needs one block for one token.\<close>

lemma duo_no_hit:
  assumes "\<forall>g \<in> set (attention_groups (km_coordinator duo_km)). usable_hit (km_pool duo_km) hs 2 g t bls"
  shows "t = 0"
proof -
  have d: "km_pool duo_km = small_pool" "attention_groups (km_coordinator duo_km) =
     [\<lparr>sg_spec = small_full 2, sg_group_ids = [0], sg_manager_cls = FullAttentionManager, sg_use_eagle = False\<rparr>,
      \<lparr>sg_spec = small_swa 3, sg_group_ids = [1], sg_manager_cls = SlidingWindowManager, sg_use_eagle = False\<rparr>]"
    using duo_km_eval by (auto simp: duo_km_def)
  let ?g = "\<lparr>sg_spec = small_full 2, sg_group_ids = [0], sg_manager_cls = FullAttentionManager, sg_use_eagle = False\<rparr>"
  have u: "usable_hit small_pool hs 2 ?g t bls" using assms by (simp add: d)
  show ?thesis
  proof (rule ccontr)
    assume "t \<noteq> 0"
    then show False
      using u small_pool(7) by (auto simp: usable_hit_def Let_def block_tokens_def small_full_def small_attention_def carries_def tail_need_def dest!: spec [of _ "t - 1"])
  qed
qed

lemma duo_cost:
  assumes "length bls = 2" and "\<forall>g \<in> set (attention_groups (km_coordinator duo_km)). usable_hit (km_pool duo_km) hs 2 g 0 bls"
  shows "slots_cost (text_request [5, 6, 7] [[9]]) 1 0 0 (kb_blocks (create_kv_cache_blocks bls duo_km)) (km_coordinator duo_km) = 2"
proof -
  let ?c = "km_coordinator duo_km"
  obtain m0 m1 where d: "single_type_managers ?c = [m0, m1]" "mgr_class m0 = FullAttentionManager" "mgr_class m1 = SlidingWindowManager"
    "mgr_block_size m0 = 2" "mgr_block_size m1 = 2" "mgr_sliding_window m1 = 3" "mgr_extra_retained_tokens m1 = 0" "km_pool duo_km = small_pool"
    "attention_groups ?c =
      [\<lparr>sg_spec = small_full 2, sg_group_ids = [0], sg_manager_cls = FullAttentionManager, sg_use_eagle = False\<rparr>,
       \<lparr>sg_spec = small_swa 3, sg_group_ids = [1], sg_manager_cls = SlidingWindowManager, sg_use_eagle = False\<rparr>]"
    using duo_km_eval by (auto simp: duo_km_def)
  have "bls ! 0 = []" "bls ! 1 = []" using assms(2) by (auto simp: d usable_hit_def Let_def)
  then have bls: "bls = [[], []]" using assms(1) by (auto simp: length_Suc_conv numeral_2_eq_2)
  have "num_kv_cache_groups duo_km = 2" using km_okD(5) [OF km_reachable_ok [OF duo_reachable]] d(1) by simp
  then have "kb_blocks (create_kv_cache_blocks bls duo_km) = [[], []]" using created_blocks(1) [of bls duo_km] bls by simp
  then show ?thesis
    using d by (simp add: slots_cost_def new_cost_def skipped_blocks_def get_num_skipped_tokens_def swa_num_skipped_tokens_def cdiv_def
        has_partial_local_hit_def get_num_evictable_blocks_def)
qed

section \<open>Properties\<close>

text \<open>
  C4.  An arriving request is admitted with the longest cached prefix, or refused exactly for lack of blocks.  The coordinator is the
  hybrid one, with full-attention (at most one specification) and sliding-window groups, no EAGLE, no decode context parallelism and
  hits of whole blocks; the request is new, hashed and fits the model; events of full prefixes are not asked for.  In every reachable state
  the lookup leaves request and manager alone and reports the longest prefix that every group can serve, with the blocks that
  carry it.  The allocation with those blocks returns \<^verbatim>\<open>None\<close> and leaves the manager alone when the full-sequence gate is asked for and its
  charge plus the watermark exceeds the free blocks; it returns \<^verbatim>\<open>None\<close> when the counted blocks plus the watermark exceed the free
  blocks less the reserved ones; in every other case no allocation fails, every group has a table that covers the prefix, the
  new tokens and the lookahead, and what is left of the call is the caching of full blocks, when caching is not delayed.
\<close>

theorem arrival_admitted:
  assumes "km_reachable (km, X)" and "co_class (km_coordinator km) = HybridKVCacheCoordinator" and "hybrid_ok (km_coordinator km) AL"
    and "groups_match (km_coordinator km)" and "arrives r km" and "\<not> (km_events km \<and> full)" and "0 < new" "0 \<le> look" "0 \<le> res"
  shows "\<exists>bls kb t b c1. get_computed_blocks sha u full r km = Some (Inr ((kb, int (t * AL), b), r, km)) \<and>
    common_hit (km_coordinator km) (block_hashes r) AL (nat (num_tokens r - 1) div AL) t \<and>
    kb = create_kv_cache_blocks bls km \<and> length bls = length (single_type_managers (km_coordinator km)) \<and>
    (\<forall>g \<in> set (attention_groups (km_coordinator km)). usable_hit (km_pool km) (block_hashes r) AL g t bls) \<and>
    co_remove_skipped_blocks (request_id r) (max 0 (int (t * AL) - num_in_flight_tokens r)) (Some (num_prompt_tokens r)) (km_coordinator km) = Inr c1 \<and>
    (if fit \<and> get_num_free_blocks (km_pool km) < gate_total r (int (t * AL)) 0 (kb_blocks kb) km + slots_watermark r has km
     then allocate_slots sha u r new (int (t * AL)) (Some kb) look 0 delay enc fit res has km = Inr (None, r, km)
     else if get_num_free_blocks (co_pool c1) - res <
         slots_cost r (slots_needed r new (int (t * AL)) look 0 km) (int (t * AL)) 0 (kb_blocks kb) c1 + slots_watermark r has km
     then allocate_slots sha u r new (int (t * AL)) (Some kb) look 0 delay enc fit res has km = Inr (None, r, km\<lparr>km_coordinator := c1\<rparr>)
     else \<exists>new_bls c. (\<forall>m \<in> set (single_type_managers c). covers (request_id r) (slots_needed r new (int (t * AL)) look 0 km) m) \<and>
       allocate_slots sha u r new (int (t * AL)) (Some kb) look 0 delay enc fit res has km =
         (if delay then Inr (Some (create_kv_cache_blocks new_bls km), r, km\<lparr>km_coordinator := c\<rparr>)
          else and_then (co_cache_blocks sha u r (min (int (t * AL) + new) (num_tokens r)) c) (\<lambda>(r, c).
            Inr (Some (create_kv_cache_blocks new_bls km), r, km\<lparr>km_coordinator := c\<rparr>))))"
proof -
  have ok: "km_ok (km, X)" by (rule km_reachable_ok [OF assms(1)])
  from arrival_lookup [OF assms(3,5,2,6), of sha u] obtain bls t b where
    g: "get_computed_blocks sha u full r km = Some (Inr ((create_kv_cache_blocks bls km, int (t * AL), b), r, km))"
    and hit: "common_hit (km_coordinator km) (block_hashes r) AL (nat (num_tokens r - 1) div AL) t"
    and bls: "length bls = length (kv_cache_groups (co_config (km_coordinator km)))"
    "\<forall>g \<in> set (attention_groups (km_coordinator km)). usable_hit (km_pool km) (block_hashes r) AL g t bls" by blast
  have lm: "length bls = length (single_type_managers (km_coordinator km))" using bls(1) assms(4) by (simp add: groups_match_def)
  then have len: "length bls = num_kv_cache_groups km" using km_okD(5) [OF ok] by simp
  have "t * AL \<le> nat (num_tokens r - 1)"
    using hit order.trans [OF mult_le_mono1 div_times_less_eq_dividend] by (auto simp: common_hit_def)
  moreover have "0 < num_tokens r" using assms(5) by (simp only: arrives_def)
  ultimately have t: "int (t * AL) \<le> num_tokens r - 1" by linarith
  have n0: "num_computed_tokens r = 0" and cc: "km_caching km" using assms(5) by (simp_all add: arrives_def prefix_cache_lookup_enabled_def)
  note args = arrival_args [OF ok assms(3,4,5) len t assms(7,8) bls(2)]
  from new_request_slots [OF ok args assms(9), of fit has sha u delay enc, unfolded n0 option.case add_0_left add_0_right] obtain c1 where
    c1: "co_remove_skipped_blocks (request_id r) (max 0 (int (t * AL) - num_in_flight_tokens r)) (Some (num_prompt_tokens r)) (km_coordinator km) = Inr c1"
    and *: "if fit \<and> get_num_free_blocks (km_pool km) < gate_total r (int (t * AL)) 0 (kb_blocks (create_kv_cache_blocks bls km)) km + slots_watermark r has km
     then allocate_slots sha u r new (int (t * AL)) (Some (create_kv_cache_blocks bls km)) look 0 delay enc fit res has km = Inr (None, r, km)
     else if get_num_free_blocks (co_pool c1) - res <
         slots_cost r (slots_needed r new (int (t * AL)) look 0 km) (int (t * AL)) 0 (kb_blocks (create_kv_cache_blocks bls km)) c1 + slots_watermark r has km
     then allocate_slots sha u r new (int (t * AL)) (Some (create_kv_cache_blocks bls km)) look 0 delay enc fit res has km = Inr (None, r, km\<lparr>km_coordinator := c1\<rparr>)
     else \<exists>new_bls c. (\<forall>m \<in> set (single_type_managers c). covers (request_id r) (slots_needed r new (int (t * AL)) look 0 km) m) \<and>
       allocate_slots sha u r new (int (t * AL)) (Some (create_kv_cache_blocks bls km)) look 0 delay enc fit res has km =
         finish_slots sha u r (int (t * AL) + new) delay new_bls c km"
    unfolding slots_needed_def slots_watermark_def n0 add_0_left add_0_right by blast
  have fin: "finish_slots sha u r n delay bl c km = (if delay then Inr (Some (create_kv_cache_blocks bl km), r, km\<lparr>km_coordinator := c\<rparr>)
      else and_then (co_cache_blocks sha u r (min n (num_tokens r)) c) (\<lambda>(r, c). Inr (Some (create_kv_cache_blocks bl km), r, km\<lparr>km_coordinator := c\<rparr>)))"
    for n bl c using cc by (simp add: finish_slots_def)
  show ?thesis by (rule exI [of _ bls]) (use g hit lm bls(2) c1 * [unfolded fin] in blast)
qed

theorem arrival_admitted_witness:
  "\<exists>kb b. get_computed_blocks (\<lambda>x. x) False False (text_request [5, 6, 7] [[9]]) duo_km =
      Some (Inr ((kb, 0, b), text_request [5, 6, 7] [[9]], duo_km)) \<and>
    (\<exists>bls c. (\<forall>m \<in> set (single_type_managers c). covers (request_id (text_request [5, 6, 7] [[9]])) 1 m) \<and>
      allocate_slots (\<lambda>x. x) False (text_request [5, 6, 7] [[9]]) 1 0 (Some kb) 0 0 True 0 False 0 False duo_km =
        Inr (Some (create_kv_cache_blocks bls duo_km), text_request [5, 6, 7] [[9]], duo_km\<lparr>km_coordinator := c\<rparr>)) \<and>
    allocate_slots (\<lambda>x. x) False (text_request [5, 6, 7] [[9]]) 1 0 (Some kb) 0 0 True 0 False 2 False duo_km =
      Inr (None, text_request [5, 6, 7] [[9]], duo_km)"
proof -
  let ?r = "text_request [5, 6, 7] [[9]]"
  have r: "num_computed_tokens ?r = 0" "num_in_flight_tokens ?r = 0" by (simp_all add: text_request_def fresh_request_def)
  have km: "max_model_len duo_km = 8" "get_num_free_blocks (km_pool duo_km) = 3" "length (single_type_managers (km_coordinator duo_km)) = 2"
    using duo_km_eval small_pool(3) by (auto simp: duo_km_def free_list_def get_num_free_blocks_def)
  have ev: "\<not> (km_events duo_km \<and> False)" by simp
  note ok = arrival_admitted [OF duo_reachable duo_shape(1,3,4,5) ev zero_less_one order.refl, where fit = False and has = False
      and u = False and enc = 0 and sha = "\<lambda>x. x" and delay = True, unfolded km(3) simp_thms if_True if_False]
  have "\<exists>kb b. get_computed_blocks (\<lambda>x. x) False False ?r duo_km = Some (Inr ((kb, 0, b), ?r, duo_km)) \<and>
      (if 3 - res < 2 then allocate_slots (\<lambda>x. x) False ?r 1 0 (Some kb) 0 0 True 0 False res False duo_km = Inr (None, ?r, duo_km)
       else \<exists>bls c. (\<forall>m \<in> set (single_type_managers c). covers (request_id ?r) 1 m) \<and>
         allocate_slots (\<lambda>x. x) False ?r 1 0 (Some kb) 0 0 True 0 False res False duo_km =
           Inr (Some (create_kv_cache_blocks bls duo_km), ?r, duo_km\<lparr>km_coordinator := c\<rparr>))" if res: "0 \<le> res" for res
  proof -
    from ok [OF res] obtain bls kb t b c1 where a: "get_computed_blocks (\<lambda>x. x) False False ?r duo_km = Some (Inr ((kb, int (t * 2), b), ?r, duo_km))"
      "kb = create_kv_cache_blocks bls duo_km" "length bls = 2" "\<forall>g \<in> set (attention_groups (km_coordinator duo_km)). usable_hit (km_pool duo_km) (block_hashes ?r) 2 g t bls"
      "co_remove_skipped_blocks (request_id ?r) (max 0 (int (t * 2) - num_in_flight_tokens ?r)) (Some (num_prompt_tokens ?r)) (km_coordinator duo_km) = Inr c1"
      and x: "if get_num_free_blocks (co_pool c1) - res < slots_cost ?r (slots_needed ?r 1 (int (t * 2)) 0 0 duo_km) (int (t * 2)) 0 (kb_blocks kb) c1 + slots_watermark ?r False duo_km
       then allocate_slots (\<lambda>x. x) False ?r 1 (int (t * 2)) (Some kb) 0 0 True 0 False res False duo_km = Inr (None, ?r, duo_km\<lparr>km_coordinator := c1\<rparr>)
       else \<exists>bls c. (\<forall>m \<in> set (single_type_managers c). covers (request_id ?r) (slots_needed ?r 1 (int (t * 2)) 0 0 duo_km) m) \<and>
         allocate_slots (\<lambda>x. x) False ?r 1 (int (t * 2)) (Some kb) 0 0 True 0 False res False duo_km =
           Inr (Some (create_kv_cache_blocks bls duo_km), ?r, duo_km\<lparr>km_coordinator := c\<rparr>)"
      by blast
    have t: "t = 0" by (rule duo_no_hit [OF a(4)])
    then have c1: "c1 = km_coordinator duo_km" using a(5) duo_skip r by simp
    have cost: "slots_cost ?r 1 0 0 (kb_blocks kb) (km_coordinator duo_km) = 2" using duo_cost [OF a(3)] a(2,4) t by simp
    have n: "slots_needed ?r 1 0 0 0 duo_km = 1" "slots_watermark ?r False duo_km = 0" using r km(1) by (simp_all add: slots_needed_def slots_watermark_def)
    show ?thesis using a(1) x by (auto simp: t c1 cost n km(2) split: if_splits)
  qed
  from this [of 0] this [of 2] show ?thesis by fastforce
qed

end
