(* ===== verification/Kv_Layout.thy ===== *)
theory Kv_Layout
  imports Kv_Coordinator
begin

text \<open>
  The physical placement of KV cache pages: layouts (\<^verbatim>\<open>vllm/v1/kv_cache_layout.py\<close>), byte strides and views
  (\<^verbatim>\<open>vllm/v1/kv_cache_interface.py\<close>) and their use by a worker (\<^verbatim>\<open>allocate_kv_cache\<close> of \<^verbatim>\<open>vllm/v1/worker/utils.py\<close>).

  A view of the flat byte buffer is its start, its shape and its strides over block, head, state and content byte; the
  reinterpretation at the data type of the layer does not move bytes and is left out.
\<close>

section \<open>Layouts\<close>

text \<open>Logical axes: 0 is the layer, 1 the block, 2 the head, 3 the state, 4 the content.\<close>

fun stride_order :: "KVCacheLayout \<Rightarrow> nat list" where
  "stride_order LBHNC = [0, 1, 2, 3, 4]"
| "stride_order LBNHC = [0, 1, 3, 2, 4]"
| "stride_order LHBNC = [0, 2, 1, 3, 4]"
| "stride_order BLHNC = [1, 0, 2, 3, 4]"
| "stride_order BLNHC = [1, 0, 3, 2, 4]"
| "stride_order BHLNC = [1, 2, 0, 3, 4]"

definition layer_view_order :: "KVCacheLayout \<Rightarrow> nat list" where
  "layer_view_order l = map (\<lambda>i. i - 1) (filter (\<lambda>i. i \<noteq> 0) (stride_order l))"

definition is_layer_compact :: "KVCacheLayout \<Rightarrow> bool" where
  "is_layer_compact l = (stride_order l ! 0 = 0)"

definition is_block_contiguous :: "KVCacheLayout \<Rightarrow> bool" where
  "is_block_contiguous l = (drop 2 (stride_order l) = [2, 3, 4])"

definition is_block_compact :: "KVCacheLayout \<Rightarrow> bool" where
  "is_block_compact l = (set (take 2 (stride_order l)) = {0, 1})"

definition is_block_outermost :: "KVCacheLayout \<Rightarrow> bool" where
  "is_block_outermost l = (stride_order l ! 0 = 1)"

section \<open>Shapes and strides\<close>

text \<open>The attributes of a specification that shape a page; a group specification has none of them.\<close>

fun spec_num_heads :: "KVCacheSpec \<Rightarrow> int result" where
  "spec_num_heads (MambaSpec m) = Inr 1"
| "spec_num_heads s = (case attention_part s of Some a \<Rightarrow> Inr (num_heads a) | None \<Rightarrow> Inl NotImplementedError)"

fun spec_num_kernel_states :: "KVCacheSpec \<Rightarrow> int \<Rightarrow> int result" where
  "spec_num_kernel_states (MambaSpec m) kernel_block_size = Inr 1"
| "spec_num_kernel_states s kernel_block_size =
     (case attention_part s of Some a \<Rightarrow> Inr (get_num_kernel_states a kernel_block_size) | None \<Rightarrow> Inl NotImplementedError)"

fun spec_state_content_size_bytes :: "(string \<Rightarrow> int) \<Rightarrow> KVCacheSpec \<Rightarrow> int result" where
  "spec_state_content_size_bytes dz (MambaSpec m) = Inr (mamba_state_bytes dz m)"
| "spec_state_content_size_bytes dz s =
     (case attention_part s of Some a \<Rightarrow> Inr (state_content_size_bytes dz a) | None \<Rightarrow> Inl NotImplementedError)"

fun spec_page_size_padded :: "KVCacheSpec \<Rightarrow> int option" where
  "spec_page_size_padded (MambaSpec m) = mamba_page_size_padded m"
| "spec_page_size_padded s = (case attention_part s of Some a \<Rightarrow> att_page_size_padded a | None \<Rightarrow> None)"

definition compute_layer_kv_cache_shape_bytes :: "(string \<Rightarrow> int) \<Rightarrow> KVCacheSpec \<Rightarrow> int \<Rightarrow> int option \<Rightarrow> int list result" where
  "compute_layer_kv_cache_shape_bytes dz s n_blocks kernel_block_size =
     (let bs = (case kernel_block_size of Some k \<Rightarrow> k | None \<Rightarrow> spec_block_size s) in
      and_then (py_mod (spec_block_size s) bs) (\<lambda>r.
      and_then (py_assert (r = 0)) (\<lambda>_.
      and_then (spec_num_heads s) (\<lambda>h.
      and_then (spec_num_kernel_states s bs) (\<lambda>n.
      and_then (spec_state_content_size_bytes dz s) (\<lambda>c.
      Inr [n_blocks * (spec_block_size s div bs), h, n, c]))))))"

definition axis_index :: "nat list \<Rightarrow> nat \<Rightarrow> nat" where
  "axis_index order d = length (takeWhile (\<lambda>x. x \<noteq> d) order)"

text \<open>One axis of the loop, from the innermost out; the state is the strides so far and the running stride.\<close>

definition stride_axis :: "int list \<Rightarrow> int option list \<Rightarrow> int option \<Rightarrow> nat \<Rightarrow> nat \<times> nat \<Rightarrow> int list \<times> int \<Rightarrow> (int list \<times> int) result" where
  "stride_axis shape fixed_strides padded_page_size page_grid_end = (\<lambda>(physical_idx, d) (strides, current_stride).
     and_then (case padded_page_size of
         None \<Rightarrow> Inr current_stride
       | Some p \<Rightarrow>
           if physical_idx + 1 = page_grid_end then
             (let current_stride = max current_stride p in
              and_then (py_mod current_stride p) (\<lambda>r. and_then (py_assert (r = 0)) (\<lambda>_. Inr current_stride)))
           else Inr current_stride) (\<lambda>current_stride.
     let s = (case fixed_strides ! d of Some f \<Rightarrow> (if f \<noteq> 0 then f else current_stride) | None \<Rightarrow> current_stride)
     in Inr (strides[d := s], s * shape ! d)))"

definition compute_layout_strides ::
    "(string \<Rightarrow> int) \<Rightarrow> KVCacheSpec \<Rightarrow> int \<Rightarrow> int \<Rightarrow> KVCacheLayout \<Rightarrow> int option \<Rightarrow> int option list \<Rightarrow> int list result" where
  "compute_layout_strides dz s n_blocks n_layers layout kernel_block_size fixed_strides =
     and_then (py_assert (length fixed_strides = 5)) (\<lambda>_.
     and_then (py_assert (list_all (\<lambda>f. case f of None \<Rightarrow> True | Some n \<Rightarrow> n > 0) fixed_strides)) (\<lambda>_.
     and_then (compute_layer_kv_cache_shape_bytes dz s n_blocks kernel_block_size) (\<lambda>layer_shape.
     let shape = n_layers # layer_shape; order = stride_order layout; padded_page_size = spec_page_size_padded s;
         page_grid_end = max (axis_index order 0) (axis_index order 1) + 1
     in
     and_then (case padded_page_size of
         None \<Rightarrow> Inr ()
       | Some _ \<Rightarrow>
           and_then (py_assert (kernel_block_size = None \<or> kernel_block_size = Some (spec_block_size s))) (\<lambda>_.
           py_assert (prod_list (map (\<lambda>d. shape ! d) (take page_grid_end order)) = n_layers * n_blocks))) (\<lambda>_.
     and_then (for_each (stride_axis shape fixed_strides padded_page_size page_grid_end)
         (rev (enumerate 0 order)) (replicate 5 0, 1)) (\<lambda>(strides, _). Inr strides)))))"

section \<open>Views\<close>

record kv_view =
  view_offset :: int
  view_shape :: "int list"
  view_strides :: "int list"

text \<open>The block stride of a view whose blocks are split into \<open>ratio\<close> kernel blocks.\<close>

definition kernel_block_stride :: "(string \<Rightarrow> int) \<Rightarrow> KVCacheSpec \<Rightarrow> int \<Rightarrow> int \<Rightarrow> int result" where
  "kernel_block_stride dz s ratio bstride =
     (if ratio > 1 then
        and_then (compute_layer_kv_cache_shape_bytes dz s 1 None) (\<lambda>dense.
        if bstride \<noteq> prod_list (tl dense) then Inl ValueError
        else and_then (py_assert (bstride mod ratio = 0)) (\<lambda>_. Inr (bstride div ratio)))
      else Inr bstride)"

definition create_kv_cache_views ::
    "(string \<Rightarrow> int) \<Rightarrow> int \<Rightarrow> KVCacheSpec \<Rightarrow> int \<Rightarrow> KVCacheLayout \<Rightarrow> KVCacheTensor \<Rightarrow> int option \<Rightarrow> kv_view list result" where
  "create_kv_cache_views dz storage_offset s n_blocks layout t kernel_block_size =
     (let n_layers = length (tensor_layers t) in
      and_then (compute_layer_kv_cache_shape_bytes dz s n_blocks kernel_block_size) (\<lambda>shape.
      and_then (py_div (hd shape) n_blocks) (\<lambda>ratio.
      and_then (kernel_block_stride dz s ratio (block_stride t)) (\<lambda>bstride.
      and_then (compute_layout_strides dz s n_blocks (int n_layers) layout kernel_block_size
          [Some (layer_stride t), Some bstride, None, None, None]) (\<lambda>strides.
      Inr (map (\<lambda>l. \<lparr>view_offset = storage_offset + tensor_offset t + int l * strides ! 0, view_shape = shape, view_strides = tl strides\<rparr>)
             [0..<n_layers]))))))"

definition allocate_kv_cache ::
    "(string \<Rightarrow> int) \<Rightarrow> KVCacheConfig \<Rightarrow> KVCacheLayout \<Rightarrow> int list option \<Rightarrow> (int \<times> (string, kv_view) dict) result" where
  "allocate_kv_cache dz cfg layout kernel_block_sizes =
     (if kv_cache_tensors cfg = [] then Inr (0, [])
      else
        and_then (py_assert (length (remdups (map tensor_size (kv_cache_tensors cfg))) = 1)) (\<lambda>_.
        and_then (for_each (\<lambda>t kv_caches.
            and_then (py_index (tensor_layers t) 0) (\<lambda>layer_name.
            case List.find (\<lambda>(_, g). layer_name \<in> set (layer_names g)) (enumerate 0 (kv_cache_groups cfg)) of
              None \<Rightarrow> Inl StopIteration
            | Some (group_id, g) \<Rightarrow>
                and_then (case group_spec g of
                    UniformTypeKVCacheSpecs _ specs \<Rightarrow> (case dict_get specs layer_name of None \<Rightarrow> Inl KeyError | Some s \<Rightarrow> Inr s)
                  | s \<Rightarrow> Inr s) (\<lambda>s.
                let kernel_block_size = (case kernel_block_sizes of
                      None \<Rightarrow> None
                    | Some ks \<Rightarrow> if group_id < length ks then Some (ks ! group_id) else None)
                in
                and_then (create_kv_cache_views dz 0 s (num_blocks cfg) layout t kernel_block_size) (\<lambda>views.
                Inr (fold (\<lambda>(l, v) d. dict_set l v d) (zip (tensor_layers t) views) kv_caches)))))
          (kv_cache_tensors cfg) []) (\<lambda>kv_caches.
        Inr (tensor_size (hd (kv_cache_tensors cfg)), kv_caches))))"

end
