(* ===== verification/Kv_Config.thy ===== *)
theory Kv_Config
  imports Kv_Layout
begin

text \<open>
  Planning of the KV cache (\<^verbatim>\<open>vllm/v1/core/kv_cache_utils.py\<close>): grouping the layers of a model, unifying their pages, checking
  the memory, choosing the model length and placing the tensors of every worker.  The merging of specifications
  (\<^verbatim>\<open>vllm/v1/kv_cache_interface.py\<close>) that \<open>Kv_Spec\<close> leaves out is here.

  The specifications of a model are a dictionary from layer names; \<open>dz\<close> is the size of a \<^verbatim>\<open>torch.dtype\<close> and \<open>reg\<close> the registry
  of specification classes.  Log messages, and the floating-point capacity that is only reported, are left out.
\<close>

section \<open>Rebuilding and merging specifications\<close>

type_synonym layer_specs = "(string, KVCacheSpec) dict"

text \<open>All values, or the first error.\<close>

fun all_results :: "'a result list \<Rightarrow> 'a list result" where
  "all_results [] = Inr []"
| "all_results (r # rs) = and_then r (\<lambda>x. and_then (all_results rs) (\<lambda>xs. Inr (x # xs)))"

fun map_attention :: "(AttentionSpec \<Rightarrow> AttentionSpec) \<Rightarrow> KVCacheSpec \<Rightarrow> KVCacheSpec" where
  "map_attention g (FullAttentionSpec a f) = FullAttentionSpec (g a) f"
| "map_attention g (MLAAttentionSpec a f m) = MLAAttentionSpec (g a) f m"
| "map_attention g (HiddenStateCacheSpec a f m) = HiddenStateCacheSpec (g a) f m"
| "map_attention g (RSWASpec a f w) = RSWASpec (g a) f w"
| "map_attention g (SinkFullAttentionSpec a f n) = SinkFullAttentionSpec (g a) f n"
| "map_attention g (ChunkedLocalAttentionSpec a n) = ChunkedLocalAttentionSpec (g a) n"
| "map_attention g (SlidingWindowSpec a w e) = SlidingWindowSpec (g a) w e"
| "map_attention g (SlidingWindowMLASpec a w e m) = SlidingWindowMLASpec (g a) w e m"
| "map_attention g (EncoderOnlyAttentionSpec a) = EncoderOnlyAttentionSpec (g a)"
| "map_attention g (CrossAttentionSpec a) = CrossAttentionSpec (g a)"
| "map_attention g (MambaSpec m) = MambaSpec m"
| "map_attention g (UniformTypeKVCacheSpecs bs specs) = UniformTypeKVCacheSpecs bs specs"

text \<open>\<^verbatim>\<open>__post_init__\<close>, which runs whenever a specification is built, by \<^verbatim>\<open>replace\<close> too.\<close>

fun post_init :: "(string \<Rightarrow> int) \<Rightarrow> KVCacheSpec \<Rightarrow> KVCacheSpec result" where
  "post_init dz (MLAAttentionSpec a f m) = Inr (MLAAttentionSpec (apply_alignment_padding dz m a) f m)"
| "post_init dz (HiddenStateCacheSpec a f m) = Inr (HiddenStateCacheSpec (apply_alignment_padding dz m a) f m)"
| "post_init dz (SlidingWindowMLASpec a w e m) =
     and_then (py_assert (model_version m = None \<or> model_version m = Some ''deepseek_v4'')) (\<lambda>_.
     Inr (SlidingWindowMLASpec (apply_alignment_padding dz m a) w e m))"
| "post_init dz s = Inr s"

fun copy_with_new_block_size :: "(string \<Rightarrow> int) \<Rightarrow> int \<Rightarrow> KVCacheSpec \<Rightarrow> KVCacheSpec result" where
  "copy_with_new_block_size dz bs (MambaSpec m) = Inr (MambaSpec (m\<lparr>mamba_block_size := bs\<rparr>))"
| "copy_with_new_block_size dz bs (UniformTypeKVCacheSpecs _ specs) = Inr (UniformTypeKVCacheSpecs bs specs)"
| "copy_with_new_block_size dz bs s = post_init dz (map_attention (\<lambda>a. a\<lparr>att_block_size := bs\<rparr>) s)"

definition the_only :: "'a list \<Rightarrow> 'a result" where
  "the_only xs = (case remdups xs of [x] \<Rightarrow> Inr x | _ \<Rightarrow> Inl AssertionError)"

text \<open>\<^verbatim>\<open>KVCacheSpec.merge\<close>, for the classes that do not override it.\<close>

definition merge_equal_specs :: "KVCacheSpec list \<Rightarrow> KVCacheSpec result" where
  "merge_equal_specs specs =
     and_then (py_index specs 0) (\<lambda>first.
     and_then (py_assert (list_all (\<lambda>s. s = first) (tl specs))) (\<lambda>_. Inr first))"

fun mla_part :: "KVCacheSpec \<Rightarrow> (AttentionSpec \<times> MlaFields) option" where
  "mla_part (MLAAttentionSpec a _ m) = Some (a, m)"
| "mla_part (HiddenStateCacheSpec a _ m) = Some (a, m)"
| "mla_part _ = None"

definition no_full_fields :: FullFields where
  "no_full_fields = \<lparr>full_sliding_window = None, full_attention_chunk_size = None, non_causal = False\<rparr>"

text \<open>\<^verbatim>\<open>MLAAttentionSpec.merge\<close>: the merged specification has no alignment, \<open>head_size_v\<close> 0 and no window.\<close>

definition merge_mla_specs :: "(AttentionSpec \<Rightarrow> FullFields \<Rightarrow> MlaFields \<Rightarrow> KVCacheSpec) \<Rightarrow> KVCacheSpec list \<Rightarrow> KVCacheSpec result" where
  "merge_mla_specs cls specs =
     and_then (py_assert (list_all (\<lambda>s. isinstance s cls_MLAAttentionSpec) specs)) (\<lambda>_.
     let parts = List.map_filter mla_part specs in
     and_then (the_only (map (cache_dtype_str \<circ> snd) parts)) (\<lambda>dtype_str.
     and_then (the_only (map (tokens_per_state \<circ> fst) parts)) (\<lambda>tokens.
     and_then (the_only (map (model_version \<circ> snd) parts)) (\<lambda>version.
     and_then (py_index parts 0) (\<lambda>(first, _).
     let merged = first\<lparr>head_size_v := 0, tokens_per_state := tokens\<rparr> in
     and_then (py_assert (list_all (\<lambda>(a, _). a = merged) parts)) (\<lambda>_.
     Inr (cls merged no_full_fields
           \<lparr>cache_dtype_str = dtype_str, mla_alignment = None, model_version = version,
            non_causal_multi_token_decode = list_ex (\<lambda>(_, m). non_causal_multi_token_decode m) parts\<rparr>)))))))"

fun rswa_window_of :: "KVCacheSpec \<Rightarrow> int option" where
  "rswa_window_of (RSWASpec _ _ w) = Some w"
| "rswa_window_of _ = None"

definition merge_rswa_specs :: "KVCacheSpec list \<Rightarrow> KVCacheSpec result" where
  "merge_rswa_specs specs =
     and_then (py_assert (list_all (\<lambda>s. isinstance s cls_RSWASpec) specs)) (\<lambda>_.
     and_then (the_only (List.map_filter rswa_window_of specs)) (\<lambda>w.
     and_then (merge_full_specs specs) (\<lambda>base.
     case full_part base of Some (a, f) \<Rightarrow> Inr (RSWASpec a f w) | None \<Rightarrow> Inl AttributeError)))"

text \<open>\<^verbatim>\<open>SinkFullAttentionSpec.merge\<close>: the merged specification has one token per state.\<close>

definition merge_sink_specs :: "int option \<Rightarrow> KVCacheSpec list \<Rightarrow> KVCacheSpec result" where
  "merge_sink_specs sink_len specs =
     and_then (merge_full_specs specs) (\<lambda>base.
     case full_part base of
       Some (a, f) \<Rightarrow> and_then (py_assert (tokens_per_state a = 1)) (\<lambda>_. Inr (SinkFullAttentionSpec a f sink_len))
     | None \<Rightarrow> Inl AttributeError)"

fun swa_mla_part :: "KVCacheSpec \<Rightarrow> (AttentionSpec \<times> int \<times> int \<times> MlaFields) option" where
  "swa_mla_part (SlidingWindowMLASpec a w e m) = Some (a, w, e, m)"
| "swa_mla_part _ = None"

text \<open>\<^verbatim>\<open>SlidingWindowMLASpec.merge\<close>: the attention fields are those of the first layer, the quantisation mode the default.\<close>

definition merge_swa_mla_specs :: "KVCacheSpec list \<Rightarrow> KVCacheSpec result" where
  "merge_swa_mla_specs specs =
     and_then (py_assert (list_all (\<lambda>s. isinstance s cls_SlidingWindowMLASpec) specs)) (\<lambda>_.
     let parts = List.map_filter swa_mla_part specs in
     and_then (the_only (map (\<lambda>(a, w, e, m). cache_dtype_str m) parts)) (\<lambda>dtype_str.
     and_then (the_only (map (\<lambda>(a, w, e, m). tokens_per_state a) parts)) (\<lambda>tokens.
     and_then (the_only (map (\<lambda>(a, w, e, m). model_version m) parts)) (\<lambda>version.
     and_then (the_only (map (\<lambda>(a, w, e, m). w) parts)) (\<lambda>window.
     and_then (the_only (map (\<lambda>(a, w, e, m). e) parts)) (\<lambda>extra.
     and_then (py_index parts 0) (\<lambda>(first, _).
     and_then (py_assert (version = None \<or> version = Some ''deepseek_v4'')) (\<lambda>_.
     Inr (SlidingWindowMLASpec (first\<lparr>head_size_v := 0, tokens_per_state := tokens, kv_quant_mode := 0\<rparr>) window extra
           \<lparr>cache_dtype_str = dtype_str, mla_alignment = None, model_version = version,
            non_causal_multi_token_decode = False\<rparr>)))))))))"

text \<open>\<^verbatim>\<open>specs[0].merge(specs)\<close>\<close>

definition merge_specs :: "KVCacheSpec list \<Rightarrow> KVCacheSpec result" where
  "merge_specs specs =
     and_then (py_index specs 0) (\<lambda>first.
     case first of
       FullAttentionSpec _ _ \<Rightarrow> merge_full_specs specs
     | MLAAttentionSpec _ _ _ \<Rightarrow> merge_mla_specs MLAAttentionSpec specs
     | HiddenStateCacheSpec _ _ _ \<Rightarrow> merge_mla_specs HiddenStateCacheSpec specs
     | RSWASpec _ _ _ \<Rightarrow> merge_rswa_specs specs
     | SinkFullAttentionSpec _ _ n \<Rightarrow> merge_sink_specs n specs
     | SlidingWindowMLASpec _ _ _ _ \<Rightarrow> merge_swa_mla_specs specs
     | _ \<Rightarrow> merge_equal_specs specs)"

section \<open>Memory of a model\<close>

text \<open>The sum over the layers.\<close>

definition model_memory_usage_bytes :: "(string \<Rightarrow> int) \<Rightarrow> VllmConfig \<Rightarrow> KVCacheSpec list \<Rightarrow> int result" where
  "model_memory_usage_bytes dz c specs = sum_results (map (max_memory_usage_bytes dz c) specs)"

text \<open>The binary search; \<open>fits\<close> is the closure over the configuration with another model length.\<close>

function search_max_len :: "(int \<Rightarrow> bool result) \<Rightarrow> int \<Rightarrow> int \<Rightarrow> int \<Rightarrow> int result" where
  "search_max_len fits left right result =
     (if left \<le> right then
        let mid = (left + right) div 2 in
        and_then (fits mid) (\<lambda>ok.
          if ok then search_max_len fits (mid + 1) right mid
          else search_max_len fits left (mid - 1) result)
      else Inr result)"
  by auto
termination
  by (relation "measure (\<lambda>(_, left, right, _). nat (right - left + 1))") auto

declare search_max_len.simps [simp del]

definition longest_fitting :: "(int \<Rightarrow> bool result) \<Rightarrow> int \<Rightarrow> int result" where
  "longest_fitting fits original_max =
     and_then (fits 1) (\<lambda>ok. if \<not> ok then Inr 0 else search_max_len fits 1 original_max 1)"

definition estimate_max_model_len :: "(string \<Rightarrow> int) \<Rightarrow> VllmConfig \<Rightarrow> layer_specs \<Rightarrow> int \<Rightarrow> int result" where
  "estimate_max_model_len dz c specs available_memory =
     longest_fitting (\<lambda>n. and_then (model_memory_usage_bytes dz (c\<lparr>max_model_len := n\<rparr>) (map snd specs)) (\<lambda>needed.
       Inr (needed \<le> available_memory))) (max_model_len c)"

text \<open>\<^verbatim>\<open>_check_enough_kv_cache_memory\<close>; the estimate only enters the message, but it runs.\<close>

definition check_enough_memory :: "int \<Rightarrow> int result \<Rightarrow> (int \<Rightarrow> int result) \<Rightarrow> unit result" where
  "check_enough_memory available_memory get_needed_memory estimate =
     (if available_memory \<le> 0 then Inl ValueError
      else
        and_then get_needed_memory (\<lambda>needed.
        if needed > available_memory then and_then (estimate available_memory) (\<lambda>_. Inl ValueError) else Inr ()))"

section \<open>Groups\<close>

definition kv_group :: "string list \<Rightarrow> KVCacheSpec \<Rightarrow> KVCacheGroupSpec" where
  "kv_group names s = \<lparr>layer_names = names, group_spec = s, is_eagle_group = False\<rparr>"

definition spec_of_layer :: "layer_specs \<Rightarrow> string \<Rightarrow> KVCacheSpec result" where
  "spec_of_layer specs name = (case dict_get specs name of None \<Rightarrow> Inl KeyError | Some s \<Rightarrow> Inr s)"

definition create_kv_cache_group_specs :: "layer_specs \<Rightarrow> string list list \<Rightarrow> KVCacheGroupSpec list result" where
  "create_kv_cache_group_specs specs grouped_layer_names =
     all_results (map (\<lambda>names.
       and_then (all_results (map (spec_of_layer specs) names)) (\<lambda>layer_specs.
       and_then (merge_specs layer_specs) (\<lambda>merged. Inr (kv_group names merged)))) grouped_layer_names)"

text \<open>Only an \<^verbatim>\<open>AssertionError\<close> is caught.\<close>

definition is_kv_cache_spec_uniform :: "layer_specs \<Rightarrow> bool result" where
  "is_kv_cache_spec_uniform specs =
     (if specs = [] then Inr True
      else case merge_specs (map snd specs) of
        Inr _ \<Rightarrow> Inr True
      | Inl e \<Rightarrow> if e = AssertionError then Inr False else Inl e)"

definition get_uniform_page_size :: "(string \<Rightarrow> int) \<Rightarrow> KVCacheSpec list \<Rightarrow> int result" where
  "get_uniform_page_size dz specs = and_then (all_results (map (page_size_bytes dz) specs)) the_only"

definition get_kv_cache_groups_uniform_spec :: "layer_specs \<Rightarrow> KVCacheGroupSpec list result" where
  "get_kv_cache_groups_uniform_spec specs = create_kv_cache_group_specs specs [map fst specs]"

fun get_kv_cache_groups_uniform_type :: "KVCacheSpec \<Rightarrow> KVCacheGroupSpec list" where
  "get_kv_cache_groups_uniform_type (UniformTypeKVCacheSpecs bs specs) =
     [kv_group (map fst specs) (UniformTypeKVCacheSpecs bs specs)]"
| "get_kv_cache_groups_uniform_type s = []"

text \<open>The body of the loop of \<^verbatim>\<open>unify_kv_cache_spec_page_size\<close> for one layer.\<close>

definition unify_layer_page :: "(string \<Rightarrow> int) \<Rightarrow> int \<Rightarrow> KVCacheSpec \<Rightarrow> KVCacheSpec result" where
  "unify_layer_page dz max_page_size s =
     and_then (page_size_bytes dz s) (\<lambda>page.
     if page = max_page_size then Inr s
     else
       and_then
         (case s of
            MambaSpec m \<Rightarrow> Inr (MambaSpec (m\<lparr>mamba_page_size_padded := Some max_page_size\<rparr>))
          | _ \<Rightarrow>
              and_then (py_mod max_page_size page) (\<lambda>r.
              if r = 0 then copy_with_new_block_size dz (spec_block_size s * (max_page_size div page)) s
              else if isinstance s cls_AttentionSpec \<and> \<not> isinstance s cls_MLAAttentionSpec
              then post_init dz (map_attention (\<lambda>a. a\<lparr>att_page_size_padded := Some max_page_size\<rparr>) s)
              else Inl NotImplementedError)) (\<lambda>new_spec.
       and_then (page_size_bytes dz new_spec) (\<lambda>p.
       and_then (py_assert (p = max_page_size)) (\<lambda>_. Inr new_spec))))"

definition unify_kv_cache_spec_page_size :: "(string \<Rightarrow> int) \<Rightarrow> layer_specs \<Rightarrow> layer_specs result" where
  "unify_kv_cache_spec_page_size dz specs =
     and_then (all_results (map (page_size_bytes dz \<circ> snd) specs)) (\<lambda>pages.
     if length (remdups pages) \<le> 1 then Inr specs
     else all_results (map (\<lambda>(name, s).
       and_then (unify_layer_page dz (Max (set pages)) s) (\<lambda>s. Inr (name, s))) specs))"

text \<open>\<^verbatim>\<open>d[key].append(x)\<close> on a \<^verbatim>\<open>defaultdict(list)\<close>.\<close>

definition dict_append :: "'k \<Rightarrow> 'v \<Rightarrow> ('k, 'v list) dict \<Rightarrow> ('k, 'v list) dict" where
  "dict_append k x d = dict_set k ((case dict_get d k of None \<Rightarrow> [] | Some xs \<Rightarrow> xs) @ [x]) d"

definition layers_by :: "('a \<Rightarrow> 'k) \<Rightarrow> ('v \<times> 'a) list \<Rightarrow> ('k, 'v list) dict" where
  "layers_by key specs = fold (\<lambda>(name, s). dict_append (key s) name) specs []"

text \<open>A specification joins the first bucket it can be merged with.\<close>

fun place_in_bucket ::
    "KVCacheSpec \<times> string list \<Rightarrow> (string list \<times> KVCacheSpec list) list \<Rightarrow> (string list \<times> KVCacheSpec list) list result" where
  "place_in_bucket (s, names) [] = Inr [(names, [s])]"
| "place_in_bucket (s, names) ((ns, ss) # buckets) =
     (case merge_specs (ss @ [s]) of
        Inr _ \<Rightarrow> Inr ((ns @ names, ss @ [s]) # buckets)
      | Inl e \<Rightarrow>
          if e = AssertionError \<or> e = ValueError
          then and_then (place_in_bucket (s, names) buckets) (\<lambda>rest. Inr ((ns, ss) # rest))
          else Inl e)"

text \<open>\<^verbatim>\<open>layers[i::n]\<close> for \<open>i < n\<close>\<close>

definition every_nth :: "nat \<Rightarrow> nat \<Rightarrow> 'a list \<Rightarrow> 'a list" where
  "every_nth n i xs = map (\<lambda>j. xs ! j) (filter (\<lambda>j. j mod n = i) [0..<length xs])"

definition choose_group_size :: "int list \<Rightarrow> int" where
  "choose_group_size sizes =
     (let min_num_layers = Min (set sizes); max_num_layers = Max (set sizes)
      in if 2 * max_num_layers < 3 * min_num_layers then max_num_layers else min_num_layers)"

definition split_layers :: "int \<Rightarrow> string list \<Rightarrow> string list list" where
  "split_layers group_size layers =
     (let num_groups = nat (cdiv (int (length layers)) group_size)
      in map (\<lambda>i. every_nth num_groups i layers) [0..<num_groups])"

definition get_kv_cache_groups_uniform_page_size :: "layer_specs \<Rightarrow> KVCacheGroupSpec list result" where
  "get_kv_cache_groups_uniform_page_size specs =
     and_then (for_each place_in_bucket (layers_by id specs) []) (\<lambda>buckets.
     if buckets = [] then Inl ValueError
     else
       let group_size = choose_group_size (map (\<lambda>(names, _). int (length names)) buckets)
       in create_kv_cache_group_specs specs (concat (map (\<lambda>(names, _). split_layers group_size names) buckets)))"

section \<open>Placement\<close>

definition get_per_layer_spec :: "KVCacheGroupSpec \<Rightarrow> string \<Rightarrow> KVCacheSpec result" where
  "get_per_layer_spec g name =
     (case group_spec g of UniformTypeKVCacheSpecs _ specs \<Rightarrow> spec_of_layer specs name | s \<Rightarrow> Inr s)"

definition group_page_bytes :: "(string \<Rightarrow> int) \<Rightarrow> KVCacheGroupSpec \<Rightarrow> int result" where
  "group_page_bytes dz g =
     sum_results (map (\<lambda>name. and_then (get_per_layer_spec g name) (page_size_bytes dz)) (layer_names g))"

definition get_kv_cache_bytes_per_block :: "(string \<Rightarrow> int) \<Rightarrow> KVCacheGroupSpec list \<Rightarrow> int result" where
  "get_kv_cache_bytes_per_block dz groups =
     and_then (max_results (map (group_page_bytes dz) groups)) (\<lambda>n. and_then (py_assert (n > 0)) (\<lambda>_. Inr n))"

definition pool_bytes_per_block :: "(string \<Rightarrow> int) \<Rightarrow> KVCacheGroupSpec list \<Rightarrow> int result" where
  "pool_bytes_per_block dz groups = get_kv_cache_bytes_per_block dz groups"

definition validate_kv_cache_layout :: "(string \<Rightarrow> int) \<Rightarrow> KVCacheLayout \<Rightarrow> KVCacheGroupSpec list \<Rightarrow> unit result" where
  "validate_kv_cache_layout dz layout groups =
     and_then (all_results (concat (map (\<lambda>g. map (\<lambda>name. and_then (get_per_layer_spec g name) (page_size_bytes dz)) (layer_names g)) groups))) (\<lambda>pages.
     if length (remdups pages) = 1 then Inr ()
     else if \<not> is_block_compact layout \<or> length groups > 1 \<and> is_layer_compact layout then Inl ValueError
     else Inr ())"

definition may_override_num_blocks :: "VllmConfig \<Rightarrow> int \<Rightarrow> int" where
  "may_override_num_blocks c n = (case num_gpu_blocks_override c of Some k \<Rightarrow> k | None \<Rightarrow> n)"

text \<open>The layers of a group by specification, in the order of their first layer.\<close>

definition group_layers_by_spec :: "KVCacheGroupSpec \<Rightarrow> (KVCacheSpec, string list) dict" where
  "group_layers_by_spec g =
     (case group_spec g of
        UniformTypeKVCacheSpecs _ specs \<Rightarrow> layers_by id specs
      | s \<Rightarrow> if layer_names g = [] then [] else [(s, layer_names g)])"

text \<open>One tensor per specification of a group; the state is the tensors so far and the byte offset.\<close>

definition place_spec ::
    "(string \<Rightarrow> int) \<Rightarrow> KVCacheLayout \<Rightarrow> int \<Rightarrow> int \<Rightarrow> int option \<Rightarrow> KVCacheSpec \<times> string list
     \<Rightarrow> KVCacheTensor list \<times> int \<Rightarrow> (KVCacheTensor list \<times> int) result" where
  "place_spec dz layout n_blocks sz interleaved = (\<lambda>(s, names) (tensors, byte_offset).
     and_then (compute_layout_strides dz s n_blocks (int (length names)) layout None [None, interleaved, None, None, None]) (\<lambda>strides.
     and_then (page_size_bytes dz s) (\<lambda>page.
     and_then (py_div (byte_offset * max (strides ! 0) page) page) (\<lambda>off.
     Inr (tensors @ [\<lparr>tensor_size = sz, tensor_layers = names, layer_stride = strides ! 0, block_stride = strides ! 1, tensor_offset = off\<rparr>],
          byte_offset + int (length names) * page)))))"

definition place_group ::
    "(string \<Rightarrow> int) \<Rightarrow> KVCacheLayout \<Rightarrow> int \<Rightarrow> int \<Rightarrow> int option \<Rightarrow> KVCacheGroupSpec \<Rightarrow> KVCacheTensor list \<Rightarrow> KVCacheTensor list result" where
  "place_group dz layout n_blocks sz interleaved g tensors =
     and_then (for_each (place_spec dz layout n_blocks sz interleaved) (group_layers_by_spec g) (tensors, 0)) (\<lambda>(tensors, _).
     Inr tensors)"

definition get_kv_cache_config_from_groups ::
    "(string \<Rightarrow> int) \<Rightarrow> VllmConfig \<Rightarrow> KVCacheGroupSpec list \<Rightarrow> int \<Rightarrow> KVCacheConfig result" where
  "get_kv_cache_config_from_groups dz c groups available_memory =
     (if groups = [] then
        Inr \<lparr>num_blocks = 1, kv_cache_tensors = [], kv_cache_groups = groups,
             prefix_cache_retention_interval = cache_retention_interval c, kv_cache_layout = None\<rparr>
      else case cache_layout c of
        None \<Rightarrow> Inl ValueError
      | Some layout \<Rightarrow>
          and_then (validate_kv_cache_layout dz layout groups) (\<lambda>_.
          and_then (get_kv_cache_bytes_per_block dz groups) (\<lambda>bytes_per_block.
          let interleaved = (if is_block_outermost layout then Some bytes_per_block else None) in
          and_then (py_div available_memory bytes_per_block) (\<lambda>n.
          let n = may_override_num_blocks c n; sz = bytes_per_block * n in
          and_then (for_each (place_group dz layout n sz interleaved) groups []) (\<lambda>tensors.
          Inr \<lparr>num_blocks = n, kv_cache_tensors = tensors, kv_cache_groups = groups,
               prefix_cache_retention_interval = cache_retention_interval c, kv_cache_layout = None\<rparr>)))))"

section \<open>Unifying hybrid models\<close>

text \<open>\<^verbatim>\<open>replace_as\<close> with the promotions of local attention; the trailing-edge extension of windows is dropped.\<close>

fun promote_as_full :: "(string \<Rightarrow> int) \<Rightarrow> (AttentionSpec \<Rightarrow> AttentionSpec) \<Rightarrow> KVCacheSpec \<Rightarrow> KVCacheSpec result" where
  "promote_as_full dz g (SlidingWindowMLASpec a w e m) =
     post_init dz (MLAAttentionSpec (g a) (no_full_fields\<lparr>full_sliding_window := Some w\<rparr>) (m\<lparr>non_causal_multi_token_decode := False\<rparr>))"
| "promote_as_full dz g (SlidingWindowSpec a w e) =
     Inr (FullAttentionSpec (g a) (no_full_fields\<lparr>full_sliding_window := Some w\<rparr>))"
| "promote_as_full dz g (ChunkedLocalAttentionSpec a n) =
     Inr (FullAttentionSpec (g a) (no_full_fields\<lparr>full_attention_chunk_size := Some n\<rparr>))"
| "promote_as_full dz g s = Inr s"

definition promoted_page_size_padded :: "(string \<Rightarrow> int) \<Rightarrow> AttentionSpec \<Rightarrow> int \<Rightarrow> int option result" where
  "promoted_page_size_padded dz a block_size =
     (case att_page_size_padded a of
        None \<Rightarrow> Inr None
      | Some padded \<Rightarrow>
          and_then (py_div (unpadded_page_size_bytes dz a * block_size) (att_block_size a)) (\<lambda>unpadded.
          Inr (Some (max padded unpadded))))"

definition is_local_attention :: "KVCacheSpec \<Rightarrow> bool" where
  "is_local_attention s = (isinstance s cls_SlidingWindowSpec \<or> isinstance s cls_ChunkedLocalAttentionSpec)"

definition promote_layer :: "(string \<Rightarrow> int) \<Rightarrow> int option \<Rightarrow> KVCacheSpec \<Rightarrow> KVCacheSpec result" where
  "promote_layer dz full_attention_block_size s =
     (case attention_part s of
        Some a \<Rightarrow>
          if \<not> is_local_attention s then Inr s
          else
            let block_size = (case full_attention_block_size of Some n \<Rightarrow> (if n \<noteq> 0 then n else att_block_size a) | None \<Rightarrow> att_block_size a) in
            and_then (promoted_page_size_padded dz a block_size) (\<lambda>padded.
            promote_as_full dz (\<lambda>a. a\<lparr>att_block_size := block_size, att_page_size_padded := padded\<rparr>) s)
      | None \<Rightarrow> Inr s)"

definition one_type :: "registry \<Rightarrow> layer_specs \<Rightarrow> bool result" where
  "one_type reg specs = and_then (is_kv_cache_spec_uniform specs) (\<lambda>u. if u then Inr True else is_uniform_type reg specs)"

definition promote_local_kv_cache_specs :: "(string \<Rightarrow> int) \<Rightarrow> registry \<Rightarrow> layer_specs \<Rightarrow> layer_specs result" where
  "promote_local_kv_cache_specs dz reg specs =
     and_then (one_type reg specs) (\<lambda>uniform.
     if uniform then Inr specs
     else
       let full_block_sizes = remdups (map spec_block_size (filter (\<lambda>s. isinstance s cls_FullAttentionSpec) (map snd specs)));
           full_attention_block_size = (case full_block_sizes of [n] \<Rightarrow> Some n | _ \<Rightarrow> None);
           hybrid = (list_ex (\<lambda>(_, s). isinstance s cls_FullAttentionSpec) specs \<and> list_ex (\<lambda>(_, s). is_local_attention s) specs)
       in
       and_then (if hybrid
                 then all_results (map (\<lambda>(name, s). and_then (promote_layer dz full_attention_block_size s) (\<lambda>s. Inr (name, s))) specs)
                 else Inr specs) (\<lambda>promoted.
       and_then (one_type reg promoted) (\<lambda>uniform. if uniform then Inr promoted else Inl ValueError)))"

definition try_get_full_allocation_fallback_groups ::
    "(string \<Rightarrow> int) \<Rightarrow> registry \<Rightarrow> layer_specs \<Rightarrow> KVCacheGroupSpec list option result" where
  "try_get_full_allocation_fallback_groups dz reg specs =
     (if list_ex (\<lambda>(_, s). isinstance s cls_HiddenStateCacheSpec) specs then Inr None
      else if list_ex (\<lambda>(_, s). isinstance s cls_SlidingWindowMLASpec \<or> isinstance s cls_ChunkedLocalAttentionSpec) specs then Inr None
      else if \<not> (list_ex (\<lambda>(_, s). isinstance s cls_MLAAttentionSpec) specs \<and> list_ex (\<lambda>(_, s). isinstance s cls_SlidingWindowSpec) specs)
      then Inr None
      else case promote_local_kv_cache_specs dz reg specs of
        Inl e \<Rightarrow> if e = ValueError then Inr None else Inl e
      | Inr promoted \<Rightarrow>
          and_then (from_specs reg promoted) (\<lambda>u.
          Inr (map_option get_kv_cache_groups_uniform_type u)))"

definition unify_hybrid_kv_cache_specs :: "(string \<Rightarrow> int) \<Rightarrow> registry \<Rightarrow> layer_specs \<Rightarrow> layer_specs result" where
  "unify_hybrid_kv_cache_specs dz reg specs =
     and_then (one_type reg specs) (\<lambda>uniform.
     if uniform then Inr specs else promote_local_kv_cache_specs dz reg specs)"

section \<open>Groups of different page sizes\<close>

text \<open>\<^verbatim>\<open>group_and_unify_kv_cache_specs\<close>: one group of all MLA layers, one per block size and window of the windowed ones.\<close>

definition from_specs_some :: "registry \<Rightarrow> layer_specs \<Rightarrow> KVCacheSpec result" where
  "from_specs_some reg specs = and_then (from_specs reg specs) (\<lambda>u. case u of None \<Rightarrow> Inl AssertionError | Some s \<Rightarrow> Inr s)"

fun window_key :: "string \<times> KVCacheSpec \<Rightarrow> int \<times> int" where
  "window_key (_, s) = (spec_block_size s, case get_kv_cache_spec_sliding_window s of Some w \<Rightarrow> w | None \<Rightarrow> 0)"

definition group_and_unify_kv_cache_specs :: "(string \<Rightarrow> int) \<Rightarrow> registry \<Rightarrow> layer_specs \<Rightarrow> KVCacheSpec list option result" where
  "group_and_unify_kv_cache_specs dz reg specs =
     (if \<not> list_ex (\<lambda>(_, s). isinstance s cls_SlidingWindowMLASpec) specs then Inr None
      else
        and_then (all_results (map (page_size_bytes dz \<circ> snd) specs)) (\<lambda>pages.
        if length (remdups pages) \<le> 1 then Inr None
        else
          let swa_mla = filter (\<lambda>(_, s). isinstance s cls_SlidingWindowMLASpec) specs;
              mla = filter (\<lambda>(_, s). \<not> isinstance s cls_SlidingWindowMLASpec \<and> isinstance s cls_MLAAttentionSpec) specs;
              grouped_swa_mla = layers_by window_key (map (\<lambda>x. (x, x)) swa_mla)
          in
          and_then (py_assert (mla \<noteq> [])) (\<lambda>_.
          and_then (from_specs_some reg mla) (\<lambda>mla_uniform.
          and_then (all_results (map (\<lambda>(_, d). from_specs_some reg d) grouped_swa_mla)) (\<lambda>swa_uniform.
          Inr (Some (mla_uniform # swa_uniform)))))))"

text \<open>The padding that the chunk size \<open>d\<close> costs, and the loop over the candidates.\<close>

definition total_padding :: "int list \<Rightarrow> int \<Rightarrow> int" where
  "total_padding vals d = (\<Sum>x \<leftarrow> vals. (d - x mod d) mod d)"

fun better_chunk :: "int list \<Rightarrow> int \<Rightarrow> int \<times> int option \<Rightarrow> int \<times> int option" where
  "better_chunk vals d (best_d, best_pad) =
     (let pad = total_padding vals d in
      case best_pad of
        None \<Rightarrow> (d, Some pad)
      | Some p \<Rightarrow> if pad < p \<or> pad = p \<and> d > best_d then (d, Some pad) else (best_d, best_pad))"

definition approximate_gcd :: "int list \<Rightarrow> int option \<Rightarrow> int result" where
  "approximate_gcd vals lower_bound =
     (if vals = [] then Inl ValueError
      else if list_ex (\<lambda>x. x \<le> 0) vals then Inl ValueError
      else
        let min_d = max 1 (case lower_bound of Some n \<Rightarrow> n | None \<Rightarrow> 1); max_d = Max (set vals) in
        if min_d > max_d then Inr min_d
        else Inr (fst (fold (better_chunk vals) (py_range min_d (max_d + 1)) (min_d, None))))"

text \<open>\<^verbatim>\<open>Counter(...).most_common(1)[0][1]\<close>\<close>

definition most_common_count :: "'a list \<Rightarrow> int result" where
  "most_common_count xs = (if xs = [] then Inl IndexError else Inr (Max (set (map (\<lambda>x. int (count_list xs x)) xs))))"

definition get_num_layer_tuples :: "(string \<Rightarrow> int) \<Rightarrow> layer_specs \<Rightarrow> int result" where
  "get_num_layer_tuples dz specs = and_then (all_results (map (page_size_bytes dz \<circ> snd) specs)) most_common_count"

fun uniform_specs :: "KVCacheSpec \<Rightarrow> layer_specs result" where
  "uniform_specs (UniformTypeKVCacheSpecs _ specs) = Inr specs"
| "uniform_specs _ = Inl AssertionError"

text \<open>\<^verbatim>\<open>zip(*columns)\<close> for columns of the same length\<close>

definition zip_columns :: "nat \<Rightarrow> 'a list list \<Rightarrow> 'a list list" where
  "zip_columns n columns = map (\<lambda>i. map (\<lambda>xs. xs ! i) columns) [0..<n]"

definition split_swa_mla_group :: "(string \<Rightarrow> int) \<Rightarrow> registry \<Rightarrow> int \<Rightarrow> layer_specs \<Rightarrow> KVCacheGroupSpec list result" where
  "split_swa_mla_group dz reg num_layer_tuples specs =
     and_then (all_results (map (page_size_bytes dz \<circ> snd) specs)) (\<lambda>pages.
     let layers_per_size = map snd (layers_by id (zip (map fst specs) pages)) in
     and_then (the_only (map length layers_per_size)) (\<lambda>num_layers_per_size.
     let num_tuple_groups = nat (cdiv (int num_layers_per_size) num_layer_tuples);
         layer_tuples = zip_columns num_layers_per_size layers_per_size
     in
     all_results (map (\<lambda>i.
       let group_layer_names = concat (every_nth num_tuple_groups i layer_tuples) in
       and_then (all_results (map (\<lambda>name. and_then (spec_of_layer specs name) (\<lambda>s. Inr (name, s))) group_layer_names)) (\<lambda>group_specs.
       and_then (from_specs_some reg group_specs) (\<lambda>sub. Inr (kv_group group_layer_names sub)))) [0..<num_tuple_groups])))"

definition get_kv_cache_groups_uniform_groups ::
    "(string \<Rightarrow> int) \<Rightarrow> registry \<Rightarrow> KVCacheSpec list \<Rightarrow> KVCacheGroupSpec list result" where
  "get_kv_cache_groups_uniform_groups dz reg grouped_specs =
     and_then (all_results (map uniform_specs grouped_specs)) (\<lambda>dicts.
     case (grouped_specs, dicts) of
       (full_mla # _, full_mla_specs # swa_mla) \<Rightarrow>
         and_then (py_assert (list_all (\<lambda>(_, s). isinstance s cls_MLAAttentionSpec) full_mla_specs)) (\<lambda>_.
         and_then (all_results (map (get_num_layer_tuples dz) dicts)) (\<lambda>tuples.
         and_then (py_index tuples 0) (\<lambda>lower.
         and_then (approximate_gcd tuples (Some lower)) (\<lambda>num_layer_tuples.
         and_then (py_assert (list_all (list_all (\<lambda>(_, s). isinstance s cls_SlidingWindowMLASpec)) swa_mla)) (\<lambda>_.
         and_then (all_results (map (split_swa_mla_group dz reg num_layer_tuples) swa_mla)) (\<lambda>swa_groups.
         Inr (kv_group (map fst full_mla_specs) full_mla # concat swa_groups)))))))
     | _ \<Rightarrow> Inl AssertionError)"

fun spec_model_version :: "KVCacheSpec \<Rightarrow> string option" where
  "spec_model_version (MLAAttentionSpec _ _ m) = model_version m"
| "spec_model_version (HiddenStateCacheSpec _ _ m) = model_version m"
| "spec_model_version (SlidingWindowMLASpec _ _ _ m) = model_version m"
| "spec_model_version _ = None"

fun flag_first :: "('a \<Rightarrow> bool) \<Rightarrow> ('a \<Rightarrow> 'a) \<Rightarrow> 'a list \<Rightarrow> 'a list" where
  "flag_first p f [] = []"
| "flag_first p f (x # xs) = (if p x then f x # xs else x # flag_first p f xs)"

definition annotate_eagle_groups_deepseek_v4 :: "VllmConfig \<Rightarrow> layer_specs \<Rightarrow> KVCacheGroupSpec list \<Rightarrow> KVCacheGroupSpec list" where
  "annotate_eagle_groups_deepseek_v4 c specs groups =
     (case speculative_config c of
        None \<Rightarrow> groups
      | Some sc \<Rightarrow>
          if \<not> spec_use_eagle sc \<or> \<not> list_ex (\<lambda>(_, s). spec_model_version s = Some ''deepseek_v4'') specs then groups
          else flag_first (\<lambda>g. fst (last specs) \<in> set (layer_names g)) (\<lambda>g. g\<lparr>is_eagle_group := True\<rparr>) groups)"

text \<open>The first divisor on the way down from the limit.\<close>

definition largest_divisor_at_most :: "int \<Rightarrow> int \<Rightarrow> int" where
  "largest_divisor_at_most v limit = (case List.find (\<lambda>k. v mod k = 0) (rev [1..min v limit]) of Some k \<Rightarrow> k | None \<Rightarrow> 1)"

section \<open>The groups of a model\<close>

definition aligned_hidden_group :: "(string \<Rightarrow> int) \<Rightarrow> int \<Rightarrow> int \<Rightarrow> string \<times> KVCacheSpec \<Rightarrow> KVCacheGroupSpec result" where
  "aligned_hidden_group dz common_page group_block_size = (\<lambda>(name, s).
     case attention_part s of
       None \<Rightarrow> Inl AttributeError
     | Some a \<Rightarrow>
         and_then (py_div common_page (num_kv_heads a * head_size a * dz (att_dtype a))) (\<lambda>fitting.
         let new_bs = largest_divisor_at_most group_block_size (max fitting 1) in
         and_then (post_init dz (map_attention (\<lambda>a. a\<lparr>att_block_size := new_bs, att_page_size_padded := Some common_page\<rparr>) s)) (\<lambda>aligned.
         Inr (kv_group [name] aligned))))"

definition get_hybrid_groups :: "(string \<Rightarrow> int) \<Rightarrow> registry \<Rightarrow> layer_specs \<Rightarrow> KVCacheGroupSpec list result" where
  "get_hybrid_groups dz reg specs =
     (let hidden = filter (\<lambda>(_, s). isinstance s cls_HiddenStateCacheSpec) specs;
          filtered = filter (\<lambda>(_, s). \<not> isinstance s cls_HiddenStateCacheSpec) specs
      in
      case unify_kv_cache_spec_page_size dz filtered of
        Inl e \<Rightarrow>
          if e = NotImplementedError
          then and_then (try_get_full_allocation_fallback_groups dz reg specs) (\<lambda>fallback.
            case fallback of None \<Rightarrow> Inl NotImplementedError | Some gs \<Rightarrow> Inr gs)
          else Inl e
      | Inr unified \<Rightarrow>
          and_then (get_kv_cache_groups_uniform_page_size unified) (\<lambda>groups.
          if hidden = [] then Inr groups
          else
            and_then (get_uniform_page_size dz (map group_spec groups)) (\<lambda>common_page.
            let group_block_size = Gcd (set (map (\<lambda>g. spec_block_size (group_spec g)) groups)) in
            and_then (all_results (map (aligned_hidden_group dz common_page group_block_size) hidden)) (\<lambda>hidden_groups.
            Inr (groups @ hidden_groups)))))"

text \<open>The result holds the specifications too, which the code unifies in place.\<close>

definition get_kv_cache_groups ::
    "(string \<Rightarrow> int) \<Rightarrow> registry \<Rightarrow> VllmConfig \<Rightarrow> layer_specs \<Rightarrow> (KVCacheGroupSpec list \<times> layer_specs) result" where
  "get_kv_cache_groups dz reg c specs =
     and_then (if disable_hybrid_kv_cache_manager c then unify_hybrid_kv_cache_specs dz reg specs else Inr specs) (\<lambda>specs.
     if specs = [] then Inr ([], specs)
     else
       and_then (is_kv_cache_spec_uniform specs) (\<lambda>uniform.
       if uniform then and_then (get_kv_cache_groups_uniform_spec specs) (\<lambda>groups. Inr (groups, specs))
       else
         and_then (from_specs reg specs) (\<lambda>u.
         case u of
           Some s \<Rightarrow> Inr (get_kv_cache_groups_uniform_type s, specs)
         | None \<Rightarrow>
             and_then (group_and_unify_kv_cache_specs dz reg specs) (\<lambda>grouped.
             case grouped of
               Some gs \<Rightarrow>
                 and_then (get_kv_cache_groups_uniform_groups dz reg gs) (\<lambda>groups.
                 Inr (annotate_eagle_groups_deepseek_v4 c specs groups, specs))
             | None \<Rightarrow> and_then (get_hybrid_groups dz reg specs) (\<lambda>groups. Inr (groups, specs))))))"

section \<open>The configuration of all workers\<close>

definition check_enough_kv_cache_memory ::
    "(string \<Rightarrow> int) \<Rightarrow> registry \<Rightarrow> VllmConfig \<Rightarrow> layer_specs \<Rightarrow> int \<Rightarrow> unit result" where
  "check_enough_kv_cache_memory dz reg c specs available_memory =
     (if specs = [] then Inr ()
      else
        and_then (get_kv_cache_groups dz reg c specs) (\<lambda>(groups, _).
        and_then (if groups = [] then Inr available_memory
                  else and_then (pool_bytes_per_block dz groups) (\<lambda>n. Inr (available_memory - n))) (\<lambda>check_memory.
        check_enough_memory check_memory (model_memory_usage_bytes dz c (map snd specs)) (estimate_max_model_len dz c specs))))"

definition max_memory_usage_pages :: "(string \<Rightarrow> int) \<Rightarrow> VllmConfig \<Rightarrow> layer_specs \<Rightarrow> int result" where
  "max_memory_usage_pages dz c specs =
     max_results (map (\<lambda>(_, s).
       and_then (max_memory_usage_bytes dz c s) (\<lambda>used.
       and_then (page_size_bytes dz s) (\<lambda>page. Inr (cdiv used page)))) specs)"

definition group_blocks :: "(string \<Rightarrow> int) \<Rightarrow> VllmConfig \<Rightarrow> KVCacheGroupSpec \<Rightarrow> int result" where
  "group_blocks dz c g =
     (case group_spec g of
        UniformTypeKVCacheSpecs _ specs \<Rightarrow> max_memory_usage_pages dz c specs
      | s \<Rightarrow>
          and_then (max_memory_usage_bytes dz c s) (\<lambda>used.
          and_then (page_size_bytes dz s) (\<lambda>page. Inr (cdiv used page))))"

definition max_memory_usage_bytes_from_groups :: "(string \<Rightarrow> int) \<Rightarrow> VllmConfig \<Rightarrow> KVCacheGroupSpec list \<Rightarrow> int result" where
  "max_memory_usage_bytes_from_groups dz c groups =
     (if groups = [] then Inr 0
      else
        and_then (pool_bytes_per_block dz groups) (\<lambda>bytes_per_block.
        and_then (sum_results (map (group_blocks dz c) groups)) (\<lambda>total_blocks.
        Inr (bytes_per_block * total_blocks))))"

definition estimate_max_model_len_from_groups :: "(string \<Rightarrow> int) \<Rightarrow> VllmConfig \<Rightarrow> KVCacheGroupSpec list \<Rightarrow> int \<Rightarrow> int result" where
  "estimate_max_model_len_from_groups dz c groups available_memory =
     longest_fitting (\<lambda>n. and_then (max_memory_usage_bytes_from_groups dz (c\<lparr>max_model_len := n\<rparr>) groups) (\<lambda>needed.
       Inr (needed \<le> available_memory))) (max_model_len c)"

definition auto_fit_max_model_len ::
    "(string \<Rightarrow> int) \<Rightarrow> VllmConfig \<Rightarrow> KVCacheGroupSpec list list \<Rightarrow> int list \<Rightarrow> VllmConfig result" where
  "auto_fit_max_model_len dz c groups_per_worker available_memory =
     (if list_all (\<lambda>groups. groups = []) groups_per_worker then Inr c
      else
        and_then (py_index available_memory 0) (\<lambda>_.
        and_then (for_each (\<lambda>(groups, avail) best.
            if groups = [] then Inr best
            else and_then (estimate_max_model_len_from_groups dz c groups avail) (\<lambda>worker_max. Inr (min worker_max best)))
          (zip groups_per_worker available_memory) (max_model_len c)) (\<lambda>auto_fit_max.
        if auto_fit_max \<le> 0 then Inl ValueError
        else if auto_fit_max \<ge> max_model_len c then Inr c
        else Inr (c\<lparr>max_model_len := auto_fit_max\<rparr>))))"

definition project_group :: "layer_specs \<Rightarrow> KVCacheGroupSpec \<Rightarrow> KVCacheGroupSpec result" where
  "project_group worker_spec g =
     (let names = filter (\<lambda>name. dict_get worker_spec name \<noteq> None) (layer_names g) in
      and_then (case group_spec g of
          UniformTypeKVCacheSpecs bs specs \<Rightarrow>
            if names = [] then Inr (group_spec g)
            else and_then (all_results (map (\<lambda>name. and_then (spec_of_layer specs name) (\<lambda>s. Inr (name, s))) names)) (\<lambda>specs.
              Inr (UniformTypeKVCacheSpecs bs specs))
        | s \<Rightarrow> Inr s) (\<lambda>s.
      Inr \<lparr>layer_names = names, group_spec = s, is_eagle_group = is_eagle_group g \<and> names \<noteq> []\<rparr>))"

definition project_kv_cache_groups_to_worker :: "KVCacheGroupSpec list \<Rightarrow> layer_specs \<Rightarrow> KVCacheGroupSpec list result" where
  "project_kv_cache_groups_to_worker global_groups worker_spec = all_results (map (project_group worker_spec) global_groups)"

text \<open>The steps of \<^verbatim>\<open>get_kv_cache_configs\<close>: merging the specifications of the workers, tagging the windows, the effective memory.\<close>

definition merge_worker_specs :: "layer_specs list \<Rightarrow> layer_specs result" where
  "merge_worker_specs kv_cache_specs =
     for_each (\<lambda>(name, s) merged.
       case dict_get merged name of
         None \<Rightarrow> Inr (dict_set name s merged)
       | Some t \<Rightarrow> and_then (py_assert (t = s)) (\<lambda>_. Inr merged)) (concat kv_cache_specs) []"

definition extra_retained :: "VllmConfig \<Rightarrow> int" where
  "extra_retained c =
     (case speculative_config c of
        None \<Rightarrow> 0
      | Some sc \<Rightarrow> if spec_multi_module_mtp sc then num_speculative_tokens sc - 1 else 0)"

fun retain_extra :: "(string \<Rightarrow> int) \<Rightarrow> int \<Rightarrow> KVCacheSpec \<Rightarrow> KVCacheSpec result" where
  "retain_extra dz n (SlidingWindowSpec a w e) = Inr (SlidingWindowSpec a w n)"
| "retain_extra dz n (SlidingWindowMLASpec a w e m) = post_init dz (SlidingWindowMLASpec a w n m)"
| "retain_extra dz n s = Inr s"

definition effective_memory :: "(string \<Rightarrow> int) \<Rightarrow> VllmConfig \<Rightarrow> KVCacheGroupSpec list list \<Rightarrow> int list \<Rightarrow> int list result" where
  "effective_memory dz c groups_per_worker available_memory =
     (case num_gpu_blocks_override c of
        None \<Rightarrow> Inr available_memory
      | Some n \<Rightarrow>
          all_results (map (\<lambda>(groups, avail).
            if groups = [] then Inr avail else and_then (pool_bytes_per_block dz groups) (\<lambda>bytes. Inr (n * bytes)))
            (zip groups_per_worker available_memory)))"

definition usable_memory :: "(string \<Rightarrow> int) \<Rightarrow> KVCacheGroupSpec list list \<Rightarrow> int list \<Rightarrow> int list result" where
  "usable_memory dz groups_per_worker available_memory =
     all_results (map (\<lambda>(groups, avail).
       if groups = [] then Inr avail else and_then (pool_bytes_per_block dz groups) (\<lambda>bytes. Inr (avail - bytes)))
       (zip groups_per_worker available_memory))"

definition check_workers :: "(string \<Rightarrow> int) \<Rightarrow> VllmConfig \<Rightarrow> KVCacheGroupSpec list list \<Rightarrow> int list \<Rightarrow> unit result" where
  "check_workers dz c groups_per_worker check_memory =
     for_each (\<lambda>(groups, avail) _.
       if groups = [] then Inr ()
       else check_enough_memory avail (max_memory_usage_bytes_from_groups dz c groups) (estimate_max_model_len_from_groups dz c groups))
       (zip groups_per_worker check_memory) ()"

definition worker_config :: "(string \<Rightarrow> int) \<Rightarrow> VllmConfig \<Rightarrow> KVCacheGroupSpec list \<times> layer_specs \<times> int \<Rightarrow> KVCacheConfig result" where
  "worker_config dz c = (\<lambda>(groups, specs, avail).
     and_then (py_assert (sum_list (map (length \<circ> layer_names) groups) = length specs)) (\<lambda>_.
     get_kv_cache_config_from_groups dz c groups avail))"

text \<open>The last loop: every worker gets the number of blocks of the smallest one.\<close>

definition shrink_config :: "(string \<Rightarrow> int) \<Rightarrow> VllmConfig \<Rightarrow> int \<Rightarrow> KVCacheConfig \<Rightarrow> KVCacheConfig result" where
  "shrink_config dz c min_num_blocks cfg =
     (if num_blocks cfg = min_num_blocks then Inr cfg
      else
        and_then (pool_bytes_per_block dz (kv_cache_groups cfg)) (\<lambda>bytes.
        get_kv_cache_config_from_groups dz c (kv_cache_groups cfg) (min_num_blocks * bytes)))"

text \<open>The result holds the configuration too, whose model length may have been fitted.\<close>

definition get_kv_cache_configs ::
    "(string \<Rightarrow> int) \<Rightarrow> registry \<Rightarrow> VllmConfig \<Rightarrow> layer_specs list \<Rightarrow> int list \<Rightarrow> (KVCacheConfig list \<times> VllmConfig) result" where
  "get_kv_cache_configs dz reg c kv_cache_specs available_memory =
     and_then (merge_worker_specs kv_cache_specs) (\<lambda>merged.
     and_then (check_kv_cache_spec_registry reg merged) (\<lambda>_.
     and_then (all_results (map (\<lambda>(name, s). and_then (retain_extra dz (extra_retained c) s) (\<lambda>s. Inr (name, s))) merged)) (\<lambda>merged.
     and_then (get_kv_cache_groups dz reg c merged) (\<lambda>(global_groups, _).
     and_then (all_results (map (project_kv_cache_groups_to_worker global_groups) kv_cache_specs)) (\<lambda>groups_per_worker.
     and_then (effective_memory dz c groups_per_worker available_memory) (\<lambda>available_memory.
     and_then (usable_memory dz groups_per_worker available_memory) (\<lambda>check_memory.
     and_then (if original_max_model_len c = - 1 then auto_fit_max_model_len dz c groups_per_worker check_memory else Inr c) (\<lambda>c.
     and_then (check_workers dz c groups_per_worker check_memory) (\<lambda>_.
     and_then (all_results (map (worker_config dz c) (zip groups_per_worker (zip kv_cache_specs available_memory)))) (\<lambda>configs.
     if configs = [] then Inl ValueError
     else
       and_then (all_results (map (shrink_config dz c (Min (set (map num_blocks configs)))) configs)) (\<lambda>configs.
       Inr (configs, c))))))))))))"

definition generate_scheduler_kv_cache_config :: "KVCacheConfig list \<Rightarrow> KVCacheConfig result" where
  "generate_scheduler_kv_cache_config configs =
     (case configs of
        [] \<Rightarrow> Inl IndexError
      | cfg # _ \<Rightarrow>
          and_then (py_assert (list_all (\<lambda>k. num_blocks k = num_blocks cfg) configs)) (\<lambda>_.
          and_then (all_results (map (\<lambda>g. case group_spec g of
              UniformTypeKVCacheSpecs _ [] \<Rightarrow> Inl StopIteration
            | UniformTypeKVCacheSpecs _ ((_, s) # _) \<Rightarrow> Inr (g\<lparr>group_spec := s\<rparr>)
            | _ \<Rightarrow> Inr g) (kv_cache_groups cfg))) (\<lambda>groups.
          Inr (cfg\<lparr>kv_cache_groups := groups\<rparr>))))"

end
