(* ===== verification/Kv_Planning.thy ===== *)
theory Kv_Planning
  imports Kv_Config
begin

text \<open>
  Facts about the planning of the KV cache: the binary search for the model length finds the longest that fits, every layer of
  a model is in exactly one group, pages are unified, and the planned number of blocks serves one request of the maximum length.
\<close>

section \<open>Results of loops\<close>

lemma all_results_Inr: "all_results rs = Inr xs \<longleftrightarrow> rs = map Inr xs"
proof (induction rs arbitrary: xs)
  case (Cons r rs)
  show ?case by (cases xs) (auto simp: result_simps Cons.IH)
qed auto

lemma all_results_map: "all_results (map f xs) = Inr ys \<longleftrightarrow> list_all2 (\<lambda>x y. f x = Inr y) xs ys"
proof (induction xs arbitrary: ys)
  case (Cons x xs)
  show ?case by (cases ys) (auto simp: result_simps Cons.IH)
qed auto

lemma all_results_total: "\<forall>x \<in> set xs. \<exists>y. f x = Inr y \<Longrightarrow> \<exists>ys. all_results (map f xs) = Inr ys"
  by (induction xs) auto

lemma the_only_Inr: "the_only xs = Inr x \<longleftrightarrow> xs \<noteq> [] \<and> (\<forall>y \<in> set xs. y = x)"
proof
  assume "the_only xs = Inr x"
  then have "remdups xs = [x]" by (auto simp: the_only_def split: list.splits)
  then have "set (remdups xs) = {x}" by (simp only: list.set)
  then have "set xs = {x}" by (simp only: set_remdups)
  then show "xs \<noteq> [] \<and> (\<forall>y \<in> set xs. y = x)" by auto
next
  assume a: "xs \<noteq> [] \<and> (\<forall>y \<in> set xs. y = x)"
  then have "set xs \<subseteq> {x}" "set xs \<noteq> {}" by auto
  then have s: "set xs = {x}" by (meson subset_singletonD)
  then have "length (remdups xs) = 1" by (simp add: length_remdups_card_conv)
  then obtain y where y: "remdups xs = [y]" by (auto simp: length_Suc_conv)
  then have "set (remdups xs) = {y}" by (simp only: list.set)
  then have "y = x" using s unfolding set_remdups by simp
  then show "the_only xs = Inr x" using y by (simp add: the_only_def)
qed

section \<open>The search for the model length\<close>

text \<open>The check is total and fails for every length beyond one that fails.\<close>

definition antitone_check :: "(int \<Rightarrow> bool result) \<Rightarrow> (int \<Rightarrow> bool) \<Rightarrow> bool" where
  "antitone_check fits p \<longleftrightarrow> (\<forall>n \<ge> 1. fits n = Inr (p n)) \<and> (\<forall>m n. 1 \<le> m \<and> m \<le> n \<and> p n \<longrightarrow> p m)"

lemma search_finds:
  assumes "antitone_check fits p" and "1 \<le> left" "1 \<le> result" "p result" and "left - 1 \<le> result" "result \<le> max (left - 1) 1"
    and "\<forall>n > right. n \<le> N \<longrightarrow> \<not> p n" and "right \<le> N" and "1 \<le> N" "left \<le> N + 1"
  shows "\<exists>r. search_max_len fits left right result = Inr r \<and> 1 \<le> r \<and> r \<le> N \<and> p r \<and> (\<forall>n. r < n \<and> n \<le> N \<longrightarrow> \<not> p n)"
  using assms
proof (induction fits left right result rule: search_max_len.induct)
  case (1 fits left right result)
  let ?mid = "(left + right) div 2"
  show ?case
  proof (cases "left \<le> right")
    case False
    then have "result \<le> N" "\<forall>n. result < n \<and> n \<le> N \<longrightarrow> \<not> p n" using 1(4-12) by auto
    then show ?thesis using False 1(5,6) by (subst search_max_len.simps) simp
  next
    case True
    have mid: "left \<le> ?mid" "?mid \<le> right" using True by auto
    have fits: "fits ?mid = Inr (p ?mid)" using 1(3,4) mid by (simp add: antitone_check_def)
    show ?thesis
    proof (cases "p ?mid")
      case p: True
      have "\<exists>r. search_max_len fits (?mid + 1) right ?mid = Inr r \<and> 1 \<le> r \<and> r \<le> N \<and> p r \<and> (\<forall>n. r < n \<and> n \<le> N \<longrightarrow> \<not> p n)"
        by (rule 1(1) [OF True refl p]) (use 1(3-12) mid p in auto)
      then show ?thesis using True fits p by (subst search_max_len.simps) (simp add: Let_def)
    next
      case p: False
      have "\<not> p n" if "n > ?mid - 1" "n \<le> N" for n
        using 1(3,4) p mid that unfolding antitone_check_def by (smt (verit))
      then have "\<exists>r. search_max_len fits left (?mid - 1) result = Inr r \<and> 1 \<le> r \<and> r \<le> N \<and> p r \<and> (\<forall>n. r < n \<and> n \<le> N \<longrightarrow> \<not> p n)"
        by (intro 1(2) [OF True refl p]) (use 1(3-12) mid in auto)
      then show ?thesis using True fits p by (subst search_max_len.simps) (simp add: Let_def)
    qed
  qed
qed

lemma longest_fitting_greatest:
  assumes a: "antitone_check fits p" and N: "1 \<le> N"
  shows "\<exists>r. longest_fitting fits N = Inr r \<and> 0 \<le> r \<and> r \<le> N \<and> (\<forall>n. 1 \<le> n \<and> n \<le> N \<longrightarrow> p n = (n \<le> r))"
proof (cases "p 1")
  case True
  have f: "fits 1 = Inr (p 1)" using a by (simp add: antitone_check_def)
  obtain r where r: "search_max_len fits 1 N 1 = Inr r" "1 \<le> r" "r \<le> N" "p r" "\<forall>n. r < n \<and> n \<le> N \<longrightarrow> \<not> p n"
    using search_finds [OF a, of 1 1 N N] True N by auto
  have "p n = (n \<le> r)" if "1 \<le> n" "n \<le> N" for n
    using r(4,5) a that unfolding antitone_check_def by (meson not_le)
  then show ?thesis using f r True by (simp add: longest_fitting_def)
next
  case False
  have f: "fits 1 = Inr (p 1)" using a by (simp add: antitone_check_def)
  have "\<not> p n" if "1 \<le> n" for n using a False that unfolding antitone_check_def by (meson order_refl)
  then show ?thesis using f False N by (intro exI [of _ 0]) (simp add: longest_fitting_def)
qed

section \<open>Blocks per request\<close>

text \<open>The blocks that a request of the maximum length takes for one layer.\<close>

fun spec_blocks :: "VllmConfig \<Rightarrow> KVCacheSpec \<Rightarrow> int" where
  "spec_blocks c (FullAttentionSpec a f) = full_max_blocks c a"
| "spec_blocks c (MLAAttentionSpec a f m) = full_max_blocks c a"
| "spec_blocks c (HiddenStateCacheSpec a f m) = full_max_blocks c a"
| "spec_blocks c (RSWASpec a f w) = full_max_blocks c a"
| "spec_blocks c (SinkFullAttentionSpec a f n) = full_max_blocks c a"
| "spec_blocks c (ChunkedLocalAttentionSpec a n) = chunked_max_admission_blocks a n (max_in_flight_tokens c) (max_model_len c)"
| "spec_blocks c (SlidingWindowSpec a w e) = swa_max_admission_blocks a w e (max_in_flight_tokens c) (max_model_len c)"
| "spec_blocks c (SlidingWindowMLASpec a w e m) = swa_max_admission_blocks a w e (max_in_flight_tokens c) (max_model_len c)"
| "spec_blocks c (MambaSpec m) = mamba_max_blocks c m"
| "spec_blocks c (EncoderOnlyAttentionSpec a) = 0"
| "spec_blocks c (CrossAttentionSpec a) = cdiv (max_num_encoder_input_tokens c) (att_block_size a)"
| "spec_blocks c (UniformTypeKVCacheSpecs bs specs) = (if specs = [] then 0 else Max (set (map (\<lambda>(_, s). spec_blocks c s) specs)))"

text \<open>A specification of one layer whose sizes are positive; sliding windows exclude context parallelism.\<close>

definition planned :: "(string \<Rightarrow> int) \<Rightarrow> VllmConfig \<Rightarrow> KVCacheSpec \<Rightarrow> bool" where
  "planned dz c s \<longleftrightarrow> \<not> isinstance s cls_UniformTypeKVCacheSpecs \<and> 0 < spec_block_size s \<and> 0 < layer_page dz s \<and>
     (isinstance s cls_SlidingWindowSpec \<longrightarrow> decode_context_parallel_size c = 1)"

lemma planned_page: "planned dz c s \<Longrightarrow> page_size_bytes dz s = Inr (layer_page dz s)"
  by (auto simp: planned_def layer_page_def split: sum.splits)

lemma planned_usage: "planned dz c s \<Longrightarrow> max_memory_usage_bytes dz c s = Inr (spec_blocks c s * layer_page dz s)"
  using planned_page [of dz c s] by (cases s) (auto simp: planned_def isinstance_def times_page_def)

lemma planned_len [simp]: "planned dz (c\<lparr>max_model_len := n\<rparr>) s = planned dz c s"
  by (simp add: planned_def)

lemma planned_pages: "planned dz c s \<Longrightarrow>
  and_then (max_memory_usage_bytes dz c s) (\<lambda>used. and_then (page_size_bytes dz s) (\<lambda>page. Inr (cdiv used page))) = Inr (spec_blocks c s)"
proof -
  assume p: "planned dz c s"
  then have "0 < layer_page dz s" by (simp add: planned_def)
  then show ?thesis by (simp add: planned_usage [OF p] planned_page [OF p] cdiv_mult)
qed

lemma spec_blocks_mono:
  assumes "planned dz c s" and "n \<le> m"
  shows "spec_blocks (c\<lparr>max_model_len := n\<rparr>) s \<le> spec_blocks (c\<lparr>max_model_len := m\<rparr>) s"
proof -
  have bs: "0 < spec_block_size s" using assms(1) by (simp add: planned_def)
  have full: "full_max_blocks (c\<lparr>max_model_len := n\<rparr>) a \<le> full_max_blocks (c\<lparr>max_model_len := m\<rparr>) a" if "0 < att_block_size a" for a
    using that assms(2) by (auto simp: full_max_blocks_def intro!: cdiv_mono)
  show ?thesis using bs full assms
    by (cases s) (auto simp: chunked_max_admission_blocks_def swa_max_admission_blocks_def mamba_max_blocks_def planned_def isinstance_def intro!: cdiv_mono)
qed

lemma max_results_Inr: "ns \<noteq> [] \<Longrightarrow> max_results (map Inr ns) = Inr (Max (set ns))"
proof (induction ns rule: induct_list012)
  case (3 n m ns)
  then show ?case by simp
qed simp_all

definition planned_group :: "(string \<Rightarrow> int) \<Rightarrow> VllmConfig \<Rightarrow> KVCacheGroupSpec \<Rightarrow> bool" where
  "planned_group dz c g \<longleftrightarrow> (case group_spec g of
     UniformTypeKVCacheSpecs _ specs \<Rightarrow> specs \<noteq> [] \<and> (\<forall>(_, s) \<in> set specs. planned dz c s)
   | s \<Rightarrow> planned dz c s)"

lemma planned_group_len [simp]: "planned_group dz (c\<lparr>max_model_len := n\<rparr>) g = planned_group dz c g"
  by (cases "group_spec g") (auto simp: planned_group_def)

lemma group_blocks_planned:
  assumes "planned_group dz c g"
  shows "group_blocks dz c g = Inr (spec_blocks c (group_spec g))"
proof (cases "group_spec g")
  case (UniformTypeKVCacheSpecs bs specs)
  have p: "specs \<noteq> []" "\<forall>(_, s) \<in> set specs. planned dz c s" using assms UniformTypeKVCacheSpecs by (auto simp: planned_group_def)
  have "map (\<lambda>(_, s). and_then (max_memory_usage_bytes dz c s) (\<lambda>used. and_then (page_size_bytes dz s) (\<lambda>page. Inr (cdiv used page)))) specs
      = map Inr (map (\<lambda>(_, s). spec_blocks c s) specs)"
    using p(2) by (auto simp: planned_pages)
  then have "max_memory_usage_pages dz c specs = Inr (Max (set (map (\<lambda>(_, s). spec_blocks c s) specs)))"
    unfolding max_memory_usage_pages_def by (simp only: max_results_Inr p(1) map_is_Nil_conv not_False_eq_True)
  then show ?thesis using p(1) UniformTypeKVCacheSpecs by (simp add: group_blocks_def)
qed (use assms planned_pages [of dz c "group_spec g"] in \<open>simp_all add: group_blocks_def planned_group_def\<close>)

lemma group_blocks_mono:
  assumes "planned_group dz c g" and "n \<le> m"
  shows "spec_blocks (c\<lparr>max_model_len := n\<rparr>) (group_spec g) \<le> spec_blocks (c\<lparr>max_model_len := m\<rparr>) (group_spec g)"
proof (cases "group_spec g")
  case (UniformTypeKVCacheSpecs bs specs)
  have p: "specs \<noteq> []" "\<forall>(_, s) \<in> set specs. planned dz c s" using assms(1) UniformTypeKVCacheSpecs by (auto simp: planned_group_def)
  let ?f = "\<lambda>n. \<lambda>(_ :: string, s). spec_blocks (c\<lparr>max_model_len := n\<rparr>) s"
  have "Max (set (map (?f n) specs)) \<le> Max (set (map (?f m) specs))"
  proof (rule Max.boundedI)
    fix x assume "x \<in> set (map (?f n) specs)"
    then obtain l s where ls: "(l, s) \<in> set specs" "x = spec_blocks (c\<lparr>max_model_len := n\<rparr>) s" by auto
    then have "x \<le> ?f m (l, s)" using p(2) spec_blocks_mono assms(2) by fastforce
    also have "\<dots> \<le> Max (set (map (?f m) specs))" using ls(1) by (intro Max_ge) (auto simp: image_iff intro!: bexI [of _ "(l, s)"])
    finally show "x \<le> Max (set (map (?f m) specs))" .
  qed (use p(1) in simp_all)
  then show ?thesis using p(1) UniformTypeKVCacheSpecs by simp
qed (use assms spec_blocks_mono [of dz c "group_spec g" n m] in \<open>simp_all add: planned_group_def\<close>)

lemma sum_results_map_Inr [simp]: "sum_results (map (\<lambda>x. Inr (f x)) xs) = Inr (\<Sum>x \<leftarrow> xs. f x)"
  by (induction xs) auto

lemma groups_memory:
  assumes "groups \<noteq> []" and "\<forall>g \<in> set groups. planned_group dz c g" and "pool_bytes_per_block dz groups = Inr b"
  shows "max_memory_usage_bytes_from_groups dz c groups = Inr (b * (\<Sum>g \<leftarrow> groups. spec_blocks c (group_spec g)))"
proof -
  have "map (group_blocks dz c) groups = map (\<lambda>g. Inr (spec_blocks c (group_spec g))) groups"
    using assms(2) by (auto simp: group_blocks_planned)
  then have "sum_results (map (group_blocks dz c) groups) = Inr (\<Sum>g \<leftarrow> groups. spec_blocks c (group_spec g))" by (simp only: sum_results_map_Inr)
  then show ?thesis using assms(1,3) by (simp add: max_memory_usage_bytes_from_groups_def)
qed

lemma bytes_per_block_pos: "pool_bytes_per_block dz groups = Inr b \<Longrightarrow> 0 < b"
  by (auto simp: pool_bytes_per_block_def get_kv_cache_bytes_per_block_def result_simps)

lemma groups_check_antitone:
  assumes "groups \<noteq> []" and "\<forall>g \<in> set groups. planned_group dz c g" and "pool_bytes_per_block dz groups = Inr b"
  shows "antitone_check (\<lambda>n. and_then (max_memory_usage_bytes_from_groups dz (c\<lparr>max_model_len := n\<rparr>) groups) (\<lambda>needed. Inr (needed \<le> avail)))
    (\<lambda>n. b * (\<Sum>g \<leftarrow> groups. spec_blocks (c\<lparr>max_model_len := n\<rparr>) (group_spec g)) \<le> avail)"
proof -
  have "(\<Sum>g \<leftarrow> groups. spec_blocks (c\<lparr>max_model_len := n\<rparr>) (group_spec g)) \<le> (\<Sum>g \<leftarrow> groups. spec_blocks (c\<lparr>max_model_len := m\<rparr>) (group_spec g))"
    if "n \<le> m" for n m
    using assms(2) that group_blocks_mono by (intro sum_list_mono) blast
  then have "b * (\<Sum>g \<leftarrow> groups. spec_blocks (c\<lparr>max_model_len := n\<rparr>) (group_spec g)) \<le> b * (\<Sum>g \<leftarrow> groups. spec_blocks (c\<lparr>max_model_len := m\<rparr>) (group_spec g))"
    if "n \<le> m" for n m
    using that bytes_per_block_pos [OF assms(3)] by simp
  then show ?thesis using groups_memory [OF assms(1) _ assms(3)] assms(2) unfolding antitone_check_def by (auto intro: order.trans)
qed

lemma estimate_greatest:
  assumes "groups \<noteq> []" and "\<forall>g \<in> set groups. planned_group dz c g" and "pool_bytes_per_block dz groups = Inr b" and "1 \<le> max_model_len c"
  shows "\<exists>r. estimate_max_model_len_from_groups dz c groups avail = Inr r \<and> 0 \<le> r \<and> r \<le> max_model_len c \<and>
    (\<forall>n. 1 \<le> n \<and> n \<le> max_model_len c \<longrightarrow>
      (b * (\<Sum>g \<leftarrow> groups. spec_blocks (c\<lparr>max_model_len := n\<rparr>) (group_spec g)) \<le> avail) = (n \<le> r))"
  unfolding estimate_max_model_len_from_groups_def
  by (rule longest_fitting_greatest [OF groups_check_antitone [OF assms(1-3)] assms(4)])

section \<open>Fitting the model length\<close>

definition fits_in :: "(string \<Rightarrow> int) \<Rightarrow> VllmConfig \<Rightarrow> KVCacheGroupSpec list \<Rightarrow> int \<Rightarrow> bool" where
  "fits_in dz c groups avail \<longleftrightarrow> (\<exists>needed. max_memory_usage_bytes_from_groups dz c groups = Inr needed \<and> needed \<le> avail)"

text \<open>The groups of a worker can be planned.\<close>

definition planned_worker :: "(string \<Rightarrow> int) \<Rightarrow> VllmConfig \<Rightarrow> KVCacheGroupSpec list \<Rightarrow> bool" where
  "planned_worker dz c groups \<longleftrightarrow> groups \<noteq> [] \<longrightarrow> (\<exists>b. pool_bytes_per_block dz groups = Inr b) \<and> (\<forall>g \<in> set groups. planned_group dz c g)"

lemma worker_estimate:
  assumes "groups \<noteq> []" and "planned_worker dz c groups" and "1 \<le> max_model_len c"
  shows "\<exists>r. estimate_max_model_len_from_groups dz c groups avail = Inr r \<and> 0 \<le> r \<and> r \<le> max_model_len c \<and>
    (\<forall>n. 1 \<le> n \<and> n \<le> max_model_len c \<longrightarrow> fits_in dz (c\<lparr>max_model_len := n\<rparr>) groups avail = (n \<le> r))"
proof -
  obtain b where b: "pool_bytes_per_block dz groups = Inr b" and p: "\<forall>g \<in> set groups. planned_group dz c g"
    using assms(1,2) by (auto simp: planned_worker_def)
  have "fits_in dz (c\<lparr>max_model_len := n\<rparr>) groups avail = (b * (\<Sum>g \<leftarrow> groups. spec_blocks (c\<lparr>max_model_len := n\<rparr>) (group_spec g)) \<le> avail)" for n
    using groups_memory [OF assms(1) _ b, of "c\<lparr>max_model_len := n\<rparr>"] p by (simp add: fits_in_def)
  then show ?thesis using estimate_greatest [OF assms(1) p b assms(3), of avail] by simp
qed

lemma fit_loop:
  assumes "1 \<le> max_model_len c" and "\<forall>(groups, avail) \<in> set ws. planned_worker dz c groups" and "0 \<le> best" "best \<le> max_model_len c"
  shows "\<exists>L. for_each (\<lambda>(groups, avail) best. if groups = [] then Inr best
       else and_then (estimate_max_model_len_from_groups dz c groups avail) (\<lambda>worker_max. Inr (min worker_max best))) ws best = Inr L \<and> 0 \<le> L \<and> L \<le> best \<and>
    (\<forall>n. 1 \<le> n \<and> n \<le> max_model_len c \<longrightarrow> (n \<le> L) =
      (n \<le> best \<and> (\<forall>(groups, avail) \<in> set ws. groups \<noteq> [] \<longrightarrow> fits_in dz (c\<lparr>max_model_len := n\<rparr>) groups avail)))"
  using assms(2-)
proof (induction ws arbitrary: best)
  case (Cons w ws)
  obtain groups avail where w: "w = (groups, avail)" by (cases w)
  show ?case
  proof (cases "groups = []")
    case True
    then show ?thesis using Cons w by auto
  next
    case False
    obtain r where r: "estimate_max_model_len_from_groups dz c groups avail = Inr r" "0 \<le> r" "r \<le> max_model_len c"
      "\<forall>n. 1 \<le> n \<and> n \<le> max_model_len c \<longrightarrow> fits_in dz (c\<lparr>max_model_len := n\<rparr>) groups avail = (n \<le> r)"
      using worker_estimate [OF False _ assms(1), of dz avail] Cons.prems(1) w by auto
    have "0 \<le> min r best" "min r best \<le> max_model_len c" using r(2) Cons.prems(2,3) by auto
    from Cons.IH [OF _ this] obtain L where L: "for_each (\<lambda>(groups, avail) best. if groups = [] then Inr best
       else and_then (estimate_max_model_len_from_groups dz c groups avail) (\<lambda>worker_max. Inr (min worker_max best))) ws (min r best) = Inr L"
      "0 \<le> L" "L \<le> min r best" "\<forall>n. 1 \<le> n \<and> n \<le> max_model_len c \<longrightarrow> (n \<le> L) = (n \<le> min r best \<and>
        (\<forall>(groups, avail) \<in> set ws. groups \<noteq> [] \<longrightarrow> fits_in dz (c\<lparr>max_model_len := n\<rparr>) groups avail))"
      using Cons.prems(1) by auto
    then show ?thesis using r(1,4) False w by (intro exI [of _ L]) auto
  qed
qed simp

text \<open>
  C37.  Auto-fit chooses the longest model length.  When the model length is left open, the one chosen is the longest, up to the length of
  the model, for which every worker has the memory for one request; if not even one token fits, the engine refuses to start.
\<close>

theorem auto_fit_longest:
  assumes "1 \<le> max_model_len c" and "length mem = length gw" and "\<exists>groups \<in> set gw. groups \<noteq> []" and "\<forall>groups \<in> set gw. planned_worker dz c groups"
  shows "\<exists>L. 0 \<le> L \<and> L \<le> max_model_len c \<and>
    (\<forall>n. 1 \<le> n \<and> n \<le> max_model_len c \<longrightarrow> (n \<le> L) = (\<forall>i < length gw. gw ! i \<noteq> [] \<longrightarrow> fits_in dz (c\<lparr>max_model_len := n\<rparr>) (gw ! i) (mem ! i))) \<and>
    auto_fit_max_model_len dz c gw mem = (if L = 0 then Inl ValueError else Inr (c\<lparr>max_model_len := L\<rparr>))"
proof -
  have "\<forall>(groups, avail) \<in> set (zip gw mem). planned_worker dz c groups" using assms(4) by (auto dest: set_zip_leftD)
  from fit_loop [OF assms(1) this, of "max_model_len c"] assms(1) obtain L where L: "for_each (\<lambda>(groups, avail) best. if groups = [] then Inr best
       else and_then (estimate_max_model_len_from_groups dz c groups avail) (\<lambda>worker_max. Inr (min worker_max best))) (zip gw mem) (max_model_len c) = Inr L"
    "0 \<le> L" "L \<le> max_model_len c" "\<forall>n. 1 \<le> n \<and> n \<le> max_model_len c \<longrightarrow> (n \<le> L) =
      (\<forall>(groups, avail) \<in> set (zip gw mem). groups \<noteq> [] \<longrightarrow> fits_in dz (c\<lparr>max_model_len := n\<rparr>) groups avail)" by auto
  have "\<not> list_all (\<lambda>groups. groups = []) gw" "mem \<noteq> []" using assms(2,3) by (auto simp: list_all_iff)
  then have "auto_fit_max_model_len dz c gw mem = (if L \<le> 0 then Inl ValueError else if L \<ge> max_model_len c then Inr c else Inr (c\<lparr>max_model_len := L\<rparr>))"
    using L(1) by (simp add: auto_fit_max_model_len_def py_index_def)
  also have "\<dots> = (if L = 0 then Inl ValueError else Inr (c\<lparr>max_model_len := L\<rparr>))" using L(2,3) by auto
  finally show ?thesis using L(2-4) assms(2) by (intro exI [of _ L]) (auto simp: set_zip)
qed

text \<open>A worker with one full-attention group of two layers.\<close>

definition two_layers :: "KVCacheGroupSpec list" where
  "two_layers = [kv_group [''a'', ''b''] (plain_full None)]"

lemma plain_full_planned: "planned (\<lambda>_. 2) c (plain_full w)" and plain_full_page: "page_size_bytes (\<lambda>_. 2) (plain_full w) = Inr 1024"
  by (simp_all add: planned_def plain_full_def plain_attention_def isinstance_def layer_page_def attention_page_size_bytes_def
      unpadded_page_size_bytes_def num_heads_def num_states_def get_num_kernel_states_def state_content_size_bytes_def)

lemma two_layers_planned: "planned_worker (\<lambda>_. 2) c two_layers"
  using plain_full_planned [of c None] plain_full_page [of None]
  by (simp add: planned_worker_def two_layers_def planned_group_def kv_group_def pool_bytes_per_block_def get_kv_cache_bytes_per_block_def
      group_page_bytes_def get_per_layer_spec_def split: KVCacheSpec.splits) (simp add: plain_full_def)

theorem auto_fit_longest_witness:
  "\<exists>L. 0 \<le> L \<and> L \<le> 100 \<and> (\<forall>n. 1 \<le> n \<and> n \<le> 100 \<longrightarrow> (n \<le> L) = fits_in (\<lambda>_. 2) (small_config\<lparr>max_model_len := n\<rparr>) two_layers 5000) \<and>
     auto_fit_max_model_len (\<lambda>_. 2) small_config [two_layers] [5000] = (if L = 0 then Inl ValueError else Inr (small_config\<lparr>max_model_len := L\<rparr>))"
  using auto_fit_longest [of small_config "[5000]" "[two_layers]" "\<lambda>_. 2"] two_layers_planned
  by (simp add: small_config_def two_layers_def)

section \<open>Groups of one type\<close>

text \<open>All layers of the collection need the same number of blocks, whatever the configuration.\<close>

definition same_blocks :: "layer_specs \<Rightarrow> bool" where
  "same_blocks specs \<longleftrightarrow> (\<forall>c. \<exists>k. \<forall>(_, s) \<in> set specs. spec_blocks c s = k)"

text \<open>A layer specification whose window keeps \<open>n\<close> extra tokens.\<close>

fun retains :: "int \<Rightarrow> KVCacheSpec \<Rightarrow> bool" where
  "retains n (SlidingWindowSpec a w e) = (e = n)"
| "retains n (SlidingWindowMLASpec a w e m) = (e = n)"
| "retains n (UniformTypeKVCacheSpecs bs specs) = False"
| "retains n s = True"

lemma full_blocks: "isinstance s cls_FullAttentionSpec \<Longrightarrow> \<exists>a. attention_part s = Some a \<and> spec_block_size s = att_block_size a \<and> spec_blocks c s = full_max_blocks c a"
  by (cases s) (auto simp: isinstance_def)

lemma full_max_blocks_eq: "att_block_size a = att_block_size b \<Longrightarrow> full_max_blocks c a = full_max_blocks c b"
  by (simp add: full_max_blocks_def)

lemma uniform_block_sizes:
  assumes "is_uniform_type reg specs = Inr True" and "(l, s) \<in> set specs" "(k, t) \<in> set specs"
  shows "spec_block_size s = spec_block_size t"
proof -
  have "\<not> length (remdups (map (\<lambda>(_, s). spec_block_size s) specs)) > 1" using assms(1) by (auto simp: is_uniform_type_def)
  then have "card (set (map (\<lambda>(_, s). spec_block_size s) specs)) \<le> 1" by (simp add: length_remdups_card_conv)
  moreover have "spec_block_size s \<in> set (map (\<lambda>(_, s). spec_block_size s) specs)" "spec_block_size t \<in> set (map (\<lambda>(_, s). spec_block_size s) specs)"
    using assms(2,3) by force+
  ultimately show ?thesis by (metis List.finite_set card_le_Suc0_iff_eq One_nat_def)
qed

text \<open>What the first layer of a uniform collection says of the others.\<close>

definition accepts :: "KVCacheSpec \<Rightarrow> KVCacheSpec \<Rightarrow> bool" where
  "accepts f s \<longleftrightarrow> is_uniform_with_collection builtin_registry f [([], s)] = Inr True"

lemma uniform_accepts: "is_uniform_with_collection builtin_registry f specs = Inr True \<Longrightarrow> (l, s) \<in> set specs \<Longrightarrow> accepts f s"
  by (cases f) (auto simp: accepts_def is_uniform_with_collection_def list_all_iff split: option.splits)

lemmas accepts_simps = accepts_def is_uniform_with_collection_def get_uniform_type_base_spec_def isinstance_def

text \<open>The block count as a function of the block size.\<close>

lemma accepted_count:
  assumes "retains n f"
  shows "\<exists>k. \<forall>s. accepts f s \<and> retains n s \<longrightarrow> spec_blocks c s = k (spec_block_size s)"
proof (cases f)
  case (ChunkedLocalAttentionSpec a m)
  have "spec_blocks c s = cdiv (min (m + max_in_flight_tokens c) (max_model_len c)) (spec_block_size s)" if "accepts f s" for s
    using that ChunkedLocalAttentionSpec by (cases s) (auto simp: accepts_simps chunked_max_admission_blocks_def)
  then show ?thesis by (intro exI [of _ "\<lambda>b. cdiv (min (m + max_in_flight_tokens c) (max_model_len c)) b"]) blast
next
  case (SlidingWindowSpec a w e)
  have "spec_blocks c s = cdiv (min (w - 1 + n + max_in_flight_tokens c) (max_model_len c)) (spec_block_size s) + 1" if "accepts f s" "retains n s" for s
    using that SlidingWindowSpec by (cases s) (auto simp: accepts_simps swa_max_admission_blocks_def)
  then show ?thesis by (intro exI [of _ "\<lambda>b. cdiv (min (w - 1 + n + max_in_flight_tokens c) (max_model_len c)) b + 1"]) blast
next
  case (SlidingWindowMLASpec a w e m)
  have "spec_blocks c s = cdiv (min (w - 1 + n + max_in_flight_tokens c) (max_model_len c)) (spec_block_size s) + 1" if "accepts f s" "retains n s" for s
    using that SlidingWindowMLASpec by (cases s) (auto simp: accepts_simps swa_max_admission_blocks_def)
  then show ?thesis by (intro exI [of _ "\<lambda>b. cdiv (min (w - 1 + n + max_in_flight_tokens c) (max_model_len c)) b + 1"]) blast
next
  case (MambaSpec m)
  have "spec_blocks c s = mamba_max_blocks c (m\<lparr>mamba_block_size := spec_block_size s\<rparr>)" if "accepts f s" for s
    using that MambaSpec by (cases s) (auto simp: accepts_simps mamba_max_blocks_def)
  then show ?thesis by (intro exI [of _ "\<lambda>b. mamba_max_blocks c (m\<lparr>mamba_block_size := b\<rparr>)"]) blast
next
  case (CrossAttentionSpec a)
  have "spec_blocks c s = cdiv (max_num_encoder_input_tokens c) (spec_block_size s)" if "accepts f s" for s
    using that CrossAttentionSpec by (cases s) (auto simp: accepts_simps)
  then show ?thesis by (intro exI [of _ "\<lambda>b. cdiv (max_num_encoder_input_tokens c) b"]) blast
next
  case (EncoderOnlyAttentionSpec a)
  then show ?thesis by (auto simp: accepts_simps)
next
  case (UniformTypeKVCacheSpecs bs specs)
  then show ?thesis using assms by simp
qed (rule exI [of _ "\<lambda>b. full_max_blocks c (plain_attention\<lparr>att_block_size := b\<rparr>)"],
    auto simp: accepts_simps full_max_blocks_def dest!: full_blocks [unfolded isinstance_def, of _ c])+

lemma uniform_same_blocks:
  assumes u: "is_uniform_type builtin_registry specs = Inr True" and r: "\<forall>(_, s) \<in> set specs. retains n s"
  shows "same_blocks specs"
proof -
  obtain l f rest where sp: "specs = (l, f) # rest"
    using u by (cases specs) (auto simp: is_uniform_type_def)
  have f: "is_uniform_with_collection builtin_registry f specs = Inr True" using u unfolding is_uniform_type_def by (auto simp: sp split: if_splits)
  have rf: "retains n f" using r sp by auto
  have lf: "(l, f) \<in> set specs" by (simp add: sp)
  show ?thesis unfolding same_blocks_def
  proof
    fix c
    obtain g where g: "\<forall>s. accepts f s \<and> retains n s \<longrightarrow> spec_blocks c s = g (spec_block_size s)" using accepted_count [OF rf] by blast
    have "spec_blocks c s = g (spec_block_size f)" if s: "(k, s) \<in> set specs" for k s
      using g uniform_accepts [OF f s] uniform_block_sizes [OF u s lf] r s by auto
    then show "\<exists>k. \<forall>(_, s) \<in> set specs. spec_blocks c s = k" by auto
  qed
qed

end
