(* ===== verification/Kv_Grouping.thy ===== *)
theory Kv_Grouping
  imports Kv_Planning "HOL-Library.Multiset"
begin

text \<open>
  The groups of a model.  \<^verbatim>\<open>get_kv_cache_groups\<close> puts every layer into exactly one group, whichever of its strategies applies (models that
  mix windowed latent attention with another family apart); the specification of a group is the merge of those of its own layers, which keep
  class, window and shape, and the layers of a group of one type need the same number of blocks.
\<close>

section \<open>Partitions of lists\<close>

abbreviation flat :: "'a list list \<Rightarrow> 'a multiset" where
  "flat xss \<equiv> mset (concat xss)"

lemma residues_cover:
  assumes "0 < n"
  shows "(\<Sum>i \<leftarrow> [0..<n]. mset (filter (\<lambda>j. j mod n = i) js)) = mset js"
proof (induction js)
  case (Cons j js)
  have "map (\<lambda>i. mset (filter (\<lambda>k. k mod n = i) (j # js))) [0..<n] =
      map (\<lambda>i. (if i = j mod n then {#j#} else {#}) + mset (filter (\<lambda>k. k mod n = i) js)) [0..<n]"
    by auto
  then have "(\<Sum>i \<leftarrow> [0..<n]. mset (filter (\<lambda>k. k mod n = i) (j # js))) =
      (\<Sum>i \<leftarrow> [0..<n]. if i = j mod n then {#j#} else {#}) + (\<Sum>i \<leftarrow> [0..<n]. mset (filter (\<lambda>k. k mod n = i) js))"
    by (simp only: sum_list_addf)
  also have "(\<Sum>i \<leftarrow> [0..<n]. if i = j mod n then {#j#} else {#}) = {#j#}"
    using assms by (simp add: interv_sum_list_conv_sum_set_nat)
  finally show ?case using Cons.IH by simp
qed (simp add: sum_list_0)

lemma image_mset_sum_list: "(\<Sum>i \<leftarrow> is. image_mset f (g i)) = image_mset f (\<Sum>i \<leftarrow> is. g i)"
  by (induction "is") simp_all

lemma every_nth_partition:
  assumes "0 < n"
  shows "flat (map (\<lambda>i. every_nth n i xs) [0..<n]) = mset xs"
proof -
  have "flat (map (\<lambda>i. every_nth n i xs) [0..<n]) = (\<Sum>i \<leftarrow> [0..<n]. image_mset (\<lambda>j. xs ! j) (mset (filter (\<lambda>j. j mod n = i) [0..<length xs])))"
    by (simp add: mset_concat every_nth_def o_def)
  also have "\<dots> = image_mset (\<lambda>j. xs ! j) (\<Sum>i \<leftarrow> [0..<n]. mset (filter (\<lambda>j. j mod n = i) [0..<length xs]))"
    by (simp only: image_mset_sum_list)
  also have "\<dots> = image_mset (\<lambda>j. xs ! j) (mset [0..<length xs])" by (simp only: residues_cover [OF assms])
  also have "\<dots> = mset xs" by (metis map_nth mset_map)
  finally show ?thesis .
qed

lemma every_nth_nonempty: "i < n \<Longrightarrow> i < length xs \<Longrightarrow> every_nth n i xs \<noteq> []"
  by (auto simp: every_nth_def filter_empty_conv intro!: bexI [of _ i])

lemma split_partition:
  assumes "0 < gs"
  shows "flat (split_layers gs layers) = mset layers"
proof (cases "layers = []")
  case False
  then have "1 \<le> cdiv (int (length layers)) gs" using cdiv_le_iff [OF assms, of "int (length layers)" 0] by (cases layers) auto
  then show ?thesis unfolding split_layers_def Let_def by (intro every_nth_partition) simp
qed (use assms in \<open>simp add: split_layers_def cdiv_def every_nth_def\<close>)

lemma columns_partition:
  assumes "\<forall>xs \<in> set cols. length xs = n"
  shows "flat (zip_columns n cols) = flat cols"
  using assms
proof (induction cols)
  case Nil
  then show ?case by (induction n) (simp_all add: zip_columns_def)
next
  case (Cons xs cols)
  have "flat (zip_columns n (xs # cols)) = (\<Sum>i \<leftarrow> [0..<n]. {#xs ! i#} + mset (map (\<lambda>ys. ys ! i) cols))"
    by (simp add: zip_columns_def mset_concat o_def)
  also have "\<dots> = (\<Sum>i \<leftarrow> [0..<n]. {#xs ! i#}) + (\<Sum>i \<leftarrow> [0..<n]. mset (map (\<lambda>ys. ys ! i) cols))" by (rule sum_list_addf)
  also have "(\<Sum>i \<leftarrow> [0..<n]. mset (map (\<lambda>ys. ys ! i) cols)) = flat (zip_columns n cols)"
    by (simp add: zip_columns_def mset_concat o_def)
  also have "(\<Sum>i \<leftarrow> [0..<n]. {#xs ! i#}) = mset xs"
  proof -
    have "mset xs = mset (map (\<lambda>i. xs ! i) [0..<n])" using Cons.prems by (metis list.set_intros(1) map_nth)
    also have "\<dots> = (\<Sum>i \<leftarrow> [0..<n]. {#xs ! i#})" by (induction n) simp_all
    finally show ?thesis by simp
  qed
  finally show ?case using Cons by simp
qed

text \<open>Collecting values under keys keeps them all, and no entry is empty.\<close>

lemma dict_append_flat: "flat (map snd (dict_append k x d)) = {#x#} + flat (map snd d)"
  by (induction d) (auto simp: dict_append_def)

lemma dict_append_nonempty: "[] \<notin> snd ` set d \<Longrightarrow> [] \<notin> snd ` set (dict_append k x d)"
  by (induction d) (auto simp: dict_append_def)

lemma layers_by_flat: "flat (map snd (layers_by key specs)) = mset (map fst specs)"
proof -
  have "flat (map snd (fold (\<lambda>(name, s). dict_append (key s) name) specs d)) = mset (map fst specs) + flat (map snd d)" for d
    by (induction specs arbitrary: d) (auto simp: dict_append_flat)
  from this [of "[]"] show ?thesis by (simp add: layers_by_def)
qed

lemma layers_by_nonempty: "[] \<notin> snd ` set (layers_by key specs)"
proof -
  have "[] \<notin> snd ` set (fold (\<lambda>(name, s). dict_append (key s) name) specs d)" if "[] \<notin> snd ` set d" for d
    using that
  proof (induction specs arbitrary: d)
    case (Cons x specs)
    from Cons.IH [OF dict_append_nonempty [OF Cons.prems]] show ?case by (cases x) simp
  qed simp
  from this [of "[]"] show ?thesis by (simp add: layers_by_def)
qed

section \<open>Merged specifications\<close>

abbreviation is_uniform :: "KVCacheSpec \<Rightarrow> bool" where
  "is_uniform s \<equiv> isinstance s cls_UniformTypeKVCacheSpecs"

lemma merge_full_shape: "merge_full_specs specs = Inr m \<Longrightarrow> \<exists>a f. m = FullAttentionSpec a f"
  by (auto simp: merge_full_specs_def Let_def result_simps split: list.splits)

lemma merge_not_uniform:
  assumes "merge_specs specs = Inr m" and "\<forall>s \<in> set specs. \<not> is_uniform s"
  shows "\<not> is_uniform m"
proof -
  obtain s rest where sp: "specs = s # rest" using assms(1) by (cases specs) (auto simp: merge_specs_def py_index_def)
  have s: "\<not> is_uniform s" using assms(2) sp by simp
  show ?thesis
  proof (cases s)
    case (UniformTypeKVCacheSpecs bs ss)
    then show ?thesis using s by (simp add: isinstance_def)
  qed (use assms(1) sp s merge_full_shape in
      \<open>auto simp: merge_specs_def py_index_def merge_equal_specs_def merge_mla_specs_def merge_rswa_specs_def merge_sink_specs_def
        merge_swa_mla_specs_def Let_def result_simps isinstance_def split: option.splits if_splits dest!: merge_full_shape\<close>)
qed

definition plain_dict :: "layer_specs \<Rightarrow> bool" where
  "plain_dict specs \<longleftrightarrow> dict_ok specs \<and> (\<forall>(_, s) \<in> set specs. \<not> is_uniform s)"

lemma created_groups:
  assumes "create_kv_cache_group_specs specs names = Inr gs" and "\<forall>(_, s) \<in> set specs. \<not> is_uniform s"
  shows "map layer_names gs = names" and "\<forall>g \<in> set gs. \<not> is_uniform (group_spec g)"
proof -
  let ?f = "\<lambda>names. and_then (all_results (map (spec_of_layer specs) names)) (\<lambda>ss. and_then (merge_specs ss) (\<lambda>merged. Inr (kv_group names merged)))"
  have l: "list_all2 (\<lambda>n g. ?f n = Inr g) names gs"
    using assms(1) by (simp add: create_kv_cache_group_specs_def all_results_map)
  have one: "layer_names g = n \<and> \<not> is_uniform (group_spec g)" if f: "?f n = Inr g" for n g
  proof -
    from f obtain ss m where ss: "all_results (map (spec_of_layer specs) n) = Inr ss" and m: "merge_specs ss = Inr m" "g = kv_group n m"
      by (auto simp: result_simps)
    have "\<not> is_uniform s" if s: "s \<in> set ss" for s
    proof -
      obtain i where i: "i < length ss" "s = ss ! i" using s by (auto simp: in_set_conv_nth)
      then have "spec_of_layer specs (n ! i) = Inr s" using ss by (simp add: all_results_map list_all2_conv_all_nth)
      then have "(n ! i, s) \<in> set specs" by (auto simp: spec_of_layer_def dest: map_of_SomeD split: option.splits)
      then show ?thesis using assms(2) by auto
    qed
    then have "\<not> is_uniform m" using merge_not_uniform [OF m(1)] by blast
    then show ?thesis using m(2) by (simp add: kv_group_def)
  qed
  show "map layer_names gs = names" using l one by (auto simp: list_all2_conv_all_nth intro!: nth_equalityI)
  show "\<forall>g \<in> set gs. \<not> is_uniform (group_spec g)" using l one by (fastforce simp: list_all2_conv_all_nth in_set_conv_nth)
qed

section \<open>What a layer's specification becomes\<close>

text \<open>
  Grouping may change the block size and the padding of a specification, and replace a windowed or chunked one by full attention of the
  same shape; class, window, heads, head size and element type are otherwise kept.
\<close>

definition resize :: "int \<Rightarrow> int option \<Rightarrow> KVCacheSpec \<Rightarrow> KVCacheSpec" where
  "resize bs p s = (case s of MambaSpec m \<Rightarrow> MambaSpec (m\<lparr>mamba_block_size := bs, mamba_page_size_padded := p\<rparr>)
      | _ \<Rightarrow> map_attention (\<lambda>a. a\<lparr>att_block_size := bs, att_page_size_padded := p\<rparr>) s)"

definition resized :: "KVCacheSpec \<Rightarrow> KVCacheSpec \<Rightarrow> bool" where
  "resized s t \<longleftrightarrow> (\<exists>bs p. t = resize bs p s)"

fun as_full_attention :: "KVCacheSpec \<Rightarrow> KVCacheSpec" where
  "as_full_attention (SlidingWindowMLASpec a w e m) =
     MLAAttentionSpec a (no_full_fields\<lparr>full_sliding_window := Some w\<rparr>) (m\<lparr>non_causal_multi_token_decode := False\<rparr>)"
| "as_full_attention (SlidingWindowSpec a w e) = FullAttentionSpec a (no_full_fields\<lparr>full_sliding_window := Some w\<rparr>)"
| "as_full_attention (ChunkedLocalAttentionSpec a n) = FullAttentionSpec a (no_full_fields\<lparr>full_attention_chunk_size := Some n\<rparr>)"
| "as_full_attention s = s"

definition adapted :: "KVCacheSpec \<Rightarrow> KVCacheSpec \<Rightarrow> bool" where
  "adapted s t \<longleftrightarrow> resized s t \<or> resized (as_full_attention s) t"

definition spec_padding :: "KVCacheSpec \<Rightarrow> int option" where
  "spec_padding s = (case s of MambaSpec m \<Rightarrow> mamba_page_size_padded m
     | _ \<Rightarrow> (case attention_part s of Some a \<Rightarrow> att_page_size_padded a | None \<Rightarrow> None))"

lemma resize_same: "resize (spec_block_size s) (spec_padding s) s = s"
  by (cases s) (simp_all add: resize_def spec_padding_def)

lemma resize_resize: "resize bs p (resize bs' p' s) = resize bs p s"
  by (cases s) (simp_all add: resize_def)

lemma resized_refl: "resized s s"
  using resize_same [of s, symmetric] by (auto simp: resized_def)

lemma resized_trans: "resized s t \<Longrightarrow> resized t v \<Longrightarrow> resized s v"
  unfolding resized_def using resize_resize by metis

lemma resize_attention:
  "\<not> isinstance s cls_MambaSpec \<Longrightarrow> map_attention (\<lambda>a. a\<lparr>att_block_size := bs\<rparr>) s = resize bs (spec_padding s) s"
  "\<not> isinstance s cls_MambaSpec \<Longrightarrow> map_attention (\<lambda>a. a\<lparr>att_page_size_padded := p\<rparr>) s = resize (spec_block_size s) p s"
  "\<not> isinstance s cls_MambaSpec \<Longrightarrow> map_attention (\<lambda>a. a\<lparr>att_block_size := bs, att_page_size_padded := p\<rparr>) s = resize bs p s"
  by (cases s; simp add: resize_def spec_padding_def isinstance_def)+

lemma resized_attention:
  "resized s (map_attention (\<lambda>a. a\<lparr>att_block_size := bs\<rparr>) s)"
  "resized s (map_attention (\<lambda>a. a\<lparr>att_page_size_padded := p\<rparr>) s)"
  "resized s (map_attention (\<lambda>a. a\<lparr>att_block_size := bs, att_page_size_padded := p\<rparr>) s)"
proof -
  have m: "map_attention g s = s" if "isinstance s cls_MambaSpec" for g using that by (cases s) (simp_all add: isinstance_def)
  show "resized s (map_attention (\<lambda>a. a\<lparr>att_block_size := bs\<rparr>) s)"
    "resized s (map_attention (\<lambda>a. a\<lparr>att_page_size_padded := p\<rparr>) s)"
    "resized s (map_attention (\<lambda>a. a\<lparr>att_block_size := bs, att_page_size_padded := p\<rparr>) s)"
    using m resized_refl [of s] resize_attention [of s] unfolding resized_def by metis+
qed

lemma padding_only: "\<exists>p. apply_alignment_padding dz m a = a\<lparr>att_page_size_padded := p\<rparr>"
proof (cases "apply_alignment_padding dz m a = a")
  case True
  then show ?thesis by (intro exI [of _ "att_page_size_padded a"]) simp
qed (auto simp: apply_alignment_padding_def Let_def split: option.splits if_splits)

lemma post_init_resized:
  assumes "post_init dz s = Inr t"
  shows "resized s t"
proof -
  have "\<exists>p. t = map_attention (\<lambda>a. a\<lparr>att_page_size_padded := p\<rparr>) s" if "isinstance s cls_MLAAttentionSpec \<or> isinstance s cls_SlidingWindowMLASpec"
    using that assms padding_only by (cases s) (auto simp: isinstance_def result_simps)
  moreover have "t = s" if "\<not> (isinstance s cls_MLAAttentionSpec \<or> isinstance s cls_SlidingWindowMLASpec)"
    using that assms by (cases s) (auto simp: isinstance_def)
  ultimately show ?thesis using resized_attention(2) resized_refl by blast
qed

lemma copy_resized: "copy_with_new_block_size dz bs s = Inr t \<Longrightarrow> \<not> is_uniform s \<Longrightarrow> resized s t"
proof -
  assume c: "copy_with_new_block_size dz bs s = Inr t" and u: "\<not> is_uniform s"
  show "resized s t"
  proof (cases "\<exists>m. s = MambaSpec m")
    case True
    then obtain m where "s = MambaSpec m" "t = MambaSpec (m\<lparr>mamba_block_size := bs\<rparr>)" using c by auto
    then show ?thesis by (auto simp: resized_def resize_def intro!: exI [of _ bs] exI [of _ "mamba_page_size_padded m"])
  next
    case False
    then have "post_init dz (map_attention (\<lambda>a. a\<lparr>att_block_size := bs\<rparr>) s) = Inr t" using c u by (cases s) (auto simp: isinstance_def)
    then show ?thesis using post_init_resized resized_attention(1) resized_trans by blast
  qed
qed

lemma unify_layer_resized:
  assumes "unify_layer_page dz m s = Inr t" and "\<not> is_uniform s"
  shows "resized s t"
proof (cases "\<exists>f. s = MambaSpec f")
  case True
  then obtain f where f: "s = MambaSpec f" by blast
  then have "t = s \<or> t = MambaSpec (f\<lparr>mamba_page_size_padded := Some m\<rparr>)"
    using assms(1) by (auto simp: unify_layer_page_def result_simps split: if_splits)
  moreover have "MambaSpec (f\<lparr>mamba_page_size_padded := Some m\<rparr>) = resize (mamba_block_size f) (Some m) s" using f by (simp add: resize_def)
  ultimately show ?thesis using resized_refl [of s] unfolding resized_def by blast
next
  case False
  then have "t = s \<or> (\<exists>bs. copy_with_new_block_size dz bs s = Inr t) \<or>
      post_init dz (map_attention (\<lambda>a. a\<lparr>att_page_size_padded := Some m\<rparr>) s) = Inr t"
    using assms(1) by (cases s) (auto simp: unify_layer_page_def result_simps split: if_splits)
  then show ?thesis
    using resized_refl copy_resized [OF _ assms(2)] post_init_resized resized_attention(2) resized_trans by blast
qed

lemma promote_layer_adapted:
  assumes "promote_layer dz b s = Inr t"
  shows "adapted s t"
proof -
  have full: "resized (as_full_attention s) t" if "promote_as_full dz (\<lambda>a. a\<lparr>att_block_size := n, att_page_size_padded := q\<rparr>) s = Inr t" "is_local_attention s" for n q
  proof -
    have "post_init dz (map_attention (\<lambda>a. a\<lparr>att_block_size := n, att_page_size_padded := q\<rparr>) (as_full_attention s)) = Inr t"
      using that by (cases s) (auto simp: is_local_attention_def isinstance_def)
    then show ?thesis using post_init_resized resized_attention(3) resized_trans by blast
  qed
  from assms show ?thesis
    using resized_refl full unfolding promote_layer_def adapted_def Let_def by (auto simp: result_simps split: option.splits if_splits)
qed

section \<open>Hybrid models\<close>

lemma place_flat: "place_in_bucket (s, names) bs = Inr bs' \<Longrightarrow> flat (map fst bs') = mset names + flat (map fst bs)"
proof (induction "(s, names)" bs arbitrary: bs' rule: place_in_bucket.induct)
  case (2 ns ss bs)
  show ?case
  proof (cases "merge_specs (ss @ [s])")
    case (Inl e)
    then obtain rest where "e = AssertionError \<or> e = ValueError" "place_in_bucket (s, names) bs = Inr rest" "bs' = (ns, ss) # rest"
      using 2(2) by (auto simp: result_simps split: if_splits)
    then show ?thesis using 2(1) [OF Inl] by auto
  qed (use 2 in auto)
qed auto

lemma place_nonempty: "place_in_bucket (s, names) bs = Inr bs' \<Longrightarrow> names \<noteq> [] \<Longrightarrow> [] \<notin> fst ` set bs \<Longrightarrow> [] \<notin> fst ` set bs'"
proof (induction "(s, names)" bs arbitrary: bs' rule: place_in_bucket.induct)
  case (2 ns ss bs)
  show ?case
  proof (cases "merge_specs (ss @ [s])")
    case (Inl e)
    then obtain rest where "e = AssertionError \<or> e = ValueError" "place_in_bucket (s, names) bs = Inr rest" "bs' = (ns, ss) # rest"
      using 2(2) by (auto simp: result_simps split: if_splits)
    then show ?thesis using 2(1) [OF Inl] 2(3,4) by auto
  qed (use 2 in auto)
qed auto

lemma buckets:
  assumes "for_each place_in_bucket items [] = Inr bs" and "[] \<notin> snd ` set items"
  shows "flat (map fst bs) = flat (map snd items)" and "[] \<notin> fst ` set bs"
proof -
  have "flat (map fst bs) = flat (map snd items) + flat (map fst bs0) \<and> [] \<notin> fst ` set bs"
    if "for_each place_in_bucket items bs0 = Inr bs" "[] \<notin> snd ` set items" "[] \<notin> fst ` set bs0" for bs0
    using that
  proof (induction items arbitrary: bs0)
    case (Cons x items)
    obtain s names where x: "x = (s, names)" by (cases x)
    from Cons.prems(1) obtain bs1 where b: "place_in_bucket x bs0 = Inr bs1" "for_each place_in_bucket items bs1 = Inr bs" by (auto simp: result_simps)
    have n: "names \<noteq> []" using Cons.prems(2) x by auto
    have "[] \<notin> fst ` set bs1" using place_nonempty [of s names bs0 bs1] b(1) n Cons.prems(3) x by simp
    then show ?case using Cons.IH [OF b(2)] Cons.prems(2) place_flat [of s names bs0 bs1] b(1) x by auto
  qed simp
  from this [of "[]"] assms show "flat (map fst bs) = flat (map snd items)" "[] \<notin> fst ` set bs" by auto
qed

lemma page_size_groups:
  assumes g: "get_kv_cache_groups_uniform_page_size specs = Inr groups" and p: "\<forall>(_, s) \<in> set specs. \<not> is_uniform s"
  shows "flat (map layer_names groups) = mset (map fst specs)" and "\<forall>g \<in> set groups. \<not> is_uniform (group_spec g)"
proof -
  obtain bs where bs: "for_each place_in_bucket (layers_by id specs) [] = Inr bs" "bs \<noteq> []"
    and c: "create_kv_cache_group_specs specs (concat (map (\<lambda>(names, _). split_layers (choose_group_size (map (\<lambda>(names, _). int (length names)) bs)) names) bs)) = Inr groups"
    using g by (auto simp: get_kv_cache_groups_uniform_page_size_def Let_def result_simps split: if_splits)
  let ?sizes = "map (\<lambda>(names, _). int (length names)) bs"
  note b = buckets [OF bs(1) layers_by_nonempty]
  have pos: "0 < x" if "x \<in> set ?sizes" for x using that b(2) by force
  have ne: "set ?sizes \<noteq> {}" using bs(2) by simp
  have "0 < Min (set ?sizes)" "0 < Max (set ?sizes)" using pos Min_in [OF _ ne] Max_in [OF _ ne] by blast+
  then have gs: "0 < choose_group_size ?sizes" by (simp add: choose_group_size_def Let_def)
  have "flat (concat (map (\<lambda>(names, _). split_layers k names) xs)) = flat (map fst xs)" if "0 < k" for k and xs :: "(string list \<times> KVCacheSpec list) list"
    using split_partition [OF that] by (induction xs) auto
  from this [OF gs] have "flat (concat (map (\<lambda>(names, _). split_layers (choose_group_size ?sizes) names) bs)) = flat (map fst bs)" .
  then show "flat (map layer_names groups) = mset (map fst specs)"
    using created_groups(1) [OF c p] b(1) layers_by_flat [of id specs] by simp
  show "\<forall>g \<in> set groups. \<not> is_uniform (group_spec g)" by (rule created_groups(2) [OF c p])
qed

section \<open>Well-formed groups\<close>

text \<open>A group of one type lists its layers, and they need the same number of blocks.\<close>

definition wf_group :: "KVCacheGroupSpec \<Rightarrow> bool" where
  "wf_group g \<longleftrightarrow> (case group_spec g of
     UniformTypeKVCacheSpecs bs specs \<Rightarrow> layer_names g = map fst specs \<and> specs \<noteq> [] \<and> dict_ok specs \<and> same_blocks specs \<and>
       (\<forall>(_, s) \<in> set specs. \<not> is_uniform s)
   | _ \<Rightarrow> True)"

definition retaining :: "int \<Rightarrow> layer_specs \<Rightarrow> bool" where
  "retaining n specs \<longleftrightarrow> dict_ok specs \<and> (\<forall>(_, s) \<in> set specs. retains n s)"

lemma retains_plain: "retains n s \<Longrightarrow> \<not> is_uniform s"
  by (cases s) (auto simp: isinstance_def)

lemma retaining_plain: "retaining n specs \<Longrightarrow> \<forall>(_, s) \<in> set specs. \<not> is_uniform s"
  using retains_plain by (fastforce simp: retaining_def)

lemma wf_plain: "\<not> is_uniform (group_spec g) \<Longrightarrow> wf_group g"
  by (cases "group_spec g") (auto simp: wf_group_def isinstance_def)

lemma wf_uniform:
  assumes "from_specs builtin_registry specs = Inr (Some u)" and "retaining n specs"
  shows "\<exists>bs. u = UniformTypeKVCacheSpecs bs specs \<and> wf_group (kv_group (map fst specs) u)"
proof -
  have u: "is_uniform_type builtin_registry specs = Inr True" "specs \<noteq> []" "\<exists>bs. u = UniformTypeKVCacheSpecs bs specs"
    using assms(1) by (auto simp: from_specs_def result_simps split: if_splits list.splits)
  moreover have "same_blocks specs" by (rule uniform_same_blocks [OF u(1), of n]) (use assms(2) in \<open>simp add: retaining_def\<close>)
  ultimately show ?thesis using assms(2) retaining_plain by (auto simp: wf_group_def kv_group_def retaining_def)
qed

lemma named_results:
  assumes "all_results (map (\<lambda>(name, s). and_then (f s) (\<lambda>s. Inr (name, s))) specs) = Inr specs'"
    and "\<And>s s'. f s = Inr s' \<Longrightarrow> P s \<Longrightarrow> Q s'" and "\<forall>(_, s) \<in> set specs. P s"
  shows "map fst specs' = map fst specs" and "\<forall>(_, s) \<in> set specs'. Q s"
proof -
  have l: "list_all2 (\<lambda>x y. fst y = fst x \<and> f (snd x) = Inr (snd y)) specs specs'"
    using assms(1) unfolding all_results_map by (rule list_all2_mono) (auto simp: result_simps)
  then show "map fst specs' = map fst specs" by (auto simp: list_all2_conv_all_nth intro!: nth_equalityI)
  show "\<forall>(_, s) \<in> set specs'. Q s"
  proof safe
    fix name s' assume "(name, s') \<in> set specs'"
    then obtain i where i: "i < length specs'" "specs' ! i = (name, s')" by (auto simp: in_set_conv_nth)
    then have "f (snd (specs ! i)) = Inr s'" "i < length specs" using l by (auto simp: list_all2_conv_all_nth)
    moreover have "P (snd (specs ! i))" using assms(3) nth_mem [OF calculation(2)] by (cases "specs ! i") fastforce
    ultimately show "Q s'" using assms(2) by blast
  qed
qed

lemma post_init_plain: "post_init dz s = Inr s' \<Longrightarrow> is_uniform s' = is_uniform s"
  by (cases s) (auto simp: isinstance_def result_simps)

lemma map_attention_plain: "is_uniform (map_attention g s) = is_uniform s"
  by (cases s) (auto simp: isinstance_def)

lemma copy_plain: "copy_with_new_block_size dz bs s = Inr s' \<Longrightarrow> \<not> is_uniform s \<Longrightarrow> \<not> is_uniform s'"
  by (cases s) (auto simp: isinstance_def result_simps)

lemma unify_layer_plain: "unify_layer_page dz m s = Inr s' \<Longrightarrow> \<not> is_uniform s \<Longrightarrow> \<not> is_uniform s'"
  using copy_plain [of dz _ s s'] post_init_plain [of dz _ s'] map_attention_plain
  by (cases "\<exists>f. s = MambaSpec f") (auto simp: unify_layer_page_def result_simps isinstance_def split: if_splits KVCacheSpec.splits)

lemma unify_names:
  assumes "unify_kv_cache_spec_page_size dz specs = Inr specs'" and "\<forall>(_, s) \<in> set specs. \<not> is_uniform s"
  shows "map fst specs' = map fst specs" and "\<forall>(_, s) \<in> set specs'. \<not> is_uniform s"
proof -
  from assms(1) consider "specs' = specs" | pages where
    "all_results (map (\<lambda>(name, s). and_then (unify_layer_page dz (Max (set pages)) s) (\<lambda>s. Inr (name, s))) specs) = Inr specs'"
    by (auto simp: unify_kv_cache_spec_page_size_def result_simps split: if_splits)
  then show "map fst specs' = map fst specs" "\<forall>(_, s) \<in> set specs'. \<not> is_uniform s"
    using named_results [of "unify_layer_page dz (Max (set _))" specs specs' "\<lambda>s. \<not> is_uniform s" "\<lambda>s. \<not> is_uniform s"] unify_layer_plain assms(2)
    by (cases; blast)+
qed

lemma promote_as_retains: "promote_as_full dz g s = Inr s' \<Longrightarrow> retains n s \<Longrightarrow> retains n s'"
  by (cases s) (auto simp: result_simps)

lemma promote_layer_retains: "promote_layer dz b s = Inr s' \<Longrightarrow> retains n s \<Longrightarrow> retains n s'"
  by (auto simp: promote_layer_def Let_def result_simps promote_as_retains split: option.splits if_splits)

lemma promote_keeps:
  assumes "promote_local_kv_cache_specs dz reg specs = Inr specs'" and "retaining n specs"
  shows "map fst specs' = map fst specs" and "retaining n specs'"
proof -
  from assms(1) consider "specs' = specs" | b where
    "all_results (map (\<lambda>(name, s). and_then (promote_layer dz b s) (\<lambda>s. Inr (name, s))) specs) = Inr specs'"
    by (auto simp: promote_local_kv_cache_specs_def Let_def result_simps split: if_splits)
  then have k: "map fst specs' = map fst specs \<and> (\<forall>(_, s) \<in> set specs'. retains n s)"
  proof cases
    case 2
    note r = named_results [of "promote_layer dz b" specs specs' "retains n" "retains n", OF 2 promote_layer_retains]
    show ?thesis using r assms(2) by (auto simp: retaining_def)
  qed (use assms(2) in \<open>simp add: retaining_def\<close>)
  then show "map fst specs' = map fst specs" "retaining n specs'" using assms(2) by (simp_all add: retaining_def dict_ok_def)
qed

lemma unify_hybrid_keeps:
  assumes "unify_hybrid_kv_cache_specs dz reg specs = Inr specs'" and "retaining n specs"
  shows "map fst specs' = map fst specs \<and> retaining n specs'"
proof (cases "specs' = specs")
  case False
  then have "promote_local_kv_cache_specs dz reg specs = Inr specs'"
    using assms(1) by (auto simp: unify_hybrid_kv_cache_specs_def result_simps split: if_splits)
  then show ?thesis using promote_keeps assms(2) by blast
qed (use assms(2) in simp)

lemma fallback_groups:
  assumes "try_get_full_allocation_fallback_groups dz builtin_registry specs = Inr (Some groups)" and "retaining n specs"
  shows "flat (map layer_names groups) = mset (map fst specs) \<and> (\<forall>g \<in> set groups. wf_group g)"
proof -
  from assms(1) obtain promoted u where p: "promote_local_kv_cache_specs dz builtin_registry specs = Inr promoted"
    and u: "from_specs builtin_registry promoted = Inr (Some u)" "groups = get_kv_cache_groups_uniform_type u"
    unfolding try_get_full_allocation_fallback_groups_def by (auto simp: result_simps split: if_splits sum.splits)
  note k = promote_keeps [OF p assms(2)]
  from wf_uniform [OF u(1) k(2)] obtain bs where bs: "u = UniformTypeKVCacheSpecs bs promoted" "wf_group (kv_group (map fst promoted) u)" by blast
  have "map layer_names groups = [map fst promoted]" unfolding u(2) bs(1) by (simp add: kv_group_def)
  then have "flat (map layer_names groups) = mset (map fst promoted)" by (simp only: concat.simps append_Nil2)
  then show ?thesis using bs(2) unfolding u(2) bs(1) k(1) [symmetric] by simp
qed

lemma hidden_groups:
  assumes "all_results (map (aligned_hidden_group dz p b) hidden) = Inr gs" and "\<forall>(_, s) \<in> set hidden. \<not> is_uniform s"
  shows "map layer_names gs = map (\<lambda>(name, _). [name]) hidden \<and> (\<forall>g \<in> set gs. wf_group g)"
proof -
  have one: "layer_names g = [name] \<and> wf_group g" if g: "aligned_hidden_group dz p b (name, s) = Inr g" and s: "\<not> is_uniform s" for name s g
  proof -
    from g obtain h s' where s': "post_init dz (map_attention h s) = Inr s'" "g = kv_group [name] s'"
      by (auto simp: aligned_hidden_group_def Let_def result_simps split: option.splits)
    then have "\<not> is_uniform s'" using post_init_plain map_attention_plain s by metis
    then show ?thesis using s'(2) wf_plain [of g] by (simp add: kv_group_def)
  qed
  have l: "list_all2 (\<lambda>x g. aligned_hidden_group dz p b x = Inr g) hidden gs" using assms(1) by (simp add: all_results_map)
  have "layer_names (gs ! i) = [fst (hidden ! i)] \<and> wf_group (gs ! i)" if i: "i < length gs" for i
  proof -
    have i': "i < length hidden" "aligned_hidden_group dz p b (hidden ! i) = Inr (gs ! i)" using l i by (auto simp: list_all2_conv_all_nth)
    then show ?thesis using one [of "fst (hidden ! i)" "snd (hidden ! i)" "gs ! i"] assms(2) nth_mem [OF i'(1)] by fastforce
  qed
  then show ?thesis using list_all2_lengthD [OF l] by (auto simp: in_set_conv_nth case_prod_beta intro!: nth_equalityI)
qed

lemma hybrid_groups:
  assumes "get_hybrid_groups dz builtin_registry specs = Inr groups" and r: "retaining n specs"
  shows "flat (map layer_names groups) = mset (map fst specs) \<and> (\<forall>g \<in> set groups. wf_group g)"
proof -
  let ?h = "\<lambda>(_ :: string, s). isinstance s cls_HiddenStateCacheSpec"
  let ?hidden = "filter ?h specs" and ?filtered = "filter (\<lambda>(_, s). \<not> isinstance s cls_HiddenStateCacheSpec) specs"
  have p: "\<forall>(_, s) \<in> set ?filtered. \<not> is_uniform s" "\<forall>(_, s) \<in> set ?hidden. \<not> is_uniform s" using retaining_plain [OF r] by auto
  show ?thesis
  proof (cases "unify_kv_cache_spec_page_size dz ?filtered")
    case (Inl e)
    then have "try_get_full_allocation_fallback_groups dz builtin_registry specs = Inr (Some groups)"
      using assms(1) by (auto simp: get_hybrid_groups_def Let_def result_simps split: if_splits option.splits)
    from fallback_groups [OF this r] show ?thesis .
  next
    case (Inr unified)
    from assms(1) Inr obtain gs hs where gs: "get_kv_cache_groups_uniform_page_size unified = Inr gs" "groups = gs @ hs"
      and hs: "?hidden = [] \<and> hs = [] \<or> (\<exists>pg b. all_results (map (aligned_hidden_group dz pg b) ?hidden) = Inr hs)"
      by (fastforce simp: get_hybrid_groups_def Let_def result_simps split: if_splits)
    note u = unify_names [OF Inr p(1)]
    note g = page_size_groups [OF gs(1) u(2)]
    have h: "map layer_names hs = map (\<lambda>(name, _). [name]) ?hidden \<and> (\<forall>g \<in> set hs. wf_group g)"
      using hs hidden_groups [OF _ p(2)] by auto
    have "concat (map (\<lambda>(name, _). [name]) xs) = map fst xs" for xs :: "(string \<times> KVCacheSpec) list" by (induction xs) auto
    then have "flat (map layer_names groups) = mset (map fst ?filtered) + mset (map fst ?hidden)"
      using g(1) u(1) h unfolding gs(2) map_append concat_append mset_append by (simp only:)
    also have "\<dots> = mset (map fst specs)" by (induction specs) auto
    finally show ?thesis using g(2) h wf_plain gs(2) by auto
  qed
qed

section \<open>Groups of different page sizes\<close>

lemma flat_cong: "mset xss = mset yss \<Longrightarrow> flat xss = flat yss"
  by (simp add: mset_concat flip: sum_mset_sum_list)

lemma flat_member: "xs \<in> set xss \<Longrightarrow> mset xs \<subseteq># flat xss"
  by (auto dest!: split_list simp: union_lcomm [of _ "mset xs"])

lemma sub_distinct: "mset xs \<subseteq># mset ys \<Longrightarrow> distinct ys \<Longrightarrow> distinct xs"
proof -
  assume "mset xs \<subseteq># mset ys" and d: "distinct ys"
  then obtain zs where "mset ys = mset (xs @ zs)" by (metis ex_mset mset_append mset_subset_eq_exists_conv)
  then have "distinct (xs @ zs)" using d mset_eq_imp_distinct_iff by blast
  then show ?thesis by simp
qed

lemma concat_map_concat: "concat (map (\<lambda>i. concat (f i)) is) = concat (concat (map f is))"
  by (induction "is") simp_all

lemma sub_retaining:
  assumes "mset d \<subseteq># mset specs" and "retaining n specs"
  shows "retaining n d"
proof -
  have "set d \<subseteq> set specs" using assms(1) set_mset_mono by fastforce
  moreover have "mset (map fst d) \<subseteq># mset (map fst specs)" using assms(1) by (simp add: image_mset_subseteq_mono)
  then have "distinct (map fst d)" using assms(2) sub_distinct unfolding retaining_def dict_ok_def by blast
  ultimately show ?thesis using assms(2) by (auto simp: retaining_def dict_ok_def)
qed

lemma chunk_pos: "approximate_gcd vals lb = Inr d \<Longrightarrow> 1 \<le> d"
proof -
  assume a: "approximate_gcd vals lb = Inr d"
  define lo where "lo = max 1 (case lb of Some n \<Rightarrow> n | None \<Rightarrow> 1)"
  have lo: "1 \<le> lo" by (simp add: lo_def)
  have "1 \<le> fst (fold (better_chunk vals) ds b)" if "\<forall>d \<in> set ds. 1 \<le> d" "1 \<le> fst b" for ds b
    using that
  proof (induction ds arbitrary: b)
    case (Cons x ds)
    have "1 \<le> fst (better_chunk vals x b)" using Cons.prems by (cases b; cases "snd b") (auto simp: Let_def)
    then show ?case using Cons by simp
  qed simp
  then have "1 \<le> fst (fold (better_chunk vals) [lo..hi] (lo, None))" for hi using lo by simp
  then show ?thesis using a lo unfolding approximate_gcd_def Let_def lo_def [symmetric] by (auto split: if_splits)
qed

lemma some_uniform:
  assumes "from_specs_some builtin_registry specs = Inr u" and "retaining n specs"
  shows "\<exists>bs. u = UniformTypeKVCacheSpecs bs specs \<and> wf_group (kv_group (map fst specs) u)"
  using assms(1) by (intro wf_uniform [OF _ assms(2)]) (auto simp: from_specs_some_def result_simps split: option.splits)

lemma layer_lookup:
  assumes "all_results (map (\<lambda>name. and_then (spec_of_layer specs name) (\<lambda>s. Inr (name, s))) names) = Inr d"
  shows "map fst d = names" and "set d \<subseteq> set specs"
proof -
  have l: "list_all2 (\<lambda>name x. fst x = name \<and> x \<in> set specs) names d"
    using assms unfolding all_results_map
    by (rule list_all2_mono) (auto simp: result_simps spec_of_layer_def dest: map_of_SomeD split: option.splits)
  then show "map fst d = names" by (auto simp: list_all2_conv_all_nth intro!: nth_equalityI)
  show "set d \<subseteq> set specs" using l by (fastforce simp: list_all2_conv_all_nth in_set_conv_nth [of _ d])
qed

lemma split_group:
  assumes g: "split_swa_mla_group dz builtin_registry k specs = Inr gs" and k: "0 < k" and r: "retaining n specs"
  shows "flat (map layer_names gs) = mset (map fst specs) \<and> (\<forall>g \<in> set gs. wf_group g)"
proof -
  from g obtain pages L where pg: "all_results (map (page_size_bytes dz \<circ> snd) specs) = Inr pages"
    and L: "the_only (map length (map snd (layers_by id (zip (map fst specs) pages)))) = Inr L"
    and gs: "all_results (map (\<lambda>i. let names = concat (every_nth (nat (cdiv (int L) k)) i (zip_columns L (map snd (layers_by id (zip (map fst specs) pages))))) in
       and_then (all_results (map (\<lambda>name. and_then (spec_of_layer specs name) (\<lambda>s. Inr (name, s))) names)) (\<lambda>d.
       and_then (from_specs_some builtin_registry d) (\<lambda>sub. Inr (kv_group names sub)))) [0..<nat (cdiv (int L) k)]) = Inr gs"
    by (auto simp: split_swa_mla_group_def Let_def result_simps)
  define cols where "cols = map snd (layers_by id (zip (map fst specs) pages))"
  define m where "m = nat (cdiv (int L) k)"
  define tuples where "tuples = zip_columns L cols"
  have lc: "cols \<noteq> []" "\<forall>xs \<in> set cols. length xs = L" using L by (auto simp: the_only_Inr cols_def)
  have "[] \<notin> set cols" using layers_by_nonempty [of id "zip (map fst specs) pages"] by (auto simp: cols_def)
  then have "0 < L" using lc by (cases cols) auto
  then have m: "0 < m" using cdiv_le_iff [OF k, of "int L" 0] by (auto simp: m_def not_le)
  have lp: "length pages = length specs" using list_all2_lengthD [OF pg [unfolded all_results_map]] by simp
  have "flat cols = mset (map fst specs)" unfolding cols_def layers_by_flat using lp by simp
  then have ft: "flat tuples = mset (map fst specs)" using columns_partition [OF lc(2)] by (simp add: tuples_def)
  let ?names = "\<lambda>i. concat (every_nth m i tuples)"
  have l: "list_all2 (\<lambda>i g. \<exists>d sub. map fst d = ?names i \<and> set d \<subseteq> set specs \<and> from_specs_some builtin_registry d = Inr sub \<and> g = kv_group (?names i) sub) [0..<m] gs"
    using gs unfolding all_results_map cols_def [symmetric] m_def [symmetric] tuples_def [symmetric] Let_def
  proof (rule list_all2_mono)
    fix i g
    assume "and_then (all_results (map (\<lambda>name. and_then (spec_of_layer specs name) (\<lambda>s. Inr (name, s))) (?names i))) (\<lambda>d.
      and_then (from_specs_some builtin_registry d) (\<lambda>sub. Inr (kv_group (?names i) sub))) = Inr g"
    then show "\<exists>d sub. map fst d = ?names i \<and> set d \<subseteq> set specs \<and> from_specs_some builtin_registry d = Inr sub \<and> g = kv_group (?names i) sub"
      using layer_lookup [of specs "?names i"] by (auto simp: result_simps)
  qed
  then have names: "map layer_names gs = map ?names [0..<m]" by (auto simp: list_all2_conv_all_nth kv_group_def intro!: nth_equalityI)
  have cover: "flat (map ?names [0..<m]) = mset (map fst specs)"
  proof -
    have "concat (map ?names [0..<m]) = concat (concat (map (\<lambda>i. every_nth m i tuples) [0..<m]))" by (rule concat_map_concat)
    then show ?thesis using flat_cong [OF every_nth_partition [OF m, of tuples]] ft by simp
  qed
  have "wf_group g" if g: "g \<in> set gs" for g
  proof -
    obtain i where i: "i < m" "g = gs ! i" using g list_all2_lengthD [OF l] by (auto simp: in_set_conv_nth)
    then obtain d sub where d: "map fst d = ?names i" "set d \<subseteq> set specs" "from_specs_some builtin_registry d = Inr sub" "g = kv_group (?names i) sub"
      using l by (fastforce simp: list_all2_conv_all_nth)
    have "mset (?names i) \<subseteq># mset (map fst specs)" using flat_member [of "?names i" "map ?names [0..<m]"] i(1) cover by simp
    then have "distinct (map fst d)" using r d(1) sub_distinct unfolding retaining_def dict_ok_def by metis
    then have "retaining n d" using r d(2) by (auto simp: retaining_def dict_ok_def)
    from some_uniform [OF d(3) this] show ?thesis using d(1,4) by auto
  qed
  then show ?thesis using names cover by simp
qed

text \<open>The layers that this strategy knows: full and windowed multi-head latent attention.\<close>

definition mla_family :: "layer_specs \<Rightarrow> bool" where
  "mla_family specs \<longleftrightarrow> (\<forall>(_, s) \<in> set specs. isinstance s cls_SlidingWindowMLASpec \<or> isinstance s cls_MLAAttentionSpec)"

lemma unified_collections:
  assumes g: "group_and_unify_kv_cache_specs dz builtin_registry specs = Inr (Some us)" and r: "retaining n specs"
  shows "\<exists>dicts. all_results (map uniform_specs us) = Inr dicts \<and> (\<forall>d \<in> set dicts. retaining n d) \<and>
    (\<forall>i < length us. wf_group (kv_group (map fst (dicts ! i)) (us ! i))) \<and> (mla_family specs \<longrightarrow> flat dicts = mset specs)"
proof -
  let ?swa = "filter (\<lambda>(_, s). isinstance s cls_SlidingWindowMLASpec) specs"
  let ?mla = "filter (\<lambda>(_, s). \<not> isinstance s cls_SlidingWindowMLASpec \<and> isinstance s cls_MLAAttentionSpec) specs"
  let ?ds = "map snd (layers_by window_key (map (\<lambda>x. (x, x)) ?swa))"
  from g obtain mu sus where us: "us = mu # sus" "from_specs_some builtin_registry ?mla = Inr mu"
    "all_results (map (\<lambda>(_, d). from_specs_some builtin_registry d) (layers_by window_key (map (\<lambda>x. (x, x)) ?swa))) = Inr sus"
    by (auto simp: group_and_unify_kv_cache_specs_def Let_def result_simps split: if_splits)
  have fd: "flat ?ds = mset ?swa" using layers_by_flat [of window_key "map (\<lambda>x. (x, x)) ?swa"] by (simp add: o_def)
  have sub: "retaining n d" if d: "d \<in> set (?mla # ?ds)" for d
  proof (rule sub_retaining [OF _ r])
    have f: "mset (filter p specs) \<subseteq># mset specs" for p by (simp add: multiset_filter_subset)
    show "mset d \<subseteq># mset specs"
    proof (cases "d = ?mla")
      case False
      then have "mset d \<subseteq># mset ?swa" using d flat_member [of d ?ds] fd by simp
      then show ?thesis using f subset_mset.order_trans by blast
    qed (simp add: f)
  qed
  have l: "list_all2 (\<lambda>d u. from_specs_some builtin_registry d = Inr u) (?mla # ?ds) us"
    using us(2,3) unfolding us(1) all_results_map by (auto simp: list_all2_map1 case_prod_beta)
  have one: "uniform_specs (us ! i) = Inr ((?mla # ?ds) ! i) \<and> wf_group (kv_group (map fst ((?mla # ?ds) ! i)) (us ! i))" if i: "i < length us" for i
  proof -
    have i': "i < length (?mla # ?ds)" "from_specs_some builtin_registry ((?mla # ?ds) ! i) = Inr (us ! i)"
      using l i by (auto simp: list_all2_conv_all_nth)
    from some_uniform [OF i'(2) sub [OF nth_mem [OF i'(1)]]] show ?thesis by auto
  qed
  have "all_results (map uniform_specs us) = Inr (?mla # ?ds)"
    unfolding all_results_map list_all2_conv_all_nth using one list_all2_lengthD [OF l] by simp
  moreover have "flat (?mla # ?ds) = mset specs" if "mla_family specs"
  proof -
    have "mset ?mla + mset ?swa = mset specs" using that by (induction specs) (auto simp: mla_family_def)
    then show ?thesis using fd by simp
  qed
  ultimately show ?thesis using sub one by (intro exI [of _ "?mla # ?ds"]) blast
qed

lemma all_splits:
  assumes "all_results (map (split_swa_mla_group dz builtin_registry k) ds) = Inr gss" and "0 < k" and "\<forall>d \<in> set ds. retaining n d"
  shows "flat (map layer_names (concat gss)) = mset (map fst (concat ds)) \<and> (\<forall>g \<in> set (concat gss). wf_group g)"
  using assms
proof (induction ds arbitrary: gss)
  case (Cons d ds)
  then obtain gs rest where gs: "gss = gs # rest" "split_swa_mla_group dz builtin_registry k d = Inr gs"
    "all_results (map (split_swa_mla_group dz builtin_registry k) ds) = Inr rest" by (auto simp: result_simps)
  have "flat (map layer_names rest') = mset (map fst (concat ds)) \<and> (\<forall>g \<in> set rest'. wf_group g)" if "rest' = concat rest" for rest'
    using Cons.IH [OF gs(3) Cons.prems(2)] Cons.prems(3) that by simp
  then show ?case using split_group [OF gs(2) Cons.prems(2), of n] Cons.prems(3) gs(1) by auto
qed simp

lemma uniform_groups:
  assumes g: "get_kv_cache_groups_uniform_groups dz builtin_registry us = Inr groups" and d: "all_results (map uniform_specs us) = Inr dicts"
    and r: "\<forall>d \<in> set dicts. retaining n d" and w: "\<forall>i < length us. wf_group (kv_group (map fst (dicts ! i)) (us ! i))"
  shows "flat (map layer_names groups) = mset (map fst (concat dicts)) \<and> (\<forall>g \<in> set groups. wf_group g)"
proof -
  from g d obtain u us' m ds k gss where us: "us = u # us'" "dicts = m # ds" and k: "\<exists>vals lb. approximate_gcd vals lb = Inr k"
    and gss: "all_results (map (split_swa_mla_group dz builtin_registry k) ds) = Inr gss" and gr: "groups = kv_group (map fst m) u # concat gss"
    by (fastforce simp: get_kv_cache_groups_uniform_groups_def result_simps split: list.splits)
  have "0 < k" using k chunk_pos by fastforce
  then have s: "flat (map layer_names (concat gss)) = mset (map fst (concat ds)) \<and> (\<forall>g \<in> set (concat gss). wf_group g)"
    by (intro all_splits [OF gss, of n]) (use r us in simp_all)
  have "wf_group (kv_group (map fst m) u)" using w us by fastforce
  then show ?thesis using s gr us(2) by (auto simp: kv_group_def)
qed

lemma flag_first_same: "map layer_names (flag_first p (\<lambda>g. g\<lparr>is_eagle_group := True\<rparr>) gs) = map layer_names gs"
  by (induction gs) auto

lemma wf_group_eagle [simp]: "wf_group (g\<lparr>is_eagle_group := b\<rparr>) = wf_group g"
  by (cases "group_spec g") (simp_all add: wf_group_def)

lemma flag_first_wf: "\<forall>g \<in> set gs. wf_group g \<Longrightarrow> \<forall>g \<in> set (flag_first p (\<lambda>g. g\<lparr>is_eagle_group := True\<rparr>) gs). wf_group g"
  by (induction gs) auto

lemma annotate_same:
  "map layer_names (annotate_eagle_groups_deepseek_v4 c specs gs) = map layer_names gs"
  "\<forall>g \<in> set gs. wf_group g \<Longrightarrow> \<forall>g \<in> set (annotate_eagle_groups_deepseek_v4 c specs gs). wf_group g"
  by (auto simp: annotate_eagle_groups_deepseek_v4_def flag_first_same flag_first_wf split: option.splits)

section \<open>Every model\<close>

lemma groups_of_model:
  assumes g: "get_kv_cache_groups dz builtin_registry c specs = Inr (groups, specs')" and r: "retaining n specs"
  shows "(\<forall>g \<in> set groups. wf_group g) \<and> map fst specs' = map fst specs \<and>
    (mla_family specs' \<or> (\<forall>(_, s) \<in> set specs'. \<not> isinstance s cls_SlidingWindowMLASpec) \<longrightarrow> flat (map layer_names groups) = mset (map fst specs))"
proof -
  from g obtain sp where sp: "(if disable_hybrid_kv_cache_manager c then unify_hybrid_kv_cache_specs dz builtin_registry specs else Inr specs) = Inr sp"
    by (auto simp: get_kv_cache_groups_def result_simps)
  have u: "map fst sp = map fst specs" "retaining n sp"
    using sp unify_hybrid_keeps [of dz builtin_registry specs sp n] r by (auto split: if_splits)
  have s': "specs' = sp" using g sp by (auto simp: get_kv_cache_groups_def result_simps split: if_splits option.splits)
  have p: "\<forall>(_, s) \<in> set sp. \<not> is_uniform s" by (rule retaining_plain [OF u(2)])
  from g sp consider "sp = []" "groups = []"
    | "get_kv_cache_groups_uniform_spec sp = Inr groups"
    | u where "from_specs builtin_registry sp = Inr (Some u)" "groups = get_kv_cache_groups_uniform_type u"
    | us gs where "group_and_unify_kv_cache_specs dz builtin_registry sp = Inr (Some us)" "get_kv_cache_groups_uniform_groups dz builtin_registry us = Inr gs"
        "groups = annotate_eagle_groups_deepseek_v4 c sp gs"
    | "get_hybrid_groups dz builtin_registry sp = Inr groups"
    by (auto simp: get_kv_cache_groups_def result_simps split: if_splits option.splits)
  then have "(\<forall>g \<in> set groups. wf_group g) \<and>
    (mla_family sp \<or> (\<forall>(_, s) \<in> set sp. \<not> isinstance s cls_SlidingWindowMLASpec) \<longrightarrow> flat (map layer_names groups) = mset (map fst sp))"
  proof cases
    case 2
    from created_groups [OF 2 [unfolded get_kv_cache_groups_uniform_spec_def] p] show ?thesis using wf_plain by simp
  next
    case 3
    from wf_uniform [OF 3(1) u(2)] show ?thesis using 3(2) by (auto simp: kv_group_def)
  next
    case 4
    from unified_collections [OF 4(1) u(2)] obtain dicts where d: "all_results (map uniform_specs us) = Inr dicts" "\<forall>d \<in> set dicts. retaining n d"
      "\<forall>i < length us. wf_group (kv_group (map fst (dicts ! i)) (us ! i))" "mla_family sp \<longrightarrow> flat dicts = mset sp" by blast
    have f: "mla_family sp" if "\<forall>(_, s) \<in> set sp. \<not> isinstance s cls_SlidingWindowMLASpec"
    proof -
      have "\<not> list_ex (\<lambda>(_, s). isinstance s cls_SlidingWindowMLASpec) sp" using that by (auto simp: list_ex_iff)
      then show ?thesis using 4(1) by (simp add: group_and_unify_kv_cache_specs_def)
    qed
    have "mset (map fst (concat dicts)) = mset (map fst sp)" if "flat dicts = mset sp" using that by (metis mset_map)
    then show ?thesis using uniform_groups [OF 4(2) d(1-3)] d(4) f annotate_same(1) [of c sp gs] annotate_same(2) [of gs c sp] 4(3) by auto
  next
    case 5
    from hybrid_groups [OF 5 u(2)] show ?thesis by simp
  qed simp
  then show ?thesis using u(1) s' by simp
qed

section \<open>What a group is made of\<close>

text \<open>
  The layers of a group keep their own specifications up to adaptation.  A group of one type lists them; the specification of any
  other group is their merge, or that of its only layer.
\<close>

definition derived :: "layer_specs \<Rightarrow> layer_specs \<Rightarrow> bool" where
  "derived specs specs' \<longleftrightarrow> (\<forall>(name, t) \<in> set specs'. \<exists>s. (name, s) \<in> set specs \<and> adapted s t)"

definition made_of :: "layer_specs \<Rightarrow> KVCacheGroupSpec \<Rightarrow> bool" where
  "made_of specs g \<longleftrightarrow> (\<exists>ts. list_all2 (\<lambda>name t. \<exists>s. (name, s) \<in> set specs \<and> adapted s t) (layer_names g) ts \<and>
     (case group_spec g of UniformTypeKVCacheSpecs _ ss \<Rightarrow> ss = zip (layer_names g) ts | m \<Rightarrow> merge_specs ts = Inr m \<or> ts = [m]))"

lemma made_plain:
  assumes "list_all2 (\<lambda>name t. \<exists>s. (name, s) \<in> set specs \<and> adapted s t) (layer_names g) ts" and "\<not> is_uniform (group_spec g)"
    and "merge_specs ts = Inr (group_spec g) \<or> ts = [group_spec g]"
  shows "made_of specs g"
  using assms unfolding made_of_def by (intro exI [of _ ts]) (cases "group_spec g"; simp add: isinstance_def)

lemma made_uniform:
  assumes "derived specs ss" shows "made_of specs (kv_group (map fst ss) (UniformTypeKVCacheSpecs bs ss))"
proof -
  have "list_all2 (\<lambda>name t. \<exists>s. (name, s) \<in> set specs \<and> adapted s t) (map fst ss) (map snd ss)"
    unfolding list_all2_conv_all_nth
  proof safe
    fix i assume "i < length (map fst ss)"
    then have i: "i < length ss" by simp
    obtain name t where nt: "ss ! i = (name, t)" by (cases "ss ! i")
    then have "(name, t) \<in> set ss" using nth_mem [OF i] by simp
    then show "\<exists>s. (map fst ss ! i, s) \<in> set specs \<and> adapted s (map snd ss ! i)" using assms i nt by (auto simp: derived_def)
  qed simp
  then show ?thesis by (auto simp: made_of_def kv_group_def zip_map_fst_snd intro!: exI [of _ "map snd ss"])
qed

lemma derived_sub: "set d \<subseteq> set specs \<Longrightarrow> derived specs d"
  by (auto simp: derived_def adapted_def resized_refl)

lemma named_source:
  assumes "all_results (map (\<lambda>(name, s). and_then (f s) (\<lambda>s. Inr (name, s))) specs) = Inr specs'"
    and "\<And>s t. s \<in> snd ` set specs \<Longrightarrow> f s = Inr t \<Longrightarrow> adapted s t"
  shows "derived specs specs'"
proof -
  have l: "list_all2 (\<lambda>x y. fst y = fst x \<and> f (snd x) = Inr (snd y)) specs specs'"
    using assms(1) unfolding all_results_map by (rule list_all2_mono) (auto simp: result_simps)
  show ?thesis unfolding derived_def
  proof safe
    fix name t assume "(name, t) \<in> set specs'"
    then obtain i where i: "i < length specs'" "specs' ! i = (name, t)" by (auto simp: in_set_conv_nth)
    then have x: "i < length specs" "name = fst (specs ! i)" "f (snd (specs ! i)) = Inr t" using l by (auto simp: list_all2_conv_all_nth)
    have m: "(name, snd (specs ! i)) \<in> set specs" using nth_mem [OF x(1)] x(2) by simp
    then have "snd (specs ! i) \<in> snd ` set specs" by (rule rev_image_eqI) simp
    then show "\<exists>s. (name, s) \<in> set specs \<and> adapted s t" using m x(3) assms(2) by blast
  qed
qed

lemma unify_derived:
  assumes "unify_kv_cache_spec_page_size dz specs = Inr specs'" and "\<forall>(_, s) \<in> set specs. \<not> is_uniform s"
  shows "derived specs specs'"
proof -
  from assms(1) consider "specs' = specs" | pages where
    "all_results (map (\<lambda>(name, s). and_then (unify_layer_page dz (Max (set pages)) s) (\<lambda>s. Inr (name, s))) specs) = Inr specs'"
    by (auto simp: unify_kv_cache_spec_page_size_def result_simps split: if_splits)
  then show ?thesis
  proof cases
    case 2
    show ?thesis by (rule named_source [OF 2]) (use assms(2) unify_layer_resized in \<open>fastforce simp: adapted_def\<close>)
  qed (simp add: derived_sub)
qed

lemma promote_derived:
  assumes "promote_local_kv_cache_specs dz reg specs = Inr specs'"
  shows "derived specs specs'"
proof -
  from assms(1) consider "specs' = specs" | b where
    "all_results (map (\<lambda>(name, s). and_then (promote_layer dz b s) (\<lambda>s. Inr (name, s))) specs) = Inr specs'"
    by (auto simp: promote_local_kv_cache_specs_def Let_def result_simps split: if_splits)
  then show ?thesis
  proof cases
    case 2
    show ?thesis by (rule named_source [OF 2]) (rule promote_layer_adapted)
  qed (simp add: derived_sub)
qed

lemma created_made:
  assumes c: "create_kv_cache_group_specs specs names = Inr gs" and p: "\<forall>(_, s) \<in> set specs. \<not> is_uniform s" and d: "derived sp specs"
  shows "\<forall>g \<in> set gs. made_of sp g"
proof
  fix g assume g: "g \<in> set gs"
  let ?f = "\<lambda>names. and_then (all_results (map (spec_of_layer specs) names)) (\<lambda>ss. and_then (merge_specs ss) (\<lambda>merged. Inr (kv_group names merged)))"
  obtain n where "?f n = Inr g"
    using c g by (auto simp: create_kv_cache_group_specs_def all_results_map list_all2_conv_all_nth in_set_conv_nth)
  then obtain ss m where ss: "list_all2 (\<lambda>name t. spec_of_layer specs name = Inr t) n ss" "merge_specs ss = Inr m" "g = kv_group n m"
    by (auto simp: result_simps all_results_map)
  show "made_of sp g"
  proof (rule made_plain [of _ _ ss])
    have "list_all2 (\<lambda>name t. \<exists>s. (name, s) \<in> set sp \<and> adapted s t) n ss"
      by (rule list_all2_mono [OF ss(1)]) (use d in \<open>auto simp: derived_def spec_of_layer_def dest!: map_of_SomeD split: option.splits\<close>)
    then show "list_all2 (\<lambda>name t. \<exists>s. (name, s) \<in> set sp \<and> adapted s t) (layer_names g) ss" using ss(3) by (simp add: kv_group_def)
    show "\<not> is_uniform (group_spec g)" using created_groups(2) [OF c p] g by blast
  qed (use ss in \<open>simp add: kv_group_def\<close>)
qed

lemma hidden_made:
  assumes "all_results (map (aligned_hidden_group dz p b) hidden) = Inr gs" and "\<forall>(_, s) \<in> set hidden. \<not> is_uniform s"
    and sub: "set hidden \<subseteq> set sp"
  shows "\<forall>g \<in> set gs. made_of sp g"
proof
  fix g assume "g \<in> set gs"
  then obtain name s where h: "(name, s) \<in> set hidden" "aligned_hidden_group dz p b (name, s) = Inr g"
    using assms(1) by (auto simp: all_results_map list_all2_conv_all_nth in_set_conv_nth) (metis nth_mem surj_pair)
  then obtain n q t where t: "post_init dz (map_attention (\<lambda>a. a\<lparr>att_block_size := n, att_page_size_padded := q\<rparr>) s) = Inr t" "g = kv_group [name] t"
    by (auto simp: aligned_hidden_group_def Let_def result_simps split: option.splits)
  have "resized s t" using post_init_resized [OF t(1)] resized_attention(3) resized_trans by blast
  moreover have "\<not> is_uniform t" using post_init_plain [OF t(1)] map_attention_plain assms(2) h(1) by fastforce
  ultimately show "made_of sp g"
    using t(2) h(1) sub by (intro made_plain [of _ _ "[t]"]) (auto simp: kv_group_def adapted_def)
qed

lemma uniform_type_made:
  assumes "from_specs reg ss = Inr (Some u)" and "derived sp ss"
  shows "\<forall>g \<in> set (get_kv_cache_groups_uniform_type u). made_of sp g"
proof -
  from assms(1) obtain bs where "u = UniformTypeKVCacheSpecs bs ss" by (auto simp: from_specs_def result_simps split: if_splits list.splits)
  then show ?thesis using made_uniform [OF assms(2)] by simp
qed

lemma hybrid_made:
  assumes "get_hybrid_groups dz reg specs = Inr groups" and r: "\<forall>(_, s) \<in> set specs. \<not> is_uniform s"
  shows "\<forall>g \<in> set groups. made_of specs g"
proof -
  let ?hidden = "filter (\<lambda>(_ :: string, s). isinstance s cls_HiddenStateCacheSpec) specs" and ?filtered = "filter (\<lambda>(_, s). \<not> isinstance s cls_HiddenStateCacheSpec) specs"
  have p: "\<forall>(_, s) \<in> set ?filtered. \<not> is_uniform s" "\<forall>(_, s) \<in> set ?hidden. \<not> is_uniform s" using r by auto
  show ?thesis
  proof (cases "unify_kv_cache_spec_page_size dz ?filtered")
    case (Inl e)
    then have "try_get_full_allocation_fallback_groups dz reg specs = Inr (Some groups)"
      using assms(1) by (auto simp: get_hybrid_groups_def Let_def result_simps split: if_splits option.splits)
    then obtain promoted u where "promote_local_kv_cache_specs dz reg specs = Inr promoted" "from_specs reg promoted = Inr (Some u)"
      "groups = get_kv_cache_groups_uniform_type u"
      unfolding try_get_full_allocation_fallback_groups_def by (auto simp: result_simps split: if_splits sum.splits)
    then show ?thesis using uniform_type_made promote_derived by blast
  next
    case (Inr unified)
    from assms(1) Inr obtain gs hs where gs: "get_kv_cache_groups_uniform_page_size unified = Inr gs" "groups = gs @ hs"
      and hs: "?hidden = [] \<and> hs = [] \<or> (\<exists>pg b. all_results (map (aligned_hidden_group dz pg b) ?hidden) = Inr hs)"
      by (fastforce simp: get_hybrid_groups_def Let_def result_simps split: if_splits)
    have d: "derived specs unified" using unify_derived [OF Inr p(1)] by (auto simp: derived_def)
    obtain names where "create_kv_cache_group_specs unified names = Inr gs"
      using gs(1) by (auto simp: get_kv_cache_groups_uniform_page_size_def Let_def result_simps split: if_splits)
    from created_made [OF this unify_names(2) [OF Inr p(1)] d] have "\<forall>g \<in> set gs. made_of specs g" .
    moreover have "\<forall>g \<in> set hs. made_of specs g" using hs hidden_made [OF _ p(2), of dz _ _ hs specs] by auto
    ultimately show ?thesis using gs(2) by auto
  qed
qed

lemma all_results_member: "all_results (map f xs) = Inr ys \<Longrightarrow> y \<in> set ys \<Longrightarrow> \<exists>x \<in> set xs. f x = Inr y"
  unfolding all_results_map by (auto simp: list_all2_conv_all_nth in_set_conv_nth [of _ ys]) (metis nth_mem)

lemma group_drawn:
  assumes "from_specs_some reg d = Inr sub" and "set d \<subseteq> set sp" and "names = map fst d"
  shows "made_of sp (kv_group names sub)"
proof -
  from assms(1) obtain bs where "sub = UniformTypeKVCacheSpecs bs d"
    by (auto simp: from_specs_some_def from_specs_def result_simps split: if_splits list.splits option.splits)
  then show ?thesis using made_uniform [OF derived_sub [OF assms(2)]] assms(3) by simp
qed

lemma split_made:
  assumes "split_swa_mla_group dz reg k specs = Inr gs" and "set specs \<subseteq> set sp"
  shows "\<forall>g \<in> set gs. made_of sp g"
proof
  fix g assume "g \<in> set gs"
  moreover from assms(1) obtain pages :: "int list" and L where "all_results (map (\<lambda>i. let names = concat (every_nth (nat (cdiv (int L) k)) i (zip_columns L (map snd (layers_by id (zip (map fst specs) pages))))) in
       and_then (all_results (map (\<lambda>name. and_then (spec_of_layer specs name) (\<lambda>s. Inr (name, s))) names)) (\<lambda>d.
       and_then (from_specs_some reg d) (\<lambda>sub. Inr (kv_group names sub)))) [0..<nat (cdiv (int L) k)]) = Inr gs"
    by (auto simp: split_swa_mla_group_def Let_def result_simps)
  ultimately obtain names where "and_then (all_results (map (\<lambda>name. and_then (spec_of_layer specs name) (\<lambda>s. Inr (name, s))) names)) (\<lambda>d.
      and_then (from_specs_some reg d) (\<lambda>sub. Inr (kv_group names sub))) = Inr g" unfolding Let_def by (blast dest: all_results_member)
  then obtain names d sub where d: "all_results (map (\<lambda>name. and_then (spec_of_layer specs name) (\<lambda>s. Inr (name, s))) names) = Inr d"
    "from_specs_some reg d = Inr sub" "g = kv_group names sub" by (auto simp: result_simps)
  show "made_of sp g" using group_drawn [OF d(2)] layer_lookup [OF d(1)] assms(2) d(3) by auto
qed

lemma unified_within:
  assumes "group_and_unify_kv_cache_specs dz reg specs = Inr (Some us)"
  shows "\<forall>u \<in> set us. \<exists>d. from_specs_some reg d = Inr u \<and> set d \<subseteq> set specs"
proof -
  let ?swa = "filter (\<lambda>(_, s). isinstance s cls_SlidingWindowMLASpec) specs"
  let ?mla = "filter (\<lambda>(_, s). \<not> isinstance s cls_SlidingWindowMLASpec \<and> isinstance s cls_MLAAttentionSpec) specs"
  let ?ds = "layers_by window_key (map (\<lambda>x. (x, x)) ?swa)"
  from assms obtain mu sus where us: "us = mu # sus" "from_specs_some reg ?mla = Inr mu" "all_results (map (\<lambda>(_, d). from_specs_some reg d) ?ds) = Inr sus"
    by (auto simp: group_and_unify_kv_cache_specs_def Let_def result_simps split: if_splits)
  have fd: "flat (map snd ?ds) = mset ?swa" using layers_by_flat [of window_key "map (\<lambda>x. (x, x)) ?swa"] by (simp add: o_def)
  have sub: "set d \<subseteq> set specs" if "(key, d) \<in> set ?ds" for key d
  proof -
    have "d \<in> set (map snd ?ds)" unfolding set_map by (rule image_eqI [OF _ that]) simp
    then have "set d \<subseteq> set (concat (map snd ?ds))" by auto
    also have "\<dots> = set ?swa" by (rule mset_eq_setD [OF fd])
    finally show ?thesis by auto
  qed
  show ?thesis
  proof
    fix u assume "u \<in> set us"
    then consider "u = mu" | "u \<in> set sus" using us(1) by auto
    then show "\<exists>d. from_specs_some reg d = Inr u \<and> set d \<subseteq> set specs"
    proof cases
      case 2
      then obtain x where "x \<in> set ?ds" "from_specs_some reg (snd x) = Inr u"
        using all_results_member [OF us(3) 2] unfolding case_prod_beta by blast
      then show ?thesis using sub [of "fst x" "snd x"] by auto
    qed (use us(2) in auto)
  qed
qed

lemma uniform_groups_made:
  assumes g: "get_kv_cache_groups_uniform_groups dz reg us = Inr groups"
    and us: "\<forall>u \<in> set us. \<exists>d. from_specs_some reg d = Inr u \<and> set d \<subseteq> set sp"
  shows "\<forall>g \<in> set groups. made_of sp g"
proof -
  from g obtain u us' m ds k gss where u: "us = u # us'" "uniform_specs u = Inr m" "all_results (map uniform_specs us') = Inr ds"
    and gss: "all_results (map (split_swa_mla_group dz reg k) ds) = Inr gss" and gr: "groups = kv_group (map fst m) u # concat gss"
    by (cases us) (auto simp: get_kv_cache_groups_uniform_groups_def result_simps)
  have within: "from_specs_some reg d = Inr v \<and> set d \<subseteq> set sp" if v: "v \<in> set us" "uniform_specs v = Inr d" for v d
  proof -
    from us v(1) obtain d' where d': "from_specs_some reg d' = Inr v" "set d' \<subseteq> set sp" by blast
    then have "uniform_specs v = Inr d'"
      by (auto simp: from_specs_some_def from_specs_def result_simps split: if_splits list.splits option.splits)
    then show ?thesis using d' v(2) by simp
  qed
  have "made_of sp (kv_group (map fst m) u)" using group_drawn within [of u m] u(1,2) by auto
  moreover have "made_of sp g" if gs: "gs \<in> set gss" "g \<in> set gs" for gs g
  proof -
    obtain d where d: "d \<in> set ds" "split_swa_mla_group dz reg k d = Inr gs"
      using all_results_member [OF gss gs(1)] by blast
    then obtain v where "v \<in> set us'" "uniform_specs v = Inr d" using all_results_member [OF u(3)] by blast
    then show ?thesis using split_made [OF d(2), of sp] within [of v d] u(1) gs(2) by auto
  qed
  ultimately show ?thesis using gr by auto
qed

lemma made_of_eagle [simp]: "made_of sp (g\<lparr>is_eagle_group := b\<rparr>) = made_of sp g"
  by (cases "group_spec g") (simp_all add: made_of_def)

lemma flag_first_made: "\<forall>g \<in> set gs. made_of sp g \<Longrightarrow> \<forall>g \<in> set (flag_first p (\<lambda>g. g\<lparr>is_eagle_group := True\<rparr>) gs). made_of sp g"
  by (induction gs) auto

lemma model_groups_made:
  assumes g: "get_kv_cache_groups dz builtin_registry c specs = Inr (groups, specs')" and r: "retaining n specs"
  shows "\<forall>g \<in> set groups. made_of specs' g"
proof -
  from g obtain sp where sp: "(if disable_hybrid_kv_cache_manager c then unify_hybrid_kv_cache_specs dz builtin_registry specs else Inr specs) = Inr sp"
    by (auto simp: get_kv_cache_groups_def result_simps)
  have "retaining n sp" using sp unify_hybrid_keeps [of dz builtin_registry specs sp n] r by (auto split: if_splits)
  note p = retaining_plain [OF this]
  have s': "specs' = sp" using g sp by (auto simp: get_kv_cache_groups_def result_simps split: if_splits option.splits)
  from g sp consider "groups = []"
    | "get_kv_cache_groups_uniform_spec sp = Inr groups"
    | u where "from_specs builtin_registry sp = Inr (Some u)" "groups = get_kv_cache_groups_uniform_type u"
    | us gs where "group_and_unify_kv_cache_specs dz builtin_registry sp = Inr (Some us)" "get_kv_cache_groups_uniform_groups dz builtin_registry us = Inr gs"
        "groups = annotate_eagle_groups_deepseek_v4 c sp gs"
    | "get_hybrid_groups dz builtin_registry sp = Inr groups"
    by (auto simp: get_kv_cache_groups_def result_simps split: if_splits option.splits)
  then have "\<forall>g \<in> set groups. made_of sp g"
  proof cases
    case 2
    from created_made [OF 2 [unfolded get_kv_cache_groups_uniform_spec_def] p derived_sub] show ?thesis by simp
  next
    case 3
    from uniform_type_made [OF 3(1) derived_sub] 3(2) show ?thesis by simp
  next
    case 4
    from uniform_groups_made [OF 4(2) unified_within [OF 4(1)]] have "\<forall>g \<in> set gs. made_of sp g" .
    then show ?thesis using 4(3) by (auto simp: annotate_eagle_groups_deepseek_v4_def flag_first_made split: option.splits)
  next
    case 5
    from hybrid_made [OF 5 p] show ?thesis .
  qed simp
  then show ?thesis using s' by simp
qed

section \<open>Properties\<close>

text \<open>A model with one full-attention layer and two sliding-window layers.\<close>

definition three_layers :: layer_specs where
  "three_layers = [(''a'', plain_full None), (''b'', SlidingWindowSpec plain_attention 40 0), (''c'', SlidingWindowSpec plain_attention 40 0)]"

lemma three_layers_retaining: "retaining 0 three_layers"
  by (simp add: three_layers_def retaining_def dict_ok_def plain_full_def)

lemma three_layers_windows: "(l, s) \<in> set three_layers \<Longrightarrow> \<not> isinstance s cls_SlidingWindowMLASpec"
  by (auto simp: three_layers_def plain_full_def isinstance_def)

lemma model_specs_derived:
  assumes "get_kv_cache_groups dz builtin_registry c specs = Inr (groups, specs')"
  shows "derived specs specs'"
proof -
  from assms have "(if disable_hybrid_kv_cache_manager c then unify_hybrid_kv_cache_specs dz builtin_registry specs else Inr specs) = Inr specs'"
    by (auto simp: get_kv_cache_groups_def result_simps split: if_splits option.splits)
  then have "specs' = specs \<or> promote_local_kv_cache_specs dz builtin_registry specs = Inr specs'"
    by (auto simp: unify_hybrid_kv_cache_specs_def result_simps split: if_splits)
  then show ?thesis using promote_derived derived_sub by blast
qed

lemma group_contents:
  assumes "wf_group g" and "made_of sp g"
  shows "\<exists>ts. list_all2 (\<lambda>name t. \<exists>s. (name, s) \<in> set sp \<and> adapted s t) (layer_names g) ts \<and>
    (case group_spec g of UniformTypeKVCacheSpecs _ ss \<Rightarrow> ss = zip (layer_names g) ts \<and> same_blocks ss
     | m \<Rightarrow> merge_specs ts = Inr m \<or> ts = [m])"
  using assms by (cases "group_spec g") (auto simp: wf_group_def made_of_def)

text \<open>
  C38.  Every layer is in exactly one group, and the specification of a group is made from those of its layers.  Whatever strategy
  \<^verbatim>\<open>get_kv_cache_groups\<close> takes (one specification, one type, several page sizes, the hybrid grouping with its padding and its fallback),
  the groups together list every layer once and no other.  For every group there are the specifications of exactly its layers, in order,
  each the layer's own one with at most another block size and padding, or full attention of the same shape in place of a window or a
  chunk.  A group of one type lists them, and they need the same number of blocks in every configuration; the specification of
  any other group is their merge, or that of its only layer.  Models that mix windowed latent attention with layers of another family
  are excluded: there the other layers are left out of every group.
\<close>

theorem layers_partitioned:
  assumes "get_kv_cache_groups dz builtin_registry c specs = Inr (groups, specs')" and "retaining n specs"
    and "mla_family specs' \<or> (\<forall>(_, s) \<in> set specs'. \<not> isinstance s cls_SlidingWindowMLASpec)"
  shows "mset (concat (map layer_names groups)) = mset (map fst specs) \<and> distinct (concat (map layer_names groups)) \<and>
    map fst specs' = map fst specs \<and> (\<forall>(name, t) \<in> set specs'. \<exists>s. (name, s) \<in> set specs \<and> adapted s t) \<and>
    (\<forall>g \<in> set groups. \<exists>ts. list_all2 (\<lambda>name t. \<exists>s. (name, s) \<in> set specs' \<and> adapted s t) (layer_names g) ts \<and>
      (case group_spec g of UniformTypeKVCacheSpecs _ ss \<Rightarrow> ss = zip (layer_names g) ts \<and> same_blocks ss
       | m \<Rightarrow> merge_specs ts = Inr m \<or> ts = [m]))"
proof -
  note g = groups_of_model [OF assms(1,2)]
  have f: "flat (map layer_names groups) = mset (map fst specs)" using g assms(3) by blast
  have "distinct (map fst specs)" using assms(2) by (simp add: retaining_def dict_ok_def)
  then have d: "distinct (concat (map layer_names groups))" using mset_eq_imp_distinct_iff [OF f] by blast
  have w: "\<forall>g \<in> set groups. wf_group g" and n: "map fst specs' = map fst specs" using g by blast+
  show ?thesis
    by (intro conjI ballI f d n model_specs_derived [OF assms(1), unfolded derived_def]
        group_contents [OF bspec [OF w] bspec [OF model_groups_made [OF assms(1,2)]]])
qed

lemma map_sum_Inr: "map_sum id f r = Inr y \<Longrightarrow> \<exists>x. r = Inr x \<and> f x = y"
  by (cases r) auto

definition three_groups :: "(KVCacheGroupSpec list \<times> layer_specs) result" where
  "three_groups = get_kv_cache_groups (\<lambda>_. 2) builtin_registry small_config three_layers"

lemma three_groups_eval: "map_sum id (\<lambda>(gs, sp). (map layer_names gs, sp = three_layers)) three_groups = Inr ([[''a''], [''b''], [''c'']], True)"
  by code_simp

theorem layers_partitioned_witness:
  "\<exists>groups. three_groups = Inr (groups, three_layers) \<and> length groups = 3 \<and> distinct (concat (map layer_names groups)) \<and>
     (\<forall>g \<in> set groups. \<exists>t. list_all2 (\<lambda>name t. \<exists>s. (name, s) \<in> set three_layers \<and> adapted s t) (layer_names g) [t])"
proof -
  obtain gs where gs: "three_groups = Inr (gs, three_layers)" "map layer_names gs = [[''a''], [''b''], [''c'']]"
    using map_sum_Inr [OF three_groups_eval] by auto
  have "length gs = 3" using arg_cong [OF gs(2), of length] by simp
  have one: "\<exists>t. list_all2 P (layer_names g) [t]" if "g \<in> set gs" "list_all2 P (layer_names g) ts" for g P and ts :: "KVCacheSpec list"
  proof -
    have "layer_names g \<in> {[''a''], [''b''], [''c'']}" using imageI [OF that(1), of layer_names] gs(2) by (simp flip: set_map)
    then show ?thesis using that(2) by (auto simp: list_all2_Cons1)
  qed
  have w: "mla_family three_layers \<or> (\<forall>(_, s) \<in> set three_layers. \<not> isinstance s cls_SlidingWindowMLASpec)" using three_layers_windows by blast
  note p = layers_partitioned [OF gs(1) [unfolded three_groups_def] three_layers_retaining w]
  have "\<exists>t. list_all2 (\<lambda>name t. \<exists>s. (name, s) \<in> set three_layers \<and> adapted s t) (layer_names g) [t]" if g: "g \<in> set gs" for g
    using p one [OF g] g by meson
  then show ?thesis using gs(1) p \<open>length gs = 3\<close> by blast
qed

end
