(* ===== verification/Kv_Capacity.thy ===== *)
theory Kv_Capacity
  imports Kv_Grouping
begin

text \<open>
  The capacity that \<^verbatim>\<open>get_kv_cache_configs\<close> plans: all workers get the same number of blocks, within the memory of each, and the blocks
  that remain after the null block serve one request of the maximum model length.
\<close>

section \<open>Projected groups\<close>

lemma uniform_blocks:
  assumes "same_blocks specs" and "set specs' \<subseteq> set specs" and "(l, s) \<in> set specs'"
  shows "spec_blocks c (UniformTypeKVCacheSpecs bs specs') = spec_blocks c s"
proof -
  obtain k where k: "\<forall>(_, s) \<in> set specs. spec_blocks c s = k" using assms(1) unfolding same_blocks_def by blast
  then have "Max (set (map (\<lambda>(_, t). spec_blocks c t) specs')) = k"
    using assms(2,3) by (intro Max_eqI) (auto intro!: image_eqI [of _ _ "(l, s)"])
  moreover have "specs' \<noteq> []" "spec_blocks c s = k" using assms(2,3) k by auto
  ultimately show ?thesis by simp
qed

lemma project_shape:
  assumes "project_group ws g = Inr g'" and w: "wf_group g"
  shows "spec_blocks c (group_spec g') = spec_blocks c (group_spec g)" and "layer_names g' = filter (\<lambda>name. dict_get ws name \<noteq> None) (layer_names g)"
    and "is_uniform (group_spec g') = is_uniform (group_spec g)" and "layer_names g' \<noteq> [] \<Longrightarrow> wf_group g'"
proof -
  let ?names = "filter (\<lambda>name. dict_get ws name \<noteq> None) (layer_names g)"
  have n: "layer_names g' = ?names" using assms(1) by (auto simp: project_group_def Let_def result_simps)
  have "spec_blocks c (group_spec g') = spec_blocks c (group_spec g) \<and> is_uniform (group_spec g') = is_uniform (group_spec g) \<and>
    (layer_names g' \<noteq> [] \<longrightarrow> wf_group g')"
  proof (cases "group_spec g")
    case (UniformTypeKVCacheSpecs bs specs)
    have wf: "layer_names g = map fst specs" "specs \<noteq> []" "dict_ok specs" "same_blocks specs" "\<forall>(_, s) \<in> set specs. \<not> is_uniform s"
      using w UniformTypeKVCacheSpecs by (simp_all add: wf_group_def)
    show ?thesis
    proof (cases "?names = []")
      case True
      then have "group_spec g' = group_spec g" using assms(1) UniformTypeKVCacheSpecs by (auto simp: project_group_def Let_def result_simps)
      then show ?thesis using True n by simp
    next
      case False
      from assms(1) UniformTypeKVCacheSpecs False obtain d where
        d: "all_results (map (\<lambda>name. and_then (spec_of_layer specs name) (\<lambda>s. Inr (name, s))) ?names) = Inr d" "group_spec g' = UniformTypeKVCacheSpecs bs d"
        by (auto simp: project_group_def Let_def result_simps)
      note l = layer_lookup [OF d(1)]
      have ne: "d \<noteq> []" using l(1) False by auto
      then obtain k s where s: "(k, s) \<in> set d" by (cases d) auto
      have "spec_blocks c (group_spec g') = spec_blocks c s" unfolding d(2) by (rule uniform_blocks [OF wf(4) l(2) s])
      moreover have "spec_blocks c (group_spec g) = spec_blocks c s" unfolding UniformTypeKVCacheSpecs
        by (rule uniform_blocks [OF wf(4) subset_refl]) (use s l(2) in auto)
      moreover have "same_blocks d" using wf(4) l(2) unfolding same_blocks_def by fast
      moreover have "dict_ok d" using wf(3) l(1) wf(1) unfolding dict_ok_def by (metis distinct_filter)
      ultimately show ?thesis using UniformTypeKVCacheSpecs d(2) l ne n wf(5) by (auto simp: wf_group_def isinstance_def)
    qed
  qed (use assms(1) in \<open>auto simp: project_group_def Let_def result_simps wf_group_def\<close>)
  then show "spec_blocks c (group_spec g') = spec_blocks c (group_spec g)" "is_uniform (group_spec g') = is_uniform (group_spec g)"
    "layer_names g' \<noteq> [] \<Longrightarrow> wf_group g'" by auto
  show "layer_names g' = filter (\<lambda>name. dict_get ws name \<noteq> None) (layer_names g)" by (rule n)
qed

text \<open>The blocks that a request of the maximum length takes from the pool.\<close>

definition request_blocks :: "VllmConfig \<Rightarrow> KVCacheGroupSpec list \<Rightarrow> int" where
  "request_blocks c groups = (\<Sum>g \<leftarrow> groups. spec_blocks c (group_spec g))"

lemma project_blocks:
  assumes "project_kv_cache_groups_to_worker gg ws = Inr gs" and "\<forall>g \<in> set gg. wf_group g"
  shows "request_blocks c gs = request_blocks c gg" and "gs = [] \<longleftrightarrow> gg = []"
proof -
  have l: "list_all2 (\<lambda>g g'. project_group ws g = Inr g') gg gs" using assms(1) by (simp add: project_kv_cache_groups_to_worker_def all_results_map)
  then show "gs = [] \<longleftrightarrow> gg = []" by auto
  have "map (\<lambda>g. spec_blocks c (group_spec g)) gs = map (\<lambda>g. spec_blocks c (group_spec g)) gg"
    using l assms(2) project_shape(1) by (auto simp: list_all2_conv_all_nth intro!: nth_equalityI)
  then show "request_blocks c gs = request_blocks c gg" by (simp add: request_blocks_def)
qed

section \<open>The blocks of a worker\<close>

lemma config_blocks:
  assumes "get_kv_cache_config_from_groups dz c groups avail = Inr cfg"
  shows "kv_cache_groups cfg = groups"
    and "groups \<noteq> [] \<Longrightarrow> \<exists>b. pool_bytes_per_block dz groups = Inr b \<and> num_blocks cfg = may_override_num_blocks c (avail div b)"
    and "groups = [] \<Longrightarrow> num_blocks cfg = 1"
  using assms by (auto simp: get_kv_cache_config_from_groups_def pool_bytes_per_block_def Let_def result_simps py_div_def split: if_splits option.splits)

lemma for_each_all:
  "for_each (\<lambda>x _. f x) xs () = Inr () \<longleftrightarrow> (\<forall>x \<in> set xs. f x = Inr ())"
  by (induction xs) (auto simp: result_simps)

lemma check_worker:
  assumes "check_workers dz c gw cm = Inr ()" and "(groups, avail) \<in> set (zip gw cm)" and "groups \<noteq> []"
    and "\<forall>g \<in> set groups. planned_group dz c g" and "pool_bytes_per_block dz groups = Inr b"
  shows "b * request_blocks c groups \<le> avail"
proof -
  let ?f = "\<lambda>(groups, avail). if groups = [] then Inr () else
      check_enough_memory avail (max_memory_usage_bytes_from_groups dz c groups) (estimate_max_model_len_from_groups dz c groups)"
  have eq: "check_workers dz c gw cm = for_each (\<lambda>x _. ?f x) (zip gw cm) ()"
    unfolding check_workers_def by (intro arg_cong [where f = "\<lambda>f. for_each f _ _"]) (auto intro!: ext)
  have "\<forall>x \<in> set (zip gw cm). ?f x = Inr ()" by (rule trans [OF eq [symmetric] assms(1), unfolded for_each_all])
  from bspec [OF this assms(2)] have "check_enough_memory avail (max_memory_usage_bytes_from_groups dz c groups) (estimate_max_model_len_from_groups dz c groups) = Inr ()"
    using assms(3) by simp
  then show ?thesis using groups_memory [OF assms(3-5)] unfolding request_blocks_def
    by (auto simp: check_enough_memory_def result_simps split: if_splits)
qed

text \<open>One worker before the numbers of blocks are made equal.\<close>

lemma worker_capacity:
  assumes ok: "effective_memory dz c gw mem = Inr am" "usable_memory dz gw am = Inr cm" "check_workers dz c' gw cm = Inr ()"
    and len: "length gw = length mem" and i: "i < length gw" "gw ! i \<noteq> []" and p: "\<forall>g \<in> set (gw ! i). planned_group dz c' g"
    and o': "num_gpu_blocks_override c' = num_gpu_blocks_override c" and cfg: "get_kv_cache_config_from_groups dz c' (gw ! i) (am ! i) = Inr cfg"
  shows "\<exists>b. pool_bytes_per_block dz (gw ! i) = Inr b \<and> 0 < b \<and> num_blocks cfg = am ! i div b \<and> request_blocks c' (gw ! i) + 1 \<le> num_blocks cfg \<and>
    b * num_blocks cfg \<le> am ! i \<and> (num_gpu_blocks_override c = None \<longrightarrow> am = mem) \<and> (num_gpu_blocks_override c \<noteq> None \<longrightarrow> num_gpu_blocks_override c = Some (num_blocks cfg))"
proof -
  from config_blocks(2) [OF cfg i(2)] obtain b where b: "pool_bytes_per_block dz (gw ! i) = Inr b" "num_blocks cfg = may_override_num_blocks c' (am ! i div b)" by blast
  have b0: "0 < b" by (rule bytes_per_block_pos [OF b(1)])
  have am: "length am = length gw"
    using ok(1) len by (auto simp: effective_memory_def all_results_map split: option.splits dest!: list_all2_lengthD)
  have cm: "length cm = length gw" using ok(2) am by (auto simp: usable_memory_def all_results_map dest!: list_all2_lengthD)
  have "cm ! i = am ! i - b"
    using ok(2) i b(1) am by (auto simp: usable_memory_def all_results_map list_all2_conv_all_nth result_simps)
  moreover have "b * request_blocks c' (gw ! i) \<le> cm ! i"
    by (rule check_worker [OF ok(3) _ i(2) p b(1)]) (use i(1) cm in \<open>auto simp: set_zip\<close>)
  ultimately have "(request_blocks c' (gw ! i) + 1) * b \<le> am ! i" by (simp add: algebra_simps)
  then have d: "request_blocks c' (gw ! i) + 1 \<le> am ! i div b" using b0 zdiv_mono1 [of "(request_blocks c' (gw ! i) + 1) * b" "am ! i" b] by simp
  have n: "num_blocks cfg = am ! i div b \<and> (num_gpu_blocks_override c = None \<longrightarrow> am = mem) \<and> (num_gpu_blocks_override c \<noteq> None \<longrightarrow> num_gpu_blocks_override c = Some (num_blocks cfg))"
  proof (cases "num_gpu_blocks_override c")
    case None
    then show ?thesis using ok(1) b(2) o' by (simp add: effective_memory_def may_override_num_blocks_def)
  next
    case (Some k)
    then have "am ! i = k * b" using ok(1) i b(1) len am by (auto simp: effective_memory_def all_results_map list_all2_conv_all_nth result_simps)
    then show ?thesis using Some b(2) o' b0 by (simp add: may_override_num_blocks_def)
  qed
  moreover have "b * (am ! i div b) \<le> am ! i" using b0 pos_mod_sign [of b "am ! i"] mult_div_mod_eq [of b "am ! i"] by linarith
  ultimately show ?thesis using b b0 d by auto
qed

section \<open>All workers\<close>

lemma retain_extra_retains: "retain_extra dz n s = Inr s' \<Longrightarrow> \<not> is_uniform s \<Longrightarrow> retains n s'"
  by (cases s) (auto simp: result_simps isinstance_def)

lemma merged_dict:
  assumes "merge_worker_specs ds = Inr merged" and "\<forall>d \<in> set ds. \<forall>(_, s) \<in> set d. \<not> is_uniform s"
  shows "dict_ok merged \<and> (\<forall>(_, s) \<in> set merged. \<not> is_uniform s)"
proof -
  have "dict_ok m' \<and> (\<forall>(_, s) \<in> set m'. \<not> is_uniform s)"
    if "for_each (\<lambda>(name, s) merged. case dict_get merged name of None \<Rightarrow> Inr (dict_set name s merged)
      | Some t \<Rightarrow> and_then (py_assert (t = s)) (\<lambda>_. Inr merged)) xs m = Inr m'" "\<forall>(_, s) \<in> set xs. \<not> is_uniform s"
      "dict_ok m \<and> (\<forall>(_, s) \<in> set m. \<not> is_uniform s)" for xs m and m' :: layer_specs
    using that(1,3)
  proof (rule for_each_preserves)
    fix x :: "string \<times> KVCacheSpec" and m m' :: layer_specs
    assume x: "x \<in> set xs" and m: "dict_ok m \<and> (\<forall>(_, s) \<in> set m. \<not> is_uniform s)"
      and m': "(case x of (name, s) \<Rightarrow> \<lambda>merged. case dict_get merged name of None \<Rightarrow> Inr (dict_set name s merged)
        | Some t \<Rightarrow> and_then (py_assert (t = s)) (\<lambda>_. Inr merged)) m = Inr m'"
    obtain name s where ns: "x = (name, s)" by (cases x)
    have "\<not> is_uniform s" using that(2) x ns by auto
    moreover have "m' = m \<or> m' = dict_set name s m" using m' ns by (auto simp: result_simps split: option.splits)
    moreover have "set (dict_set name s m) \<subseteq> insert (name, s) (set m)" by (induction m) auto
    ultimately show "dict_ok m' \<and> (\<forall>(_, s) \<in> set m'. \<not> is_uniform s)" using m by auto
  qed
  from this [OF assms(1) [unfolded merge_worker_specs_def]] assms(2) show ?thesis by auto
qed

lemma auto_fit_config:
  "auto_fit_max_model_len dz c gw cm = Inr c' \<Longrightarrow> \<exists>n. c' = c\<lparr>max_model_len := n\<rparr>"
  by (auto simp: auto_fit_max_model_len_def result_simps split: if_splits intro: exI [of _ "max_model_len c"])

lemma get_kv_cache_configsE:
  assumes "get_kv_cache_configs dz builtin_registry c specs mem = Inr (cfgs, c')" and "\<forall>d \<in> set specs. \<forall>(_, s) \<in> set d. \<not> is_uniform s"
  obtains gg gw am cm cfgs0 where "\<forall>g \<in> set gg. wf_group g" and "all_results (map (project_kv_cache_groups_to_worker gg) specs) = Inr gw"
    and "effective_memory dz c gw mem = Inr am" "usable_memory dz gw am = Inr cm" "check_workers dz c' gw cm = Inr ()"
    and "\<exists>n. c' = c\<lparr>max_model_len := n\<rparr>" and "all_results (map (worker_config dz c') (zip gw (zip specs am))) = Inr cfgs0" "cfgs0 \<noteq> []"
    and "all_results (map (shrink_config dz c' (Min (set (map num_blocks cfgs0)))) cfgs0) = Inr cfgs"
proof -
  from assms(1) obtain m0 m1 gg sp gw am cm cfgs0 where
    s: "merge_worker_specs specs = Inr m0" "all_results (map (\<lambda>(name, s). and_then (retain_extra dz (extra_retained c) s) (\<lambda>s. Inr (name, s))) m0) = Inr m1"
    "get_kv_cache_groups dz builtin_registry c m1 = Inr (gg, sp)"
    and p: "all_results (map (project_kv_cache_groups_to_worker gg) specs) = Inr gw" "effective_memory dz c gw mem = Inr am" "usable_memory dz gw am = Inr cm"
    and c': "(if original_max_model_len c = - 1 then auto_fit_max_model_len dz c gw cm else Inr c) = Inr c'" "check_workers dz c' gw cm = Inr ()"
    and w: "all_results (map (worker_config dz c') (zip gw (zip specs am))) = Inr cfgs0" "cfgs0 \<noteq> []"
    "all_results (map (shrink_config dz c' (Min (set (map num_blocks cfgs0)))) cfgs0) = Inr cfgs"
    unfolding get_kv_cache_configs_def by (auto simp: result_simps split: if_splits)
  note m = merged_dict [OF s(1) assms(2)]
  note r = named_results [of "retain_extra dz (extra_retained c)" m0 m1 "\<lambda>s. \<not> is_uniform s" "retains (extra_retained c)", OF s(2) retain_extra_retains]
  have "retaining (extra_retained c) m1" using r m by (auto simp: retaining_def dict_ok_def)
  from groups_of_model [OF s(3) this] have wf: "\<forall>g \<in> set gg. wf_group g" by blast
  have "\<exists>n. c' = c\<lparr>max_model_len := n\<rparr>" using c'(1) auto_fit_config by (auto split: if_splits intro: exI [of _ "max_model_len c"])
  with that wf p c'(2) w show thesis by blast
qed

lemma shrink_blocks:
  assumes "shrink_config dz c n cfg0 = Inr cfg" and "num_gpu_blocks_override c \<noteq> None \<Longrightarrow> num_blocks cfg0 = n" and "kv_cache_groups cfg0 \<noteq> []"
  shows "kv_cache_groups cfg = kv_cache_groups cfg0 \<and> num_blocks cfg = n"
proof (cases "num_blocks cfg0 = n")
  case False
  then have o': "num_gpu_blocks_override c = None" using assms(2) by blast
  from assms(1) False obtain b where b: "pool_bytes_per_block dz (kv_cache_groups cfg0) = Inr b"
    "get_kv_cache_config_from_groups dz c (kv_cache_groups cfg0) (n * b) = Inr cfg" by (auto simp: shrink_config_def result_simps)
  have "0 < b" by (rule bytes_per_block_pos [OF b(1)])
  then show ?thesis using config_blocks(1,2) [OF b(2)] assms(3) b(1) o' by (auto simp: may_override_num_blocks_def)
qed (use assms(1) in \<open>simp add: shrink_config_def\<close>)

text \<open>What the planning promises of the configurations of all workers.\<close>

definition capacity_ok :: "(string \<Rightarrow> int) \<Rightarrow> VllmConfig \<Rightarrow> int list \<Rightarrow> KVCacheConfig list \<Rightarrow> bool" where
  "capacity_ok dz c mem cfgs \<longleftrightarrow> length cfgs = length mem \<and> (\<forall>cfg \<in> set cfgs. \<forall>cfg' \<in> set cfgs. num_blocks cfg' = num_blocks cfg) \<and>
     (\<forall>i < length cfgs. kv_cache_groups (cfgs ! i) \<noteq> [] \<longrightarrow> request_blocks c (kv_cache_groups (cfgs ! i)) + 1 \<le> num_blocks (cfgs ! i) \<and>
        (\<exists>b. pool_bytes_per_block dz (kv_cache_groups (cfgs ! i)) = Inr b \<and>
          (num_gpu_blocks_override c = None \<longrightarrow> b * num_blocks (cfgs ! i) \<le> mem ! i)))"

lemma capacity_core:
  assumes g: "get_kv_cache_configs dz builtin_registry c specs mem = Inr (cfgs, c')" and len: "length mem = length specs"
    and plain: "\<forall>d \<in> set specs. \<forall>(_, s) \<in> set d. \<not> is_uniform s" and p: "\<forall>cfg \<in> set cfgs. \<forall>g \<in> set (kv_cache_groups cfg). planned_group dz c g"
  shows "capacity_ok dz c' mem cfgs"
proof -
  obtain gg gw am cm cfgs0 where wf: "\<forall>g \<in> set gg. wf_group g" and gw: "all_results (map (project_kv_cache_groups_to_worker gg) specs) = Inr gw"
    and mem: "effective_memory dz c gw mem = Inr am" "usable_memory dz gw am = Inr cm" "check_workers dz c' gw cm = Inr ()"
    and c': "\<exists>n. c' = c\<lparr>max_model_len := n\<rparr>" and w: "all_results (map (worker_config dz c') (zip gw (zip specs am))) = Inr cfgs0" "cfgs0 \<noteq> []"
    and sh: "all_results (map (shrink_config dz c' (Min (set (map num_blocks cfgs0)))) cfgs0) = Inr cfgs"
    by (rule get_kv_cache_configsE [OF g plain]) blast
  let ?n = "Min (set (map num_blocks cfgs0))"
  have lg: "length gw = length specs" using list_all2_lengthD [OF gw [unfolded all_results_map]] by simp
  have la: "length am = length gw" using mem(1) lg len by (auto simp: effective_memory_def all_results_map split: option.splits dest!: list_all2_lengthD)
  have l0: "length cfgs0 = length specs" using list_all2_lengthD [OF w(1) [unfolded all_results_map]] lg la by simp
  have l1: "length cfgs = length specs" using list_all2_lengthD [OF sh [unfolded all_results_map]] l0 by simp
  have cfg0: "get_kv_cache_config_from_groups dz c' (gw ! i) (am ! i) = Inr (cfgs0 ! i)" if "i < length specs" for i
    using w(1) that lg la by (auto simp: all_results_map list_all2_conv_all_nth worker_config_def result_simps)
  have cfg: "shrink_config dz c' ?n (cfgs0 ! i) = Inr (cfgs ! i)" if "i < length specs" for i
    using sh that l0 by (simp add: all_results_map list_all2_conv_all_nth)
  have pj: "project_kv_cache_groups_to_worker gg (specs ! i) = Inr (gw ! i)" if "i < length specs" for i
    using gw that by (simp add: all_results_map list_all2_conv_all_nth)
  have "capacity_ok dz c' mem cfgs \<and> (\<forall>cfg \<in> set cfgs. num_blocks cfg = ?n)"
  proof (cases "gg = []")
    case True
    then have e: "gw ! i = []" if "i < length specs" for i using project_blocks(2) [OF pj [OF that] wf] by simp
    have n0: "num_blocks (cfgs0 ! i) = 1 \<and> kv_cache_groups (cfgs0 ! i) = []" if "i < length specs" for i
      using config_blocks(1,3) [OF cfg0 [OF that]] e [OF that] by simp
    then have "set (map num_blocks cfgs0) \<subseteq> {1}" using l0 by (auto simp: in_set_conv_nth)
    then have "set (map num_blocks cfgs0) = {1}" using w(2) by (simp add: subset_singleton_iff)
    then have "?n = 1" by simp
    then have "cfgs ! i = cfgs0 ! i" if "i < length specs" for i using cfg [OF that] n0 [OF that] by (simp add: shrink_config_def)
    then have a: "\<forall>cfg \<in> set cfgs. num_blocks cfg = ?n \<and> kv_cache_groups cfg = []" using n0 \<open>?n = 1\<close> l1 by (auto simp: in_set_conv_nth)
    then have "\<forall>i < length cfgs. kv_cache_groups (cfgs ! i) = []" using nth_mem by blast
    with a show ?thesis using l1 len by (simp add: capacity_ok_def)
  next
    case False
    have ne: "gw ! i \<noteq> []" if "i < length specs" for i using project_blocks(2) [OF pj [OF that] wf] False by simp
    have kg: "kv_cache_groups (cfgs0 ! i) = gw ! i" if "i < length specs" for i using config_blocks(1) [OF cfg0 [OF that]] .
    have o': "num_gpu_blocks_override c' = num_gpu_blocks_override c" using c' by auto
    have same: "kv_cache_groups (cfgs ! i) = gw ! i" if "i < length specs" for i
      using cfg [OF that] kg [OF that] config_blocks(1) by (auto simp: shrink_config_def result_simps split: if_splits)
    have pl: "\<forall>g \<in> set (gw ! i). planned_group dz c' g" if "i < length specs" for i
      using p same [OF that] that l1 c' by (metis nth_mem planned_group_len)
    note cap = worker_capacity [OF mem _ _ _ _ o' cfg0]
    have i0: "\<exists>b. pool_bytes_per_block dz (gw ! i) = Inr b \<and> 0 < b \<and> request_blocks c' gg + 1 \<le> num_blocks (cfgs0 ! i) \<and> b * num_blocks (cfgs0 ! i) \<le> am ! i \<and>
        (num_gpu_blocks_override c = None \<longrightarrow> am = mem) \<and> (num_gpu_blocks_override c \<noteq> None \<longrightarrow> num_gpu_blocks_override c = Some (num_blocks (cfgs0 ! i)))"
      if i: "i < length specs" for i
      using cap [of i] i lg len ne [OF i] pl [OF i] project_blocks(1) [OF pj [OF i] wf, of c'] by auto
    have "request_blocks c' gg + 1 \<le> num_blocks (cfgs0 ! i)" if "i < length specs" for i using i0 [OF that] by blast
    then have min: "request_blocks c' gg + 1 \<le> ?n" using l0 w(2) by (auto simp: in_set_conv_nth)
    have min': "?n \<le> num_blocks (cfgs0 ! i)" if "i < length specs" for i using that l0 by (intro Min_le) simp_all
    have ov: "num_blocks (cfgs0 ! i) = ?n" if "i < length specs" "num_gpu_blocks_override c' \<noteq> None" for i
    proof -
      have "?n \<in> set (map num_blocks cfgs0)" by (rule Min_in) (use w(2) in simp_all)
      then obtain j where j: "j < length specs" "?n = num_blocks (cfgs0 ! j)" using l0 by (auto simp: in_set_conv_nth)
      then show ?thesis using i0 [OF j(1)] i0 [OF that(1)] that(2) o' by auto
    qed
    have n: "num_blocks (cfgs ! i) = ?n" if i: "i < length specs" for i
      using shrink_blocks [OF cfg [OF i]] ov [OF i] kg [OF i] ne [OF i] by simp
    have "request_blocks c' (gw ! i) + 1 \<le> ?n \<and> (\<exists>b. pool_bytes_per_block dz (gw ! i) = Inr b \<and> (num_gpu_blocks_override c' = None \<longrightarrow> b * ?n \<le> mem ! i))"
      if i: "i < length specs" for i
    proof -
      obtain b where b: "pool_bytes_per_block dz (gw ! i) = Inr b" "0 < b" "b * num_blocks (cfgs0 ! i) \<le> am ! i" "num_gpu_blocks_override c = None \<longrightarrow> am = mem"
        using i0 [OF i] by (elim exE conjE) (rule that)
      have "b * ?n \<le> b * num_blocks (cfgs0 ! i)" using b(2) min' [OF i] by simp
      then have "num_gpu_blocks_override c' = None \<longrightarrow> b * ?n \<le> mem ! i" using b(3,4) o' by auto
      then show ?thesis using b(1) min project_blocks(1) [OF pj [OF i] wf, of c'] by simp
    qed
    moreover have "\<forall>cfg \<in> set cfgs. num_blocks cfg = ?n" using n l1 by (auto simp: in_set_conv_nth)
    ultimately show ?thesis using n same l1 len by (simp add: capacity_ok_def)
  qed
  then show ?thesis by blast
qed

section \<open>Properties\<close>

text \<open>
  C36.  The planned cache serves a request of the maximum length.  If \<^verbatim>\<open>get_kv_cache_configs\<close> returns, whether or not it fitted the model
  length, all workers have the same number of blocks; this number exceeds what a request of the maximum length takes over all groups by one, the null block, which
  the pool keeps back; and without an override the bytes of all blocks are within the memory of each worker.
\<close>

theorem planned_capacity:
  assumes "get_kv_cache_configs dz builtin_registry c specs mem = Inr (cfgs, c')" and "length mem = length specs"
    and "\<forall>d \<in> set specs. \<forall>(_, s) \<in> set d. \<not> isinstance s cls_UniformTypeKVCacheSpecs"
    and "\<forall>cfg \<in> set cfgs. \<forall>g \<in> set (kv_cache_groups cfg). planned_group dz c g"
  shows "capacity_ok dz c' mem cfgs"
  by (rule capacity_core [OF assms])

definition three_configs :: "(KVCacheConfig list \<times> VllmConfig) result" where
  "three_configs = get_kv_cache_configs (\<lambda>_. 2) builtin_registry small_config [three_layers] [100000]"

lemma three_configs_eval:
  "map_sum id (\<lambda>(cs, c). (map num_blocks cs, map (map group_spec \<circ> kv_cache_groups) cs, c)) three_configs =
     Inr ([97], [[plain_full None, SlidingWindowSpec plain_attention 40 0, SlidingWindowSpec plain_attention 40 0]], small_config)"
  by code_simp

lemma three_specs_planned: "planned (\<lambda>_. 2) small_config (SlidingWindowSpec plain_attention 40 0)"
  using plain_full_page [of None] by (simp add: planned_def plain_full_def layer_page_def isinstance_def small_config_def plain_attention_def)

theorem planned_capacity_witness:
  "\<exists>cfgs. three_configs = Inr (cfgs, small_config) \<and> capacity_ok (\<lambda>_. 2) small_config [100000] cfgs \<and>
     request_blocks small_config (kv_cache_groups (cfgs ! 0)) + 1 \<le> 97"
proof -
  obtain cs where cs: "three_configs = Inr (cs, small_config)" "map num_blocks cs = [97]"
    "map (map group_spec \<circ> kv_cache_groups) cs = [[plain_full None, SlidingWindowSpec plain_attention 40 0, SlidingWindowSpec plain_attention 40 0]]"
    using map_sum_Inr [OF three_configs_eval] by auto
  then obtain cfg where cfg: "cs = [cfg]" "num_blocks cfg = 97"
    "map group_spec (kv_cache_groups cfg) = [plain_full None, SlidingWindowSpec plain_attention 40 0, SlidingWindowSpec plain_attention 40 0]" by auto
  have "planned_group (\<lambda>_. 2) small_config g" if "g \<in> set (kv_cache_groups cfg)" for g
  proof -
    have "group_spec g \<in> {plain_full None, SlidingWindowSpec plain_attention 40 0}" using that arg_cong [OF cfg(3), of set] by auto
    then show ?thesis using plain_full_planned [of small_config None] three_specs_planned by (auto simp: planned_group_def plain_full_def)
  qed
  then have "capacity_ok (\<lambda>_. 2) small_config [100000] cs"
    using cfg(1) by (intro planned_capacity [OF cs(1) [unfolded three_configs_def]]) (auto simp: three_layers_def plain_full_def isinstance_def)
  moreover have "kv_cache_groups cfg \<noteq> []" using cfg(3) by auto
  ultimately show ?thesis using cs(1) cfg(1,2) by (auto simp: capacity_ok_def)
qed

end
