(* ===== verification/Sched_State.thy ===== *)
theory Sched_State
  imports Kv_Cache_Manager Encoder_Cache Stop_Check Request_Queue
begin

text \<open>
  The state of the scheduler (\<^verbatim>\<open>vllm/v1/core/sched/scheduler.py\<close>), its construction and the operations on its queues.

  Request objects are shared by reference: by the dictionary \<^verbatim>\<open>self.requests\<close>, the queues, the running list and local
  variables.  A reference is the request id, since the scheduler holds no two objects with the same id; \<open>objects\<close> is the store and
  \<open>requests\<close> the keys of the dictionary.  A queue is the list of references in the order of its deque or heap; an operation on it reads the
  objects from the store.

  KV and encoder-cache connectors, grammars and the block hasher are plug-ins behind abstract interfaces: they are the functions of \<open>externals\<close>
  over a state \<open>'w\<close> of their own.  Statistics, events, log messages, logprobs and the routing data of experts are left out.
\<close>

section \<open>Computations and loops\<close>

text \<open>\<open>None\<close> is a computation that does not return.\<close>

type_synonym 'a comp = "'a result option"

abbreviation ret :: "'a \<Rightarrow> 'a comp" where
  "ret x \<equiv> Some (Inr x)"

definition run_then :: "'a comp \<Rightarrow> ('a \<Rightarrow> 'b comp) \<Rightarrow> 'b comp" where
  "run_then m f = (case m of None \<Rightarrow> None | Some (Inl e) \<Rightarrow> Some (Inl e) | Some (Inr x) \<Rightarrow> f x)"

text \<open>The end of an iteration: \<open>Again\<close> is \<^verbatim>\<open>continue\<close> and \<open>Done\<close> is \<^verbatim>\<open>break\<close>.\<close>

datatype 'a loop_step = Again 'a | Done 'a

partial_function (option) while_loop :: "('s \<Rightarrow> 's loop_step comp) \<Rightarrow> 's \<Rightarrow> 's comp" where
  "while_loop body s =
     (case body s of
        None \<Rightarrow> None
      | Some (Inl e) \<Rightarrow> Some (Inl e)
      | Some (Inr (Done s)) \<Rightarrow> Some (Inr s)
      | Some (Inr (Again s)) \<Rightarrow> while_loop body s)"

declare while_loop.simps [code]

text \<open>A \<^verbatim>\<open>for\<close> loop with \<^verbatim>\<open>break\<close>.\<close>

fun for_until :: "('a \<Rightarrow> 's \<Rightarrow> 's loop_step result) \<Rightarrow> 'a list \<Rightarrow> 's \<Rightarrow> 's result" where
  "for_until f [] s = Inr s"
| "for_until f (x # xs) s =
     and_then (f x s) (\<lambda>step. case step of Done s \<Rightarrow> Inr s | Again s \<Rightarrow> for_until f xs s)"

section \<open>Messages\<close>

record NewRequestData =
  nr_req_id :: string
  nr_prompt_token_ids :: "int list option"
  nr_mm_features :: "MultiModalFeatureSpec list"
  nr_has_payload :: "bool list"
  nr_sampling_params :: "SamplingParams option"
  nr_pooling_params :: "PoolingParams option"
  nr_block_ids :: "int list list"
  nr_num_computed_tokens :: int
  nr_lora_request :: "LoRARequest option"
  nr_prompt_embeds :: "bytes list option"
  nr_prompt_is_token_ids :: "bool list option"
  nr_prefill_token_ids :: "int list option"

record CachedRequestData =
  cr_req_ids :: "string list"
  cr_resumed_req_ids :: "string list"
  cr_new_token_ids :: "int list list"
  cr_all_token_ids :: "(string, int list) dict"
  cr_new_block_ids :: "int list list option list"
  cr_num_computed_tokens :: "int list"
  cr_num_output_tokens :: "int list"

record SchedulerOutput =
  so_scheduled_new_reqs :: "NewRequestData list"
  so_scheduled_cached_reqs :: CachedRequestData
  so_num_scheduled_tokens :: "(string, int) dict"
  so_total_num_scheduled_tokens :: int
  so_scheduled_spec_decode_tokens :: "(string, int list) dict"
  so_scheduled_encoder_inputs :: "(string, int list) dict"
  so_num_common_prefix_blocks :: "int list"
  so_finished_req_ids :: "string list"
  so_free_encoder_mm_hashes :: "string list"
  so_preempted_req_ids :: "string list"
  so_has_structured_output_requests :: bool
  so_pending_structured_output_tokens :: bool
  so_num_invalid_spec_tokens :: "(string, int) dict"
  so_new_block_ids_to_zero :: "int list option"
  so_kv_cache_block_copies :: "(int \<times> int) list option"
  so_partial_tail_offloads :: "(string, (int \<times> int \<times> int) list) dict option"
  so_num_spec_tokens_to_schedule :: int

record KVConnectorOutput =
  invalid_block_ids :: "int list"
  finished_recving :: "string list"
  finished_sending :: "string list"

text \<open>An empty list of samples or of pooler outputs is the missing one.\<close>

record ModelRunnerOutput =
  req_id_to_index :: "(string, int) dict"
  sampled_token_ids :: "int list list"
  pooler_output :: "bytes option list"
  prompt_logprobs_of :: "string list"
  mr_num_nans_in_logits :: "(string, int) dict option"
  kv_connector_output :: "KVConnectorOutput option"
  has_ec_connector_output :: bool

record EngineCoreOutput =
  eo_request_id :: string
  eo_new_token_ids :: "int list"
  eo_finish_reason :: "FinishReason option"
  eo_pooling_output :: "bytes option"
  eo_stop_reason :: "stop_reason option"
  eo_num_nans_in_logits :: int

section \<open>Plug-ins\<close>

datatype grammar_status = NoGrammar | GrammarError | GrammarReady

record 'w externals =
  has_connector :: bool
  has_ec_connector :: bool
  supports_divergent_local_hybrid_hits :: bool
  supports_hma :: bool
  get_num_new_matched_tokens :: "Request \<Rightarrow> int \<Rightarrow> 'w \<Rightarrow> (int option \<times> bool) \<times> 'w"
  update_state_after_alloc :: "Request \<Rightarrow> KVCacheBlocks \<Rightarrow> int \<Rightarrow> 'w \<Rightarrow> 'w"
  on_new_request :: "Request \<Rightarrow> 'w \<Rightarrow> 'w"
  request_finished :: "Request \<Rightarrow> int list \<Rightarrow> 'w \<Rightarrow> bool \<times> 'w"
  request_finished_all_groups :: "Request \<Rightarrow> int list list \<Rightarrow> 'w \<Rightarrow> bool \<times> 'w"
  build_connector_meta :: "SchedulerOutput \<Rightarrow> 'w \<Rightarrow> 'w"
  update_connector_output :: "KVConnectorOutput \<Rightarrow> 'w \<Rightarrow> 'w"
  connector_reset_cache :: "'w \<Rightarrow> bool \<times> 'w"
  connector_pending_push :: "'w \<Rightarrow> bool"
  ensure_cache_available :: "Request \<Rightarrow> int \<Rightarrow> 'w \<Rightarrow> bool \<times> 'w"
  has_cache_item :: "string \<Rightarrow> 'w \<Rightarrow> bool"
  ec_update_state_after_alloc :: "Request \<Rightarrow> int \<Rightarrow> 'w \<Rightarrow> 'w"
  ec_request_finished :: "Request \<Rightarrow> 'w \<Rightarrow> bool \<times> 'w"
  ec_build_connector_meta :: "SchedulerOutput \<Rightarrow> 'w \<Rightarrow> 'w"
  ec_update_connector_output :: "'w \<Rightarrow> 'w"
  ec_pending_push :: "'w \<Rightarrow> bool"
  grammar_of :: "Request \<Rightarrow> 'w \<Rightarrow> grammar_status"
  should_advance :: "Request \<Rightarrow> int list \<Rightarrow> 'w \<Rightarrow> bool \<times> 'w"
  trim_reasoning_for_advance :: "Request \<Rightarrow> int list \<Rightarrow> 'w \<Rightarrow> int list"
  accept_tokens :: "string \<Rightarrow> int list \<Rightarrow> 'w \<Rightarrow> bool \<times> 'w"
  validate_tokens :: "string \<Rightarrow> int list \<Rightarrow> 'w \<Rightarrow> int list"
  block_hasher_of :: "block_hasher option"
  embed_digest :: "bytes \<Rightarrow> bytes"
  int_event_hashes :: bool
  reports_full :: "Request \<Rightarrow> bool"

section \<open>The encoder cache manager of either class\<close>

datatype encoder_manager = EncCache EncoderCacheManager | EncDec EncoderDecoderCacheManager

fun em_check_and_update_cache :: "Request \<Rightarrow> int \<Rightarrow> encoder_manager \<Rightarrow> (bool \<times> encoder_manager) result" where
  "em_check_and_update_cache r i (EncCache m) = and_then (check_and_update_cache r i m) (\<lambda>(b, m). Inr (b, EncCache m))"
| "em_check_and_update_cache r i (EncDec m) = Inr (False, EncDec m)"

fun em_can_allocate :: "Request \<Rightarrow> int \<Rightarrow> int \<Rightarrow> int \<Rightarrow> encoder_manager \<Rightarrow> (bool \<times> encoder_manager) result" where
  "em_can_allocate r i budget to_schedule (EncCache m) = and_then (can_allocate r i budget to_schedule m) (\<lambda>(b, m). Inr (b, EncCache m))"
| "em_can_allocate r i budget to_schedule (EncDec m) = and_then (ed_can_allocate r i budget to_schedule m) (\<lambda>b. Inr (b, EncDec m))"

fun em_allocate :: "Request \<Rightarrow> int \<Rightarrow> encoder_manager \<Rightarrow> encoder_manager result" where
  "em_allocate r i (EncCache m) = and_then (allocate r i m) (\<lambda>m. Inr (EncCache m))"
| "em_allocate r i (EncDec m) = and_then (ed_allocate r i m) (\<lambda>m. Inr (EncDec m))"

fun em_free_encoder_input :: "Request \<Rightarrow> int \<Rightarrow> encoder_manager \<Rightarrow> encoder_manager result" where
  "em_free_encoder_input r i (EncCache m) = and_then (free_encoder_input r i m) (\<lambda>m. Inr (EncCache m))"
| "em_free_encoder_input r i (EncDec m) = and_then (ed_free_encoder_input r i m) (\<lambda>m. Inr (EncDec m))"

fun em_free :: "Request \<Rightarrow> encoder_manager \<Rightarrow> encoder_manager result" where
  "em_free r (EncCache m) = and_then (free_encoder_cache r m) (\<lambda>m. Inr (EncCache m))"
| "em_free r (EncDec m) = and_then (ed_free r m) (\<lambda>m. Inr (EncDec m))"

fun em_get_cached_input_ids :: "Request \<Rightarrow> encoder_manager \<Rightarrow> int list" where
  "em_get_cached_input_ids r (EncCache m) = get_cached_input_ids r m"
| "em_get_cached_input_ids r (EncDec m) = ed_get_cached_input_ids r"

fun em_get_freed_mm_hashes :: "encoder_manager \<Rightarrow> string list \<times> encoder_manager" where
  "em_get_freed_mm_hashes (EncCache m) = map_prod id EncCache (get_freed_mm_hashes m)"
| "em_get_freed_mm_hashes (EncDec m) = map_prod id EncDec (ed_get_freed_mm_hashes m)"

fun em_reset :: "encoder_manager \<Rightarrow> encoder_manager" where
  "em_reset (EncCache m) = EncCache (reset_encoder_cache m)"
| "em_reset (EncDec m) = EncDec (ed_reset m)"

section \<open>The scheduler\<close>

datatype PauseState = UNPAUSED | PAUSED_NEW | PAUSED_ALL

text \<open>The attributes that \<^verbatim>\<open>__init__\<close> sets and nothing changes; \<open>is_async\<close> is the class \<^verbatim>\<open>AsyncScheduler\<close>.\<close>

record sched_config =
  is_async :: bool
  policy :: SchedulingPolicy
  max_num_running_reqs :: int
  max_num_scheduled_tokens :: int
  max_num_batched_tokens :: int
  sc_model_len :: int
  long_prefill_token_threshold :: int
  enable_chunked_prefill :: bool
  no_chunked_mm_input :: bool
  scheduler_reserve_full_isl :: bool
  num_sampled_tokens_per_step :: int
  num_spec_tokens :: int
  num_lookahead_tokens :: int
  num_prefill_lookahead :: int
  draft_slots :: int
  dynamic_sd_lookup :: "int list option"
  sc_use_eagle :: bool
  cache_block_size :: int
  sc_block_size :: int
  sc_hash_block_size :: int
  need_mamba_block_aligned_split :: bool
  mamba_has_prefill_checkpoint_blocks :: bool
  mamba_partial_cache_hit :: bool
  sc_needs_zeroing :: bool
  is_encoder_decoder :: bool
  is_mm_encoder_only :: bool
  encoder_budget :: int
  max_loras :: "int option"
  defer_block_free :: bool
  requires_kv_delivery :: bool
  recompute_kv_load_failures :: bool
  is_kv_producer :: bool
  use_v2_model_runner :: bool
  use_pp :: bool
  async_scheduling :: bool
  pp_size :: int

record 'w scheduler =
  objects :: "(string, Request) dict"
  requests :: "string list"
  waiting :: "string list"
  skipped_waiting :: "string list"
  running :: "string list"
  finished_req_ids :: "string list"
  finished_req_ids_dict :: "(int, string list) dict option"
  prev_step_scheduled_req_ids :: "string list"
  reset_preempted_req_ids :: "string list"
  num_waiting_for_streaming_input :: int
  finished_recving_kv_req_ids :: "string list"
  failed_recving_kv_req_ids :: "string list"
  grammar_compile_error_reqs :: "string list"
  encoder_cache_manager :: encoder_manager
  kv_manager :: kv_cache_manager
  current_step :: int
  prefill_capacity_bound :: bool
  skip_zero_block_ids :: "int list"
  sched_step_seq :: int
  processed_step_seq :: int
  deferred_frees :: "(int \<times> block_ref list) list"
  pause_state :: PauseState
  inflight_prefills :: "string list"
  ext :: 'w

text \<open>The object of a reference; \<^verbatim>\<open>self.requests.get(rid)\<close>; \<^verbatim>\<open>self.requests[rid]\<close>.\<close>

definition get_req :: "string \<Rightarrow> 'w scheduler \<Rightarrow> Request result" where
  "get_req rid s = (case dict_get (objects s) rid of None \<Rightarrow> Inl KeyError | Some r \<Rightarrow> Inr r)"

definition find_request :: "string \<Rightarrow> 'w scheduler \<Rightarrow> Request option" where
  "find_request rid s = (if rid \<in> set (requests s) then dict_get (objects s) rid else None)"

definition request_at :: "string \<Rightarrow> 'w scheduler \<Rightarrow> Request result" where
  "request_at rid s = (case find_request rid s of None \<Rightarrow> Inl KeyError | Some r \<Rightarrow> Inr r)"

definition deref :: "'w scheduler \<Rightarrow> string list \<Rightarrow> Request list" where
  "deref s ids = List.map_filter (dict_get (objects s)) ids"

definition put_req :: "Request \<Rightarrow> 'w scheduler \<Rightarrow> 'w scheduler" where
  "put_req r s = s\<lparr>objects := dict_set (request_id r) r (objects s)\<rparr>"

text \<open>A call on the KV cache manager that may change the request.\<close>

definition with_km :: "(Request \<Rightarrow> kv_cache_manager \<Rightarrow> (Request \<times> kv_cache_manager) result) \<Rightarrow> Request \<Rightarrow> 'w scheduler \<Rightarrow> (Request \<times> 'w scheduler) result" where
  "with_km f r s = and_then (f r (kv_manager s)) (\<lambda>(r, km). Inr (r, put_req r (s\<lparr>kv_manager := km\<rparr>)))"

section \<open>Construction\<close>

text \<open>The parts of \<^verbatim>\<open>vllm_config\<close> and the other arguments that \<^verbatim>\<open>Scheduler.__init__\<close> reads.\<close>

record kv_transfer_args =
  kt_is_kv_consumer :: bool
  kt_is_kv_producer :: bool
  kt_load_failure_policy :: string
  kt_requires_kv_delivery :: bool

record sched_args =
  ar_async_class :: bool
  ar_policy :: string
  ar_max_num_seqs :: int
  ar_max_num_scheduled_tokens :: "int option"
  ar_max_num_batched_tokens :: int
  ar_max_model_len :: int
  ar_max_in_flight_tokens :: int
  ar_max_concurrent_batches :: int
  ar_is_diffusion :: bool
  ar_is_encoder_decoder :: bool
  ar_is_mm_encoder_only :: bool
  ar_long_prefill_token_threshold :: int
  ar_enable_chunked_prefill :: bool
  ar_disable_chunked_mm_input :: bool
  ar_scheduler_reserve_full_isl :: bool
  ar_watermark :: rat
  ar_max_loras :: "int option"
  ar_kv_transfer :: "kv_transfer_args option"
  ar_num_gpu_blocks :: "int option"
  ar_enable_prefix_caching :: bool
  ar_enable_kv_cache_events :: bool
  ar_dcp_world_size :: int
  ar_pipeline_parallel_size :: int
  ar_use_v2_model_runner :: bool
  ar_async_scheduling :: bool
  ar_speculative :: "SpeculativeConfig option"
  ar_num_speculative_tokens :: int
  ar_num_lookahead_tokens :: int
  ar_draft_slots :: int
  ar_dynamic_sd_lookup :: "int list option"
  ar_cache_block_size :: int
  ar_mamba_cache_mode :: string
  ar_block_size :: int
  ar_hash_block_size :: "int option"
  ar_mm_budget :: "(int \<times> int \<times> nat) option" \<comment> \<open>compute budget, cache size, number of modalities\<close>
  ar_include_finished_set :: bool
  ar_log_stats :: bool
  ar_metrics :: "KVCacheMetricsCollector option"

fun SchedulingPolicy_of :: "string \<Rightarrow> SchedulingPolicy result" where
  "SchedulingPolicy_of name = (if name = ''fcfs'' then Inr FCFS else if name = ''priority'' then Inr PRIORITY else Inl ValueError)"

fun has_checkpoint_blocks :: "KVCacheSpec \<Rightarrow> bool" where
  "has_checkpoint_blocks (MambaSpec m) \<longleftrightarrow> num_prefill_checkpoint_blocks m > 0"
| "has_checkpoint_blocks _ \<longleftrightarrow> True"

definition eagle_of :: "sched_args \<Rightarrow> bool" where
  "eagle_of a = (case ar_speculative a of None \<Rightarrow> False | Some sp \<Rightarrow> spec_use_eagle sp)"

definition prefill_lookahead_of :: "sched_args \<Rightarrow> int" where
  "prefill_lookahead_of a =
     (case ar_speculative a of
        None \<Rightarrow> 0
      | Some sp \<Rightarrow> if \<not> spec_use_eagle sp then 0 else if spec_multi_module_mtp sp then ar_num_speculative_tokens a else 1)"

definition sched_config_of :: "sched_args \<Rightarrow> KVCacheConfig \<Rightarrow> SchedulingPolicy \<Rightarrow> kv_cache_manager \<Rightarrow> sched_config" where
  "sched_config_of a cfg pol km =
     (let hash_bs = (case ar_hash_block_size a of None \<Rightarrow> ar_block_size a | Some h \<Rightarrow> h);
          split = (has_mamba_layers cfg \<and> ar_mamba_cache_mode a = ''align'')
      in
      \<lparr>is_async = ar_async_class a, policy = pol, max_num_running_reqs = ar_max_num_seqs a,
       max_num_scheduled_tokens = (case ar_max_num_scheduled_tokens a of None \<Rightarrow> ar_max_num_batched_tokens a | Some n \<Rightarrow> n),
       max_num_batched_tokens = ar_max_num_batched_tokens a, sc_model_len = ar_max_model_len a,
       long_prefill_token_threshold = ar_long_prefill_token_threshold a, enable_chunked_prefill = ar_enable_chunked_prefill a,
       no_chunked_mm_input = ar_disable_chunked_mm_input a, scheduler_reserve_full_isl = ar_scheduler_reserve_full_isl a,
       num_sampled_tokens_per_step = (if ar_is_diffusion a then 0 else 1), num_spec_tokens = ar_num_speculative_tokens a,
       num_lookahead_tokens = ar_num_lookahead_tokens a, num_prefill_lookahead = prefill_lookahead_of a,
       draft_slots = (if ar_speculative a = None then 0 else ar_draft_slots a),
       dynamic_sd_lookup = (if ar_speculative a = None then None else ar_dynamic_sd_lookup a), sc_use_eagle = eagle_of a,
       cache_block_size = ar_cache_block_size a, sc_block_size = ar_block_size a, sc_hash_block_size = hash_bs,
       need_mamba_block_aligned_split = split,
       mamba_has_prefill_checkpoint_blocks = (has_mamba_layers cfg \<and> \<not> eagle_of a \<and>
         list_all (\<lambda>g. has_checkpoint_blocks (group_spec g)) (kv_cache_groups cfg)),
       mamba_partial_cache_hit = (split \<and> hash_bs < ar_block_size a \<and> enable_partial_hash_hits (km_coordinator km)),
       sc_needs_zeroing = needs_kv_cache_zeroing cfg, is_encoder_decoder = ar_is_encoder_decoder a,
       is_mm_encoder_only = ar_is_mm_encoder_only a,
       encoder_budget = (case ar_mm_budget a of None \<Rightarrow> 0 | Some (n, _, _) \<Rightarrow> n), max_loras = ar_max_loras a,
       defer_block_free = (case ar_kv_transfer a of None \<Rightarrow> False | Some k \<Rightarrow> ar_max_concurrent_batches a > 1 \<and> kt_is_kv_consumer k),
       requires_kv_delivery = (case ar_kv_transfer a of None \<Rightarrow> False | Some k \<Rightarrow> kt_requires_kv_delivery k),
       recompute_kv_load_failures = (case ar_kv_transfer a of None \<Rightarrow> True | Some k \<Rightarrow> kt_load_failure_policy k = ''recompute''),
       is_kv_producer = (case ar_kv_transfer a of None \<Rightarrow> False | Some k \<Rightarrow> kt_is_kv_producer k),
       use_v2_model_runner = ar_use_v2_model_runner a, use_pp = (ar_pipeline_parallel_size a > 1),
       async_scheduling = ar_async_scheduling a, pp_size = ar_pipeline_parallel_size a\<rparr>)"

definition Scheduler_init :: "registry \<Rightarrow> sched_args \<Rightarrow> KVCacheConfig \<Rightarrow> 'w \<Rightarrow> (sched_config \<times> 'w scheduler) result" where
  "Scheduler_init reg a cfg w =
     and_then (py_assert (ar_kv_transfer a = None \<or> \<not> ar_is_encoder_decoder a)) (\<lambda>_.
     and_then (py_assert (case ar_num_gpu_blocks a of None \<Rightarrow> False | Some n \<Rightarrow> n > 0)) (\<lambda>_.
     and_then (SchedulingPolicy_of (ar_policy a)) (\<lambda>pol.
     and_then (py_assert (\<not> ar_is_encoder_decoder a \<or> (case ar_mm_budget a of None \<Rightarrow> False | Some (_, _, k) \<Rightarrow> k \<le> 1))) (\<lambda>_.
     let cache = (case ar_mm_budget a of None \<Rightarrow> 0 | Some (_, n, _) \<Rightarrow> n);
         hash_bs = (case ar_hash_block_size a of None \<Rightarrow> ar_block_size a | Some h \<Rightarrow> h)
     in
     and_then (KVCacheManager_init reg cfg (ar_max_model_len a) (ar_block_size a) hash_bs (Some (ar_max_in_flight_tokens a))
        (ar_enable_prefix_caching a) (eagle_of a) (prefill_lookahead_of a) (ar_log_stats a) (ar_enable_kv_cache_events a)
        (ar_dcp_world_size a) 1 (ar_metrics a) (ar_watermark a)) (\<lambda>km.
     Inr (sched_config_of a cfg pol km,
       \<lparr>objects = [], requests = [], waiting = [], skipped_waiting = [], running = [], finished_req_ids = [],
        finished_req_ids_dict = (if ar_include_finished_set a then Some [] else None), prev_step_scheduled_req_ids = [],
        reset_preempted_req_ids = [], num_waiting_for_streaming_input = 0, finished_recving_kv_req_ids = [],
        failed_recving_kv_req_ids = [], grammar_compile_error_reqs = [],
        encoder_cache_manager = (if ar_is_encoder_decoder a then EncDec (EncoderDecoderCacheManager_init cache)
          else EncCache (EncoderCacheManager_init cache)),
        kv_manager = km, current_step = 0, prefill_capacity_bound = False, skip_zero_block_ids = [], sched_step_seq = 0,
        processed_step_seq = 0, deferred_frees = [], pause_state = UNPAUSED, inflight_prefills = [], ext = w\<rparr>))))))"

section \<open>Queues of references\<close>

definition queue_of :: "SchedulingPolicy \<Rightarrow> 'w scheduler \<Rightarrow> string list \<Rightarrow> RequestQueue" where
  "queue_of p s ids =
     (case p of FCFS \<Rightarrow> FCFSRequestQueue (deref s ids) | PRIORITY \<Rightarrow> PriorityRequestQueue (deref s ids))"

fun queue_refs :: "RequestQueue \<Rightarrow> string list" where
  "queue_refs (FCFSRequestQueue q) = map request_id q"
| "queue_refs (PriorityRequestQueue h) = map request_id h"

definition q_add :: "SchedulingPolicy \<Rightarrow> 'w scheduler \<Rightarrow> string list \<Rightarrow> Request \<Rightarrow> string list" where
  "q_add p s q r = queue_refs (add_request (queue_of p s q) r)"

definition q_prepend :: "SchedulingPolicy \<Rightarrow> 'w scheduler \<Rightarrow> string list \<Rightarrow> Request \<Rightarrow> string list" where
  "q_prepend p s q r = queue_refs (prepend_request (queue_of p s q) r)"

definition q_pop :: "SchedulingPolicy \<Rightarrow> 'w scheduler \<Rightarrow> string list \<Rightarrow> (Request \<times> string list) result" where
  "q_pop p s q = and_then (pop_request (queue_of p s q)) (\<lambda>(r, q). Inr (r, queue_refs q))"

definition q_peek :: "SchedulingPolicy \<Rightarrow> 'w scheduler \<Rightarrow> string list \<Rightarrow> Request result" where
  "q_peek p s q = peek_request (queue_of p s q)"

definition q_prepend_all :: "SchedulingPolicy \<Rightarrow> 'w scheduler \<Rightarrow> string list \<Rightarrow> string list \<Rightarrow> string list" where
  "q_prepend_all p s q q' = queue_refs (prepend_requests (queue_of p s q) (queue_of p s q'))"

definition q_remove :: "SchedulingPolicy \<Rightarrow> 'w scheduler \<Rightarrow> string list \<Rightarrow> string list \<Rightarrow> string list" where
  "q_remove p s q ids = queue_refs (remove_requests (queue_of p s q) (deref s ids))"

definition is_blocked_waiting_status :: "RequestStatus \<Rightarrow> bool" where
  "is_blocked_waiting_status st \<longleftrightarrow>
     st \<in> {WAITING_FOR_STRUCTURED_OUTPUT_GRAMMAR, WAITING_FOR_REMOTE_KVS, WAITING_FOR_STREAMING_REQ}"

definition enqueue_waiting_request :: "sched_config \<Rightarrow> Request \<Rightarrow> 'w scheduler \<Rightarrow> 'w scheduler" where
  "enqueue_waiting_request c r s =
     (if is_blocked_waiting_status (status r) then s\<lparr>skipped_waiting := q_add (policy c) s (skipped_waiting s) r\<rparr>
      else s\<lparr>waiting := q_add (policy c) s (waiting s) r\<rparr>)"

text \<open>The queue that \<^verbatim>\<open>_select_waiting_queue_for_scheduling\<close> returns: \<open>True\<close> is the skipped one.\<close>

definition select_waiting_queue_for_scheduling :: "sched_config \<Rightarrow> 'w scheduler \<Rightarrow> bool option result" where
  "select_waiting_queue_for_scheduling c s =
     (case policy c of
        FCFS \<Rightarrow> Inr (if skipped_waiting s \<noteq> [] then Some True else if waiting s \<noteq> [] then Some False else None)
      | PRIORITY \<Rightarrow>
          if waiting s \<noteq> [] \<and> skipped_waiting s \<noteq> [] then
            and_then (q_peek PRIORITY s (waiting s)) (\<lambda>w.
            and_then (q_peek PRIORITY s (skipped_waiting s)) (\<lambda>k.
            Inr (Some (\<not> request_lt w k))))
          else Inr (if waiting s \<noteq> [] then Some False else if skipped_waiting s \<noteq> [] then Some True else None))"

definition waiting_queue :: "bool \<Rightarrow> 'w scheduler \<Rightarrow> string list" where
  "waiting_queue skipped s = (if skipped then skipped_waiting s else waiting s)"

definition set_waiting_queue :: "bool \<Rightarrow> string list \<Rightarrow> 'w scheduler \<Rightarrow> 'w scheduler" where
  "set_waiting_queue skipped q s = (if skipped then s\<lparr>skipped_waiting := q\<rparr> else s\<lparr>waiting := q\<rparr>)"

end
