(* ===== verification/Sched_Chunk.thy ===== *)
theory Sched_Chunk
  imports Sched_State
begin

text \<open>
  How many tokens of a request a step computes (\<^verbatim>\<open>vllm/v1/core/sched/scheduler.py\<close>): the block-aligned split of Mamba models, the
  look-ahead of multi-module drafters, and the encoder inputs that must be there before their placeholder tokens are computed.
\<close>

section \<open>Block-aligned chunks of Mamba models\<close>

text \<open>The end of a chunk that does not reach the end of the prefill: on a block boundary, unless a block is wider than a chunk may be.\<close>

definition mamba_chunk_limit :: "sched_config \<Rightarrow> int \<Rightarrow> int \<Rightarrow> bool \<Rightarrow> int \<Rightarrow> int" where
  "mamba_chunk_limit c start prefill_end use_internal_checkpoint chunk_end =
     (if chunk_end < prefill_end \<and> \<not> use_internal_checkpoint then
        let max_prefill_tokens = (if long_prefill_token_threshold c > 0
              then min (max_num_scheduled_tokens c) (long_prefill_token_threshold c) else max_num_scheduled_tokens c);
            aligned_end = chunk_end div cache_block_size c * cache_block_size c
        in if aligned_end > start \<or> cache_block_size c \<le> max_prefill_tokens then aligned_end else chunk_end
      else chunk_end)"

definition mamba_stops :: "sched_config \<Rightarrow> Request \<Rightarrow> int \<Rightarrow> int \<Rightarrow> int \<Rightarrow> int \<Rightarrow> int list" where
  "mamba_stops c r start last_cache_position tail_boundary chunk_end =
     (let block_size = cache_block_size c; next_block_boundary = (start div block_size + 1) * block_size in
      [if start mod block_size \<noteq> 0 then next_block_boundary else 0,
       last_cache_position,
       if last_cache_position < tail_boundary \<and> tail_boundary < num_prompt_tokens r then tail_boundary else 0,
       if start < shared_prefix_boundary r \<and> shared_prefix_boundary r < chunk_end
       then start + (shared_prefix_boundary r - start) div block_size * block_size else 0])"

text \<open>The earliest of the positions strictly inside the chunk.\<close>

definition first_stop :: "int \<Rightarrow> int \<Rightarrow> int list \<Rightarrow> int" where
  "first_stop start chunk_end stops =
     (let inside = filter (\<lambda>p. start < p \<and> p < chunk_end) stops in if inside = [] then chunk_end else Min (set inside))"

definition mamba_block_aligned_split :: "sched_config \<Rightarrow> Request \<Rightarrow> int \<Rightarrow> int \<Rightarrow> int \<Rightarrow> int result" where
  "mamba_block_aligned_split c r num_new_tokens num_new_local_computed_tokens num_external_computed_tokens =
     (let start = num_computed_tokens r + num_new_local_computed_tokens + num_external_computed_tokens;
          prefill_end = max (num_prompt_tokens r) (num_tokens r - 1);
          block_size = cache_block_size c
      in
      if start \<ge> prefill_end then Inr num_new_tokens
      else
        and_then (py_mod (num_tokens r) block_size) (\<lambda>rest.
        let last_cache_position = num_tokens r - rest;
            last_cache_position = (if sc_use_eagle c then max (last_cache_position - block_size) 0 else last_cache_position);
            use_internal_checkpoint = (mamba_has_prefill_checkpoint_blocks c \<and> start mod block_size = 0);
            last_cache_position = (if use_internal_checkpoint then 0 else last_cache_position);
            chunk_end = mamba_chunk_limit c start prefill_end use_internal_checkpoint (start + num_new_tokens)
        in
        and_then (if mamba_partial_cache_hit c
                  then and_then (py_div (num_prompt_tokens r) (sc_hash_block_size c)) (\<lambda>q. Inr (q * sc_hash_block_size c))
                  else Inr 0) (\<lambda>tail_boundary.
        let chunk_end = first_stop start chunk_end (mamba_stops c r start last_cache_position tail_boundary chunk_end)
        in Inr (max (chunk_end - start) 0))))"

section \<open>Look-ahead of the drafter\<close>

definition reserve_prefill_lookahead :: "sched_config \<Rightarrow> Request \<Rightarrow> int \<Rightarrow> int \<Rightarrow> int" where
  "reserve_prefill_lookahead c r computed_tokens num_new_tokens =
     (let remaining = num_tokens r - computed_tokens - num_new_tokens;
          num_new_tokens = (if 0 < remaining \<and> remaining < num_prefill_lookahead c
            then num_new_tokens - (num_prefill_lookahead c - remaining) else num_new_tokens)
      in max num_new_tokens 0)"

section \<open>Encoder inputs\<close>

text \<open>\<^verbatim>\<open>bisect.bisect_left\<close> on the list of keys.\<close>

function bisect_loop :: "int list \<Rightarrow> int \<Rightarrow> nat \<Rightarrow> nat \<Rightarrow> nat" where
  "bisect_loop keys x lo hi =
     (if lo < hi then
        let mid = (lo + hi) div 2 in
        if keys ! mid < x then bisect_loop keys x (mid + 1) hi else bisect_loop keys x lo mid
      else lo)"
  by pat_completeness auto
termination
  by (relation "measure (\<lambda>(_, _, lo, hi). hi - lo)") auto

declare bisect_loop.simps [simp del]

definition bisect_left :: "int list \<Rightarrow> int \<Rightarrow> nat" where
  "bisect_left keys x = bisect_loop keys x 0 (length keys)"

abbreviation mm_offset :: "MultiModalFeatureSpec \<Rightarrow> int" where
  "mm_offset f \<equiv> pr_offset (mm_position f)"

abbreviation mm_end :: "MultiModalFeatureSpec \<Rightarrow> int" where
  "mm_end f \<equiv> pr_offset (mm_position f) + pr_length (mm_position f)"

definition get_mm_features_in_window :: "MultiModalFeatureSpec list \<Rightarrow> int \<Rightarrow> int \<Rightarrow> nat \<times> nat" where
  "get_mm_features_in_window features win_start win_end =
     (bisect_left (map mm_end features) (win_start + 1), bisect_left (map mm_offset features) win_end)"

text \<open>The variables of the loop over the encoder inputs.\<close>

record encoder_scan =
  es_inputs :: "int list"
  es_new_tokens :: int
  es_budget :: int
  es_external :: "int list"
  es_hashes :: "string list"
  es_embeds :: int
  es_manager :: encoder_manager

text \<open>The end of an iteration, once the input is known to be neither cached nor scheduled.\<close>

definition schedule_encoder_input ::
    "'w externals \<Rightarrow> sched_config \<Rightarrow> 'w \<Rightarrow> Request \<Rightarrow> int \<Rightarrow> int \<Rightarrow> nat \<Rightarrow> MultiModalFeatureSpec \<Rightarrow> encoder_scan \<Rightarrow> encoder_scan loop_step result" where
  "schedule_encoder_input x c w r computed_tokens shift i f st =
     (let window_end = computed_tokens + es_new_tokens st + shift in
      if no_chunked_mm_input c \<and> computed_tokens < mm_offset f \<and> computed_tokens + es_new_tokens st < mm_end f
      then Inr (Done (st\<lparr>es_new_tokens := max 0 (mm_offset f - (computed_tokens + shift))\<rparr>))
      else
        and_then (em_can_allocate r (int i) (es_budget st) (es_embeds st) (es_manager st)) (\<lambda>(fits, m).
        let st = st\<lparr>es_manager := m\<rparr> in
        if \<not> fits then
          Inr (Done (st\<lparr>es_new_tokens := (if computed_tokens + shift < mm_offset f then mm_offset f - (computed_tokens + shift) else 0)\<rparr>))
        else
          and_then (get_embeds_indices_in_range (mm_position f) (max 0 (computed_tokens - mm_offset f))
             (min (pr_length (mm_position f)) (window_end - mm_offset f))) (\<lambda>(embeds_start, embeds_end).
          if embeds_end - embeds_start = 0 then Inr (Again st)
          else
            let n = get_num_embeds (mm_position f) in
            if has_ec_connector x \<and> has_cache_item x (mm_identifier f) w
            then Inr (Again (st\<lparr>es_hashes := set_add (mm_identifier f) (es_hashes st), es_external := es_external st @ [int i],
                                es_embeds := es_embeds st + n\<rparr>))
            else Inr (Again (st\<lparr>es_embeds := es_embeds st + n, es_budget := es_budget st - n,
                                es_hashes := set_add (mm_identifier f) (es_hashes st), es_inputs := es_inputs st @ [int i]\<rparr>)))))"

definition encoder_input_step ::
    "'w externals \<Rightarrow> sched_config \<Rightarrow> 'w \<Rightarrow> Request \<Rightarrow> int \<Rightarrow> int \<Rightarrow> nat \<Rightarrow> encoder_scan \<Rightarrow> encoder_scan loop_step result" where
  "encoder_input_step x c w r computed_tokens shift i st =
     and_then (py_index (mm_features r) (int i)) (\<lambda>f.
     if is_encoder_decoder c \<and> computed_tokens > 0
     then and_then (py_assert (mm_offset f = 0)) (\<lambda>_. Inr (Again st))
     else if \<not> is_encoder_decoder c \<and> mm_identifier f \<in> set (es_hashes st) then Inr (Again st)
     else
       and_then (if \<not> is_encoder_decoder c then em_check_and_update_cache r (int i) (es_manager st) else Inr (False, es_manager st)) (\<lambda>(hit, m).
       let st = st\<lparr>es_manager := m\<rparr> in
       if hit then Inr (Again st) else schedule_encoder_input x c w r computed_tokens shift i f st))"

definition try_schedule_encoder_inputs ::
    "'w externals \<Rightarrow> sched_config \<Rightarrow> 'w \<Rightarrow> Request \<Rightarrow> int \<Rightarrow> int \<Rightarrow> int \<Rightarrow> int \<Rightarrow> encoder_manager
     \<Rightarrow> (int list \<times> int \<times> int \<times> int list \<times> encoder_manager) result" where
  "try_schedule_encoder_inputs x c w r computed_tokens num_new_tokens encoder_compute_budget shift m =
     (if num_new_tokens = 0 \<or> \<not> has_encoder_inputs r then Inr ([], num_new_tokens, encoder_compute_budget, [], m)
      else
        let (lo, hi) = get_mm_features_in_window (mm_features r) computed_tokens (computed_tokens + num_new_tokens + shift);
            lo = (if is_encoder_decoder c then 0 else lo)
        in
        and_then (for_until (encoder_input_step x c w r computed_tokens shift) [lo..<hi]
           \<lparr>es_inputs = [], es_new_tokens = num_new_tokens, es_budget = encoder_compute_budget, es_external = [], es_hashes = [],
            es_embeds = 0, es_manager = m\<rparr>) (\<lambda>st.
        Inr (es_inputs st, es_new_tokens st, es_budget st, es_external st, es_manager st)))"

end
