(* ===== verification/Sched_Loop.thy ===== *)
theory Sched_Loop
  imports Sched_Chunk
begin

text \<open>
  A scheduling step, \<^verbatim>\<open>Scheduler.schedule\<close> (\<^verbatim>\<open>vllm/v1/core/sched/scheduler.py\<close>): the running requests first, preempting others when
  blocks run out, then the waiting requests, then the message to the workers.  The local variables of the method are the record \<open>sched_step\<close>.
\<close>

section \<open>Freeing and preempting\<close>

definition free_request_blocks :: "sched_config \<Rightarrow> Request \<Rightarrow> 'w scheduler \<Rightarrow> 'w scheduler result" where
  "free_request_blocks c r s =
     (if \<not> defer_block_free c \<or> last_sched_seq r \<le> processed_step_seq s
      then and_then (km_free r (kv_manager s)) (\<lambda>km. Inr (s\<lparr>kv_manager := km\<rparr>))
      else
        let (blocks, km) = km_pop_blocks_for_free r (kv_manager s) in
        Inr (s\<lparr>kv_manager := km,
               deferred_frees := (if blocks \<noteq> [] then deferred_frees s @ [(sched_step_seq s, blocks)] else deferred_frees s)\<rparr>))"

definition free_cow_retained_blocks :: "sched_config \<Rightarrow> block_ref list \<Rightarrow> int \<Rightarrow> 'w scheduler \<Rightarrow> 'w scheduler result" where
  "free_cow_retained_blocks c blocks fence_seq s =
     (if \<not> defer_block_free c \<or> fence_seq \<le> processed_step_seq s
      then and_then (free_blocks blocks (km_pool (kv_manager s))) (\<lambda>p. Inr (s\<lparr>kv_manager := set_km_pool p (kv_manager s)\<rparr>))
      else Inr (s\<lparr>deferred_frees := deferred_frees s @ [(fence_seq, rev blocks)]\<rparr>))"

fun drain_loop :: "int \<Rightarrow> (int \<times> block_ref list) list \<Rightarrow> block_pool \<Rightarrow> ((int \<times> block_ref list) list \<times> block_pool) result" where
  "drain_loop processed [] p = Inr ([], p)"
| "drain_loop processed ((fence, blocks) # rest) p =
     (if fence > processed then Inr ((fence, blocks) # rest, p)
      else and_then (free_blocks (rev blocks) p) (drain_loop processed rest))"

definition drain_deferred_frees :: "'w scheduler \<Rightarrow> 'w scheduler result" where
  "drain_deferred_frees s =
     and_then (drain_loop (processed_step_seq s) (deferred_frees s) (km_pool (kv_manager s))) (\<lambda>(rest, p).
     Inr (s\<lparr>deferred_frees := rest, kv_manager := set_km_pool p (kv_manager s)\<rparr>))"

definition preempt_request :: "sched_config \<Rightarrow> string \<Rightarrow> bool \<Rightarrow> 'w scheduler \<Rightarrow> 'w scheduler result" where
  "preempt_request c rid drop_stale s =
     and_then (get_req rid s) (\<lambda>r.
     and_then (py_assert (status r = RUNNING)) (\<lambda>_.
     and_then (free_request_blocks c r s) (\<lambda>s.
     and_then (em_free r (encoder_cache_manager s)) (\<lambda>m.
     let r = r\<lparr>status := PREEMPTED, num_computed_tokens := 0, spec_token_ids := [],
               drop_stale_output := (drop_stale \<or> drop_stale_output r \<and> num_stale_output_tokens r > 0),
               num_stale_output_tokens := num_in_flight_tokens r, num_output_placeholders := 0,
               num_preemptions := num_preemptions r + 1\<rparr>;
         s = put_req r (s\<lparr>encoder_cache_manager := m, inflight_prefills := set_discard rid (inflight_prefills s)\<rparr>)
     in
     Inr (s\<lparr>waiting := q_prepend (policy c) s (waiting s) r,
            reset_preempted_req_ids := set_add rid (reset_preempted_req_ids s)\<rparr>)))))"

section \<open>Running requests\<close>

record 'w sched_step =
  sched :: "'w scheduler"
  req_index :: nat
  new_reqs :: "string list"
  resumed_reqs :: "string list"
  running_reqs :: "string list"
  preempted_reqs :: "string list"
  new_blocks_of :: "(string, KVCacheBlocks) dict"
  scheduled_tokens :: "(string, int) dict"
  token_budget :: int
  input_budget :: int
  encoder_inputs_of :: "(string, int list) dict"
  encoder_compute_budget :: int
  spec_tokens_of :: "(string, int list) dict"
  prefill_scheduled :: bool
  scheduled_loras :: "int list"
  step_skipped :: "string list"

text \<open>\<^verbatim>\<open>max(self.running, key=lambda r: (r.priority, r.arrival_time))\<close>, the first of the largest.\<close>

definition key_less :: "Request \<Rightarrow> Request \<Rightarrow> bool" where
  "key_less a b \<longleftrightarrow> priority a < priority b \<or> priority a = priority b \<and> arrival_time a < arrival_time b"

definition lowest_priority :: "Request list \<Rightarrow> Request result" where
  "lowest_priority rs =
     (case rs of [] \<Rightarrow> Inl ValueError | r # rs \<Rightarrow> Inr (fold (\<lambda>q best. if key_less best q then q else best) rs r))"

definition ref_index :: "string \<Rightarrow> string list \<Rightarrow> nat" where
  "ref_index rid ids = length (takeWhile (\<lambda>i. i \<noteq> rid) ids)"

text \<open>Taking back what the step had given to a preempted request.\<close>

definition undo_scheduled :: "sched_config \<Rightarrow> Request \<Rightarrow> 'w sched_step \<Rightarrow> 'w sched_step result" where
  "undo_scheduled c r st =
     (let rid = request_id r in
      if rid \<notin> set (running_reqs st) then Inr st
      else
        case dict_get (scheduled_tokens st) rid of
          None \<Rightarrow> Inl KeyError
        | Some restored \<Rightarrow>
            if dict_get (new_blocks_of st) rid = None then Inl KeyError
            else
              and_then (case dict_get (encoder_inputs_of st) rid of
                  None \<Rightarrow> Inr 0
                | Some ids \<Rightarrow> sum_results (map (get_num_encoder_embeds r) ids)) (\<lambda>embeds.
              Inr (st\<lparr>running_reqs := remove1 rid (running_reqs st),
                      scheduled_tokens := dict_del rid (scheduled_tokens st),
                      token_budget := token_budget st + restored,
                      input_budget := input_budget st + restored + draft_slots c,
                      new_blocks_of := dict_del rid (new_blocks_of st),
                      spec_tokens_of := dict_del rid (spec_tokens_of st),
                      encoder_inputs_of := dict_del rid (encoder_inputs_of st),
                      encoder_compute_budget := encoder_compute_budget st + embeds\<rparr>)))"

definition pop_victim :: "sched_config \<Rightarrow> 'w sched_step \<Rightarrow> (string \<times> 'w sched_step) result" where
  "pop_victim c st =
     (let s = sched st in
      case policy c of
        PRIORITY \<Rightarrow>
          and_then (lowest_priority (deref s (running s))) (\<lambda>r.
          let i = ref_index (request_id r) (running s);
              st = st\<lparr>sched := s\<lparr>running := take i (running s) @ drop (Suc i) (running s)\<rparr>,
                      req_index := (if i < req_index st then req_index st - 1 else req_index st)\<rparr>
          in and_then (undo_scheduled c r st) (\<lambda>st. Inr (request_id r, st)))
      | FCFS \<Rightarrow>
          if running s = [] then Inl IndexError
          else Inr (last (running s), st\<lparr>sched := s\<lparr>running := butlast (running s)\<rparr>\<rparr>))"

text \<open>An iteration of the loop that allocates slots or preempts; the state also holds the blocks found.\<close>

definition allocate_or_preempt ::
    "'w externals \<Rightarrow> sched_config \<Rightarrow> string \<Rightarrow> int \<Rightarrow> KVCacheBlocks option \<times> 'w sched_step
     \<Rightarrow> (KVCacheBlocks option \<times> 'w sched_step) loop_step result" where
  "allocate_or_preempt x c rid num_new_tokens = (\<lambda>(_, st).
     let s = sched st in
     and_then (get_req rid s) (\<lambda>r.
     and_then (allocate_slots (embed_digest x) (int_event_hashes x) r num_new_tokens 0 None (num_lookahead_tokens c) 0 False 0 False 0 True
        (kv_manager s)) (\<lambda>(new_blocks, r, km).
     let st = st\<lparr>sched := put_req r (s\<lparr>kv_manager := km\<rparr>)\<rparr> in
     if new_blocks \<noteq> None then Inr (Done (new_blocks, st))
     else
       and_then (pop_victim c st) (\<lambda>(victim, st).
       and_then (preempt_request c victim (requires_kv_delivery c) (sched st)) (\<lambda>s.
       let st = st\<lparr>sched := s, preempted_reqs := preempted_reqs st @ [victim]\<rparr> in
       Inr (if victim = rid then Done (None, st) else Again (None, st)))))))"

text \<open>The tokens that a running request gets, before and after the encoder inputs.\<close>

definition running_chunk ::
    "'w externals \<Rightarrow> sched_config \<Rightarrow> Request \<Rightarrow> 'w sched_step \<Rightarrow> (int list \<times> int \<times> int \<times> int list \<times> encoder_manager) result" where
  "running_chunk x c r st =
     (let s = sched st;
          n = num_tokens_with_spec r + num_output_placeholders r - num_computed_tokens r;
          n = (if 0 < long_prefill_token_threshold c \<and> long_prefill_token_threshold c < n then long_prefill_token_threshold c else n);
          n = min n (min (token_budget st) (input_budget st - draft_slots c));
          n = min n (sc_model_len c - num_computed_tokens r - num_sampled_tokens_per_step c)
      in
      and_then (if need_mamba_block_aligned_split c then mamba_block_aligned_split c r n 0 0 else Inr n) (\<lambda>n.
      and_then (if has_encoder_inputs r
                then try_schedule_encoder_inputs x c (ext s) r (num_computed_tokens r) n (encoder_compute_budget st)
                       (num_prefill_lookahead c) (encoder_cache_manager s)
                else Inr ([], n, encoder_compute_budget st, [], encoder_cache_manager s)) (\<lambda>(inputs, n, budget, external, m).
      Inr (inputs, reserve_prefill_lookahead c r (num_computed_tokens r) n, budget, external, m))))"

definition allocate_encoder_inputs :: "'w externals \<Rightarrow> Request \<Rightarrow> int list \<Rightarrow> 'w scheduler \<Rightarrow> 'w scheduler result" where
  "allocate_encoder_inputs x r =
     for_each (\<lambda>i s.
       and_then (em_allocate r i (encoder_cache_manager s)) (\<lambda>m.
       Inr (s\<lparr>encoder_cache_manager := m,
              ext := (if has_ec_connector x then ec_update_state_after_alloc x r i (ext s) else ext s)\<rparr>)))"

definition record_encoder_inputs ::
    "'w externals \<Rightarrow> Request \<Rightarrow> int list \<Rightarrow> int \<Rightarrow> int list \<Rightarrow> 'w sched_step \<Rightarrow> 'w sched_step result" where
  "record_encoder_inputs x r inputs new_budget external st =
     and_then (if inputs \<noteq> []
               then and_then (allocate_encoder_inputs x r inputs (sched st)) (\<lambda>s.
                    Inr (st\<lparr>sched := s, encoder_inputs_of := dict_set (request_id r) inputs (encoder_inputs_of st),
                            encoder_compute_budget := new_budget\<rparr>))
               else Inr st) (\<lambda>st.
     and_then (allocate_encoder_inputs x r external (sched st)) (\<lambda>s. Inr (st\<lparr>sched := s\<rparr>)))"

definition commit_running ::
    "'w externals \<Rightarrow> sched_config \<Rightarrow> string \<Rightarrow> int \<Rightarrow> KVCacheBlocks \<Rightarrow> int list \<Rightarrow> int \<Rightarrow> int list \<Rightarrow> 'w sched_step \<Rightarrow> 'w sched_step result" where
  "commit_running x c rid n new_blocks inputs new_budget external st =
     and_then (get_req rid (sched st)) (\<lambda>r.
     let spec = n + num_computed_tokens r - num_tokens r - num_output_placeholders r;
         st = st\<lparr>running_reqs := running_reqs st @ [rid],
                 prefill_scheduled := (prefill_scheduled st \<or> is_prefill_chunk r),
                 new_blocks_of := dict_set rid new_blocks (new_blocks_of st),
                 scheduled_tokens := dict_set rid n (scheduled_tokens st),
                 token_budget := token_budget st - n,
                 input_budget := input_budget st - (n + draft_slots c),
                 req_index := req_index st + 1,
                 spec_tokens_of := (if spec_token_ids r \<noteq> [] \<and> spec > 0
                   then dict_set rid (take (nat spec) (spec_token_ids r)) (spec_tokens_of st) else spec_tokens_of st)\<rparr>;
         r = r\<lparr>spec_token_ids := []\<rparr>
     in record_encoder_inputs x r inputs new_budget external (st\<lparr>sched := put_req r (sched st)\<rparr>))"

text \<open>A running request that needs no step, or must not take one.\<close>

definition skips_step :: "sched_config \<Rightarrow> bool \<Rightarrow> Request \<Rightarrow> 'w scheduler \<Rightarrow> bool" where
  "skips_step c defer_prefills r s \<longleftrightarrow>
     num_output_placeholders r > 0 \<and>
       num_computed_tokens r + 2 - num_output_placeholders r \<ge> num_prompt_tokens r + max_tokens r \<or>
     current_step s < next_decode_eligible_step r \<or>
     defer_prefills \<and> is_prefill_chunk r"

definition running_step ::
    "'w externals \<Rightarrow> sched_config \<Rightarrow> bool \<Rightarrow> 'w sched_step \<Rightarrow> 'w sched_step loop_step comp" where
  "running_step x c defer_prefills st =
     (let s = sched st in
      if \<not> (req_index st < length (running s) \<and> token_budget st > 0) \<or> input_budget st \<le> draft_slots c then ret (Done st)
      else
        let rid = running s ! req_index st; skipped = st\<lparr>req_index := req_index st + 1\<rparr> in
        run_then (Some (get_req rid s)) (\<lambda>r.
        if skips_step c defer_prefills r s then ret (Again skipped)
        else
          run_then (Some (running_chunk x c r st)) (\<lambda>(inputs, n, budget, external, m).
          let st = st\<lparr>sched := s\<lparr>encoder_cache_manager := m\<rparr>\<rparr>; skipped = skipped\<lparr>sched := s\<lparr>encoder_cache_manager := m\<rparr>\<rparr> in
          if n = 0 then ret (Again skipped)
          else
            run_then (while_loop (\<lambda>st. Some (allocate_or_preempt x c rid n st)) (None, st)) (\<lambda>(new_blocks, st).
            case new_blocks of
              None \<Rightarrow> ret (Done st)
            | Some kb \<Rightarrow> run_then (Some (commit_running x c rid n kb inputs budget external st)) (\<lambda>st. ret (Again st))))))"

section \<open>Waiting requests\<close>

text \<open>Blocks that a request still needs for its full sequence.\<close>

definition request_remaining_blocks :: "sched_config \<Rightarrow> Request \<Rightarrow> kv_cache_manager \<Rightarrow> (int \<times> kv_cache_manager) result" where
  "request_remaining_blocks c r km =
     (let full_num_tokens = min (num_tokens r) (sc_model_len c) in
      and_then (co_get_num_blocks_to_allocate (request_id r) full_num_tokens (kb_blocks (empty_kv_cache_blocks km)) 0
         (num_computed_tokens r) (num_computed_tokens r) full_num_tokens True (km_coordinator km)) (\<lambda>(k, co).
      Inr (k, km\<lparr>km_coordinator := co\<rparr>)))"

definition inflight_prefill_reserved_blocks :: "sched_config \<Rightarrow> 'w scheduler \<Rightarrow> (int \<times> kv_cache_manager) result" where
  "inflight_prefill_reserved_blocks c s =
     for_each (\<lambda>rid (n, km).
       and_then (get_req rid s) (\<lambda>r.
       and_then (request_remaining_blocks c r km) (\<lambda>(k, km). Inr (n + k, km)))) (inflight_prefills s) (0, kv_manager s)"

definition update_waiting_for_remote_kv :: "'w externals \<Rightarrow> sched_config \<Rightarrow> Request \<Rightarrow> 'w scheduler \<Rightarrow> (Request \<times> 'w scheduler) result" where
  "update_waiting_for_remote_kv x c r s =
     and_then (py_assert (has_connector x)) (\<lambda>_.
     and_then
       (if request_id r \<in> set (failed_recving_kv_req_ids s) then
          and_then
            (if num_computed_tokens r \<noteq> 0 then
               and_then (with_km (\<lambda>r. km_cache_blocks (embed_digest x) (int_event_hashes x) r (num_computed_tokens r)) r s) (\<lambda>(r, s).
               if sc_needs_zeroing c
               then and_then (record_blocks_for_zeroing (request_id r) (num_computed_tokens r) (kv_manager s)) (\<lambda>km.
                    Inr (r, s\<lparr>kv_manager := km\<rparr>))
               else Inr (r, s))
             else and_then (km_free r (kv_manager s)) (\<lambda>km. Inr (r, s\<lparr>kv_manager := km\<rparr>))) (\<lambda>(r, s).
          Inr (r, s\<lparr>failed_recving_kv_req_ids := set_discard (request_id r) (failed_recving_kv_req_ids s)\<rparr>))
        else
          and_then (with_km (\<lambda>r. km_cache_blocks (embed_digest x) (int_event_hashes x) r (num_computed_tokens r)) r s) (\<lambda>(r, s).
          let r = (if num_computed_tokens r = num_tokens r then r\<lparr>num_computed_tokens := num_tokens r - 1\<rparr> else r) in
          Inr (r, put_req r s))) (\<lambda>(r, s).
     if request_id r \<notin> set (finished_recving_kv_req_ids s) then Inl KeyError
     else Inr (r, s\<lparr>finished_recving_kv_req_ids := set_discard (request_id r) (finished_recving_kv_req_ids s)\<rparr>)))"

definition try_promote_blocked_waiting_request ::
    "'w externals \<Rightarrow> sched_config \<Rightarrow> Request \<Rightarrow> 'w scheduler \<Rightarrow> (bool \<times> Request \<times> 'w scheduler) result" where
  "try_promote_blocked_waiting_request x c r s =
     (case status r of
        WAITING_FOR_REMOTE_KVS \<Rightarrow>
          if request_id r \<notin> set (finished_recving_kv_req_ids s) then Inr (False, r, s)
          else
            and_then (update_waiting_for_remote_kv x c r s) (\<lambda>(r, s).
            let r = r\<lparr>status := (if num_preemptions r \<noteq> 0 then PREEMPTED else WAITING)\<rparr> in Inr (True, r, put_req r s))
      | WAITING_FOR_STRUCTURED_OUTPUT_GRAMMAR \<Rightarrow>
          (case grammar_of x r (ext s) of
             NoGrammar \<Rightarrow> Inr (False, r, s)
           | GrammarError \<Rightarrow> Inr (False, r, s\<lparr>grammar_compile_error_reqs := set_add (request_id r) (grammar_compile_error_reqs s)\<rparr>)
           | GrammarReady \<Rightarrow> let r = r\<lparr>status := WAITING\<rparr> in Inr (True, r, put_req r s))
      | WAITING_FOR_STREAMING_REQ \<Rightarrow>
          and_then (py_assert (case streaming_queue r of None \<Rightarrow> True | Some q \<Rightarrow> q = [])) (\<lambda>_. Inr (False, r, s))
      | _ \<Rightarrow> Inl AssertionError)"

text \<open>\<^verbatim>\<open>request_queue.pop_request()\<close> followed by \<^verbatim>\<open>step_skipped_waiting.prepend_request(request)\<close>\<close>

definition skip_waiting :: "sched_config \<Rightarrow> bool \<Rightarrow> Request \<Rightarrow> 'w sched_step \<Rightarrow> 'w sched_step result" where
  "skip_waiting c skipped r st =
     and_then (q_pop (policy c) (sched st) (waiting_queue skipped (sched st))) (\<lambda>(_, q).
     Inr (st\<lparr>sched := set_waiting_queue skipped q (sched st),
             step_skipped := q_prepend (policy c) (sched st) (step_skipped st) r\<rparr>))"

text \<open>The cached prefix of a waiting request: local blocks and tokens, external tokens, whether they load asynchronously, and the sum.\<close>

record prefix_hit =
  ph_blocks :: KVCacheBlocks
  ph_local :: int
  ph_external :: int
  ph_async :: bool
  ph_computed :: int
  ph_looked_up :: bool

definition get_local_prefix_cache_hit ::
    "'w externals \<Rightarrow> Request \<Rightarrow> kv_cache_manager \<Rightarrow> ((KVCacheBlocks \<times> int \<times> int \<times> bool) \<times> Request \<times> kv_cache_manager) comp" where
  "get_local_prefix_cache_hit x r km =
     (if has_connector x \<and> supports_divergent_local_hybrid_hits x
      then get_computed_blocks_for_connector (embed_digest x) (int_event_hashes x) (reports_full x r) r km
      else run_then (get_computed_blocks (embed_digest x) (int_event_hashes x) (reports_full x r) r km) (\<lambda>((kb, n, b), r, km).
           ret ((kb, n, b, False), r, km)))"

text \<open>The part of the lookup that asks the KV connector; \<open>None\<close> in the result skips the request.\<close>

definition connector_prefix_hit ::
    "'w externals \<Rightarrow> sched_config \<Rightarrow> Request \<Rightarrow> KVCacheBlocks \<Rightarrow> int \<Rightarrow> bool \<Rightarrow> 'w scheduler
     \<Rightarrow> ((KVCacheBlocks \<times> int \<times> int \<times> bool) option \<times> Request \<times> 'w scheduler) comp" where
  "connector_prefix_hit x c r kb num_local diverged s =
     run_then (Some (py_mod num_local (sc_block_size c))) (\<lambda>partial_tail.
     let block_aligned_local = num_local - partial_tail;
         ((ext_tokens, load_kv_async), w) = get_num_new_matched_tokens x r block_aligned_local (ext s);
         s = s\<lparr>ext := w\<rparr>
     in
     case ext_tokens of
       None \<Rightarrow> ret (None, r, s)
     | Some ext_tokens \<Rightarrow>
         run_then (Some
           (if partial_tail \<noteq> 0 \<and> ext_tokens > partial_tail
            then and_then (truncate_computed_blocks kb block_aligned_local (kv_manager s)) (\<lambda>kb.
                 Inr (kb, block_aligned_local, ext_tokens, load_kv_async))
            else if partial_tail \<noteq> 0 then Inr (kb, num_local, 0, False)
            else Inr (kb, num_local, ext_tokens, load_kv_async))) (\<lambda>(kb, num_local, external, load_kv_async).
         if diverged \<and> external = 0
         then run_then (get_computed_blocks (embed_digest x) (int_event_hashes x) (reports_full x r) r (kv_manager s)) (\<lambda>((kb, n, b), r, km).
              let r = r\<lparr>shared_prefix_boundary := b\<rparr> in
              ret (Some (kb, n, external, load_kv_async), r, put_req r (s\<lparr>kv_manager := km\<rparr>)))
         else ret (Some (kb, num_local, external, load_kv_async), r, s)))"

definition waiting_prefix_hit ::
    "'w externals \<Rightarrow> sched_config \<Rightarrow> Request \<Rightarrow> 'w scheduler \<Rightarrow> (prefix_hit option \<times> Request \<times> 'w scheduler) comp" where
  "waiting_prefix_hit x c r s =
     (if num_computed_tokens r \<noteq> 0
      then ret (Some \<lparr>ph_blocks = empty_kv_cache_blocks (kv_manager s), ph_local = 0, ph_external = 0, ph_async = False,
                      ph_computed = num_computed_tokens r, ph_looked_up = False\<rparr>, r, s)
      else
        run_then (get_local_prefix_cache_hit x r (kv_manager s)) (\<lambda>((kb, num_local, boundary, diverged), r, km).
        let r = r\<lparr>shared_prefix_boundary := boundary\<rparr>; s = put_req r (s\<lparr>kv_manager := km\<rparr>) in
        run_then (if has_connector x then connector_prefix_hit x c r kb num_local diverged s
                  else ret (Some (kb, num_local, 0, False), r, s)) (\<lambda>(found, r, s).
        case found of
          None \<Rightarrow> ret (None, r, s)
        | Some (kb, num_local, external, load_kv_async) \<Rightarrow>
            run_then (Some (py_assert (num_local + external \<le> num_tokens r))) (\<lambda>_.
            let (available, w) = (if has_ec_connector x \<and> mm_features r \<noteq> []
                  then ensure_cache_available x r (num_local + external) (ext s) else (True, ext s));
                s = s\<lparr>ext := w\<rparr>
            in
            if \<not> available then ret (None, r, s)
            else ret (Some \<lparr>ph_blocks = kb, ph_local = num_local, ph_external = external, ph_async = load_kv_async,
                            ph_computed = num_local + external, ph_looked_up = True\<rparr>, r, s)))))"

text \<open>
  The chunk of a waiting request: the tokens, whether they are padded to the speculative size, the encoder inputs with the budget left, the
  inputs loaded from outside, and the encoder cache; \<open>None\<close> ends the loop.
\<close>

type_synonym waiting_chunk_result = "(int \<times> bool \<times> int list \<times> int \<times> int list) option \<times> encoder_manager"

definition padded_chunk :: "sched_config \<Rightarrow> Request \<Rightarrow> prefix_hit \<Rightarrow> int \<Rightarrow> 'w sched_step \<Rightarrow> (int \<times> bool) option" where
  "padded_chunk c r ph budget st =
     (let n = num_tokens r - ph_computed ph in
      if num_spec_tokens c > 0 \<and> dynamic_sd_lookup c = None \<and> num_sampled_tokens_per_step c > 0 \<and> n = 1 \<and>
         running_reqs st \<noteq> [] \<and> \<not> prefill_scheduled st
      then (let n = 1 + num_spec_tokens c in
            if n > budget \<or> ph_computed ph + n > sc_model_len c then None else Some (n, True))
      else Some (n, False))"

text \<open>The cuts for Mamba blocks, encoder inputs and the drafter.\<close>

definition fitted_chunk ::
    "'w externals \<Rightarrow> sched_config \<Rightarrow> Request \<Rightarrow> prefix_hit \<Rightarrow> bool \<Rightarrow> int \<Rightarrow> 'w sched_step \<Rightarrow> waiting_chunk_result result" where
  "fitted_chunk x c r ph pad n st =
     (let m = encoder_cache_manager (sched st) in
      and_then (if need_mamba_block_aligned_split c then mamba_block_aligned_split c r n (ph_local ph) (ph_external ph) else Inr n) (\<lambda>n.
      if need_mamba_block_aligned_split c \<and> n = 0 then Inr (None, m)
      else
        and_then (if has_encoder_inputs r
                  then try_schedule_encoder_inputs x c (ext (sched st)) r (ph_computed ph) n (encoder_compute_budget st)
                         (num_prefill_lookahead c) m
                  else Inr ([], n, encoder_compute_budget st, [], m)) (\<lambda>(inputs, n, enc_budget, external, m).
        let n = reserve_prefill_lookahead c r (ph_computed ph) n in
        Inr (if n = 0 then None else Some (n, pad, inputs, enc_budget, external), m))))"

definition waiting_chunk ::
    "'w externals \<Rightarrow> sched_config \<Rightarrow> bool \<Rightarrow> Request \<Rightarrow> prefix_hit \<Rightarrow> 'w sched_step \<Rightarrow> waiting_chunk_result result" where
  "waiting_chunk x c defer_prefills r ph st =
     (let m = encoder_cache_manager (sched st); stop = Inr (None, m) in
      if ph_async ph
      then and_then (py_assert (ph_external ph > 0)) (\<lambda>_. Inr (Some (0, False, [], encoder_compute_budget st, []), m))
      else if defer_prefills \<and> ph_computed ph < num_tokens r - 1 then stop
      else
        let budget = min (token_budget st) (input_budget st - draft_slots c) in
        case padded_chunk c r ph budget st of
          None \<Rightarrow> stop
        | Some (n, pad) \<Rightarrow>
            let threshold = long_prefill_token_threshold c;
                n = (if 0 < threshold \<and> threshold < n then threshold else n)
            in
            if \<not> enable_chunked_prefill c \<and> n > budget then stop
            else and_then (py_assert (min n budget > 0)) (\<lambda>_. fitted_chunk x c r ph pad (min n budget) st))"

definition waiting_allocate ::
    "'w externals \<Rightarrow> sched_config \<Rightarrow> Request \<Rightarrow> prefix_hit \<Rightarrow> int \<Rightarrow> int list \<Rightarrow> 'w scheduler
     \<Rightarrow> (KVCacheBlocks option \<times> Request \<times> 'w scheduler) result" where
  "waiting_allocate x c r ph n inputs s =
     (let lookahead = (if ph_async ph \<and> num_lookahead_tokens c > 0 then 0 else num_lookahead_tokens c) in
      and_then (if is_encoder_decoder c \<and> has_encoder_inputs r \<and> inputs \<noteq> []
                then sum_results (map (get_num_encoder_embeds r) inputs) else Inr 0) (\<lambda>num_encoder_tokens.
      and_then (if ph_async ph then inflight_prefill_reserved_blocks c s else Inr (0, kv_manager s)) (\<lambda>(reserved, km).
      and_then (allocate_slots (embed_digest x) (int_event_hashes x) r n (ph_local ph) (Some (ph_blocks ph)) lookahead (ph_external ph)
         (ph_async ph) num_encoder_tokens (scheduler_reserve_full_isl c) reserved (running s \<noteq> []) km) (\<lambda>(new_blocks, r, km).
      Inr (new_blocks, r, put_req r (s\<lparr>kv_manager := km\<rparr>))))))"

text \<open>The request waits for its external KV.\<close>

definition start_async_load :: "sched_config \<Rightarrow> Request \<Rightarrow> prefix_hit \<Rightarrow> 'w sched_step \<Rightarrow> 'w sched_step" where
  "start_async_load c r ph st =
     (let r = r\<lparr>status := WAITING_FOR_REMOTE_KVS, num_computed_tokens := ph_computed ph\<rparr>;
          s = put_req r (sched st);
          (skip, km) = (if sc_needs_zeroing c
            then get_zeroing_block_ids_in_range (request_id r) (ph_local ph) (ph_computed ph) (kv_manager s) else ([], kv_manager s))
      in st\<lparr>sched := s\<lparr>inflight_prefills := set_add (request_id r) (inflight_prefills s), kv_manager := km,
                       skip_zero_block_ids := fold set_add skip (skip_zero_block_ids s)\<rparr>,
            step_skipped := q_prepend (policy c) s (step_skipped st) r\<rparr>)"

text \<open>The request joins the running ones.\<close>

definition admit_waiting ::
    "'w externals \<Rightarrow> sched_config \<Rightarrow> Request \<Rightarrow> prefix_hit \<Rightarrow> int \<Rightarrow> bool \<Rightarrow> int list \<Rightarrow> int \<Rightarrow> int list \<Rightarrow> 'w sched_step \<Rightarrow> 'w sched_step result" where
  "admit_waiting x c r ph n pad inputs enc_budget external st =
     (let rid = request_id r in
      and_then (if status r = WAITING then Inr (st\<lparr>new_reqs := new_reqs st @ [rid]\<rparr>)
                else if status r = PREEMPTED then Inr (st\<lparr>resumed_reqs := resumed_reqs st @ [rid]\<rparr>)
                else Inl RuntimeError) (\<lambda>st.
      let r' = r\<lparr>status := RUNNING, num_computed_tokens := ph_computed ph\<rparr>;
          s = put_req r' (sched st);
          st = st\<lparr>sched := s\<lparr>running := running s @ [rid],
                           inflight_prefills := (if ph_computed ph + n < num_tokens r then set_add rid (inflight_prefills s) else inflight_prefills s)\<rparr>,
                  scheduled_loras := (case lora_request r of
                     Some l \<Rightarrow> if max_loras c \<noteq> None then set_add (lora_int_id l) (scheduled_loras st) else scheduled_loras st
                   | None \<Rightarrow> scheduled_loras st),
                  new_blocks_of := dict_set rid (km_get_blocks rid (kv_manager s)) (new_blocks_of st),
                  scheduled_tokens := dict_set rid n (scheduled_tokens st),
                  token_budget := token_budget st - n,
                  input_budget := input_budget st - (n + draft_slots c),
                  spec_tokens_of := (if pad then dict_set rid (replicate (nat (num_spec_tokens c)) (- 1)) (spec_tokens_of st) else spec_tokens_of st)\<rparr>
      in record_encoder_inputs x r' inputs enc_budget external st))"

text \<open>From the chosen chunk to the admission of the request, or the end of the loop.\<close>

definition place_waiting ::
    "'w externals \<Rightarrow> sched_config \<Rightarrow> bool \<Rightarrow> Request \<Rightarrow> prefix_hit \<Rightarrow> int \<Rightarrow> bool \<Rightarrow> int list \<Rightarrow> int \<Rightarrow> int list \<Rightarrow> 'w sched_step
     \<Rightarrow> 'w sched_step loop_step result" where
  "place_waiting x c skipped r ph n pad inputs enc_budget external st =
     and_then (waiting_allocate x c r ph n inputs (sched st)) (\<lambda>(new_blocks, r, s).
     if new_blocks = None then
       and_then (if has_encoder_inputs r then em_free r (encoder_cache_manager s) else Inr (encoder_cache_manager s)) (\<lambda>m.
       Inr (Done (st\<lparr>sched := s\<lparr>encoder_cache_manager := m\<rparr>\<rparr>)))
     else
       let s = (if has_connector x
             then s\<lparr>ext := update_state_after_alloc x r (km_get_blocks (request_id r) (kv_manager s)) (ph_external ph) (ext s)\<rparr> else s)
       in
       and_then (if ph_looked_up ph then record_prefix_cache_stats r (ph_local ph) (kv_manager s) else Inr (kv_manager s)) (\<lambda>km.
       let s = s\<lparr>kv_manager := km\<rparr> in
       and_then (q_pop (policy c) s (waiting_queue skipped s)) (\<lambda>(_, q).
       let st = st\<lparr>sched := set_waiting_queue skipped q s\<rparr> in
       if ph_async ph then Inr (Again (start_async_load c r ph st))
       else and_then (admit_waiting x c r ph n pad inputs enc_budget external st) (\<lambda>st. Inr (Again st)))))"

text \<open>The request at the head is passed over: stale output is still due, or its adapter does not fit.\<close>

definition passes_over :: "sched_config \<Rightarrow> Request \<Rightarrow> 'w sched_step \<Rightarrow> bool" where
  "passes_over c r st \<longleftrightarrow>
     num_stale_output_tokens r > 0 \<and> \<not> drop_stale_output r \<or>
     (case (max_loras c, lora_request r) of
        (Some k, Some l) \<Rightarrow> int (length (scheduled_loras st)) = k \<and> lora_int_id l \<notin> set (scheduled_loras st)
      | _ \<Rightarrow> False)"

definition schedule_head ::
    "'w externals \<Rightarrow> sched_config \<Rightarrow> bool \<Rightarrow> bool \<Rightarrow> Request \<Rightarrow> 'w sched_step \<Rightarrow> 'w sched_step loop_step comp" where
  "schedule_head x c defer_prefills skipped r st =
     run_then (waiting_prefix_hit x c r (sched st)) (\<lambda>(found, r, s).
     let st = st\<lparr>sched := s\<rparr> in
     case found of
       None \<Rightarrow> run_then (Some (skip_waiting c skipped r st)) (\<lambda>st. ret (Again st))
     | Some ph \<Rightarrow>
         run_then (Some (waiting_chunk x c defer_prefills r ph st)) (\<lambda>(chunk, m).
         let st = st\<lparr>sched := s\<lparr>encoder_cache_manager := m\<rparr>\<rparr> in
         case chunk of
           None \<Rightarrow> ret (Done st)
         | Some (n, pad, inputs, enc_budget, external) \<Rightarrow> Some (place_waiting x c skipped r ph n pad inputs enc_budget external st)))"

definition waiting_step ::
    "'w externals \<Rightarrow> sched_config \<Rightarrow> bool \<Rightarrow> 'w sched_step \<Rightarrow> 'w sched_step loop_step comp" where
  "waiting_step x c defer_prefills st =
     (let s = sched st in
      if \<not> ((waiting s \<noteq> [] \<or> skipped_waiting s \<noteq> []) \<and> token_budget st > 0) \<or> input_budget st \<le> draft_slots c \<or>
         int (length (running s)) + num_waiting_for_streaming_input s \<ge> max_num_running_reqs c
      then ret (Done st)
      else
        run_then (Some (select_waiting_queue_for_scheduling c s)) (\<lambda>choice.
        case choice of
          None \<Rightarrow> Some (Inl AssertionError)
        | Some skipped \<Rightarrow>
            run_then (Some (q_peek (policy c) s (waiting_queue skipped s))) (\<lambda>r.
            run_then (Some (if is_blocked_waiting_status (status r) then try_promote_blocked_waiting_request x c r s
                            else Inr (True, r, s))) (\<lambda>(ready, r, s).
            let st = st\<lparr>sched := s\<rparr> in
            if \<not> ready \<or> passes_over c r st then run_then (Some (skip_waiting c skipped r st)) (\<lambda>st. ret (Again st))
            else schedule_head x c defer_prefills skipped r st))))"

end
