(* ===== verification/Sched_Output.thy ===== *)
theory Sched_Output
  imports Sched_Loop
begin

text \<open>
  The end of a scheduling step: the checks, the message to the workers (\<^verbatim>\<open>vllm/v1/core/sched/output.py\<close>), the counters that advance once a
  step is scheduled, with the override of \<^verbatim>\<open>AsyncScheduler\<close> (\<^verbatim>\<open>async_scheduler.py\<close>), and \<^verbatim>\<open>schedule\<close> itself.
\<close>

section \<open>The message\<close>

definition block_ids_of :: "kv_cache_manager \<Rightarrow> KVCacheBlocks \<Rightarrow> int list list" where
  "block_ids_of km kb = (case kb_get_block_ids (km_pool km) False kb of None \<Rightarrow> [] | Some ids \<Rightarrow> ids)"

text \<open>Which features keep their tensor data; a feature is its modality, identity and position here, so only this much is seen of the stripping.\<close>

definition strip_covered_mm_data :: "MultiModalFeatureSpec list \<Rightarrow> int \<Rightarrow> bool list" where
  "strip_covered_mm_data features computed_tokens = map (\<lambda>f. computed_tokens = 0 \<or> mm_end f > computed_tokens) features"

definition NewRequestData_from_request :: "Request \<Rightarrow> int list list \<Rightarrow> int list option \<Rightarrow> NewRequestData" where
  "NewRequestData_from_request r block_ids prefill =
     \<lparr>nr_req_id = request_id r, nr_prompt_token_ids = prompt_token_ids r, nr_mm_features = mm_features r,
      nr_has_payload = strip_covered_mm_data (mm_features r) (num_computed_tokens r), nr_sampling_params = sampling_params r,
      nr_pooling_params = pooling_params r, nr_block_ids = block_ids, nr_num_computed_tokens = num_computed_tokens r,
      nr_lora_request = lora_request r, nr_prompt_embeds = prompt_embeds r, nr_prompt_is_token_ids = prompt_is_token_ids r,
      nr_prefill_token_ids = prefill\<rparr>"

definition new_request_data :: "sched_config \<Rightarrow> 'w sched_step \<Rightarrow> NewRequestData list result" where
  "new_request_data c st =
     for_each (\<lambda>rid out.
       and_then (get_req rid (sched st)) (\<lambda>r.
       case dict_get (new_blocks_of st) rid of
         None \<Rightarrow> Inl KeyError
       | Some kb \<Rightarrow> Inr (out @ [NewRequestData_from_request r (block_ids_of (kv_manager (sched st)) kb)
             (if use_v2_model_runner c then Some (all_token_ids r) else None)])))
       (if use_v2_model_runner c then new_reqs st @ resumed_reqs st else new_reqs st) []"

definition cached_request_row :: "sched_config \<Rightarrow> 'w sched_step \<Rightarrow> nat \<times> string \<Rightarrow> CachedRequestData \<Rightarrow> CachedRequestData result" where
  "cached_request_row c st = (\<lambda>(idx, rid) out.
     and_then (get_req rid (sched st)) (\<lambda>r.
     and_then (if use_pp c \<and> \<not> async_scheduling c
        then (case dict_get (scheduled_tokens st) rid of
                None \<Rightarrow> Inl KeyError
              | Some n \<Rightarrow>
                  let spec = (case dict_get (spec_tokens_of st) rid of None \<Rightarrow> [] | Some ids \<Rightarrow> ids);
                      n = n - int (length spec)
                  in Inr (cr_new_token_ids out @ [py_slice (all_token_ids r) (num_computed_tokens r) (num_computed_tokens r + n)]))
        else Inr (cr_new_token_ids out)) (\<lambda>new_token_ids.
     case dict_get (new_blocks_of st) rid of
       None \<Rightarrow> Inl KeyError
     | Some kb \<Rightarrow>
         Inr (out\<lparr>cr_req_ids := cr_req_ids out @ [rid],
            cr_new_token_ids := new_token_ids,
            cr_resumed_req_ids := (if idx \<ge> length (running_reqs st) then set_add rid (cr_resumed_req_ids out) else cr_resumed_req_ids out),
            cr_all_token_ids := (if \<not> use_v2_model_runner c \<and> rid \<notin> set (prev_step_scheduled_req_ids (sched st))
              then dict_set rid (all_token_ids r) (cr_all_token_ids out) else cr_all_token_ids out),
            cr_new_block_ids := cr_new_block_ids out @ [kb_get_block_ids (km_pool (kv_manager (sched st))) True kb],
            cr_num_computed_tokens := cr_num_computed_tokens out @ [num_computed_tokens r],
            cr_num_output_tokens := cr_num_output_tokens out @ [num_output_tokens r + num_output_placeholders r]\<rparr>))))"

definition make_cached_request_data :: "sched_config \<Rightarrow> 'w sched_step \<Rightarrow> CachedRequestData result" where
  "make_cached_request_data c st =
     for_each (cached_request_row c st)
       (enumerate 0 (running_reqs st @ (if use_v2_model_runner c then [] else resumed_reqs st)))
       \<lparr>cr_req_ids = [], cr_resumed_req_ids = [], cr_new_token_ids = [], cr_all_token_ids = [], cr_new_block_ids = [],
        cr_num_computed_tokens = [], cr_num_output_tokens = []\<rparr>"

definition get_new_block_ids_to_zero :: "sched_config \<Rightarrow> 'w scheduler \<Rightarrow> int list option \<times> 'w scheduler" where
  "get_new_block_ids_to_zero c s =
     (let (ids, km) = km_take_new_block_ids (kv_manager s); s = s\<lparr>kv_manager := km\<rparr> in
      if \<not> sc_needs_zeroing c then (None, s)
      else
        let ids = filter (\<lambda>b. b \<notin> set (skip_zero_block_ids s)) ids in
        (if ids = [] then None else Some ids, s\<lparr>skip_zero_block_ids := []\<rparr>))"

section \<open>After the step is scheduled\<close>

definition advance_scheduled :: "sched_config \<Rightarrow> string \<times> int \<Rightarrow> bool \<times> 'w scheduler \<Rightarrow> (bool \<times> 'w scheduler) result" where
  "advance_scheduled c = (\<lambda>(rid, n) (structured, s).
     and_then (request_at rid s) (\<lambda>r.
     let r = r\<lparr>num_computed_tokens := num_computed_tokens r + n, num_in_flight_tokens := num_in_flight_tokens r + n,
               last_sched_seq := (if defer_block_free c then sched_step_seq s else last_sched_seq r)\<rparr>;
         r = r\<lparr>is_prefill_chunk := (num_computed_tokens r < num_tokens r + num_output_placeholders r)\<rparr>;
         s = put_req r s
     in Inr (structured \<or> use_structured_output r \<and> \<not> is_prefill_chunk r,
             s\<lparr>inflight_prefills := (if \<not> is_prefill_chunk r then set_discard rid (inflight_prefills s) else inflight_prefills s)\<rparr>)))"

definition base_update_after_schedule :: "sched_config \<Rightarrow> SchedulerOutput \<Rightarrow> 'w scheduler \<Rightarrow> (SchedulerOutput \<times> 'w scheduler) result" where
  "base_update_after_schedule c out s =
     and_then (for_each (advance_scheduled c) (so_num_scheduled_tokens out) (so_has_structured_output_requests out, s)) (\<lambda>(structured, s).
     Inr (out\<lparr>so_has_structured_output_requests := structured\<rparr>, s\<lparr>finished_req_ids := [], reset_preempted_req_ids := []\<rparr>))"

definition place_output_tokens :: "sched_config \<Rightarrow> SchedulerOutput \<Rightarrow> string \<Rightarrow> bool \<times> 'w scheduler \<Rightarrow> (bool \<times> 'w scheduler) result" where
  "place_output_tokens c out rid = (\<lambda>(pending, s).
     and_then (request_at rid s) (\<lambda>r.
     if is_prefill_chunk r then Inr (pending, s)
     else
       let spec = (case dict_get (so_scheduled_spec_decode_tokens out) rid of None \<Rightarrow> [] | Some ids \<Rightarrow> ids);
           pending = (pending \<or> use_structured_output r \<and> num_output_placeholders r > 0);
           r = r\<lparr>num_output_placeholders := num_output_placeholders r + (num_sampled_tokens_per_step c + int (length spec)),
                 spec_token_ids := replicate (nat (so_num_spec_tokens_to_schedule out)) (- 1),
                 next_decode_eligible_step := (if use_v2_model_runner c then current_step s + pp_size c else next_decode_eligible_step r)\<rparr>
       in Inr (pending, put_req r s)))"

definition update_after_schedule :: "sched_config \<Rightarrow> SchedulerOutput \<Rightarrow> 'w scheduler \<Rightarrow> (SchedulerOutput \<times> 'w scheduler) result" where
  "update_after_schedule c out s =
     and_then (base_update_after_schedule c out s) (\<lambda>(out, s).
     if \<not> is_async c then Inr (out, s)
     else
       and_then (for_each (place_output_tokens c out) (map fst (so_num_scheduled_tokens out)) (so_pending_structured_output_tokens out, s)) (\<lambda>(pending, s).
       Inr (out\<lparr>so_pending_structured_output_tokens := pending\<rparr>, s)))"

section \<open>The step\<close>

definition start_step :: "'w externals \<Rightarrow> sched_config \<Rightarrow> 'w scheduler \<Rightarrow> 'w sched_step" where
  "start_step x c s =
     (let s = s\<lparr>current_step := current_step s + 1, kv_manager := km_new_step_starts (kv_manager s)\<rparr> in
      \<lparr>sched = s, req_index = 0, new_reqs = [], resumed_reqs = [], running_reqs = [], preempted_reqs = [], new_blocks_of = [],
       scheduled_tokens = [], token_budget = (if pause_state s = PAUSED_ALL then 0 else max_num_scheduled_tokens c),
       input_budget = max_num_batched_tokens c, encoder_inputs_of = [], encoder_compute_budget = encoder_budget c, spec_tokens_of = [],
       prefill_scheduled = False, scheduled_loras = [], step_skipped = []\<rparr>)"

definition defers_prefills :: "bool \<Rightarrow> 'w scheduler \<Rightarrow> bool" where
  "defers_prefills throttle_prefills s \<longleftrightarrow>
     throttle_prefills \<and> \<not> prefill_capacity_bound s \<and>
     list_ex (\<lambda>r. \<not> is_prefill_chunk r) (deref s (running s))"

definition record_loras :: "sched_config \<Rightarrow> 'w sched_step \<Rightarrow> 'w sched_step result" where
  "record_loras c st =
     (case max_loras c of
        None \<Rightarrow> Inr (st\<lparr>scheduled_loras := []\<rparr>)
      | Some k \<Rightarrow>
          let loras = remdups (List.map_filter (\<lambda>rid. Option.bind (dict_get (objects (sched st)) rid) (\<lambda>r.
                case lora_request r of None \<Rightarrow> None | Some l \<Rightarrow> if lora_int_id l > 0 then Some (lora_int_id l) else None)) (running_reqs st))
          in and_then (py_assert (int (length loras) \<le> k)) (\<lambda>_. Inr (st\<lparr>scheduled_loras := loras\<rparr>)))"

definition schedule_waiting :: "'w externals \<Rightarrow> sched_config \<Rightarrow> bool \<Rightarrow> 'w sched_step \<Rightarrow> 'w sched_step comp" where
  "schedule_waiting x c defer_prefills st =
     (if preempted_reqs st \<noteq> [] \<or> pause_state (sched st) \<noteq> UNPAUSED then ret st
      else
        run_then (while_loop (waiting_step x c defer_prefills) st) (\<lambda>st.
        let s = sched st;
            s = (if step_skipped st \<noteq> [] then s\<lparr>skipped_waiting := q_prepend_all (policy c) s (skipped_waiting s) (step_skipped st)\<rparr> else s);
            s = (if \<not> defer_prefills then s\<lparr>prefill_capacity_bound := (waiting s \<noteq> [])\<rparr> else s)
        in ret (st\<lparr>sched := s\<rparr>)))"

text \<open>The requests of the step, before the message is built.\<close>

definition schedule_requests :: "'w externals \<Rightarrow> sched_config \<Rightarrow> bool \<Rightarrow> 'w scheduler \<Rightarrow> 'w sched_step comp" where
  "schedule_requests x c throttle_prefills s =
     (let st = start_step x c s; defer_prefills = defers_prefills throttle_prefills (sched st) in
      run_then (while_loop (running_step x c defer_prefills) st) (\<lambda>st.
      run_then (Some (record_loras c st)) (\<lambda>st.
      schedule_waiting x c defer_prefills st)))"

text \<open>The assertions on the result.\<close>

definition constraints_hold :: "sched_config \<Rightarrow> 'w sched_step \<Rightarrow> bool" where
  "constraints_hold c st \<longleftrightarrow>
     sum_list (map snd (scheduled_tokens st)) \<le> max_num_scheduled_tokens c \<and> token_budget st \<ge> 0 \<and> input_budget st \<ge> 0 \<and>
     int (length (running (sched st))) \<le> max_num_running_reqs c \<and>
     length (new_reqs st) + length (resumed_reqs st) + length (running_reqs st) \<le> length (running (sched st))"

definition take_block_copies ::
    "'w externals \<Rightarrow> sched_config \<Rightarrow> 'w scheduler
     \<Rightarrow> (((string, (int \<times> int \<times> int) list) dict option \<times> (int \<times> int) list option) \<times> 'w scheduler) result" where
  "take_block_copies x c s =
     and_then (if has_connector x \<and> is_kv_producer c
               then and_then (take_partial_tail_offloads (kv_manager s)) (\<lambda>(offloads, km).
                    Inr (if offloads = [] then None else Some offloads, s\<lparr>kv_manager := km\<rparr>))
               else Inr (None, s)) (\<lambda>(offloads, s).
     let ((copies, retained), km) = take_kv_cache_block_copies (kv_manager s); s = s\<lparr>kv_manager := km\<rparr> in
     and_then (if copies \<noteq> [] then free_cow_retained_blocks c retained (sched_step_seq s + 1) s else Inr s) (\<lambda>s.
     Inr ((offloads, if copies = [] then None else Some copies), s)))"

definition finish_step :: "'w externals \<Rightarrow> sched_config \<Rightarrow> 'w sched_step \<Rightarrow> (SchedulerOutput \<times> 'w scheduler) result" where
  "finish_step x c st =
     and_then (py_assert (constraints_hold c st)) (\<lambda>_.
     let s = sched st;
         (common, km) = (case running s of
            [] \<Rightarrow> (replicate (num_kv_cache_groups (kv_manager s)) 0, kv_manager s)
          | rid # _ \<Rightarrow> km_get_num_common_prefix_blocks rid (kv_manager s));
         s = s\<lparr>kv_manager := km\<rparr>; st = st\<lparr>sched := s\<rparr>
     in
     and_then (new_request_data c st) (\<lambda>new_data.
     and_then (make_cached_request_data c st) (\<lambda>cached_data.
     let s = (if use_v2_model_runner c then s else s\<lparr>prev_step_scheduled_req_ids := map fst (scheduled_tokens st)\<rparr>) in
     and_then (take_block_copies x c s) (\<lambda>((offloads, copies), s).
     and_then (case dynamic_sd_lookup c of
         Some table \<Rightarrow> if scheduled_tokens st \<noteq> [] then py_index table (int (length (scheduled_tokens st))) else Inr (num_spec_tokens c)
       | None \<Rightarrow> Inr (num_spec_tokens c)) (\<lambda>num_spec.
     let (freed, m) = em_get_freed_mm_hashes (encoder_cache_manager s);
         (to_zero, s) = get_new_block_ids_to_zero c (s\<lparr>encoder_cache_manager := m\<rparr>);
         total_tokens = sum_list (map snd (scheduled_tokens st));
         out = \<lparr>so_scheduled_new_reqs = new_data, so_scheduled_cached_reqs = cached_data, so_num_scheduled_tokens = scheduled_tokens st,
                so_total_num_scheduled_tokens = total_tokens, so_scheduled_spec_decode_tokens = spec_tokens_of st,
                so_scheduled_encoder_inputs = encoder_inputs_of st, so_num_common_prefix_blocks = common,
                so_finished_req_ids = finished_req_ids s, so_free_encoder_mm_hashes = freed,
                so_preempted_req_ids = reset_preempted_req_ids s, so_has_structured_output_requests = False,
                so_pending_structured_output_tokens = False, so_num_invalid_spec_tokens = [], so_new_block_ids_to_zero = to_zero,
                so_kv_cache_block_copies = copies, so_partial_tail_offloads = offloads, so_num_spec_tokens_to_schedule = num_spec\<rparr>;
         w = (if has_connector x then build_connector_meta x out (ext s) else ext s);
         w = (if has_ec_connector x then ec_build_connector_meta x out w else w);
         s = s\<lparr>ext := w, sched_step_seq := (if defer_block_free c \<and> total_tokens > 0 then sched_step_seq s + 1 else sched_step_seq s)\<rparr>
     in update_after_schedule c out s)))))"

definition schedule :: "'w externals \<Rightarrow> sched_config \<Rightarrow> bool \<Rightarrow> 'w scheduler \<Rightarrow> (SchedulerOutput \<times> 'w scheduler) comp" where
  "schedule x c throttle_prefills s =
     run_then (schedule_requests x c throttle_prefills s) (\<lambda>st. Some (finish_step x c st))"

end
