(* ===== verification/Sched_Update.thy ===== *)
theory Sched_Update
  imports Sched_Output
begin

text \<open>
  What happens to a scheduled step and between steps (\<^verbatim>\<open>vllm/v1/core/sched/scheduler.py\<close>): the output of the model runner, draft tokens,
  arriving and finished requests, streaming sessions, the transfers of the KV connector and blocks whose transfer failed.
\<close>

section \<open>Streaming sessions\<close>

definition shift_feature :: "int \<Rightarrow> MultiModalFeatureSpec \<Rightarrow> MultiModalFeatureSpec" where
  "shift_feature base f = f\<lparr>mm_position := (mm_position f)\<lparr>pr_offset := pr_offset (mm_position f) + base\<rparr>\<rparr>"

definition update_request_as_session ::
    "'w externals \<Rightarrow> Request \<Rightarrow> StreamingUpdate \<Rightarrow> 'w scheduler \<Rightarrow> (Request \<times> 'w scheduler) comp" where
  "update_request_as_session x session update s =
     (let n = num_computed_tokens session;
          kept_output_tokens = py_slice (all_token_ids session) (num_prompt_tokens session) n;
          all_ids = py_slice (all_token_ids session) 0 n;
          new_ids = (case su_prompt_token_ids update of None \<Rightarrow> [] | Some ids \<Rightarrow> ids)
      in
      case prompt_token_ids session of
        None \<Rightarrow> Some (Inl AssertionError)
      | Some prompt \<Rightarrow>
          let session = session\<lparr>output_token_ids := [],
                mm_features := mm_features session @ map (shift_feature (int (length all_ids))) (su_mm_features update),
                all_token_ids := all_ids @ new_ids,
                prompt_token_ids := Some (prompt @ kept_output_tokens @ new_ids)\<rparr>
          in
          run_then (update_block_hashes (block_hasher_of x) session) (\<lambda>session.
          let session = session\<lparr>num_prompt_tokens := int (length (prompt @ kept_output_tokens @ new_ids)),
                arrival_time := su_arrival_time update, sampling_params := su_sampling_params update\<rparr>;
              s = (if status session = WAITING_FOR_STREAMING_REQ
                then s\<lparr>num_waiting_for_streaming_input := num_waiting_for_streaming_input s - 1\<rparr> else s);
              session = session\<lparr>status := WAITING\<rparr>
          in ret (session, put_req session s)))"

definition handle_stopped_request ::
    "'w externals \<Rightarrow> sched_config \<Rightarrow> Request \<Rightarrow> 'w scheduler \<Rightarrow> (bool \<times> Request \<times> 'w scheduler) comp" where
  "handle_stopped_request x c r s =
     (if \<not> resumable r then ret (True, r, s)
      else
        case streaming_queue r of
          Some (update # rest) \<Rightarrow>
            let r = r\<lparr>streaming_queue := Some rest\<rparr>; s = put_req r s in
            (case update of
               None \<Rightarrow> ret (True, r, s)
             | Some u \<Rightarrow> run_then (update_request_as_session x r u s) (\<lambda>(r, s). ret (False, r, enqueue_waiting_request c r s)))
        | _ \<Rightarrow>
            let r = r\<lparr>status := WAITING_FOR_STREAMING_REQ\<rparr>;
                s = put_req r (s\<lparr>num_waiting_for_streaming_input := num_waiting_for_streaming_input s + 1\<rparr>)
            in ret (False, r, enqueue_waiting_request c r s))"

section \<open>Sampled tokens\<close>

text \<open>The tokens that are kept, whether the request stopped, and the request.\<close>

fun append_until_stop :: "block_hasher option \<Rightarrow> int \<Rightarrow> int list \<Rightarrow> Request \<Rightarrow> (int list \<times> bool \<times> Request) comp" where
  "append_until_stop hasher model_len [] r = ret ([], False, r)"
| "append_until_stop hasher model_len (t # ts) r =
     run_then (append_output_token_ids hasher [t] r) (\<lambda>r.
     run_then (Some (check_stop r model_len)) (\<lambda>(stopped, r).
     if stopped then ret ([t], True, r)
     else run_then (append_until_stop hasher model_len ts r) (\<lambda>(kept, stopped, r). ret (t # kept, stopped, r))))"

definition update_request_with_output ::
    "'w externals \<Rightarrow> sched_config \<Rightarrow> Request \<Rightarrow> int list \<Rightarrow> bool \<Rightarrow> 'w scheduler \<Rightarrow> (int list \<times> bool \<times> Request \<times> 'w scheduler) comp" where
  "update_request_with_output x c r new_token_ids is_stale s =
     run_then (append_until_stop (block_hasher_of x) (sc_model_len c) new_token_ids r) (\<lambda>(kept, stopped, r').
     if \<not> is_async c then ret (kept, stopped, r', put_req r' s)
     else
       let r' = (if is_stale then r' else r'\<lparr>num_output_placeholders := num_output_placeholders r' - int (length kept)\<rparr>) in
       run_then (Some (py_assert (is_stale \<or> num_output_placeholders r' \<ge> 0))) (\<lambda>_.
       if status r \<noteq> RUNNING then ret (kept, stopped, r', put_req r' s)
       else
         run_then (Some (with_km (\<lambda>r. km_cache_blocks (embed_digest x) (int_event_hashes x) r
             (num_computed_tokens r - num_output_placeholders r)) r' s)) (\<lambda>(r', s).
         ret (kept, stopped, r', s))))"

definition free_encoder_inputs :: "sched_config \<Rightarrow> Request \<Rightarrow> 'w scheduler \<Rightarrow> 'w scheduler result" where
  "free_encoder_inputs c r s =
     and_then (for_each (\<lambda>i m.
       and_then (py_index (mm_features r) i) (\<lambda>f.
       if is_encoder_decoder c \<and> num_computed_tokens r > 0 \<or>
          mm_end f + num_prefill_lookahead c \<le> num_computed_tokens r - num_output_placeholders r
       then em_free_encoder_input r i m else Inr m))
       (em_get_cached_input_ids r (encoder_cache_manager s)) (encoder_cache_manager s)) (\<lambda>m.
     Inr (s\<lparr>encoder_cache_manager := m\<rparr>))"

section \<open>Draft tokens\<close>

definition update_draft_token_ids :: "'w externals \<Rightarrow> (string \<times> int list) list \<Rightarrow> 'w scheduler \<Rightarrow> 'w scheduler" where
  "update_draft_token_ids x drafts s =
     fold (\<lambda>(rid, spec) s.
       case find_request rid s of
         None \<Rightarrow> s
       | Some r \<Rightarrow>
           if is_finished r then s
           else if is_prefill_chunk r then put_req (r\<lparr>spec_token_ids := []\<rparr>) s
           else
             let (advance, w) = should_advance x r [] (ext s) in
             put_req (r\<lparr>spec_token_ids := (if advance then validate_tokens x rid spec w else spec)\<rparr>) (s\<lparr>ext := w\<rparr>)) drafts s"

definition update_draft_token_ids_in_output ::
    "'w externals \<Rightarrow> (string \<times> int list) list \<Rightarrow> SchedulerOutput \<Rightarrow> 'w scheduler \<Rightarrow> SchedulerOutput \<times> 'w scheduler" where
  "update_draft_token_ids_in_output x drafts out s =
     (let (spec_tokens, invalid, s) =
        fold (\<lambda>(rid, spec) (spec_tokens, invalid, s).
          case (find_request rid s, dict_get spec_tokens rid) of
            (Some r, Some (p # ps)) \<Rightarrow>
              if is_finished r then (spec_tokens, invalid, s)
              else
                let n = length (p # ps); spec = take n spec; (advance, w) = should_advance x r [] (ext s);
                    spec = (if advance then validate_tokens x rid spec w else spec); missing = int n - int (length spec)
                in (dict_set rid (spec @ replicate (nat missing) (- 1)) spec_tokens,
                    if missing \<noteq> 0 then dict_set rid missing invalid else invalid, s\<lparr>ext := w\<rparr>)
          | _ \<Rightarrow> (spec_tokens, invalid, s)) drafts (so_scheduled_spec_decode_tokens out, [], s)
      in (out\<lparr>so_scheduled_spec_decode_tokens := spec_tokens, so_num_invalid_spec_tokens := invalid\<rparr>, s))"

section \<open>Arrival and end of a request\<close>

definition connector_finished :: "'w externals \<Rightarrow> Request \<Rightarrow> 'w scheduler \<Rightarrow> (bool \<times> 'w scheduler) result" where
  "connector_finished x r s =
     (if \<not> has_connector x then Inr (False, s)
      else
        and_then (km_remove_skipped_blocks (request_id r) (max 0 (num_computed_tokens r - num_in_flight_tokens r))
           (Some (num_prompt_tokens r)) (kv_manager s)) (\<lambda>km.
        let ids = get_block_ids_for_computed_tokens (request_id r) (num_computed_tokens r) km; s = s\<lparr>kv_manager := km\<rparr> in
        if \<not> supports_hma x
        then and_then (py_assert (num_kv_cache_groups km = 1)) (\<lambda>_.
             and_then (py_index ids 0) (\<lambda>ids.
             let (delay, w) = request_finished x r ids (ext s) in Inr (delay, s\<lparr>ext := w\<rparr>)))
        else let (delay, w) = request_finished_all_groups x r ids (ext s) in Inr (delay, s\<lparr>ext := w\<rparr>)))"

text \<open>\<^verbatim>\<open>_free_blocks\<close>\<close>

definition drop_request :: "sched_config \<Rightarrow> Request \<Rightarrow> 'w scheduler \<Rightarrow> 'w scheduler result" where
  "drop_request c r s =
     and_then (py_assert (is_finished r)) (\<lambda>_.
     and_then (free_request_blocks c r s) (\<lambda>s.
     if find_request (request_id r) s = None then Inl KeyError
     else Inr (s\<lparr>requests := removeAll (request_id r) (requests s)\<rparr>)))"

definition free_request :: "'w externals \<Rightarrow> sched_config \<Rightarrow> Request \<Rightarrow> bool \<Rightarrow> 'w scheduler \<Rightarrow> 'w scheduler result" where
  "free_request x c r delay_free_blocks s =
     and_then (py_assert (is_finished r)) (\<lambda>_.
     let rid = request_id r; s = s\<lparr>inflight_prefills := set_discard rid (inflight_prefills s)\<rparr> in
     and_then (connector_finished x r s) (\<lambda>(delay, s).
     let (ec_delay, w) = (if has_ec_connector x then ec_request_finished x r (ext s) else (False, ext s)) in
     and_then (em_free r (encoder_cache_manager s)) (\<lambda>m.
     let s = s\<lparr>ext := w, encoder_cache_manager := m, finished_req_ids := set_add rid (finished_req_ids s),
               finished_req_ids_dict := map_option (\<lambda>d.
                 dict_set (client_index r) (set_add rid (case dict_get d (client_index r) of None \<Rightarrow> [] | Some ids \<Rightarrow> ids)) d)
                 (finished_req_ids_dict s)\<rparr>
     in if delay_free_blocks \<or> delay \<or> ec_delay then Inr s else drop_request c r s)))"

definition finish_one :: "'w externals \<Rightarrow> sched_config \<Rightarrow> RequestStatus \<Rightarrow> string \<Rightarrow> 'w scheduler \<Rightarrow> 'w scheduler result" where
  "finish_one x c finished_status rid s =
     and_then (get_req rid s) (\<lambda>r.
     let remote = (status r = WAITING_FOR_REMOTE_KVS);
         delay = (remote \<and> rid \<notin> set (finished_recving_kv_req_ids s));
         s = (if remote then s\<lparr>finished_recving_kv_req_ids := set_discard rid (finished_recving_kv_req_ids s),
                               failed_recving_kv_req_ids := set_discard rid (failed_recving_kv_req_ids s)\<rparr> else s);
         r = r\<lparr>status := finished_status\<rparr>
     in free_request x c r delay (put_req r s))"

text \<open>\<open>None\<close> finishes all requests; the result also lists the requests that were finished.\<close>

definition finish_requests ::
    "'w externals \<Rightarrow> sched_config \<Rightarrow> string list option \<Rightarrow> RequestStatus \<Rightarrow> 'w scheduler \<Rightarrow> (Request list \<times> 'w scheduler) result" where
  "finish_requests x c ids finished_status s =
     and_then (py_assert (status_is_finished finished_status)) (\<lambda>_.
     let ids = (case ids of None \<Rightarrow> requests s | Some ids \<Rightarrow> remdups ids);
         valid = filter (\<lambda>r. \<not> is_finished r) (List.map_filter (\<lambda>rid. find_request rid s) ids);
         to_stop = filter (\<lambda>r. status r = RUNNING) valid;
         to_drop = filter (\<lambda>r. status r \<noteq> RUNNING) valid;
         streaming = filter (\<lambda>r. status r = WAITING_FOR_STREAMING_REQ) to_drop;
         s = s\<lparr>num_waiting_for_streaming_input := num_waiting_for_streaming_input s - int (length streaming),
               running := remove_all (running s) (map request_id to_stop),
               waiting := (if to_drop \<noteq> [] then q_remove (policy c) s (waiting s) (map request_id to_drop) else waiting s),
               skipped_waiting := (if to_drop \<noteq> [] then q_remove (policy c) s (skipped_waiting s) (map request_id to_drop) else skipped_waiting s)\<rparr>
     in
     and_then (for_each (finish_one x c finished_status) (map request_id valid) s) (\<lambda>s.
     Inr (map (\<lambda>r. r\<lparr>status := finished_status\<rparr>) valid, s)))"

definition sched_add_request :: "'w externals \<Rightarrow> sched_config \<Rightarrow> Request \<Rightarrow> 'w scheduler \<Rightarrow> 'w scheduler comp" where
  "sched_add_request x c r s =
     (case find_request (request_id r) s of
        Some existing \<Rightarrow>
          let update = from_request r in
          if status existing \<noteq> WAITING_FOR_STREAMING_REQ then
            (case streaming_queue existing of
               None \<Rightarrow> Some (Inl AssertionError)
             | Some q \<Rightarrow> ret (put_req (existing\<lparr>streaming_queue := Some (q @ [update])\<rparr>) s))
          else
            (case update of
               Some u \<Rightarrow> run_then (update_request_as_session x existing u s) (\<lambda>(_, s). ret s)
             | None \<Rightarrow> run_then (Some (finish_requests x c (Some [request_id r]) FINISHED_ABORTED s)) (\<lambda>(_, s). ret s))
      | None \<Rightarrow>
          let r = (if resumable r then r\<lparr>streaming_queue := Some []\<rparr> else r);
              s = enqueue_waiting_request c r (put_req r s);
              s = s\<lparr>requests := requests s @ [request_id r]\<rparr>
          in ret (if has_connector x then s\<lparr>ext := on_new_request x r (ext s)\<rparr> else s))"

section \<open>Transfers of the KV connector\<close>

definition update_from_kv_xfer_finished :: "'w externals \<Rightarrow> sched_config \<Rightarrow> KVConnectorOutput \<Rightarrow> 'w scheduler \<Rightarrow> 'w scheduler result" where
  "update_from_kv_xfer_finished x c out s =
     (let s = (if has_connector x then s\<lparr>ext := update_connector_output x out (ext s)\<rparr> else s) in
      and_then (for_each (\<lambda>rid s.
          case find_request rid s of
            None \<Rightarrow> Inl AssertionError
          | Some r \<Rightarrow>
              if status r = WAITING_FOR_REMOTE_KVS
              then Inr (s\<lparr>finished_recving_kv_req_ids := set_add rid (finished_recving_kv_req_ids s)\<rparr>)
              else and_then (py_assert (is_finished r)) (\<lambda>_. drop_request c r s)) (finished_recving out) s) (\<lambda>s.
      for_each (\<lambda>rid s.
          case find_request rid s of None \<Rightarrow> Inl AssertionError | Some r \<Rightarrow> drop_request c r s) (finished_sending out) s))"

text \<open>
  The scan of a request for invalid blocks: whether it is affected, whether it marked one itself, its new number of computed tokens, the
  affected tokens, the blocks marked so far and the blocks to evict.
\<close>

record block_scan =
  bs_affected :: bool
  bs_marked_own :: bool
  bs_computed :: int
  bs_tokens :: int
  bs_marked :: "int list"
  bs_evict :: "int list"

definition scan_block :: "int \<Rightarrow> int list \<Rightarrow> int \<Rightarrow> bool \<Rightarrow> int list \<Rightarrow> nat \<times> int \<Rightarrow> block_scan \<Rightarrow> block_scan" where
  "scan_block block_size invalid req_computed evicting ids = (\<lambda>(idx, b) sc.
     if b \<notin> set invalid then sc
     else
       let sc = sc\<lparr>bs_affected := True\<rparr> in
       if b \<in> set (bs_marked sc) then sc
       else
         let sc = sc\<lparr>bs_marked := set_add b (bs_marked sc)\<rparr> in
         if bs_marked_own sc then sc
         else sc\<lparr>bs_marked_own := True, bs_computed := int idx * block_size,
                 bs_tokens := bs_tokens sc + (req_computed - int idx * block_size),
                 bs_evict := (if evicting then fold set_add (drop idx ids) (bs_evict sc) else bs_evict sc)\<rparr>)"

definition scan_request ::
    "sched_config \<Rightarrow> int list \<Rightarrow> (string, int) dict \<Rightarrow> bool \<Rightarrow> string \<Rightarrow> (string list \<times> int \<times> int list \<times> int list) \<times> 'w scheduler
     \<Rightarrow> ((string list \<times> int \<times> int list \<times> int list) \<times> 'w scheduler) result" where
  "scan_request c invalid scheduled evicting rid = (\<lambda>((affected, tokens, marked, evict), s).
     and_then (get_req rid s) (\<lambda>r.
     and_then (case km_get_block_ids rid (kv_manager s) of [ids] \<Rightarrow> Inr ids | _ \<Rightarrow> Inl ValueError) (\<lambda>ids.
     let req_computed = num_computed_tokens r - (case dict_get scheduled rid of None \<Rightarrow> 0 | Some n \<Rightarrow> n) in
     and_then (py_div (req_computed + sc_block_size c - 1) (sc_block_size c)) (\<lambda>num_blocks.
     let sc = fold (scan_block (sc_block_size c) invalid req_computed evicting ids) (zip [0..<nat num_blocks] ids)
           \<lparr>bs_affected = False, bs_marked_own = False, bs_computed = num_computed_tokens r, bs_tokens = tokens, bs_marked = marked, bs_evict = evict\<rparr>;
         unmarked = (bs_affected sc \<and> \<not> bs_marked_own sc);
         tokens = (if unmarked then bs_tokens sc + (num_computed_tokens r - req_computed) else bs_tokens sc);
         computed = (if unmarked then req_computed else bs_computed sc)
     in Inr ((if bs_affected sc then set_add rid affected else affected, tokens, bs_marked sc, bs_evict sc),
             put_req (r\<lparr>num_computed_tokens := computed\<rparr>) s)))))"

definition update_requests_with_invalid_blocks ::
    "sched_config \<Rightarrow> string list \<Rightarrow> int list \<Rightarrow> (string, int) dict \<Rightarrow> bool \<Rightarrow> 'w scheduler
     \<Rightarrow> ((string list \<times> int \<times> int list) \<times> 'w scheduler) result" where
  "update_requests_with_invalid_blocks c ids invalid scheduled evicting s =
     and_then (for_each (scan_request c invalid scheduled evicting) ids (([], 0, [], []), s)) (\<lambda>((affected, tokens, _, evict), s).
     Inr ((affected, tokens, evict), s))"

definition handle_invalid_blocks ::
    "'w externals \<Rightarrow> sched_config \<Rightarrow> int list \<Rightarrow> (string, int) dict \<Rightarrow> 'w scheduler \<Rightarrow> (string list \<times> 'w scheduler) result" where
  "handle_invalid_blocks x c invalid scheduled s =
     (let loading = map request_id (filter (\<lambda>r. status r = WAITING_FOR_REMOTE_KVS) (queue_iter (queue_of (policy c) s (skipped_waiting s)))) in
      and_then (update_requests_with_invalid_blocks c loading invalid scheduled False s) (\<lambda>((async_failed, _, _), s).
      and_then (update_requests_with_invalid_blocks c (running s) invalid scheduled True s) (\<lambda>((sync_failed, _, evict), s).
      if async_failed = [] \<and> sync_failed = [] then Inr ([], s)
      else
        and_then (if evict \<noteq> [] \<and> \<not> recompute_kv_load_failures c
                  then and_then (km_evict_blocks (int_event_hashes x) evict (kv_manager s)) (\<lambda>km. Inr (s\<lparr>kv_manager := km\<rparr>)) else Inr s) (\<lambda>s.
        if \<not> recompute_kv_load_failures c then Inr (fold set_add sync_failed async_failed, s)
        else Inr (sync_failed, s\<lparr>failed_recving_kv_req_ids := fold set_add async_failed (failed_recving_kv_req_ids s)\<rparr>)))))"

section \<open>The output of a step\<close>

record 'w update_state =
  up_sched :: "'w scheduler"
  up_outputs :: "(int, EngineCoreOutput list) dict"
  stopped_running :: "string list"
  stopped_preempted :: "string list"

text \<open>The tokens in flight and the stale share.\<close>

definition settle_in_flight :: "int \<Rightarrow> Request \<Rightarrow> (bool \<times> Request) result" where
  "settle_in_flight n r =
     (let r = r\<lparr>num_in_flight_tokens := num_in_flight_tokens r - n\<rparr> in
      if num_stale_output_tokens r > 0
      then and_then (py_assert (num_stale_output_tokens r - n \<ge> 0)) (\<lambda>_.
           Inr (True, r\<lparr>num_stale_output_tokens := num_stale_output_tokens r - n\<rparr>))
      else Inr (False, r))"

definition reject_drafts :: "sched_config \<Rightarrow> int list \<Rightarrow> int list \<Rightarrow> bool \<Rightarrow> Request \<Rightarrow> Request" where
  "reject_drafts c spec generated stale r =
     (if spec \<noteq> [] \<and> (generated \<noteq> [] \<or> num_sampled_tokens_per_step c = 0) \<and> \<not> stale
      then let num_rejected = int (length spec) - max (int (length generated) - num_sampled_tokens_per_step c) 0 in
           r\<lparr>num_computed_tokens := (if num_computed_tokens r > 0 then num_computed_tokens r - num_rejected else num_computed_tokens r),
             num_output_placeholders := (if num_output_placeholders r > 0 then num_output_placeholders r - num_rejected else num_output_placeholders r)\<rparr>
      else r)"

definition take_output ::
    "'w externals \<Rightarrow> sched_config \<Rightarrow> int list \<Rightarrow> bytes option \<Rightarrow> bool \<Rightarrow> Request \<Rightarrow> 'w scheduler
     \<Rightarrow> (int list \<times> bool \<times> Request \<times> 'w scheduler) comp" where
  "take_output x c generated pooled stale r s =
     (if generated \<noteq> [] then update_request_with_output x c r generated stale s
      else if pooling_params r \<noteq> None \<and> pooled \<noteq> None \<or> is_mm_encoder_only c \<and> num_computed_tokens r \<ge> num_prompt_tokens r
      then let r = r\<lparr>status := FINISHED_STOPPED\<rparr> in ret ([], True, r, put_req r s)
      else ret ([], False, r, s))"

definition advance_grammar ::
    "'w externals \<Rightarrow> int list \<Rightarrow> bool \<Rightarrow> Request \<Rightarrow> 'w scheduler \<Rightarrow> (bool \<times> Request \<times> 'w scheduler)" where
  "advance_grammar x new_token_ids stopped r s =
     (if new_token_ids = [] then (stopped, r, s)
      else
        let (advance, w) = should_advance x r new_token_ids (ext s); s = s\<lparr>ext := w\<rparr> in
        if \<not> advance then (stopped, r, s)
        else
          let ids = trim_reasoning_for_advance x r new_token_ids w in
          if ids = [] then (stopped, r, s)
          else
            let (accepted, w) = accept_tokens x (request_id r) ids w; s = s\<lparr>ext := w\<rparr> in
            if accepted then (stopped, r, s)
            else let r = r\<lparr>status := FINISHED_ERROR, resumable := False\<rparr> in (True, r, put_req r s))"

text \<open>A request that stopped is freed, or waits for the next input of its session.\<close>

definition stop_request ::
    "'w externals \<Rightarrow> sched_config \<Rightarrow> bool \<Rightarrow> Request \<Rightarrow> 'w update_state \<Rightarrow> (Request \<times> 'w update_state) comp" where
  "stop_request x c was_running r st =
     run_then (handle_stopped_request x c r (up_sched st)) (\<lambda>(finished, r, s).
     run_then (Some (if finished then free_request x c r False s else Inr s)) (\<lambda>s.
     let st = st\<lparr>up_sched := s\<rparr> in
     ret (r, if was_running then st\<lparr>stopped_running := set_add (request_id r) (stopped_running st)\<rparr>
             else st\<lparr>stopped_preempted := set_add (request_id r) (stopped_preempted st)\<rparr>)))"

definition emit_output :: "Request \<Rightarrow> EngineCoreOutput \<Rightarrow> 'w update_state \<Rightarrow> 'w update_state" where
  "emit_output r out st =
     st\<lparr>up_outputs := dict_set (client_index r) ((case dict_get (up_outputs st) (client_index r) of None \<Rightarrow> [] | Some os \<Rightarrow> os) @ [out]) (up_outputs st)\<rparr>"

definition process_live_output ::
    "'w externals \<Rightarrow> sched_config \<Rightarrow> SchedulerOutput \<Rightarrow> ModelRunnerOutput \<Rightarrow> string \<Rightarrow> bool \<Rightarrow> Request \<Rightarrow> 'w update_state \<Rightarrow> 'w update_state comp" where
  "process_live_output x c so mo rid stale r st =
     run_then (Some (case dict_get (req_id_to_index mo) rid of None \<Rightarrow> Inl KeyError | Some i \<Rightarrow> Inr i)) (\<lambda>req_index.
     run_then (Some (if sampled_token_ids mo \<noteq> [] then py_index (sampled_token_ids mo) req_index else Inr [])) (\<lambda>generated.
     let spec = (case dict_get (so_scheduled_spec_decode_tokens so) rid of None \<Rightarrow> [] | Some ids \<Rightarrow> ids);
         r = reject_drafts c spec generated stale r;
         s = put_req r (up_sched st)
     in
     run_then (Some (if has_encoder_inputs r then free_encoder_inputs c r s else Inr s)) (\<lambda>s.
     run_then (Some (if pooler_output mo \<noteq> [] then py_index (pooler_output mo) req_index else Inr None)) (\<lambda>pooled.
     let was_running = (status r = RUNNING) in
     run_then (take_output x c generated pooled stale r s) (\<lambda>(new_token_ids, stopped, r, s).
     let (stopped, r, s) = advance_grammar x new_token_ids stopped r s;
         should_emit = (new_token_ids \<noteq> [] \<or> pooled \<noteq> None \<or> stopped);
         finish_reason = (if stopped then get_finished_reason r else None);
         st = st\<lparr>up_sched := s\<rparr>
     in
     run_then (if stopped then stop_request x c was_running r st else ret (r, st)) (\<lambda>(r, st).
     let r = (case mr_num_nans_in_logits mo of
           None \<Rightarrow> r
         | Some d \<Rightarrow> (case dict_get d rid of None \<Rightarrow> r | Some n \<Rightarrow> r\<lparr>Request.num_nans_in_logits := n\<rparr>));
         st = st\<lparr>up_sched := put_req r (up_sched st)\<rparr>
     in
     if should_emit
     then ret (emit_output r \<lparr>eo_request_id = rid, eo_new_token_ids = new_token_ids, eo_finish_reason = finish_reason,
            eo_pooling_output = pooled, eo_stop_reason = stop_reason_of r, eo_num_nans_in_logits = Request.num_nans_in_logits r\<rparr> st)
     else run_then (Some (py_assert (rid \<notin> set (prompt_logprobs_of mo)))) (\<lambda>_. ret st)))))))"

definition process_output ::
    "'w externals \<Rightarrow> sched_config \<Rightarrow> SchedulerOutput \<Rightarrow> ModelRunnerOutput \<Rightarrow> string list \<Rightarrow> string \<times> int \<Rightarrow> 'w update_state \<Rightarrow> 'w update_state comp" where
  "process_output x c so mo failed = (\<lambda>(rid, n) st.
     run_then (Some (py_assert (n > 0))) (\<lambda>_.
     case find_request rid (up_sched st) of
       None \<Rightarrow> ret st
     | Some r \<Rightarrow>
         run_then (Some (settle_in_flight n r)) (\<lambda>(stale, r).
         let st = st\<lparr>up_sched := put_req r (up_sched st)\<rparr> in
         if rid \<in> set failed \<or> is_finished r \<or> stale \<and> drop_stale_output r then ret st
         else process_live_output x c so mo rid stale r st)))"

text \<open>A \<^verbatim>\<open>for\<close> loop over computations.\<close>

fun run_each :: "('a \<Rightarrow> 's \<Rightarrow> 's comp) \<Rightarrow> 'a list \<Rightarrow> 's \<Rightarrow> 's comp" where
  "run_each f [] s = ret s"
| "run_each f (a # as) s = run_then (f a s) (run_each f as)"

text \<open>The end of the method: queues, failed requests and transfers.\<close>

definition finish_update ::
    "'w externals \<Rightarrow> sched_config \<Rightarrow> ModelRunnerOutput \<Rightarrow> string list \<Rightarrow> 'w update_state \<Rightarrow> 'w update_state result" where
  "finish_update x c mo failed st =
     (let s = up_sched st;
          s = s\<lparr>running := remove_all (running s) (stopped_running st),
                waiting := (if stopped_preempted st \<noteq> [] then q_remove (policy c) s (waiting s) (stopped_preempted st) else waiting s),
                skipped_waiting := (if stopped_preempted st \<noteq> [] then q_remove (policy c) s (skipped_waiting s) (stopped_preempted st) else skipped_waiting s)\<rparr>;
          errors = (if failed \<noteq> [] \<and> \<not> recompute_kv_load_failures c
            then fold set_add failed (grammar_compile_error_reqs s) else grammar_compile_error_reqs s);
          s = s\<lparr>grammar_compile_error_reqs := []\<rparr>
      in
      and_then (if errors \<noteq> [] then finish_requests x c (Some errors) FINISHED_ERROR s else Inr ([], s)) (\<lambda>(finished, s).
      let st = fold (\<lambda>r. emit_output r \<lparr>eo_request_id = request_id r, eo_new_token_ids = [], eo_finish_reason = get_finished_reason r,
            eo_pooling_output = None, eo_stop_reason = None, eo_num_nans_in_logits = 0\<rparr>) finished (st\<lparr>up_sched := s\<rparr>)
      in
      and_then (case kv_connector_output mo of
          None \<Rightarrow> Inr s
        | Some out \<Rightarrow> update_from_kv_xfer_finished x c out s) (\<lambda>s.
      let s = (if has_ec_connector x \<and> has_ec_connector_output mo then s\<lparr>ext := ec_update_connector_output x (ext s)\<rparr> else s) in
      Inr (st\<lparr>up_sched := s\<lparr>kv_manager := snd (km_take_events (kv_manager s))\<rparr>\<rparr>))))"

text \<open>The result has the outputs and the finished requests of every client.\<close>

definition update_from_output ::
    "'w externals \<Rightarrow> sched_config \<Rightarrow> SchedulerOutput \<Rightarrow> ModelRunnerOutput \<Rightarrow> 'w scheduler
     \<Rightarrow> (((int, EngineCoreOutput list) dict \<times> (int, string list) dict) \<times> 'w scheduler) comp" where
  "update_from_output x c so mo s =
     run_then (Some (if defer_block_free c \<and> so_total_num_scheduled_tokens so > 0
        then drain_deferred_frees (s\<lparr>processed_step_seq := processed_step_seq s + 1\<rparr>) else Inr s)) (\<lambda>s.
     run_then (Some (case kv_connector_output mo of
         Some out \<Rightarrow> if invalid_block_ids out \<noteq> [] then handle_invalid_blocks x c (invalid_block_ids out) (so_num_scheduled_tokens so) s else Inr ([], s)
       | None \<Rightarrow> Inr ([], s))) (\<lambda>(failed, s).
     run_then (run_each (process_output x c so mo failed) (so_num_scheduled_tokens so)
        \<lparr>up_sched = s, up_outputs = [], stopped_running = [], stopped_preempted = []\<rparr>) (\<lambda>st.
     run_then (Some (finish_update x c mo failed st)) (\<lambda>st.
     let s = up_sched st in
     ret ((up_outputs st, case finished_req_ids_dict s of None \<Rightarrow> [] | Some d \<Rightarrow> d),
          s\<lparr>finished_req_ids_dict := map_option (\<lambda>_. []) (finished_req_ids_dict s)\<rparr>)))))"

section \<open>Resets, pauses and counts\<close>

fun preempt_all :: "sched_config \<Rightarrow> string list \<Rightarrow> 'w scheduler \<Rightarrow> 'w scheduler result" where
  "preempt_all c [] s = Inr s"
| "preempt_all c (rid # rids) s =
     and_then (preempt_request c rid True (s\<lparr>running := rev rids\<rparr>)) (preempt_all c rids)"

definition reset_connector_cache :: "'w externals \<Rightarrow> 'w scheduler \<Rightarrow> bool \<times> 'w scheduler" where
  "reset_connector_cache x s =
     (if \<not> has_connector x then (True, s)
      else let (done, w) = connector_reset_cache x (ext s) in (done, s\<lparr>ext := w\<rparr>))"

definition sched_reset_prefix_cache :: "'w externals \<Rightarrow> sched_config \<Rightarrow> bool \<Rightarrow> bool \<Rightarrow> 'w scheduler \<Rightarrow> (bool \<times> 'w scheduler) result" where
  "sched_reset_prefix_cache x c reset_running_requests reset_connector s =
     and_then (if reset_running_requests
               then and_then (preempt_all c (rev (running s)) s) (\<lambda>s. Inr (s\<lparr>prev_step_scheduled_req_ids := []\<rparr>)) else Inr s) (\<lambda>s.
     and_then (km_reset_prefix_cache (kv_manager s)) (\<lambda>(done, km).
     let s = s\<lparr>kv_manager := km\<rparr> in
     if reset_running_requests \<and> \<not> done then Inl RuntimeError
     else if reset_connector then (let (done', s) = reset_connector_cache x s in Inr (done' \<and> done, s))
     else Inr (done, s)))"

definition sched_reset_encoder_cache :: "'w scheduler \<Rightarrow> 'w scheduler" where
  "sched_reset_encoder_cache s = s\<lparr>encoder_cache_manager := em_reset (encoder_cache_manager s)\<rparr>"

definition set_pause_state :: "PauseState \<Rightarrow> 'w scheduler \<Rightarrow> 'w scheduler" where
  "set_pause_state p s = s\<lparr>pause_state := p\<rparr>"

definition get_request_counts :: "'w scheduler \<Rightarrow> int \<times> int" where
  "get_request_counts s = (int (length (running s)), int (length (waiting s)) + int (length (skipped_waiting s)))"

definition get_num_unfinished_requests :: "'w scheduler \<Rightarrow> int" where
  "get_num_unfinished_requests s =
     (case pause_state s of
        PAUSED_ALL \<Rightarrow> 0
      | PAUSED_NEW \<Rightarrow> int (length (running s))
      | UNPAUSED \<Rightarrow> int (length (waiting s)) + int (length (skipped_waiting s)) - num_waiting_for_streaming_input s + int (length (running s)))"

definition has_finished_requests :: "'w externals \<Rightarrow> 'w scheduler \<Rightarrow> bool" where
  "has_finished_requests x s \<longleftrightarrow>
     finished_req_ids s \<noteq> [] \<or>
     has_connector x \<and> length (requests s) > length (waiting s) + length (skipped_waiting s) + length (running s)"

definition has_requests :: "'w externals \<Rightarrow> 'w scheduler \<Rightarrow> bool" where
  "has_requests x s \<longleftrightarrow>
     get_num_unfinished_requests s > 0 \<or> has_finished_requests x s \<or>
     has_connector x \<and> connector_pending_push x (ext s) \<or> has_ec_connector x \<and> ec_pending_push x (ext s)"

definition structured_output_request_ids :: "SchedulerOutput \<Rightarrow> 'w scheduler \<Rightarrow> string list option" where
  "structured_output_request_ids out s =
     (let ids = filter (\<lambda>rid. case find_request rid s of
            None \<Rightarrow> False | Some r \<Rightarrow> use_structured_output r \<and> \<not> is_prefill_chunk r) (map fst (so_num_scheduled_tokens out))
      in if \<not> so_has_structured_output_requests out \<or> ids = [] then None else Some ids)"

end
