(* ===== verification/Request_Frame.thy ===== *)
theory Request_Frame
  imports Kv_Cache_Manager
begin

text \<open>
  The KV cache manager leaves a request as it is, except for the digests of prompt embeddings that it memorises: no operation changes the
  identity, the tokens, the features or the status of a request.
\<close>

lemma generate_extra_keys_forget: "generate_block_hash_extra_keys sha r a b i = Inr (ks, j, r') \<Longrightarrow> forget r' = forget r"
  by (auto simp: generate_block_hash_extra_keys_def result_simps Let_def split: prod.splits)
    (metis gen_prompt_embeds_forget surj_pair)

lemma event_keys_forget:
  "for_each (event_extra_keys sha blocks n bs msk s) is (r, i, acc) = Inr (r', j, acc') \<Longrightarrow> forget r' = forget r"
  using for_each_preserves [where P = "\<lambda>(q, _). forget q = forget r" and f = "event_extra_keys sha blocks n bs msk s" and xs = "is"]
  by (fastforce simp: event_extra_keys_def result_simps split: if_splits dest: generate_extra_keys_forget)

lemma cached_keys_forget:
  "for_each (cached_block_keys sha u bs hs) is (r, i, hashes, acc) = Inr (r', j, hashes', acc') \<Longrightarrow> forget r' = forget r"
  using for_each_preserves [where P = "\<lambda>(q, _). forget q = forget r" and f = "cached_block_keys sha u bs hs" and xs = "is"]
  by (fastforce simp: cached_block_keys_def result_simps dest: generate_extra_keys_forget)

lemma cache_full_blocks_forget: "cache_full_blocks sha u r bl a b bs g msk s = Inr (r', s') \<Longrightarrow> forget r' = forget r"
  by (auto simp: cache_full_blocks_def push_stored_event_def result_simps Let_def split: if_splits dest: event_keys_forget)

lemma emit_cached_forget: "emit_cached_block_events sha u r n bs g s = Inr (r', s') \<Longrightarrow> forget r' = forget r"
  by (auto simp: emit_cached_block_events_def result_simps split: if_splits dest: cached_keys_forget)

lemma cache_partial_block_forget: "cache_partial_block sha u r b n g bs s = Inr (h, r', s') \<Longrightarrow> forget r' = forget r"
  by (auto simp: cache_partial_block_def result_simps Let_def split: if_splits dest: generate_extra_keys_forget)

lemma base_cache_blocks_forget: "base_cache_blocks sha u r n ri m s = Inr (r', m', s') \<Longrightarrow> forget r' = forget r"
  by (auto simp: base_cache_blocks_def result_simps Let_def split: if_splits dest: cache_full_blocks_forget)

lemma full_tail_forget: "full_cache_partial_tail_block sha u r n m s = Inr (r', m', s') \<Longrightarrow> forget r' = forget r"
  by (auto simp: full_cache_partial_tail_block_def result_simps Let_def split: if_splits dest: cache_partial_block_forget)

lemma mamba_tail_forget: "mamba_cache_partial_tail_block sha u r n m s = Inr (h, r', m', s') \<Longrightarrow> forget r' = forget r"
  by (auto simp: mamba_cache_partial_tail_block_def result_simps Let_def split: if_splits option.splits dest: cache_partial_block_forget)

lemma full_cache_blocks_forget: "full_cache_blocks sha u r n ri m s = Inr (r', m', s') \<Longrightarrow> forget r' = forget r"
  by (auto simp: full_cache_blocks_def result_simps split: if_splits dest!: base_cache_blocks_forget full_tail_forget)

lemma mamba_cache_blocks_forget: "mamba_cache_blocks sha u r n ri m s = Inr (r', m', s') \<Longrightarrow> forget r' = forget r"
  by (auto simp: mamba_cache_blocks_def result_simps Let_def split: if_splits dest!: base_cache_blocks_forget mamba_tail_forget)

lemma cache_blocks_forget: "cache_blocks sha u r n ri m s = Inr (r', m', s') \<Longrightarrow> forget r' = forget r"
  by (auto simp: cache_blocks_def split: manager_class.splits
      dest: base_cache_blocks_forget full_cache_blocks_forget mamba_cache_blocks_forget)

lemma cache_all_forget: "cache_all sha u ri n r ms s = Inr (r', ms', s') \<Longrightarrow> forget r' = forget r"
proof (induction ms arbitrary: r s ms')
  case (Cons m ms)
  then show ?case by (auto simp: result_simps dest!: cache_blocks_forget)
qed simp

lemma co_cache_blocks_forget: "co_cache_blocks sha u r n c = Inr (r', c') \<Longrightarrow> forget r' = forget r"
  by (auto simp: co_cache_blocks_def result_simps dest: cache_all_forget)

lemma km_cache_blocks_forget: "km_cache_blocks sha u r n km = Inr (r', km') \<Longrightarrow> forget r' = forget r"
  by (auto simp: km_cache_blocks_def result_simps split: if_splits dest: co_cache_blocks_forget)

lemma emit_reused_forget:
  "emit_reused sha u cfg bl (r, s) = Inr (r', s') \<Longrightarrow> forget r' = forget r"
  using for_each_preserves [where P = "\<lambda>(q, _). forget q = forget r" and xs = "enumerate 0 bl"] unfolding emit_reused_def
  by (fastforce simp: result_simps split: if_splits dest: emit_cached_forget)

lemma get_computed_blocks_forget:
  "get_computed_blocks sha u full r km = Some (Inr (hit, r', km')) \<Longrightarrow> forget r' = forget r"
  by (auto simp: get_computed_blocks_def result_simps split: if_splits dest: emit_reused_forget)

lemma get_computed_for_connector_forget:
  "get_computed_blocks_for_connector sha u full r km = Some (Inr (hit, r', km')) \<Longrightarrow> forget r' = forget r"
  by (auto simp: get_computed_blocks_for_connector_def result_simps Let_def split: if_splits option.splits sum.splits dest: get_computed_blocks_forget)

lemma allocate_slots_forget:
  "allocate_slots sha u r n l nb la e d et full rb h km = Inr (res, r', km') \<Longrightarrow> forget r' = forget r"
  by (auto simp: allocate_slots_def result_simps Let_def split: if_splits dest: co_cache_blocks_forget)

end
