(* ===== verification/Sched_Sample.thy ===== *)
theory Sched_Sample
  imports Sched_State Kv_Manager_Refs
begin

text \<open>A small scheduler without plug-ins, with a request that waits, at which the theorems about it are instantiated.\<close>

definition sample_config :: sched_config where
  "sample_config =
     \<lparr>is_async = False, policy = FCFS, max_num_running_reqs = 2, max_num_scheduled_tokens = 8, max_num_batched_tokens = 8, sc_model_len = 16,
      long_prefill_token_threshold = 0, enable_chunked_prefill = True, no_chunked_mm_input = False, scheduler_reserve_full_isl = False,
      num_sampled_tokens_per_step = 1, num_spec_tokens = 0, num_lookahead_tokens = 0, num_prefill_lookahead = 0, draft_slots = 0,
      dynamic_sd_lookup = None, sc_use_eagle = False, cache_block_size = 2, sc_block_size = 2, sc_hash_block_size = 2,
      need_mamba_block_aligned_split = False, mamba_has_prefill_checkpoint_blocks = False, mamba_partial_cache_hit = False,
      sc_needs_zeroing = False, is_encoder_decoder = False, is_mm_encoder_only = False, encoder_budget = 0, max_loras = None,
      defer_block_free = False, requires_kv_delivery = False, recompute_kv_load_failures = True, is_kv_producer = False,
      use_v2_model_runner = False, use_pp = False, async_scheduling = False, pp_size = 1\<rparr>"

definition no_plugins :: "unit externals" where
  "no_plugins =
     \<lparr>has_connector = False, has_ec_connector = False, supports_divergent_local_hybrid_hits = False, supports_hma = False,
      get_num_new_matched_tokens = (\<lambda>_ _ w. ((Some 0, False), w)), update_state_after_alloc = (\<lambda>_ _ _ w. w), on_new_request = (\<lambda>_ w. w),
      request_finished = (\<lambda>_ _ w. (False, w)), request_finished_all_groups = (\<lambda>_ _ w. (False, w)), build_connector_meta = (\<lambda>_ w. w),
      update_connector_output = (\<lambda>_ w. w), connector_reset_cache = (\<lambda>w. (True, w)), connector_pending_push = (\<lambda>_. False),
      ensure_cache_available = (\<lambda>_ _ w. (True, w)), has_cache_item = (\<lambda>_ _. False), ec_update_state_after_alloc = (\<lambda>_ _ w. w),
      ec_request_finished = (\<lambda>_ w. (False, w)), ec_build_connector_meta = (\<lambda>_ w. w), ec_update_connector_output = (\<lambda>w. w), ec_pending_push = (\<lambda>_. False),
      grammar_of = (\<lambda>_ _. NoGrammar), should_advance = (\<lambda>_ _ w. (False, w)), trim_reasoning_for_advance = (\<lambda>_ ids _. ids),
      accept_tokens = (\<lambda>_ _ w. (True, w)), validate_tokens = (\<lambda>_ ids _. ids), block_hasher_of = None, embed_digest = (\<lambda>b. b),
      int_event_hashes = True, reports_full = (\<lambda>_. True)\<rparr>"

text \<open>A prompt of three tokens: one full block and a tail.\<close>

definition sample_request :: Request where
  "sample_request = text_request [5, 6, 7] [[1]]"

definition sample_scheduler :: "unit scheduler" where
  "sample_scheduler =
     \<lparr>objects = [(''r'', sample_request)], requests = [''r''], waiting = [''r''], skipped_waiting = [], running = [], finished_req_ids = [],
      finished_req_ids_dict = None, prev_step_scheduled_req_ids = [], reset_preempted_req_ids = [], num_waiting_for_streaming_input = 0,
      finished_recving_kv_req_ids = [], failed_recving_kv_req_ids = [], grammar_compile_error_reqs = [],
      encoder_cache_manager = EncCache (EncoderCacheManager_init 0), kv_manager = demo_km, current_step = 0, prefill_capacity_bound = False,
      skip_zero_block_ids = [], sched_step_seq = 0, processed_step_seq = 0, deferred_frees = [], pause_state = UNPAUSED,
      inflight_prefills = [], ext = ()\<rparr>"

lemma sample_request_sel [simp]: "request_id sample_request = ''r''" "mm_features sample_request = []"
  by (simp_all add: sample_request_def text_request_def fresh_request_def text_message_def)

end
