(* ===== verification/Sched_Encoder.thy ===== *)
theory Sched_Encoder
  imports Sched_Chunk Sched_Sample
begin

text \<open>
  No placeholder token is computed before its encoder output is there: the contract of \<^verbatim>\<open>_try_schedule_encoder_inputs\<close>.  The
  chunks of Mamba models end where their states can be cached.
\<close>

section \<open>The window of features\<close>

lemma bisect_loop_correct:
  assumes "sorted keys" and "lo \<le> hi" "hi \<le> length keys"
    and "\<forall>i < lo. keys ! i < x" and "\<forall>i. hi \<le> i \<and> i < length keys \<longrightarrow> x \<le> keys ! i"
  shows "bisect_loop keys x lo hi \<le> length keys \<and> (\<forall>i < length keys. keys ! i < x \<longleftrightarrow> i < bisect_loop keys x lo hi)"
  using assms
proof (induction keys x lo hi rule: bisect_loop.induct)
  case (1 keys x lo hi)
  let ?mid = "(lo + hi) div 2"
  consider "\<not> lo < hi" | "lo < hi" "keys ! ?mid < x" | "lo < hi" "\<not> keys ! ?mid < x" by blast
  then show ?case
  proof cases
    case 1
    then have "lo = hi" using "1.prems" by simp
    moreover have "bisect_loop keys x lo hi = lo" using 1 by (simp add: bisect_loop.simps [of _ _ lo hi])
    ultimately show ?thesis using "1.prems" by (metis not_less)
  next
    case 2
    have "keys ! i < x" if "i < ?mid + 1" for i
    proof -
      have "keys ! i \<le> keys ! ?mid" by (rule sorted_nth_mono) (use "1.prems" 2 that in auto)
      with 2 show ?thesis by simp
    qed
    then have "bisect_loop keys x (?mid + 1) hi \<le> length keys \<and> (\<forall>i < length keys. keys ! i < x \<longleftrightarrow> i < bisect_loop keys x (?mid + 1) hi)"
      using "1.prems" 2 by (intro "1.IH"(1)) auto
    then show ?thesis using 2 by (simp add: bisect_loop.simps [of _ _ lo hi] Let_def)
  next
    case 3
    have "x \<le> keys ! i" if "?mid \<le> i" "i < length keys" for i
    proof -
      have "keys ! ?mid \<le> keys ! i" by (rule sorted_nth_mono) (use "1.prems" that in auto)
      with 3 show ?thesis by simp
    qed
    then have "bisect_loop keys x lo ?mid \<le> length keys \<and> (\<forall>i < length keys. keys ! i < x \<longleftrightarrow> i < bisect_loop keys x lo ?mid)"
      using "1.prems" 3 by (intro "1.IH"(2)) auto
    then show ?thesis using 3 by (simp add: bisect_loop.simps [of _ _ lo hi] Let_def)
  qed
qed

lemma bisect_left_le: "sorted keys \<Longrightarrow> bisect_left keys x \<le> length keys"
  using bisect_loop_correct [of keys 0 "length keys" x] by (auto simp: bisect_left_def)

lemma bisect_left_iff: "sorted keys \<Longrightarrow> i < length keys \<Longrightarrow> i < bisect_left keys x \<longleftrightarrow> keys ! i < x"
  using bisect_loop_correct [of keys 0 "length keys" x] by (auto simp: bisect_left_def)

lemma nth_in_slice: "a \<le> k \<Longrightarrow> k < b \<Longrightarrow> k < length xs \<Longrightarrow> xs ! k \<in> set (drop a (take b xs))"
  by (auto simp: in_set_conv_nth intro!: exI [of _ "k - a"])

text \<open>What the code assumes of the features of a request: sorted, not overlapping, one mask entry per position.\<close>

definition ordered_features :: "MultiModalFeatureSpec list \<Rightarrow> bool" where
  "ordered_features fs \<longleftrightarrow> sorted (map mm_offset fs) \<and> sorted (map mm_end fs) \<and>
     (\<forall>f \<in> set fs. 0 \<le> pr_length (mm_position f) \<and>
        (case pr_is_embed (mm_position f) of None \<Rightarrow> True | Some m \<Rightarrow> int (length m) = pr_length (mm_position f)))"

text \<open>The token at position \<open>p\<close> takes its embedding from the encoder output of the feature.\<close>

definition embed_at :: "MultiModalFeatureSpec \<Rightarrow> int \<Rightarrow> bool" where
  "embed_at f p \<longleftrightarrow> mm_offset f \<le> p \<and> p < mm_end f \<and>
     (case pr_is_embed (mm_position f) of None \<Rightarrow> True | Some m \<Rightarrow> m ! nat (p - mm_offset f))"

lemma window_correct:
  assumes "ordered_features fs" and "get_mm_features_in_window fs a b = (lo, hi)" and "i < length fs"
  shows "i < lo \<longleftrightarrow> mm_end (fs ! i) \<le> a" and "i < hi \<longleftrightarrow> mm_offset (fs ! i) < b" and "hi \<le> length fs"
proof -
  have lo: "lo = bisect_left (map mm_end fs) (a + 1)" and hi: "hi = bisect_left (map mm_offset fs) b"
    using assms(2) by (simp_all add: get_mm_features_in_window_def)
  have "sorted (map mm_end fs)" "sorted (map mm_offset fs)" using assms(1) by (simp_all add: ordered_features_def)
  note ends = this
  show "i < lo \<longleftrightarrow> mm_end (fs ! i) \<le> a" using bisect_left_iff [OF ends(1)] assms(3) unfolding lo by auto
  show "i < hi \<longleftrightarrow> mm_offset (fs ! i) < b" "hi \<le> length fs"
    using bisect_left_iff [OF ends(2)] bisect_left_le [OF ends(2)] assms(3) unfolding hi by auto
qed

lemma no_embeds_in_range:
  assumes "get_embeds_indices_in_range (mm_position f) (max 0 (a - mm_offset f)) (min (pr_length (mm_position f)) (b - mm_offset f)) = Inr (s, e)"
    and "e - s = 0" and "case pr_is_embed (mm_position f) of None \<Rightarrow> True | Some m \<Rightarrow> int (length m) = pr_length (mm_position f)"
    and "mm_offset f < b" "a < mm_end f" "a < b" and p: "a \<le> p" "p < b"
  shows "\<not> embed_at f p"
proof
  assume e: "embed_at f p"
  let ?s = "max 0 (a - mm_offset f)" and ?e = "min (pr_length (mm_position f)) (b - mm_offset f)" and ?k = "nat (p - mm_offset f)"
  have k: "nat ?s \<le> ?k" "?k < nat ?e" "?s \<le> ?e" using e p assms(4,5,6) by (auto simp: embed_at_def)
  show False
  proof (cases "pr_is_embed (mm_position f)")
    case None
    then show ?thesis using assms(1,2) k by (auto simp: get_embeds_indices_in_range_def embeds_cumsum_def)
  next
    case (Some m)
    have len: "int (length m) = pr_length (mm_position f)" using assms(3) Some by simp
    have "filter id (take (nat ?e) m) = filter id (take (nat ?s) m) @ filter id (drop (nat ?s) (take (nat ?e) m))"
      by (metis append_take_drop_id filter_append k(3) min.absorb1 nat_mono take_take)
    moreover have "length (filter id (take (nat ?s) m)) = length (filter id (take (nat ?e) m))"
      using get_embeds_indices_length [OF Some, of ?s ?e] k(3) len assms(1,2) by auto
    ultimately have "filter id (drop (nat ?s) (take (nat ?e) m)) = []" by simp
    moreover have "m ! ?k \<in> set (drop (nat ?s) (take (nat ?e) m))"
      using k len by (intro nth_in_slice) auto
    ultimately have "\<not> m ! ?k" by (auto simp: filter_empty_conv)
    then show False using e Some by (simp add: embed_at_def)
  qed
qed

lemma embeds_range_defined:
  assumes "case pr_is_embed (mm_position f) of None \<Rightarrow> True | Some m \<Rightarrow> int (length m) = pr_length (mm_position f)"
    and "mm_offset f < b" "a < mm_end f" "a < b"
  shows "\<exists>s e. get_embeds_indices_in_range (mm_position f) (max 0 (a - mm_offset f)) (min (pr_length (mm_position f)) (b - mm_offset f)) = Inr (s, e)"
proof (cases "pr_is_embed (mm_position f)")
  case None
  then show ?thesis by (simp add: get_embeds_indices_in_range_def embeds_cumsum_def)
next
  case (Some m)
  then have len: "int (length m) = pr_length (mm_position f)" using assms(1) by simp
  then have "0 \<le> pr_length (mm_position f)" by (metis of_nat_0_le_iff)
  then show ?thesis using assms(2-) len by (subst get_embeds_indices_length [OF Some]) auto
qed

section \<open>The loop over the inputs\<close>

text \<open>The encoder output of an item is in the cache and referenced.\<close>

definition held :: "EncoderCacheManager \<Rightarrow> string \<Rightarrow> bool" where
  "held m h \<longleftrightarrow> (\<exists>a as. dict_get (cached m) h = Some (a # as))"

text \<open>The encoder output of the \<open>i\<close>-th feature is in the cache, or is encoded or loaded in this step.\<close>

definition available :: "Request \<Rightarrow> int list \<Rightarrow> EncoderCacheManager \<Rightarrow> nat \<Rightarrow> bool" where
  "available r ids m i \<longleftrightarrow> held m (item_of r (int i)) \<or> item_of r (int i) \<in> item_of r ` set ids"

definition embeds_of :: "Request \<Rightarrow> int list \<Rightarrow> int" where
  "embeds_of r ids = (\<Sum>i \<leftarrow> ids. get_num_embeds (mm_position (mm_features r ! nat i)))"

lemma embeds_of_simps [simp]: "embeds_of r [] = 0" "embeds_of r (xs @ ys) = embeds_of r xs + embeds_of r ys"
  "embeds_of r (i # xs) = get_num_embeds (mm_position (mm_features r ! nat i)) + embeds_of r xs"
  by (simp_all add: embeds_of_def)

lemma check_and_update_holds:
  assumes "check_and_update_cache r i m = Inr (b, m')" and "0 \<le> i" "i < int (length (mm_features r))"
  shows "b \<Longrightarrow> held m' (item_of r i)" and "held m h \<Longrightarrow> held m' h"
  using assms
  by (auto simp: check_and_update_cache_def result_simps mm_hash_of_def py_index_nonneg held_def note_cached_id_def Let_def
      update_conv' set_add_def neq_Nil_conv split: option.splits if_splits)

text \<open>The state of the loop before the item \<open>k\<close>.\<close>

definition scan_inv :: "(string \<Rightarrow> int) \<Rightarrow> Request \<Rightarrow> int \<Rightarrow> int \<Rightarrow> int \<Rightarrow> int \<Rightarrow> nat \<Rightarrow> nat \<Rightarrow> EncoderCacheManager \<Rightarrow> encoder_scan \<Rightarrow> bool" where
  "scan_inv sz r a n shift budget lo k m st \<longleftrightarrow>
     es_manager st = EncCache m \<and> enc_inv sz m \<and> es_new_tokens st = n \<and>
     es_budget st = budget - embeds_of r (es_inputs st) \<and> 0 \<le> es_budget st \<and>
     es_embeds st = embeds_of r (es_inputs st @ es_external st) \<and> es_embeds st \<le> num_free_slots m \<and>
     set (es_hashes st) = item_of r ` set (es_inputs st @ es_external st) \<and>
     (\<forall>i. lo \<le> i \<and> i < k \<longrightarrow> available r (es_inputs st @ es_external st) m i \<or>
        (\<forall>p. a \<le> p \<and> p < a + n + shift \<longrightarrow> \<not> embed_at (mm_features r ! i) p))"

text \<open>The tokens that are left when the loop stops at the item \<open>k\<close>.\<close>

definition cut_before :: "Request \<Rightarrow> int \<Rightarrow> int \<Rightarrow> nat \<Rightarrow> int \<Rightarrow> bool" where
  "cut_before r a shift k n' \<longleftrightarrow> 0 \<le> n' \<and> (n' \<noteq> 0 \<longrightarrow> a + shift + n' = mm_offset (mm_features r ! k))"

definition steps_to :: "(string \<Rightarrow> int) \<Rightarrow> Request \<Rightarrow> int \<Rightarrow> int \<Rightarrow> int \<Rightarrow> int \<Rightarrow> nat \<Rightarrow> nat \<Rightarrow> encoder_scan loop_step result \<Rightarrow> bool" where
  "steps_to sz r a n shift budget lo k res \<longleftrightarrow>
     (\<exists>st m. res = Inr (Again st) \<and> scan_inv sz r a n shift budget lo (Suc k) m st) \<or>
     (\<exists>st m n'. res = Inr (Done (st\<lparr>es_new_tokens := n'\<rparr>)) \<and> scan_inv sz r a n shift budget lo k m st \<and> cut_before r a shift k n')"

lemma steps_to_cut:
  "res = Inr (Done (st\<lparr>es_new_tokens := n'\<rparr>)) \<Longrightarrow> scan_inv sz r a n shift budget lo k m st \<Longrightarrow> cut_before r a shift k n' \<Longrightarrow>
   steps_to sz r a n shift budget lo k res"
  unfolding steps_to_def by blast

lemma scan_inv_manager:
  assumes "scan_inv sz r a n shift budget lo k m st" and "enc_inv sz m'" and "\<And>h. held m h \<Longrightarrow> held m' h" and "es_embeds st \<le> num_free_slots m'"
  shows "scan_inv sz r a n shift budget lo k m' (st\<lparr>es_manager := EncCache m'\<rparr>)"
  using assms by (auto simp: scan_inv_def available_def)

lemma scan_schedule:
  assumes inv: "scan_inv sz r a n shift budget lo k m st" and r: "sized sz r" "k < length (mm_features r)"
    and f: "case pr_is_embed (mm_position (mm_features r ! k)) of None \<Rightarrow> True | Some q \<Rightarrow> int (length q) = pr_length (mm_position (mm_features r ! k))"
    and w: "mm_offset (mm_features r ! k) < a + n + shift" "a < mm_end (mm_features r ! k)" "0 < n" "0 \<le> shift"
  shows "steps_to sz r a n shift budget lo k (schedule_encoder_input x c wld r a shift k (mm_features r ! k) st)" (is "steps_to _ _ _ _ _ _ _ _ ?res")
proof -
  let ?f = "mm_features r ! k"
  have k: "0 \<le> int k" "int k < int (length (mm_features r))" using r by simp_all
  have h: "get_num_embeds (mm_position ?f) = sz (item_of r (int k))" using r by (auto simp: sized_def)
  note I = inv [unfolded scan_inv_def]
  have mg: "es_manager st = EncCache m" "es_new_tokens st = n" using I by blast+
  show ?thesis
  proof (cases "no_chunked_mm_input c \<and> a < mm_offset ?f \<and> a + es_new_tokens st < mm_end ?f")
    case True
    then have "?res = Inr (Done (st\<lparr>es_new_tokens := max 0 (mm_offset ?f - (a + shift))\<rparr>))"
      by (simp add: schedule_encoder_input_def Let_def)
    then show ?thesis by (rule steps_to_cut [OF _ inv]) (auto simp: cut_before_def)
  next
    case False
    from can_allocate_correct [OF _ r(1) k, of m "es_budget st" "es_embeds st"] I obtain b m1 where
      b: "can_allocate r (int k) (es_budget st) (es_embeds st) m = Inr (b, m1)" and m1: "enc_inv sz m1"
      "b = (sz (item_of r (int k)) \<le> es_budget st \<and> sz (item_of r (int k)) + es_embeds st \<le> num_freeable_slots m)" "\<not> b \<longrightarrow> m1 = m"
      "b \<longrightarrow> sz (item_of r (int k)) + es_embeds st \<le> num_free_slots m1"
      "\<forall>h. dict_get (cached m) h \<noteq> Some [] \<longrightarrow> dict_get (cached m1) h = dict_get (cached m) h" by blast
    have pos: "0 \<le> sz (item_of r (int k))" using m1(1) by (simp add: enc_inv_def)
    have held: "held m1 h" if "held m h" for h using m1(5) that by (auto simp: held_def)
    let ?st = "st\<lparr>es_manager := EncCache m1\<rparr>"
    have inv1: "scan_inv sz r a n shift budget lo k m1 ?st"
      by (rule scan_inv_manager [OF inv m1(1) held]) (use I m1(3,4) pos in force)+
    show ?thesis
    proof (cases b)
      case nb: False
      then have "?res = Inr (Done (?st\<lparr>es_new_tokens := (if a + shift < mm_offset ?f then mm_offset ?f - (a + shift) else 0)\<rparr>))"
        using False mg b by (auto simp: schedule_encoder_input_def Let_def)
      then show ?thesis by (rule steps_to_cut [OF _ inv1]) (auto simp: cut_before_def)
    next
      case True
      obtain s e where se: "get_embeds_indices_in_range (mm_position ?f) (max 0 (a - mm_offset ?f))
          (min (pr_length (mm_position ?f)) (a + n + shift - mm_offset ?f)) = Inr (s, e)"
        using embeds_range_defined [OF f w(1,2)] w(3,4) by auto
      let ?new = "?st\<lparr>es_hashes := set_add (mm_identifier ?f) (es_hashes st), es_embeds := es_embeds st + sz (item_of r (int k))\<rparr>"
      have res: "?res = Inr (Again (if e - s = 0 then ?st
          else if has_ec_connector x \<and> has_cache_item x (mm_identifier ?f) wld then ?new\<lparr>es_external := es_external st @ [int k]\<rparr>
          else ?new\<lparr>es_budget := es_budget st - sz (item_of r (int k)), es_inputs := es_inputs st @ [int k]\<rparr>))"
        using False True mg b se h by (auto simp: schedule_encoder_input_def Let_def)
      have "scan_inv sz r a n shift budget lo (Suc k) m1 ?st" if "e - s = 0"
        using inv1 no_embeds_in_range [OF se that f w(1,2)] w(3,4) by (auto simp: scan_inv_def less_Suc_eq)
      moreover have "scan_inv sz r a n shift budget lo (Suc k) m1 (?new\<lparr>es_external := es_external st @ [int k]\<rparr>)"
        using inv1 h m1(4) True by (auto simp: scan_inv_def less_Suc_eq available_def set_add_def)
      moreover have "scan_inv sz r a n shift budget lo (Suc k) m1 (?new\<lparr>es_budget := es_budget st - sz (item_of r (int k)), es_inputs := es_inputs st @ [int k]\<rparr>)"
        using inv1 h m1(2,4) True by (auto simp: scan_inv_def less_Suc_eq available_def set_add_def)
      ultimately show ?thesis using res unfolding steps_to_def by auto
    qed
  qed
qed

lemma scan_step:
  assumes inv: "scan_inv sz r a n shift budget lo k m st" and r: "sized sz r" "k < length (mm_features r)" and c: "\<not> is_encoder_decoder c"
    and f: "case pr_is_embed (mm_position (mm_features r ! k)) of None \<Rightarrow> True | Some q \<Rightarrow> int (length q) = pr_length (mm_position (mm_features r ! k))"
    and w: "mm_offset (mm_features r ! k) < a + n + shift" "a < mm_end (mm_features r ! k)" "0 < n" "0 \<le> shift"
  shows "steps_to sz r a n shift budget lo k (encoder_input_step x c wld r a shift k st)"
proof -
  let ?f = "mm_features r ! k" and ?h = "item_of r (int k)"
  have k: "0 \<le> int k" "int k < int (length (mm_features r))" and idx: "py_index (mm_features r) (int k) = Inr ?f"
    using r by (simp_all add: py_index_nonneg)
  note I = inv [unfolded scan_inv_def]
  show ?thesis
  proof (cases "?h \<in> set (es_hashes st)")
    case True
    then have "encoder_input_step x c wld r a shift k st = Inr (Again st)" using idx c by (simp add: encoder_input_step_def)
    moreover have "available r (es_inputs st @ es_external st) m k" using True I by (auto simp: available_def)
    ultimately show ?thesis using inv by (auto simp: steps_to_def scan_inv_def less_Suc_eq)
  next
    case False
    from check_and_update_cache_correct [OF _ r(1) k, of m] I obtain b m1 where
      m1: "check_and_update_cache r (int k) m = Inr (b, m1)" "enc_inv sz m1" "\<not> b \<longrightarrow> m1 = m" "b \<longrightarrow> num_free_slots m1 = num_free_slots m" by blast
    let ?st = "st\<lparr>es_manager := EncCache m1\<rparr>"
    have free: "num_free_slots m1 = num_free_slots m" using m1(3,4) by (cases b) auto
    have inv1: "scan_inv sz r a n shift budget lo k m1 ?st"
      by (rule scan_inv_manager [OF inv m1(2)]) (use check_and_update_holds(2) [OF m1(1) k] free I in auto)
    have step: "encoder_input_step x c wld r a shift k st = (if b then Inr (Again ?st) else schedule_encoder_input x c wld r a shift k ?f ?st)"
      using idx c False I m1 by (simp add: encoder_input_step_def)
    show ?thesis
    proof (cases b)
      case True
      then have "available r (es_inputs st @ es_external st) m1 k" using check_and_update_holds(1) [OF m1(1) k] by (simp add: available_def)
      then show ?thesis using True step inv1 by (auto simp: steps_to_def scan_inv_def less_Suc_eq)
    qed (use step scan_schedule [OF inv1 r f w] in simp)
  qed
qed

lemma scan_loop:
  assumes "scan_inv sz r a n shift budget lo k m st" and "lo \<le> k" and "hi \<le> length (mm_features r)"
    and "sized sz r" and "\<not> is_encoder_decoder c" and "0 < n" "0 \<le> shift"
    and "\<And>i. k \<le> i \<Longrightarrow> i < hi \<Longrightarrow> mm_offset (mm_features r ! i) < a + n + shift \<and> a < mm_end (mm_features r ! i) \<and>
      (case pr_is_embed (mm_position (mm_features r ! i)) of None \<Rightarrow> True | Some q \<Rightarrow> int (length q) = pr_length (mm_position (mm_features r ! i)))"
  shows "\<exists>st' m' k' n'. for_until (encoder_input_step x c wld r a shift) [k..<hi] st = Inr (st'\<lparr>es_new_tokens := n'\<rparr>) \<and>
     scan_inv sz r a n shift budget lo k' m' st' \<and> (k' < hi \<and> k \<le> k' \<and> cut_before r a shift k' n' \<or> k' = max k hi \<and> n' = n)"
  using assms
proof (induction "hi - k" arbitrary: k m st)
  case 0
  have "st = st\<lparr>es_new_tokens := n\<rparr>" using "0.prems"(1) by (simp add: scan_inv_def)
  then show ?case using 0 by (intro exI [of _ st] exI [of _ m] exI [of _ k] exI [of _ n]) auto
next
  case (Suc d)
  have k: "k < hi" "k < length (mm_features r)" using Suc.hyps(2) Suc.prems(3) by simp_all
  have up: "[k..<hi] = k # [Suc k..<hi]" using k(1) by (rule upt_conv_Cons)
  have "steps_to sz r a n shift budget lo k (encoder_input_step x c wld r a shift k st)"
    using Suc.prems(8) [OF order.refl k(1)] Suc.prems(4-7) by (intro scan_step [OF Suc.prems(1) _ k(2)]) auto
  then consider (again) st1 m1 where "encoder_input_step x c wld r a shift k st = Inr (Again st1)" "scan_inv sz r a n shift budget lo (Suc k) m1 st1"
    | (cut) st1 m1 n' where "encoder_input_step x c wld r a shift k st = Inr (Done (st1\<lparr>es_new_tokens := n'\<rparr>))"
        "scan_inv sz r a n shift budget lo k m1 st1" "cut_before r a shift k n'"
    unfolding steps_to_def by blast
  then show ?case
  proof cases
    case again
    have "d = hi - Suc k" "lo \<le> Suc k" using Suc.hyps(2) Suc.prems(2) by auto
    moreover have "\<And>i. Suc k \<le> i \<Longrightarrow> k \<le> i" by simp
    ultimately obtain st' m' k' n' where
      "for_until (encoder_input_step x c wld r a shift) [Suc k..<hi] st1 = Inr (st'\<lparr>es_new_tokens := n'\<rparr>)"
      "scan_inv sz r a n shift budget lo k' m' st'" "k' < hi \<and> Suc k \<le> k' \<and> cut_before r a shift k' n' \<or> k' = max (Suc k) hi \<and> n' = n"
      using Suc.hyps(1) [OF _ again(2) _ Suc.prems(3-7)] Suc.prems(8) by blast
    then show ?thesis using again(1) up k(1) by (intro exI [of _ st'] exI [of _ m'] exI [of _ k'] exI [of _ n']) auto
  next
    case cut
    then show ?thesis using up k(1) by (intro exI [of _ st1] exI [of _ m1] exI [of _ k] exI [of _ n']) auto
  qed
qed

lemma scan_covers:
  assumes fs: "ordered_features (mm_features r)" and win: "get_mm_features_in_window (mm_features r) a (a + n + shift) = (lo, hi)"
    and inv: "scan_inv sz r a n shift budget lo k m st" and cut: "k < hi \<and> lo \<le> k \<and> cut_before r a shift k n' \<or> k = max lo hi \<and> n' = n"
    and n: "0 < n'" and i: "i < length (mm_features r)" and p: "a \<le> p" "p < a + n' + shift" "embed_at (mm_features r ! i) p"
  shows "available r (es_inputs st @ es_external st) m i"
proof -
  note w = window_correct [OF fs win]
  have off: "mm_offset (mm_features r ! i) \<le> p" "p < mm_end (mm_features r ! i)" using p(3) by (auto simp: embed_at_def)
  have lo: "lo \<le> i" using w(1) [OF i] off p(1) by (meson linorder_not_le order.strict_trans2 order.trans)
  have "i < k \<and> n' \<le> n"
  proof (cases "k = max lo hi \<and> n' = n")
    case True
    then have "i < hi" using w(2) [OF i] off p(2) by simp
    then show ?thesis using True by simp
  next
    case False
    then have k: "k < hi" "cut_before r a shift k n'" using cut by auto
    then have kl: "k < length (mm_features r)" using w(3) [OF i] by simp
    have end': "a + shift + n' = mm_offset (mm_features r ! k)" using k(2) n by (simp add: cut_before_def)
    have "i < k"
    proof (rule ccontr)
      assume "\<not> i < k"
      then have "mm_offset (mm_features r ! k) \<le> mm_offset (mm_features r ! i)"
        using fs i sorted_nth_mono [of "map mm_offset (mm_features r)" k i] by (simp add: ordered_features_def)
      then show False using end' off(1) p(2) by simp
    qed
    moreover have "n' \<le> n" using end' w(2) [OF kl] k(1) by simp
    ultimately show ?thesis by simp
  qed
  then show ?thesis using inv lo p unfolding scan_inv_def by fastforce
qed

text \<open>
  C3.  Encoder outputs are there when they are needed.  For a request whose features are sorted and do not overlap, \<^verbatim>\<open>_try_schedule_encoder_inputs\<close>
  returns a number \<open>n'\<close> of tokens, at most the number asked for, such that every placeholder token among the tokens \<open>n'\<close> covers (with the
  look-ahead \<open>shift\<close> of the drafter) takes its embedding from a feature whose output is in the encoder cache and referenced, or is encoded or
  loaded in this step.  The inputs to encode cost exactly what is taken from the compute budget, which stays non-negative, and there is
  room in the encoder cache for all inputs to encode or to load.  The function raises nothing.
\<close>

theorem encoder_inputs_ready:
  assumes "ordered_features (mm_features r)" and "sized sz r" and "enc_inv sz m" and "\<not> is_encoder_decoder c"
    and "0 \<le> n" "0 \<le> shift" "0 \<le> budget"
  shows "\<exists>inputs n' budget' ext m'. try_schedule_encoder_inputs x c wld r a n budget shift (EncCache m) = Inr (inputs, n', budget', ext, EncCache m') \<and>
     enc_inv sz m' \<and> 0 \<le> n' \<and> n' \<le> n \<and> budget' = budget - embeds_of r inputs \<and> 0 \<le> budget' \<and> embeds_of r (inputs @ ext) \<le> num_free_slots m' \<and>
     (0 < n' \<longrightarrow> (\<forall>i < length (mm_features r). \<forall>p. a \<le> p \<and> p < a + n' + shift \<and> embed_at (mm_features r ! i) p \<longrightarrow> available r (inputs @ ext) m' i))"
proof (cases "n = 0 \<or> mm_features r = []")
  case True
  then show ?thesis using assms by (auto simp: try_schedule_encoder_inputs_def has_encoder_inputs_def num_encoder_inputs_def enc_inv_def)
next
  case False
  obtain lo hi where win: "get_mm_features_in_window (mm_features r) a (a + n + shift) = (lo, hi)" by fastforce
  note w = window_correct [OF assms(1) win]
  have n: "0 < n" and hi: "hi \<le> length (mm_features r)" using False assms(5) w(3) [of 0] by auto
  let ?st = "\<lparr>es_inputs = [], es_new_tokens = n, es_budget = budget, es_external = [], es_hashes = [], es_embeds = 0, es_manager = EncCache m\<rparr>"
  have inv: "scan_inv sz r a n shift budget lo lo m ?st" using assms by (auto simp: scan_inv_def enc_inv_def)
  have feat: "mm_offset (mm_features r ! i) < a + n + shift \<and> a < mm_end (mm_features r ! i) \<and>
      (case pr_is_embed (mm_position (mm_features r ! i)) of None \<Rightarrow> True | Some q \<Rightarrow> int (length q) = pr_length (mm_position (mm_features r ! i)))"
    if "lo \<le> i" "i < hi" for i
    using w(1) [of i] w(2) [of i] that hi assms(1) by (auto simp: ordered_features_def)
  obtain st' m' k' n' where
    st': "for_until (encoder_input_step x c wld r a shift) [lo..<hi] ?st = Inr (st'\<lparr>es_new_tokens := n'\<rparr>)"
    and inv': "scan_inv sz r a n shift budget lo k' m' st'" and cut: "k' < hi \<and> lo \<le> k' \<and> cut_before r a shift k' n' \<or> k' = max lo hi \<and> n' = n"
    using scan_loop [OF inv order.refl hi assms(2,4) n assms(6), of x wld] feat by metis
  have "try_schedule_encoder_inputs x c wld r a n budget shift (EncCache m) = Inr (es_inputs st', n', es_budget st', es_external st', EncCache m')"
    using False win st' assms(4) inv' by (simp add: try_schedule_encoder_inputs_def has_encoder_inputs_def num_encoder_inputs_def scan_inv_def)
  moreover have "0 \<le> n' \<and> n' \<le> n"
    using cut feat [of k'] n by (auto simp: cut_before_def)
  ultimately show ?thesis using inv' scan_covers [OF assms(1) win inv' cut] unfolding scan_inv_def by auto
qed

theorem encoder_inputs_ready_witness:
  "\<exists>inputs n' ext m'. try_schedule_encoder_inputs no_plugins sample_config () (image_request [''a'']) 0 4 9 0
       (EncCache (EncoderCacheManager_init 5)) = Inr (inputs, n', 9 - embeds_of (image_request [''a'']) inputs, ext, EncCache m') \<and> n' \<le> 4"
proof -
  have "enc_inv (\<lambda>_. 3) (EncoderCacheManager_init 5)" by (simp add: EncoderCacheManager_init_def enc_inv_def)
  moreover have "ordered_features (mm_features (image_request [''a'']))" by (simp add: image_request_def ordered_features_def)
  ultimately show ?thesis
    using encoder_inputs_ready [of "image_request [''a'']" "\<lambda>_. 3" "EncoderCacheManager_init 5" sample_config 4 0 9 no_plugins "()" 0]
    by (auto simp: sample_config_def)
qed

end
