(* ===== verification/Sched_Mamba.thy ===== *)
theory Sched_Mamba
  imports Sched_Chunk Sched_Sample
begin

text \<open>
  The chunks of Mamba models end where their state can be cached, and the chunks before a multi-module drafter leave it enough known tokens.
\<close>

section \<open>The split\<close>

text \<open>The values the split computes with, once no division is by zero.\<close>

definition checkpointed :: "sched_config \<Rightarrow> int \<Rightarrow> bool" where
  "checkpointed c start \<longleftrightarrow> mamba_has_prefill_checkpoint_blocks c \<and> start mod cache_block_size c = 0"

definition last_cacheable :: "sched_config \<Rightarrow> Request \<Rightarrow> int" where
  "last_cacheable c r =
     (if sc_use_eagle c then max (num_tokens r - num_tokens r mod cache_block_size c - cache_block_size c) 0
      else num_tokens r - num_tokens r mod cache_block_size c)"

text \<open>The position of the last block that the chunk stops at; none, if checkpoints are taken inside the chunk.\<close>

abbreviation block_stop :: "sched_config \<Rightarrow> Request \<Rightarrow> int \<Rightarrow> int" where
  "block_stop c r start \<equiv> (if checkpointed c start then 0 else last_cacheable c r)"

definition tail_hash_boundary :: "sched_config \<Rightarrow> Request \<Rightarrow> int" where
  "tail_hash_boundary c r = (if mamba_partial_cache_hit c then num_prompt_tokens r div sc_hash_block_size c * sc_hash_block_size c else 0)"

abbreviation prefill_end_of :: "Request \<Rightarrow> int" where
  "prefill_end_of r \<equiv> max (num_prompt_tokens r) (num_tokens r - 1)"

lemma mamba_split_eval:
  assumes "num_computed_tokens r + l + e = start" and "start < prefill_end_of r" and "0 < cache_block_size c" "0 < sc_hash_block_size c"
    and "mamba_chunk_limit c start (prefill_end_of r) (checkpointed c start) (start + n) = stop"
  shows "mamba_block_aligned_split c r n l e =
     Inr (max (first_stop start stop (mamba_stops c r start (block_stop c r start) (tail_hash_boundary c r) stop) - start) 0)"
  using assms by (auto simp: mamba_block_aligned_split_def Let_def py_mod_def py_div_def checkpointed_def last_cacheable_def tail_hash_boundary_def)

lemma mamba_split_done:
  "prefill_end_of r \<le> num_computed_tokens r + l + e \<Longrightarrow> mamba_block_aligned_split c r n l e = Inr n"
  by (simp add: mamba_block_aligned_split_def)

lemma align_down_le: "0 < b \<Longrightarrow> a div b * b \<le> (a :: int)"
  by (simp add: minus_mod_eq_div_mult [symmetric])

lemma first_stop_cases:
  obtains "first_stop start stop ps = stop" "\<forall>p \<in> set ps. start < p \<longrightarrow> stop \<le> p"
    | "first_stop start stop ps \<in> set ps" "start < first_stop start stop ps" "first_stop start stop ps < stop"
      "\<forall>p \<in> set ps. start < p \<longrightarrow> first_stop start stop ps \<le> p"
proof (cases "filter (\<lambda>p. start < p \<and> p < stop) ps = []")
  case True
  then have "\<forall>p \<in> set ps. start < p \<longrightarrow> stop \<le> p" by (auto simp: filter_empty_conv)
  with True that(1) show ?thesis by (simp add: first_stop_def)
next
  case False
  let ?in = "set (filter (\<lambda>p. start < p \<and> p < stop) ps)"
  have "Min ?in \<in> ?in" using False by (intro Min_in) (auto simp del: set_filter)
  moreover have "Min ?in \<le> p" if "p \<in> set ps" "start < p" for p
  proof (cases "p < stop")
    case True
    then show ?thesis using that by (intro Min_le) auto
  qed (use \<open>Min ?in \<in> ?in\<close> in simp)
  ultimately show ?thesis using False that(2) by (simp add: first_stop_def Let_def)
qed

lemma first_stop_le: "first_stop start stop ps \<le> stop"
  by (cases rule: first_stop_cases [of start stop ps]) auto

lemma mamba_limit_le: "0 < cache_block_size c \<Longrightarrow> mamba_chunk_limit c start stop ckpt e \<le> e"
  by (simp add: mamba_chunk_limit_def Let_def align_down_le)

lemma mamba_split_le:
  assumes "mamba_block_aligned_split c r n l e = Inr k" and "0 < cache_block_size c" "0 < sc_hash_block_size c"
  shows "k \<le> max n 0"
proof (cases "prefill_end_of r \<le> num_computed_tokens r + l + e")
  case False
  let ?start = "num_computed_tokens r + l + e"
  obtain ps where "mamba_block_aligned_split c r n l e =
      Inr (max (first_stop ?start (mamba_chunk_limit c ?start (prefill_end_of r) (checkpointed c ?start) (?start + n)) ps - ?start) 0)"
    using mamba_split_eval [OF refl _ assms(2,3) refl, of r l e n] False by (meson not_le)
  then show ?thesis
    using assms(1) first_stop_le [of ?start _ ps] mamba_limit_le [OF assms(2), of ?start "prefill_end_of r" "checkpointed c ?start" "?start + n"]
    by (smt (verit, best) Inr_inject)
qed (use assms mamba_split_done in fastforce)

section \<open>Alignment\<close>

lemma limit_aligned:
  assumes b: "0 < cache_block_size c" and "mamba_chunk_limit c start stop False e = p" "start < p" "p < stop"
  shows "p mod cache_block_size c = 0 \<or> p div cache_block_size c = start div cache_block_size c"
proof (cases "e < stop")
  case True
  show ?thesis
  proof (cases "p = e div cache_block_size c * cache_block_size c")
    case False
    then have "p = e" "e div cache_block_size c * cache_block_size c \<le> start"
      using True assms(2) by (auto simp: mamba_chunk_limit_def Let_def split: if_splits)
    then have "e div cache_block_size c = start div cache_block_size c"
      using assms(3) b by (metis antisym less_imp_le mult.commute nonzero_mult_div_cancel_left order_less_irrefl zdiv_mono1)
    then show ?thesis using \<open>p = e\<close> by simp
  qed simp
qed (use assms in \<open>simp add: mamba_chunk_limit_def\<close>)

lemma last_cacheable_aligned: "last_cacheable c r mod cache_block_size c = 0"
proof -
  have "(num_tokens r - num_tokens r mod b - b) mod b = 0" for b :: int
    by (metis minus_mod_self2 mod_minus_right mod_diff_left_eq diff_self mod_0 mod_mod_trivial)
  then show ?thesis by (auto simp: last_cacheable_def max_def)
qed

lemma next_boundary:
  fixes s b :: int
  assumes "0 < b" "s mod b \<noteq> 0"
  shows "s < (s div b + 1) * b" "(s div b + 1) * b < s + b"
proof -
  have "s mod b < b" "0 < s mod b" using assms pos_mod_bound [of b s] pos_mod_sign [of b s] by linarith+
  moreover have "s = s div b * b + s mod b" by simp
  ultimately show "s < (s div b + 1) * b" "(s div b + 1) * b < s + b" by (simp_all add: distrib_right, linarith+)
qed

lemma limit_progress:
  assumes "0 < cache_block_size c" and "cache_block_size c \<le> n \<or> 0 < n \<and> (checkpointed c start \<or> stop \<le> start + n)"
  shows "start < mamba_chunk_limit c start stop (checkpointed c start) (start + n)"
proof -
  let ?b = "cache_block_size c"
  have "start + n < (start + n) div ?b * ?b + ?b"
    using pos_mod_bound [OF assms(1), of "start + n"] div_mult_mod_eq [of "start + n" ?b] by linarith
  then show ?thesis using assms by (auto simp: mamba_chunk_limit_def Let_def)
qed

text \<open>The chunk ends at the first stop behind its start; the stops of the source, one by one.\<close>

lemma mamba_chunk_end:
  assumes start: "num_computed_tokens r + l + e = start" "start < prefill_end_of r" and c: "0 < cache_block_size c" "0 < sc_hash_block_size c"
  obtains p limit where "mamba_block_aligned_split c r n l e = Inr (max (p - start) 0)"
    and "limit = mamba_chunk_limit c start (prefill_end_of r) (checkpointed c start) (start + n)" and "p \<le> limit" and "start < limit \<Longrightarrow> start < p"
    and "\<And>q. q \<in> set (mamba_stops c r start (block_stop c r start) (tail_hash_boundary c r) limit) \<Longrightarrow> start < q \<Longrightarrow> p \<le> q"
    and "p = limit \<or> p \<in> set (mamba_stops c r start (block_stop c r start) (tail_hash_boundary c r) limit)"
proof -
  define limit where "limit = mamba_chunk_limit c start (prefill_end_of r) (checkpointed c start) (start + n)"
  define ps where "ps = mamba_stops c r start (block_stop c r start) (tail_hash_boundary c r) limit"
  note that = that [of "first_stop start limit ps" limit]
  show thesis
  proof (rule that)
    show "mamba_block_aligned_split c r n l e = Inr (max (first_stop start limit ps - start) 0)"
      unfolding ps_def by (rule mamba_split_eval [OF start c limit_def [symmetric]])
    show "first_stop start limit ps \<le> q"
      if "q \<in> set (mamba_stops c r start (block_stop c r start) (tail_hash_boundary c r) limit)" "start < q" for q
      using that unfolding ps_def [symmetric] by (cases rule: first_stop_cases [of start limit ps]) auto
    show "first_stop start limit ps = limit \<or>
        first_stop start limit ps \<in> set (mamba_stops c r start (block_stop c r start) (tail_hash_boundary c r) limit)"
      unfolding ps_def [symmetric] by (cases rule: first_stop_cases [of start limit ps]) auto
    show "start < first_stop start limit ps" if "start < limit" using that by (cases rule: first_stop_cases [of start limit ps]) auto
  qed (simp_all add: limit_def first_stop_le)
qed

text \<open>
  C39.  Where the chunks of a Mamba prefill end.  A request is cut within its prefill, from \<open>start\<close>, to at most the tokens asked
  for.  The chunk does not run past the end of a block that it starts inside, nor past the last hash boundary of the prompt behind the last
  block, nor past a prefix that is shared with other requests and reaches a block or more beyond \<open>start\<close>.  Without
  checkpoints inside the chunk (\<^verbatim>\<open>use_internal_checkpoint\<close>) it does not run past the last position whose state can be cached either, and a chunk that
  does not finish the prefill ends at a block boundary, at the last hash boundary of the prompt, or inside the block it started in.  The chunk is
  not empty when it may take a block, reaches the end of the prefill, or takes checkpoints.
\<close>

theorem mamba_chunks_aligned:
  assumes "num_computed_tokens r + l + e = start" "start < prefill_end_of r" and "0 < cache_block_size c" "0 < sc_hash_block_size c"
  shows "\<exists>k. mamba_block_aligned_split c r n l e = Inr k \<and> 0 \<le> k \<and> k \<le> max n 0 \<and>
     (start mod cache_block_size c \<noteq> 0 \<longrightarrow> start + k \<le> (start div cache_block_size c + 1) * cache_block_size c) \<and>
     (block_stop c r start < tail_hash_boundary c r \<and> start < tail_hash_boundary c r \<and> tail_hash_boundary c r < num_prompt_tokens r \<longrightarrow>
        start + k \<le> tail_hash_boundary c r) \<and>
     (start + cache_block_size c \<le> shared_prefix_boundary r \<longrightarrow> start + k \<le> shared_prefix_boundary r) \<and>
     (\<not> checkpointed c start \<and> start < last_cacheable c r \<longrightarrow> start + k \<le> last_cacheable c r) \<and>
     (\<not> checkpointed c start \<and> 0 < k \<and> start + k < prefill_end_of r \<longrightarrow>
        (start + k) mod cache_block_size c = 0 \<or> start + k = tail_hash_boundary c r \<or>
        (start + k) div cache_block_size c = start div cache_block_size c) \<and>
     (cache_block_size c \<le> n \<or> 0 < n \<and> (checkpointed c start \<or> prefill_end_of r \<le> start + n) \<longrightarrow> 0 < k)"
proof -
  let ?b = "cache_block_size c"
  note c = assms(3,4)
  obtain p limit where split: "mamba_block_aligned_split c r n l e = Inr (max (p - start) 0)"
    and limit: "limit = mamba_chunk_limit c start (prefill_end_of r) (checkpointed c start) (start + n)" "p \<le> limit" "start < limit \<Longrightarrow> start < p"
    and below: "\<And>q. q \<in> set (mamba_stops c r start (block_stop c r start) (tail_hash_boundary c r) limit) \<Longrightarrow> start < q \<Longrightarrow> p \<le> q"
    and at: "p = limit \<or> p \<in> set (mamba_stops c r start (block_stop c r start) (tail_hash_boundary c r) limit)"
    using mamba_chunk_end [OF assms] by metis
  have nb: "p \<le> (start div ?b + 1) * ?b" if "start mod ?b \<noteq> 0"
    using below [of "(start div ?b + 1) * ?b"] next_boundary [OF c(1) that] that by (simp add: mamba_stops_def Let_def)
  have tail: "p \<le> tail_hash_boundary c r"
    if "block_stop c r start < tail_hash_boundary c r" "start < tail_hash_boundary c r" "tail_hash_boundary c r < num_prompt_tokens r"
    using below [of "tail_hash_boundary c r"] that by (simp add: mamba_stops_def Let_def split del: if_split)
  have shared: "p \<le> shared_prefix_boundary r" if far: "start + ?b \<le> shared_prefix_boundary r"
  proof (cases "shared_prefix_boundary r < limit")
    case True
    let ?q = "start + (shared_prefix_boundary r - start) div ?b * ?b"
    have "1 \<le> (shared_prefix_boundary r - start) div ?b" using far c(1) by (simp add: pos_imp_zdiv_pos_iff int_one_le_iff_zero_less)
    then have "start < ?q" using c(1) by simp
    then have "p \<le> ?q" using below [of ?q] True far c(1) by (simp add: mamba_stops_def Let_def)
    then show ?thesis using align_down_le [OF c(1), of "shared_prefix_boundary r - start"] by linarith
  qed (use limit(2) in simp)
  have lc: "p \<le> last_cacheable c r" if "\<not> checkpointed c start" "start < last_cacheable c r"
    using below [of "last_cacheable c r"] that by (simp add: mamba_stops_def Let_def)
  have al: "p mod ?b = 0 \<or> p = tail_hash_boundary c r \<or> p div ?b = start div ?b"
    if "\<not> checkpointed c start" "start < p" "p < prefill_end_of r"
    using at
  proof
    assume "p = limit"
    then show ?thesis using limit_aligned [OF c(1), of start "prefill_end_of r" "start + n" p] that limit(1) by auto
  next
    assume "p \<in> set (mamba_stops c r start (block_stop c r start) (tail_hash_boundary c r) limit)"
    then consider "p = (start div ?b + 1) * ?b" | "p = 0" | "p = last_cacheable c r" | "p = tail_hash_boundary c r"
      | "p = start + (shared_prefix_boundary r - start) div ?b * ?b"
      using that(1) by (auto simp: mamba_stops_def Let_def split: if_splits)
    then show ?thesis
    proof cases
      case 5
      have "start mod ?b = 0"
      proof (rule ccontr)
        assume off: "start mod ?b \<noteq> 0"
        then have "p < start + ?b" using nb next_boundary(2) [OF c(1) off] by simp
        then have "(shared_prefix_boundary r - start) div ?b * ?b < 1 * ?b" using 5 by simp
        then have "(shared_prefix_boundary r - start) div ?b < 1" using c(1) mult_less_cancel_right_pos by blast
        moreover have "0 < (shared_prefix_boundary r - start) div ?b" using 5 that(2) c(1) by (simp add: zero_less_mult_iff)
        ultimately show False by linarith
      qed
      then show ?thesis using 5 by (metis mod_add_eq mod_mult_self2_is_0 add.right_neutral mod_0 mult.commute)
    qed (use last_cacheable_aligned in auto)
  qed
  have go: "start < p" if "?b \<le> n \<or> 0 < n \<and> (checkpointed c start \<or> prefill_end_of r \<le> start + n)"
    using limit_progress [OF c(1) that] limit(1,3) by simp
  have k: "start + max (p - start) 0 = max p start" by simp
  show ?thesis
    unfolding split
    using nb tail shared lc al go mamba_split_le [OF split c] next_boundary(1) [OF c(1), of start] c(1)
    by (intro exI [of _ "max (p - start) 0"]) (auto simp: k max_def)
qed

theorem mamba_chunks_aligned_witness:
  "\<exists>k. mamba_block_aligned_split sample_config (text_request [5, 6, 7] []) 3 0 0 = Inr k \<and> 0 < k \<and> k \<le> 3"
proof -
  have r: "num_computed_tokens (text_request [5, 6, 7] []) + 0 + 0 = 0" "0 < prefill_end_of (text_request [5, 6, 7] [])"
    by (simp_all add: text_request_def fresh_request_def)
  have c: "0 < cache_block_size sample_config" "0 < sc_hash_block_size sample_config" by (simp_all add: sample_config_def)
  have "prefill_end_of (text_request [5, 6, 7] []) \<le> 0 + 3"
    by (simp add: text_request_def fresh_request_def text_message_def initial_token_ids_def)
  with mamba_chunks_aligned [OF r c, of 3] show ?thesis by auto
qed

section \<open>Look-ahead\<close>

text \<open>The drafter finds the tokens it reads ahead: a chunk finishes the prefill, leaves at least the look-ahead, or is empty.\<close>

lemma reserve_lookahead:
  "0 \<le> reserve_prefill_lookahead c r a n" "reserve_prefill_lookahead c r a n \<le> max n 0"
  "0 < reserve_prefill_lookahead c r a n \<Longrightarrow> num_tokens r - a - reserve_prefill_lookahead c r a n \<le> 0 \<or>
     num_prefill_lookahead c \<le> num_tokens r - a - reserve_prefill_lookahead c r a n"
  by (auto simp: reserve_prefill_lookahead_def Let_def)

end
