(* ===== verification/Sched_Budget.thy ===== *)
theory Sched_Budget
  imports Sched_Output Request_Frame Sched_Encoder Sched_Mamba
begin

text \<open>
  The budgets of a scheduling step.  The loops of \<^verbatim>\<open>schedule\<close> never give out more tokens than the step has, never admit more requests than
  may run, and take back what a preempted request was given: the assertions at the end of the step hold.
\<close>

section \<open>Loops\<close>

lemma run_then_ret [result_simps]: "run_then m f = ret y \<longleftrightarrow> (\<exists>x. m = ret x \<and> f x = ret y)"
  by (auto simp: run_then_def split: option.splits sum.splits)

lemma run_then_None: "run_then m f = None \<longleftrightarrow> m = None \<or> (\<exists>x. m = ret x \<and> f x = None)"
  by (auto simp: run_then_def split: option.splits sum.splits)

lemma run_thenE: "run_then m f = ret y \<Longrightarrow> (\<And>a. m = ret a \<Longrightarrow> f a = ret y \<Longrightarrow> P) \<Longrightarrow> P"
  by (auto simp: result_simps)

lemma run_then_simps [simp]: "run_then (ret a) f = f a" "run_then (Some (Inl e)) f = Some (Inl e)"
  by (simp_all add: run_then_def)

lemma while_loop_returns:
  assumes "while_loop body s = ret t" and "P s"
    and "\<And>s s'. P s \<Longrightarrow> body s = ret (Again s') \<Longrightarrow> P s'" and "\<And>s s'. P s \<Longrightarrow> body s = ret (Done s') \<Longrightarrow> Q s'"
  shows "Q t"
proof -
  have "b = body \<longrightarrow> P s \<longrightarrow> (\<forall>t'. r = Inr t' \<longrightarrow> Q t')" if "while_loop b s = Some r" for b s r
  proof (rule while_loop.raw_induct [OF _ that], intro impI)
    fix loop b s r
    assume "\<And>b s r. loop b s = Some r \<Longrightarrow> b = body \<longrightarrow> P s \<longrightarrow> (\<forall>t'. r = Inr t' \<longrightarrow> Q t')"
      and "(case b s of None \<Rightarrow> None | Some (Inl e) \<Rightarrow> Some (Inl e) | Some (Inr (Done s)) \<Rightarrow> Some (Inr s)
          | Some (Inr (Again s)) \<Rightarrow> loop b s) = Some r" and "b = body" "P s"
    then show "\<forall>t'. r = Inr t' \<longrightarrow> Q t'" using assms(3,4) by (auto split: option.splits sum.splits loop_step.splits)
  qed
  then show ?thesis using assms(1,2) by blast
qed

lemma while_loop_ends:
  assumes "P s" and "\<And>s. P s \<Longrightarrow> body s \<noteq> None" and "\<And>s s'. P s \<Longrightarrow> body s = ret (Again s') \<Longrightarrow> P s' \<and> m s' < (m s :: nat)"
  shows "while_loop body s \<noteq> None"
  using assms(1)
proof (induction "m s" arbitrary: s rule: less_induct)
  case less
  show ?case
  proof (cases "\<exists>s'. body s = ret (Again s')")
    case True
    then obtain s' where "body s = ret (Again s')" by blast
    then show ?thesis using less assms(3) by (subst while_loop.simps) auto
  next
    case False
    then show ?thesis using assms(2) [OF less.prems] by (subst while_loop.simps) (auto split: option.splits sum.splits loop_step.splits)
  qed
qed

section \<open>Sums over a dictionary\<close>

definition budget_ok :: "int \<Rightarrow> (string, int) dict \<Rightarrow> int \<Rightarrow> int \<Rightarrow> bool" where
  "budget_ok cap d tokens inputs \<longleftrightarrow>
     dict_ok d \<and> (\<forall>(k, n) \<in> set d. 0 \<le> n) \<and> 0 \<le> tokens \<and> 0 \<le> inputs \<and> tokens + sum_list (map snd d) \<le> cap"

lemma sum_update: "\<forall>(k, n) \<in> set d. 0 \<le> n \<Longrightarrow> sum_list (map snd (dict_set k n d)) \<le> sum_list (map snd d) + (n :: int)"
  by (induction d) auto

lemma update_nonneg: "\<forall>(k, n) \<in> set d. 0 \<le> n \<Longrightarrow> 0 \<le> (n :: int) \<Longrightarrow> \<forall>(k, n) \<in> set (dict_set k n d). 0 \<le> n"
  by (induction d) auto

lemma sum_delete: "dict_ok d \<Longrightarrow> dict_get d k = Some n \<Longrightarrow> sum_list (map snd (dict_del k d)) = sum_list (map snd d) - (n :: int)"
  by (induction d) (auto simp: dict_ok_def delete_idem split: if_splits)

lemma budget_give:
  assumes "budget_ok cap d tokens inputs" and "0 \<le> n" "n \<le> tokens" "n + k \<le> inputs"
  shows "budget_ok cap (dict_set rid n d) (tokens - n) (inputs - (n + k))"
  using assms sum_update [of d rid n] update_nonneg [of d n rid] by (auto simp: budget_ok_def dict_ok_def distinct_update)

lemma budget_take_back:
  assumes "budget_ok cap d tokens inputs" and "dict_get d rid = Some n" and "0 \<le> k"
  shows "budget_ok cap (dict_del rid d) (tokens + n) (inputs + n + k)"
proof -
  have "0 \<le> n" using assms map_of_SomeD [of d rid n] by (auto simp: budget_ok_def)
  moreover have "set (dict_del rid d) \<subseteq> set d" by (auto simp: AList.delete_eq)
  ultimately show ?thesis using assms sum_delete [of d rid n] by (auto simp: budget_ok_def dict_ok_def distinct_delete)
qed

section \<open>Positions in the running list\<close>

definition place_ok :: "nat \<Rightarrow> string list \<Rightarrow> string list \<Rightarrow> bool" where
  "place_ok i ids given \<longleftrightarrow> distinct ids \<and> i \<le> length ids \<and> distinct given \<and> set given \<subseteq> set (take i ids)"

lemma nth_not_in_take: "distinct ids \<Longrightarrow> i < length ids \<Longrightarrow> ids ! i \<notin> set (take i ids)"
  by (auto simp: in_set_conv_nth nth_eq_iff_index_eq)

lemma place_skip: "place_ok i ids given \<Longrightarrow> i < length ids \<Longrightarrow> place_ok (i + 1) ids given"
  by (auto simp: place_ok_def take_Suc_conv_app_nth)

lemma place_give: "place_ok i ids given \<Longrightarrow> i < length ids \<Longrightarrow> place_ok (i + 1) ids (given @ [ids ! i])"
  using nth_not_in_take [of ids i] by (auto simp: place_ok_def take_Suc_conv_app_nth)

lemma place_count: "place_ok i ids given \<Longrightarrow> length given \<le> length ids"
  by (metis place_ok_def card_mono distinct_card length_take List.finite_set min.absorb2 order.trans card_length)

lemma place_pop: "place_ok i ids given \<Longrightarrow> i < length ids \<Longrightarrow> place_ok i (butlast ids) given"
  by (auto simp: place_ok_def distinct_butlast take_butlast)

lemma place_remove:
  assumes "place_ok i ids given" and "j < length ids"
  shows "place_ok (if j < i then i - 1 else i) (take j ids @ drop (Suc j) ids) (if ids ! j \<in> set given then remove1 (ids ! j) given else given)"
proof -
  have d: "distinct ids" "i \<le> length ids" "distinct given" "set given \<subseteq> set (take i ids)" using assms(1) by (auto simp: place_ok_def)
  have ids: "ids = take j ids @ ids ! j # drop (Suc j) ids" by (simp add: assms(2) id_take_nth_drop)
  have rest: "distinct (take j ids @ drop (Suc j) ids)" by (metis d(1) ids distinct_append distinct.simps(2) disjoint_iff list.set_intros(2))
  have "set (take i ids) - {ids ! j} \<subseteq> set (take (if j < i then i - 1 else i) (take j ids @ drop (Suc j) ids))"
  proof (cases "j < i")
    case True
    then have "take i ids = take j ids @ ids ! j # take (i - 1 - j) (drop (Suc j) ids)"
      by (subst ids) (simp add: assms(2) take_Cons' min_absorb1)
    then show ?thesis using True assms(2) by (auto simp: min_absorb1)
  next
    case False
    then show ?thesis using assms(2) by (auto simp: min_absorb1)
  qed
  then show ?thesis using d rest assms(2) by (auto simp: place_ok_def)
qed

lemma place_current:
  assumes "distinct ids" "i < length ids" "j < length ids" "ids ! j \<noteq> ids ! i"
  shows "(if j < i then i - 1 else i) < length (take j ids @ drop (Suc j) ids)"
    and "(take j ids @ drop (Suc j) ids) ! (if j < i then i - 1 else i) = ids ! i"
proof -
  have "j \<noteq> i" using assms(4) by auto
  then show "(if j < i then i - 1 else i) < length (take j ids @ drop (Suc j) ids)"
    and "(take j ids @ drop (Suc j) ids) ! (if j < i then i - 1 else i) = ids ! i"
    using assms(2,3) by (auto simp: nth_append)
qed

section \<open>Requests of the store\<close>

text \<open>A request is stored under its id, and its features are sorted by their first position.\<close>

definition objects_ok :: "(string, Request) dict \<Rightarrow> bool" where
  "objects_ok d \<longleftrightarrow> (\<forall>rid r. dict_get d rid = Some r \<longrightarrow> request_id r = rid \<and> sorted (map mm_offset (mm_features r)))"

lemma objects_ok_put [simp]:
  "objects_ok d \<Longrightarrow> request_id r = k \<Longrightarrow> sorted (map mm_offset (mm_features r)) \<Longrightarrow> objects_ok (dict_set k r d)"
  by (auto simp: objects_ok_def update_conv' split: if_splits)

lemma put_req_sel [simp]:
  "objects (put_req r s) = dict_set (request_id r) r (objects s)" "running (put_req r s) = running s" "waiting (put_req r s) = waiting s"
  "skipped_waiting (put_req r s) = skipped_waiting s" "num_waiting_for_streaming_input (put_req r s) = num_waiting_for_streaming_input s"
  "kv_manager (put_req r s) = kv_manager s" "encoder_cache_manager (put_req r s) = encoder_cache_manager s" "ext (put_req r s) = ext s"
  "requests (put_req r s) = requests s" "pause_state (put_req r s) = pause_state s"
  by (simp_all add: put_req_def)

lemma get_req_ok: "objects_ok (objects s) \<Longrightarrow> get_req rid s = Inr r \<Longrightarrow> request_id r = rid \<and> sorted (map mm_offset (mm_features r))"
  by (auto simp: get_req_def objects_ok_def split: option.splits)

lemma forget_keeps: "forget r' = forget r \<Longrightarrow> request_id r' = request_id r \<and> mm_features r' = mm_features r"
  by (metis Request.select_convs(1) Request.update_convs forget_same(2) forget_def Request.surjective)

section \<open>Bounds on the chunk of a request\<close>

lemma encoder_le:
  assumes res: "try_schedule_encoder_inputs x c w r a n budget shift m = Inr (inputs, n', budget', external, m')"
    and fs: "sorted (map mm_offset (mm_features r))"
  shows "n' \<le> max n 0"
proof (cases "n = 0 \<or> \<not> has_encoder_inputs r")
  case False
  obtain lo hi where win: "get_mm_features_in_window (mm_features r) a (a + n + shift) = (lo, hi)" by fastforce
  have hi: "mm_offset (mm_features r ! i) < a + n + shift \<and> i < length (mm_features r)" if "i < hi" for i
    using bisect_left_iff [OF fs, of i "a + n + shift"] bisect_left_le [OF fs, of "a + n + shift"] win that
    by (auto simp: get_mm_features_in_window_def)
  have step: "(case t of Again st' \<Rightarrow> es_new_tokens st' = n | Done st' \<Rightarrow> es_new_tokens st' \<le> max n 0)"
    if "encoder_input_step x c w r a shift i st = Inr t" "es_new_tokens st = n" "i < hi" for i st t
    using that hi [OF that(3)]
    by (auto simp: encoder_input_step_def schedule_encoder_input_def result_simps Let_def py_index_nonneg split: if_splits prod.splits)
  have "es_new_tokens st' \<le> max n 0"
    if "for_until (encoder_input_step x c w r a shift) is st = Inr st'" "es_new_tokens st = n" "\<forall>i \<in> set is. i < hi" for "is" st st'
    using that
  proof (induction "is" arbitrary: st)
    case (Cons i js)
    then obtain t where "encoder_input_step x c w r a shift i st = Inr t"
      "(case t of Done s \<Rightarrow> Inr s | Again s \<Rightarrow> for_until (encoder_input_step x c w r a shift) js s) = Inr st'" by (auto simp: result_simps)
    with step [of i st t] Cons show ?case by (cases t) auto
  qed simp
  then show ?thesis using res False win by (force simp: try_schedule_encoder_inputs_def result_simps)
qed (use res in \<open>auto simp: try_schedule_encoder_inputs_def\<close>)

end
