(* ===== verification/Sched_Safety.thy ===== *)
theory Sched_Safety
  imports Sched_Budget
begin

text \<open>
  The invariant of the loops of \<^verbatim>\<open>schedule\<close>: the budgets, the running list and the requests the step has served, over the running and the
  waiting requests.
\<close>

section \<open>What the helpers leave alone\<close>

lemma free_request_blocks_frame:
  "free_request_blocks c r s = Inr s' \<Longrightarrow> \<exists>km d. s' = s\<lparr>kv_manager := km, deferred_frees := d\<rparr>"
  by (auto simp: free_request_blocks_def result_simps split: if_splits prod.splits) (metis scheduler.surjective scheduler.update_convs(15,21))+

lemma preempt_frame:
  assumes "preempt_request c rid d s = Inr s'" and "objects_ok (objects s)"
  shows "objects_ok (objects s') \<and> running s' = running s \<and> num_waiting_for_streaming_input s' = num_waiting_for_streaming_input s"
proof -
  obtain r where r: "get_req rid s = Inr r" using assms(1) by (auto simp: preempt_request_def result_simps)
  show ?thesis
    using assms(1) r assms(2) get_req_ok [OF assms(2) r]
    by (auto simp: preempt_request_def result_simps Let_def dest!: free_request_blocks_frame)
qed

lemma allocate_encoder_frame:
  assumes "allocate_encoder_inputs x r ids s = Inr s'"
  shows "\<exists>m w. s' = s\<lparr>encoder_cache_manager := m, ext := w\<rparr>"
proof (rule for_each_preserves [OF assms [unfolded allocate_encoder_inputs_def]])
  show "\<exists>m w. s = s\<lparr>encoder_cache_manager := m, ext := w\<rparr>" by (intro exI [of _ "encoder_cache_manager s"] exI [of _ "ext s"]) simp
qed (auto simp: result_simps; blast)

lemma record_encoder_frame:
  assumes "record_encoder_inputs x r inputs nb external st = Inr st'"
  shows "\<exists>m w ei b. st' = st\<lparr>sched := (sched st)\<lparr>encoder_cache_manager := m, ext := w\<rparr>, encoder_inputs_of := ei, encoder_compute_budget := b\<rparr>"
proof -
  obtain st1 s2 where st1: "(if inputs \<noteq> []
       then and_then (allocate_encoder_inputs x r inputs (sched st)) (\<lambda>s.
            Inr (st\<lparr>sched := s, encoder_inputs_of := dict_set (request_id r) inputs (encoder_inputs_of st), encoder_compute_budget := nb\<rparr>))
       else Inr st) = Inr st1" and s2: "allocate_encoder_inputs x r external (sched st1) = Inr s2" "st' = st1\<lparr>sched := s2\<rparr>"
    using assms by (auto simp: record_encoder_inputs_def result_simps)
  have "\<exists>m w ei b. st1 = st\<lparr>sched := (sched st)\<lparr>encoder_cache_manager := m, ext := w\<rparr>, encoder_inputs_of := ei, encoder_compute_budget := b\<rparr>"
  proof (cases "inputs = []")
    case True
    then show ?thesis using st1 by (intro exI [of _ "encoder_cache_manager (sched st)"] exI [of _ "ext (sched st)"]
      exI [of _ "encoder_inputs_of st"] exI [of _ "encoder_compute_budget st"]) simp
  next
    case False
    then show ?thesis using st1 by (auto simp: result_simps dest!: allocate_encoder_frame)
  qed
  then obtain m w ei b where
    "st1 = st\<lparr>sched := (sched st)\<lparr>encoder_cache_manager := m, ext := w\<rparr>, encoder_inputs_of := ei, encoder_compute_budget := b\<rparr>" by blast
  moreover from allocate_encoder_frame [OF s2(1)] obtain m' w' where "s2 = (sched st1)\<lparr>encoder_cache_manager := m', ext := w'\<rparr>" by blast
  ultimately show ?thesis using s2(2) by (intro exI [of _ m'] exI [of _ w'] exI [of _ ei] exI [of _ b]) simp
qed

section \<open>Running requests\<close>

definition run_inv :: "sched_config \<Rightarrow> int \<Rightarrow> 'w sched_step \<Rightarrow> bool" where
  "run_inv c cap st \<longleftrightarrow>
     objects_ok (objects (sched st)) \<and> place_ok (req_index st) (running (sched st)) (running_reqs st) \<and>
     budget_ok cap (scheduled_tokens st) (token_budget st) (input_budget st) \<and>
     int (length (running (sched st))) \<le> max_num_running_reqs c \<and> 0 \<le> num_waiting_for_streaming_input (sched st) \<and>
     new_reqs st = [] \<and> resumed_reqs st = []"

text \<open>The requests that are left, and the one the loop is at.\<close>

definition todo :: "'w sched_step \<Rightarrow> nat" where
  "todo st = length (running (sched st)) - req_index st"

definition at_request :: "string \<Rightarrow> 'w sched_step \<Rightarrow> bool" where
  "at_request rid st \<longleftrightarrow> req_index st < length (running (sched st)) \<and> running (sched st) ! req_index st = rid"

lemma budget_entry: "budget_ok cap d tokens inputs \<Longrightarrow> dict_get d rid = Some n \<Longrightarrow> 0 \<le> n"
  using map_of_SomeD [of d rid n] by (auto simp: budget_ok_def)

lemma undo_scheduled_frame:
  assumes "undo_scheduled c r st = Inr st'" and "0 \<le> draft_slots c" and "budget_ok cap (scheduled_tokens st) (token_budget st) (input_budget st)"
  shows "budget_ok cap (scheduled_tokens st') (token_budget st') (input_budget st') \<and> sched st' = sched st \<and> req_index st' = req_index st \<and>
     new_reqs st' = new_reqs st \<and> resumed_reqs st' = resumed_reqs st \<and> token_budget st \<le> token_budget st' \<and> input_budget st \<le> input_budget st' \<and>
     running_reqs st' = (if request_id r \<in> set (running_reqs st) then remove1 (request_id r) (running_reqs st) else running_reqs st)"
  using assms by (auto simp: undo_scheduled_def result_simps Let_def intro: budget_take_back dest: budget_entry split: if_splits option.splits)

lemma fold_best_in: "fold (\<lambda>q best. if key_less best q then q else best) rs r \<in> insert r (set rs)"
proof (induction rs arbitrary: r)
  case (Cons q rs)
  show ?case using Cons.IH [of "if key_less r q then q else r"] by (auto split: if_splits)
qed simp

lemma lowest_priority_in: "lowest_priority rs = Inr r \<Longrightarrow> r \<in> set rs"
  using fold_best_in by (auto simp: lowest_priority_def split: list.splits)

lemma ref_index_nth:
  assumes "rid \<in> set ids" shows "ref_index rid ids < length ids" "ids ! ref_index rid ids = rid"
proof -
  show "ref_index rid ids < length ids" using assms unfolding ref_index_def by (induction ids) auto
  then show "ids ! ref_index rid ids = rid" unfolding ref_index_def using nth_length_takeWhile [of "\<lambda>i. i \<noteq> rid" ids] by simp
qed

lemma deref_in: "objects_ok (objects s) \<Longrightarrow> r \<in> set (deref s ids) \<Longrightarrow> request_id r \<in> set ids"
  by (auto simp: deref_def objects_ok_def map_filter_def)

lemma pop_victim_inv:
  assumes "pop_victim c st = Inr (v, st')" and inv: "run_inv c cap st" and cur: "at_request rid st" and c: "0 \<le> draft_slots c"
  shows "run_inv c cap st' \<and> (v \<noteq> rid \<longrightarrow> at_request rid st') \<and> length (running (sched st')) < length (running (sched st)) \<and>
     token_budget st \<le> token_budget st' \<and> input_budget st \<le> input_budget st' \<and> todo st' \<le> todo st"
proof (cases "policy c")
  case FCFS
  then have v: "v = last (running (sched st))" "st' = st\<lparr>sched := (sched st)\<lparr>running := butlast (running (sched st))\<rparr>\<rparr>"
    using assms(1) by (auto simp: pop_victim_def Let_def split: if_splits)
  have len: "req_index st < length (running (sched st))" using cur by (simp add: at_request_def)
  have "run_inv c cap st'" using inv len v(2) place_pop [of "req_index st"] by (auto simp: run_inv_def)
  moreover have "at_request rid st'" if "v \<noteq> rid"
  proof -
    have "req_index st \<noteq> length (running (sched st)) - 1" using that v(1) cur len
      by (metis at_request_def last_conv_nth list.size(3) not_less_zero)
    then show ?thesis using cur v(2) by (auto simp: at_request_def nth_butlast)
  qed
  ultimately show ?thesis using len v(2) by (auto simp: todo_def)
next
  case PRIORITY
  let ?ids = "running (sched st)"
  obtain r st1 where r: "lowest_priority (deref (sched st) ?ids) = Inr r" and v: "v = request_id r"
    and st1: "st1 = st\<lparr>sched := (sched st)\<lparr>running := take (ref_index v ?ids) ?ids @ drop (Suc (ref_index v ?ids)) ?ids\<rparr>,
       req_index := (if ref_index v ?ids < req_index st then req_index st - 1 else req_index st)\<rparr>" and undo: "undo_scheduled c r st1 = Inr st'"
    using assms(1) PRIORITY by (auto simp: pop_victim_def Let_def result_simps)
  have "v \<in> set ?ids" using deref_in [OF _ lowest_priority_in [OF r]] inv v by (simp add: run_inv_def)
  note i = ref_index_nth [OF this]
  have b: "budget_ok cap (scheduled_tokens st1) (token_budget st1) (input_budget st1)" using inv st1 by (simp add: run_inv_def)
  note u = undo_scheduled_frame [OF undo c b]
  have "place_ok (req_index st') (running (sched st')) (running_reqs st')"
    using place_remove [of "req_index st" ?ids "running_reqs st" "ref_index v ?ids"] inv i u st1 v by (auto simp: run_inv_def)
  moreover have short: "length (running (sched st')) < length ?ids" using u st1 i by simp
  ultimately have "run_inv c cap st'" using inv u st1 by (auto simp: run_inv_def)
  moreover have "at_request rid st'" if "v \<noteq> rid"
    using place_current [of ?ids "req_index st" "ref_index v ?ids"] inv cur i u st1 that by (auto simp: at_request_def run_inv_def place_ok_def)
  ultimately show ?thesis using short u st1 i by (auto simp: todo_def)
qed

text \<open>At the request \<open>rid\<close>, with room for \<open>n\<close> tokens.\<close>

definition has_room :: "sched_config \<Rightarrow> int \<Rightarrow> string \<Rightarrow> int \<Rightarrow> 'w sched_step \<Rightarrow> bool" where
  "has_room c cap rid n st \<longleftrightarrow> run_inv c cap st \<and> at_request rid st \<and> n \<le> token_budget st \<and> n + draft_slots c \<le> input_budget st"

lemma allocate_or_preempt_inv:
  assumes res: "allocate_or_preempt x c rid n (nb, st) = Inr t" and inv: "has_room c cap rid n st" and c: "0 \<le> draft_slots c"
  shows "case t of Done (nb', st') \<Rightarrow> run_inv c cap st' \<and> (nb' \<noteq> None \<longrightarrow> has_room c cap rid n st' \<and> todo st' \<le> todo st)
     | Again (nb', st') \<Rightarrow> has_room c cap rid n st' \<and> todo st' \<le> todo st \<and> length (running (sched st')) < length (running (sched st))"
proof -
  have I: "run_inv c cap st" "at_request rid st" "n \<le> token_budget st" "n + draft_slots c \<le> input_budget st" using inv by (auto simp: has_room_def)
  obtain r blocks r' km where r: "get_req rid (sched st) = Inr r"
    and al: "allocate_slots (embed_digest x) (int_event_hashes x) r n 0 None (num_lookahead_tokens c) 0 False 0 False 0 True (kv_manager (sched st)) = Inr (blocks, r', km)"
    using res by (auto simp: allocate_or_preempt_def result_simps Let_def)
  let ?st = "st\<lparr>sched := put_req r' ((sched st)\<lparr>kv_manager := km\<rparr>)\<rparr>"
  have "request_id r' = rid \<and> sorted (map mm_offset (mm_features r'))"
    using get_req_ok [OF _ r] forget_keeps [OF allocate_slots_forget [OF al]] I(1) by (simp add: run_inv_def)
  then have room: "has_room c cap rid n ?st" using inv by (auto simp: has_room_def run_inv_def at_request_def)
  show ?thesis
  proof (cases "blocks = None")
    case False
    then have "t = Done (blocks, ?st)" using res r al by (auto simp: allocate_or_preempt_def Let_def)
    then show ?thesis using room by (simp add: has_room_def todo_def)
  next
    case True
    obtain v st1 s2 where v: "pop_victim c ?st = Inr (v, st1)" and s2: "preempt_request c v (requires_kv_delivery c) (sched st1) = Inr s2"
      and t: "t = (if v = rid then Done (None, st1\<lparr>sched := s2, preempted_reqs := preempted_reqs st1 @ [v]\<rparr>)
                   else Again (None, st1\<lparr>sched := s2, preempted_reqs := preempted_reqs st1 @ [v]\<rparr>))"
      using res r al True by (auto simp: allocate_or_preempt_def result_simps Let_def split: if_splits)
    have st1: "run_inv c cap st1 \<and> (v \<noteq> rid \<longrightarrow> at_request rid st1) \<and> length (running (sched st1)) < length (running (sched ?st)) \<and>
        token_budget ?st \<le> token_budget st1 \<and> input_budget ?st \<le> input_budget st1 \<and> todo st1 \<le> todo ?st"
      by (rule pop_victim_inv [OF v _ _ c]) (use room in \<open>simp_all add: has_room_def\<close>)
    then have "objects_ok (objects (sched st1))" by (simp add: run_inv_def)
    then show ?thesis using preempt_frame [OF s2] st1 t I by (auto simp: has_room_def run_inv_def at_request_def todo_def)
  qed
qed

lemma alloc_loop_inv:
  assumes "while_loop (\<lambda>st. Some (allocate_or_preempt x c rid n st)) (None, st) = ret (nb, st')"
    and "has_room c cap rid n st" and "0 \<le> draft_slots c"
  shows "run_inv c cap st' \<and> (nb \<noteq> None \<longrightarrow> has_room c cap rid n st' \<and> todo st' \<le> todo st)"
proof -
  let ?P = "\<lambda>st1. has_room c cap rid n st1 \<and> todo st1 \<le> todo st"
  note step = allocate_or_preempt_inv [OF _ _ assms(3)]
  have "case (nb, st') of (nb, st') \<Rightarrow> run_inv c cap st' \<and> (nb \<noteq> None \<longrightarrow> ?P st')"
  proof (rule while_loop_returns [OF assms(1), where P = "\<lambda>(_, st1). ?P st1"])
    show "case (None, st) of (_, st1) \<Rightarrow> ?P st1" using assms(2) by simp
    show "case b of (_, st1) \<Rightarrow> ?P st1" if "case a of (_, st1) \<Rightarrow> ?P st1" "Some (allocate_or_preempt x c rid n a) = ret (Again b)" for a b
      using that step [of x rid n "fst a" "snd a" "Again b"] by (fastforce simp: case_prod_beta)
    show "case b of (nb, st1) \<Rightarrow> run_inv c cap st1 \<and> (nb \<noteq> None \<longrightarrow> ?P st1)"
      if "case a of (_, st1) \<Rightarrow> ?P st1" "Some (allocate_or_preempt x c rid n a) = ret (Done b)" for a b
      using that step [of x rid n "fst a" "snd a" "Done b"] by (fastforce simp: case_prod_beta)
  qed
  then show ?thesis by simp
qed

lemma alloc_loop_ends:
  assumes "has_room c cap rid n st" and "0 \<le> draft_slots c"
  shows "while_loop (\<lambda>st. Some (allocate_or_preempt x c rid n st)) (nb, st) \<noteq> None"
  by (rule while_loop_ends [where P = "\<lambda>(_, st). has_room c cap rid n st" and m = "\<lambda>(_, st). length (running (sched st))"])
     (use assms(1) allocate_or_preempt_inv [OF _ _ assms(2)] in \<open>fastforce+\<close>)

section \<open>An iteration over the running requests\<close>

definition config_ok :: "sched_config \<Rightarrow> bool" where
  "config_ok c \<longleftrightarrow> 0 < cache_block_size c \<and> 0 < sc_hash_block_size c \<and> 0 \<le> draft_slots c \<and> 0 \<le> max_num_scheduled_tokens c \<and>
     0 \<le> max_num_batched_tokens c"

lemma running_chunk_le:
  assumes "running_chunk x c r st = Inr (inputs, n, b, external, m)" and "sorted (map mm_offset (mm_features r))" and "config_ok c"
  shows "0 \<le> n" and "n \<le> max (min (token_budget st) (input_budget st - draft_slots c)) 0"
proof -
  let ?b = "min (token_budget st) (input_budget st - draft_slots c)"
  let ?n0 = "num_tokens_with_spec r + num_output_placeholders r - num_computed_tokens r"
  define n1 where "n1 = min (min (if 0 < long_prefill_token_threshold c \<and> long_prefill_token_threshold c < ?n0 then long_prefill_token_threshold c else ?n0) ?b)
    (sc_model_len c - num_computed_tokens r - num_sampled_tokens_per_step c)"
  have n1: "n1 \<le> ?b" unfolding n1_def by (rule min.coboundedI1, rule min.cobounded2)
  obtain n2 n3 where n: "(if need_mamba_block_aligned_split c then mamba_block_aligned_split c r n1 0 0 else Inr n1) = Inr n2"
    "(if has_encoder_inputs r then try_schedule_encoder_inputs x c (ext (sched st)) r (num_computed_tokens r) n2 (encoder_compute_budget st)
        (num_prefill_lookahead c) (encoder_cache_manager (sched st))
      else Inr ([], n2, encoder_compute_budget st, [], encoder_cache_manager (sched st))) = Inr (inputs, n3, b, external, m)"
    "n = reserve_prefill_lookahead c r (num_computed_tokens r) n3"
    using assms(1) unfolding running_chunk_def Let_def n1_def [symmetric] by (auto simp: result_simps)
  have "n2 \<le> max n1 0" using n(1) mamba_split_le assms(3) by (auto simp: config_ok_def split: if_splits)
  moreover have "n3 \<le> max n2 0" using n(2) encoder_le [OF _ assms(2)] by (auto split: if_splits)
  ultimately show "0 \<le> n" "n \<le> max ?b 0" using n1 n(3) reserve_lookahead(1,2) [of c r "num_computed_tokens r" n3] by linarith+
qed

lemma commit_running_inv:
  assumes res: "commit_running x c rid n kb inputs nb external st = Inr st'" and room: "has_room c cap rid n st" and n: "0 \<le> n"
  shows "run_inv c cap st' \<and> todo st' < todo st"
proof -
  obtain r where r: "get_req rid (sched st) = Inr r" using res by (auto simp: commit_running_def result_simps)
  have I: "objects_ok (objects (sched st))" "place_ok (req_index st) (running (sched st)) (running_reqs st)"
    "budget_ok cap (scheduled_tokens st) (token_budget st) (input_budget st)" "req_index st < length (running (sched st))"
    "running (sched st) ! req_index st = rid" "n \<le> token_budget st" "n + draft_slots c \<le> input_budget st"
    using room by (auto simp: has_room_def run_inv_def at_request_def)
  have ok: "request_id r = rid" "sorted (map mm_offset (mm_features r))" using get_req_ok [OF I(1) r] by auto
  have give: "place_ok (Suc (req_index st)) (running (sched st)) (running_reqs st @ [rid])"
    "budget_ok cap (dict_set rid n (scheduled_tokens st)) (token_budget st - n) (input_budget st - (n + draft_slots c))"
    using place_give [OF I(2,4)] budget_give [OF I(3) n I(6,7)] I(5) by simp_all
  show ?thesis
    using res r ok room give I(1,4) unfolding commit_running_def Let_def
    by (auto simp: has_room_def run_inv_def todo_def dest!: record_encoder_frame)
qed

lemma running_step_inv:
  assumes res: "running_step x c defer st = ret t" and inv: "run_inv c cap st" and c: "config_ok c"
  shows "case t of Done st' \<Rightarrow> run_inv c cap st' | Again st' \<Rightarrow> run_inv c cap st' \<and> todo st' < todo st"
proof (cases "\<not> (req_index st < length (running (sched st)) \<and> token_budget st > 0) \<or> input_budget st \<le> draft_slots c")
  case True
  then show ?thesis using res inv by (auto simp: running_step_def Let_def)
next
  case False
  let ?s = "sched st" and ?rid = "running (sched st) ! req_index st"
  have I: "objects_ok (objects ?s)" "place_ok (req_index st) (running ?s) (running_reqs st)" using inv by (auto simp: run_inv_def)
  have skip: "run_inv c cap (st\<lparr>req_index := req_index st + 1, sched := ?s\<lparr>encoder_cache_manager := m\<rparr>\<rparr>) \<and>
      run_inv c cap (st\<lparr>req_index := req_index st + 1\<rparr>)" for m
    using inv False place_skip [OF I(2)] by (auto simp: run_inv_def)
  obtain r where r: "get_req ?rid ?s = Inr r" using res False by (auto simp: running_step_def Let_def result_simps)
  have fs: "sorted (map mm_offset (mm_features r))" using get_req_ok [OF I(1) r] by simp
  show ?thesis
  proof (cases "skips_step c defer r ?s")
    case True
    then show ?thesis using res False r skip by (auto simp: running_step_def Let_def run_then_def todo_def)
  next
    case no: False
    obtain inputs n b external m where ch: "running_chunk x c r st = Inr (inputs, n, b, external, m)"
      using res False r no by (auto simp: running_step_def Let_def result_simps)
    note le = running_chunk_le [OF ch fs c]
    let ?st = "st\<lparr>sched := ?s\<lparr>encoder_cache_manager := m\<rparr>\<rparr>"
    show ?thesis
    proof (cases "n = 0")
      case True
      then show ?thesis using res False r no ch skip by (auto simp: running_step_def Let_def run_then_def todo_def)
    next
      case pos: False
      have room: "has_room c cap ?rid n ?st" using inv False le by (auto simp: has_room_def run_inv_def at_request_def)
      obtain nb st1 where loop: "while_loop (\<lambda>st. Some (allocate_or_preempt x c ?rid n st)) (None, ?st) = ret (nb, st1)"
        and t: "(case nb of None \<Rightarrow> ret (Done st1) | Some kb \<Rightarrow> run_then (Some (commit_running x c ?rid n kb inputs b external st1)) (\<lambda>st. ret (Again st))) = ret t"
        using res False r no ch pos by (auto simp: running_step_def Let_def result_simps)
      have d: "0 \<le> draft_slots c" using c by (simp add: config_ok_def)
      have "todo ?st = todo st" by (simp add: todo_def)
      note after = alloc_loop_inv [OF loop room d, unfolded this]
      show ?thesis
      proof (cases nb)
        case (Some kb)
        then obtain st2 where "commit_running x c ?rid n kb inputs b external st1 = Inr st2" "t = Again st2" using t by (auto simp: result_simps)
        with commit_running_inv [OF this(1) _ le(1)] after Some show ?thesis by fastforce
      qed (use after t in auto)
    qed
  qed
qed

lemma running_step_returns:
  assumes inv: "run_inv c cap st" and c: "config_ok c"
  shows "running_step x c defer st \<noteq> None"
proof
  assume none: "running_step x c defer st = None"
  let ?s = "sched st" and ?rid = "running (sched st) ! req_index st"
  have go: "req_index st < length (running ?s) \<and> token_budget st > 0" "draft_slots c < input_budget st"
    using none by (auto simp: running_step_def Let_def split: if_splits)
  obtain r inputs n b external m where r: "get_req ?rid ?s = Inr r" and ch: "running_chunk x c r st = Inr (inputs, n, b, external, m)"
    and loop: "while_loop (\<lambda>st. Some (allocate_or_preempt x c ?rid n st)) (None, st\<lparr>sched := ?s\<lparr>encoder_cache_manager := m\<rparr>\<rparr>) = None"
    using none go by (auto simp: running_step_def Let_def run_then_None result_simps split: if_splits option.splits)
  have "sorted (map mm_offset (mm_features r))" using get_req_ok [OF _ r] inv by (simp add: run_inv_def)
  note le = running_chunk_le [OF ch this c]
  have "has_room c cap ?rid n (st\<lparr>sched := ?s\<lparr>encoder_cache_manager := m\<rparr>\<rparr>)"
    using inv go le by (auto simp: has_room_def run_inv_def at_request_def)
  from alloc_loop_ends [OF this, of x None] c loop show False by (simp add: config_ok_def)
qed

lemma running_loop_inv:
  assumes "while_loop (running_step x c defer) st = ret st'" and "run_inv c cap st" and "config_ok c"
  shows "run_inv c cap st'"
  by (rule while_loop_returns [OF assms(1), where P = "run_inv c cap"]) (use assms(2,3) running_step_inv in fastforce)+

lemma running_loop_ends:
  assumes "run_inv c cap st" and "config_ok c"
  shows "while_loop (running_step x c defer) st \<noteq> None"
  by (rule while_loop_ends [where P = "run_inv c cap" and m = todo]) (use assms running_step_inv running_step_returns in fastforce)+

end
