(* ===== verification/Sched_Admit.thy ===== *)
theory Sched_Admit
  imports Sched_Safety
begin

text \<open>
  The loop over the waiting requests, and the whole step: every assertion of \<^verbatim>\<open>schedule\<close> on budgets and on the number of requests holds.
\<close>

section \<open>Queues\<close>

lemma deref_length: "length (deref s ids) \<le> length ids"
  by (simp add: deref_def map_filter_def)

lemma deref_stored: "r \<in> set (deref s ids) \<Longrightarrow> \<exists>rid. dict_get (objects s) rid = Some r"
  by (auto simp: deref_def map_filter_def)

lemma q_pop_shorter: "q_pop p s q = Inr (r, q') \<Longrightarrow> length q' < length q"
  using deref_length [of s q]
  by (cases p) (auto simp: q_pop_def queue_of_def result_simps fcfs_pop_request_def pq_pop_request_def split: if_splits list.splits dest!: heappop_length)

lemma q_peek_stored:
  assumes "q_peek p s q = Inr r" shows "\<exists>rid. dict_get (objects s) rid = Some r"
proof -
  have "r \<in> set (deref s q)"
    using assms by (cases p) (auto simp: q_peek_def queue_of_def fcfs_peek_request_def pq_peek_request_def py_index_def split: if_splits list.splits)
  then show ?thesis by (rule deref_stored)
qed

section \<open>What the lookups leave alone\<close>

definition sane :: "Request \<Rightarrow> bool" where
  "sane r \<longleftrightarrow> sorted (map mm_offset (mm_features r))"

lemma sane_update [simp]:
  "sane (r\<lparr>shared_prefix_boundary := b\<rparr>) = sane r" "sane (r\<lparr>status := st\<rparr>) = sane r" "sane (r\<lparr>num_computed_tokens := n\<rparr>) = sane r"
  by (simp_all add: sane_def)

lemma sane_stored: "objects_ok (objects s) \<Longrightarrow> dict_get (objects s) rid = Some r \<Longrightarrow> sane r"
  by (auto simp: objects_ok_def sane_def)

text \<open>The queues, the running list and the ids of the store are as before.\<close>

definition keeps :: "'w scheduler \<Rightarrow> 'w scheduler \<Rightarrow> bool" where
  "keeps s s' \<longleftrightarrow> running s' = running s \<and> waiting s' = waiting s \<and> skipped_waiting s' = skipped_waiting s \<and>
     num_waiting_for_streaming_input s' = num_waiting_for_streaming_input s \<and> (objects_ok (objects s) \<longrightarrow> objects_ok (objects s'))"

lemma keeps_refl [simp]: "keeps s s"
  by (simp add: keeps_def)

lemma keeps_trans: "keeps s t \<Longrightarrow> keeps t u \<Longrightarrow> keeps s u"
  by (auto simp: keeps_def)

lemma keeps_put: "keeps s t \<Longrightarrow> sane r \<Longrightarrow> keeps s (put_req r t)"
  by (auto simp: keeps_def sane_def)

lemma keeps_other [simp]:
  "keeps s (t\<lparr>kv_manager := km\<rparr>) = keeps s t" "keeps s (t\<lparr>ext := w\<rparr>) = keeps s t" "keeps s (t\<lparr>failed_recving_kv_req_ids := a\<rparr>) = keeps s t"
  "keeps s (t\<lparr>finished_recving_kv_req_ids := b\<rparr>) = keeps s t" "keeps s (t\<lparr>grammar_compile_error_reqs := g\<rparr>) = keeps s t"
  "keeps s (t\<lparr>encoder_cache_manager := e\<rparr>) = keeps s t"
  by (simp_all add: keeps_def)

lemma sane_forget: "forget r' = forget r \<Longrightarrow> sane r \<Longrightarrow> sane r'"
  using forget_keeps [of r' r] by (simp add: sane_def)

lemma with_km_keeps:
  assumes "with_km (\<lambda>r. km_cache_blocks sha u r (f r)) r s = Inr (r', s')" and "sane r"
  shows "sane r' \<and> keeps s s'"
proof -
  obtain km where "km_cache_blocks sha u r (f r) (kv_manager s) = Inr (r', km)" "s' = put_req r' (s\<lparr>kv_manager := km\<rparr>)"
    using assms(1) by (auto simp: with_km_def result_simps)
  then show ?thesis using sane_forget [OF km_cache_blocks_forget assms(2)] by (auto intro: keeps_put)
qed

lemma remote_kv_keeps:
  assumes res: "update_waiting_for_remote_kv x c r s = Inr (r', s')" and "sane r"
  shows "sane r' \<and> keeps s s'"
  using res unfolding update_waiting_for_remote_kv_def
proof (elim and_thenE2 and_thenE, goal_cases)
  case (1 u r1 s1)
  let ?cache = "with_km (\<lambda>r. km_cache_blocks (embed_digest x) (int_event_hashes x) r (num_computed_tokens r)) r s"
  have cached: "sane r2 \<and> keeps s s2" if "?cache = Inr (r2, s2)" for r2 s2 by (rule with_km_keeps [OF that assms(2)])
  have "sane r1 \<and> keeps s s1"
  proof (cases "request_id r \<in> set (failed_recving_kv_req_ids s)")
    case True
    then show ?thesis using 1(2) assms(2) by (auto elim!: and_thenE and_thenE2 split: if_splits dest!: cached)
  next
    case False
    then obtain r2 s2 where r2: "?cache = Inr (r2, s2)" and "r1 = (if num_computed_tokens r2 = num_tokens r2 then r2\<lparr>num_computed_tokens := num_tokens r2 - 1\<rparr> else r2)"
      "s1 = put_req r1 s2" using 1(2) by (auto elim!: and_thenE2 simp: Let_def)
    then show ?thesis using cached [OF r2] by (auto intro: keeps_put)
  qed
  then show ?case using 1(3) by (auto split: if_splits)
qed

lemma promoted_keeps:
  assumes "try_promote_blocked_waiting_request x c r s = Inr (ready, r', s')" and "sane r"
  shows "sane r' \<and> keeps s s'"
proof (cases "status r = WAITING_FOR_REMOTE_KVS \<and> request_id r \<in> set (finished_recving_kv_req_ids s)")
  case True
  then obtain r1 s1 where u: "update_waiting_for_remote_kv x c r s = Inr (r1, s1)"
    and "r' = r1\<lparr>status := (if num_preemptions r1 \<noteq> 0 then PREEMPTED else WAITING)\<rparr>" "s' = put_req r' s1"
    using assms(1) by (auto simp: try_promote_blocked_waiting_request_def result_simps Let_def)
  then show ?thesis using remote_kv_keeps [OF u assms(2)] by (auto intro: keeps_put)
next
  case False
  then show ?thesis using assms
    by (auto simp: try_promote_blocked_waiting_request_def result_simps Let_def intro!: keeps_put split: RequestStatus.splits if_splits grammar_status.splits)
qed

lemma recompute_hit_keeps:
  assumes "(if d then run_then (get_computed_blocks sha u full r km) (\<lambda>((kb, n, b), r, km).
              let r = r\<lparr>shared_prefix_boundary := b\<rparr> in ret (f kb n, r, put_req r (s\<lparr>kv_manager := km\<rparr>)))
            else ret (y, r, s)) = ret (hit, r', s')" and "sane r"
  shows "sane r' \<and> keeps s s'"
proof (cases d)
  case True
  then have "run_then (get_computed_blocks sha u full r km) (\<lambda>((kb, n, b), r, km).
      let r = r\<lparr>shared_prefix_boundary := b\<rparr> in ret (f kb n, r, put_req r (s\<lparr>kv_manager := km\<rparr>))) = ret (hit, r', s')" using assms(1) by simp
  then obtain y where y: "get_computed_blocks sha u full r km = ret y" "(\<lambda>((kb, n, b), r, km).
      let r = r\<lparr>shared_prefix_boundary := b\<rparr> in ret (f kb n, r, put_req r (s\<lparr>kv_manager := km\<rparr>))) y = ret (hit, r', s')" by (rule run_thenE)
  obtain kb n b r1 km1 where yy: "y = ((kb, n, b), r1, km1)" by (metis surj_pair)
  have g: "get_computed_blocks sha u full r km = ret ((kb, n, b), r1, km1)" and "r' = r1\<lparr>shared_prefix_boundary := b\<rparr>"
    "s' = put_req (r1\<lparr>shared_prefix_boundary := b\<rparr>) (s\<lparr>kv_manager := km1\<rparr>)" using y yy by (auto simp: Let_def)
  then show ?thesis using sane_forget [OF get_computed_blocks_forget [OF g] assms(2)] by (auto intro: keeps_put)
qed (use assms in auto)

lemma connector_hit_keeps:
  assumes res: "connector_prefix_hit x c r kb n d s = ret (hit, r', s')" and "sane r"
  shows "sane r' \<and> keeps s s'"
proof -
  obtain t where t: "py_mod n (sc_block_size c) = Inr t" using res by (auto simp: connector_prefix_hit_def result_simps)
  obtain e a w where g: "get_num_new_matched_tokens x r (n - t) (ext s) = ((e, a), w)" by (metis surj_pair)
  have "keeps s (s\<lparr>ext := w\<rparr>)" by simp
  note ext = keeps_trans [OF this]
  show ?thesis
  proof (cases e)
    case None
    then have "r' = r \<and> s' = s\<lparr>ext := w\<rparr>" using res t g by (simp add: connector_prefix_hit_def run_then_def)
    then show ?thesis using assms(2) by simp
  next
    case (Some e')
    let ?F = "\<lambda>(kb, nl, external, la). if d \<and> external = 0
      then run_then (get_computed_blocks (embed_digest x) (int_event_hashes x) (reports_full x r) r (kv_manager (s\<lparr>ext := w\<rparr>))) (\<lambda>((kb, n, b), r, km).
           let r = r\<lparr>shared_prefix_boundary := b\<rparr> in ret (Some (kb, n, external, la), r, put_req r (s\<lparr>ext := w, kv_manager := km\<rparr>)))
      else ret (Some (kb, nl, external, la), r, s\<lparr>ext := w\<rparr>)"
    have "run_then (Some (if t \<noteq> 0 \<and> e' > t then and_then (truncate_computed_blocks kb (n - t) (kv_manager (s\<lparr>ext := w\<rparr>))) (\<lambda>kb. Inr (kb, n - t, e', a))
        else if t \<noteq> 0 then Inr (kb, n, 0, False) else Inr (kb, n, e', a))) ?F = ret (hit, r', s')"
      using res by (simp add: connector_prefix_hit_def t g Some Let_def split del: if_split)
    then obtain y where "?F y = ret (hit, r', s')" by (rule run_thenE)
    moreover obtain kb' nl ex la where "y = (kb', nl, ex, la)" by (metis surj_pair)
    ultimately have "sane r' \<and> keeps (s\<lparr>ext := w\<rparr>) s'"
      by (intro recompute_hit_keeps [OF _ assms(2), where d = "d \<and> ex = 0" and f = "\<lambda>kb n. Some (kb, n, ex, la)"]) simp
    then show ?thesis using ext by blast
  qed
qed

lemma local_hit_forget: "get_local_prefix_cache_hit x r km = ret (hit, r', km') \<Longrightarrow> forget r' = forget r"
  by (auto simp: get_local_prefix_cache_hit_def result_simps split: if_splits dest: get_computed_blocks_forget get_computed_for_connector_forget)

lemma prefix_hit_keeps:
  assumes "waiting_prefix_hit x c r s = ret (res, r', s')" and "sane r"
  shows "sane r' \<and> keeps s s'"
proof (cases "num_computed_tokens r = 0")
  case True
  obtain kb n b d r1 km where loc: "get_local_prefix_cache_hit x r (kv_manager s) = ret ((kb, n, b, d), r1, km)"
    using assms(1) True by (auto simp: waiting_prefix_hit_def result_simps)
  let ?r = "r1\<lparr>shared_prefix_boundary := b\<rparr>"
  let ?s = "put_req ?r (s\<lparr>kv_manager := km\<rparr>)"
  have sane: "sane ?r" and ks: "keeps s ?s" using sane_forget [OF local_hit_forget [OF loc] assms(2)] by (auto intro: keeps_put)
  let ?C = "if has_connector x then connector_prefix_hit x c ?r kb n d ?s else ret (Some (kb, n, 0, False), ?r, ?s)"
  let ?F = "\<lambda>(found, r, s). case found of None \<Rightarrow> ret (None, r, s)
     | Some (kb, num_local, external, load_kv_async) \<Rightarrow>
         run_then (Some (py_assert (num_local + external \<le> num_tokens r))) (\<lambda>_.
         let (available, w) = (if has_ec_connector x \<and> mm_features r \<noteq> []
               then ensure_cache_available x r (num_local + external) (ext s) else (True, ext s));
             s = s\<lparr>ext := w\<rparr>
         in
         if \<not> available then ret (None, r, s)
         else ret (Some \<lparr>ph_blocks = kb, ph_local = num_local, ph_external = external, ph_async = load_kv_async,
                         ph_computed = num_local + external, ph_looked_up = True\<rparr>, r, s))"
  have "run_then ?C ?F = ret (res, r', s')" using assms(1) True loc unfolding waiting_prefix_hit_def Let_def by simp
  then obtain y where y: "?C = ret y" "?F y = ret (res, r', s')" by (rule run_thenE)
  obtain got r2 s2 where yy: "y = (got, r2, s2)" by (metis surj_pair)
  have "sane r2 \<and> keeps ?s s2"
  proof (cases "has_connector x")
    case True
    then show ?thesis using y(1) yy connector_hit_keeps [OF _ sane] by simp
  qed (use y(1) yy sane in auto)
  moreover have "r' = r2 \<and> (\<exists>w. s' = s2 \<or> s' = s2\<lparr>ext := w\<rparr>)"
  proof (cases got)
    case (Some h)
    obtain a b e f where "h = (a, b, e, f)" by (metis surj_pair)
    moreover obtain av w where "(if has_ec_connector x \<and> mm_features r2 \<noteq> []
         then ensure_cache_available x r2 (b + e) (ext s2) else (True, ext s2)) = (av, w)" by (metis surj_pair)
    ultimately show ?thesis using y(2) yy Some by (auto simp: Let_def result_simps split: if_splits)
  qed (use y(2) yy in auto)
  ultimately show ?thesis using ks keeps_trans [of s ?s s2] by auto
qed (use assms in \<open>auto simp: waiting_prefix_hit_def\<close>)

section \<open>An iteration over the waiting requests\<close>

definition wait_inv :: "sched_config \<Rightarrow> int \<Rightarrow> 'w sched_step \<Rightarrow> bool" where
  "wait_inv c cap st \<longleftrightarrow>
     objects_ok (objects (sched st)) \<and> budget_ok cap (scheduled_tokens st) (token_budget st) (input_budget st) \<and>
     int (length (running (sched st))) \<le> max_num_running_reqs c \<and> 0 \<le> num_waiting_for_streaming_input (sched st) \<and>
     length (new_reqs st) + length (resumed_reqs st) + length (running_reqs st) \<le> length (running (sched st))"

definition num_queued :: "'w scheduler \<Rightarrow> nat" where
  "num_queued s = length (waiting s) + length (skipped_waiting s)"

lemma run_inv_wait: "run_inv c cap st \<Longrightarrow> wait_inv c cap st"
  by (auto simp: run_inv_def wait_inv_def dest: place_count)

lemma wait_inv_keeps: "wait_inv c cap st \<Longrightarrow> keeps (sched st) s \<Longrightarrow> wait_inv c cap (st\<lparr>sched := s\<rparr>)"
  by (auto simp: wait_inv_def keeps_def)

lemma queued_keeps: "keeps s s' \<Longrightarrow> num_queued s' = num_queued s"
  by (simp add: keeps_def num_queued_def)

lemma queued_pop:
  assumes "q_pop p s' (waiting_queue skipped s) = Inr (r, q)" shows "num_queued (set_waiting_queue skipped q s) < num_queued s"
  using q_pop_shorter [OF assms] by (cases skipped) (auto simp: num_queued_def waiting_queue_def set_waiting_queue_def)

lemma set_waiting_queue_frame [simp]:
  "objects (set_waiting_queue k q s) = objects s" "running (set_waiting_queue k q s) = running s"
  "num_waiting_for_streaming_input (set_waiting_queue k q s) = num_waiting_for_streaming_input s"
  by (simp_all add: set_waiting_queue_def)

lemma skip_waiting_inv:
  assumes "skip_waiting c skipped r st = Inr st'" and "wait_inv c cap st"
  shows "wait_inv c cap st' \<and> num_queued (sched st') < num_queued (sched st)"
  using assms by (auto simp: skip_waiting_def result_simps wait_inv_def intro: queued_pop)

lemma fitted_chunk_le:
  assumes "fitted_chunk x c r ph pad n1 st = Inr (Some (n, pad', inputs, eb, external), m)" and r: "sane r" and c: "config_ok c"
  shows "0 \<le> n \<and> n \<le> max n1 0"
proof -
  obtain n2 n3 where n: "(if need_mamba_block_aligned_split c then mamba_block_aligned_split c r n1 (ph_local ph) (ph_external ph) else Inr n1) = Inr n2"
    "(if has_encoder_inputs r
      then try_schedule_encoder_inputs x c (ext (sched st)) r (ph_computed ph) n2 (encoder_compute_budget st)
             (num_prefill_lookahead c) (encoder_cache_manager (sched st))
      else Inr ([], n2, encoder_compute_budget st, [], encoder_cache_manager (sched st))) = Inr (inputs, n3, eb, external, m)"
    "n = reserve_prefill_lookahead c r (ph_computed ph) n3"
    using assms(1) unfolding fitted_chunk_def Let_def by (elim and_thenE) (auto split: if_split_asm elim!: and_thenE)
  have "n2 \<le> max n1 0" using n(1) mamba_split_le c by (auto simp: config_ok_def split: if_splits)
  moreover have "n3 \<le> max n2 0" using n(2) encoder_le [OF _ r [unfolded sane_def]] by (auto split: if_splits)
  ultimately show ?thesis using n(3) reserve_lookahead(1,2) [of c r "ph_computed ph" n3] by linarith
qed

lemma waiting_chunk_le:
  assumes res: "waiting_chunk x c defer r ph st = Inr (Some (n, pad, inputs, eb, external), m)" and r: "sane r" and c: "config_ok c"
    and room: "0 < token_budget st" "draft_slots c < input_budget st"
  shows "0 \<le> n \<and> n \<le> token_budget st \<and> n + draft_slots c \<le> input_budget st"
proof (cases "ph_async ph")
  case False
  let ?b = "min (token_budget st) (input_budget st - draft_slots c)"
  obtain n0 pad' where "fitted_chunk x c r ph pad' (min n0 ?b) st = Inr (Some (n, pad, inputs, eb, external), m)"
    using res False unfolding waiting_chunk_def Let_def by (auto split: if_split_asm option.split_asm elim!: and_thenE)
  from fitted_chunk_le [OF this r c] room show ?thesis by linarith
qed (use res room in \<open>auto simp: waiting_chunk_def result_simps\<close>)

lemma waiting_allocate_keeps:
  assumes "waiting_allocate x c r ph n inputs s = Inr (nb, r', s')" and "sane r"
  shows "sane r' \<and> keeps s s'"
proof -
  obtain et rb km km1 la where a: "allocate_slots (embed_digest x) (int_event_hashes x) r n (ph_local ph) (Some (ph_blocks ph)) la (ph_external ph)
         (ph_async ph) et (scheduler_reserve_full_isl c) rb (running s \<noteq> []) km = Inr (nb, r', km1)" and s': "s' = put_req r' (s\<lparr>kv_manager := km1\<rparr>)"
    using assms(1) unfolding waiting_allocate_def Let_def by (elim and_thenE and_thenE2) (auto elim!: and_thenE)
  show ?thesis using sane_forget [OF allocate_slots_forget [OF a] assms(2)] s' by (auto intro: keeps_put)
qed

lemma start_async_load_inv:
  assumes "wait_inv c cap st" and "sane r"
  shows "wait_inv c cap (start_async_load c r ph st) \<and> num_queued (sched (start_async_load c r ph st)) = num_queued (sched st)"
  using assms by (auto simp: start_async_load_def Let_def wait_inv_def num_queued_def sane_def split: prod.splits)

lemma admit_waiting_inv:
  assumes res: "admit_waiting x c r ph n pad inputs eb external st = Inr st'" and inv: "wait_inv c cap st" and r: "sane r"
    and room: "int (length (running (sched st))) < max_num_running_reqs c" "0 \<le> n" "n \<le> token_budget st" "n + draft_slots c \<le> input_budget st"
  shows "wait_inv c cap st' \<and> num_queued (sched st') = num_queued (sched st)"
proof -
  have "budget_ok cap (scheduled_tokens st) (token_budget st) (input_budget st)" using inv by (simp add: wait_inv_def)
  note give = budget_give [OF this room(2-4), of "request_id r"]
  have "sorted (map mm_offset (mm_features r))" using r by (simp add: sane_def)
  then show ?thesis
    using res inv room(1) give unfolding admit_waiting_def Let_def
    by (auto simp: wait_inv_def num_queued_def result_simps split: if_split_asm dest!: record_encoder_frame)
qed

lemma place_waiting_inv:
  assumes res: "place_waiting x c skipped r ph n pad inputs eb external st = Inr t" and inv: "wait_inv c cap st" and r: "sane r"
    and room: "int (length (running (sched st))) < max_num_running_reqs c" "0 \<le> n" "n \<le> token_budget st" "n + draft_slots c \<le> input_budget st"
  shows "case t of Done st' \<Rightarrow> wait_inv c cap st' | Again st' \<Rightarrow> wait_inv c cap st' \<and> num_queued (sched st') < num_queued (sched st)"
proof -
  obtain nb r1 s1 where al: "waiting_allocate x c r ph n inputs (sched st) = Inr (nb, r1, s1)"
    using res unfolding place_waiting_def by (elim and_thenE) auto
  note k = waiting_allocate_keeps [OF al r]
  show ?thesis
  proof (cases "nb = None")
    case True
    then obtain m where "t = Done (st\<lparr>sched := s1\<lparr>encoder_cache_manager := m\<rparr>\<rparr>)"
      using res al unfolding place_waiting_def by (auto elim!: and_thenE)
    then show ?thesis using wait_inv_keeps [OF inv, of "s1\<lparr>encoder_cache_manager := m\<rparr>"] k by simp
  next
    case False
    define s0 where "s0 = (if has_connector x
      then s1\<lparr>ext := update_state_after_alloc x r1 (km_get_blocks (request_id r1) (kv_manager s1)) (ph_external ph) (ext s1)\<rparr> else s1)"
    let ?G = "\<lambda>km. and_then (q_pop (policy c) (s0\<lparr>kv_manager := km\<rparr>) (waiting_queue skipped (s0\<lparr>kv_manager := km\<rparr>))) (\<lambda>(_, q).
        (if ph_async ph then Inr (Again (start_async_load c r1 ph (st\<lparr>sched := set_waiting_queue skipped q (s0\<lparr>kv_manager := km\<rparr>)\<rparr>)))
        else and_then (admit_waiting x c r1 ph n pad inputs eb external (st\<lparr>sched := set_waiting_queue skipped q (s0\<lparr>kv_manager := km\<rparr>)\<rparr>)) (\<lambda>st. Inr (Again st))))"
    have "and_then (if ph_looked_up ph then record_prefix_cache_stats r1 (ph_local ph) (kv_manager s0) else Inr (kv_manager s0)) ?G = Inr t"
      using res al False by (simp add: place_waiting_def Let_def s0_def split del: if_split cong: if_cong)
    then obtain km where "?G km = Inr t" by (rule and_thenE)
    then obtain p q where pop: "q_pop (policy c) (s0\<lparr>kv_manager := km\<rparr>) (waiting_queue skipped (s0\<lparr>kv_manager := km\<rparr>)) = Inr (p, q)"
      and t: "(if ph_async ph then Inr (Again (start_async_load c r1 ph (st\<lparr>sched := set_waiting_queue skipped q (s0\<lparr>kv_manager := km\<rparr>)\<rparr>)))
        else and_then (admit_waiting x c r1 ph n pad inputs eb external (st\<lparr>sched := set_waiting_queue skipped q (s0\<lparr>kv_manager := km\<rparr>)\<rparr>)) (\<lambda>st. Inr (Again st))) = Inr t" by (rule and_thenE2)
    define s2 where "s2 = (s0\<lparr>kv_manager := km\<rparr>)"
    have s2: "keeps s1 s2" by (simp add: s2_def s0_def)
    note pop = pop [folded s2_def] and t = t [folded s2_def]
    let ?st = "st\<lparr>sched := set_waiting_queue skipped q s2\<rparr>"
    have ks: "keeps (sched st) s2" using keeps_trans k s2 by blast
    then have inv': "wait_inv c cap ?st" using inv by (auto simp: wait_inv_def keeps_def)
    have less: "num_queued (sched ?st) < num_queued (sched st)" using queued_pop [OF pop] queued_keeps [OF ks] by simp
    have "int (length (running (sched ?st))) < max_num_running_reqs c" using room(1) ks by (simp add: keeps_def)
    then show ?thesis
      using t start_async_load_inv [OF inv' conjunct1 [OF k]] admit_waiting_inv [OF _ inv' conjunct1 [OF k] _ room(2)] room(3,4) less
      by (fastforce simp: result_simps split: if_split_asm)
  qed
qed

definition step_goes_on :: "sched_config \<Rightarrow> int \<Rightarrow> 'w sched_step \<Rightarrow> 'w sched_step loop_step \<Rightarrow> bool" where
  "step_goes_on c cap st t \<longleftrightarrow>
     (case t of Done st' \<Rightarrow> wait_inv c cap st' | Again st' \<Rightarrow> wait_inv c cap st' \<and> num_queued (sched st') < num_queued (sched st))"

lemma schedule_head_inv:
  assumes res: "schedule_head x c defer skipped r st = ret t" and inv: "wait_inv c cap st" and r: "sane r" and c: "config_ok c"
    and room: "int (length (running (sched st))) < max_num_running_reqs c" "0 < token_budget st" "draft_slots c < input_budget st"
  shows "step_goes_on c cap st t"
proof -
  obtain hit r1 s1 where hit: "waiting_prefix_hit x c r (sched st) = ret (hit, r1, s1)"
    using res unfolding schedule_head_def by (elim run_thenE) auto
  note k = prefix_hit_keeps [OF hit r]
  let ?st = "st\<lparr>sched := s1\<rparr>"
  have inv1: "wait_inv c cap ?st" and q: "num_queued (sched ?st) = num_queued (sched st)" using wait_inv_keeps [OF inv] k queued_keeps by auto
  show ?thesis
  proof (cases hit)
    case None
    then obtain st2 where "skip_waiting c skipped r1 ?st = Inr st2" "t = Again st2"
      using res hit unfolding schedule_head_def by (auto simp: Let_def elim!: run_thenE)
    then show ?thesis using skip_waiting_inv [OF _ inv1] q by (simp add: step_goes_on_def)
  next
    case (Some ph)
    obtain chunk m where ch: "waiting_chunk x c defer r1 ph ?st = Inr (chunk, m)"
      and t: "(case chunk of None \<Rightarrow> ret (Done (st\<lparr>sched := s1\<lparr>encoder_cache_manager := m\<rparr>\<rparr>))
         | Some (n, pad, inputs, eb, external) \<Rightarrow>
             Some (place_waiting x c skipped r1 ph n pad inputs eb external (st\<lparr>sched := s1\<lparr>encoder_cache_manager := m\<rparr>\<rparr>))) = ret t"
      using res hit Some unfolding schedule_head_def by (auto simp: Let_def elim!: run_thenE)
    let ?st2 = "st\<lparr>sched := s1\<lparr>encoder_cache_manager := m\<rparr>\<rparr>"
    have inv2: "wait_inv c cap ?st2" using wait_inv_keeps [OF inv, of "s1\<lparr>encoder_cache_manager := m\<rparr>"] k by simp
    have q2: "num_queued (sched ?st2) = num_queued (sched st)" using q by (simp add: num_queued_def)
    show ?thesis
    proof (cases chunk)
      case None
      then show ?thesis using t inv2 by (auto simp: step_goes_on_def)
    next
      case (Some h)
      obtain n pad inputs eb external where h: "h = (n, pad, inputs, eb, external)" by (metis surj_pair)
      then have ch': "waiting_chunk x c defer r1 ph ?st = Inr (Some (n, pad, inputs, eb, external), m)" using ch Some by simp
      have le: "0 \<le> n \<and> n \<le> token_budget ?st \<and> n + draft_slots c \<le> input_budget ?st"
        by (rule waiting_chunk_le [OF ch' conjunct1 [OF k] c]) (use room in simp_all)
      have "place_waiting x c skipped r1 ph n pad inputs eb external ?st2 = Inr t" using t Some h by simp
      from place_waiting_inv [OF this inv2 conjunct1 [OF k]] room(1) le k show ?thesis
        using q2 by (cases t) (simp_all add: step_goes_on_def keeps_def)
    qed
  qed
qed

lemma waiting_step_inv:
  assumes res: "waiting_step x c defer st = ret t" and inv: "wait_inv c cap st" and c: "config_ok c"
  shows "step_goes_on c cap st t"
proof (cases "\<not> ((waiting (sched st) \<noteq> [] \<or> skipped_waiting (sched st) \<noteq> []) \<and> token_budget st > 0) \<or> input_budget st \<le> draft_slots c \<or>
         int (length (running (sched st))) + num_waiting_for_streaming_input (sched st) \<ge> max_num_running_reqs c")
  case True
  then have "t = Done st" using res by (auto simp: waiting_step_def Let_def)
  then show ?thesis using inv by (simp add: step_goes_on_def)
next
  case False
  obtain skipped r where r: "q_peek (policy c) (sched st) (waiting_queue skipped (sched st)) = Inr r"
    and rest: "run_then (Some (if is_blocked_waiting_status (status r) then try_promote_blocked_waiting_request x c r (sched st)
        else Inr (True, r, sched st))) (\<lambda>(ready, r, s).
        let st = st\<lparr>sched := s\<rparr> in
        if \<not> ready \<or> passes_over c r st then run_then (Some (skip_waiting c skipped r st)) (\<lambda>st. ret (Again st))
        else schedule_head x c defer skipped r st) = ret t"
    using res False unfolding waiting_step_def Let_def by (auto elim!: run_thenE split: option.split_asm)
  have sane: "sane r" using q_peek_stored [OF r] inv sane_stored by (auto simp: wait_inv_def)
  obtain ready r1 s1 where p: "(if is_blocked_waiting_status (status r) then try_promote_blocked_waiting_request x c r (sched st)
      else Inr (True, r, sched st)) = Inr (ready, r1, s1)"
    and t: "(if \<not> ready \<or> passes_over c r1 (st\<lparr>sched := s1\<rparr>) then run_then (Some (skip_waiting c skipped r1 (st\<lparr>sched := s1\<rparr>))) (\<lambda>st. ret (Again st))
        else schedule_head x c defer skipped r1 (st\<lparr>sched := s1\<rparr>)) = ret t"
    using rest by (elim run_thenE) (auto simp: Let_def)
  have k: "sane r1 \<and> keeps (sched st) s1"
    using p sane promoted_keeps [OF _ sane, of x c "sched st" ready r1 s1] by (cases "is_blocked_waiting_status (status r)") auto
  have inv1: "wait_inv c cap (st\<lparr>sched := s1\<rparr>)" and q: "num_queued s1 = num_queued (sched st)" using wait_inv_keeps [OF inv] k queued_keeps by auto
  show ?thesis
  proof (cases "\<not> ready \<or> passes_over c r1 (st\<lparr>sched := s1\<rparr>)")
    case True
    then obtain st2 where "skip_waiting c skipped r1 (st\<lparr>sched := s1\<rparr>) = Inr st2" "t = Again st2" using t by (auto elim!: run_thenE)
    then show ?thesis using skip_waiting_inv [OF _ inv1] q by (simp add: step_goes_on_def)
  next
    case no: False
    have "step_goes_on c cap (st\<lparr>sched := s1\<rparr>) t"
      by (rule schedule_head_inv [OF _ inv1 conjunct1 [OF k] c]) (use t no False k inv in \<open>auto simp: keeps_def wait_inv_def\<close>)
    then show ?thesis using q by (simp add: step_goes_on_def split: loop_step.splits)
  qed
qed

lemma waiting_loop_inv:
  assumes "while_loop (waiting_step x c defer) st = ret st'" and "wait_inv c cap st" and "config_ok c"
  shows "wait_inv c cap st'"
  by (rule while_loop_returns [OF assms(1), where P = "wait_inv c cap"])
     (use assms(2) waiting_step_inv [OF _ _ assms(3)] in \<open>fastforce simp: step_goes_on_def\<close>)+

section \<open>The whole step\<close>

lemma record_loras_frame: "record_loras c st = Inr st' \<Longrightarrow> \<exists>l. st' = st\<lparr>scheduled_loras := l\<rparr>"
  by (auto simp: record_loras_def result_simps Let_def split: option.splits)

text \<open>What the scheduler has between steps.\<close>

definition between_steps :: "sched_config \<Rightarrow> 'w scheduler \<Rightarrow> bool" where
  "between_steps c s \<longleftrightarrow> objects_ok (objects s) \<and> distinct (running s) \<and> int (length (running s)) \<le> max_num_running_reqs c \<and>
     0 \<le> num_waiting_for_streaming_input s"

lemma start_step_inv:
  "between_steps c s \<Longrightarrow> config_ok c \<Longrightarrow> run_inv c (max_num_scheduled_tokens c) (start_step x c s)"
  by (auto simp: between_steps_def start_step_def Let_def run_inv_def config_ok_def budget_ok_def place_ok_def dict_ok_def)

lemma schedule_waiting_inv:
  assumes "schedule_waiting x c defer st = ret st'" and "wait_inv c cap st" and "config_ok c"
  shows "wait_inv c cap st'"
proof (cases "preempted_reqs st \<noteq> [] \<or> pause_state (sched st) \<noteq> UNPAUSED")
  case False
  let ?F = "\<lambda>st. let s = sched st;
        s = (if step_skipped st \<noteq> [] then s\<lparr>skipped_waiting := q_prepend_all (policy c) s (skipped_waiting s) (step_skipped st)\<rparr> else s);
        s = (if \<not> defer then s\<lparr>prefill_capacity_bound := (waiting s \<noteq> [])\<rparr> else s)
    in ret (st\<lparr>sched := s\<rparr>)"
  have "run_then (while_loop (waiting_step x c defer) st) ?F = ret st'" using assms(1) False by (simp add: schedule_waiting_def)
  then obtain st1 where loop: "while_loop (waiting_step x c defer) st = ret st1" and "?F st1 = ret st'" by (rule run_thenE)
  then show ?thesis using waiting_loop_inv [OF loop assms(2,3)] by (auto simp: wait_inv_def Let_def)
qed (use assms in \<open>auto simp: schedule_waiting_def\<close>)

lemma schedule_requests_inv:
  assumes "config_ok c" and "between_steps c s" and "schedule_requests x c throttle s = ret st"
  shows "wait_inv c (max_num_scheduled_tokens c) st"
proof -
  obtain st1 st2 l where loop: "while_loop (running_step x c (defers_prefills throttle (sched (start_step x c s)))) (start_step x c s) = ret st1"
    and "record_loras c st1 = Inr st2" and w: "schedule_waiting x c (defers_prefills throttle (sched (start_step x c s))) st2 = ret st"
    using assms(3) by (auto simp: schedule_requests_def Let_def elim!: run_thenE)
  from record_loras_frame [OF this(2)] obtain l where st2: "st2 = st1\<lparr>scheduled_loras := l\<rparr>" by blast
  have "run_inv c (max_num_scheduled_tokens c) st1"
    by (rule running_loop_inv [OF loop start_step_inv [OF assms(2,1)] assms(1)])
  then have "wait_inv c (max_num_scheduled_tokens c) st2" using st2 run_inv_wait by (auto simp: wait_inv_def)
  then show ?thesis by (rule schedule_waiting_inv [OF w _ assms(1)])
qed

text \<open>
  C2.  The assertions of \<^verbatim>\<open>schedule\<close> never fail.  Between steps the requests of the store are under their ids with sorted features, and at most
  \<^verbatim>\<open>max_num_running_reqs\<close> distinct requests run.  Whatever the running and the waiting loop do then, preemptions that give tokens back,
  chunks cut by encoder inputs and by Mamba blocks, padded and asynchronous loads included, the tokens of the step are within
  \<^verbatim>\<open>max_num_scheduled_tokens\<close>, both budgets are non-negative, at most \<^verbatim>\<open>max_num_running_reqs\<close> requests run, and the step serves no more
  requests than are running.
\<close>

theorem schedule_within_budget:
  assumes "config_ok c" and "between_steps c s" and "schedule_requests x c throttle s = ret st"
  shows "constraints_hold c st"
  using schedule_requests_inv [OF assms] by (auto simp: wait_inv_def constraints_hold_def budget_ok_def)

theorem schedule_within_budget_witness:
  "\<exists>st. schedule_requests no_plugins sample_config False sample_scheduler = ret st \<and> scheduled_tokens st = [(''r'', 3)] \<and>
     constraints_hold sample_config st"
proof -
  have "case schedule_requests no_plugins sample_config False sample_scheduler of Some (Inr st) \<Rightarrow> scheduled_tokens st = [(''r'', 3)] | _ \<Rightarrow> False"
    by code_simp
  then obtain st where st: "schedule_requests no_plugins sample_config False sample_scheduler = ret st" "scheduled_tokens st = [(''r'', 3)]"
    by (auto split: option.splits sum.splits)
  have "config_ok sample_config" by (simp add: config_ok_def sample_config_def)
  moreover have "between_steps sample_config sample_scheduler"
    by (auto simp: between_steps_def sample_scheduler_def sample_config_def objects_ok_def split: if_splits)
  ultimately show ?thesis using schedule_within_budget [OF _ _ st(1)] st by blast
qed

text \<open>C40.  The loop over the running requests ends, although a request that finds no blocks preempts others and tries again.\<close>

theorem running_loop_terminates:
  assumes "config_ok c" and "between_steps c s"
  shows "while_loop (running_step x c defer) (start_step x c s) \<noteq> None"
  by (rule running_loop_ends [OF start_step_inv [OF assms(2,1)] assms(1)])

theorem running_loop_terminates_witness:
  "while_loop (running_step no_plugins sample_config False) (start_step no_plugins sample_config (sample_scheduler\<lparr>waiting := [], running := [''r'']\<rparr>)) \<noteq> None"
proof (rule running_loop_terminates)
  show "config_ok sample_config" by (simp add: config_ok_def sample_config_def)
  show "between_steps sample_config (sample_scheduler\<lparr>waiting := [], running := [''r'']\<rparr>)"
    by (auto simp: between_steps_def sample_scheduler_def sample_config_def objects_ok_def split: if_splits)
qed

end
