(* ===== verification/Spec2Isabelle.thy ===== *)
theory Spec2Isabelle
  imports Free_Block_Queue Math_Utils Request_Model Block_Hash Block_Map Kv_Metrics Block_Pool Encoder_Cache
    Stop_Check Request_Queue Kv_Spec Cache_Hit Single_Type_Manager Manager_Refs Manager_Admission Kv_Coordinator
    Hybrid_Lookup Coordinator_Refs Coordinator_Admission Kv_Cache_Manager Kv_Manager_Refs Kv_Manager_Admission Prefix_Admission
    Kv_Layout Kv_Config Kv_Planning Kv_Grouping Kv_Capacity Sched_Update Sched_Admit
begin

text \<open>
  Verification of the engine core of vLLM's v1 engine: the KV cache and the scheduler.

  \<^bold>\<open>The program.\<close>  An inference engine serves many requests at once on one accelerator.  The keys and values of their tokens
  live in a fixed array of blocks.  The engine core (\<^verbatim>\<open>src/vllm/v1/core/\<close>) decides which request owns which block, shares
  blocks between requests with a common prefix, recycles blocks that fell out of an attention window, and admits a request only if its
  blocks are there.  A mistake is silent: two requests that write the same block produce wrong text.  The development
  models this part of the engine from the free list up to the scheduling step and proves that it keeps its promises.

  \<^bold>\<open>The parts and how they interact.\<close>  The scheduler asks \<^verbatim>\<open>KVCacheManager\<close> for the cached prefix of a request and for slots.
  The manager delegates to a \<^verbatim>\<open>KVCacheCoordinator\<close>, which owns one \<^verbatim>\<open>SingleTypeKVCacheManager\<close> per group of layers with the same
  attention type.  All of them share one \<^verbatim>\<open>BlockPool\<close>: block objects with reference counts, the doubly linked free list that is also
  the eviction order, and the index from block hashes to cached blocks.  Hashes are chained over the tokens of a request.  Beside
  this stand the waiting queues, the stop conditions, the encoder cache and the sizing of the KV cache.  On top, \<^verbatim>\<open>Scheduler\<close> alternates
  \<^verbatim>\<open>schedule\<close>, which picks the tokens of a step and preempts requests when blocks run out, and \<^verbatim>\<open>update_from_output\<close>, which takes in what the
  workers sampled, stops requests and frees what they held.

  \<^bold>\<open>Conventions\<close> (\<open>Vllm_Prelude\<close>).  Python integers are \<open>int\<close>; an exception is the left value of a \<open>result\<close>; a dictionary is an
  association list in insertion order; an object that is compared or mutated by reference lives in a store or carries an identity; a
  loop that the source does not bound is a \<open>partial_function (option)\<close>, so that not returning is the value \<open>None\<close>.  A raised exception drops
  the state, since no modelled caller catches it.  A method is a function from the state before to the result and the state after;
  a method that subclasses override dispatches on the class, which is a field.

  \<^bold>\<open>Theories and sources.\<close>
  \<^item> \<open>Free_Block_Queue\<close>: \<^verbatim>\<open>KVCacheBlock\<close>, \<^verbatim>\<open>FreeKVCacheBlockQueue\<close> of \<^verbatim>\<open>kv_cache_utils.py\<close>, as attribute writes on a store of blocks.  The
    pointer operations refine operations on a list; the locale \<open>eviction_queue\<close> is what the pool needs of them.
  \<^item> \<open>Math_Utils\<close>: \<^verbatim>\<open>utils/math_utils.py\<close>.
  \<^item> \<open>Request_Model\<close>: \<^verbatim>\<open>v1/request.py\<close> with the records it is built from.
  \<^item> \<open>Block_Hash\<close>: block hashing in \<^verbatim>\<open>kv_cache_utils.py\<close>.  Equal hashes mean equal prefixes when the hash function, a parameter, has no
    collision on the inputs in play; appending tokens keeps the hash list complete; coarser views agree with hashing at that size.
  \<^item> \<open>Block_Map\<close>, \<open>Kv_Metrics\<close>, \<open>Block_Pool\<close>: \<^verbatim>\<open>block_pool.py\<close> and \<^verbatim>\<open>kv_cache_metrics.py\<close>.  \<open>pool_inv\<close> is the invariant of the pool, \<open>pool_step\<close>
    its operations, \<open>client_inv\<close> relates reference counts to a multiset of references held by clients.
  \<^item> \<open>Kv_Spec\<close>: \<^verbatim>\<open>kv_cache_interface.py\<close> and \<^verbatim>\<open>kv_cache_spec_registry.py\<close>.
  \<^item> \<open>Cache_Hit\<close>: the lookups by attention type in \<^verbatim>\<open>single_type_kv_cache_manager.py\<close>, each against a declarative reading of what the
    attention type can reuse.
  \<^item> \<open>Single_Type_Manager\<close>, \<open>Manager_Refs\<close>, \<open>Manager_Admission\<close>: the manager classes; who holds which block; that a prediction of
    \<^verbatim>\<open>get_num_blocks_to_allocate\<close> is enough for the allocation that follows.  The locale \<open>ref_holder\<close> is the contract between a holder of
    references and the pool, proved once for loops over holders.
  \<^item> \<open>Kv_Coordinator\<close>, \<open>Hybrid_Lookup\<close>, \<open>Coordinator_Refs\<close>, \<open>Coordinator_Admission\<close>: \<^verbatim>\<open>kv_cache_coordinator.py\<close>.  The locale \<open>finder\<close> turns the
    fixed-point lookup of hybrid models into a search for a greatest common element; \<open>budgeted_loop\<close> is the argument that a budget of free blocks lasts
    through a loop over all groups.
  \<^item> \<open>Kv_Cache_Manager\<close>, \<open>Kv_Manager_Refs\<close>, \<open>Kv_Manager_Admission\<close>, \<open>Prefix_Admission\<close>: \<^verbatim>\<open>kv_cache_manager.py\<close>.  \<open>km_step\<close> has a rule per operation, the
    calls on the shared pool included; \<open>km_reachable\<close> are the states they reach from construction in any order.
  \<^item> \<open>Encoder_Cache\<close>: \<^verbatim>\<open>encoder_cache_manager.py\<close>.  \<open>Stop_Check\<close>: \<^verbatim>\<open>sched/utils.py\<close>.  \<open>Binary_Heap\<close>, \<open>Request_Queue\<close>: \<^verbatim>\<open>sched/request_queue.py\<close> over the
    algorithms of \<^verbatim>\<open>heapq\<close>, whose order contract is the locale \<open>weak_order\<close>.
  \<^item> \<open>Kv_Layout\<close>: \<^verbatim>\<open>kv_cache_layout.py\<close>, the byte strides and views of \<^verbatim>\<open>kv_cache_interface.py\<close>, \<^verbatim>\<open>allocate_kv_cache\<close> of \<^verbatim>\<open>worker/utils.py\<close>.
  \<^item> \<open>Kv_Config\<close>, \<open>Kv_Planning\<close>, \<open>Kv_Grouping\<close>, \<open>Kv_Capacity\<close>: the planning half of \<^verbatim>\<open>kv_cache_utils.py\<close>, from the specifications of the
    layers to the configuration of every worker.  \<open>spec_blocks\<close> is the number of blocks that a specification needs for a request of the
    maximum length, free of byte arithmetic; \<open>wf_group\<close> and \<open>made_of\<close> are what the grouping promises of a group.
  \<^item> \<open>Sched_State\<close>, \<open>Sched_Chunk\<close>, \<open>Sched_Loop\<close>, \<open>Sched_Output\<close>, \<open>Sched_Update\<close>: \<^verbatim>\<open>sched/scheduler.py\<close>, \<^verbatim>\<open>sched/async_scheduler.py\<close> and \<^verbatim>\<open>sched/output.py\<close>.  The
    attributes that never change are \<open>sched_config\<close>, the others \<open>scheduler\<close>; requests live in a store under their ids, and the lists and queues hold ids.
    \<open>sched_step\<close> are the local variables of \<^verbatim>\<open>schedule\<close>; its loops are iterations of \<open>running_step\<close> and \<open>waiting_step\<close>.  Connectors, grammars and the
    block hasher are the record \<open>externals\<close>, over a state of their own.
  \<^item> \<open>Sched_Encoder\<close>, \<open>Sched_Mamba\<close>: the chunk that a request gets.  \<open>Request_Frame\<close>: the KV cache manager changes nothing of a request but what it
    memoises.  \<open>Sched_Budget\<close>, \<open>Sched_Safety\<close>, \<open>Sched_Admit\<close>: the invariants of the two loops.  \<open>Sched_Sample\<close>: a small configuration for examples.

  \<^bold>\<open>What is shown.\<close>  Ownership: in every reachable state of the manager the reference count of a block is the number of its holders, so a block in
  use is never free and never handed out again.  Admission: for models of attention groups \<^verbatim>\<open>allocate_slots\<close> refuses a request
  exactly when the full-sequence gate or the counted blocks exceed what is free, and otherwise no allocation fails; that the caching of full blocks, which ends
  the call, returns is shown for a call of the pool on blocks without hashes, not for the whole manager.  Prefix caching: equal hashes imply equal contents under
  the conditions of \<open>hashed_request\<close>, and a lookup of a hybrid model finds exactly the longest prefix that every group can serve under \<open>hybrid_ok\<close> (full attention
  of one specification, sliding windows and Mamba, whole blocks, no EAGLE, no context parallelism); with EAGLE the sliding-window lookup is not the longest, as a
  counterexample shows.  Scheduling: a step that returns is within its budgets whatever it preempted, the loop over the running requests with its preemption loop
  returns, and the encoder outputs that the tokens of a step need are there.  Planning: every layer is in one group, made from the specifications of its layers, and
  the planned blocks are enough for a request of the maximum length.  Further lemmas cover eviction order, queue order, stop conditions and encoder space.

  \<^bold>\<open>Bounds.\<close>  No theorem rests on fuel.  The loops given by \<open>partial_function\<close> (the traversal of the free list, the fixed point of the hybrid
  lookup, the hashing of blocks, the loop over the running requests) are shown to return under the invariants of their callers.  For the loop over the
  waiting requests, whose connectors are parameters, only what holds when it returns is shown.

  \<^bold>\<open>Parameters.\<close>  Hash functions, the digest of prompt embeddings, the sizes of data types, the clock, the random draws, and
  the plug-ins of the scheduler are arguments.

  \<^bold>\<open>Not modelled.\<close>  Of the scheduler: statistics, events, log probabilities, routing data and shutdown.  The work on tensors (model runners,
  attention backends, kernels, models), transports, servers and configuration parsing hold no allocation state.  Log messages are left out
  everywhere.
\<close>

end
